(* ===== verification/Prelude.thy ===== *)
theory Prelude
  imports Complex_Main "HOL-Library.List_Lexorder" "HOL-Library.Char_ord" "HOL-Library.AList"
begin

text \<open>
  Shared material of the development: Python exceptions as values, the result type
  \<open>exc + 'a\<close> with its sequencing, insertion-ordered dictionaries as association lists,
  decimal printing, and the generic lemmas the component theories rely on.
  Text is a sequence of characters (code points below 256), Python's unbounded integers are
  \<open>int\<close> or \<open>nat\<close>, and Python floats are exact rationals.
\<close>

named_theorems res_simps "sequencing of fallible computations"
named_theorems dict_simps "lookups in association-list dictionaries"

section \<open>Exceptions as values\<close>

datatype exc =
    ValueError string
  | KeyError string
  | RuntimeError string
  | TypeError string
  | AssertionError string
  | FileNotFoundError string
  | OtherError string string

fun exc_name :: "exc \<Rightarrow> string" where
  "exc_name (ValueError _) = ''ValueError''"
| "exc_name (KeyError _) = ''KeyError''"
| "exc_name (RuntimeError _) = ''RuntimeError''"
| "exc_name (TypeError _) = ''TypeError''"
| "exc_name (AssertionError _) = ''AssertionError''"
| "exc_name (FileNotFoundError _) = ''FileNotFoundError''"
| "exc_name (OtherError n _) = n"

fun exc_detail :: "exc \<Rightarrow> string" where
  "exc_detail (ValueError m) = m"
| "exc_detail (KeyError m) = m"
| "exc_detail (RuntimeError m) = m"
| "exc_detail (TypeError m) = m"
| "exc_detail (AssertionError m) = m"
| "exc_detail (FileNotFoundError m) = m"
| "exc_detail (OtherError _ m) = m"

section \<open>Sequencing\<close>

fun bind_res :: "'e + 'a \<Rightarrow> ('a \<Rightarrow> 'e + 'b) \<Rightarrow> 'e + 'b" where
  "bind_res (Inl e) f = Inl e"
| "bind_res (Inr x) f = f x"

fun map_res :: "('a \<Rightarrow> 'e + 'b) \<Rightarrow> 'a list \<Rightarrow> 'e + 'b list" where
  "map_res f [] = Inr []"
| "map_res f (x # xs) = bind_res (f x) (\<lambda>y. bind_res (map_res f xs) (\<lambda>ys. Inr (y # ys)))"

definition guard_res :: "bool \<Rightarrow> 'e \<Rightarrow> 'e + unit" where
  "guard_res b e = (if b then Inr () else Inl e)"

lemma bind_res_Inr [res_simps]:
  "bind_res m f = Inr y \<longleftrightarrow> (\<exists>x. m = Inr x \<and> f x = Inr y)"
  by (cases m) auto

lemma bind_res_Inl [res_simps]:
  "bind_res m f = Inl e \<longleftrightarrow> m = Inl e \<or> (\<exists>x. m = Inr x \<and> f x = Inl e)"
  by (cases m) auto

lemma guard_res_Inr [res_simps]: "guard_res b e = Inr u \<longleftrightarrow> b"
  by (simp add: guard_res_def)

lemma guard_res_Inl [res_simps]: "guard_res b e = Inl e' \<longleftrightarrow> \<not> b \<and> e' = e"
  by (auto simp: guard_res_def)

lemma map_res_Inr_length: "map_res f xs = Inr ys \<Longrightarrow> length ys = length xs"
  by (induction xs arbitrary: ys) (auto simp: res_simps)

lemma map_res_Inr_nth:
  "map_res f xs = Inr ys \<Longrightarrow> i < length xs \<Longrightarrow> f (xs ! i) = Inr (ys ! i)"
proof (induction xs arbitrary: ys i)
  case Nil
  then show ?case by simp
next
  case (Cons x xs)
  then show ?case by (cases i) (auto simp: res_simps)
qed

lemma map_res_total: "(\<And>x. x \<in> set xs \<Longrightarrow> f x = Inr (g x)) \<Longrightarrow> map_res f xs = Inr (map g xs)"
  by (induction xs) auto

section \<open>Dictionaries in insertion order\<close>

text \<open>
  A Python dict is an association list with distinct keys; \<open>AList.update\<close> writes a key in
  place or appends it, which is the order Python keeps.
\<close>

type_synonym ('k, 'v) dict = "('k \<times> 'v) list"

definition dict_wf :: "('k, 'v) dict \<Rightarrow> bool" where
  "dict_wf d \<longleftrightarrow> distinct (map fst d)"

lemma dict_update_lookup [dict_simps]:
  "map_of (AList.update k v d) k' = (if k' = k then Some v else map_of d k')"
  by (simp add: update_conv')

lemma dict_update_keys [dict_simps]: "fst ` set (AList.update k v d) = insert k (fst ` set d)"
  by (simp add: dom_update)

lemma dict_update_wf: "dict_wf d \<Longrightarrow> dict_wf (AList.update k v d)"
  by (simp add: dict_wf_def distinct_update)

lemma dict_update_keys_in: "k \<in> fst ` set d \<Longrightarrow> map fst (AList.update k v d) = map fst d"
  by (simp add: update_keys)

lemma dict_mem_lookup: "dict_wf d \<Longrightarrow> (k, v) \<in> set d \<longleftrightarrow> map_of d k = Some v"
  by (simp add: dict_wf_def)

lemma dict_filter_wf: "dict_wf d \<Longrightarrow> dict_wf (filter P d)"
  by (simp add: dict_wf_def distinct_map_filter)

section \<open>Decimal printing\<close>

fun nat_digits :: "nat \<Rightarrow> nat list" where
  "nat_digits n = (if n < 10 then [n] else nat_digits (n div 10) @ [n mod 10])"

declare nat_digits.simps [simp del]

definition digit_char :: "nat \<Rightarrow> char" where
  "digit_char d = ''0123456789'' ! d"

definition nat_str :: "nat \<Rightarrow> string" where
  "nat_str n = map digit_char (nat_digits n)"

definition int_str :: "int \<Rightarrow> string" where
  "int_str i = (if i < 0 then ''-'' @ nat_str (nat (- i)) else nat_str (nat i))"

lemma nat_digits_less: "d \<in> set (nat_digits n) \<Longrightarrow> d < 10"
proof (induction n rule: nat_digits.induct)
  case (1 n)
  then show ?case
    by (cases "n < 10") (auto simp: nat_digits.simps [of n])
qed

lemma nat_digits_value: "foldl (\<lambda>a d. 10 * a + d) 0 (nat_digits n) = n"
proof (induction n rule: nat_digits.induct)
  case (1 n)
  then show ?case
    by (cases "n < 10") (auto simp: nat_digits.simps [of n])
qed

lemma nat_digits_inj: "nat_digits m = nat_digits n \<Longrightarrow> m = n"
  by (metis nat_digits_value)

lemma digit_char_inj: "a < 10 \<Longrightarrow> b < 10 \<Longrightarrow> digit_char a = digit_char b \<Longrightarrow> a = b"
  using nth_eq_iff_index_eq [of "''0123456789''" a b] by (simp add: digit_char_def)

lemma digit_char_digit: "d < 10 \<Longrightarrow> digit_char d \<in> set ''0123456789''"
  unfolding digit_char_def by (rule nth_mem) simp

lemma nat_str_inj: "nat_str m = nat_str n \<Longrightarrow> m = n"
proof -
  assume eq: "nat_str m = nat_str n"
  have inj: "inj_on digit_char (set (nat_digits m) \<union> set (nat_digits n))"
    by (intro inj_onI) (auto dest: digit_char_inj nat_digits_less)
  from eq have "map digit_char (nat_digits m) = map digit_char (nat_digits n)"
    by (simp add: nat_str_def)
  with inj have "nat_digits m = nat_digits n"
    by (simp add: inj_on_map_eq_map)
  then show "m = n" by (rule nat_digits_inj)
qed

text \<open>Rounding to an integer, ties to even, and the format \<open>f"{x:.0f}"\<close> built on it.\<close>

definition round_even :: "rat \<Rightarrow> int" where
  "round_even x =
     (let f = floor x; d = x - of_int f
      in if d < 1 / 2 then f else if d > 1 / 2 then f + 1 else if even f then f else f + 1)"

definition fmt0 :: "rat \<Rightarrow> string" where
  "fmt0 x = int_str (round_even x)"

section \<open>Strings\<close>

text \<open>Python's \<open>sep.join(xs)\<close>.\<close>

fun join_str :: "string \<Rightarrow> string list \<Rightarrow> string" where
  "join_str sep [] = []"
| "join_str sep [x] = x"
| "join_str sep (x # y # ys) = x @ sep @ join_str sep (y # ys)"

text \<open>\<open>repr\<close> of a list of plain strings.\<close>

definition list_repr :: "string list \<Rightarrow> string" where
  "list_repr xs = ''['' @ join_str '', '' (map (\<lambda>s. [CHR 0x27] @ s @ [CHR 0x27]) xs) @ '']''"

text \<open>Python's \<open>text.rstrip("\n")\<close>.\<close>

definition nl :: char where
  "nl = CHR 0x0A"

definition rstrip_nl :: "string \<Rightarrow> string" where
  "rstrip_nl s = rev (dropWhile (\<lambda>c. c = nl) (rev s))"

lemma length_rstrip_nl: "length (rstrip_nl s) \<le> length s"
  by (simp add: rstrip_nl_def) (metis length_dropWhile_le length_rev)

text \<open>Python's \<open>str.splitlines()\<close> and \<open>str.strip()\<close> on the code points below 256.\<close>

definition line_breaks :: string where
  "line_breaks = [CHR 0x0A, CHR 0x0B, CHR 0x0C, CHR 0x0D, CHR 0x1C, CHR 0x1D, CHR 0x1E, CHR 0x85]"

fun split_lines :: "string \<Rightarrow> string \<Rightarrow> string list" where
  "split_lines cur [] = (if cur = [] then [] else [rev cur])"
| "split_lines cur [c] = (if c \<in> set line_breaks then [rev cur] else [rev (c # cur)])"
| "split_lines cur (c # d # cs) =
     (if c = CHR 0x0D \<and> d = CHR 0x0A then rev cur # split_lines [] cs
      else if c \<in> set line_breaks then rev cur # split_lines [] (d # cs)
      else split_lines (c # cur) (d # cs))"

definition splitlines :: "string \<Rightarrow> string list" where
  "splitlines s = split_lines [] s"

definition whitespace :: string where
  "whitespace = line_breaks @ [CHR 0x09, CHR 0x1F, CHR 0x20, CHR 0xA0]"

definition strip_ws :: "string \<Rightarrow> string" where
  "strip_ws s = rev (dropWhile (\<lambda>c. c \<in> set whitespace) (rev (dropWhile (\<lambda>c. c \<in> set whitespace) s)))"

text \<open>\<open>xs[-n:]\<close>.\<close>

definition take_last :: "nat \<Rightarrow> 'a list \<Rightarrow> 'a list" where
  "take_last n xs = drop (length xs - n) xs"

text \<open>Python's \<open>sorted(set)\<close> on strings: code-point order, no duplicates.\<close>

definition sorted_strs :: "string set \<Rightarrow> string list" where
  "sorted_strs S = sorted_list_of_set S"

lemma set_sorted_strs [simp]: "finite S \<Longrightarrow> set (sorted_strs S) = S"
  by (simp add: sorted_strs_def)

lemma sorted_strs_inj: "finite S \<Longrightarrow> finite T \<Longrightarrow> sorted_strs S = sorted_strs T \<longleftrightarrow> S = T"
  by (metis set_sorted_strs)

end
