(* ===== verification/Effects.thy ===== *)
theory Effects
  imports Prelude
begin

text \<open>
  Effects as explicit state passing. An action takes a world and returns a result and the world
  it leaves, on the error paths too. What the program asks of git, of the file system and of
  child processes is recorded in the world's trace and answered by an oracle, an arbitrary
  function of the trace so far; so a theorem about traces holds for every behaviour of those
  tools.
\<close>

type_synonym ('w, 'e, 'a) act = "'w \<Rightarrow> ('e + 'a) \<times> 'w"

section \<open>Actions\<close>

definition ret :: "'a \<Rightarrow> ('w, 'e, 'a) act" where
  "ret x w = (Inr x, w)"

definition raise :: "'e \<Rightarrow> ('w, 'e, 'a) act" where
  "raise e w = (Inl e, w)"

definition seq :: "('w, 'e, 'a) act \<Rightarrow> ('a \<Rightarrow> ('w, 'e, 'b) act) \<Rightarrow> ('w, 'e, 'b) act" where
  "seq m f w = (case m w of (Inl e, w') \<Rightarrow> (Inl e, w') | (Inr x, w') \<Rightarrow> f x w')"

definition also_then :: "('w, 'e, 'a) act \<Rightarrow> ('w, 'e, 'b) act \<Rightarrow> ('w, 'e, 'b) act" where
  "also_then m n = seq m (\<lambda>_. n)"

text \<open>\<open>try: m finally: n\<close>; an exception of the cleanup replaces the outcome of the body.\<close>

definition finally_do :: "('w, 'e, 'a) act \<Rightarrow> ('w, 'e, 'b) act \<Rightarrow> ('w, 'e, 'a) act" where
  "finally_do m n w =
     (case m w of (r, w') \<Rightarrow> (case n w' of (Inl e, w'') \<Rightarrow> (Inl e, w'') | (Inr _, w'') \<Rightarrow> (r, w'')))"

definition catch :: "('w, 'e, 'a) act \<Rightarrow> ('e \<Rightarrow> ('w, 'd, 'a) act) \<Rightarrow> ('w, 'd, 'a) act" where
  "catch m h w = (case m w of (Inl e, w') \<Rightarrow> h e w' | (Inr x, w') \<Rightarrow> (Inr x, w'))"

definition lift_err :: "('e \<Rightarrow> 'd) \<Rightarrow> ('w, 'e, 'a) act \<Rightarrow> ('w, 'd, 'a) act" where
  "lift_err f m = catch m (\<lambda>e. raise (f e))"

definition when_do :: "bool \<Rightarrow> ('w, 'e, unit) act \<Rightarrow> ('w, 'e, unit) act" where
  "when_do b m = (if b then m else ret ())"

named_theorems act_simps "unfolding of actions"

lemmas [act_simps] =
  ret_def raise_def seq_def also_then_def finally_do_def catch_def lift_err_def when_do_def

section \<open>The traced world\<close>

datatype call =
    Git string "string list"
  | Fs string "string list"
  | Proc "string list" string

datatype proc_result =
    Finished int string string
  | TimedOut

record world =
  wd_trace :: "call list"

record tools =
  or_git :: "call list \<Rightarrow> string \<Rightarrow> string list \<Rightarrow> exc + string"
  or_fs :: "call list \<Rightarrow> string \<Rightarrow> string list \<Rightarrow> exc + bool"
  or_proc :: "call list \<Rightarrow> string list \<Rightarrow> string \<Rightarrow> exc + proc_result"

definition note_call :: "call \<Rightarrow> 'x world_scheme \<Rightarrow> 'x world_scheme" where
  "note_call c w = w\<lparr>wd_trace := wd_trace w @ [c]\<rparr>"

definition git :: "'o tools_scheme \<Rightarrow> string \<Rightarrow> string list \<Rightarrow> ('x world_scheme, exc, string) act" where
  "git orc dir args w = (or_git orc (wd_trace w) dir args, note_call (Git dir args) w)"

definition fs :: "'o tools_scheme \<Rightarrow> string \<Rightarrow> string list \<Rightarrow> ('x world_scheme, exc, bool) act" where
  "fs orc op args w = (or_fs orc (wd_trace w) op args, note_call (Fs op args) w)"

definition proc :: "'o tools_scheme \<Rightarrow> string list \<Rightarrow> string \<Rightarrow> ('x world_scheme, exc, proc_result) act" where
  "proc orc argv cwd w = (or_proc orc (wd_trace w) argv cwd, note_call (Proc argv cwd) w)"

lemma trace_note [simp]: "wd_trace (note_call c w) = wd_trace w @ [c]"
  by (simp add: note_call_def)

section \<open>Inversion\<close>

named_theorems act_inv "successful runs of the combinators"

lemma seq_Inr [act_inv]:
  "seq m f w = (Inr y, w') \<longleftrightarrow> (\<exists>x w1. m w = (Inr x, w1) \<and> f x w1 = (Inr y, w'))"
  by (auto simp: seq_def split: prod.splits sum.splits)

lemma also_then_Inr [act_inv]:
  "also_then m n w = (Inr y, w') \<longleftrightarrow> (\<exists>x w1. m w = (Inr x, w1) \<and> n w1 = (Inr y, w'))"
  by (simp add: also_then_def seq_Inr)

lemma lift_err_Inr [act_inv]: "lift_err g m w = (Inr y, w') \<longleftrightarrow> m w = (Inr y, w')"
  by (auto simp: lift_err_def catch_def raise_def split: prod.splits sum.splits)

lemma finally_Inr [act_inv]:
  "finally_do m n w = (Inr y, w') \<longleftrightarrow> (\<exists>z w1. m w = (Inr y, w1) \<and> n w1 = (Inr z, w'))"
  by (auto simp: finally_do_def split: prod.splits sum.splits)

lemma catch_Inr [act_inv]:
  "catch m h w = (Inr y, w') \<longleftrightarrow>
     m w = (Inr y, w') \<or> (\<exists>e w1. m w = (Inl e, w1) \<and> h e w1 = (Inr y, w'))"
  by (auto simp: catch_def split: prod.splits sum.splits)

lemma ret_Inr [act_inv]: "ret x w = (Inr y, w') \<longleftrightarrow> y = x \<and> w' = w"
  by (auto simp: ret_def)

lemma raise_Inr [act_inv]: "raise e w = (Inr y, w') \<longleftrightarrow> False"
  by (simp add: raise_def)

section \<open>What an action may raise\<close>

definition raises :: "('e \<Rightarrow> bool) \<Rightarrow> ('w, 'e, 'a) act \<Rightarrow> bool" where
  "raises E m \<longleftrightarrow> (\<forall>w e w'. m w = (Inl e, w') \<longrightarrow> E e)"

named_theorems raises_intros "closure of raises under the combinators"

lemma raises_run: "raises E m \<Longrightarrow> m w = (Inl e, w') \<Longrightarrow> E e"
  unfolding raises_def by blast

lemma raises_ret [raises_intros]: "raises E (ret x)"
  by (simp add: raises_def ret_def)

lemma raises_raise [raises_intros]: "E e \<Longrightarrow> raises E (raise e)"
  by (simp add: raises_def raise_def)

lemma raises_seq [raises_intros]: "raises E m \<Longrightarrow> (\<And>x. raises E (f x)) \<Longrightarrow> raises E (seq m f)"
  unfolding raises_def seq_def by (fastforce split: prod.splits sum.splits)

lemma raises_also_then [raises_intros]: "raises E m \<Longrightarrow> raises E n \<Longrightarrow> raises E (also_then m n)"
  by (simp add: also_then_def raises_seq)

lemma raises_when_do [raises_intros]: "raises E m \<Longrightarrow> raises E (when_do b m)"
  by (simp add: when_do_def raises_ret)

lemma raises_lift_err [raises_intros]: "raises (\<lambda>e. F (g e)) m \<Longrightarrow> raises F (lift_err g m)"
  unfolding raises_def lift_err_def catch_def raise_def by (auto split: prod.splits sum.splits)

section \<open>Framing\<close>

text \<open>
  \<open>steps R m\<close>: the action relates the world it is given to the world it leaves by \<open>R\<close>, on
  every path. For a preorder \<open>R\<close> this is closed under the combinators.
\<close>

definition steps :: "('w \<Rightarrow> 'w \<Rightarrow> bool) \<Rightarrow> ('w, 'e, 'a) act \<Rightarrow> bool" where
  "steps R m \<longleftrightarrow> (\<forall>w. R w (snd (m w)))"

lemma steps_run: "steps R m \<Longrightarrow> m w = (r, w') \<Longrightarrow> R w w'"
  unfolding steps_def by (metis snd_conv)

lemma stepsI: "(\<And>w r w'. m w = (r, w') \<Longrightarrow> R w w') \<Longrightarrow> steps R m"
  unfolding steps_def by (metis prod.collapse)

locale act_frame =
  fixes R :: "'w \<Rightarrow> 'w \<Rightarrow> bool"
  assumes frame_refl: "R w w"
    and frame_trans: "R u v \<Longrightarrow> R v w \<Longrightarrow> R u w"
begin

lemma frame_ret: "steps R (ret x)" "steps R (raise e)"
  by (simp_all add: steps_def ret_def raise_def frame_refl)

lemma frame_seq:
  assumes m: "steps R m" and f: "\<And>x. steps R (f x)"
  shows "steps R (seq m f)"
proof (rule stepsI)
  fix w r w'
  assume run: "seq m f w = (r, w')"
  obtain r1 w1 where 1: "m w = (r1, w1)" by fastforce
  note R1 = steps_run [OF m 1]
  show "R w w'"
  proof (cases r1)
    case (Inl e)
    then show ?thesis using run 1 R1 by (simp add: seq_def)
  next
    case (Inr x)
    then have "f x w1 = (r, w')" using run 1 by (simp add: seq_def)
    from frame_trans [OF R1 steps_run [OF f this]] show ?thesis .
  qed
qed

lemma frame_catch:
  assumes m: "steps R m" and h: "\<And>e. steps R (h e)"
  shows "steps R (catch m h)"
proof (rule stepsI)
  fix w r w'
  assume run: "catch m h w = (r, w')"
  obtain r1 w1 where 1: "m w = (r1, w1)" by fastforce
  note R1 = steps_run [OF m 1]
  show "R w w'"
  proof (cases r1)
    case (Inl e)
    then have "h e w1 = (r, w')" using run 1 by (simp add: catch_def)
    from frame_trans [OF R1 steps_run [OF h this]] show ?thesis .
  next
    case (Inr x)
    then show ?thesis using run 1 R1 by (simp add: catch_def)
  qed
qed

lemma frame_finally: "steps R m \<Longrightarrow> steps R n \<Longrightarrow> steps R (finally_do m n)"
proof (rule stepsI)
  fix w r w'
  assume m: "steps R m" and n: "steps R n" and run: "finally_do m n w = (r, w')"
  obtain r1 w1 where 1: "m w = (r1, w1)" by fastforce
  obtain r2 w2 where 2: "n w1 = (r2, w2)" by fastforce
  have "w' = w2" using run 1 2 by (auto simp: finally_do_def split: sum.splits)
  with frame_trans [OF steps_run [OF m 1] steps_run [OF n 2]] show "R w w'" by simp
qed

lemma frame_also_then: "steps R m \<Longrightarrow> steps R n \<Longrightarrow> steps R (also_then m n)"
  by (simp add: also_then_def frame_seq)

lemma frame_when_do: "(b \<Longrightarrow> steps R u) \<Longrightarrow> steps R (when_do b u)"
  by (simp add: when_do_def frame_ret)

lemma frame_lift_err: "steps R m \<Longrightarrow> steps R (lift_err g m)"
  by (simp add: lift_err_def frame_catch frame_ret)

end

text \<open>Preorders every outside call respects.\<close>

locale call_frame = act_frame R for R :: "'x world_scheme \<Rightarrow> 'x world_scheme \<Rightarrow> bool" +
  assumes frame_call: "R w (note_call c w)"
begin

lemma frame_git: "steps R (git orc dir args)"
  by (simp add: steps_def git_def frame_call)

lemma frame_fs: "steps R (fs orc op args)"
  by (simp add: steps_def fs_def frame_call)

lemma frame_proc: "steps R (proc orc argv cwd)"
  by (simp add: steps_def proc_def frame_call)

lemmas frames = frame_ret frame_seq frame_catch frame_finally frame_also_then frame_when_do
  frame_lift_err frame_git frame_fs frame_proc

end

lemma steps_if:
  "(b \<Longrightarrow> steps R m) \<Longrightarrow> (\<not> b \<Longrightarrow> steps R n) \<Longrightarrow> steps R (if b then m else n)"
  by simp

section \<open>What an action appends\<close>

text \<open>\<open>emits P m\<close>: every call the action makes satisfies \<open>P\<close>, and it erases none.\<close>

definition trace_ext :: "(call \<Rightarrow> bool) \<Rightarrow> 'x world_scheme \<Rightarrow> 'x world_scheme \<Rightarrow> bool" where
  "trace_ext P w w' \<longleftrightarrow> (\<exists>cs. wd_trace w' = wd_trace w @ cs \<and> (\<forall>c \<in> set cs. P c))"

definition emits :: "(call \<Rightarrow> bool) \<Rightarrow> ('x world_scheme, 'e, 'a) act \<Rightarrow> bool" where
  "emits P m \<longleftrightarrow> steps (trace_ext P) m"

interpretation trace: act_frame "trace_ext P"
proof
  fix w show "trace_ext P w w" by (simp add: trace_ext_def)
next
  fix u v w assume "trace_ext P u v" "trace_ext P v w"
  then obtain cs ds where "wd_trace v = wd_trace u @ cs" "\<forall>c \<in> set cs. P c"
    "wd_trace w = wd_trace v @ ds" "\<forall>c \<in> set ds. P c" unfolding trace_ext_def by blast
  then show "trace_ext P u w"
    unfolding trace_ext_def by (intro exI [of _ "cs @ ds"]) auto
qed

lemma emits_run:
  "emits P m \<Longrightarrow> m w = (r, w') \<Longrightarrow> \<exists>cs. wd_trace w' = wd_trace w @ cs \<and> (\<forall>c \<in> set cs. P c)"
  using steps_run [of "trace_ext P" m w r w'] by (simp add: emits_def trace_ext_def)

lemma emits_mono: "emits P m \<Longrightarrow> (\<And>c. P c \<Longrightarrow> Q c) \<Longrightarrow> emits Q m"
  unfolding emits_def steps_def trace_ext_def by blast

named_theorems emits_intros "closure of emits under the combinators"

lemma emits_ret [emits_intros]: "emits P (ret x)" "emits P (raise e)"
  unfolding emits_def by (rule trace.frame_ret)+

lemma emits_seq [emits_intros]: "emits P m \<Longrightarrow> (\<And>x. emits P (f x)) \<Longrightarrow> emits P (seq m f)"
  unfolding emits_def by (rule trace.frame_seq)

lemma emits_catch [emits_intros]: "emits P m \<Longrightarrow> (\<And>e. emits P (h e)) \<Longrightarrow> emits P (catch m h)"
  unfolding emits_def by (rule trace.frame_catch)

lemma emits_finally [emits_intros]: "emits P m \<Longrightarrow> emits P n \<Longrightarrow> emits P (finally_do m n)"
  unfolding emits_def by (rule trace.frame_finally)

lemma emits_also_then [emits_intros]: "emits P m \<Longrightarrow> emits P n \<Longrightarrow> emits P (also_then m n)"
  unfolding emits_def by (rule trace.frame_also_then)

lemma emits_when_do [emits_intros]: "(b \<Longrightarrow> emits P u) \<Longrightarrow> emits P (when_do b u)"
  unfolding emits_def by (rule trace.frame_when_do)

lemma emits_lift_err [emits_intros]: "emits P m \<Longrightarrow> emits P (lift_err g m)"
  unfolding emits_def by (rule trace.frame_lift_err)

lemma emits_if [emits_intros]:
  "(b \<Longrightarrow> emits P m) \<Longrightarrow> (\<not> b \<Longrightarrow> emits P n) \<Longrightarrow> emits P (if b then m else n)"
  by simp

lemma emits_calls [emits_intros]:
  "P (Git dir args) \<Longrightarrow> emits P (git orc dir args)"
  "P (Fs op args) \<Longrightarrow> emits P (fs orc op args)"
  "P (Proc argv cwd) \<Longrightarrow> emits P (proc orc argv cwd)"
  by (simp_all add: emits_def steps_def trace_ext_def git_def fs_def proc_def)

section \<open>How often an action makes a call\<close>

definition atmost :: "(call \<Rightarrow> bool) \<Rightarrow> nat \<Rightarrow> ('x world_scheme, 'e, 'a) act \<Rightarrow> bool" where
  "atmost P n m \<longleftrightarrow> (\<forall>w. \<exists>cs. wd_trace (snd (m w)) = wd_trace w @ cs \<and> length (filter P cs) \<le> n)"

lemma atmost_run:
  "atmost P n m \<Longrightarrow> m w = (r, w') \<Longrightarrow> \<exists>cs. wd_trace w' = wd_trace w @ cs \<and> length (filter P cs) \<le> n"
  unfolding atmost_def by (metis snd_conv)

lemma atmostI:
  "(\<And>w r w'. m w = (r, w') \<Longrightarrow> \<exists>cs. wd_trace w' = wd_trace w @ cs \<and> length (filter P cs) \<le> n) \<Longrightarrow>
     atmost P n m"
  unfolding atmost_def by (metis prod.collapse)

lemma atmost_mono: "atmost P n m \<Longrightarrow> n \<le> k \<Longrightarrow> atmost P k m"
  unfolding atmost_def by (meson le_trans)

lemma atmost_none: "emits (\<lambda>c. \<not> P c) m \<Longrightarrow> atmost P 0 m"
  by (rule atmostI) (auto dest!: emits_run simp: filter_empty_conv)

lemma atmost_two_parts:
  assumes "\<exists>cs. wd_trace v = wd_trace u @ cs \<and> length (filter P cs) \<le> a"
    and "\<exists>ds. wd_trace w = wd_trace v @ ds \<and> length (filter P ds) \<le> b"
  shows "\<exists>es. wd_trace w = wd_trace u @ es \<and> length (filter P es) \<le> a + b"
proof -
  from assms obtain cs ds where "wd_trace v = wd_trace u @ cs" "length (filter P cs) \<le> a"
    "wd_trace w = wd_trace v @ ds" "length (filter P ds) \<le> b" by blast
  then show ?thesis by (intro exI [of _ "cs @ ds"]) simp
qed

lemma atmost_seq:
  assumes m: "atmost P a m" and f: "\<And>x. atmost P b (f x)"
  shows "atmost P (a + b) (seq m f)"
proof (rule atmostI)
  fix w r w'
  assume run: "seq m f w = (r, w')"
  obtain r1 w1 where 1: "m w = (r1, w1)" by fastforce
  note n1 = atmost_run [OF m 1]
  show "\<exists>cs. wd_trace w' = wd_trace w @ cs \<and> length (filter P cs) \<le> a + b"
  proof (cases r1)
    case (Inl e)
    then have "w' = w1" using run 1 by (simp add: seq_def)
    with n1 show ?thesis using trans_le_add1 by blast
  next
    case (Inr x)
    then have "f x w1 = (r, w')" using run 1 by (simp add: seq_def)
    from atmost_two_parts [OF n1 atmost_run [OF f this]] show ?thesis .
  qed
qed

lemma atmost_catch:
  assumes m: "atmost P a m" and h: "\<And>e. atmost P b (h e)"
  shows "atmost P (a + b) (catch m h)"
proof (rule atmostI)
  fix w r w'
  assume run: "catch m h w = (r, w')"
  obtain r1 w1 where 1: "m w = (r1, w1)" by fastforce
  note n1 = atmost_run [OF m 1]
  show "\<exists>cs. wd_trace w' = wd_trace w @ cs \<and> length (filter P cs) \<le> a + b"
  proof (cases r1)
    case (Inr x)
    then have "w' = w1" using run 1 by (simp add: catch_def)
    with n1 show ?thesis using trans_le_add1 by blast
  next
    case (Inl e)
    then have "h e w1 = (r, w')" using run 1 by (simp add: catch_def)
    from atmost_two_parts [OF n1 atmost_run [OF h this]] show ?thesis .
  qed
qed

lemma atmost_finally:
  assumes m: "atmost P a m" and n: "atmost P b n"
  shows "atmost P (a + b) (finally_do m n)"
proof (rule atmostI)
  fix w r w'
  assume run: "finally_do m n w = (r, w')"
  obtain r1 w1 where 1: "m w = (r1, w1)" by fastforce
  obtain r2 w2 where 2: "n w1 = (r2, w2)" by fastforce
  have "w' = w2" using run 1 2 by (auto simp: finally_do_def split: sum.splits)
  with atmost_two_parts [OF atmost_run [OF m 1] atmost_run [OF n 2]]
  show "\<exists>cs. wd_trace w' = wd_trace w @ cs \<and> length (filter P cs) \<le> a + b" by simp
qed

lemma atmost_also_then: "atmost P a m \<Longrightarrow> atmost P b n \<Longrightarrow> atmost P (a + b) (also_then m n)"
  by (simp add: also_then_def atmost_seq)

lemma atmost_lift_err:
  assumes "atmost P a m"
  shows "atmost P a (lift_err g m)"
proof -
  have "atmost P 0 (raise (g e))" for e by (rule atmost_none [OF emits_ret(2)])
  from atmost_catch [OF assms this] show ?thesis by (simp add: lift_err_def)
qed

end
