(* ===== verification/Json.thy ===== *)
theory Json
  imports Prelude
begin

text \<open>
  JSON values and the text \<open>json.dumps(value, sort_keys=True, separators=(",", ":"))\<close> writes
  for them, which the program hashes into cache keys and digests. \<open>fr\<close> is CPython's
  \<open>float.__repr__\<close>. The theorem of the theory is that the text determines the value.
\<close>

datatype json =
    JNull
  | JBool bool
  | JInt int
  | JFloat rat
  | JStr string
  | JArr "json list"
  | JObj "(string \<times> json) list"

section \<open>String literals\<close>

definition hex_digit :: "nat \<Rightarrow> char" where
  "hex_digit n = ''0123456789abcdef'' ! n"

definition hex_value :: "char \<Rightarrow> nat" where
  "hex_value c = (let n = of_char c in if n < 58 then n - 48 else n - 87)"

abbreviation quote :: char where "quote \<equiv> CHR 0x22"
abbreviation bslash :: char where "bslash \<equiv> CHR 0x5C"

definition printable :: "char \<Rightarrow> bool" where
  "printable c \<longleftrightarrow> 32 \<le> (of_char c :: nat) \<and> (of_char c :: nat) < 127"

definition esc_char :: "char \<Rightarrow> string" where
  "esc_char c =
     (if c = quote then [bslash, quote]
      else if c = bslash then [bslash, bslash]
      else if printable c then [c]
      else if c = CHR 0x0A then [bslash, CHR ''n'']
      else if c = CHR 0x0D then [bslash, CHR ''r'']
      else if c = CHR 0x09 then [bslash, CHR ''t'']
      else if c = CHR 0x0C then [bslash, CHR ''f'']
      else if c = CHR 0x08 then [bslash, CHR ''b'']
      else [bslash, CHR ''u'', CHR ''0'', CHR ''0'',
            hex_digit (of_char c div 16), hex_digit (of_char c mod 16)])"

definition quoted :: "string \<Rightarrow> string" where
  "quoted s = quote # concat (map esc_char s) @ [quote]"

text \<open>The reader of one escaped character, used only to invert the writer.\<close>

fun unesc :: "string \<Rightarrow> (char \<times> string) option" where
  "unesc [] = None"
| "unesc (c # cs) =
     (if c = quote then None
      else if c \<noteq> bslash then Some (c, cs)
      else (case cs of
          [] \<Rightarrow> None
        | d # ds \<Rightarrow>
            (if d = CHR ''n'' then Some (CHR 0x0A, ds)
             else if d = CHR ''r'' then Some (CHR 0x0D, ds)
             else if d = CHR ''t'' then Some (CHR 0x09, ds)
             else if d = CHR ''f'' then Some (CHR 0x0C, ds)
             else if d = CHR ''b'' then Some (CHR 0x08, ds)
             else if d = CHR ''u'' then
               (case ds of
                  _ # _ # h # l # rest \<Rightarrow> Some (char_of (16 * hex_value h + hex_value l), rest)
                | _ \<Rightarrow> None)
             else Some (d, ds))))"

lemma hex_value_digit: "n < 16 \<Longrightarrow> hex_value (hex_digit n) = n"
proof -
  assume "n < 16"
  then have "n \<in> {0,1,2,3,4,5,6,7,8,9,10,11,12,13,14,15}"
    by (simp only: insert_iff empty_iff) arith
  then show ?thesis by (auto simp: hex_value_def hex_digit_def)
qed

lemma unesc_esc: "unesc (esc_char c @ r) = Some (c, r)"
proof -
  have n: "(of_char c :: nat) < 256" by simp
  then have "(of_char c :: nat) div 16 < 16" by (simp add: less_mult_imp_div_less)
  then have "hex_value (hex_digit (of_char c div 16)) = of_char c div 16"
    by (rule hex_value_digit)
  moreover have "hex_value (hex_digit (of_char c mod 16)) = of_char c mod 16"
    by (simp add: hex_value_digit)
  ultimately show ?thesis
    by (simp add: esc_char_def)
qed

lemma esc_char_not_quote: "\<exists>d ds. esc_char c = d # ds \<and> d \<noteq> quote"
  by (simp add: esc_char_def)

lemma quoted_body_inj:
  "concat (map esc_char s) @ quote # r = concat (map esc_char s') @ quote # r' \<Longrightarrow> s = s' \<and> r = r'"
proof (induction s arbitrary: s')
  case Nil
  then show ?case
  proof (cases s')
    case (Cons c cs)
    with Nil esc_char_not_quote [of c] show ?thesis by auto
  qed simp
next
  case (Cons a s)
  show ?case
  proof (cases s')
    case Nil
    with Cons.prems esc_char_not_quote [of a] show ?thesis by auto
  next
    case (Cons b t)
    have "unesc (esc_char a @ concat (map esc_char s) @ quote # r)
        = unesc (esc_char b @ concat (map esc_char t) @ quote # r')"
      using Cons.prems Cons by simp
    then show ?thesis
      using Cons.IH [of t] Cons by (simp add: unesc_esc)
  qed
qed

lemma quoted_inj: "quoted s @ r = quoted s' @ r' \<Longrightarrow> s = s' \<and> r = r'"
  using quoted_body_inj [of s r s' r'] by (simp add: quoted_def)

section \<open>Values\<close>

fun dumps :: "(rat \<Rightarrow> string) \<Rightarrow> json \<Rightarrow> string"
  and dumps_items :: "(rat \<Rightarrow> string) \<Rightarrow> json list \<Rightarrow> string"
  and dumps_members :: "(rat \<Rightarrow> string) \<Rightarrow> (string \<times> json) list \<Rightarrow> string" where
  "dumps fr JNull = ''null''"
| "dumps fr (JBool b) = (if b then ''true'' else ''false'')"
| "dumps fr (JInt i) = int_str i"
| "dumps fr (JFloat x) = fr x"
| "dumps fr (JStr s) = quoted s"
| "dumps fr (JArr xs) = CHR ''['' # dumps_items fr xs @ '']''"
| "dumps fr (JObj ms) = CHR ''{'' # dumps_members fr ms @ ''}''"
| "dumps_items fr [] = []"
| "dumps_items fr [x] = dumps fr x"
| "dumps_items fr (x # y # ys) = dumps fr x @ '','' @ dumps_items fr (y # ys)"
| "dumps_members fr [] = []"
| "dumps_members fr [(k, v)] = quoted k @ '':'' @ dumps fr v"
| "dumps_members fr ((k, v) # m # ms) =
     quoted k @ '':'' @ dumps fr v @ '','' @ dumps_members fr (m # ms)"

text \<open>\<open>sort_keys=True\<close>: every object's members in key order.\<close>

fun canon :: "json \<Rightarrow> json" where
  "canon (JArr xs) = JArr (map canon xs)"
| "canon (JObj ms) = JObj (sort_key fst (map (\<lambda>m. (fst m, canon (snd m))) ms))"
| "canon v = v"

definition dumps_compact :: "(rat \<Rightarrow> string) \<Rightarrow> json \<Rightarrow> string" where
  "dumps_compact fr v = dumps fr (canon v)"

section \<open>The text determines the value\<close>

definition num_char :: "char \<Rightarrow> bool" where
  "num_char c \<longleftrightarrow> c \<in> set ''0123456789+-.e''"

text \<open>What is relied on of \<open>float.__repr__\<close>: a number token that is never an integer token.\<close>

definition float_repr_ok :: "(rat \<Rightarrow> string) \<Rightarrow> bool" where
  "float_repr_ok fr \<longleftrightarrow> inj fr \<and>
     (\<forall>x. fr x \<noteq> [] \<and> list_all num_char (fr x) \<and>
          (CHR ''.'' \<in> set (fr x) \<or> CHR ''e'' \<in> set (fr x)))"

definition closes :: "string \<Rightarrow> bool" where
  "closes r \<longleftrightarrow> r = [] \<or> hd r \<in> {CHR '','', CHR '']'', CHR ''}''}"

lemma nat_digits_nonempty: "nat_digits n \<noteq> []"
  by (subst nat_digits.simps) simp

lemma nat_str_digits: "c \<in> set (nat_str n) \<Longrightarrow> c \<in> set ''0123456789''"
  by (auto simp only: nat_str_def set_map dest: nat_digits_less digit_char_digit)

lemma nat_str_nonempty: "nat_str n \<noteq> []"
  by (simp add: nat_str_def nat_digits_nonempty)

lemma int_str_nonempty: "int_str i \<noteq> []"
  by (simp add: int_str_def nat_str_nonempty)

lemma int_str_chars: "c \<in> set (int_str i) \<Longrightarrow> c \<in> set ''0123456789-''"
  using nat_str_digits by (fastforce simp: int_str_def split: if_splits)

lemma nat_str_no_minus: "CHR ''-'' \<notin> set (nat_str n)"
  using nat_str_digits [of "CHR ''-''" n] by auto

lemma int_str_inj: "int_str i = int_str j \<Longrightarrow> i = j"
proof -
  assume eq: "int_str i = int_str j"
  have "i < 0 \<longleftrightarrow> CHR ''-'' \<in> set (int_str i)" for i
    by (simp add: int_str_def nat_str_no_minus)
  with eq have "i < 0 \<longleftrightarrow> j < 0" by metis
  with eq show "i = j"
    by (auto simp: int_str_def dest!: nat_str_inj split: if_splits)
qed

lemma int_str_num: "list_all num_char (int_str i)"
  using int_str_chars by (fastforce simp: list_all_iff num_char_def)

lemma int_str_no_float: "CHR ''.'' \<notin> set (int_str i)" "CHR ''e'' \<notin> set (int_str i)"
  using int_str_chars by fastforce+

lemma closes_not_num: "closes r \<Longrightarrow> takeWhile num_char r = []"
  by (cases r) (auto simp: closes_def num_char_def)

lemma num_token_inj:
  assumes "list_all num_char s" "list_all num_char t" "closes r" "closes r'" "s @ r = t @ r'"
  shows "s = t \<and> r = r'"
proof -
  have "takeWhile num_char (s @ r) = s"
    using assms(1,3) by (simp add: takeWhile_append list_all_iff closes_not_num)
  moreover have "takeWhile num_char (t @ r') = t"
    using assms(2,4) by (simp add: takeWhile_append list_all_iff closes_not_num)
  ultimately have "s = t" using assms(5) by metis
  with assms(5) show ?thesis by simp
qed

text \<open>The constructor can be read off the first character.\<close>

fun kind_of :: "json \<Rightarrow> nat" where
  "kind_of JNull = 0"
| "kind_of (JBool b) = (if b then 1 else 2)"
| "kind_of (JInt _) = 3"
| "kind_of (JFloat _) = 3"
| "kind_of (JStr _) = 4"
| "kind_of (JArr _) = 5"
| "kind_of (JObj _) = 6"

definition char_kind :: "char \<Rightarrow> nat" where
  "char_kind c =
     (if c = CHR ''n'' then 0 else if c = CHR ''t'' then 1 else if c = CHR ''f'' then 2
      else if num_char c then 3 else if c = quote then 4 else if c = CHR ''['' then 5
      else if c = CHR ''{'' then 6 else 7)"

lemma num_char_kind: "num_char c \<Longrightarrow> char_kind c = 3"
  by (auto simp: num_char_def char_kind_def)

lemma dumps_first:
  "float_repr_ok fr \<Longrightarrow> \<exists>c cs. dumps fr v = c # cs \<and> char_kind c = kind_of v"
proof (cases v)
  case (JInt i)
  then obtain c cs where "int_str i = c # cs" by (cases "int_str i") (auto simp: int_str_nonempty)
  with JInt int_str_num [of i] show ?thesis by (auto simp: num_char_kind)
next
  case (JFloat x)
  moreover assume "float_repr_ok fr"
  ultimately obtain c cs where "fr x = c # cs" "num_char c"
    unfolding float_repr_ok_def by (metis list.exhaust list.pred_inject(2))
  with JFloat show ?thesis by (auto simp: num_char_kind)
qed (auto simp: char_kind_def num_char_def quoted_def)

lemma dumps_kind:
  assumes "float_repr_ok fr" "dumps fr v @ r = dumps fr v' @ r'"
  shows "kind_of v = kind_of v'"
proof -
  obtain c cs d ds where "dumps fr v = c # cs" "char_kind c = kind_of v"
      "dumps fr v' = d # ds" "char_kind d = kind_of v'"
    using dumps_first [OF assms(1)] by metis
  with assms(2) show ?thesis by auto
qed

lemma dumps_nonempty: "float_repr_ok fr \<Longrightarrow> dumps fr v \<noteq> []"
  by (metis dumps_first list.discI)

lemma number_inj:
  assumes fr: "float_repr_ok fr" and k: "kind_of v = 3" "kind_of v' = 3"
    and "closes r" "closes r'" "dumps fr v @ r = dumps fr v' @ r'"
  shows "v = v' \<and> r = r'"
proof -
  have num: "list_all num_char (dumps fr w)" if "kind_of w = 3" for w
    using fr that by (cases w) (auto simp: int_str_num float_repr_ok_def split: if_splits)
  from num_token_inj [OF num num] assms
  have eq: "dumps fr v = dumps fr v'" and "r = r'" by blast+
  have mark: "(\<exists>x. w = JFloat x) \<longleftrightarrow> CHR ''.'' \<in> set (dumps fr w) \<or> CHR ''e'' \<in> set (dumps fr w)"
    if "kind_of w = 3" for w
    using fr that by (cases w) (auto simp: int_str_no_float float_repr_ok_def split: if_splits)
  have "v = v'"
    using k eq mark [of v] mark [of v'] fr
    by (cases v; cases v') (auto dest: int_str_inj simp: float_repr_ok_def inj_eq split: if_splits)
  with \<open>r = r'\<close> show ?thesis by simp
qed

lemma dumps_items_first:
  assumes "float_repr_ok fr"
  shows "dumps_items fr (x # xs) @ r = CHR '']'' # t \<Longrightarrow> False"
proof -
  obtain c cs where "dumps fr x = c # cs" "char_kind c = kind_of x"
    using dumps_first [OF assms] by blast
  moreover have "char_kind (CHR '']'') = 7" by (simp add: char_kind_def num_char_def)
  moreover have "kind_of x < 7" by (cases x) auto
  ultimately show "dumps_items fr (x # xs) @ r = CHR '']'' # t \<Longrightarrow> False"
    by (cases xs) auto
qed

lemma closes_simps [simp]:
  "closes (CHR '','' # r)" "closes (CHR '']'' # r)" "closes (CHR ''}'' # r)" "closes []"
  by (simp_all add: closes_def)

lemma dumps_items_Cons:
  "dumps_items fr (x # xs) = dumps fr x @ (if xs = [] then [] else CHR '','' # dumps_items fr xs)"
  by (cases xs) auto

lemma dumps_members_Cons:
  "dumps_members fr (m # ms) = quoted (fst m) @ '':'' @ dumps fr (snd m) @
     (if ms = [] then [] else CHR '','' # dumps_members fr ms)"
  by (cases ms; cases m) auto

text \<open>
  Any two values whose texts agree, up to what follows them, are equal: the property of one
  value, lifted to the items of an array and the members of an object.
\<close>

definition text_inj :: "(rat \<Rightarrow> string) \<Rightarrow> json \<Rightarrow> bool" where
  "text_inj fr v \<longleftrightarrow> (\<forall>v' r r'. closes r \<longrightarrow> closes r' \<longrightarrow>
     dumps fr v @ r = dumps fr v' @ r' \<longrightarrow> v = v' \<and> r = r')"

lemma text_injD:
  "text_inj fr v \<Longrightarrow> dumps fr v @ r = dumps fr v' @ r' \<Longrightarrow> closes r \<Longrightarrow> closes r' \<Longrightarrow> v = v' \<and> r = r'"
  unfolding text_inj_def by blast

lemma items_inj:
  assumes fr: "float_repr_ok fr"
  shows "(\<And>x. x \<in> set xs \<Longrightarrow> text_inj fr x) \<Longrightarrow>
    dumps_items fr xs @ CHR '']'' # r = dumps_items fr ys @ CHR '']'' # r' \<Longrightarrow> xs = ys \<and> r = r'"
proof (induction xs arbitrary: ys)
  case Nil
  then show ?case
  proof (cases ys)
    case (Cons y zs)
    have "dumps_items fr (y # zs) @ CHR '']'' # r' = CHR '']'' # r"
      using Nil(2) Cons by simp
    then show ?thesis using dumps_items_first [OF fr] by blast
  qed simp
next
  case (Cons x xs)
  show ?case
  proof (cases ys)
    case Nil
    then have "dumps_items fr (x # xs) @ CHR '']'' # r = CHR '']'' # r'"
      using Cons.prems(2) by simp
    then show ?thesis using dumps_items_first [OF fr] by blast
  next
    case ys: (Cons y zs)
    let ?t = "\<lambda>us r. (if us = [] then [] else CHR '','' # dumps_items fr us) @ CHR '']'' # r"
    have eq: "dumps fr x @ ?t xs r = dumps fr y @ ?t zs r'"
      using Cons.prems(2) ys by (simp only: dumps_items_Cons append_assoc)
    have "x = y \<and> ?t xs r = ?t zs r'"
      by (rule text_injD [OF _ eq]) (simp_all add: Cons.prems(1))
    then show ?thesis
      using Cons.IH [of zs] Cons.prems(1) ys by (auto split: if_splits)
  qed
qed

lemma members_inj:
  assumes fr: "float_repr_ok fr"
  shows "(\<And>m. m \<in> set ms \<Longrightarrow> text_inj fr (snd m)) \<Longrightarrow>
    dumps_members fr ms @ CHR ''}'' # r = dumps_members fr ns @ CHR ''}'' # r' \<Longrightarrow> ms = ns \<and> r = r'"
proof (induction ms arbitrary: ns)
  case Nil
  then show ?case by (cases ns) (auto simp: dumps_members_Cons quoted_def)
next
  case (Cons m ms)
  show ?case
  proof (cases ns)
    case Nil
    then show ?thesis using Cons.prems(2) by (simp add: dumps_members_Cons quoted_def)
  next
    case ns: (Cons n ns')
    let ?t = "\<lambda>us r. (if us = [] then [] else CHR '','' # dumps_members fr us) @ CHR ''}'' # r"
    have "quoted (fst m) @ '':'' @ dumps fr (snd m) @ ?t ms r
        = quoted (fst n) @ '':'' @ dumps fr (snd n) @ ?t ns' r'"
      using Cons.prems(2) ns by (simp only: dumps_members_Cons append_assoc)
    from quoted_inj [OF this]
    have k: "fst m = fst n" and eq: "dumps fr (snd m) @ ?t ms r = dumps fr (snd n) @ ?t ns' r'"
      by simp_all
    have "snd m = snd n \<and> ?t ms r = ?t ns' r'"
      by (rule text_injD [OF _ eq]) (simp_all add: Cons.prems(1))
    then show ?thesis
      using Cons.IH [of ns'] Cons.prems(1) ns k by (auto simp: prod_eq_iff split: if_splits)
  qed
qed

lemma text_inj_number: "float_repr_ok fr \<Longrightarrow> kind_of v = 3 \<Longrightarrow> text_inj fr v"
  unfolding text_inj_def using dumps_kind number_inj by metis

lemma text_inj_all: "float_repr_ok fr \<Longrightarrow> text_inj fr v"
proof (induction v)
  case JNull
  show ?case unfolding text_inj_def
  proof (intro allI impI)
    fix v' r r'
    assume "dumps fr JNull @ r = dumps fr v' @ r'"
    with dumps_kind [OF JNull this] show "JNull = v' \<and> r = r'"
      by (cases v') (auto split: if_splits)
  qed
next
  case (JBool b)
  show ?case unfolding text_inj_def
  proof (intro allI impI)
    fix v' r r'
    assume "dumps fr (JBool b) @ r = dumps fr v' @ r'"
    with dumps_kind [OF JBool this] show "JBool b = v' \<and> r = r'"
      by (cases v') (auto split: if_splits)
  qed
next
  case (JStr s)
  show ?case unfolding text_inj_def
  proof (intro allI impI)
    fix v' r r'
    assume *: "dumps fr (JStr s) @ r = dumps fr v' @ r'"
    then obtain t where "v' = JStr t"
      using dumps_kind [OF JStr *] by (cases v') (auto split: if_splits)
    with * quoted_inj [of s r t r'] show "JStr s = v' \<and> r = r'" by simp
  qed
next
  case (JArr xs)
  show ?case unfolding text_inj_def
  proof (intro allI impI)
    fix v' r r'
    assume *: "dumps fr (JArr xs) @ r = dumps fr v' @ r'"
    then obtain ys where "v' = JArr ys"
      using dumps_kind [OF JArr.prems *] by (cases v') (auto split: if_splits)
    with * items_inj [OF JArr.prems JArr.IH [OF _ JArr.prems], of xs r ys r']
    show "JArr xs = v' \<and> r = r'" by simp
  qed
next
  case (JObj ms)
  show ?case unfolding text_inj_def
  proof (intro allI impI)
    fix v' r r'
    assume *: "dumps fr (JObj ms) @ r = dumps fr v' @ r'"
    then obtain ns where "v' = JObj ns"
      using dumps_kind [OF JObj.prems *] by (cases v') (auto split: if_splits)
    moreover have "m \<in> set ms \<Longrightarrow> text_inj fr (snd m)" for m
      using JObj.IH [of m "snd m"] JObj.prems by (cases m) simp
    ultimately show "JObj ms = v' \<and> r = r'"
      using * members_inj [OF JObj.prems, of ms r ns r'] by simp
  qed
qed (simp_all add: text_inj_number)

theorem dumps_inj: "float_repr_ok fr \<Longrightarrow> dumps fr v = dumps fr v' \<Longrightarrow> v = v'"
  using text_injD [OF text_inj_all, of fr v "[]" v' "[]"] by simp

text \<open>Equal texts have equal canonical values.\<close>

lemma dumps_compact_canon:
  "float_repr_ok fr \<Longrightarrow> dumps_compact fr v = dumps_compact fr v' \<Longrightarrow> canon v = canon v'"
  unfolding dumps_compact_def by (rule dumps_inj)

text \<open>Objects with the same keys in the same order agree exactly when their values do.\<close>

lemma sort_key_keys_inj:
  assumes "distinct (map fst xs)" "map fst xs = map fst ys" "sort_key fst xs = sort_key fst ys"
  shows "xs = ys"
proof (rule nth_equalityI)
  show len: "length xs = length ys" using assms(2) by (metis length_map)
  fix i assume i: "i < length xs"
  have "set xs = set ys" using assms(3) by (metis set_sort)
  with nth_mem [OF i] have mem: "xs ! i \<in> set ys" by simp
  have key: "fst (xs ! i) = fst (ys ! i)" using assms(2) i len by (metis nth_map)
  have "distinct (map fst ys)" using assms(1,2) by simp
  then have "map_of ys (fst (xs ! i)) = Some (snd (xs ! i))"
    using mem by (intro map_of_is_SomeI) simp_all
  moreover have "map_of ys (fst (ys ! i)) = Some (snd (ys ! i))"
    using \<open>distinct (map fst ys)\<close> i len by (intro map_of_is_SomeI) (simp_all add: nth_mem)
  ultimately show "xs ! i = ys ! i" using key by (simp add: prod_eq_iff)
qed

lemma canon_same_keys:
  assumes "distinct (map fst ms)" "map fst ms = map fst ns"
  shows "canon (JObj ms) = canon (JObj ns) \<longleftrightarrow> map (canon \<circ> snd) ms = map (canon \<circ> snd) ns"
proof -
  let ?c = "map (\<lambda>m. (fst m, canon (snd m)))"
  have keys: "map fst (?c xs) = map fst xs" for xs by (simp add: o_def)
  have "sort_key fst (?c ms) = sort_key fst (?c ns) \<longleftrightarrow> ?c ms = ?c ns"
  proof
    assume "sort_key fst (?c ms) = sort_key fst (?c ns)"
    moreover have "distinct (map fst (?c ms))" unfolding keys by (rule assms(1))
    moreover have "map fst (?c ms) = map fst (?c ns)" unfolding keys by (rule assms(2))
    ultimately show "?c ms = ?c ns" by (rule sort_key_keys_inj [rotated 2])
  qed simp
  also have "\<dots> \<longleftrightarrow> map (canon \<circ> snd) ms = map (canon \<circ> snd) ns"
    using assms(2)
  proof (induction ms arbitrary: ns)
    case (Cons m ms)
    then obtain n ns' where "ns = n # ns'" "fst m = fst n" "map fst ms = map fst ns'"
      by (cases ns) auto
    with Cons.IH [of ns'] show ?case by simp
  qed simp
  finally show ?thesis by simp
qed

lemma map_sort_key: "(\<And>x. k (g x) = h x) \<Longrightarrow> map g (sort_key h xs) = sort_key k (map g xs)"
proof -
  assume k: "\<And>x. k (g x) = h x"
  have "map g (insort_key h a ys) = insort_key k (g a) (map g ys)" for a ys
    by (induction ys) (auto simp: k)
  then show ?thesis by (induction xs) auto
qed

lemma sort_key_sorted: "sort_key k (sort_key k xs) = sort_key k xs"
  by (simp add: sort_key_id_if_sorted)

lemma map_of_sort_key:
  fixes xs :: "('k :: linorder \<times> 'v) list"
  shows "map_of (sort_key fst xs) k = map_of xs k"
proof -
  have "map_of ys k = map_of (filter (\<lambda>p. fst p = k) ys) k" for ys
    by (induction ys) auto
  then show ?thesis by (metis sort_key_stable)
qed

lemma canon_idem: "canon (canon v) = canon v"
proof (induction v)
  case (JObj ms)
  let ?c = "\<lambda>m. (fst m, canon (snd m))"
  have "map ?c (sort_key fst (map ?c ms)) = sort_key fst (map ?c (map ?c ms))"
    by (rule map_sort_key) simp
  moreover have "map ?c (map ?c ms) = map ?c ms"
    using JObj by (auto simp: snds.simps)
  ultimately show ?case by (simp only: canon.simps sort_key_sorted)
qed (simp_all add: o_def)

lemma canon_key_set:
  assumes "canon (JObj ms) = canon (JObj ns)"
  shows "fst ` set ms = fst ` set ns"
proof -
  let ?c = "map (\<lambda>m. (fst m, canon (snd m)))"
  have keys: "fst ` set xs = fst ` set (sort_key fst (?c xs))" for xs :: "(string \<times> json) list"
    by (simp add: image_image)
  have "sort_key fst (?c ms) = sort_key fst (?c ns)" using assms by simp
  then show ?thesis unfolding keys [of ms] keys [of ns] by (rule arg_cong)
qed

lemma canon_simps [simp]:
  "map canon (map JStr xs) = map JStr xs"
  "canon (JArr (map JStr xs)) = JArr (map JStr xs)"
  by (simp_all add: o_def)

text \<open>What an object maps a key to survives canonicalisation.\<close>

lemma canon_obj_lookup:
  "canon (JObj ms) = canon (JObj ns) \<Longrightarrow> map_option canon (map_of ms k) = map_option canon (map_of ns k)"
proof -
  have look: "map_of (sort_key fst (map (\<lambda>m. (fst m, canon (snd m))) xs)) k = map_option canon (map_of xs k)" for xs
    unfolding map_of_sort_key by (induction xs) auto
  assume "canon (JObj ms) = canon (JObj ns)"
  then have "sort_key fst (map (\<lambda>m. (fst m, canon (snd m))) ms) = sort_key fst (map (\<lambda>m. (fst m, canon (snd m))) ns)"
    by simp
  then show ?thesis by (metis look)
qed

text \<open>A float printer of the documented kind: numerator, point, denominator.\<close>

definition sample_repr :: "rat \<Rightarrow> string" where
  "sample_repr x = int_str (fst (quotient_of x)) @ ''.'' @ int_str (snd (quotient_of x))"

lemma split_at_point:
  "a @ CHR ''.'' # b = c @ CHR ''.'' # d \<Longrightarrow> CHR ''.'' \<notin> set a \<Longrightarrow> CHR ''.'' \<notin> set c \<Longrightarrow> a = c \<and> b = d"
proof (induction a arbitrary: c)
  case Nil
  then show ?case by (cases c) auto
next
  case (Cons x a)
  then show ?case by (cases c) auto
qed

lemma sample_repr_ok: "float_repr_ok sample_repr"
proof -
  have "inj sample_repr"
  proof (rule injI)
    fix x y assume "sample_repr x = sample_repr y"
    then have "int_str (fst (quotient_of x)) = int_str (fst (quotient_of y)) \<and>
        int_str (snd (quotient_of x)) = int_str (snd (quotient_of y))"
      using split_at_point [of "int_str (fst (quotient_of x))" "int_str (snd (quotient_of x))"
          "int_str (fst (quotient_of y))" "int_str (snd (quotient_of y))"] int_str_no_float(1)
      by (simp add: sample_repr_def)
    then have "quotient_of x = quotient_of y" by (simp add: prod_eq_iff int_str_inj)
    then show "x = y" by (rule quotient_of_inject)
  qed
  moreover have "list_all num_char (sample_repr x)" for x
    by (simp add: sample_repr_def int_str_num) (simp add: num_char_def)
  ultimately show ?thesis
    by (simp add: float_repr_ok_def) (simp add: sample_repr_def)
qed

end
