(* ===== verification/Records.thy ===== *)
theory Records
  imports Json
begin

text \<open>
  \<open>src/rollout/records.py\<close>: the persisted shapes of a rollout and of a run, with the
  validators pydantic runs when one is constructed or parsed. A datetime is a number of
  microseconds; a metric value (\<open>int | float\<close>) is a rational.
\<close>

section \<open>Failure taxonomy\<close>

datatype run_kind = KindBaseline | KindCandidate | KindEval

datatype failure_mode =
    Solved
  | VerifiedRejected
  | HitStepCap
  | HitTimeout
  | VerifyTimeout
  | NoValidAction
  | Crash
  | UnscorableInfra

datatype failure_origin = OriginPolicy | OriginEnv

definition UNSCORABLE_FAILURE_MODES :: "failure_mode set" where
  "UNSCORABLE_FAILURE_MODES = {Crash, UnscorableInfra}"

definition VERDICT_UNTRUSTED_FAILURE_MODES :: "failure_mode set" where
  "VERDICT_UNTRUSTED_FAILURE_MODES = UNSCORABLE_FAILURE_MODES \<union> {VerifyTimeout}"

datatype decision_outcome = Promoted | Rejected | InvalidInfra

datatype secondary_outcome = CandidateBetter | BaselineBetter | Tied | Unavailable

section \<open>One rollout\<close>

datatype infra_retry =
    ExecutionDriftRetry nat
  | SlowLlmRetry rat rat rat rat

type_synonym metrics = "(string, rat) dict"

record rollout_result =
  rr_task_id :: string
  rr_failure_mode :: failure_mode
  rr_failure_origin :: "failure_origin option"
  rr_error :: "string option"
  rr_metrics :: metrics
  rr_rollout_dir :: "string option"
  rr_trace_path :: "string option"
  rr_infra_retries :: "infra_retry list"
  rr_started_at :: "nat option"
  rr_finished_at :: "nat option"

definition check_outcome_invariants :: "rollout_result \<Rightarrow> exc + rollout_result" where
  "check_outcome_invariants r =
     (if (rr_failure_mode r = Crash) \<noteq> (rr_failure_origin r \<noteq> None)
      then Inl (ValueError ''failure_origin must be present exactly for crash results'')
      else if rr_error r \<noteq> None \<and> rr_failure_mode r = Solved
      then Inl (ValueError ''errored rollouts cannot be solved'')
      else Inr r)"

definition rollout_ok :: "rollout_result \<Rightarrow> bool" where
  "rollout_ok r \<longleftrightarrow> ((rr_failure_mode r = Crash) = (rr_failure_origin r \<noteq> None)) \<and>
     (rr_failure_mode r = Solved \<longrightarrow> rr_error r = None)"

section \<open>Decisions and identities\<close>

record secondary_reward =
  sr_name :: string
  sr_baseline_value :: "rat option"
  sr_candidate_value :: "rat option"
  sr_outcome :: secondary_outcome

record result_decision =
  rd_outcome :: decision_outcome
  rd_reason :: string
  rd_candidate_solved :: "string list"
  rd_baseline_solved :: "string list"
  rd_new_solves :: "string list"
  rd_regressions :: "string list"
  rd_secondary_rewards :: "secondary_reward list"
  rd_invalid_infra_tasks :: "string list"
  rd_criterion :: "string option"

record measurement_identity =
  mi_effective_config_digest :: string
  mi_provider_revision :: string
  mi_replay_regime_digest :: string

definition identity_json :: "measurement_identity \<Rightarrow> json" where
  "identity_json m = JObj
     [(''effective_config_digest'', JStr (mi_effective_config_digest m)),
      (''provider_revision'', JStr (mi_provider_revision m)),
      (''replay_regime_digest'', JStr (mi_replay_regime_digest m))]"

text \<open>\<open>sha\<close> stands for SHA-256's hex digest of the UTF-8 text.\<close>

definition identity_digest :: "(string \<Rightarrow> string) \<Rightarrow> measurement_identity \<Rightarrow> string" where
  "identity_digest sha m = sha (dumps_compact (\<lambda>_. []) (identity_json m))"

datatype cert_verdict = Deterministic | Forked | NoChain

record task_certification =
  tc_chain_digest :: string
  tc_verdict :: cert_verdict

section \<open>One run\<close>

record experiment_result =
  ex_experiment_id :: string
  ex_git_commit_hash :: string
  ex_measurement_identity :: measurement_identity
  ex_git_dirty :: bool
  ex_config_path :: "string option"
  ex_kind :: "run_kind option"
  ex_parent_commit_hash :: "string option"
  ex_baseline_experiment_id :: "string option"
  ex_config :: "json option"
  ex_started_at :: nat
  ex_finished_at :: "nat option"
  ex_crash_reason :: "string option"
  ex_tasks :: "(string, rollout_result option) dict"
  ex_decision :: "result_decision option"
  ex_determinism_certification :: "(string, task_certification) dict option"

fun check_task_entries :: "(string, rollout_result option) dict \<Rightarrow> exc + unit" where
  "check_task_entries [] = Inr ()"
| "check_task_entries ((task_id, rollout) # rest) =
     (case rollout of
        None \<Rightarrow> Inl (ValueError ''finished experiments require task results'')
      | Some r \<Rightarrow>
          (if rr_task_id r \<noteq> task_id
           then Inl (ValueError ''task result id must match its map key'')
           else check_task_entries rest))"

definition check_crash_timestamp_consistency :: "experiment_result \<Rightarrow> exc + experiment_result" where
  "check_crash_timestamp_consistency e =
     (if ex_crash_reason e \<noteq> None \<and> ex_finished_at e = None
      then Inl (ValueError ''crashed experiments must have finished_at'')
      else if ex_finished_at e \<noteq> None \<and> ex_crash_reason e = None
      then bind_res (check_task_entries (ex_tasks e)) (\<lambda>_. Inr e)
      else Inr e)"

definition check_rollouts :: "(string, rollout_result option) dict \<Rightarrow> exc + unit" where
  "check_rollouts tasks =
     bind_res (map_res check_outcome_invariants (List.map_filter snd tasks)) (\<lambda>_. Inr ())"

text \<open>Parsing a stored run validates the nested rollouts first, then the run itself.\<close>

definition validate_experiment :: "experiment_result \<Rightarrow> exc + experiment_result" where
  "validate_experiment e =
     bind_res (check_rollouts (ex_tasks e)) (\<lambda>_. check_crash_timestamp_consistency e)"

definition experiment_ok :: "experiment_result \<Rightarrow> bool" where
  "experiment_ok e \<longleftrightarrow> validate_experiment e = Inr e"

record run_index_row =
  ix_experiment_id :: string
  ix_kind :: run_kind
  ix_git_commit_hash :: string
  ix_measurement_identity_digest :: string
  ix_parent_commit_hash :: "string option"
  ix_baseline_experiment_id :: "string option"
  ix_started_at :: nat
  ix_finished_at :: nat
  ix_crash_reason :: "string option"
  ix_solved :: nat
  ix_verdict :: "decision_outcome option"
  ix_reason :: "string option"

definition solved_task_ids :: "experiment_result \<Rightarrow> string set" where
  "solved_task_ids e =
     set (map fst (filter (\<lambda>(task_id, rollout).
        case rollout of None \<Rightarrow> False | Some r \<Rightarrow> rr_failure_mode r = Solved) (ex_tasks e)))"

definition error_text :: "exc \<Rightarrow> string" where
  "error_text e =
     (if exc_detail e \<noteq> [] then exc_name e @ '': '' @ exc_detail e else exc_name e)"

section \<open>Facts\<close>

lemma check_outcome_ok: "check_outcome_invariants r = Inr r' \<longleftrightarrow> r' = r \<and> rollout_ok r"
  by (auto simp: check_outcome_invariants_def rollout_ok_def)

lemma check_task_entries_ok:
  "check_task_entries ts = Inr u \<longleftrightarrow>
     (\<forall>(k, ro) \<in> set ts. \<exists>r. ro = Some r \<and> rr_task_id r = k)"
  by (induction ts rule: check_task_entries.induct) (auto split: option.splits)

lemma map_res_check: "(\<exists>ys. map_res check_outcome_invariants xs = Inr ys) \<longleftrightarrow> (\<forall>r \<in> set xs. rollout_ok r)"
  by (induction xs) (auto simp: res_simps check_outcome_ok)

lemma check_rollouts_ok:
  "check_rollouts ts = Inr u \<longleftrightarrow> (\<forall>r. Some r \<in> snd ` set ts \<longrightarrow> rollout_ok r)"
  using map_res_check [of "List.map_filter snd ts"]
  by (force simp: check_rollouts_def res_simps map_filter_def image_iff)

lemma experiment_ok_iff:
  "experiment_ok e \<longleftrightarrow>
     (\<forall>r. Some r \<in> snd ` set (ex_tasks e) \<longrightarrow> rollout_ok r) \<and>
     (ex_crash_reason e \<noteq> None \<longrightarrow> ex_finished_at e \<noteq> None) \<and>
     (ex_finished_at e \<noteq> None \<and> ex_crash_reason e = None \<longrightarrow>
        (\<forall>(k, ro) \<in> set (ex_tasks e). \<exists>r. ro = Some r \<and> rr_task_id r = k))"
  unfolding experiment_ok_def validate_experiment_def check_crash_timestamp_consistency_def
  by (auto simp: res_simps check_rollouts_ok check_task_entries_ok split: if_splits)

lemma validate_experiment_Inr: "validate_experiment e = Inr e' \<longleftrightarrow> e' = e \<and> experiment_ok e"
proof -
  have "validate_experiment e = Inr e' \<Longrightarrow> e' = e"
    unfolding validate_experiment_def check_crash_timestamp_consistency_def
    by (auto simp: res_simps split: if_splits)
  then show ?thesis unfolding experiment_ok_def by auto
qed

lemma finite_solved [simp]: "finite (solved_task_ids e)"
  by (simp add: solved_task_ids_def)

lemma solved_iff:
  "t \<in> solved_task_ids e \<longleftrightarrow> (\<exists>r. (t, Some r) \<in> set (ex_tasks e) \<and> rr_failure_mode r = Solved)"
  by (force simp: solved_task_ids_def split: option.splits)

lemma solved_subset_tasks: "solved_task_ids e \<subseteq> fst ` set (ex_tasks e)"
  by (force simp: solved_iff)

lemma untrusted_not_solved: "Solved \<notin> VERDICT_UNTRUSTED_FAILURE_MODES"
  by (simp add: VERDICT_UNTRUSTED_FAILURE_MODES_def UNSCORABLE_FAILURE_MODES_def)

lemma untrusted_iff:
  "m \<in> VERDICT_UNTRUSTED_FAILURE_MODES \<longleftrightarrow> m = Crash \<or> m = UnscorableInfra \<or> m = VerifyTimeout"
  by (auto simp: VERDICT_UNTRUSTED_FAILURE_MODES_def UNSCORABLE_FAILURE_MODES_def)

lemma unscorable_iff: "m \<in> UNSCORABLE_FAILURE_MODES \<longleftrightarrow> m = Crash \<or> m = UnscorableInfra"
  by (auto simp: UNSCORABLE_FAILURE_MODES_def)

section \<open>Concrete runs\<close>

text \<open>Small runs on which the properties of the development are evaluated.\<close>

definition sample_rollout :: "string \<Rightarrow> failure_mode \<Rightarrow> rollout_result" where
  "sample_rollout t mode =
     \<lparr>rr_task_id = t, rr_failure_mode = mode,
      rr_failure_origin = (if mode = Crash then Some OriginEnv else None), rr_error = None,
      rr_metrics = [], rr_rollout_dir = None, rr_trace_path = None, rr_infra_retries = [],
      rr_started_at = None, rr_finished_at = None\<rparr>"

definition sample_run :: "string \<Rightarrow> string \<Rightarrow> (string \<times> failure_mode) list \<Rightarrow> experiment_result" where
  "sample_run rid commit tasks =
     \<lparr>ex_experiment_id = rid, ex_git_commit_hash = commit,
      ex_measurement_identity = \<lparr>mi_effective_config_digest = ''cfg'',
         mi_provider_revision = ''rev'', mi_replay_regime_digest = ''reg''\<rparr>,
      ex_git_dirty = False, ex_config_path = None, ex_kind = Some KindCandidate,
      ex_parent_commit_hash = None, ex_baseline_experiment_id = None, ex_config = None,
      ex_started_at = 0, ex_finished_at = Some 1, ex_crash_reason = None,
      ex_tasks = map (\<lambda>(t, mode). (t, Some (sample_rollout t mode))) tasks,
      ex_decision = None, ex_determinism_certification = None\<rparr>"

end
