(* ===== verification/Metrics.thy ===== *)
theory Metrics
  imports Records
begin

text \<open>
  \<open>src/rollout/metrics.py\<close> and the SWE-bench metric of \<open>src/env/swe.py\<close>: the secondary
  rewards that break exact solved-set ties. A metric is a record of its class attributes and its
  \<open>values\<close> method. Where the code iterates over a frozenset, whose order Python does not fix, the
  model iterates in the order of the run's own task map.
\<close>

definition FIRST_ATTEMPT_VALID_KEY :: string where
  "FIRST_ATTEMPT_VALID_KEY = ''first_attempt_valid''"

definition FIRST_ATTEMPT_TOTAL_KEY :: string where
  "FIRST_ATTEMPT_TOTAL_KEY = ''first_attempt_total''"

definition STEPS_USED_KEY :: string where
  "STEPS_USED_KEY = ''steps_used''"

definition F2P_PASSED_KEY :: string where
  "F2P_PASSED_KEY = ''fail_to_pass_passed''"

definition P2P_FAILED_KEY :: string where
  "P2P_FAILED_KEY = ''pass_to_pass_failed''"

section \<open>The comparison\<close>

record secondary_metric =
  sm_name :: string
  sm_higher_is_better :: bool
  sm_values :: "experiment_result \<Rightarrow> experiment_result \<Rightarrow> exc + (rat option \<times> rat option)"

definition reward_outcome :: "bool \<Rightarrow> rat option \<Rightarrow> rat option \<Rightarrow> secondary_outcome" where
  "reward_outcome higher_is_better baseline_value candidate_value =
     (case (baseline_value, candidate_value) of
        (Some b, Some c) \<Rightarrow>
          (if c = b then Tied
           else if (c > b) = higher_is_better then CandidateBetter
           else BaselineBetter)
      | _ \<Rightarrow> Unavailable)"

definition metric_compare ::
    "secondary_metric \<Rightarrow> experiment_result \<Rightarrow> experiment_result \<Rightarrow> exc + secondary_reward" where
  "metric_compare m baseline candidate =
     bind_res (sm_values m baseline candidate) (\<lambda>(bv, cv).
       Inr \<lparr>sr_name = sm_name m, sr_baseline_value = bv, sr_candidate_value = cv,
            sr_outcome = reward_outcome (sm_higher_is_better m) bv cv\<rparr>)"

definition scorable :: "rollout_result option \<Rightarrow> bool" where
  "scorable rollout = (case rollout of None \<Rightarrow> False
     | Some r \<Rightarrow> rr_failure_mode r \<notin> UNSCORABLE_FAILURE_MODES)"

definition metric_get :: "rollout_result \<Rightarrow> string \<Rightarrow> rat" where
  "metric_get r k = (case map_of (rr_metrics r) k of None \<Rightarrow> 0 | Some v \<Rightarrow> v)"

definition has_metric :: "rollout_result \<Rightarrow> string \<Rightarrow> bool" where
  "has_metric r k = (map_of (rr_metrics r) k \<noteq> None)"

text \<open>The rollouts a metric reads: \<open>experiment.tasks[task_id]\<close> for each id of the scope.\<close>

definition in_scope :: "experiment_result \<Rightarrow> string set \<Rightarrow> (string \<times> rollout_result option) list" where
  "in_scope e S = filter (\<lambda>(t, _). t \<in> S) (ex_tasks e)"

definition need_rollout :: "rollout_result option \<Rightarrow> exc + rollout_result" where
  "need_rollout ro = (case ro of None \<Rightarrow> Inl (AssertionError []) | Some r \<Rightarrow> Inr r)"

section \<open>Invalid first attempts\<close>

definition scorable_both :: "experiment_result \<Rightarrow> experiment_result \<Rightarrow> string set" where
  "scorable_both b c =
     {t \<in> fst ` set (ex_tasks b) \<inter> fst ` set (ex_tasks c).
        (\<exists>r. map_of (ex_tasks b) t = Some r \<and> scorable r) \<and>
        (\<exists>r. map_of (ex_tasks c) t = Some r \<and> scorable r)}"

fun invalid_loop ::
    "(string \<times> rollout_result option) list \<Rightarrow> rat \<Rightarrow> rat \<Rightarrow> bool \<Rightarrow> exc + rat option" where
  "invalid_loop [] valid tot published =
     Inr (if published then Some (tot - valid) else None)"
| "invalid_loop ((t, ro) # rest) valid tot published =
     bind_res (need_rollout ro) (\<lambda>r.
       (if has_metric r FIRST_ATTEMPT_VALID_KEY \<noteq> has_metric r FIRST_ATTEMPT_TOTAL_KEY
        then Inl (ValueError (t @ '': first_attempt metric numerator/denominator must be published together''))
        else invalid_loop rest
               (valid + metric_get r FIRST_ATTEMPT_VALID_KEY)
               (tot + metric_get r FIRST_ATTEMPT_TOTAL_KEY)
               (published \<or> has_metric r FIRST_ATTEMPT_TOTAL_KEY)))"

definition invalid_values ::
    "experiment_result \<Rightarrow> experiment_result \<Rightarrow> exc + (rat option \<times> rat option)" where
  "invalid_values b c =
     bind_res (invalid_loop (in_scope b (scorable_both b c)) 0 0 False) (\<lambda>x.
     bind_res (invalid_loop (in_scope c (scorable_both b c)) 0 0 False) (\<lambda>y. Inr (x, y)))"

definition invalid_first_attempts_metric :: secondary_metric where
  "invalid_first_attempts_metric =
     \<lparr>sm_name = ''invalid_first_attempts'', sm_higher_is_better = False, sm_values = invalid_values\<rparr>"

section \<open>Steps used\<close>

fun steps_loop :: "(string \<times> rollout_result option) list \<Rightarrow> rat \<Rightarrow> exc + rat option" where
  "steps_loop [] steps_used = Inr (Some steps_used)"
| "steps_loop ((t, ro) # rest) steps_used =
     bind_res (need_rollout ro) (\<lambda>r.
       (case map_of (rr_metrics r) STEPS_USED_KEY of
          None \<Rightarrow> Inr None
        | Some steps \<Rightarrow> steps_loop rest (steps_used + steps)))"

definition steps_values ::
    "experiment_result \<Rightarrow> experiment_result \<Rightarrow> exc + (rat option \<times> rat option)" where
  "steps_values b c =
     bind_res (steps_loop (in_scope b (solved_task_ids b \<inter> solved_task_ids c)) 0) (\<lambda>x.
     bind_res (steps_loop (in_scope c (solved_task_ids b \<inter> solved_task_ids c)) 0) (\<lambda>y. Inr (x, y)))"

definition steps_used_metric :: secondary_metric where
  "steps_used_metric =
     \<lparr>sm_name = ''steps_used'', sm_higher_is_better = False, sm_values = steps_values\<rparr>"

definition GENERIC_SECONDARY_METRICS :: "secondary_metric list" where
  "GENERIC_SECONDARY_METRICS = [invalid_first_attempts_metric, steps_used_metric]"

section \<open>Fail-to-pass progress (SWE-bench)\<close>

definition contested :: "experiment_result \<Rightarrow> string set" where
  "contested e =
     set (map fst (filter (\<lambda>(t, ro). t \<notin> solved_task_ids e \<and> scorable ro) (ex_tasks e)))"

fun progress_loop :: "(string \<times> rollout_result option) list \<Rightarrow> rat \<Rightarrow> exc + rat" where
  "progress_loop [] tot = Inr tot"
| "progress_loop ((t, ro) # rest) tot =
     bind_res (need_rollout ro) (\<lambda>r.
       progress_loop rest (tot + (metric_get r F2P_PASSED_KEY - metric_get r P2P_FAILED_KEY)))"

definition f2p_values ::
    "experiment_result \<Rightarrow> experiment_result \<Rightarrow> exc + (rat option \<times> rat option)" where
  "f2p_values b c =
     bind_res (progress_loop (in_scope b (contested b \<inter> contested c)) 0) (\<lambda>x.
     bind_res (progress_loop (in_scope c (contested b \<inter> contested c)) 0) (\<lambda>y.
       Inr (Some x, Some y)))"

definition f2p_progress_metric :: secondary_metric where
  "f2p_progress_metric =
     \<lparr>sm_name = ''f2p_progress'', sm_higher_is_better = True, sm_values = f2p_values\<rparr>"

definition SWE_SECONDARY_METRICS :: "secondary_metric list" where
  "SWE_SECONDARY_METRICS = f2p_progress_metric # GENERIC_SECONDARY_METRICS"

section \<open>The contract of a metric\<close>

text \<open>
  The criterion relies on two laws of a metric: swapping the runs swaps the values, and on runs
  whose tasks are all finished the values can be computed.
\<close>

fun swap_outcome :: "secondary_outcome \<Rightarrow> secondary_outcome" where
  "swap_outcome CandidateBetter = BaselineBetter"
| "swap_outcome BaselineBetter = CandidateBetter"
| "swap_outcome o' = o'"

definition swap_reward :: "secondary_reward \<Rightarrow> secondary_reward" where
  "swap_reward r = r\<lparr>sr_baseline_value := sr_candidate_value r,
     sr_candidate_value := sr_baseline_value r, sr_outcome := swap_outcome (sr_outcome r)\<rparr>"

lemma reward_outcome_swap:
  "reward_outcome h c b = swap_outcome (reward_outcome h b c)"
  by (cases h) (auto simp: reward_outcome_def split: option.splits)

locale symmetric_metric =
  fixes m :: secondary_metric
  assumes values_swap: "sm_values m b c = Inr (x, y) \<Longrightarrow> sm_values m c b = Inr (y, x)"
begin

lemma compare_swap:
  assumes "metric_compare m b c = Inr r"
  shows "metric_compare m c b = Inr (swap_reward r)"
proof -
  from assms obtain x y where v: "sm_values m b c = Inr (x, y)"
      and r: "r = \<lparr>sr_name = sm_name m, sr_baseline_value = x, sr_candidate_value = y,
                 sr_outcome = reward_outcome (sm_higher_is_better m) x y\<rparr>"
    by (auto simp: metric_compare_def res_simps)
  from values_swap [OF v] show ?thesis
    by (simp add: metric_compare_def r swap_reward_def
        reward_outcome_swap [of "sm_higher_is_better m" y x])
qed

lemma compare_self:
  assumes "metric_compare m e e = Inr r"
  shows "sr_outcome r = Tied \<or> sr_outcome r = Unavailable"
proof -
  have "r = swap_reward r" using compare_swap [OF assms] assms by simp
  then have "sr_outcome r = swap_outcome (sr_outcome r)"
    by (metis secondary_reward.select_convs(4) secondary_reward.simps(4) secondary_reward.surjective
        secondary_reward.update_convs(4) swap_reward_def)
  then show ?thesis by (cases "sr_outcome r") auto
qed

lemma not_both_better:
  assumes "metric_compare m b c = Inr r" "metric_compare m c b = Inr r'"
  shows "sr_outcome r = CandidateBetter \<longleftrightarrow> sr_outcome r' = BaselineBetter"
  using compare_swap [OF assms(1)] assms(2)
  by (cases "sr_outcome r") (auto simp: swap_reward_def)

end

lemma scorable_both_swap: "scorable_both b c = scorable_both c b"
  by (auto simp: scorable_both_def)

interpretation invalid: symmetric_metric invalid_first_attempts_metric
  by unfold_locales
    (auto simp: invalid_first_attempts_metric_def invalid_values_def res_simps scorable_both_swap)

interpretation steps: symmetric_metric steps_used_metric
  by unfold_locales (auto simp: steps_used_metric_def steps_values_def res_simps Int_commute)

interpretation f2p: symmetric_metric f2p_progress_metric
  by unfold_locales (auto simp: f2p_progress_metric_def f2p_values_def res_simps Int_commute)

section \<open>When the shipped metrics can be computed\<close>

text \<open>
  On finished runs every entry holds a rollout; with the two first-attempt counters published
  together, no shipped metric raises.
\<close>

definition comparable :: "experiment_result \<Rightarrow> bool" where
  "comparable e \<longleftrightarrow> (\<forall>(t, ro) \<in> set (ex_tasks e). \<exists>r. ro = Some r \<and>
     has_metric r FIRST_ATTEMPT_VALID_KEY = has_metric r FIRST_ATTEMPT_TOTAL_KEY)"

lemma comparable_scope: "comparable e \<Longrightarrow> \<forall>(t, ro) \<in> set (in_scope e S). \<exists>r. ro = Some r \<and>
     has_metric r FIRST_ATTEMPT_VALID_KEY = has_metric r FIRST_ATTEMPT_TOTAL_KEY"
  by (auto simp: comparable_def in_scope_def)

lemma invalid_loop_total:
  assumes "\<forall>(t, ro) \<in> set xs. \<exists>r. ro = Some r \<and>
     has_metric r FIRST_ATTEMPT_VALID_KEY = has_metric r FIRST_ATTEMPT_TOTAL_KEY"
  shows "\<exists>v. invalid_loop xs x y p = Inr v"
  using assms
proof (induction xs arbitrary: x y p)
  case Nil
  then show ?case by simp
next
  case (Cons a xs)
  then show ?case by (cases a) (auto simp: need_rollout_def)
qed

lemma steps_loop_total:
  "\<forall>(t, ro) \<in> set xs. ro \<noteq> None \<Longrightarrow> \<exists>v. steps_loop xs x = Inr v"
  by (induction xs x rule: steps_loop.induct) (auto simp: need_rollout_def split: option.split)

lemma progress_loop_total:
  "\<forall>(t, ro) \<in> set xs. ro \<noteq> None \<Longrightarrow> \<exists>v. progress_loop xs x = Inr v"
  by (induction xs x rule: progress_loop.induct) (auto simp: need_rollout_def)

lemma swe_values_total:
  assumes "comparable b" "comparable c" "m \<in> set SWE_SECONDARY_METRICS"
  shows "\<exists>r. metric_compare m b c = Inr r"
proof -
  have some: "\<forall>(t, ro) \<in> set (in_scope e S). ro \<noteq> None" if "comparable e" for e S
    using comparable_scope [OF that, of S] by fastforce
  have "\<exists>x y. sm_values m b c = Inr (x, y)"
    using assms(3)
      invalid_loop_total [OF comparable_scope [OF assms(1), of "scorable_both b c"], of 0 0 False]
      invalid_loop_total [OF comparable_scope [OF assms(2), of "scorable_both b c"], of 0 0 False]
      steps_loop_total [OF some [OF assms(1), of "solved_task_ids b \<inter> solved_task_ids c"], of 0]
      steps_loop_total [OF some [OF assms(2), of "solved_task_ids b \<inter> solved_task_ids c"], of 0]
      progress_loop_total [OF some [OF assms(1), of "contested b \<inter> contested c"], of 0]
      progress_loop_total [OF some [OF assms(2), of "contested b \<inter> contested c"], of 0]
    by (auto simp: SWE_SECONDARY_METRICS_def GENERIC_SECONDARY_METRICS_def f2p_progress_metric_def
        invalid_first_attempts_metric_def steps_used_metric_def f2p_values_def invalid_values_def
        steps_values_def)
  then show ?thesis by (auto simp: metric_compare_def)
qed

lemma swe_symmetric: "m \<in> set SWE_SECONDARY_METRICS \<Longrightarrow> symmetric_metric m"
  using invalid.symmetric_metric_axioms steps.symmetric_metric_axioms f2p.symmetric_metric_axioms
  by (auto simp: SWE_SECONDARY_METRICS_def GENERIC_SECONDARY_METRICS_def)

end
