(* ===== verification/Loss.thy ===== *)
theory Loss
  imports Metrics
begin

text \<open>
  \<open>src/trainer/loss.py\<close>: the solved-set criterion. A Python set of task ids is a \<open>string set\<close>,
  the loss is a rational or infinity, and the two ways the criterion fails (an exception of a
  metric or of the panel guard, and \<open>UnmeasurableRun\<close> with its decision) are a sum type. The
  harness a loss is bound to is the one of the session, so \<open>Loss.harness\<close> is a flag and the
  mutable fields of the harness are passed explicitly.
\<close>

section \<open>Losses and comparisons\<close>

datatype loss_value = LInf | LFin rat

fun selects :: "loss_value \<Rightarrow> bool" where
  "selects LInf = False"
| "selects (LFin v) = (v < 0)"

record comparison =
  cmp_baseline :: experiment_result
  cmp_candidate :: experiment_result
  cmp_candidate_solved :: "string set"
  cmp_invalid_infra_tasks :: "string set"
  cmp_reason :: string
  cmp_secondary_rewards :: "secondary_reward list"
  cmp_baseline_solved :: "string set"
  cmp_regressions :: "string set"
  cmp_new_solves :: "string set"

text \<open>The constructor with its \<open>__post_init__\<close>.\<close>

definition mk_comparison ::
    "experiment_result \<Rightarrow> experiment_result \<Rightarrow> string set \<Rightarrow> string set \<Rightarrow> comparison" where
  "mk_comparison baseline candidate solved invalid =
     \<lparr>cmp_baseline = baseline, cmp_candidate = candidate, cmp_candidate_solved = solved,
      cmp_invalid_infra_tasks = invalid, cmp_reason = [], cmp_secondary_rewards = [],
      cmp_baseline_solved = solved_task_ids baseline,
      cmp_regressions = (solved_task_ids baseline - solved) - invalid,
      cmp_new_solves = solved - solved_task_ids baseline\<rparr>"

record loss =
  ls_value :: loss_value
  ls_criterion :: string
  ls_candidate :: experiment_result
  ls_baseline :: experiment_result
  ls_bound :: bool
  ls_report :: comparison

text \<open>The fields of \<open>Parameter\<close> that the training step writes.\<close>

record harness_fields =
  hf_grad :: "loss option"
  hf_applied :: "string option"

datatype criterion_error =
    CriterionExc exc
  | UnmeasurableRun result_decision

section \<open>Judging\<close>

fun tiebreak_loop ::
    "secondary_metric list \<Rightarrow> experiment_result \<Rightarrow> experiment_result \<Rightarrow>
       exc + (string \<times> secondary_reward list)" where
  "tiebreak_loop [] b c = Inr (''no_net_improvement'', [])"
| "tiebreak_loop (m # ms) b c =
     bind_res (metric_compare m b c) (\<lambda>reward.
       (if sr_outcome reward = CandidateBetter
        then Inr (''secondary_reward_improvement'', [reward])
        else if sr_outcome reward = BaselineBetter
        then Inr (''no_net_improvement'', [reward])
        else bind_res (tiebreak_loop ms b c) (\<lambda>(reason, rewards).
               Inr (reason, reward # rewards))))"

definition compare_runs ::
    "secondary_metric list \<Rightarrow> comparison \<Rightarrow> exc + (string \<times> secondary_reward list)" where
  "compare_runs ms cmp =
     (if cmp_regressions cmp \<noteq> {} then Inr (''regressed_baseline_tasks'', [])
      else if card (cmp_candidate_solved cmp) > card (cmp_baseline_solved cmp)
      then Inr (''strict_improvement_without_regression'', [])
      else tiebreak_loop ms (cmp_baseline cmp) (cmp_candidate cmp))"

fun outcome_sign :: "secondary_outcome \<Rightarrow> rat" where
  "outcome_sign CandidateBetter = - 1"
| "outcome_sign BaselineBetter = 1"
| "outcome_sign _ = 0"

fun tiebreak_value :: "nat \<Rightarrow> secondary_reward list \<Rightarrow> rat \<Rightarrow> rat" where
  "tiebreak_value index [] value = value"
| "tiebreak_value index (r # rs) value =
     tiebreak_value (Suc index) rs (value + (1 / 2 ^ (index + 1)) * outcome_sign (sr_outcome r))"

definition primary_loss :: "comparison \<Rightarrow> int" where
  "primary_loss report =
     - (int (card (cmp_candidate_solved report)) - int (card (cmp_baseline_solved report)))"

definition loss_value_of :: "comparison \<Rightarrow> loss_value" where
  "loss_value_of report =
     (if cmp_regressions report \<noteq> {} then LInf
      else if primary_loss report \<noteq> 0 then LFin (rat_of_int (primary_loss report))
      else LFin (tiebreak_value 0 (cmp_secondary_rewards report) 0))"

definition decision_from_report ::
    "comparison \<Rightarrow> decision_outcome \<Rightarrow> string \<Rightarrow> string set \<Rightarrow> string set \<Rightarrow> string \<Rightarrow>
       result_decision" where
  "decision_from_report report outcome reason regressions invalid criterion =
     \<lparr>rd_outcome = outcome, rd_reason = reason,
      rd_candidate_solved = sorted_strs (cmp_candidate_solved report),
      rd_baseline_solved = sorted_strs (cmp_baseline_solved report),
      rd_new_solves = sorted_strs (cmp_new_solves report),
      rd_regressions = sorted_strs regressions,
      rd_secondary_rewards = cmp_secondary_rewards report,
      rd_invalid_infra_tasks = sorted_strs invalid,
      rd_criterion = Some criterion\<rparr>"

definition restrict_to_panel :: "experiment_result \<Rightarrow> string set \<Rightarrow> experiment_result" where
  "restrict_to_panel e panel = e\<lparr>ex_tasks := filter (\<lambda>(t, _). t \<in> panel) (ex_tasks e)\<rparr>"

definition verdict_sensitive_task_ids :: "experiment_result \<Rightarrow> string set" where
  "verdict_sensitive_task_ids e =
     set (map fst (filter (\<lambda>(t, rollout).
        case rollout of None \<Rightarrow> False
        | Some r \<Rightarrow> rr_failure_mode r \<in> VERDICT_UNTRUSTED_FAILURE_MODES) (ex_tasks e)))"

definition resolve ::
    "secondary_metric list \<Rightarrow> experiment_result \<Rightarrow> experiment_result \<Rightarrow> string set \<Rightarrow> string set \<Rightarrow>
       exc + comparison" where
  "resolve ms baseline candidate solved reported_invalid =
     (let cmp = mk_comparison baseline candidate solved reported_invalid
      in bind_res (compare_runs ms cmp) (\<lambda>(reason, rewards).
           Inr (cmp\<lparr>cmp_reason := reason, cmp_secondary_rewards := rewards\<rparr>)))"

fun lift_exc :: "exc + 'a \<Rightarrow> criterion_error + 'a" where
  "lift_exc (Inl e) = Inl (CriterionExc e)"
| "lift_exc (Inr x) = Inr x"

definition STRICT_PARETO :: string where
  "STRICT_PARETO = ''strict_pareto''"

text \<open>The bracket: the untrusted tasks' worst case against their best case.\<close>

definition infra_bracket ::
    "secondary_metric list \<Rightarrow> experiment_result \<Rightarrow> experiment_result \<Rightarrow> string set \<Rightarrow>
       criterion_error + unit" where
  "infra_bracket ms baseline candidate invalid =
     bind_res (lift_exc (resolve ms baseline candidate (solved_task_ids candidate) {})) (\<lambda>pess.
     bind_res (lift_exc (resolve ms baseline candidate (solved_task_ids candidate \<union> invalid) {})) (\<lambda>opt.
       (if selects (loss_value_of pess) \<noteq> selects (loss_value_of opt)
        then Inl (UnmeasurableRun
               (decision_from_report pess InvalidInfra ''infra_sensitive_verdict''
                 (cmp_regressions pess - invalid) invalid STRICT_PARETO))
        else Inr ())))"

definition strict_pareto ::
    "secondary_metric list \<Rightarrow> bool \<Rightarrow> experiment_result \<Rightarrow> experiment_result \<Rightarrow>
       criterion_error + loss" where
  "strict_pareto ms bound candidate baseline0 =
     (let panel = set (map fst (ex_tasks candidate))
      in if \<not> panel \<subseteq> set (map fst (ex_tasks baseline0))
         then Inl (CriterionExc (ValueError ''candidate ran tasks the baseline never measured''))
         else
           (let baseline = restrict_to_panel baseline0 panel;
                invalid = verdict_sensitive_task_ids candidate
            in bind_res (if invalid \<noteq> {} then infra_bracket ms baseline candidate invalid else Inr ())
                 (\<lambda>_. bind_res (lift_exc (resolve ms baseline candidate (solved_task_ids candidate) invalid))
                 (\<lambda>report. Inr \<lparr>ls_value = loss_value_of report, ls_criterion = STRICT_PARETO,
                     ls_candidate = candidate, ls_baseline = baseline, ls_bound = bound,
                     ls_report = report\<rparr>))))"

definition describe_criterion :: "secondary_metric list \<Rightarrow> string" where
  "describe_criterion ms =
     (let tiebreak = join_str '', '' (map sm_name ms)
      in STRICT_PARETO @ '' '' @ [CHR 0xB7] @ '' tiebreak: '' @ (if tiebreak = [] then ''none'' else tiebreak))"

section \<open>Using a loss\<close>

definition loss_backward :: "loss \<Rightarrow> harness_fields \<Rightarrow> exc + harness_fields" where
  "loss_backward l h =
     (if \<not> ls_bound l
      then Inl (RuntimeError ''criterion is unbound: only a Trainer-bound criterion's Loss can backward()'')
      else Inr (h\<lparr>hf_grad := Some l\<rparr>))"

definition loss_promoted :: "loss \<Rightarrow> harness_fields \<Rightarrow> exc + bool" where
  "loss_promoted l h =
     (case (if ls_bound l then hf_applied h else None) of
        None \<Rightarrow> Inl (RuntimeError ''promoted is undefined before optimizer.step()'')
      | Some applied \<Rightarrow> Inr (applied = ex_git_commit_hash (ls_candidate l)))"

definition criterion_decision :: "loss \<Rightarrow> harness_fields \<Rightarrow> exc + result_decision" where
  "criterion_decision l h =
     bind_res (loss_promoted l h) (\<lambda>promoted.
       (let report = ls_report l
        in Inr (decision_from_report report (if promoted then Promoted else Rejected)
                  (cmp_reason report) (cmp_regressions report) (cmp_invalid_infra_tasks report)
                  (ls_criterion l))))"

section \<open>The tie-break\<close>

lemma tiebreak_value_acc:
  "tiebreak_value i rs v = v + tiebreak_value i rs 0"
proof (induction rs arbitrary: i v)
  case Nil
  then show ?case by simp
next
  case (Cons r rs)
  let ?x = "1 / 2 ^ (i + 1) * outcome_sign (sr_outcome r)"
  have "tiebreak_value i (r # rs) v = (v + ?x) + tiebreak_value (Suc i) rs 0"
    using Cons.IH [of "Suc i" "v + ?x"] by (simp only: tiebreak_value.simps)
  moreover have "tiebreak_value i (r # rs) 0 = ?x + tiebreak_value (Suc i) rs 0"
    using Cons.IH [of "Suc i" ?x] by (simp only: tiebreak_value.simps add_0_left)
  ultimately show ?case by (simp only: add.assoc)
qed

lemma tiebreak_value_Cons:
  "tiebreak_value i (r # rs) 0 =
     (1 / 2 ^ (i + 1)) * outcome_sign (sr_outcome r) + tiebreak_value (Suc i) rs 0"
  using tiebreak_value_acc [of "Suc i" rs "1 / 2 ^ (i + 1) * outcome_sign (sr_outcome r)"]
  by (simp only: tiebreak_value.simps add_0_left)

definition decisive :: "secondary_reward \<Rightarrow> bool" where
  "decisive r \<longleftrightarrow> sr_outcome r = CandidateBetter \<or> sr_outcome r = BaselineBetter"

lemma not_decisive_sign: "\<not> decisive r \<longleftrightarrow> outcome_sign (sr_outcome r) = 0"
  by (cases "sr_outcome r") (auto simp: decisive_def)

text \<open>The loop stops at the first decisive metric, so at most the last reward counts.\<close>

lemma tiebreak_loop_sign:
  "tiebreak_loop ms b c = Inr (reason, rs) \<Longrightarrow>
     (reason = ''secondary_reward_improvement'' \<and> tiebreak_value i rs 0 = - (1 / 2 ^ (i + length rs)))
   \<or> (reason = ''no_net_improvement'' \<and>
       (tiebreak_value i rs 0 = 0 \<or> tiebreak_value i rs 0 = 1 / 2 ^ (i + length rs)))"
proof (induction ms b c arbitrary: i reason rs rule: tiebreak_loop.induct)
  case (1 b c)
  then show ?case by auto
next
  case (2 m ms b c)
  from "2.prems" obtain w where w: "metric_compare m b c = Inr w" by (auto simp: res_simps)
  show ?case
  proof (cases "decisive w")
    case True
    then show ?thesis using "2.prems" w
      by (auto simp: decisive_def tiebreak_value_Cons)
  next
    case False
    then obtain rs' where rs': "tiebreak_loop ms b c = Inr (reason, rs')" "rs = w # rs'"
      using "2.prems" w by (auto simp: decisive_def res_simps)
    have nd: "sr_outcome w \<noteq> CandidateBetter" "sr_outcome w \<noteq> BaselineBetter"
      using False by (auto simp: decisive_def)
    from "2.IH" [OF nd rs'(1), of "Suc i"] False rs'(2) show ?thesis
      by (auto simp: not_decisive_sign tiebreak_value_Cons)
  qed
qed

lemma tiebreak_loop_prefix:
  "tiebreak_loop ms b c = Inr (reason, rs) \<Longrightarrow> i + 1 < length rs \<Longrightarrow> \<not> decisive (rs ! i)"
proof (induction ms b c arbitrary: i reason rs rule: tiebreak_loop.induct)
  case (1 b c)
  then show ?case by auto
next
  case (2 m ms b c)
  then show ?case
    by (cases i) (auto simp: res_simps decisive_def split: if_splits)
qed

lemma tiebreak_reason_sign:
  assumes "tiebreak_loop ms b c = Inr (reason, rs)"
  shows "tiebreak_value 0 rs 0 < 0 \<longleftrightarrow> reason = ''secondary_reward_improvement''"
  using tiebreak_loop_sign [OF assms, of 0] by auto

section \<open>When a resolution selects\<close>

definition tie_wins :: "secondary_metric list \<Rightarrow> experiment_result \<Rightarrow> experiment_result \<Rightarrow> bool" where
  "tie_wins ms b c \<longleftrightarrow> (case tiebreak_loop ms b c of
     Inl _ \<Rightarrow> False | Inr (reason, _) \<Rightarrow> reason = ''secondary_reward_improvement'')"

lemma resolve_fields:
  assumes "resolve ms b c S I = Inr rep"
  shows "cmp_candidate_solved rep = S" "cmp_baseline_solved rep = solved_task_ids b"
    "cmp_regressions rep = (solved_task_ids b - S) - I" "cmp_new_solves rep = S - solved_task_ids b"
    "cmp_invalid_infra_tasks rep = I"
  using assms by (auto simp: resolve_def Let_def mk_comparison_def res_simps)

lemma resolve_compared:
  assumes "resolve ms b c S I = Inr rep"
  shows "compare_runs ms (mk_comparison b c S I) =
           Inr (cmp_reason rep, cmp_secondary_rewards rep)"
  using assms by (auto simp: resolve_def Let_def res_simps)

lemma resolve_selects:
  assumes "resolve ms b c S I = Inr rep"
  shows "selects (loss_value_of rep) \<longleftrightarrow>
    solved_task_ids b - S \<subseteq> I \<and>
    (card (solved_task_ids b) < card S \<or> card (solved_task_ids b) = card S \<and> tie_wins ms b c)"
proof -
  note f = resolve_fields [OF assms]
  note r = resolve_compared [OF assms]
  show ?thesis
  proof (cases "solved_task_ids b - S \<subseteq> I \<and> card (solved_task_ids b) = card S")
    case True
    then have "cmp_regressions (mk_comparison b c S I) = {}" by (auto simp: mk_comparison_def)
    with True r have t: "tiebreak_loop ms b c = Inr (cmp_reason rep, cmp_secondary_rewards rep)"
      by (simp add: compare_runs_def mk_comparison_def)
    from tiebreak_reason_sign [OF t] True t show ?thesis
      by (auto simp: loss_value_of_def primary_loss_def f tie_wins_def)
  next
    case False
    then show ?thesis by (auto simp: loss_value_of_def primary_loss_def f)
  qed
qed

lemma resolve_reason:
  assumes "resolve ms b c S I = Inr rep" "card (solved_task_ids b) \<le> card S"
  shows "selects (loss_value_of rep) \<longleftrightarrow>
    cmp_reason rep = ''strict_improvement_without_regression'' \<or>
    cmp_reason rep = ''secondary_reward_improvement''"
proof -
  note r = resolve_compared [OF assms(1)]
  note sel = resolve_selects [OF assms(1)]
  show ?thesis
  proof (cases "solved_task_ids b - S \<subseteq> I \<and> card S = card (solved_task_ids b)")
    case True
    then have "cmp_regressions (mk_comparison b c S I) = {}" by (auto simp: mk_comparison_def)
    with True r have t: "tiebreak_loop ms b c = Inr (cmp_reason rep, cmp_secondary_rewards rep)"
      by (simp add: compare_runs_def mk_comparison_def)
    from tiebreak_loop_sign [OF t, of 0] sel t True show ?thesis
      by (auto simp: tie_wins_def)
  next
    case False
    then show ?thesis using r sel assms(2)
      by (auto simp: compare_runs_def mk_comparison_def split: if_splits)
  qed
qed

lemma selects_mono:
  assumes "resolve ms b c S {} = Inr rep" "resolve ms b c S' {} = Inr rep'"
    and "S \<subseteq> S'" "finite S'" "selects (loss_value_of rep)"
  shows "selects (loss_value_of rep')"
proof -
  have le: "card S \<le> card S'" using assms(3,4) by (rule card_mono [rotated])
  from assms(5) have bs: "solved_task_ids b \<subseteq> S'" and
      c: "card (solved_task_ids b) < card S \<or> card (solved_task_ids b) = card S \<and> tie_wins ms b c"
    using resolve_selects [OF assms(1)] assms(3) by auto
  with le show ?thesis using resolve_selects [OF assms(2)] by auto
qed

section \<open>The criterion\<close>

lemma solved_restrict: "solved_task_ids (restrict_to_panel e P) = solved_task_ids e \<inter> P"
  by (auto simp: solved_iff restrict_to_panel_def)

lemma finite_untrusted [simp]: "finite (verdict_sensitive_task_ids c)"
  by (simp add: verdict_sensitive_task_ids_def)

definition panel_of :: "experiment_result \<Rightarrow> string set" where
  "panel_of e = set (map fst (ex_tasks e))"

lemma solved_in_panel: "solved_task_ids e \<subseteq> panel_of e"
  by (auto simp: solved_iff panel_of_def image_iff) force

lemma infra_bracket_cases:
  assumes "infra_bracket ms b c U = Inr u"
  obtains pess opt where
    "resolve ms b c (solved_task_ids c) {} = Inr pess"
    "resolve ms b c (solved_task_ids c \<union> U) {} = Inr opt"
    "selects (loss_value_of pess) = selects (loss_value_of opt)"
proof -
  obtain pess where p: "resolve ms b c (solved_task_ids c) {} = Inr pess"
    using assms by (cases "resolve ms b c (solved_task_ids c) {}") (auto simp: infra_bracket_def)
  obtain opt where q: "resolve ms b c (solved_task_ids c \<union> U) {} = Inr opt"
    using assms p
    by (cases "resolve ms b c (solved_task_ids c \<union> U) {}") (auto simp: infra_bracket_def)
  from assms p q have "selects (loss_value_of pess) = selects (loss_value_of opt)"
    by (auto simp: infra_bracket_def split: if_splits)
  with that p q show ?thesis by blast
qed

lemma lift_exc_Inr [simp]: "lift_exc r = Inr x \<longleftrightarrow> r = Inr x"
  by (cases r) auto

lemma lift_exc_Inl: "lift_exc r = Inl e \<longleftrightarrow> (\<exists>x. r = Inl x \<and> e = CriterionExc x)"
  by (cases r) auto

lemma strict_pareto_Inr:
  assumes "strict_pareto ms bound c b0 = Inr l"
  defines "b \<equiv> restrict_to_panel b0 (panel_of c)"
  defines "U \<equiv> verdict_sensitive_task_ids c"
  shows "panel_of c \<subseteq> panel_of b0"
    and "U \<noteq> {} \<longrightarrow> infra_bracket ms b c U = Inr ()"
    and "resolve ms b c (solved_task_ids c) U = Inr (ls_report l)"
    and "l = \<lparr>ls_value = loss_value_of (ls_report l), ls_criterion = STRICT_PARETO,
               ls_candidate = c, ls_baseline = b, ls_bound = bound, ls_report = ls_report l\<rparr>"
  using assms(1) unfolding b_def U_def strict_pareto_def panel_of_def Let_def
  by (auto simp: res_simps split: if_splits)

text \<open>The final report selects exactly when the worst case of the bracket does.\<close>

lemma judged_as_pessimistic:
  assumes "strict_pareto ms bound c b0 = Inr l"
    and "resolve ms (restrict_to_panel b0 (panel_of c)) c (solved_task_ids c) {} = Inr pess"
  shows "selects (ls_value l) \<longleftrightarrow> selects (loss_value_of pess)"
proof -
  let ?b = "restrict_to_panel b0 (panel_of c)" and ?C = "solved_task_ids c"
  let ?U = "verdict_sensitive_task_ids c" and ?B = "solved_task_ids (restrict_to_panel b0 (panel_of c))"
  note j = strict_pareto_Inr [OF assms(1)]
  have v: "ls_value l = loss_value_of (ls_report l)" by (subst j(4)) simp
  note final = resolve_selects [OF j(3)]
  note pess = resolve_selects [OF assms(2)]
  show ?thesis
  proof (cases "?U = {}")
    case True
    then show ?thesis using assms(2) j(3) v by simp
  next
    case False
    with j(2) have "infra_bracket ms ?b c ?U = Inr ()" by simp
    then obtain opt where o: "resolve ms ?b c (?C \<union> ?U) {} = Inr opt"
        and eq: "selects (loss_value_of pess) = selects (loss_value_of opt)"
      using assms(2) by (auto elim: infra_bracket_cases)
    note opt = resolve_selects [OF o]
    have "selects (loss_value_of (ls_report l)) \<Longrightarrow> selects (loss_value_of opt)"
    proof -
      assume s: "selects (loss_value_of (ls_report l))"
      then have sub: "?B \<subseteq> ?C \<union> ?U" using final by auto
      have "card ?C \<le> card (?C \<union> ?U)" by (rule card_mono) auto
      with s final sub show ?thesis by (auto simp: opt)
    qed
    moreover have "selects (loss_value_of pess) \<Longrightarrow> selects (loss_value_of (ls_report l))"
      using pess final by auto
    ultimately show ?thesis using v eq by auto
  qed
qed

lemma pessimistic_exists:
  assumes "strict_pareto ms bound c b0 = Inr l"
  obtains pess where
    "resolve ms (restrict_to_panel b0 (panel_of c)) c (solved_task_ids c) {} = Inr pess"
    "selects (ls_value l) \<longleftrightarrow> selects (loss_value_of pess)"
proof -
  note j = strict_pareto_Inr [OF assms]
  have "\<exists>pess. resolve ms (restrict_to_panel b0 (panel_of c)) c (solved_task_ids c) {} = Inr pess"
  proof (cases "verdict_sensitive_task_ids c = {}")
    case True
    then show ?thesis using j(3) by auto
  next
    case False
    with j(2) show ?thesis by (auto elim: infra_bracket_cases)
  qed
  with that judged_as_pessimistic [OF assms] show ?thesis by blast
qed

lemma optimistic_exists:
  assumes "strict_pareto ms bound c b0 = Inr l"
  obtains opt where
    "resolve ms (restrict_to_panel b0 (panel_of c)) c
       (solved_task_ids c \<union> verdict_sensitive_task_ids c) {} = Inr opt"
    "selects (ls_value l) \<longleftrightarrow> selects (loss_value_of opt)"
proof (cases "verdict_sensitive_task_ids c = {}")
  case True
  then show ?thesis using pessimistic_exists [OF assms] that by auto
next
  case False
  with strict_pareto_Inr(2) [OF assms]
  have "infra_bracket ms (restrict_to_panel b0 (panel_of c)) c (verdict_sensitive_task_ids c) = Inr ()"
    by simp
  then show ?thesis using judged_as_pessimistic [OF assms] that
    by (elim infra_bracket_cases) auto
qed

lemma selected_solves:
  assumes "strict_pareto ms bound c b0 = Inr l" "selects (ls_value l)"
  shows "solved_task_ids b0 \<inter> panel_of c \<subseteq> solved_task_ids c"
proof -
  obtain pess where
    p: "resolve ms (restrict_to_panel b0 (panel_of c)) c (solved_task_ids c) {} = Inr pess"
      "selects (loss_value_of pess)"
    using pessimistic_exists [OF assms(1)] assms(2) by blast
  then show ?thesis using resolve_selects [OF p(1)] by (auto simp: solved_restrict)
qed

section \<open>The contract of a criterion\<close>

text \<open>
  What the trainer relies on: a judged loss carries the run it judged, and a selected candidate
  keeps every solve of the baseline on its own panel.
\<close>

text \<open>A sequence of runs, each promoted over the one before it.\<close>

fun promotions ::
    "(experiment_result \<Rightarrow> experiment_result \<Rightarrow> criterion_error + loss) \<Rightarrow>
       experiment_result \<Rightarrow> experiment_result list \<Rightarrow> bool" where
  "promotions judge b [] = True"
| "promotions judge b (c # cs) =
     ((case judge c b of Inr l \<Rightarrow> selects (ls_value l) | Inl _ \<Rightarrow> False) \<and> promotions judge c cs)"

locale criterion_contract =
  fixes judge :: "experiment_result \<Rightarrow> experiment_result \<Rightarrow> criterion_error + loss"
  assumes judged_candidate: "judge c b = Inr l \<Longrightarrow> ls_candidate l = c"
    and panel_measured: "judge c b = Inr l \<Longrightarrow> panel_of c \<subseteq> panel_of b"
    and keeps_solves:
      "judge c b = Inr l \<Longrightarrow> selects (ls_value l) \<Longrightarrow>
         solved_task_ids b \<inter> panel_of c \<subseteq> solved_task_ids c"
begin

lemma panel_chain: "promotions judge b cs \<Longrightarrow> c \<in> set cs \<Longrightarrow> panel_of c \<subseteq> panel_of b"
proof (induction cs arbitrary: b)
  case Nil
  then show ?case by simp
next
  case (Cons d cs)
  from Cons.prems(1) obtain l where "judge d b = Inr l" by (auto split: sum.splits)
  then have "panel_of d \<subseteq> panel_of b" by (rule panel_measured)
  with Cons show ?case by fastforce
qed

lemma promotions_keep:
  "promotions judge b cs \<Longrightarrow> c \<in> set cs \<Longrightarrow> solved_task_ids b \<inter> panel_of c \<subseteq> solved_task_ids c"
proof (induction cs arbitrary: b)
  case Nil
  then show ?case by simp
next
  case (Cons d cs)
  from Cons.prems(1) obtain l where l: "judge d b = Inr l" "selects (ls_value l)"
    by (auto split: sum.splits)
  from Cons.prems have p: "promotions judge d cs" by simp
  show ?case
  proof (cases "c = d")
    case True
    then show ?thesis using keeps_solves [OF l] by simp
  next
    case False
    then have c: "c \<in> set cs" using Cons.prems by simp
    have sub: "panel_of c \<subseteq> panel_of d" using p c panel_chain by blast
    from Cons.IH [OF p c] keeps_solves [OF l] sub show ?thesis by blast
  qed
qed

end

interpretation pareto: criterion_contract "strict_pareto ms bound"
proof
  fix c b l
  assume j: "strict_pareto ms bound c b = Inr l"
  show "ls_candidate l = c" by (subst strict_pareto_Inr(4) [OF j]) simp
  show "panel_of c \<subseteq> panel_of b" by (rule strict_pareto_Inr(1) [OF j])
  show "selects (ls_value l) \<Longrightarrow> solved_task_ids b \<inter> panel_of c \<subseteq> solved_task_ids c"
    by (rule selected_solves [OF j])
qed

section \<open>Properties of the criterion\<close>

lemmas sample_simps =
  sample_run_def sample_rollout_def strict_pareto_def Let_def panel_of_def restrict_to_panel_def
  solved_task_ids_def verdict_sensitive_task_ids_def VERDICT_UNTRUSTED_FAILURE_MODES_def
  UNSCORABLE_FAILURE_MODES_def resolve_def compare_runs_def mk_comparison_def infra_bracket_def
  loss_value_of_def primary_loss_def

lemma selected_improves:
  assumes "strict_pareto ms bound c b0 = Inr l" and "selects (ls_value l)"
  shows "solved_task_ids b0 \<inter> panel_of c \<subset> solved_task_ids c \<or>
    (solved_task_ids b0 \<inter> panel_of c = solved_task_ids c \<and>
     tie_wins ms (restrict_to_panel b0 (panel_of c)) c)"
proof -
  obtain pess where
    p: "resolve ms (restrict_to_panel b0 (panel_of c)) c (solved_task_ids c) {} = Inr pess"
      "selects (loss_value_of pess)"
    using pessimistic_exists [OF assms(1)] assms(2) by blast
  note sub = selected_solves [OF assms]
  from resolve_selects [OF p(1)] p(2) card_subset_eq [OF finite_solved sub] sub show ?thesis
    by (auto simp: solved_restrict)
qed

text \<open>
  C1. A selected candidate solves every task of its panel that the baseline solved, including
  the tasks an infrastructure failure left undecided, and it either solves one more or wins the
  metric tie-break on equal solved sets.
\<close>

theorem selected_candidate_improves:
  assumes "strict_pareto ms bound c b0 = Inr l" and "selects (ls_value l)"
  shows "solved_task_ids b0 \<inter> panel_of c \<subset> solved_task_ids c \<or>
    (solved_task_ids b0 \<inter> panel_of c = solved_task_ids c \<and>
     tie_wins ms (restrict_to_panel b0 (panel_of c)) c)"
  using assms by (rule selected_improves)

theorem selected_candidate_improves_witness:
  "solved_task_ids (sample_run ''b'' ''x'' [(''t1'', Solved), (''t2'', HitStepCap)]) \<inter>
     panel_of (sample_run ''c'' ''y'' [(''t1'', Solved), (''t2'', Solved)])
   \<subseteq> solved_task_ids (sample_run ''c'' ''y'' [(''t1'', Solved), (''t2'', Solved)])"
proof -
  let ?b = "sample_run ''b'' ''x'' [(''t1'', Solved), (''t2'', HitStepCap)]"
  let ?c = "sample_run ''c'' ''y'' [(''t1'', Solved), (''t2'', Solved)]"
  have "\<exists>l. strict_pareto [] True ?c ?b = Inr l \<and> selects (ls_value l)"
    by (simp add: sample_simps del: set_filter set_map)
  then obtain l where "strict_pareto [] True ?c ?b = Inr l" "selects (ls_value l)" by blast
  from selected_candidate_improves [OF this] show ?thesis by auto
qed

text \<open>
  C3. A verdict the criterion does return cannot be overturned by infrastructure noise: however
  the untrusted tasks are counted (any set between the trusted solves and all untrusted tasks
  solved), judging that resolution selects the candidate exactly when the returned loss does.
\<close>

theorem verdict_stable_under_infra:
  assumes "strict_pareto ms bound c b0 = Inr l"
    and "solved_task_ids c \<subseteq> S" and "S \<subseteq> solved_task_ids c \<union> verdict_sensitive_task_ids c"
    and "resolve ms (restrict_to_panel b0 (panel_of c)) c S {} = Inr rep"
  shows "selects (loss_value_of rep) \<longleftrightarrow> selects (ls_value l)"
proof -
  have fin: "finite S" using assms(3) by (rule finite_subset) simp
  obtain pess where
    p: "resolve ms (restrict_to_panel b0 (panel_of c)) c (solved_task_ids c) {} = Inr pess"
      "selects (ls_value l) \<longleftrightarrow> selects (loss_value_of pess)"
    by (rule pessimistic_exists [OF assms(1)])
  obtain opt where
    o: "resolve ms (restrict_to_panel b0 (panel_of c)) c
          (solved_task_ids c \<union> verdict_sensitive_task_ids c) {} = Inr opt"
      "selects (ls_value l) \<longleftrightarrow> selects (loss_value_of opt)"
    by (rule optimistic_exists [OF assms(1)])
  from selects_mono [OF p(1) assms(4) assms(2) fin] selects_mono [OF assms(4) o(1) assms(3)] p(2) o(2)
  show ?thesis by auto
qed

theorem verdict_stable_under_infra_witness:
  "\<exists>l rep.
     strict_pareto [] True
       (sample_run ''c'' ''y'' [(''t1'', Crash), (''t2'', HitTimeout)])
       (sample_run ''b'' ''x'' [(''t1'', HitStepCap), (''t2'', Solved)]) = Inr l \<and>
     (selects (loss_value_of rep) \<longleftrightarrow> selects (ls_value l))"
proof -
  let ?b = "sample_run ''b'' ''x'' [(''t1'', HitStepCap), (''t2'', Solved)]"
  let ?c = "sample_run ''c'' ''y'' [(''t1'', Crash), (''t2'', HitTimeout)]"
  have "\<exists>l. strict_pareto [] True ?c ?b = Inr l" by (simp add: sample_simps del: set_filter set_map)
  then obtain l where l: "strict_pareto [] True ?c ?b = Inr l" by blast
  have "\<exists>rep. resolve [] (restrict_to_panel ?b (panel_of ?c)) ?c {''t1''} {} = Inr rep"
    by (simp add: sample_simps del: set_filter set_map)
  then obtain rep where r: "resolve [] (restrict_to_panel ?b (panel_of ?c)) ?c {''t1''} {} = Inr rep"
    by blast
  have "solved_task_ids ?c \<subseteq> {''t1''}" "{''t1''} \<subseteq> solved_task_ids ?c \<union> verdict_sensitive_task_ids ?c"
    by (simp_all add: sample_simps del: set_filter set_map)
  from verdict_stable_under_infra [OF l this r] l show ?thesis by blast
qed

text \<open>
  C4. When the worst-case and best-case comparisons can be computed, the criterion raises
  \<open>UnmeasurableRun\<close>, carrying an \<open>invalid_infra\<close> decision that lists exactly the untrusted
  tasks, iff two ways of counting the untrusted tasks disagree about selecting the candidate;
  solving more of them is always the side that selects.
\<close>

theorem unmeasurable_iff_resolutions_disagree:
  assumes "panel_of c \<subseteq> panel_of b0"
    and "resolve ms (restrict_to_panel b0 (panel_of c)) c (solved_task_ids c) {} = Inr pess"
    and "resolve ms (restrict_to_panel b0 (panel_of c)) c (solved_task_ids c \<union> verdict_sensitive_task_ids c) {} = Inr opt"
  shows "(\<exists>d. strict_pareto ms bound c b0 = Inl (UnmeasurableRun d) \<and> rd_outcome d = InvalidInfra \<and>
            set (rd_invalid_infra_tasks d) = verdict_sensitive_task_ids c) \<longleftrightarrow>
    (\<exists>S S' rep rep'. solved_task_ids c \<subseteq> S \<and> S \<subseteq> S' \<and>
       S' \<subseteq> solved_task_ids c \<union> verdict_sensitive_task_ids c \<and>
       resolve ms (restrict_to_panel b0 (panel_of c)) c S {} = Inr rep \<and> resolve ms (restrict_to_panel b0 (panel_of c)) c S' {} = Inr rep' \<and>
       \<not> selects (loss_value_of rep) \<and> selects (loss_value_of rep'))" (is "?L \<longleftrightarrow> ?R")
proof -
  let ?C = "solved_task_ids c" and ?U = "verdict_sensitive_task_ids c"
  have disagree: "?L \<longleftrightarrow> ?U \<noteq> {} \<and> selects (loss_value_of pess) \<noteq> selects (loss_value_of opt)"
    using assms
    by (auto simp: strict_pareto_def panel_of_def Let_def infra_bracket_def res_simps lift_exc_Inl
        decision_from_report_def split: if_splits)
  have mono: "selects (loss_value_of pess) \<Longrightarrow> selects (loss_value_of opt)"
    using selects_mono [OF assms(2,3)] by simp
  show ?thesis
  proof
    assume ?L
    with disagree mono show ?R using assms(2,3) by blast
  next
    assume ?R
    then obtain S S' rep rep' where R: "?C \<subseteq> S" "S \<subseteq> S'" "S' \<subseteq> ?C \<union> ?U"
      "resolve ms (restrict_to_panel b0 (panel_of c)) c S {} = Inr rep" "resolve ms (restrict_to_panel b0 (panel_of c)) c S' {} = Inr rep'"
      "\<not> selects (loss_value_of rep)" "selects (loss_value_of rep')" by blast
    have fin: "finite S'" "finite S"
      by (rule finite_subset [OF R(3)], simp) (meson R(2,3) finite_Un finite_solved finite_untrusted finite_subset)
    have "\<not> selects (loss_value_of pess)"
      using selects_mono [OF assms(2) R(4) R(1) fin(2)] R(6) by blast
    moreover have "selects (loss_value_of opt)"
      using selects_mono [OF R(5) assms(3) R(3)] R(7) by simp
    moreover have "?U \<noteq> {}"
    proof
      assume "?U = {}"
      with R(1-3) have "S' = S" by auto
      with R(4-7) show False by simp
    qed
    ultimately show ?L using disagree by blast
  qed
qed

theorem unmeasurable_iff_resolutions_disagree_witness:
  "\<exists>d. strict_pareto [] True
     (sample_run ''c'' ''y'' [(''t1'', Crash), (''t2'', Solved)])
     (sample_run ''b'' ''x'' [(''t1'', HitStepCap), (''t2'', Solved)]) = Inl (UnmeasurableRun d) \<and>
     rd_outcome d = InvalidInfra \<and> set (rd_invalid_infra_tasks d) = {''t1''}"
proof -
  let ?base = "sample_run ''b'' ''x'' [(''t1'', HitStepCap), (''t2'', Solved)]"
  let ?cand = "sample_run ''c'' ''y'' [(''t1'', Crash), (''t2'', Solved)]"
  let ?rb = "restrict_to_panel ?base (panel_of ?cand)"
  have sub: "panel_of ?cand \<subseteq> panel_of ?base" by (simp add: sample_simps)
  have C: "solved_task_ids ?cand = {''t2''}" and U: "verdict_sensitive_task_ids ?cand = {''t1''}"
    by (simp_all add: sample_simps del: set_filter set_map)
  have "\<exists>p. resolve [] ?rb ?cand {''t2''} {} = Inr p \<and> \<not> selects (loss_value_of p)"
    and "\<exists>q. resolve [] ?rb ?cand ({''t2''} \<union> {''t1''}) {} = Inr q \<and> selects (loss_value_of q)"
    by (simp_all add: sample_simps del: set_filter set_map)
  then obtain p q where p: "resolve [] ?rb ?cand {''t2''} {} = Inr p" "\<not> selects (loss_value_of p)"
    and q: "resolve [] ?rb ?cand ({''t2''} \<union> {''t1''}) {} = Inr q" "selects (loss_value_of q)" by blast
  from p(1) have pess: "resolve [] ?rb ?cand (solved_task_ids ?cand) {} = Inr p" by (simp only: C)
  from q(1) have opt: "resolve [] ?rb ?cand (solved_task_ids ?cand \<union> verdict_sensitive_task_ids ?cand) {} = Inr q"
    by (simp only: C U)
  have "\<exists>S S' rep rep'. solved_task_ids ?cand \<subseteq> S \<and> S \<subseteq> S' \<and>
       S' \<subseteq> solved_task_ids ?cand \<union> verdict_sensitive_task_ids ?cand \<and>
       resolve [] ?rb ?cand S {} = Inr rep \<and> resolve [] ?rb ?cand S' {} = Inr rep' \<and>
       \<not> selects (loss_value_of rep) \<and> selects (loss_value_of rep')"
    by (rule exI [of _ "solved_task_ids ?cand"],
        rule exI [of _ "solved_task_ids ?cand \<union> verdict_sensitive_task_ids ?cand"],
        rule exI [of _ p], rule exI [of _ q], intro conjI)
      (rule subset_refl Un_upper1 pess opt p(2) q(2))+
  with unmeasurable_iff_resolutions_disagree [OF sub pess opt, of True]
  show ?thesis by (simp only: U simp_thms)
qed

lemma tie_wins_Cons:
  "metric_compare m b c = Inr w \<Longrightarrow>
     tie_wins (m # ms) b c \<longleftrightarrow> sr_outcome w = CandidateBetter \<or> \<not> decisive w \<and> tie_wins ms b c"
  by (cases "tiebreak_loop ms b c") (auto simp: tie_wins_def decisive_def)

lemma tie_wins_asym:
  assumes "\<forall>m \<in> set ms. symmetric_metric m" and "tie_wins ms b c"
  shows "\<not> tie_wins ms c b"
  using assms
proof (induction ms)
  case Nil
  then show ?case by (simp add: tie_wins_def)
next
  case (Cons m ms)
  from Cons.prems(2) obtain w where w: "metric_compare m b c = Inr w"
    by (cases "metric_compare m b c") (auto simp: tie_wins_def)
  from Cons.prems(1) have sym: "symmetric_metric m" by simp
  note w' = symmetric_metric.compare_swap [OF sym w]
  show ?case
    using Cons tie_wins_Cons [OF w, of ms] tie_wins_Cons [OF w', of ms]
    by (cases "sr_outcome w") (auto simp: decisive_def swap_reward_def)
qed

lemma restrict_same: "panel_of c = panel_of b \<Longrightarrow> restrict_to_panel b (panel_of c) = b"
proof -
  assume p: "panel_of c = panel_of b"
  have "filter (\<lambda>(t, _). t \<in> panel_of b) (ex_tasks b) = ex_tasks b"
    by (rule filter_True) (auto simp: panel_of_def image_iff, force)
  with p show ?thesis by (simp add: restrict_to_panel_def)
qed

text \<open>
  Promotion cannot cycle between two runs of one panel: with any of the shipped tie-break
  metrics, if a run is selected over another, the other is never selected over it.
\<close>

theorem no_mutual_promotion:
  assumes "set ms \<subseteq> set SWE_SECONDARY_METRICS" and "panel_of a = panel_of b"
    and "strict_pareto ms bound a b = Inr l" and "selects (ls_value l)"
    and "strict_pareto ms bound' b a = Inr l'"
  shows "\<not> selects (ls_value l')"
proof
  assume s': "selects (ls_value l')"
  have sym: "\<forall>m \<in> set ms. symmetric_metric m" using assms(1) swe_symmetric by auto
  note ab = selected_improves [OF assms(3,4)]
  note ba = selected_improves [OF assms(5) s']
  show False
    using ab ba solved_in_panel [of a] solved_in_panel [of b]
      tie_wins_asym [OF sym, of a b] assms(2)
    by (auto simp: restrict_same)
qed

theorem no_mutual_promotion_witness:
  "\<exists>l l'.
     strict_pareto [steps_used_metric] True (sample_run ''c'' ''y'' [(''t1'', Solved)])
       (sample_run ''b'' ''x'' [(''t1'', HitStepCap)]) = Inr l \<and> selects (ls_value l) \<and>
     strict_pareto [steps_used_metric] True (sample_run ''b'' ''x'' [(''t1'', HitStepCap)])
       (sample_run ''c'' ''y'' [(''t1'', Solved)]) = Inr l' \<and> \<not> selects (ls_value l')"
proof -
  let ?b = "sample_run ''b'' ''x'' [(''t1'', HitStepCap)]"
  let ?c = "sample_run ''c'' ''y'' [(''t1'', Solved)]"
  have "\<exists>l. strict_pareto [steps_used_metric] True ?c ?b = Inr l \<and> selects (ls_value l)"
    and "\<exists>l. strict_pareto [steps_used_metric] True ?b ?c = Inr l"
    by (simp_all add: sample_simps del: set_filter set_map)
  then obtain l l' where l: "strict_pareto [steps_used_metric] True ?c ?b = Inr l"
      "selects (ls_value l)" and l': "strict_pareto [steps_used_metric] True ?b ?c = Inr l'"
    by blast
  have ms: "set [steps_used_metric] \<subseteq> set SWE_SECONDARY_METRICS"
    by (simp add: SWE_SECONDARY_METRICS_def GENERIC_SECONDARY_METRICS_def)
  have p: "panel_of ?c = panel_of ?b" by (simp add: sample_simps)
  from no_mutual_promotion [OF ms p l l'] l l' show ?thesis by blast
qed

lemma judged_reason:
  assumes "strict_pareto ms bound c b0 = Inr l"
    and "cmp_reason (ls_report l) = ''secondary_reward_improvement''"
  shows "selects (ls_value l)"
proof -
  let ?r = "restrict_to_panel b0 (panel_of c)" and ?C = "solved_task_ids c"
  let ?U = "verdict_sensitive_task_ids c"
  note j = strict_pareto_Inr [OF assms(1)]
  note r = resolve_compared [OF j(3)]
  obtain opt where o: "resolve ms ?r c (?C \<union> ?U) {} = Inr opt"
      "selects (ls_value l) \<longleftrightarrow> selects (loss_value_of opt)"
    by (rule optimistic_exists [OF assms(1)])
  from r assms(2) have sub: "solved_task_ids ?r \<subseteq> ?C \<union> ?U" and
      t: "tiebreak_loop ms ?r c = Inr (''secondary_reward_improvement'', cmp_secondary_rewards (ls_report l))"
    by (auto simp: compare_runs_def mk_comparison_def split: if_splits)
  have "card (solved_task_ids ?r) \<le> card (?C \<union> ?U)" using sub by (rule card_mono [rotated]) simp
  then show ?thesis using o(2) resolve_selects [OF o(1)] sub t by (auto simp: tie_wins_def)
qed

text \<open>
  The reported reason is the verdict: a returned loss selects its candidate exactly when its
  reason is a strict improvement or a secondary-reward improvement.
\<close>

theorem reason_is_verdict:
  assumes "strict_pareto ms bound c b0 = Inr l"
  shows "selects (ls_value l) \<longleftrightarrow>
      cmp_reason (ls_report l) = ''strict_improvement_without_regression'' \<or>
      cmp_reason (ls_report l) = ''secondary_reward_improvement''"
proof -
  let ?r = "restrict_to_panel b0 (panel_of c)" and ?C = "solved_task_ids c"
  note j = strict_pareto_Inr [OF assms(1)]
  note r = resolve_compared [OF j(3)]
  have v: "ls_value l = loss_value_of (ls_report l)" by (subst j(4)) simp
  show ?thesis
  proof (cases "card (solved_task_ids ?r) \<le> card ?C")
    case True
    then show ?thesis using resolve_reason [OF j(3)] v by simp
  next
    case False
    then have "\<not> selects (ls_value l)" using resolve_selects [OF j(3)] v by auto
    then show ?thesis using judged_reason [OF assms] False r
      by (auto simp: compare_runs_def mk_comparison_def split: if_splits
          dest: tiebreak_loop_sign [where i = 0])
  qed
qed

theorem reason_is_verdict_witness:
  "\<exists>l. strict_pareto [] True (sample_run ''c'' ''y'' [(''t1'', Solved)])
       (sample_run ''b'' ''x'' [(''t1'', HitStepCap)]) = Inr l \<and>
     (selects (ls_value l) \<longleftrightarrow>
      cmp_reason (ls_report l) = ''strict_improvement_without_regression'' \<or>
      cmp_reason (ls_report l) = ''secondary_reward_improvement'')"
proof -
  have "\<exists>l. strict_pareto [] True (sample_run ''c'' ''y'' [(''t1'', Solved)])
       (sample_run ''b'' ''x'' [(''t1'', HitStepCap)]) = Inr l"
    by (simp add: sample_simps del: set_filter set_map)
  then obtain l where "strict_pareto [] True (sample_run ''c'' ''y'' [(''t1'', Solved)])
       (sample_run ''b'' ''x'' [(''t1'', HitStepCap)]) = Inr l" by blast
  with reason_is_verdict [OF this] show ?thesis by blast
qed

lemma tiebreak_loop_total:
  "(\<And>m. m \<in> set ms \<Longrightarrow> \<exists>r. metric_compare m b c = Inr r) \<Longrightarrow> \<exists>x. tiebreak_loop ms b c = Inr x"
proof (induction ms)
  case Nil
  then show ?case by simp
next
  case (Cons m ms)
  then obtain w where w: "metric_compare m b c = Inr w" by (meson list.set_intros(1))
  from Cons obtain x where "tiebreak_loop ms b c = Inr x" by (meson list.set_intros(2))
  with w show ?case by (cases x) auto
qed

lemma resolve_total:
  assumes "set ms \<subseteq> set SWE_SECONDARY_METRICS" "comparable b" "comparable c"
  obtains rep where "resolve ms b c S I = Inr rep"
proof -
  have "\<exists>x. tiebreak_loop ms b c = Inr x"
    by (rule tiebreak_loop_total) (use assms swe_values_total in blast)
  then have "\<exists>x. compare_runs ms (mk_comparison b c S I) = Inr x"
    by (auto simp: compare_runs_def mk_comparison_def)
  then show ?thesis using that by (force simp: resolve_def Let_def)
qed

text \<open>
  The criterion always reaches a verdict: on a candidate that ran no task the baseline
  lacks, when both runs are finished (every task holds a rollout) and publish the first-attempt
  counters together, the criterion with any of the shipped metrics returns a loss or raises
  \<open>UnmeasurableRun\<close>; no metric and no assertion escapes.
\<close>

theorem criterion_total:
  assumes "set ms \<subseteq> set SWE_SECONDARY_METRICS" and "panel_of c \<subseteq> panel_of b0"
    and "comparable b0" and "comparable c"
  shows "(\<exists>l. strict_pareto ms bound c b0 = Inr l) \<or>
         (\<exists>d. strict_pareto ms bound c b0 = Inl (UnmeasurableRun d))"
proof -
  let ?r = "restrict_to_panel b0 (panel_of c)" and ?U = "verdict_sensitive_task_ids c"
  have r: "comparable ?r" using assms(3) by (auto simp: comparable_def restrict_to_panel_def)
  obtain pess opt fin where
    "resolve ms ?r c (solved_task_ids c) {} = Inr pess"
    "resolve ms ?r c (solved_task_ids c \<union> ?U) {} = Inr opt"
    "resolve ms ?r c (solved_task_ids c) ?U = Inr fin"
    by (meson resolve_total [OF assms(1) r assms(4)])
  with assms(2) show ?thesis
    by (auto simp: strict_pareto_def panel_of_def infra_bracket_def Let_def)
qed

theorem criterion_total_witness:
  "(\<exists>l. strict_pareto SWE_SECONDARY_METRICS True (sample_run ''c'' ''y'' [(''t1'', Crash)])
       (sample_run ''b'' ''x'' [(''t1'', Solved)]) = Inr l) \<or>
   (\<exists>d. strict_pareto SWE_SECONDARY_METRICS True (sample_run ''c'' ''y'' [(''t1'', Crash)])
       (sample_run ''b'' ''x'' [(''t1'', Solved)]) = Inl (UnmeasurableRun d))"
  by (rule criterion_total)
    (simp_all add: sample_simps comparable_def has_metric_def)

text \<open>
  C8. Training never loses a solve: along any sequence of runs each selected over the one
  before it, every later run still solves every task of its panel that the first run solved.
\<close>

theorem promotions_keep_solves:
  assumes "promotions (strict_pareto ms bound) b cs" and "c \<in> set cs"
  shows "solved_task_ids b \<inter> panel_of c \<subseteq> solved_task_ids c"
  using assms by (rule pareto.promotions_keep)

theorem promotions_keep_solves_witness:
  "promotions (strict_pareto [] True) (sample_run ''b'' ''x'' [(''t1'', Solved), (''t2'', HitStepCap)])
     [sample_run ''c'' ''y'' [(''t1'', Solved), (''t2'', Solved)]] \<and>
   solved_task_ids (sample_run ''b'' ''x'' [(''t1'', Solved), (''t2'', HitStepCap)]) \<inter>
     panel_of (sample_run ''c'' ''y'' [(''t1'', Solved), (''t2'', Solved)])
   \<subseteq> solved_task_ids (sample_run ''c'' ''y'' [(''t1'', Solved), (''t2'', Solved)])"
proof -
  let ?r = "sample_run ''b'' ''x'' [(''t1'', Solved), (''t2'', HitStepCap)]"
  let ?cand = "sample_run ''c'' ''y'' [(''t1'', Solved), (''t2'', Solved)]"
  have p: "promotions (strict_pareto [] True) ?r [?cand]"
    by (simp add: sample_simps del: set_filter set_map)
  from promotions_keep_solves [OF p, of ?cand] p show ?thesis by simp
qed

end
