(* ===== verification/Parameter.thy ===== *)
theory Parameter
  imports Effects Loss
begin

text \<open>
  \<open>src/trainer/parameter.py\<close> and \<open>src/trainer/optim.py\<close>: capturing and validating a candidate
  commit, scratch worktrees, the trusted test-suite run, and the optimizer's fast-forward. Git,
  the file system and pytest are the oracle of \<open>Effects\<close>; \<open>repo\<close> is the working directory of
  the repository a command runs in.
\<close>

section \<open>Candidates\<close>

datatype skip_cause = NoCandidate | InvalidCandidate

datatype candidate_error =
    CandidateValidationError string skip_cause
  | CandidateExc exc

record candidate =
  ca_commit :: string
  ca_base_commit :: string

definition head_sha :: "'o tools_scheme \<Rightarrow> string \<Rightarrow> ('x world_scheme, exc, string) act" where
  "head_sha orc repo = git orc repo [''rev-parse'', ''HEAD'']"

section \<open>Scratch worktrees\<close>

definition worktree_path :: "string \<Rightarrow> string \<Rightarrow> string \<Rightarrow> string" where
  "worktree_path root_dir name commit = root_dir @ ''/'' @ name @ ''-'' @ take 12 commit"

definition suppress_git :: "('x world_scheme, exc, 'a) act \<Rightarrow> ('x world_scheme, exc, unit) act" where
  "suppress_git m = catch (also_then m (ret ()))
     (\<lambda>e. if exc_name e = ''GitCommandError'' then ret () else raise e)"

definition worktree_remove ::
    "'o tools_scheme \<Rightarrow> string \<Rightarrow> string \<Rightarrow> ('x world_scheme, exc, string) act" where
  "worktree_remove orc repo path = git orc repo [''worktree'', ''remove'', ''--force'', path]"

definition worktree_prune :: "'o tools_scheme \<Rightarrow> string \<Rightarrow> ('x world_scheme, exc, string) act" where
  "worktree_prune orc repo = git orc repo [''worktree'', ''prune'']"

definition clear_stale ::
    "'o tools_scheme \<Rightarrow> string \<Rightarrow> string \<Rightarrow> ('x world_scheme, exc, unit) act" where
  "clear_stale orc repo path =
     also_then (suppress_git (worktree_remove orc repo path))
    (also_then (worktree_prune orc repo)
    (seq (fs orc ''exists'' [path]) (\<lambda>still.
       when_do still (also_then (fs orc ''rmtree'' [path]) (ret ())))))"

definition worktree_setup ::
    "'o tools_scheme \<Rightarrow> string \<Rightarrow> string list \<Rightarrow> ('x world_scheme, exc, unit) act" where
  "worktree_setup orc path sparse =
     also_then (git orc path [''open''])
    (also_then (when_do (sparse \<noteq> [])
        (also_then (git orc path ([''sparse-checkout'', ''set'', ''--no-cone''] @ sparse)) (ret ())))
    (also_then (git orc path [''checkout'']) (ret ())))"

definition worktree_teardown ::
    "'o tools_scheme \<Rightarrow> string \<Rightarrow> string \<Rightarrow> ('x world_scheme, exc, string) act" where
  "worktree_teardown orc repo path =
     finally_do (worktree_remove orc repo path) (worktree_prune orc repo)"

definition scratch_worktree ::
    "'o tools_scheme \<Rightarrow> (exc \<Rightarrow> 'e) \<Rightarrow> string \<Rightarrow> string \<Rightarrow> string \<Rightarrow> string \<Rightarrow> string list \<Rightarrow>
       (string \<Rightarrow> ('x world_scheme, 'e, 'a) act) \<Rightarrow> ('x world_scheme, 'e, 'a) act" where
  "scratch_worktree orc wrap repo commit root_dir name sparse body =
     (let path = worktree_path root_dir name commit
      in also_then (lift_err wrap (fs orc ''mkdir'' [root_dir]))
        (seq (lift_err wrap (fs orc ''exists'' [path])) (\<lambda>present.
         also_then (lift_err wrap (when_do present (clear_stale orc repo path)))
        (also_then (lift_err wrap
           (git orc repo [''worktree'', ''add'', ''--no-checkout'', ''--detach'', path, commit]))
        (finally_do
           (also_then (lift_err wrap (worktree_setup orc path sparse)) (body path))
           (lift_err wrap (worktree_teardown orc repo path)))))))"

section \<open>Capture and validation\<close>

definition capture_candidate ::
    "'o tools_scheme \<Rightarrow> string \<Rightarrow> string \<Rightarrow> ('x world_scheme, candidate_error, candidate) act" where
  "capture_candidate orc repo base_commit =
     also_then (lift_err CandidateExc (git orc repo [''reset'', ''--soft'', base_commit]))
    (also_then (lift_err CandidateExc (git orc repo [''add'', ''--all'']))
    (seq (lift_err CandidateExc (git orc repo [''diff'', ''--cached'', ''--name-only''])) (\<lambda>staged.
      (if staged = []
       then raise (CandidateValidationError ''candidate made no tracked change'' NoCandidate)
       else
         also_then (lift_err CandidateExc (git orc repo [''commit'', ''--no-verify'', ''-m'', ''candidate'']))
        (seq (lift_err CandidateExc (head_sha orc repo)) (\<lambda>commit.
         also_then (lift_err CandidateExc
             (git orc repo [''update-ref'', ''refs/candidates/'' @ commit, commit]))
          (ret \<lparr>ca_commit = commit, ca_base_commit = base_commit\<rparr>)))))))"

text \<open>The parents of a commit are asked of git one per line.\<close>

definition changed_paths :: "string \<Rightarrow> string list" where
  "changed_paths diff = filter (\<lambda>p. p \<noteq> []) (splitlines diff)"

definition validate_candidate ::
    "'o tools_scheme \<Rightarrow> string \<Rightarrow> candidate \<Rightarrow> string \<Rightarrow> string list \<Rightarrow>
       ('x world_scheme, candidate_error, unit) act" where
  "validate_candidate orc repo cand surface patch_paths =
     seq (lift_err CandidateExc (git orc repo [''parents'', ca_commit cand])) (\<lambda>out.
       (if splitlines out \<noteq> [ca_base_commit cand]
        then raise (CandidateValidationError
               ''candidate must be a direct child of its trainer baseline'' InvalidCandidate)
        else seq (lift_err CandidateExc
               (git orc repo [''diff'', ''--name-only'', ca_base_commit cand, ca_commit cand])) (\<lambda>diff.
          (let changed = changed_paths diff;
               disallowed = filter (\<lambda>p. p \<notin> set patch_paths) changed
           in if disallowed \<noteq> []
              then raise (CandidateValidationError
                     (''candidate changed files outside the allowed patch surface:'' @ [nl]
                      @ join_str [nl] disallowed) InvalidCandidate)
              else if surface \<notin> set changed
              then raise (CandidateValidationError
                     (''candidate must change '' @ surface @ ''; tests-only patches are not run'')
                     InvalidCandidate)
              else ret ()))))"

section \<open>The trusted suite\<close>

definition SUITE_TAIL_LINES :: nat where
  "SUITE_TAIL_LINES = 30"

fun suite_verdict :: "proc_result \<Rightarrow> string option" where
  "suite_verdict TimedOut = Some ''test suite timed out after 900s''"
| "suite_verdict (Finished code out err) =
     (if code = 0 then None
      else Some (''test suite failed:'' @ [nl] @
             join_str [nl] (take_last SUITE_TAIL_LINES (splitlines (strip_ws (out @ err))))))"

definition run_suite ::
    "'o tools_scheme \<Rightarrow> string \<Rightarrow> string \<Rightarrow> string \<Rightarrow> string \<Rightarrow>
       ('x world_scheme, exc, string option) act" where
  "run_suite orc repo commit root_dir name =
     scratch_worktree orc (\<lambda>e. e) repo commit root_dir name [] (\<lambda>path.
       seq (proc orc [''python'', ''-m'', ''pytest'', ''-q''] path) (\<lambda>r. ret (suite_verdict r)))"

definition run_candidate_suite ::
    "'o tools_scheme \<Rightarrow> string \<Rightarrow> candidate \<Rightarrow> string \<Rightarrow> ('x world_scheme, candidate_error, unit) act" where
  "run_candidate_suite orc repo cand root_dir =
     seq (lift_err CandidateExc (run_suite orc repo (ca_commit cand) root_dir ''check'')) (\<lambda>failure.
       (case failure of
          None \<Rightarrow> ret ()
        | Some f \<Rightarrow>
            seq (lift_err CandidateExc (run_suite orc repo (ca_base_commit cand) root_dir ''base-check''))
              (\<lambda>base_failure.
                (case base_failure of
                   Some bf \<Rightarrow> raise (CandidateValidationError
                     (''baseline '' @ bf @ [nl, nl] @
                      ''This suite is already red at the base commit '' @
                      take 12 (ca_base_commit cand) @
                      '', so the candidate did not cause it and no candidate can pass the gate. Fix the suite first.'')
                     InvalidCandidate)
                 | None \<Rightarrow> raise (CandidateValidationError (''candidate '' @ f) InvalidCandidate)))))"

section \<open>The optimizer\<close>

definition should_promote :: "loss \<Rightarrow> bool" where
  "should_promote l = selects (ls_value l)"

definition optimizer_step ::
    "'o tools_scheme \<Rightarrow> string \<Rightarrow> harness_fields \<Rightarrow> ('x world_scheme, exc, harness_fields) act" where
  "optimizer_step orc repo h =
     (case hf_grad h of
        None \<Rightarrow> raise (RuntimeError
          ''nothing to apply: run criterion and loss.backward() before optimizer.step()'')
      | Some l \<Rightarrow>
          seq (if should_promote l then ret (ex_git_commit_hash (ls_candidate l))
               else head_sha orc repo) (\<lambda>target.
          also_then (git orc repo [''merge'', ''--ff-only'', target])
            (ret (h\<lparr>hf_applied := Some target\<rparr>))))"

section \<open>Facts\<close>

definition add_call :: "string \<Rightarrow> string \<Rightarrow> string \<Rightarrow> call" where
  "add_call repo path commit =
     Git repo [''worktree'', ''add'', ''--no-checkout'', ''--detach'', path, commit]"

definition remove_call :: "string \<Rightarrow> string \<Rightarrow> call" where
  "remove_call repo path = Git repo [''worktree'', ''remove'', ''--force'', path]"

definition prune_call :: "string \<Rightarrow> call" where
  "prune_call repo = Git repo [''worktree'', ''prune'']"

lemma teardown_trace:
  "wd_trace (snd (lift_err wrap (worktree_teardown orc repo path) w)) =
     wd_trace w @ [remove_call repo path, prune_call repo]"
  by (auto simp: act_simps worktree_teardown_def worktree_remove_def worktree_prune_def git_def
      remove_call_def prune_call_def split: sum.splits)

lemma finally_trace:
  assumes "emits (\<lambda>_. True) m" and "\<And>w. wd_trace (snd (n w)) = wd_trace w @ cs"
    and "finally_do m n w = (r, w')"
  shows "\<exists>ms. wd_trace w' = wd_trace w @ ms @ cs"
proof -
  obtain r1 w1 where m: "m w = (r1, w1)" by fastforce
  obtain r2 w2 where n: "n w1 = (r2, w2)" by fastforce
  have w': "w' = w2" using assms(3) m n by (auto simp: finally_do_def split: sum.splits)
  obtain ms where "wd_trace w1 = wd_trace w @ ms"
    using emits_run [OF assms(1) m] by blast
  then show ?thesis using assms(2) [of w1] n w' by simp
qed

lemma emits_setup: "emits (\<lambda>_. True) (lift_err wrap (worktree_setup orc path sparse))"
  unfolding worktree_setup_def by (intro emits_intros) auto

text \<open>The part before the worktree exists only ever fails with an error of its own.\<close>

definition prepare_calls :: "string \<Rightarrow> string \<Rightarrow> string \<Rightarrow> call set" where
  "prepare_calls repo root_dir path =
     {Fs ''mkdir'' [root_dir], Fs ''exists'' [path], Fs ''rmtree'' [path],
      remove_call repo path, prune_call repo}"

lemma emits_clear_stale:
  "emits (\<lambda>c. c \<in> prepare_calls repo root_dir path) (clear_stale orc repo path)"
  unfolding clear_stale_def suppress_git_def worktree_remove_def worktree_prune_def
  by (intro emits_intros) (simp_all add: prepare_calls_def remove_call_def prune_call_def)

definition worktree_prepare ::
    "'o tools_scheme \<Rightarrow> string \<Rightarrow> string \<Rightarrow> string \<Rightarrow> ('x world_scheme, exc, unit) act" where
  "worktree_prepare orc repo root_dir path =
     also_then (fs orc ''mkdir'' [root_dir])
       (seq (fs orc ''exists'' [path]) (\<lambda>present. when_do present (clear_stale orc repo path)))"

lemma emits_prepare:
  "emits (\<lambda>c. c \<in> prepare_calls repo root_dir path) (worktree_prepare orc repo root_dir path)"
  unfolding worktree_prepare_def
  by (intro emits_intros emits_clear_stale) (simp_all add: prepare_calls_def)

lemma scratch_worktree_prepared:
  "scratch_worktree orc wrap repo commit root_dir name sparse body w =
     (let path = worktree_path root_dir name commit
      in also_then (lift_err wrap (worktree_prepare orc repo root_dir path))
        (also_then (lift_err wrap
           (git orc repo [''worktree'', ''add'', ''--no-checkout'', ''--detach'', path, commit]))
        (finally_do
           (also_then (lift_err wrap (worktree_setup orc path sparse)) (body path))
           (lift_err wrap (worktree_teardown orc repo path)))) w)"
  by (auto simp: scratch_worktree_def worktree_prepare_def Let_def also_then_def seq_def lift_err_def
      catch_def raise_def when_do_def ret_def split: sum.splits prod.splits)

text \<open>What a worktree asks for: anything of the file system, only worktree commands of the
  repository, and git inside the worktree.\<close>

lemma emits_scratch_worktree:
  assumes "\<And>op args. P (Fs op args)" and "\<And>args. P (Git repo (''worktree'' # args))"
    and "\<And>args. P (Git (worktree_path root_dir name commit) args)"
    and "emits P (body (worktree_path root_dir name commit))"
  shows "emits P (scratch_worktree orc wrap repo commit root_dir name sparse body)"
  unfolding scratch_worktree_def Let_def clear_stale_def suppress_git_def worktree_remove_def
    worktree_prune_def worktree_setup_def worktree_teardown_def
  by (intro emits_intros assms)

lemma emits_capture: "(\<And>args. P (Git repo args)) \<Longrightarrow> emits P (capture_candidate orc repo base)"
  unfolding capture_candidate_def head_sha_def by (intro emits_intros)

lemma emits_validate:
  "(\<And>args. P (Git repo args)) \<Longrightarrow> emits P (validate_candidate orc repo cand surface paths)"
  unfolding validate_candidate_def Let_def by (intro emits_intros)

lemma emits_run_suite:
  assumes "\<And>op args. P (Fs op args)" and "\<And>args. P (Git repo (''worktree'' # args))"
    and "\<And>nm c args. P (Git (worktree_path root_dir nm c) args)" and "\<And>argv cwd. hd argv = ''python'' \<Longrightarrow> P (Proc argv cwd)"
  shows "emits P (run_suite orc repo commit root_dir name)"
  unfolding run_suite_def
  by (intro emits_scratch_worktree emits_intros assms) simp

lemma emits_candidate_suite:
  assumes "\<And>op args. P (Fs op args)" and "\<And>args. P (Git repo (''worktree'' # args))"
    and "\<And>nm c args. P (Git (worktree_path root_dir nm c) args)" and "\<And>argv cwd. hd argv = ''python'' \<Longrightarrow> P (Proc argv cwd)"
  shows "emits P (run_candidate_suite orc repo cand root_dir)"
proof -
  have "emits P (case f of None \<Rightarrow> ret () | Some f \<Rightarrow>
      seq (lift_err CandidateExc (run_suite orc repo (ca_base_commit cand) root_dir ''base-check''))
        (\<lambda>b. case b of Some bf \<Rightarrow> raise (e1 bf) | None \<Rightarrow> raise (e2 f)))" for f e1 e2
    by (cases f) (auto intro!: emits_intros emits_run_suite assms split: option.split)
  then show ?thesis
    unfolding run_candidate_suite_def by (intro emits_intros emits_run_suite assms) simp
qed

context call_frame
begin

lemma frame_scratch_worktree:
  assumes "\<And>p. steps R (body p)"
  shows "steps R (scratch_worktree orc wrap repo commit root_dir name sparse body)"
  unfolding scratch_worktree_def Let_def clear_stale_def suppress_git_def worktree_remove_def
    worktree_prune_def worktree_setup_def worktree_teardown_def
  by (intro frames steps_if assms)

lemma frame_capture: "steps R (capture_candidate orc repo base)"
  unfolding capture_candidate_def head_sha_def by (intro frames steps_if)

lemma frame_validate: "steps R (validate_candidate orc repo cand surface paths)"
  unfolding validate_candidate_def Let_def by (intro frames steps_if)

lemma frame_suite: "steps R (run_suite orc repo commit root_dir name)"
  unfolding run_suite_def by (intro frames frame_scratch_worktree)

lemma frame_candidate_suite: "steps R (run_candidate_suite orc repo cand root_dir)"
  unfolding run_candidate_suite_def
  by (intro frames frame_suite) (auto intro!: frames frame_suite split: option.split)

end

text \<open>
  C11. A scratch worktree is always cleaned up: whatever git, the file system and the body do,
  either the worktree was never added, the body never ran and the error of the preparation is
  reported, or the last two commands are the forced removal of that worktree and the prune,
  after everything the set-up and the body did.
\<close>

theorem worktree_always_removed:
  assumes "\<And>p. emits (\<lambda>_. True) (body p)"
    and "scratch_worktree orc wrap repo commit root_dir name sparse body w = (r, w')"
    and "path = worktree_path root_dir name commit"
  shows "(\<exists>e cs. r = Inl (wrap e) \<and> wd_trace w' = wd_trace w @ cs \<and>
            set cs \<subseteq> insert (add_call repo path commit) (prepare_calls repo root_dir path)) \<or>
         (\<exists>cs ms. wd_trace w' = wd_trace w @ cs @ [add_call repo path commit] @ ms @
            [remove_call repo path, prune_call repo] \<and> set cs \<subseteq> prepare_calls repo root_dir path)"
proof -
  let ?add = "git orc repo [''worktree'', ''add'', ''--no-checkout'', ''--detach'', path, commit]"
  let ?body = "also_then (lift_err wrap (worktree_setup orc path sparse)) (body path)"
  let ?fin = "finally_do ?body (lift_err wrap (worktree_teardown orc repo path))"
  obtain r1 w1 where prep: "worktree_prepare orc repo root_dir path w = (r1, w1)" by fastforce
  obtain cs where cs: "wd_trace w1 = wd_trace w @ cs" "set cs \<subseteq> prepare_calls repo root_dir path"
    using emits_run [OF emits_prepare prep] by (meson subsetI)
  have run: "(r, w') = also_then (lift_err wrap (worktree_prepare orc repo root_dir path))
      (also_then (lift_err wrap ?add) ?fin) w"
    using assms(2,3) by (simp add: scratch_worktree_prepared Let_def)
  show ?thesis
  proof (cases r1)
    case (Inl e)
    then show ?thesis using run prep cs by (auto simp: act_simps)
  next
    case (Inr u)
    let ?w2 = "note_call (add_call repo path commit) w1"
    have after: "(r, w') = also_then (lift_err wrap ?add) ?fin w1"
      using run prep Inr by (simp add: act_simps)
    show ?thesis
    proof (cases "or_git orc (wd_trace w1) repo [''worktree'', ''add'', ''--no-checkout'', ''--detach'', path, commit]")
      case (Inl e)
      then show ?thesis using after cs by (auto simp: act_simps git_def add_call_def)
    next
      case (Inr t)
      then have "?fin ?w2 = (r, w')"
        using after by (simp add: also_then_def seq_def lift_err_def catch_def git_def add_call_def)
      moreover have "emits (\<lambda>_. True) ?body"
        by (rule emits_also_then [OF emits_setup assms(1)])
      ultimately obtain ms where "wd_trace w' = wd_trace ?w2 @ ms @ [remove_call repo path, prune_call repo]"
        using finally_trace teardown_trace by metis
      then show ?thesis using cs by auto
    qed
  qed
qed

text \<open>A tool oracle for concrete runs: git answers from a table, everything else succeeds.\<close>

definition sample_tools :: "(string list \<Rightarrow> string) \<Rightarrow> tools" where
  "sample_tools g = \<lparr>or_git = (\<lambda>_ _ args. Inr (g args)), or_fs = (\<lambda>_ _ _. Inr False),
     or_proc = (\<lambda>_ _ _. Inr (Finished 0 [] []))\<rparr>"

definition start_world :: world where
  "start_world = \<lparr>wd_trace = []\<rparr>"

theorem worktree_always_removed_witness:
  "\<exists>r w' cs ms. scratch_worktree (sample_tools (\<lambda>_. [])) id ''repo'' ''0123456789abcdef'' ''wt'' ''measure'' []
      (\<lambda>p. proc (sample_tools (\<lambda>_. [])) [''pytest''] p) start_world = (r, w') \<and>
     wd_trace w' = cs @ [add_call ''repo'' ''wt/measure-0123456789ab'' ''0123456789abcdef''] @ ms @
            [remove_call ''repo'' ''wt/measure-0123456789ab'', prune_call ''repo'']"
proof -
  let ?path = "''wt/measure-0123456789ab''"
  let ?body = "\<lambda>p. proc (sample_tools (\<lambda>_. [])) [''pytest''] p"
  let ?m = "scratch_worktree (sample_tools (\<lambda>_. [])) id ''repo'' ''0123456789abcdef'' ''wt'' ''measure'' [] ?body"
  obtain r w' where run: "?m start_world = (r, w')" by fastforce
  have e: "\<And>p. emits (\<lambda>_. True) (?body p)" by (intro emits_intros) simp
  have p: "?path = worktree_path ''wt'' ''measure'' ''0123456789abcdef''"
    by (simp add: worktree_path_def)
  have ok: "\<exists>x. fst (?m start_world) = Inr x"
    by (simp add: scratch_worktree_def Let_def act_simps git_def fs_def proc_def sample_tools_def
        worktree_setup_def worktree_teardown_def worktree_remove_def worktree_prune_def)
  from worktree_always_removed [OF e run p] ok run show ?thesis
    by (auto simp: start_world_def)
qed

text \<open>
  C12. A candidate passes validation exactly when git names the trainer's baseline as its only
  parent, every changed path is on the allowed patch surface, and the training surface itself is
  among the changed paths; any other answer of git is an \<open>invalid_candidate\<close> error, and no
  failure of validation is reported as a missing candidate.
\<close>

theorem validate_candidate_iff:
  assumes "or_git orc (wd_trace w) repo [''parents'', ca_commit cand] = Inr parents"
    and "or_git orc (wd_trace w @ [Git repo [''parents'', ca_commit cand]]) repo
           [''diff'', ''--name-only'', ca_base_commit cand, ca_commit cand] = Inr diff"
  shows "(fst (validate_candidate orc repo cand surface patch_paths w) = Inr () \<longleftrightarrow>
      splitlines parents = [ca_base_commit cand] \<and> set (changed_paths diff) \<subseteq> set patch_paths \<and>
      surface \<in> set (changed_paths diff)) \<and>
    (fst (validate_candidate orc repo cand surface patch_paths w) \<noteq> Inr () \<longrightarrow>
      (\<exists>m. fst (validate_candidate orc repo cand surface patch_paths w) =
         Inl (CandidateValidationError m InvalidCandidate)))"
proof (cases "splitlines parents = [ca_base_commit cand]")
  case False
  then show ?thesis using assms
    by (simp add: validate_candidate_def seq_def lift_err_def catch_def git_def raise_def)
next
  case True
  let ?dis = "filter (\<lambda>p. p \<notin> set patch_paths) (changed_paths diff)"
  have "?dis = [] \<longleftrightarrow> set (changed_paths diff) \<subseteq> set patch_paths"
    by (auto simp: filter_empty_conv)
  then show ?thesis using assms True
    by (simp add: validate_candidate_def seq_def lift_err_def catch_def git_def raise_def Let_def
        ret_def note_call_def)
qed

theorem validate_candidate_iff_witness:
  "fst (validate_candidate (sample_tools (\<lambda>args. if args = [''parents'', ''c''] then ''b'' else ''src/policy.py''))
     ''repo'' \<lparr>ca_commit = ''c'', ca_base_commit = ''b''\<rparr> ''src/policy.py'' [''src/policy.py''] start_world) = Inr ()"
proof -
  let ?orc = "sample_tools (\<lambda>args. if args = [''parents'', ''c''] then ''b'' else ''src/policy.py'')"
  let ?cand = "\<lparr>ca_commit = ''c'', ca_base_commit = ''b''\<rparr>"
  have p: "or_git ?orc (wd_trace start_world) ''repo'' [''parents'', ca_commit ?cand] = Inr ''b''"
    and d: "or_git ?orc (wd_trace start_world @ [Git ''repo'' [''parents'', ca_commit ?cand]]) ''repo''
           [''diff'', ''--name-only'', ca_base_commit ?cand, ca_commit ?cand] = Inr ''src/policy.py''"
    by (simp_all add: sample_tools_def)
  have "splitlines ''b'' = [ca_base_commit ?cand]"
    and "changed_paths ''src/policy.py'' = [''src/policy.py'']"
    by (simp_all add: splitlines_def changed_paths_def line_breaks_def)
  then show ?thesis
    using validate_candidate_iff [OF p d, of "''src/policy.py''" "[''src/policy.py'']"] by simp
qed

lemma optimizer_step_Inr:
  assumes "optimizer_step orc repo h w = (Inr h', w')"
  shows "\<exists>l target. hf_grad h = Some l \<and> h' = h\<lparr>hf_applied := Some target\<rparr> \<and>
    (selects (ls_value l) \<longrightarrow> target = ex_git_commit_hash (ls_candidate l) \<and>
       wd_trace w' = wd_trace w @ [Git repo [''merge'', ''--ff-only'', target]]) \<and>
    (\<not> selects (ls_value l) \<longrightarrow>
       or_git orc (wd_trace w) repo [''rev-parse'', ''HEAD''] = Inr target \<and>
       wd_trace w' = wd_trace w @ [Git repo [''rev-parse'', ''HEAD''],
         Git repo [''merge'', ''--ff-only'', target]])"
proof (cases "hf_grad h")
  case None
  then show ?thesis using assms by (simp add: optimizer_step_def raise_def)
next
  case (Some l)
  show ?thesis
  proof (cases "selects (ls_value l)")
    case True
    then show ?thesis using assms Some
      by (auto simp: optimizer_step_def should_promote_def act_simps git_def split: sum.splits)
  next
    case False
    then show ?thesis using assms Some
      by (auto simp: optimizer_step_def should_promote_def act_simps git_def head_sha_def split: sum.splits)
  qed
qed

text \<open>
  The optimizer can only keep the harness or move it to the judged candidate: a step that
  returns asked git for nothing but HEAD and one fast-forward-only merge, the merge was its last
  command, its target is the candidate's commit when the recorded loss selects and the HEAD it
  read otherwise, and the recorded selection is that target with the recorded loss untouched.
\<close>

theorem optimizer_step_target:
  assumes "optimizer_step orc repo h w = (Inr h', w')"
  shows "\<exists>l target. hf_grad h = Some l \<and> h' = h\<lparr>hf_applied := Some target\<rparr> \<and>
    (selects (ls_value l) \<longrightarrow> target = ex_git_commit_hash (ls_candidate l) \<and>
       wd_trace w' = wd_trace w @ [Git repo [''merge'', ''--ff-only'', target]]) \<and>
    (\<not> selects (ls_value l) \<longrightarrow>
       or_git orc (wd_trace w) repo [''rev-parse'', ''HEAD''] = Inr target \<and>
       wd_trace w' = wd_trace w @ [Git repo [''rev-parse'', ''HEAD''],
         Git repo [''merge'', ''--ff-only'', target]])"
  using assms by (rule optimizer_step_Inr)

theorem optimizer_step_target_witness:
  "\<exists>h' w' l. strict_pareto [] True (sample_run ''c'' ''y'' [(''t'', Solved)])
       (sample_run ''b'' ''x'' [(''t'', HitTimeout)]) = Inr l \<and>
     optimizer_step (sample_tools (\<lambda>_. ''x'')) ''repo'' \<lparr>hf_grad = Some l, hf_applied = None\<rparr> start_world
       = (Inr h', w') \<and> hf_applied h' = Some ''y''"
proof -
  have "\<exists>l. strict_pareto [] True (sample_run ''c'' ''y'' [(''t'', Solved)])
       (sample_run ''b'' ''x'' [(''t'', HitTimeout)]) = Inr l \<and> selects (ls_value l)"
    by (simp add: sample_simps del: set_filter set_map)
  then obtain l where l: "strict_pareto [] True (sample_run ''c'' ''y'' [(''t'', Solved)])
       (sample_run ''b'' ''x'' [(''t'', HitTimeout)]) = Inr l" "selects (ls_value l)" by blast
  let ?h = "\<lparr>hf_grad = Some l, hf_applied = None\<rparr>"
  have cand: "ex_git_commit_hash (ls_candidate l) = ''y''"
    using pareto.judged_candidate [OF l(1)] by (simp add: sample_run_def)
  obtain h' w' where s: "optimizer_step (sample_tools (\<lambda>_. ''x'')) ''repo'' ?h start_world = (Inr h', w')"
    using l(2) by (auto simp: optimizer_step_def should_promote_def act_simps git_def sample_tools_def)
  from optimizer_step_target [OF s] l s cand show ?thesis by auto
qed

end
