(* ===== verification/Store.thy ===== *)
theory Store
  imports Records
begin

text \<open>
  \<open>src/rollout/store.py\<close>: the run store. Its state is what the directory holds: one experiment
  per run id (\<open>experiment.json\<close>), the rows of \<open>runs.jsonl\<close> in order, and \<open>learning.md\<close>. Files are
  kept as the values they parse to; writing does not validate and reading does, as in the code.
  What is read back is what was written with every mapping in key order, since the JSON text is
  written with sorted keys. \<open>sha\<close> is the digest function and \<open>now\<close> the clock reading.
\<close>

record run_store =
  st_experiments :: "(string, experiment_result) dict"
  st_index :: "run_index_row list"
  st_learning :: "string option"

definition empty_store :: run_store where
  "empty_store = \<lparr>st_experiments = [], st_index = [], st_learning = None\<rparr>"

definition publish_learning :: "run_store \<Rightarrow> string \<Rightarrow> run_store" where
  "publish_learning st t = st\<lparr>st_learning := Some t\<rparr>"

text \<open>The value the text of an experiment parses back to.\<close>

definition parsed_rollout :: "rollout_result \<Rightarrow> rollout_result" where
  "parsed_rollout r = r\<lparr>rr_metrics := sort_key fst (rr_metrics r)\<rparr>"

definition as_parsed :: "experiment_result \<Rightarrow> experiment_result" where
  "as_parsed e = e\<lparr>
     ex_config := map_option canon (ex_config e),
     ex_tasks := sort_key fst (map (\<lambda>(t, r). (t, map_option parsed_rollout r)) (ex_tasks e)),
     ex_determinism_certification := map_option (sort_key fst) (ex_determinism_certification e)\<rparr>"

definition save_experiment :: "run_store \<Rightarrow> experiment_result \<Rightarrow> run_store" where
  "save_experiment st e =
     st\<lparr>st_experiments := AList.update (ex_experiment_id e) (as_parsed e) (st_experiments st)\<rparr>"

definition load_experiment :: "run_store \<Rightarrow> string \<Rightarrow> exc + experiment_result" where
  "load_experiment st run_id =
     (case map_of (st_experiments st) run_id of
        None \<Rightarrow> Inl (FileNotFoundError run_id)
      | Some e \<Rightarrow> validate_experiment e)"

definition mark_crashed ::
    "run_store \<Rightarrow> string \<Rightarrow> string \<Rightarrow> nat \<Rightarrow> exc + (run_store \<times> experiment_result)" where
  "mark_crashed st run_id reason now =
     bind_res (load_experiment st run_id) (\<lambda>result.
       (if ex_crash_reason result \<noteq> None then Inr (st, result)
        else
          (let crashed = result\<lparr>ex_finished_at := Some now, ex_crash_reason := Some reason\<rparr>
           in Inr (save_experiment st crashed, crashed))))"

definition log_rollout :: "run_store \<Rightarrow> string \<Rightarrow> rollout_result \<Rightarrow> exc + run_store" where
  "log_rollout st run_id r =
     bind_res (load_experiment st run_id) (\<lambda>result.
       Inr (save_experiment st
              (result\<lparr>ex_tasks := AList.update (rr_task_id r) (Some r) (ex_tasks result)\<rparr>)))"

definition read_index :: "run_store \<Rightarrow> run_index_row list" where
  "read_index st = st_index st"

definition baseline_row :: "string \<Rightarrow> string \<Rightarrow> run_index_row \<Rightarrow> bool" where
  "baseline_row commit digest row \<longleftrightarrow>
     ix_kind row = KindBaseline \<and> ix_crash_reason row = None \<and>
     ix_git_commit_hash row = commit \<and> ix_measurement_identity_digest row = digest"

definition latest_completed_baseline ::
    "run_store \<Rightarrow> string \<Rightarrow> string \<Rightarrow> exc + experiment_result option" where
  "latest_completed_baseline st commit digest =
     (case find (baseline_row commit digest) (rev (read_index st)) of
        None \<Rightarrow> Inr None
      | Some row \<Rightarrow> bind_res (load_experiment st (ix_experiment_id row)) (\<lambda>e. Inr (Some e)))"

record run_relations =
  rel_kind :: run_kind
  rel_parent_commit_hash :: "string option"
  rel_baseline_experiment_id :: "string option"
  rel_decision :: "result_decision option"

definition finalize :: "experiment_result \<Rightarrow> run_relations \<Rightarrow> experiment_result" where
  "finalize e rel = e\<lparr>ex_kind := Some (rel_kind rel),
     ex_parent_commit_hash := rel_parent_commit_hash rel,
     ex_baseline_experiment_id := rel_baseline_experiment_id rel,
     ex_decision := rel_decision rel\<rparr>"

text \<open>The row's constructor rejects a run that has no finish time.\<close>

definition index_row ::
    "(string \<Rightarrow> string) \<Rightarrow> experiment_result \<Rightarrow> run_kind \<Rightarrow> exc + run_index_row" where
  "index_row sha e kind =
     (case ex_finished_at e of
        None \<Rightarrow> Inl (ValueError ''finished_at'')
      | Some finished \<Rightarrow> Inr
         \<lparr>ix_experiment_id = ex_experiment_id e, ix_kind = kind,
          ix_git_commit_hash = ex_git_commit_hash e,
          ix_measurement_identity_digest = identity_digest sha (ex_measurement_identity e),
          ix_parent_commit_hash = ex_parent_commit_hash e,
          ix_baseline_experiment_id = ex_baseline_experiment_id e,
          ix_started_at = ex_started_at e, ix_finished_at = finished,
          ix_crash_reason = ex_crash_reason e,
          ix_solved = card (solved_task_ids e),
          ix_verdict = map_option rd_outcome (ex_decision e),
          ix_reason = map_option rd_reason (ex_decision e)\<rparr>)"

definition record_finalized_run ::
    "(string \<Rightarrow> string) \<Rightarrow> run_store \<Rightarrow> experiment_result \<Rightarrow> run_relations \<Rightarrow>
       exc + (run_store \<times> experiment_result)" where
  "record_finalized_run sha st e rel =
     (let updated = finalize e rel
      in bind_res (index_row sha updated (rel_kind rel)) (\<lambda>row.
           (let saved = save_experiment st updated
            in Inr (saved\<lparr>st_index := st_index saved @ [row]\<rparr>, updated))))"

section \<open>The history a store stands for\<close>

text \<open>
  Abstractly a store is the list of finalized runs, oldest first; the baseline it serves is the
  newest completed one of that commit and measurement identity.
\<close>

lemma as_parsed_fields [simp]:
  "ex_experiment_id (as_parsed e) = ex_experiment_id e" "ex_kind (as_parsed e) = ex_kind e"
  "ex_finished_at (as_parsed e) = ex_finished_at e" "ex_crash_reason (as_parsed e) = ex_crash_reason e"
  "ex_git_commit_hash (as_parsed e) = ex_git_commit_hash e" "ex_decision (as_parsed e) = ex_decision e"
  "ex_measurement_identity (as_parsed e) = ex_measurement_identity e"
  by (simp_all add: as_parsed_def)

lemma parsed_rollout_fields [simp]:
  "rollout_ok (parsed_rollout r) = rollout_ok r" "rr_task_id (parsed_rollout r) = rr_task_id r"
  by (simp_all add: parsed_rollout_def rollout_ok_def)

lemma set_tasks_parsed: "set (ex_tasks (as_parsed e)) = (\<lambda>(t, r). (t, map_option parsed_rollout r)) ` set (ex_tasks e)"
  by (simp add: as_parsed_def)

lemma as_parsed_ok [simp]: "experiment_ok (as_parsed e) = experiment_ok e"
proof -
  let ?f = "\<lambda>(t, r). (t, map_option parsed_rollout r)"
  have 1: "(\<forall>r. Some r \<in> snd ` ?f ` T \<longrightarrow> rollout_ok r) \<longleftrightarrow> (\<forall>r. Some r \<in> snd ` T \<longrightarrow> rollout_ok r)"
    for T :: "(string \<times> rollout_result option) set"
  proof
    assume l: "\<forall>r. Some r \<in> snd ` ?f ` T \<longrightarrow> rollout_ok r"
    show "\<forall>r. Some r \<in> snd ` T \<longrightarrow> rollout_ok r"
    proof (intro allI impI)
      fix r assume "Some r \<in> snd ` T"
      then have "Some (parsed_rollout r) \<in> snd ` ?f ` T" by (force simp: image_iff)
      with l show "rollout_ok r" by (metis parsed_rollout_fields(1))
    qed
  next
    assume T: "\<forall>r. Some r \<in> snd ` T \<longrightarrow> rollout_ok r"
    show "\<forall>r. Some r \<in> snd ` ?f ` T \<longrightarrow> rollout_ok r"
    proof (intro allI impI)
      fix r assume "Some r \<in> snd ` ?f ` T"
      then obtain t q where q: "(t, q) \<in> T" "Some r = map_option parsed_rollout q" by auto
      then obtain r0 where r0: "q = Some r0" "r = parsed_rollout r0" by (cases q) auto
      then have "Some r0 \<in> snd ` T" using q by force
      with T r0 show "rollout_ok r" by simp
    qed
  qed
  have 2: "(\<forall>(k, ro) \<in> ?f ` T. \<exists>r. ro = Some r \<and> rr_task_id r = k) \<longleftrightarrow>
      (\<forall>(k, ro) \<in> T. \<exists>r. ro = Some r \<and> rr_task_id r = k)" for T
    by (auto simp: case_prod_beta)
  show ?thesis unfolding experiment_ok_iff set_tasks_parsed 1 2 by simp
qed

definition is_baseline_for ::
    "(string \<Rightarrow> string) \<Rightarrow> string \<Rightarrow> string \<Rightarrow> experiment_result \<Rightarrow> bool" where
  "is_baseline_for sha commit digest e \<longleftrightarrow>
     ex_kind e = Some KindBaseline \<and> ex_crash_reason e = None \<and>
     ex_git_commit_hash e = commit \<and> identity_digest sha (ex_measurement_identity e) = digest"

definition history_baseline ::
    "(string \<Rightarrow> string) \<Rightarrow> experiment_result list \<Rightarrow> string \<Rightarrow> string \<Rightarrow> experiment_result option" where
  "history_baseline sha hs commit digest = find (is_baseline_for sha commit digest) (rev hs)"

definition records_history ::
    "(string \<Rightarrow> string) \<Rightarrow> run_store \<Rightarrow> experiment_result list \<Rightarrow> bool" where
  "records_history sha st hs \<longleftrightarrow>
     distinct (map ex_experiment_id hs) \<and>
     (\<forall>i e. map_of (st_experiments st) i = Some e \<longrightarrow> ex_experiment_id e = i) \<and>
     list_all2 (\<lambda>e row. \<exists>k. ex_kind e = Some k \<and> index_row sha e k = Inr row) hs (st_index st) \<and>
     (\<forall>e \<in> set hs. map_of (st_experiments st) (ex_experiment_id e) = Some (as_parsed e) \<and> experiment_ok e)"

lemma row_of_run:
  "index_row sha e k = Inr row \<Longrightarrow> ex_kind e = Some k \<Longrightarrow>
     ix_experiment_id row = ex_experiment_id e \<and>
     (baseline_row commit digest row \<longleftrightarrow> is_baseline_for sha commit digest e)"
  by (auto simp: index_row_def baseline_row_def is_baseline_for_def split: option.splits)

lemma find_append: "find P (xs @ ys) = (case find P xs of None \<Rightarrow> find P ys | Some x \<Rightarrow> Some x)"
  by (induction xs) auto

lemma find_rel:
  assumes "list_all2 R xs ys" and "\<And>x y. R x y \<Longrightarrow> P x \<longleftrightarrow> Q y"
  shows "(find P xs = None \<and> find Q ys = None) \<or>
         (\<exists>x y. find P xs = Some x \<and> find Q ys = Some y \<and> R x y \<and> x \<in> set xs)"
  using assms(1) by (induction rule: list_all2_induct) (auto simp: assms(2))

lemma load_saved:
  "load_experiment (save_experiment st e) i =
     (if i = ex_experiment_id e then validate_experiment (as_parsed e) else load_experiment st i)"
  by (simp add: load_experiment_def save_experiment_def dict_simps)

lemma load_Inr:
  "load_experiment st i = Inr e \<longleftrightarrow> map_of (st_experiments st) i = Some e \<and> experiment_ok e"
  by (auto simp: load_experiment_def validate_experiment_Inr split: option.splits)

lemma index_of_save [simp]: "st_index (save_experiment st e) = st_index st"
  by (simp add: save_experiment_def)

lemma latest_of_history:
  assumes "records_history sha st hs"
  shows "latest_completed_baseline st commit digest =
    Inr (map_option as_parsed (history_baseline sha hs commit digest))"
proof -
  let ?R = "\<lambda>e row. \<exists>k. ex_kind e = Some k \<and> index_row sha e k = Inr row"
  from assms have all: "list_all2 ?R (rev hs) (rev (st_index st))"
    by (simp add: records_history_def)
  have same: "is_baseline_for sha commit digest e = baseline_row commit digest row" if "?R e row" for e row
    using that row_of_run by blast
  from find_rel [where P = "is_baseline_for sha commit digest" and Q = "baseline_row commit digest",
      OF all same]
  consider "history_baseline sha hs commit digest = None"
      "find (baseline_row commit digest) (rev (st_index st)) = None"
    | e row k where "history_baseline sha hs commit digest = Some e"
      "find (baseline_row commit digest) (rev (st_index st)) = Some row"
      "ex_kind e = Some k" "index_row sha e k = Inr row" "e \<in> set hs"
    by (auto simp: history_baseline_def)
  then show ?thesis
  proof cases
    case 1
    then show ?thesis by (simp add: latest_completed_baseline_def read_index_def)
  next
    case 2
    then have "ix_experiment_id row = ex_experiment_id e" using row_of_run by blast
    moreover from 2(5) assms have "load_experiment st (ex_experiment_id e) = Inr (as_parsed e)"
      by (auto simp: records_history_def load_Inr)
    ultimately show ?thesis using 2
      by (simp add: latest_completed_baseline_def read_index_def)
  qed
qed

lemma finalize_id [simp]: "ex_experiment_id (finalize e rel) = ex_experiment_id e"
  "ex_kind (finalize e rel) = Some (rel_kind rel)"
  "ex_finished_at (finalize e rel) = ex_finished_at e"
  "ex_crash_reason (finalize e rel) = ex_crash_reason e"
  "ex_git_commit_hash (finalize e rel) = ex_git_commit_hash e"
  "ex_measurement_identity (finalize e rel) = ex_measurement_identity e"
  "ex_tasks (finalize e rel) = ex_tasks e"
  by (simp_all add: finalize_def)

lemma finalize_ok [simp]: "experiment_ok (finalize e rel) = experiment_ok e"
  by (simp add: experiment_ok_iff)

text \<open>Saving a run that is part of the history replaces it there. The ledger allows that when its row in the
  index stays true of it, as the certification of a baseline does (\<open>plugins/replay/audit.py\<close>).\<close>

definition amend :: "experiment_result \<Rightarrow> experiment_result list \<Rightarrow> experiment_result list" where
  "amend e hs = map (\<lambda>h. if ex_experiment_id h = ex_experiment_id e then e else h) hs"

definition keeps_row :: "(string \<Rightarrow> string) \<Rightarrow> experiment_result \<Rightarrow> experiment_result \<Rightarrow> bool" where
  "keeps_row sha h e \<longleftrightarrow> experiment_ok e \<and>
     (\<exists>k row. ex_kind h = Some k \<and> ex_kind e = Some k \<and> index_row sha h k = Inr row \<and> index_row sha e k = Inr row)"

lemma amend_ids [simp]: "map ex_experiment_id (amend e hs) = map ex_experiment_id hs"
  by (simp add: amend_def)

lemma amend_fresh: "ex_experiment_id e \<notin> ex_experiment_id ` set hs \<Longrightarrow> amend e hs = hs"
  by (induction hs) (auto simp: amend_def)

lemma solved_parsed: "solved_task_ids (as_parsed e) = solved_task_ids e"
proof -
  have "t \<in> solved_task_ids (as_parsed e) \<longleftrightarrow> t \<in> solved_task_ids e" for t
  proof
    assume "t \<in> solved_task_ids (as_parsed e)"
    then obtain r q where "(t, q) \<in> set (ex_tasks e)" "Some r = map_option parsed_rollout q" "rr_failure_mode r = Solved"
      by (auto simp: solved_iff set_tasks_parsed)
    then show "t \<in> solved_task_ids e" by (cases q) (auto simp: solved_iff parsed_rollout_def)
  next
    assume "t \<in> solved_task_ids e"
    then obtain r where r: "(t, Some r) \<in> set (ex_tasks e)" "rr_failure_mode r = Solved" by (auto simp: solved_iff)
    then have "(t, Some (parsed_rollout r)) \<in> set (ex_tasks (as_parsed e))"
      by (force simp: set_tasks_parsed)
    then show "t \<in> solved_task_ids (as_parsed e)" using r(2) unfolding solved_iff by (auto simp: parsed_rollout_def)
  qed
  then show ?thesis by blast
qed

lemma certified_ok: "experiment_ok (e\<lparr>ex_determinism_certification := c\<rparr>) = experiment_ok e"
  by (simp add: experiment_ok_iff)

lemma certified_row: "index_row sha (e\<lparr>ex_determinism_certification := c\<rparr>) k = index_row sha e k"
  by (simp add: index_row_def solved_task_ids_def split: option.split)

lemma parsed_row: "index_row sha (as_parsed e) k = index_row sha e k"
proof -
  have "ex_parent_commit_hash (as_parsed e) = ex_parent_commit_hash e" "ex_started_at (as_parsed e) = ex_started_at e"
    "ex_baseline_experiment_id (as_parsed e) = ex_baseline_experiment_id e"
    by (simp_all add: as_parsed_def)
  then show ?thesis by (simp add: index_row_def solved_parsed split: option.split)
qed

lemma certified_keeps_row:
  assumes "experiment_ok h" and "b = h \<or> b = as_parsed h"
    and "ex_kind h = Some k" and "index_row sha h k = Inr row"
  shows "keeps_row sha h (b\<lparr>ex_determinism_certification := c\<rparr>)"
  using assms by (auto simp: keeps_row_def certified_ok certified_row parsed_row)

lemma history_save:
  assumes "records_history sha st hs"
    and "\<forall>h \<in> set hs. ex_experiment_id h = ex_experiment_id e \<longrightarrow> keeps_row sha h e"
  shows "records_history sha (save_experiment st e) (amend e hs)"
proof -
  have "list_all2 (\<lambda>e row. \<exists>k. ex_kind e = Some k \<and> index_row sha e k = Inr row) (amend e hs) (st_index st)"
    using assms by (auto simp: records_history_def amend_def list.rel_map keeps_row_def
        elim!: list.rel_mono_strong)
  moreover have "\<forall>d \<in> set (amend e hs). map_of (st_experiments (save_experiment st e)) (ex_experiment_id d) = Some (as_parsed d) \<and>
      experiment_ok d"
    using assms by (auto simp: records_history_def amend_def save_experiment_def dict_simps keeps_row_def)
  ultimately show ?thesis
    using assms by (simp add: records_history_def) (simp add: save_experiment_def dict_simps)
qed

lemma history_save_fresh:
  assumes "records_history sha st hs" and "ex_experiment_id e \<notin> ex_experiment_id ` set hs"
  shows "records_history sha (save_experiment st e) hs"
proof -
  have "\<forall>h \<in> set hs. ex_experiment_id h = ex_experiment_id e \<longrightarrow> keeps_row sha h e" using assms(2) by (auto simp: image_iff)
  from history_save [OF assms(1) this] show ?thesis by (simp add: amend_fresh [OF assms(2)])
qed

lemma history_record:
  assumes "records_history sha st hs" and "ex_experiment_id e \<notin> set (map ex_experiment_id hs)"
    and "experiment_ok e" and "record_finalized_run sha st e rel = Inr (st', e')"
  shows "e' = finalize e rel" and "records_history sha st' (hs @ [e'])"
proof -
  from assms(4) obtain row where e': "e' = finalize e rel"
      and row: "index_row sha e' (rel_kind rel) = Inr row"
      and st': "st' = (save_experiment st e')\<lparr>st_index := st_index st @ [row]\<rparr>"
    by (auto simp: record_finalized_run_def Let_def res_simps)
  show "e' = finalize e rel" by (rule e')
  have "list_all2 (\<lambda>e row. \<exists>k. ex_kind e = Some k \<and> index_row sha e k = Inr row)
      (hs @ [e']) (st_index st @ [row])"
    using assms(1) row by (intro list_all2_appendI) (auto simp: records_history_def e')
  moreover have "\<forall>d \<in> set hs. ex_experiment_id d \<noteq> ex_experiment_id e"
    using assms(2) by (auto simp: image_iff)
  ultimately show "records_history sha st' (hs @ [e'])"
    using assms(1-3) by (auto simp: records_history_def st' save_experiment_def dict_simps e')
qed

section \<open>The contract of a run ledger\<close>

text \<open>
  What the trainer needs from its store, over an abstraction relation \<open>rel\<close> from states to
  histories: saving a run leaves the history alone, or amends the entry of that run if \<open>keeps\<close> allows it,
  recording appends, and the served baseline is the history's.
\<close>

locale run_ledger =
  fixes rel :: "'st \<Rightarrow> experiment_result list \<Rightarrow> bool"
    and save :: "'st \<Rightarrow> experiment_result \<Rightarrow> 'st"
    and rec :: "'st \<Rightarrow> experiment_result \<Rightarrow> run_relations \<Rightarrow> exc + ('st \<times> experiment_result)"
    and latest :: "'st \<Rightarrow> string \<Rightarrow> string \<Rightarrow> exc + experiment_result option"
    and matches :: "string \<Rightarrow> string \<Rightarrow> experiment_result \<Rightarrow> bool"
    and view :: "experiment_result \<Rightarrow> experiment_result"
    and keeps :: "experiment_result \<Rightarrow> experiment_result \<Rightarrow> bool"
  assumes save_amends: "rel st hs \<Longrightarrow>
          \<forall>h \<in> set hs. ex_experiment_id h = ex_experiment_id e \<longrightarrow> keeps h e \<Longrightarrow> rel (save st e) (amend e hs)"
    and rec_appends: "rel st hs \<Longrightarrow> ex_experiment_id e \<notin> ex_experiment_id ` set hs \<Longrightarrow>
          experiment_ok e \<Longrightarrow> rec st e r = Inr (st', e') \<Longrightarrow> e' = finalize e r \<and> rel st' (hs @ [e'])"
    and latest_history: "rel st hs \<Longrightarrow> latest st c d = Inr (map_option view (find (matches c d) (rev hs)))"
    and keeps_matches: "keeps h e \<Longrightarrow> matches c d e = matches c d h"
begin

lemma latest_after_record:
  assumes "rel st hs" "ex_experiment_id e \<notin> ex_experiment_id ` set hs" "experiment_ok e"
    and "rec st e r = Inr (st', e')"
  shows "latest st' c d =
    Inr (map_option view (if matches c d e' then Some e' else find (matches c d) (rev hs)))"
proof -
  from rec_appends [OF assms] have "rel st' (hs @ [e'])" by blast
  from latest_history [OF this] show ?thesis by simp
qed

lemma save_fresh:
  assumes "rel st hs" "ex_experiment_id e \<notin> ex_experiment_id ` set hs"
  shows "rel (save st e) hs"
proof -
  have "\<forall>h \<in> set hs. ex_experiment_id h = ex_experiment_id e \<longrightarrow> keeps h e" using assms(2) by (auto simp: image_iff)
  from save_amends [OF assms(1) this] show ?thesis by (simp add: amend_fresh [OF assms(2)])
qed

lemma find_amend:
  assumes "\<forall>h \<in> set hs. ex_experiment_id h = ex_experiment_id e \<longrightarrow> keeps h e"
  shows "find (matches c d) (amend e hs) =
    map_option (\<lambda>h. if ex_experiment_id h = ex_experiment_id e then e else h) (find (matches c d) hs)"
  using assms by (induction hs) (auto simp: amend_def keeps_matches)

lemma latest_after_save:
  assumes "rel st hs" "\<forall>h \<in> set hs. ex_experiment_id h = ex_experiment_id e \<longrightarrow> keeps h e"
  shows "latest (save st e) c d = Inr (map_option (\<lambda>h. if ex_experiment_id h = ex_experiment_id e then view e else view h)
    (find (matches c d) (rev hs)))"
proof -
  have "rev (amend e hs) = amend e (rev hs)" by (simp add: amend_def rev_map)
  then show ?thesis
    using latest_history [OF save_amends [OF assms], of c d] find_amend [of "rev hs" e c d] assms(2)
    by (auto simp: option.map_comp comp_def if_distrib cong: if_cong)
qed

end

interpretation ledger: run_ledger "records_history sha" save_experiment "record_finalized_run sha"
  latest_completed_baseline "is_baseline_for sha" as_parsed "keeps_row sha"
proof
  fix st hs r st' c d and e e' h0 :: experiment_result
  show "is_baseline_for sha c d e = is_baseline_for sha c d h0" if k: "keeps_row sha h0 e"
  proof -
    obtain k row where r: "ex_kind h0 = Some k" "ex_kind e = Some k" "index_row sha h0 k = Inr row" "index_row sha e k = Inr row"
      using k by (auto simp: keeps_row_def)
    show ?thesis using row_of_run [OF r(3,1), of c d] row_of_run [OF r(4,2), of c d] by simp
  qed
  assume h: "records_history sha st hs"
  show "latest_completed_baseline st c d = Inr (map_option as_parsed (find (is_baseline_for sha c d) (rev hs)))"
    using latest_of_history [OF h] by (simp add: history_baseline_def)
  show "records_history sha (save_experiment st e) (amend e hs)"
    if "\<forall>h \<in> set hs. ex_experiment_id h = ex_experiment_id e \<longrightarrow> keeps_row sha h e"
    using history_save [OF h that] .
  assume f: "ex_experiment_id e \<notin> ex_experiment_id ` set hs"
  assume "experiment_ok e" "record_finalized_run sha st e r = Inr (st', e')"
  then show "e' = finalize e r \<and> records_history sha st' (hs @ [e'])"
    using history_record [OF h] f by simp
qed

section \<open>Sequences of operations\<close>

datatype ledger_op =
    SaveOp experiment_result
  | LogOp string rollout_result
  | CrashOp string string nat
  | RecordOp experiment_result run_relations

fun op_id :: "ledger_op \<Rightarrow> string" where
  "op_id (SaveOp e) = ex_experiment_id e"
| "op_id (LogOp i _) = i"
| "op_id (CrashOp i _ _) = i"
| "op_id (RecordOp e _) = ex_experiment_id e"

fun exec_op :: "(string \<Rightarrow> string) \<Rightarrow> run_store \<Rightarrow> ledger_op \<Rightarrow> exc + run_store" where
  "exec_op sha st (SaveOp e) = Inr (save_experiment st e)"
| "exec_op sha st (LogOp i r) = log_rollout st i r"
| "exec_op sha st (CrashOp i reason now) = bind_res (mark_crashed st i reason now) (\<lambda>(st', _). Inr st')"
| "exec_op sha st (RecordOp e rel) = bind_res (record_finalized_run sha st e rel) (\<lambda>(st', _). Inr st')"

fun exec_ops :: "(string \<Rightarrow> string) \<Rightarrow> run_store \<Rightarrow> ledger_op list \<Rightarrow> exc + run_store" where
  "exec_ops sha st [] = Inr st"
| "exec_ops sha st (p # ps) = bind_res (exec_op sha st p) (\<lambda>st'. exec_ops sha st' ps)"

text \<open>The history an operation leaves: recording appends, saving a recorded run amends its entry.\<close>

fun op_history :: "experiment_result list \<Rightarrow> ledger_op \<Rightarrow> experiment_result list" where
  "op_history hs (RecordOp e rel) = hs @ [finalize e rel]"
| "op_history hs (SaveOp e) = amend e hs"
| "op_history hs _ = hs"

abbreviation ops_history :: "experiment_result list \<Rightarrow> ledger_op list \<Rightarrow> experiment_result list" where
  "ops_history \<equiv> foldl op_history"

text \<open>How the program uses the store: a run is recorded once, what is recorded is valid, and from then on no
  rollout is logged for it, it is not marked crashed, and it is saved only with its index row kept.\<close>

definition op_disciplined :: "(string \<Rightarrow> string) \<Rightarrow> experiment_result list \<Rightarrow> ledger_op \<Rightarrow> bool" where
  "op_disciplined sha hs p = (case p of
      SaveOp e \<Rightarrow> (\<forall>h \<in> set hs. ex_experiment_id h = ex_experiment_id e \<longrightarrow> keeps_row sha h e)
    | RecordOp e _ \<Rightarrow> experiment_ok e \<and> op_id p \<notin> ex_experiment_id ` set hs
    | _ \<Rightarrow> op_id p \<notin> ex_experiment_id ` set hs)"

fun ops_disciplined :: "(string \<Rightarrow> string) \<Rightarrow> experiment_result list \<Rightarrow> ledger_op list \<Rightarrow> bool" where
  "ops_disciplined sha hs [] = True"
| "ops_disciplined sha hs (p # ps) = (op_disciplined sha hs p \<and> ops_disciplined sha (op_history hs p) ps)"

lemma loaded_id:
  "records_history sha st hs \<Longrightarrow> load_experiment st i = Inr e \<Longrightarrow> ex_experiment_id e = i"
  by (simp add: records_history_def load_Inr)

lemma exec_op_history:
  assumes h: "records_history sha st hs" and d: "op_disciplined sha hs p" and "exec_op sha st p = Inr st'"
  shows "records_history sha st' (op_history hs p)"
proof (cases p)
  case (SaveOp e)
  then show ?thesis using assms history_save [OF h, of e] by (simp add: op_disciplined_def)
next
  case (LogOp i r)
  with assms(3) obtain e where e: "load_experiment st i = Inr e" and st':
      "st' = save_experiment st (e\<lparr>ex_tasks := AList.update (rr_task_id r) (Some r) (ex_tasks e)\<rparr>)"
    by (auto simp: log_rollout_def res_simps)
  have "ex_experiment_id e \<notin> ex_experiment_id ` set hs"
    using d LogOp loaded_id [OF h e] by (simp add: op_disciplined_def)
  then show ?thesis using LogOp st' history_save_fresh [OF h] by simp
next
  case (CrashOp i reason now)
  with assms(3) obtain e where e: "load_experiment st i = Inr e" and st': "st' = st \<or>
      st' = save_experiment st (e\<lparr>ex_finished_at := Some now, ex_crash_reason := Some reason\<rparr>)"
    by (auto simp: mark_crashed_def res_simps Let_def split: if_splits)
  have "ex_experiment_id e \<notin> ex_experiment_id ` set hs"
    using d CrashOp loaded_id [OF h e] by (simp add: op_disciplined_def)
  then show ?thesis using CrashOp st' h history_save_fresh [OF h] by auto
next
  case (RecordOp e rel)
  with assms(3) obtain e' where r: "record_finalized_run sha st e rel = Inr (st', e')"
    by (auto simp: res_simps)
  have "ex_experiment_id e \<notin> set (map ex_experiment_id hs)" "experiment_ok e"
    using d RecordOp by (auto simp: op_disciplined_def)
  from history_record [OF h this r] RecordOp show ?thesis by simp
qed

lemma exec_ops_history:
  assumes "records_history sha st hs" and "ops_disciplined sha hs ps" and "exec_ops sha st ps = Inr st'"
  shows "records_history sha st' (ops_history hs ps)"
  using assms
proof (induction ps arbitrary: st hs)
  case Nil
  then show ?case by simp
next
  case (Cons p ps)
  from Cons.prems(3) obtain st1 where st1: "exec_op sha st p = Inr st1" "exec_ops sha st1 ps = Inr st'"
    by (auto simp: res_simps)
  have "records_history sha st1 (op_history hs p)"
    using Cons.prems(2) by (intro exec_op_history [OF Cons.prems(1) _ st1(1)]) simp
  from Cons.IH [OF this _ st1(2)] show ?case using Cons.prems(2) by simp
qed

lemma empty_history: "records_history sha empty_store []"
  by (simp add: records_history_def empty_store_def)

text \<open>
  C7. The store serves the history: after any sequence of saves, rollout logs, crash marks and
  finalized records that succeeds, asking for a baseline returns the newest recorded run that is a completed
  baseline of that commit and measurement identity, as it was recorded or last saved (its mappings in key
  order), and none if there is none. The condition on the sequence is how the program uses its store: a run
  is recorded once and valid, and once it is recorded it is only saved again, with nothing changed that its
  index row tells, as the certification of a baseline is. Before that it may be saved, logged to and marked at will.
\<close>

theorem store_serves_latest_baseline:
  assumes "ops_disciplined sha [] ps" and "exec_ops sha empty_store ps = Inr st"
  shows "latest_completed_baseline st commit digest =
    Inr (map_option as_parsed (find (is_baseline_for sha commit digest) (rev (ops_history [] ps))))"
  using ledger.latest_history [OF exec_ops_history [OF empty_history, of sha ps st]] assms by simp

definition sample_baseline :: run_relations where
  "sample_baseline = \<lparr>rel_kind = KindBaseline, rel_parent_commit_hash = None,
     rel_baseline_experiment_id = None, rel_decision = None\<rparr>"

lemma sample_run_ok [simp]: "experiment_ok (sample_run i c ts) \<longleftrightarrow> True"
  by (auto simp: experiment_ok_iff sample_run_def sample_rollout_def rollout_ok_def split: if_splits)

lemma sample_run_fields [simp]:
  "ex_experiment_id (sample_run i c ts) = i" "ex_git_commit_hash (sample_run i c ts) = c"
  "ex_finished_at (sample_run i c ts) = Some 1" "ex_crash_reason (sample_run i c ts) = None"
  "ex_measurement_identity (sample_run i c ts) =
    \<lparr>mi_effective_config_digest = ''cfg'', mi_provider_revision = ''rev'', mi_replay_regime_digest = ''reg''\<rparr>"
  by (simp_all add: sample_run_def)

definition sample_certified :: experiment_result where
  "sample_certified = (as_parsed (finalize (sample_run ''r2'' ''c1'' [(''t'', Solved)]) sample_baseline))
     \<lparr>ex_determinism_certification := Some []\<rparr>"

theorem store_serves_latest_baseline_witness:
  "\<exists>st. exec_ops id empty_store
     [SaveOp (sample_run ''r1'' ''c1'' []), CrashOp ''r1'' ''wedged'' 5,
      RecordOp (sample_run ''r2'' ''c1'' [(''t'', Solved)]) sample_baseline, SaveOp sample_certified] = Inr st \<and>
     latest_completed_baseline st ''c1''
       (identity_digest id (ex_measurement_identity (sample_run ''r2'' ''c1'' []))) =
     Inr (Some (as_parsed sample_certified))"
proof -
  let ?ps = "[SaveOp (sample_run ''r1'' ''c1'' []), CrashOp ''r1'' ''wedged'' 5,
      RecordOp (sample_run ''r2'' ''c1'' [(''t'', Solved)]) sample_baseline, SaveOp sample_certified]"
  have "\<exists>st. exec_ops id empty_store ?ps = Inr st"
    by (simp add: mark_crashed_def load_saved validate_experiment_Inr [THEN iffD2]
        record_finalized_run_def index_row_def Let_def)
  then obtain st where st: "exec_ops id empty_store ?ps = Inr st" by blast
  have "keeps_row id (finalize (sample_run ''r2'' ''c1'' [(''t'', Solved)]) sample_baseline) sample_certified"
    unfolding sample_certified_def
    by (rule certified_keeps_row [OF _ disjI2 [OF refl] _]) (simp_all add: index_row_def sample_baseline_def)
  moreover have same: "ex_experiment_id sample_certified = ''r2''" by (simp add: sample_certified_def)
  ultimately have d: "ops_disciplined id [] ?ps"
    by (simp add: op_disciplined_def amend_def same)
  have "ops_history [] ?ps = [sample_certified]"
    by (simp add: amend_def same)
  with store_serves_latest_baseline [OF d st] st show ?thesis
    by (simp add: is_baseline_for_def sample_baseline_def sample_certified_def)
qed

text \<open>
  Crash marks are sticky: marking a readable run crashed leaves a readable crashed run with
  the first reason on record, and marking it again, at any time and with any reason, changes
  nothing and returns the same run.
\<close>

theorem mark_crashed_idempotent:
  assumes "mark_crashed st run_id reason now = Inr (st', e)"
    and "\<forall>i e. map_of (st_experiments st) i = Some e \<longrightarrow> ex_experiment_id e = i \<and> as_parsed e = e"
  shows "ex_crash_reason e \<noteq> None \<and> load_experiment st' run_id = Inr e \<and>
    mark_crashed st' run_id reason' now' = Inr (st', e)"
proof -
  from assms(1) obtain r where r: "load_experiment st run_id = Inr r"
    by (auto simp: mark_crashed_def res_simps)
  have id: "ex_experiment_id r = run_id" "as_parsed r = r" using r assms(2) unfolding load_Inr by blast+
  have "ex_crash_reason e \<noteq> None \<and> load_experiment st' run_id = Inr e"
  proof (cases "ex_crash_reason r = None")
    case True
    let ?c = "r\<lparr>ex_finished_at := Some now, ex_crash_reason := Some reason\<rparr>"
    have "experiment_ok ?c" using r by (auto simp: load_Inr experiment_ok_iff)
    moreover have "as_parsed ?c = (as_parsed r)\<lparr>ex_finished_at := Some now, ex_crash_reason := Some reason\<rparr>"
      by (simp add: as_parsed_def)
    ultimately have "validate_experiment (as_parsed ?c) = Inr ?c"
      by (simp add: validate_experiment_Inr id(2))
    then show ?thesis using assms(1) r True id
      by (auto simp: mark_crashed_def Let_def load_saved)
  next
    case False
    then show ?thesis using assms(1) r by (auto simp: mark_crashed_def)
  qed
  then show ?thesis by (auto simp: mark_crashed_def)
qed

theorem mark_crashed_idempotent_witness:
  "\<exists>st' e. mark_crashed (save_experiment empty_store (sample_run ''r'' ''c'' [])) ''r'' ''wedged'' 5
      = Inr (st', e) \<and> mark_crashed st' ''r'' ''again'' 9 = Inr (st', e)"
proof -
  let ?st = "save_experiment empty_store (sample_run ''r'' ''c'' [])"
  have "\<exists>st' e. mark_crashed ?st ''r'' ''wedged'' 5 = Inr (st', e)"
    by (simp add: mark_crashed_def load_saved validate_experiment_Inr [THEN iffD2] Let_def)
  then obtain st' e where m: "mark_crashed ?st ''r'' ''wedged'' 5 = Inr (st', e)" by blast
  have ids: "\<forall>i e. map_of (st_experiments ?st) i = Some e \<longrightarrow> ex_experiment_id e = i \<and> as_parsed e = e"
    by (simp add: save_experiment_def empty_store_def as_parsed_def sample_run_def)
  from mark_crashed_idempotent [OF m ids, of "''again''" 9] m show ?thesis by blast
qed

lemma parsed_rollout_idem: "parsed_rollout (parsed_rollout r) = parsed_rollout r"
  by (simp add: parsed_rollout_def sort_key_sorted)

lemma as_parsed_idem: "as_parsed (as_parsed e) = as_parsed e"
proof -
  let ?f = "\<lambda>(t, r). (t :: string, map_option parsed_rollout r)"
  have "map ?f (sort_key fst (map ?f ts)) = sort_key fst (map ?f (map ?f ts))" for ts
    by (rule map_sort_key) auto
  moreover have "map ?f (map ?f ts) = map ?f ts" for ts
    by (auto simp: option.map_comp o_def parsed_rollout_idem)
  ultimately have "sort_key fst (map ?f (sort_key fst (map ?f ts))) = sort_key fst (map ?f ts)" for ts
    by (simp only: sort_key_sorted)
  then show ?thesis
    by (simp add: as_parsed_def option.map_comp o_def canon_idem sort_key_sorted)
qed

lemma parsed_rollout_plain: "rr_metrics r = [] \<Longrightarrow> parsed_rollout r = r"
  by (cases r) (simp add: parsed_rollout_def)

lemma update_values: "snd ` set (AList.update k v xs) \<subseteq> insert v (snd ` set xs)"
  by (induction xs) auto

lemma map_of_parsed:
  "map_of (ex_tasks (as_parsed d)) t = map_option (map_option parsed_rollout) (map_of (ex_tasks d) t)"
proof -
  have "map_of (map (\<lambda>(t, q). (t, map_option parsed_rollout q)) xs) t =
      map_option (map_option parsed_rollout) (map_of xs t)" for xs and t :: string
    by (induction xs) auto
  then show ?thesis by (simp add: as_parsed_def map_of_sort_key)
qed

text \<open>The run a logged rollout leaves on disk.\<close>

definition logged :: "experiment_result \<Rightarrow> rollout_result \<Rightarrow> experiment_result" where
  "logged e r = as_parsed (e\<lparr>ex_tasks := AList.update (rr_task_id r) (Some r) (ex_tasks e)\<rparr>)"

lemma logged_tasks:
  assumes "as_parsed e = e"
  shows "map_of (ex_tasks (logged e r)) t =
      (if t = rr_task_id r then Some (Some (parsed_rollout r)) else map_of (ex_tasks e) t)"
    and "fst ` set (ex_tasks (logged e r)) = insert (rr_task_id r) (fst ` set (ex_tasks e))"
    and "as_parsed (logged e r) = logged e r"
proof -
  have same: "map_option (map_option parsed_rollout) (map_of (ex_tasks e) t) = map_of (ex_tasks e) t" for t
    using map_of_parsed [of e t] assms by simp
  then show "map_of (ex_tasks (logged e r)) t =
      (if t = rr_task_id r then Some (Some (parsed_rollout r)) else map_of (ex_tasks e) t)"
    by (simp add: logged_def map_of_parsed dict_simps)
  show "fst ` set (ex_tasks (logged e r)) = insert (rr_task_id r) (fst ` set (ex_tasks e))"
    by (simp add: logged_def as_parsed_def image_image case_prod_beta dict_update_keys)
  show "as_parsed (logged e r) = logged e r" by (simp add: logged_def as_parsed_idem)
qed

lemma logged_fields [simp]:
  "ex_experiment_id (logged e r) = ex_experiment_id e" "ex_finished_at (logged e r) = ex_finished_at e"
  "ex_crash_reason (logged e r) = ex_crash_reason e"
  by (simp_all add: logged_def)

lemma log_rollout_logged:
  assumes "load_experiment st run_id = Inr e" and "ex_experiment_id e = run_id"
    and "ex_finished_at e = None" and "rollout_ok r"
  shows "\<exists>st'. log_rollout st run_id r = Inr st' \<and> load_experiment st' run_id = Inr (logged e r) \<and>
     (\<forall>i. i \<noteq> run_id \<longrightarrow> load_experiment st' i = load_experiment st i)"
proof -
  let ?ts = "AList.update (rr_task_id r) (Some r) (ex_tasks e)"
  let ?e' = "e\<lparr>ex_tasks := ?ts\<rparr>"
  have "experiment_ok e" using assms(1) by (simp add: load_Inr)
  then have old: "\<forall>r'. Some r' \<in> snd ` set (ex_tasks e) \<longrightarrow> rollout_ok r'" and
    nc: "ex_crash_reason e = None" using assms(3) by (auto simp: experiment_ok_iff)
  have "snd ` set ?ts \<subseteq> insert (Some r) (snd ` set (ex_tasks e))"
    by (rule update_values)
  moreover have tasks: "ex_tasks ?e' = ?ts" by simp
  ultimately have "\<forall>r'. Some r' \<in> snd ` set (ex_tasks ?e') \<longrightarrow> rollout_ok r'"
    unfolding tasks using old assms(4) by blast
  then have "experiment_ok ?e'" using assms(3) nc by (simp add: experiment_ok_iff)
  then have ok: "validate_experiment (as_parsed ?e') = Inr (as_parsed ?e')" by (simp add: validate_experiment_Inr)
  then show ?thesis
    using assms(1,2)
    by (intro exI [of _ "save_experiment st ?e'"]) (simp add: log_rollout_def load_saved logged_def)
qed

text \<open>
  Logging a rollout of a running experiment changes exactly that task's entry: the run stays
  readable, the entry of the rollout's task is the rollout (its metrics in key order), every other
  entry is as before, no task is lost, and no other run is touched.
\<close>

theorem log_rollout_effect:
  assumes "load_experiment st run_id = Inr e" and "ex_experiment_id e = run_id"
    and "ex_finished_at e = None" and "rollout_ok r" and "as_parsed e = e"
  shows "\<exists>st' e'. log_rollout st run_id r = Inr st' \<and> load_experiment st' run_id = Inr e' \<and>
     map_of (ex_tasks e') (rr_task_id r) = Some (Some (parsed_rollout r)) \<and>
     (\<forall>t. t \<noteq> rr_task_id r \<longrightarrow> map_of (ex_tasks e') t = map_of (ex_tasks e) t) \<and>
     fst ` set (ex_tasks e') = insert (rr_task_id r) (fst ` set (ex_tasks e)) \<and>
     (\<forall>i. i \<noteq> run_id \<longrightarrow> load_experiment st' i = load_experiment st i)"
proof -
  obtain st' where "log_rollout st run_id r = Inr st'" "load_experiment st' run_id = Inr (logged e r)"
    "\<forall>i. i \<noteq> run_id \<longrightarrow> load_experiment st' i = load_experiment st i"
    using log_rollout_logged [OF assms(1-4)] by blast
  with logged_tasks [OF assms(5), of r] show ?thesis
    by (intro exI [of _ st'] exI [of _ "logged e r"]) simp
qed

theorem log_rollout_effect_witness:
  "\<exists>st' e'. log_rollout (save_experiment empty_store
        ((sample_run ''r'' ''c'' [])\<lparr>ex_finished_at := None, ex_tasks := [(''a'', None), (''b'', None)]\<rparr>))
      ''r'' (sample_rollout ''b'' Solved) = Inr st' \<and>
     load_experiment st' ''r'' = Inr e' \<and>
     map_of (ex_tasks e') ''b'' = Some (Some (sample_rollout ''b'' Solved))"
proof -
  let ?e = "(sample_run ''r'' ''c'' [])\<lparr>ex_finished_at := None, ex_tasks := [(''a'', None), (''b'', None)]\<rparr>"
  let ?st = "save_experiment empty_store ?e"
  have p: "as_parsed ?e = ?e" by (simp add: as_parsed_def sample_run_def)
  have "validate_experiment ?e = Inr ?e" by (simp add: validate_experiment_Inr experiment_ok_iff)
  then have l: "load_experiment ?st ''r'' = Inr ?e" unfolding load_saved p by simp
  have r: "rollout_ok (sample_rollout ''b'' Solved)"
    by (simp add: rollout_ok_def sample_rollout_def)
  have i: "ex_experiment_id ?e = ''r''" and f: "ex_finished_at ?e = None" and
    t: "rr_task_id (sample_rollout ''b'' Solved) = ''b''"
    by (simp_all add: sample_rollout_def)
  have q: "parsed_rollout (sample_rollout ''b'' Solved) = sample_rollout ''b'' Solved"
    by (rule parsed_rollout_plain) (simp add: sample_rollout_def)
  obtain st' e' where "log_rollout ?st ''r'' (sample_rollout ''b'' Solved) = Inr st'"
    "load_experiment st' ''r'' = Inr e'"
    "map_of (ex_tasks e') (rr_task_id (sample_rollout ''b'' Solved)) =
       Some (Some (parsed_rollout (sample_rollout ''b'' Solved)))"
    using log_rollout_effect [OF l i f r p] by (elim exE conjE)
  then show ?thesis unfolding t q by (intro exI conjI)
qed

end
