(* ===== verification/Trainer.thy ===== *)
theory Trainer
  imports Parameter Store
begin

text \<open>
  \<open>src/trainer/trainer.py\<close>: the training session. The session state is the traced world with the
  run store, the mutable fields of the harness, and the observer's record of the epochs. The
  proposer, the isolated measurement, the determinism certification, the diagnosis and the
  provider probes are parameters (their own components model some of them); each leaves its call
  in the trace. The generator's \<open>yield\<close> hands the loss to the loop body, an action parameter that
  runs at that point.
\<close>

section \<open>State and parameters\<close>

datatype epoch_skip = CandidateSkip skip_cause | MeasurementFailure

fun skip_text :: "epoch_skip \<Rightarrow> string" where
  "skip_text (CandidateSkip NoCandidate) = ''no_candidate''"
| "skip_text (CandidateSkip InvalidCandidate) = ''invalid_candidate''"
| "skip_text MeasurementFailure = ''measurement_failure''"

record session = world +
  ss_store :: run_store
  ss_harness :: harness_fields
  ss_epochs :: "(epoch_skip option \<times> decision_outcome option) list"

datatype train_error =
    TrainExc exc
  | MeasurementError string "experiment_result option"
  | Unmeasurable experiment_result result_decision

datatype session_error =
    EpochError train_error
  | CircuitBreakerTripped string

record trainer_env =
  te_tools :: tools
  te_sha :: "string \<Rightarrow> string"
  te_repo :: string
  te_worktrees_root :: string
  te_surface :: string
  te_patch_paths :: "string list"
  te_proposer_visible :: "string list"
  te_task_names :: "string list"
  te_judge :: "experiment_result \<Rightarrow> experiment_result \<Rightarrow> criterion_error + loss"
  te_propose :: "call list \<Rightarrow> run_store \<Rightarrow> string \<Rightarrow> exc + unit"
  te_measure :: "call list \<Rightarrow> run_store \<Rightarrow> string \<Rightarrow> string list \<Rightarrow>
       (train_error + experiment_result) \<times> run_store"
  te_certify :: "call list \<Rightarrow> run_store \<Rightarrow> experiment_result \<Rightarrow> experiment_result option \<Rightarrow>
       (exc + (experiment_result \<times> string list)) \<times> run_store"
  te_diagnose :: "call list \<Rightarrow> run_store \<Rightarrow> experiment_result \<Rightarrow> string \<Rightarrow> (exc + unit) \<times> run_store"
  te_identity :: "call list \<Rightarrow> exc + measurement_identity"
  te_preflight :: "call list \<Rightarrow> exc + unit"

type_synonym ('e, 'a) train_act = "(session, 'e, 'a) act"

definition MAX_CONSECUTIVE_SKIPS :: nat where
  "MAX_CONSECUTIVE_SKIPS = 2"

section \<open>The collaborators\<close>

definition propose :: "trainer_env \<Rightarrow> string \<Rightarrow> (exc, unit) train_act" where
  "propose env path s =
     (te_propose env (wd_trace s) (ss_store s) path, note_call (Proc [''propose''] path) s)"

definition measure_call :: "string \<Rightarrow> string list \<Rightarrow> call" where
  "measure_call path task_ids = Proc (''measure'' # task_ids) path"

definition run_measurement ::
    "trainer_env \<Rightarrow> string \<Rightarrow> string list \<Rightarrow> (train_error, experiment_result) train_act" where
  "run_measurement env path task_ids s =
     (case te_measure env (wd_trace s) (ss_store s) path task_ids of
        (r, st) \<Rightarrow> (r, note_call (measure_call path task_ids) (s\<lparr>ss_store := st\<rparr>)))"

definition certify ::
    "trainer_env \<Rightarrow> experiment_result \<Rightarrow> experiment_result option \<Rightarrow>
       (exc, experiment_result \<times> string list) train_act" where
  "certify env baseline inherited s =
     (case te_certify env (wd_trace s) (ss_store s) baseline inherited of
        (r, st) \<Rightarrow> (r, note_call (Proc [''certify''] []) (s\<lparr>ss_store := st\<rparr>)))"

definition diagnose :: "trainer_env \<Rightarrow> experiment_result \<Rightarrow> string \<Rightarrow> (exc, unit) train_act" where
  "diagnose env candidate path s =
     (case te_diagnose env (wd_trace s) (ss_store s) candidate path of
        (r, st) \<Rightarrow> (r, note_call (Proc [''diagnose''] path) (s\<lparr>ss_store := st\<rparr>)))"

definition resolve_identity :: "trainer_env \<Rightarrow> (exc, measurement_identity) train_act" where
  "resolve_identity env s = (te_identity env (wd_trace s), note_call (Proc [''identity''] []) s)"

definition preflight_probe :: "trainer_env \<Rightarrow> (exc, unit) train_act" where
  "preflight_probe env s = (te_preflight env (wd_trace s), note_call (Proc [''preflight''] []) s)"

definition record_run ::
    "trainer_env \<Rightarrow> experiment_result \<Rightarrow> run_relations \<Rightarrow> (exc, experiment_result) train_act" where
  "record_run env e rel s =
     (case record_finalized_run (te_sha env) (ss_store s) e rel of
        Inl x \<Rightarrow> (Inl x, s)
      | Inr (st, e') \<Rightarrow> (Inr e', s\<lparr>ss_store := st\<rparr>))"

definition no_harness :: harness_fields where
  "no_harness = \<lparr>hf_grad = None, hf_applied = None\<rparr>"

definition clear_harness :: "('e, unit) train_act" where
  "clear_harness s = (Inr (), s\<lparr>ss_harness := no_harness\<rparr>)"

section \<open>One epoch\<close>

definition propose_candidate ::
    "trainer_env \<Rightarrow> string \<Rightarrow> string \<Rightarrow> (candidate_error, candidate) train_act" where
  "propose_candidate env base_commit path =
     also_then (lift_err CandidateExc (propose env path))
    (seq (capture_candidate (te_tools env) path base_commit) (\<lambda>cand.
     also_then (validate_candidate (te_tools env) path cand (te_surface env) (te_patch_paths env))
    (also_then (run_candidate_suite (te_tools env) (te_repo env) cand (te_worktrees_root env))
      (ret cand))))"

text \<open>One attempt of the measurement funnel, up to the judgment.\<close>

definition judge_attempt ::
    "trainer_env \<Rightarrow> candidate \<Rightarrow> experiment_result \<Rightarrow> string list \<Rightarrow>
       (train_error, experiment_result \<times> loss) train_act" where
  "judge_attempt env cand baseline task_ids =
     seq (scratch_worktree (te_tools env) TrainExc (te_repo env) (ca_commit cand)
            (te_worktrees_root env) ''measure'' [] (\<lambda>path. run_measurement env path task_ids))
       (\<lambda>measured.
         (if ex_git_commit_hash measured \<noteq> ca_commit cand
          then raise (TrainExc (RuntimeError
                 (''measured candidate commit does not match the validated candidate: '' @
                  ex_git_commit_hash measured @ '' != '' @ ca_commit cand)))
          else (case te_judge env measured baseline of
             Inl (CriterionExc e) \<Rightarrow> raise (TrainExc e)
           | Inl (UnmeasurableRun d) \<Rightarrow> raise (Unmeasurable measured d)
           | Inr l \<Rightarrow> ret (measured, l))))"

datatype funnel =
    Judged experiment_result loss
  | Failed "experiment_result option" "result_decision option"

definition retryable :: "train_error \<Rightarrow> bool" where
  "retryable e = (case e of TrainExc _ \<Rightarrow> False | _ \<Rightarrow> True)"

definition attempt_judged ::
    "trainer_env \<Rightarrow> candidate \<Rightarrow> experiment_result \<Rightarrow> string list \<Rightarrow> (train_error, funnel) train_act" where
  "attempt_judged env cand baseline task_ids =
     seq (judge_attempt env cand baseline task_ids) (\<lambda>(c, l). ret (Judged c l))"

definition settle_failure :: "train_error \<Rightarrow> (train_error, funnel) train_act" where
  "settle_failure e = (case e of
      TrainExc x \<Rightarrow> raise (TrainExc x)
    | MeasurementError _ result \<Rightarrow> ret (Failed result None)
    | Unmeasurable c d \<Rightarrow> ret (Failed (Some c) (Some d)))"

definition measure_candidate ::
    "trainer_env \<Rightarrow> candidate \<Rightarrow> experiment_result \<Rightarrow> string list \<Rightarrow> (train_error, funnel) train_act" where
  "measure_candidate env cand baseline task_ids =
     catch (attempt_judged env cand baseline task_ids) (\<lambda>e.
       (if retryable e
        then catch (attempt_judged env cand baseline task_ids) settle_failure
        else raise e))"

definition conclude_guards ::
    "harness_fields \<Rightarrow> candidate \<Rightarrow> experiment_result \<Rightarrow> exc + loss" where
  "conclude_guards h cand measured =
     (case hf_grad h of
        None \<Rightarrow> Inl (RuntimeError (''epoch not trained: loss.backward() never ran -- the loop body '' @
          ''must call loss.backward(), optimizer.step() each epoch''))
      | Some l \<Rightarrow>
          (if ex_git_commit_hash (ls_candidate l) \<noteq> ca_commit cand
           then Inl (RuntimeError (''recorded verdict does not match this epoch's candidate: '' @
                  ex_git_commit_hash (ls_candidate l) @ '' != '' @ ca_commit cand))
           else if hf_applied h = None
           then Inl (RuntimeError (''epoch not applied: optimizer.step() never ran -- call it after '' @
                  ''loss.backward()''))
           else if ex_git_commit_hash measured \<noteq> ca_commit cand
           then Inl (RuntimeError
                  (''measured candidate commit does not match the validated candidate: '' @
                   ex_git_commit_hash measured @ '' != '' @ ca_commit cand))
           else Inr l))"

definition conclude ::
    "trainer_env \<Rightarrow> experiment_result \<Rightarrow> candidate \<Rightarrow> experiment_result \<Rightarrow> string \<Rightarrow>
       (exc, experiment_result) train_act" where
  "conclude env baseline cand measured path =
     seq (\<lambda>s. (bind_res (conclude_guards (ss_harness s) cand measured)
                 (\<lambda>l. criterion_decision l (ss_harness s)), s)) (\<lambda>decision.
     seq (record_run env measured
            \<lparr>rel_kind = (if rd_outcome decision = Promoted then KindBaseline else KindCandidate),
             rel_parent_commit_hash = Some (ca_base_commit cand),
             rel_baseline_experiment_id = Some (ex_experiment_id baseline),
             rel_decision = Some decision\<rparr>) (\<lambda>recorded.
     also_then (finally_do (diagnose env recorded path) clear_harness) (ret recorded)))"

text \<open>What follows the proposal, inside the proposer's worktree.\<close>

definition judge_epoch ::
    "trainer_env \<Rightarrow> (loss \<Rightarrow> (exc, unit) train_act) \<Rightarrow> string \<Rightarrow> experiment_result \<Rightarrow> string list \<Rightarrow>
       string \<Rightarrow> candidate \<Rightarrow> (train_error, epoch_skip option \<times> experiment_result option) train_act" where
  "judge_epoch env body base_commit baseline task_ids path cand =
     (if ca_base_commit cand \<noteq> base_commit
      then raise (TrainExc (RuntimeError (''candidate baseline does not match the epoch baseline: '' @
              ca_base_commit cand @ '' != '' @ base_commit)))
      else seq (measure_candidate env cand baseline task_ids) (\<lambda>f.
        (case f of
           Judged measured l \<Rightarrow>
             also_then clear_harness
            (also_then (lift_err TrainExc (body l))
            (seq (lift_err TrainExc (conclude env baseline cand measured path)) (\<lambda>r.
               ret (None, Some r))))
         | Failed None _ \<Rightarrow> ret (Some MeasurementFailure, None)
         | Failed (Some failed) d \<Rightarrow>
             seq (lift_err TrainExc (record_run env failed
                    \<lparr>rel_kind = KindCandidate, rel_parent_commit_hash = Some base_commit,
                     rel_baseline_experiment_id = Some (ex_experiment_id baseline),
                     rel_decision = d\<rparr>)) (\<lambda>r. ret (Some MeasurementFailure, Some r)))))"

text \<open>The \<open>except CandidateValidationError\<close> of the proposal phase.\<close>

definition proposal_outcome ::
    "trainer_env \<Rightarrow> string \<Rightarrow> string \<Rightarrow> (train_error, skip_cause + candidate) train_act" where
  "proposal_outcome env base_commit path =
     catch (seq (propose_candidate env base_commit path) (\<lambda>c. ret (Inr c))) (\<lambda>e.
       (case e of
          CandidateValidationError _ cause \<Rightarrow> ret (Inl cause)
        | CandidateExc x \<Rightarrow> raise (TrainExc x)))"

definition epoch ::
    "trainer_env \<Rightarrow> (loss \<Rightarrow> (exc, unit) train_act) \<Rightarrow> string \<Rightarrow> experiment_result \<Rightarrow> string list \<Rightarrow>
       (train_error, epoch_skip option \<times> experiment_result option) train_act" where
  "epoch env body base_commit baseline task_ids =
     scratch_worktree (te_tools env) TrainExc (te_repo env) base_commit (te_worktrees_root env)
       ''propose'' (te_proposer_visible env) (\<lambda>path.
       also_then (lift_err TrainExc (fs (te_tools env) ''symlink''
           [path @ ''/.venv'', te_repo env @ ''/.venv'']))
      (seq (proposal_outcome env base_commit path) (\<lambda>r.
        (case r of
           Inl cause \<Rightarrow> ret (Some (CandidateSkip cause), None)
         | Inr cand \<Rightarrow> judge_epoch env body base_commit baseline task_ids path cand))))"

section \<open>The session\<close>

definition baseline_relations :: run_relations where
  "baseline_relations = \<lparr>rel_kind = KindBaseline, rel_parent_commit_hash = None,
     rel_baseline_experiment_id = None, rel_decision = None\<rparr>"

definition measure_baseline :: "trainer_env \<Rightarrow> string \<Rightarrow> (train_error, experiment_result) train_act" where
  "measure_baseline env base_commit =
     seq (scratch_worktree (te_tools env) TrainExc (te_repo env) base_commit
            (te_worktrees_root env) ''measure'' []
            (\<lambda>path. run_measurement env path (te_task_names env)))
       (\<lambda>measured. lift_err TrainExc (record_run env measured baseline_relations))"

definition stored_baseline ::
    "trainer_env \<Rightarrow> string \<Rightarrow> measurement_identity \<Rightarrow> (exc, experiment_result option) train_act" where
  "stored_baseline env base_commit ident s =
     (latest_completed_baseline (ss_store s) base_commit (identity_digest (te_sha env) ident), s)"

text \<open>The head of an epoch: the certified baseline and the panel it leaves.\<close>

definition epoch_baseline ::
    "trainer_env \<Rightarrow> string \<Rightarrow> experiment_result option \<Rightarrow>
       (train_error, experiment_result \<times> string list) train_act" where
  "epoch_baseline env base_commit certified =
     seq (lift_err TrainExc (resolve_identity env)) (\<lambda>ident.
     seq (lift_err TrainExc (stored_baseline env base_commit ident)) (\<lambda>found.
     also_then (lift_err TrainExc (preflight_probe env))
    (seq (case found of Some b \<Rightarrow> ret b | None \<Rightarrow> measure_baseline env base_commit) (\<lambda>baseline.
       lift_err TrainExc (certify env baseline certified)))))"

definition note_epoch :: "epoch_skip option \<Rightarrow> experiment_result option \<Rightarrow> session \<Rightarrow> session" where
  "note_epoch skip finalized s = s\<lparr>ss_epochs := ss_epochs s @
     [(skip, case finalized of None \<Rightarrow> None | Some r \<Rightarrow> map_option rd_outcome (ex_decision r))]\<rparr>"

definition next_skips :: "epoch_skip option \<Rightarrow> epoch_skip list \<Rightarrow> epoch_skip list" where
  "next_skips skip causes = (case skip of None \<Rightarrow> [] | Some c \<Rightarrow> causes @ [c])"

definition breaker_text :: "epoch_skip list \<Rightarrow> string" where
  "breaker_text causes =
     ''consecutive epoch skip breaker tripped: '' @ join_str '', '' (map skip_text causes)"

definition promoted_baseline ::
    "experiment_result \<Rightarrow> experiment_result option \<Rightarrow> experiment_result" where
  "promoted_baseline baseline finalized =
     (case finalized of
        Some r \<Rightarrow> (if ex_kind r = Some KindBaseline then r else baseline)
      | None \<Rightarrow> baseline)"

text \<open>One turn of the loop up to the end of its epoch: HEAD, the certified baseline, the epoch.\<close>

definition epoch_turn ::
    "trainer_env \<Rightarrow> (loss \<Rightarrow> (exc, unit) train_act) \<Rightarrow> experiment_result option \<Rightarrow>
       (train_error, experiment_result \<times> epoch_skip option \<times> experiment_result option) train_act" where
  "epoch_turn env body certified =
     seq (lift_err TrainExc (head_sha (te_tools env) (te_repo env))) (\<lambda>base_commit.
     seq (epoch_baseline env base_commit certified) (\<lambda>(baseline, task_ids).
     seq (epoch env body base_commit baseline task_ids) (\<lambda>(skip, finalized).
       ret (baseline, skip, finalized))))"

text \<open>\<open>for epoch_index in range(...)\<close>, by the epochs that remain; the result is what \<open>loop_finished\<close> receives.\<close>

fun epochs_loop ::
    "trainer_env \<Rightarrow> (loss \<Rightarrow> (exc, unit) train_act) \<Rightarrow> nat \<Rightarrow> epoch_skip list \<Rightarrow>
       experiment_result option \<Rightarrow> result_decision list \<Rightarrow> experiment_result option \<Rightarrow>
       (session_error, result_decision list \<times> experiment_result option) train_act" where
  "epochs_loop env body 0 causes certified decisions final = ret (decisions, final)"
| "epochs_loop env body (Suc n) causes certified decisions final =
     seq (lift_err EpochError (epoch_turn env body certified)) (\<lambda>(baseline, skip, finalized).
     also_then (\<lambda>s. (Inr (), note_epoch skip finalized s))
       (let causes' = next_skips skip causes
        in if length causes' \<ge> MAX_CONSECUTIVE_SKIPS
           then raise (CircuitBreakerTripped (breaker_text causes'))
           else epochs_loop env body n causes' (Some baseline)
                  (case finalized of
                     None \<Rightarrow> decisions
                   | Some r \<Rightarrow> decisions @ (case ex_decision r of None \<Rightarrow> [] | Some d \<Rightarrow> [d]))
                  (Some (promoted_baseline baseline finalized))))"

definition epochs ::
    "trainer_env \<Rightarrow> (loss \<Rightarrow> (exc, unit) train_act) \<Rightarrow> int \<Rightarrow>
       (session_error, result_decision list \<times> experiment_result option) train_act" where
  "epochs env body max_epochs =
     (if max_epochs < 0
      then raise (EpochError (TrainExc (ValueError ''max_epochs must be non-negative'')))
      else epochs_loop env body (nat max_epochs) [] None [] None)"

text \<open>The loop body of \<open>scripts/train.py\<close>: \<open>loss.backward(); optimizer.step()\<close>.\<close>

definition train_body :: "trainer_env \<Rightarrow> loss \<Rightarrow> (exc, unit) train_act" where
  "train_body env l s =
     (case loss_backward l (ss_harness s) of
        Inl e \<Rightarrow> (Inl e, s)
      | Inr h \<Rightarrow>
          (case optimizer_step (te_tools env) (te_repo env) h (s\<lparr>ss_harness := h\<rparr>) of
             (Inl e, s') \<Rightarrow> (Inl e, s')
           | (Inr h', s') \<Rightarrow> (Inr (), s'\<lparr>ss_harness := h'\<rparr>)))"

section \<open>Concluding an epoch\<close>

lemma record_run_Inr:
  "record_run env e rel s = (Inr r, s') \<Longrightarrow>
     r = finalize e rel \<and> ss_harness s' = ss_harness s \<and> wd_trace s' = wd_trace s \<and>
     (\<exists>row. st_index (ss_store s') = st_index (ss_store s) @ [row] \<and>
        index_row (te_sha env) (finalize e rel) (rel_kind rel) = Inr row)"
  by (auto simp: record_run_def record_finalized_run_def Let_def res_simps split: sum.splits prod.splits)

lemma conclude_guards_Inr:
  "conclude_guards h cand measured = Inr l \<longleftrightarrow>
     hf_grad h = Some l \<and> ex_git_commit_hash (ls_candidate l) = ca_commit cand \<and>
     hf_applied h \<noteq> None \<and> ex_git_commit_hash measured = ca_commit cand"
  by (auto simp: conclude_guards_def split: option.splits if_splits)

lemma diagnose_harness: "diagnose env r path s = (x, s') \<Longrightarrow> ss_harness s' = ss_harness s"
  by (auto simp: diagnose_def note_call_def split: prod.splits)

lemma finally_clear:
  assumes "finally_do m clear_harness s = (r, s')"
  shows "ss_harness s' = no_harness"
proof -
  obtain r1 s1 where m: "m s = (r1, s1)" by fastforce
  with assms show ?thesis by (auto simp: finally_do_def clear_harness_def)
qed

lemma conclude_Inr:
  assumes "conclude env baseline cand measured path s = (Inr e, s')"
  shows "\<exists>l applied d.
    hf_grad (ss_harness s) = Some l \<and> hf_applied (ss_harness s) = Some applied \<and>
    ex_git_commit_hash (ls_candidate l) = ca_commit cand \<and>
    ex_git_commit_hash measured = ca_commit cand \<and>
    e = finalize measured
      \<lparr>rel_kind = (if applied = ca_commit cand then KindBaseline else KindCandidate),
       rel_parent_commit_hash = Some (ca_base_commit cand),
       rel_baseline_experiment_id = Some (ex_experiment_id baseline), rel_decision = Some d\<rparr> \<and>
    rd_outcome d = (if applied = ca_commit cand then Promoted else Rejected) \<and>
    ss_harness s' = no_harness"
proof -
  from assms obtain d s1 s2 where
    d: "bind_res (conclude_guards (ss_harness s) cand measured)
          (\<lambda>l. criterion_decision l (ss_harness s)) = Inr d" and
    r: "record_run env measured
          \<lparr>rel_kind = (if rd_outcome d = Promoted then KindBaseline else KindCandidate),
           rel_parent_commit_hash = Some (ca_base_commit cand),
           rel_baseline_experiment_id = Some (ex_experiment_id baseline),
           rel_decision = Some d\<rparr> s = (Inr e, s1)" and
    f: "finally_do (diagnose env e path) clear_harness s1 = (Inr (), s')"
    by (auto simp: conclude_def act_inv)
  from d obtain l where l: "hf_grad (ss_harness s) = Some l"
      "ex_git_commit_hash (ls_candidate l) = ca_commit cand"
      "ex_git_commit_hash measured = ca_commit cand"
      and dec: "criterion_decision l (ss_harness s) = Inr d"
    by (auto simp: res_simps conclude_guards_Inr)
  from dec obtain applied where a: "hf_applied (ss_harness s) = Some applied"
      "rd_outcome d = (if applied = ca_commit cand then Promoted else Rejected)"
    using l(2) by (auto simp: criterion_decision_def loss_promoted_def res_simps Let_def
        decision_from_report_def split: if_splits option.splits)
  from record_run_Inr [OF r] a(2) have "e = finalize measured
      \<lparr>rel_kind = (if applied = ca_commit cand then KindBaseline else KindCandidate),
       rel_parent_commit_hash = Some (ca_base_commit cand),
       rel_baseline_experiment_id = Some (ex_experiment_id baseline), rel_decision = Some d\<rparr>"
    by simp
  with l a finally_clear [OF f] show ?thesis by blast
qed

text \<open>The stored form of a finalized run: its record under its id, its row at the end of the index.\<close>

definition run_stored :: "trainer_env \<Rightarrow> experiment_result \<Rightarrow> run_store \<Rightarrow> run_store \<Rightarrow> bool" where
  "run_stored env e st st' \<longleftrightarrow>
     map_of (st_experiments st') = (map_of (st_experiments st))(ex_experiment_id e \<mapsto> as_parsed e) \<and>
     (\<exists>k row. ex_kind e = Some k \<and> index_row (te_sha env) e k = Inr row \<and> st_index st' = st_index st @ [row]) \<and>
     st_learning st' = st_learning st"

lemma record_run_stores:
  assumes "record_run env e rel s = (r, s')"
  shows "(\<exists>x. r = Inl x \<and> s' = s) \<or>
    (\<exists>st. r = Inr (finalize e rel) \<and> s' = s\<lparr>ss_store := st\<rparr> \<and> run_stored env (finalize e rel) (ss_store s) st)"
  using assms
  by (auto simp: record_run_def record_finalized_run_def save_experiment_def run_stored_def Let_def res_simps
      update_conv' split: sum.splits prod.splits)

lemma diagnosed_and_cleared:
  assumes "te_diagnose env (wd_trace s) (ss_store s) e path = (dg, st)"
  shows "finally_do (diagnose env e path) clear_harness s =
    (dg, note_call (Proc [''diagnose''] path) (s\<lparr>ss_store := st, ss_harness := no_harness\<rparr>))"
  using assms by (simp add: finally_do_def diagnose_def clear_harness_def note_call_def)

lemma conclude_cases:
  assumes "conclude env baseline cand measured path s = (r, s')"
  shows "(\<exists>x. r = Inl x \<and> s' = s) \<or>
    (\<exists>l applied d e st dg.
      hf_grad (ss_harness s) = Some l \<and> hf_applied (ss_harness s) = Some applied \<and>
      ex_git_commit_hash (ls_candidate l) = ca_commit cand \<and> ex_git_commit_hash measured = ca_commit cand \<and>
      e = finalize measured
        \<lparr>rel_kind = (if applied = ca_commit cand then KindBaseline else KindCandidate),
         rel_parent_commit_hash = Some (ca_base_commit cand),
         rel_baseline_experiment_id = Some (ex_experiment_id baseline), rel_decision = Some d\<rparr> \<and>
      rd_outcome d = (if applied = ca_commit cand then Promoted else Rejected) \<and>
      run_stored env e (ss_store s) st \<and> te_diagnose env (wd_trace s) st e path = (dg, ss_store s') \<and>
      r = map_sum id (\<lambda>_. e) dg \<and> ss_harness s' = no_harness)"
proof (cases "bind_res (conclude_guards (ss_harness s) cand measured) (\<lambda>l. criterion_decision l (ss_harness s))")
  case (Inl x)
  then show ?thesis using assms by (auto simp: conclude_def seq_def)
next
  case (Inr d)
  let ?rel = "\<lparr>rel_kind = (if rd_outcome d = Promoted then KindBaseline else KindCandidate),
       rel_parent_commit_hash = Some (ca_base_commit cand),
       rel_baseline_experiment_id = Some (ex_experiment_id baseline), rel_decision = Some d\<rparr>"
  obtain r1 s1 where rec: "record_run env measured ?rel s = (r1, s1)" by fastforce
  from Inr obtain l where l: "hf_grad (ss_harness s) = Some l"
      "ex_git_commit_hash (ls_candidate l) = ca_commit cand" "ex_git_commit_hash measured = ca_commit cand"
      and dec: "criterion_decision l (ss_harness s) = Inr d"
    by (auto simp: res_simps conclude_guards_Inr)
  from dec obtain applied where a: "hf_applied (ss_harness s) = Some applied"
      "rd_outcome d = (if applied = ca_commit cand then Promoted else Rejected)"
    using l(2) by (auto simp: criterion_decision_def loss_promoted_def res_simps Let_def
        decision_from_report_def split: if_splits option.splits)
  from record_run_stores [OF rec] show ?thesis
  proof (elim disjE exE conjE)
    fix x assume "r1 = Inl x" "s1 = s"
    then show ?thesis using assms Inr rec by (auto simp: conclude_def seq_def)
  next
    fix st assume st: "r1 = Inr (finalize measured ?rel)" "s1 = s\<lparr>ss_store := st\<rparr>"
      "run_stored env (finalize measured ?rel) (ss_store s) st"
    obtain dg st2 where dg: "te_diagnose env (wd_trace s) st (finalize measured ?rel) path = (dg, st2)" by fastforce
    have "(r, s') = also_then (finally_do (diagnose env (finalize measured ?rel) path) clear_harness)
        (ret (finalize measured ?rel)) s1"
      using assms Inr rec st(1) by (simp add: conclude_def seq_def)
    also have "\<dots> = (map_sum id (\<lambda>_. finalize measured ?rel) dg,
        note_call (Proc [''diagnose''] path) (s\<lparr>ss_store := st2, ss_harness := no_harness\<rparr>))"
      using diagnosed_and_cleared [of env s1 "finalize measured ?rel" path dg st2] dg st(2)
      by (cases dg) (simp_all add: also_then_def seq_def ret_def)
    finally have "r = map_sum id (\<lambda>_. finalize measured ?rel) dg" "ss_store s' = st2" "ss_harness s' = no_harness"
      by (simp_all add: note_call_def)
    then show ?thesis using l a st(3) dg
      by (intro disjI2 exI [of _ l] exI [of _ applied] exI [of _ d] exI [of _ "finalize measured ?rel"]
          exI [of _ st] exI [of _ dg]) simp
  qed
qed

text \<open>
  C9. Concluding an epoch either changes nothing and raises (a guard fails, or the run is not
  finished and gets no index row), or records what the optimizer did: the loop body had recorded a
  verdict of this very candidate and the optimizer had selected a commit; the run is finalized as a
  baseline exactly when that commit is the candidate's and as a candidate run otherwise, with the
  matching decision, the parent and the baseline it was judged against; the store then holds that
  record under its id and its row at the end of the index, every other record as before, and only in that
  store does the diagnosis start. The recorded run is returned unless the diagnosis raises, and in either case
  neither the verdict nor the selection survives.
\<close>

theorem conclude_records_decision:
  assumes "conclude env baseline cand measured path s = (r, s')"
  shows "(\<exists>x. r = Inl x \<and> s' = s) \<or>
    (\<exists>l applied d e st dg.
      hf_grad (ss_harness s) = Some l \<and> hf_applied (ss_harness s) = Some applied \<and>
      ex_git_commit_hash (ls_candidate l) = ca_commit cand \<and> ex_git_commit_hash measured = ca_commit cand \<and>
      e = finalize measured
        \<lparr>rel_kind = (if applied = ca_commit cand then KindBaseline else KindCandidate),
         rel_parent_commit_hash = Some (ca_base_commit cand),
         rel_baseline_experiment_id = Some (ex_experiment_id baseline), rel_decision = Some d\<rparr> \<and>
      rd_outcome d = (if applied = ca_commit cand then Promoted else Rejected) \<and>
      run_stored env e (ss_store s) st \<and> te_diagnose env (wd_trace s) st e path = (dg, ss_store s') \<and>
      r = map_sum id (\<lambda>_. e) dg \<and> ss_harness s' = no_harness)"
  using assms by (rule conclude_cases)

section \<open>The epoch with the standard loop body\<close>

lemma clear_harness_Inr [act_inv]:
  "clear_harness s = (Inr u, s') \<longleftrightarrow> s' = s\<lparr>ss_harness := no_harness\<rparr>"
  by (auto simp: clear_harness_def)

text \<open>A result some measurement of the panel returned.\<close>

definition measured_result :: "trainer_env \<Rightarrow> string list \<Rightarrow> experiment_result \<Rightarrow> bool" where
  "measured_result env task_ids e \<longleftrightarrow> (\<exists>tr st path st'. te_measure env tr st path task_ids = (Inr e, st'))"

lemma scratch_worktree_body:
  "scratch_worktree orc wrap repo commit root_dir name sparse body w = (Inr x, w') \<Longrightarrow>
     \<exists>w1 w2. body (worktree_path root_dir name commit) w1 = (Inr x, w2)"
  by (auto simp: scratch_worktree_def Let_def act_inv)

lemma run_measurement_result:
  "run_measurement env path task_ids s = (Inr e, s') \<Longrightarrow> measured_result env task_ids e"
  by (auto simp: run_measurement_def measured_result_def split: prod.splits)

lemma attempt_judged_Inr:
  assumes "attempt_judged env cand baseline task_ids s = (Inr f, s')"
  shows "\<exists>measured l. f = Judged measured l \<and> te_judge env measured baseline = Inr l \<and>
     ex_git_commit_hash measured = ca_commit cand \<and> measured_result env task_ids measured"
  using assms
  by (auto simp: attempt_judged_def judge_attempt_def act_inv split: if_splits sum.splits criterion_error.splits
      dest!: scratch_worktree_body run_measurement_result)

lemma measure_candidate_Judged:
  assumes "measure_candidate env cand baseline task_ids s = (Inr (Judged measured l), s')"
  shows "te_judge env measured baseline = Inr l \<and> ex_git_commit_hash measured = ca_commit cand \<and>
    measured_result env task_ids measured"
proof -
  from assms consider s1 s2 where "attempt_judged env cand baseline task_ids s1 = (Inr (Judged measured l), s2)"
    | e s1 s2 where "settle_failure e s1 = (Inr (Judged measured l), s2)"
    by (auto simp: measure_candidate_def act_inv split: if_splits)
  then show ?thesis
  proof cases
    case 1
    from attempt_judged_Inr [OF 1] show ?thesis by auto
  next
    case 2
    then show ?thesis by (auto simp: settle_failure_def act_inv split: train_error.splits)
  qed
qed

lemma train_body_Inr:
  assumes "train_body env l s = (Inr u, s')"
  shows "\<exists>target. ss_harness s' = \<lparr>hf_grad = Some l, hf_applied = Some target\<rparr> \<and>
    (selects (ls_value l) \<longrightarrow> target = ex_git_commit_hash (ls_candidate l)) \<and>
    (\<not> selects (ls_value l) \<longrightarrow>
       or_git (te_tools env) (wd_trace s) (te_repo env) [''rev-parse'', ''HEAD''] = Inr target)"
proof -
  from assms obtain h h' s1 where b: "loss_backward l (ss_harness s) = Inr h"
      and o: "optimizer_step (te_tools env) (te_repo env) h (s\<lparr>ss_harness := h\<rparr>) = (Inr h', s1)"
      and s': "s' = s1\<lparr>ss_harness := h'\<rparr>"
    by (auto simp: train_body_def split: sum.splits prod.splits)
  from b have g: "hf_grad h = Some l" by (auto simp: loss_backward_def split: if_splits)
  from optimizer_step_Inr [OF o] g s' show ?thesis by (cases h) auto
qed

section \<open>Bounds on what an epoch does\<close>

definition is_measure :: "call \<Rightarrow> bool" where
  "is_measure c \<longleftrightarrow> (case c of Proc argv _ \<Rightarrow> argv \<noteq> [] \<and> hd argv = ''measure'' | _ \<Rightarrow> False)"

lemma measures_once:
  "atmost is_measure 1 (scratch_worktree (te_tools env) TrainExc repo commit root_dir name sparse
     (\<lambda>path. run_measurement env path task_ids))"
proof -
  let ?path = "worktree_path root_dir name commit" and ?orc = "te_tools env"
  have quiet: "emits (\<lambda>c. \<not> is_measure c) (lift_err TrainExc (worktree_prepare ?orc repo root_dir ?path))"
    "emits (\<lambda>c. \<not> is_measure c) (lift_err TrainExc
       (git ?orc repo [''worktree'', ''add'', ''--no-checkout'', ''--detach'', ?path, commit]))"
    "emits (\<lambda>c. \<not> is_measure c) (lift_err TrainExc (worktree_setup ?orc ?path sparse))"
    "emits (\<lambda>c. \<not> is_measure c) (lift_err TrainExc (worktree_teardown ?orc repo ?path))"
    unfolding worktree_prepare_def clear_stale_def suppress_git_def worktree_remove_def
      worktree_prune_def worktree_setup_def worktree_teardown_def
    by (intro emits_intros; simp add: is_measure_def)+
  have one: "atmost is_measure 1 (run_measurement env ?path task_ids)"
    by (rule atmostI) (auto simp: run_measurement_def note_call_def measure_call_def split: prod.splits)
  have "atmost is_measure (0 + (0 + ((0 + 1) + 0)))
     (also_then (lift_err TrainExc (worktree_prepare ?orc repo root_dir ?path))
        (also_then (lift_err TrainExc
           (git ?orc repo [''worktree'', ''add'', ''--no-checkout'', ''--detach'', ?path, commit]))
        (finally_do
           (also_then (lift_err TrainExc (worktree_setup ?orc ?path sparse))
             (run_measurement env ?path task_ids))
           (lift_err TrainExc (worktree_teardown ?orc repo ?path)))))"
    by (intro atmost_also_then atmost_finally atmost_none quiet one)
  then show ?thesis
    by (simp add: atmost_def scratch_worktree_prepared Let_def)
qed

lemma judge_attempt_measures: "atmost is_measure 1 (judge_attempt env cand baseline task_ids)"
proof -
  have q: "emits (\<lambda>c. \<not> is_measure c) (if ex_git_commit_hash m \<noteq> ca_commit cand then raise (e m)
      else (case te_judge env m baseline of
             Inl (CriterionExc x) \<Rightarrow> raise (TrainExc x)
           | Inl (UnmeasurableRun d) \<Rightarrow> raise (Unmeasurable m d)
           | Inr l \<Rightarrow> ret (m, l)))" for m e
    by (auto intro!: emits_intros split: sum.split criterion_error.split)
  show ?thesis
    unfolding judge_attempt_def
    using atmost_seq [OF measures_once atmost_none [OF q]] by simp
qed

lemma measure_candidate_measures:
  "atmost is_measure 2 (measure_candidate env cand baseline task_ids)"
proof -
  have a: "atmost is_measure (1 + 0) (attempt_judged env cand baseline task_ids)"
    unfolding attempt_judged_def
    by (intro atmost_seq judge_attempt_measures atmost_none) (auto intro!: emits_intros split: prod.split)
  have s: "emits (\<lambda>c. \<not> is_measure c) (settle_failure e)" for e
    by (cases e) (auto simp: settle_failure_def intro!: emits_intros)
  have r: "atmost is_measure (1 + 0) (raise e :: (train_error, funnel) train_act)" for e
    by (rule atmost_mono [OF atmost_none [OF emits_ret(2)]]) simp
  have "atmost is_measure (1 + 0)
      (if retryable e then catch (attempt_judged env cand baseline task_ids) settle_failure else raise e)" for e
    using atmost_catch [OF a atmost_none [OF s]] r by simp
  from atmost_catch [OF a this] show ?thesis by (simp add: measure_candidate_def numeral_2_eq_2)
qed

text \<open>What the epoch may ask of git in the main repository.\<close>

definition harness_command :: "string list \<Rightarrow> bool" where
  "harness_command args \<longleftrightarrow> args = [''rev-parse'', ''HEAD''] \<or>
     (\<exists>rest. args = ''worktree'' # rest) \<or> (\<exists>target. args = [''merge'', ''--ff-only'', target])"

definition spares_harness :: "string \<Rightarrow> call \<Rightarrow> bool" where
  "spares_harness repo c \<longleftrightarrow> (case c of Git dir args \<Rightarrow> dir = repo \<longrightarrow> harness_command args | _ \<Rightarrow> True)"

lemma spares_cases [simp]:
  "spares_harness repo (Fs op args)" "spares_harness repo (Proc argv cwd)"
  "spares_harness repo (Git dir args) \<longleftrightarrow> (dir = repo \<longrightarrow> harness_command args)"
  by (simp_all add: spares_harness_def)

lemma harness_commands [simp]:
  "harness_command [''rev-parse'', ''HEAD'']" "harness_command (''worktree'' # rest)"
  "harness_command [''merge'', ''--ff-only'', target]"
  by (simp_all add: harness_command_def)

text \<open>Calls that cannot move the HEAD of the repository: what is asked of other directories, of the file system
  and of processes, and there reading HEAD and managing worktrees. Git's HEAD is taken to follow.\<close>

definition quiet_call :: "string \<Rightarrow> call \<Rightarrow> bool" where
  "quiet_call repo c \<longleftrightarrow> (case c of Git dir args \<Rightarrow> dir = repo \<longrightarrow>
     args = [''rev-parse'', ''HEAD''] \<or> (\<exists>rest. args = ''worktree'' # rest) | _ \<Rightarrow> True)"

definition head_follows_merges :: "'o tools_scheme \<Rightarrow> string \<Rightarrow> bool" where
  "head_follows_merges orc repo \<longleftrightarrow> (\<forall>t c. quiet_call repo c \<longrightarrow>
     or_git orc (t @ [c]) repo [''rev-parse'', ''HEAD''] = or_git orc t repo [''rev-parse'', ''HEAD''])"

lemma quiet_cases [simp]:
  "quiet_call repo (Fs op args)" "quiet_call repo (Proc argv cwd)"
  "quiet_call repo (Git dir args) \<longleftrightarrow>
     (dir = repo \<longrightarrow> args = [''rev-parse'', ''HEAD''] \<or> (\<exists>rest. args = ''worktree'' # rest))"
  by (simp_all add: quiet_call_def)

lemma quiet_spares: "quiet_call repo c \<Longrightarrow> spares_harness repo c"
  by (auto simp: quiet_call_def spares_harness_def harness_command_def split: call.splits)

lemma head_unmoved:
  assumes "head_follows_merges orc repo" and "emits (quiet_call repo) m" and "m s = (r, s')"
  shows "or_git orc (wd_trace s') repo [''rev-parse'', ''HEAD''] = or_git orc (wd_trace s) repo [''rev-parse'', ''HEAD'']"
proof -
  obtain cs where "wd_trace s' = wd_trace s @ cs" "\<forall>c \<in> set cs. quiet_call repo c"
    using emits_run [OF assms(2,3)] by blast
  moreover have "\<forall>c \<in> set cs. quiet_call repo c \<Longrightarrow>
      or_git orc (t @ cs) repo [''rev-parse'', ''HEAD''] = or_git orc t repo [''rev-parse'', ''HEAD'']" for t
    using assms(1) by (induction cs rule: rev_induct) (auto simp: head_follows_merges_def simp flip: append_assoc)
  ultimately show ?thesis by simp
qed

lemma emits_fixed:
  assumes "\<And>s. wd_trace (snd (m s)) = wd_trace s @ cs" and "\<forall>c \<in> set cs. P c"
  shows "emits P m"
  unfolding emits_def steps_def trace_ext_def using assms by blast

lemmas collaborator_defs = propose_def run_measurement_def certify_def diagnose_def
  resolve_identity_def preflight_probe_def record_run_def clear_harness_def measure_call_def

lemma emits_collaborators [emits_intros]:
  "P (Proc [''propose''] path) \<Longrightarrow> emits P (propose env path)"
  "P (measure_call path task_ids) \<Longrightarrow> emits P (run_measurement env path task_ids)"
  "P (Proc [''certify''] []) \<Longrightarrow> emits P (certify env baseline inherited)"
  "P (Proc [''diagnose''] path) \<Longrightarrow> emits P (diagnose env candidate path)"
  "P (Proc [''identity''] []) \<Longrightarrow> emits P (resolve_identity env)"
  "P (Proc [''preflight''] []) \<Longrightarrow> emits P (preflight_probe env)"
  by (simp_all add: emits_def steps_def trace_ext_def collaborator_defs split: prod.split)

lemma emits_record [emits_intros]: "emits P (record_run env e rel)"
  by (rule emits_fixed [where cs = "[]"]) (simp_all add: record_run_def split: sum.split prod.split)

lemma emits_clear [emits_intros]: "emits P clear_harness"
  by (rule emits_fixed [where cs = "[]"]) (simp_all add: clear_harness_def)

lemma emits_pure [emits_intros]: "emits P (\<lambda>s. (f s, s))"
  by (rule emits_def [THEN iffD2]) (simp add: steps_def trace_ext_def)

lemma emits_proposal:
  assumes "path \<noteq> te_repo env" and "\<And>nm c. worktree_path (te_worktrees_root env) nm c \<noteq> te_repo env"
  shows "emits (spares_harness (te_repo env)) (proposal_outcome env base_commit path)"
proof -
  have "emits (spares_harness (te_repo env)) (propose_candidate env base_commit path)"
    unfolding propose_candidate_def
    by (intro emits_intros emits_capture emits_validate emits_candidate_suite) (simp_all add: assms)
  then show ?thesis
    unfolding proposal_outcome_def
    by (intro emits_intros) (auto intro!: emits_intros split: candidate_error.split)
qed

lemma quiet_judge_attempt:
  assumes "\<And>nm c. worktree_path (te_worktrees_root env) nm c \<noteq> te_repo env"
  shows "emits (quiet_call (te_repo env)) (judge_attempt env cand baseline task_ids)"
  unfolding judge_attempt_def
  by (intro emits_intros emits_scratch_worktree)
    (auto simp: assms measure_call_def intro!: emits_intros split: sum.split criterion_error.split)

lemma quiet_measure_candidate:
  assumes "\<And>nm c. worktree_path (te_worktrees_root env) nm c \<noteq> te_repo env"
  shows "emits (quiet_call (te_repo env)) (measure_candidate env cand baseline task_ids)"
proof -
  have "emits (quiet_call (te_repo env)) (attempt_judged env cand baseline task_ids)"
    unfolding attempt_judged_def
    by (intro emits_intros quiet_judge_attempt assms) (auto intro!: emits_intros split: prod.split)
  moreover have "emits (quiet_call (te_repo env)) (settle_failure e)" for e
    by (cases e) (auto simp: settle_failure_def intro!: emits_intros)
  ultimately show ?thesis
    unfolding measure_candidate_def by (intro emits_intros)
qed

lemma emits_measure_candidate:
  assumes "\<And>nm c. worktree_path (te_worktrees_root env) nm c \<noteq> te_repo env"
  shows "emits (spares_harness (te_repo env)) (measure_candidate env cand baseline task_ids)"
  by (rule emits_mono [OF quiet_measure_candidate [OF assms] quiet_spares])

lemma promotion_earned:
  assumes "te_judge env = strict_pareto ms True"
    and "judge_epoch env (train_body env) base_commit baseline task_ids path cand s =
           (Inr (None, Some e), s')"
    and "head_follows_merges (te_tools env) (te_repo env)"
    and "or_git (te_tools env) (wd_trace s) (te_repo env) [''rev-parse'', ''HEAD''] = Inr base_commit"
    and "ca_commit cand \<noteq> base_commit"
    and "\<And>nm c. worktree_path (te_worktrees_root env) nm c \<noteq> te_repo env"
  shows "\<exists>measured l. strict_pareto ms True measured baseline = Inr l \<and>
    measured_result env task_ids measured \<and>
    ex_tasks e = ex_tasks measured \<and> ex_git_commit_hash e = ca_commit cand \<and>
    (ex_kind e = Some KindBaseline \<longleftrightarrow> selects (ls_value l)) \<and>
    (ex_kind e = Some KindBaseline \<longrightarrow> solved_task_ids baseline \<inter> panel_of e \<subseteq> solved_task_ids e)"
proof -
  from assms(2) obtain f s1 where f: "measure_candidate env cand baseline task_ids s = (Inr f, s1)"
    by (auto simp: judge_epoch_def act_inv split: if_splits)
  have "\<exists>measured l. f = Judged measured l"
    using assms(2) f by (cases f) (auto simp: judge_epoch_def act_inv split: if_splits option.splits)
  then obtain measured l where fj: "f = Judged measured l" by blast
  with assms(2) f obtain s2 s3 where
    cl: "s2 = s1\<lparr>ss_harness := no_harness\<rparr>" and
    b: "train_body env l s2 = (Inr (), s3)" and
    c: "conclude env baseline cand measured path s3 = (Inr e, s')"
    by (auto simp: judge_epoch_def act_inv split: if_splits)
  have "or_git (te_tools env) (wd_trace s2) (te_repo env) [''rev-parse'', ''HEAD''] = Inr base_commit"
    using head_unmoved [OF assms(3) quiet_measure_candidate [OF assms(6)] f] cl assms(4) by simp
  note head = this
  from measure_candidate_Judged [OF f [unfolded fj]] assms(1)
  have j: "strict_pareto ms True measured baseline = Inr l" and
    h: "ex_git_commit_hash measured = ca_commit cand" and
    m: "measured_result env task_ids measured" by auto
  note lc = pareto.judged_candidate [OF j]
  from train_body_Inr [OF b] obtain target where
    b3: "hf_applied (ss_harness s3) = Some target"
    "selects (ls_value l) \<longrightarrow> target = ex_git_commit_hash (ls_candidate l)"
    "\<not> selects (ls_value l) \<longrightarrow>
       or_git (te_tools env) (wd_trace s2) (te_repo env) [''rev-parse'', ''HEAD''] = Inr target"
    by auto
  with head assms(5) lc h have
    t: "hf_applied (ss_harness s3) = Some target" "target = ca_commit cand \<longleftrightarrow> selects (ls_value l)"
    by auto
  from conclude_Inr [OF c] t obtain d where
    e: "e = finalize measured
      \<lparr>rel_kind = (if selects (ls_value l) then KindBaseline else KindCandidate),
       rel_parent_commit_hash = Some (ca_base_commit cand),
       rel_baseline_experiment_id = Some (ex_experiment_id baseline), rel_decision = Some d\<rparr>"
    by auto
  have same: "panel_of e = panel_of measured" "solved_task_ids e = solved_task_ids measured"
    by (simp_all add: e panel_of_def solved_task_ids_def)
  have "(ex_kind e = Some KindBaseline \<longleftrightarrow> selects (ls_value l)) \<and>
    (ex_kind e = Some KindBaseline \<longrightarrow> solved_task_ids baseline \<inter> panel_of e \<subseteq> solved_task_ids e)"
    using pareto.keeps_solves [OF j] same by (auto simp: e)
  moreover have "ex_tasks e = ex_tasks measured" "ex_git_commit_hash e = ca_commit cand"
    using h by (simp_all add: e)
  ultimately show ?thesis using j m by blast
qed

lemma emits_conclude:
  "emits (spares_harness (te_repo env)) (conclude env baseline cand measured path)"
  unfolding conclude_def by (intro emits_intros) simp

lemma emits_train_body: "emits (spares_harness (te_repo env)) (train_body env l)"
proof (unfold emits_def, rule stepsI)
  fix s r s'
  assume run: "train_body env l s = (r, s')"
  have o: "emits (spares_harness (te_repo env)) (optimizer_step (te_tools env) (te_repo env) h)" for h
    unfolding optimizer_step_def head_sha_def
    by (cases "hf_grad h") (auto intro!: emits_intros)
  show "trace_ext (spares_harness (te_repo env)) s s'"
  proof (cases "loss_backward l (ss_harness s)")
    case (Inl e)
    then show ?thesis using run by (simp add: train_body_def trace_ext_def)
  next
    case (Inr h)
    obtain r1 s1 where 1: "optimizer_step (te_tools env) (te_repo env) h (s\<lparr>ss_harness := h\<rparr>) = (r1, s1)"
      by fastforce
    have "wd_trace s' = wd_trace s1" using run Inr 1 by (auto simp: train_body_def split: sum.splits)
    with emits_run [OF o 1] show ?thesis by (simp add: trace_ext_def)
  qed
qed

lemma emits_judge_epoch:
  assumes "\<And>nm c. worktree_path (te_worktrees_root env) nm c \<noteq> te_repo env"
    and "\<And>l. emits (spares_harness (te_repo env)) (body l)"
  shows "emits (spares_harness (te_repo env))
    (judge_epoch env body base_commit baseline task_ids path cand)"
proof -
  have "emits (spares_harness (te_repo env)) (case f of
           Judged measured l \<Rightarrow>
             also_then clear_harness
            (also_then (lift_err TrainExc (body l))
            (seq (lift_err TrainExc (conclude env baseline cand measured path)) (\<lambda>r.
               ret (None, Some r))))
         | Failed None _ \<Rightarrow> ret (Some MeasurementFailure, None)
         | Failed (Some failed) d \<Rightarrow>
             seq (lift_err TrainExc (record_run env failed (g d)))
               (\<lambda>r. ret (Some MeasurementFailure, Some r)))" for f g
    by (auto intro!: emits_intros emits_conclude assms(2) split: funnel.split option.split)
  then show ?thesis
    unfolding judge_epoch_def
    by (intro emits_intros emits_measure_candidate assms(1))
qed

text \<open>
  C6. The harness only moves forward: for any behaviour of git, the proposer and the worker, an
  epoch run with the standard loop body issues, in the main repository, no git command other than
  reading HEAD, managing worktrees and fast-forward-only merges; every commit, reset, add and ref
  update of an epoch happens inside a scratch worktree (which is a different directory).
\<close>

theorem epoch_spares_harness:
  assumes "\<And>nm c. worktree_path (te_worktrees_root env) nm c \<noteq> te_repo env"
  shows "emits (spares_harness (te_repo env))
    (epoch env (train_body env) base_commit baseline task_ids)"
proof -
  have "emits (spares_harness (te_repo env)) (case r of
           Inl cause \<Rightarrow> ret (Some (CandidateSkip cause), None)
         | Inr cand \<Rightarrow> judge_epoch env (train_body env) base_commit baseline task_ids path cand)" for r path
    by (cases r) (auto intro!: emits_intros emits_judge_epoch emits_train_body assms)
  then show ?thesis
    unfolding epoch_def
    by (intro emits_intros emits_scratch_worktree emits_proposal) (simp_all add: assms)
qed

text \<open>
  C10. The measurement funnel: a candidate is measured at most twice per epoch, a judged outcome
  is the criterion's verdict on a run of exactly that commit, and the funnel absorbs every
  measurement failure and every infra-sensitive verdict, so that only other exceptions escape.
\<close>

theorem measurement_funnel:
  assumes "measure_candidate env cand baseline task_ids s = (r, s')"
  shows "(\<exists>cs. wd_trace s' = wd_trace s @ cs \<and> length (filter is_measure cs) \<le> 2) \<and>
    (\<forall>measured l. r = Inr (Judged measured l) \<longrightarrow>
       te_judge env measured baseline = Inr l \<and> ex_git_commit_hash measured = ca_commit cand) \<and>
    (\<forall>e. r = Inl e \<longrightarrow> (\<exists>x. e = TrainExc x))"
proof (intro conjI allI impI)
  show "\<exists>cs. wd_trace s' = wd_trace s @ cs \<and> length (filter is_measure cs) \<le> 2"
    by (rule atmost_run [OF measure_candidate_measures assms])
next
  fix measured l assume "r = Inr (Judged measured l)"
  from measure_candidate_Judged [OF assms [unfolded this]]
  show "te_judge env measured baseline = Inr l" "ex_git_commit_hash measured = ca_commit cand" by auto
next
  fix e assume "r = Inl e"
  with assms show "\<exists>x. e = TrainExc x"
    by (auto simp: measure_candidate_def catch_def settle_failure_def retryable_def raise_def ret_def
        split: prod.splits sum.splits if_splits train_error.splits)
qed

section \<open>The circuit breaker\<close>

definition same_epochs :: "session \<Rightarrow> session \<Rightarrow> bool" where
  "same_epochs s s' \<longleftrightarrow> ss_epochs s' = ss_epochs s"

interpretation log: call_frame same_epochs
  by unfold_locales (simp_all add: same_epochs_def note_call_def)

lemma log_collaborators:
  "steps same_epochs (propose env path)" "steps same_epochs (run_measurement env path task_ids)"
  "steps same_epochs (certify env baseline inherited)" "steps same_epochs (diagnose env candidate path)"
  "steps same_epochs (resolve_identity env)" "steps same_epochs (preflight_probe env)"
  "steps same_epochs (record_run env e rel)" "steps same_epochs clear_harness"
  "steps same_epochs (\<lambda>s. (f s, s))"
  by (simp_all add: steps_def same_epochs_def collaborator_defs note_call_def
      split: prod.split sum.split)

lemmas log_intros = log.frames log.frame_scratch_worktree log.frame_capture log.frame_validate
  log.frame_candidate_suite log_collaborators steps_if

lemma log_judge_attempt: "steps same_epochs (judge_attempt env cand baseline task_ids)"
  unfolding judge_attempt_def
  by (intro log_intros) (auto intro!: log_intros split: sum.split criterion_error.split)

lemma log_measure_candidate: "steps same_epochs (measure_candidate env cand baseline task_ids)"
proof -
  have "steps same_epochs (attempt_judged env cand baseline task_ids)"
    unfolding attempt_judged_def
    by (intro log_intros log_judge_attempt) (auto intro!: log_intros split: prod.split)
  moreover have "steps same_epochs (settle_failure e)" for e
    by (cases e) (auto simp: settle_failure_def intro!: log_intros)
  ultimately show ?thesis unfolding measure_candidate_def by (intro log_intros)
qed

lemma log_judge_epoch:
  assumes "\<And>l. steps same_epochs (body l)"
  shows "steps same_epochs (judge_epoch env body base_commit baseline task_ids path cand)"
  unfolding judge_epoch_def conclude_def
  by (intro log_intros log_measure_candidate)
    (auto intro!: log_intros assms split: funnel.split option.split)

lemma log_epoch:
  assumes "\<And>l. steps same_epochs (body l)"
  shows "steps same_epochs (epoch env body base_commit baseline task_ids)"
  unfolding epoch_def proposal_outcome_def propose_candidate_def
  by (intro log_intros)
    (auto intro!: log_intros log_judge_epoch assms split: candidate_error.split sum.split)

lemma log_epoch_baseline: "steps same_epochs (epoch_baseline env base_commit certified)"
  unfolding epoch_baseline_def measure_baseline_def stored_baseline_def
  by (intro log_intros) (auto intro!: log_intros split: option.split)

fun no_double :: "bool list \<Rightarrow> bool" where
  "no_double (a # b # xs) = (\<not> (a \<and> b) \<and> no_double (b # xs))"
| "no_double _ = True"

definition skipped :: "(epoch_skip option \<times> decision_outcome option) list \<Rightarrow> bool list" where
  "skipped es = map (\<lambda>(skip, _). skip \<noteq> None) es"

lemma log_train_body: "steps same_epochs (train_body env l)"
proof (rule stepsI)
  fix s r s'
  assume run: "train_body env l s = (r, s')"
  show "same_epochs s s'"
  proof (cases "loss_backward l (ss_harness s)")
    case (Inl e)
    then show ?thesis using run by (simp add: train_body_def same_epochs_def)
  next
    case (Inr h)
    obtain r1 s1 where 1: "optimizer_step (te_tools env) (te_repo env) h (s\<lparr>ss_harness := h\<rparr>) = (r1, s1)"
      by fastforce
    have "steps same_epochs (optimizer_step (te_tools env) (te_repo env) h)"
      unfolding optimizer_step_def head_sha_def
      by (cases "hf_grad h") (auto intro!: log_intros)
    from steps_run [OF this 1] run Inr 1 show ?thesis
      by (auto simp: train_body_def same_epochs_def split: sum.splits)
  qed
qed

lemma log_epoch_turn:
  assumes "\<And>l. steps same_epochs (body l)"
  shows "steps same_epochs (epoch_turn env body certified)"
  unfolding epoch_turn_def head_sha_def
  by (intro log_intros log_epoch_baseline)
    (auto intro!: log_intros log_epoch log_epoch_baseline assms split: prod.split)

text \<open>Either the turn fails before its epoch is noted, or one epoch is noted.\<close>

lemma epochs_loop_turn:
  assumes "\<And>l. steps same_epochs (body l)"
    and "epochs_loop env body (Suc n) causes cert ds fin s = (r, s')"
  obtains (early) e where "r = Inl (EpochError e)" "ss_epochs s' = ss_epochs s"
  | (trip) skip o1 where "length (next_skips skip causes) \<ge> MAX_CONSECUTIVE_SKIPS"
      "r = Inl (CircuitBreakerTripped (breaker_text (next_skips skip causes)))"
      "ss_epochs s' = ss_epochs s @ [(skip, o1)]"
  | (again) skip o1 cert' ds' fin' s1 where "\<not> length (next_skips skip causes) \<ge> MAX_CONSECUTIVE_SKIPS"
      "epochs_loop env body n (next_skips skip causes) cert' ds' fin' s1 = (r, s')"
      "ss_epochs s1 = ss_epochs s @ [(skip, o1)]"
proof -
  obtain r1 s1 where 1: "epoch_turn env body cert s = (r1, s1)" by fastforce
  have k1: "ss_epochs s1 = ss_epochs s"
    using steps_run [OF log_epoch_turn [OF assms(1)] 1] by (simp add: same_epochs_def)
  show thesis
  proof (cases r1)
    case (Inl e)
    then show thesis using assms(2) 1 k1
      by (intro early [of e]) (auto simp: seq_def lift_err_def catch_def raise_def)
  next
    case (Inr bsf)
    obtain b skip fz where bsf: "bsf = (b, skip, fz)" by (cases bsf)
    let ?o = "case fz of None \<Rightarrow> None | Some r \<Rightarrow> map_option rd_outcome (ex_decision r)"
    have n: "ss_epochs (note_epoch skip fz s1) = ss_epochs s @ [(skip, ?o)]"
      using k1 by (simp add: note_epoch_def)
    show thesis
    proof (cases "length (next_skips skip causes) \<ge> MAX_CONSECUTIVE_SKIPS")
      case True
      with assms(2) 1 Inr bsf n show thesis
        by (intro trip [of skip ?o]) (auto simp: seq_def also_then_def raise_def lift_err_def catch_def)
    next
      case False
      with assms(2) 1 Inr bsf n show thesis
        by (intro again [of skip _ _ _ "note_epoch skip fz s1" ?o])
          (auto simp: seq_def also_then_def Let_def lift_err_def catch_def)
    qed
  qed
qed

lemma next_skips_flag:
  "length causes < MAX_CONSECUTIVE_SKIPS \<Longrightarrow>
     length (next_skips skip causes) \<ge> MAX_CONSECUTIVE_SKIPS \<longleftrightarrow> causes \<noteq> [] \<and> skip \<noteq> None"
  "next_skips skip causes \<noteq> [] \<longleftrightarrow> skip \<noteq> None"
  by (cases causes; auto simp: next_skips_def MAX_CONSECUTIVE_SKIPS_def split: option.split)+

lemma skipped_Cons: "skipped (e # es) = (fst e \<noteq> None) # skipped es"
  by (cases e) (simp add: skipped_def)

lemma breaker_invariant:
  assumes "\<And>l. steps same_epochs (body l)" and "length causes < MAX_CONSECUTIVE_SKIPS"
    and "epochs_loop env body n causes cert ds fin s = (r, s')"
  shows "\<exists>es. ss_epochs s' = ss_epochs s @ es \<and> length es \<le> n \<and>
    (r \<in> range Inr \<longrightarrow> length es = n \<and> no_double ((causes \<noteq> []) # skipped es)) \<and>
    (\<forall>m. r = Inl (CircuitBreakerTripped m) \<longrightarrow>
       (\<exists>pre. (causes \<noteq> []) # skipped es = pre @ [True, True] \<and> no_double (pre @ [True])))"
  using assms(2,3)
proof (induction n arbitrary: causes cert ds fin s)
  case 0
  then show ?case by (auto simp: ret_def skipped_def)
next
  case (Suc n)
  from assms(1) Suc.prems(2) show ?case
  proof (cases rule: epochs_loop_turn)
    case (early e)
    then show ?thesis by (intro exI [of _ "[]"]) auto
  next
    case (trip skip o1)
    then have "causes \<noteq> []" "skip \<noteq> None" using next_skips_flag(1) [OF Suc.prems(1)] by auto
    then show ?thesis using trip
      by (intro exI [of _ "[(skip, o1)]"]) (auto simp: skipped_def)
  next
    case (again skip o1 cert' ds' fin' s1)
    then have l: "length (next_skips skip causes) < MAX_CONSECUTIVE_SKIPS" by linarith
    have c: "\<not> (causes \<noteq> [] \<and> skip \<noteq> None)"
      using again(1) next_skips_flag(1) [OF Suc.prems(1)] by blast
    from Suc.IH [OF l again(2)] again(3) obtain es where
      es: "ss_epochs s' = ss_epochs s @ (skip, o1) # es" "length es \<le> n"
      "r \<in> range Inr \<longrightarrow> length es = n \<and> no_double ((skip \<noteq> None) # skipped es)"
      "\<forall>m. r = Inl (CircuitBreakerTripped m) \<longrightarrow>
       (\<exists>pre. (skip \<noteq> None) # skipped es = pre @ [True, True] \<and> no_double (pre @ [True]))"
      by (auto simp: next_skips_flag(2))
    have "\<exists>pre'. (causes \<noteq> []) # skipped ((skip, o1) # es) = pre' @ [True, True] \<and> no_double (pre' @ [True])"
      if "(skip \<noteq> None) # skipped es = pre @ [True, True]" "no_double (pre @ [True])" for pre
      using that c by (intro exI [of _ "(causes \<noteq> []) # pre"], cases pre) (auto simp: skipped_Cons)
    then show ?thesis using es c
      by (intro exI [of _ "(skip, o1) # es"]) (auto simp: skipped_Cons)
  qed
qed

text \<open>
  C5. The circuit breaker: a session with the standard loop body that returns has run every
  epoch it was asked for and never skipped two in a row, and one that trips the breaker ran until
  exactly its last two epochs were the first two consecutive skips.
\<close>

theorem circuit_breaker:
  assumes "epochs env (train_body env) max_epochs s = (r, s')"
  shows "\<exists>es. ss_epochs s' = ss_epochs s @ es \<and> int (length es) \<le> max 0 max_epochs \<and>
    (r \<in> range Inr \<longrightarrow> int (length es) = max_epochs \<and> no_double (skipped es)) \<and>
    (\<forall>m. r = Inl (CircuitBreakerTripped m) \<longrightarrow>
       (\<exists>pre. skipped es = pre @ [True, True] \<and> no_double (pre @ [True])))"
proof (cases "max_epochs < 0")
  case True
  with assms show ?thesis by (intro exI [of _ "[]"]) (auto simp: epochs_def raise_def)
next
  case False
  with assms have run: "epochs_loop env (train_body env) (nat max_epochs) [] None [] None s = (r, s')"
    by (simp add: epochs_def)
  have drop: "\<exists>pre'. skipped es = pre' @ [True, True] \<and> no_double (pre' @ [True])"
    if "False # skipped es = pre @ [True, True]" "no_double (pre @ [True])" for es pre
    using that by (cases pre) (auto split: list.splits, cases "tl pre", auto)
  from breaker_invariant [OF log_train_body _ run] obtain es where
    "ss_epochs s' = ss_epochs s @ es" "length es \<le> nat max_epochs"
    "r \<in> range Inr \<longrightarrow> length es = nat max_epochs \<and> no_double (False # skipped es)"
    "\<forall>m. r = Inl (CircuitBreakerTripped m) \<longrightarrow>
       (\<exists>pre. False # skipped es = pre @ [True, True] \<and> no_double (pre @ [True]))"
    by (auto simp: MAX_CONSECUTIVE_SKIPS_def)
  moreover have "no_double (False # bs) = no_double bs" for bs by (cases bs) auto
  ultimately show ?thesis using False drop by (intro exI [of _ es]) auto
qed

section \<open>Concrete sessions\<close>

definition sample_env :: trainer_env where
  "sample_env =
     \<lparr>te_tools = sample_tools (\<lambda>_. ''b0''), te_sha = (\<lambda>t. t), te_repo = ''r'',
      te_worktrees_root = ''wt'', te_surface = ''src/policy.py'', te_patch_paths = [''src/policy.py''],
      te_proposer_visible = [''src''], te_task_names = [''t''], te_judge = strict_pareto [] True,
      te_propose = (\<lambda>_ _ _. Inr ()),
      te_measure = (\<lambda>_ st _ _. (Inr (sample_run ''r2'' ''c1'' [(''t'', Solved)]), st)),
      te_certify = (\<lambda>_ st b _. (Inr (b, [''t'']), st)),
      te_diagnose = (\<lambda>_ st _ _. (Inr (), st)),
      te_identity = (\<lambda>_. Inr (ex_measurement_identity (sample_run [] [] []))),
      te_preflight = (\<lambda>_. Inr ())\<rparr>"

definition sample_session :: session where
  "sample_session = \<lparr>wd_trace = [], ss_store = empty_store, ss_harness = no_harness, ss_epochs = []\<rparr>"

definition sample_candidate :: candidate where
  "sample_candidate = \<lparr>ca_commit = ''c1'', ca_base_commit = ''b0''\<rparr>"

definition sample_old :: experiment_result where
  "sample_old = sample_run ''r1'' ''b0'' [(''t'', HitStepCap)]"

lemma sample_judged:
  "\<exists>l. strict_pareto [] True (sample_run ''r2'' ''c1'' [(''t'', Solved)]) sample_old = Inr l \<and>
     selects (ls_value l) \<and> ls_bound l \<and> ls_candidate l = sample_run ''r2'' ''c1'' [(''t'', Solved)]"
  unfolding sample_old_def by (simp add: sample_simps del: set_filter set_map)

theorem conclude_records_decision_witness:
  "\<exists>(l :: loss) e s'. conclude sample_env sample_old sample_candidate (sample_run ''r2'' ''c1'' [(''t'', Solved)]) ''p''
      (sample_session\<lparr>ss_harness := \<lparr>hf_grad = Some l, hf_applied = Some ''b0''\<rparr>\<rparr>) = (Inr e, s') \<and>
     ex_kind e = Some KindCandidate \<and> ss_harness s' = no_harness \<and>
     map_of (st_experiments (ss_store s')) ''r2'' = Some (as_parsed e) \<and> length (st_index (ss_store s')) = 1"
proof -
  obtain l :: loss where l: "ls_bound l" "ls_candidate l = sample_run ''r2'' ''c1'' [(''t'', Solved)]"
    using sample_judged by blast
  let ?s = "sample_session\<lparr>ss_harness := \<lparr>hf_grad = Some l, hf_applied = Some ''b0''\<rparr>\<rparr>"
  have "\<exists>e s'. conclude sample_env sample_old sample_candidate
      (sample_run ''r2'' ''c1'' [(''t'', Solved)]) ''p'' ?s = (Inr e, s')"
    using l
    by (simp add: sample_env_def sample_candidate_def act_simps clear_harness_def conclude_def
      conclude_guards_def criterion_decision_def loss_promoted_def record_run_def
      record_finalized_run_def index_row_def finalize_def sample_run_def diagnose_def Let_def
      decision_from_report_def)
  then obtain e s' where run: "conclude sample_env sample_old sample_candidate
      (sample_run ''r2'' ''c1'' [(''t'', Solved)]) ''p'' ?s = (Inr e, s')" by blast
  have none: "ss_store ?s = empty_store" by (simp add: sample_session_def)
  from conclude_records_decision [OF run] obtain st where
    e: "ex_kind e = Some KindCandidate" "ss_harness s' = no_harness" "ex_experiment_id e = ''r2''"
    and st: "run_stored sample_env e empty_store st" "ss_store s' = st"
    unfolding none
    by (auto simp: sample_candidate_def sample_env_def sample_run_def finalize_def)
  then have "map_of (st_experiments (ss_store s')) ''r2'' = Some (as_parsed e)" "length (st_index (ss_store s')) = 1"
    by (auto simp: run_stored_def empty_store_def)
  with run e show ?thesis by blast
qed

theorem epoch_spares_harness_witness:
  "emits (spares_harness ''r'') (epoch sample_env (train_body sample_env) ''b0'' sample_old [''t''])"
proof -
  have "worktree_path (te_worktrees_root sample_env) nm c \<noteq> te_repo sample_env" for nm c
    by (simp add: sample_env_def worktree_path_def)
  from epoch_spares_harness [OF this] show ?thesis by (simp add: sample_env_def)
qed

theorem measurement_funnel_witness:
  "\<exists>r s' cs. measure_candidate sample_env sample_candidate sample_old [''t''] sample_session = (r, s') \<and>
     wd_trace s' = cs \<and> length (filter is_measure cs) \<le> 2"
proof -
  obtain r s' where run: "measure_candidate sample_env sample_candidate sample_old [''t''] sample_session = (r, s')"
    by fastforce
  from measurement_funnel [OF run] run show ?thesis by (auto simp: sample_session_def)
qed

theorem circuit_breaker_witness:
  "\<exists>r s'. epochs sample_env (train_body sample_env) 1 sample_session = (r, s') \<and> length (ss_epochs s') \<le> 1"
proof -
  obtain r s' where run: "epochs sample_env (train_body sample_env) 1 sample_session = (r, s')"
    by fastforce
  from circuit_breaker [OF run] run show ?thesis by (auto simp: sample_session_def)
qed

end
