(* ===== verification/EnvBase.thy ===== *)
theory EnvBase
  imports Records
begin

text \<open>
  \<open>src/env/base.py\<close>: the contract between the episode loop and the task environments, with the
  exceptions of a rollout as a datatype. A constructor of \<open>rexc\<close> is an exception class; the
  arguments are what handlers read of it (message, or the cause it was raised from).
\<close>

section \<open>The exceptions of a rollout\<close>

datatype rexc =
    BareTimeout
  | FrameworkEnvError string
  | UnscorableInfraError string
  | StepExecutionError exc
  | ExecutionDriftError nat string
  | FrameworkError "rexc option"
  | CompletionInfraError exc
  | NoValidActionError string
  | RepeatedLengthCutoffError string
  | EnvSetupTimeout
  | TaskTimeout
  | StallTimeout string
  | PolicyBoundaryError exc
  | EnvBoundaryError exc
  | PlainExc exc

text \<open>The class name and text of an exception, as \<open>error_text\<close> renders it.\<close>

fun to_exc :: "rexc \<Rightarrow> exc" where
  "to_exc BareTimeout = OtherError ''TimeoutError'' []"
| "to_exc (FrameworkEnvError m) = OtherError ''FrameworkEnvError'' m"
| "to_exc (UnscorableInfraError m) = OtherError ''UnscorableInfraError'' m"
| "to_exc (StepExecutionError _) = OtherError ''StepExecutionError'' []"
| "to_exc (ExecutionDriftError _ m) = OtherError ''ExecutionDriftError'' m"
| "to_exc (FrameworkError _) = OtherError ''FrameworkError'' []"
| "to_exc (CompletionInfraError _) = OtherError ''CompletionInfraError'' []"
| "to_exc (NoValidActionError m) = OtherError ''NoValidActionError'' m"
| "to_exc (RepeatedLengthCutoffError m) = OtherError ''RepeatedLengthCutoffError'' m"
| "to_exc EnvSetupTimeout = OtherError ''_EnvSetupTimeoutError'' []"
| "to_exc TaskTimeout = OtherError ''_TaskTimeoutError'' []"
| "to_exc (StallTimeout m) = OtherError ''_StallTimeoutError'' m"
| "to_exc (PolicyBoundaryError _) = OtherError ''_PolicyBoundaryError'' []"
| "to_exc (EnvBoundaryError _) = OtherError ''_EnvBoundaryError'' []"
| "to_exc (PlainExc e) = e"

section \<open>Verdicts, outputs, actions, transitions\<close>

record verify_verdict =
  vv_completed :: bool
  vv_passed :: "bool option"
  vv_error :: "string option"

definition mk_verdict :: "bool \<Rightarrow> bool option \<Rightarrow> string option \<Rightarrow> exc + verify_verdict" where
  "mk_verdict completed passed error =
     (if completed then
        (if passed = None \<or> error \<noteq> None
         then Inl (ValueError ''completed verdict requires passed and no error'')
         else Inr \<lparr>vv_completed = completed, vv_passed = passed, vv_error = error\<rparr>)
      else if error = None \<or> passed \<noteq> None
      then Inl (ValueError ''incomplete verdict requires error and no passed'')
      else Inr \<lparr>vv_completed = completed, vv_passed = passed, vv_error = error\<rparr>)"

definition verdict_ok :: "verify_verdict \<Rightarrow> bool" where
  "verdict_ok v \<longleftrightarrow> mk_verdict (vv_completed v) (vv_passed v) (vv_error v) = Inr v"

record raw_output =
  ro_instruction :: string
  ro_working_dir :: "string option"
  ro_exit_code :: "int option"
  ro_stdout :: string
  ro_stderr :: string

definition empty_output :: raw_output where
  "empty_output = \<lparr>ro_instruction = [], ro_working_dir = None, ro_exit_code = None,
     ro_stdout = [], ro_stderr = []\<rparr>"

record run_action =
  ra_command :: string
  ra_cwd :: "string option"
  ra_timeout_sec :: "rat option"

datatype env_action = RunAct run_action | VerifyAct

record verify_outcome =
  vo_verdict :: verify_verdict
  vo_output :: raw_output
  vo_reward :: rat
  vo_info :: "(string, json) dict"
  vo_metrics :: metrics

record step_result =
  sp_raw :: raw_output
  sp_reward :: rat
  sp_terminated :: bool
  sp_truncated :: bool
  sp_info :: "(string, json) dict"
  sp_metrics :: metrics
  sp_verdict :: "verify_verdict option"

definition plain_step :: "raw_output \<Rightarrow> step_result" where
  "plain_step out = \<lparr>sp_raw = out, sp_reward = 0, sp_terminated = False, sp_truncated = False,
     sp_info = [], sp_metrics = [], sp_verdict = None\<rparr>"

text \<open>\<open>scrub\<close> is the token scrubber of \<open>determinism.py\<close>, by the command that produced the text.\<close>

definition scrub_raw_env_output ::
    "(string option \<Rightarrow> string \<Rightarrow> string) \<Rightarrow> raw_output \<Rightarrow> string option \<Rightarrow> raw_output" where
  "scrub_raw_env_output scrub out command =
     out\<lparr>ro_stdout := scrub command (ro_stdout out), ro_stderr := scrub command (ro_stderr out)\<rparr>"

definition scrub_step_result ::
    "(string option \<Rightarrow> string \<Rightarrow> string) \<Rightarrow> step_result \<Rightarrow> string option \<Rightarrow> step_result" where
  "scrub_step_result scrub r command = r\<lparr>sp_raw := scrub_raw_env_output scrub (sp_raw r) command\<rparr>"

section \<open>The action boundary\<close>

text \<open>A live environment: \<open>verify\<close> and \<open>execute\<close> may raise anything and change its state.\<close>

record 's task_env =
  env_verify :: "'s \<Rightarrow> (rexc + verify_outcome) \<times> 's"
  env_execute :: "'s \<Rightarrow> run_action \<Rightarrow> (rexc + raw_output) \<times> 's"

fun env_ladder :: "rexc \<Rightarrow> rexc" where
  "env_ladder (FrameworkEnvError m) = FrameworkEnvError m"
| "env_ladder BareTimeout = BareTimeout"
| "env_ladder (UnscorableInfraError m) = UnscorableInfraError m"
| "env_ladder e = StepExecutionError (to_exc e)"

definition verify_step :: "verify_outcome \<Rightarrow> step_result" where
  "verify_step out = \<lparr>sp_raw = vo_output out, sp_reward = vo_reward out, sp_terminated = True,
     sp_truncated = False, sp_info = vo_info out, sp_metrics = vo_metrics out,
     sp_verdict = Some (vo_verdict out)\<rparr>"

definition execute_env_action ::
    "'s task_env \<Rightarrow> env_action \<Rightarrow> 's \<Rightarrow> (rexc + step_result) \<times> 's" where
  "execute_env_action env action s =
     (case action of
        VerifyAct \<Rightarrow>
          (case env_verify env s of
             (Inl e, s') \<Rightarrow> (Inl (env_ladder e), s')
           | (Inr out, s') \<Rightarrow> (Inr (verify_step out), s'))
      | RunAct a \<Rightarrow>
          (case env_execute env s a of
             (Inl e, s') \<Rightarrow> (Inl (env_ladder e), s')
           | (Inr out, s') \<Rightarrow> (Inr (plain_step out), s')))"

section \<open>Task sets\<close>

text \<open>An agent budget is whatever number the task file declared; a bool or a non-finite float is
  the constructor \<open>BadTimeout\<close>.\<close>

datatype task_timeout = NoTimeout | TimeoutSec rat | BadTimeout

record task_def =
  td_instruction :: string
  td_agent_timeout :: task_timeout
  td_replay_id :: "string option"

record task_set =
  ts_kind :: string
  ts_tasks :: "(string, task_def) dict"

record task_handle =
  th_task_id :: string
  th_content_id :: "string option"
  th_agent_timeout_sec :: rat

definition DEFAULT_AGENT_TIMEOUT_SEC :: rat where
  "DEFAULT_AGENT_TIMEOUT_SEC = 4500"

definition content_id :: "task_set \<Rightarrow> string \<Rightarrow> exc + string option" where
  "content_id ts task_id =
     (case map_of (ts_tasks ts) task_id of
        None \<Rightarrow> Inl (KeyError task_id)
      | Some t \<Rightarrow> Inr (map_option (\<lambda>r. ts_kind ts @ '':'' @ r @ '':'' @ task_id) (td_replay_id t)))"

definition task_handle_of :: "task_set \<Rightarrow> string \<Rightarrow> rat \<Rightarrow> exc + task_handle" where
  "task_handle_of ts task_id multiplier =
     (case map_of (ts_tasks ts) task_id of
        None \<Rightarrow> Inl (KeyError task_id)
      | Some t \<Rightarrow>
          bind_res
            (case td_agent_timeout t of
               NoTimeout \<Rightarrow> Inr DEFAULT_AGENT_TIMEOUT_SEC
             | BadTimeout \<Rightarrow> Inl (ValueError (task_id @ '': agent_timeout_sec must be positive and finite when defined''))
             | TimeoutSec s \<Rightarrow>
                 (if s \<le> 0
                  then Inl (ValueError (task_id @ '': agent_timeout_sec must be positive and finite when defined''))
                  else Inr s)) (\<lambda>timeout.
          bind_res (content_id ts task_id) (\<lambda>cid.
            Inr \<lparr>th_task_id = task_id, th_content_id = cid,
                 th_agent_timeout_sec = timeout * multiplier\<rparr>)))"

section \<open>Facts\<close>

lemma verdict_ok_iff:
  "verdict_ok v \<longleftrightarrow> (vv_completed v \<longrightarrow> vv_passed v \<noteq> None \<and> vv_error v = None) \<and>
     (\<not> vv_completed v \<longrightarrow> vv_passed v = None \<and> vv_error v \<noteq> None)"
  by (cases v) (auto simp: verdict_ok_def mk_verdict_def)

lemma mk_verdict_ok: "mk_verdict c p e = Inr v \<Longrightarrow> verdict_ok v"
  by (auto simp: mk_verdict_def verdict_ok_def split: if_splits)

lemma env_ladder_cases:
  "(\<exists>m. env_ladder e = FrameworkEnvError m) \<or> env_ladder e = BareTimeout \<or>
   (\<exists>m. env_ladder e = UnscorableInfraError m) \<or> (\<exists>x. env_ladder e = StepExecutionError x)"
  by (cases e) auto

lemma task_handle_positive:
  "task_handle_of ts t k = Inr h \<Longrightarrow> 0 < k \<Longrightarrow> 0 < th_agent_timeout_sec h"
  by (auto simp: task_handle_of_def res_simps DEFAULT_AGENT_TIMEOUT_SEC_def
      split: option.splits task_timeout.splits if_splits)

text \<open>Two tasks of one set share a content id only if they are the same task of the same content,
  as long as neither id nor fingerprint contains the separator.\<close>

lemma split_at_colon:
  "a @ CHR '':'' # b = c @ CHR '':'' # d \<Longrightarrow> CHR '':'' \<notin> set a \<Longrightarrow> CHR '':'' \<notin> set c \<Longrightarrow> a = c \<and> b = d"
proof (induction a arbitrary: c)
  case Nil
  then show ?case by (cases c) auto
next
  case (Cons x a)
  then show ?case by (cases c) auto
qed

lemma content_id_inj:
  assumes "content_id ts t = Inr (Some i)" "content_id ts t' = Inr (Some i)"
    and "\<And>d. d \<in> snd ` set (ts_tasks ts) \<Longrightarrow> CHR '':'' \<notin> set (the (td_replay_id d))"
  shows "t = t'"
proof -
  obtain d r where d: "map_of (ts_tasks ts) t = Some d" "td_replay_id d = Some r"
      "i = ts_kind ts @ '':'' @ r @ '':'' @ t"
    using assms(1) by (auto simp: content_id_def split: option.splits)
  obtain d' r' where d': "map_of (ts_tasks ts) t' = Some d'" "td_replay_id d' = Some r'"
      "i = ts_kind ts @ '':'' @ r' @ '':'' @ t'"
    using assms(2) by (auto simp: content_id_def split: option.splits)
  have "CHR '':'' \<notin> set r" "CHR '':'' \<notin> set r'"
    using assms(3) [of d] assms(3) [of d'] d d' by (force dest: map_of_SomeD)+
  moreover have "r @ CHR '':'' # t = r' @ CHR '':'' # t'" using d(3) d'(3) by simp
  ultimately show ?thesis using split_at_colon by blast
qed

end
