(* ===== verification/Recording.thy ===== *)
theory Recording
  imports EnvBase
begin

text \<open>
  Which executed steps may be recorded (the second half of \<open>src/plugins/replay/step_cache.py\<close>): the
  POSIX tokenizer of \<open>shlex\<close> with punctuation runs and whitespace splitting, the removal of
  here-document bodies built on it, the detection of background processes and the deadline rule.
\<close>

section \<open>The tokenizer\<close>

text \<open>
  \<open>shlex.shlex(s, posix=True, punctuation_chars=True)\<close> with \<open>whitespace_split\<close>. The states are those
  of \<open>read_token\<close>; \<open>Escaping None\<close> returns to a word, \<open>Escaping (Some q)\<close> to a text quoted by \<open>q\<close>.
  A text that ends inside quotes or after a backslash raises \<open>ValueError\<close> (none).
\<close>

datatype lex_state = Blank | Comment | Word | Punct | Quoted char | Escaping "char option"

definition lex_space :: string where
  "lex_space = [CHR 0x20, CHR 0x09, CHR 0x0D, CHR 0x0A]"

definition lex_quotes :: string where
  "lex_quotes = [CHR 0x27, CHR 0x22]"

definition lex_punct :: string where
  "lex_punct = ''();<>|&''"

text \<open>The state a character leads to between two tokens, and the token begun (reversed).\<close>

definition start_token :: "char \<Rightarrow> lex_state \<times> string" where
  "start_token c =
     (if c \<in> set lex_space then (Blank, [])
      else if c = CHR ''#'' then (Comment, [])
      else if c = CHR 0x5C then (Escaping None, [])
      else if c \<in> set lex_punct then (Punct, [c])
      else if c \<in> set lex_quotes then (Quoted c, [])
      else (Word, [c]))"

definition emit_token :: "string \<Rightarrow> bool \<Rightarrow> string list \<Rightarrow> string list" where
  "emit_token tok qtd ts = (if tok = [] \<and> \<not> qtd then ts else rev tok # ts)"

fun shlex_scan :: "lex_state \<Rightarrow> string \<Rightarrow> bool \<Rightarrow> string \<Rightarrow> string list option" where
  "shlex_scan st tok qtd [] =
     (case st of
        Quoted _ \<Rightarrow> None
      | Escaping _ \<Rightarrow> None
      | Blank \<Rightarrow> Some []
      | Comment \<Rightarrow> Some []
      | Word \<Rightarrow> Some (emit_token tok qtd [])
      | Punct \<Rightarrow> Some (emit_token tok qtd []))"
| "shlex_scan st tok qtd (c # cs) =
     (case st of
        Blank \<Rightarrow> (case start_token c of (st', tok') \<Rightarrow> shlex_scan st' tok' False cs)
      | Comment \<Rightarrow> shlex_scan (if c = CHR 0x0A then Blank else Comment) [] False cs
      | Quoted q \<Rightarrow>
          (if c = q then shlex_scan Word tok True cs
           else if c = CHR 0x5C \<and> q = CHR 0x22 then shlex_scan (Escaping (Some q)) tok True cs
           else shlex_scan (Quoted q) (c # tok) True cs)
      | Escaping None \<Rightarrow> shlex_scan Word (c # tok) qtd cs
      | Escaping (Some q) \<Rightarrow>
          shlex_scan (Quoted q) (if c \<noteq> CHR 0x5C \<and> c \<noteq> q then c # CHR 0x5C # tok else c # tok) qtd cs
      | Word \<Rightarrow>
          (if c \<in> set lex_space then map_option (emit_token tok qtd) (shlex_scan Blank [] False cs)
           else if c = CHR ''#'' then map_option (emit_token tok qtd) (shlex_scan Comment [] False cs)
           else if c \<in> set lex_quotes then shlex_scan (Quoted c) tok qtd cs
           else if c = CHR 0x5C then shlex_scan (Escaping None) tok qtd cs
           else if c \<in> set lex_punct
           then map_option (emit_token tok qtd)
                  (case start_token c of (st', tok') \<Rightarrow> shlex_scan st' tok' False cs)
           else shlex_scan Word (c # tok) qtd cs)
      | Punct \<Rightarrow>
          (if c \<in> set lex_space then map_option (emit_token tok qtd) (shlex_scan Blank [] False cs)
           else if c = CHR ''#'' then map_option (emit_token tok qtd) (shlex_scan Comment [] False cs)
           else if c \<in> set lex_punct then shlex_scan Punct (c # tok) qtd cs
           else map_option (emit_token tok qtd)
                  (case start_token c of (st', tok') \<Rightarrow> shlex_scan st' tok' False cs)))"

definition shlex_tokens :: "string \<Rightarrow> string list option" where
  "shlex_tokens s = shlex_scan Blank [] False s"

section \<open>Here-documents\<close>

text \<open>The delimiters a line opens, each with whether tabs are stripped before it is looked for.\<close>

definition delimiter_of :: "string \<Rightarrow> string \<times> bool" where
  "delimiter_of t = (if t \<noteq> [] \<and> hd t = CHR ''-'' then (tl t, True) else (t, False))"

fun scan_delimiters :: "string list \<Rightarrow> (string \<times> bool) list" where
  "scan_delimiters (t # d # ts) =
     (if t = ''<<''
      then (if fst (delimiter_of d) \<noteq> [] then delimiter_of d # scan_delimiters ts else scan_delimiters ts)
      else scan_delimiters (d # ts))"
| "scan_delimiters _ = []"

definition heredoc_delimiters :: "string \<Rightarrow> (string \<times> bool) list" where
  "heredoc_delimiters line =
     (case shlex_tokens line of None \<Rightarrow> [] | Some ts \<Rightarrow> scan_delimiters ts)"

definition closes_heredoc :: "string \<times> bool \<Rightarrow> string \<Rightarrow> bool" where
  "closes_heredoc d line \<longleftrightarrow>
     (if snd d then dropWhile (\<lambda>c. c = CHR 0x09) line else line) = fst d"

fun strip_lines :: "(string \<times> bool) list \<Rightarrow> string list \<Rightarrow> string list" where
  "strip_lines pending [] = []"
| "strip_lines [] (line # ls) = line # strip_lines (heredoc_delimiters line) ls"
| "strip_lines (d # pending) (line # ls) =
     strip_lines (if closes_heredoc d line then pending else d # pending) ls"

definition strip_heredoc_bodies :: "string \<Rightarrow> string" where
  "strip_heredoc_bodies command = join_str [nl] (strip_lines [] (splitlines command))"

section \<open>Background processes\<close>

text \<open>\<open>(?<![&>])&(?:\s|$)|(?:^|[;({\s])nohup(?:\s|$)\<close>, searched from a position whose previous
  character is \<open>prev\<close>.\<close>

definition word_ends :: "string \<Rightarrow> bool" where
  "word_ends s \<longleftrightarrow> s = [] \<or> hd s \<in> set whitespace"

fun background_search :: "char option \<Rightarrow> string \<Rightarrow> bool" where
  "background_search prev [] = False"
| "background_search prev (c # cs) =
     ((c = CHR ''&'' \<and> prev \<noteq> Some (CHR ''&'') \<and> prev \<noteq> Some (CHR ''>'') \<and> word_ends cs) \<or>
      (take 5 (c # cs) = ''nohup'' \<and> word_ends (drop 5 (c # cs)) \<and>
       (case prev of None \<Rightarrow> True | Some p \<Rightarrow> p \<in> set '';({'' \<or> p \<in> set whitespace)) \<or>
      background_search (Some c) cs)"

definition acquires_live_process_state :: "run_action \<Rightarrow> bool" where
  "acquires_live_process_state action =
     (let command = strip_heredoc_bodies (ra_command action)
      in case shlex_tokens command of
           None \<Rightarrow> background_search None command
         | Some ts \<Rightarrow> ''&'' \<in> set ts \<or> ''nohup'' \<in> set ts)"

definition COMMAND_TIMEOUT_EXIT_CODE :: int where
  "COMMAND_TIMEOUT_EXIT_CODE = 124"

definition DEADLINE_RECORDING_FRACTION :: rat where
  "DEADLINE_RECORDING_FRACTION = 8 / 10"

definition DEADLINE_RECORDING_SLACK_SEC :: rat where
  "DEADLINE_RECORDING_SLACK_SEC = 10"

definition skip_recording_reason :: "run_action \<Rightarrow> step_result \<Rightarrow> rat \<Rightarrow> string option" where
  "skip_recording_reason action r elapsed =
     (if acquires_live_process_state action then Some ''background_process''
      else if ro_exit_code (sp_raw r) = Some COMMAND_TIMEOUT_EXIT_CODE then Some ''command_timeout''
      else case ra_timeout_sec action of
             None \<Rightarrow> None
           | Some t \<Rightarrow>
               (if elapsed > t * DEADLINE_RECORDING_FRACTION \<and> elapsed > t - DEADLINE_RECORDING_SLACK_SEC
                then Some ''near_deadline'' else None))"

section \<open>What the tokenizer sees\<close>

text \<open>Plain characters: no blank, comment, escape, operator or quote.\<close>

definition plain_char :: "char \<Rightarrow> bool" where
  "plain_char c \<longleftrightarrow> c \<notin> set lex_space \<and> c \<noteq> CHR ''#'' \<and> c \<noteq> CHR 0x5C \<and> c \<notin> set lex_punct \<and> c \<notin> set lex_quotes"

lemma scan_word:
  "list_all plain_char w \<Longrightarrow> shlex_scan Word tok q (w @ r) = shlex_scan Word (rev w @ tok) q r"
  by (induction w arbitrary: tok) (simp_all add: plain_char_def)

lemma scan_start:
  "list_all plain_char w \<Longrightarrow> w \<noteq> [] \<Longrightarrow> shlex_scan Blank [] False (w @ r) = shlex_scan Word (rev w) False r"
  using scan_word by (cases w) (simp_all add: plain_char_def start_token_def)

lemma scan_operator:
  "shlex_scan Word tok q (CHR ''&'' # CHR 0x20 # r) =
     map_option (\<lambda>ts. emit_token tok q (''&'' # ts)) (shlex_scan Blank [] False r)"
  by (simp add: lex_space_def lex_quotes_def lex_punct_def start_token_def emit_token_def option.map_comp o_def)

text \<open>Quoting hides operators: a text between single quotes is one piece of one word.\<close>

lemma scan_single_quoted:
  "CHR 0x27 \<notin> set t \<Longrightarrow>
     shlex_scan (Quoted (CHR 0x27)) tok q (t @ CHR 0x27 # r) = shlex_scan Word (rev t @ tok) True r"
  by (induction t arbitrary: tok q) auto

text \<open>The words of a command line without specials, and a whole line of such words.\<close>

lemma tokens_of_words:
  "(\<And>w. w \<in> set ws \<Longrightarrow> w \<noteq> [] \<and> list_all plain_char w) \<Longrightarrow> shlex_tokens (join_str '' '' ws) = Some ws"
proof (induction ws)
  case (Cons w ws)
  then have w: "w \<noteq> []" "list_all plain_char w" and "shlex_tokens (join_str '' '' ws) = Some ws" by auto
  with scan_start [OF w(2,1)] show ?case
    using scan_start [OF w(2,1), of "[]"]
    by (cases ws) (simp_all add: shlex_tokens_def lex_space_def emit_token_def)
qed (simp add: shlex_tokens_def)

section \<open>Here-document bodies do not matter\<close>

lemma strip_body:
  "(\<And>l. l \<in> set body \<Longrightarrow> \<not> closes_heredoc d l) \<Longrightarrow> closes_heredoc d end_line \<Longrightarrow>
     strip_lines (d # pending) (body @ end_line # ls) = strip_lines pending ls"
  by (induction body) auto

lemma strip_heredoc:
  assumes "heredoc_delimiters line = d # ds"
    and "\<And>l. l \<in> set body \<Longrightarrow> \<not> closes_heredoc d l" and "closes_heredoc d end_line"
  shows "strip_lines [] (line # body @ end_line # ls) = line # strip_lines ds ls"
  using strip_body [OF assms(2,3)] assms(1) by simp

lemma heredoc_bodies_ignored:
  assumes "splitlines (ra_command a) = line # body @ end_line # ls"
    and "splitlines (ra_command b) = line # body' @ end_line # ls"
    and "heredoc_delimiters line = d # ds" and "closes_heredoc d end_line"
    and "\<And>l. l \<in> set body \<union> set body' \<Longrightarrow> \<not> closes_heredoc d l"
  shows "acquires_live_process_state a = acquires_live_process_state b"
proof -
  have "strip_lines [] (line # body @ end_line # ls) = line # strip_lines ds ls"
    by (rule strip_heredoc) (use assms(3-5) in auto)
  moreover have "strip_lines [] (line # body' @ end_line # ls) = line # strip_lines ds ls"
    by (rule strip_heredoc) (use assms(3-5) in auto)
  ultimately show ?thesis
    unfolding acquires_live_process_state_def strip_heredoc_bodies_def assms(1,2) by simp
qed

definition run_of :: "string \<Rightarrow> run_action" where
  "run_of c = \<lparr>ra_command = c, ra_cwd = None, ra_timeout_sec = None\<rparr>"

text \<open>A background job is seen; the same text in quotes or in a here-document is not.\<close>

lemma background_samples:
  "acquires_live_process_state (run_of ''serve & sleep 1'')"
  "\<not> acquires_live_process_state (run_of (''echo '' @ quote # ''serve & sleep 1'' @ [quote]))"
  "\<not> acquires_live_process_state (run_of (''cat <<EOF'' @ nl # ''x & 1'' @ nl # ''EOF''))"
  by (code_simp)+

end
