(* ===== verification/Config.thy ===== *)
theory Config
  imports Records "HOL-Library.Sublist"
begin

text \<open>
  \<open>src/config.py\<close>: the run configuration. First the loading of a YAML payload with its one parent
  and its includes, over a file reader \<open>load\<close> and a path resolver; then the configuration models
  with their field constraints and validators, and the projection that the measurement identity
  hashes. A resolved path is its list of components; a YAML mapping is a JSON object.
\<close>

section \<open>Loading a payload\<close>

definition EXTENDS_KEY :: string where
  "EXTENDS_KEY = ''$extends''"

definition INCLUDE_KEY :: string where
  "INCLUDE_KEY = ''$include''"

type_synonym path = "string list"

record config_files =
  cf_load :: "path \<Rightarrow> exc + json"
  cf_is_absolute :: "string \<Rightarrow> bool"
  cf_resolve :: "path \<Rightarrow> string \<Rightarrow> path"

type_synonym payload = "(string \<times> json) list"

definition path_str :: "path \<Rightarrow> string" where
  "path_str p = ''/'' @ join_str ''/'' p"

definition load_config_mapping ::
    "'f config_files_scheme \<Rightarrow> path \<Rightarrow> path list \<Rightarrow> (exc + payload) \<times> path list" where
  "load_config_mapping fl path sources =
     (bind_res (cf_load fl path) (\<lambda>v. (case v of
          JObj ms \<Rightarrow> Inr ms
        | _ \<Rightarrow> Inl (ValueError (''config file must contain a YAML mapping: '' @ path_str path)))),
      sources @ [path])"

definition relative_config_path :: "'f config_files_scheme \<Rightarrow> path \<Rightarrow> string \<Rightarrow> exc + path" where
  "relative_config_path fl config_dir path =
     (if cf_is_absolute fl path
      then Inl (ValueError (''config include path must be relative: '' @ path))
      else let resolved = cf_resolve fl config_dir path
        in if prefix config_dir resolved then Inr resolved
           else Inl (ValueError (''config include path must stay within config directory: '' @ path)))"

fun resolve_includes ::
    "'f config_files_scheme \<Rightarrow> path \<Rightarrow> payload \<Rightarrow> path list \<Rightarrow> (exc + payload) \<times> path list" where
  "resolve_includes fl dir [] sources = (Inr [], sources)"
| "resolve_includes fl dir ((key, value) # ms) sources =
     (case (case value of
              JObj os \<Rightarrow>
                (if INCLUDE_KEY \<in> fst ` set os then
                   (if set (map fst os) \<noteq> {INCLUDE_KEY}
                    then (Inl (ValueError (INCLUDE_KEY @ '' cannot have sibling fields'')), sources)
                    else (case map_of os INCLUDE_KEY of
                        Some (JStr include) \<Rightarrow>
                          (case relative_config_path fl dir include of
                             Inl e \<Rightarrow> (Inl e, sources)
                           | Inr p \<Rightarrow>
                               (case load_config_mapping fl p sources of
                                  (Inl e, s) \<Rightarrow> (Inl e, s) | (Inr v, s) \<Rightarrow> (Inr (JObj v), s)))
                      | _ \<Rightarrow> (Inl (ValueError (INCLUDE_KEY @ '' must be a relative path'')), sources)))
                 else (Inr value, sources))
            | _ \<Rightarrow> (Inr value, sources)) of
        (Inl e, s) \<Rightarrow> (Inl e, s)
      | (Inr v, s) \<Rightarrow>
          (case resolve_includes fl dir ms s of
             (Inl e, s') \<Rightarrow> (Inl e, s') | (Inr rest, s') \<Rightarrow> (Inr ((key, v) # rest), s')))"

text \<open>\<open>_merge_config\<close>: the override wins, two mappings merge.\<close>

fun merge_config :: "payload \<Rightarrow> payload \<Rightarrow> payload"
  and merge_value :: "json option \<Rightarrow> json \<Rightarrow> json" where
  "merge_config merged [] = merged"
| "merge_config merged ((key, value) # ov) =
     merge_config (AList.update key (merge_value (map_of merged key) value) merged) ov"
| "merge_value (Some (JObj b)) (JObj os) = JObj (merge_config b os)"
| "merge_value old value = value"

definition extends_of :: "path \<Rightarrow> payload \<Rightarrow> exc + string option" where
  "extends_of path p =
     (case map_of p EXTENDS_KEY of
        None \<Rightarrow> Inr None
      | Some (JArr []) \<Rightarrow> Inr None
      | Some (JArr [JStr parent]) \<Rightarrow> Inr (Some parent)
      | Some _ \<Rightarrow> Inl (ValueError (EXTENDS_KEY @ '' must contain at most one relative path: '' @ path_str path)))"

definition load_config_payload ::
    "'f config_files_scheme \<Rightarrow> path \<Rightarrow> (exc + payload) \<times> path list" where
  "load_config_payload fl path =
     (case load_config_mapping fl path [] of
        (Inl e, s) \<Rightarrow> (Inl e, s)
      | (Inr p, s) \<Rightarrow>
          (case extends_of path p of
             Inl e \<Rightarrow> (Inl e, s)
           | Inr parent \<Rightarrow>
               (case (case parent of
                        None \<Rightarrow> (Inr [], s)
                      | Some q \<Rightarrow>
                          (case relative_config_path fl (butlast path) q of
                             Inl e \<Rightarrow> (Inl e, s)
                           | Inr pp \<Rightarrow> load_config_mapping fl pp s)) of
                  (Inl e, s1) \<Rightarrow> (Inl e, s1)
                | (Inr merged, s1) \<Rightarrow>
                    (case resolve_includes fl (butlast path)
                            (filter (\<lambda>(k, _). k \<noteq> EXTENDS_KEY) p) s1 of
                       (Inl e, s2) \<Rightarrow> (Inl e, s2)
                     | (Inr current, s2) \<Rightarrow> (Inr (merge_config merged current), s2)))))"

section \<open>The models\<close>

datatype reasoning_effort = EffortLow | EffortMedium | EffortHigh | EffortXhigh

record llm_provider =
  lp_model_name :: string
  lp_base_url :: string
  lp_api_key_env :: string
  lp_max_context_length :: int
  lp_tokenizer_name :: "string option"
  lp_temperature :: "rat option"
  lp_top_p :: "rat option"
  lp_seed :: "int option"
  lp_max_tokens :: int
  lp_enable_thinking :: "bool option"
  lp_thinking_budget_tokens :: "int option"
  lp_reasoning_effort :: "reasoning_effort option"
  lp_provider_only :: "string list option"

datatype env_kind = Swe | TerminalBench

record environment_config =
  ev_kind :: env_kind
  ev_task_names :: "string list"
  ev_host_netcache :: bool

datatype execution_kind = Eager | Replay

record plugins_config =
  pl_llm_cache :: bool
  pl_execution :: execution_kind

record training_target =
  tt_module :: string
  tt_extra_patch_paths :: "string list"
  tt_proposer_visible :: "string list"

record run_config =
  rc_config_path :: "string option"
  rc_training_target :: training_target
  rc_environment :: environment_config
  rc_max_steps :: int
  rc_agent_timeout_multiplier :: rat
  rc_max_rollout_concurrency :: int
  rc_plugins :: plugins_config
  rc_llm_provider_config :: llm_provider

section \<open>Validation\<close>

definition opt_all :: "('a \<Rightarrow> bool) \<Rightarrow> 'a option \<Rightarrow> bool" where
  "opt_all P x = (case x of None \<Rightarrow> True | Some v \<Rightarrow> P v)"

text \<open>The declared field constraints; the text of a field error is pydantic's.\<close>

definition llm_fields_ok :: "llm_provider \<Rightarrow> bool" where
  "llm_fields_ok l \<longleftrightarrow> lp_model_name l \<noteq> [] \<and> lp_api_key_env l \<noteq> [] \<and> 0 < lp_max_context_length l \<and>
     opt_all (\<lambda>t. t \<noteq> []) (lp_tokenizer_name l) \<and>
     opt_all (\<lambda>t. 0 \<le> t \<and> t \<le> 2) (lp_temperature l) \<and>
     opt_all (\<lambda>t. 0 \<le> t \<and> t \<le> 1) (lp_top_p l) \<and> 0 < lp_max_tokens l \<and>
     opt_all (\<lambda>n. 0 < n) (lp_thinking_budget_tokens l) \<and>
     opt_all (\<lambda>ps. ps \<noteq> []) (lp_provider_only l)"

definition field_check :: "bool \<Rightarrow> exc + unit" where
  "field_check ok = guard_res ok (OtherError ''ValidationError'' [])"

definition is_deterministic :: "llm_provider \<Rightarrow> bool" where
  "is_deterministic l \<longleftrightarrow> lp_seed l \<noteq> None"

definition provider_revision :: "string option \<Rightarrow> llm_provider \<Rightarrow> string" where
  "provider_revision override l =
     (let revision = ''openai_compatible:'' @ lp_base_url l @ '':'' @ lp_model_name l
      in case override of None \<Rightarrow> revision | Some v \<Rightarrow> revision @ '':'' @ v)"

definition validate_provider_contract :: "llm_provider \<Rightarrow> exc + unit" where
  "validate_provider_contract l =
     guard_res (lp_thinking_budget_tokens l = None \<or> lp_enable_thinking l = Some True)
       (ValueError ''thinking_budget_tokens requires enable_thinking: true'')"

definition mk_llm_provider :: "llm_provider \<Rightarrow> exc + unit" where
  "mk_llm_provider l = bind_res (field_check (llm_fields_ok l)) (\<lambda>_. validate_provider_contract l)"

definition validate_task_panel :: "environment_config \<Rightarrow> exc + unit" where
  "validate_task_panel e =
     (if length (ev_task_names e) \<noteq> card (set (ev_task_names e))
      then Inl (ValueError ''task_names must be unique'')
      else if ev_kind e = Swe \<and> \<not> ev_host_netcache e
      then Inl (ValueError (''host_netcache applies only to terminal_bench; '' @ [CHR 0x27] @ ''swe'' @
             [CHR 0x27] @ '' must leave it default (true)''))
      else Inr ())"

definition mk_environment :: "environment_config \<Rightarrow> exc + environment_config" where
  "mk_environment e =
     bind_res (field_check (ev_task_names e \<noteq> [])) (\<lambda>_.
     bind_res (validate_task_panel e) (\<lambda>_. Inr e))"

definition validate_plugin_contract :: "run_config \<Rightarrow> exc + unit" where
  "validate_plugin_contract c =
     (if pl_execution (rc_plugins c) = Replay then
        (if \<not> is_deterministic (rc_llm_provider_config c)
         then Inl (ValueError ''plugins.execution \"replay\" requires a deterministic llm_provider_config (openai_compatible with seed)'')
         else if ev_kind (rc_environment c) = TerminalBench \<and> \<not> ev_host_netcache (rc_environment c)
         then Inl (ValueError ''plugins.execution \"replay\" requires environment.host_netcache for terminal_bench'')
         else Inr ())
      else Inr ())"

definition run_fields_ok :: "run_config \<Rightarrow> bool" where
  "run_fields_ok c \<longleftrightarrow> tt_module (rc_training_target c) \<noteq> [] \<and> 0 < rc_max_steps c \<and>
     0 < rc_agent_timeout_multiplier c \<and> 0 < rc_max_rollout_concurrency c"

definition mk_run_config :: "run_config \<Rightarrow> exc + run_config" where
  "mk_run_config c =
     bind_res (mk_environment (rc_environment c)) (\<lambda>_.
     bind_res (mk_llm_provider (rc_llm_provider_config c)) (\<lambda>_.
     bind_res (field_check (run_fields_ok c)) (\<lambda>_.
     bind_res (validate_plugin_contract c) (\<lambda>_. Inr c))))"

definition config_ok :: "run_config \<Rightarrow> bool" where
  "config_ok c \<longleftrightarrow> mk_run_config c = Inr c"

definition with_task_panel :: "string list \<Rightarrow> run_config \<Rightarrow> exc + run_config" where
  "with_task_panel names c =
     bind_res (mk_environment ((rc_environment c)\<lparr>ev_task_names := names\<rparr>)) (\<lambda>e.
       Inr (c\<lparr>rc_environment := e\<rparr>))"

text \<open>\<open>module.replace(".", "/") + ".py"\<close>.\<close>

definition surface :: "training_target \<Rightarrow> string" where
  "surface t = map (\<lambda>c. if c = CHR ''.'' then CHR ''/'' else c) (tt_module t) @ ''.py''"

definition patch_paths :: "training_target \<Rightarrow> string list" where
  "patch_paths t = surface t # tt_extra_patch_paths t"

section \<open>The measured projection\<close>

definition opt_value :: "('a \<Rightarrow> json) \<Rightarrow> 'a option \<Rightarrow> json" where
  "opt_value f x = (case x of None \<Rightarrow> JNull | Some v \<Rightarrow> f v)"

fun effort_str :: "reasoning_effort \<Rightarrow> string" where
  "effort_str EffortLow = ''low''"
| "effort_str EffortMedium = ''medium''"
| "effort_str EffortHigh = ''high''"
| "effort_str EffortXhigh = ''xhigh''"

definition llm_json :: "llm_provider \<Rightarrow> json" where
  "llm_json l = JObj
     [(''provider'', JStr ''openai_compatible''), (''model_name'', JStr (lp_model_name l)),
      (''base_url'', JStr (lp_base_url l)), (''api_key_env'', JStr (lp_api_key_env l)),
      (''max_context_length'', JInt (lp_max_context_length l)),
      (''tokenizer_name'', opt_value JStr (lp_tokenizer_name l)),
      (''temperature'', opt_value JFloat (lp_temperature l)), (''top_p'', opt_value JFloat (lp_top_p l)),
      (''seed'', opt_value JInt (lp_seed l)), (''max_tokens'', JInt (lp_max_tokens l)),
      (''enable_thinking'', opt_value JBool (lp_enable_thinking l)),
      (''thinking_budget_tokens'', opt_value JInt (lp_thinking_budget_tokens l)),
      (''reasoning_effort'', opt_value (JStr \<circ> effort_str) (lp_reasoning_effort l)),
      (''provider_only'', opt_value (\<lambda>ps. JArr (map JStr ps)) (lp_provider_only l))]"

definition environment_json :: "environment_config \<Rightarrow> json" where
  "environment_json e = JObj
     [(''kind'', JStr (case ev_kind e of Swe \<Rightarrow> ''swe'' | TerminalBench \<Rightarrow> ''terminal_bench'')),
      (''task_names'', JArr (map JStr (ev_task_names e))),
      (''host_netcache'', JBool (ev_host_netcache e))]"

definition plugins_json :: "plugins_config \<Rightarrow> json" where
  "plugins_json p = JObj
     [(''llm_cache'', JBool (pl_llm_cache p)),
      (''execution'', JStr (case pl_execution p of Eager \<Rightarrow> ''eager'' | Replay \<Rightarrow> ''replay''))]"

definition measurement_identity_payload :: "run_config \<Rightarrow> json" where
  "measurement_identity_payload c = JObj
     [(''schema_version'', JInt 13),
      (''training_target'', JObj [(''module'', JStr (tt_module (rc_training_target c)))]),
      (''environment'', environment_json (rc_environment c)),
      (''max_steps'', JInt (rc_max_steps c)),
      (''agent_timeout_multiplier'', JFloat (rc_agent_timeout_multiplier c)),
      (''max_rollout_concurrency'', JInt (rc_max_rollout_concurrency c)),
      (''plugins'', plugins_json (rc_plugins c)),
      (''llm_provider_config'', llm_json (rc_llm_provider_config c))]"

text \<open>The part of a configuration the identity is about.\<close>

definition measured_part :: "run_config \<Rightarrow> run_config" where
  "measured_part c = c\<lparr>rc_config_path := None, rc_training_target :=
     (rc_training_target c)\<lparr>tt_extra_patch_paths := [], tt_proposer_visible := []\<rparr>\<rparr>"

lemma opt_value_inj:
  "opt_value JStr x = opt_value JStr y \<longleftrightarrow> x = y"
  "opt_value JFloat p = opt_value JFloat q \<longleftrightarrow> p = q"
  "opt_value JInt i = opt_value JInt j \<longleftrightarrow> i = j"
  "opt_value JBool b = opt_value JBool b' \<longleftrightarrow> b = b'"
  "opt_value (JStr \<circ> effort_str) e = opt_value (JStr \<circ> effort_str) e' \<longleftrightarrow> e = e'"
  "opt_value (\<lambda>ps. JArr (map JStr ps)) xs = opt_value (\<lambda>ps. JArr (map JStr ps)) ys \<longleftrightarrow> xs = ys"
proof -
  have "effort_str a = effort_str b \<longleftrightarrow> a = b" for a b by (cases a; cases b) simp_all
  moreover have "inj JStr" by (simp add: inj_on_def)
  ultimately show
    "opt_value JStr x = opt_value JStr y \<longleftrightarrow> x = y"
    "opt_value JFloat p = opt_value JFloat q \<longleftrightarrow> p = q"
    "opt_value JInt i = opt_value JInt j \<longleftrightarrow> i = j"
    "opt_value JBool b = opt_value JBool b' \<longleftrightarrow> b = b'"
    "opt_value (JStr \<circ> effort_str) e = opt_value (JStr \<circ> effort_str) e' \<longleftrightarrow> e = e'"
    "opt_value (\<lambda>ps. JArr (map JStr ps)) xs = opt_value (\<lambda>ps. JArr (map JStr ps)) ys \<longleftrightarrow> xs = ys"
    by (auto simp: opt_value_def inj_map_eq_map split: option.splits)
qed

lemma opt_value_canon:
  "canon (opt_value JStr x) = opt_value JStr x" "canon (opt_value JFloat q) = opt_value JFloat q"
  "canon (opt_value JInt i) = opt_value JInt i" "canon (opt_value JBool b) = opt_value JBool b"
  "canon (opt_value (JStr \<circ> effort_str) e) = opt_value (JStr \<circ> effort_str) e"
  "canon (opt_value (\<lambda>ps. JArr (map JStr ps)) xs) = opt_value (\<lambda>ps. JArr (map JStr ps)) xs"
  by (simp_all add: opt_value_def del: map_map split: option.split)

lemma llm_json_inj: "canon (llm_json l) = canon (llm_json m) \<longleftrightarrow> l = m"
  unfolding llm_json_def
  by (subst canon_same_keys) (auto simp: opt_value_inj opt_value_canon)

lemma environment_json_inj: "canon (environment_json e) = canon (environment_json f) \<longleftrightarrow> e = f"
proof -
  have "inj JStr" by (simp add: inj_on_def)
  then show ?thesis
    unfolding environment_json_def
    by (cases e; cases f; subst canon_same_keys)
      (auto simp: inj_map_eq_map simp del: map_map split: env_kind.splits)
qed

lemma plugins_json_inj: "canon (plugins_json p) = canon (plugins_json q) \<longleftrightarrow> p = q"
  unfolding plugins_json_def
  by (subst canon_same_keys) (auto split: execution_kind.splits)

lemma measured_part_iff:
  "measured_part c = measured_part d \<longleftrightarrow>
     tt_module (rc_training_target c) = tt_module (rc_training_target d) \<and>
     rc_environment c = rc_environment d \<and> rc_max_steps c = rc_max_steps d \<and>
     rc_agent_timeout_multiplier c = rc_agent_timeout_multiplier d \<and>
     rc_max_rollout_concurrency c = rc_max_rollout_concurrency d \<and>
     rc_plugins c = rc_plugins d \<and> rc_llm_provider_config c = rc_llm_provider_config d"
  by (cases c; cases d; cases "rc_training_target c"; cases "rc_training_target d")
    (auto simp: measured_part_def)

lemma payload_canon:
  "canon (measurement_identity_payload c) = canon (measurement_identity_payload d) \<longleftrightarrow>
     measured_part c = measured_part d"
  unfolding measurement_identity_payload_def
  by (subst canon_same_keys)
    (auto simp: llm_json_inj environment_json_inj plugins_json_inj measured_part_iff
      canon_same_keys [of "[(''module'', JStr _)]"] simp del: canon.simps(2))

section \<open>Merging\<close>

lemma merge_config_lookup:
  "distinct (map fst os) \<Longrightarrow>
   map_of (merge_config b os) k =
     (case map_of os k of None \<Rightarrow> map_of b k | Some v \<Rightarrow> Some (merge_value (map_of b k) v))"
proof (induction os arbitrary: b)
  case (Cons m ov)
  obtain key v where m: "m = (key, v)" by fastforce
  let ?b = "AList.update key (merge_value (map_of b key) v) b"
  have "k = key \<Longrightarrow> map_of ov k = None" using Cons.prems m by (simp add: map_of_eq_None_iff)
  then show ?case
    using Cons.IH [of ?b] Cons.prems m by (cases "k = key") (simp_all add: dict_simps cong: option.case_cong)
qed simp

lemma merge_config_keys:
  "distinct (map fst os) \<Longrightarrow>
     map fst (merge_config b os) = map fst b @ filter (\<lambda>k. k \<notin> fst ` set b) (map fst os)"
proof (induction os arbitrary: b)
  case (Cons m ov)
  obtain key v where m: "m = (key, v)" by fastforce
  let ?b = "AList.update key (merge_value (map_of b key) v) b"
  have keys: "map fst ?b = map fst b @ (if key \<in> fst ` set b then [] else [key])"
    by (simp add: update_keys)
  have "filter (\<lambda>k. k \<notin> fst ` set ?b) (map fst ov) = filter (\<lambda>k. k \<notin> fst ` set b) (map fst ov)"
    using Cons.prems m by (intro filter_cong) (auto simp: dom_update)
  with Cons.IH [of ?b] Cons.prems keys m show ?case by simp
qed simp

text \<open>
  Configuration inheritance: the merged mapping has the parent's keys first and then the new
  ones, and each key holds the override's value, except that two mappings merge in turn; a key the
  override does not mention keeps the parent's value.
\<close>

theorem merge_config_spec:
  assumes "distinct (map fst os)"
  shows "map fst (merge_config b os) = map fst b @ filter (\<lambda>k. k \<notin> fst ` set b) (map fst os) \<and>
    map_of (merge_config b os) k =
      (case map_of os k of
         None \<Rightarrow> map_of b k
       | Some v \<Rightarrow> Some (case map_of b k of
           Some (JObj x) \<Rightarrow> (case v of JObj y \<Rightarrow> JObj (merge_config x y) | _ \<Rightarrow> v) | _ \<Rightarrow> v))"
  using merge_config_keys [OF assms] merge_config_lookup [OF assms]
  by (auto split: option.splits json.splits)

theorem merge_config_spec_witness:
  "map fst (merge_config [(''a'', JInt 1), (''b'', JObj [(''x'', JInt 1), (''y'', JInt 2)])]
      [(''b'', JObj [(''y'', JInt 3)]), (''c'', JNull)]) = [''a'', ''b'', ''c''] \<and>
   map_of (merge_config [(''a'', JInt 1), (''b'', JObj [(''x'', JInt 1), (''y'', JInt 2)])]
      [(''b'', JObj [(''y'', JInt 3)]), (''c'', JNull)]) ''b'' =
      Some (JObj [(''x'', JInt 1), (''y'', JInt 3)])"
  using merge_config_spec [of "[(''b'', JObj [(''y'', JInt 3)]), (''c'', JNull)]"
      "[(''a'', JInt 1), (''b'', JObj [(''x'', JInt 1), (''y'', JInt 2)])]" "''b''"]
  by simp

section \<open>Where a configuration is read from\<close>

text \<open>Every read past the first is of a path inside the directory of the configuration.\<close>

definition reads_inside :: "path \<Rightarrow> path list \<Rightarrow> path list \<Rightarrow> bool" where
  "reads_inside dir sources sources' \<longleftrightarrow> (\<exists>ps. sources' = sources @ ps \<and> (\<forall>p \<in> set ps. prefix dir p))"

lemma reads_inside_refl: "reads_inside dir s s"
  by (simp add: reads_inside_def)

lemma reads_inside_trans:
  assumes "reads_inside dir s t" "reads_inside dir t u"
  shows "reads_inside dir s u"
proof -
  obtain ps qs where "t = s @ ps" "\<forall>p \<in> set ps. prefix dir p" "u = t @ qs" "\<forall>p \<in> set qs. prefix dir p"
    using assms unfolding reads_inside_def by blast
  then show ?thesis unfolding reads_inside_def by (intro exI [of _ "ps @ qs"]) auto
qed

lemma load_mapping_reads: "load_config_mapping fl p s = (r, s') \<Longrightarrow> s' = s @ [p]"
  by (simp add: load_config_mapping_def)

lemma relative_path_inside: "relative_config_path fl dir q = Inr p \<Longrightarrow> prefix dir p"
  by (auto simp: relative_config_path_def Let_def split: if_splits)

lemma load_relative_reads:
  assumes "relative_config_path fl dir q = Inr p" "load_config_mapping fl p s = (r, s')"
  shows "reads_inside dir s s'"
  using load_mapping_reads [OF assms(2)] relative_path_inside [OF assms(1)]
  by (simp add: reads_inside_def)

lemma resolve_includes_reads:
  "resolve_includes fl dir ms s = (r, s') \<Longrightarrow> reads_inside dir s s'"
proof (induction ms arbitrary: r s s')
  case Nil
  then show ?case by (simp add: reads_inside_refl)
next
  case (Cons m ms)
  obtain key v0 where m: "m = (key, v0)" by fastforce
  let ?head = "case v0 of
      JObj os \<Rightarrow>
        (if INCLUDE_KEY \<in> fst ` set os then
           (if set (map fst os) \<noteq> {INCLUDE_KEY}
            then (Inl (ValueError (INCLUDE_KEY @ '' cannot have sibling fields'')), s)
            else (case map_of os INCLUDE_KEY of
                Some (JStr include) \<Rightarrow>
                  (case relative_config_path fl dir include of
                     Inl e \<Rightarrow> (Inl e, s)
                   | Inr p \<Rightarrow>
                       (case load_config_mapping fl p s of
                          (Inl e, s) \<Rightarrow> (Inl e, s) | (Inr v, s) \<Rightarrow> (Inr (JObj v), s)))
              | _ \<Rightarrow> (Inl (ValueError (INCLUDE_KEY @ '' must be a relative path'')), s)))
         else (Inr v0, s))
    | _ \<Rightarrow> (Inr v0, s)"
  obtain h t where h: "?head = (h, t)" by fastforce
  have head: "reads_inside dir s t"
    using h by (auto simp: reads_inside_refl split: json.splits if_splits option.splits sum.splits
        prod.splits intro: load_relative_reads)
  show ?case
  proof (cases h)
    case (Inl e)
    then show ?thesis using Cons.prems h m head by simp
  next
    case (Inr v)
    obtain r2 u where rec: "resolve_includes fl dir ms t = (r2, u)" by fastforce
    have "s' = u" using Cons.prems h m Inr rec by (auto split: sum.splits)
    with Cons.IH [OF rec] head show ?thesis by (auto intro: reads_inside_trans)
  qed
qed

lemma config_reads:
  assumes "load_config_payload fl path = (r, sources)"
  shows "reads_inside (butlast path) [path] sources"
proof -
  obtain r1 s1 where l: "load_config_mapping fl path [] = (r1, s1)" by fastforce
  have s1: "s1 = [path]" using load_mapping_reads [OF l] by simp
  let ?parent = "\<lambda>parent. case parent of
      None \<Rightarrow> (Inr [], s1)
    | Some q \<Rightarrow> (case relative_config_path fl (butlast path) q of
         Inl e \<Rightarrow> (Inl e, s1) | Inr pp \<Rightarrow> load_config_mapping fl pp s1)"
  have parent: "reads_inside (butlast path) s1 t" if "?parent q = (r2, t)" for q r2 t
    using that by (auto simp: reads_inside_refl split: option.splits sum.splits intro: load_relative_reads)
  show ?thesis
    using assms l s1 parent
    by (fastforce simp: load_config_payload_def reads_inside_refl
        split: sum.splits prod.splits
        dest: resolve_includes_reads intro: reads_inside_trans)
qed

section \<open>Which configurations are accepted\<close>

lemma length_card_distinct: "length xs = card (set xs) \<longleftrightarrow> distinct xs"
  using card_distinct distinct_card by (metis (no_types))

lemma mk_environment_Inr:
  "mk_environment e = Inr e' \<longleftrightarrow> e' = e \<and> ev_task_names e \<noteq> [] \<and> distinct (ev_task_names e) \<and>
     (ev_kind e = Swe \<longrightarrow> ev_host_netcache e)"
  by (auto simp: mk_environment_def field_check_def validate_task_panel_def res_simps
      length_card_distinct split: if_splits)

lemma validate_plugin_Inr:
  "validate_plugin_contract c = Inr u \<longleftrightarrow>
     (pl_execution (rc_plugins c) = Replay \<longrightarrow> is_deterministic (rc_llm_provider_config c) \<and>
        (ev_kind (rc_environment c) = TerminalBench \<longrightarrow> ev_host_netcache (rc_environment c)))"
  by (cases "pl_execution (rc_plugins c)"; cases "ev_kind (rc_environment c)")
    (simp_all add: validate_plugin_contract_def)

lemma mk_llm_provider_Inr:
  "mk_llm_provider l = Inr u \<longleftrightarrow> llm_fields_ok l \<and>
     (lp_thinking_budget_tokens l \<noteq> None \<longrightarrow> lp_enable_thinking l = Some True)"
  by (auto simp: mk_llm_provider_def field_check_def validate_provider_contract_def res_simps)

lemma config_ok_iff:
  "config_ok c \<longleftrightarrow> run_fields_ok c \<and> llm_fields_ok (rc_llm_provider_config c) \<and>
     (lp_thinking_budget_tokens (rc_llm_provider_config c) \<noteq> None \<longrightarrow>
        lp_enable_thinking (rc_llm_provider_config c) = Some True) \<and>
     ev_task_names (rc_environment c) \<noteq> [] \<and> distinct (ev_task_names (rc_environment c)) \<and>
     (ev_kind (rc_environment c) = Swe \<or> pl_execution (rc_plugins c) = Replay \<longrightarrow>
        ev_host_netcache (rc_environment c)) \<and>
     (pl_execution (rc_plugins c) = Replay \<longrightarrow> is_deterministic (rc_llm_provider_config c))"
  by (cases "ev_kind (rc_environment c)")
    (auto simp: config_ok_def mk_run_config_def field_check_def res_simps mk_environment_Inr
      validate_plugin_Inr mk_llm_provider_Inr)

lemma with_task_panel_cases:
  assumes "config_ok c"
  shows "(\<exists>c'. with_task_panel names c = Inr c') \<longleftrightarrow> names \<noteq> [] \<and> distinct names"
    and "with_task_panel names c = Inr c' \<Longrightarrow> config_ok c' \<and>
      c' = c\<lparr>rc_environment := (rc_environment c)\<lparr>ev_task_names := names\<rparr>\<rparr>"
proof -
  have kind: "ev_kind (rc_environment c) = Swe \<longrightarrow> ev_host_netcache (rc_environment c)"
    using assms by (simp add: config_ok_iff)
  show "(\<exists>c'. with_task_panel names c = Inr c') \<longleftrightarrow> names \<noteq> [] \<and> distinct names"
    using kind by (auto simp: with_task_panel_def res_simps mk_environment_Inr)
  assume "with_task_panel names c = Inr c'"
  then have "c' = c\<lparr>rc_environment := (rc_environment c)\<lparr>ev_task_names := names\<rparr>\<rparr>"
    "names \<noteq> []" "distinct names"
    by (auto simp: with_task_panel_def res_simps mk_environment_Inr)
  with assms show "config_ok c' \<and> c' = c\<lparr>rc_environment := (rc_environment c)\<lparr>ev_task_names := names\<rparr>\<rparr>"
    by (simp add: config_ok_iff run_fields_ok_def)
qed

text \<open>
  C20. Changing the panel keeps a configuration valid: a valid configuration accepts exactly the
  non-empty panels without duplicates; the result is again valid (the replay contract included,
  although it is not checked again) and differs only in its task names.
\<close>

theorem with_task_panel_valid:
  assumes "config_ok c"
  shows "case with_task_panel names c of
      Inl _ \<Rightarrow> names = [] \<or> \<not> distinct names
    | Inr c' \<Rightarrow> names \<noteq> [] \<and> distinct names \<and> config_ok c' \<and>
        c' = c\<lparr>rc_environment := (rc_environment c)\<lparr>ev_task_names := names\<rparr>\<rparr>"
  using with_task_panel_cases [OF assms, of names]
  by (cases "with_task_panel names c") auto

definition sample_llm :: llm_provider where
  "sample_llm = \<lparr>lp_model_name = ''m'', lp_base_url = ''http://h/v1'', lp_api_key_env = ''KEY'',
     lp_max_context_length = 1000, lp_tokenizer_name = None, lp_temperature = Some 0, lp_top_p = None,
     lp_seed = Some 1, lp_max_tokens = 100, lp_enable_thinking = None, lp_thinking_budget_tokens = None,
     lp_reasoning_effort = None, lp_provider_only = None\<rparr>"

definition sample_config :: run_config where
  "sample_config = \<lparr>rc_config_path = None,
     rc_training_target = \<lparr>tt_module = ''src.policy.core'', tt_extra_patch_paths = [],
        tt_proposer_visible = []\<rparr>,
     rc_environment = \<lparr>ev_kind = Swe, ev_task_names = [''a'', ''b''], ev_host_netcache = True\<rparr>,
     rc_max_steps = 50, rc_agent_timeout_multiplier = 1, rc_max_rollout_concurrency = 10,
     rc_plugins = \<lparr>pl_llm_cache = True, pl_execution = Replay\<rparr>, rc_llm_provider_config = sample_llm\<rparr>"

lemma sample_config_ok: "config_ok sample_config"
  by (simp add: config_ok_iff sample_config_def sample_llm_def run_fields_ok_def llm_fields_ok_def
      opt_all_def is_deterministic_def)

theorem with_task_panel_valid_witness:
  "case with_task_panel [''b''] sample_config of
      Inl _ \<Rightarrow> [''b''] = [] \<or> \<not> distinct [''b'']
    | Inr c' \<Rightarrow> [''b''] \<noteq> [] \<and> distinct [''b''] \<and> config_ok c' \<and>
        c' = sample_config\<lparr>rc_environment := (rc_environment sample_config)\<lparr>ev_task_names := [''b'']\<rparr>\<rparr>"
  by (rule with_task_panel_valid [OF sample_config_ok])

end
