(* ===== verification/Telemetry.thy ===== *)
theory Telemetry
  imports EnvBase Metrics
begin

text \<open>
  \<open>src/rollout/telemetry.py\<close>: the event sink of one rollout, with the completion record of
  \<open>src/llm/backend.py\<close>. The trace file is the list of its rows; wall-clock stamps are left out.
  \<open>sha\<close> is SHA-256 on text, \<open>fr\<close> prints floats, \<open>loads\<close> is \<open>json.loads\<close> (a message on failure).
\<close>

section \<open>Completions\<close>

record tool_call =
  tool_name :: string
  tool_arguments :: string

record usage =
  us_prompt_tokens :: "nat option"
  us_completion_tokens :: "nat option"
  us_reasoning_tokens :: "nat option"
  us_cached_input_tokens :: "nat option"

record completion =
  co_tool_calls :: "tool_call list"
  co_content :: "string option"
  co_finish_reason :: "string option"
  co_usage :: usage
  co_reasoning_content :: "json option"
  co_response :: "(string \<times> json) list"
  co_served_from_cache :: bool

definition opt_json :: "('a \<Rightarrow> json) \<Rightarrow> 'a option \<Rightarrow> json" where
  "opt_json f x = (case x of None \<Rightarrow> JNull | Some v \<Rightarrow> f v)"

definition nat_json :: "nat \<Rightarrow> json" where
  "nat_json n = JInt (int n)"

definition usage_json :: "usage \<Rightarrow> json" where
  "usage_json u = JObj
     [(''prompt_tokens'', opt_json nat_json (us_prompt_tokens u)),
      (''completion_tokens'', opt_json nat_json (us_completion_tokens u)),
      (''reasoning_tokens'', opt_json nat_json (us_reasoning_tokens u)),
      (''cached_input_tokens'', opt_json nat_json (us_cached_input_tokens u))]"

section \<open>The sink\<close>

record telemetry =
  tl_parse_failures :: "(string, nat) dict"
  tl_first_attempt_valid :: nat
  tl_first_attempt_total :: nat
  tl_steps_taken :: nat
  tl_pending_completions :: nat
  tl_live_llm_latencies :: "rat list"
  tl_live_rates :: "rat list"
  tl_seen_request_shas :: "string list"
  tl_rows :: "(string \<times> (string \<times> json) list) list"

definition fresh_telemetry :: telemetry where
  "fresh_telemetry = \<lparr>tl_parse_failures = [], tl_first_attempt_valid = 0, tl_first_attempt_total = 0,
     tl_steps_taken = 0, tl_pending_completions = 0, tl_live_llm_latencies = [], tl_live_rates = [],
     tl_seen_request_shas = [], tl_rows = []\<rparr>"

definition tel_event :: "string \<Rightarrow> (string \<times> json) list \<Rightarrow> telemetry \<Rightarrow> telemetry" where
  "tel_event name kvs t = t\<lparr>tl_rows := tl_rows t @ [(name, kvs)]\<rparr>"

definition conclude_decision :: "bool \<Rightarrow> telemetry \<Rightarrow> telemetry" where
  "conclude_decision valid t =
     (if tl_pending_completions t = 0 then t
      else t\<lparr>tl_first_attempt_total := tl_first_attempt_total t + 1,
             tl_first_attempt_valid :=
               (if valid \<and> tl_pending_completions t = 1 then tl_first_attempt_valid t + 1
                else tl_first_attempt_valid t),
             tl_pending_completions := 0\<rparr>)"

definition POLICY_EVENT_NAMES :: "string list" where
  "POLICY_EVENT_NAMES = [''context_window_retrimmed'', ''action_parse_failed'',
     ''observation_clipped'', ''context_groups_dropped'', ''policy_rule'']"

definition on_policy_event ::
    "string \<Rightarrow> (string \<times> json) list \<Rightarrow> telemetry \<Rightarrow> exc + telemetry" where
  "on_policy_event event kvs t =
     (if event \<notin> set POLICY_EVENT_NAMES
      then Inl (ValueError (''unknown policy event: '' @ event))
      else if event = ''action_parse_failed''
      then (case map_of kvs ''error'' of
              Some (JStr e) \<Rightarrow> Inr (tel_event event kvs
                (t\<lparr>tl_parse_failures := AList.update e
                     ((case map_of (tl_parse_failures t) e of None \<Rightarrow> 0 | Some n \<Rightarrow> n) + 1)
                     (tl_parse_failures t)\<rparr>))
            | Some _ \<Rightarrow> Inl (TypeError ''error'')
            | None \<Rightarrow> Inl (KeyError ''error''))
      else Inr (tel_event event kvs t))"

section \<open>Deduplicated request blobs\<close>

definition blob_sha :: "(string \<Rightarrow> string) \<Rightarrow> (rat \<Rightarrow> string) \<Rightarrow> (string \<times> json) list \<Rightarrow> string" where
  "blob_sha sha fr blob = take 12 (sha (dumps_compact fr (JObj blob)))"

fun pick_keys :: "string list \<Rightarrow> (string \<times> json) list \<Rightarrow> exc + (string \<times> json) list" where
  "pick_keys [] blob = Inr []"
| "pick_keys (k # ks) blob =
     (case map_of blob k of
        None \<Rightarrow> Inl (KeyError k)
      | Some v \<Rightarrow> bind_res (pick_keys ks blob) (\<lambda>rest. Inr ((k, v) # rest)))"

text \<open>The set of seen digests is mutated as blobs are written, also when a later one fails.\<close>

definition dedup_request_blob ::
    "(string \<Rightarrow> string) \<Rightarrow> (rat \<Rightarrow> string) \<Rightarrow> string list \<Rightarrow> (string \<times> json) list \<Rightarrow> string list \<Rightarrow>
       (exc + (string \<times> json) list) \<times> string list" where
  "dedup_request_blob sha fr ref_keys blob seen =
     (let h = blob_sha sha fr blob
      in if h \<in> set seen
         then (bind_res (pick_keys ref_keys blob) (\<lambda>kv. Inr (AList.update ''sha'' (JStr h) kv)), seen)
         else (Inr (AList.update ''sha'' (JStr h) blob), seen @ [h]))"

fun dedup_blobs ::
    "(string \<Rightarrow> string) \<Rightarrow> (rat \<Rightarrow> string) \<Rightarrow> (string list \<times> (string \<times> json) list) list \<Rightarrow>
       string list \<Rightarrow> (exc + (string \<times> json) list list) \<times> string list" where
  "dedup_blobs sha fr [] seen = (Inr [], seen)"
| "dedup_blobs sha fr ((ref_keys, blob) # bs) seen =
     (case dedup_request_blob sha fr ref_keys blob seen of
        (Inl e, seen') \<Rightarrow> (Inl e, seen')
      | (Inr d, seen') \<Rightarrow>
          (case dedup_blobs sha fr bs seen' of
             (Inl e, seen'') \<Rightarrow> (Inl e, seen'')
           | (Inr ds, seen'') \<Rightarrow> (Inr (d # ds), seen'')))"

text \<open>The blobs of one request in the order the trace writes them: the messages, then the tools.\<close>

definition request_blobs ::
    "(string \<times> json) list list \<Rightarrow> json list \<Rightarrow> (string list \<times> (string \<times> json) list) list" where
  "request_blobs messages tools =
     map (Pair [''role'']) messages @ [([], [(''tools'', JArr tools)])]"

fun parsed_calls :: "(string \<Rightarrow> string + json) \<Rightarrow> nat \<Rightarrow> tool_call list \<Rightarrow> json list" where
  "parsed_calls loads i [] = []"
| "parsed_calls loads i (c # cs) =
     JObj ([(''call_index'', nat_json i), (''name'', JStr (tool_name c))] @
       (case loads (if tool_arguments c = [] then ''{}'' else tool_arguments c) of
          Inr v \<Rightarrow> [(''args'', v)]
        | Inl e \<Rightarrow> [(''raw_arguments'', JStr (tool_arguments c)), (''args_error'', JStr e)]))
     # parsed_calls loads (Suc i) cs"

definition completion_with_parsed_calls :: "(string \<Rightarrow> string + json) \<Rightarrow> completion \<Rightarrow> json" where
  "completion_with_parsed_calls loads c = JObj
     [(''content'', opt_json JStr (co_content c)),
      (''finish_reason'', opt_json JStr (co_finish_reason c)),
      (''usage'', usage_json (co_usage c)),
      (''reasoning_content'', opt_json (\<lambda>v. v) (co_reasoning_content c)),
      (''response'', JObj (co_response c)),
      (''served_from_cache'', JBool (co_served_from_cache c)),
      (''calls'', JArr (parsed_calls loads 0 (co_tool_calls c)))]"

text \<open>The slim fields of a completion event, and the digests seen afterwards.\<close>

definition slim_completion_event ::
    "(string \<Rightarrow> string) \<Rightarrow> (rat \<Rightarrow> string) \<Rightarrow> (string \<Rightarrow> string + json) \<Rightarrow> nat \<Rightarrow> nat \<Rightarrow>
       (string \<times> json) list list \<Rightarrow> json list \<Rightarrow> completion \<Rightarrow> rat \<Rightarrow> string list \<Rightarrow>
       (exc + (string \<times> json) list) \<times> string list" where
  "slim_completion_event sha fr loads step_index attempt_index messages tools c latency seen =
     (case dedup_blobs sha fr (request_blobs messages tools) seen of
        (Inl e, seen') \<Rightarrow> (Inl e, seen')
      | (Inr ds, seen') \<Rightarrow>
          (Inr [(''step_index'', nat_json step_index), (''attempt_index'', nat_json attempt_index),
             (''request_messages'', JArr (map JObj (butlast ds))),
             (''request_tools'', JObj (last ds)),
             (''completion'', completion_with_parsed_calls loads c),
             (''llm_latency_sec'', JFloat latency)], seen'))"

definition on_completion_received ::
    "(string \<Rightarrow> string) \<Rightarrow> (rat \<Rightarrow> string) \<Rightarrow> (string \<Rightarrow> string + json) \<Rightarrow>
       (string \<times> json) list list \<Rightarrow> json list \<Rightarrow> completion \<Rightarrow> rat \<Rightarrow> telemetry \<Rightarrow>
       (exc + unit) \<times> telemetry" where
  "on_completion_received sha fr loads messages tools c latency t =
     (let attempt_index = tl_pending_completions t;
          t1 = t\<lparr>tl_pending_completions := attempt_index + 1\<rparr>;
          t2 = (if co_served_from_cache c then t1
                else t1\<lparr>tl_live_llm_latencies := tl_live_llm_latencies t1 @ [latency],
                        tl_live_rates := tl_live_rates t1 @
                          (case us_completion_tokens (co_usage c) of
                             None \<Rightarrow> []
                           | Some k \<Rightarrow> if latency > 0 then [of_nat k / latency] else [])\<rparr>)
      in case slim_completion_event sha fr loads (tl_steps_taken t2 + 1) attempt_index messages tools
                c latency (tl_seen_request_shas t2) of
           (Inl e, seen) \<Rightarrow> (Inl e, t2\<lparr>tl_seen_request_shas := seen\<rparr>)
         | (Inr kvs, seen) \<Rightarrow>
             (Inr (), tel_event ''completion_received'' kvs (t2\<lparr>tl_seen_request_shas := seen\<rparr>)))"

definition on_completion_rejected :: "string \<Rightarrow> telemetry \<Rightarrow> telemetry" where
  "on_completion_rejected err t =
     (let attempt_index = tl_pending_completions t
      in tel_event ''completion_rejected''
           [(''step_index'', nat_json (tl_steps_taken t + 1)),
            (''attempt_index'', nat_json attempt_index), (''error'', JStr err)]
           (t\<lparr>tl_pending_completions := attempt_index + 1\<rparr>))"

definition on_no_valid_action_step :: "nat \<Rightarrow> telemetry \<Rightarrow> telemetry" where
  "on_no_valid_action_step step_index t =
     tel_event ''no_valid_action_step'' [(''step_index'', nat_json step_index)]
       ((conclude_decision False t)\<lparr>tl_steps_taken := step_index\<rparr>)"

definition raw_output_json :: "raw_output \<Rightarrow> json" where
  "raw_output_json o' = JObj
     [(''instruction'', JStr (ro_instruction o')), (''working_dir'', opt_json JStr (ro_working_dir o')),
      (''exit_code'', opt_json JInt (ro_exit_code o')), (''stdout'', JStr (ro_stdout o')),
      (''stderr'', JStr (ro_stderr o'))]"

definition verdict_json :: "verify_verdict \<Rightarrow> json" where
  "verdict_json v = JObj
     [(''completed'', JBool (vv_completed v)), (''passed'', opt_json JBool (vv_passed v)),
      (''error'', opt_json JStr (vv_error v))]"

definition step_result_json :: "step_result \<Rightarrow> json" where
  "step_result_json r = JObj
     [(''raw_env_output'', raw_output_json (sp_raw r)), (''reward'', JFloat (sp_reward r)),
      (''terminated'', JBool (sp_terminated r)), (''truncated'', JBool (sp_truncated r)),
      (''info'', JObj (sp_info r)), (''metrics'', JObj (map (\<lambda>(k, v). (k, JFloat v)) (sp_metrics r))),
      (''verdict'', opt_json verdict_json (sp_verdict r))]"

definition on_step_completed :: "nat \<Rightarrow> nat \<Rightarrow> step_result \<Rightarrow> bool \<Rightarrow> telemetry \<Rightarrow> telemetry" where
  "on_step_completed step_index call_index r terminal t =
     tel_event ''step_completed''
       [(''step_index'', nat_json step_index), (''call_index'', nat_json call_index),
        (''step_result'', step_result_json r), (''terminal'', JBool terminal)]
       ((if call_index = 0 then conclude_decision True t else t)\<lparr>tl_steps_taken := step_index\<rparr>)"

section \<open>The metrics fold\<close>

definition LIVE_LLM_CALLS_KEY :: string where
  "LIVE_LLM_CALLS_KEY = ''live_llm_calls''"

definition SUM_LIVE_LLM_LATENCY_SEC_KEY :: string where
  "SUM_LIVE_LLM_LATENCY_SEC_KEY = ''sum_live_llm_latency_sec''"

definition MEDIAN_LIVE_LLM_LATENCY_SEC_KEY :: string where
  "MEDIAN_LIVE_LLM_LATENCY_SEC_KEY = ''median_live_llm_latency_sec''"

definition P25_LIVE_OUTPUT_TOKENS_PER_SEC_KEY :: string where
  "P25_LIVE_OUTPUT_TOKENS_PER_SEC_KEY = ''p25_live_output_tokens_per_sec''"

text \<open>Python's \<open>round(x, 4)\<close> (ties to even), \<open>statistics.median\<close> and the first inclusive quartile.\<close>

definition round4 :: "rat \<Rightarrow> rat" where
  "round4 x = of_int (round_even (x * 10000)) / 10000"

definition median_of :: "rat list \<Rightarrow> rat" where
  "median_of xs =
     (let s = sort xs; n = length s
      in if odd n then s ! (n div 2) else (s ! (n div 2 - 1) + s ! (n div 2)) / 2)"

definition first_quartile :: "rat list \<Rightarrow> rat" where
  "first_quartile xs =
     (let s = sort xs; m = length s - 1; j = m div 4; d = m mod 4
      in (s ! j * of_nat (4 - d) + s ! (j + 1) * of_nat d) / 4)"

definition telemetry_metrics :: "telemetry \<Rightarrow> metrics" where
  "telemetry_metrics t =
     (if tl_first_attempt_total t \<noteq> 0
      then [(FIRST_ATTEMPT_VALID_KEY, of_nat (tl_first_attempt_valid t)),
            (FIRST_ATTEMPT_TOTAL_KEY, of_nat (tl_first_attempt_total t))] else []) @
     (let ls = tl_live_llm_latencies t
      in if ls \<noteq> []
         then [(LIVE_LLM_CALLS_KEY, of_nat (length ls)),
               (SUM_LIVE_LLM_LATENCY_SEC_KEY, round4 (sum_list ls)),
               (MEDIAN_LIVE_LLM_LATENCY_SEC_KEY, round4 (median_of ls))] else []) @
     (if length (tl_live_rates t) \<ge> 3
      then [(P25_LIVE_OUTPUT_TOKENS_PER_SEC_KEY, round4 (first_quartile (tl_live_rates t)))] else []) @
     map (\<lambda>(e, n). (''parse_failures.'' @ e, of_nat n)) (tl_parse_failures t)"

section \<open>The trace loses nothing\<close>

text \<open>A reader of the trace: a digest seen for the first time defines its blob, later ones refer to it.\<close>

definition row_sha :: "(string \<times> json) list \<Rightarrow> string option" where
  "row_sha row = (case map_of row ''sha'' of Some (JStr h) \<Rightarrow> Some h | _ \<Rightarrow> None)"

fun restore_blobs ::
    "(string \<times> (string \<times> json) list) list \<Rightarrow> (string \<times> json) list list \<Rightarrow> (string \<times> json) list list" where
  "restore_blobs tab [] = []"
| "restore_blobs tab (row # rows) =
     (case row_sha row of
        None \<Rightarrow> row # restore_blobs tab rows
      | Some h \<Rightarrow>
          (case map_of tab h of
             Some b \<Rightarrow> b # restore_blobs tab rows
           | None \<Rightarrow>
               (let b = filter (\<lambda>(k, _). k \<noteq> ''sha'') row
                in b # restore_blobs ((h, b) # tab) rows)))"

lemma update_fresh: "k \<notin> fst ` set d \<Longrightarrow> AList.update k v d = d @ [(k, v)]"
  by (induction d) auto

lemma row_sha_update [simp]: "row_sha (AList.update ''sha'' (JStr h) b) = Some h"
  by (simp add: row_sha_def dict_simps)

lemma filter_no_sha: "''sha'' \<notin> fst ` set b \<Longrightarrow> filter (\<lambda>(k, _). k \<noteq> ''sha'') b = b"
  by (rule filter_True) force

lemma restore_dedup:
  assumes "dedup_blobs sha fr bs seen = (Inr rows, seen')"
    and "\<forall>(ks, b) \<in> set bs. ''sha'' \<notin> fst ` set b"
    and "set seen = fst ` set tab"
    and "\<forall>(h, b) \<in> set tab. h = blob_sha sha fr b \<and> b \<in> B" and "snd ` set bs \<subseteq> B"
    and "\<And>b b'. b \<in> B \<Longrightarrow> b' \<in> B \<Longrightarrow> blob_sha sha fr b = blob_sha sha fr b' \<Longrightarrow>
           canon (JObj b) = canon (JObj b')"
  shows "map (\<lambda>b. canon (JObj b)) (restore_blobs tab rows) = map (\<lambda>(_, b). canon (JObj b)) bs"
  using assms(1-5)
proof (induction bs arbitrary: rows seen seen' tab)
  case Nil
  then show ?case by simp
next
  case (Cons kb bs)
  obtain ks blob where kb: "kb = (ks, blob)" by fastforce
  let ?h = "blob_sha sha fr blob"
  from Cons.prems(2,5) kb have ns: "''sha'' \<notin> fst ` set blob" and B: "blob \<in> B" by auto
  obtain d seen1 rows1 where d: "dedup_request_blob sha fr ks blob seen = (Inr d, seen1)"
      and rest: "dedup_blobs sha fr bs seen1 = (Inr rows1, seen')" and rows: "rows = d # rows1"
    using Cons.prems(1) kb by (auto split: prod.splits sum.splits)
  show ?case
  proof (cases "?h \<in> set seen")
    case True
    then have seen1: "seen1 = seen" and rs: "row_sha d = Some ?h"
      using d by (auto simp: dedup_request_blob_def Let_def res_simps)
    from True Cons.prems(3) obtain b0 where b0: "map_of tab ?h = Some b0" "(?h, b0) \<in> set tab"
      by (metis map_of_SomeD map_of_eq_None_iff not_None_eq)
    then have "canon (JObj b0) = canon (JObj blob)"
      using Cons.prems(4) B by (intro assms(6)) auto
    moreover have "restore_blobs tab rows = b0 # restore_blobs tab rows1"
      using rows rs b0 by simp
    ultimately show ?thesis
      using Cons.IH [of seen rows1 seen' tab] rest seen1 Cons.prems kb by (simp del: canon.simps)
  next
    case False
    then have seen1: "seen1 = seen @ [?h]" and dd: "d = AList.update ''sha'' (JStr ?h) blob"
      using d by (auto simp: dedup_request_blob_def Let_def)
    have none: "map_of tab ?h = None" using False Cons.prems(3) by (simp add: map_of_eq_None_iff)
    have "filter (\<lambda>(k, _). k \<noteq> ''sha'') d = blob"
      using ns by (simp add: dd update_fresh filter_no_sha)
    then have "restore_blobs tab rows = blob # restore_blobs ((?h, blob) # tab) rows1"
      using rows none by (simp add: dd Let_def)
    moreover have "map (\<lambda>b. canon (JObj b)) (restore_blobs ((?h, blob) # tab) rows1) =
        map (\<lambda>(_, b). canon (JObj b)) bs"
      by (rule Cons.IH [OF rest]) (use Cons.prems seen1 kb B in auto)
    ultimately show ?thesis using kb by (simp del: canon.simps)
  qed
qed

lemma request_log_lossless:
  assumes "dedup_blobs sha fr bs [] = (Inr rows, seen)" and "float_repr_ok fr"
    and "\<forall>(ks, b) \<in> set bs. ''sha'' \<notin> fst ` set b"
    and "\<forall>b \<in> snd ` set bs. \<forall>b' \<in> snd ` set bs. blob_sha sha fr b = blob_sha sha fr b' \<longrightarrow>
           dumps_compact fr (JObj b) = dumps_compact fr (JObj b')"
  shows "map (\<lambda>b. canon (JObj b)) (restore_blobs [] rows) = map (\<lambda>(_, b). canon (JObj b)) bs"
proof (rule restore_dedup [OF assms(1,3), where B = "snd ` set bs"])
  fix b b' assume "b \<in> snd ` set bs" "b' \<in> snd ` set bs" "blob_sha sha fr b = blob_sha sha fr b'"
  with assms(4) have "dumps_compact fr (JObj b) = dumps_compact fr (JObj b')" by blast
  then show "canon (JObj b) = canon (JObj b')" by (rule dumps_compact_canon [OF assms(2)])
qed auto

section \<open>The counters\<close>

definition tel_ok :: "telemetry \<Rightarrow> bool" where
  "tel_ok t \<longleftrightarrow> tl_first_attempt_valid t \<le> tl_first_attempt_total t"

lemma tel_ok_ops:
  "tel_ok fresh_telemetry"
  "tel_ok t \<Longrightarrow> tel_ok (conclude_decision v t)"
  "tel_ok t \<Longrightarrow> tel_ok (on_no_valid_action_step i t)"
  "tel_ok t \<Longrightarrow> tel_ok (on_step_completed i j r b t)"
  "tel_ok t \<Longrightarrow> tel_ok (on_completion_rejected e t)"
  "tel_ok t \<Longrightarrow> on_policy_event n kvs t = Inr t' \<Longrightarrow> tel_ok t'"
  "tel_ok t \<Longrightarrow> tel_ok (snd (on_completion_received sha fr loads ms ts c l t))"
  by (auto simp: tel_ok_def fresh_telemetry_def conclude_decision_def on_no_valid_action_step_def
      on_step_completed_def on_completion_rejected_def on_policy_event_def tel_event_def
      on_completion_received_def Let_def split: if_splits option.splits json.splits sum.splits prod.splits)

lemma metrics_published_together:
  "map_of (telemetry_metrics t) FIRST_ATTEMPT_VALID_KEY \<noteq> None \<longleftrightarrow>
   map_of (telemetry_metrics t) FIRST_ATTEMPT_TOTAL_KEY \<noteq> None"
proof -
  have "k \<in> fst ` set (telemetry_metrics t) \<longleftrightarrow> tl_first_attempt_total t \<noteq> 0"
    if "k = FIRST_ATTEMPT_VALID_KEY \<or> k = FIRST_ATTEMPT_TOTAL_KEY" for k
    using that
    by (cases "tl_first_attempt_total t = 0") (auto simp: telemetry_metrics_def Let_def image_Un FIRST_ATTEMPT_VALID_KEY_def
        FIRST_ATTEMPT_TOTAL_KEY_def LIVE_LLM_CALLS_KEY_def SUM_LIVE_LLM_LATENCY_SEC_KEY_def
        MEDIAN_LIVE_LLM_LATENCY_SEC_KEY_def P25_LIVE_OUTPUT_TOKENS_PER_SEC_KEY_def)
  then show ?thesis by (simp add: map_of_eq_None_iff)
qed

end
