(* ===== verification/Certify.thy ===== *)
theory Certify
  imports Config Telemetry "HOL-Library.Multiset"
begin

text \<open>
  What makes two observations the same: the canonical forms of \<open>src/determinism.py\<close> and the digests
  of \<open>src/rollout/certification.py\<close> built on them (audit hash of a transition, recorded action
  chain, measurement identity), with the theorems that equal digests mean equal things. The
  regular expressions of the scrubber are a parameter, a table of rewriting functions; the pipeline
  around them is modelled.
\<close>

section \<open>Lines\<close>

fun split_nl :: "string \<Rightarrow> string list" where
  "split_nl [] = [[]]"
| "split_nl (c # cs) =
     (if c = nl then [] # split_nl cs
      else case split_nl cs of l # ls \<Rightarrow> (c # l) # ls | [] \<Rightarrow> [[c]])"

definition join_nl :: "string list \<Rightarrow> string" where
  "join_nl ls = join_str [nl] ls"

definition rstrip_ws :: "string \<Rightarrow> string" where
  "rstrip_ws s = rev (dropWhile (\<lambda>c. c \<in> set whitespace) (rev s))"

text \<open>\<open>text.replace("\r\n", "\n").replace("\r", "\n")\<close>.\<close>

fun unify_newlines :: "string \<Rightarrow> string" where
  "unify_newlines [] = []"
| "unify_newlines [c] = [if c = CHR 0x0D then nl else c]"
| "unify_newlines (c # d # cs) =
     (if c = CHR 0x0D then (if d = nl then nl # unify_newlines cs else nl # unify_newlines (d # cs))
      else c # unify_newlines (d # cs))"

lemma split_nl_nonempty [simp]: "split_nl s \<noteq> []"
  by (induction s) (auto split: list.splits)

lemma split_nl_no_nl: "l \<in> set (split_nl s) \<Longrightarrow> nl \<notin> set l"
proof (induction s arbitrary: l)
  case (Cons c cs)
  then show ?case by (cases "split_nl cs") (auto split: if_splits)
qed simp

lemma join_nl_simps [simp]:
  "join_nl [x] = x" "ls \<noteq> [] \<Longrightarrow> join_nl (x # ls) = x @ nl # join_nl ls"
  by (simp_all add: join_nl_def) (cases ls; simp)

lemma join_split_nl: "join_nl (split_nl s) = s"
proof (induction s)
  case (Cons c cs)
  obtain l ls where s: "split_nl cs = l # ls" by (cases "split_nl cs") auto
  with Cons show ?case by (cases "ls = []") auto
qed simp

lemma split_append: "nl \<notin> set a \<Longrightarrow> split_nl (a @ nl # b) = a # split_nl b"
proof (induction a)
  case (Cons x a)
  then show ?case by auto
qed simp

lemma split_no_nl: "nl \<notin> set a \<Longrightarrow> split_nl a = [a]"
  by (induction a) auto

lemma split_join_nl:
  "ls \<noteq> [] \<Longrightarrow> (\<And>l. l \<in> set ls \<Longrightarrow> nl \<notin> set l) \<Longrightarrow> split_nl (join_nl ls) = ls"
proof (induction ls)
  case (Cons x ls)
  then show ?case by (cases "ls = []") (simp_all add: split_no_nl split_append)
qed simp

lemma rstrip_ws_subset: "set (rstrip_ws s) \<subseteq> set s"
  using set_dropWhileD by (fastforce simp: rstrip_ws_def)

section \<open>Scrubbing\<close>

record scrub_rules =
  sc_pid_producing :: "string \<Rightarrow> bool"
  sc_bare_pids :: "string \<Rightarrow> string"
  sc_residual :: "(string \<Rightarrow> string) list"
  sc_line :: "(string \<Rightarrow> string) list"
  sc_dropped :: "(string \<Rightarrow> bool) list"

definition is_alpha :: "char \<Rightarrow> bool" where
  "is_alpha c \<longleftrightarrow> c \<in> set ''abcdefghijklmnopqrstuvwxyzABCDEFGHIJKLMNOPQRSTUVWXYZ''"

definition header_char :: "char \<Rightarrow> bool" where
  "header_char c \<longleftrightarrow> is_alpha c \<or> c \<in> set ''0123456789-''"

text \<open>\<open>^([A-Za-z][A-Za-z0-9-]*):[ \t]*(.*)$\<close> on a line without its trailing blanks.\<close>

definition header_match :: "string \<Rightarrow> (string \<times> string) option" where
  "header_match line =
     (let s = rstrip_ws line; name = takeWhile header_char s; rest = dropWhile header_char s
      in if name \<noteq> [] \<and> is_alpha (hd name) \<and> rest \<noteq> [] \<and> hd rest = CHR '':'' \<and> nl \<notin> set rest
         then Some (name, dropWhile (\<lambda>c. c = CHR '' '' \<or> c = CHR 0x09) (tl rest)) else None)"

definition lower_char :: "char \<Rightarrow> char" where
  "lower_char c = (if 65 \<le> (of_char c :: nat) \<and> (of_char c :: nat) \<le> 90 then char_of (of_char c + 32 :: nat) else c)"

definition canonical_header :: "(string \<times> string) option list \<Rightarrow> nat \<Rightarrow> string \<Rightarrow> string" where
  "canonical_header ms i line =
     (case ms ! i of
        None \<Rightarrow> line
      | Some (name, v) \<Rightarrow>
          (if CHR ''-'' \<in> set name \<or> (0 < i \<and> ms ! (i - 1) \<noteq> None) \<or>
              (i + 1 < length ms \<and> ms ! (i + 1) \<noteq> None)
           then map lower_char name @ '': '' @ v else line))"

definition canonicalize_structural_headers :: "string list \<Rightarrow> string list" where
  "canonicalize_structural_headers ls =
     (let ms = map header_match ls
      in map (\<lambda>(i, line). canonical_header ms i line) (enumerate 0 ls))"

definition scrub_nondeterminism :: "scrub_rules \<Rightarrow> string option \<Rightarrow> string \<Rightarrow> string" where
  "scrub_nondeterminism rules command text =
     (let t1 = (case command of
                  Some c \<Rightarrow> if sc_pid_producing rules c then sc_bare_pids rules text else text
                | None \<Rightarrow> text);
          t2 = fold (\<lambda>f t. f t) (sc_residual rules) t1;
          ls = canonicalize_structural_headers (split_nl (unify_newlines t2));
          ns = map (\<lambda>l. fold (\<lambda>f t. f t) (sc_line rules) l) ls
      in join_nl (filter (\<lambda>l. \<not> (\<exists>p \<in> set (sc_dropped rules). p l)) ns))"

definition audit_lines :: "scrub_rules \<Rightarrow> string option \<Rightarrow> string \<Rightarrow> string list" where
  "audit_lines rules command text = map rstrip_ws (split_nl (scrub_nondeterminism rules command text))"

definition drift_audit_canonical :: "scrub_rules \<Rightarrow> string option \<Rightarrow> string \<Rightarrow> string" where
  "drift_audit_canonical rules command text = join_nl (sort (audit_lines rules command text))"

lemma audit_lines_plain:
  "audit_lines rules c t \<noteq> []" "l \<in> set (audit_lines rules c t) \<Longrightarrow> nl \<notin> set l"
  using split_nl_no_nl rstrip_ws_subset by (fastforce simp: audit_lines_def)+

lemma audit_canonical_iff:
  "drift_audit_canonical rules c t = drift_audit_canonical rules c' t' \<longleftrightarrow>
     mset (audit_lines rules c t) = mset (audit_lines rules c' t')"
proof
  let ?s = "\<lambda>c t. sort (audit_lines rules c t)"
  assume eq: "drift_audit_canonical rules c t = drift_audit_canonical rules c' t'"
  have "split_nl (join_nl (?s c t)) = ?s c t" for c t
  proof (rule split_join_nl)
    show "?s c t \<noteq> []" using audit_lines_plain(1) [of rules c t] by (metis set_empty set_sort)
    show "l \<in> set (?s c t) \<Longrightarrow> nl \<notin> set l" for l using audit_lines_plain(2) by simp
  qed
  with eq have "?s c t = ?s c' t'" unfolding drift_audit_canonical_def by metis
  then show "mset (audit_lines rules c t) = mset (audit_lines rules c' t')" by (metis mset_sort)
next
  assume "mset (audit_lines rules c t) = mset (audit_lines rules c' t')"
  then have "sort (audit_lines rules c t) = sort (audit_lines rules c' t')"
    by (metis mset_sort properties_for_sort sorted_sort)
  then show "drift_audit_canonical rules c t = drift_audit_canonical rules c' t'"
    by (simp add: drift_audit_canonical_def)
qed

section \<open>The audit identity of a transition\<close>

definition action_payload :: "env_action \<Rightarrow> json" where
  "action_payload action =
     (case action of
        RunAct a \<Rightarrow> JObj [(''kind'', JStr ''run''), (''command'', JStr (ra_command a)),
          (''cwd'', opt_json JStr (ra_cwd a)), (''timeout_sec'', opt_json JFloat (ra_timeout_sec a))]
      | VerifyAct \<Rightarrow> JObj [(''kind'', JStr ''verify'')])"

definition serialize_step_result :: "(rat \<Rightarrow> string) \<Rightarrow> step_result \<Rightarrow> string" where
  "serialize_step_result fr r = dumps_compact fr (step_result_json r)"

definition audit_form :: "scrub_rules \<Rightarrow> string option \<Rightarrow> step_result \<Rightarrow> step_result" where
  "audit_form rules command r =
     r\<lparr>sp_raw := (sp_raw r)\<lparr>ro_stdout := drift_audit_canonical rules command (ro_stdout (sp_raw r)),
                           ro_stderr := drift_audit_canonical rules command (ro_stderr (sp_raw r))\<rparr>\<rparr>"

definition scrubbed_hash ::
    "(string \<Rightarrow> string) \<Rightarrow> (rat \<Rightarrow> string) \<Rightarrow> scrub_rules \<Rightarrow> string option \<Rightarrow> step_result \<Rightarrow> string" where
  "scrubbed_hash sha fr rules command r = sha (serialize_step_result fr (audit_form rules command r))"

definition verdict_summary :: "step_result \<Rightarrow> json" where
  "verdict_summary r = JObj
     [(''passed'', case sp_verdict r of None \<Rightarrow> JNull | Some v \<Rightarrow> opt_json JBool (vv_passed v)),
      (''reward'', JFloat (sp_reward r))]"

text \<open>What the digest of a transition is about: everything but the order and the trailing blanks
  of the output lines, and the order of the keys.\<close>

definition same_output :: "scrub_rules \<Rightarrow> string option \<Rightarrow> raw_output \<Rightarrow> string option \<Rightarrow> raw_output \<Rightarrow> bool" where
  "same_output rules c o1 c' o2 \<longleftrightarrow> ro_instruction o1 = ro_instruction o2 \<and>
     ro_working_dir o1 = ro_working_dir o2 \<and> ro_exit_code o1 = ro_exit_code o2 \<and>
     mset (audit_lines rules c (ro_stdout o1)) = mset (audit_lines rules c' (ro_stdout o2)) \<and>
     mset (audit_lines rules c (ro_stderr o1)) = mset (audit_lines rules c' (ro_stderr o2))"

definition same_observation ::
    "scrub_rules \<Rightarrow> string option \<Rightarrow> step_result \<Rightarrow> string option \<Rightarrow> step_result \<Rightarrow> bool" where
  "same_observation rules c r c' r' \<longleftrightarrow> same_output rules c (sp_raw r) c' (sp_raw r') \<and>
     sp_reward r = sp_reward r' \<and> sp_terminated r = sp_terminated r' \<and>
     sp_truncated r = sp_truncated r' \<and> sp_verdict r = sp_verdict r' \<and>
     canon (JObj (sp_info r)) = canon (JObj (sp_info r')) \<and>
     canon (JObj (map (\<lambda>(k, v). (k, JFloat v)) (sp_metrics r))) =
     canon (JObj (map (\<lambda>(k, v). (k, JFloat v)) (sp_metrics r')))"

lemma opt_json_canon:
  "canon (opt_json JStr x) = canon (opt_json JStr y) \<longleftrightarrow> x = y"
  "canon (opt_json JInt i) = canon (opt_json JInt j) \<longleftrightarrow> i = j"
  "canon (opt_json JFloat p) = canon (opt_json JFloat q) \<longleftrightarrow> p = q"
  "canon (opt_json JBool b) = canon (opt_json JBool b') \<longleftrightarrow> b = b'"
  by (auto simp: opt_json_def split: option.splits)

lemma verdict_json_canon:
  "canon (opt_json verdict_json v) = canon (opt_json verdict_json w) \<longleftrightarrow> v = w"
proof -
  have "canon (verdict_json a) = canon (verdict_json b) \<longleftrightarrow> a = b" for a b
    unfolding verdict_json_def
    by (subst canon_same_keys) (cases a; cases b; auto simp: opt_json_canon)+
  moreover have "canon (verdict_json a) \<noteq> JNull" for a by (simp add: verdict_json_def)
  ultimately show ?thesis by (cases v; cases w) (simp_all add: opt_json_def, metis)
qed

lemma raw_output_json_canon: "canon (raw_output_json o1) = canon (raw_output_json o2) \<longleftrightarrow> o1 = o2"
  unfolding raw_output_json_def
  by (subst canon_same_keys) (cases o1; cases o2; auto simp: opt_json_canon)+

lemma step_result_json_canon:
  "canon (step_result_json r) = canon (step_result_json r') \<longleftrightarrow>
     sp_raw r = sp_raw r' \<and> sp_reward r = sp_reward r' \<and> sp_terminated r = sp_terminated r' \<and>
     sp_truncated r = sp_truncated r' \<and> sp_verdict r = sp_verdict r' \<and>
     canon (JObj (sp_info r)) = canon (JObj (sp_info r')) \<and>
     canon (JObj (map (\<lambda>(k, v). (k, JFloat v)) (sp_metrics r))) =
     canon (JObj (map (\<lambda>(k, v). (k, JFloat v)) (sp_metrics r')))"
  unfolding step_result_json_def
  by (subst canon_same_keys)
    (simp_all add: raw_output_json_canon verdict_json_canon conj_ac del: canon.simps(2))

lemma serialize_iff:
  assumes "float_repr_ok fr"
  shows "serialize_step_result fr r = serialize_step_result fr r' \<longleftrightarrow>
    canon (step_result_json r) = canon (step_result_json r')"
proof
  assume "serialize_step_result fr r = serialize_step_result fr r'"
  then show "canon (step_result_json r) = canon (step_result_json r')"
    unfolding serialize_step_result_def by (rule dumps_compact_canon [OF assms])
qed (simp only: serialize_step_result_def dumps_compact_def)

lemma audit_form_same:
  "canon (step_result_json (audit_form rules c r)) = canon (step_result_json (audit_form rules c' r'))
     \<longleftrightarrow> same_observation rules c r c' r'"
proof -
  have "(sp_raw (audit_form rules c r) = sp_raw (audit_form rules c' r')) \<longleftrightarrow>
      same_output rules c (sp_raw r) c' (sp_raw r')"
    by (cases "sp_raw r"; cases "sp_raw r'")
      (auto simp: audit_form_def same_output_def audit_canonical_iff)
  then show ?thesis
    unfolding step_result_json_canon same_observation_def by (simp add: audit_form_def)
qed

lemma scrubbed_hash_iff:
  assumes "float_repr_ok fr"
    and "\<And>a b. a \<in> T \<Longrightarrow> b \<in> T \<Longrightarrow> sha a = sha b \<Longrightarrow> a = b"
    and "serialize_step_result fr (audit_form rules c r) \<in> T"
    and "serialize_step_result fr (audit_form rules c' r') \<in> T"
  shows "scrubbed_hash sha fr rules c r = scrubbed_hash sha fr rules c' r' \<longleftrightarrow>
    same_observation rules c r c' r'"
  using assms(2) [OF assms(3,4)] serialize_iff [OF assms(1)] audit_form_same
  unfolding scrubbed_hash_def by metis

text \<open>
  C16. The audit hash is exact: where SHA-256 does not collide on the two serialized transitions,
  they have the same hash exactly when they are the same observation, that is equal in every field
  (info and metrics up to the order of keys), the output lines compared as multisets after
  scrubbing and without trailing blanks.
\<close>

theorem audit_hash_exact:
  assumes "float_repr_ok fr"
    and "\<And>a b. a \<in> T \<Longrightarrow> b \<in> T \<Longrightarrow> sha a = sha b \<Longrightarrow> a = b"
    and "serialize_step_result fr (audit_form rules c r) \<in> T"
    and "serialize_step_result fr (audit_form rules c' r') \<in> T"
  shows "scrubbed_hash sha fr rules c r = scrubbed_hash sha fr rules c' r' \<longleftrightarrow>
    same_observation rules c r c' r'"
  by (rule scrubbed_hash_iff [where T = T]) (rule assms; assumption?)+

definition plain_rules :: scrub_rules where
  "plain_rules = \<lparr>sc_pid_producing = (\<lambda>_. False), sc_bare_pids = id, sc_residual = [], sc_line = [],
     sc_dropped = []\<rparr>"

text \<open>Two interleavings of the same lines have one hash.\<close>

theorem audit_hash_exact_witness:
  "scrubbed_hash id sample_repr plain_rules None
     (plain_step (empty_output\<lparr>ro_stdout := ''x'' @ [nl] @ ''y ''\<rparr>)) =
   scrubbed_hash id sample_repr plain_rules None
     (plain_step (empty_output\<lparr>ro_stdout := ''y'' @ [nl] @ ''x''\<rparr>))"
proof -
  have "audit_lines plain_rules None (''x'' @ [nl] @ ''y '') = [''x'', ''y'']"
    "audit_lines plain_rules None (''y'' @ [nl] @ ''x'') = [''y'', ''x'']"
    by (simp_all add: audit_lines_def scrub_nondeterminism_def plain_rules_def
        canonicalize_structural_headers_def canonical_header_def header_match_def header_char_def
        is_alpha_def rstrip_ws_def whitespace_def line_breaks_def nl_def enumerate_eq_zip Let_def)
  then have "same_observation plain_rules None (plain_step (empty_output\<lparr>ro_stdout := ''x'' @ [nl] @ ''y ''\<rparr>))
      None (plain_step (empty_output\<lparr>ro_stdout := ''y'' @ [nl] @ ''x''\<rparr>))"
    by (simp add: same_observation_def same_output_def plain_step_def empty_output_def)
  then show ?thesis
    by (subst audit_hash_exact [where T = UNIV]) (simp_all add: sample_repr_ok)
qed

section \<open>The recorded action chain\<close>

record chain_step =
  cs_env_action :: env_action
  cs_step_result :: step_result
  cs_timed_out :: bool

definition chain_row ::
    "(string \<Rightarrow> string) \<Rightarrow> (rat \<Rightarrow> string) \<Rightarrow> scrub_rules \<Rightarrow> chain_step \<Rightarrow> json" where
  "chain_row sha fr rules s =
     (case cs_env_action s of
        RunAct a \<Rightarrow> JObj [(''action'', action_payload (RunAct a)),
          (''audit_hash'', JStr (scrubbed_hash sha fr rules (Some (ra_command a)) (cs_step_result s))),
          (''timed_out'', JBool (cs_timed_out s))]
      | VerifyAct \<Rightarrow> JObj [(''action'', action_payload VerifyAct),
          (''verdict'', verdict_summary (cs_step_result s)), (''timed_out'', JBool (cs_timed_out s))])"

definition write_chain ::
    "(string \<Rightarrow> string) \<Rightarrow> (rat \<Rightarrow> string) \<Rightarrow> scrub_rules \<Rightarrow> chain_step list \<Rightarrow> string" where
  "write_chain sha fr rules steps =
     concat (map (\<lambda>s. dumps_compact fr (chain_row sha fr rules s) @ [nl]) steps)"

lemma esc_char_no_nl: "nl \<notin> set (esc_char c)"
proof -
  have hex: "hex_digit n \<noteq> CHR 0x0A" if "n < 16" for n
  proof -
    from that have "hex_digit n \<in> set ''0123456789abcdef''" unfolding hex_digit_def by (intro nth_mem) simp
    then show ?thesis by auto
  qed
  have "hex_digit (of_char c div 16) \<noteq> CHR 0x0A" "hex_digit (of_char c mod 16) \<noteq> CHR 0x0A"
    by (rule hex, simp add: less_mult_imp_div_less) (rule hex, simp)
  note h = this this [symmetric]
  have "\<not> printable (CHR 0x0A)" by (simp add: printable_def)
  then have "c = CHR 0x0A \<Longrightarrow> \<not> printable c" by blast
  then show ?thesis
    unfolding esc_char_def nl_def by (cases "printable c") (auto simp only: h list.set char.inject
        insert_iff empty_iff if_False if_True simp_thms split: if_splits)
qed

lemma quoted_no_nl: "nl \<notin> set (quoted s)"
  using esc_char_no_nl by (simp add: quoted_def) (simp add: nl_def)

lemma dumps_no_nl:
  assumes "float_repr_ok fr"
  shows "nl \<notin> set (dumps fr v)"
proof (induction v)
  case (JInt i)
  have "nl \<notin> set ''0123456789-''" by (simp add: nl_def)
  with int_str_chars have "nl \<notin> set (int_str i)" by blast
  then show ?case by simp
next
  case (JFloat x)
  then have "list_all num_char (fr x)" using assms by (simp add: float_repr_ok_def)
  moreover have "\<not> num_char nl" by (simp add: num_char_def nl_def)
  ultimately have "nl \<notin> set (fr x)" unfolding list_all_iff by blast
  then show ?case by simp
next
  case (JArr xs)
  have "nl \<notin> set (dumps_items fr ys)" if "set ys \<subseteq> set xs" for ys
    using that
  proof (induction ys)
    case (Cons y ys)
    then have "nl \<notin> set (dumps fr y)" using JArr by simp
    with Cons show ?case by (simp add: dumps_items_Cons) (simp add: nl_def)
  qed simp
  then show ?case by (simp add: nl_def)
next
  case (JObj ms)
  have "nl \<notin> set (dumps_members fr ns)" if "set ns \<subseteq> set ms" for ns
    using that
  proof (induction ns)
    case (Cons n ns)
    then have "nl \<notin> set (dumps fr (snd n))" using JObj [of n "snd n"] by (cases n) auto
    with Cons quoted_no_nl [of "fst n"] show ?case by (simp add: dumps_members_Cons) (simp add: nl_def)
  qed simp
  then show ?case by (simp add: nl_def)
qed (simp_all add: quoted_no_nl, simp_all add: nl_def)

text \<open>The text of a chain determines its rows.\<close>

lemma lines_inj:
  assumes "\<And>r. r \<in> set rs \<union> set qs \<Longrightarrow> nl \<notin> set r"
    and "concat (map (\<lambda>r. r @ [nl]) rs) = concat (map (\<lambda>r. r @ [nl]) qs)"
  shows "rs = qs"
proof -
  have split: "split_nl (concat (map (\<lambda>r. r @ [nl]) xs)) = xs @ [[]]"
    if "\<And>r. r \<in> set xs \<Longrightarrow> nl \<notin> set r" for xs
    using that by (induction xs) (auto simp: split_append)
  have "rs @ [[]] = split_nl (concat (map (\<lambda>r. r @ [nl]) rs))"
    by (rule split [symmetric]) (use assms(1) in blast)
  also have "\<dots> = split_nl (concat (map (\<lambda>r. r @ [nl]) qs))" by (simp only: assms(2))
  also have "\<dots> = qs @ [[]]" by (rule split) (use assms(1) in blast)
  finally show ?thesis by simp
qed

lemma chain_text_rows:
  assumes "float_repr_ok fr" "write_chain sha fr rules ss = write_chain sha fr rules ts"
  shows "map (\<lambda>s. canon (chain_row sha fr rules s)) ss = map (\<lambda>s. canon (chain_row sha fr rules s)) ts"
proof -
  let ?d = "\<lambda>s. dumps_compact fr (chain_row sha fr rules s)"
  have "map ?d ss = map ?d ts"
  proof (rule lines_inj)
    show "nl \<notin> set r" if "r \<in> set (map ?d ss) \<union> set (map ?d ts)" for r
      using that dumps_no_nl [OF assms(1)] by (auto simp: dumps_compact_def)
    show "concat (map (\<lambda>r. r @ [nl]) (map ?d ss)) = concat (map (\<lambda>r. r @ [nl]) (map ?d ts))"
      using assms(2) by (simp add: write_chain_def o_def)
  qed
  then show ?thesis
  proof (induction ss arbitrary: ts)
    case (Cons s ss)
    then obtain t ts' where t: "ts = t # ts'" "?d s = ?d t" "map ?d ss = map ?d ts'" by (cases ts) auto
    from Cons.IH [OF t(3)] dumps_compact_canon [OF assms(1) t(2)] t(1) show ?case
      by (simp only: list.map)
  qed simp
qed

text \<open>What two chains with one text have in common, step by step.\<close>

definition same_step :: "scrub_rules \<Rightarrow> chain_step \<Rightarrow> chain_step \<Rightarrow> bool" where
  "same_step rules s t \<longleftrightarrow> cs_env_action s = cs_env_action t \<and> cs_timed_out s = cs_timed_out t \<and>
     (case cs_env_action s of
        RunAct a \<Rightarrow> same_observation rules (Some (ra_command a)) (cs_step_result s)
                      (Some (ra_command a)) (cs_step_result t)
      | VerifyAct \<Rightarrow> verdict_summary (cs_step_result s) = verdict_summary (cs_step_result t))"

lemma action_payload_canon: "canon (action_payload a) = canon (action_payload b) \<longleftrightarrow> a = b"
proof (cases a; cases b)
  fix x y assume ab: "a = RunAct x" "b = RunAct y"
  show ?thesis
    unfolding action_payload_def ab env_action.case
    by (subst canon_same_keys) (cases x; cases y; auto simp: opt_json_canon)+
qed (auto simp: action_payload_def)

text \<open>SHA-256 collides on no two of the transitions of the chains.\<close>

definition audit_texts :: "(rat \<Rightarrow> string) \<Rightarrow> scrub_rules \<Rightarrow> chain_step list \<Rightarrow> string set" where
  "audit_texts fr rules ss =
     {serialize_step_result fr (audit_form rules (Some (ra_command a)) (cs_step_result s)) |s a.
        s \<in> set ss \<and> cs_env_action s = RunAct a}"

lemma audit_texts_mono: "set ss \<subseteq> set ts \<Longrightarrow> audit_texts fr rules ss \<subseteq> audit_texts fr rules ts"
  unfolding audit_texts_def by blast

lemma same_row:
  assumes fr: "float_repr_ok fr"
    and sha: "\<And>a b. a \<in> audit_texts fr rules [s, t] \<Longrightarrow> b \<in> audit_texts fr rules [s, t] \<Longrightarrow> sha a = sha b \<Longrightarrow> a = b"
    and row: "canon (chain_row sha fr rules s) = canon (chain_row sha fr rules t)"
  shows "same_step rules s t"
proof (cases "cs_env_action s")
  case s: (RunAct a)
  show ?thesis
  proof (cases "cs_env_action t")
    case t: (RunAct b)
    note rows = row [unfolded chain_row_def s t env_action.case]
    have h: "a = b \<and> cs_timed_out s = cs_timed_out t \<and>
        scrubbed_hash sha fr rules (Some (ra_command a)) (cs_step_result s) =
        scrubbed_hash sha fr rules (Some (ra_command b)) (cs_step_result t)"
      using rows by (subst (asm) canon_same_keys) (auto simp: action_payload_canon)
    have m: "serialize_step_result fr (audit_form rules (Some (ra_command a)) (cs_step_result s)) \<in> audit_texts fr rules [s, t]"
      "serialize_step_result fr (audit_form rules (Some (ra_command b)) (cs_step_result t)) \<in> audit_texts fr rules [s, t]"
      using s t unfolding audit_texts_def by force+
    have "same_observation rules (Some (ra_command a)) (cs_step_result s) (Some (ra_command b)) (cs_step_result t)"
      by (rule scrubbed_hash_iff [THEN iffD1, OF fr _ m]) (erule (2) sha, use h in blast)
    then show ?thesis using h s t by (simp add: same_step_def)
  next
    case t: VerifyAct
    note keys = canon_key_set [OF row [unfolded chain_row_def s t env_action.case]]
    have "''verdict'' \<in> fst ` set [(''action'', action_payload VerifyAct),
        (''verdict'', verdict_summary (cs_step_result t)), (''timed_out'', JBool (cs_timed_out t))]" by simp
    then show ?thesis unfolding keys [symmetric] by simp
  qed
next
  case s: VerifyAct
  show ?thesis
  proof (cases "cs_env_action t")
    case t: (RunAct b)
    note keys = canon_key_set [OF row [unfolded chain_row_def s t env_action.case]]
    have "''verdict'' \<in> fst ` set [(''action'', action_payload VerifyAct),
        (''verdict'', verdict_summary (cs_step_result s)), (''timed_out'', JBool (cs_timed_out s))]" by simp
    then show ?thesis unfolding keys by simp
  next
    case t: VerifyAct
    have "canon (verdict_summary r) = canon (verdict_summary q) \<longleftrightarrow> verdict_summary r = verdict_summary q" for r q
      unfolding verdict_summary_def
      by (subst canon_same_keys) (auto simp: opt_json_canon opt_json_def split: option.splits)
    then show ?thesis
      using row [unfolded chain_row_def s t env_action.case] s t
      by (subst (asm) canon_same_keys) (simp_all add: same_step_def)
  qed
qed

lemma same_chain:
  assumes fr: "float_repr_ok fr"
    and sha: "\<And>a b. a \<in> audit_texts fr rules (ss @ ts) \<Longrightarrow> b \<in> audit_texts fr rules (ss @ ts) \<Longrightarrow> sha a = sha b \<Longrightarrow> a = b"
    and eq: "write_chain sha fr rules ss = write_chain sha fr rules ts"
  shows "list_all2 (same_step rules) ss ts"
proof (rule list_all2_all_nthI)
  note rows = chain_text_rows [OF fr eq]
  then show len: "length ss = length ts" using map_eq_imp_length_eq by blast
  fix i assume i: "i < length ss"
  have "audit_texts fr rules [ss ! i, ts ! i] \<subseteq> audit_texts fr rules (ss @ ts)"
    using i len by (intro audit_texts_mono) (simp add: nth_mem)
  moreover have "canon (chain_row sha fr rules (ss ! i)) = canon (chain_row sha fr rules (ts ! i))"
    using arg_cong [OF rows, of "\<lambda>xs. xs ! i"] i len by simp
  ultimately show "same_step rules (ss ! i) (ts ! i)"
    using sha by (intro same_row [OF fr]) auto
qed

section \<open>The identity of a measurement\<close>

definition sorted_panel :: "run_config \<Rightarrow> run_config" where
  "sorted_panel c = c\<lparr>rc_environment := (rc_environment c)\<lparr>ev_task_names := sort (ev_task_names (rc_environment c))\<rparr>\<rparr>"

text \<open>\<open>regime\<close> are the fingerprint lines of the execution; \<open>override\<close> is the environment variable
  \<open>FRAMEWORK_LLM_CACHE_REV\<close>.\<close>

definition resolve_measurement_identity ::
    "(string \<Rightarrow> string) \<Rightarrow> (rat \<Rightarrow> string) \<Rightarrow> string option \<Rightarrow> run_config \<Rightarrow> string list \<Rightarrow> measurement_identity" where
  "resolve_measurement_identity sha fr override c regime =
     \<lparr>mi_effective_config_digest = sha (dumps_compact fr (measurement_identity_payload (sorted_panel c))),
      mi_provider_revision = provider_revision override (rc_llm_provider_config c),
      mi_replay_regime_digest = sha (join_nl (sort regime))\<rparr>"

text \<open>Two measurements of the same thing: everything measured agrees, panels and regime lines as
  multisets.\<close>

definition same_measurement ::
    "string option \<Rightarrow> run_config \<Rightarrow> string list \<Rightarrow> string option \<Rightarrow> run_config \<Rightarrow> string list \<Rightarrow> bool" where
  "same_measurement ov c ls ov' c' ls' \<longleftrightarrow>
     measured_part (sorted_panel c) = measured_part (sorted_panel c') \<and>
     provider_revision ov (rc_llm_provider_config c) = provider_revision ov' (rc_llm_provider_config c') \<and>
     mset ls = mset ls'"

lemma sort_eq_mset: "sort xs = sort ys \<longleftrightarrow> mset xs = mset ys" for xs ys :: "string list"
  by (metis mset_sort properties_for_sort sorted_sort)

lemma identity_iff:
  assumes fr: "float_repr_ok fr"
    and cfg: "\<And>a b. a \<in> T \<Longrightarrow> b \<in> T \<Longrightarrow> sha a = sha b \<Longrightarrow> a = b"
    and T: "dumps_compact fr (measurement_identity_payload (sorted_panel c)) \<in> T"
      "dumps_compact fr (measurement_identity_payload (sorted_panel c')) \<in> T"
      "join_nl (sort ls) \<in> T" "join_nl (sort ls') \<in> T"
    and ls: "ls \<noteq> []" "\<And>l. l \<in> set ls \<Longrightarrow> nl \<notin> set l" "ls' \<noteq> []" "\<And>l. l \<in> set ls' \<Longrightarrow> nl \<notin> set l"
  shows "resolve_measurement_identity sha fr ov c ls = resolve_measurement_identity sha fr ov' c' ls' \<longleftrightarrow>
    same_measurement ov c ls ov' c' ls'"
proof -
  let ?p = "\<lambda>c. measurement_identity_payload (sorted_panel c)"
  have "sha (dumps_compact fr (?p c)) = sha (dumps_compact fr (?p c')) \<longleftrightarrow> canon (?p c) = canon (?p c')"
    using cfg [OF T(1,2)] dumps_compact_canon [OF fr] unfolding dumps_compact_def by metis
  moreover have "split_nl (join_nl (sort ls)) = sort ls" "split_nl (join_nl (sort ls')) = sort ls'"
    using ls by (auto intro!: split_join_nl simp flip: set_empty)
  then have "sha (join_nl (sort ls)) = sha (join_nl (sort ls')) \<longleftrightarrow> mset ls = mset ls'"
    using cfg [OF T(3,4)] sort_eq_mset by metis
  ultimately show ?thesis
    by (simp add: resolve_measurement_identity_def same_measurement_def payload_canon)
qed

text \<open>
  C17. The measurement identity is exact: where SHA-256 does not collide on the texts hashed, two
  measurements have the same identity exactly when their configurations agree on everything
  measured (up to the order of the panel, and ignoring the paths only the proposer sees), their
  providers have the same revision, and their execution regimes have the same lines.
\<close>

theorem measurement_identity_exact:
  assumes "float_repr_ok fr"
    and "\<And>a b. a \<in> T \<Longrightarrow> b \<in> T \<Longrightarrow> sha a = sha b \<Longrightarrow> a = b"
    and "dumps_compact fr (measurement_identity_payload (sorted_panel c)) \<in> T"
      "dumps_compact fr (measurement_identity_payload (sorted_panel c')) \<in> T"
      "join_nl (sort ls) \<in> T" "join_nl (sort ls') \<in> T"
    and "ls \<noteq> []" "\<And>l. l \<in> set ls \<Longrightarrow> nl \<notin> set l" "ls' \<noteq> []" "\<And>l. l \<in> set ls' \<Longrightarrow> nl \<notin> set l"
  shows "resolve_measurement_identity sha fr ov c ls = resolve_measurement_identity sha fr ov' c' ls' \<longleftrightarrow>
    same_measurement ov c ls ov' c' ls'"
  using assms by (rule identity_iff)

theorem measurement_identity_exact_witness:
  "resolve_measurement_identity id sample_repr None sample_config [''x:1'', ''y:2''] =
   resolve_measurement_identity id sample_repr None
     (sample_config\<lparr>rc_environment := (rc_environment sample_config)\<lparr>ev_task_names := [''b'', ''a'']\<rparr>,
       rc_config_path := Some ''other.yaml''\<rparr>) [''y:2'', ''x:1''] \<and>
   resolve_measurement_identity id sample_repr None sample_config [''x:1''] \<noteq>
   resolve_measurement_identity id sample_repr None (sample_config\<lparr>rc_max_steps := 51\<rparr>) [''x:1'']"
  by (subst (1 2) measurement_identity_exact [where T = UNIV and sha = id and fr = sample_repr])
    (auto simp: sample_repr_ok nl_def same_measurement_def sorted_panel_def sample_config_def
      measured_part_iff)

end
