(* ===== verification/Scrub.thy ===== *)
theory Scrub
  imports Certify
begin

text \<open>
  The structural part of the scrubber of \<open>src/determinism.py\<close> (newline unification and header
  canonicalisation) is idempotent: what is compared after one pass and after two is the same. The
  replay cache relies on that, since it compares output scrubbed once with output scrubbed twice.
\<close>

definition scrub_idempotent :: "scrub_rules \<Rightarrow> bool" where
  "scrub_idempotent rules \<longleftrightarrow>
     (\<forall>c t. scrub_nondeterminism rules c (scrub_nondeterminism rules c t) = scrub_nondeterminism rules c t)"

definition uppers :: string where "uppers = ''ABCDEFGHIJKLMNOPQRSTUVWXYZ''"
definition lowers :: string where "lowers = ''abcdefghijklmnopqrstuvwxyz''"

lemma lower_uppers: "map lower_char uppers = lowers" "map lower_char lowers = lowers"
  by (simp_all add: uppers_def lowers_def lower_char_def char_of_eq_iff take_bit_eq_mod)

lemma letters_ok:
  "list_all is_alpha (uppers @ lowers)" "list_all header_char (uppers @ lowers)"
  "list_all (\<lambda>d. d \<notin> {CHR ''-'', nl, CHR 0x0D}) (uppers @ lowers)"
  by (simp_all add: uppers_def lowers_def is_alpha_def header_char_def nl_def)

lemma lower_char_cases: "lower_char c = c \<or> c \<in> set uppers"
proof (cases "(of_char c :: nat) \<in> {65..90}")
  case True
  then have "(of_char c :: nat) \<in> set [65..<91]"
    by (simp only: set_upt atLeastAtMost_iff atLeastLessThan_iff) (intro conjI TrueI, linarith)
  then have "c \<in> set (map char_of [65..<91 :: nat])" by (metis char_of_char image_eqI list.set_map)
  moreover have "map char_of [65..<91 :: nat] = uppers"
    by (simp add: uppers_def upt_rec char_of_eq_iff take_bit_eq_mod)
  ultimately show ?thesis by metis
qed (auto simp: lower_char_def)

lemma lower_char_facts:
  "is_alpha (lower_char c) = is_alpha c" "header_char (lower_char c) = header_char c"
  "lower_char (lower_char c) = lower_char c" "lower_char c = CHR ''-'' \<longleftrightarrow> c = CHR ''-''"
  "lower_char c = nl \<longleftrightarrow> c = nl" "lower_char c = CHR 0x0D \<longleftrightarrow> c = CHR 0x0D"
proof -
  consider (same) "lower_char c = c" | (upper) "c \<in> set uppers" using lower_char_cases by auto
  then have "is_alpha (lower_char c) = is_alpha c \<and> header_char (lower_char c) = header_char c \<and>
    lower_char (lower_char c) = lower_char c \<and> (lower_char c = CHR ''-'' \<longleftrightarrow> c = CHR ''-'') \<and>
    (lower_char c = nl \<longleftrightarrow> c = nl) \<and> (lower_char c = CHR 0x0D \<longleftrightarrow> c = CHR 0x0D)"
  proof cases
    case upper
    then have l: "lower_char c \<in> set lowers" by (metis lower_uppers(1) image_eqI list.set_map)
    have "lower_char d = d" if "d \<in> set lowers" for d
      using that lower_uppers(2) by (metis map_eq_conv map_ident)
    with upper l letters_ok show ?thesis unfolding list_all_iff by simp
  qed simp
  then show "is_alpha (lower_char c) = is_alpha c" "header_char (lower_char c) = header_char c"
    "lower_char (lower_char c) = lower_char c" "lower_char c = CHR ''-'' \<longleftrightarrow> c = CHR ''-''"
    "lower_char c = nl \<longleftrightarrow> c = nl" "lower_char c = CHR 0x0D \<longleftrightarrow> c = CHR 0x0D"
    by blast+
qed

lemma lower_mem:
  "CHR ''-'' \<in> set (map lower_char s) \<longleftrightarrow> CHR ''-'' \<in> set s"
  "nl \<in> set (map lower_char s) \<longleftrightarrow> nl \<in> set s"
  "CHR 0x0D \<in> set (map lower_char s) \<longleftrightarrow> CHR 0x0D \<in> set s"
  using lower_char_facts(4-6) unfolding set_map image_iff by metis+

lemma header_name_ends:
  "list_all header_char n \<Longrightarrow> takeWhile header_char (n @ CHR '':'' # r) = n \<and>
     dropWhile header_char (n @ CHR '':'' # r) = CHR '':'' # r"
proof (induction n)
  case Nil
  have "\<not> header_char (CHR '':'')" by (simp add: header_char_def is_alpha_def)
  then show ?case by simp
qed simp

lemma rstrip_ws_end: "v \<noteq> [] \<Longrightarrow> last v \<notin> set whitespace \<Longrightarrow> rstrip_ws (a @ v) = a @ v"
  by (cases v rule: rev_cases) (simp_all add: rstrip_ws_def)

lemma rstrip_ws_last: "rstrip_ws s \<noteq> [] \<Longrightarrow> last (rstrip_ws s) \<notin> set whitespace"
  using hd_dropWhile [of "\<lambda>c. c \<in> set whitespace" "rev s"] by (simp add: rstrip_ws_def last_rev)

lemma header_match_parts:
  assumes "header_match line = Some (name, v)"
  shows "list_all header_char name" "name \<noteq> []" "is_alpha (hd name)" "nl \<notin> set v"
    "v \<noteq> [] \<Longrightarrow> last v \<notin> set whitespace" "v \<noteq> [] \<Longrightarrow> hd v \<noteq> CHR '' '' \<and> hd v \<noteq> CHR 0x09"
    "set name \<union> set v \<subseteq> set line"
proof -
  let ?s = "rstrip_ws line"
  let ?rest = "dropWhile header_char ?s"
  have h: "name = takeWhile header_char ?s" "name \<noteq> []" "is_alpha (hd name)" "?rest \<noteq> []" "nl \<notin> set ?rest"
    "v = dropWhile (\<lambda>c. c = CHR '' '' \<or> c = CHR 0x09) (tl ?rest)"
    using assms by (auto simp: header_match_def Let_def split: if_splits)
  show "list_all header_char name" unfolding h(1) list_all_iff using set_takeWhileD by fast
  show "name \<noteq> []" "is_alpha (hd name)" by fact+
  have sub: "set v \<subseteq> set ?rest"
    unfolding h(6) using set_dropWhileD list.set_sel(2) [OF h(4)] by fast
  then show "nl \<notin> set v" using h(5) by blast
  have "set ?rest \<subseteq> set line" using set_dropWhileD rstrip_ws_subset by fast
  moreover have "set name \<subseteq> set line" unfolding h(1) using set_takeWhileD rstrip_ws_subset by fast
  ultimately show "set name \<union> set v \<subseteq> set line" using sub by blast
  show "hd v \<noteq> CHR '' '' \<and> hd v \<noteq> CHR 0x09" if "v \<noteq> []"
    using hd_dropWhile [of "\<lambda>c. c = CHR '' '' \<or> c = CHR 0x09" "tl ?rest"] that unfolding h(6) by simp
  have last_drop: "last (dropWhile P xs) = last xs" if "dropWhile P xs \<noteq> []" for P :: "char \<Rightarrow> bool" and xs
    using that by (induction xs) auto
  show "last v \<notin> set whitespace" if "v \<noteq> []"
  proof -
    have "last v = last (tl ?rest)" "tl ?rest \<noteq> []" using that last_drop unfolding h(6) by auto
    then have "last v = last ?s" using last_drop [of header_char ?s] h(4) by (simp add: last_tl)
    moreover have "?s \<noteq> []" using h(4) by auto
    ultimately show ?thesis using rstrip_ws_last [of line] by simp
  qed
qed

lemma header_match_canonical:
  assumes "header_match line = Some (name, v)"
  shows "header_match (map lower_char name @ '': '' @ v) = Some (map lower_char name, v)"
proof -
  note p = header_match_parts [OF assms]
  let ?n = "map lower_char name"
  have n: "list_all header_char ?n" "?n \<noteq> []" "is_alpha (hd ?n)"
    using p(1-3) by (simp_all add: list_all_iff lower_char_facts hd_map)
  have colon: "\<not> header_char (CHR '':'')" by (simp add: header_char_def is_alpha_def)
  have nlc: "nl \<noteq> CHR '':''" "nl \<noteq> CHR '' ''" by (simp_all add: nl_def)
  have blank: "dropWhile (\<lambda>c. c = CHR '' '' \<or> c = CHR 0x09) v = v"
    using p(6) by (cases v) auto
  obtain m where m: "?n = m" by blast
  show ?thesis
  proof (cases "v = []")
    case True
    have "rstrip_ws (m @ '': '') = m @ '':''" by (simp add: rstrip_ws_def whitespace_def line_breaks_def)
    with True n colon nlc header_name_ends [of m "[]"] show ?thesis
      unfolding m by (simp add: header_match_def Let_def)
  next
    case False
    have "rstrip_ws (m @ '': '' @ v) = m @ '': '' @ v"
      using rstrip_ws_end [OF False p(5) [OF False], of "m @ '': ''"] by simp
    with False n colon nlc blank p(4) header_name_ends [of m "CHR '' '' # v"] show ?thesis
      unfolding m by (simp add: header_match_def Let_def)
  qed
qed

text \<open>The line and its match after one pass.\<close>

lemma structural_nth:
  "i < length ls \<Longrightarrow> canonicalize_structural_headers ls ! i = canonical_header (map header_match ls) i (ls ! i)"
  by (simp add: canonicalize_structural_headers_def Let_def nth_enumerate_eq)

lemma length_structural [simp]: "length (canonicalize_structural_headers ls) = length ls"
  by (simp add: canonicalize_structural_headers_def Let_def)

definition structural_near :: "string list \<Rightarrow> nat \<Rightarrow> string \<Rightarrow> bool" where
  "structural_near ls i name \<longleftrightarrow> CHR ''-'' \<in> set name \<or> (0 < i \<and> header_match (ls ! (i - 1)) \<noteq> None) \<or>
     (i + 1 < length ls \<and> header_match (ls ! (i + 1)) \<noteq> None)"

lemma structural_line:
  assumes "i < length ls"
  shows "header_match (ls ! i) = None \<Longrightarrow> canonicalize_structural_headers ls ! i = ls ! i"
    "header_match (ls ! i) = Some (name, v) \<Longrightarrow> canonicalize_structural_headers ls ! i =
       (if structural_near ls i name then map lower_char name @ '': '' @ v else ls ! i)"
proof -
  have m: "map header_match ls ! i = header_match (ls ! i)" "map header_match ls ! (i - 1) = header_match (ls ! (i - 1))"
    using assms by simp_all
  have n: "(i + 1 < length (map header_match ls) \<and> map header_match ls ! (i + 1) \<noteq> None) \<longleftrightarrow>
      (i + 1 < length ls \<and> header_match (ls ! (i + 1)) \<noteq> None)" by auto
  show "header_match (ls ! i) = None \<Longrightarrow> canonicalize_structural_headers ls ! i = ls ! i"
    unfolding structural_nth [OF assms] canonical_header_def m by simp
  assume h: "header_match (ls ! i) = Some (name, v)"
  show "canonicalize_structural_headers ls ! i =
      (if structural_near ls i name then map lower_char name @ '': '' @ v else ls ! i)"
    unfolding structural_nth [OF assms] canonical_header_def structural_near_def m n h option.case prod.case ..
qed

lemma structural_match:
  assumes "i < length ls"
  shows "(header_match (canonicalize_structural_headers ls ! i) = None) = (header_match (ls ! i) = None)"
proof (cases "header_match (ls ! i)")
  case None
  then show ?thesis by (simp only: structural_line(1) [OF assms])
next
  case (Some nv)
  obtain name v where nv: "header_match (ls ! i) = Some (name, v)" using Some by (cases nv) auto
  show ?thesis
    unfolding structural_line(2) [OF assms nv] using header_match_canonical [OF nv] nv by simp
qed

lemma near_structural:
  assumes "i < length ls"
  shows "structural_near (canonicalize_structural_headers ls) i name = structural_near ls i name"
proof -
  have "header_match (canonicalize_structural_headers ls ! (i - 1)) = None \<longleftrightarrow> header_match (ls ! (i - 1)) = None"
    using assms by (intro structural_match) simp
  moreover have "i + 1 < length ls \<Longrightarrow>
      header_match (canonicalize_structural_headers ls ! (i + 1)) = None \<longleftrightarrow> header_match (ls ! (i + 1)) = None"
    by (rule structural_match)
  ultimately show ?thesis unfolding structural_near_def length_structural by (metis (no_types, lifting))
qed

lemma near_lower: "structural_near ls i (map lower_char name) = structural_near ls i name"
  unfolding structural_near_def lower_mem ..

lemma structural_idem:
  "canonicalize_structural_headers (canonicalize_structural_headers ls) = canonicalize_structural_headers ls"
proof (rule nth_equalityI)
  let ?c = "canonicalize_structural_headers ls"
  fix i assume "i < length (canonicalize_structural_headers ?c)"
  then have i: "i < length ls" "i < length ?c" by simp_all
  show "canonicalize_structural_headers ?c ! i = ?c ! i"
  proof (cases "header_match (ls ! i)")
    case None
    then have "header_match (?c ! i) = None" using structural_match [OF i(1)] by simp
    then show ?thesis by (rule structural_line(1) [OF i(2)])
  next
    case (Some nv)
    obtain name v where nv: "header_match (ls ! i) = Some (name, v)" using Some by (cases nv) auto
    show ?thesis
    proof (cases "structural_near ls i name")
      case True
      then have c: "?c ! i = map lower_char name @ '': '' @ v" using structural_line(2) [OF i(1) nv] by simp
      have "map lower_char (map lower_char name) = map lower_char name" by (simp add: lower_char_facts)
      then show ?thesis
        using structural_line(2) [OF i(2), of "map lower_char name" v] header_match_canonical [OF nv]
        unfolding c by metis
    next
      case False
      then have c: "?c ! i = ls ! i" using structural_line(2) [OF i(1) nv] by simp
      then have "header_match (?c ! i) = Some (name, v)" using nv by simp
      from structural_line(2) [OF i(2) this] False show ?thesis by (simp only: near_structural [OF i(1)] if_False)
    qed
  qed
qed simp

lemma structural_plain:
  assumes "\<And>l. l \<in> set ls \<Longrightarrow> nl \<notin> set l \<and> CHR 0x0D \<notin> set l" and "l \<in> set (canonicalize_structural_headers ls)"
  shows "nl \<notin> set l \<and> CHR 0x0D \<notin> set l"
proof -
  obtain i where i: "i < length ls" "l = canonicalize_structural_headers ls ! i"
    using assms(2) by (auto simp: in_set_conv_nth)
  have line: "nl \<notin> set (ls ! i)" "CHR 0x0D \<notin> set (ls ! i)" using assms(1) i(1) by auto
  show ?thesis
  proof (cases "header_match (ls ! i)")
    case None
    with line show ?thesis unfolding i(2) structural_line(1) [OF i(1) None] by simp
  next
    case (Some nv)
    obtain name v where nv: "header_match (ls ! i) = Some (name, v)" using Some by (cases nv) auto
    have sub: "set name \<union> set v \<subseteq> set (ls ! i)" by (rule header_match_parts(7) [OF nv])
    have "nl \<notin> set (map lower_char name)" "CHR 0x0D \<notin> set (map lower_char name)"
      unfolding lower_mem using sub line by blast+
    moreover have "nl \<notin> set '': ''" "CHR 0x0D \<notin> set '': ''" by (simp_all add: nl_def)
    ultimately show ?thesis
      unfolding i(2) structural_line(2) [OF i(1) nv] using sub line by auto
  qed
qed

lemma unify_plain: "CHR 0x0D \<notin> set s \<Longrightarrow> unify_newlines s = s"
  by (induction s rule: unify_newlines.induct) auto

lemma unify_no_cr: "CHR 0x0D \<notin> set (unify_newlines s)"
  by (induction s rule: unify_newlines.induct) (auto simp: nl_def)

lemma structural_nonempty: "ls \<noteq> [] \<Longrightarrow> canonicalize_structural_headers ls \<noteq> []"
  using length_structural [of ls] by force

lemma set_split_nl: "l \<in> set (split_nl s) \<Longrightarrow> set l \<subseteq> set s"
proof (induction s arbitrary: l)
  case (Cons c cs)
  then show ?case by (cases "split_nl cs") (fastforce split: if_splits)+
qed simp

lemma plain_rules_idempotent: "scrub_idempotent plain_rules"
  unfolding scrub_idempotent_def
proof (intro allI)
  fix c :: "string option" and t :: string
  let ?one = "\<lambda>t. canonicalize_structural_headers (split_nl (unify_newlines t))"
  have scrub: "scrub_nondeterminism plain_rules c u = join_nl (?one u)" for u
    by (simp add: scrub_nondeterminism_def plain_rules_def Let_def split: option.splits)
  have lines: "nl \<notin> set l \<and> CHR 0x0D \<notin> set l" if "l \<in> set (?one t)" for l
    by (rule structural_plain [OF _ that]) (use split_nl_no_nl set_split_nl unify_no_cr in fastforce)
  have "CHR 0x0D \<notin> set (join_nl ls)" if "\<And>l. l \<in> set ls \<Longrightarrow> CHR 0x0D \<notin> set l" for ls
    using that unfolding join_nl_def by (induction "[nl]" ls rule: join_str.induct) (auto simp: nl_def)
  then have "unify_newlines (join_nl (?one t)) = join_nl (?one t)" using lines by (intro unify_plain) blast
  moreover have "split_nl (join_nl (?one t)) = ?one t"
    by (rule split_join_nl) (use lines structural_nonempty in auto)
  ultimately show "scrub_nondeterminism plain_rules c (scrub_nondeterminism plain_rules c t) =
      scrub_nondeterminism plain_rules c t"
    by (simp add: scrub structural_idem)
qed

end
