(* ===== verification/Backend.thy ===== *)
theory Backend
  imports Certify
begin

text \<open>
  \<open>src/llm/backend.py\<close>, \<open>transport.py\<close>, \<open>token_counter.py\<close> and \<open>openai_completion_backend.py\<close>: one
  model completion, from the request body to the typed result. The HTTP client with its stream
  accumulator and the tokenizer are other people's code and are parameters; the retry policy, the
  classification of failures, the request body with its cache key, the reasoning budget and the
  reading of the stream are modelled.
\<close>

section \<open>Failures\<close>

text \<open>Exceptions of the OpenAI SDK and of httpx, by their classes. \<open>BadRequestError\<close> is the status
  error with status 400; \<open>ApiStreamError\<close> is a bare \<open>APIError\<close>.\<close>

datatype foreign_exc =
    ApiConnectionError string
  | ApiStatusError nat "string option" string
  | ApiStreamError string
  | HttpxProtocolError string
  | HttpxTimeout string
  | OtherForeign exc

datatype llm_exc =
    CompletionRequestFailed string
  | ContextWindowExceeded string "nat option" "nat option" "nat option"
  | CompletionInfraFailed string
  | MalformedStream string
  | RejectedToolCall string
  | FrameworkFailed string
  | Foreign foreign_exc

fun foreign_text :: "foreign_exc \<Rightarrow> string" where
  "foreign_text (ApiConnectionError m) = m"
| "foreign_text (ApiStatusError _ _ m) = m"
| "foreign_text (ApiStreamError m) = m"
| "foreign_text (HttpxProtocolError m) = m"
| "foreign_text (HttpxTimeout m) = m"
| "foreign_text (OtherForeign e) = exc_detail e"

fun is_api_error :: "foreign_exc \<Rightarrow> bool" where
  "is_api_error (ApiConnectionError _) = True"
| "is_api_error (ApiStatusError _ _ _) = True"
| "is_api_error (ApiStreamError _) = True"
| "is_api_error _ = False"

fun contains_str :: "string \<Rightarrow> string \<Rightarrow> bool" where
  "contains_str p [] = (p = [])"
| "contains_str p (c # cs) = (take (length p) (c # cs) = p \<or> contains_str p cs)"

definition MALFORMED_TOOL_ARGS :: string where
  "MALFORMED_TOOL_ARGS = ''Failed to parse tool call arguments as JSON''"

definition is_provider_rejected_tool_call :: "foreign_exc \<Rightarrow> bool" where
  "is_provider_rejected_tool_call f \<longleftrightarrow> is_api_error f \<and> contains_str MALFORMED_TOOL_ARGS (foreign_text f)"

fun is_transient :: "llm_exc \<Rightarrow> bool" where
  "is_transient (MalformedStream _) = True"
| "is_transient (Foreign f) =
     (\<not> is_provider_rejected_tool_call f \<and>
      (case f of
         HttpxProtocolError _ \<Rightarrow> True
       | HttpxTimeout _ \<Rightarrow> True
       | ApiConnectionError _ \<Rightarrow> True
       | ApiStatusError status _ _ \<Rightarrow> status \<in> {408, 409, 429} \<or> 500 \<le> status
       | ApiStreamError _ \<Rightarrow> True
       | OtherForeign _ \<Rightarrow> False))"
| "is_transient _ = False"

definition classified_completion_failure :: "foreign_exc \<Rightarrow> llm_exc" where
  "classified_completion_failure f =
     (if is_provider_rejected_tool_call f then RejectedToolCall (foreign_text f)
      else case f of
             ApiStatusError status _ m \<Rightarrow>
               (if status = 400 then CompletionRequestFailed m else CompletionInfraFailed m)
           | _ \<Rightarrow> CompletionInfraFailed (foreign_text f))"

fun complete_ladder :: "llm_exc \<Rightarrow> llm_exc" where
  "complete_ladder (Foreign f) = classified_completion_failure f"
| "complete_ladder e = e"

section \<open>Timeouts and retries\<close>

definition REQUEST_TIMEOUT_SECONDS :: rat where
  "REQUEST_TIMEOUT_SECONDS = 300"

definition OPENAI_CLIENT_RETRY_BUDGET :: nat where
  "OPENAI_CLIENT_RETRY_BUDGET = 5"

definition stream_stall_timeout_seconds :: "int \<Rightarrow> rat" where
  "stream_stall_timeout_seconds max_tokens = max 240 (of_int max_tokens / 20 + 60)"

text \<open>The sleep after attempt \<open>n\<close>, counted from one.\<close>

definition backoff :: "nat \<Rightarrow> rat" where
  "backoff n = min 45 (4 * 2 ^ (n - 1))"

text \<open>\<open>retrying f left n\<close> makes attempt \<open>n\<close> with \<open>left\<close> retries to go; besides the result it
  returns the sleeps.\<close>

fun retrying ::
    "('s \<Rightarrow> (llm_exc + 'a) \<times> 's) \<Rightarrow> nat \<Rightarrow> nat \<Rightarrow> 's \<Rightarrow> (llm_exc + 'a) \<times> rat list \<times> 's" where
  "retrying f 0 n s = (case f s of (r, s') \<Rightarrow> (r, [], s'))"
| "retrying f (Suc left) n s =
     (case f s of
        (Inr x, s') \<Rightarrow> (Inr x, [], s')
      | (Inl e, s') \<Rightarrow>
          (if is_transient e
           then (case retrying f left (Suc n) s' of (r, ws, s'') \<Rightarrow> (r, backoff n # ws, s''))
           else (Inl e, [], s')))"

definition transient_retrying ::
    "('s \<Rightarrow> (llm_exc + 'a) \<times> 's) \<Rightarrow> 's \<Rightarrow> (llm_exc + 'a) \<times> rat list \<times> 's" where
  "transient_retrying f = retrying f OPENAI_CLIENT_RETRY_BUDGET 1"

section \<open>Token counting\<close>

text \<open>A tokenizer is its \<open>encode\<close>: the tokens of a text as their offsets, in order.\<close>

type_synonym tokenizer = "string \<Rightarrow> (nat \<times> nat) list"

definition TRUNCATION_MARKER :: string where
  "TRUNCATION_MARKER = nl # ''...[truncated]''"

definition token_count :: "tokenizer \<Rightarrow> string \<Rightarrow> nat" where
  "token_count tk text = length (tk text)"

text \<open>\<open>xs[i]\<close> with Python's negative indices.\<close>

definition py_index :: "'a list \<Rightarrow> int \<Rightarrow> exc + 'a" where
  "py_index xs i =
     (if 0 \<le> i \<and> i < int (length xs) then Inr (xs ! nat i)
      else if i < 0 \<and> - i \<le> int (length xs) then Inr (xs ! nat (int (length xs) + i))
      else Inl (OtherError ''IndexError'' ''list index out of range''))"

definition token_truncate :: "tokenizer \<Rightarrow> string \<Rightarrow> int \<Rightarrow> exc + string" where
  "token_truncate tk text max_tokens =
     (if int (token_count tk text) \<le> max_tokens then Inr text
      else bind_res (py_index (tk text) (max_tokens - int (token_count tk TRUNCATION_MARKER) - 1))
             (\<lambda>(_, stop). Inr (take stop text @ TRUNCATION_MARKER)))"

datatype hub_lookup = HubFound tokenizer | HubRepoMissing | HubFails exc

definition resolve_token_counter ::
    "(string \<Rightarrow> hub_lookup) \<Rightarrow> string option \<Rightarrow> string \<Rightarrow> exc + tokenizer option" where
  "resolve_token_counter hub tokenizer_name model_name =
     (if tokenizer_name = None \<and> CHR ''/'' \<notin> set model_name then Inr None
      else case hub (case tokenizer_name of None \<Rightarrow> model_name
                     | Some t \<Rightarrow> if t = [] then model_name else t) of
             HubFound tk \<Rightarrow> Inr (Some tk)
           | HubFails e \<Rightarrow> Inl e
           | HubRepoMissing \<Rightarrow>
               (if tokenizer_name \<noteq> None
                then Inl (OtherError ''RepositoryNotFoundError'' (case tokenizer_name of None \<Rightarrow> [] | Some t \<Rightarrow> t))
                else Inr None))"

section \<open>The request body\<close>

record completion_request =
  rq_messages :: "(string \<times> json) list list"
  rq_tools :: "json list"
  rq_enable_thinking :: "bool option"

definition resolved_thinking :: "llm_provider \<Rightarrow> bool option \<Rightarrow> exc + bool option" where
  "resolved_thinking l enable_thinking =
     (case enable_thinking of
        None \<Rightarrow> Inr (lp_enable_thinking l)
      | Some b \<Rightarrow>
          (if lp_enable_thinking l = None
           then Inl (ValueError (''enable_thinking override passed but this deployment declares no '' @
                  ''thinking channel (config enable_thinking is unset)''))
           else Inr (Some b)))"

definition thinking_budget :: "llm_provider \<Rightarrow> bool option \<Rightarrow> exc + int option" where
  "thinking_budget l enable_thinking =
     bind_res (resolved_thinking l enable_thinking) (\<lambda>thinking.
       Inr (if thinking = Some True then lp_thinking_budget_tokens l else None))"

definition opt_member :: "string \<Rightarrow> ('a \<Rightarrow> json) \<Rightarrow> 'a option \<Rightarrow> (string \<times> json) list" where
  "opt_member k f x = (case x of None \<Rightarrow> [] | Some v \<Rightarrow> [(k, f v)])"

definition extra_body :: "llm_provider \<Rightarrow> bool option \<Rightarrow> (string \<times> json) list" where
  "extra_body l thinking =
     opt_member ''provider'' (\<lambda>ps. JObj [(''only'', JArr (map JStr ps))]) (lp_provider_only l) @
     opt_member ''chat_template_kwargs'' (\<lambda>b. JObj [(''enable_thinking'', JBool b)]) thinking"

definition request_body :: "llm_provider \<Rightarrow> completion_request \<Rightarrow> bool option \<Rightarrow> (string \<times> json) list" where
  "request_body l rq thinking =
     [(''model'', JStr (lp_model_name l)), (''messages'', JArr (map JObj (rq_messages rq)))] @
     opt_member ''temperature'' JFloat (lp_temperature l) @ opt_member ''top_p'' JFloat (lp_top_p l) @
     opt_member ''seed'' JInt (lp_seed l) @
     opt_member ''reasoning_effort'' (JStr \<circ> effort_str) (lp_reasoning_effort l) @
     [(''max_tokens'', JInt (lp_max_tokens l))] @
     (if extra_body l thinking = [] then [] else [(''extra_body'', JObj (extra_body l thinking))]) @
     (if rq_tools rq = [] then [] else [(''tools'', JArr (rq_tools rq)), (''tool_choice'', JStr ''auto'')])"

definition build_request_body :: "llm_provider \<Rightarrow> completion_request \<Rightarrow> exc + (string \<times> json) list" where
  "build_request_body l rq =
     bind_res (resolved_thinking l (rq_enable_thinking rq)) (\<lambda>thinking. Inr (request_body l rq thinking))"

definition cache_payload :: "llm_provider \<Rightarrow> completion_request \<Rightarrow> exc + json" where
  "cache_payload l rq =
     bind_res (build_request_body l rq) (\<lambda>body.
     bind_res (thinking_budget l (rq_enable_thinking rq)) (\<lambda>budget.
       Inr (JObj (body @ [(''__client'', JObj [(''thinking_budget_tokens'', opt_json JInt budget)])]))))"

definition cache_key ::
    "(string \<Rightarrow> string) \<Rightarrow> (rat \<Rightarrow> string) \<Rightarrow> llm_provider \<Rightarrow> completion_request \<Rightarrow> exc + string" where
  "cache_key sha fr l rq = bind_res (cache_payload l rq) (\<lambda>p. Inr (sha (dumps_compact fr p)))"

section \<open>The reasoning budget\<close>

record delta =
  de_content :: "string option"
  de_tool_calls :: bool
  de_reasoning_content :: "string option"
  de_reasoning :: "string option"

definition reasoning_field :: "string option \<Rightarrow> string option \<Rightarrow> string option" where
  "reasoning_field rc r = (if rc = None \<or> rc = Some [] then r else rc)"

record budget_watch =
  bw_budget :: int
  bw_answered :: bool
  bw_reasoning :: string
  bw_recount_at :: nat

definition BUDGET_RECOUNT_CHARS :: nat where
  "BUDGET_RECOUNT_CHARS = 512"

definition BUDGET_SLACK_TOKENS :: int where
  "BUDGET_SLACK_TOKENS = 64"

definition fresh_watch :: "int \<Rightarrow> budget_watch" where
  "fresh_watch budget = \<lparr>bw_budget = budget, bw_answered = False, bw_reasoning = [], bw_recount_at = 0\<rparr>"

definition answers :: "delta \<Rightarrow> bool" where
  "answers d \<longleftrightarrow> (de_content d \<noteq> None \<and> de_content d \<noteq> Some []) \<or> de_tool_calls d"

definition reasons :: "delta \<Rightarrow> string" where
  "reasons d = (case reasoning_field (de_reasoning_content d) (de_reasoning d) of None \<Rightarrow> [] | Some t \<Rightarrow> t)"

definition overrun :: "tokenizer \<Rightarrow> delta \<Rightarrow> budget_watch \<Rightarrow> bool \<times> budget_watch" where
  "overrun tk d w =
     (if bw_answered w then (False, w)
      else if answers d then (False, w\<lparr>bw_answered := True\<rparr>)
      else (let w1 = w\<lparr>bw_reasoning := bw_reasoning w @ reasons d\<rparr>
            in if length (bw_reasoning w1) < bw_recount_at w1 then (False, w1)
               else (int (token_count tk (bw_reasoning w1)) \<ge> bw_budget w1 + BUDGET_SLACK_TOKENS,
                     w1\<lparr>bw_recount_at := length (bw_reasoning w1) + BUDGET_RECOUNT_CHARS\<rparr>)))"

section \<open>Reading a stream\<close>

text \<open>What is read of the accumulated response; a response without choices has no message.\<close>

record raw_message =
  rm_content :: "string option"
  rm_finish_reason :: "string option"
  rm_calls :: "(string \<times> string option) list"
  rm_reasoning_content :: "string option"
  rm_reasoning :: "string option"

record raw_usage =
  ru_prompt_tokens :: "nat option"
  ru_completion_tokens :: "nat option"
  ru_completion_details :: "nat option option"
  ru_prompt_details :: "nat option option"

record snapshot =
  sn_message :: "raw_message option"
  sn_usage :: "raw_usage option"
  sn_id :: json
  sn_model :: json
  sn_fingerprint :: json

record chunk =
  ck_delta :: "delta option"
  ck_raw :: json

record 'st accumulator =
  ac_start :: 'st
  ac_chunk :: "'st \<Rightarrow> chunk \<Rightarrow> exc + 'st"
  ac_snapshot :: "'st \<Rightarrow> snapshot"

definition stream_failure :: "exc \<Rightarrow> llm_exc" where
  "stream_failure e =
     (if exc_name e = ''IndexError''
      then MalformedStream ''malformed tool_call stream: out-of-range tool_call index''
      else Foreign (OtherForeign e))"

datatype 'st stream_end = BudgetAborted string | Drained 'st

text \<open>The chunks that arrive, then the end of the stream or its failure.\<close>

fun read_chunks ::
    "'st accumulator \<Rightarrow> tokenizer \<Rightarrow> budget_watch option \<Rightarrow> 'st \<Rightarrow> chunk list \<Rightarrow> llm_exc option \<Rightarrow>
       llm_exc + 'st stream_end" where
  "read_chunks acc tk watch st [] failure =
     (case failure of None \<Rightarrow> Inr (Drained st) | Some e \<Rightarrow> Inl e)"
| "read_chunks acc tk watch st (c # cs) failure =
     (case ac_chunk acc st c of
        Inl e \<Rightarrow> Inl (stream_failure e)
      | Inr st' \<Rightarrow>
          (case (watch, ck_delta c) of
             (Some w, Some d) \<Rightarrow>
               (case overrun tk d w of
                  (True, w') \<Rightarrow> Inr (BudgetAborted (bw_reasoning w'))
                | (False, w') \<Rightarrow> read_chunks acc tk (Some w') st' cs failure)
           | _ \<Rightarrow> read_chunks acc tk watch st' cs failure))"

definition usage_of :: "raw_usage option \<Rightarrow> usage" where
  "usage_of u = (case u of
      None \<Rightarrow> \<lparr>us_prompt_tokens = None, us_completion_tokens = None, us_reasoning_tokens = None,
        us_cached_input_tokens = None\<rparr>
    | Some v \<Rightarrow> \<lparr>us_prompt_tokens = ru_prompt_tokens v, us_completion_tokens = ru_completion_tokens v,
        us_reasoning_tokens = (case ru_completion_details v of None \<Rightarrow> None | Some d \<Rightarrow> d),
        us_cached_input_tokens = (case ru_prompt_details v of None \<Rightarrow> None | Some d \<Rightarrow> d)\<rparr>)"

definition call_of :: "string \<times> string option \<Rightarrow> tool_call" where
  "call_of c = \<lparr>tool_name = fst c,
     tool_arguments = (case snd c of None \<Rightarrow> ''{}'' | Some a \<Rightarrow> if a = [] then ''{}'' else a)\<rparr>"

definition completion_of :: "snapshot \<Rightarrow> llm_exc + completion" where
  "completion_of sn =
     (case sn_message sn of
        None \<Rightarrow> Inl (Foreign (OtherForeign (OtherError ''IndexError'' ''list index out of range'')))
      | Some m \<Rightarrow> Inr \<lparr>co_tool_calls = map call_of (rm_calls m), co_content = rm_content m,
          co_finish_reason = rm_finish_reason m, co_usage = usage_of (sn_usage sn),
          co_reasoning_content = map_option JStr (reasoning_field (rm_reasoning_content m) (rm_reasoning m)),
          co_response = [(''id'', sn_id sn), (''model'', sn_model sn), (''system_fingerprint'', sn_fingerprint sn)],
          co_served_from_cache = False\<rparr>)"

definition budget_aborted_completion :: "tokenizer \<Rightarrow> int \<Rightarrow> string \<Rightarrow> llm_exc + completion" where
  "budget_aborted_completion tk budget reasoning =
     (case token_truncate tk reasoning budget of
        Inl e \<Rightarrow> Inl (Foreign (OtherForeign e))
      | Inr clipped \<Rightarrow> Inr \<lparr>co_tool_calls = [], co_content = None, co_finish_reason = Some ''length'',
          co_usage = \<lparr>us_prompt_tokens = None, us_completion_tokens = Some (nat budget),
            us_reasoning_tokens = Some (nat budget), us_cached_input_tokens = None\<rparr>,
          co_reasoning_content = Some (JStr clipped),
          co_response = [(''budget_aborted'', JBool True)], co_served_from_cache = False\<rparr>)"

definition completion_from_stream ::
    "'st accumulator \<Rightarrow> tokenizer \<Rightarrow> int option \<Rightarrow> chunk list \<Rightarrow> llm_exc option \<Rightarrow> llm_exc + completion" where
  "completion_from_stream acc tk budget chunks failure =
     bind_res (read_chunks acc tk (map_option fresh_watch budget) (ac_start acc) chunks failure)
       (\<lambda>r. case r of
          BudgetAborted reasoning \<Rightarrow>
            (case budget of None \<Rightarrow> Inl (Foreign (OtherForeign (TypeError [])))
             | Some b \<Rightarrow> budget_aborted_completion tk b reasoning)
        | Drained st \<Rightarrow> completion_of (ac_snapshot acc st))"

section \<open>Context-window errors\<close>

definition lower_str :: "string \<Rightarrow> string" where
  "lower_str s = map lower_char s"

definition is_digit :: "char \<Rightarrow> bool" where
  "is_digit c \<longleftrightarrow> c \<in> set ''0123456789''"

definition digits_value :: "string \<Rightarrow> nat" where
  "digits_value ds = foldl (\<lambda>a c. 10 * a + (of_char c - 48)) 0 ds"

text \<open>The leftmost match of a literal, a decimal number, and one of the endings.\<close>

fun search_number :: "string \<Rightarrow> string list \<Rightarrow> string \<Rightarrow> nat option" where
  "search_number before afters [] = None"
| "search_number before afters (c # cs) =
     (let s = c # cs; rest = drop (length before) s;
          ds = takeWhile is_digit rest; tail = dropWhile is_digit rest
      in if lower_str (take (length before) s) = before \<and> ds \<noteq> [] \<and>
            (\<exists>a \<in> set afters. lower_str (take (length a) tail) = a)
         then Some (digits_value ds) else search_number before afters cs)"

definition context_window_error :: "string option \<Rightarrow> string \<Rightarrow> llm_exc option" where
  "context_window_error code message =
     (if code \<noteq> Some ''context_length_exceeded'' \<and> \<not> contains_str ''context length'' (lower_str message)
      then None
      else Some (ContextWindowExceeded message
             (search_number ''context length of '' [[]] message)
             (search_number ''total of '' ['' tokens''] message)
             (search_number [] ['' token from the input'', '' tokens from the input''] message)))"

definition bad_request :: "llm_exc \<Rightarrow> llm_exc" where
  "bad_request e =
     (case e of
        Foreign (ApiStatusError status code m) \<Rightarrow>
          (if status = 400 then (case context_window_error code m of None \<Rightarrow> e | Some x \<Rightarrow> x) else e)
      | _ \<Rightarrow> e)"

section \<open>One completion\<close>

record openai_backend =
  ob_config :: llm_provider
  ob_counter :: "tokenizer option"

definition mk_backend :: "(string \<Rightarrow> hub_lookup) \<Rightarrow> llm_provider \<Rightarrow> exc + openai_backend" where
  "mk_backend hub l =
     bind_res (if lp_thinking_budget_tokens l = None then Inr None
               else resolve_token_counter hub (lp_tokenizer_name l) (lp_model_name l)) (\<lambda>counter.
     bind_res (guard_res (\<not> (lp_thinking_budget_tokens l \<noteq> None \<and> counter = None))
       (ValueError (''thinking_budget_tokens requires a resolvable tokenizer '' @
          ''(set tokenizer_name or use a Hub-id-shaped model_name)''))) (\<lambda>_.
       Inr \<lparr>ob_config = l, ob_counter = counter\<rparr>))"

text \<open>The endpoint answers a body with a stream or with a failure; \<open>cl_open\<close> is the kept client.\<close>

type_synonym 's endpoint = "json \<Rightarrow> 's \<Rightarrow> (llm_exc + chunk list \<times> llm_exc option) \<times> 's"

record 's client =
  cl_open :: bool
  cl_world :: 's

definition create_and_read ::
    "'s endpoint \<Rightarrow> 'st accumulator \<Rightarrow> openai_backend \<Rightarrow> json \<Rightarrow> int option \<Rightarrow> 's \<Rightarrow>
       (llm_exc + completion) \<times> 's" where
  "create_and_read ep acc b body budget s =
     (case ep body s of
        (Inl e, s') \<Rightarrow> (Inl (bad_request e), s')
      | (Inr (chunks, failure), s') \<Rightarrow>
          (case completion_from_stream acc (case ob_counter b of None \<Rightarrow> (\<lambda>_. []) | Some tk \<Rightarrow> tk)
                  budget chunks failure of
             Inl e \<Rightarrow> (Inl (bad_request e), s') | Inr c \<Rightarrow> (Inr c, s')))"

definition open_client :: "(string \<Rightarrow> string option) \<Rightarrow> openai_backend \<Rightarrow> 's client \<Rightarrow> exc + 's client" where
  "open_client getenv b s =
     (if cl_open s then Inr s
      else case getenv (lp_api_key_env (ob_config b)) of
             None \<Rightarrow> Inl (RuntimeError (''environment variable '' @ lp_api_key_env (ob_config b) @
                '' is not set (named by llm_provider_config.api_key_env)''))
           | Some _ \<Rightarrow> Inr (s\<lparr>cl_open := True\<rparr>))"

definition close_client :: "'s client \<Rightarrow> 's client" where
  "close_client s = s\<lparr>cl_open := False\<rparr>"

text \<open>\<open>_complete\<close>: the result, the sleeps between the attempts, the state afterwards.\<close>

definition complete_raw ::
    "'s endpoint \<Rightarrow> 'st accumulator \<Rightarrow> (string \<Rightarrow> string option) \<Rightarrow> openai_backend \<Rightarrow> completion_request \<Rightarrow>
       's client \<Rightarrow> (llm_exc + completion) \<times> rat list \<times> 's client" where
  "complete_raw ep acc getenv b rq s =
     (case bind_res (build_request_body (ob_config b) rq) (\<lambda>body.
           bind_res (thinking_budget (ob_config b) (rq_enable_thinking rq)) (\<lambda>budget.
           bind_res (open_client getenv b s) (\<lambda>s1. Inr (body, budget, s1)))) of
        Inl e \<Rightarrow> (Inl (Foreign (OtherForeign e)), [], s)
      | Inr (body, budget, s1) \<Rightarrow>
          (case transient_retrying (create_and_read ep acc b (JObj body) budget) (cl_world s1) of
             (r, ws, w) \<Rightarrow> (r, ws, s1\<lparr>cl_world := w\<rparr>)))"

definition complete ::
    "'s endpoint \<Rightarrow> 'st accumulator \<Rightarrow> (string \<Rightarrow> string option) \<Rightarrow> openai_backend \<Rightarrow> completion_request \<Rightarrow>
       's client \<Rightarrow> (llm_exc + completion) \<times> rat list \<times> 's client" where
  "complete ep acc getenv b rq s =
     (case complete_raw ep acc getenv b rq s of
        (Inl e, ws, s') \<Rightarrow> (Inl (complete_ladder e), ws, s')
      | (Inr c, ws, s') \<Rightarrow> (Inr c, ws, s'))"

section \<open>The retry policy\<close>

text \<open>The state after \<open>k\<close> attempts, and the result of attempt \<open>k\<close>, counted from zero.\<close>

fun world_after :: "('s \<Rightarrow> 'r \<times> 's) \<Rightarrow> nat \<Rightarrow> 's \<Rightarrow> 's" where
  "world_after f 0 s = s"
| "world_after f (Suc k) s = world_after f k (snd (f s))"

definition attempt_result :: "('s \<Rightarrow> 'r \<times> 's) \<Rightarrow> nat \<Rightarrow> 's \<Rightarrow> 'r" where
  "attempt_result f k s = fst (f (world_after f k s))"

definition fails_transiently :: "llm_exc + 'a \<Rightarrow> bool" where
  "fails_transiently r \<longleftrightarrow> (\<exists>e. r = Inl e \<and> is_transient e)"

lemma attempt_result_Suc: "attempt_result f (Suc k) s = attempt_result f k (snd (f s))"
  by (simp add: attempt_result_def)

lemma retrying_spec:
  "\<exists>k \<le> left. retrying f left n s = (attempt_result f k s, map backoff [n..<n + k], world_after f (Suc k) s) \<and>
     (\<forall>i < k. fails_transiently (attempt_result f i s)) \<and>
     (k < left \<longrightarrow> \<not> fails_transiently (attempt_result f k s))"
proof (induction left arbitrary: n s)
  case 0
  show ?case by (auto simp: attempt_result_def split: prod.splits)
next
  case (Suc left)
  obtain r s1 where f: "f s = (r, s1)" by fastforce
  show ?case
  proof (cases "fails_transiently r")
    case True
    then obtain e where r: "r = Inl e" "is_transient e" by (auto simp: fails_transiently_def)
    from Suc.IH [of "Suc n" s1] obtain k where k: "k \<le> left"
      "retrying f left (Suc n) s1 = (attempt_result f k s1, map backoff [Suc n..<Suc n + k], world_after f (Suc k) s1)"
      "\<forall>i < k. fails_transiently (attempt_result f i s1)"
      "k < left \<longrightarrow> \<not> fails_transiently (attempt_result f k s1)" by blast
    have "retrying f (Suc left) n s =
        (attempt_result f (Suc k) s, map backoff [n..<n + Suc k], world_after f (Suc (Suc k)) s)"
      using f r k(2) upt_conv_Cons [of n "n + Suc k"] by (simp add: attempt_result_Suc)
    moreover have "fails_transiently (attempt_result f i s)" if "i < Suc k" for i
      using that k(3) f True by (cases i) (simp_all add: attempt_result_def)
    ultimately show ?thesis
      using k(1,4) f by (intro exI [of _ "Suc k"]) (simp add: attempt_result_Suc)
  next
    case False
    then have "retrying f (Suc left) n s = (r, [], s1)"
      using f by (auto simp: fails_transiently_def split: sum.splits)
    with False f show ?thesis by (intro exI [of _ 0]) (simp add: attempt_result_def)
  qed
qed

lemma backoff_total: "k \<le> 5 \<Longrightarrow> sum_list (map backoff [1..<Suc k]) \<le> 105"
proof -
  assume "k \<le> 5"
  then have "k \<in> {0, 1, 2, 3, 4, 5}" by (simp only: insert_iff empty_iff) arith
  then show ?thesis by (elim insertE emptyE) (simp_all add: backoff_def numeral_eq_Suc)
qed

lemma bad_request_transient: "is_transient (bad_request e) \<Longrightarrow> bad_request e = e"
  by (auto simp: bad_request_def context_window_error_def split: llm_exc.splits foreign_exc.splits if_splits)

fun is_foreign :: "llm_exc \<Rightarrow> bool" where
  "is_foreign (Foreign _) = True"
| "is_foreign _ = False"

lemma complete_ladder_typed: "\<not> is_foreign (complete_ladder e)"
  by (cases e) (auto simp: classified_completion_failure_def split: foreign_exc.splits)

text \<open>A request that can be sent: its thinking mode is resolvable and the key is at hand.\<close>

definition sendable ::
    "(string \<Rightarrow> string option) \<Rightarrow> openai_backend \<Rightarrow> completion_request \<Rightarrow> 's client \<Rightarrow> bool" where
  "sendable getenv b rq s \<longleftrightarrow>
     (rq_enable_thinking rq = None \<or> lp_enable_thinking (ob_config b) \<noteq> None) \<and>
     (cl_open s \<or> getenv (lp_api_key_env (ob_config b)) \<noteq> None)"

text \<open>One attempt at the request, as the retry loop makes it.\<close>

definition attempt ::
    "'s endpoint \<Rightarrow> 'st accumulator \<Rightarrow> openai_backend \<Rightarrow> completion_request \<Rightarrow> 's \<Rightarrow> (llm_exc + completion) \<times> 's" where
  "attempt ep acc b rq =
     (let thinking = (case rq_enable_thinking rq of None \<Rightarrow> lp_enable_thinking (ob_config b) | Some t \<Rightarrow> Some t)
      in create_and_read ep acc b (JObj (request_body (ob_config b) rq thinking))
           (if thinking = Some True then lp_thinking_budget_tokens (ob_config b) else None))"

lemma complete_raw_sendable:
  assumes "sendable getenv b rq s"
  shows "complete_raw ep acc getenv b rq s =
    (case transient_retrying (attempt ep acc b rq) (cl_world s) of (r, ws, w) \<Rightarrow> (r, ws, \<lparr>cl_open = True, cl_world = w\<rparr>))"
proof -
  let ?t = "case rq_enable_thinking rq of None \<Rightarrow> lp_enable_thinking (ob_config b) | Some t \<Rightarrow> Some t"
  have "resolved_thinking (ob_config b) (rq_enable_thinking rq) = Inr ?t"
    using assms by (auto simp: resolved_thinking_def sendable_def split: option.split)
  then have body: "build_request_body (ob_config b) rq = Inr (request_body (ob_config b) rq ?t)"
    and budget: "thinking_budget (ob_config b) (rq_enable_thinking rq) =
      Inr (if ?t = Some True then lp_thinking_budget_tokens (ob_config b) else None)"
    by (simp_all add: build_request_body_def thinking_budget_def)
  have client: "open_client getenv b s = Inr \<lparr>cl_open = True, cl_world = cl_world s\<rparr>"
    using assms by (cases s) (auto simp: open_client_def sendable_def split: option.split)
  show ?thesis
    unfolding complete_raw_def body budget client attempt_def Let_def
    by (simp split: prod.split)
qed

lemma complete_raw_unsendable:
  assumes "\<not> sendable getenv b rq s"
  shows "\<exists>e. complete_raw ep acc getenv b rq s = (Inl (Foreign (OtherForeign e)), [], s)"
  using assms
  by (auto simp: complete_raw_def sendable_def build_request_body_def resolved_thinking_def
      thinking_budget_def open_client_def split: option.splits)

lemma complete_cases:
  assumes "complete ep acc getenv b rq s = (r, ws, s')"
  shows "(\<forall>e. r = Inl e \<longrightarrow> \<not> is_foreign e) \<and>
    (if sendable getenv b rq s
     then (let f = attempt ep acc b rq; w = cl_world s in
       \<exists>k \<le> OPENAI_CLIENT_RETRY_BUDGET. ws = map backoff [1..<Suc k] \<and>
         s' = \<lparr>cl_open = True, cl_world = world_after f (Suc k) w\<rparr> \<and>
         (\<forall>i < k. fails_transiently (attempt_result f i w)) \<and>
         (k < OPENAI_CLIENT_RETRY_BUDGET \<longrightarrow> \<not> fails_transiently (attempt_result f k w)) \<and>
         r = map_sum complete_ladder id (attempt_result f k w))
     else ws = [] \<and> s' = s \<and> (\<exists>e. r = Inl (classified_completion_failure (OtherForeign e))))"
proof -
  obtain r0 where raw: "complete_raw ep acc getenv b rq s = (r0, ws, s')" and r: "r = map_sum complete_ladder id r0"
    using assms by (auto simp: complete_def split: prod.splits sum.splits)
  have typed: "\<not> is_foreign e" if "r = Inl e" for e
    using that r complete_ladder_typed by (cases r0) auto
  show ?thesis
  proof (cases "sendable getenv b rq s")
    case True
    from retrying_spec [of OPENAI_CLIENT_RETRY_BUDGET "attempt ep acc b rq" 1 "cl_world s"]
    obtain k where "k \<le> OPENAI_CLIENT_RETRY_BUDGET"
      "transient_retrying (attempt ep acc b rq) (cl_world s) =
         (attempt_result (attempt ep acc b rq) k (cl_world s), map backoff [1..<Suc k],
          world_after (attempt ep acc b rq) (Suc k) (cl_world s))"
      "\<forall>i < k. fails_transiently (attempt_result (attempt ep acc b rq) i (cl_world s))"
      "k < OPENAI_CLIENT_RETRY_BUDGET \<longrightarrow> \<not> fails_transiently (attempt_result (attempt ep acc b rq) k (cl_world s))"
      by (auto simp: transient_retrying_def)
    moreover from this(2) raw True r have "ws = map backoff [1..<Suc k]"
      "s' = \<lparr>cl_open = True, cl_world = world_after (attempt ep acc b rq) (Suc k) (cl_world s)\<rparr>"
      "r = map_sum complete_ladder id (attempt_result (attempt ep acc b rq) k (cl_world s))"
      by (simp_all add: complete_raw_sendable)
    ultimately show ?thesis using True typed unfolding Let_def by auto
  next
    case False
    with complete_raw_unsendable [OF False, of ep acc] raw r typed show ?thesis by auto
  qed
qed

text \<open>
  C23. Completions fail in a typed, bounded way: whatever the endpoint and the stream do, a call makes
  at most six attempts and sleeps at most 105 seconds in total, it retries exactly the transient
  failures, and the exception it raises, if any, is one of the typed ones, the classification of the
  last attempt's failure. A request that cannot be sent is not attempted and changes nothing.
\<close>

theorem completion_failures_typed:
  assumes "complete ep acc getenv b rq s = (r, ws, s')"
  shows "(\<forall>e. r = Inl e \<longrightarrow> \<not> is_foreign e) \<and> length ws \<le> 5 \<and> sum_list ws \<le> 105 \<and>
    (if sendable getenv b rq s
     then (let f = attempt ep acc b rq; w = cl_world s; k = length ws in
       ws = map backoff [1..<Suc k] \<and> s' = \<lparr>cl_open = True, cl_world = world_after f (Suc k) w\<rparr> \<and>
       (\<forall>i < k. fails_transiently (attempt_result f i w)) \<and>
       (k < 5 \<longrightarrow> \<not> fails_transiently (attempt_result f k w)) \<and>
       r = map_sum complete_ladder id (attempt_result f k w))
     else ws = [] \<and> s' = s \<and> (\<exists>e. r = Inl (classified_completion_failure (OtherForeign e))))"
proof (cases "sendable getenv b rq s")
  case True
  from complete_cases [OF assms] True obtain k where k: "k \<le> 5" "ws = map backoff [1..<Suc k]"
    and rest: "\<forall>e. r = Inl e \<longrightarrow> \<not> is_foreign e"
      "s' = \<lparr>cl_open = True, cl_world = world_after (attempt ep acc b rq) (Suc k) (cl_world s)\<rparr>"
      "\<forall>i < k. fails_transiently (attempt_result (attempt ep acc b rq) i (cl_world s))"
      "k < 5 \<longrightarrow> \<not> fails_transiently (attempt_result (attempt ep acc b rq) k (cl_world s))"
      "r = map_sum complete_ladder id (attempt_result (attempt ep acc b rq) k (cl_world s))"
    unfolding Let_def OPENAI_CLIENT_RETRY_BUDGET_def by auto
  have "length ws = k" using k(2) by simp
  moreover have "sum_list ws \<le> 105" unfolding k(2) by (rule backoff_total [OF k(1)])
  ultimately show ?thesis using True k rest by (simp add: Let_def del: upt_Suc)
next
  case False
  with complete_cases [OF assms] show ?thesis by auto
qed

text \<open>
  A completion outlives an outage: if the request can be sent, its first \<open>k\<close> attempts fail
  transiently and the next one is served, with \<open>k\<close> within the retry budget, then the call returns
  that completion, having slept the first \<open>k\<close> backoffs.
\<close>

lemma completion_outlives_outage:
  assumes "sendable getenv b rq s" and "k \<le> OPENAI_CLIENT_RETRY_BUDGET"
    and "\<forall>i < k. fails_transiently (attempt_result (attempt ep acc b rq) i (cl_world s))"
    and "attempt_result (attempt ep acc b rq) k (cl_world s) = Inr c"
  shows "complete ep acc getenv b rq s =
    (Inr c, map backoff [1..<Suc k], \<lparr>cl_open = True, cl_world = world_after (attempt ep acc b rq) (Suc k) (cl_world s)\<rparr>)"
proof -
  obtain r ws s' where run: "complete ep acc getenv b rq s = (r, ws, s')" by (cases "complete ep acc getenv b rq s") auto
  from complete_cases [OF run] assms(1) obtain j where j: "j \<le> OPENAI_CLIENT_RETRY_BUDGET"
    "ws = map backoff [1..<Suc j]"
    "s' = \<lparr>cl_open = True, cl_world = world_after (attempt ep acc b rq) (Suc j) (cl_world s)\<rparr>"
    "\<forall>i < j. fails_transiently (attempt_result (attempt ep acc b rq) i (cl_world s))"
    "j < OPENAI_CLIENT_RETRY_BUDGET \<longrightarrow> \<not> fails_transiently (attempt_result (attempt ep acc b rq) j (cl_world s))"
    "r = map_sum complete_ladder id (attempt_result (attempt ep acc b rq) j (cl_world s))"
    unfolding Let_def by auto
  have "\<not> fails_transiently (Inr c :: llm_exc + completion)" by (simp add: fails_transiently_def)
  then have "j = k" using assms(2-4) j(1,4,5) by (metis linorder_neqE_nat order_less_le_trans)
  with run j assms(4) show ?thesis by simp
qed

section \<open>What a cache key stands for\<close>

text \<open>Two calls send the same thing: the same model, sampling and routing, the same thinking mode and
  budget, and the same messages and tools up to the order of keys.\<close>

definition sent_alike :: "llm_provider \<Rightarrow> completion_request \<Rightarrow> llm_provider \<Rightarrow> completion_request \<Rightarrow> bool" where
  "sent_alike l rq l' rq' \<longleftrightarrow> lp_model_name l = lp_model_name l' \<and> lp_temperature l = lp_temperature l' \<and>
     lp_top_p l = lp_top_p l' \<and> lp_seed l = lp_seed l' \<and> lp_reasoning_effort l = lp_reasoning_effort l' \<and>
     lp_max_tokens l = lp_max_tokens l' \<and> lp_provider_only l = lp_provider_only l' \<and>
     resolved_thinking l (rq_enable_thinking rq) = resolved_thinking l' (rq_enable_thinking rq') \<and>
     thinking_budget l (rq_enable_thinking rq) = thinking_budget l' (rq_enable_thinking rq') \<and>
     map (canon \<circ> JObj) (rq_messages rq) = map (canon \<circ> JObj) (rq_messages rq') \<and>
     map canon (rq_tools rq) = map canon (rq_tools rq')"

lemma map_of_opt_member:
  "map_of (opt_member k f x @ ms) k' =
     (if k = k' then (case x of None \<Rightarrow> map_of ms k' | Some v \<Rightarrow> Some (f v)) else map_of ms k')"
  by (simp add: opt_member_def split: option.split)

lemma map_opt_member: "map (\<lambda>m. (fst m, g (snd m))) (opt_member k f x) = opt_member k (g \<circ> f) x"
  by (simp add: opt_member_def split: option.split)

lemma map_of_if_member:
  "map_of ((if c then [] else (k, v) # r) @ ms) k' =
     (if c then map_of ms k' else if k = k' then Some v else map_of (r @ ms) k')"
  by simp

lemma extra_body_canon:
  assumes "canon (JObj (extra_body l t)) = canon (JObj (extra_body l' t'))"
  shows "lp_provider_only l = lp_provider_only l'" and "t = t'"
proof -
  let ?p = "canon \<circ> (\<lambda>ps. JObj [(''only'', JArr (map JStr ps))])"
  let ?t = "canon \<circ> (\<lambda>b. JObj [(''enable_thinking'', JBool b)])"
  have "map_option canon (map_of (extra_body l t) k) = map_option canon (map_of (extra_body l' t') k)" for k
    by (rule canon_obj_lookup [OF assms])
  from this [of "''provider''"] this [of "''chat_template_kwargs''"]
  have eq: "map_option ?p (lp_provider_only l) = map_option ?p (lp_provider_only l')"
    "map_option ?t t = map_option ?t t'"
    by (auto simp: extra_body_def map_of_opt_member opt_member_def split: option.splits)
  have "inj JStr" by (simp add: inj_on_def)
  then have "inj ?p" by (simp add: inj_on_def inj_map_eq_map)
  then have "inj (map_option ?p)" by (rule option.inj_map)
  from injD [OF this, OF eq(1)] show "lp_provider_only l = lp_provider_only l'" .
  have "inj ?t" by (simp add: inj_on_def)
  then have "inj (map_option ?t)" by (rule option.inj_map)
  from injD [OF this, OF eq(2)] show "t = t'" .
qed

definition payload_members :: "llm_provider \<Rightarrow> completion_request \<Rightarrow> bool option \<Rightarrow> int option \<Rightarrow> (string \<times> json) list" where
  "payload_members l rq t budget =
     request_body l rq t @ [(''__client'', JObj [(''thinking_budget_tokens'', opt_json JInt budget)])]"

text \<open>What the payload maps each key to.\<close>

lemma payload_lookup:
  "map_of (payload_members l rq t b) ''model'' = Some (JStr (lp_model_name l))"
  "map_of (payload_members l rq t b) ''messages'' = Some (JArr (map JObj (rq_messages rq)))"
  "map_of (payload_members l rq t b) ''temperature'' = map_option JFloat (lp_temperature l)"
  "map_of (payload_members l rq t b) ''top_p'' = map_option JFloat (lp_top_p l)"
  "map_of (payload_members l rq t b) ''seed'' = map_option JInt (lp_seed l)"
  "map_of (payload_members l rq t b) ''reasoning_effort'' = map_option (JStr \<circ> effort_str) (lp_reasoning_effort l)"
  "map_of (payload_members l rq t b) ''max_tokens'' = Some (JInt (lp_max_tokens l))"
  "map_of (payload_members l rq t b) ''extra_body'' =
     (if extra_body l t = [] then None else Some (JObj (extra_body l t)))"
  "map_of (payload_members l rq t b) ''tools'' = (if rq_tools rq = [] then None else Some (JArr (rq_tools rq)))"
  "map_of (payload_members l rq t b) ''__client'' = Some (JObj [(''thinking_budget_tokens'', opt_json JInt b)])"
  by (simp_all add: payload_members_def request_body_def map_of_opt_member map_of_if_member map_option_case
      del: map_of_append split: option.split)

lemma sent_payload_canon:
  assumes "canon (JObj (payload_members l rq t b)) = canon (JObj (payload_members l' rq' t' b'))"
  shows "lp_model_name l = lp_model_name l'" "lp_temperature l = lp_temperature l'" "lp_top_p l = lp_top_p l'"
    "lp_seed l = lp_seed l'" "lp_reasoning_effort l = lp_reasoning_effort l'"
    "lp_max_tokens l = lp_max_tokens l'" "lp_provider_only l = lp_provider_only l'" "t = t'" "b = b'"
    "map (canon \<circ> JObj) (rq_messages rq) = map (canon \<circ> JObj) (rq_messages rq')"
    "map canon (rq_tools rq) = map canon (rq_tools rq')"
proof -
  have look: "map_option canon (map_of (payload_members l rq t b) k) = map_option canon (map_of (payload_members l' rq' t' b') k)" for k
    by (rule canon_obj_lookup [OF assms])
  have effort: "inj (JStr \<circ> effort_str)"
  proof (rule injI)
    show "(JStr \<circ> effort_str) x = (JStr \<circ> effort_str) y \<Longrightarrow> x = y" for x y by (cases x; cases y) simp_all
  qed
  then have effort': "inj (map_option (JStr \<circ> effort_str))" by (rule option.inj_map)
  have canon_effort: "canon \<circ> (JStr \<circ> effort_str) = JStr \<circ> effort_str" by (simp add: fun_eq_iff)
  show "lp_model_name l = lp_model_name l'" using look [of "''model''"] by (simp add: payload_lookup)
  show "lp_max_tokens l = lp_max_tokens l'" using look [of "''max_tokens''"] by (simp add: payload_lookup)
  show "lp_temperature l = lp_temperature l'" using look [of "''temperature''"]
    by (cases "lp_temperature l"; cases "lp_temperature l'") (simp_all add: payload_lookup)
  show "lp_top_p l = lp_top_p l'" using look [of "''top_p''"]
    by (cases "lp_top_p l"; cases "lp_top_p l'") (simp_all add: payload_lookup)
  show "lp_seed l = lp_seed l'" using look [of "''seed''"]
    by (cases "lp_seed l"; cases "lp_seed l'") (simp_all add: payload_lookup)
  show "lp_reasoning_effort l = lp_reasoning_effort l'" using look [of "''reasoning_effort''"]
    unfolding payload_lookup option.map_comp canon_effort by (rule injD [OF effort'])
  have "canon (JObj (extra_body l t)) = canon (JObj (extra_body l' t'))" using look [of "''extra_body''"]
    by (simp add: payload_lookup split: if_splits)
  then show "lp_provider_only l = lp_provider_only l'" "t = t'" by (rule extra_body_canon)+
  show "b = b'" using look [of "''__client''"] by (simp add: payload_lookup opt_json_canon)
  show "map (canon \<circ> JObj) (rq_messages rq) = map (canon \<circ> JObj) (rq_messages rq')"
    using look [of "''messages''"] by (simp add: payload_lookup)
  show "map canon (rq_tools rq) = map canon (rq_tools rq')"
    using look [of "''tools''"] by (simp add: payload_lookup split: if_splits)
qed

lemma payload_alike:
  assumes "sent_alike l rq l' rq'"
  shows "canon (JObj (payload_members l rq t b)) = canon (JObj (payload_members l' rq' t b))"
proof -
  have e: "extra_body l t = extra_body l' t" using assms by (simp add: sent_alike_def extra_body_def)
  have tools: "rq_tools rq = [] \<longleftrightarrow> rq_tools rq' = []" using assms by (metis sent_alike_def map_is_Nil_conv)
  have "map (\<lambda>m. (fst m, canon (snd m))) (payload_members l rq t b) =
      map (\<lambda>m. (fst m, canon (snd m))) (payload_members l' rq' t b)"
    using assms tools unfolding payload_members_def request_body_def e
    by (simp add: sent_alike_def map_opt_member)
  then show ?thesis by simp
qed

lemma cache_payload_Inr:
  "cache_payload l rq = Inr p \<Longrightarrow> \<exists>t b. resolved_thinking l (rq_enable_thinking rq) = Inr t \<and>
     thinking_budget l (rq_enable_thinking rq) = Inr b \<and> p = JObj (payload_members l rq t b)"
  by (auto simp: cache_payload_def build_request_body_def payload_members_def res_simps)

text \<open>
  The completion cache key is exact: where SHA-256 does not collide on the two payloads, two
  calls have one key exactly when they send the same thing to the model. In particular a request
  under another seed, temperature, thinking mode or thinking budget never reads this one's entry.
\<close>

theorem cache_key_exact:
  assumes "float_repr_ok fr" and "\<And>x y. x \<in> T \<Longrightarrow> y \<in> T \<Longrightarrow> sha x = sha y \<Longrightarrow> x = y"
    and "cache_payload l rq = Inr p" and "cache_payload l' rq' = Inr p'"
    and "dumps_compact fr p \<in> T" and "dumps_compact fr p' \<in> T"
  shows "cache_key sha fr l rq = cache_key sha fr l' rq' \<longleftrightarrow> sent_alike l rq l' rq'"
proof -
  from cache_payload_Inr [OF assms(3)] obtain t b where p: "resolved_thinking l (rq_enable_thinking rq) = Inr t"
    "thinking_budget l (rq_enable_thinking rq) = Inr b" "p = JObj (payload_members l rq t b)" by blast
  from cache_payload_Inr [OF assms(4)] obtain t' b' where p': "resolved_thinking l' (rq_enable_thinking rq') = Inr t'"
    "thinking_budget l' (rq_enable_thinking rq') = Inr b'" "p' = JObj (payload_members l' rq' t' b')" by blast
  have "cache_key sha fr l rq = cache_key sha fr l' rq' \<longleftrightarrow> sha (dumps_compact fr p) = sha (dumps_compact fr p')"
    by (simp add: cache_key_def assms(3,4))
  also have "\<dots> \<longleftrightarrow> dumps_compact fr p = dumps_compact fr p'" using assms(2) [OF assms(5,6)] by metis
  also have "\<dots> \<longleftrightarrow> canon p = canon p'"
    using dumps_compact_canon [OF assms(1)] by (metis dumps_compact_def)
  also have "\<dots> \<longleftrightarrow> sent_alike l rq l' rq'"
  proof
    assume "canon p = canon p'"
    note c = sent_payload_canon [OF this [unfolded p(3) p'(3)]]
    show "sent_alike l rq l' rq'" unfolding sent_alike_def using c p(1,2) p'(1,2) by simp
  next
    assume a: "sent_alike l rq l' rq'"
    then have "t' = t" "b' = b" using p(1,2) p'(1,2) by (simp_all add: sent_alike_def)
    with payload_alike [OF a] show "canon p = canon p'" unfolding p(3) p'(3) by metis
  qed
  finally show ?thesis .
qed

section \<open>The reasoning budget is enforced\<close>

abbreviation deltas :: "chunk list \<Rightarrow> delta list" where
  "deltas cs \<equiv> List.map_filter ck_delta cs"

text \<open>A text that is empty, or within 512 characters of a prefix that counted below the abort level.\<close>

definition near_counted :: "tokenizer \<Rightarrow> int \<Rightarrow> string \<Rightarrow> bool" where
  "near_counted tk budget text \<longleftrightarrow> text = [] \<or>
     (\<exists>p rest. text = p @ rest \<and> length rest < BUDGET_RECOUNT_CHARS \<and>
        int (token_count tk p) < budget + BUDGET_SLACK_TOKENS)"

definition watch_ok :: "tokenizer \<Rightarrow> budget_watch \<Rightarrow> bool" where
  "watch_ok tk w \<longleftrightarrow> \<not> bw_answered w \<and>
     (bw_reasoning w = [] \<and> bw_recount_at w = 0 \<or>
      (\<exists>p rest. bw_reasoning w = p @ rest \<and> bw_recount_at w = length p + BUDGET_RECOUNT_CHARS \<and>
         length rest < BUDGET_RECOUNT_CHARS \<and> int (token_count tk p) < bw_budget w + BUDGET_SLACK_TOKENS))"

lemma watch_ok_near: "watch_ok tk w \<Longrightarrow> near_counted tk (bw_budget w) (bw_reasoning w)"
  by (auto simp: watch_ok_def near_counted_def)

lemma overrun_step:
  assumes "watch_ok tk w" and "overrun tk d w = (hit, w')"
  shows "if answers d then \<not> hit \<and> bw_answered w'
    else bw_reasoning w' = bw_reasoning w @ reasons d \<and> bw_budget w' = bw_budget w \<and>
      (if hit then bw_budget w + BUDGET_SLACK_TOKENS \<le> int (token_count tk (bw_reasoning w'))
       else watch_ok tk w')"
proof (cases "answers d")
  case True
  with assms show ?thesis by (auto simp: overrun_def watch_ok_def)
next
  case False
  let ?t = "bw_reasoning w @ reasons d"
  show ?thesis
  proof (cases "length ?t < bw_recount_at w")
    case True
    with assms False have "hit = False" "w' = w\<lparr>bw_reasoning := ?t\<rparr>" by (auto simp: overrun_def watch_ok_def Let_def)
    moreover have "watch_ok tk (w\<lparr>bw_reasoning := ?t\<rparr>)"
    proof -
      obtain p rest where "bw_reasoning w = p @ rest" "bw_recount_at w = length p + BUDGET_RECOUNT_CHARS"
        "int (token_count tk p) < bw_budget w + BUDGET_SLACK_TOKENS"
        using assms(1) True by (auto simp: watch_ok_def)
      with assms(1) True show ?thesis
        unfolding watch_ok_def by (intro conjI disjI2 exI [of _ p] exI [of _ "rest @ reasons d"]) simp_all
    qed
    ultimately show ?thesis using False by simp
  next
    case long: False
    with assms False have "hit = (bw_budget w + BUDGET_SLACK_TOKENS \<le> int (token_count tk ?t))"
      "w' = w\<lparr>bw_reasoning := ?t, bw_recount_at := length ?t + BUDGET_RECOUNT_CHARS\<rparr>"
      by (auto simp: overrun_def watch_ok_def Let_def)
    moreover have "watch_ok tk w'" if "\<not> hit"
    proof -
      have "\<not> bw_answered w'" using assms(1) calculation(2) by (simp add: watch_ok_def)
      moreover have "int (token_count tk ?t) < bw_budget w' + BUDGET_SLACK_TOKENS"
        using that \<open>hit = _\<close> \<open>w' = _\<close> by simp
      ultimately show ?thesis
        unfolding watch_ok_def using \<open>w' = _\<close>
        by (intro conjI disjI2 exI [of _ ?t] exI [of _ "[]"]) (simp_all add: BUDGET_RECOUNT_CHARS_def)
    qed
    ultimately show ?thesis using False by simp
  qed
qed

lemma answered_drains:
  "bw_answered w \<Longrightarrow> read_chunks acc tk (Some w) st cs failure = Inr r \<Longrightarrow> \<exists>st'. r = Drained st'"
  by (induction cs arbitrary: st) (auto simp: overrun_def split: option.splits sum.splits prod.splits)

lemma read_chunks_budget:
  assumes "watch_ok tk w" and "read_chunks acc tk (Some w) st cs failure = Inr r"
  shows "(\<forall>t. r = BudgetAborted t \<longrightarrow>
      (\<exists>pre post. cs = pre @ post \<and> (\<forall>d \<in> set (deltas pre). \<not> answers d) \<and>
         t = bw_reasoning w @ concat (map reasons (deltas pre)) \<and>
         bw_budget w + BUDGET_SLACK_TOKENS \<le> int (token_count tk t))) \<and>
    (\<forall>st'. r = Drained st' \<longrightarrow> near_counted tk (bw_budget w)
      (bw_reasoning w @ concat (map reasons (takeWhile (\<lambda>d. \<not> answers d) (deltas cs)))))"
  using assms
proof (induction cs arbitrary: st w)
  case Nil
  then show ?case using watch_ok_near [of tk w] by (auto simp: List.map_filter_def split: option.splits)
next
  case (Cons c cs)
  obtain st1 where st1: "ac_chunk acc st c = Inr st1" using Cons.prems(2) by (auto split: sum.splits)
  show ?case
  proof (cases "ck_delta c")
    case None
    then have run: "read_chunks acc tk (Some w) st1 cs failure = Inr r" using Cons.prems(2) st1 by simp
    have "deltas (c # xs) = deltas xs" for xs using None by (simp add: List.map_filter_def)
    with Cons.IH [OF Cons.prems(1) run] show ?thesis by (metis append_Cons)
  next
    case (Some d)
    obtain hit w' where o: "overrun tk d w = (hit, w')" by fastforce
    have dc: "deltas (c # xs) = d # deltas xs" for xs using Some by (simp add: List.map_filter_def)
    have run: "if hit then r = BudgetAborted (bw_reasoning w')
        else read_chunks acc tk (Some w') st1 cs failure = Inr r"
      using Cons.prems(2) st1 Some o by (auto split: if_splits)
    note step = overrun_step [OF Cons.prems(1) o]
    show ?thesis
    proof (cases "answers d")
      case True
      with step run answered_drains [of w' acc tk st1 cs failure r] have "\<exists>st'. r = Drained st'" by auto
      then show ?thesis using watch_ok_near [OF Cons.prems(1)] True by (auto simp: Some)
    next
      case False
      show ?thesis
      proof (cases hit)
        case True
        with False step run have "r = BudgetAborted (bw_reasoning w @ reasons d)"
          "bw_budget w + BUDGET_SLACK_TOKENS \<le> int (token_count tk (bw_reasoning w @ reasons d))" by auto
        moreover have "\<exists>pre post. c # cs = pre @ post \<and> deltas pre = [d]"
          by (intro exI [of _ "[c]"] exI [of _ cs]) (simp add: Some List.map_filter_def)
        ultimately show ?thesis using False by fastforce
      next
        case ok: False
        with False step have w': "bw_reasoning w' = bw_reasoning w @ reasons d" "bw_budget w' = bw_budget w"
          "watch_ok tk w'" by auto
        have run': "read_chunks acc tk (Some w') st1 cs failure = Inr r" using run ok by simp
        from Cons.IH [OF w'(3) run'] show ?thesis
        proof (intro conjI allI impI)
          fix t assume "r = BudgetAborted t"
          with Cons.IH [OF w'(3) run'] obtain pre post where pp: "cs = pre @ post" "\<forall>d \<in> set (deltas pre). \<not> answers d"
            "t = bw_reasoning w' @ concat (map reasons (deltas pre))"
            "bw_budget w' + BUDGET_SLACK_TOKENS \<le> int (token_count tk t)" by blast
          then show "\<exists>pre post. c # cs = pre @ post \<and> (\<forall>d \<in> set (deltas pre). \<not> answers d) \<and>
              t = bw_reasoning w @ concat (map reasons (deltas pre)) \<and>
              bw_budget w + BUDGET_SLACK_TOKENS \<le> int (token_count tk t)"
            using False w' by (intro exI [of _ "c # pre"] exI [of _ post]) (simp add: Some)
        next
          fix st' assume "r = Drained st'"
          with Cons.IH [OF w'(3) run'] show "near_counted tk (bw_budget w)
              (bw_reasoning w @ concat (map reasons (takeWhile (\<lambda>d. \<not> answers d) (deltas (c # cs)))))"
            using False w' by (simp add: Some)
        qed
      qed
    qed
  qed
qed

text \<open>
  C24. The reasoning budget is enforced on every stream: a stream is cut only while the model has
  neither answered nor called a tool, and only once its reasoning counts at least the budget plus
  the slack; and a stream that is read to its end reasoned, before its first answer, at most 511
  characters past a prefix that counted below that level.
\<close>

theorem reasoning_budget_enforced:
  assumes "read_chunks acc tk (Some (fresh_watch budget)) st chunks failure = Inr r"
  shows "case r of
      BudgetAborted t \<Rightarrow>
        \<exists>pre post. chunks = pre @ post \<and> (\<forall>d \<in> set (deltas pre). \<not> answers d) \<and>
          t = concat (map reasons (deltas pre)) \<and> budget + BUDGET_SLACK_TOKENS \<le> int (token_count tk t)
    | Drained st' \<Rightarrow>
        near_counted tk budget (concat (map reasons (takeWhile (\<lambda>d. \<not> answers d) (deltas chunks))))"
proof -
  have "watch_ok tk (fresh_watch budget)" by (simp add: watch_ok_def fresh_watch_def)
  note read = read_chunks_budget [OF this assms]
  have f: "bw_budget (fresh_watch budget) = budget" "bw_reasoning (fresh_watch budget) = []"
    by (simp_all add: fresh_watch_def)
  show ?thesis using read unfolding f by (cases r) auto
qed

section \<open>Clipping\<close>

lemma truncate_clips:
  assumes "token_count tk TRUNCATION_MARKER < n" and "int n < int (token_count tk text)"
  shows "token_truncate tk text (int n) =
    Inr (take (snd (tk text ! (n - token_count tk TRUNCATION_MARKER - 1))) text @ TRUNCATION_MARKER)"
proof -
  have i: "int n - int (token_count tk TRUNCATION_MARKER) - 1 = int (n - token_count tk TRUNCATION_MARKER - 1)"
    using assms(1) by simp
  have "n - token_count tk TRUNCATION_MARKER - 1 < length (tk text)" using assms by (simp add: token_count_def)
  then show ?thesis
    using assms(2) unfolding token_truncate_def i by (simp add: py_index_def split: prod.split)
qed

text \<open>A limit of exactly the marker's own tokens makes the cut index \<open>-1\<close>, Python's last element: the
  whole text stays, with the marker after it, although it exceeds the limit.\<close>

lemma truncate_at_marker_keeps_all:
  assumes "token_count tk TRUNCATION_MARKER < token_count tk text"
  shows "token_truncate tk text (int (token_count tk TRUNCATION_MARKER)) =
    Inr (take (snd (last (tk text))) text @ TRUNCATION_MARKER)"
proof -
  have ne: "tk text \<noteq> []" using assms by (auto simp: token_count_def)
  then have "nat (int (length (tk text)) + - 1) = length (tk text) - 1" by simp
  with ne assms show ?thesis
    by (auto simp: token_truncate_def py_index_def token_count_def last_conv_nth split: prod.splits)
qed

section \<open>Witnesses\<close>

text \<open>One token per character, a response read from no stream, and an endpoint that fails once.\<close>

definition char_tokens :: tokenizer where
  "char_tokens text = map (\<lambda>i. (i, Suc i)) [0..<length text]"

definition sample_accumulator :: "unit accumulator" where
  "sample_accumulator = \<lparr>ac_start = (), ac_chunk = (\<lambda>st _. Inr st),
     ac_snapshot = (\<lambda>_. \<lparr>sn_message = Some \<lparr>rm_content = Some ''ok'', rm_finish_reason = Some ''stop'',
         rm_calls = [], rm_reasoning_content = None, rm_reasoning = None\<rparr>,
       sn_usage = None, sn_id = JStr ''i'', sn_model = JStr ''m'', sn_fingerprint = JNull\<rparr>)\<rparr>"

definition flaky_endpoint :: "nat endpoint" where
  "flaky_endpoint body n = (if n = 0 then Inl (Foreign (HttpxTimeout ''read'')) else Inr ([], None), Suc n)"

definition sample_backend :: openai_backend where
  "sample_backend = \<lparr>ob_config = sample_llm, ob_counter = None\<rparr>"

definition sample_request :: completion_request where
  "sample_request = \<lparr>rq_messages = [[(''role'', JStr ''user'')]], rq_tools = [], rq_enable_thinking = None\<rparr>"

definition closed_client :: "nat client" where
  "closed_client = \<lparr>cl_open = False, cl_world = 0\<rparr>"

abbreviation key_at_hand :: "string \<Rightarrow> string option" where
  "key_at_hand \<equiv> \<lambda>_. Some ''k''"

lemma sample_attempts:
  "attempt_result (attempt flaky_endpoint sample_accumulator sample_backend sample_request) 0 0 =
     Inl (Foreign (HttpxTimeout ''read''))"
  "\<exists>c. attempt_result (attempt flaky_endpoint sample_accumulator sample_backend sample_request) 1 0 = Inr c \<and>
     co_content c = Some ''ok''"
  by (simp_all add: attempt_result_def attempt_def create_and_read_def flaky_endpoint_def sample_backend_def
      sample_request_def sample_llm_def sample_accumulator_def bad_request_def completion_from_stream_def
      completion_of_def)

lemma sample_sendable: "sendable key_at_hand sample_backend sample_request closed_client"
  by (simp add: sendable_def sample_request_def)

lemma completion_outlives_outage_witness:
  "\<exists>c. complete flaky_endpoint sample_accumulator key_at_hand sample_backend sample_request closed_client =
    (Inr c, [4], \<lparr>cl_open = True, cl_world = 2\<rparr>) \<and> co_content c = Some ''ok''"
proof -
  obtain c where c: "attempt_result (attempt flaky_endpoint sample_accumulator sample_backend sample_request) 1 0 = Inr c"
    "co_content c = Some ''ok''" using sample_attempts(2) by blast
  have w: "cl_world closed_client = 0" by (simp add: closed_client_def)
  have "world_after (attempt flaky_endpoint sample_accumulator sample_backend sample_request) (Suc 1) 0 = 2"
    by (simp add: attempt_def create_and_read_def flaky_endpoint_def completion_from_stream_def
        sample_accumulator_def Let_def split: option.splits sum.splits)
  with completion_outlives_outage [OF sample_sendable, of 1 flaky_endpoint sample_accumulator c] c sample_attempts(1)
  show ?thesis by (simp add: w OPENAI_CLIENT_RETRY_BUDGET_def fails_transiently_def
      is_provider_rejected_tool_call_def backoff_def)
qed

text \<open>An endpoint that stays down: six attempts and 105 seconds, then a typed failure.\<close>

definition dead_endpoint :: "nat endpoint" where
  "dead_endpoint body n = (Inl (Foreign (HttpxTimeout ''read'')), Suc n)"

theorem completion_failures_typed_witness:
  "\<exists>e ws s'. complete dead_endpoint sample_accumulator key_at_hand sample_backend sample_request closed_client =
    (Inl e, ws, s') \<and> \<not> is_foreign e \<and> length ws \<le> 5 \<and> sum_list ws \<le> 105 \<and> e = CompletionInfraFailed ''read''"
proof -
  obtain r ws s' where run:
    "complete dead_endpoint sample_accumulator key_at_hand sample_backend sample_request closed_client = (r, ws, s')"
    by (cases "complete dead_endpoint sample_accumulator key_at_hand sample_backend sample_request closed_client") auto
  have "attempt_result (attempt dead_endpoint sample_accumulator sample_backend sample_request) k n =
      Inl (Foreign (HttpxTimeout ''read''))" for k n
    by (simp add: attempt_result_def attempt_def create_and_read_def dead_endpoint_def bad_request_def Let_def)
  with completion_failures_typed [OF run] sample_sendable have
    "r = Inl (CompletionInfraFailed ''read'')" "length ws \<le> 5" "sum_list ws \<le> 105"
    by (auto simp: Let_def classified_completion_failure_def is_provider_rejected_tool_call_def)
  with run show ?thesis by auto
qed

theorem cache_key_exact_witness:
  "cache_key id sample_repr sample_llm sample_request \<noteq>
   cache_key id sample_repr (sample_llm\<lparr>lp_seed := Some 2\<rparr>) sample_request"
proof -
  have "\<exists>p. cache_payload l sample_request = Inr p" for l
    by (simp add: cache_payload_def build_request_body_def thinking_budget_def resolved_thinking_def sample_request_def)
  then obtain p p' where p: "cache_payload sample_llm sample_request = Inr p"
    "cache_payload (sample_llm\<lparr>lp_seed := Some 2\<rparr>) sample_request = Inr p'" by blast
  have "\<not> sent_alike sample_llm sample_request (sample_llm\<lparr>lp_seed := Some 2\<rparr>) sample_request"
    by (simp add: sent_alike_def sample_llm_def)
  with cache_key_exact [OF sample_repr_ok _ p, of UNIV id] show ?thesis by simp
qed

text \<open>Ninety reasoning characters against a budget of ten tokens: the stream is cut.\<close>

definition reasoning_chunk :: "nat \<Rightarrow> chunk" where
  "reasoning_chunk n = \<lparr>ck_delta = Some \<lparr>de_content = None, de_tool_calls = False,
     de_reasoning_content = Some (replicate n (CHR ''r'')), de_reasoning = None\<rparr>, ck_raw = JNull\<rparr>"

theorem reasoning_budget_enforced_witness:
  "\<exists>t. read_chunks sample_accumulator char_tokens (Some (fresh_watch 10)) () [reasoning_chunk 90] None =
      Inr (BudgetAborted t) \<and> 74 \<le> token_count char_tokens t"
proof -
  let ?t = "replicate 90 (CHR ''r'')"
  have run: "read_chunks sample_accumulator char_tokens (Some (fresh_watch 10)) () [reasoning_chunk 90] None =
      Inr (BudgetAborted ?t)"
    by (simp add: reasoning_chunk_def overrun_def fresh_watch_def answers_def reasons_def reasoning_field_def
        token_count_def char_tokens_def BUDGET_SLACK_TOKENS_def sample_accumulator_def)
  from reasoning_budget_enforced [OF run] run show ?thesis by (auto simp: BUDGET_SLACK_TOKENS_def)
qed

end
