(* ===== verification/JsonRead.thy ===== *)
theory JsonRead
  imports Backend
begin

text \<open>
  A reader of the JSON text that \<open>Json\<close> writes, and the theorem that it inverts the writer: the
  instance of \<open>json.loads\<close> with which the properties that take it as a parameter are evaluated.
  \<open>pf\<close> reads the text of a float.
\<close>

fun str_body :: "nat \<Rightarrow> string \<Rightarrow> (string \<times> string) option" where
  "str_body 0 s = None"
| "str_body (Suc n) [] = None"
| "str_body (Suc n) (c # cs) =
     (if c = quote then Some ([], cs)
      else case unesc (c # cs) of
             None \<Rightarrow> None
           | Some (d, r) \<Rightarrow> (case str_body n r of None \<Rightarrow> None | Some (t, r') \<Rightarrow> Some (d # t, r')))"

definition read_int :: "string \<Rightarrow> int" where
  "read_int s = (if s \<noteq> [] \<and> hd s = CHR ''-'' then - int (digits_value (tl s)) else int (digits_value s))"

definition read_number :: "(string \<Rightarrow> rat option) \<Rightarrow> string \<Rightarrow> json option" where
  "read_number pf s =
     (if s = [] then None
      else if CHR ''.'' \<in> set s \<or> CHR ''e'' \<in> set s then map_option JFloat (pf s)
      else Some (JInt (read_int s)))"

fun read_val :: "(string \<Rightarrow> rat option) \<Rightarrow> nat \<Rightarrow> string \<Rightarrow> (json \<times> string) option"
  and read_items :: "(string \<Rightarrow> rat option) \<Rightarrow> nat \<Rightarrow> string \<Rightarrow> (json list \<times> string) option"
  and read_members :: "(string \<Rightarrow> rat option) \<Rightarrow> nat \<Rightarrow> string \<Rightarrow> ((string \<times> json) list \<times> string) option" where
  "read_val pf 0 s = None"
| "read_val pf (Suc n) s =
     (case s of
        [] \<Rightarrow> None
      | c # cs \<Rightarrow>
          (if c = quote then map_option (\<lambda>(t, r). (JStr t, r)) (str_body (length s) cs)
           else if c = CHR ''['' then
             (if cs \<noteq> [] \<and> hd cs = CHR '']'' then Some (JArr [], tl cs)
              else map_option (\<lambda>(xs, r). (JArr xs, r)) (read_items pf n cs))
           else if c = CHR ''{'' then
             (if cs \<noteq> [] \<and> hd cs = CHR ''}'' then Some (JObj [], tl cs)
              else map_option (\<lambda>(ms, r). (JObj ms, r)) (read_members pf n cs))
           else if c = CHR ''n'' then Some (JNull, drop 4 s)
           else if c = CHR ''t'' then Some (JBool True, drop 4 s)
           else if c = CHR ''f'' then Some (JBool False, drop 5 s)
           else map_option (\<lambda>v. (v, dropWhile num_char s)) (read_number pf (takeWhile num_char s))))"
| "read_items pf 0 s = None"
| "read_items pf (Suc n) s =
     (case read_val pf n s of
        None \<Rightarrow> None
      | Some (v, r) \<Rightarrow>
          (case r of
             [] \<Rightarrow> None
           | c # cs \<Rightarrow>
               (if c = CHR '','' then map_option (\<lambda>(vs, r'). (v # vs, r')) (read_items pf n cs)
                else if c = CHR '']'' then Some ([v], cs) else None)))"
| "read_members pf 0 s = None"
| "read_members pf (Suc n) s =
     (case s of
        [] \<Rightarrow> None
      | q # body \<Rightarrow>
          (if q \<noteq> quote then None
           else case str_body (length s) body of
                  None \<Rightarrow> None
                | Some (k, r) \<Rightarrow>
                    (if r = [] \<or> hd r \<noteq> CHR '':'' then None
                     else case read_val pf n (tl r) of
                            None \<Rightarrow> None
                          | Some (v, r') \<Rightarrow>
                              (case r' of
                                 [] \<Rightarrow> None
                               | c # cs \<Rightarrow>
                                   (if c = CHR '','' then map_option (\<lambda>(ms, t). ((k, v) # ms, t)) (read_members pf n cs)
                                    else if c = CHR ''}'' then Some ([(k, v)], cs) else None)))))"

definition read_json :: "(string \<Rightarrow> rat option) \<Rightarrow> string \<Rightarrow> string + json" where
  "read_json pf s =
     (case read_val pf (Suc (length s)) s of
        Some (v, []) \<Rightarrow> Inr v
      | _ \<Rightarrow> Inl ''Expecting value'')"

section \<open>Reading what was written\<close>

lemma str_body_esc: "length s < n \<Longrightarrow> str_body n (concat (map esc_char s) @ quote # r) = Some (s, r)"
proof (induction s arbitrary: n)
  case Nil
  then show ?case by (cases n) auto
next
  case (Cons c s)
  then obtain m where n: "n = Suc m" by (cases n) auto
  obtain d ds where e: "esc_char c = d # ds" "d \<noteq> quote" using esc_char_not_quote [of c] by blast
  have "unesc (d # ds @ concat (map esc_char s) @ quote # r) = Some (c, concat (map esc_char s) @ quote # r)"
    using unesc_esc [of c] e(1) by simp
  with Cons e show ?case by (simp add: n)
qed

lemma esc_length: "length s \<le> length (concat (map esc_char s))"
proof (induction s)
  case (Cons c s)
  moreover have "1 \<le> length (esc_char c)" using esc_char_not_quote [of c] by auto
  ultimately show ?case by simp
qed simp

lemma digits_value_nat_str: "digits_value (nat_str n) = n"
proof -
  have "of_char (digit_char d) - 48 = d" if "d < 10" for d :: nat
  proof -
    from that have "d \<in> {0, 1, 2, 3, 4, 5, 6, 7, 8, 9}" by (simp only: insert_iff empty_iff) arith
    then show ?thesis by (auto simp: digit_char_def)
  qed
  then have "foldl (\<lambda>a c. 10 * a + (of_char c - 48)) a (map digit_char ds) = foldl (\<lambda>a d. 10 * a + d) a ds"
    if "\<forall>d \<in> set ds. d < 10" for ds a using that by (induction ds arbitrary: a) auto
  then show ?thesis using nat_digits_less nat_digits_value [of n] by (auto simp: digits_value_def nat_str_def)
qed

lemma read_int_str: "read_int (int_str i) = i"
proof (cases "i < 0")
  case True
  then show ?thesis by (simp add: read_int_def int_str_def digits_value_nat_str)
next
  case False
  have "hd (nat_str (nat i)) \<in> set (nat_str (nat i))" using nat_str_nonempty by (rule hd_in_set)
  then have "hd (nat_str (nat i)) \<noteq> CHR ''-''" using nat_str_no_minus by metis
  with False show ?thesis by (simp add: read_int_def int_str_def digits_value_nat_str)
qed

definition float_text_ok :: "(rat \<Rightarrow> string) \<Rightarrow> (string \<Rightarrow> rat option) \<Rightarrow> bool" where
  "float_text_ok fr pf \<longleftrightarrow> float_repr_ok fr \<and> (\<forall>x. pf (fr x) = Some x)"

lemma read_number_int: "read_number pf (int_str i) = Some (JInt i)"
  using int_str_no_float [of i] int_str_nonempty [of i] by (simp add: read_number_def read_int_str)

lemma read_number_float: "float_text_ok fr pf \<Longrightarrow> read_number pf (fr x) = Some (JFloat x)"
  by (auto simp: float_text_ok_def float_repr_ok_def read_number_def)

text \<open>\<open>reads fr pf v\<close>: with enough fuel, the reader takes the text of \<open>v\<close> off any input it closes.\<close>

definition reads :: "(rat \<Rightarrow> string) \<Rightarrow> (string \<Rightarrow> rat option) \<Rightarrow> json \<Rightarrow> bool" where
  "reads fr pf v \<longleftrightarrow> (\<forall>n r. Suc (length (dumps fr v)) \<le> n \<longrightarrow> closes r \<longrightarrow>
     read_val pf n (dumps fr v @ r) = Some (v, r))"

lemma readsD: "reads fr pf v \<Longrightarrow> Suc (length (dumps fr v)) \<le> n \<Longrightarrow> closes r \<Longrightarrow>
    read_val pf n (dumps fr v @ r) = Some (v, r)"
  by (simp add: reads_def)

lemma take_number:
  assumes "list_all num_char s" "closes r"
  shows "takeWhile num_char (s @ r) = s" "dropWhile num_char (s @ r) = r"
proof -
  show t: "takeWhile num_char (s @ r) = s"
    using assms by (simp add: takeWhile_append list_all_iff closes_not_num)
  show "dropWhile num_char (s @ r) = r"
    using t by (metis append_eq_append_conv takeWhile_dropWhile_id)
qed

lemma reads_number:
  assumes "list_all num_char s" "s \<noteq> []" "read_number pf s = Some v" "closes r" "1 \<le> n"
  shows "read_val pf n (s @ r) = Some (v, r)"
proof -
  obtain c cs where s: "s = c # cs" using assms(2) by (cases s) auto
  have "num_char c" using assms(1) s by simp
  then have "c \<noteq> quote" "c \<noteq> CHR ''[''" "c \<noteq> CHR ''{''" "c \<noteq> CHR ''n''" "c \<noteq> CHR ''t''" "c \<noteq> CHR ''f''"
    by (auto simp: num_char_def)
  moreover obtain m where "n = Suc m" using assms(5) by (cases n) auto
  ultimately show ?thesis using take_number [OF assms(1,4)] assms(3) s by simp
qed

lemma reads_string: "1 \<le> n \<Longrightarrow> read_val pf n (quoted t @ r) = Some (JStr t, r)"
  using esc_length [of t] by (cases n) (simp_all add: quoted_def str_body_esc)

lemma reads_items:
  assumes "float_repr_ok fr" and "xs \<noteq> []" and "\<And>x. x \<in> set xs \<Longrightarrow> reads fr pf x"
    and "length (dumps_items fr xs) + 2 \<le> n"
  shows "read_items pf n (dumps_items fr xs @ CHR '']'' # r) = Some (xs, r)"
  using assms(2-4)
proof (induction xs arbitrary: n)
  case (Cons x xs)
  obtain m where n: "n = Suc m" using Cons.prems(3) by (cases n) auto
  have len: "Suc (length (dumps fr x)) \<le> m" using Cons.prems(3) n by (simp add: dumps_items_Cons)
  have x: "reads fr pf x" using Cons.prems(2) by simp
  show ?case
  proof (cases "xs = []")
    case True
    with readsD [OF x len, of "CHR '']'' # r"] show ?thesis by (simp add: n)
  next
    case False
    have "read_items pf m (dumps_items fr xs @ CHR '']'' # r) = Some (xs, r)"
      by (rule Cons.IH) (use False Cons.prems n in \<open>auto simp: dumps_items_Cons\<close>)
    with False readsD [OF x len, of "CHR '','' # dumps_items fr xs @ CHR '']'' # r"]
    show ?thesis by (simp add: n dumps_items_Cons)
  qed
qed simp

lemma reads_members:
  assumes "ms \<noteq> []" and "\<And>k v. (k, v) \<in> set ms \<Longrightarrow> reads fr pf v"
    and "length (dumps_members fr ms) + 2 \<le> n"
  shows "read_members pf n (dumps_members fr ms @ CHR ''}'' # r) = Some (ms, r)"
  using assms
proof (induction ms arbitrary: n)
  case (Cons m ms)
  obtain k v where m: "m = (k, v)" by (cases m) auto
  obtain i where n: "n = Suc i" using Cons.prems(3) by (cases n) auto
  have len: "Suc (length (dumps fr v)) \<le> i" using Cons.prems(3) n by (simp add: dumps_members_Cons m)
  have v: "reads fr pf v" using Cons.prems(2) m by auto
  have body: "str_body (length (quoted k @ t)) (concat (map esc_char k) @ quote # t) = Some (k, t)" for t
    by (rule str_body_esc) (use esc_length [of k] in \<open>simp add: quoted_def\<close>)
  have q: "quoted k @ t = quote # concat (map esc_char k) @ quote # t" for t by (simp add: quoted_def)
  show ?case
  proof (cases "ms = []")
    case True
    with readsD [OF v len, of "CHR ''}'' # r"] body [of "CHR '':'' # dumps fr v @ CHR ''}'' # r"]
    show ?thesis by (simp add: n m q)
  next
    case False
    let ?t = "CHR '','' # dumps_members fr ms @ CHR ''}'' # r"
    have "read_members pf i (dumps_members fr ms @ CHR ''}'' # r) = Some (ms, r)"
      by (rule Cons.IH) (use False Cons.prems n in \<open>auto simp: dumps_members_Cons\<close>)
    with False readsD [OF v len, of ?t] body [of "CHR '':'' # dumps fr v @ ?t"]
    show ?thesis by (simp add: n m q dumps_members_Cons)
  qed
qed simp

lemma reads_all:
  assumes "float_text_ok fr pf"
  shows "reads fr pf v"
proof -
  have fr: "float_repr_ok fr" using assms by (simp add: float_text_ok_def)
  show ?thesis
  proof (induction v)
    case (JBool b)
    have "read_val pf n (dumps fr (JBool b) @ r) = Some (JBool b, r)" if "0 < n" for n r
      using that by (cases n) simp_all
    then show ?case unfolding reads_def by (metis Suc_le_eq gr_zeroI not_less0)
  next
    case (JInt i)
    then show ?case
      by (auto simp: reads_def int_str_num int_str_nonempty read_number_int intro!: reads_number)
  next
    case (JFloat x)
    have "list_all num_char (fr x)" "fr x \<noteq> []" using fr by (simp_all add: float_repr_ok_def)
    then show ?case using read_number_float [OF assms] by (auto simp: reads_def intro!: reads_number)
  next
    case (JStr t)
    then show ?case by (auto simp: reads_def intro!: reads_string)
  next
    case (JArr xs)
    show ?case
      unfolding reads_def
    proof (intro allI impI)
      fix n r assume n: "Suc (length (dumps fr (JArr xs))) \<le> n" and "closes r"
      then obtain m where m: "n = Suc m" "length (dumps_items fr xs) + 2 \<le> m" by (cases n) auto
      show "read_val pf n (dumps fr (JArr xs) @ r) = Some (JArr xs, r)"
      proof (cases "xs = []")
        case False
        with reads_items [where r = r, OF fr False JArr m(2)] dumps_items_first [OF fr]
        show ?thesis
          by (cases xs; cases "dumps_items fr xs @ CHR '']'' # r") (auto simp: m(1))
      qed (simp add: m)
    qed
  next
    case (JObj ms)
    show ?case
      unfolding reads_def
    proof (intro allI impI)
      fix n r assume n: "Suc (length (dumps fr (JObj ms))) \<le> n" and "closes r"
      then obtain m where m: "n = Suc m" "length (dumps_members fr ms) + 2 \<le> m" by (cases n) auto
      show "read_val pf n (dumps fr (JObj ms) @ r) = Some (JObj ms, r)"
      proof (cases "ms = []")
        case False
        have "reads fr pf v" if "(k, v) \<in> set ms" for k v using JObj that by force
        from reads_members [where r = r, OF False this m(2)] False
        show ?thesis by (cases ms) (auto simp: m(1) dumps_members_Cons quoted_def)
      qed (simp add: m)
    qed
  qed (auto simp: reads_def dest!: Suc_le_D)
qed

theorem read_json_dumps: "float_text_ok fr pf \<Longrightarrow> read_json pf (dumps fr v) = Inr v"
  using readsD [OF reads_all, of fr pf v "Suc (length (dumps fr v))" "[]"] by (simp add: read_json_def)

text \<open>The reader of the sample float printer.\<close>

definition sample_float :: "string \<Rightarrow> rat option" where
  "sample_float s =
     (let a = takeWhile (\<lambda>c. c \<noteq> CHR ''.'') s; b = tl (dropWhile (\<lambda>c. c \<noteq> CHR ''.'') s)
      in Some (of_int (read_int a) / of_int (read_int b)))"

lemma sample_float_ok: "float_text_ok sample_repr sample_float"
proof -
  have "sample_float (sample_repr x) = Some x" for x
  proof -
    obtain n d where q: "quotient_of x = (n, d)" by fastforce
    have "c \<noteq> CHR ''.''" if "c \<in> set (int_str n)" for c using that int_str_no_float(1) [of n] by auto
    then have "takeWhile (\<lambda>c. c \<noteq> CHR ''.'') (int_str n @ CHR ''.'' # int_str d) = int_str n"
      "dropWhile (\<lambda>c. c \<noteq> CHR ''.'') (int_str n @ CHR ''.'' # int_str d) = CHR ''.'' # int_str d"
      by (simp_all add: takeWhile_append2 dropWhile_append2)
    moreover have "sample_repr x = int_str n @ CHR ''.'' # int_str d" by (simp add: sample_repr_def q)
    ultimately have "sample_float (sample_repr x) = Some (of_int n / of_int d)"
      by (simp add: sample_float_def read_int_str)
    then show ?thesis using quotient_of_div [OF q] by simp
  qed
  then show ?thesis by (simp add: float_text_ok_def sample_repr_ok)
qed

end
