(* ===== verification/Policy.thy ===== *)
theory Policy
  imports JsonRead
begin

text \<open>
  \<open>src/policy/core.py\<close>, its prompts, actions and rendering: the action space with its tool
  specifications, the parser of completions and its repair turns, the renderer of a trajectory into
  chat messages, and the fitting of a request into the context window. pydantic's coercion of an
  integer, its error texts and its schemas are parameters (\<open>policy_kit\<close>), as are \<open>json.loads\<close>
  and \<open>float.__repr__\<close>.
\<close>

type_synonym message = "(string \<times> json) list"

record policy_kit =
  pk_fr :: "rat \<Rightarrow> string"
  pk_loads :: "string \<Rightarrow> string + json"
  pk_int :: "json \<Rightarrow> int option"
  pk_error :: "string \<Rightarrow> (string \<times> json) list \<Rightarrow> string"
  pk_schema :: "string \<Rightarrow> json"

section \<open>Prompt surface\<close>

definition COMMAND_TIMEOUT_SEC :: int where
  "COMMAND_TIMEOUT_SEC = 300"

definition build_system_prompt :: string where
  "build_system_prompt = join_nl
     [''You are controlling a coding environment.'',
      ''Use run to execute shell commands in the environment.'',
      ''Each run command is terminated after its timeout_sec (default '' @ int_str COMMAND_TIMEOUT_SEC @
        ''s) and returns the output captured so far.'',
      ''Observation text may mask volatile tokens as <TIME>, <PID>, <BINARY_STDOUT>, and similar placeholders; '' @
        ''treat them as framework redactions of unstable runtime data.'',
      ''Return one or more tool calls. They execute in order with no intermediate observation, '' @
        ''then the resulting observation appears in the next turn.'',
      ''Call submit when the solution is ready for the authoritative task judgment; submit ends the trial '' @
        ''and the on-disk state of the environment at that point is what is graded.'']"

definition initial_user_prompt :: "string \<Rightarrow> string option \<Rightarrow> string" where
  "initial_user_prompt instruction working_dir =
     join_str [nl, nl] [''Task instruction:'', instruction,
       ''working_dir: '' @ (case working_dir of None \<Rightarrow> ''(unknown)'' | Some d \<Rightarrow> if d = [] then ''(unknown)'' else d)]"

definition MISSING_TOOL_CALL_REPAIR_PROMPT :: string where
  "MISSING_TOOL_CALL_REPAIR_PROMPT = ''Your previous response omitted the required tool call. '' @
     ''Return one or more tool calls and no natural language.''"

definition invalid_tool_call_repair_prompt :: "string \<Rightarrow> string" where
  "invalid_tool_call_repair_prompt error = ''Your previous tool call was invalid: '' @ error @ nl #
     ''Emit a corrected JSON tool call this turn.''"

definition context_omitted_note :: "nat \<Rightarrow> string" where
  "context_omitted_note dropped = ''['' @ nat_str dropped @
     '' earlier step(s) omitted to fit the context window; '' @ ''continue from the steps below.]''"

section \<open>Action space\<close>

datatype agent_action = RunTool string "string option" int | SubmitTool

fun agent_action_name :: "agent_action \<Rightarrow> string" where
  "agent_action_name (RunTool _ _ _) = ''run''"
| "agent_action_name SubmitTool = ''submit''"

text \<open>What the argument models admit: a nonempty command and a positive timeout.\<close>

fun agent_action_ok :: "agent_action \<Rightarrow> bool" where
  "agent_action_ok (RunTool command _ timeout_sec) \<longleftrightarrow> command \<noteq> [] \<and> 1 \<le> timeout_sec"
| "agent_action_ok SubmitTool \<longleftrightarrow> True"

definition TOOLS :: "(string \<times> string) list" where
  "TOOLS = [(''run'', ''Run one shell command.''),
     (''submit'', ''Submit the current solution for grading.'')]"

definition tool_spec :: "policy_kit \<Rightarrow> string \<times> string \<Rightarrow> json" where
  "tool_spec kit t = JObj [(''type'', JStr ''function''),
     (''function'', JObj [(''name'', JStr (fst t)), (''description'', JStr (snd t)),
       (''parameters'', pk_schema kit (fst t))])]"

definition build_tool_specs :: "policy_kit \<Rightarrow> json list" where
  "build_tool_specs kit = map (tool_spec kit) (sort_key fst TOOLS)"

fun build_env_action :: "agent_action \<Rightarrow> exc + run_action" where
  "build_env_action (RunTool command cwd timeout_sec) =
     Inr \<lparr>ra_command = command, ra_cwd = cwd, ra_timeout_sec = Some (of_int timeout_sec)\<rparr>"
| "build_env_action SubmitTool =
     Inl (ValueError (''unsupported editable action: '' @ [CHR 0x27] @ ''submit'' @ [CHR 0x27]))"

section \<open>Parsing\<close>

text \<open>Python's \<open>repr\<close> of a text with code points below 256.\<close>

definition repr_char :: "char \<Rightarrow> char \<Rightarrow> string" where
  "repr_char q c =
     (let n = of_char c :: nat
      in if c = q \<or> c = bslash then [bslash, c]
         else if c = CHR 0x0A then [bslash, CHR ''n'']
         else if c = CHR 0x0D then [bslash, CHR ''r'']
         else if c = CHR 0x09 then [bslash, CHR ''t'']
         else if n < 32 \<or> (127 \<le> n \<and> n \<le> 160) \<or> n = 173
         then [bslash, CHR ''x'', hex_digit (n div 16), hex_digit (n mod 16)]
         else [c])"

definition py_repr :: "string \<Rightarrow> string" where
  "py_repr s = (let q = (if CHR 0x27 \<in> set s \<and> quote \<notin> set s then quote else CHR 0x27)
     in q # concat (map (repr_char q) s) @ [q])"

definition parse_args :: "policy_kit \<Rightarrow> string \<Rightarrow> exc + json" where
  "parse_args kit args_text =
     (let raw = strip_ws args_text
      in if raw = [] then Inr (JObj [])
         else case pk_loads kit raw of Inl m \<Rightarrow> Inl (OtherError ''JSONDecodeError'' m) | Inr v \<Rightarrow> Inr v)"

definition run_args :: "policy_kit \<Rightarrow> (string \<times> json) list \<Rightarrow> agent_action option" where
  "run_args kit ms =
     (if \<not> fst ` set ms \<subseteq> {''command'', ''cwd'', ''timeout_sec''} then None
      else case map_of ms ''command'' of
        Some (JStr command) \<Rightarrow>
          (if command = [] then None
           else (case (case map_of ms ''timeout_sec'' of
                         None \<Rightarrow> Some COMMAND_TIMEOUT_SEC | Some v \<Rightarrow> pk_int kit v) of
              None \<Rightarrow> None
            | Some t \<Rightarrow>
                (if t < 1 then None
                 else (case map_of ms ''cwd'' of
                    None \<Rightarrow> Some (RunTool command None t)
                  | Some JNull \<Rightarrow> Some (RunTool command None t)
                  | Some (JStr d) \<Rightarrow> Some (RunTool command (Some d) t)
                  | Some _ \<Rightarrow> None))))
      | _ \<Rightarrow> None)"

definition submit_args :: "(string \<times> json) list \<Rightarrow> agent_action option" where
  "submit_args ms = (if ms = [] then Some SubmitTool else None)"

definition validate_args :: "policy_kit \<Rightarrow> string \<Rightarrow> json \<Rightarrow> exc + agent_action" where
  "validate_args kit name args =
     (case args of
        JObj ms \<Rightarrow>
          (if name \<notin> fst ` set TOOLS then Inl (KeyError name)
           else case (if name = ''run'' then run_args kit ms else submit_args ms) of
                  None \<Rightarrow> Inl (OtherError ''ValidationError'' (pk_error kit name ms))
                | Some a \<Rightarrow> Inr a)
      | _ \<Rightarrow> Inl (ValueError (name @ '': arguments must decode to an object'')))"

definition parse_action :: "policy_kit \<Rightarrow> tool_call \<Rightarrow> exc + agent_action" where
  "parse_action kit c = bind_res (parse_args kit (tool_arguments c)) (validate_args kit (tool_name c))"

definition missing_tool_call :: exc where
  "missing_tool_call = OtherError ''MissingToolCall'' ''model response omitted required tool call''"

definition check_offered :: "string list \<Rightarrow> tool_call \<Rightarrow> exc + unit" where
  "check_offered offered c = guard_res (tool_name c \<in> set offered)
     (ValueError (''tool '' @ py_repr (tool_name c) @ '' was not offered on this request; '' @
        ''offered tools: '' @ join_str '', '' (sort offered)))"

definition parse_actions :: "policy_kit \<Rightarrow> string list \<Rightarrow> completion \<Rightarrow> exc + agent_action list" where
  "parse_actions kit offered c =
     (if co_tool_calls c = [] then Inl missing_tool_call
      else bind_res (map_res (check_offered offered) (co_tool_calls c)) (\<lambda>_.
           map_res (parse_action kit) (co_tool_calls c)))"

definition user_message :: "string \<Rightarrow> message" where
  "user_message content = [(''role'', JStr ''user''), (''content'', JStr content)]"

definition repair_messages :: "completion \<Rightarrow> exc \<Rightarrow> message list" where
  "repair_messages c e =
     (if exc_name e = ''MissingToolCall''
      then [[(''role'', JStr ''assistant''),
             (''content'', JStr (case co_content c of None \<Rightarrow> [] | Some t \<Rightarrow> t))],
            user_message MISSING_TOOL_CALL_REPAIR_PROMPT]
      else [user_message (invalid_tool_call_repair_prompt (exc_detail e))])"

section \<open>Rendering a trajectory\<close>

datatype trajectory_step = Executed agent_action raw_output | FailedStep nat string

definition RESULT_TOKEN_LIMIT :: nat where "RESULT_TOKEN_LIMIT = 6000"
definition RESULT_CHAR_LIMIT :: nat where "RESULT_CHAR_LIMIT = 6000 * 4"
definition ARG_TOKEN_LIMIT :: nat where "ARG_TOKEN_LIMIT = 1000"
definition ARG_CHAR_LIMIT :: nat where "ARG_CHAR_LIMIT = ARG_TOKEN_LIMIT * 4"

definition bounded_text :: "tokenizer option \<Rightarrow> string \<Rightarrow> nat \<Rightarrow> nat \<Rightarrow> exc + string" where
  "bounded_text counter text token_limit char_limit =
     (case counter of
        Some tk \<Rightarrow> token_truncate tk text (int token_limit)
      | None \<Rightarrow>
          Inr (if length text \<le> char_limit then text
               else take (char_limit - length TRUNCATION_MARKER) text @ TRUNCATION_MARKER))"

definition clip_text :: "tokenizer option \<Rightarrow> string \<Rightarrow> exc + string" where
  "clip_text counter text = bounded_text counter text RESULT_TOKEN_LIMIT RESULT_CHAR_LIMIT"

definition would_clip :: "tokenizer option \<Rightarrow> string \<Rightarrow> bool" where
  "would_clip counter text =
     (case counter of
        Some tk \<Rightarrow> token_count tk text > RESULT_TOKEN_LIMIT
      | None \<Rightarrow> length text > RESULT_CHAR_LIMIT)"

definition stream_lines :: "tokenizer option \<Rightarrow> string \<Rightarrow> string \<Rightarrow> exc + string list" where
  "stream_lines counter label text =
     (if text = [] then Inr []
      else bind_res (clip_text counter (rstrip_nl text)) (\<lambda>t. Inr [label @ '':'', t]))"

definition tool_result :: "tokenizer option \<Rightarrow> raw_output \<Rightarrow> exc + string" where
  "tool_result counter out =
     bind_res (stream_lines counter ''stdout'' (ro_stdout out)) (\<lambda>stdout.
     bind_res (stream_lines counter ''stderr'' (ro_stderr out)) (\<lambda>stderr.
       (let ls = (case ro_exit_code out of None \<Rightarrow> [] | Some rc \<Rightarrow> [''rc='' @ int_str rc]) @ stdout @ stderr
        in Inr (if ls = [] then ''(no output)'' else join_nl ls))))"

definition failed_step_result :: "tokenizer option \<Rightarrow> nat \<Rightarrow> string \<Rightarrow> exc + string" where
  "failed_step_result counter attempts error =
     bind_res (clip_text counter error) (\<lambda>t.
       Inr (join_nl [''Previous step produced no valid action after '' @ nat_str attempts @ '' attempt(s).'',
                     ''Last validation error:'', t]))"

text \<open>\<open>model_dump(exclude_none=True)\<close>, with every text value clipped.\<close>

definition clipped_args :: "tokenizer option \<Rightarrow> agent_action \<Rightarrow> exc + (string \<times> json) list" where
  "clipped_args counter a =
     (case a of
        SubmitTool \<Rightarrow> Inr []
      | RunTool command cwd timeout_sec \<Rightarrow>
          bind_res (bounded_text counter command ARG_TOKEN_LIMIT ARG_CHAR_LIMIT) (\<lambda>c.
          bind_res (case cwd of None \<Rightarrow> Inr []
                    | Some d \<Rightarrow> bind_res (bounded_text counter d ARG_TOKEN_LIMIT ARG_CHAR_LIMIT)
                                  (\<lambda>d'. Inr [(''cwd'', JStr d')])) (\<lambda>cwd_arg.
            Inr ((''command'', JStr c) # cwd_arg @ [(''timeout_sec'', JInt timeout_sec)]))))"

definition call_id :: "nat \<Rightarrow> string" where
  "call_id i = (let d = nat_str i in ''call_'' @ replicate (4 - length d) (CHR ''0'') @ d)"

definition replay_tool_call :: "policy_kit \<Rightarrow> tokenizer option \<Rightarrow> agent_action \<Rightarrow> nat \<Rightarrow> exc + json" where
  "replay_tool_call kit counter a step_index =
     bind_res (clipped_args counter a) (\<lambda>args.
       Inr (JObj [(''id'', JStr (call_id step_index)), (''type'', JStr ''function''),
         (''function'', JObj [(''name'', JStr (agent_action_name a)),
            (''arguments'', JStr (dumps_compact (pk_fr kit) (JObj args)))])]))"

definition step_group ::
    "policy_kit \<Rightarrow> tokenizer option \<Rightarrow> nat \<Rightarrow> trajectory_step \<Rightarrow> exc + message list" where
  "step_group kit counter step_index st =
     (case st of
        FailedStep attempts error \<Rightarrow>
          bind_res (failed_step_result counter attempts error) (\<lambda>t. Inr [user_message t])
      | Executed a out \<Rightarrow>
          bind_res (replay_tool_call kit counter a step_index) (\<lambda>call.
          bind_res (tool_result counter out) (\<lambda>content.
            Inr [[(''role'', JStr ''assistant''), (''content'', JNull), (''tool_calls'', JArr [call])],
                 [(''role'', JStr ''tool''), (''tool_call_id'', JStr (call_id step_index)),
                  (''content'', JStr content)]])))"

fun is_executed :: "trajectory_step \<Rightarrow> bool" where
  "is_executed (Executed _ _) = True"
| "is_executed (FailedStep _ _) = False"

fun newest_executed :: "trajectory_step list \<Rightarrow> nat \<Rightarrow> nat option \<Rightarrow> nat option" where
  "newest_executed [] i found = found"
| "newest_executed (t # ts) i found = newest_executed ts (Suc i) (if is_executed t then Some i else found)"

definition retention_floor :: "trajectory_step list \<Rightarrow> int" where
  "retention_floor trajectory =
     (case newest_executed trajectory 0 None of
        Some i \<Rightarrow> int i | None \<Rightarrow> int (length trajectory) - 1)"

definition request_head :: "string \<Rightarrow> string option \<Rightarrow> message list" where
  "request_head instruction working_dir =
     [[(''role'', JStr ''system''), (''content'', JStr build_system_prompt)],
      user_message (initial_user_prompt instruction working_dir)]"

definition step_groups ::
    "policy_kit \<Rightarrow> tokenizer option \<Rightarrow> trajectory_step list \<Rightarrow> exc + message list list" where
  "step_groups kit counter trajectory =
     map_res (\<lambda>(i, t). step_group kit counter i t) (enumerate 1 trajectory)"

definition assemble ::
    "policy_kit \<Rightarrow> tokenizer option \<Rightarrow> string \<Rightarrow> string option \<Rightarrow> trajectory_step list \<Rightarrow>
       exc + message list \<times> message list list \<times> int" where
  "assemble kit counter instruction working_dir trajectory =
     bind_res (step_groups kit counter trajectory) (\<lambda>groups.
       Inr (request_head instruction working_dir, groups, retention_floor trajectory))"

section \<open>The context window\<close>

definition MAX_CALIBRATION :: rat where "MAX_CALIBRATION = 4"
definition CALIBRATION_MARGIN :: rat where "CALIBRATION_MARGIN = 105 / 100"
definition BLIND_RETRIM_STEP :: rat where "BLIND_RETRIM_STEP = 13 / 10"
definition RETRIM_BUDGET :: nat where "RETRIM_BUDGET = 3"

text \<open>\<open>json.dumps(value)\<close> with its default separators and the given key order.\<close>

fun dumps_spaced :: "(rat \<Rightarrow> string) \<Rightarrow> json \<Rightarrow> string" where
  "dumps_spaced fr (JArr xs) = ''['' @ join_str '', '' (map (dumps_spaced fr) xs) @ '']''"
| "dumps_spaced fr (JObj ms) =
     ''{'' @ join_str '', '' (map (\<lambda>m. quoted (fst m) @ '': '' @ dumps_spaced fr (snd m)) ms) @ ''}''"
| "dumps_spaced fr v = dumps fr v"

fun text_of :: "json option \<Rightarrow> string" where
  "text_of (Some (JStr s)) = s"
| "text_of _ = []"

fun call_texts :: "json \<Rightarrow> string list" where
  "call_texts (JObj ms) = (case map_of ms ''function'' of
      Some (JObj f) \<Rightarrow> [text_of (map_of f ''arguments''), text_of (map_of f ''name'')]
    | _ \<Rightarrow> [[], []])"
| "call_texts _ = [[], []]"

definition message_texts :: "message \<Rightarrow> string list" where
  "message_texts m = text_of (map_of m ''content'') #
     (case map_of m ''tool_calls'' of Some (JArr calls) \<Rightarrow> concat (map call_texts calls) | _ \<Rightarrow> [])"

definition estimate_message_tokens :: "tokenizer option \<Rightarrow> message \<Rightarrow> nat" where
  "estimate_message_tokens counter m =
     (case counter of
        Some tk \<Rightarrow> sum_list (map (token_count tk) (message_texts m)) + 16
      | None \<Rightarrow> sum_list (map length (message_texts m)) div 4 + 8)"

definition estimate_tools :: "policy_kit \<Rightarrow> tokenizer option \<Rightarrow> json list \<Rightarrow> nat" where
  "estimate_tools kit counter tools =
     (let text = dumps_spaced (pk_fr kit) (JArr tools)
      in case counter of Some tk \<Rightarrow> token_count tk text + 128 | None \<Rightarrow> length text div 4)"

definition estimate_request_tokens :: "policy_kit \<Rightarrow> tokenizer option \<Rightarrow> json list \<Rightarrow> message list \<Rightarrow> nat" where
  "estimate_request_tokens kit counter tools messages =
     sum_list (map (estimate_message_tokens counter) messages) + estimate_tools kit counter tools"

text \<open>The loop over the leading groups; below the flr an index is in range, as the flr is.\<close>

fun drop_groups :: "rat \<Rightarrow> int \<Rightarrow> nat list \<Rightarrow> int \<Rightarrow> nat \<Rightarrow> nat" where
  "drop_groups room flr [] step_tokens start = start"
| "drop_groups room flr (g # gs) step_tokens start =
     (if of_int step_tokens > room \<and> int start < flr
      then drop_groups room flr gs (step_tokens - int g) (Suc start) else start)"

record window_config =
  wc_max_context_length :: int
  wc_max_completion_tokens :: int
  wc_tools :: "json list"
  wc_counter :: "tokenizer option"

definition group_tokens :: "tokenizer option \<Rightarrow> message list list \<Rightarrow> nat list" where
  "group_tokens counter groups = map (\<lambda>g. sum_list (map (estimate_message_tokens counter) g)) groups"

definition step_room :: "policy_kit \<Rightarrow> window_config \<Rightarrow> rat \<Rightarrow> message list \<Rightarrow> message list \<Rightarrow> rat" where
  "step_room kit w calibration head turn_messages =
     of_int (wc_max_context_length w - wc_max_completion_tokens w) / max calibration 1 -
     of_nat (estimate_request_tokens kit (wc_counter w) (wc_tools w) head +
             sum_list (map (estimate_message_tokens (wc_counter w)) turn_messages))"

definition kept_from :: "message list \<Rightarrow> message list list \<Rightarrow> nat \<Rightarrow> message list" where
  "kept_from head groups start =
     head @ (if start = 0 then [] else [user_message (context_omitted_note start)]) @ concat (drop start groups)"

definition fit ::
    "policy_kit \<Rightarrow> window_config \<Rightarrow> rat \<Rightarrow> message list \<Rightarrow> message list list \<Rightarrow> int \<Rightarrow> message list \<Rightarrow>
       message list \<times> nat" where
  "fit kit w calibration head groups flr turn_messages =
     (let gs = group_tokens (wc_counter w) groups;
          start = drop_groups (step_room kit w calibration head turn_messages) flr gs (int (sum_list gs)) 0
      in (kept_from head groups start, start))"

definition calibrate_from_usage ::
    "policy_kit \<Rightarrow> window_config \<Rightarrow> completion \<Rightarrow> message list \<Rightarrow> rat \<Rightarrow> exc + rat" where
  "calibrate_from_usage kit w c request calibration =
     (case us_prompt_tokens (co_usage c) of
        None \<Rightarrow> Inr calibration
      | Some tokens \<Rightarrow>
          (let estimate = estimate_request_tokens kit (wc_counter w) (wc_tools w) request
           in if estimate = 0 then Inl (OtherError ''ZeroDivisionError'' ''division by zero'')
              else Inr (min MAX_CALIBRATION (max 1 (of_nat tokens / of_nat estimate)))))"

text \<open>The new calibration, or none where it could not be raised.\<close>

definition shrink_for_overflow ::
    "policy_kit \<Rightarrow> window_config \<Rightarrow> nat option \<Rightarrow> message list \<Rightarrow> rat \<Rightarrow> exc + rat option" where
  "shrink_for_overflow kit w input_tokens request calibration =
     bind_res (case input_tokens of
         None \<Rightarrow> Inr (calibration * BLIND_RETRIM_STEP)
       | Some n \<Rightarrow>
           (let estimate = estimate_request_tokens kit (wc_counter w) (wc_tools w) request
            in if estimate = 0 then Inl (OtherError ''ZeroDivisionError'' ''division by zero'')
               else Inr (of_nat n / of_nat estimate * CALIBRATION_MARGIN))) (\<lambda>target.
       (let new = min MAX_CALIBRATION (max calibration target)
        in Inr (if new \<le> calibration then None else Some new)))"

section \<open>What fitting keeps\<close>

text \<open>The loop stops at the first index from which the rest fits, or at the floor.\<close>

lemma drop_groups_spec:
  assumes "k = drop_groups room flr gs (int (sum_list gs)) start"
  shows "start \<le> k \<and> k \<le> start + length gs \<and> (k = start \<or> int k \<le> flr) \<and>
    (\<forall>j. start \<le> j \<longrightarrow> j < k \<longrightarrow> room < of_nat (sum_list (drop (j - start) gs))) \<and>
    (k < start + length gs \<longrightarrow> of_nat (sum_list (drop (k - start) gs)) \<le> room \<or> flr \<le> int k)"
  using assms
proof (induction gs arbitrary: start)
  case (Cons g gs)
  show ?case
  proof (cases "of_int (int (sum_list (g # gs))) > room \<and> int start < flr")
    case False
    with Cons.prems show ?thesis by auto
  next
    case True
    then have k: "k = drop_groups room flr gs (int (sum_list gs)) (Suc start)" using Cons.prems by simp
    note ih = Cons.IH [OF k]
    have "room < of_nat (sum_list (drop (j - start) (g # gs)))" if "start \<le> j" "j < k" for j
    proof (cases "j = start")
      case True
      with \<open>of_int _ > room \<and> _\<close> show ?thesis by simp
    next
      case False
      with that have "Suc start \<le> j" "j - start = Suc (j - Suc start)" by simp_all
      with ih that show ?thesis by simp
    qed
    moreover have "k - start = Suc (k - Suc start)" using ih by (simp add: Suc_diff_Suc)
    ultimately show ?thesis using ih True by auto
  qed
qed simp

lemma newest_executed_spec:
  "newest_executed ts i found =
     (if \<exists>j < length ts. is_executed (ts ! j)
      then Some (i + Max {j. j < length ts \<and> is_executed (ts ! j)}) else found)"
proof (induction ts arbitrary: i found)
  case (Cons t ts)
  let ?A = "{j. j < length ts \<and> is_executed (ts ! j)}" and ?B = "{j. j < length (t # ts) \<and> is_executed ((t # ts) ! j)}"
  have B: "?B = Suc ` ?A \<union> (if is_executed t then {0} else {})"
  proof (rule set_eqI)
    show "j \<in> ?B \<longleftrightarrow> j \<in> Suc ` ?A \<union> (if is_executed t then {0} else {})" for j by (cases j) auto
  qed
  have fin: "finite ?A" by simp
  have ex: "(\<exists>j < length (t # ts). is_executed ((t # ts) ! j)) \<longleftrightarrow> ?A \<noteq> {} \<or> is_executed t"
    using B by (auto split: if_splits)
  have mx: "Max ?B = Suc (Max ?A)" if ne: "?A \<noteq> {}"
  proof -
    have "Max (Suc ` ?A) = Suc (Max ?A)" using fin ne by (simp add: mono_Max_commute [symmetric] mono_Suc)
    then show ?thesis unfolding B using fin ne by (auto simp: Max_Un)
  qed
  have "Max ?B = 0" if "?A = {}" "is_executed t" unfolding B that(1) using that(2) by simp
  moreover have "newest_executed ts i' f = (if ?A \<noteq> {} then Some (i' + Max ?A) else f)" for i' f
  proof -
    have "(\<exists>j < length ts. is_executed (ts ! j)) \<longleftrightarrow> ?A \<noteq> {}" by auto
    then show ?thesis unfolding Cons.IH by (rule if_cong) (rule refl)+
  qed
  ultimately show ?case unfolding ex newest_executed.simps
    by (cases "?A = {}"; cases "is_executed t") (simp_all only: mx if_True if_False simp_thms add_Suc_right add_Suc add_0_right)
qed simp

text \<open>Dropping up to the floor leaves a step of the trajectory, and the newest executed one if any.\<close>

definition keeps_newest :: "trajectory_step list \<Rightarrow> nat \<Rightarrow> bool" where
  "keeps_newest trajectory k \<longleftrightarrow> (trajectory \<noteq> [] \<longrightarrow> k < length trajectory) \<and>
     (\<forall>i < length trajectory. is_executed (trajectory ! i) \<longrightarrow>
        (\<exists>j < length trajectory. i \<le> j \<and> k \<le> j \<and> is_executed (trajectory ! j)))"

lemma retention_floor_keeps:
  assumes "k = 0 \<or> int k \<le> retention_floor trajectory"
  shows "keeps_newest trajectory k"
proof (cases "\<exists>j < length trajectory. is_executed (trajectory ! j)")
  case True
  let ?A = "{j. j < length trajectory \<and> is_executed (trajectory ! j)}"
  have A: "finite ?A" "?A \<noteq> {}" using True by auto
  then have m: "Max ?A \<in> ?A" by (rule Max_in)
  have "retention_floor trajectory = int (Max ?A)"
    using True by (simp add: retention_floor_def newest_executed_spec)
  with assms have "k \<le> Max ?A" by auto
  with m Max_ge [OF A(1)] show ?thesis unfolding keeps_newest_def by fastforce
next
  case False
  then have "newest_executed trajectory 0 None = None" by (simp add: newest_executed_spec)
  then have "retention_floor trajectory = int (length trajectory) - 1" by (simp add: retention_floor_def)
  with assms False show ?thesis by (auto simp: keeps_newest_def)
qed

lemma fit_keeps:
  assumes "fit kit w calibration head groups flr turn = (base, k)"
  shows "base = kept_from head groups k" and "k = 0 \<or> int k \<le> flr"
    and "k < length groups \<longrightarrow> of_nat (sum_list (drop k (group_tokens (wc_counter w) groups))) \<le>
        step_room kit w calibration head turn \<or> flr \<le> int k"
    and "\<forall>j < k. step_room kit w calibration head turn <
        of_nat (sum_list (drop j (group_tokens (wc_counter w) groups)))"
proof -
  let ?gs = "group_tokens (wc_counter w) groups"
  have k: "k = drop_groups (step_room kit w calibration head turn) flr ?gs (int (sum_list ?gs)) 0"
    and b: "base = kept_from head groups k"
    using assms by (auto simp: fit_def Let_def)
  have "length ?gs = length groups" by (simp add: group_tokens_def)
  with drop_groups_spec [OF k] show "k = 0 \<or> int k \<le> flr"
    "k < length groups \<longrightarrow> of_nat (sum_list (drop k ?gs)) \<le> step_room kit w calibration head turn \<or> flr \<le> int k"
    "\<forall>j < k. step_room kit w calibration head turn < of_nat (sum_list (drop j ?gs))" by simp_all
  show "base = kept_from head groups k" by (rule b)
qed

lemma estimate_positive: "messages \<noteq> [] \<Longrightarrow> 0 < estimate_request_tokens kit counter tools messages"
proof -
  assume "messages \<noteq> []"
  then obtain m ms where "messages = m # ms" by (cases messages) auto
  moreover have "0 < estimate_message_tokens counter m"
    by (simp add: estimate_message_tokens_def split: option.split)
  ultimately show ?thesis by (simp add: estimate_request_tokens_def)
qed

section \<open>Replayed calls parse back\<close>

text \<open>An action with its text arguments clipped as the replay clips them.\<close>

definition clipped_action :: "tokenizer option \<Rightarrow> agent_action \<Rightarrow> exc + agent_action" where
  "clipped_action counter a =
     (case a of
        SubmitTool \<Rightarrow> Inr SubmitTool
      | RunTool command cwd timeout_sec \<Rightarrow>
          bind_res (bounded_text counter command ARG_TOKEN_LIMIT ARG_CHAR_LIMIT) (\<lambda>c.
          bind_res (case cwd of None \<Rightarrow> Inr None
                    | Some d \<Rightarrow> bind_res (bounded_text counter d ARG_TOKEN_LIMIT ARG_CHAR_LIMIT)
                                  (\<lambda>d'. Inr (Some d'))) (\<lambda>d.
            Inr (RunTool c d timeout_sec))))"

lemma strip_ws_braces: "strip_ws (CHR ''{'' # s @ ''}'') = CHR ''{'' # s @ ''}''"
  by (simp add: strip_ws_def whitespace_def line_breaks_def)

lemma bounded_text_nonempty: "bounded_text counter t n m = Inr t' \<Longrightarrow> t \<noteq> [] \<Longrightarrow> t' \<noteq> []"
  by (auto simp: bounded_text_def token_truncate_def TRUNCATION_MARKER_def res_simps split: option.splits if_splits)

lemma parse_args_dumps:
  assumes "pk_loads kit (dumps_compact (pk_fr kit) (JObj ms)) = Inr v"
  shows "parse_args kit (dumps_compact (pk_fr kit) (JObj ms)) = Inr v"
proof -
  obtain t where t: "dumps_compact (pk_fr kit) (JObj ms) = CHR ''{'' # t @ ''}''" by (simp add: dumps_compact_def)
  with assms show ?thesis unfolding parse_args_def t strip_ws_braces by simp
qed

lemma run_args_canon:
  assumes "command \<noteq> []" "1 \<le> t" "pk_int kit (JInt t) = Some t" "cwd_arg = opt_member ''cwd'' JStr cwd"
  shows "run_args kit (sort_key fst ((''command'', JStr command) # cwd_arg @ [(''timeout_sec'', JInt t)])) =
    Some (RunTool command cwd t)"
  using assms by (cases cwd) (auto simp: run_args_def map_of_sort_key opt_member_def)

lemma replay_parses:
  assumes "\<And>v. pk_loads kit (dumps_compact (pk_fr kit) v) = Inr (canon v)"
    and "\<And>n. pk_int kit (JInt n) = Some n"
    and "agent_action_ok a" and "clipped_action counter a = Inr a'"
  shows "\<exists>text. replay_tool_call kit counter a i =
      Inr (JObj [(''id'', JStr (call_id i)), (''type'', JStr ''function''),
        (''function'', JObj [(''name'', JStr (agent_action_name a)), (''arguments'', JStr text)])]) \<and>
    parse_action kit \<lparr>tool_name = agent_action_name a, tool_arguments = text\<rparr> = Inr a'"
proof (cases a)
  case SubmitTool
  have "parse_args kit (dumps_compact (pk_fr kit) (JObj [])) = Inr (JObj [])"
    by (rule parse_args_dumps) (simp add: assms(1))
  with SubmitTool assms(4) show ?thesis
    by (simp add: replay_tool_call_def clipped_args_def clipped_action_def parse_action_def validate_args_def
        TOOLS_def submit_args_def)
next
  case (RunTool command cwd t)
  with assms(4) obtain c d where c: "bounded_text counter command ARG_TOKEN_LIMIT ARG_CHAR_LIMIT = Inr c"
    and d: "case cwd of None \<Rightarrow> d = None
      | Some x \<Rightarrow> (\<exists>y. bounded_text counter x ARG_TOKEN_LIMIT ARG_CHAR_LIMIT = Inr y \<and> d = Some y)"
    and a': "a' = RunTool c d t"
    by (auto simp: clipped_action_def res_simps split: option.splits)
  let ?ms = "(''command'', JStr c) # opt_member ''cwd'' JStr d @ [(''timeout_sec'', JInt t)]"
  have args: "clipped_args counter a = Inr ?ms"
    using RunTool c d by (auto simp: clipped_args_def opt_member_def split: option.splits)
  have "c \<noteq> []" "1 \<le> t" using bounded_text_nonempty [OF c] assms(3) RunTool by simp_all
  note run = run_args_canon [OF this assms(2) refl, of d]
  have "canon (JObj ?ms) = JObj (sort_key fst ?ms)" by (cases d) (simp_all add: opt_member_def)
  with assms(1) have "parse_args kit (dumps_compact (pk_fr kit) (JObj ?ms)) = Inr (JObj (sort_key fst ?ms))"
    by (intro parse_args_dumps) metis
  with run have "parse_action kit \<lparr>tool_name = ''run'', tool_arguments = dumps_compact (pk_fr kit) (JObj ?ms)\<rparr> = Inr a'"
    by (simp add: parse_action_def validate_args_def TOOLS_def a')
  with args RunTool show ?thesis by (simp add: replay_tool_call_def)
qed

definition action_fits :: "agent_action \<Rightarrow> bool" where
  "action_fits a \<longleftrightarrow> (case a of SubmitTool \<Rightarrow> True
     | RunTool command cwd _ \<Rightarrow> length command \<le> ARG_CHAR_LIMIT \<and> opt_all (\<lambda>d. length d \<le> ARG_CHAR_LIMIT) cwd)"

lemma action_fits_unclipped: "action_fits a \<Longrightarrow> clipped_action None a = Inr a"
  by (auto simp: action_fits_def clipped_action_def bounded_text_def opt_all_def
      split: agent_action.splits option.splits)

text \<open>
  C26. Replayed tool calls parse back: where \<open>json.loads\<close> inverts \<open>json.dumps\<close> and integers are
  read as integers, the call an executed action is replayed as is one the parser accepts, and it
  parses to that action with its text arguments clipped, hence to the action itself when they are
  within the limits.
\<close>

theorem replayed_call_parses:
  assumes "\<And>v. pk_loads kit (dumps_compact (pk_fr kit) v) = Inr (canon v)"
    and "\<And>n. pk_int kit (JInt n) = Some n"
    and "agent_action_ok a" and "clipped_action counter a = Inr a'"
  shows "\<exists>text. replay_tool_call kit counter a i =
      Inr (JObj [(''id'', JStr (call_id i)), (''type'', JStr ''function''),
        (''function'', JObj [(''name'', JStr (agent_action_name a)), (''arguments'', JStr text)])]) \<and>
    parse_action kit \<lparr>tool_name = agent_action_name a, tool_arguments = text\<rparr> = Inr a' \<and>
    (counter = None \<longrightarrow> action_fits a \<longrightarrow> a' = a)"
proof -
  have "counter = None \<longrightarrow> action_fits a \<longrightarrow> a' = a" using action_fits_unclipped [of a] assms(4) by auto
  with replay_parses [OF assms, of i] show ?thesis by blast
qed

definition sample_kit :: policy_kit where
  "sample_kit = \<lparr>pk_fr = sample_repr, pk_loads = read_json sample_float,
     pk_int = (\<lambda>v. case v of JInt n \<Rightarrow> Some n | _ \<Rightarrow> None), pk_error = (\<lambda>_ _. ''invalid arguments''),
     pk_schema = (\<lambda>_. JObj [])\<rparr>"

lemma sample_kit_reads: "pk_loads sample_kit (dumps_compact (pk_fr sample_kit) v) = Inr (canon v)"
  by (simp add: sample_kit_def dumps_compact_def read_json_dumps [OF sample_float_ok])

theorem replayed_call_parses_witness:
  "\<exists>text. replay_tool_call sample_kit None (RunTool ''ls -l'' (Some ''/w'') 60) 3 =
      Inr (JObj [(''id'', JStr (call_id 3)), (''type'', JStr ''function''),
        (''function'', JObj [(''name'', JStr ''run''), (''arguments'', JStr text)])]) \<and>
    parse_action sample_kit \<lparr>tool_name = ''run'', tool_arguments = text\<rparr> = Inr (RunTool ''ls -l'' (Some ''/w'') 60)"
proof -
  let ?a = "RunTool ''ls -l'' (Some ''/w'') 60"
  have "action_fits ?a" by (simp add: action_fits_def opt_all_def ARG_CHAR_LIMIT_def ARG_TOKEN_LIMIT_def)
  then have "clipped_action None ?a = Inr ?a" by (rule action_fits_unclipped)
  with replayed_call_parses [OF sample_kit_reads, of ?a None ?a 3]
  show ?thesis by (simp add: sample_kit_def)
qed

end
