(* ===== verification/Agent.thy ===== *)
theory Agent
  imports Policy
begin

text \<open>
  \<open>src/policy/core.py\<close>, the agent itself: \<open>LlmAgent\<close> with its trajectory, its retries and its
  fitted completions. The backend is an arbitrary function of the request and the surroundings;
  \<open>ag_sent\<close> records the requests it was sent, \<open>ag_events\<close> the diagnosis events.
\<close>

section \<open>State\<close>

record 's agent =
  ag_initial :: raw_output
  ag_trajectory :: "trajectory_step list"
  ag_thinking_disabled :: bool
  ag_length_cutoffs :: nat
  ag_calibration :: rat
  ag_events :: "(string \<times> (string \<times> json) list) list"
  ag_sent :: "completion_request list"
  ag_world :: 's

record agent_config =
  gc_window :: window_config
  gc_max_output_retries :: nat
  gc_thinking_toggleable :: bool

datatype agent_exc =
    LlmFailure llm_exc
  | PolicyFault exc
  | NoValidAction string
  | RepeatedLengthCutoff string

type_synonym 's llm = "completion_request \<Rightarrow> 's \<Rightarrow> (llm_exc + completion) \<times> 's"

definition LENGTH_CUTOFF_ABORT_THRESHOLD :: nat where
  "LENGTH_CUTOFF_ABORT_THRESHOLD = 2"

definition build_llm_agent ::
    "policy_kit \<Rightarrow> (string \<Rightarrow> hub_lookup) \<Rightarrow> int \<Rightarrow> int \<Rightarrow> bool \<Rightarrow> string option \<Rightarrow> string \<Rightarrow> exc + agent_config" where
  "build_llm_agent kit hub max_context_length max_completion_tokens thinking_toggleable tokenizer_name model_name =
     bind_res (resolve_token_counter hub tokenizer_name model_name) (\<lambda>counter.
       Inr \<lparr>gc_window = \<lparr>wc_max_context_length = max_context_length,
              wc_max_completion_tokens = max_completion_tokens, wc_tools = build_tool_specs kit,
              wc_counter = counter\<rparr>,
            gc_max_output_retries = 2, gc_thinking_toggleable = thinking_toggleable\<rparr>)"

definition agent_event :: "string \<Rightarrow> (string \<times> json) list \<Rightarrow> 's agent \<Rightarrow> 's agent" where
  "agent_event name kvs s = s\<lparr>ag_events := ag_events s @ [(name, kvs)]\<rparr>"

definition agent_reset :: "raw_output \<Rightarrow> 's agent \<Rightarrow> 's agent" where
  "agent_reset out s = s\<lparr>ag_initial := out, ag_trajectory := [], ag_thinking_disabled := False,
     ag_length_cutoffs := 0, ag_calibration := 1\<rparr>"

definition clip_event :: "tokenizer option \<Rightarrow> nat \<Rightarrow> string \<Rightarrow> string \<Rightarrow> 's agent \<Rightarrow> 's agent" where
  "clip_event counter step_index field_name text s =
     (if text \<noteq> [] \<and> would_clip counter (rstrip_nl text)
      then agent_event ''observation_clipped''
             [(''step_index'', nat_json step_index), (''field'', JStr field_name)] s
      else s)"

definition agent_observe :: "agent_config \<Rightarrow> agent_action \<Rightarrow> step_result \<Rightarrow> 's agent \<Rightarrow> 's agent" where
  "agent_observe cfg action r s =
     (if sp_terminated r \<or> sp_truncated r then s
      else (let s1 = s\<lparr>ag_trajectory := ag_trajectory s @ [Executed action (sp_raw r)]\<rparr>;
                i = length (ag_trajectory s1); counter = wc_counter (gc_window cfg)
            in clip_event counter i ''stderr'' (ro_stderr (sp_raw r))
                 (clip_event counter i ''stdout'' (ro_stdout (sp_raw r)) s1)))"

section \<open>Interventions\<close>

text \<open>A rule is its name and what it builds from the agent and the step index; the first messages
  win, every rule is evaluated and traced.\<close>

type_synonym 's reminder_rule = "string \<times> ('s agent \<Rightarrow> nat \<Rightarrow> message list)"
type_synonym 's action_guard = "string \<times> ('s agent \<Rightarrow> agent_action list \<Rightarrow> agent_action list)"

definition REMINDER_RULES :: "'s reminder_rule list" where "REMINDER_RULES = []"
definition ACTION_GUARDS :: "'s action_guard list" where "ACTION_GUARDS = []"

fun reminder_loop :: "'s reminder_rule list \<Rightarrow> nat \<Rightarrow> message list \<Rightarrow> 's agent \<Rightarrow> message list \<times> 's agent" where
  "reminder_loop [] step_index chosen s = (chosen, s)"
| "reminder_loop ((name, build) # rules) step_index chosen s =
     (let messages = build s step_index
      in reminder_loop rules step_index (if messages \<noteq> [] \<and> chosen = [] then messages else chosen)
           (agent_event ''policy_rule'' [(''step_index'', nat_json step_index), (''rule'', JStr name),
              (''fired'', JBool (messages \<noteq> []))] s))"

definition reminder_messages :: "nat \<Rightarrow> 's agent \<Rightarrow> message list \<times> 's agent" where
  "reminder_messages step_index s = reminder_loop REMINDER_RULES step_index [] s"

fun guard_loop :: "'s action_guard list \<Rightarrow> nat \<Rightarrow> agent_action list \<Rightarrow> 's agent \<Rightarrow> agent_action list \<times> 's agent" where
  "guard_loop [] step_index actions s = (actions, s)"
| "guard_loop ((name, apply_guard) # guards) step_index actions s =
     (let guarded = apply_guard s actions
      in guard_loop guards step_index guarded
           (agent_event ''policy_rule'' [(''step_index'', nat_json step_index), (''rule'', JStr name),
              (''fired'', JBool (guarded \<noteq> actions))] s))"

definition guard_actions :: "nat \<Rightarrow> agent_action list \<Rightarrow> 's agent \<Rightarrow> agent_action list \<times> 's agent" where
  "guard_actions step_index actions s = guard_loop ACTION_GUARDS step_index actions s"

section \<open>A fitted completion\<close>

definition send :: "'s llm \<Rightarrow> completion_request \<Rightarrow> 's agent \<Rightarrow> (llm_exc + completion) \<times> 's agent" where
  "send llm rq s = (case llm rq (ag_world s) of
     (r, w) \<Rightarrow> (r, s\<lparr>ag_world := w, ag_sent := ag_sent s @ [rq]\<rparr>))"

definition retrimmed_event :: "nat \<Rightarrow> nat \<Rightarrow> nat option \<Rightarrow> nat option \<Rightarrow> 's agent \<Rightarrow> 's agent" where
  "retrimmed_event step_index attempt_index limit requested s =
     agent_event ''context_window_retrimmed''
       [(''step_index'', nat_json step_index), (''attempt_index'', nat_json attempt_index),
        (''limit'', opt_json nat_json limit), (''requested'', opt_json nat_json requested),
        (''calibration'', JFloat (ag_calibration s))] s"

definition dropped_event :: "nat \<Rightarrow> nat \<Rightarrow> 's agent \<Rightarrow> 's agent" where
  "dropped_event step_index dropped s =
     (if dropped = 0 then s
      else agent_event ''context_groups_dropped''
             [(''step_index'', nat_json step_index), (''dropped'', nat_json dropped)] s)"

text \<open>The retrim loop: \<open>n\<close> sends left, and the last overflow.\<close>

fun retrim_loop ::
    "policy_kit \<Rightarrow> agent_config \<Rightarrow> 's llm \<Rightarrow> message list \<times> message list list \<times> int \<Rightarrow> message list \<Rightarrow>
       nat \<Rightarrow> nat \<Rightarrow> bool option \<Rightarrow> nat \<Rightarrow> llm_exc option \<Rightarrow> 's agent \<Rightarrow> (agent_exc + completion) \<times> 's agent" where
  "retrim_loop kit cfg llm view turn step_index attempt_index thinking 0 last_error s =
     (Inl (case last_error of None \<Rightarrow> PolicyFault (AssertionError []) | Some e \<Rightarrow> LlmFailure e), s)"
| "retrim_loop kit cfg llm view turn step_index attempt_index thinking (Suc n) last_error s =
     (let (base, dropped) = fit kit (gc_window cfg) (ag_calibration s) (fst view) (fst (snd view)) (snd (snd view)) turn;
          request = base @ turn
      in case send llm \<lparr>rq_messages = request, rq_tools = wc_tools (gc_window cfg), rq_enable_thinking = thinking\<rparr>
                (dropped_event step_index dropped s) of
           (Inr c, s1) \<Rightarrow>
             (case calibrate_from_usage kit (gc_window cfg) c request (ag_calibration s1) of
                Inl x \<Rightarrow> (Inl (PolicyFault x), s1)
              | Inr k \<Rightarrow> (Inr c, s1\<lparr>ag_calibration := k\<rparr>))
         | (Inl (ContextWindowExceeded m limit requested input_tokens), s1) \<Rightarrow>
             (case shrink_for_overflow kit (gc_window cfg) input_tokens request (ag_calibration s1) of
                Inl x \<Rightarrow> (Inl (PolicyFault x), s1)
              | Inr None \<Rightarrow> (Inl (LlmFailure (ContextWindowExceeded m limit requested input_tokens)), s1)
              | Inr (Some k) \<Rightarrow>
                  retrim_loop kit cfg llm view turn step_index attempt_index thinking n
                    (Some (ContextWindowExceeded m limit requested input_tokens))
                    (retrimmed_event step_index attempt_index limit requested (s1\<lparr>ag_calibration := k\<rparr>)))
         | (Inl e, s1) \<Rightarrow> (Inl (LlmFailure e), s1))"

declare retrim_loop.simps(2) [simp del]

definition complete_fitted ::
    "policy_kit \<Rightarrow> agent_config \<Rightarrow> 's llm \<Rightarrow> message list \<Rightarrow> nat \<Rightarrow> nat \<Rightarrow> bool option \<Rightarrow> 's agent \<Rightarrow>
       (agent_exc + completion) \<times> 's agent" where
  "complete_fitted kit cfg llm turn step_index attempt_index thinking s =
     (case assemble kit (wc_counter (gc_window cfg)) (ro_instruction (ag_initial s))
             (ro_working_dir (ag_initial s)) (ag_trajectory s) of
        Inl x \<Rightarrow> (Inl (PolicyFault x), s)
      | Inr view \<Rightarrow> retrim_loop kit cfg llm view turn step_index attempt_index thinking
                      (RETRIM_BUDGET + 1) None s)"

section \<open>One decision\<close>

definition offered_tools :: "string list" where
  "offered_tools = map fst TOOLS"

definition parse_failed_event :: "nat \<Rightarrow> string \<Rightarrow> string \<Rightarrow> 's agent \<Rightarrow> 's agent" where
  "parse_failed_event step_index error detail s =
     agent_event ''action_parse_failed''
       [(''step_index'', nat_json step_index), (''error'', JStr error), (''detail'', JStr detail)] s"

definition give_up :: "nat \<Rightarrow> string \<Rightarrow> 's agent \<Rightarrow> (agent_exc + agent_action list) \<times> 's agent" where
  "give_up attempts error s =
     (Inl (NoValidAction ''failed to parse a valid action call''),
      s\<lparr>ag_trajectory := ag_trajectory s @ [FailedStep attempts error]\<rparr>)"

datatype length_verdict = AbortRollout | StopRetrying | RetryWith "bool option"

text \<open>What a length cutoff means for the retry: the counter and the thinking switch it leaves.\<close>

definition on_length_cutoff ::
    "agent_config \<Rightarrow> exc \<Rightarrow> bool option \<Rightarrow> 's agent \<Rightarrow> length_verdict \<times> 's agent" where
  "on_length_cutoff cfg e thinking s =
     (let missing = exc_name e = ''MissingToolCall'';
          s1 = (if missing then s\<lparr>ag_length_cutoffs := Suc (ag_length_cutoffs s)\<rparr> else s)
      in if missing \<and> ag_length_cutoffs s1 \<ge> LENGTH_CUTOFF_ABORT_THRESHOLD then (AbortRollout, s1)
         else if \<not> missing \<and> (ag_thinking_disabled s1 \<or> \<not> gc_thinking_toggleable cfg) then (StopRetrying, s1)
         else if gc_thinking_toggleable cfg
         then (RetryWith (Some False), s1\<lparr>ag_thinking_disabled := True\<rparr>)
         else (RetryWith thinking, s1))"

text \<open>The attempts from index \<open>i\<close>, \<open>n\<close> of them left.\<close>

fun attempt_loop ::
    "policy_kit \<Rightarrow> agent_config \<Rightarrow> 's llm \<Rightarrow> nat \<Rightarrow> nat \<Rightarrow> nat \<Rightarrow> string \<Rightarrow> message list \<Rightarrow> bool option \<Rightarrow>
       's agent \<Rightarrow> (agent_exc + agent_action list) \<times> 's agent" where
  "attempt_loop kit cfg llm step_index 0 i last_error turn thinking s = give_up i last_error s"
| "attempt_loop kit cfg llm step_index (Suc n) i last_error turn thinking s =
     (case complete_fitted kit cfg llm turn step_index i thinking s of
        (Inl (LlmFailure (RejectedToolCall m)), s1) \<Rightarrow>
          attempt_loop kit cfg llm step_index n (Suc i) m
            [user_message (invalid_tool_call_repair_prompt m)] thinking
            (parse_failed_event step_index ''ProviderRejectedToolCallError'' m s1)
      | (Inl e, s1) \<Rightarrow> (Inl e, s1)
      | (Inr c, s1) \<Rightarrow>
          (case parse_actions kit offered_tools c of
             Inr actions \<Rightarrow>
               (case guard_actions step_index actions s1 of (as, s2) \<Rightarrow> (Inr as, s2))
           | Inl e \<Rightarrow>
               (let s2 = parse_failed_event step_index (exc_name e) (exc_detail e) s1
                in if co_finish_reason c = Some ''length''
                   then (case on_length_cutoff cfg e thinking s2 of
                           (AbortRollout, s3) \<Rightarrow>
                             (Inl (RepeatedLengthCutoff ''repeated length-truncated model outputs''), s3)
                         | (StopRetrying, s3) \<Rightarrow> give_up (Suc i) (exc_detail e) s3
                         | (RetryWith th, s3) \<Rightarrow>
                             attempt_loop kit cfg llm step_index n (Suc i) (exc_detail e)
                               (repair_messages c e) th s3)
                   else attempt_loop kit cfg llm step_index n (Suc i) (exc_detail e)
                          (repair_messages c e) thinking s2)))"

declare attempt_loop.simps(2) [simp del]

definition agent_act ::
    "policy_kit \<Rightarrow> agent_config \<Rightarrow> 's llm \<Rightarrow> 's agent \<Rightarrow> (agent_exc + agent_action list) \<times> 's agent" where
  "agent_act kit cfg llm s =
     (let step_index = Suc (length (ag_trajectory s))
      in case reminder_messages step_index s of
           (turn, s1) \<Rightarrow>
             attempt_loop kit cfg llm step_index (Suc (gc_max_output_retries cfg)) 0 ''unknown parse error'' turn
               (if ag_thinking_disabled s1 then Some False else None) s1)"

section \<open>The requests of a decision\<close>

type_synonym request_view = "message list \<times> message list list \<times> int"

text \<open>A request over a view: the head, the kept steps, the tools, and a turn after them.\<close>

definition view_request :: "agent_config \<Rightarrow> request_view \<Rightarrow> message list \<Rightarrow> completion_request \<Rightarrow> bool" where
  "view_request cfg view turn rq \<longleftrightarrow> rq_tools rq = wc_tools (gc_window cfg) \<and>
     (\<exists>k. (k = 0 \<or> int k \<le> snd (snd view)) \<and>
        rq_messages rq = kept_from (fst view) (fst (snd view)) k @ turn)"

definition calibrated :: "'s agent \<Rightarrow> bool" where
  "calibrated s \<longleftrightarrow> 1 \<le> ag_calibration s \<and> ag_calibration s \<le> MAX_CALIBRATION"

text \<open>What sending requests leaves alone.\<close>

definition same_episode :: "'s agent \<Rightarrow> 's agent \<Rightarrow> bool" where
  "same_episode s s' \<longleftrightarrow> ag_initial s' = ag_initial s \<and> ag_trajectory s' = ag_trajectory s \<and>
     ag_thinking_disabled s' = ag_thinking_disabled s \<and> ag_length_cutoffs s' = ag_length_cutoffs s"

lemma agent_event_simps [simp]:
  "ag_sent (agent_event n k s) = ag_sent s" "same_episode s (agent_event n k s)"
  "same_episode s0 (agent_event n k s) = same_episode s0 s"
  "calibrated (agent_event n k s) = calibrated s" "ag_calibration (agent_event n k s) = ag_calibration s"
  "ag_thinking_disabled (agent_event n k s) = ag_thinking_disabled s"
  "ag_length_cutoffs (agent_event n k s) = ag_length_cutoffs s"
  "ag_trajectory (agent_event n k s) = ag_trajectory s" "ag_initial (agent_event n k s) = ag_initial s"
  by (simp_all add: agent_event_def same_episode_def calibrated_def)

lemma same_episode_refl [simp]: "same_episode s s"
  by (simp add: same_episode_def)

lemma same_episode_trans: "same_episode a b \<Longrightarrow> same_episode b c \<Longrightarrow> same_episode a c"
  by (simp add: same_episode_def)

lemma send_effect:
  assumes "send llm rq (dropped_event i d s) = (r, s1)"
  shows "same_episode s s1" "ag_sent s1 = ag_sent s @ [rq]" "ag_calibration s1 = ag_calibration s"
  using assms by (auto simp: send_def dropped_event_def same_episode_def agent_event_def split: prod.splits if_splits)

lemma calibrate_bounds:
  "calibrate_from_usage kit w c request k = Inr k' \<Longrightarrow> 1 \<le> k \<Longrightarrow> k \<le> MAX_CALIBRATION \<Longrightarrow>
     1 \<le> k' \<and> k' \<le> MAX_CALIBRATION"
  by (auto simp: calibrate_from_usage_def MAX_CALIBRATION_def Let_def split: option.splits if_splits)

lemma shrink_bounds:
  "shrink_for_overflow kit w n request k = Inr (Some k') \<Longrightarrow> k < k' \<and> k' \<le> MAX_CALIBRATION"
  by (auto simp: shrink_for_overflow_def res_simps Let_def split: option.splits if_splits)

lemma no_division:
  assumes "request \<noteq> []"
  shows "\<exists>k'. calibrate_from_usage kit w c request k = Inr k'" "\<exists>k'. shrink_for_overflow kit w n request k = Inr k'"
  using estimate_positive [OF assms, of kit "wc_counter w" "wc_tools w"]
  by (auto simp: calibrate_from_usage_def shrink_for_overflow_def Let_def split: option.splits)

definition retrim_post ::
    "agent_config \<Rightarrow> request_view \<Rightarrow> message list \<Rightarrow> bool option \<Rightarrow> nat \<Rightarrow> 's agent \<Rightarrow> 's agent \<Rightarrow> bool" where
  "retrim_post cfg view turn thinking n s s' \<longleftrightarrow> same_episode s s' \<and> (calibrated s \<longrightarrow> calibrated s') \<and>
     (\<exists>new. ag_sent s' = ag_sent s @ new \<and> length new \<le> n \<and>
        (\<forall>rq \<in> set new. view_request cfg view turn rq \<and> rq_enable_thinking rq = thinking))"

lemma retrim_post_send:
  assumes "fit kit (gc_window cfg) k (fst view) (fst (snd view)) (snd (snd view)) turn = (base, d)"
    and "send llm \<lparr>rq_messages = base @ turn, rq_tools = wc_tools (gc_window cfg), rq_enable_thinking = th\<rparr>
          (dropped_event i d s) = (r, s1)"
    and "calibrated s \<longrightarrow> 1 \<le> k' \<and> k' \<le> MAX_CALIBRATION"
  shows "retrim_post cfg view turn th (Suc n) s (s1\<lparr>ag_calibration := k'\<rparr>)"
proof -
  note e = send_effect [OF assms(2)]
  note f = fit_keeps(1,2) [OF assms(1)]
  have "view_request cfg view turn \<lparr>rq_messages = base @ turn, rq_tools = wc_tools (gc_window cfg), rq_enable_thinking = th\<rparr>"
    using f by (auto simp: view_request_def)
  with e assms(3) show ?thesis by (simp add: retrim_post_def same_episode_def calibrated_def)
qed

lemma retrim_post_Suc:
  assumes "retrim_post cfg view turn th (Suc 0) s s1" "retrim_post cfg view turn th n s1 s'"
  shows "retrim_post cfg view turn th (Suc n) s s'"
proof -
  obtain a b where "ag_sent s1 = ag_sent s @ a" "length a \<le> 1" "ag_sent s' = ag_sent s1 @ b" "length b \<le> n"
    "\<forall>rq \<in> set a \<union> set b. view_request cfg view turn rq \<and> rq_enable_thinking rq = th"
    using assms unfolding retrim_post_def by fastforce
  then show ?thesis
    using assms unfolding retrim_post_def
    by (intro conjI exI [of _ "a @ b"]) (auto intro: same_episode_trans)
qed

lemma retrim_loop_post:
  assumes "retrim_loop kit cfg llm view turn si ai th n last_error s = (r, s')"
    and "fst view \<noteq> []" and "0 < n \<or> last_error \<noteq> None"
  shows "retrim_post cfg view turn th n s s' \<and> (\<forall>x. r = Inl x \<longrightarrow> (\<exists>e. x = LlmFailure e))"
  using assms(1,3)
proof (induction n arbitrary: last_error s)
  case 0
  then show ?case by (auto simp: retrim_post_def)
next
  case (Suc n)
  let ?w = "gc_window cfg"
  obtain base d where f: "fit kit ?w (ag_calibration s) (fst view) (fst (snd view)) (snd (snd view)) turn = (base, d)"
    by fastforce
  have ne: "base @ turn \<noteq> []" using fit_keeps(1) [OF f] assms(2) by (simp add: kept_from_def)
  let ?rq = "\<lparr>rq_messages = base @ turn, rq_tools = wc_tools ?w, rq_enable_thinking = th\<rparr>"
  obtain q s1 where q: "send llm ?rq (dropped_event si d s) = (q, s1)" by fastforce
  note e = send_effect [OF q]
  note sent = retrim_post_send [OF f q]
  have here: "retrim_post cfg view turn th (Suc m) s s1" for m
  proof -
    have "s1\<lparr>ag_calibration := ag_calibration s1\<rparr> = s1" by simp
    moreover have "calibrated s \<longrightarrow> 1 \<le> ag_calibration s1 \<and> ag_calibration s1 \<le> MAX_CALIBRATION"
      unfolding e(3) by (simp add: calibrated_def)
    ultimately show ?thesis using sent by metis
  qed
  note run = Suc.prems(1) [unfolded retrim_loop.simps(2) Let_def f q, simplified]
  show ?case
  proof (cases q)
    case (Inr c)
    obtain k where k: "calibrate_from_usage kit ?w c (base @ turn) (ag_calibration s1) = Inr k"
      using no_division(1) [OF ne] by blast
    have "calibrated s \<longrightarrow> 1 \<le> k \<and> k \<le> MAX_CALIBRATION"
      using calibrate_bounds [OF k] e(3) by (simp add: calibrated_def)
    from sent [OF this] run Inr k f q show ?thesis by auto
  next
    case (Inl x)
    show ?thesis
    proof (cases "\<exists>m limit requested input. x = ContextWindowExceeded m limit requested input")
      case False
      with run Inl f q here show ?thesis by (cases x) auto
    next
      case True
      then obtain m limit requested input where x: "x = ContextWindowExceeded m limit requested input" by blast
      obtain ko where ko: "shrink_for_overflow kit ?w input (base @ turn) (ag_calibration s1) = Inr ko"
        using no_division(2) [OF ne] by blast
      show ?thesis
      proof (cases ko)
        case None
        with run Inl x ko f q here show ?thesis by auto
      next
        case (Some k)
        let ?s2 = "retrimmed_event si ai limit requested (s1\<lparr>ag_calibration := k\<rparr>)"
        have loop: "retrim_loop kit cfg llm view turn si ai th n (Some x) ?s2 = (r, s')"
          using run Inl x ko Some f q by simp
        have "k \<le> MAX_CALIBRATION" "ag_calibration s < k" using shrink_bounds [OF ko [unfolded Some]] e(3) by auto
        then have "calibrated s \<longrightarrow> 1 \<le> k \<and> k \<le> MAX_CALIBRATION" by (auto simp: calibrated_def)
        from sent [OF this, of 0] have "retrim_post cfg view turn th (Suc 0) s ?s2"
          by (simp add: retrim_post_def retrimmed_event_def)
        with Suc.IH [OF loop] show ?thesis by (auto intro: retrim_post_Suc)
      qed
    qed
  qed
qed

section \<open>One decision is bounded and well formed\<close>

text \<open>The truncation marker is shorter than the smallest limit, so that clipping never fails.\<close>

definition counter_ok :: "agent_config \<Rightarrow> bool" where
  "counter_ok cfg \<longleftrightarrow> (\<forall>tk. wc_counter (gc_window cfg) = Some tk \<longrightarrow> token_count tk TRUNCATION_MARKER < ARG_TOKEN_LIMIT)"

lemma bounded_total:
  assumes "\<forall>tk. counter = Some tk \<longrightarrow> token_count tk TRUNCATION_MARKER < ARG_TOKEN_LIMIT" and "ARG_TOKEN_LIMIT \<le> n"
  shows "\<exists>t. bounded_text counter text n m = Inr t"
proof (cases counter)
  case (Some tk)
  with assms have "token_count tk TRUNCATION_MARKER < n" by auto
  note clips = truncate_clips [OF this, of "text"]
  from Some clips show ?thesis
    by (cases "token_count tk text \<le> n") (auto simp: bounded_text_def token_truncate_def)
qed (simp add: bounded_text_def)

lemma step_group_total:
  assumes "\<forall>tk. counter = Some tk \<longrightarrow> token_count tk TRUNCATION_MARKER < ARG_TOKEN_LIMIT"
  shows "\<exists>g. step_group kit counter i st = Inr g"
proof -
  have arg: "\<exists>t'. bounded_text counter t ARG_TOKEN_LIMIT ARG_CHAR_LIMIT = Inr t'" for t
    using bounded_total [OF assms] by simp
  have clip: "\<exists>t'. clip_text counter t = Inr t'" for t
    unfolding clip_text_def by (rule bounded_total [OF assms]) (simp add: RESULT_TOKEN_LIMIT_def ARG_TOKEN_LIMIT_def)
  show ?thesis
  proof (cases st)
    case (FailedStep k e)
    with clip [of e] show ?thesis by (auto simp: step_group_def failed_step_result_def)
  next
    case (Executed a out)
    have "\<exists>args. clipped_args counter a = Inr args"
    proof (cases a)
      case (RunTool c d t)
      obtain f where "\<And>t. bounded_text counter t ARG_TOKEN_LIMIT ARG_CHAR_LIMIT = Inr (f t)" using arg by metis
      with RunTool show ?thesis by (cases d) (simp_all add: clipped_args_def)
    qed (simp add: clipped_args_def)
    then obtain call where call: "replay_tool_call kit counter a i = Inr call" by (auto simp: replay_tool_call_def)
    obtain f where "\<And>t. clip_text counter t = Inr (f t)" using clip by metis
    then have "\<exists>content. tool_result counter out = Inr content"
      by (auto simp: tool_result_def stream_lines_def Let_def)
    with call Executed show ?thesis by (auto simp: step_group_def)
  qed
qed

lemma assemble_total:
  assumes "counter_ok cfg"
  shows "\<exists>groups. assemble kit (wc_counter (gc_window cfg)) ins wd trajectory =
      Inr (request_head ins wd, groups, retention_floor trajectory) \<and> length groups = length trajectory"
proof -
  note total = step_group_total [OF assms [unfolded counter_ok_def], of kit]
  then obtain g where "\<And>i t. step_group kit (wc_counter (gc_window cfg)) i t = Inr (g i t)" by metis
  then have "step_groups kit (wc_counter (gc_window cfg)) trajectory = Inr (map (\<lambda>(i, t). g i t) (enumerate 1 trajectory))"
    unfolding step_groups_def by (intro map_res_total) auto
  then show ?thesis by (simp add: assemble_def)
qed

lemma run_args_ok: "run_args kit ms = Some a \<Longrightarrow> agent_action_ok a"
  by (auto simp: run_args_def split: if_splits option.splits json.splits)

lemma parse_action_ok: "parse_action kit c = Inr a \<Longrightarrow> agent_action_ok a"
proof -
  assume "parse_action kit c = Inr a"
  then obtain v where "validate_args kit (tool_name c) v = Inr a" by (auto simp: parse_action_def res_simps)
  then obtain ms where "(if tool_name c = ''run'' then run_args kit ms else submit_args ms) = Some a"
    by (cases v) (simp_all add: validate_args_def split: if_splits option.splits)
  then show ?thesis by (cases "tool_name c = ''run''") (auto simp: submit_args_def dest: run_args_ok split: if_splits)
qed

lemma parse_actions_ok:
  assumes "parse_actions kit offered c = Inr as"
  shows "as \<noteq> []" "\<forall>a \<in> set as. agent_action_ok a"
proof -
  have calls: "co_tool_calls c \<noteq> []" and m: "map_res (parse_action kit) (co_tool_calls c) = Inr as"
    using assms by (auto simp: parse_actions_def res_simps split: if_splits)
  note len = map_res_Inr_length [OF m]
  show "as \<noteq> []" using calls len by auto
  have "agent_action_ok (as ! i)" if "i < length as" for i
    using map_res_Inr_nth [OF m, of i] that len by (auto intro: parse_action_ok)
  then show "\<forall>a \<in> set as. agent_action_ok a" by (metis in_set_conv_nth)
qed

definition turn_ok :: "message list \<Rightarrow> bool" where
  "turn_ok turn \<longleftrightarrow> turn = [] \<or> (\<exists>content. last turn = user_message content)"

lemma turns_ok: "turn_ok [user_message t]" "turn_ok (repair_messages c e)" "turn_ok []"
  by (auto simp: turn_ok_def repair_messages_def)

definition requests_ok :: "agent_config \<Rightarrow> request_view \<Rightarrow> bool \<Rightarrow> completion_request list \<Rightarrow> bool" where
  "requests_ok cfg view disabled new \<longleftrightarrow> (\<forall>rq \<in> set new. (\<exists>turn. turn_ok turn \<and> view_request cfg view turn rq) \<and>
     (rq_enable_thinking rq = None \<or> rq_enable_thinking rq = Some False \<and> disabled))"

definition outcome_ok :: "nat \<Rightarrow> nat \<Rightarrow> 's agent \<Rightarrow> agent_exc + agent_action list \<Rightarrow> 's agent \<Rightarrow> bool" where
  "outcome_ok lo hi s r s' \<longleftrightarrow>
     (case r of
        Inr as \<Rightarrow> as \<noteq> [] \<and> (\<forall>a \<in> set as. agent_action_ok a) \<and> ag_trajectory s' = ag_trajectory s
      | Inl (NoValidAction _) \<Rightarrow>
          (\<exists>k e. ag_trajectory s' = ag_trajectory s @ [FailedStep k e] \<and> lo \<le> k \<and> k \<le> hi)
      | Inl (LlmFailure e) \<Rightarrow> ag_trajectory s' = ag_trajectory s \<and> (\<forall>m. e \<noteq> RejectedToolCall m)
      | Inl (RepeatedLengthCutoff _) \<Rightarrow>
          ag_trajectory s' = ag_trajectory s \<and> LENGTH_CUTOFF_ABORT_THRESHOLD \<le> ag_length_cutoffs s'
      | Inl (PolicyFault _) \<Rightarrow> False)"

definition act_post ::
    "agent_config \<Rightarrow> request_view \<Rightarrow> nat \<Rightarrow> 's agent \<Rightarrow> 's agent \<Rightarrow> bool" where
  "act_post cfg view n s s' \<longleftrightarrow> ag_initial s' = ag_initial s \<and> (calibrated s \<longrightarrow> calibrated s') \<and>
     (ag_thinking_disabled s \<longrightarrow> ag_thinking_disabled s') \<and>
     (ag_thinking_disabled s' \<longrightarrow> ag_thinking_disabled s \<or> gc_thinking_toggleable cfg) \<and>
     (\<exists>new. ag_sent s' = ag_sent s @ new \<and> length new \<le> n * (RETRIM_BUDGET + 1) \<and>
        requests_ok cfg view (ag_thinking_disabled s') new)"

lemma act_post_refl: "act_post cfg view 0 s s"
  by (simp add: act_post_def requests_ok_def)

lemma act_post_trans:
  assumes "act_post cfg view m s s1" "act_post cfg view n s1 s'"
  shows "act_post cfg view (m + n) s s'"
proof -
  obtain a b where "ag_sent s1 = ag_sent s @ a" "length a \<le> m * (RETRIM_BUDGET + 1)"
    "requests_ok cfg view (ag_thinking_disabled s1) a" "ag_sent s' = ag_sent s1 @ b"
    "length b \<le> n * (RETRIM_BUDGET + 1)" "requests_ok cfg view (ag_thinking_disabled s') b"
    using assms unfolding act_post_def by blast
  moreover have "ag_thinking_disabled s1 \<longrightarrow> ag_thinking_disabled s'" using assms(2) by (simp add: act_post_def)
  ultimately show ?thesis
    using assms unfolding act_post_def
    by (intro conjI exI [of _ "a @ b"]) (auto simp: requests_ok_def add_mult_distrib)
qed

text \<open>Local updates: events, the cutoff counter, the thinking switch.\<close>

lemma act_post_event: "act_post cfg view 0 s (parse_failed_event i e d s)"
  by (simp add: act_post_def requests_ok_def parse_failed_event_def)

lemma act_post_give_up: "give_up k e s = (r, s') \<Longrightarrow> act_post cfg view 0 s s'"
  by (auto simp: give_up_def act_post_def requests_ok_def calibrated_def)

lemma on_length_cutoff_post:
  assumes "on_length_cutoff cfg e th s = (v, s')"
  shows "act_post cfg view 0 s s'" "ag_trajectory s' = ag_trajectory s"
    "v = AbortRollout \<Longrightarrow> LENGTH_CUTOFF_ABORT_THRESHOLD \<le> ag_length_cutoffs s'"
    "v = RetryWith th' \<Longrightarrow> th' = th \<or> th' = Some False \<and> ag_thinking_disabled s'"
  using assms
  by (auto simp: on_length_cutoff_def act_post_def requests_ok_def calibrated_def Let_def split: if_splits)

lemma complete_fitted_post:
  assumes "counter_ok cfg" and "complete_fitted kit cfg llm turn si i th s = (r, s1)"
    and "assemble kit (wc_counter (gc_window cfg)) (ro_instruction (ag_initial s))
             (ro_working_dir (ag_initial s)) (ag_trajectory s) = Inr view"
    and "turn_ok turn" and "th = None \<or> th = Some False \<and> ag_thinking_disabled s"
  shows "act_post cfg view 1 s s1" "same_episode s s1" "\<And>x. r = Inl x \<Longrightarrow> \<exists>e. x = LlmFailure e"
proof -
  have "fst view = request_head (ro_instruction (ag_initial s)) (ro_working_dir (ag_initial s))"
    using assms(3) by (auto simp: assemble_def res_simps)
  then have "fst view \<noteq> []" by (simp add: request_head_def)
  moreover have "retrim_loop kit cfg llm view turn si i th (RETRIM_BUDGET + 1) None s = (r, s1)"
    using assms(2,3) by (simp add: complete_fitted_def)
  ultimately have p: "retrim_post cfg view turn th (RETRIM_BUDGET + 1) s s1"
    "\<forall>x. r = Inl x \<longrightarrow> (\<exists>e. x = LlmFailure e)"
    using retrim_loop_post [of kit cfg llm view turn si i th "RETRIM_BUDGET + 1" None s r s1] by simp_all
  then show "act_post cfg view 1 s s1"
    using assms(4,5) by (fastforce simp: retrim_post_def act_post_def same_episode_def requests_ok_def)
  show "same_episode s s1" using p(1) by (simp add: retrim_post_def)
  show "\<exists>e. x = LlmFailure e" if "r = Inl x" for x using p(2) that by blast
qed

lemma outcome_ok_mono:
  assumes "outcome_ok lo' hi s1 r s'" "lo \<le> lo'" "ag_trajectory s1 = ag_trajectory s"
  shows "outcome_ok lo hi s r s'"
proof (cases r)
  case (Inl x)
  with assms show ?thesis by (cases x) (fastforce simp: outcome_ok_def)+
next
  case (Inr as)
  with assms show ?thesis by (simp add: outcome_ok_def)
qed

lemma outcome_ok_give_up: "give_up k e s = (r, s') \<Longrightarrow> lo \<le> k \<Longrightarrow> k \<le> hi \<Longrightarrow> outcome_ok lo hi s r s'"
  by (auto simp: give_up_def outcome_ok_def)

definition view_of :: "policy_kit \<Rightarrow> agent_config \<Rightarrow> 's agent \<Rightarrow> exc + request_view" where
  "view_of kit cfg s = assemble kit (wc_counter (gc_window cfg)) (ro_instruction (ag_initial s))
     (ro_working_dir (ag_initial s)) (ag_trajectory s)"

lemma act_post_initial: "act_post cfg view n s s' \<Longrightarrow> ag_initial s' = ag_initial s"
  "act_post cfg view n s s' \<Longrightarrow> ag_thinking_disabled s \<Longrightarrow> ag_thinking_disabled s'"
  by (simp_all add: act_post_def)

lemma attempt_loop_post:
  assumes "counter_ok cfg" and "attempt_loop kit cfg llm si n i err turn th s = (r, s')"
    and "view_of kit cfg s = Inr view" and "turn_ok turn"
    and "th = None \<or> th = Some False \<and> ag_thinking_disabled s"
  shows "act_post cfg view n s s' \<and> outcome_ok (if n = 0 then i else Suc i) (i + n) s r s'"
  using assms(2-)
proof (induction n arbitrary: i err turn th s)
  case 0
  then have g: "give_up i err s = (r, s')" by simp
  show ?case using act_post_give_up [OF g] outcome_ok_give_up [OF g] by simp
next
  case (Suc n)
  obtain c s1 where cf: "complete_fitted kit cfg llm turn si i th s = (c, s1)" by fastforce
  note post = complete_fitted_post [OF assms(1) cf Suc.prems(2) [unfolded view_of_def] Suc.prems(3,4)]
  note run = Suc.prems(1) [unfolded attempt_loop.simps(2) cf, simplified]
  have again: "act_post cfg view (Suc n) s s' \<and> outcome_ok (Suc i) (i + Suc n) s r s'"
    if loop: "attempt_loop kit cfg llm si n (Suc i) err' turn' th' s2 = (r, s')" and "turn_ok turn'"
      and s2: "act_post cfg view 0 s1 s2" "ag_trajectory s2 = ag_trajectory s1"
      and th': "th' = None \<or> th' = Some False \<and> ag_thinking_disabled s2" for err' turn' th' s2
  proof -
    have same: "ag_trajectory s2 = ag_trajectory s" "ag_initial s2 = ag_initial s"
      using s2 post(2) by (simp_all add: same_episode_def act_post_def)
    then have "view_of kit cfg s2 = Inr view" using Suc.prems(2) by (simp add: view_of_def)
    from Suc.IH [OF loop this \<open>turn_ok turn'\<close> th'] have ih: "act_post cfg view n s2 s'"
      "outcome_ok (if n = 0 then Suc i else Suc (Suc i)) (Suc i + n) s2 r s'" by simp_all
    have "act_post cfg view (1 + 0 + n) s s'" by (rule act_post_trans [OF act_post_trans [OF post(1) s2(1)] ih(1)])
    moreover have "outcome_ok (Suc i) (i + Suc n) s r s'"
      using outcome_ok_mono [OF ih(2), of "Suc i" s] same(1) by simp
    ultimately show ?thesis by simp
  qed
  have stop: "act_post cfg view (Suc n) s s'" if "act_post cfg view 0 s1 s'"
  proof -
    have "act_post cfg view (1 + 0 + 0) s s'"
      by (rule act_post_trans [OF act_post_trans [OF post(1) that] act_post_refl])
    then show ?thesis by (auto simp: act_post_def)
  qed
  have traj: "ag_trajectory s1 = ag_trajectory s" using post(2) by (simp add: same_episode_def)
  have th1: "th = None \<or> th = Some False \<and> ag_thinking_disabled s1"
    using Suc.prems(4) post(2) by (auto simp: same_episode_def)
  show ?case
  proof (cases c)
    case (Inl x)
    then obtain e where x: "x = LlmFailure e" using post(3) by blast
    show ?thesis
    proof (cases "\<exists>m. e = RejectedToolCall m")
      case True
      then obtain m where m: "e = RejectedToolCall m" by blast
      have "attempt_loop kit cfg llm si n (Suc i) m [user_message (invalid_tool_call_repair_prompt m)] th
          (parse_failed_event si ''ProviderRejectedToolCallError'' m s1) = (r, s')"
        using run Inl x m by simp
      from again [OF this turns_ok(1) act_post_event _] th1 show ?thesis by (simp add: parse_failed_event_def)
    next
      case False
      then have rs: "r = Inl (LlmFailure e)" "s' = s1" using run Inl x by (cases e; simp)+
      have "act_post cfg view (Suc n) s s'" by (rule stop) (simp add: rs act_post_refl)
      with rs False traj show ?thesis by (simp add: outcome_ok_def)
    qed
  next
    case (Inr d)
    show ?thesis
    proof (cases "parse_actions kit offered_tools d")
      case (Inr as)
      then have rs: "r = Inr as" "s' = s1" using run \<open>c = Inr d\<close> by (simp_all add: guard_actions_def ACTION_GUARDS_def)
      have "act_post cfg view (Suc n) s s'" by (rule stop) (simp add: rs act_post_refl)
      with rs parse_actions_ok [OF Inr] traj show ?thesis by (simp add: outcome_ok_def)
    next
      case (Inl e)
      let ?s2 = "parse_failed_event si (exc_name e) (exc_detail e) s1"
      have s2: "act_post cfg view 0 s1 ?s2" "ag_trajectory ?s2 = ag_trajectory s1"
        "ag_thinking_disabled ?s2 = ag_thinking_disabled s1"
        by (rule act_post_event) (simp_all add: parse_failed_event_def)
      show ?thesis
      proof (cases "co_finish_reason d = Some ''length''")
        case False
        then have "attempt_loop kit cfg llm si n (Suc i) (exc_detail e) (repair_messages d e) th ?s2 = (r, s')"
          using run \<open>c = Inr d\<close> Inl by (simp add: Let_def)
        from again [OF this turns_ok(2) s2(1,2)] th1 s2(3) show ?thesis by simp
      next
        case True
        obtain v s3 where v: "on_length_cutoff cfg e th ?s2 = (v, s3)" by fastforce
        note o = on_length_cutoff_post [OF v]
        have s3: "act_post cfg view 0 s1 s3" using act_post_trans [OF s2(1) o(1)] by simp
        have t3: "ag_trajectory s3 = ag_trajectory s1" using o(2) s2(2) by simp
        show ?thesis
        proof (cases v)
          case AbortRollout
          then have "r = Inl (RepeatedLengthCutoff ''repeated length-truncated model outputs'')" "s' = s3"
            using run \<open>c = Inr d\<close> Inl True v by (simp_all add: Let_def)
          with stop s3 o(3) [OF AbortRollout] t3 traj show ?thesis by (simp add: outcome_ok_def)
        next
          case StopRetrying
          then have g: "give_up (Suc i) (exc_detail e) s3 = (r, s')"
            using run \<open>c = Inr d\<close> Inl True v by (simp add: Let_def)
          have "act_post cfg view 0 s1 s'" using act_post_trans [OF s3 act_post_give_up [OF g]] by simp
          moreover have "outcome_ok (Suc i) (i + Suc n) s3 r s'" by (rule outcome_ok_give_up [OF g]) simp_all
          ultimately show ?thesis using stop outcome_ok_mono t3 traj by fastforce
        next
          case (RetryWith th')
          then have loop: "attempt_loop kit cfg llm si n (Suc i) (exc_detail e) (repair_messages d e) th' s3 = (r, s')"
            using run \<open>c = Inr d\<close> Inl True v by (simp add: Let_def)
          have "th' = None \<or> th' = Some False \<and> ag_thinking_disabled s3"
            using o(4) [OF RetryWith] th1 act_post_initial(2) [OF s3] by auto
          from again [OF loop turns_ok(2) s3 t3 this] show ?thesis by simp
        qed
      qed
    qed
  qed
qed

lemma agent_act_post:
  assumes "counter_ok cfg" and "agent_act kit cfg llm s = (r, s')" and "view_of kit cfg s = Inr view"
  shows "act_post cfg view (Suc (gc_max_output_retries cfg)) s s' \<and>
    outcome_ok 1 (Suc (gc_max_output_retries cfg)) s r s'"
proof -
  have "attempt_loop kit cfg llm (Suc (length (ag_trajectory s))) (Suc (gc_max_output_retries cfg)) 0 ''unknown parse error''
      [] (if ag_thinking_disabled s then Some False else None) s = (r, s')"
    using assms(2) by (simp add: agent_act_def reminder_messages_def REMINDER_RULES_def Let_def)
  from attempt_loop_post [OF assms(1) this assms(3) turns_ok(3)] show ?thesis by (simp split: if_splits)
qed

text \<open>
  Every request of a decision is a fitted view of the trajectory: it is the system and task head,
  a note when leading steps were dropped, the kept steps in order, and a turn that ends in a user
  message, with the tools built once. The newest executed step is always kept. A decision sends at
  most four requests for each of its attempts, and it overrides the thinking mode only to switch it
  off, only where the deployment can.
\<close>

theorem agent_requests_shape:
  assumes "counter_ok cfg" and "agent_act kit cfg llm s = (r, s')"
    and "ag_thinking_disabled s \<longrightarrow> gc_thinking_toggleable cfg"
  shows "\<exists>groups new. step_groups kit (wc_counter (gc_window cfg)) (ag_trajectory s) = Inr groups \<and>
    length groups = length (ag_trajectory s) \<and> ag_sent s' = ag_sent s @ new \<and>
    length new \<le> 4 * Suc (gc_max_output_retries cfg) \<and>
    (\<forall>rq \<in> set new. rq_tools rq = wc_tools (gc_window cfg) \<and>
      (rq_enable_thinking rq = None \<or> rq_enable_thinking rq = Some False \<and> gc_thinking_toggleable cfg) \<and>
      (\<exists>k turn. keeps_newest (ag_trajectory s) k \<and> turn_ok turn \<and>
        rq_messages rq = kept_from (request_head (ro_instruction (ag_initial s)) (ro_working_dir (ag_initial s))) groups k @ turn))"
proof -
  let ?head = "request_head (ro_instruction (ag_initial s)) (ro_working_dir (ag_initial s))"
  obtain groups where v: "view_of kit cfg s = Inr (?head, groups, retention_floor (ag_trajectory s))"
    and len: "length groups = length (ag_trajectory s)"
    using assemble_total [OF assms(1)] unfolding view_of_def by blast
  from agent_act_post [OF assms(1,2) v] obtain new where new: "ag_sent s' = ag_sent s @ new"
    "length new \<le> Suc (gc_max_output_retries cfg) * (RETRIM_BUDGET + 1)"
    "requests_ok cfg (?head, groups, retention_floor (ag_trajectory s)) (ag_thinking_disabled s') new"
    and th: "ag_thinking_disabled s' \<longrightarrow> ag_thinking_disabled s \<or> gc_thinking_toggleable cfg"
    unfolding act_post_def by blast
  have "step_groups kit (wc_counter (gc_window cfg)) (ag_trajectory s) = Inr groups"
    using v by (auto simp: view_of_def assemble_def res_simps)
  moreover have "rq_tools rq = wc_tools (gc_window cfg) \<and>
      (rq_enable_thinking rq = None \<or> rq_enable_thinking rq = Some False \<and> gc_thinking_toggleable cfg) \<and>
      (\<exists>k turn. keeps_newest (ag_trajectory s) k \<and> turn_ok turn \<and> rq_messages rq = kept_from ?head groups k @ turn)"
    if rq: "rq \<in> set new" for rq
  proof -
    from new(3) rq obtain turn k where "turn_ok turn" "rq_tools rq = wc_tools (gc_window cfg)"
      "k = 0 \<or> int k \<le> retention_floor (ag_trajectory s)" "rq_messages rq = kept_from ?head groups k @ turn"
      unfolding requests_ok_def view_request_def fst_conv snd_conv by blast
    with retention_floor_keeps new(3) rq th assms(3) show ?thesis unfolding requests_ok_def by blast
  qed
  ultimately show ?thesis using len new(1,2) by (auto simp: RETRIM_BUDGET_def)
qed

text \<open>
  C25. A decision never ends in a fault of the policy's own: its result is a nonempty batch of actions
  that the argument models admit, or one of the signals of the contract. A batch leaves the
  trajectory as it was; giving up appends one failed step with the number of attempts made, which is
  between one and the retry budget plus one; an abort comes only after the threshold of length
  cutoffs; any other failure is the backend's, and never a rejected tool call. The window's
  calibration stays between one and its maximum.
\<close>

theorem agent_decision_outcome:
  assumes "counter_ok cfg" and "calibrated s" and "agent_act kit cfg llm s = (r, s')"
  shows "calibrated s' \<and>
    (case r of
       Inr as \<Rightarrow> as \<noteq> [] \<and> (\<forall>a \<in> set as. agent_action_ok a) \<and> ag_trajectory s' = ag_trajectory s
     | Inl (NoValidAction _) \<Rightarrow> (\<exists>k e. ag_trajectory s' = ag_trajectory s @ [FailedStep k e] \<and>
         1 \<le> k \<and> k \<le> Suc (gc_max_output_retries cfg))
     | Inl (LlmFailure e) \<Rightarrow> ag_trajectory s' = ag_trajectory s \<and> (\<forall>m. e \<noteq> RejectedToolCall m)
     | Inl (RepeatedLengthCutoff _) \<Rightarrow>
         ag_trajectory s' = ag_trajectory s \<and> LENGTH_CUTOFF_ABORT_THRESHOLD \<le> ag_length_cutoffs s'
     | Inl (PolicyFault _) \<Rightarrow> False)"
proof -
  obtain groups where "view_of kit cfg s = Inr (request_head (ro_instruction (ag_initial s))
      (ro_working_dir (ag_initial s)), groups, retention_floor (ag_trajectory s))"
    using assemble_total [OF assms(1)] unfolding view_of_def by blast
  note post = agent_act_post [OF assms(1,3) this]
  have "calibrated s'" using post assms(2) by (simp add: act_post_def)
  moreover note post [THEN conjunct2, unfolded outcome_ok_def]
  ultimately show ?thesis by (rule conjI)
qed

text \<open>A model that never calls a tool.\<close>

definition silent_llm :: "nat llm" where
  "silent_llm rq n = (Inr \<lparr>co_tool_calls = [], co_content = Some ''hello'', co_finish_reason = Some ''stop'',
     co_usage = usage_of None, co_reasoning_content = None, co_response = [], co_served_from_cache = False\<rparr>, Suc n)"

definition sample_agent_config :: agent_config where
  "sample_agent_config = \<lparr>gc_window = \<lparr>wc_max_context_length = 4000, wc_max_completion_tokens = 500,
     wc_tools = build_tool_specs sample_kit, wc_counter = None\<rparr>, gc_max_output_retries = 2,
     gc_thinking_toggleable = False\<rparr>"

definition sample_agent :: "nat agent" where
  "sample_agent = \<lparr>ag_initial = empty_output, ag_trajectory = [Executed (RunTool ''ls'' None 300) empty_output],
     ag_thinking_disabled = False, ag_length_cutoffs = 0, ag_calibration = 1, ag_events = [], ag_sent = [],
     ag_world = 0\<rparr>"

theorem agent_requests_shape_witness:
  "\<exists>r s' new. agent_act sample_kit sample_agent_config silent_llm sample_agent = (r, s') \<and>
    ag_sent s' = new \<and> length new \<le> 12 \<and> (\<forall>rq \<in> set new. rq_enable_thinking rq = None)"
proof -
  obtain r s' where run: "agent_act sample_kit sample_agent_config silent_llm sample_agent = (r, s')" by fastforce
  have "counter_ok sample_agent_config" "ag_thinking_disabled sample_agent \<longrightarrow> gc_thinking_toggleable sample_agent_config"
    by (simp_all add: counter_ok_def sample_agent_config_def sample_agent_def)
  note agent_requests_shape [OF this(1) run this(2)]
  moreover have "ag_sent sample_agent = []" "gc_max_output_retries sample_agent_config = 2"
    "\<not> gc_thinking_toggleable sample_agent_config" by (simp_all add: sample_agent_def sample_agent_config_def)
  ultimately show ?thesis using run by auto
qed

theorem agent_decision_outcome_witness:
  "\<exists>r s'. agent_act sample_kit sample_agent_config silent_llm sample_agent = (r, s') \<and> calibrated s' \<and>
    (\<forall>as. r = Inr as \<longrightarrow> as \<noteq> []) \<and> (\<forall>x. r \<noteq> Inl (PolicyFault x))"
proof -
  obtain r s' where run: "agent_act sample_kit sample_agent_config silent_llm sample_agent = (r, s')" by fastforce
  have "counter_ok sample_agent_config" "calibrated sample_agent"
    by (simp_all add: counter_ok_def sample_agent_config_def sample_agent_def calibrated_def MAX_CALIBRATION_def)
  from agent_decision_outcome [OF this run] run show ?thesis by (auto split: sum.splits agent_exc.splits)
qed

end
