(* ===== verification/Cache.thy ===== *)
theory Cache
  imports Agent
begin

text \<open>
  \<open>src/plugins/caching/store.py\<close> and \<open>llm_cache.py\<close>: the shared fail-open key/value store and the
  completion cache over it. The store is shared by every process of the host and any access may
  fail: before each access the other processes insert rows, and the access then works or raises, as
  the script of the world says. The interface a cache client relies on is the locale \<open>row_store\<close>.
\<close>

section \<open>The store\<close>

record access =
  ax_inserted :: "(string \<times> string) list"
  ax_fails :: bool

record cache_world =
  cw_disabled :: bool
  cw_rows :: "(string, string) dict"
  cw_counters :: "(string, nat) dict"
  cw_script :: "access list"

text \<open>\<open>INSERT OR IGNORE\<close>: the first row of a key stays.\<close>

definition insert_or_ignore :: "string \<Rightarrow> string \<Rightarrow> (string, string) dict \<Rightarrow> (string, string) dict" where
  "insert_or_ignore k v rows = (if map_of rows k = None then rows @ [(k, v)] else rows)"

definition interfere :: "(string \<times> string) list \<Rightarrow> (string, string) dict \<Rightarrow> (string, string) dict" where
  "interfere kvs rows = fold (\<lambda>(k, v). insert_or_ignore k v) kvs rows"

text \<open>The access that comes next: whether it fails, and the world it meets.\<close>

definition next_access :: "cache_world \<Rightarrow> bool \<times> cache_world" where
  "next_access w =
     (case cw_script w of
        [] \<Rightarrow> (False, w)
      | a # script \<Rightarrow>
          (ax_fails a, w\<lparr>cw_rows := interfere (ax_inserted a) (cw_rows w), cw_script := script\<rparr>))"

definition storage_failure :: exc where
  "storage_failure = OtherError ''OperationalError'' ''database is locked''"

definition sqlite_get :: "string \<Rightarrow> cache_world \<Rightarrow> (exc + string option) \<times> cache_world" where
  "sqlite_get key w = (case next_access w of (fails, w') \<Rightarrow>
     (if fails then Inl storage_failure else Inr (map_of (cw_rows w') key), w'))"

definition sqlite_put :: "string \<Rightarrow> string \<Rightarrow> cache_world \<Rightarrow> (exc + unit) \<times> cache_world" where
  "sqlite_put key v w = (case next_access w of (fails, w') \<Rightarrow>
     if fails then (Inl storage_failure, w')
     else (Inr (), w'\<lparr>cw_rows := insert_or_ignore key v (cw_rows w')\<rparr>))"

definition sqlite_get_counter :: "string \<Rightarrow> cache_world \<Rightarrow> (exc + nat) \<times> cache_world" where
  "sqlite_get_counter key w = (case next_access w of (fails, w') \<Rightarrow>
     (if fails then Inl storage_failure
      else Inr (case map_of (cw_counters w') key of None \<Rightarrow> 0 | Some n \<Rightarrow> n), w'))"

section \<open>The facade\<close>

definition cache_get :: "string \<Rightarrow> cache_world \<Rightarrow> string option \<times> cache_world" where
  "cache_get key w =
     (if cw_disabled w then (None, w)
      else case sqlite_get key w of (Inl _, w') \<Rightarrow> (None, w') | (Inr v, w') \<Rightarrow> (v, w'))"

definition cache_put :: "string \<Rightarrow> string \<Rightarrow> cache_world \<Rightarrow> cache_world" where
  "cache_put key v w = (if cw_disabled w then w else snd (sqlite_put key v w))"

definition cache_get_counter :: "string \<Rightarrow> cache_world \<Rightarrow> (exc + nat) \<times> cache_world" where
  "cache_get_counter key w = (if cw_disabled w then (Inr 0, w) else sqlite_get_counter key w)"

section \<open>What a client relies on\<close>

text \<open>The cached call every client makes: a row that decodes is served; otherwise the call is made,
  and its result is stored if it has an encoding.\<close>

definition memoized ::
    "(string \<Rightarrow> 's \<Rightarrow> string option \<times> 's) \<Rightarrow> (string \<Rightarrow> string \<Rightarrow> 's \<Rightarrow> 's) \<Rightarrow> string \<Rightarrow> (string \<Rightarrow> 'a option) \<Rightarrow>
       ('a \<Rightarrow> string option) \<Rightarrow> ('w \<Rightarrow> ('e + 'a) \<times> 'w) \<Rightarrow> 's \<times> 'w \<Rightarrow> ('e + 'a) \<times> 's \<times> 'w" where
  "memoized get put key decode encode call sw =
     (case get key (fst sw) of
        (hit, s1) \<Rightarrow>
          (case Option.bind hit decode of
             Some x \<Rightarrow> (Inr x, s1, snd sw)
           | None \<Rightarrow>
               (case call (snd sw) of
                  (Inl e, w1) \<Rightarrow> (Inl e, s1, w1)
                | (Inr x, w1) \<Rightarrow>
                    (Inr x, (case encode x of None \<Rightarrow> s1 | Some t \<Rightarrow> put key t s1), w1))))"

text \<open>
  \<open>valid ok s\<close>: every row that is there, or that another process is yet to insert, satisfies
  \<open>ok\<close>. Reads then only serve rows that satisfy it, and a client that only writes such rows keeps
  it; a row once there is never changed.
\<close>

lemma memoized_cases:
  assumes "memoized get put key decode encode call (s, w) = (r, s', w')"
  obtains (live) "call w = (r, w')"
  | (hit) t x s1 where "get key s = (Some t, s1)" "decode t = Some x" "r = Inr x" "w' = w" "s' = s1"
proof -
  obtain h s1 where g: "get key s = (h, s1)" by fastforce
  show thesis
  proof (cases "Option.bind h decode")
    case (Some x)
    then obtain t where "h = Some t" "decode t = Some x" by (auto simp: bind_eq_Some_conv)
    with assms g Some show thesis by (intro hit [of t s1 x]) (auto simp: memoized_def)
  next
    case None
    with assms g show thesis by (intro live) (auto simp: memoized_def split: prod.splits sum.splits)
  qed
qed

locale row_store =
  fixes get :: "string \<Rightarrow> 's \<Rightarrow> string option \<times> 's"
    and put :: "string \<Rightarrow> string \<Rightarrow> 's \<Rightarrow> 's"
    and rows :: "'s \<Rightarrow> string \<Rightarrow> string option"
    and valid :: "(string \<Rightarrow> string \<Rightarrow> bool) \<Rightarrow> 's \<Rightarrow> bool"
  assumes get_row: "valid ok s \<Longrightarrow> get k s = (Some v, s') \<Longrightarrow> rows s' k = Some v"
    and get_keeps: "valid ok s \<Longrightarrow> get k s = (r, s') \<Longrightarrow> rows s \<subseteq>\<^sub>m rows s'"
    and put_keeps: "valid ok s \<Longrightarrow> rows s \<subseteq>\<^sub>m rows (put k v s)"
    and valid_row: "valid ok s \<Longrightarrow> rows s k = Some v \<Longrightarrow> ok k v"
    and valid_get: "valid ok s \<Longrightarrow> get k s = (r, s') \<Longrightarrow> valid ok s'"
    and valid_put: "valid ok s \<Longrightarrow> ok k v \<Longrightarrow> valid ok (put k v s)"
begin

lemma get_valid: "valid ok s \<Longrightarrow> get k s = (Some v, s') \<Longrightarrow> ok k v \<and> valid ok s'"
  using get_row valid_get valid_row by blast

text \<open>A cached call returns only what the row contract or the call itself allows.\<close>

lemma memoized_valid:
  assumes "memoized get put key decode encode call (s, w) = (r, s', w')" and "valid ok s"
    and "\<And>t x. ok key t \<Longrightarrow> decode t = Some x \<Longrightarrow> allowed x"
    and "\<And>x w1. call w = (Inr x, w1) \<Longrightarrow> allowed x \<and> (\<forall>t. encode x = Some t \<longrightarrow> ok key t)"
  shows "valid ok s' \<and> (\<forall>x. r = Inr x \<longrightarrow> allowed x) \<and> (\<forall>e. r = Inl e \<longrightarrow> call w = (Inl e, w'))"
proof -
  obtain hit s1 where g: "get key s = (hit, s1)" by fastforce
  have v1: "valid ok s1" by (rule valid_get [OF assms(2) g])
  have ok: "ok key t" if "hit = Some t" for t using get_valid [OF assms(2)] g that by blast
  show ?thesis
  proof (cases "Option.bind hit decode")
    case (Some x)
    then obtain t where "hit = Some t" "decode t = Some x" by (auto simp: bind_eq_Some_conv)
    with assms(1,3) g Some ok v1 show ?thesis by (auto simp: memoized_def)
  next
    case None
    obtain c w1 where c: "call w = (c, w1)" by fastforce
    from assms(1) g None c v1 assms(4) [of _ w1] show ?thesis
      by (cases c) (auto simp: memoized_def valid_put split: option.splits)
  qed
qed

end

definition world_rows :: "cache_world \<Rightarrow> string \<Rightarrow> string option" where
  "world_rows w k = map_of (cw_rows w) k"

definition world_valid :: "(string \<Rightarrow> string \<Rightarrow> bool) \<Rightarrow> cache_world \<Rightarrow> bool" where
  "world_valid ok w \<longleftrightarrow> (\<forall>(k, v) \<in> set (cw_rows w). ok k v) \<and>
     (\<forall>a \<in> set (cw_script w). \<forall>(k, v) \<in> set (ax_inserted a). ok k v)"

lemma insert_or_ignore_rows:
  "set (insert_or_ignore k v rows) \<subseteq> insert (k, v) (set rows)"
  "map_of rows \<subseteq>\<^sub>m map_of (insert_or_ignore k v rows)"
  by (auto simp: insert_or_ignore_def map_le_def map_add_def)

lemma interfere_rows:
  "set (interfere kvs rows) \<subseteq> set kvs \<union> set rows" "map_of rows \<subseteq>\<^sub>m map_of (interfere kvs rows)"
proof (induction kvs arbitrary: rows)
  case (Cons kv kvs)
  obtain k v where kv: "kv = (k, v)" by fastforce
  { case 1
    then show ?case using Cons.IH(1) [of "insert_or_ignore k v rows"] insert_or_ignore_rows(1) [of k v rows]
      by (auto simp: interfere_def kv)
  next
    case 2
    then show ?case using Cons.IH(2) [of "insert_or_ignore k v rows"] insert_or_ignore_rows(2) [of rows k v]
      by (auto simp: interfere_def kv intro: map_le_trans) }
qed (simp_all add: interfere_def)

lemma next_access_effect:
  assumes "next_access w = (fails, w')"
  shows "world_rows w \<subseteq>\<^sub>m world_rows w'" "world_valid ok w \<Longrightarrow> world_valid ok w'" "cw_disabled w' = cw_disabled w"
    "cw_counters w' = cw_counters w"
  using assms interfere_rows
  by (fastforce simp: next_access_def world_rows_def [abs_def] world_valid_def split: list.splits)+

lemma cache_get_effect:
  assumes "cache_get k w = (r, w')"
  shows "r = Some v \<Longrightarrow> world_rows w' k = Some v" "world_rows w \<subseteq>\<^sub>m world_rows w'"
    "world_valid ok w \<Longrightarrow> world_valid ok w'"
  using assms next_access_effect
  by (auto simp: cache_get_def sqlite_get_def world_rows_def split: if_splits prod.splits)

lemma cache_put_effect:
  "world_rows w \<subseteq>\<^sub>m world_rows (cache_put k v w)" "world_valid ok w \<Longrightarrow> ok k v \<Longrightarrow> world_valid ok (cache_put k v w)"
proof -
  obtain fails w1 where a: "next_access w = (fails, w1)" by fastforce
  have put: "cache_put k v w = (if cw_disabled w then w else if fails then w1
      else w1\<lparr>cw_rows := insert_or_ignore k v (cw_rows w1)\<rparr>)"
    by (simp add: cache_put_def sqlite_put_def a)
  have "world_rows w1 \<subseteq>\<^sub>m world_rows (w1\<lparr>cw_rows := insert_or_ignore k v (cw_rows w1)\<rparr>)"
    using insert_or_ignore_rows(2) by (simp add: world_rows_def [abs_def])
  then show "world_rows w \<subseteq>\<^sub>m world_rows (cache_put k v w)"
    using next_access_effect(1) [OF a] map_le_trans by (auto simp: put)
  assume "world_valid ok w" "ok k v"
  moreover from this(1) have "world_valid ok w1" by (rule next_access_effect(2) [OF a])
  ultimately show "world_valid ok (cache_put k v w)"
    using insert_or_ignore_rows(1) [of k v "cw_rows w1"] by (fastforce simp: put world_valid_def)
qed

interpretation kv: row_store cache_get cache_put world_rows world_valid
proof unfold_locales
  show "cache_get k s = (Some v, s') \<Longrightarrow> world_rows s' k = Some v" for k s v s' by (rule cache_get_effect(1)) auto
  show "cache_get k s = (r, s') \<Longrightarrow> world_rows s \<subseteq>\<^sub>m world_rows s'" for k s r s'
    by (rule cache_get_effect(2))
  show "world_rows s \<subseteq>\<^sub>m world_rows (cache_put k v s)" for s k v by (rule cache_put_effect(1))
  show "world_valid ok s \<Longrightarrow> world_rows s k = Some v \<Longrightarrow> ok k v" for ok s k v
    by (auto simp: world_valid_def world_rows_def dest: map_of_SomeD)
  show "world_valid ok s \<Longrightarrow> cache_get k s = (r, s') \<Longrightarrow> world_valid ok s'" for ok s k r s'
    by (rule cache_get_effect(3))
  show "world_valid ok s \<Longrightarrow> ok k v \<Longrightarrow> world_valid ok (cache_put k v s)" for ok s k v
    by (rule cache_put_effect(2))
qed

section \<open>The completion cache\<close>

definition tool_call_json :: "tool_call \<Rightarrow> json" where
  "tool_call_json c = JObj [(''name'', JStr (tool_name c)), (''arguments'', JStr (tool_arguments c))]"

text \<open>\<open>dataclasses.asdict\<close> of a completion.\<close>

definition completion_json :: "completion \<Rightarrow> json" where
  "completion_json c = JObj
     [(''tool_calls'', JArr (map tool_call_json (co_tool_calls c))),
      (''content'', opt_json JStr (co_content c)),
      (''finish_reason'', opt_json JStr (co_finish_reason c)),
      (''usage'', usage_json (co_usage c)),
      (''reasoning_content'', opt_json (\<lambda>v. v) (co_reasoning_content c)),
      (''response'', JObj (co_response c)),
      (''served_from_cache'', JBool (co_served_from_cache c))]"

definition serialize_completion :: "(rat \<Rightarrow> string) \<Rightarrow> completion \<Rightarrow> string" where
  "serialize_completion fr c = dumps fr (completion_json c)"

text \<open>Reading it back: an optional text or count (missing and null are none), a call, the usage.
  A value of another type than the writer's counts as a corrupt row.\<close>

fun opt_str :: "json option \<Rightarrow> string option option" where
  "opt_str None = Some None"
| "opt_str (Some JNull) = Some None"
| "opt_str (Some (JStr t)) = Some (Some t)"
| "opt_str _ = None"

fun opt_count :: "json option \<Rightarrow> nat option option" where
  "opt_count None = Some None"
| "opt_count (Some JNull) = Some None"
| "opt_count (Some (JInt n)) = (if n < 0 then None else Some (Some (nat n)))"
| "opt_count _ = None"

fun read_call :: "json \<Rightarrow> tool_call option" where
  "read_call (JObj ms) =
     (case (map_of ms ''name'', map_of ms ''arguments'') of
        (Some (JStr n), Some (JStr a)) \<Rightarrow>
          (if fst ` set ms \<subseteq> {''name'', ''arguments''} then Some \<lparr>tool_name = n, tool_arguments = a\<rparr> else None)
      | _ \<Rightarrow> None)"
| "read_call _ = None"

fun read_calls :: "json list \<Rightarrow> tool_call list option" where
  "read_calls [] = Some []"
| "read_calls (v # vs) =
     (case read_call v of
        None \<Rightarrow> None
      | Some c \<Rightarrow> (case read_calls vs of None \<Rightarrow> None | Some cs \<Rightarrow> Some (c # cs)))"

definition usage_keys :: "string set" where
  "usage_keys = {''prompt_tokens'', ''completion_tokens'', ''reasoning_tokens'', ''cached_input_tokens''}"

definition read_usage :: "(string \<times> json) list \<Rightarrow> usage option" where
  "read_usage ms =
     (if \<not> fst ` set ms \<subseteq> usage_keys then None
      else case (opt_count (map_of ms ''prompt_tokens''), opt_count (map_of ms ''completion_tokens''),
                 opt_count (map_of ms ''reasoning_tokens''), opt_count (map_of ms ''cached_input_tokens'')) of
             (Some p, Some c, Some r, Some i) \<Rightarrow> Some \<lparr>us_prompt_tokens = p, us_completion_tokens = c,
                us_reasoning_tokens = r, us_cached_input_tokens = i\<rparr>
           | _ \<Rightarrow> None)"

definition member_or :: "(string \<times> json) list \<Rightarrow> string \<Rightarrow> json \<Rightarrow> json" where
  "member_or ms k d = (case map_of ms k of None \<Rightarrow> d | Some v \<Rightarrow> v)"

fun read_reasoning :: "json option \<Rightarrow> json option" where
  "read_reasoning None = None"
| "read_reasoning (Some JNull) = None"
| "read_reasoning (Some v) = Some v"

definition read_completion :: "json \<Rightarrow> completion option" where
  "read_completion v =
     (case v of
        JObj ms \<Rightarrow>
          (case (member_or ms ''tool_calls'' (JArr []), member_or ms ''usage'' (JObj []),
                 member_or ms ''response'' (JObj [])) of
             (JArr calls, JObj us, JObj response) \<Rightarrow>
               (case (read_calls calls, read_usage us, opt_str (map_of ms ''content''), opt_str (map_of ms ''finish_reason'')) of
                  (Some cs, Some u, Some content, Some finish) \<Rightarrow>
                    Some \<lparr>co_tool_calls = cs, co_content = content, co_finish_reason = finish, co_usage = u,
                      co_reasoning_content = read_reasoning (map_of ms ''reasoning_content''),
                      co_response = response, co_served_from_cache = True\<rparr>
                | _ \<Rightarrow> None)
           | _ \<Rightarrow> None)
      | _ \<Rightarrow> None)"

definition deserialize_completion :: "(string \<Rightarrow> string + json) \<Rightarrow> string \<Rightarrow> completion option" where
  "deserialize_completion loads t = (case loads t of Inl _ \<Rightarrow> None | Inr v \<Rightarrow> read_completion v)"

definition completion_cache_key :: "string \<Rightarrow> string \<Rightarrow> string" where
  "completion_cache_key revision key = ''c:'' @ revision @ '':'' @ key"

text \<open>\<open>CachingCompletionBackend.complete\<close> over an inner backend, its request identity and the world.\<close>

definition caching_complete ::
    "(rat \<Rightarrow> string) \<Rightarrow> (string \<Rightarrow> string + json) \<Rightarrow> string \<Rightarrow> (completion_request \<Rightarrow> exc + string) \<Rightarrow>
       (completion_request \<Rightarrow> 'w \<Rightarrow> (llm_exc + completion) \<times> 'w) \<Rightarrow> completion_request \<Rightarrow>
       cache_world \<times> 'w \<Rightarrow> (llm_exc + completion) \<times> cache_world \<times> 'w" where
  "caching_complete fr loads revision key_of inner rq sw =
     (case key_of rq of
        Inl e \<Rightarrow> (Inl (Foreign (OtherForeign e)), sw)
      | Inr key \<Rightarrow>
          memoized cache_get cache_put (completion_cache_key revision key) (deserialize_completion loads)
            (\<lambda>c. Some (serialize_completion fr c)) (inner rq) sw)"

text \<open>\<open>make_backend\<close>: the cache wraps only a deterministic provider, and only while caching is on.\<close>

definition make_backend_complete ::
    "(string \<Rightarrow> string) \<Rightarrow> (rat \<Rightarrow> string) \<Rightarrow> (string \<Rightarrow> string + json) \<Rightarrow> string option \<Rightarrow> llm_provider \<Rightarrow> bool \<Rightarrow>
       (completion_request \<Rightarrow> 'w \<Rightarrow> (llm_exc + completion) \<times> 'w) \<Rightarrow> completion_request \<Rightarrow>
       cache_world \<times> 'w \<Rightarrow> (llm_exc + completion) \<times> cache_world \<times> 'w" where
  "make_backend_complete sha fr loads override l cache inner rq sw =
     (if \<not> cache \<or> \<not> is_deterministic l \<or> cw_disabled (fst sw)
      then (case inner rq (snd sw) of (r, w) \<Rightarrow> (r, fst sw, w))
      else caching_complete fr loads (provider_revision override l) (cache_key sha fr l) inner rq sw)"

section \<open>The cache is transparent\<close>

definition completion_ok :: "completion \<Rightarrow> bool" where
  "completion_ok c \<longleftrightarrow> co_reasoning_content c \<noteq> Some JNull"

lemma read_calls_json: "read_calls (map tool_call_json cs) = Some cs"
  by (induction cs) (auto simp: tool_call_json_def)

lemma opt_read:
  "opt_str (Some (opt_json JStr x)) = Some x" "opt_count (Some (opt_json nat_json n)) = Some n"
  by (cases x; cases n; simp add: opt_json_def nat_json_def)+

lemma read_usage_json: "(case usage_json u of JObj ms \<Rightarrow> read_usage ms | _ \<Rightarrow> None) = Some u"
  by (cases u) (simp add: usage_json_def read_usage_def usage_keys_def opt_read)

lemma read_completion_json: "completion_ok c \<Longrightarrow> read_completion (completion_json c) = Some (c\<lparr>co_served_from_cache := True\<rparr>)"
proof -
  assume ok: "completion_ok c"
  obtain us where u: "usage_json (co_usage c) = JObj us" by (simp add: usage_json_def)
  with read_usage_json [of "co_usage c"] have us: "read_usage us = Some (co_usage c)" by simp
  have r: "read_reasoning (Some (opt_json (\<lambda>v. v) x)) = x" if "x \<noteq> Some JNull" for x
    using that by (cases x; cases "the x") (auto simp: opt_json_def)
  have "read_completion (completion_json c) = Some \<lparr>co_tool_calls = co_tool_calls c, co_content = co_content c,
      co_finish_reason = co_finish_reason c, co_usage = co_usage c,
      co_reasoning_content = co_reasoning_content c, co_response = co_response c, co_served_from_cache = True\<rparr>"
    using ok [unfolded completion_ok_def]
    by (simp add: read_completion_def completion_json_def member_or_def u us read_calls_json opt_read r)
  then show ?thesis by simp
qed

lemma deserialize_serialize:
  assumes "loads (serialize_completion fr c) = Inr (completion_json c)" and "completion_ok c"
  shows "deserialize_completion loads (serialize_completion fr c) = Some (c\<lparr>co_served_from_cache := True\<rparr>)"
  using assms by (simp add: deserialize_completion_def read_completion_json)

text \<open>The rows of a sound store: what is under a completion key and can be read at all is the answer to that
  request. A row may well be corrupt.\<close>

definition completion_rows ::
    "(string \<Rightarrow> string + json) \<Rightarrow> string \<Rightarrow> (string \<Rightarrow> completion) \<Rightarrow> string \<Rightarrow> string \<Rightarrow> bool" where
  "completion_rows loads revision answer k v \<longleftrightarrow>
     (\<forall>q c. k = completion_cache_key revision q \<longrightarrow> deserialize_completion loads v = Some c \<longrightarrow>
        c\<lparr>co_served_from_cache := False\<rparr> = answer q)"

lemma deserialized_served: "deserialize_completion loads t = Some c \<Longrightarrow> co_served_from_cache c"
  by (auto simp: deserialize_completion_def read_completion_def split: sum.splits json.splits option.splits prod.splits)

lemma completion_cache_key_inj: "completion_cache_key revision q = completion_cache_key revision q' \<longleftrightarrow> q = q'"
  by (simp add: completion_cache_key_def)

lemma caching_complete_answers:
  assumes "caching_complete fr loads revision key_of inner rq (s, w) = (r, s', w')"
    and "world_valid (completion_rows loads revision answer) s" and "key_of rq = Inr q"
    and "loads (serialize_completion fr (answer q)) = Inr (completion_json (answer q))"
    and "completion_ok (answer q)" and "\<not> co_served_from_cache (answer q)"
    and "\<And>c w1. inner rq w = (Inr c, w1) \<Longrightarrow> c = answer q"
  shows "world_valid (completion_rows loads revision answer) s' \<and>
    (inner rq w = (r, w') \<or> w' = w \<and> r = Inr ((answer q)\<lparr>co_served_from_cache := True\<rparr>))"
proof -
  let ?key = "completion_cache_key revision q"
  have run: "memoized cache_get cache_put ?key (deserialize_completion loads)
      (\<lambda>c. Some (serialize_completion fr c)) (inner rq) (s, w) = (r, s', w')"
    using assms(1,3) by (simp add: caching_complete_def)
  have "(answer q)\<lparr>co_served_from_cache := False\<rparr> = answer q" using assms(6) by simp
  then have own: "completion_rows loads revision answer ?key (serialize_completion fr (answer q))"
    using deserialize_serialize [where loads = loads and fr = fr and c = "answer q", OF assms(4,5)]
    by (auto simp: completion_rows_def completion_cache_key_inj)
  have "world_valid (completion_rows loads revision answer) s'"
    using kv.memoized_valid [OF run assms(2), of "\<lambda>_. True"] own assms(7) by blast
  moreover have "inner rq w = (r, w') \<or> w' = w \<and> r = Inr ((answer q)\<lparr>co_served_from_cache := True\<rparr>)"
    using run
  proof (cases rule: memoized_cases)
    case (hit t x s1)
    then have "completion_rows loads revision answer ?key t" using kv.get_valid [OF assms(2)] by blast
    then have "x\<lparr>co_served_from_cache := False\<rparr> = answer q" "co_served_from_cache x"
      using hit(2) deserialized_served by (auto simp: completion_rows_def)
    moreover have "x = (x\<lparr>co_served_from_cache := False\<rparr>)\<lparr>co_served_from_cache := True\<rparr>" if "co_served_from_cache x"
      using that by simp
    ultimately have "x = (answer q)\<lparr>co_served_from_cache := True\<rparr>" by metis
    with hit show ?thesis by simp
  qed simp
  ultimately show ?thesis by blast
qed


text \<open>A read that finds a row another process left corrupt, then a put that leaves that row.\<close>

definition sample_answer :: completion where
  "sample_answer = \<lparr>co_tool_calls = [\<lparr>tool_name = ''submit'', tool_arguments = ''{}''\<rparr>], co_content = None,
     co_finish_reason = Some ''stop'', co_usage = usage_of None, co_reasoning_content = None,
     co_response = [(''id'', JStr ''i'')], co_served_from_cache = False\<rparr>"

definition answering :: "completion_request \<Rightarrow> nat \<Rightarrow> (llm_exc + completion) \<times> nat" where
  "answering rq n = (Inr sample_answer, Suc n)"

definition racing_world :: "string \<Rightarrow> cache_world" where
  "racing_world k = \<lparr>cw_disabled = False, cw_rows = [], cw_counters = [],
     cw_script = [\<lparr>ax_inserted = [(k, ''{'')], ax_fails = False\<rparr>, \<lparr>ax_inserted = [], ax_fails = False\<rparr>]\<rparr>"

lemma corrupt_row: "deserialize_completion (read_json sample_float) ''{'' = None"
  by code_simp


end
