(* ===== verification/Execution.thy ===== *)
theory Execution
  imports Certify
begin

text \<open>
  \<open>src/rollout/execution.py\<close>: the seam between the episode loop and the environment. An executor is
  its four operations over a state; the live executor runs every action in the environment, and the
  eager regime certifies everything.
\<close>

record 's live_env = "'s task_env" +
  env_reset :: "'s \<Rightarrow> (rexc + raw_output) \<times> 's"
  env_provision :: "'s \<Rightarrow> (rexc + unit) \<times> 's"
  env_close :: "'s \<Rightarrow> (rexc + unit) \<times> 's"

record 's executor =
  xe_provision :: "'s \<Rightarrow> (rexc + unit) \<times> 's"
  xe_step_run :: "run_action \<Rightarrow> 's \<Rightarrow> (rexc + step_result) \<times> 's"
  xe_prepare_submit :: "'s \<Rightarrow> (rexc + step_result option) \<times> 's"
  xe_step_verify :: "'s \<Rightarrow> (rexc + step_result) \<times> 's"

definition env_core :: "('s, 'm) live_env_scheme \<Rightarrow> 's task_env" where
  "env_core env = \<lparr>env_verify = env_verify env, env_execute = env_execute env\<rparr>"

definition live_step_executor :: "('s, 'm) live_env_scheme \<Rightarrow> 's executor" where
  "live_step_executor env =
     \<lparr>xe_provision = env_provision env,
      xe_step_run = (\<lambda>a. execute_env_action (env_core env) (RunAct a)),
      xe_prepare_submit = (\<lambda>s. (Inr None, s)),
      xe_step_verify = execute_env_action (env_core env) VerifyAct\<rparr>"

text \<open>The message of a drift; its payload is the artifact the sampler writes.\<close>

definition drift_error :: "nat \<Rightarrow> rexc" where
  "drift_error i = ExecutionDriftError i
     (''execution drift during catch-up: action '' @ nat_str i @
      '' no longer reproduces its recorded observation; the replayed prefix is contaminated'')"

definition eager_fingerprint :: "string list \<Rightarrow> string list" where
  "eager_fingerprint task_ids = map (\<lambda>t. t @ '':live'') task_ids"

definition eager_certify :: "experiment_result \<Rightarrow> experiment_result \<times> string list" where
  "eager_certify baseline = (baseline, map fst (ex_tasks baseline))"

text \<open>The regime chosen, and whether the choice was a degradation that is logged.\<close>

definition resolve_execution :: "bool \<Rightarrow> run_config \<Rightarrow> execution_kind \<times> bool" where
  "resolve_execution cache_disabled c =
     (if pl_execution (rc_plugins c) \<noteq> Replay then (Eager, False)
      else if cache_disabled then (Eager, True)
      else (Replay, False))"

lemma resolve_execution_replay:
  "config_ok c \<Longrightarrow> fst (resolve_execution d c) = Replay \<Longrightarrow>
     is_deterministic (rc_llm_provider_config c) \<and> \<not> d"
  by (auto simp: resolve_execution_def config_ok_iff split: if_splits)

lemma live_executor_raises:
  "xe_step_run (live_step_executor env) a s = (Inl e, s') \<Longrightarrow> \<exists>x. e = env_ladder x"
  "xe_step_verify (live_step_executor env) s = (Inl e, s') \<Longrightarrow> \<exists>x. e = env_ladder x"
  by (auto simp: live_step_executor_def execute_env_action_def split: prod.splits sum.splits)

end
