(* ===== verification/Replay.thy ===== *)
theory Replay
  imports Recording Scrub Cache Execution
begin

text \<open>
  \<open>src/plugins/replay/contract.py\<close>, \<open>step_cache.py\<close>, \<open>bump_epoch.py\<close> and the executor choice of
  \<open>__init__.py\<close>: recorded environment steps served while the action chain is known, live execution
  after the replayed prefix has been executed again and compared. The replay cache is the executor
  over a state that holds the shared store, the environment and the chain.
\<close>

section \<open>The keying contract\<close>

definition EPOCH_KEY_PREFIX :: string where
  "EPOCH_KEY_PREFIX = ''env:epoch:''"

definition CACHE_SCHEMA :: string where
  "CACHE_SCHEMA = ''step-result-v3-metrics''"

definition namespace_for :: "string option \<Rightarrow> string option" where
  "namespace_for cid = map_option (\<lambda>c. CACHE_SCHEMA @ '':'' @ c) cid"

definition epoch_counter_key :: "string \<Rightarrow> string" where
  "epoch_counter_key ns = EPOCH_KEY_PREFIX @ ns"

definition canonical_scope :: "(rat \<Rightarrow> string) \<Rightarrow> string \<Rightarrow> nat \<Rightarrow> string" where
  "canonical_scope fr ns epoch =
     dumps_compact fr (JObj [(''namespace'', JStr ns), (''epoch'', nat_json epoch)])"

text \<open>\<open>base64.urlsafe_b64encode\<close>, then \<open>rstrip("=")\<close>.\<close>

definition b64_char :: "nat \<Rightarrow> char" where
  "b64_char n = ''ABCDEFGHIJKLMNOPQRSTUVWXYZabcdefghijklmnopqrstuvwxyz0123456789-_'' ! n"

fun urlsafe_b64encode :: "nat list \<Rightarrow> string" where
  "urlsafe_b64encode [] = []"
| "urlsafe_b64encode [a] = [b64_char (a div 4), b64_char (a mod 4 * 16), CHR ''='', CHR ''='']"
| "urlsafe_b64encode [a, b] =
     [b64_char (a div 4), b64_char (a mod 4 * 16 + b div 16), b64_char (b mod 16 * 4), CHR ''='']"
| "urlsafe_b64encode (a # b # c # bs) =
     b64_char (a div 4) # b64_char (a mod 4 * 16 + b div 16) # b64_char (b mod 16 * 4 + c div 64) #
     b64_char (c mod 64) # urlsafe_b64encode bs"

definition network_snapshot_token :: "(rat \<Rightarrow> string) \<Rightarrow> string \<Rightarrow> nat \<Rightarrow> string" where
  "network_snapshot_token fr ns epoch =
     rev (dropWhile (\<lambda>c. c = CHR ''='') (rev (urlsafe_b64encode (map of_char (canonical_scope fr ns epoch)))))"

definition resolve_scope :: "string option \<Rightarrow> cache_world \<Rightarrow> (exc + (string \<times> nat) option) \<times> cache_world" where
  "resolve_scope cid c =
     (case namespace_for cid of
        None \<Rightarrow> (Inr None, c)
      | Some ns \<Rightarrow>
          (case cache_get_counter (epoch_counter_key ns) c of
             (Inl e, c') \<Rightarrow> (Inl e, c')
           | (Inr epoch, c') \<Rightarrow> (Inr (Some (ns, epoch)), c')))"

text \<open>\<open>bump_epoch.py\<close>: insert 1, or add 1 to what is there; what it prints is old and new value.\<close>

definition bump_epoch :: "string \<Rightarrow> (string, nat) dict \<Rightarrow> (nat \<times> nat) \<times> (string, nat) dict" where
  "bump_epoch ns counters =
     (let key = epoch_counter_key ns;
          new = (case map_of counters key of None \<Rightarrow> 1 | Some n \<Rightarrow> n + 1)
      in ((new - 1, new), AList.update key new counters))"

section \<open>The environment and the executor state\<close>

text \<open>What the replay cache asks of an environment beyond the live one: the two optional protocols,
  and the monotonic clock it runs under.\<close>

record 's replay_env = "'s live_env" +
  env_pin_network_snapshot :: "(string \<Rightarrow> 's \<Rightarrow> 's) option"
  env_write_verify_artifacts :: "(step_result \<Rightarrow> 's \<Rightarrow> (rexc + unit) \<times> 's) option"
  env_monotonic :: "'s \<Rightarrow> rat"

text \<open>The collaborators: SHA-256, \<open>float.__repr__\<close>, \<open>json.loads\<close>, the scrubbing rules.\<close>

record replay_kit =
  rk_sha :: "string \<Rightarrow> string"
  rk_fr :: "rat \<Rightarrow> string"
  rk_loads :: "string \<Rightarrow> string + json"
  rk_rules :: scrub_rules

definition rk_hash :: "replay_kit \<Rightarrow> run_action \<Rightarrow> step_result \<Rightarrow> string" where
  "rk_hash k a r = scrubbed_hash (rk_sha k) (rk_fr k) (rk_rules k) (Some (ra_command a)) r"

definition rk_scrub :: "replay_kit \<Rightarrow> run_action \<Rightarrow> step_result \<Rightarrow> step_result" where
  "rk_scrub k a r = scrub_step_result (scrub_nondeterminism (rk_rules k)) r (Some (ra_command a))"

record replayed_step =
  ry_action :: run_action
  ry_key :: string
  ry_recorded_hash :: string

record 's replay_cache =
  rp_store :: cache_world
  rp_env :: 's
  rp_digest :: string
  rp_replayed :: "replayed_step list"
  rp_live :: bool
  rp_recordable_chain :: bool
  rp_verify_key :: "string option"

definition apply_replay_scope ::
    "replay_kit \<Rightarrow> ('s, 'm) replay_env_scheme \<Rightarrow> string option \<Rightarrow> cache_world \<Rightarrow> 's \<Rightarrow>
       (exc + (string \<times> nat) option) \<times> cache_world \<times> 's" where
  "apply_replay_scope k env cid c s =
     (case resolve_scope cid c of
        (Inr (Some (ns, epoch)), c') \<Rightarrow>
          (Inr (Some (ns, epoch)), c',
           (case env_pin_network_snapshot env of
              None \<Rightarrow> s
            | Some pin \<Rightarrow> pin (network_snapshot_token (rk_fr k) ns epoch) s))
      | (r, c') \<Rightarrow> (r, c', s))"

definition replay_start :: "replay_kit \<Rightarrow> string \<Rightarrow> nat \<Rightarrow> cache_world \<Rightarrow> 's \<Rightarrow> 's replay_cache" where
  "replay_start k ns epoch c s =
     \<lparr>rp_store = c, rp_env = s, rp_digest = rk_sha k (canonical_scope (rk_fr k) ns epoch),
      rp_replayed = [], rp_live = False, rp_recordable_chain = True, rp_verify_key = None\<rparr>"

text \<open>\<open>make_replay_cache\<close>: the state of a replay cache, or the live-only store and environment.\<close>

definition make_replay_cache ::
    "replay_kit \<Rightarrow> ('s, 'm) replay_env_scheme \<Rightarrow> string option \<Rightarrow> cache_world \<Rightarrow> 's \<Rightarrow>
       exc + ('s replay_cache + (cache_world \<times> 's))" where
  "make_replay_cache k env cid c s =
     (case apply_replay_scope k env cid c s of
        (Inl e, _) \<Rightarrow> Inl e
      | (Inr None, c', s') \<Rightarrow> Inr (Inr (c', s'))
      | (Inr (Some (ns, epoch)), c', s') \<Rightarrow> Inr (Inl (replay_start k ns epoch c' s')))"

section \<open>Reading a recorded step\<close>

text \<open>A value of another type than the writer's is out of the format and raises \<open>TypeError\<close>.\<close>

definition bad_row :: "exc + 'a" where
  "bad_row = Inl (TypeError ''step row'')"

definition row_item :: "(string \<times> json) list \<Rightarrow> string \<Rightarrow> exc + json" where
  "row_item ms key = (case map_of ms key of None \<Rightarrow> Inl (KeyError key) | Some v \<Rightarrow> Inr v)"

fun read_text :: "json \<Rightarrow> exc + string" where
  "read_text (JStr t) = Inr t"
| "read_text _ = bad_row"

fun read_opt :: "(json \<Rightarrow> exc + 'a) \<Rightarrow> json \<Rightarrow> exc + 'a option" where
  "read_opt f JNull = Inr None"
| "read_opt f v = bind_res (f v) (\<lambda>x. Inr (Some x))"

fun read_count :: "json \<Rightarrow> exc + int" where
  "read_count (JInt i) = Inr i"
| "read_count _ = bad_row"

fun read_flag :: "json \<Rightarrow> exc + bool" where
  "read_flag (JBool b) = Inr b"
| "read_flag _ = bad_row"

fun read_num :: "json \<Rightarrow> exc + rat" where
  "read_num (JFloat x) = Inr x"
| "read_num (JInt i) = Inr (of_int i)"
| "read_num _ = bad_row"

fun read_object :: "json \<Rightarrow> exc + (string \<times> json) list" where
  "read_object (JObj ms) = Inr ms"
| "read_object _ = bad_row"

definition raw_fields :: "string set" where
  "raw_fields = {''instruction'', ''working_dir'', ''exit_code'', ''stdout'', ''stderr''}"

text \<open>\<open>RawEnvOutput(**members)\<close>: an unexpected keyword raises, a missing one takes its default.\<close>

definition read_raw_output :: "json \<Rightarrow> exc + raw_output" where
  "read_raw_output v =
     bind_res (read_object v) (\<lambda>ms.
     if \<not> fst ` set ms \<subseteq> raw_fields then Inl (TypeError ''unexpected keyword argument'')
     else
       bind_res (read_text (member_or ms ''instruction'' (JStr []))) (\<lambda>i.
       bind_res (read_opt read_text (member_or ms ''working_dir'' JNull)) (\<lambda>d.
       bind_res (read_opt read_count (member_or ms ''exit_code'' JNull)) (\<lambda>x.
       bind_res (read_text (member_or ms ''stdout'' (JStr []))) (\<lambda>so.
       bind_res (read_text (member_or ms ''stderr'' (JStr []))) (\<lambda>se.
         Inr \<lparr>ro_instruction = i, ro_working_dir = d, ro_exit_code = x, ro_stdout = so, ro_stderr = se\<rparr>))))))"

text \<open>\<open>VerifyVerdict(**members)\<close>: no defaults, and the constructor checks the verdict.\<close>

definition read_verdict :: "json \<Rightarrow> exc + verify_verdict" where
  "read_verdict v =
     bind_res (read_object v) (\<lambda>ms.
     if \<not> fst ` set ms \<subseteq> {''completed'', ''passed'', ''error''}
     then Inl (TypeError ''unexpected keyword argument'')
     else if \<not> {''completed'', ''passed'', ''error''} \<subseteq> fst ` set ms
     then Inl (TypeError ''missing required argument'')
     else
       bind_res (read_flag (member_or ms ''completed'' JNull)) (\<lambda>c.
       bind_res (read_opt read_flag (member_or ms ''passed'' JNull)) (\<lambda>p.
       bind_res (read_opt read_text (member_or ms ''error'' JNull)) (\<lambda>e.
         mk_verdict c p e))))"

definition read_metrics :: "json \<Rightarrow> exc + metrics" where
  "read_metrics v =
     bind_res (read_object v) (map_res (\<lambda>(k, x). bind_res (read_num x) (\<lambda>y. Inr (k, y))))"

definition deserialize_row :: "json \<Rightarrow> exc + step_result" where
  "deserialize_row v =
     bind_res (read_object v) (\<lambda>ms.
     bind_res (bind_res (row_item ms ''raw_env_output'') read_raw_output) (\<lambda>raw.
     bind_res (bind_res (row_item ms ''reward'') read_num) (\<lambda>reward.
     bind_res (bind_res (row_item ms ''terminated'') read_flag) (\<lambda>terminated.
     bind_res (bind_res (row_item ms ''truncated'') read_flag) (\<lambda>truncated.
     bind_res (bind_res (row_item ms ''info'') read_object) (\<lambda>info.
     bind_res (bind_res (row_item ms ''metrics'') read_metrics) (\<lambda>metrics.
     bind_res (bind_res (row_item ms ''verdict'') (read_opt read_verdict)) (\<lambda>verdict.
       Inr \<lparr>sp_raw = raw, sp_reward = reward, sp_terminated = terminated, sp_truncated = truncated,
            sp_info = info, sp_metrics = metrics, sp_verdict = verdict\<rparr>))))))))"

definition deserialize :: "(string \<Rightarrow> string + json) \<Rightarrow> string \<Rightarrow> exc + step_result" where
  "deserialize loads t =
     (case loads t of
        Inl m \<Rightarrow> Inl (OtherError ''JSONDecodeError'' m)
      | Inr v \<Rightarrow> deserialize_row v)"

section \<open>The replay cache\<close>

definition canonical_action :: "(rat \<Rightarrow> string) \<Rightarrow> env_action \<Rightarrow> string" where
  "canonical_action fr a = dumps_compact fr (action_payload a)"

definition blocked_key :: "string \<Rightarrow> string" where
  "blocked_key key = key @ '':live-only''"

definition BLOCKED_VALUE :: string where
  "BLOCKED_VALUE = ''{'' @ quote # ''live_only'' @ quote # '':true}''"

definition next_digest :: "replay_kit \<Rightarrow> string \<Rightarrow> env_action \<Rightarrow> string" where
  "next_digest k d a = rk_sha k (d @ ''|'' @ canonical_action (rk_fr k) a)"

definition step_key :: "string \<Rightarrow> string" where
  "step_key digest = ''env:'' @ digest"

definition advance :: "replay_kit \<Rightarrow> env_action \<Rightarrow> 's replay_cache \<Rightarrow> string \<times> 's replay_cache" where
  "advance k a st = (let d = next_digest k (rp_digest st) a in (step_key d, st\<lparr>rp_digest := d\<rparr>))"

definition serve_replay ::
    "replay_kit \<Rightarrow> string \<Rightarrow> 's replay_cache \<Rightarrow> (rexc + step_result option) \<times> 's replay_cache" where
  "serve_replay k key st =
     (if rp_live st then (Inr None, st)
      else case cache_get (blocked_key key) (rp_store st) of
        (Some _, c) \<Rightarrow> (Inr None, st\<lparr>rp_store := c, rp_recordable_chain := False\<rparr>)
      | (None, c) \<Rightarrow>
          (case cache_get key c of
             (None, c') \<Rightarrow> (Inr None, st\<lparr>rp_store := c'\<rparr>)
           | (Some t, c') \<Rightarrow>
               ((case deserialize (rk_loads k) t of Inl e \<Rightarrow> Inl (PlainExc e) | Inr r \<Rightarrow> Inr (Some r)),
                st\<lparr>rp_store := c'\<rparr>)))"

definition recorded_result_for_error ::
    "replay_kit \<Rightarrow> replayed_step \<Rightarrow> cache_world \<Rightarrow> (exc + step_result) \<times> cache_world" where
  "recorded_result_for_error k p c =
     (case cache_get (ry_key p) c of
        (None, c') \<Rightarrow>
          (Inl (RuntimeError (''recorded env step cache payload disappeared for '' @ ry_key p)), c')
      | (Some t, c') \<Rightarrow>
          ((case deserialize (rk_loads k) t of Inl e \<Rightarrow> Inl e | Inr r \<Rightarrow> Inr (rk_scrub k (ry_action p) r)), c'))"

text \<open>The catch-up: the replayed prefix executed again, from its \<open>i\<close>-th action on. The diagnostic of
  a drift reads the recorded row again, after the row has been blocked for later runs.\<close>

fun materialize ::
    "replay_kit \<Rightarrow> ('s, 'm) replay_env_scheme \<Rightarrow> nat \<Rightarrow> replayed_step list \<Rightarrow> cache_world \<Rightarrow> 's \<Rightarrow>
       (rexc + unit) \<times> cache_world \<times> 's" where
  "materialize k env i [] c s = (Inr (), c, s)"
| "materialize k env i (p # ps) c s =
     (case execute_env_action (env_core env) (RunAct (ry_action p)) s of
        (Inl e, s') \<Rightarrow> (Inl e, c, s')
      | (Inr r, s') \<Rightarrow>
          (let live = rk_scrub k (ry_action p) r
           in if rk_hash k (ry_action p) live \<noteq> ry_recorded_hash p
              then (case recorded_result_for_error k p (cache_put (blocked_key (ry_key p)) BLOCKED_VALUE c) of
                      (Inl e, c') \<Rightarrow> (Inl (PlainExc e), c', s')
                    | (Inr _, c') \<Rightarrow> (Inl (drift_error i), c', s'))
              else materialize k env (i + 1) ps c s'))"

definition go_live ::
    "replay_kit \<Rightarrow> ('s, 'm) replay_env_scheme \<Rightarrow> 's replay_cache \<Rightarrow> (rexc + unit) \<times> 's replay_cache" where
  "go_live k env st =
     (if rp_live st then (Inr (), st)
      else case materialize k env 1 (rp_replayed st) (rp_store st) (rp_env st) of
        (Inl e, c, s) \<Rightarrow> (Inl e, st\<lparr>rp_live := True, rp_store := c, rp_env := s\<rparr>)
      | (Inr _, c, s) \<Rightarrow> (Inr (), st\<lparr>rp_live := True, rp_store := c, rp_env := s, rp_replayed := []\<rparr>))"

definition record_run ::
    "replay_kit \<Rightarrow> string \<Rightarrow> run_action \<Rightarrow> step_result \<Rightarrow> rat \<Rightarrow> 's replay_cache \<Rightarrow> 's replay_cache" where
  "record_run k key action r elapsed st =
     (if \<not> rp_recordable_chain st then st
      else if skip_recording_reason action r elapsed \<noteq> None then st\<lparr>rp_recordable_chain := False\<rparr>
      else st\<lparr>rp_store := cache_put key (serialize_step_result (rk_fr k) r) (rp_store st)\<rparr>)"

definition step_run ::
    "replay_kit \<Rightarrow> ('s, 'm) replay_env_scheme \<Rightarrow> run_action \<Rightarrow> 's replay_cache \<Rightarrow>
       (rexc + step_result) \<times> 's replay_cache" where
  "step_run k env a st =
     (case advance k (RunAct a) st of (key, st1) \<Rightarrow>
        (case serve_replay k key st1 of
           (Inl e, st2) \<Rightarrow> (Inl e, st2)
         | (Inr (Some r), st2) \<Rightarrow>
             (Inr r, st2\<lparr>rp_replayed := rp_replayed st2 @
                [\<lparr>ry_action = a, ry_key = key, ry_recorded_hash = rk_hash k a r\<rparr>]\<rparr>)
         | (Inr None, st2) \<Rightarrow>
             (case go_live k env st2 of
                (Inl e, st3) \<Rightarrow> (Inl e, st3)
              | (Inr _, st3) \<Rightarrow>
                  (case execute_env_action (env_core env) (RunAct a) (rp_env st3) of
                     (Inl e, s) \<Rightarrow> (Inl e, st3\<lparr>rp_env := s\<rparr>)
                   | (Inr r, s) \<Rightarrow>
                       (Inr r, record_run k key a r (env_monotonic env s - env_monotonic env (rp_env st3))
                                 (st3\<lparr>rp_env := s\<rparr>))))))"

definition prepare_submit ::
    "replay_kit \<Rightarrow> ('s, 'm) replay_env_scheme \<Rightarrow> 's replay_cache \<Rightarrow>
       (rexc + step_result option) \<times> 's replay_cache" where
  "prepare_submit k env st =
     (case advance k VerifyAct st of (key, st0) \<Rightarrow>
      (let st1 = st0\<lparr>rp_verify_key := Some key\<rparr>
       in case serve_replay k key st1 of
            (Inl e, st2) \<Rightarrow> (Inl e, st2)
          | (Inr (Some r), st2) \<Rightarrow>
              (case env_write_verify_artifacts env of
                 None \<Rightarrow> (Inr (Some r), st2)
               | Some write \<Rightarrow>
                   (case write r (rp_env st2) of
                      (Inl e, s) \<Rightarrow> (Inl e, st2\<lparr>rp_env := s\<rparr>)
                    | (Inr _, s) \<Rightarrow> (Inr (Some r), st2\<lparr>rp_env := s\<rparr>)))
          | (Inr None, st2) \<Rightarrow>
              (case go_live k env st2 of
                 (Inl e, st3) \<Rightarrow> (Inl e, st3)
               | (Inr _, st3) \<Rightarrow> (Inr None, st3))))"

definition step_verify ::
    "replay_kit \<Rightarrow> ('s, 'm) replay_env_scheme \<Rightarrow> 's replay_cache \<Rightarrow> (rexc + step_result) \<times> 's replay_cache" where
  "step_verify k env st =
     (case rp_verify_key st of
        None \<Rightarrow> (Inl (PlainExc (RuntimeError ''prepare_submit must be called before step_verify'')), st)
      | Some key \<Rightarrow>
          (if \<not> rp_live st
           then (Inl (PlainExc (RuntimeError ''prepare_submit must go live before step_verify'')), st)
           else case execute_env_action (env_core env) VerifyAct (rp_env st) of
                  (Inl e, s) \<Rightarrow> (Inl e, st\<lparr>rp_env := s\<rparr>)
                | (Inr r, s) \<Rightarrow>
                    (Inr r,
                     (if \<not> rp_recordable_chain st then st\<lparr>rp_env := s\<rparr>
                      else st\<lparr>rp_env := s,
                              rp_store := cache_put key (serialize_step_result (rk_fr k) r) (rp_store st)\<rparr>))))"

definition replay_executor ::
    "replay_kit \<Rightarrow> ('s, 'm) replay_env_scheme \<Rightarrow> 's replay_cache executor" where
  "replay_executor k env =
     \<lparr>xe_provision = (\<lambda>st. (Inr (), st)), xe_step_run = step_run k env,
      xe_prepare_submit = prepare_submit k env, xe_step_verify = step_verify k env\<rparr>"

text \<open>The lines of the replay regime in a measurement identity: a task that cannot replay is live.\<close>

fun replay_fingerprint ::
    "(string \<Rightarrow> exc + string option) \<Rightarrow> string list \<Rightarrow> cache_world \<Rightarrow> (exc + string list) \<times> cache_world" where
  "replay_fingerprint cid [] c = (Inr [], c)"
| "replay_fingerprint cid (t # ts) c =
     (case cid t of
        Inl e \<Rightarrow> (Inl e, c)
      | Inr i \<Rightarrow>
          (case resolve_scope i c of
             (Inl e, c') \<Rightarrow> (Inl e, c')
           | (Inr scope, c') \<Rightarrow>
               (case replay_fingerprint cid ts c' of
                  (Inl e, c'') \<Rightarrow> (Inl e, c'')
                | (Inr ls, c'') \<Rightarrow>
                    (Inr ((case scope of
                             None \<Rightarrow> t @ '':live''
                           | Some (ns, epoch) \<Rightarrow> ns @ '':'' @ nat_str epoch) # ls), c''))))"

section \<open>Sequences of operations\<close>

text \<open>A failing operation ends the sequence.\<close>

fun run_seq :: "('a \<Rightarrow> 's \<Rightarrow> ('e + 'b) \<times> 's) \<Rightarrow> 'a list \<Rightarrow> 's \<Rightarrow> ('e + 'b list) \<times> 's" where
  "run_seq f [] s = (Inr [], s)"
| "run_seq f (a # as) s =
     (case f a s of
        (Inl e, s') \<Rightarrow> (Inl e, s')
      | (Inr r, s') \<Rightarrow>
          (case run_seq f as s' of
             (Inl e, s'') \<Rightarrow> (Inl e, s'')
           | (Inr rs, s'') \<Rightarrow> (Inr (r # rs), s'')))"

lemma run_seq_snoc:
  "run_seq f (as @ [a]) s =
     (case run_seq f as s of
        (Inl e, s') \<Rightarrow> (Inl e, s')
      | (Inr rs, s') \<Rightarrow>
          (case f a s' of
             (Inl e, s'') \<Rightarrow> (Inl e, s'')
           | (Inr r, s'') \<Rightarrow> (Inr (rs @ [r]), s'')))"
  by (induction as arbitrary: s) (auto split: prod.splits sum.splits)

lemma run_seq_length: "run_seq f as s = (Inr rs, s') \<Longrightarrow> length rs = length as"
  by (induction as arbitrary: s rs) (auto split: prod.splits sum.splits)

text \<open>A rollout through an executor: the actions, the submission, the verification unless it is served.\<close>

definition executor_submit :: "'x executor \<Rightarrow> 'x \<Rightarrow> (rexc + step_result) \<times> 'x" where
  "executor_submit ex x =
     (case xe_prepare_submit ex x of
        (Inl e, x1) \<Rightarrow> (Inl e, x1)
      | (Inr (Some v), x1) \<Rightarrow> (Inr v, x1)
      | (Inr None, x1) \<Rightarrow> xe_step_verify ex x1)"

definition executor_rollout :: "'x executor \<Rightarrow> run_action list \<Rightarrow> 'x \<Rightarrow> (rexc + step_result list) \<times> 'x" where
  "executor_rollout ex as x =
     (case run_seq (xe_step_run ex) as x of
        (Inl e, x1) \<Rightarrow> (Inl e, x1)
      | (Inr rs, x1) \<Rightarrow>
          (case executor_submit ex x1 of
             (Inl e, x2) \<Rightarrow> (Inl e, x2)
           | (Inr v, x2) \<Rightarrow> (Inr (rs @ [v]), x2)))"

section \<open>The contract of an executor\<close>

text \<open>
  \<open>stands as rs x\<close>: the executor state \<open>x\<close> stands for a rollout that asked for the actions \<open>as\<close> and was
  given the results \<open>rs\<close>. What an executor promises is that a submission which is to be verified
  live finds the environment where \<open>reached as rs\<close> holds.
\<close>

locale step_executor =
  fixes ex :: "'x executor"
    and env_of :: "'x \<Rightarrow> 's"
    and stands :: "run_action list \<Rightarrow> step_result list \<Rightarrow> 'x \<Rightarrow> bool"
    and reached :: "run_action list \<Rightarrow> step_result list \<Rightarrow> 's \<Rightarrow> bool"
  assumes run_stands: "stands as rs x \<Longrightarrow> xe_step_run ex a x = (Inr r, x') \<Longrightarrow> stands (as @ [a]) (rs @ [r]) x'"
    and submit_reached: "stands as rs x \<Longrightarrow> xe_prepare_submit ex x = (Inr None, x') \<Longrightarrow> reached as rs (env_of x')"
begin

lemma seq_stands:
  "run_seq (xe_step_run ex) as x = (Inr rs, x') \<Longrightarrow> stands bs qs x \<Longrightarrow> stands (bs @ as) (qs @ rs) x'"
proof (induction as arbitrary: x rs bs qs)
  case (Cons a as)
  then obtain r x1 rs' where run: "xe_step_run ex a x = (Inr r, x1)"
      "run_seq (xe_step_run ex) as x1 = (Inr rs', x')" "rs = r # rs'"
    by (auto split: prod.splits sum.splits)
  from Cons.IH [OF run(2) run_stands [OF Cons.prems(2) run(1)]] run(3) show ?case by simp
qed simp

lemma graded_world:
  assumes "stands [] [] x" and "run_seq (xe_step_run ex) as x = (Inr rs, x')"
    and "xe_prepare_submit ex x' = (Inr None, x'')"
  shows "reached as rs (env_of x'')"
  using seq_stands [OF assms(2,1)] submit_reached assms(3) by simp

end

text \<open>The live environment after a list of actions, with the results it gave.\<close>

definition live_run :: "('s, 'm) live_env_scheme \<Rightarrow> env_action list \<Rightarrow> 's \<Rightarrow> (rexc + step_result list) \<times> 's" where
  "live_run env = run_seq (execute_env_action (env_core env))"

definition live_reached ::
    "('s, 'm) live_env_scheme \<Rightarrow> (run_action \<Rightarrow> step_result \<Rightarrow> step_result \<Rightarrow> bool) \<Rightarrow> 's \<Rightarrow>
       run_action list \<Rightarrow> step_result list \<Rightarrow> 's \<Rightarrow> bool" where
  "live_reached env agrees s0 as rs s \<longleftrightarrow>
     (\<exists>ls. live_run env (map RunAct as) s0 = (Inr ls, s) \<and> length rs = length as \<and>
           list_all2 (\<lambda>(a, r) l. agrees a r l) (zip as rs) ls)"

lemma live_reached_snoc:
  assumes "live_reached env agrees s0 as rs s" and "execute_env_action (env_core env) (RunAct a) s = (Inr l, s')"
    and "agrees a r l"
  shows "live_reached env agrees s0 (as @ [a]) (rs @ [r]) s'"
proof -
  obtain ls where ls: "live_run env (map RunAct as) s0 = (Inr ls, s)" "length rs = length as"
      "list_all2 (\<lambda>(a, r) l. agrees a r l) (zip as rs) ls"
    using assms(1) by (auto simp: live_reached_def)
  from ls(1) assms(2) have "live_run env (map RunAct (as @ [a])) s0 = (Inr (ls @ [l]), s')"
    by (simp add: live_run_def run_seq_snoc)
  moreover have "list_all2 (\<lambda>(a, r) l. agrees a r l) (zip (as @ [a]) (rs @ [r])) (ls @ [l])"
    using ls(2,3) assms(3) by (simp add: list_all2_appendI)
  ultimately show ?thesis using ls(2) unfolding live_reached_def by (metis length_append_singleton)
qed

interpretation live_executor: step_executor "live_step_executor env" "\<lambda>s. s"
    "live_reached env (\<lambda>_ r l. r = l) s0" "live_reached env (\<lambda>_ r l. r = l) s0"
  for env :: "('s, 'm) live_env_scheme" and s0 :: 's
proof unfold_locales
  fix as rs a r and s s' :: 's
  assume "live_reached env (\<lambda>_ r l. r = l) s0 as rs s" "xe_step_run (live_step_executor env) a s = (Inr r, s')"
  then show "live_reached env (\<lambda>_ r l. r = l) s0 (as @ [a]) (rs @ [r]) s'"
    using live_reached_snoc [of env "\<lambda>_ r l. r = l"] by (simp add: live_step_executor_def)
qed (simp add: live_step_executor_def)

section \<open>The replay cache keeps the contract on any store\<close>

text \<open>A served result agrees with the live one when the drift audit cannot tell them apart.\<close>

definition audit_agrees :: "replay_kit \<Rightarrow> run_action \<Rightarrow> step_result \<Rightarrow> step_result \<Rightarrow> bool" where
  "audit_agrees k a r l \<longleftrightarrow> r = l \<or> rk_hash k a (rk_scrub k a l) = rk_hash k a r"

definition replay_stands ::
    "replay_kit \<Rightarrow> ('s, 'm) replay_env_scheme \<Rightarrow> 's \<Rightarrow> run_action list \<Rightarrow> step_result list \<Rightarrow> 's replay_cache \<Rightarrow> bool" where
  "replay_stands k env s0 as rs st \<longleftrightarrow> length rs = length as \<and>
     (if rp_live st then live_reached env (audit_agrees k) s0 as rs (rp_env st)
      else rp_env st = s0 \<and>
           map (\<lambda>p. (ry_action p, ry_recorded_hash p)) (rp_replayed st) =
           map (\<lambda>(a, r). (a, rk_hash k a r)) (zip as rs))"

lemma materialize_reaches:
  "materialize k env i ps c s = (Inr (), c', s') \<Longrightarrow>
     \<exists>ls. live_run env (map (\<lambda>p. RunAct (ry_action p)) ps) s = (Inr ls, s') \<and>
          list_all2 (\<lambda>p l. rk_hash k (ry_action p) (rk_scrub k (ry_action p) l) = ry_recorded_hash p) ps ls"
proof (induction ps arbitrary: i c s)
  case (Cons p ps)
  obtain r s1 where r: "execute_env_action (env_core env) (RunAct (ry_action p)) s = (Inr r, s1)"
      "rk_hash k (ry_action p) (rk_scrub k (ry_action p) r) = ry_recorded_hash p"
      "materialize k env (i + 1) ps c s1 = (Inr (), c', s')"
    using Cons.prems by (auto simp: Let_def split: prod.splits sum.splits if_splits)
  from Cons.IH [OF r(3)] r(1,2) show ?case by (auto simp: live_run_def)
qed (simp add: live_run_def)

lemma replayed_actions:
  assumes "map (\<lambda>p. (ry_action p, ry_recorded_hash p)) ps = map (\<lambda>(a, r). (a, h a r)) (zip as rs)"
    and "length rs = length as"
  shows "map (\<lambda>p. RunAct (ry_action p)) ps = map RunAct as"
proof -
  have "map (\<lambda>p. RunAct (ry_action p)) ps = map (RunAct \<circ> fst) (map (\<lambda>p. (ry_action p, ry_recorded_hash p)) ps)" by simp
  also have "\<dots> = map RunAct as"
    unfolding assms(1) using assms(2)
    by (simp add: o_def case_prod_beta' flip: map_map [of RunAct fst, unfolded o_def])
  finally show ?thesis .
qed

lemma go_live_reaches:
  assumes "replay_stands k env s0 as rs st" and "go_live k env st = (Inr (), st')"
  shows "rp_live st' \<and> live_reached env (audit_agrees k) s0 as rs (rp_env st') \<and>
    rp_digest st' = rp_digest st \<and> rp_verify_key st' = rp_verify_key st"
proof (cases "rp_live st")
  case True
  with assms show ?thesis by (auto simp: go_live_def replay_stands_def)
next
  case False
  let ?h = "\<lambda>p. (ry_action p, ry_recorded_hash p)"
  from False assms obtain c s where m: "materialize k env 1 (rp_replayed st) (rp_store st) s0 = (Inr (), c, s)"
      "st' = st\<lparr>rp_live := True, rp_store := c, rp_env := s, rp_replayed := []\<rparr>"
    by (auto simp: go_live_def replay_stands_def split: prod.splits sum.splits)
  from False assms(1) have ps: "map ?h (rp_replayed st) = map (\<lambda>(a, r). (a, rk_hash k a r)) (zip as rs)"
    and len: "length rs = length as" by (auto simp: replay_stands_def)
  note acts = replayed_actions [OF ps len]
  obtain ls where ls: "live_run env (map RunAct as) s0 = (Inr ls, s)"
      "list_all2 (\<lambda>p l. rk_hash k (ry_action p) (rk_scrub k (ry_action p) l) = ry_recorded_hash p) (rp_replayed st) ls"
    using materialize_reaches [OF m(1)] acts by auto
  have "list_all2 (\<lambda>(a, h) l. rk_hash k a (rk_scrub k a l) = h) (map ?h (rp_replayed st)) ls"
    using ls(2) by (simp add: list.rel_map)
  then have "list_all2 (\<lambda>(a, r) l. audit_agrees k a r l) (zip as rs) ls"
    unfolding ps by (auto simp: list.rel_map audit_agrees_def elim!: list.rel_mono_strong)
  with ls(1) len m(2) show ?thesis by (auto simp: live_reached_def)
qed

lemma serve_frame:
  assumes "serve_replay k key st = (res, st')"
  shows "rp_env st' = rp_env st" "rp_digest st' = rp_digest st" "rp_replayed st' = rp_replayed st"
    "rp_live st' = rp_live st" "rp_verify_key st' = rp_verify_key st"
    "rp_live st \<Longrightarrow> res = Inr None \<and> st' = st"
  using assms by (auto simp: serve_replay_def split: if_splits prod.splits option.splits sum.splits)

lemma stands_frame:
  "rp_env st' = rp_env st \<Longrightarrow> rp_replayed st' = rp_replayed st \<Longrightarrow> rp_live st' = rp_live st \<Longrightarrow>
     replay_stands k env s0 as rs st' = replay_stands k env s0 as rs st"
  by (simp add: replay_stands_def)

lemma record_frame:
  "rp_env (record_run k key a r t st) = rp_env st" "rp_live (record_run k key a r t st) = rp_live st"
  "rp_replayed (record_run k key a r t st) = rp_replayed st"
  "rp_digest (record_run k key a r t st) = rp_digest st"
  by (simp_all add: record_run_def)

text \<open>The ways a step succeeds: served while not live, or executed once live.\<close>

lemma step_run_cases:
  assumes "step_run k env a st = (Inr r, st')"
  obtains (served) key st1 st2 where "advance k (RunAct a) st = (key, st1)"
      "serve_replay k key st1 = (Inr (Some r), st2)" "\<not> rp_live st2"
      "st' = st2\<lparr>rp_replayed := rp_replayed st2 @ [\<lparr>ry_action = a, ry_key = key, ry_recorded_hash = rk_hash k a r\<rparr>]\<rparr>"
  | (executed) key st1 st2 st3 s where "advance k (RunAct a) st = (key, st1)"
      "serve_replay k key st1 = (Inr None, st2)" "go_live k env st2 = (Inr (), st3)"
      "execute_env_action (env_core env) (RunAct a) (rp_env st3) = (Inr r, s)"
      "st' = record_run k key a r (env_monotonic env s - env_monotonic env (rp_env st3)) (st3\<lparr>rp_env := s\<rparr>)"
proof -
  obtain key st1 where a: "advance k (RunAct a) st = (key, st1)" by fastforce
  obtain res st2 where sv: "serve_replay k key st1 = (res, st2)" by fastforce
  show thesis
  proof (cases res)
    case (Inl e)
    with assms a sv show thesis by (simp add: step_run_def)
  next
    case (Inr o')
    show thesis
    proof (cases o')
      case (Some q)
      with Inr have "\<not> rp_live st1" "\<not> rp_live st2" using serve_frame(4,6) [OF sv] by auto
      with assms a sv Inr Some show thesis by (intro served [of key st1 st2]) (auto simp: step_run_def)
    next
      case None
      with assms a sv Inr show thesis
        by (auto simp: step_run_def split: prod.splits sum.splits intro: executed)
    qed
  qed
qed

lemma replay_stands_step:
  assumes "replay_stands k env s0 as rs st" and "step_run k env a st = (Inr r, st')"
  shows "replay_stands k env s0 (as @ [a]) (rs @ [r]) st'"
  using assms(2)
proof (cases rule: step_run_cases)
  case (served key st1 st2)
  note f = serve_frame [OF served(2)]
  from served(1) have "replay_stands k env s0 as rs st2"
    using assms(1) f by (auto simp: advance_def Let_def replay_stands_def)
  with served(3,4) show ?thesis by (auto simp: replay_stands_def)
next
  case (executed key st1 st2 st3 s)
  note f = serve_frame [OF executed(2)]
  from executed(1) have "replay_stands k env s0 as rs st2"
    using assms(1) f by (auto simp: advance_def Let_def replay_stands_def)
  note g = go_live_reaches [OF this executed(3)]
  then have "live_reached env (audit_agrees k) s0 (as @ [a]) (rs @ [r]) s"
    using live_reached_snoc executed(4) by (fastforce simp: audit_agrees_def)
  then show ?thesis using g assms(1) by (simp add: executed(5) replay_stands_def record_frame)
qed

lemma replay_submit_live:
  assumes "replay_stands k env s0 as rs st" and "prepare_submit k env st = (Inr None, st')"
  shows "live_reached env (audit_agrees k) s0 as rs (rp_env st')"
proof -
  obtain key st1 where a: "advance k VerifyAct st = (key, st1)" by fastforce
  obtain res st2 where sv: "serve_replay k key (st1\<lparr>rp_verify_key := Some key\<rparr>) = (res, st2)" by fastforce
  from assms(2) a sv have gl: "go_live k env st2 = (Inr (), st')"
    by (auto simp: prepare_submit_def Let_def split: sum.splits option.splits prod.splits)
  have "replay_stands k env s0 as rs st2"
    using assms(1) a serve_frame [OF sv] by (auto simp: advance_def Let_def replay_stands_def)
  from go_live_reaches [OF this gl] show ?thesis by simp
qed

interpretation replaying: step_executor "replay_executor k env" rp_env "replay_stands k env s0"
    "live_reached env (audit_agrees k) s0"
  for k :: replay_kit and env :: "('s, 'm) replay_env_scheme" and s0 :: 's
  by unfold_locales (simp_all add: replay_executor_def replay_stands_step replay_submit_live)

text \<open>As long as it is not live, the environment has not been touched.\<close>

lemma replay_untouched:
  assumes "run_seq (step_run k env) as (replay_start k ns epoch c s0) = (Inr rs, st)" and "\<not> rp_live st"
  shows "rp_env st = s0"
proof -
  have "replay_stands k env s0 [] [] (replay_start k ns epoch c s0)"
    by (simp add: replay_stands_def replay_start_def)
  from replaying.seq_stands [of k env as _ rs st s0 "[]" "[]", OF _ this] assms
  show ?thesis by (simp add: replay_stands_def replay_executor_def)
qed

section \<open>Recorded rows round-trip\<close>

definition canon_result :: "step_result \<Rightarrow> step_result" where
  "canon_result r = r\<lparr>sp_info := sort_key fst (map (\<lambda>m. (fst m, canon (snd m))) (sp_info r)),
                     sp_metrics := sort_key fst (sp_metrics r)\<rparr>"

definition same_json :: "step_result \<Rightarrow> step_result \<Rightarrow> bool" where
  "same_json r l \<longleftrightarrow> canon (step_result_json r) = canon (step_result_json l)"

lemma sort_map_float: "sort_key fst (map (\<lambda>(k, v). (k, JFloat v)) xs) = map (\<lambda>(k, v). (k, JFloat v)) (sort_key fst xs)"
  by (rule map_sort_key [symmetric]) auto

lemma canon_result_json: "canon (step_result_json (canon_result r)) = canon (step_result_json r)"
proof -
  have "canon (JObj (sort_key fst (map (\<lambda>m. (fst m, canon (snd m))) ms))) = canon (JObj ms)" for ms
    using canon_idem [of "JObj ms"] by simp
  moreover have "canon (JObj (map (\<lambda>(k, v). (k, JFloat v)) (sort_key fst xs))) = canon (JObj (map (\<lambda>(k, v). (k, JFloat v)) xs))" for xs
    using canon_idem [of "JObj (map (\<lambda>(k, v). (k, JFloat v)) xs)"] sort_map_float
    by (simp add: case_prod_beta' o_def flip: sort_map_float [unfolded case_prod_beta'])
  ultimately show ?thesis unfolding step_result_json_canon by (simp add: canon_result_def)
qed

lemma sorted_member:
  fixes ms :: "(string \<times> json) list"
  shows "map_of (sort_key fst (map (\<lambda>m. (fst m, canon (snd m))) ms)) k = map_option canon (map_of ms k)"
    "fst ` set (sort_key fst (map (\<lambda>m. (fst m, canon (snd m))) ms)) = fst ` set ms"
proof -
  show "map_of (sort_key fst (map (\<lambda>m. (fst m, canon (snd m))) ms)) k = map_option canon (map_of ms k)"
    unfolding map_of_sort_key by (induction ms) auto
qed (simp add: image_image)

lemma read_opt_canon:
  "read_opt read_text (canon (opt_json JStr x)) = Inr x"
  "read_opt read_count (canon (opt_json JInt i)) = Inr i"
  "read_opt read_flag (canon (opt_json JBool b)) = Inr b"
  by (cases x; cases i; cases b; simp add: opt_json_def)+

lemma read_raw_json: "read_raw_output (canon (raw_output_json r)) = Inr r"
  unfolding raw_output_json_def canon.simps(2) read_raw_output_def read_object.simps bind_res.simps sorted_member(2)
    member_or_def sorted_member(1)
  by (simp add: raw_fields_def read_opt_canon)

lemma read_verdict_json: "verdict_ok v \<Longrightarrow> read_verdict (canon (verdict_json v)) = Inr v"
  unfolding verdict_json_def canon.simps(2) read_verdict_def read_object.simps bind_res.simps sorted_member(2)
    member_or_def sorted_member(1)
  by (simp add: read_opt_canon verdict_ok_def)

lemma read_metrics_json:
  "read_metrics (canon (JObj (map (\<lambda>(k, v). (k, JFloat v)) ms))) = Inr (sort_key fst ms)"
proof -
  have "canon (JObj (map (\<lambda>(k, v). (k, JFloat v)) ms)) = JObj (map (\<lambda>(k, v). (k, JFloat v)) (sort_key fst ms))"
    by (simp add: o_def case_prod_beta' flip: sort_map_float [unfolded case_prod_beta'])
  moreover have "map_res (\<lambda>(k, x). bind_res (read_num x) (\<lambda>y. Inr (k, y))) (map (\<lambda>(k, v). (k, JFloat v)) xs) = Inr xs" for xs
    by (induction xs) auto
  ultimately show ?thesis by (simp add: read_metrics_def)
qed

lemma deserialize_row_json:
  assumes "\<And>v. sp_verdict r = Some v \<Longrightarrow> verdict_ok v"
  shows "deserialize_row (canon (step_result_json r)) = Inr (canon_result r)"
proof -
  have v: "read_opt read_verdict (canon (opt_json verdict_json (sp_verdict r))) = Inr (sp_verdict r)"
  proof (cases "sp_verdict r")
    case (Some v)
    obtain ms where "canon (verdict_json v) = JObj ms" by (simp add: verdict_json_def)
    with read_verdict_json [OF assms [OF Some]] show ?thesis by (simp add: Some opt_json_def)
  qed (simp add: opt_json_def)
  show ?thesis
    unfolding step_result_json_def canon.simps(2) [where ms = "_ # _"] deserialize_row_def read_object.simps bind_res.simps
      row_item_def sorted_member(1)
    using read_metrics_json [of "sp_metrics r"]
    by (simp add: read_raw_json v canon_result_def del: canon.simps(2)) simp
qed

definition loads_inverts :: "replay_kit \<Rightarrow> bool" where
  "loads_inverts k \<longleftrightarrow> (\<forall>v. rk_loads k (dumps (rk_fr k) v) = Inr v)"

lemma deserialize_row_text:
  assumes "loads_inverts k" and "\<And>v. sp_verdict r = Some v \<Longrightarrow> verdict_ok v"
  shows "deserialize (rk_loads k) (serialize_step_result (rk_fr k) r) = Inr (canon_result r)"
  using assms(1) deserialize_row_json [OF assms(2)]
  by (simp add: deserialize_def serialize_step_result_def dumps_compact_def loads_inverts_def)

text \<open>The result of a run carries neither info nor metrics, so it is read back as it was.\<close>

lemma run_result_plain:
  "execute_env_action e (RunAct a) s = (Inr r, s') \<Longrightarrow> canon_result r = r \<and> sp_verdict r = None"
  by (auto simp: execute_env_action_def plain_step_def canon_result_def split: prod.splits sum.splits)

section \<open>On a sound store replay is transparent\<close>

definition chain_digest :: "replay_kit \<Rightarrow> string \<Rightarrow> env_action list \<Rightarrow> string" where
  "chain_digest k d as = foldl (next_digest k) d as"

text \<open>The rows of a sound store: under the key of a chain is the last result of executing it live.
  \<open>A\<close> are the chains the store holds rows of.\<close>

definition step_rows ::
    "replay_kit \<Rightarrow> ('s, 'm) live_env_scheme \<Rightarrow> string \<Rightarrow> 's \<Rightarrow> env_action list set \<Rightarrow> string \<Rightarrow> string \<Rightarrow> bool" where
  "step_rows k env d s0 A key v \<longleftrightarrow>
     (\<forall>as \<in> A. as \<noteq> [] \<longrightarrow> key = step_key (chain_digest k d as) \<longrightarrow>
        (\<exists>ls s. live_run env as s0 = (Inr ls, s) \<and> v = serialize_step_result (rk_fr k) (last ls)))"

definition grades_well :: "('s, 'm) live_env_scheme \<Rightarrow> bool" where
  "grades_well env \<longleftrightarrow> (\<forall>s o' s'. env_verify env s = (Inr o', s') \<longrightarrow> verdict_ok (vo_verdict o'))"

definition artifacts_writable :: "('s, 'm) replay_env_scheme \<Rightarrow> bool" where
  "artifacts_writable env \<longleftrightarrow>
     (\<forall>w r s. env_write_verify_artifacts env = Some w \<longrightarrow> (\<exists>s'. w r s = (Inr (), s')))"

lemma rk_hash_scrub: "scrub_idempotent (rk_rules k) \<Longrightarrow> rk_hash k a (rk_scrub k a l) = rk_hash k a l"
proof -
  assume "scrub_idempotent (rk_rules k)"
  then have "drift_audit_canonical (rk_rules k) c (scrub_nondeterminism (rk_rules k) c t) =
      drift_audit_canonical (rk_rules k) c t" for c t
    by (simp add: drift_audit_canonical_def audit_lines_def scrub_idempotent_def)
  then show ?thesis
    by (simp add: rk_hash_def rk_scrub_def scrubbed_hash_def audit_form_def scrub_step_result_def scrub_raw_env_output_def)
qed

text \<open>What the catch-up relies on: scrubbing a result a second time changes nothing its hash sees. It is asked
  of the results that executing these actions gives, not of every text.\<close>

definition settled :: "replay_kit \<Rightarrow> ('s, 'm) live_env_scheme \<Rightarrow> 's \<Rightarrow> run_action list \<Rightarrow> bool" where
  "settled k env s0 as \<longleftrightarrow>
     (\<forall>ls s. live_run env (map RunAct as) s0 = (Inr ls, s) \<longrightarrow>
        list_all2 (\<lambda>a l. rk_hash k a (rk_scrub k a l) = rk_hash k a l) as ls)"

definition scrub_settles :: "replay_kit \<Rightarrow> ('s, 'm) live_env_scheme \<Rightarrow> 's \<Rightarrow> run_action list \<Rightarrow> bool" where
  "scrub_settles k env s0 as \<longleftrightarrow> (\<forall>n \<le> length as. settled k env s0 (take n as))"

lemma idempotent_settles: "scrub_idempotent (rk_rules k) \<Longrightarrow> scrub_settles k env s0 as"
  using run_seq_length by (fastforce simp: scrub_settles_def settled_def live_run_def list_all2_conv_all_nth rk_hash_scrub)

lemma verify_result_ok:
  "grades_well env \<Longrightarrow> execute_env_action (env_core env) a s = (Inr r, s') \<Longrightarrow> sp_verdict r = Some v \<Longrightarrow> verdict_ok v"
  unfolding grades_well_def
  by (cases a)
    (fastforce simp: execute_env_action_def env_core_def verify_step_def plain_step_def
      split: prod.splits sum.splits)+

lemma materialize_clean:
  "live_run env (map (\<lambda>p. RunAct (ry_action p)) ps) s = (Inr ls, s') \<Longrightarrow>
     list_all2 (\<lambda>p l. rk_hash k (ry_action p) (rk_scrub k (ry_action p) l) = ry_recorded_hash p) ps ls \<Longrightarrow>
     materialize k env i ps c s = (Inr (), c, s')"
proof (induction ps arbitrary: i s ls)
  case (Cons p ps)
  then obtain l s1 ls' where l: "execute_env_action (env_core env) (RunAct (ry_action p)) s = (Inr l, s1)"
      "live_run env (map (\<lambda>p. RunAct (ry_action p)) ps) s1 = (Inr ls', s')" "ls = l # ls'"
    by (auto simp: live_run_def split: prod.splits sum.splits)
  with Cons.prems(2) Cons.IH [OF l(2)] show ?case by (simp add: Let_def)
qed (simp add: live_run_def)

text \<open>The state after a rollout got exactly the live results \<open>rs\<close>, which lead the environment to \<open>s\<close>.\<close>

definition replay_sound ::
    "replay_kit \<Rightarrow> ('s, 'm) replay_env_scheme \<Rightarrow> string \<Rightarrow> 's \<Rightarrow> env_action list set \<Rightarrow> run_action list \<Rightarrow>
       step_result list \<Rightarrow> 's \<Rightarrow> 's replay_cache \<Rightarrow> bool" where
  "replay_sound k env d s0 A as rs s st \<longleftrightarrow>
     live_run env (map RunAct as) s0 = (Inr rs, s) \<and> rp_digest st = chain_digest k d (map RunAct as) \<and>
     world_valid (step_rows k env d s0 A) (rp_store st) \<and>
     (if rp_live st then rp_env st = s
      else rp_env st = s0 \<and>
           map (\<lambda>p. (ry_action p, ry_recorded_hash p)) (rp_replayed st) =
           map (\<lambda>(a, r). (a, rk_hash k a r)) (zip as rs))"

lemma live_run_length: "live_run env as s = (Inr ls, s') \<Longrightarrow> length ls = length as"
  unfolding live_run_def by (rule run_seq_length)

lemma go_live_sound:
  assumes "replay_sound k env d s0 A as rs s st" and idem: "settled k env s0 as"
  shows "\<exists>st'. go_live k env st = (Inr (), st') \<and> rp_live st' \<and> rp_env st' = s \<and>
    rp_digest st' = rp_digest st \<and> rp_store st' = rp_store st \<and>
    rp_recordable_chain st' = rp_recordable_chain st \<and> rp_verify_key st' = rp_verify_key st"
proof (cases "rp_live st")
  case True
  with assms(1) show ?thesis by (simp add: go_live_def replay_sound_def)
next
  case False
  let ?h = "\<lambda>p. (ry_action p, ry_recorded_hash p)"
  have run: "live_run env (map RunAct as) s0 = (Inr rs, s)" and env: "rp_env st = s0"
    and ps: "map ?h (rp_replayed st) = map (\<lambda>(a, r). (a, rk_hash k a r)) (zip as rs)"
    using False assms(1) by (auto simp: replay_sound_def)
  have len: "length rs = length as" using live_run_length [OF run] by simp
  note acts = replayed_actions [OF ps len]
  have "list_all2 (\<lambda>a l. rk_hash k a (rk_scrub k a l) = rk_hash k a l) as rs"
    using idem run by (simp add: settled_def)
  then have "list_all2 (\<lambda>(a, h) l. rk_hash k a (rk_scrub k a l) = h) (map ?h (rp_replayed st)) rs"
    unfolding ps using len by (simp add: list_all2_conv_all_nth)
  then have "list_all2 (\<lambda>p l. rk_hash k (ry_action p) (rk_scrub k (ry_action p) l) = ry_recorded_hash p) (rp_replayed st) rs"
    by (simp add: list.rel_map)
  from materialize_clean [OF _ this, of env s0 s 1 "rp_store st"] run acts env False
  show ?thesis by (simp add: go_live_def)
qed

lemma serve_valid:
  assumes "world_valid ok (rp_store st)" and "serve_replay k key st = (res, st')"
  shows "world_valid ok (rp_store st') \<and>
    (res = Inr None \<or> (\<not> rp_live st \<and> rp_recordable_chain st' = rp_recordable_chain st \<and>
       (\<exists>t. ok key t \<and> res = (case deserialize (rk_loads k) t of Inl e \<Rightarrow> Inl (PlainExc e) | Inr r \<Rightarrow> Inr (Some r)))))"
proof (cases "rp_live st")
  case True
  with assms show ?thesis by (simp add: serve_replay_def)
next
  case False
  obtain b c where b: "cache_get (blocked_key key) (rp_store st) = (b, c)" by fastforce
  have vc: "world_valid ok c" by (rule kv.valid_get [OF assms(1) b])
  obtain h c' where h: "cache_get key c = (h, c')" by fastforce
  have vc': "world_valid ok c'" by (rule kv.valid_get [OF vc h])
  have "ok key t" if "h = Some t" for t using kv.get_valid [OF vc] h that by blast
  with False assms(2) b h vc vc' show ?thesis
    by (cases b; cases h) (auto simp: serve_replay_def)
qed

lemma row_valid:
  assumes "inj_on (chain_digest k d) A" and "as \<in> A" and "live_run env as s0 = (Inr ls, s)"
  shows "step_rows k env d s0 A (step_key (chain_digest k d as)) (serialize_step_result (rk_fr k) (last ls))"
  using assms by (auto simp: step_rows_def step_key_def dest: inj_onD)

lemma row_result:
  assumes "step_rows k env d s0 A (step_key (chain_digest k d (as @ [a]))) t" and "as @ [a] \<in> A"
    and "live_run env as s0 = (Inr rs, s)" and "loads_inverts k" and "grades_well env"
  shows "\<exists>l s'. execute_env_action (env_core env) a s = (Inr l, s') \<and>
    deserialize (rk_loads k) t = Inr (canon_result l)"
proof -
  obtain ls s' where "live_run env (as @ [a]) s0 = (Inr ls, s')" "t = serialize_step_result (rk_fr k) (last ls)"
    using assms(1,2) by (auto simp: step_rows_def)
  moreover from this(1) assms(3) obtain l where l: "execute_env_action (env_core env) a s = (Inr l, s')" "ls = rs @ [l]"
    by (auto simp: live_run_def run_seq_snoc split: prod.splits sum.splits)
  moreover have "deserialize (rk_loads k) (serialize_step_result (rk_fr k) l) = Inr (canon_result l)"
    using assms(4) verify_result_ok [OF assms(5) l(1)] by (rule deserialize_row_text)
  ultimately show ?thesis by auto
qed

lemma record_valid:
  "world_valid ok (rp_store st) \<Longrightarrow> ok key (serialize_step_result (rk_fr k) r) \<Longrightarrow>
     world_valid ok (rp_store (record_run k key a r t st))"
  by (simp add: record_run_def kv.valid_put)

lemma step_run_sound:
  assumes sound: "replay_sound k env d s0 A as rs s st" and A: "map RunAct (as @ [a]) \<in> A" "inj_on (chain_digest k d) A"
    and kit: "loads_inverts k" "settled k env s0 as" "grades_well env"
    and run: "step_run k env a st = (res, st')" and live: "execute_env_action (env_core env) (RunAct a) s = (l, s')"
  shows "res = l \<and> world_valid (step_rows k env d s0 A) (rp_store st') \<and>
    (\<forall>r. res = Inr r \<longrightarrow> replay_sound k env d s0 A (as @ [a]) (rs @ [r]) s' st')"
proof -
  let ?ok = "step_rows k env d s0 A"
  let ?key = "step_key (chain_digest k d (map RunAct as @ [RunAct a]))"
  let ?st1 = "st\<lparr>rp_digest := chain_digest k d (map RunAct as @ [RunAct a])\<rparr>"
  have dir: "live_run env (map RunAct as) s0 = (Inr rs, s)" and valid: "world_valid ?ok (rp_store st)"
    and dig: "rp_digest st = chain_digest k d (map RunAct as)" using sound by (auto simp: replay_sound_def)
  have len: "length rs = length as" using live_run_length [OF dir] by simp
  have adv: "advance k (RunAct a) st = (?key, ?st1)"
    by (simp add: advance_def Let_def dig chain_digest_def)
  obtain sv st2 where sv: "serve_replay k ?key ?st1 = (sv, st2)" by fastforce
  note f = serve_frame [OF sv]
  have "world_valid ?ok (rp_store ?st1)" using valid by simp
  note srv = serve_valid [OF this sv]
  have next_run: "live_run env (map RunAct (as @ [a])) s0 = (Inr (rs @ [r]), s')" if "l = Inr r" for r
    using dir live that by (simp add: live_run_def run_seq_snoc)
  show ?thesis
  proof (cases "sv = Inr None")
    case True
    have "replay_sound k env d s0 A as rs s (st2\<lparr>rp_digest := chain_digest k d (map RunAct as)\<rparr>)"
      using sound srv f by (simp add: replay_sound_def)
    from go_live_sound [OF this kit(2)] obtain st3 where
      "go_live k env (st2\<lparr>rp_digest := chain_digest k d (map RunAct as)\<rparr>) = (Inr (), st3)"
      "rp_live st3" "rp_env st3 = s" "rp_store st3 = rp_store st2" by auto
    then have gl: "go_live k env st2 = (Inr (), st3\<lparr>rp_digest := rp_digest st2\<rparr>)"
      by (auto simp: go_live_def split: prod.splits sum.splits if_splits)
    show ?thesis
    proof (cases l)
      case (Inl e)
      with run adv sv True gl live \<open>rp_env st3 = s\<close> \<open>rp_store st3 = rp_store st2\<close> srv show ?thesis
        by (auto simp: step_run_def)
    next
      case (Inr r)
      let ?st4 = "st3\<lparr>rp_digest := rp_digest st2, rp_env := s'\<rparr>"
      have st': "res = Inr r" "\<exists>t. st' = record_run k ?key a r t ?st4"
        using run adv sv True gl live Inr \<open>rp_env st3 = s\<close> by (auto simp: step_run_def)
      have "?ok ?key (serialize_step_result (rk_fr k) (last (rs @ [r])))"
        using row_valid [OF A(2,1) next_run [OF Inr]] by simp
      then have "world_valid ?ok (rp_store st')"
        using st'(2) record_valid [of ?ok ?st4] srv \<open>rp_store st3 = rp_store st2\<close> by auto
      with st' next_run [OF Inr] Inr f \<open>rp_live st3\<close> show ?thesis
        by (auto simp: replay_sound_def record_frame)
    qed
  next
    case False
    with srv obtain t where t: "?ok ?key t" "\<not> rp_live st"
      "sv = (case deserialize (rk_loads k) t of Inl e \<Rightarrow> Inl (PlainExc e) | Inr r \<Rightarrow> Inr (Some r))" by auto
    from row_result [where rs = rs and s = s, OF t(1) _ dir kit(1,3)] A(1) obtain q where q: "l = Inr q"
      "deserialize (rk_loads k) t = Inr (canon_result q)" using live by auto
    have "canon_result q = q" using run_result_plain [of "env_core env" a s q s'] live q(1) by simp
    with q t(3) have "sv = Inr (Some q)" by simp
    with run adv sv have "res = Inr q" "st' = st2\<lparr>rp_replayed := rp_replayed st2 @
        [\<lparr>ry_action = a, ry_key = ?key, ry_recorded_hash = rk_hash k a q\<rparr>]\<rparr>"
      by (simp_all add: step_run_def)
    moreover have "map (\<lambda>p. (ry_action p, ry_recorded_hash p)) (rp_replayed st) = map (\<lambda>(a, r). (a, rk_hash k a r)) (zip as rs)"
      "rp_env st = s0" using sound t(2) by (auto simp: replay_sound_def)
    ultimately show ?thesis
      using q(1) f srv t(2) next_run [OF q(1)] len by (auto simp: replay_sound_def)
  qed
qed

lemma run_seq_sound:
  assumes kit: "loads_inverts k" "grades_well env" "inj_on (chain_digest k d) A"
  shows "replay_sound k env d s0 A as rs s st \<Longrightarrow>
    \<forall>n \<le> length bs. map RunAct (as @ take n bs) \<in> A \<and> settled k env s0 (as @ take n bs) \<Longrightarrow>
    run_seq (step_run k env) bs st = (res, st') \<Longrightarrow> live_run env (map RunAct bs) s = (direct, s') \<Longrightarrow>
    res = direct \<and> world_valid (step_rows k env d s0 A) (rp_store st') \<and>
    (\<forall>qs. res = Inr qs \<longrightarrow> replay_sound k env d s0 A (as @ bs) (rs @ qs) s' st')"
proof (induction bs arbitrary: as rs s s' st st' res direct)
  case Nil
  then show ?case by (auto simp: live_run_def replay_sound_def)
next
  case (Cons b bs)
  obtain r1 st1 where r1: "step_run k env b st = (r1, st1)" by fastforce
  obtain l s1 where l: "execute_env_action (env_core env) (RunAct b) s = (l, s1)" by fastforce
  have "map RunAct (as @ [b]) \<in> A" "settled k env s0 as"
    using spec [OF Cons.prems(2), of 1] spec [OF Cons.prems(2), of 0] by simp_all
  note step = step_run_sound [OF Cons.prems(1) this(1) kit(3,1) this(2) kit(2) r1 l]
  show ?case
  proof (cases l)
    case (Inl e)
    with step Cons.prems(3,4) r1 l show ?thesis by (auto simp: live_run_def)
  next
    case (Inr q)
    with step have q: "r1 = Inr q" "replay_sound k env d s0 A (as @ [b]) (rs @ [q]) s1 st1" by auto
    obtain r2 st2 where r2: "run_seq (step_run k env) bs st1 = (r2, st2)" by fastforce
    obtain d2 s2 where d2: "live_run env (map RunAct bs) s1 = (d2, s2)" by fastforce
    have "\<forall>n \<le> length bs. map RunAct ((as @ [b]) @ take n bs) \<in> A \<and> settled k env s0 ((as @ [b]) @ take n bs)"
      using Cons.prems(2) by (auto dest: spec [where x = "Suc _"])
    from Cons.IH [OF q(2) this r2 d2] Cons.prems(3,4) r1 l q(1) Inr r2 d2
    show ?thesis by (cases d2) (auto simp: live_run_def)
  qed
qed

lemma submit_sound:
  assumes sound: "replay_sound k env d s0 A as rs s st" and A: "map RunAct as @ [VerifyAct] \<in> A" "inj_on (chain_digest k d) A"
    and kit: "loads_inverts k" "settled k env s0 as" "grades_well env" "artifacts_writable env"
    and run: "executor_submit (replay_executor k env) st = (res, st')"
    and live: "execute_env_action (env_core env) VerifyAct s = (l, s')"
  shows "(case l of Inl e \<Rightarrow> res = Inl e | Inr v \<Rightarrow> \<exists>r. res = Inr r \<and> same_json r v) \<and>
    world_valid (step_rows k env d s0 A) (rp_store st')"
proof -
  let ?ok = "step_rows k env d s0 A"
  let ?d = "chain_digest k d (map RunAct as @ [VerifyAct])"
  let ?key = "step_key ?d"
  let ?st1 = "st\<lparr>rp_digest := ?d, rp_verify_key := Some ?key\<rparr>"
  have dir: "live_run env (map RunAct as) s0 = (Inr rs, s)" and valid: "world_valid ?ok (rp_store st)"
    and dig: "rp_digest st = chain_digest k d (map RunAct as)" using sound by (auto simp: replay_sound_def)
  have adv: "advance k VerifyAct st = (?key, st\<lparr>rp_digest := ?d\<rparr>)"
    by (simp add: advance_def Let_def dig chain_digest_def)
  obtain sv st2 where sv: "serve_replay k ?key ?st1 = (sv, st2)" by fastforce
  note f = serve_frame [OF sv]
  have "world_valid ?ok (rp_store ?st1)" using valid by simp
  note srv = serve_valid [OF this sv]
  show ?thesis
  proof (cases "sv = Inr None")
    case True
    have "replay_sound k env d s0 A as rs s (st2\<lparr>rp_digest := chain_digest k d (map RunAct as)\<rparr>)"
      using sound srv f by (simp add: replay_sound_def)
    from go_live_sound [OF this kit(2)] obtain st3 where st3:
      "go_live k env (st2\<lparr>rp_digest := chain_digest k d (map RunAct as)\<rparr>) = (Inr (), st3)"
      "rp_live st3" "rp_env st3 = s" "rp_store st3 = rp_store st2" "rp_verify_key st3 = rp_verify_key st2" by auto
    then have "go_live k env st2 = (Inr (), st3\<lparr>rp_digest := rp_digest st2\<rparr>)"
      by (auto simp: go_live_def split: prod.splits sum.splits if_splits)
    with adv sv True have "prepare_submit k env st = (Inr None, st3\<lparr>rp_digest := rp_digest st2\<rparr>)"
      by (simp add: prepare_submit_def Let_def)
    with run have ver: "step_verify k env (st3\<lparr>rp_digest := rp_digest st2\<rparr>) = (res, st')"
      by (simp add: executor_submit_def replay_executor_def)
    show ?thesis
    proof (cases l)
      case (Inl e)
      with ver st3 f live srv show ?thesis by (auto simp: step_verify_def)
    next
      case (Inr v)
      have "live_run env (map RunAct as @ [VerifyAct]) s0 = (Inr (rs @ [v]), s')"
        using dir live Inr by (simp add: live_run_def run_seq_snoc)
      from row_valid [OF A(2,1) this] have "?ok ?key (serialize_step_result (rk_fr k) v)" by simp
      with ver st3 f live srv Inr show ?thesis
        by (auto simp: step_verify_def same_json_def kv.valid_put split: if_splits)
    qed
  next
    case False
    with srv obtain t where t: "?ok ?key t"
      "sv = (case deserialize (rk_loads k) t of Inl e \<Rightarrow> Inl (PlainExc e) | Inr r \<Rightarrow> Inr (Some r))" by auto
    from row_result [OF t(1) A(1) dir kit(1,3)] obtain v where v: "l = Inr v"
      "deserialize (rk_loads k) t = Inr (canon_result v)" using live by auto
    then have sv': "sv = Inr (Some (canon_result v))" by (simp add: t(2))
    have "\<exists>st4. prepare_submit k env st = (Inr (Some (canon_result v)), st4) \<and> rp_store st4 = rp_store st2"
    proof (cases "env_write_verify_artifacts env")
      case None
      with adv sv sv' show ?thesis by (simp add: prepare_submit_def Let_def)
    next
      case (Some w)
      then obtain s4 where "w (canon_result v) (rp_env st2) = (Inr (), s4)"
        using kit(4) unfolding artifacts_writable_def by blast
      with adv sv sv' Some show ?thesis by (simp add: prepare_submit_def Let_def)
    qed
    with run srv v(1) show ?thesis
      by (auto simp: executor_submit_def replay_executor_def same_json_def canon_result_json)
  qed
qed

lemma replay_start_sound:
  "world_valid (step_rows k env (rk_sha k (canonical_scope (rk_fr k) ns epoch)) s0 A) c \<Longrightarrow>
     replay_sound k env (rk_sha k (canonical_scope (rk_fr k) ns epoch)) s0 A [] [] s0 (replay_start k ns epoch c s0)"
  by (simp add: replay_sound_def replay_start_def live_run_def chain_digest_def)

text \<open>The chains a rollout goes through: the prefixes of its runs, and the submission.\<close>

definition rollout_chains :: "run_action list \<Rightarrow> env_action list set" where
  "rollout_chains as = {map RunAct (take n as) |n. n \<le> length as} \<union> {map RunAct as @ [VerifyAct]}"

lemma rollout_transparent:
  assumes "executor_rollout (replay_executor k env) as (replay_start k ns epoch c s0) = (res, st)"
    and "executor_rollout (live_step_executor env) as s0 = (direct, s)"
    and "d = rk_sha k (canonical_scope (rk_fr k) ns epoch)"
    and "world_valid (step_rows k env d s0 A) c" and "rollout_chains as \<subseteq> A" and "inj_on (chain_digest k d) A"
    and kit: "loads_inverts k" "scrub_settles k env s0 as" "grades_well env" "artifacts_writable env"
  shows "(case direct of Inl e \<Rightarrow> res = Inl e | Inr ls \<Rightarrow> \<exists>rs. res = Inr rs \<and> list_all2 same_json rs ls) \<and>
    world_valid (step_rows k env d s0 A) (rp_store st)"
proof -
  have live: "run_seq (xe_step_run (live_step_executor env)) bs s1 = live_run env (map RunAct bs) s1" for bs s1
    unfolding live_run_def by (induction bs arbitrary: s1) (simp_all add: live_step_executor_def split: prod.splits sum.splits)
  have replay_step: "xe_step_run (replay_executor k env) = step_run k env" by (simp add: replay_executor_def)
  obtain r1 st1 where r1: "run_seq (step_run k env) as (replay_start k ns epoch c s0) = (r1, st1)" by fastforce
  obtain d1 s1 where d1: "live_run env (map RunAct as) s0 = (d1, s1)" by fastforce
  have "replay_sound k env d s0 A [] [] s0 (replay_start k ns epoch c s0)"
    using replay_start_sound [of k env ns epoch s0 A c] assms(3,4) by simp
  moreover have "\<forall>n \<le> length as. map RunAct ([] @ take n as) \<in> A \<and> settled k env s0 ([] @ take n as)"
    and sub: "map RunAct as @ [VerifyAct] \<in> A" and whole: "settled k env s0 as"
    using assms(5) kit(2) by (auto simp: rollout_chains_def scrub_settles_def)
  ultimately have seq: "r1 = d1" "world_valid (step_rows k env d s0 A) (rp_store st1)"
    "\<And>qs. r1 = Inr qs \<Longrightarrow> replay_sound k env d s0 A as qs s1 st1"
    using run_seq_sound [OF kit(1,3) assms(6) _ _ r1 d1, of s0 "[]" "[]"] by simp_all
  show ?thesis
  proof (cases d1)
    case (Inl e)
    with assms(1,2) r1 d1 seq show ?thesis by (auto simp: executor_rollout_def replay_step live)
  next
    case (Inr rs)
    obtain r2 st2 where r2: "executor_submit (replay_executor k env) st1 = (r2, st2)" by fastforce
    obtain l s2 where l: "execute_env_action (env_core env) VerifyAct s1 = (l, s2)" by fastforce
    note v = submit_sound [OF seq(3) [OF trans [OF seq(1) Inr]] sub assms(6) kit(1) whole kit(3,4) r2 l]
    have "executor_rollout (replay_executor k env) as (replay_start k ns epoch c s0) =
        (case r2 of Inl e \<Rightarrow> (Inl e, st2) | Inr v \<Rightarrow> (Inr (rs @ [v]), st2))"
      using r1 seq(1) Inr r2 by (simp add: executor_rollout_def replay_step split: sum.splits)
    moreover have "executor_submit (live_step_executor env) s1 = (l, s2)"
      using l by (simp add: executor_submit_def live_step_executor_def)
    then have "executor_rollout (live_step_executor env) as s0 =
        (case l of Inl e \<Rightarrow> (Inl e, s2) | Inr v \<Rightarrow> (Inr (rs @ [v]), s2))"
      using d1 Inr by (simp add: executor_rollout_def live split: sum.splits)
    moreover have "list_all2 same_json rs rs" by (simp add: list_all2_refl same_json_def)
    ultimately show ?thesis using v assms(1,2) by (cases l) (auto intro!: list_all2_appendI)
  qed
qed

section \<open>The two properties\<close>

text \<open>
  C30. What is graded is what was observed. Whatever the store holds and whichever accesses fail: when
  a rollout through the replay cache has got its results and the submission is left to be verified
  live, the environment is in the state that executing the actions one after the other reaches, and
  every result the policy was given either is the result of that execution or has its audit hash.
\<close>

theorem replay_grades_observed_world:
  assumes "run_seq (step_run k env) as (replay_start k ns epoch c s0) = (Inr rs, st)"
    and "prepare_submit k env st = (Inr None, st')"
  shows "\<exists>ls. live_run env (map RunAct as) s0 = (Inr ls, rp_env st') \<and> length rs = length as \<and>
    list_all2 (\<lambda>(a, r) l. audit_agrees k a r l) (zip as rs) ls"
proof -
  have "replay_stands k env s0 [] [] (replay_start k ns epoch c s0)"
    by (simp add: replay_stands_def replay_start_def)
  from replaying.graded_world [of k env s0, OF this] assms show ?thesis
    by (simp add: replay_executor_def live_reached_def)
qed

definition counting_env :: "nat replay_env" where
  "counting_env = \<lparr>
     env_verify = (\<lambda>s. (Inr \<lparr>vo_verdict = \<lparr>vv_completed = True, vv_passed = Some True, vv_error = None\<rparr>,
        vo_output = empty_output, vo_reward = 1, vo_info = [], vo_metrics = []\<rparr>, s)),
     env_execute = (\<lambda>s _. (Inr (empty_output\<lparr>ro_stdout := nat_str s\<rparr>), s + 1)),
     env_reset = (\<lambda>s. (Inr empty_output, s)), env_provision = (\<lambda>s. (Inr (), s)), env_close = (\<lambda>s. (Inr (), s)),
     env_pin_network_snapshot = None, env_write_verify_artifacts = None, env_monotonic = of_nat\<rparr>"

definition sample_replay_kit :: replay_kit where
  "sample_replay_kit = \<lparr>rk_sha = quoted, rk_fr = sample_repr, rk_loads = read_json sample_float,
     rk_rules = plain_rules\<rparr>"

definition counted :: "nat \<Rightarrow> step_result" where
  "counted n = plain_step (empty_output\<lparr>ro_stdout := nat_str n\<rparr>)"

abbreviation sample_root_digest :: string where
  "sample_root_digest \<equiv> rk_sha sample_replay_kit (canonical_scope (rk_fr sample_replay_kit) ''ns'' 0)"

text \<open>A store that holds the first run of the rollout, recorded by an earlier one.\<close>

definition recorded_world :: cache_world where
  "recorded_world = \<lparr>cw_disabled = False,
     cw_rows = [(step_key (chain_digest sample_replay_kit sample_root_digest [RunAct (run_of ''make'')]),
                 serialize_step_result (rk_fr sample_replay_kit) (counted 0))],
     cw_counters = [], cw_script = []\<rparr>"

lemma digest_grows: "length d < length (next_digest sample_replay_kit d a)"
  using esc_length [of "d @ CHR ''|'' # canonical_action sample_repr a"]
  by (simp add: next_digest_def sample_replay_kit_def quoted_def)

lemma sample_kit_ok: "loads_inverts sample_replay_kit" "scrub_idempotent (rk_rules sample_replay_kit)"
  by (simp_all add: loads_inverts_def sample_replay_kit_def read_json_dumps [OF sample_float_ok] plain_rules_idempotent)

lemma sample_env_ok: "grades_well counting_env" "artifacts_writable counting_env"
  by (auto simp: grades_well_def counting_env_def verdict_ok_def mk_verdict_def artifacts_writable_def)

lemma counting_run: "execute_env_action (env_core counting_env) (RunAct a) n = (Inr (counted n), n + 1)"
  by (simp add: execute_env_action_def env_core_def counting_env_def counted_def)

abbreviation sample_digest :: "env_action list \<Rightarrow> string" where
  "sample_digest \<equiv> chain_digest sample_replay_kit sample_root_digest"

lemma sample_digest_grows:
  "length (sample_digest []) < length (sample_digest [a])" "length (sample_digest [a]) < length (sample_digest [a, b])"
  by (simp_all add: chain_digest_def digest_grows)

lemma sample_chains: "rollout_chains [run_of ''make''] =
    {[], [RunAct (run_of ''make'')], [RunAct (run_of ''make''), VerifyAct]}"
  by (auto simp: rollout_chains_def le_Suc_eq intro: exI [where x = 0] exI [where x = 1])

lemma sample_chains_distinct: "inj_on sample_digest (rollout_chains [run_of ''make''])"
proof -
  note g = sample_digest_grows(1) [of "RunAct (run_of ''make'')"]
    sample_digest_grows(2) [of "RunAct (run_of ''make'')" VerifyAct]
  have "x = y" if "x \<in> {[], [RunAct (run_of ''make'')], [RunAct (run_of ''make''), VerifyAct]}"
      "y \<in> {[], [RunAct (run_of ''make'')], [RunAct (run_of ''make''), VerifyAct]}"
      "length (sample_digest x) = length (sample_digest y)" for x y
    using that g by (elim insertE emptyE) (simp_all del: append.simps)
  then show ?thesis unfolding sample_chains inj_on_def by metis
qed

lemma recorded_valid:
  "world_valid (step_rows sample_replay_kit counting_env sample_root_digest 0 (rollout_chains [run_of ''make''])) recorded_world"
proof -
  have "step_rows sample_replay_kit counting_env sample_root_digest 0 (rollout_chains [run_of ''make''])
      (step_key (sample_digest [RunAct (run_of ''make'')])) (serialize_step_result (rk_fr sample_replay_kit) (last [counted 0]))"
    by (rule row_valid [OF sample_chains_distinct])
      (auto simp: sample_chains live_run_def counting_run)
  then show ?thesis by (simp add: world_valid_def recorded_world_def)
qed

text \<open>The first run is served from the recording, then the submission goes live.\<close>

theorem replay_grades_observed_world_witness:
  "\<exists>st st'. run_seq (step_run sample_replay_kit counting_env) [run_of ''make'']
      (replay_start sample_replay_kit ''ns'' 0 recorded_world 0) = (Inr [counted 0], st) \<and>
    \<not> rp_live st \<and> rp_env st = 0 \<and>
    prepare_submit sample_replay_kit counting_env st = (Inr None, st') \<and> rp_env st' = 1"
proof -
  let ?k = sample_replay_kit and ?a = "run_of ''make''"
  let ?start = "replay_start ?k ''ns'' 0 recorded_world (0 :: nat)"
  let ?D = "sample_digest [RunAct ?a]"
  note g = sample_digest_grows(2) [of "RunAct ?a" VerifyAct]
  have row: "map_of (cw_rows recorded_world) (step_key ?D) = Some (serialize_step_result (rk_fr ?k) (counted 0))"
    by (simp add: recorded_world_def)
  have blocked: "map_of (cw_rows recorded_world) (blocked_key (step_key d)) = None" if "length ?D \<le> length d" for d
  proof -
    have "length (d @ '':live-only'') \<noteq> length ?D" using that by simp
    then have "d @ '':live-only'' \<noteq> ?D" by (rule contrapos_nn) (rule arg_cong)
    then show ?thesis by (simp add: recorded_world_def blocked_key_def step_key_def)
  qed
  have none: "map_of (cw_rows recorded_world) (step_key (sample_digest [RunAct ?a, VerifyAct])) = None"
    using g by (auto simp: recorded_world_def step_key_def)
  have get: "cache_get key recorded_world = (map_of (cw_rows recorded_world) key, recorded_world)" for key
    by (simp add: cache_get_def sqlite_get_def next_access_def recorded_world_def)
  have "canon_result (counted 0) = counted 0" by (simp add: canon_result_def counted_def plain_step_def)
  then have des: "deserialize (rk_loads ?k) (serialize_step_result (rk_fr ?k) (counted 0)) = Inr (counted 0)"
    using deserialize_row_text [OF sample_kit_ok(1), of "counted 0"] by (simp add: counted_def plain_step_def)
  have dig: "next_digest ?k (rp_digest ?start) (RunAct ?a) = ?D"
      "next_digest ?k ?D VerifyAct = sample_digest [RunAct ?a, VerifyAct]"
    by (simp_all add: chain_digest_def replay_start_def)
  define st where "st = ?start\<lparr>rp_digest := ?D, rp_replayed :=
      [\<lparr>ry_action = ?a, ry_key = step_key ?D, ry_recorded_hash = rk_hash ?k ?a (counted 0)\<rparr>]\<rparr>"
  have "step_run ?k counting_env ?a ?start = (Inr (counted 0), st)"
    unfolding step_run_def advance_def Let_def dig st_def
    by (simp add: serve_replay_def replay_start_def get row blocked des)
  then have run: "run_seq (step_run ?k counting_env) [?a] ?start = (Inr [counted 0], st)" by simp
  have "materialize ?k counting_env 1 (rp_replayed st) (rp_store st) 0 = (Inr (), recorded_world, 1)"
    by (simp add: st_def replay_start_def counting_run Let_def rk_hash_scrub [OF sample_kit_ok(2)])
  moreover have "rp_digest st = ?D" "\<not> rp_live st" "rp_env st = 0" "rp_store st = recorded_world"
    by (simp_all add: st_def replay_start_def)
  ultimately obtain st' where submit: "prepare_submit ?k counting_env st = (Inr None, st')"
    using g by (simp add: prepare_submit_def advance_def Let_def dig serve_replay_def get none blocked go_live_def)
  from replay_grades_observed_world [OF run submit] have "rp_env st' = 1"
    by (auto simp: live_run_def counting_run)
  with run submit \<open>\<not> rp_live st\<close> \<open>rp_env st = 0\<close> show ?thesis by blast
qed

text \<open>
  C31. On a sound store the replay regime refines live execution. If every row under the key of a chain
  is the result of executing that chain, SHA-256 tells the chains apart and the results of these
  actions are not changed by a second scrub, then whatever accesses fail and whatever other processes record, a rollout through the replay cache
  gives exactly the results of executing it live (up to the order of keys), raises exactly what live
  execution raises, and leaves only such rows behind; in particular it never drifts.
\<close>

theorem replay_refines_live:
  assumes "executor_rollout (replay_executor k env) as (replay_start k ns epoch c s0) = (res, st)"
    and "executor_rollout (live_step_executor env) as s0 = (direct, s)"
    and "d = rk_sha k (canonical_scope (rk_fr k) ns epoch)"
    and "world_valid (step_rows k env d s0 A) c" and "rollout_chains as \<subseteq> A" and "inj_on (chain_digest k d) A"
    and "loads_inverts k" "scrub_settles k env s0 as" "grades_well env" "artifacts_writable env"
  shows "(case direct of Inl e \<Rightarrow> res = Inl e | Inr ls \<Rightarrow> \<exists>rs. res = Inr rs \<and> list_all2 same_json rs ls) \<and>
    world_valid (step_rows k env d s0 A) (rp_store st)"
  using assms by (rule rollout_transparent)

end
