(* ===== verification/Episode.thy ===== *)
theory Episode
  imports Effects Certify
begin

text \<open>
  \<open>src/rollout/episode.py\<close>: the episode loop and its outcome classifier. The policy, the renderer,
  the executor and the clock are an environment whose every answer is arbitrary; an awaited call
  either completes (with a result or an exception) or is cut off by the timeout it runs under.
  The loop takes fuel, and running out of it is an error of its own, so that its termination is a
  theorem rather than an assumption of the model.
\<close>

section \<open>The surroundings of the loop\<close>

datatype 'a awaited = Completed "rexc + 'a" | Expired

datatype rendered = Rendered run_action | OtherRoute string

record ('s, 'a) episode_env =
  ee_reset :: "'s \<Rightarrow> raw_output awaited \<times> 's"
  ee_policy_reset :: "raw_output \<Rightarrow> telemetry \<Rightarrow> 's \<Rightarrow> (rexc + unit) \<times> telemetry \<times> 's"
  ee_now :: "'s \<Rightarrow> rat"
  ee_act :: "rat \<Rightarrow> telemetry \<Rightarrow> 's \<Rightarrow> 'a list awaited \<times> telemetry \<times> 's"
  ee_action_name :: "'a \<Rightarrow> 's \<Rightarrow> rexc + string"
  ee_render :: "'a \<Rightarrow> 's \<Rightarrow> rexc + rendered"
  ee_prepare_submit :: "rat \<Rightarrow> 's \<Rightarrow> step_result option awaited \<times> 's"
  ee_step_verify :: "rat \<Rightarrow> 's \<Rightarrow> step_result awaited \<times> 's"
  ee_step_run :: "rat \<Rightarrow> run_action \<Rightarrow> 's \<Rightarrow> step_result awaited \<times> 's"
  ee_observe :: "'a \<Rightarrow> step_result \<Rightarrow> telemetry \<Rightarrow> 's \<Rightarrow> (rexc + unit) \<times> telemetry \<times> 's"

record 's episode =
  ep_env :: 's
  ep_tel :: telemetry
  ep_chain :: "chain_step list"

record loop_limits =
  ll_max_steps :: nat
  ll_agent_timeout_sec :: rat
  ll_stall_timeout_sec :: rat
  ll_verify_timeout_sec :: rat

type_synonym ('s, 'x) ep_act = "('s episode, rexc, 'x) act"

definition SUBMIT_ACTION_NAME :: string where
  "SUBMIT_ACTION_NAME = ''submit''"

section \<open>The boundaries\<close>

fun policy_wrap :: "rexc \<Rightarrow> rexc" where
  "policy_wrap (CompletionInfraError cause) = EnvBoundaryError cause"
| "policy_wrap (FrameworkError (Some cause)) = cause"
| "policy_wrap (FrameworkError None) = FrameworkError None"
| "policy_wrap TaskTimeout = TaskTimeout"
| "policy_wrap (StallTimeout m) = StallTimeout m"
| "policy_wrap e = PolicyBoundaryError (to_exc e)"

fun env_wrap :: "rexc \<Rightarrow> rexc" where
  "env_wrap (ExecutionDriftError i m) = ExecutionDriftError i m"
| "env_wrap (FrameworkEnvError m) = FrameworkEnvError m"
| "env_wrap (UnscorableInfraError m) = UnscorableInfraError m"
| "env_wrap EnvSetupTimeout = EnvSetupTimeout"
| "env_wrap e = EnvBoundaryError (to_exc e)"

section \<open>Outcomes\<close>

datatype loop_end =
    Submitted | Budget | StepCap | GaveUp | SetupTimedOut | TaskTimedOut | StallTimedOut
  | UnscorableEnd | CrashEnd

record loop_outcome =
  lo_end :: loop_end
  lo_final :: "step_result option"
  lo_steps_taken :: "nat option"
  lo_origin :: "failure_origin option"
  lo_error :: "string option"

definition failure_end ::
    "loop_end \<Rightarrow> failure_origin option \<Rightarrow> string option \<Rightarrow> loop_outcome" where
  "failure_end e origin err = \<lparr>lo_end = e, lo_final = None, lo_steps_taken = None,
     lo_origin = origin, lo_error = err\<rparr>"

text \<open>The constructor's own check: an ending of the loop proper carries a transition.\<close>

definition mk_loop_end ::
    "loop_end \<Rightarrow> step_result option \<Rightarrow> nat \<Rightarrow> string option \<Rightarrow> rexc + loop_outcome" where
  "mk_loop_end e final taken err =
     (if e \<in> {Submitted, Budget} \<and> final = None
      then Inl (PlainExc (ValueError (''LoopOutcome end='' @ [CHR 0x27] @
             (if e = Submitted then ''submitted'' else ''budget'') @ [CHR 0x27] @
             '' requires a final transition'')))
      else Inr \<lparr>lo_end = e, lo_final = final, lo_steps_taken = Some taken, lo_origin = None,
             lo_error = err\<rparr>)"

section \<open>Steps of the loop\<close>

definition setup_env :: "('s, 'a) episode_env \<Rightarrow> ('s, raw_output) ep_act" where
  "setup_env ee s =
     (case ee_reset ee (ep_env s) of
        (Expired, e) \<Rightarrow> (Inl EnvSetupTimeout, s\<lparr>ep_env := e\<rparr>)
      | (Completed (Inl x), e) \<Rightarrow> (Inl (env_wrap x), s\<lparr>ep_env := e\<rparr>)
      | (Completed (Inr out), e) \<Rightarrow> (Inr out, s\<lparr>ep_env := e\<rparr>))"

definition policy_reset :: "('s, 'a) episode_env \<Rightarrow> raw_output \<Rightarrow> ('s, unit) ep_act" where
  "policy_reset ee out s =
     (case ee_policy_reset ee out (ep_tel s) (ep_env s) of
        (Inl x, t, e) \<Rightarrow> (Inl (policy_wrap x), s\<lparr>ep_env := e, ep_tel := t\<rparr>)
      | (Inr u, t, e) \<Rightarrow> (Inr u, s\<lparr>ep_env := e, ep_tel := t\<rparr>))"

datatype 'a decision = Actions "'a list" | GiveUp string

definition stall_text :: "rat \<Rightarrow> string" where
  "stall_text sec = ''no action executed for '' @ fmt0 sec @ ''s; aborting stalled rollout''"

definition decide_actions ::
    "('s, 'a) episode_env \<Rightarrow> loop_limits \<Rightarrow> rat \<Rightarrow> rat \<Rightarrow> ('s, 'a decision) ep_act" where
  "decide_actions ee lims agent_deadline stall_deadline s =
     (case ee_act ee (min agent_deadline stall_deadline) (ep_tel s) (ep_env s) of
        (r, t, e) \<Rightarrow>
          (case r of
             Completed (Inr as) \<Rightarrow> Inr (Actions as)
           | Completed (Inl (NoValidActionError _)) \<Rightarrow> Inr (Actions [])
           | Completed (Inl (RepeatedLengthCutoffError m)) \<Rightarrow> Inr (GiveUp m)
           | Completed (Inl x) \<Rightarrow> Inl (policy_wrap x)
           | Expired \<Rightarrow>
               (if ee_now ee e \<ge> agent_deadline then Inl TaskTimeout
                else Inl (StallTimeout (stall_text (ll_stall_timeout_sec lims)))),
           s\<lparr>ep_env := e, ep_tel := t\<rparr>))"

definition timeout_step :: step_result where
  "timeout_step = (plain_step (empty_output\<lparr>ro_stderr := ''timed out''\<rparr>))\<lparr>sp_truncated := True\<rparr>"

text \<open>A step under its timeout: cut off it is a truncated transition; a foreign \<open>TimeoutError\<close> is
  an environment failure; every other exception passes.\<close>

definition settle_step ::
    "step_result awaited \<Rightarrow> rexc + (step_result \<times> bool)" where
  "settle_step r = (case r of
      Expired \<Rightarrow> Inr (timeout_step, True)
    | Completed (Inl BareTimeout) \<Rightarrow> Inl (EnvBoundaryError (to_exc BareTimeout))
    | Completed (Inl x) \<Rightarrow> Inl x
    | Completed (Inr sr) \<Rightarrow> Inr (sr, False))"

definition submit_step ::
    "('s, 'a) episode_env \<Rightarrow> loop_limits \<Rightarrow> rat \<Rightarrow> ('s, step_result \<times> bool) ep_act" where
  "submit_step ee lims agent_deadline s =
     (case ee_prepare_submit ee agent_deadline (ep_env s) of
        (Expired, e) \<Rightarrow> (Inl TaskTimeout, s\<lparr>ep_env := e\<rparr>)
      | (Completed (Inl x), e) \<Rightarrow>
          (Inl (if x = BareTimeout then EnvBoundaryError (to_exc x) else x), s\<lparr>ep_env := e\<rparr>)
      | (Completed (Inr (Some served)), e) \<Rightarrow> (Inr (served, False), s\<lparr>ep_env := e\<rparr>)
      | (Completed (Inr None), e) \<Rightarrow>
          (case ee_step_verify ee (ll_verify_timeout_sec lims) e of
             (r, e') \<Rightarrow> (settle_step r, s\<lparr>ep_env := e'\<rparr>)))"

definition render_action ::
    "('s, 'a) episode_env \<Rightarrow> 'a \<Rightarrow> string \<Rightarrow> ('s, run_action) ep_act" where
  "render_action ee a name s =
     ((case ee_render ee a (ep_env s) of
         Inl x \<Rightarrow> Inl (policy_wrap x)
       | Inr (Rendered r) \<Rightarrow> Inr r
       | Inr (OtherRoute t) \<Rightarrow> Inl (policy_wrap (PlainExc (ValueError
           (''action route for '' @ [CHR 0x27] @ name @ [CHR 0x27] @ '' produced '' @ t @ ''; expected RunAction''))))), s)"

definition run_step ::
    "('s, 'a) episode_env \<Rightarrow> rat \<Rightarrow> run_action \<Rightarrow> ('s, step_result \<times> bool) ep_act" where
  "run_step ee agent_deadline r s =
     (case ee_step_run ee agent_deadline r (ep_env s) of
        (out, e) \<Rightarrow> (settle_step out, s\<lparr>ep_env := e\<rparr>))"

definition record_step ::
    "(string option \<Rightarrow> string \<Rightarrow> string) \<Rightarrow> env_action \<Rightarrow> step_result \<times> bool \<Rightarrow>
       ('s, step_result) ep_act" where
  "record_step scrub action rt s =
     (let r = scrub_step_result scrub (fst rt)
                (case action of RunAct a \<Rightarrow> Some (ra_command a) | VerifyAct \<Rightarrow> None)
      in (Inr r, s\<lparr>ep_chain := ep_chain s @
            [\<lparr>cs_env_action = action, cs_step_result = r, cs_timed_out = snd rt\<rparr>]\<rparr>))"

text \<open>One action of a batch: the transition and whether it was the submit route.\<close>

definition perform_action ::
    "('s, 'a) episode_env \<Rightarrow> (string option \<Rightarrow> string \<Rightarrow> string) \<Rightarrow> loop_limits \<Rightarrow> rat \<Rightarrow> 'a \<Rightarrow>
       ('s, step_result \<times> bool) ep_act" where
  "perform_action ee scrub lims agent_deadline a =
     seq (\<lambda>s. (case ee_action_name ee a (ep_env s) of
                 Inl x \<Rightarrow> Inl (policy_wrap x) | Inr name \<Rightarrow> Inr name, s)) (\<lambda>name.
       (if name = SUBMIT_ACTION_NAME
        then seq (submit_step ee lims agent_deadline) (\<lambda>rt.
             seq (record_step scrub VerifyAct rt) (\<lambda>r. ret (r, True)))
        else seq (render_action ee a name) (\<lambda>act.
             seq (run_step ee agent_deadline act) (\<lambda>rt.
             seq (record_step scrub (RunAct act) rt) (\<lambda>r. ret (r, False))))))"

definition is_terminal :: "step_result \<Rightarrow> bool" where
  "is_terminal r \<longleftrightarrow> sp_terminated r \<or> sp_truncated r"

record 'a batch =
  ba_step_index :: nat
  ba_transitions :: "('a \<times> step_result) list"
  ba_terminal :: bool
  ba_submit :: bool

fun run_batch ::
    "('s, 'a) episode_env \<Rightarrow> (string option \<Rightarrow> string \<Rightarrow> string) \<Rightarrow> loop_limits \<Rightarrow> rat \<Rightarrow>
       'a list \<Rightarrow> 'a batch \<Rightarrow> ('s, 'a batch) ep_act" where
  "run_batch ee scrub lims agent_deadline [] b = ret b"
| "run_batch ee scrub lims agent_deadline (a # as) b =
     (if ba_step_index b \<ge> ll_max_steps lims then ret b
      else seq (perform_action ee scrub lims agent_deadline a) (\<lambda>(r, submit).
        (let b' = b\<lparr>ba_step_index := Suc (ba_step_index b),
                     ba_transitions := ba_transitions b @ [(a, r)],
                     ba_terminal := is_terminal r, ba_submit := submit\<rparr>
         in if is_terminal r then ret b' else run_batch ee scrub lims agent_deadline as b')))"

definition observe_one ::
    "('s, 'a) episode_env \<Rightarrow> nat \<Rightarrow> nat \<Rightarrow> 'a \<Rightarrow> step_result \<Rightarrow> ('s, unit) ep_act" where
  "observe_one ee step_index call_index a r s =
     (case ee_observe ee a r
             (on_step_completed step_index call_index r (is_terminal r) (ep_tel s)) (ep_env s) of
        (Inl x, t, e) \<Rightarrow> (Inl (policy_wrap x), s\<lparr>ep_env := e, ep_tel := t\<rparr>)
      | (Inr u, t, e) \<Rightarrow> (Inr u, s\<lparr>ep_env := e, ep_tel := t\<rparr>))"

fun observe_all ::
    "('s, 'a) episode_env \<Rightarrow> nat \<Rightarrow> nat \<Rightarrow> ('a \<times> step_result) list \<Rightarrow> step_result option \<Rightarrow>
       ('s, step_result option) ep_act" where
  "observe_all ee previous call_index [] final = ret final"
| "observe_all ee previous call_index ((a, r) # ts) final =
     also_then (observe_one ee (previous + call_index + 1) call_index a r)
       (observe_all ee previous (Suc call_index) ts (Some r))"

definition note_no_action :: "nat \<Rightarrow> ('s, unit) ep_act" where
  "note_no_action step_index s = (Inr (), s\<lparr>ep_tel := on_no_valid_action_step step_index (ep_tel s)\<rparr>)"

section \<open>The loop\<close>

datatype loop_error = Raised rexc | OutOfFuel

definition finish_loop :: "rexc + loop_outcome \<Rightarrow> ('s episode, loop_error, loop_outcome) act" where
  "finish_loop r = (case r of Inl x \<Rightarrow> raise (Raised x) | Inr out \<Rightarrow> ret out)"

definition read_clock :: "('s, 'a) episode_env \<Rightarrow> ('s, rat) ep_act" where
  "read_clock ee s = (Inr (ee_now ee (ep_env s)), s)"

text \<open>One turn: a decision, its batch, the observations; the step index and the last transition.\<close>

definition run_turn ::
    "('s, 'a) episode_env \<Rightarrow> (string option \<Rightarrow> string \<Rightarrow> string) \<Rightarrow> loop_limits \<Rightarrow> rat \<Rightarrow> nat \<Rightarrow>
       step_result option \<Rightarrow> 'a list \<Rightarrow> ('s, 'a batch \<times> step_result option) ep_act" where
  "run_turn ee scrub lims agent_deadline step_index final actions =
     seq (run_batch ee scrub lims agent_deadline actions
            \<lparr>ba_step_index = step_index, ba_transitions = [], ba_terminal = False, ba_submit = False\<rparr>) (\<lambda>b.
     also_then (when_do (actions = []) (note_no_action (Suc step_index)))
    (seq (observe_all ee step_index 0 (ba_transitions b) final) (\<lambda>final'.
       ret (if actions = [] then b\<lparr>ba_step_index := Suc step_index\<rparr> else b, final'))))"

fun task_loop ::
    "('s, 'a) episode_env \<Rightarrow> (string option \<Rightarrow> string \<Rightarrow> string) \<Rightarrow> loop_limits \<Rightarrow> rat \<Rightarrow> nat \<Rightarrow>
       rat \<Rightarrow> nat \<Rightarrow> step_result option \<Rightarrow> ('s episode, loop_error, loop_outcome) act" where
  "task_loop ee scrub lims agent_deadline fuel stall_deadline step_index final =
     (if step_index \<ge> ll_max_steps lims
      then finish_loop (mk_loop_end StepCap final step_index None)
      else case fuel of
        0 \<Rightarrow> raise OutOfFuel
      | Suc n \<Rightarrow>
          seq (lift_err Raised (decide_actions ee lims agent_deadline stall_deadline)) (\<lambda>d.
            (case d of
               GiveUp m \<Rightarrow> finish_loop (mk_loop_end GaveUp final step_index (Some m))
             | Actions actions \<Rightarrow>
                 seq (lift_err Raised (run_turn ee scrub lims agent_deadline step_index final actions))
                   (\<lambda>(b, final').
                 seq (lift_err Raised (read_clock ee)) (\<lambda>now.
                   (if ba_terminal b
                    then finish_loop (mk_loop_end (if ba_submit b then Submitted else Budget)
                           final' (ba_step_index b) None)
                    else task_loop ee scrub lims agent_deadline n
                           (if actions \<noteq> [] then now + ll_stall_timeout_sec lims else stall_deadline)
                           (ba_step_index b) final'))))))"

declare task_loop.simps [simp del]

definition start_loop ::
    "('s, 'a) episode_env \<Rightarrow> (string option \<Rightarrow> string \<Rightarrow> string) \<Rightarrow> loop_limits \<Rightarrow> nat \<Rightarrow>
       ('s episode, loop_error, loop_outcome) act" where
  "start_loop ee scrub lims fuel =
     seq (lift_err Raised (setup_env ee)) (\<lambda>out.
     also_then (lift_err Raised (policy_reset ee out))
    (seq (lift_err Raised (read_clock ee)) (\<lambda>now.
       task_loop ee scrub lims (now + ll_agent_timeout_sec lims) fuel
         (now + ll_stall_timeout_sec lims) 0 None)))"

text \<open>The \<open>except\<close> clauses: what each exception makes of the episode, or its escape.\<close>

fun loop_failure :: "rexc \<Rightarrow> rexc + loop_outcome" where
  "loop_failure EnvSetupTimeout = Inr (failure_end SetupTimedOut None None)"
| "loop_failure (StallTimeout m) = Inr (failure_end StallTimedOut None (Some m))"
| "loop_failure TaskTimeout = Inr (failure_end TaskTimedOut None None)"
| "loop_failure (UnscorableInfraError m) =
     Inr (failure_end UnscorableEnd None (Some (error_text (to_exc (UnscorableInfraError m)))))"
| "loop_failure (FrameworkEnvError m) =
     Inr (failure_end CrashEnd (Some OriginEnv) (Some (error_text (to_exc (FrameworkEnvError m)))))"
| "loop_failure (StepExecutionError c) = Inr (failure_end CrashEnd (Some OriginEnv) (Some (error_text c)))"
| "loop_failure (PolicyBoundaryError c) = Inr (failure_end CrashEnd (Some OriginPolicy) (Some (error_text c)))"
| "loop_failure (EnvBoundaryError c) = Inr (failure_end CrashEnd (Some OriginEnv) (Some (error_text c)))"
| "loop_failure e = Inl e"

definition run_task_loop ::
    "('s, 'a) episode_env \<Rightarrow> (string option \<Rightarrow> string \<Rightarrow> string) \<Rightarrow> loop_limits \<Rightarrow> nat \<Rightarrow>
       ('s episode, loop_error, loop_outcome) act" where
  "run_task_loop ee scrub lims fuel =
     catch (start_loop ee scrub lims fuel) (\<lambda>e.
       (case e of OutOfFuel \<Rightarrow> raise OutOfFuel | Raised x \<Rightarrow> finish_loop (loop_failure x)))"

section \<open>What a batch does to the action chain\<close>

definition terminal_entry :: "chain_step \<Rightarrow> bool" where
  "terminal_entry c = is_terminal (cs_step_result c)"

lemma quiet_steps:
  "submit_step ee lims d s = (r, s') \<Longrightarrow> ep_chain s' = ep_chain s"
  "render_action ee a n s = (r', s') \<Longrightarrow> ep_chain s' = ep_chain s"
  "run_step ee d act s = (r, s') \<Longrightarrow> ep_chain s' = ep_chain s"
  "observe_one ee i j a sr s = (u, s') \<Longrightarrow> ep_chain s' = ep_chain s"
  "note_no_action i s = (u, s') \<Longrightarrow> ep_chain s' = ep_chain s"
  "decide_actions ee lims d d' s = (dc, s') \<Longrightarrow> ep_chain s' = ep_chain s"
  "setup_env ee s = (o', s') \<Longrightarrow> ep_chain s' = ep_chain s"
  "policy_reset ee out s = (u, s') \<Longrightarrow> ep_chain s' = ep_chain s"
  "read_clock ee s = (q, s') \<Longrightarrow> ep_chain s' = ep_chain s"
  by (auto simp: submit_step_def render_action_def run_step_def observe_one_def note_no_action_def
      decide_actions_def setup_env_def policy_reset_def read_clock_def
      split: prod.splits awaited.splits sum.splits option.splits)

lemma perform_action_chain:
  assumes "perform_action ee scrub lims d a s = (r, s')"
  shows "(\<exists>e. r = Inl e \<and> ep_chain s' = ep_chain s) \<or>
    (\<exists>c. r = Inr (cs_step_result c, cs_env_action c = VerifyAct) \<and> ep_chain s' = ep_chain s @ [c])"
proof -
  have rec: "record_step scrub act rt s1 = (x, s2) \<Longrightarrow>
      \<exists>c. x = Inr (cs_step_result c) \<and> cs_env_action c = act \<and> ep_chain s2 = ep_chain s1 @ [c]" for act rt s1 x s2
    by (auto simp: record_step_def Let_def)
  show ?thesis
    using assms
    by (fastforce simp: perform_action_def seq_def ret_def split: prod.splits sum.splits if_splits
        dest: rec quiet_steps)
qed

text \<open>The entries \<open>cs\<close> a batch appends, and what it reports of them.\<close>

definition batch_adds :: "loop_limits \<Rightarrow> nat \<Rightarrow> chain_step list \<Rightarrow> bool" where
  "batch_adds lims i cs \<longleftrightarrow> (\<forall>c \<in> set (butlast cs). \<not> terminal_entry c) \<and>
     length cs \<le> ll_max_steps lims - i"

definition batch_reports :: "'a batch \<Rightarrow> chain_step list \<Rightarrow> 'a batch \<Rightarrow> bool" where
  "batch_reports b cs b' \<longleftrightarrow> ba_step_index b' = ba_step_index b + length cs \<and>
     map snd (ba_transitions b') = map snd (ba_transitions b) @ map cs_step_result cs \<and>
     (if cs = [] then b' = b
      else ba_terminal b' = terminal_entry (last cs) \<and>
           ba_submit b' = (cs_env_action (last cs) = VerifyAct))"

definition batch_post ::
    "loop_limits \<Rightarrow> 'a list \<Rightarrow> 'a batch \<Rightarrow> chain_step list \<Rightarrow> rexc + 'a batch \<Rightarrow> bool" where
  "batch_post lims as b cs r \<longleftrightarrow> batch_adds lims (ba_step_index b) cs \<and>
     (case r of
        Inl _ \<Rightarrow> (\<forall>c \<in> set cs. \<not> terminal_entry c)
      | Inr b' \<Rightarrow> batch_reports b cs b' \<and>
          (as \<noteq> [] \<and> ba_step_index b < ll_max_steps lims \<longrightarrow> cs \<noteq> []))"

lemma batch_post_Nil:
  "ll_max_steps lims \<le> ba_step_index b \<or> as = [] \<Longrightarrow> batch_post lims as b [] (Inr b)"
  "batch_post lims as b [] (Inl e)"
  by (auto simp: batch_post_def batch_adds_def batch_reports_def)

abbreviation extend_batch :: "'a batch \<Rightarrow> 'a \<Rightarrow> chain_step \<Rightarrow> 'a batch" where
  "extend_batch b a c \<equiv> b\<lparr>ba_step_index := Suc (ba_step_index b),
     ba_transitions := ba_transitions b @ [(a, cs_step_result c)],
     ba_terminal := is_terminal (cs_step_result c), ba_submit := (cs_env_action c = VerifyAct)\<rparr>"

lemma batch_post_one:
  "ba_step_index b < ll_max_steps lims \<Longrightarrow> batch_post lims (a # as) b [c] (Inr (extend_batch b a c))"
  by (simp add: batch_post_def batch_adds_def batch_reports_def terminal_entry_def)

lemma batch_post_Cons:
  assumes "ba_step_index b < ll_max_steps lims" and "\<not> terminal_entry c"
    and "batch_post lims as (extend_batch b a c) cs r"
  shows "batch_post lims (a # as) b (c # cs) r"
proof -
  have "batch_adds lims (ba_step_index b) (c # cs)"
    using assms by (auto simp: batch_post_def batch_adds_def)
  moreover have "batch_reports b (c # cs) b'" if "r = Inr b'" for b'
    using assms that
    by (cases "cs = []") (simp_all add: batch_post_def batch_reports_def terminal_entry_def)
  ultimately show ?thesis
    using assms(2,3) by (cases r) (auto simp: batch_post_def)
qed

lemma run_batch_chain:
  assumes "run_batch ee scrub lims d as b s = (r, s')"
  shows "\<exists>cs. ep_chain s' = ep_chain s @ cs \<and> batch_post lims as b cs r"
  using assms
proof (induction as arbitrary: b s)
  case Nil
  then show ?case using batch_post_Nil(1) [of lims b "[]"]
    by (intro exI [of _ "[]"]) (simp add: ret_def)
next
  case (Cons a as)
  show ?case
  proof (cases "ba_step_index b \<ge> ll_max_steps lims")
    case True
    then show ?thesis using Cons.prems batch_post_Nil(1) [of lims b "a # as"]
      by (intro exI [of _ "[]"]) (simp add: ret_def)
  next
    case False
    obtain r1 s1 where p: "perform_action ee scrub lims d a s = (r1, s1)" by fastforce
    from perform_action_chain [OF p] show ?thesis
    proof (elim disjE exE conjE)
      fix e assume "r1 = Inl e" "ep_chain s1 = ep_chain s"
      then show ?thesis using Cons.prems False p batch_post_Nil(2) [of lims "a # as" b e]
        by (intro exI [of _ "[]"]) (simp add: seq_def)
    next
      fix c assume c: "r1 = Inr (cs_step_result c, cs_env_action c = VerifyAct)"
          "ep_chain s1 = ep_chain s @ [c]"
      have run: "(if is_terminal (cs_step_result c) then ret (extend_batch b a c)
          else run_batch ee scrub lims d as (extend_batch b a c)) s1 = (r, s')"
        using Cons.prems False p c(1) by (simp add: seq_def Let_def)
      show ?thesis
      proof (cases "is_terminal (cs_step_result c)")
        case True
        then have "r = Inr (extend_batch b a c)" "s' = s1" using run by (simp_all add: ret_def)
        then show ?thesis using False c(2) batch_post_one [of b lims a as c]
          by (intro exI [of _ "[c]"]) simp
      next
        case nt: False
        with run have "run_batch ee scrub lims d as (extend_batch b a c) s1 = (r, s')" by simp
        from Cons.IH [OF this] obtain cs where "ep_chain s' = ep_chain s1 @ cs"
          "batch_post lims as (extend_batch b a c) cs r" by blast
        then show ?thesis using c(2) nt False batch_post_Cons [of b lims c as a cs r]
          by (intro exI [of _ "c # cs"]) (simp add: terminal_entry_def)
      qed
    qed
  qed
qed

section \<open>What a turn and the loop do\<close>

lemma observe_all_chain: "observe_all ee i j ts final s = (r, s') \<Longrightarrow> ep_chain s' = ep_chain s"
proof (induction ts arbitrary: j final s)
  case Nil
  then show ?case by (simp add: ret_def)
next
  case (Cons t ts)
  obtain a sr where t: "t = (a, sr)" by fastforce
  obtain r1 s1 where o: "observe_one ee (i + j + 1) j a sr s = (r1, s1)" by fastforce
  note q = quiet_steps(4) [OF o]
  show ?case
  proof (cases r1)
    case (Inl e)
    then show ?thesis using Cons.prems t o q by (auto simp: also_then_def seq_def)
  next
    case (Inr u)
    then have "observe_all ee i (Suc j) ts (Some sr) s1 = (r, s')"
      using Cons.prems t o by (simp add: also_then_def seq_def)
    from Cons.IH [OF this] q show ?thesis by simp
  qed
qed

lemma observe_all_final:
  "observe_all ee i j ts final s = (Inr f, s') \<Longrightarrow> f = (if ts = [] then final else Some (snd (last ts)))"
proof (induction ts arbitrary: j final s)
  case Nil
  then show ?case by (simp add: ret_def)
next
  case (Cons t ts)
  obtain a sr where t: "t = (a, sr)" by fastforce
  with Cons.prems obtain s1 where "observe_all ee i (Suc j) ts (Some sr) s1 = (Inr f, s')"
    by (auto simp: act_inv)
  from Cons.IH [OF this] t show ?case by simp
qed

definition start_batch :: "nat \<Rightarrow> 'a batch" where
  "start_batch i = \<lparr>ba_step_index = i, ba_transitions = [], ba_terminal = False, ba_submit = False\<rparr>"

definition turn_result ::
    "nat \<Rightarrow> step_result option \<Rightarrow> chain_step list \<Rightarrow> 'a batch \<Rightarrow> step_result option \<Rightarrow> bool" where
  "turn_result i final cs b final' \<longleftrightarrow>
     (if cs = [] then ba_step_index b = Suc i \<and> \<not> ba_terminal b \<and> final' = final
      else ba_step_index b = i + length cs \<and> ba_terminal b = terminal_entry (last cs) \<and>
           ba_submit b = (cs_env_action (last cs) = VerifyAct) \<and>
           final' = Some (cs_step_result (last cs)))"

lemma batch_reports_turn:
  assumes "batch_reports (start_batch i) cs b" and "cs \<noteq> []"
  shows "turn_result i final cs b (Some (snd (last (ba_transitions b))))"
proof -
  have m: "map snd (ba_transitions b) = map cs_step_result cs"
    using assms(1) by (simp add: batch_reports_def start_batch_def)
  then have "ba_transitions b \<noteq> []" using assms(2) by auto
  then have "snd (last (ba_transitions b)) = cs_step_result (last cs)"
    using m assms(2) by (metis last_map)
  with assms show ?thesis by (simp add: batch_reports_def turn_result_def start_batch_def)
qed

lemma run_turn_chain:
  assumes "run_turn ee scrub lims d i final actions s = (r, s')" and "i < ll_max_steps lims"
  shows "\<exists>cs. ep_chain s' = ep_chain s @ cs \<and> batch_adds lims i cs \<and>
    (\<forall>b final'. r = Inr (b, final') \<longrightarrow> turn_result i final cs b final')"
proof -
  obtain r1 s1 where b: "run_batch ee scrub lims d actions (start_batch i) s = (r1, s1)" by fastforce
  from run_batch_chain [OF b] obtain cs where cs: "ep_chain s1 = ep_chain s @ cs"
      and post: "batch_post lims actions (start_batch i) cs r1" by blast
  have adds: "batch_adds lims i cs" using post by (simp add: batch_post_def start_batch_def)
  have run: "(case r1 of Inl e \<Rightarrow> (Inl e, s1) | Inr b \<Rightarrow>
      also_then (when_do (actions = []) (note_no_action (Suc i)))
        (seq (observe_all ee i 0 (ba_transitions b) final) (\<lambda>final'.
           ret (if actions = [] then b\<lparr>ba_step_index := Suc i\<rparr> else b, final'))) s1) = (r, s')"
    using assms(1) b by (simp add: run_turn_def seq_def start_batch_def split: sum.splits)
  show ?thesis
  proof (cases r1)
    case (Inl e)
    then show ?thesis using run cs adds by auto
  next
    case (Inr b1)
    have rep: "batch_reports (start_batch i) cs b1" and ne: "actions \<noteq> [] \<Longrightarrow> cs \<noteq> []"
      using post Inr assms(2) by (auto simp: batch_post_def start_batch_def)
    have nil: "actions = [] \<Longrightarrow> b1 = start_batch i \<and> s1 = s" using b Inr by (simp add: ret_def)
    obtain r2 s2 where w: "when_do (actions = []) (note_no_action (Suc i)) s1 = (r2, s2)" by fastforce
    have w2: "r2 = Inr ()" "ep_chain s2 = ep_chain s1"
      using w by (auto simp: when_do_def ret_def note_no_action_def split: if_splits)
    obtain r3 s3 where o: "observe_all ee i 0 (ba_transitions b1) final s2 = (r3, s3)" by fastforce
    note oc = observe_all_chain [OF o]
    have of: "r3 = Inr f \<Longrightarrow> f = (if ba_transitions b1 = [] then final else Some (snd (last (ba_transitions b1))))" for f
      using observe_all_final [of ee i 0 "ba_transitions b1" final s2 f s3] o by simp
    have fin: "r = (case r3 of Inl e \<Rightarrow> Inl e
        | Inr f \<Rightarrow> Inr (if actions = [] then b1\<lparr>ba_step_index := Suc i\<rparr> else b1, f)) \<and> s' = s3"
      using run Inr w w2 o by (auto simp: also_then_def seq_def ret_def split: sum.splits)
    have "turn_result i final cs b final'" if res: "r = Inr (b, final')" for b final'
    proof (cases "actions = []")
      case True
      with nil rep have "cs = []" by (auto simp: batch_reports_def start_batch_def)
      then show ?thesis using res fin of nil True
        by (auto simp: turn_result_def start_batch_def split: sum.splits)
    next
      case False
      then have "ba_transitions b1 \<noteq> []" using rep ne by (auto simp: batch_reports_def start_batch_def)
      then show ?thesis using res fin of False batch_reports_turn [OF rep ne [OF False], of final]
        by (auto split: sum.splits)
    qed
    then show ?thesis using cs adds w2 oc fin by auto
  qed
qed

text \<open>A chain the loop leaves: bounded, and only its last entry may be terminal.\<close>

definition chain_ok :: "loop_limits \<Rightarrow> chain_step list \<Rightarrow> bool" where
  "chain_ok lims cs \<longleftrightarrow> (\<forall>c \<in> set (butlast cs). \<not> terminal_entry c) \<and> length cs \<le> ll_max_steps lims"

definition outcome_of_chain :: "loop_limits \<Rightarrow> chain_step list \<Rightarrow> loop_outcome \<Rightarrow> bool" where
  "outcome_of_chain lims cs out \<longleftrightarrow>
     lo_end out \<in> {Submitted, Budget, StepCap, GaveUp} \<and> lo_origin out = None \<and>
     (lo_error out \<noteq> None \<longleftrightarrow> lo_end out = GaveUp) \<and>
     lo_final out = (if cs = [] then None else Some (cs_step_result (last cs))) \<and>
     (\<exists>n. lo_steps_taken out = Some n \<and> length cs \<le> n \<and> n \<le> ll_max_steps lims) \<and>
     (lo_end out \<in> {Submitted, Budget} \<longleftrightarrow> cs \<noteq> [] \<and> terminal_entry (last cs)) \<and>
     (lo_end out = Submitted \<longrightarrow> cs_env_action (last cs) = VerifyAct) \<and>
     (lo_end out = Budget \<longrightarrow> cs_env_action (last cs) \<noteq> VerifyAct)"

definition open_chain :: "nat \<Rightarrow> step_result option \<Rightarrow> chain_step list \<Rightarrow> bool" where
  "open_chain i final cs \<longleftrightarrow> (\<forall>c \<in> set cs. \<not> terminal_entry c) \<and> length cs \<le> i \<and>
     final = (if cs = [] then None else Some (cs_step_result (last cs)))"

lemma open_chain_ok: "open_chain i final cs \<Longrightarrow> i \<le> ll_max_steps lims \<Longrightarrow> chain_ok lims cs"
  by (auto simp: open_chain_def chain_ok_def dest: in_set_butlastD)

lemma open_chain_ends:
  assumes "open_chain i final cs" "i \<le> ll_max_steps lims" "e = StepCap \<and> m = None \<or> e = GaveUp \<and> m \<noteq> None"
  shows "mk_loop_end e final i m = Inr out \<Longrightarrow> outcome_of_chain lims cs out"
    and "\<exists>out. mk_loop_end e final i m = Inr out"
  using assms
  by (auto simp: open_chain_def mk_loop_end_def outcome_of_chain_def split: if_splits)

lemma turn_extends:
  assumes "open_chain i final cs" "i < ll_max_steps lims" "batch_adds lims i ds"
    and "turn_result i final ds b final'"
  shows "i < ba_step_index b" "ba_step_index b \<le> ll_max_steps lims"
    and "\<not> ba_terminal b \<Longrightarrow> open_chain (ba_step_index b) final' (cs @ ds)"
    and "ba_terminal b \<Longrightarrow> mk_loop_end (if ba_submit b then Submitted else Budget) final' (ba_step_index b) None = Inr out \<Longrightarrow>
           outcome_of_chain lims (cs @ ds) out"
    and "ba_terminal b \<Longrightarrow> \<exists>out. mk_loop_end (if ba_submit b then Submitted else Budget) final' (ba_step_index b) None = Inr out"
proof -
  have len: "length ds \<le> ll_max_steps lims - i" using assms(3) by (simp add: batch_adds_def)
  have "0 < length ds" if "ds \<noteq> []" using that by simp
  then show "i < ba_step_index b" "ba_step_index b \<le> ll_max_steps lims"
    using assms(2,4) len by (auto simp: turn_result_def split: if_splits)
  have all: "ds = butlast ds @ [last ds]" if "ds \<noteq> []" using that by simp
  show "\<not> ba_terminal b \<Longrightarrow> open_chain (ba_step_index b) final' (cs @ ds)"
  proof (cases "ds = []")
    case True
    then show ?thesis using assms by (auto simp: turn_result_def open_chain_def)
  next
    case False
    assume "\<not> ba_terminal b"
    then have "\<forall>c \<in> set ds. \<not> terminal_entry c"
      using assms(3,4) False all [OF False]
      by (metis batch_adds_def turn_result_def Un_iff empty_iff empty_set insert_iff list.simps(15) set_append)
    then show ?thesis using assms False by (auto simp: turn_result_def open_chain_def)
  qed
  show "ba_terminal b \<Longrightarrow> mk_loop_end (if ba_submit b then Submitted else Budget) final' (ba_step_index b) None = Inr out \<Longrightarrow>
           outcome_of_chain lims (cs @ ds) out"
    using assms len
    by (auto simp: turn_result_def open_chain_def mk_loop_end_def outcome_of_chain_def split: if_splits)
  show "ba_terminal b \<Longrightarrow> \<exists>out. mk_loop_end (if ba_submit b then Submitted else Budget) final' (ba_step_index b) None = Inr out"
    using assms(4) by (auto simp: turn_result_def mk_loop_end_def split: if_splits)
qed

lemma turn_chain_ok:
  assumes "open_chain i final cs" "i < ll_max_steps lims" "batch_adds lims i ds"
  shows "chain_ok lims (cs @ ds)"
proof -
  have "\<not> terminal_entry c" if "c \<in> set (butlast (cs @ ds))" for c
    using that assms by (auto simp: butlast_append batch_adds_def open_chain_def
        dest: in_set_butlastD split: if_splits)
  then show ?thesis using assms by (auto simp: chain_ok_def batch_adds_def open_chain_def)
qed

lemma lift_err_cases:
  assumes "lift_err g m s = (r, s')"
  obtains (ok) x where "m s = (Inr x, s')" "r = Inr x" | (err) e where "m s = (Inl e, s')" "r = Inl (g e)"
  using assms by (cases "fst (m s)") (auto simp: lift_err_def catch_def raise_def split: prod.splits sum.splits)

definition loop_post :: "(rexc \<Rightarrow> bool) \<Rightarrow> loop_limits \<Rightarrow> chain_step list \<Rightarrow> loop_error + loop_outcome \<Rightarrow> bool" where
  "loop_post H lims cs r \<longleftrightarrow> chain_ok lims cs \<and> r \<noteq> Inl OutOfFuel \<and>
     (\<forall>x. r = Inl (Raised x) \<longrightarrow> H x) \<and>
     (\<forall>out. r = Inr out \<longrightarrow> outcome_of_chain lims cs out)"

lemma loop_post_end:
  assumes "open_chain i final cs" "i \<le> ll_max_steps lims" "e = StepCap \<and> m = None \<or> e = GaveUp \<and> m \<noteq> None"
    and "finish_loop (mk_loop_end e final i m) s = (r, s')" "ep_chain s = cs"
  shows "loop_post H lims (ep_chain s') r"
proof -
  obtain out where out: "mk_loop_end e final i m = Inr out"
    using open_chain_ends(2) [OF assms(1-3)] by blast
  from open_chain_ends(1) [OF assms(1-3) out] open_chain_ok [OF assms(1,2)] assms(4,5) out
  show ?thesis by (auto simp: finish_loop_def ret_def loop_post_def)
qed

lemma turn_post:
  assumes o1: "open_chain i final (ep_chain s)" and lt: "i < ll_max_steps lims"
    and k: "\<And>now b f s2 r s'. open_chain (ba_step_index b) f (ep_chain s2) \<Longrightarrow>
      ba_step_index b \<le> ll_max_steps lims \<Longrightarrow> i < ba_step_index b \<Longrightarrow> k now b f s2 = (r, s') \<Longrightarrow>
      loop_post H lims (ep_chain s') r"
    and run: "seq (lift_err Raised (run_turn ee scrub lims ad i final actions)) (\<lambda>(b, f).
      seq (lift_err Raised (read_clock ee)) (\<lambda>now.
        (if ba_terminal b then finish_loop (mk_loop_end (if ba_submit b then Submitted else Budget) f (ba_step_index b) None)
         else k now b f))) s = (r, s')"
    and raised: "\<And>i final as. raises H (run_turn ee scrub lims ad i final as)"
  shows "loop_post H lims (ep_chain s') r"
proof -
  obtain r1 s1 where t: "run_turn ee scrub lims ad i final actions s = (r1, s1)" by fastforce
  from run_turn_chain [OF t lt] obtain cs where cs: "ep_chain s1 = ep_chain s @ cs"
    "batch_adds lims i cs" and res: "\<And>b f. r1 = Inr (b, f) \<Longrightarrow> turn_result i final cs b f" by auto
  have ok: "chain_ok lims (ep_chain s1)" using turn_chain_ok [OF o1 lt cs(2)] cs(1) by simp
  show ?thesis
  proof (cases r1)
    case (Inl e)
    then have "H e" using raises_run [OF raised t [unfolded Inl]] by simp
    then show ?thesis using run t ok Inl
      by (auto simp: seq_def lift_err_def catch_def raise_def loop_post_def)
  next
    case (Inr bf)
    obtain b f where bf: "bf = (b, f)" by fastforce
    note x = turn_extends [OF o1 lt cs(2) res [OF Inr [unfolded bf]]]
    have go: "(if ba_terminal b then finish_loop (mk_loop_end (if ba_submit b then Submitted else Budget) f (ba_step_index b) None)
         else k (ee_now ee (ep_env s1)) b f) s1 = (r, s')"
      using run t Inr bf by (simp add: seq_def lift_err_def catch_def read_clock_def)
    show ?thesis
    proof (cases "ba_terminal b")
      case True
      then show ?thesis using go x(4,5) cs(1) ok
        by (fastforce simp: finish_loop_def ret_def loop_post_def)
    next
      case False
      with x(3) cs(1) have "open_chain (ba_step_index b) f (ep_chain s1)" by simp
      with k x(1,2) go False show ?thesis by simp
    qed
  qed
qed

lemma task_loop_post:
  assumes "open_chain i final (ep_chain s)" and "i \<le> ll_max_steps lims"
    and "ll_max_steps lims - i \<le> fuel"
    and "task_loop ee scrub lims ad fuel sd i final s = (r, s')"
    and decides: "\<And>d d'. raises H (decide_actions ee lims d d')"
    and turns: "\<And>i final as. raises H (run_turn ee scrub lims ad i final as)"
  shows "loop_post H lims (ep_chain s') r"
  using assms(1-4)
proof (induction fuel arbitrary: i final s sd r s')
  case 0
  then have "finish_loop (mk_loop_end StepCap final i None) s = (r, s')" by (simp add: task_loop.simps)
  from loop_post_end [OF 0(1,2) _ this refl] show ?case by simp
next
  case (Suc n)
  note unf = Suc.prems(4) [unfolded task_loop.simps [of _ _ _ _ "Suc n"]]
  show ?case
  proof (cases "i \<ge> ll_max_steps lims")
    case True
    then have "finish_loop (mk_loop_end StepCap final i None) s = (r, s')" using unf by simp
    from loop_post_end [OF Suc.prems(1,2) _ this refl] show ?thesis by simp
  next
    case False
    then have lt: "i < ll_max_steps lims" by simp
    obtain r1 s1 where d: "decide_actions ee lims ad sd s = (r1, s1)" by fastforce
    have o1: "open_chain i final (ep_chain s1)" using Suc.prems(1) quiet_steps(6) [OF d] by simp
    note ok = open_chain_ok [OF o1 Suc.prems(2)]
    show ?thesis
    proof (cases r1)
      case (Inl e)
      then have "H e" using raises_run [OF decides d [unfolded Inl]] by simp
      then show ?thesis using unf d lt ok Inl
        by (auto simp: seq_def lift_err_def catch_def raise_def loop_post_def)
    next
      case (Inr dc)
      show ?thesis
      proof (cases dc)
        case (GiveUp m)
        then have "finish_loop (mk_loop_end GaveUp final i (Some m)) s1 = (r, s')"
          using unf d Inr lt by (simp add: seq_def lift_err_def catch_def)
        from loop_post_end [OF o1 Suc.prems(2) _ this refl] show ?thesis by simp
      next
        case (Actions actions)
        let ?k = "\<lambda>now b f. task_loop ee scrub lims ad n
            (if actions \<noteq> [] then now + ll_stall_timeout_sec lims else sd) (ba_step_index b) f"
        show ?thesis
        proof (rule turn_post [OF o1 lt _ _ turns, where k = ?k])
          fix now f s2 r s' and b :: "'b batch"
          assume "open_chain (ba_step_index b) f (ep_chain s2)" "ba_step_index b \<le> ll_max_steps lims"
            "i < ba_step_index b" "?k now b f s2 = (r, s')"
          then show "loop_post H lims (ep_chain s') r"
            using Suc.prems(3) by (intro Suc.IH [of "ba_step_index b" f s2]) auto
        next
          show "seq (lift_err Raised (run_turn ee scrub lims ad i final actions)) (\<lambda>(b, f).
            seq (lift_err Raised (read_clock ee)) (\<lambda>now.
              (if ba_terminal b then finish_loop (mk_loop_end (if ba_submit b then Submitted else Budget) f (ba_step_index b) None)
               else ?k now b f))) s1 = (r, s')"
            using unf d Inr Actions lt by (simp add: seq_def lift_err_def catch_def)
        qed
      qed
    qed
  qed
qed

section \<open>What escapes the loop\<close>

text \<open>
  The contract of the collaborators: an executor raises only what \<open>execute_env_action\<close> lets
  through or an execution drift, and no frozen framework code failed under the policy.
\<close>

definition executor_exc :: "rexc \<Rightarrow> bool" where
  "executor_exc x \<longleftrightarrow> x = BareTimeout \<or> (\<exists>m. x = FrameworkEnvError m) \<or> (\<exists>m. x = UnscorableInfraError m) \<or>
     (\<exists>c. x = StepExecutionError c) \<or> (\<exists>i m. x = ExecutionDriftError i m)"

definition policy_exc :: "rexc \<Rightarrow> bool" where
  "policy_exc x \<longleftrightarrow> (\<forall>c. x \<noteq> FrameworkError c)"

definition honours_contract :: "('s, 'a) episode_env \<Rightarrow> bool" where
  "honours_contract ee \<longleftrightarrow>
     (\<forall>d e x. fst (ee_prepare_submit ee d e) = Completed (Inl x) \<longrightarrow> executor_exc x) \<and>
     (\<forall>d e x. fst (ee_step_verify ee d e) = Completed (Inl x) \<longrightarrow> executor_exc x) \<and>
     (\<forall>d a e x. fst (ee_step_run ee d a e) = Completed (Inl x) \<longrightarrow> executor_exc x) \<and>
     (\<forall>o' t e x. fst (ee_policy_reset ee o' t e) = Inl x \<longrightarrow> policy_exc x) \<and>
     (\<forall>d t e x. fst (ee_act ee d t e) = Completed (Inl x) \<longrightarrow> policy_exc x) \<and>
     (\<forall>a e x. ee_action_name ee a e = Inl x \<longrightarrow> policy_exc x) \<and>
     (\<forall>a e x. ee_render ee a e = Inl x \<longrightarrow> policy_exc x) \<and>
     (\<forall>a r t e x. fst (ee_observe ee a r t e) = Inl x \<longrightarrow> policy_exc x)"

definition handled :: "rexc \<Rightarrow> bool" where
  "handled x \<longleftrightarrow> (\<exists>out. loop_failure x = Inr out) \<or> (\<exists>i m. x = ExecutionDriftError i m)"

lemma handled_wraps: "policy_exc x \<Longrightarrow> handled (policy_wrap x)" "handled (env_wrap x)"
  by (cases x; auto simp: handled_def policy_exc_def)+

lemma handled_executor: "executor_exc x \<Longrightarrow> x \<noteq> BareTimeout \<Longrightarrow> handled x"
  by (auto simp: executor_exc_def handled_def)

lemma settle_step_handled:
  "settle_step r = Inl x \<Longrightarrow> (\<And>y. r = Completed (Inl y) \<Longrightarrow> executor_exc y) \<Longrightarrow> handled x"
  by (auto simp: settle_step_def handled_def executor_exc_def split: awaited.splits sum.splits rexc.splits)

text \<open>Each operation raises only exceptions the \<open>except\<close> clauses name, or an execution drift.\<close>

lemma setup_handled: "raises handled (setup_env ee)"
  by (auto simp: raises_def setup_env_def handled_wraps(2) split: prod.splits awaited.splits sum.splits)
    (simp add: handled_def)

lemma policy_reset_handled:
  assumes contract: "honours_contract ee"
  shows "raises handled (policy_reset ee out)"
proof -
  have "policy_exc x" if "ee_policy_reset ee out t e = (Inl x, t', e')" for t e x t' e'
    using contract that unfolding honours_contract_def by (metis fst_conv)
  then show ?thesis
    by (auto simp: raises_def policy_reset_def handled_wraps(1) split: prod.splits sum.splits)
qed

lemma decide_handled:
  assumes contract: "honours_contract ee"
  shows "raises handled (decide_actions ee lims d d')"
proof -
  have "policy_exc x" if "ee_act ee t u e = (Completed (Inl x), t', e')" for t u e x t' e'
    using contract that unfolding honours_contract_def by (metis fst_conv)
  note p = handled_wraps(1) [OF this]
  have "handled TaskTimeout" "handled (StallTimeout m)" for m by (simp_all add: handled_def)
  with p show ?thesis
    unfolding raises_def decide_actions_def
    by (fastforce split: prod.splits sum.splits awaited.splits rexc.splits if_splits)
qed

lemma submit_handled:
  assumes contract: "honours_contract ee"
  shows "raises handled (submit_step ee lims d)"
proof -
  have v: "executor_exc y" if "ee_step_verify ee t e = (Completed (Inl y), e')" for t e e' y
    using contract that unfolding honours_contract_def by (metis fst_conv)
  have p: "executor_exc y" if "ee_prepare_submit ee t e = (Completed (Inl y), e')" for t e e' y
    using contract that unfolding honours_contract_def by (metis fst_conv)
  have h: "handled (EnvBoundaryError x)" "handled TaskTimeout" for x by (simp_all add: handled_def)
  show ?thesis
    unfolding raises_def submit_step_def
    by (auto split: prod.splits sum.splits awaited.splits option.splits if_splits
        dest: p handled_executor simp: h intro: settle_step_handled v)
qed

lemma run_step_handled:
  assumes contract: "honours_contract ee"
  shows "raises handled (run_step ee d act)"
proof -
  have "executor_exc y" if "ee_step_run ee t a e = (Completed (Inl y), e')" for t a e e' y
    using contract that unfolding honours_contract_def by (metis fst_conv)
  then show ?thesis
    by (auto simp: raises_def run_step_def intro: settle_step_handled split: prod.splits)
qed

lemma pure_steps_handled:
  assumes contract: "honours_contract ee"
  shows "raises handled (render_action ee a n)"
    "raises handled (\<lambda>s. (case ee_action_name ee a (ep_env s) of
     Inl x \<Rightarrow> Inl (policy_wrap x) | Inr name \<Rightarrow> Inr name, s))"
proof -
  have "policy_exc x" if "ee_render ee a e = Inl x" for e x
    using contract that unfolding honours_contract_def by blast
  moreover have "handled (PolicyBoundaryError x)" for x by (simp add: handled_def)
  ultimately show "raises handled (render_action ee a n)"
    by (auto simp: raises_def render_action_def handled_wraps(1) split: sum.splits rendered.splits)
  have "policy_exc x" if "ee_action_name ee a e = Inl x" for e x
    using contract that unfolding honours_contract_def by blast
  then show "raises handled (\<lambda>s. (case ee_action_name ee a (ep_env s) of
     Inl x \<Rightarrow> Inl (policy_wrap x) | Inr name \<Rightarrow> Inr name, s))"
    by (auto simp: raises_def handled_wraps(1) split: sum.splits)
qed

lemma observe_handled:
  assumes contract: "honours_contract ee"
  shows "raises handled (observe_one ee i j a r)"
proof -
  have "policy_exc x" if "ee_observe ee b u t e = (Inl x, t', e')" for b u t e x t' e'
    using contract that unfolding honours_contract_def by (metis fst_conv)
  then show ?thesis
    by (auto simp: raises_def observe_one_def handled_wraps(1) split: prod.splits sum.splits)
qed

lemma bookkeeping_handled:
  "raises handled (record_step scrub act rt)" "raises handled (note_no_action i)"
  "raises handled (read_clock ee)"
  by (simp_all add: raises_def record_step_def note_no_action_def read_clock_def Let_def)

lemmas steps_handled = policy_reset_handled decide_handled submit_handled run_step_handled
  pure_steps_handled observe_handled

lemma perform_handled:
  assumes "honours_contract ee"
  shows "raises handled (perform_action ee scrub lims d a)"
  unfolding perform_action_def
  by (intro raises_intros steps_handled [OF assms])
    (auto intro!: raises_intros bookkeeping_handled steps_handled [OF assms])

lemma run_batch_handled:
  assumes "honours_contract ee"
  shows "raises handled (run_batch ee scrub lims d as b)"
proof (induction as arbitrary: b)
  case Nil
  show ?case by (simp add: raises_ret)
next
  case (Cons a as)
  then show ?case
    by (auto simp: Let_def split: prod.splits intro!: raises_intros perform_handled [OF assms])
qed

lemma observe_all_handled:
  assumes "honours_contract ee"
  shows "raises handled (observe_all ee i j ts final)"
  by (induction ts arbitrary: j final)
    (auto intro!: raises_intros observe_handled [OF assms])

lemma run_turn_handled:
  assumes "honours_contract ee"
  shows "raises handled (run_turn ee scrub lims d i final as)"
  unfolding run_turn_def
  by (intro raises_intros run_batch_handled observe_all_handled bookkeeping_handled assms)

section \<open>The whole loop\<close>

lemma start_loop_post:
  assumes "ll_max_steps lims \<le> fuel" and "ep_chain s = []"
    and "start_loop ee scrub lims fuel s = (r, s')"
    and resets: "\<And>out. raises H (policy_reset ee out)" and setup_ok: "raises H (setup_env ee)"
    and decides: "\<And>d d'. raises H (decide_actions ee lims d d')"
    and turns: "\<And>ad i final as. raises H (run_turn ee scrub lims ad i final as)"
  shows "loop_post H lims (ep_chain s') r"
proof -
  obtain r1 s1 where a: "setup_env ee s = (r1, s1)" by fastforce
  have c1: "ep_chain s1 = []" using quiet_steps(7) [OF a] assms(2) by simp
  have empty: "chain_ok lims []" "open_chain 0 None []" by (simp_all add: chain_ok_def open_chain_def)
  show ?thesis
  proof (cases r1)
    case (Inl e)
    with raises_run [OF setup_ok] a have "H e" by blast
    with Inl a assms(3) c1 empty show ?thesis
      by (auto simp: start_loop_def act_simps loop_post_def)
  next
    case (Inr out)
    obtain r2 s2 where b: "policy_reset ee out s1 = (r2, s2)" by fastforce
    have c2: "ep_chain s2 = []" using quiet_steps(8) [OF b] c1 by simp
    show ?thesis
    proof (cases r2)
      case (Inl e)
      with raises_run [OF resets] b have "H e" by blast
      with Inl Inr a b assms(3) c2 empty show ?thesis
        by (auto simp: start_loop_def act_simps loop_post_def)
    next
      case ok: (Inr u)
      let ?now = "ee_now ee (ep_env s2)"
      have "task_loop ee scrub lims (?now + ll_agent_timeout_sec lims) fuel
          (?now + ll_stall_timeout_sec lims) 0 None s2 = (r, s')"
        using assms(3) a b Inr ok by (simp add: start_loop_def act_simps read_clock_def)
      then show ?thesis
        by (rule task_loop_post [rotated 3, OF _ decides turns])
          (use c2 empty assms(1) in simp_all)
    qed
  qed
qed

definition failed_outcome :: "loop_outcome \<Rightarrow> bool" where
  "failed_outcome out \<longleftrightarrow> lo_final out = None \<and> lo_steps_taken out = None \<and>
     lo_end out \<in> {SetupTimedOut, TaskTimedOut, StallTimedOut, UnscorableEnd, CrashEnd} \<and>
     (lo_end out = CrashEnd \<longleftrightarrow> lo_origin out \<noteq> None)"

lemma loop_failure_failed: "loop_failure x = Inr out \<Longrightarrow> failed_outcome out"
  by (cases x) (auto simp: failed_outcome_def failure_end_def)

lemma run_task_loop_cases:
  assumes "run_task_loop ee scrub lims fuel s = (r, s')"
  obtains (ok) out where "start_loop ee scrub lims fuel s = (Inr out, s')" "r = Inr out"
    | (fuel) "start_loop ee scrub lims fuel s = (Inl OutOfFuel, s')"
    | (raised) x where "start_loop ee scrub lims fuel s = (Inl (Raised x), s')"
        "r = (case loop_failure x of Inl y \<Rightarrow> Inl (Raised y) | Inr out \<Rightarrow> Inr out)"
  using assms
  by (cases "start_loop ee scrub lims fuel s")
    (auto simp: run_task_loop_def catch_def finish_loop_def raise_def ret_def
      split: prod.splits sum.splits loop_error.splits)

lemma episode_ends_post:
  assumes "ll_max_steps lims \<le> fuel" and "ep_chain s = []"
    and "run_task_loop ee scrub lims fuel s = (r, s')"
  shows "r \<noteq> Inl OutOfFuel \<and> chain_ok lims (ep_chain s') \<and>
    (\<forall>out. r = Inr out \<longrightarrow> outcome_of_chain lims (ep_chain s') out \<or> failed_outcome out)"
proof -
  have any: "raises (\<lambda>_. True) m" for m :: "('w, 'e, 'x) act" by (simp add: raises_def)
  note post = start_loop_post [where H = "\<lambda>_. True", OF assms(1,2) _ any any any any]
  from assms(3) show ?thesis
    by (cases rule: run_task_loop_cases)
      (auto dest!: post simp: loop_post_def loop_failure_failed split: sum.splits)
qed

section \<open>A concrete episode\<close>

text \<open>A policy that runs one command and submits, in a task the grader accepts; \<open>run\<close> is what
  the executor makes of the command.\<close>

definition sample_verdict :: verify_verdict where
  "sample_verdict = \<lparr>vv_completed = True, vv_passed = Some True, vv_error = None\<rparr>"

definition sample_grade :: step_result where
  "sample_grade = (plain_step empty_output)\<lparr>sp_reward := 1, sp_terminated := True,
     sp_verdict := Some sample_verdict\<rparr>"

definition sample_episode_env :: "(rexc + step_result) \<Rightarrow> (unit, string) episode_env" where
  "sample_episode_env run =
     \<lparr>ee_reset = (\<lambda>e. (Completed (Inr empty_output), e)),
      ee_policy_reset = (\<lambda>out t e. (Inr (), t, e)),
      ee_now = (\<lambda>e. 0),
      ee_act = (\<lambda>d t e. (Completed (Inr [''run'', ''submit'']), t, e)),
      ee_action_name = (\<lambda>a e. Inr a),
      ee_render = (\<lambda>a e. Inr (Rendered \<lparr>ra_command = ''ls'', ra_cwd = None, ra_timeout_sec = None\<rparr>)),
      ee_prepare_submit = (\<lambda>d e. (Completed (Inr None), e)),
      ee_step_verify = (\<lambda>d e. (Completed (Inr sample_grade), e)),
      ee_step_run = (\<lambda>d a e. (Completed run, e)),
      ee_observe = (\<lambda>a r t e. (Inr (), t, e))\<rparr>"

definition sample_limits :: loop_limits where
  "sample_limits = \<lparr>ll_max_steps = 3, ll_agent_timeout_sec = 60, ll_stall_timeout_sec = 60,
     ll_verify_timeout_sec = 60\<rparr>"

definition sample_episode :: "unit episode" where
  "sample_episode = \<lparr>ep_env = (), ep_tel = fresh_telemetry, ep_chain = []\<rparr>"

lemmas episode_run_simps = run_task_loop_def start_loop_def act_simps setup_env_def policy_reset_def
  read_clock_def task_loop.simps [of _ _ _ _ "numeral k" for k] decide_actions_def run_turn_def
  run_batch.simps perform_action_def submit_step_def render_action_def run_step_def record_step_def
  settle_step_def observe_all.simps observe_one_def finish_loop_def mk_loop_end_def is_terminal_def
  SUBMIT_ACTION_NAME_def sample_episode_env_def sample_limits_def sample_episode_def sample_grade_def
  sample_verdict_def plain_step_def empty_output_def scrub_step_result_def scrub_raw_env_output_def
  Let_def

text \<open>
  C13. An episode ends: given as much fuel as the step budget, the loop always comes to a result
  or an exception of the code, whatever the policy and the environment do. The recorded chain is
  no longer than the step budget and only its last entry is terminal, and the outcome is the one
  this chain dictates (submitted exactly when the terminal entry was the grader's, budget exactly
  when it was an ordinary action, the final transition being the last entry), or a failure that
  keeps no partial progress and names an origin exactly when it is a crash.
\<close>

theorem episode_ends:
  assumes "ll_max_steps lims \<le> fuel" and "ep_chain s = []"
    and "run_task_loop ee scrub lims fuel s = (r, s')"
  shows "r \<noteq> Inl OutOfFuel \<and> chain_ok lims (ep_chain s') \<and>
    (\<forall>out. r = Inr out \<longrightarrow> outcome_of_chain lims (ep_chain s') out \<or> failed_outcome out)"
  using assms by (rule episode_ends_post)

definition sample_solved_episode :: "(loop_error + loop_outcome) \<times> unit episode" where
  "sample_solved_episode =
     run_task_loop (sample_episode_env (Inr (plain_step empty_output))) (\<lambda>_ t. t) sample_limits 3 sample_episode"

theorem episode_ends_witness:
  "chain_ok sample_limits (ep_chain (snd sample_solved_episode)) \<and>
   length (ep_chain (snd sample_solved_episode)) = 2 \<and>
   (\<exists>out. fst sample_solved_episode = Inr out \<and> lo_end out = Submitted \<and>
      outcome_of_chain sample_limits (ep_chain (snd sample_solved_episode)) out)"
proof -
  let ?ee = "sample_episode_env (Inr (plain_step empty_output))"
  obtain r s where run: "run_task_loop ?ee (\<lambda>_ t. t) sample_limits 3 sample_episode = (r, s)" by fastforce
  have "ll_max_steps sample_limits \<le> 3" "ep_chain sample_episode = []"
    by (simp_all add: sample_limits_def sample_episode_def)
  note ends = episode_ends [OF this run]
  have res: "length (ep_chain s) = 2 \<and> (\<exists>out. r = Inr out \<and> lo_end out = Submitted)"
    using run by (auto simp: episode_run_simps)
  then obtain out where "r = Inr out" "lo_end out = Submitted" by blast
  with ends res run show ?thesis by (auto simp: sample_solved_episode_def failed_outcome_def)
qed

lemma handled_loop_failure: "handled x \<Longrightarrow> loop_failure x = Inl y \<Longrightarrow> \<exists>i m. y = ExecutionDriftError i m"
  by (auto simp: handled_def)

lemma only_drift_post:
  assumes "honours_contract ee" and "ll_max_steps lims \<le> fuel" and "ep_chain s = []"
    and "run_task_loop ee scrub lims fuel s = (Inl e, s')"
  shows "\<exists>i m. e = Raised (ExecutionDriftError i m)"
proof -
  note post = start_loop_post [where H = handled, OF assms(2,3) _ policy_reset_handled [OF assms(1)]
    setup_handled decide_handled [OF assms(1)] run_turn_handled [OF assms(1)]]
  from assms(4) show ?thesis
    by (cases rule: run_task_loop_cases)
      (auto dest!: post handled_loop_failure simp: loop_post_def split: sum.splits)
qed

text \<open>
  C14. Only drift escapes: when the executor raises only what \<open>execute_env_action\<close> lets through or
  a drift, and no frozen framework code failed under the policy, every exception that leaves the
  loop is an execution drift; every other one has become an outcome.
\<close>

theorem only_drift_escapes:
  assumes "honours_contract ee" and "ll_max_steps lims \<le> fuel" and "ep_chain s = []"
    and "run_task_loop ee scrub lims fuel s = (Inl e, s')"
  shows "\<exists>i m. e = Raised (ExecutionDriftError i m)"
  using assms by (rule only_drift_post)

theorem only_drift_escapes_witness:
  "\<exists>i m. fst (run_task_loop (sample_episode_env (Inl (ExecutionDriftError 0 ''drift''))) (\<lambda>_ t. t)
     sample_limits 3 sample_episode) = Inl (Raised (ExecutionDriftError i m))"
proof -
  let ?ee = "sample_episode_env (Inl (ExecutionDriftError 0 ''drift''))"
  obtain r s where run: "run_task_loop ?ee (\<lambda>_ t. t) sample_limits 3 sample_episode = (r, s)" by fastforce
  have h: "honours_contract ?ee"
    by (auto simp: honours_contract_def sample_episode_env_def executor_exc_def)
  have "ll_max_steps sample_limits \<le> 3" "ep_chain sample_episode = []"
    by (simp_all add: sample_limits_def sample_episode_def)
  note only = only_drift_escapes [OF h this]
  obtain e where "r = Inl e" using run by (auto simp: episode_run_simps)
  with only run show ?thesis by auto
qed

end
