(* ===== verification/Measurement.thy ===== *)
theory Measurement
  imports Replay Store Config Episode
begin

text \<open>
  \<open>src/measurement.py\<close> and \<open>src/worker.py\<close>: an experiment runs in a process of its own, whose code the
  candidate may edit. The worker sends JSON events through a pipe; the parent forwards them, watches
  for silence, reaps the worker and decides whether the stored record is a result. What the parent
  sees of the pipe and the clock is a script: one entry for each turn of its loops that found the
  process alive, then what is left in the pipe, then the exit code.
\<close>

section \<open>Events\<close>

datatype observed =
    ObsHeartbeat
  | ObsStarted string
  | ObsTask string string
  | ObsLog string

text \<open>\<open>_PipeObserver\<close>.\<close>

fun event_json :: "observed \<Rightarrow> json" where
  "event_json ObsHeartbeat = JObj [(''event'', JStr ''heartbeat'')]"
| "event_json (ObsStarted experiment_id) = JArr [JStr ''started'', JStr experiment_id]"
| "event_json (ObsTask task_id failure_mode) = JArr [JStr ''task'', JStr task_id, JStr failure_mode]"
| "event_json (ObsLog line) = JArr [JStr ''log'', JStr line]"

definition send_event :: "(rat \<Rightarrow> string) \<Rightarrow> observed \<Rightarrow> string" where
  "send_event fr ev = dumps fr (event_json ev)"

text \<open>The \<open>match\<close> of \<open>forward_event\<close>.\<close>

fun event_of :: "json \<Rightarrow> observed option" where
  "event_of (JObj ms) = (if map_of ms ''event'' = Some (JStr ''heartbeat'') then Some ObsHeartbeat else None)"
| "event_of (JArr [JStr tag, JStr payload]) =
     (if tag = ''started'' then Some (ObsStarted payload)
      else if tag = ''log'' then Some (ObsLog payload) else None)"
| "event_of (JArr [JStr tag, JStr task_id, JStr failure_mode]) =
     (if tag = ''task'' then Some (ObsTask task_id failure_mode) else None)"
| "event_of _ = None"

lemma event_of_json [simp]: "event_of (event_json ev) = Some ev"
  by (cases ev) simp_all

section \<open>The parent's loops\<close>

record supervisor =
  su_reported :: "string option"
  su_recent :: "string list"
  su_last_activity :: rat
  su_seen :: "observed list"

definition RECENT_LIMIT :: nat where "RECENT_LIMIT = 40"

definition remember :: "string \<Rightarrow> supervisor \<Rightarrow> supervisor" where
  "remember line s = s\<lparr>su_recent := take_last RECENT_LIMIT (su_recent s @ [line])\<rparr>"

definition observe :: "observed \<Rightarrow> supervisor \<Rightarrow> supervisor" where
  "observe ev s =
     (let s' = s\<lparr>su_seen := su_seen s @ [ev]\<rparr>
      in case ev of
           ObsHeartbeat \<Rightarrow> s'
         | ObsStarted i \<Rightarrow> (remember i s')\<lparr>su_reported := Some i\<rparr>
         | ObsTask t m \<Rightarrow> remember (t @ '': '' @ m) s'
         | ObsLog l \<Rightarrow> remember l s')"

text \<open>\<open>loads\<close> is \<open>json.loads\<close>.\<close>

definition forward_event :: "(string \<Rightarrow> string + json) \<Rightarrow> string \<Rightarrow> supervisor \<Rightarrow> exc + supervisor" where
  "forward_event loads data s =
     (case loads data of
        Inl m \<Rightarrow> Inl (OtherError ''JSONDecodeError'' m)
      | Inr v \<Rightarrow>
          (case event_of v of
             None \<Rightarrow> Inl (ValueError ''invalid measurement event'')
           | Some ev \<Rightarrow> Inr (observe ev s)))"

datatype pipe_poll =
    Data string
  | PipeClosed
  | Silence
  | CtrlC

definition WATCHDOG_INACTIVITY_SEC :: rat where
  "WATCHDOG_INACTIVITY_SEC = 1800"

datatype loop_end =
    LoopDone bool supervisor
  | LoopRaised exc supervisor
  | LoopInterrupted supervisor

fun watch :: "(string \<Rightarrow> string + json) \<Rightarrow> (pipe_poll \<times> rat) list \<Rightarrow> supervisor \<Rightarrow> loop_end" where
  "watch loads [] s = LoopDone False s"
| "watch loads ((p, now) # rounds) s =
     (case p of
        Data data \<Rightarrow>
          (case forward_event loads data s of
             Inl e \<Rightarrow> LoopRaised e s
           | Inr s' \<Rightarrow> watch loads rounds (s'\<lparr>su_last_activity := now\<rparr>))
      | PipeClosed \<Rightarrow> LoopDone False s
      | Silence \<Rightarrow>
          (if WATCHDOG_INACTIVITY_SEC < now - su_last_activity s then LoopDone True s
           else watch loads rounds s)
      | CtrlC \<Rightarrow> LoopInterrupted s)"

fun drain :: "(string \<Rightarrow> string + json) \<Rightarrow> bool \<Rightarrow> pipe_poll list \<Rightarrow> supervisor \<Rightarrow> loop_end" where
  "drain loads killed [] s = LoopDone killed s"
| "drain loads killed (p # ps) s =
     (case p of
        Data data \<Rightarrow>
          (case forward_event loads data s of
             Inl e \<Rightarrow> LoopRaised e s
           | Inr s' \<Rightarrow> drain loads killed ps s')
      | PipeClosed \<Rightarrow> LoopDone killed s
      | Silence \<Rightarrow> LoopDone killed s
      | CtrlC \<Rightarrow> LoopInterrupted s)"

definition supervise ::
    "(string \<Rightarrow> string + json) \<Rightarrow> (pipe_poll \<times> rat) list \<Rightarrow> pipe_poll list \<Rightarrow> supervisor \<Rightarrow> loop_end" where
  "supervise loads rounds rest s =
     (case watch loads rounds s of
        LoopDone killed s' \<Rightarrow> drain loads killed rest s'
      | x \<Rightarrow> x)"

section \<open>The result of a measurement\<close>

datatype measurement_exc =
    MeasurementError string "experiment_result option"
  | PanelMismatch string
  | SupervisionError exc
  | SupervisionInterrupted

text \<open>A run of the worker: what the parent polls, the exit code, the records it leaves, the time.\<close>

record worker_run =
  wk_spawn :: "exc option"
  wk_rounds :: "(pipe_poll \<times> rat) list"
  wk_rest :: "pipe_poll list"
  wk_exitcode :: int
  wk_store :: run_store
  wk_now :: nat

definition load_crashed_result ::
    "worker_run \<Rightarrow> string option \<Rightarrow> string \<Rightarrow> supervisor \<Rightarrow> experiment_result option \<times> run_store \<times> supervisor" where
  "load_crashed_result wk experiment_id reason s =
     (case experiment_id of
        None \<Rightarrow> (None, wk_store wk, s)
      | Some i \<Rightarrow>
          (case mark_crashed (wk_store wk) i reason (wk_now wk) of
             Inr (st, e) \<Rightarrow> (Some e, st, s)
           | Inl x \<Rightarrow> (None, wk_store wk,
               s\<lparr>su_seen := su_seen s @ [ObsLog (''measurement: could not finalize '' @ i @ '' crashed: '' @ exc_detail x)]\<rparr>)))"

definition crash_out ::
    "worker_run \<Rightarrow> string option \<Rightarrow> string \<Rightarrow> supervisor \<Rightarrow> (measurement_exc + experiment_result) \<times> run_store \<times> supervisor" where
  "crash_out wk experiment_id message s =
     (case load_crashed_result wk experiment_id message s of
        (r, st, s') \<Rightarrow> (Inl (MeasurementError message r), st, s'))"

definition failed_message :: "bool \<Rightarrow> int \<Rightarrow> string list \<Rightarrow> string" where
  "failed_message killed exitcode recent =
     (if killed then ''measurement process killed by watchdog after '' @ fmt0 WATCHDOG_INACTIVITY_SEC @
                     ''s with no output (wedged):''
      else ''measurement process failed (exitcode='' @ int_str exitcode @ ''):'') @ nl # join_nl recent"

definition start_supervisor :: "rat \<Rightarrow> supervisor" where
  "start_supervisor now = \<lparr>su_reported = None, su_recent = [], su_last_activity = now, su_seen = []\<rparr>"

definition judge_worker ::
    "string list \<Rightarrow> worker_run \<Rightarrow> bool \<Rightarrow> supervisor \<Rightarrow> (measurement_exc + experiment_result) \<times> run_store \<times> supervisor" where
  "judge_worker task_ids wk killed s =
     (if killed \<or> wk_exitcode wk \<noteq> 0
      then crash_out wk (su_reported s) (failed_message killed (wk_exitcode wk) (su_recent s)) s
      else case su_reported s of
        None \<Rightarrow> (Inl (MeasurementError (''measurement process did not report an experiment id:'' @ nl # join_nl (su_recent s)) None),
                 wk_store wk, s)
      | Some i \<Rightarrow>
          (case load_experiment (wk_store wk) i of
             Inl e \<Rightarrow> (Inl (SupervisionError e), wk_store wk, s)
           | Inr result \<Rightarrow>
               (if ex_finished_at result = None
                then crash_out wk (Some i) (''experiment '' @ i @ '' did not complete: still running'') s
                else case ex_crash_reason result of
                  Some why \<Rightarrow> (Inl (MeasurementError (''experiment '' @ i @ '' did not complete: crashed: '' @ why) (Some result)),
                               wk_store wk, s)
                | None \<Rightarrow>
                    (if set (map fst (ex_tasks result)) \<noteq> set task_ids
                     then (Inl (PanelMismatch (''experiment '' @ i @ '' ran tasks '' @
                             list_repr (sorted_strs (set (map fst (ex_tasks result)))) @ '' but '' @
                             list_repr (sorted_strs (set task_ids)) @ '' were requested'')), wk_store wk, s)
                     else (Inr result, wk_store wk, s)))))"

definition run_isolated_experiment ::
    "(string \<Rightarrow> string + json) \<Rightarrow> string list \<Rightarrow> rat \<Rightarrow> worker_run \<Rightarrow>
       (measurement_exc + experiment_result) \<times> run_store \<times> supervisor" where
  "run_isolated_experiment loads task_ids now wk =
     (case wk_spawn wk of
        Some e \<Rightarrow> (Inl (SupervisionError e), wk_store wk, start_supervisor now)
      | None \<Rightarrow>
          (case supervise loads (wk_rounds wk) (wk_rest wk) (start_supervisor now) of
             LoopRaised e s \<Rightarrow> (Inl (SupervisionError e), wk_store wk, s)
           | LoopInterrupted s \<Rightarrow> (Inl SupervisionInterrupted, wk_store wk, s)
           | LoopDone killed s \<Rightarrow> judge_worker task_ids wk killed s))"

section \<open>Reaping the worker\<close>

text \<open>\<open>_terminate_experiment_process\<close>: what is sent, in order. Each wait either sees the exit, times out or
  is interrupted; \<open>kill\<close> is followed by a wait without a bound.\<close>

datatype reap_step = WaitGrace | SendSigint | KillIt | WaitForever | SweepContainers

definition terminate_experiment_process :: "bool \<Rightarrow> bool \<Rightarrow> bool \<Rightarrow> reap_step list" where
  "terminate_experiment_process exited exits_in_grace exits_on_sigint =
     (if exited then [] else [WaitGrace]) @
     (if exited \<or> exits_in_grace then []
      else [SendSigint, WaitGrace] @ (if exits_on_sigint then [] else [KillIt, WaitForever])) @
     [SweepContainers]"

section \<open>The worker\<close>

text \<open>The command line of the worker carries the panel and the identifier as JSON.\<close>

definition worker_argv ::
    "(rat \<Rightarrow> string) \<Rightarrow> string \<Rightarrow> string \<Rightarrow> string \<Rightarrow> nat \<Rightarrow> string list \<Rightarrow> string option \<Rightarrow> string list" where
  "worker_argv fr executable config_path experiments_root fd task_ids experiment_id =
     [executable, ''-m'', ''src.worker'', config_path, experiments_root, nat_str fd,
      dumps fr (JArr (map JStr task_ids)), dumps fr (opt_json JStr experiment_id)]"

definition read_panel :: "json \<Rightarrow> string list option" where
  "read_panel v =
     (case v of
        JArr xs \<Rightarrow> (if list_all (\<lambda>x. case x of JStr _ \<Rightarrow> True | _ \<Rightarrow> False) xs
                    then Some (map (\<lambda>x. case x of JStr t \<Rightarrow> t | _ \<Rightarrow> []) xs) else None)
      | _ \<Rightarrow> None)"

definition worker_args ::
    "(string \<Rightarrow> string + json) \<Rightarrow> string list \<Rightarrow> (string \<times> string \<times> string list \<times> string option) option" where
  "worker_args loads argv =
     (case drop 3 argv of
        [config_path, experiments_root, _, panel, i] \<Rightarrow>
          (case (loads panel, loads i) of
             (Inr p, Inr j) \<Rightarrow>
               (case (read_panel p, j) of
                  (Some ts, JNull) \<Rightarrow> Some (config_path, experiments_root, ts, None)
                | (Some ts, JStr e) \<Rightarrow> Some (config_path, experiments_root, ts, Some e)
                | _ \<Rightarrow> None)
           | _ \<Rightarrow> None)
      | _ \<Rightarrow> None)"

lemma panel_reaches_worker:
  assumes "loads_inverts k"
  shows "worker_args (rk_loads k) (worker_argv (rk_fr k) exe path exp_root fd task_ids i) = Some (path, exp_root, task_ids, i)"
proof -
  have l: "rk_loads k (dumps (rk_fr k) v) = Inr v" for v
    using assms by (simp add: loads_inverts_def)
  have "map (\<lambda>x. case x of JStr t \<Rightarrow> t | _ \<Rightarrow> []) (map JStr ts) = ts" for ts :: "string list"
    by (induction ts) auto
  then show ?thesis
    by (cases i) (simp_all add: worker_args_def worker_argv_def l read_panel_def opt_json_def list_all_iff del: dumps.simps)
qed

text \<open>\<open>_assert_cache_ready\<close>: a broken store stops the worker before anything is measured. \<open>open_store\<close> is the
  attempt to open the database.\<close>

definition assert_cache_ready :: "bool \<Rightarrow> bool \<Rightarrow> (exc + unit) \<Rightarrow> plugins_config \<Rightarrow> exc + unit" where
  "assert_cache_ready db_env disabled open_store plugins =
     (if \<not> db_env then Inl (AssertionError [])
      else if \<not> (pl_llm_cache plugins \<or> pl_execution plugins = Config.Replay) then Inr ()
      else if disabled then Inr ()
      else open_store)"

text \<open>\<open>_experiment_worker\<close>: the configuration that is run.\<close>

definition worker_config ::
    "(string \<Rightarrow> exc + run_config) \<Rightarrow> bool \<Rightarrow> bool \<Rightarrow> (exc + unit) \<Rightarrow> string \<Rightarrow> string list \<Rightarrow> exc + run_config" where
  "worker_config load db_env disabled open_store config_path task_ids =
     bind_res (load config_path) (\<lambda>c.
     bind_res (assert_cache_ready db_env disabled open_store (rc_plugins c)) (\<lambda>_.
     with_task_panel task_ids c))"

section \<open>Preflight\<close>

text \<open>\<open>smoke\<close> sends the one completion request; \<open>show_completion\<close> prints a completion, \<open>quoted_name\<close> a
  name. The text is \<open>PreflightError\<close>'s.\<close>

definition assert_llm_provider_reachable ::
    "(run_config \<Rightarrow> exc + completion) \<Rightarrow> (completion \<Rightarrow> string) \<Rightarrow> (string \<Rightarrow> string) \<Rightarrow> run_config \<Rightarrow> string + unit" where
  "assert_llm_provider_reachable smoke show_completion quoted_name c =
     (case smoke c of
        Inl e \<Rightarrow> Inl (''rollout LLM provider smoke request failed: '' @ exc_name e @ '': '' @ exc_detail e)
      | Inr completion \<Rightarrow>
          (case (case co_tool_calls completion of
                   [] \<Rightarrow> Inl (OtherError ''IndexError'' ''list index out of range'')
                 | call # _ \<Rightarrow>
                     guard_res (tool_name call = SUBMIT_ACTION_NAME)
                       (ValueError (''expected '' @ SUBMIT_ACTION_NAME @ '' tool call, got '' @ quoted_name (tool_name call)))) of
             Inl e \<Rightarrow> Inl (''rollout LLM provider smoke response did not return a valid submit tool call: '' @
                exc_name e @ '': '' @ exc_detail e @ ''; completion='' @ show_completion completion)
           | Inr _ \<Rightarrow> Inr ()))"

text \<open>\<open>unique.setdefault\<close>: the first configuration of each provider, in order.\<close>

fun unique_providers :: "(run_config \<Rightarrow> string) \<Rightarrow> string list \<Rightarrow> run_config list \<Rightarrow> run_config list" where
  "unique_providers key seen [] = []"
| "unique_providers key seen (c # cs) =
     (if key c \<in> set seen then unique_providers key seen cs
      else c # unique_providers key (key c # seen) cs)"

definition preflight ::
    "(rat \<Rightarrow> string) \<Rightarrow> (exc + unit) \<Rightarrow> (run_config \<Rightarrow> string + unit) \<Rightarrow> run_config list \<Rightarrow> string + unit" where
  "preflight fr ping check configs =
     (case ping of
        Inl _ \<Rightarrow> Inl ''Docker daemon is not reachable -- start Docker/OrbStack''
      | Inr _ \<Rightarrow>
          bind_res (map_res check
            (unique_providers (\<lambda>c. dumps fr (llm_json (rc_llm_provider_config c))) [] configs)) (\<lambda>_. Inr ()))"

text \<open>Each provider is probed once, and a green preflight has probed them all.\<close>

lemma unique_providers_distinct:
  "distinct (map key (unique_providers key seen cs)) \<and> set (map key (unique_providers key seen cs)) = key ` set cs - set seen"
  by (induction cs arbitrary: seen) auto

lemma map_res_Inr_all: "map_res f xs = Inr ys \<Longrightarrow> x \<in> set xs \<Longrightarrow> \<exists>y. f x = Inr y"
  by (induction xs arbitrary: ys) (auto simp: res_simps)

lemma preflight_covers:
  assumes "preflight fr ping check configs = Inr ()" and "c \<in> set configs"
  shows "\<exists>c'. check c' = Inr () \<and>
    dumps fr (llm_json (rc_llm_provider_config c')) = dumps fr (llm_json (rc_llm_provider_config c))"
proof -
  let ?key = "\<lambda>c. dumps fr (llm_json (rc_llm_provider_config c))"
  obtain us where us: "map_res check (unique_providers ?key [] configs) = Inr us"
    using assms(1) by (auto simp: preflight_def res_simps split: sum.splits)
  have "?key c \<in> set (map ?key (unique_providers ?key [] configs))"
    using unique_providers_distinct [of ?key "[]" configs] assms(2) by simp
  then obtain c' where "c' \<in> set (unique_providers ?key [] configs)" "?key c' = ?key c" by auto
  with map_res_Inr_all [OF us] show ?thesis by (metis old.unit.exhaust)
qed

section \<open>Facts\<close>

text \<open>What the worker sent is what the parent observes, in order.\<close>

lemma forward_sent:
  assumes "loads_inverts k"
  shows "forward_event (rk_loads k) (send_event (rk_fr k) ev) s = Inr (observe ev s)"
  using assms by (simp add: forward_event_def send_event_def loads_inverts_def)

definition polls :: "(rat \<Rightarrow> string) \<Rightarrow> (observed \<times> rat) list \<Rightarrow> (pipe_poll \<times> rat) list" where
  "polls fr evs = map (\<lambda>(ev, now). (Data (send_event fr ev), now)) evs"

definition last_started :: "observed list \<Rightarrow> string option \<Rightarrow> string option" where
  "last_started evs i = fold (\<lambda>ev i. case ev of ObsStarted e \<Rightarrow> Some e | _ \<Rightarrow> i) evs i"

lemma observe_seen [simp]: "su_seen (observe ev s) = su_seen s @ [ev]"
  by (cases ev) (simp_all add: observe_def remember_def Let_def)

lemma observe_reported: "su_reported (observe ev s) = last_started [ev] (su_reported s)"
  by (cases ev) (simp_all add: observe_def remember_def last_started_def Let_def)

lemma recent_bounded: "length (su_recent s) \<le> RECENT_LIMIT \<Longrightarrow> length (su_recent (observe ev s)) \<le> RECENT_LIMIT"
  by (cases ev) (auto simp: observe_def remember_def take_last_def Let_def)

lemma watch_sent:
  assumes "loads_inverts k"
  shows "\<exists>s'. watch (rk_loads k) (polls (rk_fr k) evs @ rest) s = watch (rk_loads k) rest s' \<and>
    su_seen s' = su_seen s @ map fst evs \<and> su_reported s' = last_started (map fst evs) (su_reported s)"
proof (induction evs arbitrary: s)
  case Nil
  show ?case by (rule exI [of _ s]) (simp add: polls_def last_started_def)
next
  case (Cons e evs)
  obtain ev now where e: "e = (ev, now)" by (rule prod.exhaust)
  let ?s = "(observe ev s)\<lparr>su_last_activity := now\<rparr>"
  from Cons.IH [of ?s] obtain s' where
      "watch (rk_loads k) (polls (rk_fr k) evs @ rest) ?s = watch (rk_loads k) rest s'"
      "su_seen s' = su_seen s @ ev # map fst evs"
      "su_reported s' = last_started (map fst evs) (su_reported (observe ev s))" by auto
  then show ?case
    by (intro exI [of _ s']) (simp add: e polls_def forward_sent [OF assms] observe_reported last_started_def)
qed

lemma drain_sent:
  assumes "loads_inverts k"
  shows "\<exists>s'. drain (rk_loads k) killed (map (\<lambda>ev. Data (send_event (rk_fr k) ev)) evs) s = LoopDone killed s' \<and>
    su_seen s' = su_seen s @ evs \<and> su_reported s' = last_started evs (su_reported s)"
proof (induction evs arbitrary: s)
  case (Cons ev evs)
  from Cons.IH [of "observe ev s"] obtain s' where
      "drain (rk_loads k) killed (map (\<lambda>ev. Data (send_event (rk_fr k) ev)) evs) (observe ev s) = LoopDone killed s'"
      "su_seen s' = su_seen s @ ev # evs" "su_reported s' = last_started evs (su_reported (observe ev s))" by auto
  then show ?case
    by (intro exI [of _ s']) (simp add: forward_sent [OF assms] observe_reported last_started_def)
qed (simp add: last_started_def)

lemma events_observed:
  assumes "loads_inverts k"
  shows "\<exists>s'. supervise (rk_loads k) (polls (rk_fr k) evs) (map (\<lambda>ev. Data (send_event (rk_fr k) ev)) late) (start_supervisor t) =
      LoopDone False s' \<and> su_seen s' = map fst evs @ late \<and> su_reported s' = last_started (map fst evs @ late) None"
proof -
  obtain s1 where s1: "watch (rk_loads k) (polls (rk_fr k) evs) (start_supervisor t) = LoopDone False s1"
      "su_seen s1 = map fst evs" "su_reported s1 = last_started (map fst evs) None"
    using watch_sent [OF assms, of evs "[]" "start_supervisor t"] by (auto simp: start_supervisor_def)
  obtain s2 where "drain (rk_loads k) False (map (\<lambda>ev. Data (send_event (rk_fr k) ev)) late) s1 = LoopDone False s2"
      "su_seen s2 = su_seen s1 @ late" "su_reported s2 = last_started late (su_reported s1)"
    using drain_sent [OF assms] by blast
  with s1 show ?thesis by (simp add: supervise_def last_started_def)
qed

text \<open>The watchdog kills exactly where a poll finds nothing more than 1800 seconds after the last event;
  any event, a heartbeat too, pushes that back.\<close>

lemma watchdog_needs_silence:
  "watch loads rounds s = LoopDone True s' \<Longrightarrow>
     \<exists>pre now post. rounds = pre @ (Silence, now) # post \<and> WATCHDOG_INACTIVITY_SEC < now - su_last_activity s' \<and>
       (su_last_activity s' = su_last_activity s \<or> su_last_activity s' \<in> snd ` set pre)"
proof (induction loads rounds s rule: watch.induct)
  case (2 loads p now rounds s)
  show ?case
  proof (cases p)
    case (Data data)
    with "2.prems" obtain s1 where s1: "forward_event loads data s = Inr s1"
        "watch loads rounds (s1\<lparr>su_last_activity := now\<rparr>) = LoopDone True s'"
      by (auto split: sum.splits)
    from "2.IH"(1) [OF Data s1] obtain pre n post where
        "rounds = pre @ (Silence, n) # post" "WATCHDOG_INACTIVITY_SEC < n - su_last_activity s'"
        "su_last_activity s' = now \<or> su_last_activity s' \<in> snd ` set pre" by auto
    then show ?thesis by (intro exI [of _ "(p, now) # pre"] exI [of _ n] exI [of _ post]) auto
  next
    case Silence
    show ?thesis
    proof (cases "WATCHDOG_INACTIVITY_SEC < now - su_last_activity s")
      case True
      with "2.prems" Silence show ?thesis by (intro exI [of _ "[]"]) auto
    next
      case False
      with "2.prems" Silence "2.IH"(2) [OF Silence] obtain pre n post where
          "rounds = pre @ (Silence, n) # post" "WATCHDOG_INACTIVITY_SEC < n - su_last_activity s'"
          "su_last_activity s' = su_last_activity s \<or> su_last_activity s' \<in> snd ` set pre" by auto
      then show ?thesis by (intro exI [of _ "(p, now) # pre"] exI [of _ n] exI [of _ post]) auto
    qed
  qed (use "2.prems" in auto)
qed simp

text \<open>The trusted side of a measurement.\<close>

definition trusted_record :: "run_store \<Rightarrow> string list \<Rightarrow> string \<Rightarrow> experiment_result \<Rightarrow> bool" where
  "trusted_record st task_ids i e \<longleftrightarrow>
     load_experiment st i = Inr e \<and> ex_finished_at e \<noteq> None \<and> ex_crash_reason e = None \<and>
     set (map fst (ex_tasks e)) = set task_ids"

lemma judge_worker_result:
  "(\<exists>st s'. judge_worker task_ids wk killed s = (Inr e, st, s')) \<longleftrightarrow>
     \<not> killed \<and> wk_exitcode wk = 0 \<and> (\<exists>i. su_reported s = Some i \<and> trusted_record (wk_store wk) task_ids i e)"
proof -
  have "\<nexists>st s'. crash_out wk i m s = (Inr e, st, s')" for i m
    by (auto simp: crash_out_def split: prod.splits)
  then show ?thesis
    by (auto simp: judge_worker_def trusted_record_def split: option.splits sum.splits)
qed

text \<open>What a failure leaves of the record the worker reported: nothing to change if it cannot be read or is
  crashed already; otherwise it is marked crashed with the failure's message, under the identifier it carries.\<close>

definition crash_settled ::
    "run_store \<Rightarrow> string \<Rightarrow> string \<Rightarrow> experiment_result option \<Rightarrow> run_store \<Rightarrow> bool" where
  "crash_settled st0 i m r st \<longleftrightarrow> (case load_experiment st0 i of
     Inl _ \<Rightarrow> r = None \<and> st = st0
   | Inr e \<Rightarrow>
       (if ex_crash_reason e \<noteq> None then r = Some e \<and> st = st0
        else \<exists>c. r = Some c \<and> ex_crash_reason c = Some m \<and> ex_finished_at c \<noteq> None \<and> ex_tasks c = ex_tasks e \<and>
          load_experiment st (ex_experiment_id e) = Inr (as_parsed c) \<and> st_index st = st_index st0 \<and>
          (\<forall>j. j \<noteq> ex_experiment_id e \<longrightarrow> load_experiment st j = load_experiment st0 j)))"

lemma mark_crashed_settles:
  "crash_settled st0 i m (case mark_crashed st0 i m now of Inl _ \<Rightarrow> None | Inr (_, e) \<Rightarrow> Some e)
     (case mark_crashed st0 i m now of Inl _ \<Rightarrow> st0 | Inr (st, _) \<Rightarrow> st)"
proof (cases "load_experiment st0 i")
  case (Inl x)
  then show ?thesis by (simp add: crash_settled_def mark_crashed_def)
next
  case (Inr e)
  let ?c = "e\<lparr>ex_finished_at := Some now, ex_crash_reason := Some m\<rparr>"
  have "experiment_ok ?c" using Inr by (auto simp: load_Inr experiment_ok_iff)
  then have "load_experiment (save_experiment st0 ?c) (ex_experiment_id e) = Inr (as_parsed ?c)"
    by (simp add: load_saved validate_experiment_Inr)
  moreover have "load_experiment (save_experiment st0 ?c) j = load_experiment st0 j" if "j \<noteq> ex_experiment_id e" for j
    using that by (simp add: load_saved)
  ultimately show ?thesis using Inr by (simp add: crash_settled_def mark_crashed_def Let_def)
qed

lemma crash_out_settles:
  assumes "crash_out wk (Some i) m s = (Inl (MeasurementError m' r), st, s')"
  shows "m' = m \<and> crash_settled (wk_store wk) i m r st"
  using assms mark_crashed_settles [of "wk_store wk" i m "wk_now wk"]
  by (auto simp: crash_out_def load_crashed_result_def split: sum.splits)

lemma judge_failure:
  assumes "judge_worker task_ids wk killed s = (Inl (MeasurementError m r), st, s')"
  shows "case su_reported s of None \<Rightarrow> r = None \<and> st = wk_store wk | Some i \<Rightarrow> crash_settled (wk_store wk) i m r st"
proof (cases "su_reported s")
  case None
  with assms show ?thesis by (auto simp: judge_worker_def crash_out_def load_crashed_result_def split: if_splits)
next
  case reported: (Some i)
  show ?thesis
  proof (cases "killed \<or> wk_exitcode wk \<noteq> 0")
    case True
    with assms reported crash_out_settles [of wk i] show ?thesis
      by (simp add: judge_worker_def) (metis crash_out_settles)
  next
    case False
    then obtain e where e: "load_experiment (wk_store wk) i = Inr e"
      using assms reported by (auto simp: judge_worker_def split: sum.splits)
    show ?thesis
    proof (cases "ex_finished_at e = None")
      case True
      with False assms e reported show ?thesis by (simp add: judge_worker_def) (metis crash_out_settles)
    next
      case finished: False
      with False assms reported e have "ex_crash_reason e \<noteq> None \<and> r = Some e \<and> st = wk_store wk"
        by (auto simp: judge_worker_def split: option.splits if_splits)
      with e reported show ?thesis by (simp add: crash_settled_def)
    qed
  qed
qed

lemma judge_keeps:
  "judge_worker task_ids wk killed s = (Inr e, st, s') \<Longrightarrow> st = wk_store wk \<and> s' = s"
  by (auto simp: judge_worker_def crash_out_def split: option.splits sum.splits if_splits prod.splits)

lemma judge_reported: "judge_worker task_ids wk killed s = (res, st, s') \<Longrightarrow> su_reported s' = su_reported s"
  by (auto simp: judge_worker_def crash_out_def load_crashed_result_def split: option.splits sum.splits if_splits prod.splits)

lemma crash_out_fails: "crash_out wk i m s = (res, st, s') \<Longrightarrow> \<exists>r. res = Inl (MeasurementError m r)"
  by (auto simp: crash_out_def split: prod.splits)

lemma judge_refusal:
  assumes "judge_worker task_ids wk killed s = (Inl x, st, s')" and "\<nexists>m r. x = MeasurementError m r"
  shows "st = wk_store wk \<and> (\<forall>m. x = PanelMismatch m \<longrightarrow> wk_exitcode wk = 0 \<and> (\<exists>i e. su_reported s = Some i \<and>
    load_experiment st i = Inr e \<and> set (map fst (ex_tasks e)) \<noteq> set task_ids))"
  using assms by (auto simp: judge_worker_def dest: crash_out_fails split: option.splits sum.splits if_splits)

lemma measured_soundly:
  assumes "run_isolated_experiment loads task_ids now wk = (res, st, s)"
  shows "case res of
      Inr e \<Rightarrow> wk_exitcode wk = 0 \<and> st = wk_store wk \<and> (\<exists>i. su_reported s = Some i \<and> trusted_record st task_ids i e)
    | Inl (MeasurementError m r) \<Rightarrow>
        (case su_reported s of None \<Rightarrow> r = None \<and> st = wk_store wk | Some i \<Rightarrow> crash_settled (wk_store wk) i m r st)
    | Inl (PanelMismatch m) \<Rightarrow> st = wk_store wk \<and> wk_exitcode wk = 0 \<and> (\<exists>i e. su_reported s = Some i \<and>
        load_experiment st i = Inr e \<and> set (map fst (ex_tasks e)) \<noteq> set task_ids)
    | Inl _ \<Rightarrow> st = wk_store wk"
proof (cases "wk_spawn wk = None \<and> (\<exists>killed s0. supervise loads (wk_rounds wk) (wk_rest wk) (start_supervisor now) = LoopDone killed s0)")
  case True
  then obtain killed s0 where j: "judge_worker task_ids wk killed s0 = (res, st, s)"
    using assms by (auto simp: run_isolated_experiment_def)
  note rep = judge_reported [OF j]
  show ?thesis
  proof (cases res)
    case (Inl x)
    show ?thesis
    proof (cases x)
      case (MeasurementError m r)
      with j Inl rep judge_failure [of task_ids wk killed s0 m r st s] show ?thesis by simp
    qed (use j Inl rep judge_refusal [of task_ids wk killed s0 x st s] in auto)
  next
    case (Inr e)
    with j judge_worker_result [of task_ids wk killed s0 e] judge_keeps [of task_ids wk killed s0 e st s] show ?thesis
      by auto
  qed
next
  case False
  with assms show ?thesis
    by (auto simp: run_isolated_experiment_def split: option.splits loop_end.splits)
qed

text \<open>
  C35. A measurement is trusted only on the parent's own evidence, whatever its worker sends, however it exits and
  whatever records it leaves. A result is returned only for a worker that exited cleanly, under the
  identifier it reported last, with a stored record that is finished, not crashed and covers exactly the requested
  panel. A \<open>MeasurementError\<close> carries no record if the worker reported no identifier or its record
  cannot be read, and then the store is as the worker left it; otherwise it carries the record as crashed: as it was
  if it was crashed before, and else with the error's message as the reason, saved under the identifier the
  record itself carries, no other record and no index row touched. Every other outcome (a wrong
  panel on a clean exit, a malformed event, an unreadable record on a clean exit, a failed spawn, an interrupt)
  leaves the store as the worker left it, so in these the record may look finished or running.
\<close>

theorem measurement_on_evidence:
  assumes "run_isolated_experiment loads task_ids now wk = (res, st, s)"
  shows "case res of
      Inr e \<Rightarrow> wk_exitcode wk = 0 \<and> st = wk_store wk \<and> (\<exists>i. su_reported s = Some i \<and> trusted_record st task_ids i e)
    | Inl (MeasurementError m r) \<Rightarrow>
        (case su_reported s of None \<Rightarrow> r = None \<and> st = wk_store wk | Some i \<Rightarrow> crash_settled (wk_store wk) i m r st)
    | Inl (PanelMismatch m) \<Rightarrow> st = wk_store wk \<and> wk_exitcode wk = 0 \<and> (\<exists>i e. su_reported s = Some i \<and>
        load_experiment st i = Inr e \<and> set (map fst (ex_tasks e)) \<noteq> set task_ids)
    | Inl _ \<Rightarrow> st = wk_store wk"
  using assms by (rule measured_soundly)

text \<open>A worker that dies after it reported its experiment, which it left unfinished.\<close>

definition unfinished_run :: experiment_result where
  "unfinished_run = (sample_run ''r'' ''c'' [])\<lparr>ex_finished_at := None\<rparr>"

definition dying_worker :: worker_run where
  "dying_worker = \<lparr>wk_spawn = None, wk_rounds = polls sample_repr [(ObsStarted ''r'', 3), (ObsLog ''hi'', 9)],
     wk_rest = [], wk_exitcode = 1, wk_store = save_experiment empty_store unfinished_run, wk_now = 5\<rparr>"

theorem measurement_on_evidence_witness:
  "\<exists>m e st s. run_isolated_experiment (rk_loads sample_replay_kit) [''t''] 0 dying_worker = (Inl (MeasurementError m (Some e)), st, s) \<and>
     load_experiment st ''r'' = Inr (as_parsed e) \<and> ex_crash_reason e \<noteq> None"
proof -
  let ?k = sample_replay_kit
  have fr: "rk_fr ?k = sample_repr" by (simp add: sample_replay_kit_def)
  obtain s0 where s0: "supervise (rk_loads ?k) (polls sample_repr [(ObsStarted ''r'', 3), (ObsLog ''hi'', 9)]) [] (start_supervisor 0) =
      LoopDone False s0" "su_reported s0 = Some ''r''"
    using events_observed [OF sample_kit_ok(1), of "[(ObsStarted ''r'', 3), (ObsLog ''hi'', 9)]" "[]" 0]
    by (auto simp: fr last_started_def)
  have ok: "experiment_ok unfinished_run"
    by (simp add: unfinished_run_def experiment_ok_iff sample_run_def)
  then have l: "load_experiment (wk_store dying_worker) ''r'' = Inr unfinished_run"
    by (simp add: dying_worker_def load_saved validate_experiment_Inr)
      (simp add: unfinished_run_def as_parsed_def sample_run_def)
  then obtain st e where mc: "mark_crashed (wk_store dying_worker) ''r'' (failed_message False 1 (su_recent s0)) 5 = Inr (st, e)"
    by (auto simp: mark_crashed_def unfinished_run_def Let_def)
  obtain res st' s where run: "run_isolated_experiment (rk_loads ?k) [''t''] 0 dying_worker = (res, st', s)"
    by (rule prod_cases3)
  then have "res = Inl (MeasurementError (failed_message False 1 (su_recent s0)) (Some e)) \<and> s = s0"
    using s0 mc by (auto simp: run_isolated_experiment_def dying_worker_def judge_worker_def crash_out_def load_crashed_result_def)
  with measurement_on_evidence [OF run] s0(2)
  have "crash_settled (wk_store dying_worker) ''r'' (failed_message False 1 (su_recent s0)) (Some e) st'" by simp
  then have "ex_crash_reason e \<noteq> None \<and> load_experiment st' ''r'' = Inr (as_parsed e)"
    using l by (auto simp: crash_settled_def) (simp_all add: unfinished_run_def)
  with run \<open>res = _ \<and> _\<close> show ?thesis by auto
qed

end
