(* ===== verification/Runner.thy ===== *)
theory Runner
  imports Episode Execution
begin

text \<open>
  The rest of \<open>src/rollout/episode.py\<close>: the rollout runner, which builds the editable policy, runs
  the loop, closes the resources, writes the chain and classifies the outcome into a rollout
  result.
\<close>

section \<open>Building the policy\<close>

text \<open>
  What importing the target module and calling its \<open>build_policy\<close> does: an exception, or a value
  whose type name is given when it is not a \<open>Policy\<close>; then whether the module has
  \<open>build_env_action\<close>. \<open>rn_close\<close> is what closing environment and backend makes: nothing within the
  timeout, or the exception of each.
\<close>

record 's runner_env =
  rn_build_policy :: "telemetry \<Rightarrow> 's \<Rightarrow> (rexc + string option) \<times> telemetry \<times> 's"
  rn_build_env_action :: "'s \<Rightarrow> rexc + unit"
  rn_close :: "'s \<Rightarrow> (rexc option \<times> rexc option) option \<times> 's"
  rn_write :: "string \<Rightarrow> 's \<Rightarrow> (rexc + unit) \<times> 's"

definition build_policy :: "'s runner_env \<Rightarrow> ('s, unit) ep_act" where
  "build_policy rn s =
     (case rn_build_policy rn (ep_tel s) (ep_env s) of
        (r, t, e) \<Rightarrow>
          (case r of
             Inl x \<Rightarrow> Inl (policy_wrap x)
           | Inr (Some type_name) \<Rightarrow> Inl (policy_wrap (PlainExc (TypeError
               (''build_policy returned '' @ type_name @ '', not a Policy''))))
           | Inr None \<Rightarrow>
               (case rn_build_env_action rn e of Inl x \<Rightarrow> Inl (policy_wrap x) | Inr u \<Rightarrow> Inr u),
           s\<lparr>ep_env := e, ep_tel := t\<rparr>))"

text \<open>\<open>_boundary_crash\<close>, for the two boundary exceptions.\<close>

fun boundary_crash :: "rexc \<Rightarrow> rexc + loop_outcome" where
  "boundary_crash (PolicyBoundaryError c) = Inr (failure_end CrashEnd (Some OriginPolicy) (Some (error_text c)))"
| "boundary_crash (EnvBoundaryError c) = Inr (failure_end CrashEnd (Some OriginEnv) (Some (error_text c)))"
| "boundary_crash e = Inl e"

section \<open>Budgets and closing\<close>

definition STALL_ATTEMPT_BUDGET :: rat where
  "STALL_ATTEMPT_BUDGET = 3"

definition STALL_TIMEOUT_SLACK_SEC :: rat where
  "STALL_TIMEOUT_SLACK_SEC = 120"

definition TRIAL_CLOSE_TIMEOUT_SEC :: rat where
  "TRIAL_CLOSE_TIMEOUT_SEC = 180"

text \<open>\<open>bound\<close> is the provider's duration bound of one completion of so many tokens.\<close>

definition stall_timeout_sec :: "(int \<Rightarrow> rat) \<Rightarrow> run_config \<Rightarrow> rat" where
  "stall_timeout_sec bound c =
     STALL_ATTEMPT_BUDGET * bound (lp_max_tokens (rc_llm_provider_config c)) + STALL_TIMEOUT_SLACK_SEC"

definition close_resources :: "'s runner_env \<Rightarrow> 's episode \<Rightarrow> string option \<times> 's episode" where
  "close_resources rn s =
     (case rn_close rn (ep_env s) of
        (None, e) \<Rightarrow>
          (Some (''resource close timed out after '' @ fmt0 TRIAL_CLOSE_TIMEOUT_SEC @ ''s''), s\<lparr>ep_env := e\<rparr>)
      | (Some (env_exc, llm_exc), e) \<Rightarrow>
          (let errors = map (\<lambda>x. error_text (to_exc x)) (List.map_filter id [env_exc, llm_exc])
           in (if errors = [] then None
               else Some (''resource close failed: '' @ join_str ''; '' errors)), s\<lparr>ep_env := e\<rparr>))"

section \<open>Classification\<close>

record outcome =
  oc_failure_mode :: failure_mode
  oc_origin :: "failure_origin option"
  oc_reward :: "rat option"
  oc_error :: "string option"

definition mk_outcome ::
    "failure_mode \<Rightarrow> failure_origin option \<Rightarrow> rat option \<Rightarrow> string option \<Rightarrow> outcome" where
  "mk_outcome m org rew err =
     \<lparr>oc_failure_mode = m, oc_origin = org, oc_reward = rew, oc_error = err\<rparr>"

definition attribute_error :: rexc where
  "attribute_error = PlainExc (OtherError ''AttributeError'' [])"

definition classify_loop_result :: "loop_outcome \<Rightarrow> rexc + outcome" where
  "classify_loop_result out =
     (case lo_end out of
        Submitted \<Rightarrow>
          (case lo_final out of
             None \<Rightarrow> Inl attribute_error
           | Some final \<Rightarrow>
               (if sp_truncated final then Inr (mk_outcome VerifyTimeout None (Some (sp_reward final)) None)
                else case sp_verdict final of
                    None \<Rightarrow> Inl (PlainExc (RuntimeError ''submit produced no verifier verdict''))
                  | Some v \<Rightarrow>
                      (if \<not> vv_completed v then Inr (mk_outcome Crash (Some OriginEnv) None (vv_error v))
                       else Inr (mk_outcome (if vv_passed v = Some True then Solved else VerifiedRejected)
                                  None (Some (sp_reward final)) None))))
      | Budget \<Rightarrow>
          (case lo_final out of
             None \<Rightarrow> Inl attribute_error
           | Some final \<Rightarrow> Inr (mk_outcome HitTimeout None (Some (sp_reward final)) None))
      | GaveUp \<Rightarrow> Inr (mk_outcome NoValidAction None None (lo_error out))
      | StepCap \<Rightarrow>
          (case lo_final out of
             None \<Rightarrow> Inr (mk_outcome NoValidAction None None None)
           | Some final \<Rightarrow> Inr (mk_outcome HitStepCap None (Some (sp_reward final)) None))
      | SetupTimedOut \<Rightarrow> Inr (mk_outcome Crash (Some OriginEnv) None None)
      | TaskTimedOut \<Rightarrow> Inr (mk_outcome HitTimeout None None (lo_error out))
      | StallTimedOut \<Rightarrow> Inr (mk_outcome HitTimeout None None (lo_error out))
      | UnscorableEnd \<Rightarrow> Inr (mk_outcome UnscorableInfra None None (lo_error out))
      | CrashEnd \<Rightarrow> Inr (mk_outcome Crash (lo_origin out) None (lo_error out)))"

section \<open>Metrics\<close>

fun merge_metrics :: "metrics \<Rightarrow> metrics list \<Rightarrow> rexc + metrics" where
  "merge_metrics merged [] = Inr merged"
| "merge_metrics merged (source # sources) =
     (let duplicates = fst ` set merged \<inter> fst ` set source
      in if duplicates \<noteq> {}
         then Inl (PlainExc (ValueError (''duplicate rollout metric keys: '' @ list_repr (sorted_strs duplicates))))
         else merge_metrics (merged @ source) sources)"

definition episode_metrics :: "loop_outcome \<Rightarrow> outcome \<Rightarrow> metrics" where
  "episode_metrics out oc =
     (case lo_steps_taken out of None \<Rightarrow> [] | Some n \<Rightarrow> [(''steps_used'', of_nat n)]) @
     (case oc_reward oc of None \<Rightarrow> [] | Some r \<Rightarrow> [(''reward'', r)])"

section \<open>One rollout\<close>

record rollout_facts =
  rf_task_id :: string
  rf_rollout_dir :: string
  rf_trace_path :: string
  rf_started_at :: nat
  rf_finished_at :: nat

text \<open>A close error turns any outcome into an environment crash and is appended to its error.\<close>

definition settle_close :: "string option \<Rightarrow> outcome \<Rightarrow> outcome" where
  "settle_close close_error oc =
     (case close_error of
        None \<Rightarrow> oc
      | Some c \<Rightarrow> oc\<lparr>oc_failure_mode := Crash, oc_origin := Some OriginEnv,
          oc_error := Some (case oc_error oc of None \<Rightarrow> c | Some e \<Rightarrow> e @ ''; '' @ c)\<rparr>)"

definition final_metrics :: "loop_outcome \<Rightarrow> metrics" where
  "final_metrics out = (case lo_final out of None \<Rightarrow> [] | Some r \<Rightarrow> sp_metrics r)"

definition result_record :: "rollout_facts \<Rightarrow> metrics \<Rightarrow> outcome \<Rightarrow> rollout_result" where
  "result_record facts ms oc =
     \<lparr>rr_task_id = rf_task_id facts, rr_failure_mode = oc_failure_mode oc,
      rr_failure_origin = oc_origin oc, rr_error = oc_error oc, rr_metrics = ms,
      rr_rollout_dir = Some (rf_rollout_dir facts), rr_trace_path = Some (rf_trace_path facts),
      rr_infra_retries = [], rr_started_at = Some (rf_started_at facts),
      rr_finished_at = Some (rf_finished_at facts)\<rparr>"

definition checked_result :: "rollout_result \<Rightarrow> rexc + rollout_result" where
  "checked_result r = (case check_outcome_invariants r of Inl e \<Rightarrow> Inl (PlainExc e) | Inr r' \<Rightarrow> Inr r')"

definition rollout_of ::
    "rollout_facts \<Rightarrow> string option \<Rightarrow> telemetry \<Rightarrow> loop_outcome \<Rightarrow> rexc + rollout_result" where
  "rollout_of facts close_error tel out =
     bind_res (classify_loop_result out) (\<lambda>oc.
     bind_res (merge_metrics [] [episode_metrics out oc, telemetry_metrics tel, final_metrics out]) (\<lambda>ms.
       checked_result (result_record facts ms (settle_close close_error oc))))"

definition build_and_loop ::
    "'s runner_env \<Rightarrow> ('s, 'a) episode_env \<Rightarrow> scrub_rules \<Rightarrow> loop_limits \<Rightarrow> nat \<Rightarrow>
       ('s episode, loop_error, loop_outcome) act" where
  "build_and_loop rn ee rules lims fuel s =
     (case build_policy rn s of
        (Inl x, s1) \<Rightarrow> finish_loop (boundary_crash x) s1
      | (Inr u, s1) \<Rightarrow> run_task_loop ee (scrub_nondeterminism rules) lims fuel s1)"

definition run_rollout ::
    "'s runner_env \<Rightarrow> ('s, 'a) episode_env \<Rightarrow> (string \<Rightarrow> string) \<Rightarrow> (rat \<Rightarrow> string) \<Rightarrow> scrub_rules \<Rightarrow>
       loop_limits \<Rightarrow> nat \<Rightarrow> rollout_facts \<Rightarrow> ('s episode, loop_error, rollout_result) act" where
  "run_rollout rn ee sha fr rules lims fuel facts s =
     (case build_and_loop rn ee rules lims fuel s of (r, s1) \<Rightarrow>
      case close_resources rn s1 of (close_error, s2) \<Rightarrow>
      case rn_write rn (write_chain sha fr rules (ep_chain s2)) (ep_env s2) of (w, e) \<Rightarrow>
        (case w of
           Inl x \<Rightarrow> Inl (Raised x)
         | Inr u \<Rightarrow>
             (case r of
                Inl x \<Rightarrow> Inl x
              | Inr out \<Rightarrow>
                  (case rollout_of facts close_error (ep_tel s2) out of
                     Inl x \<Rightarrow> Inl (Raised x) | Inr res \<Rightarrow> Inr res)),
         s2\<lparr>ep_env := e\<rparr>))"

section \<open>What a rollout reports\<close>

text \<open>The last recorded step is a completed grading with this verdict.\<close>

definition graded :: "chain_step list \<Rightarrow> bool \<Rightarrow> bool" where
  "graded cs passed \<longleftrightarrow> cs \<noteq> [] \<and> cs_env_action (last cs) = VerifyAct \<and>
     \<not> sp_truncated (cs_step_result (last cs)) \<and>
     (\<exists>v. sp_verdict (cs_step_result (last cs)) = Some v \<and> vv_completed v \<and>
        (passed \<longleftrightarrow> vv_passed v = Some True))"

lemma classify_chain:
  assumes "outcome_of_chain lims cs out \<or> failed_outcome out" and "classify_loop_result out = Inr oc"
  shows "oc_failure_mode oc = Solved \<longrightarrow> graded cs True"
    and "oc_failure_mode oc = VerifiedRejected \<longrightarrow> graded cs False"
    and "oc_failure_mode oc \<in> {Solved, VerifiedRejected, HitStepCap} \<longrightarrow> oc_error oc = None"
    and "oc_failure_mode oc = Crash \<longleftrightarrow> oc_origin oc \<noteq> None"
  using assms
  by (auto simp: classify_loop_result_def mk_outcome_def outcome_of_chain_def failed_outcome_def graded_def
      split: loop_end.splits option.splits if_splits)

lemma build_policy_quiet: "build_policy rn s = (r, s') \<Longrightarrow> ep_chain s' = ep_chain s"
  by (auto simp: build_policy_def split: prod.splits sum.splits option.splits)

lemma close_quiet:
  "close_resources rn s = (c, s') \<Longrightarrow> ep_chain s' = ep_chain s \<and> ep_tel s' = ep_tel s"
  by (auto simp: close_resources_def Let_def split: prod.splits option.splits)

lemma boundary_crash_failed: "boundary_crash x = Inr out \<Longrightarrow> failed_outcome out"
  by (cases x) (auto simp: failed_outcome_def failure_end_def)

lemma build_and_loop_post:
  assumes "ll_max_steps lims \<le> fuel" and "ep_chain s = []"
    and "build_and_loop rn ee rules lims fuel s = (r, s')"
  shows "r \<noteq> Inl OutOfFuel \<and> chain_ok lims (ep_chain s') \<and>
    (\<forall>out. r = Inr out \<longrightarrow> outcome_of_chain lims (ep_chain s') out \<or> failed_outcome out)"
proof -
  obtain b s1 where b: "build_policy rn s = (b, s1)" by fastforce
  have c: "ep_chain s1 = []" using build_policy_quiet [OF b] assms(2) by simp
  show ?thesis
  proof (cases b)
    case (Inl x)
    then show ?thesis using assms(3) b c
      by (auto simp: build_and_loop_def finish_loop_def raise_def ret_def chain_ok_def
          dest: boundary_crash_failed split: sum.splits)
  next
    case (Inr u)
    then have "run_task_loop ee (scrub_nondeterminism rules) lims fuel s1 = (r, s')"
      using assms(3) b by (simp add: build_and_loop_def)
    from episode_ends_post [OF assms(1) c this] show ?thesis .
  qed
qed

lemma checked_result_Inr: "checked_result r = Inr q \<longleftrightarrow> q = r \<and> rollout_ok r"
  using check_outcome_ok [of r] by (auto simp: checked_result_def split: sum.splits)

lemma rollout_of_reports:
  assumes "outcome_of_chain lims cs out \<or> failed_outcome out"
    and "rollout_of facts close_error tel out = Inr r"
  shows "rollout_ok r \<and> rr_task_id r = rf_task_id facts \<and>
    (rr_failure_mode r = Solved \<longrightarrow> graded cs True \<and> close_error = None) \<and>
    (rr_failure_mode r = VerifiedRejected \<longrightarrow> graded cs False \<and> close_error = None) \<and>
    (close_error \<noteq> None \<longrightarrow> rr_failure_mode r = Crash \<and> rr_failure_origin r = Some OriginEnv)"
proof -
  obtain oc ms where oc: "classify_loop_result out = Inr oc"
    and r: "r = result_record facts ms (settle_close close_error oc)" "rollout_ok r"
    using assms(2) by (auto simp: rollout_of_def res_simps checked_result_Inr simp del: merge_metrics.simps)
  from classify_chain [OF assms(1) oc] r show ?thesis
    by (auto simp: settle_close_def result_record_def split: option.splits)
qed

lemma run_rollout_reports:
  assumes "ll_max_steps lims \<le> fuel" and "ep_chain s = []"
    and "run_rollout rn ee sha fr rules lims fuel facts s = (Inr r, s')"
  shows "rollout_ok r \<and> rr_task_id r = rf_task_id facts \<and>
    (rr_failure_mode r = Solved \<longrightarrow> graded (ep_chain s') True) \<and>
    (rr_failure_mode r = VerifiedRejected \<longrightarrow> graded (ep_chain s') False)"
proof -
  obtain b s1 where b: "build_and_loop rn ee rules lims fuel s = (b, s1)" by fastforce
  obtain c s2 where c: "close_resources rn s1 = (c, s2)" by fastforce
  obtain w e where w: "rn_write rn (write_chain sha fr rules (ep_chain s2)) (ep_env s2) = (w, e)" by fastforce
  have run: "(case w of Inl x \<Rightarrow> Inl (Raised x)
      | Inr u \<Rightarrow> (case b of Inl x \<Rightarrow> Inl x
          | Inr out \<Rightarrow> (case rollout_of facts c (ep_tel s2) out of Inl x \<Rightarrow> Inl (Raised x) | Inr res \<Rightarrow> Inr res))) = Inr r"
    and s': "s' = s2\<lparr>ep_env := e\<rparr>"
    using assms(3) by (simp_all add: run_rollout_def b c w)
  obtain out where out: "b = Inr out" "rollout_of facts c (ep_tel s2) out = Inr r"
    using run by (simp split: sum.splits)
  have "outcome_of_chain lims (ep_chain s1) out \<or> failed_outcome out"
    using build_and_loop_post [OF assms(1,2) b] out(1) by blast
  note reports = rollout_of_reports [OF this out(2)]
  have "ep_chain s' = ep_chain s1" using close_quiet [OF c] s' by simp
  then show ?thesis using reports by metis
qed

text \<open>
  C15. A rollout reports its episode: a returned result satisfies the record invariants and names
  its own task, and it says solved (or verified and rejected) only if the last step of the recorded
  chain is a grading that completed in time with that verdict, and both resources closed.
\<close>

theorem rollout_reports_episode:
  assumes "ll_max_steps lims \<le> fuel" and "ep_chain s = []"
    and "run_rollout rn ee sha fr rules lims fuel facts s = (Inr r, s')"
  shows "rollout_ok r \<and> rr_task_id r = rf_task_id facts \<and>
    (rr_failure_mode r = Solved \<longrightarrow> graded (ep_chain s') True) \<and>
    (rr_failure_mode r = VerifiedRejected \<longrightarrow> graded (ep_chain s') False)"
  using assms by (rule run_rollout_reports)

definition sample_runner :: "unit runner_env" where
  "sample_runner = \<lparr>rn_build_policy = (\<lambda>t e. (Inr None, t, e)), rn_build_env_action = (\<lambda>e. Inr ()),
     rn_close = (\<lambda>e. (Some (None, None), e)), rn_write = (\<lambda>t e. (Inr (), e))\<rparr>"

definition sample_facts :: rollout_facts where
  "sample_facts = \<lparr>rf_task_id = ''t1'', rf_rollout_dir = ''d'', rf_trace_path = ''p'',
     rf_started_at = 0, rf_finished_at = 1\<rparr>"

theorem rollout_reports_episode_witness:
  "\<exists>r s'. run_rollout sample_runner (sample_episode_env (Inr (plain_step empty_output))) id sample_repr
      plain_rules sample_limits 3 sample_facts sample_episode = (Inr r, s') \<and>
      rr_failure_mode r = Solved \<and> rr_task_id r = ''t1'' \<and> graded (ep_chain s') True"
proof -
  let ?ee = "sample_episode_env (Inr (plain_step empty_output))"
  obtain r s' where run: "run_rollout sample_runner ?ee id sample_repr plain_rules sample_limits 3
      sample_facts sample_episode = (r, s')" by fastforce
  have "ll_max_steps sample_limits \<le> 3" "ep_chain sample_episode = []"
    by (simp_all add: sample_limits_def sample_episode_def)
  note reports = rollout_reports_episode [OF this]
  have "\<exists>q. r = Inr q \<and> rr_failure_mode q = Solved"
    using run
    by (auto simp: run_rollout_def build_and_loop_def build_policy_def sample_runner_def episode_run_simps
        close_resources_def rollout_of_def classify_loop_result_def mk_outcome_def episode_metrics_def
        telemetry_metrics_def on_step_completed_def tel_event_def conclude_decision_def
        fresh_telemetry_def final_metrics_def settle_close_def checked_result_def result_record_def
        check_outcome_invariants_def FIRST_ATTEMPT_VALID_KEY_def FIRST_ATTEMPT_TOTAL_KEY_def
        map_filter_def)
  then obtain q where q: "r = Inr q" "rr_failure_mode q = Solved" by blast
  from reports [OF run [unfolded q(1)]] q(2) have "rr_task_id q = ''t1''" "graded (ep_chain s') True"
    by (simp_all add: sample_facts_def)
  with q run show ?thesis by blast
qed

end
