(* ===== verification/Sampler.thy ===== *)
theory Sampler
  imports Runner Store
begin

text \<open>
  \<open>src/rollout/sampler.py\<close>: one rollout with its infrastructure retries, and the run of a whole
  panel. An attempt is an arbitrary function of whether it is forced live and of the surroundings;
  the retry loop takes fuel, and that it never needs more than three attempts is proved.
\<close>

section \<open>When a timeout is retried\<close>

definition metric :: "string \<Rightarrow> metrics \<Rightarrow> rexc + rat" where
  "metric key ms = (case map_of ms key of None \<Rightarrow> Inl (PlainExc (KeyError key)) | Some v \<Rightarrow> Inr v)"

definition slow_llm_timeout_retry :: "rollout_result \<Rightarrow> rat \<Rightarrow> rexc + infra_retry option" where
  "slow_llm_timeout_retry r agent_timeout_sec =
     (let ms = rr_metrics r;
          calls = (case map_of ms LIVE_LLM_CALLS_KEY of None \<Rightarrow> 0 | Some n \<Rightarrow> n)
      in case map_of ms P25_LIVE_OUTPUT_TOKENS_PER_SEC_KEY of
           None \<Rightarrow> Inr None
         | Some p25 \<Rightarrow>
             (if rr_failure_mode r \<noteq> HitTimeout \<or> calls < 3 then Inr None
              else bind_res (metric SUM_LIVE_LLM_LATENCY_SEC_KEY ms) (\<lambda>total_sec.
                (if \<not> (3 / 4 * agent_timeout_sec \<le> total_sec) then Inr None
                 else bind_res (metric MEDIAN_LIVE_LLM_LATENCY_SEC_KEY ms) (\<lambda>median.
                   (if 20 \<le> median \<and> p25 < 10
                    then Inr (Some (SlowLlmRetry calls total_sec median p25))
                    else Inr None))))))"

section \<open>The retry loop\<close>

record 's sampling =
  sm_env :: 's
  sm_forced :: "bool list"
  sm_archived :: "string list"
  sm_log :: "string list"

record retry_state =
  rt_retries :: "infra_retry list"
  rt_drift :: bool
  rt_slow :: bool

type_synonym 's attempt = "bool \<Rightarrow> 's \<Rightarrow> (rexc + rollout_result) \<times> 's"

definition run_attempt :: "'s attempt \<Rightarrow> bool \<Rightarrow> 's sampling \<Rightarrow> (rexc + rollout_result) \<times> 's sampling" where
  "run_attempt attempt forced s =
     (case attempt forced (sm_env s) of
        (r, e) \<Rightarrow> (r, s\<lparr>sm_env := e, sm_forced := sm_forced s @ [forced]\<rparr>))"

definition note_retry :: "string \<Rightarrow> string \<Rightarrow> 's sampling \<Rightarrow> 's sampling" where
  "note_retry label text s = s\<lparr>sm_archived := sm_archived s @ [label], sm_log := sm_log s @ [text]\<rparr>"

definition drift_line :: "string \<Rightarrow> nat \<Rightarrow> string" where
  "drift_line task_id i = task_id @ '': execution_drift at action '' @ nat_str i @ ''; retrying live-only''"

definition slow_line :: "string \<Rightarrow> string" where
  "slow_line task_id = task_id @ '': slow_llm_timeout; retrying once''"

definition with_retries :: "retry_state \<Rightarrow> rollout_result \<Rightarrow> rollout_result" where
  "with_retries st r =
     (if rt_retries st = [] then r
      else if rt_drift st \<and> rr_failure_mode r = Crash \<and> rr_failure_origin r = Some OriginEnv
      then r\<lparr>rr_infra_retries := rt_retries st, rr_failure_mode := UnscorableInfra, rr_failure_origin := None\<rparr>
      else r\<lparr>rr_infra_retries := rt_retries st\<rparr>)"

fun retry_loop ::
    "'s attempt \<Rightarrow> string \<Rightarrow> bool \<Rightarrow> rat \<Rightarrow> nat \<Rightarrow> retry_state \<Rightarrow> 's sampling \<Rightarrow>
       (loop_error + rollout_result) \<times> 's sampling" where
  "retry_loop attempt task_id deterministic agent_timeout_sec 0 st s = (Inl OutOfFuel, s)"
| "retry_loop attempt task_id deterministic agent_timeout_sec (Suc n) st s =
     (case run_attempt attempt (rt_drift st) s of
        (Inl e, s1) \<Rightarrow>
          (case e of
             ExecutionDriftError i m \<Rightarrow>
               retry_loop attempt task_id deterministic agent_timeout_sec n
                 (st\<lparr>rt_drift := True, rt_retries := rt_retries st @ [ExecutionDriftRetry i]\<rparr>)
                 (note_retry ''execution-drift'' (drift_line task_id i) s1)
           | _ \<Rightarrow> (Inl (Raised e), s1))
      | (Inr r, s1) \<Rightarrow>
          (case (if \<not> deterministic then Inr None else slow_llm_timeout_retry r agent_timeout_sec) of
             Inl e \<Rightarrow> (Inl (Raised e), s1)
           | Inr retry \<Rightarrow>
               (case retry of
                  Some entry \<Rightarrow>
                    (if \<not> rt_slow st
                     then retry_loop attempt task_id deterministic agent_timeout_sec n
                            (st\<lparr>rt_slow := True, rt_retries := rt_retries st @ [entry]\<rparr>)
                            (note_retry ''slow-llm-timeout'' (slow_line task_id) s1)
                     else (Inr (with_retries st r), s1))
                | None \<Rightarrow> (Inr (with_retries st r), s1))))"

declare retry_loop.simps(2) [simp del]

definition run_rollout_with_infra_retries ::
    "'s attempt \<Rightarrow> string \<Rightarrow> bool \<Rightarrow> rat \<Rightarrow> nat \<Rightarrow> 's sampling \<Rightarrow>
       (loop_error + rollout_result) \<times> 's sampling" where
  "run_rollout_with_infra_retries attempt task_id deterministic agent_timeout_sec fuel =
     retry_loop attempt task_id deterministic agent_timeout_sec fuel
       \<lparr>rt_retries = [], rt_drift = False, rt_slow = False\<rparr>"

text \<open>The diagnostic artifact of a drift.\<close>

definition execution_drift_artifact :: "nat \<Rightarrow> (string \<times> json) list \<Rightarrow> json" where
  "execution_drift_artifact i diagnostic =
     JObj (fold (\<lambda>(k, v). AList.update k v) diagnostic
       [(''kind'', JStr ''execution_drift''), (''action_index'', nat_json i)])"

section \<open>Three attempts are enough\<close>

text \<open>A live attempt meets no drift: there is no recorded prefix to contradict.\<close>

definition live_never_drifts :: "'s attempt \<Rightarrow> bool" where
  "live_never_drifts attempt \<longleftrightarrow> (\<forall>e i m e'. attempt True e \<noteq> (Inl (ExecutionDriftError i m), e'))"

definition retries_left :: "retry_state \<Rightarrow> nat" where
  "retries_left st = (if rt_drift st then 0 else 1) + (if rt_slow st then 0 else 1)"

lemma run_attempt_forced: "run_attempt attempt f s = (r, s') \<Longrightarrow> sm_forced s' = sm_forced s @ [f]"
  by (auto simp: run_attempt_def split: prod.splits)

lemma note_retry_forced [simp]: "sm_forced (note_retry a b s) = sm_forced s"
  by (simp add: note_retry_def)

text \<open>The attempts of a loop started in \<open>st\<close>: as many as it has retries left, plus one, and forced
  live from the first drift on.\<close>

definition attempts_ok :: "retry_state \<Rightarrow> bool list \<Rightarrow> bool" where
  "attempts_ok st bs \<longleftrightarrow> bs \<noteq> [] \<and> length bs \<le> Suc (retries_left st) \<and> sorted bs \<and>
     (rt_drift st \<longrightarrow> False \<notin> set bs)"

lemma attempts_ok_one: "attempts_ok st [rt_drift st]"
  by (simp add: attempts_ok_def)

lemma attempts_ok_Cons:
  assumes "attempts_ok st' bs" and "retries_left st' < retries_left st"
    and "rt_drift st \<longrightarrow> rt_drift st'"
  shows "attempts_ok st (rt_drift st # bs)"
  using assms by (cases "rt_drift st") (auto simp: attempts_ok_def intro: ccontr)

definition good_attempts :: "'s attempt \<Rightarrow> bool" where
  "good_attempts attempt \<longleftrightarrow> (\<forall>f e r e'. attempt f e = (Inr r, e') \<longrightarrow> rollout_ok r \<and> rr_infra_retries r = [])"

definition result_ok :: "retry_state \<Rightarrow> bool list \<Rightarrow> rollout_result \<Rightarrow> bool" where
  "result_ok st bs res \<longleftrightarrow> rollout_ok res \<and>
     (\<exists>xs. rr_infra_retries res = rt_retries st @ xs \<and> Suc (length xs) = length bs) \<and>
     (rr_failure_mode res = Crash \<and> rr_failure_origin res = Some OriginEnv \<longrightarrow> \<not> last bs)"

definition retry_post ::
    "bool \<Rightarrow> retry_state \<Rightarrow> bool list \<Rightarrow> loop_error + rollout_result \<Rightarrow> bool" where
  "retry_post deterministic st bs r \<longleftrightarrow> attempts_ok st bs \<and> r \<noteq> Inl OutOfFuel \<and>
     (\<forall>i m. r \<noteq> Inl (Raised (ExecutionDriftError i m))) \<and>
     (\<not> deterministic \<longrightarrow> False \<notin> set (tl bs)) \<and>
     (\<forall>res. r = Inr res \<longrightarrow> result_ok st bs res)"

lemma with_retries_ok:
  assumes "rollout_ok r" "rr_infra_retries r = []" "rt_drift st \<longrightarrow> rt_retries st \<noteq> []"
  shows "result_ok st [rt_drift st] (with_retries st r)"
  using assms by (auto simp: result_ok_def with_retries_def rollout_ok_def)

lemma retry_post_one:
  "(\<And>i m. r \<noteq> Inl (Raised (ExecutionDriftError i m))) \<Longrightarrow> r \<noteq> Inl OutOfFuel \<Longrightarrow>
   (\<And>res. r = Inr res \<Longrightarrow> result_ok st [rt_drift st] res) \<Longrightarrow> retry_post d st [rt_drift st] r"
  by (auto simp: retry_post_def attempts_ok_one)

lemma retry_post_Cons:
  assumes "retry_post d st' bs r" and "retries_left st' < retries_left st"
    and "rt_drift st \<longrightarrow> rt_drift st'" and "rt_retries st' = rt_retries st @ [x]"
    and "\<not> d \<longrightarrow> rt_drift st'"
  shows "retry_post d st (rt_drift st # bs) r"
proof -
  have ne: "bs \<noteq> []" using assms(1) by (simp add: retry_post_def attempts_ok_def)
  have "\<not> d \<Longrightarrow> False \<notin> set bs" using assms(1,5) by (auto simp: retry_post_def attempts_ok_def)
  moreover have "result_ok st (rt_drift st # bs) res" if "result_ok st' bs res" for res
    using that assms(4) ne unfolding result_ok_def by (auto intro: exI [of _ "x # _"])
  ultimately show ?thesis
    using assms(1) attempts_ok_Cons [OF _ assms(2,3), of bs] by (auto simp: retry_post_def)
qed

lemma retry_loop_post:
  assumes "live_never_drifts attempt" and good: "good_attempts attempt"
    and "retries_left st < fuel" and "rt_drift st \<longrightarrow> rt_retries st \<noteq> []"
    and "retry_loop attempt task_id d ats fuel st s = (r, s')"
  shows "\<exists>bs. sm_forced s' = sm_forced s @ bs \<and> retry_post d st bs r"
  using assms(3-5)
proof (induction fuel arbitrary: st s)
  case 0
  then show ?case by simp
next
  case (Suc n)
  note run = Suc.prems(3) [unfolded retry_loop.simps(2)]
  obtain a s1 where a: "run_attempt attempt (rt_drift st) s = (a, s1)" by fastforce
  note f1 = run_attempt_forced [OF a]
  have one: "sm_forced s' = sm_forced s @ [rt_drift st]" if "s' = s1" using that f1 by simp
  have again: "\<exists>bs. sm_forced s' = sm_forced s @ bs \<and> retry_post d st bs r"
    if st': "retries_left st' < retries_left st" "rt_drift st \<longrightarrow> rt_drift st'"
      "rt_retries st' = rt_retries st @ [x]" "\<not> d \<longrightarrow> rt_drift st'"
      and loop: "retry_loop attempt task_id d ats n st' (note_retry u v s1) = (r, s')" for st' x u v
  proof -
    have "retries_left st' < n" "rt_drift st' \<longrightarrow> rt_retries st' \<noteq> []" using st'(1,3) Suc.prems(1) by auto
    from Suc.IH [OF this loop] obtain bs where "sm_forced s' = sm_forced s1 @ bs" "retry_post d st' bs r" by auto
    with retry_post_Cons [OF _ st'] f1 show ?thesis by (intro exI [of _ "rt_drift st # bs"]) simp
  qed
  show ?case
  proof (cases a)
    case (Inl e)
    show ?thesis
    proof (cases "\<exists>i m. e = ExecutionDriftError i m")
      case True
      then obtain i m where e: "e = ExecutionDriftError i m" by blast
      have nd: "\<not> rt_drift st"
        using assms(1) a Inl e by (auto simp: live_never_drifts_def run_attempt_def split: prod.splits)
      show ?thesis
        using run a Inl e nd
        by (intro again [of "st\<lparr>rt_drift := True, rt_retries := rt_retries st @ [ExecutionDriftRetry i]\<rparr>"])
          (auto simp: retries_left_def)
    next
      case False
      then have "r = Inl (Raised e)" "s' = s1" using run a Inl by (auto split: rexc.splits)
      with False one show ?thesis
        by (intro exI [of _ "[rt_drift st]"]) (auto intro: retry_post_one)
    qed
  next
    case (Inr res)
    have ok: "rollout_ok res" "rr_infra_retries res = []"
      using good a Inr by (auto simp: good_attempts_def run_attempt_def split: prod.splits)
    let ?c = "if \<not> d then Inr None else slow_llm_timeout_retry res ats"
    show ?thesis
    proof (cases "\<exists>entry. ?c = Inr (Some entry) \<and> \<not> rt_slow st")
      case True
      then obtain entry where c: "?c = Inr (Some entry)" "\<not> rt_slow st" by blast
      then have "d" by (auto split: if_splits)
      with run a Inr c show ?thesis
        by (intro again [of "st\<lparr>rt_slow := True, rt_retries := rt_retries st @ [entry]\<rparr>"])
          (auto simp: retries_left_def)
    next
      case False
      have "s' = s1 \<and> (r = Inr (with_retries st res) \<or> (\<exists>e. r = Inl (Raised e) \<and> slow_llm_timeout_retry res ats = Inl e))"
        using False run a Inr by (auto split: sum.splits option.splits if_splits)
      moreover have "slow_llm_timeout_retry res ats \<noteq> Inl (ExecutionDriftError i m)" for i m
        by (auto simp: slow_llm_timeout_retry_def metric_def res_simps Let_def split: option.splits if_splits)
      ultimately show ?thesis
        using one with_retries_ok [OF ok Suc.prems(2)]
        by (intro exI [of _ "[rt_drift st]"]) (auto intro!: retry_post_one)
    qed
  qed
qed

lemma retries_post:
  assumes "live_never_drifts attempt" "good_attempts attempt" "3 \<le> fuel"
    and "run_rollout_with_infra_retries attempt task_id deterministic ats fuel s = (r, s')"
  shows "\<exists>bs. sm_forced s' = sm_forced s @ bs \<and>
    retry_post deterministic \<lparr>rt_retries = [], rt_drift = False, rt_slow = False\<rparr> bs r"
  using assms(4) unfolding run_rollout_with_infra_retries_def
  by (rule retry_loop_post [OF assms(1,2), rotated 2]) (use assms(3) in \<open>simp_all add: retries_left_def\<close>)

text \<open>
  C22. Infrastructure retries are bounded and honest: when attempts forced live meet no drift, a task
  takes at most three attempts, every one after the first drift is forced live, and a provider that
  is not deterministic is never resampled except to go live after a drift. The loop ends, no drift
  escapes it, the result is well formed and lists exactly the retries that happened, and after a
  drift no result blames the environment's crash on a scorable failure.
\<close>

theorem infra_retries_bounded:
  assumes "live_never_drifts attempt" "good_attempts attempt" "3 \<le> fuel"
    and "run_rollout_with_infra_retries attempt task_id deterministic ats fuel s = (r, s')"
  shows "\<exists>bs. sm_forced s' = sm_forced s @ bs \<and> bs \<noteq> [] \<and> length bs \<le> 3 \<and> sorted bs \<and>
    (\<not> deterministic \<longrightarrow> False \<notin> set (tl bs)) \<and>
    r \<noteq> Inl OutOfFuel \<and> (\<forall>i m. r \<noteq> Inl (Raised (ExecutionDriftError i m))) \<and>
    (\<forall>res. r = Inr res \<longrightarrow> rollout_ok res \<and> Suc (length (rr_infra_retries res)) = length bs \<and>
       (rr_failure_mode res = Crash \<and> rr_failure_origin res = Some OriginEnv \<longrightarrow> \<not> last bs))"
proof -
  from retries_post [OF assms] obtain bs where bs: "sm_forced s' = sm_forced s @ bs"
    and post: "retry_post deterministic \<lparr>rt_retries = [], rt_drift = False, rt_slow = False\<rparr> bs r" by blast
  from post have "bs \<noteq> []" "length bs \<le> 3" "sorted bs"
    by (auto simp: retry_post_def attempts_ok_def retries_left_def)
  moreover have "rollout_ok res \<and> Suc (length (rr_infra_retries res)) = length bs \<and>
      (rr_failure_mode res = Crash \<and> rr_failure_origin res = Some OriginEnv \<longrightarrow> \<not> last bs)"
    if "r = Inr res" for res
    using post that by (auto simp: retry_post_def result_ok_def)
  ultimately show ?thesis using bs post by (intro exI [of _ bs]) (simp add: retry_post_def)
qed

text \<open>An attempt that drifts when it replays and solves when it is live.\<close>

definition drifting_attempt :: "unit attempt" where
  "drifting_attempt forced e = (if forced then (Inr (sample_rollout ''t'' Solved), e) else (Inl (drift_error 4), e))"

theorem infra_retries_bounded_witness:
  "\<exists>res s'. run_rollout_with_infra_retries drifting_attempt ''t'' True 100 3
      \<lparr>sm_env = (), sm_forced = [], sm_archived = [], sm_log = []\<rparr> = (Inr res, s') \<and>
    rr_infra_retries res = [ExecutionDriftRetry 4] \<and> sm_forced s' = [False, True] \<and> rollout_ok res"
proof -
  let ?s = "\<lparr>sm_env = (), sm_forced = [], sm_archived = [], sm_log = []\<rparr> :: unit sampling"
  obtain r s' where run: "run_rollout_with_infra_retries drifting_attempt ''t'' True 100 3 ?s = (r, s')"
    by fastforce
  have "live_never_drifts drifting_attempt" "good_attempts drifting_attempt"
    by (auto simp: live_never_drifts_def good_attempts_def drifting_attempt_def sample_rollout_def rollout_ok_def
        split: if_splits)
  note bounded = infra_retries_bounded [OF this _ run]
  have "\<exists>res. r = Inr res \<and> rr_infra_retries res = [ExecutionDriftRetry 4] \<and> sm_forced s' = [False, True]"
    using run
    by (auto simp: run_rollout_with_infra_retries_def numeral_3_eq_3 retry_loop.simps(2) run_attempt_def
        drifting_attempt_def drift_error_def note_retry_def slow_llm_timeout_retry_def sample_rollout_def
        with_retries_def)
  with bounded run show ?thesis by auto
qed

section \<open>A whole panel\<close>

record run_facts =
  xf_id :: string
  xf_commit :: string
  xf_identity :: measurement_identity
  xf_dirty :: bool
  xf_config_path :: "string option"
  xf_started_at :: nat
  xf_tasks :: "string list"
  xf_config :: json

definition initial_experiment :: "run_facts \<Rightarrow> experiment_result" where
  "initial_experiment xf =
     \<lparr>ex_experiment_id = xf_id xf, ex_git_commit_hash = xf_commit xf,
      ex_measurement_identity = xf_identity xf, ex_git_dirty = xf_dirty xf,
      ex_config_path = xf_config_path xf, ex_kind = None, ex_parent_commit_hash = None,
      ex_baseline_experiment_id = None, ex_config = None, ex_started_at = xf_started_at xf,
      ex_finished_at = None, ex_crash_reason = None, ex_tasks = map (\<lambda>t. (t, None)) (xf_tasks xf),
      ex_decision = None, ex_determinism_certification = None\<rparr>"

text \<open>The tasks finish in any order; the first failure cancels the ones still running.\<close>

fun finish_tasks :: "string \<Rightarrow> (rexc + rollout_result) list \<Rightarrow> run_store \<Rightarrow> (rexc + unit) \<times> run_store" where
  "finish_tasks run_id [] st = (Inr (), st)"
| "finish_tasks run_id (Inl e # rest) st = (Inl e, st)"
| "finish_tasks run_id (Inr r # rest) st =
     (case log_rollout st run_id r of
        Inl e \<Rightarrow> (Inl (PlainExc e), st)
      | Inr st' \<Rightarrow> finish_tasks run_id rest st')"

definition run_experiment ::
    "run_facts \<Rightarrow> (rexc + unit) \<Rightarrow> (rexc + rollout_result) list \<Rightarrow> nat \<Rightarrow> run_store \<Rightarrow>
       (rexc + experiment_result) \<times> run_store" where
  "run_experiment xf loaded_tasks finished now st =
     (let st0 = save_experiment st (initial_experiment xf);
          (outcome, st1) = (case loaded_tasks of
              Inl e \<Rightarrow> (Inl e, st0) | Inr _ \<Rightarrow> finish_tasks (xf_id xf) finished st0)
      in case outcome of
           Inl e \<Rightarrow>
             (case mark_crashed st1 (xf_id xf) (error_text (to_exc e)) now of
                Inl x \<Rightarrow> (Inl (PlainExc x), st1) | Inr (st2, _) \<Rightarrow> (Inl e, st2))
         | Inr _ \<Rightarrow>
             (case load_experiment st1 (xf_id xf) of
                Inl x \<Rightarrow> (Inl (PlainExc x), st1)
              | Inr e \<Rightarrow>
                  (let completed = e\<lparr>ex_finished_at := Some now, ex_config := Some (xf_config xf)\<rparr>
                   in (Inr completed, save_experiment st1 completed))))"

text \<open>The run of a panel while it is measured: who has finished, and with what.\<close>

definition running :: "run_facts \<Rightarrow> (string \<rightharpoonup> rollout_result) \<Rightarrow> experiment_result \<Rightarrow> bool" where
  "running xf results e \<longleftrightarrow> ex_experiment_id e = xf_id xf \<and> ex_finished_at e = None \<and>
     ex_crash_reason e = None \<and> ex_git_commit_hash e = xf_commit xf \<and>
     ex_measurement_identity e = xf_identity xf \<and> as_parsed e = e \<and> fst ` set (ex_tasks e) = set (xf_tasks xf) \<and>
     distinct (map fst (ex_tasks e)) \<and> dom results \<subseteq> set (xf_tasks xf) \<and>
     (\<forall>t \<in> set (xf_tasks xf). map_of (ex_tasks e) t = Some (map_option parsed_rollout (results t)))"

lemma parsed_keys: "set (map fst (ex_tasks (as_parsed e))) = set (map fst (ex_tasks e))"
    "distinct (map fst (ex_tasks (as_parsed e))) \<longleftrightarrow> distinct (map fst (ex_tasks e))"
proof -
  let ?f = "\<lambda>(t, r). (t, map_option parsed_rollout r)"
  have "map fst (ex_tasks (as_parsed e)) = sort (map fst (ex_tasks e))"
    by (simp add: as_parsed_def map_sort_key [of "\<lambda>x. x" fst fst] o_def case_prod_beta)
  then show "set (map fst (ex_tasks (as_parsed e))) = set (map fst (ex_tasks e))"
    "distinct (map fst (ex_tasks (as_parsed e))) \<longleftrightarrow> distinct (map fst (ex_tasks e))"
    by simp_all
qed

lemma running_start:
  assumes "distinct (xf_tasks xf)"
  shows "load_experiment (save_experiment st (initial_experiment xf)) (xf_id xf) = Inr (as_parsed (initial_experiment xf))"
    and "running xf Map.empty (as_parsed (initial_experiment xf))"
proof -
  let ?e = "initial_experiment xf"
  have f: "ex_experiment_id ?e = xf_id xf" "ex_finished_at ?e = None" "ex_crash_reason ?e = None"
    "ex_git_commit_hash ?e = xf_commit xf" "ex_measurement_identity ?e = xf_identity xf"
    "ex_tasks ?e = map (\<lambda>t. (t, None)) (xf_tasks xf)" by (simp_all add: initial_experiment_def)
  have "experiment_ok ?e" by (auto simp: experiment_ok_iff f)
  then show "load_experiment (save_experiment st ?e) (xf_id xf) = Inr (as_parsed ?e)"
    by (simp add: load_saved f validate_experiment_Inr)
  have "t \<in> set ts \<Longrightarrow> map_of (map (\<lambda>t. (t, None :: rollout_result option)) ts) t = Some None"
    for t and ts :: "string list"
    by (induction ts) auto
  then have "\<forall>t \<in> set (xf_tasks xf). map_of (map (\<lambda>t. (t, None :: rollout_result option)) (xf_tasks xf)) t = Some None"
    by blast
  moreover have "set (map fst (ex_tasks (as_parsed ?e))) = set (xf_tasks xf)"
    unfolding parsed_keys f by (simp add: o_def)
  moreover have "distinct (map fst (ex_tasks (as_parsed ?e)))"
    unfolding parsed_keys f using assms by (simp add: o_def)
  ultimately show "running xf Map.empty (as_parsed ?e)"
    by (simp add: running_def f as_parsed_idem map_of_parsed)
qed

lemma logged_keeps:
  "ex_git_commit_hash (logged e r) = ex_git_commit_hash e" "ex_measurement_identity (logged e r) = ex_measurement_identity e"
  by (simp_all add: logged_def as_parsed_def)

lemma running_step:
  assumes "running xf res e" and "load_experiment st (xf_id xf) = Inr e" and "rollout_ok r"
    and "rr_task_id r \<in> set (xf_tasks xf)"
  shows "\<exists>st'. log_rollout st (xf_id xf) r = Inr st' \<and> load_experiment st' (xf_id xf) = Inr (logged e r) \<and>
    running xf (res(rr_task_id r \<mapsto> r)) (logged e r)"
proof -
  have e: "ex_experiment_id e = xf_id xf" "ex_finished_at e = None" "as_parsed e = e"
    using assms(1) by (simp_all add: running_def)
  note t = logged_tasks [OF e(3), of r]
  have "distinct (map fst (ex_tasks (logged e r)))"
    unfolding logged_def parsed_keys using assms(1) by (simp add: running_def distinct_update)
  then have "running xf (res(rr_task_id r \<mapsto> r)) (logged e r)"
    using assms(1,4) t logged_keeps [of e r] by (auto simp: running_def insert_absorb)
  with log_rollout_logged [OF assms(2) e(1,2) assms(3)] show ?thesis by blast
qed

lemma finish_tasks_running:
  assumes "running xf res e" and "load_experiment st (xf_id xf) = Inr e"
    and "\<forall>r \<in> set rs. rollout_ok r \<and> rr_task_id r \<in> set (xf_tasks xf)"
  shows "\<exists>e' st'. (\<forall>rest. finish_tasks (xf_id xf) (map Inr rs @ rest) st = finish_tasks (xf_id xf) rest st') \<and>
    load_experiment st' (xf_id xf) = Inr e' \<and> running xf (res ++ map_of (rev (map (\<lambda>r. (rr_task_id r, r)) rs))) e'"
  using assms
proof (induction rs arbitrary: res e st)
  case Nil
  then show ?case by auto
next
  case (Cons r rs)
  from running_step [OF Cons.prems(1,2)] Cons.prems(3) obtain st1 where
    st1: "log_rollout st (xf_id xf) r = Inr st1" "load_experiment st1 (xf_id xf) = Inr (logged e r)"
      "running xf (res(rr_task_id r \<mapsto> r)) (logged e r)" by auto
  have "\<forall>r \<in> set rs. rollout_ok r \<and> rr_task_id r \<in> set (xf_tasks xf)" using Cons.prems(3) by simp
  from Cons.IH [OF st1(3,2) this] obtain e' st' where
    "\<forall>rest. finish_tasks (xf_id xf) (map Inr rs @ rest) st1 = finish_tasks (xf_id xf) rest st'"
    "load_experiment st' (xf_id xf) = Inr e'"
    "running xf (res(rr_task_id r \<mapsto> r) ++ map_of (rev (map (\<lambda>r. (rr_task_id r, r)) rs))) e'" by blast
  then show ?case using st1(1) by (intro exI [of _ e'] exI [of _ st']) simp
qed

lemma running_lookup:
  assumes "running xf (map_of (rev (map (\<lambda>r. (rr_task_id r, r)) rs))) e" and "distinct (map rr_task_id rs)"
    and "r \<in> set rs"
  shows "map_of (ex_tasks e) (rr_task_id r) = Some (Some (parsed_rollout r))"
proof -
  let ?m = "map_of (rev (map (\<lambda>r. (rr_task_id r, r)) rs))"
  have "?m (rr_task_id r) = Some r"
    using assms(2,3) by (intro map_of_is_SomeI) (auto simp: rev_map [symmetric] o_def)
  moreover from this have "rr_task_id r \<in> set (xf_tasks xf)"
    using assms(1) by (auto simp: running_def)
  ultimately show ?thesis using assms(1) by (simp add: running_def)
qed

lemma running_complete:
  assumes run: "running xf (map_of (rev (map (\<lambda>r. (rr_task_id r, r)) rs))) e" and "distinct (map rr_task_id rs)"
    and "set (map rr_task_id rs) = set (xf_tasks xf)" and "experiment_ok e"
  shows "experiment_ok (e\<lparr>ex_finished_at := Some now, ex_config := c\<rparr>)"
proof -
  have "\<exists>r. ro = Some r \<and> rr_task_id r = k" if "(k, ro) \<in> set (ex_tasks e)" for k ro
  proof -
    have "map_of (ex_tasks e) k = Some ro" using that run by (simp add: running_def)
    moreover have "k \<in> set (xf_tasks xf)" using that run by (force simp: running_def)
    then obtain r where "r \<in> set rs" "k = rr_task_id r" using assms(3) by auto
    ultimately show ?thesis using running_lookup [OF run assms(2)] by auto
  qed
  then show ?thesis using assms(4) by (auto simp: experiment_ok_iff)
qed

text \<open>A panel whose tasks all finish ends as one complete, valid run that the store serves.\<close>

lemma panel_completes:
  assumes "distinct (xf_tasks xf)" and "distinct (map rr_task_id rs)" and "\<forall>r \<in> set rs. rollout_ok r"
    and "set (map rr_task_id rs) = set (xf_tasks xf)"
  shows "\<exists>e st'. run_experiment xf (Inr ()) (map Inr rs) now st = (Inr e, st') \<and> experiment_ok e \<and>
    ex_finished_at e = Some now \<and> ex_crash_reason e = None \<and> ex_git_commit_hash e = xf_commit xf \<and>
    ex_measurement_identity e = xf_identity xf \<and> fst ` set (ex_tasks e) = set (xf_tasks xf) \<and>
    (\<forall>r \<in> set rs. map_of (ex_tasks e) (rr_task_id r) = Some (Some (parsed_rollout r))) \<and>
    load_experiment st' (xf_id xf) = Inr (as_parsed e)"
proof -
  let ?st0 = "save_experiment st (initial_experiment xf)" and ?m = "map_of (rev (map (\<lambda>r. (rr_task_id r, r)) rs))"
  have rs: "\<forall>r \<in> set rs. rollout_ok r \<and> rr_task_id r \<in> set (xf_tasks xf)" using assms(3,4) by auto
  obtain e st1 where st1: "\<And>rest. finish_tasks (xf_id xf) (map Inr rs @ rest) ?st0 = finish_tasks (xf_id xf) rest st1"
    "load_experiment st1 (xf_id xf) = Inr e" "running xf ?m e"
    using finish_tasks_running [OF running_start(2,1) [OF assms(1)] rs, of st] by auto
  have e: "ex_experiment_id e = xf_id xf" "ex_crash_reason e = None" "fst ` set (ex_tasks e) = set (xf_tasks xf)"
    "ex_git_commit_hash e = xf_commit xf" "ex_measurement_identity e = xf_identity xf"
    using st1(3) by (simp_all add: running_def)
  have ok: "experiment_ok e" using st1(2) by (simp add: load_Inr)
  let ?d = "e\<lparr>ex_finished_at := Some now, ex_config := Some (xf_config xf)\<rparr>"
  have d: "experiment_ok ?d" by (rule running_complete [OF st1(3) assms(2) assms(4) ok])
  then have "validate_experiment (as_parsed ?d) = Inr (as_parsed ?d)" by (simp add: validate_experiment_Inr)
  then have "load_experiment (save_experiment st1 ?d) (xf_id xf) = Inr (as_parsed ?d)"
    by (simp add: load_saved e)
  with d st1(1) [of "[]"] st1(2) e running_lookup [OF st1(3) assms(2)] show ?thesis
    by (intro exI [of _ ?d] exI [of _ "save_experiment st1 ?d"]) (simp add: run_experiment_def Let_def)
qed

text \<open>A panel in which a task raises ends as a crashed run that holds what finished before.\<close>

lemma panel_crashes:
  assumes "distinct (xf_tasks xf)" and "distinct (map rr_task_id rs)" and "\<forall>r \<in> set rs. rollout_ok r"
    and "set (map rr_task_id rs) \<subseteq> set (xf_tasks xf)"
  shows "\<exists>c st'. run_experiment xf (Inr ()) (map Inr rs @ Inl x # rest) now st = (Inl x, st') \<and>
    load_experiment st' (xf_id xf) = Inr c \<and> ex_crash_reason c = Some (error_text (to_exc x)) \<and>
    (\<forall>r \<in> set rs. map_of (ex_tasks c) (rr_task_id r) = Some (Some (parsed_rollout r)))"
proof -
  let ?st0 = "save_experiment st (initial_experiment xf)" and ?m = "map_of (rev (map (\<lambda>r. (rr_task_id r, r)) rs))"
  have rs: "\<forall>r \<in> set rs. rollout_ok r \<and> rr_task_id r \<in> set (xf_tasks xf)" using assms(3,4) by auto
  obtain e st1 where st1: "\<And>rest. finish_tasks (xf_id xf) (map Inr rs @ rest) ?st0 = finish_tasks (xf_id xf) rest st1"
    "load_experiment st1 (xf_id xf) = Inr e" "running xf ?m e"
    using finish_tasks_running [OF running_start(2,1) [OF assms(1)] rs, of st] by auto
  have e: "ex_experiment_id e = xf_id xf" "ex_crash_reason e = None" "as_parsed e = e" using st1(3) by (simp_all add: running_def)
  have ok: "experiment_ok e" using st1(2) by (simp add: load_Inr)
  note entry = running_lookup [OF st1(3) assms(2)]
  let ?c = "e\<lparr>ex_finished_at := Some now, ex_crash_reason := Some (error_text (to_exc x))\<rparr>"
  have "as_parsed ?c = (as_parsed e)\<lparr>ex_finished_at := Some now, ex_crash_reason := Some (error_text (to_exc x))\<rparr>"
    by (simp add: as_parsed_def)
  then have cp: "as_parsed ?c = ?c" unfolding e(3) .
  have "experiment_ok ?c" using ok by (auto simp: experiment_ok_iff)
  then have v: "validate_experiment ?c = Inr ?c" by (simp add: validate_experiment_Inr)
  have mark: "mark_crashed st1 (xf_id xf) (error_text (to_exc x)) now = Inr (save_experiment st1 ?c, ?c)"
    using st1(2) e(2) by (simp add: mark_crashed_def Let_def)
  have load: "load_experiment (save_experiment st1 ?c) (xf_id xf) = Inr ?c"
    unfolding load_saved cp using v by (simp add: e(1))
  have run: "run_experiment xf (Inr ()) (map Inr rs @ Inl x # rest) now st = (Inl x, save_experiment st1 ?c)"
    by (simp add: run_experiment_def Let_def st1(1) mark)
  have "ex_crash_reason ?c = Some (error_text (to_exc x))" "ex_tasks ?c = ex_tasks e" by simp_all
  with run load entry show ?thesis by metis
qed

end
