(* ===== verification/Logger.thy ===== *)
theory Logger
  imports Records
begin

text \<open>
  \<open>src/trainer/logger.py\<close>: what a training run prints. The live region of a terminal is modelled with
  the screen it draws on, the tallies of a measurement with the results they derive from, and each
  event of the logger as a step of its state; an event outside of its lifecycle is the
  \<open>AssertionError\<close> of the code. The clock is an argument (seconds), so is the wall clock of a run
  that has no end (microseconds). Characters above U+00FF are written as their UTF-8 bytes.
\<close>

section \<open>The live region\<close>

text \<open>
  The terminal: a printed line is one row below the last, and \<open>ESC [ n A\<close> with \<open>ESC [ 0 J\<close> moves up
  \<open>n\<close> rows and clears what is below. A line is assumed not to wrap, as the code does.
\<close>

datatype term_op = PrintLine string | EraseRows nat

fun term_step :: "string list \<Rightarrow> term_op \<Rightarrow> string list" where
  "term_step rows (PrintLine s) = rows @ [s]"
| "term_step rows (EraseRows n) = take (length rows - n) rows"

definition term_run :: "string list \<Rightarrow> term_op list \<Rightarrow> string list" where
  "term_run rows ops = foldl term_step rows ops"

record live_region =
  lr_lines :: "string list"
  lr_tail :: nat

type_synonym drawing = "term_op list \<times> live_region"

definition drop_last :: "nat \<Rightarrow> 'a list \<Rightarrow> 'a list" where
  "drop_last n xs = take (length xs - n) xs"

definition region_erase :: "nat \<Rightarrow> live_region \<Rightarrow> drawing" where
  "region_erase n r = (if n = 0 then ([], r) else ([EraseRows n], r\<lparr>lr_lines := drop_last n (lr_lines r)\<rparr>))"

definition region_draw :: "string list \<Rightarrow> live_region \<Rightarrow> drawing" where
  "region_draw ls r = (map PrintLine ls, r\<lparr>lr_lines := lr_lines r @ ls\<rparr>)"

definition set_active :: "string list \<Rightarrow> live_region \<Rightarrow> drawing" where
  "set_active ls r =
     (let (o1, r1) = region_erase (lr_tail r) r; (o2, r2) = region_draw ls r1 in (o1 @ o2, r2\<lparr>lr_tail := length ls\<rparr>))"

definition refresh_active :: "string list \<Rightarrow> live_region \<Rightarrow> drawing" where
  "refresh_active ls r = (if lr_tail r \<noteq> 0 then set_active ls r else ([], r))"

definition settle :: "string list \<Rightarrow> live_region \<Rightarrow> drawing" where
  "settle ls r =
     (let (o1, r1) = region_erase (lr_tail r) r; (o2, r2) = region_draw ls (r1\<lparr>lr_tail := 0\<rparr>) in (o1 @ o2, r2))"

definition print_above :: "string \<Rightarrow> live_region \<Rightarrow> drawing" where
  "print_above line r =
     (let held = lr_lines r; (o1, r1) = region_erase (length held) r; (o2, r2) = region_draw held r1
      in (o1 @ PrintLine line # o2, r2))"

definition collapse :: "string \<Rightarrow> live_region \<Rightarrow> drawing" where
  "collapse line r =
     (let (o1, r1) = region_erase (length (lr_lines r)) r in (o1 @ [PrintLine line], r1\<lparr>lr_tail := 0\<rparr>))"

section \<open>Text\<close>

definition DOT :: string where "DOT = '' '' @ [CHR 0xB7] @ '' ''"
definition ARROW :: string where "ARROW = '' '' @ [CHR 0xE2, CHR 0x86, CHR 0x92] @ '' ''"
definition EM_DASH :: string where "EM_DASH = '' '' @ [CHR 0xE2, CHR 0x80, CHR 0x94] @ '' ''"
definition FULL_BLOCK :: string where "FULL_BLOCK = [CHR 0xE2, CHR 0x96, CHR 0x88]"
definition LIGHT_SHADE :: string where "LIGHT_SHADE = [CHR 0xE2, CHR 0x96, CHR 0x91]"
definition ESC_GREEN :: string where "ESC_GREEN = CHR 0x1B # ''[32m''"
definition ESC_RED :: string where "ESC_RED = CHR 0x1B # ''[31m''"
definition ESC_BOLD :: string where "ESC_BOLD = CHR 0x1B # ''[1m''"
definition ESC_DIM :: string where "ESC_DIM = CHR 0x1B # ''[2m''"
definition ESC_RESET :: string where "ESC_RESET = CHR 0x1B # ''[0m''"
definition INDENT :: string where "INDENT = ''  ''"
definition BAR_WIDTH :: nat where "BAR_WIDTH = 26"
definition INITIAL_SNAPSHOT_SILENCE_SEC :: rat where "INITIAL_SNAPSHOT_SILENCE_SEC = 120"
definition SNAPSHOT_INTERVAL_SEC :: rat where "SNAPSHOT_INTERVAL_SEC = 300"

definition pad_right :: "nat \<Rightarrow> string \<Rightarrow> string" where
  "pad_right n s = s @ replicate (n - length s) (CHR '' '')"

definition pad_left :: "nat \<Rightarrow> string \<Rightarrow> string" where
  "pad_left n s = replicate (n - length s) (CHR '' '') @ s"

definition stage_column :: "string \<Rightarrow> string" where
  "stage_column name = pad_right 9 name @ DOT"

definition pad_two :: "nat \<Rightarrow> string" where
  "pad_two n = (if n < 10 then ''0'' @ nat_str n else nat_str n)"

definition format_duration :: "rat option \<Rightarrow> string" where
  "format_duration seconds =
     (case seconds of
        None \<Rightarrow> ''-''
      | Some s \<Rightarrow>
          (let n = nat \<lfloor>s\<rfloor>; hours = n div 3600; minutes = n mod 3600 div 60; secs = n mod 60
           in if hours \<noteq> 0 then nat_str hours @ ''h'' @ pad_two minutes @ ''m''
              else if minutes \<noteq> 0 then nat_str minutes @ ''m'' @ pad_two secs @ ''s''
              else nat_str secs @ ''s''))"

text \<open>Microseconds to seconds; \<open>now_us\<close> is the wall clock.\<close>

definition elapsed_since :: "nat \<Rightarrow> nat option \<Rightarrow> nat option \<Rightarrow> rat option" where
  "elapsed_since now_us started finished =
     (case started of
        None \<Rightarrow> None
      | Some t0 \<Rightarrow>
          (let t1 = (case finished of None \<Rightarrow> now_us | Some t \<Rightarrow> t) in Some (max 0 ((of_nat t1 - of_nat t0) / 1000000))))"

definition underscores :: "string \<Rightarrow> string" where
  "underscores s = map (\<lambda>c. if c = CHR ''_'' then CHR '' '' else c) s"

definition score :: "experiment_result \<Rightarrow> nat \<times> nat" where
  "score r = (card (solved_task_ids r), length (ex_tasks r))"

section \<open>Failure modes\<close>

fun mode_name :: "failure_mode \<Rightarrow> string" where
  "mode_name Solved = ''solved''"
| "mode_name VerifiedRejected = ''verified_rejected''"
| "mode_name HitStepCap = ''hit_step_cap''"
| "mode_name HitTimeout = ''hit_timeout''"
| "mode_name VerifyTimeout = ''verify_timeout''"
| "mode_name NoValidAction = ''no_valid_action''"
| "mode_name Crash = ''crash''"
| "mode_name UnscorableInfra = ''unscorable_infra''"

definition MODE_ORDER :: "string list" where
  "MODE_ORDER = map mode_name [VerifiedRejected, HitStepCap, HitTimeout, VerifyTimeout, NoValidAction, Crash, UnscorableInfra]"

definition UNSCORABLE_NAMES :: "string list" where
  "UNSCORABLE_NAMES = map mode_name [Crash, UnscorableInfra]"

definition NOTEWORTHY_FAILURES :: "string list" where
  "NOTEWORTHY_FAILURES = map mode_name [Crash, UnscorableInfra, VerifyTimeout] @ [''hit_timeout'']"

section \<open>One measurement\<close>

record measure_view =
  mv_subject :: string
  mv_task_ids :: "string list"
  mv_baseline :: "experiment_result option"
  mv_started_at :: rat
  mv_experiment_id :: "string option"
  mv_snapshot_printed :: bool
  mv_results :: "(string, string) dict"
  mv_last_output_at :: rat

definition mk_measure_view :: "string \<Rightarrow> string list \<Rightarrow> experiment_result option \<Rightarrow> rat \<Rightarrow> measure_view" where
  "mk_measure_view subject task_ids baseline started =
     \<lparr>mv_subject = subject, mv_task_ids = task_ids, mv_baseline = baseline, mv_started_at = started, mv_experiment_id = None,
      mv_snapshot_printed = False, mv_results = [], mv_last_output_at = started\<rparr>"

definition baseline_solved :: "measure_view \<Rightarrow> string set" where
  "baseline_solved m = (case mv_baseline m of None \<Rightarrow> {} | Some b \<Rightarrow> solved_task_ids b)"

definition solved_count :: "measure_view \<Rightarrow> nat" where
  "solved_count m = length (filter (\<lambda>(_, mode). mode = ''solved'') (mv_results m))"

definition new_solve_count :: "measure_view \<Rightarrow> nat" where
  "new_solve_count m =
     (if mv_baseline m = None then 0
      else length (filter (\<lambda>(t, mode). mode = ''solved'' \<and> t \<notin> baseline_solved m) (mv_results m)))"

definition regression_count :: "measure_view \<Rightarrow> nat" where
  "regression_count m = length (filter (\<lambda>(t, mode). mode \<noteq> ''solved'' \<and> t \<in> baseline_solved m) (mv_results m))"

definition failure_count :: "measure_view \<Rightarrow> string \<Rightarrow> nat" where
  "failure_count m mode = length (filter (\<lambda>(_, x). x \<noteq> ''solved'' \<and> x = mode) (mv_results m))"

definition comparison_text :: "measure_view \<Rightarrow> string" where
  "comparison_text m =
     (if mv_baseline m = None then []
      else DOT @ ''+'' @ nat_str (new_solve_count m) @ '' new'' @ DOT @ nat_str (regression_count m) @ '' regr'')"

definition exclusion_text :: "measure_view \<Rightarrow> string option" where
  "exclusion_text m =
     (case mv_baseline m of
        None \<Rightarrow> None
      | Some b \<Rightarrow>
          (let excluded = int (length (ex_tasks b)) - int (length (mv_task_ids m))
           in if excluded = 0 then None else Some (int_str excluded @ '' excluded (nondet)'')))"

section \<open>The logger\<close>

record stdout_logger =
  sl_show_task_progress :: bool
  sl_live :: bool
  sl_region :: live_region
  sl_run_started_at :: "rat option"
  sl_initial_score :: "(nat \<times> nat) option"
  sl_epoch_label :: "string option"
  sl_epoch_started_at :: rat
  sl_decision :: "result_decision option"
  sl_skip_cause :: "string option"
  sl_baseline_score :: "(nat \<times> nat) option"
  sl_candidate_score :: "(nat \<times> nat) option"
  sl_measurement :: "measure_view option"
  sl_out :: "term_op list"

definition mk_stdout_logger :: "bool \<Rightarrow> bool \<Rightarrow> stdout_logger" where
  "mk_stdout_logger show_task_progress live =
     \<lparr>sl_show_task_progress = show_task_progress, sl_live = live, sl_region = \<lparr>lr_lines = [], lr_tail = 0\<rparr>,
      sl_run_started_at = None, sl_initial_score = None, sl_epoch_label = None, sl_epoch_started_at = 0, sl_decision = None,
      sl_skip_cause = None, sl_baseline_score = None, sl_candidate_score = None, sl_measurement = None, sl_out = []\<rparr>"

definition on_region :: "(live_region \<Rightarrow> drawing) \<Rightarrow> stdout_logger \<Rightarrow> stdout_logger" where
  "on_region f s = (let (os, r) = f (sl_region s) in s\<lparr>sl_region := r, sl_out := sl_out s @ os\<rparr>)"

definition active_view :: "stdout_logger \<Rightarrow> exc + measure_view" where
  "active_view s = (case sl_measurement s of None \<Rightarrow> Inl (AssertionError []) | Some m \<Rightarrow> Inr m)"

definition style :: "stdout_logger \<Rightarrow> string \<Rightarrow> string \<Rightarrow> string" where
  "style s code t = (if sl_live s then code @ t @ ESC_RESET else t)"

definition emit :: "rat \<Rightarrow> string \<Rightarrow> string \<Rightarrow> stdout_logger \<Rightarrow> stdout_logger" where
  "emit now stage detail s =
     (let s1 = on_region (print_above (stage_column stage @ detail)) s
      in case sl_measurement s1 of
        Some m \<Rightarrow> (if stage = ''measure'' then s1\<lparr>sl_measurement := Some (m\<lparr>mv_last_output_at := now\<rparr>)\<rparr> else s1)
      | None \<Rightarrow> s1)"

definition starts_with :: "string \<Rightarrow> string \<Rightarrow> bool" where
  "starts_with p s \<longleftrightarrow> take (length p) s = p"

fun substring :: "string \<Rightarrow> string \<Rightarrow> bool" where
  "substring p [] \<longleftrightarrow> p = []"
| "substring p (c # cs) \<longleftrightarrow> starts_with p (c # cs) \<or> substring p cs"

definition log_line :: "rat \<Rightarrow> string \<Rightarrow> stdout_logger \<Rightarrow> stdout_logger" where
  "log_line now line s =
     (if starts_with ''determinism:'' line then (if substring ''excluded 0/'' line then s else emit now ''measure'' line s)
      else on_region (print_above line) s)"

definition run_started :: "rat \<Rightarrow> string \<Rightarrow> (string \<times> string) list \<Rightarrow> stdout_logger \<Rightarrow> stdout_logger" where
  "run_started now title rows s =
     fold (\<lambda>(label, detail) t. on_region (print_above (style t ESC_DIM (''  '' @ pad_right 9 label @ '' '' @ detail))) t) rows
       (on_region (print_above title) (s\<lparr>sl_run_started_at := Some now\<rparr>))"

definition epoch_started :: "rat \<Rightarrow> nat \<Rightarrow> nat \<Rightarrow> experiment_result option \<Rightarrow> stdout_logger \<Rightarrow> stdout_logger" where
  "epoch_started now epoch epochs baseline s =
     (let label = nat_str epoch @ ''/'' @ nat_str epochs;
          s1 = s\<lparr>sl_epoch_label := Some label, sl_epoch_started_at := now, sl_decision := None, sl_skip_cause := None,
                 sl_baseline_score := None, sl_candidate_score := None, sl_measurement := None\<rparr>;
          s2 = (case baseline of
                  None \<Rightarrow> s1
                | Some b \<Rightarrow> (if sl_initial_score s1 = None then s1\<lparr>sl_initial_score := Some (score b)\<rparr> else s1));
          header = ''epoch '' @ label @
            (case baseline of None \<Rightarrow> [] | Some b \<Rightarrow> DOT @ ''baseline solved '' @ nat_str (fst (score b)) @ ''/'' @ nat_str (snd (score b)))
      in if sl_live s2 then on_region (settle [header]) s2 else on_region (print_above header) s2)"

definition outcome_name :: "decision_outcome \<Rightarrow> string" where
  "outcome_name d = (case d of Promoted \<Rightarrow> ''promoted'' | Rejected \<Rightarrow> ''rejected'' | InvalidInfra \<Rightarrow> ''invalid_infra'')"

definition decision_cause :: "result_decision \<Rightarrow> string" where
  "decision_cause d =
     (let detail = (if rd_reason d = ''regressed_baseline_tasks'' then Some (''regressed'', rd_regressions d)
                    else if rd_reason d = ''strict_improvement_without_regression'' then Some (''new solves'', rd_new_solves d)
                    else if rd_reason d = ''infra_sensitive_verdict'' then Some (''invalid infra'', rd_invalid_infra_tasks d)
                    else None)
      in case detail of
        Some (label, names) \<Rightarrow> (if names \<noteq> [] then label @ '' '' @ join_str '', '' names else underscores (rd_reason d))
      | None \<Rightarrow> underscores (rd_reason d))"

definition movement_parts :: "stdout_logger \<Rightarrow> string list" where
  "movement_parts s =
     (case (sl_baseline_score s, sl_candidate_score s) of
        (Some (b, _), Some (solved, n)) \<Rightarrow>
          [nat_str b @ ARROW @ nat_str solved @ ''/'' @ nat_str n @
           (case sl_decision s of
              Some d \<Rightarrow> (if rd_new_solves d \<noteq> [] then '' ('' @ join_str '', '' (map (\<lambda>t. ''+'' @ t) (rd_new_solves d)) @ '')'' else [])
            | None \<Rightarrow> [])]
      | _ \<Rightarrow> [])"

definition epoch_summary :: "stdout_logger \<Rightarrow> string \<Rightarrow> string \<Rightarrow> string \<Rightarrow> string" where
  "epoch_summary s label outcome elapsed =
     (let promoted = (outcome = ''promoted'');
          parts = [''epoch '' @ label] @
            (if promoted then style s (ESC_GREEN @ ESC_BOLD) ''PROMOTED'' # movement_parts s
             else underscores outcome #
               (case sl_decision s of Some d \<Rightarrow> [decision_cause d]
                | None \<Rightarrow> (case sl_skip_cause s of Some c \<Rightarrow> [c] | None \<Rightarrow> []))) @
            (case sl_measurement s of Some m \<Rightarrow> (case mv_experiment_id m of Some i \<Rightarrow> [i] | None \<Rightarrow> []) | None \<Rightarrow> []) @ [elapsed];
          line = join_str DOT parts
      in if promoted then line else style s ESC_DIM line)"

definition mode_tally :: "measure_view \<Rightarrow> string list \<Rightarrow> string list" where
  "mode_tally m modes = map (\<lambda>x. x @ '' '' @ nat_str (failure_count m x)) (filter (\<lambda>x. failure_count m x \<noteq> 0) modes)"

definition infra_suffix :: "stdout_logger \<Rightarrow> string" where
  "infra_suffix s =
     (case sl_measurement s of
        None \<Rightarrow> []
      | Some m \<Rightarrow>
          (let infra = join_str DOT (mode_tally m (filter (\<lambda>x. x \<in> set UNSCORABLE_NAMES) MODE_ORDER))
           in if infra \<noteq> [] then DOT @ style s ESC_RED infra else []))"

definition epoch_finished :: "rat \<Rightarrow> string \<Rightarrow> stdout_logger \<Rightarrow> exc + stdout_logger" where
  "epoch_finished now outcome s =
     (case sl_epoch_label s of
        None \<Rightarrow> Inl (AssertionError [])
      | Some label \<Rightarrow>
          (let line = epoch_summary s label outcome (format_duration (Some (now - sl_epoch_started_at s))) @ infra_suffix s;
               s1 = (if sl_live s then on_region (collapse line) s else on_region (print_above line) s)
           in Inr (s1\<lparr>sl_epoch_label := None\<rparr>)))"

definition progress_bar :: "nat \<Rightarrow> nat \<Rightarrow> string" where
  "progress_bar finished panel =
     (let filled = (if panel \<noteq> 0 then nat (round_even (of_nat finished / of_nat panel * of_nat BAR_WIDTH)) else BAR_WIDTH)
      in concat (replicate filled FULL_BLOCK) @ concat (replicate (BAR_WIDTH - filled) LIGHT_SHADE))"

definition removeprefix :: "string \<Rightarrow> string \<Rightarrow> string" where
  "removeprefix p s = (if starts_with p s then drop (length p) s else s)"

definition measurement_lines :: "rat \<Rightarrow> stdout_logger \<Rightarrow> measure_view \<Rightarrow> string list" where
  "measurement_lines now s m =
     (let indent = (if mv_subject m = ''candidate'' then INDENT else []);
          finished = length (mv_results m); panel = length (mv_task_ids m);
          parts = [''solved '' @ nat_str (solved_count m)] @
            (if mv_baseline m = None then []
             else let new = ''+'' @ nat_str (new_solve_count m) @ '' new''; regr = nat_str (regression_count m) @ '' regr''
                  in [if new_solve_count m \<noteq> 0 then style s ESC_GREEN new else new,
                      if regression_count m \<noteq> 0 then style s ESC_RED regr else regr]) @
            mode_tally m MODE_ORDER;
          gutter = indent @ replicate 12 (CHR '' '');
          trace = (case mv_experiment_id m of Some i \<Rightarrow> [removeprefix ''exp-'' i] | None \<Rightarrow> []) @
            (case exclusion_text m of Some x \<Rightarrow> [x] | None \<Rightarrow> [])
      in [indent @ stage_column (mv_subject m) @ progress_bar finished panel @ ''  '' @ pad_left 2 (nat_str finished) @ ''/'' @
            nat_str panel @ '' done'' @ DOT @ format_duration (Some (now - mv_started_at m))] @
         (if trace \<noteq> [] then [gutter @ style s ESC_DIM (join_str DOT trace)] else []) @
         [gutter @ style s ESC_DIM (join_str DOT parts)])"

definition measurement_started ::
    "rat \<Rightarrow> string list \<Rightarrow> experiment_result option \<Rightarrow> string \<Rightarrow> stdout_logger \<Rightarrow> stdout_logger" where
  "measurement_started now task_ids baseline subject s =
     (let m = mk_measure_view subject task_ids baseline now;
          s1 = s\<lparr>sl_measurement := Some m, sl_baseline_score := map_option score baseline\<rparr>
      in if sl_live s1 then on_region (set_active (measurement_lines now s1 m)) s1 else s1)"

definition experiment_started :: "rat \<Rightarrow> string \<Rightarrow> stdout_logger \<Rightarrow> exc + stdout_logger" where
  "experiment_started now experiment_id s =
     bind_res (active_view s) (\<lambda>m0.
       let m = m0\<lparr>mv_experiment_id := Some experiment_id\<rparr>; s1 = s\<lparr>sl_measurement := Some m\<rparr>
       in Inr (if sl_live s1 then on_region (refresh_active (measurement_lines now s1 m)) s1
               else emit now ''measure'' (mv_subject m @ DOT @ experiment_id @ DOT @ nat_str (length (mv_task_ids m)) @ '' tasks'') s1))"

definition task_event :: "stdout_logger \<Rightarrow> measure_view \<Rightarrow> string \<Rightarrow> string \<Rightarrow> string option" where
  "task_event s m task_id mode =
     (let was = task_id \<in> baseline_solved m; is = (mode = ''solved''); panel = nat_str (length (mv_task_ids m));
          note = (if mode \<in> set NOTEWORTHY_FAILURES then Some (task_id @ DOT @ mode) else None)
      in if mv_baseline m = None then
           (if sl_show_task_progress s
            then Some (nat_str (length (mv_results m)) @ ''/'' @ panel @ '' complete'' @ DOT @ ''solved '' @ nat_str (solved_count m) @
              ''/'' @ panel @ DOT @ task_id @ DOT @ mode)
            else note)
         else if is \<and> \<not> was then Some (''NEW SOLVE'' @ DOT @ task_id)
         else if was \<and> \<not> is then Some (''REGRESSION'' @ DOT @ task_id @ '' ('' @ mode @ '')'')
         else note)"

definition task_finished :: "rat \<Rightarrow> string \<Rightarrow> string \<Rightarrow> stdout_logger \<Rightarrow> exc + stdout_logger" where
  "task_finished now task_id mode s =
     bind_res (active_view s) (\<lambda>m0.
       let m = m0\<lparr>mv_results := AList.update task_id mode (mv_results m0)\<rparr>; s1 = s\<lparr>sl_measurement := Some m\<rparr>
       in Inr (if sl_live s1 then on_region (set_active (measurement_lines now s1 m)) s1
               else case task_event s1 m task_id mode of Some line \<Rightarrow> emit now ''measure'' line s1 | None \<Rightarrow> s1))"

definition measurement_heartbeat :: "rat \<Rightarrow> stdout_logger \<Rightarrow> exc + stdout_logger" where
  "measurement_heartbeat now s =
     bind_res (active_view s) (\<lambda>m.
       if sl_live s then Inr (on_region (refresh_active (measurement_lines now s m)) s)
       else
         let interval = (if mv_snapshot_printed m then SNAPSHOT_INTERVAL_SEC else INITIAL_SNAPSHOT_SILENCE_SEC);
             remaining = filter (\<lambda>t. t \<notin> fst ` set (mv_results m)) (mv_task_ids m);
             detail = nat_str (length (mv_results m)) @ ''/'' @ nat_str (length (mv_task_ids m)) @ '' complete'' @
               comparison_text m @ DOT @ format_duration (Some (now - mv_started_at m)) @
               (if 0 < length remaining \<and> length remaining \<le> 3 then DOT @ ''waiting: '' @ join_str '', '' remaining else [])
         in if now - mv_last_output_at m < interval then Inr s
            else let s1 = emit now ''measure'' detail s
                 in Inr (s1\<lparr>sl_measurement := map_option (\<lambda>m. m\<lparr>mv_snapshot_printed := True\<rparr>) (sl_measurement s1)\<rparr>))"

definition finished_line :: "nat \<Rightarrow> experiment_result \<Rightarrow> stdout_logger \<Rightarrow> measure_view \<Rightarrow> string" where
  "finished_line now_us result s m =
     stage_column (mv_subject m) @ ''solved '' @ nat_str (fst (score result)) @ ''/'' @ nat_str (snd (score result)) @
     comparison_text m @ (case exclusion_text m of Some x \<Rightarrow> DOT @ x | None \<Rightarrow> []) @ DOT @
     format_duration (elapsed_since now_us (Some (ex_started_at result)) (ex_finished_at result)) @ infra_suffix s"

definition keep_score :: "experiment_result \<Rightarrow> measure_view \<Rightarrow> stdout_logger \<Rightarrow> stdout_logger" where
  "keep_score result m s =
     (if mv_subject m = ''candidate'' then s\<lparr>sl_candidate_score := Some (score result)\<rparr>
      else if sl_initial_score s = None then s\<lparr>sl_initial_score := Some (score result)\<rparr> else s)"

definition experiment_finished :: "nat \<Rightarrow> experiment_result \<Rightarrow> stdout_logger \<Rightarrow> exc + stdout_logger" where
  "experiment_finished now_us result s =
     bind_res (active_view s) (\<lambda>m.
       let line = finished_line now_us result s m; s1 = keep_score result m s
       in Inr (if \<not> sl_live s1 then on_region (print_above line) s1
               else if mv_subject m = ''candidate'' then on_region (settle [INDENT @ line]) s1
               else on_region (print_above line) (on_region (settle []) s1)))"

definition experiment_failed :: "string \<Rightarrow> stdout_logger \<Rightarrow> exc + stdout_logger" where
  "experiment_failed message s =
     (let s1 = (if sl_live s then on_region (settle []) s else s)
      in bind_res (active_view s1) (\<lambda>m.
           Inr (on_region (print_above (stage_column (mv_subject m) @ ''FAILED'' @ EM_DASH @ takeWhile (\<lambda>c. c \<noteq> nl) message)) s1)))"

definition measurement_retrying :: "rat \<Rightarrow> string \<Rightarrow> stdout_logger \<Rightarrow> stdout_logger" where
  "measurement_retrying now reason s = emit now ''measure'' (''retry'' @ DOT @ reason) s"

definition agent_progress :: "string \<Rightarrow> string \<Rightarrow> stdout_logger \<Rightarrow> stdout_logger" where
  "agent_progress stage line s =
     (let t = stage_column stage @ line
      in if sl_live s \<and> starts_with (''running '' @ [CHR 0xB7]) line then on_region (set_active [INDENT @ t]) s
         else if sl_live s \<and> starts_with (''done '' @ [CHR 0xB7]) line then on_region (settle [INDENT @ t]) s
         else on_region (print_above t) s)"

definition decision_finished :: "result_decision \<Rightarrow> stdout_logger \<Rightarrow> stdout_logger" where
  "decision_finished d s = s\<lparr>sl_decision := Some d\<rparr>"

definition epoch_skipped :: "string \<Rightarrow> stdout_logger \<Rightarrow> stdout_logger" where
  "epoch_skipped cause s = s\<lparr>sl_skip_cause := Some (underscores cause)\<rparr>"

definition loop_finished ::
    "rat \<Rightarrow> nat \<Rightarrow> result_decision list \<Rightarrow> experiment_result option \<Rightarrow> stdout_logger \<Rightarrow> stdout_logger" where
  "loop_finished now epochs_run decisions baseline s =
     (case baseline of
        None \<Rightarrow> on_region (print_above (stage_column ''train'' @ ''done'' @ DOT @ nat_str epochs_run @ '' '' @
          (if epochs_run = 1 then ''epoch'' else ''epochs'') @ DOT @ ''baseline unavailable'')) s
      | Some b \<Rightarrow>
          (let promoted = length (filter (\<lambda>d. rd_outcome d = Promoted) decisions);
               rejected = length (filter (\<lambda>d. rd_outcome d = Rejected) decisions);
               skipped_epochs = int epochs_run - int (length decisions);
               outcomes = nat_str promoted @ '' promoted'' @ DOT @ nat_str rejected @ '' rejected'' @
                 (if skipped_epochs \<noteq> 0 then DOT @ int_str skipped_epochs @ '' skipped'' else []);
               initial = (case sl_initial_score s of Some i \<Rightarrow> i | None \<Rightarrow> score b);
               movement = style s ESC_BOLD (nat_str (fst initial) @ ARROW @ nat_str (fst (score b)) @ ''/'' @ nat_str (snd (score b)));
               detail = ''done'' @ DOT @ movement @ DOT @ outcomes @
                 (case sl_run_started_at s of Some t \<Rightarrow> DOT @ format_duration (Some (now - t)) | None \<Rightarrow> [])
           in on_region (print_above (stage_column ''train'' @ detail)) s))"

section \<open>The table of an evaluation\<close>

text \<open>\<open>Counter.most_common()\<close>: by falling count, ties in the order first seen.\<close>

definition most_common :: "string list \<Rightarrow> (string \<times> nat) list" where
  "most_common xs = sort_key (\<lambda>(_, n). - int n) (map (\<lambda>x. (x, count_list xs x)) (rev (remdups (rev xs))))"

definition result_failures :: "experiment_result \<Rightarrow> string list" where
  "result_failures r =
     (let modes = concat (map (\<lambda>(_, x). case x of Some y \<Rightarrow> (if rr_failure_mode y = Solved then [] else [mode_name (rr_failure_mode y)])
                                        | None \<Rightarrow> []) (ex_tasks r));
          unfinished = length (filter (\<lambda>(_, x). x = None) (ex_tasks r))
      in (if ex_crash_reason r \<noteq> None then [''CRASHED''] else []) @
         map (\<lambda>(x, n). x @ '' '' @ nat_str n) (most_common modes) @
         (if unfinished \<noteq> 0 then [''unfinished '' @ nat_str unfinished] else []))"

definition summary_row :: "nat \<Rightarrow> nat \<Rightarrow> experiment_result \<Rightarrow> string" where
  "summary_row now_us width r =
     ''  '' @ pad_right width (ex_experiment_id r) @ ''  '' @ pad_left 3 (nat_str (fst (score r))) @ ''/'' @
     pad_right 3 (nat_str (snd (score r))) @ ''  '' @
     pad_left 7 (format_duration (elapsed_since now_us (Some (ex_started_at r)) (ex_finished_at r))) @ ''  '' @
     (if result_failures r \<noteq> [] then join_str DOT (result_failures r) else ''-'')"

definition suite_summary :: "nat \<Rightarrow> experiment_result list \<Rightarrow> string list" where
  "suite_summary now_us results =
     (if results = [] then []
      else let starts = map ex_started_at results; ends = List.map_filter ex_finished_at results;
               wall = (if ends \<noteq> [] then elapsed_since now_us (Some (Min (set starts))) (Some (Max (set ends))) else None);
               width = Max (set (map (\<lambda>r. length (ex_experiment_id r)) results))
           in [[], stage_column ''summary'' @ nat_str (length results) @ '' runs'' @ DOT @ format_duration wall] @
              map (summary_row now_us width) results)"

section \<open>Nothing printed is ever erased\<close>

text \<open>
  Each drawing keeps the screen at history followed by the region's own lines, and only adds to the
  history.
\<close>

definition draws_below :: "(live_region \<Rightarrow> drawing) \<Rightarrow> bool" where
  "draws_below f \<longleftrightarrow> (\<forall>r hist. lr_tail r \<le> length (lr_lines r) \<longrightarrow>
     (\<exists>more. term_run (hist @ lr_lines r) (fst (f r)) = hist @ more @ lr_lines (snd (f r))) \<and>
     lr_tail (snd (f r)) \<le> length (lr_lines (snd (f r))))"

lemma term_run_simps [simp]:
  "term_run rows [] = rows" "term_run rows (o1 # os) = term_run (term_step rows o1) os"
  "term_run rows (os @ os') = term_run (term_run rows os) os'"
  by (simp_all add: term_run_def)

lemma term_run_prints [simp]: "term_run rows (map PrintLine ls) = rows @ ls"
  by (induction ls arbitrary: rows) simp_all

lemma erase_screen:
  "n \<le> length (lr_lines r) \<Longrightarrow> term_run (hist @ lr_lines r) (fst (region_erase n r)) = hist @ lr_lines (snd (region_erase n r))"
  "lr_lines (snd (region_erase n r)) = drop_last n (lr_lines r)" "lr_tail (snd (region_erase n r)) = lr_tail r"
  by (auto simp: region_erase_def drop_last_def)

lemma draws_below_ops [simp]:
  "draws_below (set_active ls)" "draws_below (refresh_active ls)" "draws_below (settle ls)" "draws_below (print_above l)"
  "draws_below (collapse l)"
proof -
  show active: "draws_below (set_active ls)"
    unfolding draws_below_def
  proof (intro allI impI)
    fix r :: live_region and hist :: "string list" assume "lr_tail r \<le> length (lr_lines r)"
    with erase_screen(1) [where r = r and n = "lr_tail r" and hist = hist] erase_screen(2,3) [of "lr_tail r" r]
    show "(\<exists>more. term_run (hist @ lr_lines r) (fst (set_active ls r)) = hist @ more @ lr_lines (snd (set_active ls r))) \<and>
      lr_tail (snd (set_active ls r)) \<le> length (lr_lines (snd (set_active ls r)))"
      by (auto simp: set_active_def region_draw_def case_prod_beta Let_def intro!: exI [of _ "[]"])
  qed
  then show "draws_below (refresh_active ls)"
    by (auto simp: draws_below_def refresh_active_def intro!: exI [of _ "[]"])
  show "draws_below (settle ls)"
    unfolding draws_below_def
  proof (intro allI impI)
    fix r :: live_region and hist :: "string list" assume "lr_tail r \<le> length (lr_lines r)"
    with erase_screen(1) [where r = r and n = "lr_tail r" and hist = hist] erase_screen(2,3) [of "lr_tail r" r]
    show "(\<exists>more. term_run (hist @ lr_lines r) (fst (settle ls r)) = hist @ more @ lr_lines (snd (settle ls r))) \<and>
      lr_tail (snd (settle ls r)) \<le> length (lr_lines (snd (settle ls r)))"
      by (auto simp: settle_def region_draw_def case_prod_beta Let_def intro!: exI [of _ "[]"])
  qed
  show "draws_below (print_above l)" "draws_below (collapse l)"
    using erase_screen(1) [where n = "length (lr_lines r)" and r = r for r] erase_screen(2,3)
    by (auto simp: draws_below_def print_above_def collapse_def region_draw_def case_prod_beta Let_def drop_last_def
        intro!: exI [of _ "[l]"])
qed

definition on_screen :: "stdout_logger \<Rightarrow> string list \<Rightarrow> bool" where
  "on_screen s hist \<longleftrightarrow> term_run [] (sl_out s) = hist @ lr_lines (sl_region s) \<and>
     lr_tail (sl_region s) \<le> length (lr_lines (sl_region s))"

definition extends :: "stdout_logger \<Rightarrow> stdout_logger \<Rightarrow> bool" where
  "extends s s' \<longleftrightarrow> (\<forall>hist. on_screen s hist \<longrightarrow> (\<exists>more. on_screen s' (hist @ more)))"

lemma extends_refl [simp]: "extends s s"
  by (auto simp: extends_def intro!: exI [of _ "[]"])

lemma extends_trans: "extends s t \<Longrightarrow> extends t u \<Longrightarrow> extends s u"
  unfolding extends_def by (metis append.assoc)

text \<open>Bookkeeping that leaves region and output alone.\<close>

lemma extends_same:
  "extends s t \<Longrightarrow> sl_region u = sl_region t \<Longrightarrow> sl_out u = sl_out t \<Longrightarrow> extends s u"
  "extends t u \<Longrightarrow> sl_region s = sl_region t \<Longrightarrow> sl_out s = sl_out t \<Longrightarrow> extends s u"
  by (simp_all add: extends_def on_screen_def)

lemma extends_draw: "draws_below f \<Longrightarrow> extends s (on_region f s)"
  unfolding extends_def
proof (intro allI impI)
  fix hist assume f: "draws_below f" and s: "on_screen s hist"
  obtain os r where fr: "f (sl_region s) = (os, r)" by fastforce
  from s have "lr_tail (sl_region s) \<le> length (lr_lines (sl_region s))" by (simp add: on_screen_def)
  with f obtain more where "term_run (hist @ lr_lines (sl_region s)) (fst (f (sl_region s))) = hist @ more @ lr_lines (snd (f (sl_region s)))"
      "lr_tail (snd (f (sl_region s))) \<le> length (lr_lines (snd (f (sl_region s))))"
    unfolding draws_below_def by blast
  with s fr show "\<exists>more. on_screen (on_region f s) (hist @ more)" by (auto simp: on_screen_def on_region_def)
qed

lemma extends_draw_after:
  "draws_below f \<Longrightarrow> sl_region t = sl_region s \<Longrightarrow> sl_out t = sl_out s \<Longrightarrow> extends s (on_region f t)"
  using extends_draw extends_same(2) by metis

lemma extends_draw_twice:
  "draws_below f \<Longrightarrow> draws_below g \<Longrightarrow> sl_region t = sl_region s \<Longrightarrow> sl_out t = sl_out s \<Longrightarrow>
     extends s (on_region g (on_region f t))"
  by (rule extends_trans [OF extends_draw_after extends_draw])

lemma on_region_live [simp]: "sl_live (on_region f s) = sl_live s"
  by (simp add: on_region_def case_prod_beta)

lemma extends_emit: "extends s (emit now stage detail s)"
  unfolding emit_def Let_def
  by (rule extends_same(1) [OF extends_draw [where f = "print_above (stage_column stage @ detail)"]])
    (auto split: option.split)

lemma extends_emit_update: "extends s ((emit now stage detail s)\<lparr>sl_measurement := x\<rparr>)"
  by (rule extends_same(1) [OF extends_emit]) simp_all

lemma extends_emit_after:
  "sl_region t = sl_region s \<Longrightarrow> sl_out t = sl_out s \<Longrightarrow> extends s (emit now stage detail t)"
  using extends_emit extends_same(2) by metis

text \<open>The events of the logger, and a run of them up to the first that is out of place.\<close>

datatype log_event =
    LogLine string
  | RunStarted string "(string \<times> string) list"
  | EpochStarted nat nat "experiment_result option"
  | EpochFinished string
  | MeasurementStarted "string list" "experiment_result option" string
  | ExperimentStarted string
  | TaskFinished string string
  | Heartbeat
  | ExperimentFinished nat experiment_result
  | ExperimentFailed string
  | Retrying string
  | AgentProgress string string
  | DecisionFinished result_decision
  | EpochSkipped string
  | LoopFinished nat "result_decision list" "experiment_result option"

fun log_step :: "rat \<Rightarrow> log_event \<Rightarrow> stdout_logger \<Rightarrow> exc + stdout_logger" where
  "log_step now (LogLine l) s = Inr (log_line now l s)"
| "log_step now (RunStarted t rows) s = Inr (run_started now t rows s)"
| "log_step now (EpochStarted e n b) s = Inr (epoch_started now e n b s)"
| "log_step now (EpochFinished x) s = epoch_finished now x s"
| "log_step now (MeasurementStarted ts b x) s = Inr (measurement_started now ts b x s)"
| "log_step now (ExperimentStarted x) s = experiment_started now x s"
| "log_step now (TaskFinished t x) s = task_finished now t x s"
| "log_step now Heartbeat s = measurement_heartbeat now s"
| "log_step now (ExperimentFinished us r) s = experiment_finished us r s"
| "log_step now (ExperimentFailed x) s = experiment_failed x s"
| "log_step now (Retrying x) s = Inr (measurement_retrying now x s)"
| "log_step now (AgentProgress x l) s = Inr (agent_progress x l s)"
| "log_step now (DecisionFinished d) s = Inr (decision_finished d s)"
| "log_step now (EpochSkipped x) s = Inr (epoch_skipped x s)"
| "log_step now (LoopFinished n ds b) s = Inr (loop_finished now n ds b s)"

fun log_run :: "(rat \<times> log_event) list \<Rightarrow> stdout_logger \<Rightarrow> exc + stdout_logger" where
  "log_run [] s = Inr s"
| "log_run ((now, e) # es) s = bind_res (log_step now e s) (log_run es)"

lemma extends_run_started: "extends s (run_started now t rows s)"
proof -
  have rows: "extends u (fold (\<lambda>(label, detail) t. on_region (print_above (style t ESC_DIM (''  '' @ pad_right 9 label @ '' '' @ detail))) t) rows u)" for u
  proof (induction rows arbitrary: u)
    case (Cons x rows)
    then show ?case using extends_trans [OF extends_draw [OF draws_below_ops(4)]] by (cases x) (simp, blast)
  qed simp
  have "extends s (on_region (print_above t) (s\<lparr>sl_run_started_at := Some now\<rparr>))" by (rule extends_draw_after) simp_all
  then show ?thesis unfolding run_started_def using rows by (rule extends_trans)
qed

lemma keep_score_same: "sl_region (keep_score r m s) = sl_region s" "sl_out (keep_score r m s) = sl_out s"
  by (simp_all add: keep_score_def)

lemma extends_keep: "sl_region u = sl_region s \<Longrightarrow> sl_out u = sl_out s \<Longrightarrow> extends s u"
  by (rule extends_same(1) [OF extends_refl])

lemma log_step_extends: "log_step now e s = Inr s' \<Longrightarrow> extends s s'"
proof (cases e)
  case (RunStarted t rows)
  then show "log_step now e s = Inr s' \<Longrightarrow> ?thesis" using extends_run_started by auto
next
  case (EpochStarted k n b)
  then show "log_step now e s = Inr s' \<Longrightarrow> ?thesis"
    by (auto simp: epoch_started_def Let_def intro!: extends_draw_after split: option.splits)
next
  case (ExperimentFinished us r)
  then show "log_step now e s = Inr s' \<Longrightarrow> ?thesis"
    by (auto simp: experiment_finished_def res_simps Let_def keep_score_same
        intro: extends_draw_after extends_draw_twice split: if_splits)
next
  case (ExperimentFailed x)
  then show "log_step now e s = Inr s' \<Longrightarrow> ?thesis"
    by (auto simp: experiment_failed_def res_simps Let_def intro: extends_draw extends_trans [OF extends_draw extends_draw]
        split: if_splits)
next
  case (EpochFinished x)
  then show "log_step now e s = Inr s' \<Longrightarrow> ?thesis"
    by (auto simp: epoch_finished_def Let_def intro!: extends_same(1) [OF extends_draw] split: option.splits if_splits)
next
  case Heartbeat
  then show "log_step now e s = Inr s' \<Longrightarrow> ?thesis"
    by (auto simp: measurement_heartbeat_def res_simps Let_def intro: extends_draw extends_emit_update split: if_splits)
next
  case (LoopFinished n ds b)
  then show "log_step now e s = Inr s' \<Longrightarrow> ?thesis"
    by (auto simp: loop_finished_def Let_def intro: extends_draw split: option.splits)
qed (auto simp: log_line_def measurement_started_def experiment_started_def task_finished_def measurement_retrying_def
    agent_progress_def decision_finished_def epoch_skipped_def res_simps Let_def
    intro: extends_draw extends_draw_after extends_emit extends_emit_after extends_keep
    split: if_splits option.splits)

lemma log_run_extends: "log_run es s = Inr s' \<Longrightarrow> extends s s'"
proof (induction es s rule: log_run.induct)
  case (2 now e es s)
  then obtain t where t: "log_step now e s = Inr t" "log_run es t = Inr s'" by (auto simp: res_simps)
  with 2 show ?case using log_step_extends [OF t(1)] by (auto intro: extends_trans)
qed simp

text \<open>
  From any point of a run on, what was history on the screen stays, in order, at the top of it.
\<close>

lemma history_stays:
  assumes "log_run es (mk_stdout_logger progress live) = Inr s" and "log_run es' s = Inr s'"
  shows "\<exists>hist more. term_run [] (sl_out s) = hist @ lr_lines (sl_region s) \<and>
    term_run [] (sl_out s') = hist @ more @ lr_lines (sl_region s')"
proof -
  have "on_screen (mk_stdout_logger progress live) []" by (simp add: on_screen_def mk_stdout_logger_def)
  with log_run_extends [OF assms(1)] obtain hist where "on_screen s hist" by (auto simp: extends_def)
  moreover from this log_run_extends [OF assms(2)] obtain more where "on_screen s' (hist @ more)" by (auto simp: extends_def)
  ultimately show ?thesis by (auto simp: on_screen_def)
qed

section \<open>Tallies\<close>

lemma failure_solved [simp]: "failure_count m ''solved'' = 0"
  by (simp add: failure_count_def)

lemma length_filter_partition:
  "distinct ks \<Longrightarrow> (\<And>x. x \<in> set xs \<Longrightarrow> f x \<in> set ks) \<Longrightarrow> sum_list (map (\<lambda>k. length (filter (\<lambda>x. f x = k) xs)) ks) = length xs"
proof (induction xs)
  case (Cons x xs)
  have one: "distinct ks \<Longrightarrow> sum_list (map (\<lambda>k. (if y = k then 1 else 0)) ks) = (if y \<in> set ks then Suc 0 else 0)" for ks y
    by (induction ks) auto
  have "sum_list (map (\<lambda>k. length (filter (\<lambda>y. f y = k) (x # xs))) ks) =
      sum_list (map (\<lambda>k. (if f x = k then 1 else 0 :: nat)) ks) + sum_list (map (\<lambda>k. length (filter (\<lambda>y. f y = k) xs)) ks)"
    by (subst sum_list_addf [symmetric]) (rule arg_cong [where f = sum_list], auto)
  also have "sum_list (map (\<lambda>k. (if f x = k then 1 else 0 :: nat)) ks) = 1"
    using Cons.prems one [of ks "f x"] by simp
  finally show ?case using Cons by simp
qed simp

text \<open>Every finished task is in exactly one bucket of the line.\<close>

lemma tallies_complete:
  assumes "\<And>t mode. (t, mode) \<in> set (mv_results m) \<Longrightarrow> mode \<in> range mode_name"
  shows "solved_count m + sum_list (map (failure_count m) MODE_ORDER) = length (mv_results m)"
proof -
  let ?modes = "''solved'' # MODE_ORDER"
  have "distinct ?modes" by (simp add: MODE_ORDER_def)
  moreover have "snd x \<in> set ?modes" if x: "x \<in> set (mv_results m)" for x
  proof -
    obtain md where "snd x = mode_name md" using x assms [of "fst x" "snd x"] by auto
    then show ?thesis by (cases md) (simp_all add: MODE_ORDER_def)
  qed
  ultimately have "sum_list (map (\<lambda>k. length (filter (\<lambda>x. snd x = k) (mv_results m))) ?modes) = length (mv_results m)"
    by (rule length_filter_partition)
  moreover have "failure_count m k = length (filter (\<lambda>x. snd x = k) (mv_results m))" if "k \<in> set MODE_ORDER" for k
  proof -
    have "k \<noteq> ''solved''" using that by (auto simp: MODE_ORDER_def)
    then show ?thesis unfolding failure_count_def by (intro arg_cong [where f = length] filter_cong) auto
  qed
  moreover have "solved_count m = length (filter (\<lambda>x. snd x = ''solved'') (mv_results m))"
    by (simp add: solved_count_def case_prod_unfold)
  ultimately show ?thesis by (simp cong: map_cong)
qed

text \<open>A measurement with an unscorable rollout says so on its collapsed line, and only such a one.\<close>

lemma join_tally: "join_str DOT (mode_tally m ks) \<noteq> [] \<longleftrightarrow> (\<exists>k \<in> set ks. failure_count m k \<noteq> 0)"
proof -
  have join: "join_str DOT (x # xs) \<noteq> []" if "x \<noteq> []" for x xs using that by (cases xs) simp_all
  have "mode_tally m ks \<noteq> [] \<longleftrightarrow> (\<exists>k \<in> set ks. failure_count m k \<noteq> 0)" by (auto simp: mode_tally_def filter_empty_conv)
  moreover have "x \<noteq> []" if "x \<in> set (mode_tally m ks)" for x using that by (auto simp: mode_tally_def)
  ultimately show ?thesis using join by (cases "mode_tally m ks") auto
qed

lemma infra_visible:
  assumes "sl_measurement s = Some m"
  shows "infra_suffix s \<noteq> [] \<longleftrightarrow> (\<exists>t mode. (t, mode) \<in> set (mv_results m) \<and> mode \<in> set UNSCORABLE_NAMES)"
proof -
  have dot: "DOT \<noteq> []" by (simp add: DOT_def)
  have "filter (\<lambda>x. x \<in> set UNSCORABLE_NAMES) MODE_ORDER = UNSCORABLE_NAMES"
    by (simp add: MODE_ORDER_def UNSCORABLE_NAMES_def)
  then have "infra_suffix s \<noteq> [] \<longleftrightarrow> (\<exists>k \<in> set UNSCORABLE_NAMES. failure_count m k \<noteq> 0)"
    using assms dot by (simp add: infra_suffix_def Let_def join_tally)
  also have "\<dots> \<longleftrightarrow> (\<exists>t mode. (t, mode) \<in> set (mv_results m) \<and> mode \<in> set UNSCORABLE_NAMES)"
  proof -
    have no: "''solved'' \<notin> set UNSCORABLE_NAMES" by (simp add: UNSCORABLE_NAMES_def)
    have "failure_count m k \<noteq> 0 \<longleftrightarrow> (\<exists>x \<in> set (mv_results m). snd x \<noteq> ''solved'' \<and> snd x = k)" for k
      unfolding failure_count_def length_0_conv filter_empty_conv by (simp only: case_prod_unfold) blast
    then have "failure_count m k \<noteq> 0 \<longleftrightarrow> (\<exists>t. (t, k) \<in> set (mv_results m))" if "k \<in> set UNSCORABLE_NAMES" for k
      using that no by (metis prod.collapse snd_conv)
    then show ?thesis by metis
  qed
  finally show ?thesis .
qed

end
