(* ===== verification/Launch.thy ===== *)
theory Launch
  imports Measurement Sampler Certify Logger
begin

text \<open>
  The measurement process from end to end: \<open>__main__\<close> and \<open>_experiment_worker\<close> of \<open>src/worker.py\<close>, the start of
  \<open>run_experiment\<close> (\<open>src/rollout/sampler.py\<close>: identifier, git ref, identity, events), and what the trusted
  parent of \<open>src/measurement.py\<close> makes of the process. \<open>worker_world\<close> is what the process finds around it.
\<close>

section \<open>Identifiers of experiments\<close>

text \<open>A \<open>datetime\<close> in UTC by its fields; \<open>strftime\<close> pads each to its width.\<close>

record utc_time =
  ut_year :: nat
  ut_month :: nat
  ut_day :: nat
  ut_hour :: nat
  ut_minute :: nat
  ut_second :: nat
  ut_microsecond :: nat

definition utc_ok :: "utc_time \<Rightarrow> bool" where
  "utc_ok t \<longleftrightarrow> ut_year t < 10000 \<and> ut_month t \<le> 12 \<and> ut_day t \<le> 31 \<and> ut_hour t < 24 \<and>
     ut_minute t < 60 \<and> ut_second t < 60 \<and> ut_microsecond t < 1000000"

fun pad_digits :: "nat \<Rightarrow> nat \<Rightarrow> string" where
  "pad_digits 0 n = []"
| "pad_digits (Suc w) n = pad_digits w (n div 10) @ [digit_char (n mod 10)]"

definition new_experiment_id :: "utc_time \<Rightarrow> string" where
  "new_experiment_id t =
     ''exp-'' @ pad_digits 4 (ut_year t) @ pad_digits 2 (ut_month t) @ pad_digits 2 (ut_day t) @ ''-'' @
     pad_digits 2 (ut_hour t) @ pad_digits 2 (ut_minute t) @ pad_digits 2 (ut_second t) @ ''-'' @
     pad_digits 6 (ut_microsecond t)"

lemma pad_digits_length [simp]: "length (pad_digits w n) = w"
  by (induction w n rule: pad_digits.induct) auto

lemma pad_digits_inj: "m < 10 ^ w \<Longrightarrow> n < 10 ^ w \<Longrightarrow> pad_digits w m = pad_digits w n \<Longrightarrow> m = n"
proof (induction w arbitrary: m n)
  case (Suc w)
  have "pad_digits w (m div 10) = pad_digits w (n div 10)" "digit_char (m mod 10) = digit_char (n mod 10)"
    using Suc.prems(3) by simp_all
  moreover have "m div 10 < 10 ^ w" "n div 10 < 10 ^ w"
    using Suc.prems(1,2) by (simp_all add: less_mult_imp_div_less mult.commute)
  ultimately have "m div 10 = n div 10" "m mod 10 = n mod 10"
    using Suc.IH digit_char_inj [of "m mod 10" "n mod 10"] by auto
  then show ?case by (metis div_mult_mod_eq)
qed simp

text \<open>Experiments started at different microseconds have different identifiers.\<close>

lemma new_experiment_id_fresh:
  assumes "utc_ok t" and "utc_ok u" and "new_experiment_id t = new_experiment_id u"
  shows "t = u"
proof -
  have "pad_digits 4 (ut_year t) = pad_digits 4 (ut_year u)" "pad_digits 2 (ut_month t) = pad_digits 2 (ut_month u)"
    "pad_digits 2 (ut_day t) = pad_digits 2 (ut_day u)" "pad_digits 2 (ut_hour t) = pad_digits 2 (ut_hour u)"
    "pad_digits 2 (ut_minute t) = pad_digits 2 (ut_minute u)" "pad_digits 2 (ut_second t) = pad_digits 2 (ut_second u)"
    "pad_digits 6 (ut_microsecond t) = pad_digits 6 (ut_microsecond u)"
    using assms(3) by (simp_all add: new_experiment_id_def)
  with assms(1,2) have "ut_year t = ut_year u" "ut_month t = ut_month u" "ut_day t = ut_day u" "ut_hour t = ut_hour u"
    "ut_minute t = ut_minute u" "ut_second t = ut_second u" "ut_microsecond t = ut_microsecond u"
    using pad_digits_inj [of _ 4] pad_digits_inj [of _ 2] pad_digits_inj [of _ 6] by (simp_all add: utc_ok_def)
  then show ?thesis by (cases t; cases u) simp
qed

section \<open>The run of an experiment\<close>

text \<open>The checkout the process runs in: HEAD, whether it is dirty, the refs of its repository.\<close>

record checkout =
  co_head :: string
  co_dirty :: bool
  co_refs :: "(string, string) dict"

definition run_ref :: "string \<Rightarrow> string" where
  "run_ref experiment_id = ''refs/experiments/runs/'' @ experiment_id"

text \<open>\<open>_save_run_ref\<close>: \<open>update_ref\<close> is git's answer, which refuses a malformed name.\<close>

definition save_run_ref :: "(string \<Rightarrow> string \<Rightarrow> exc + unit) \<Rightarrow> string \<Rightarrow> checkout \<Rightarrow> exc + checkout" where
  "save_run_ref update_ref experiment_id co =
     bind_res (update_ref (run_ref experiment_id) (co_head co)) (\<lambda>_.
       Inr (co\<lparr>co_refs := AList.update (run_ref experiment_id) (co_head co) (co_refs co)\<rparr>))"

record worker_world =
  ww_src_from_cwd :: bool
  ww_load_config :: "string \<Rightarrow> exc + run_config"
  ww_cache_env :: bool
  ww_cache_disabled :: bool
  ww_open_cache :: "exc + unit"
  ww_checkout :: checkout
  ww_update_ref :: "string \<Rightarrow> string \<Rightarrow> exc + unit"
  ww_utc :: utc_time
  ww_started_at :: nat
  ww_finished_at :: nat
  ww_sha :: "string \<Rightarrow> string"
  ww_fr :: "rat \<Rightarrow> string"
  ww_override :: "string option"
  ww_fingerprint :: "run_config \<Rightarrow> exc + string list"
  ww_dump :: "run_config \<Rightarrow> json"
  ww_load_tasks :: "run_config \<Rightarrow> rexc + unit"
  ww_finished :: "run_config \<Rightarrow> (rexc + rollout_result) list"

text \<open>\<open>run_one\<close> reports a task after its result is logged; a failing one is not reported.\<close>

fun task_events :: "string \<Rightarrow> (rexc + rollout_result) list \<Rightarrow> run_store \<Rightarrow> observed list" where
  "task_events run_id [] st = []"
| "task_events run_id (Inl e # rest) st = []"
| "task_events run_id (Inr r # rest) st =
     (case log_rollout st run_id r of
        Inl e \<Rightarrow> []
      | Inr st' \<Rightarrow> ObsTask (rr_task_id r) (mode_name (rr_failure_mode r)) # task_events run_id rest st')"

record experiment_end =
  xe_result :: "rexc + experiment_result"
  xe_events :: "observed list"
  xe_checkout :: checkout
  xe_store :: run_store

definition experiment_facts :: "worker_world \<Rightarrow> run_config \<Rightarrow> string \<Rightarrow> measurement_identity \<Rightarrow> run_facts" where
  "experiment_facts ww c i identity =
     \<lparr>xf_id = i, xf_commit = co_head (ww_checkout ww), xf_identity = identity,
      xf_dirty = co_dirty (ww_checkout ww), xf_config_path = rc_config_path c,
      xf_started_at = ww_started_at ww, xf_tasks = ev_task_names (rc_environment c), xf_config = ww_dump ww c\<rparr>"

definition chosen_id :: "worker_world \<Rightarrow> string option \<Rightarrow> string" where
  "chosen_id ww experiment_id =
     (case experiment_id of None \<Rightarrow> new_experiment_id (ww_utc ww)
      | Some i \<Rightarrow> if i = [] then new_experiment_id (ww_utc ww) else i)"

definition sample_experiment :: "worker_world \<Rightarrow> run_config \<Rightarrow> string option \<Rightarrow> run_store \<Rightarrow> experiment_end" where
  "sample_experiment ww c experiment_id st =
     (let i = chosen_id ww experiment_id
      in case save_run_ref (ww_update_ref ww) i (ww_checkout ww) of
           Inl e \<Rightarrow> \<lparr>xe_result = Inl (PlainExc e), xe_events = [], xe_checkout = ww_checkout ww, xe_store = st\<rparr>
         | Inr co \<Rightarrow>
             (case ww_fingerprint ww c of
                Inl e \<Rightarrow> \<lparr>xe_result = Inl (PlainExc e), xe_events = [], xe_checkout = co, xe_store = st\<rparr>
              | Inr regime \<Rightarrow>
                  (let identity = resolve_measurement_identity (ww_sha ww) (ww_fr ww) (ww_override ww) c regime;
                       xf = experiment_facts ww c i identity;
                       loaded = ww_load_tasks ww c;
                       finished = ww_finished ww c;
                       st0 = save_experiment st (initial_experiment xf);
                       (r, st') = run_experiment xf loaded finished (ww_finished_at ww) st
                   in \<lparr>xe_result = r,
                       xe_events = ObsStarted i # (case loaded of Inl _ \<Rightarrow> [] | Inr _ \<Rightarrow> task_events i finished st0),
                       xe_checkout = co, xe_store = st'\<rparr>)))"

section \<open>The process\<close>

text \<open>\<open>__main__\<close> and \<open>_experiment_worker\<close>. Nothing is stored or reported before the configuration stands.\<close>

definition no_experiment :: "worker_world \<Rightarrow> run_store \<Rightarrow> exc \<Rightarrow> experiment_end" where
  "no_experiment ww st e =
     \<lparr>xe_result = Inl (PlainExc e), xe_events = [], xe_checkout = ww_checkout ww, xe_store = st\<rparr>"

definition worker_main ::
    "(string \<Rightarrow> string + json) \<Rightarrow> worker_world \<Rightarrow> string list \<Rightarrow> run_store \<Rightarrow> experiment_end" where
  "worker_main loads ww argv st =
     (if \<not> ww_src_from_cwd ww then no_experiment ww st (AssertionError [])
      else case worker_args loads argv of
        None \<Rightarrow> no_experiment ww st (ValueError ''arguments'')
      | Some (config_path, experiments_root, task_ids, experiment_id) \<Rightarrow>
          (case worker_config (ww_load_config ww) (ww_cache_env ww) (ww_cache_disabled ww) (ww_open_cache ww)
                  config_path task_ids of
             Inl e \<Rightarrow> no_experiment ww st e
           | Inr c \<Rightarrow> sample_experiment ww c experiment_id st))"

text \<open>An uncaught exception ends the interpreter with status 1.\<close>

definition exit_status :: "experiment_end \<Rightarrow> int" where
  "exit_status xe = (case xe_result xe of Inl _ \<Rightarrow> 1 | Inr _ \<Rightarrow> 0)"

text \<open>\<open>_make_quiet_unraisablehook\<close>: what is swallowed of the errors in finalizers.\<close>

definition quiet_unraisable :: "exc option \<Rightarrow> string \<Rightarrow> bool" where
  "quiet_unraisable exc_value object_module \<longleftrightarrow>
     (\<exists>m. exc_value = Some (ValueError m) \<and> sublist ''I/O operation on closed file'' m) \<and>
     takeWhile (\<lambda>c. c \<noteq> CHR ''.'') object_module = ''urllib3''"

section \<open>What the parent sees\<close>

text \<open>The polls of the parent: an event, or nothing within a poll; \<open>late\<close> is what the pipe still holds when the
  process has ended.\<close>

type_synonym heard = "(observed option \<times> rat) list"

definition poll_of :: "(rat \<Rightarrow> string) \<Rightarrow> observed option \<times> rat \<Rightarrow> pipe_poll \<times> rat" where
  "poll_of fr h = (case fst h of None \<Rightarrow> (Silence, snd h) | Some ev \<Rightarrow> (Data (send_event fr ev), snd h))"

fun told :: "heard \<Rightarrow> observed list" where
  "told [] = []"
| "told ((None, t) # hs) = told hs"
| "told ((Some ev, t) # hs) = ev # told hs"

text \<open>The watchdog is never reached: nothing is silent for longer than it allows.\<close>

fun in_time :: "rat \<Rightarrow> heard \<Rightarrow> bool" where
  "in_time since [] = True"
| "in_time since ((None, t) # hs) = (t - since \<le> WATCHDOG_INACTIVITY_SEC \<and> in_time since hs)"
| "in_time since ((Some ev, t) # hs) = in_time t hs"

text \<open>Heartbeats and log lines come between the events of the run, from tasks of their own.\<close>

fun chatter :: "observed \<Rightarrow> bool" where
  "chatter (ObsLog _) = True"
| "chatter ObsHeartbeat = True"
| "chatter _ = False"

definition parent_view ::
    "(rat \<Rightarrow> string) \<Rightarrow> heard \<Rightarrow> observed list \<Rightarrow> experiment_end \<Rightarrow> nat \<Rightarrow> worker_run" where
  "parent_view fr live late xe now =
     \<lparr>wk_spawn = None, wk_rounds = map (poll_of fr) live, wk_rest = map (\<lambda>ev. Data (send_event fr ev)) late,
      wk_exitcode = exit_status xe, wk_store = xe_store xe, wk_now = now\<rparr>"

definition heard_from :: "rat \<Rightarrow> heard \<Rightarrow> observed list \<Rightarrow> experiment_end \<Rightarrow> bool" where
  "heard_from t live late xe \<longleftrightarrow>
     in_time t live \<and> filter (\<lambda>ev. \<not> chatter ev) (told live @ late) = xe_events xe"

lemma poll_of_simps [simp]:
  "poll_of fr (None, t) = (Silence, t)" "poll_of fr (Some ev, t) = (Data (send_event fr ev), t)"
  by (simp_all add: poll_of_def)

lemma watch_heard:
  assumes "loads_inverts k" and "in_time (su_last_activity s) live"
  shows "\<exists>s'. watch (rk_loads k) (map (poll_of (rk_fr k)) live) s = LoopDone False s' \<and>
    su_seen s' = su_seen s @ told live \<and> su_reported s' = last_started (told live) (su_reported s)"
  using assms(2)
proof (induction live arbitrary: s rule: told.induct)
  case 1
  show ?case by (rule exI [of _ s]) (simp add: last_started_def)
next
  case (2 t hs)
  then obtain s' where "watch (rk_loads k) (map (poll_of (rk_fr k)) hs) s = LoopDone False s'"
    "su_seen s' = su_seen s @ told hs" "su_reported s' = last_started (told hs) (su_reported s)" by auto
  with 2(2) show ?case by (intro exI [of _ s']) simp
next
  case (3 ev t hs)
  let ?s = "(observe ev s)\<lparr>su_last_activity := t\<rparr>"
  have "in_time (su_last_activity ?s) hs" using 3(2) by simp
  from 3(1) [OF this] obtain s' where "watch (rk_loads k) (map (poll_of (rk_fr k)) hs) ?s = LoopDone False s'"
    "su_seen s' = su_seen s @ ev # told hs"
    "su_reported s' = last_started (told hs) (su_reported (observe ev s))" by auto
  then show ?case
    by (intro exI [of _ s'])
      (simp add: forward_sent [OF assms(1)] observe_reported last_started_def)
qed

lemma last_started_quiet: "last_started (filter (\<lambda>ev. \<not> chatter ev) evs) r = last_started evs r"
proof (induction evs arbitrary: r)
  case (Cons ev evs)
  then show ?case by (cases ev) (simp_all add: last_started_def)
qed simp

lemma last_started_tasks: "last_started (ObsStarted i # map (\<lambda>r. ObsTask (f r) (g r)) rs) r0 = Some i"
proof -
  have "last_started (map (\<lambda>r. ObsTask (f r) (g r)) rs) r1 = r1" for r1
    by (induction rs) (simp_all add: last_started_def)
  then show ?thesis by (simp add: last_started_def)
qed

lemma parent_hears:
  assumes "loads_inverts k" and "heard_from t live late xe"
    and "xe_events xe = ObsStarted i # map (\<lambda>r. ObsTask (f r) (g r)) rs"
  shows "\<exists>s. run_isolated_experiment (rk_loads k) task_ids t (parent_view (rk_fr k) live late xe now) =
      judge_worker task_ids (parent_view (rk_fr k) live late xe now) False s \<and>
    su_seen s = told live @ late \<and> su_reported s = Some i"
proof -
  obtain s1 where s1: "watch (rk_loads k) (map (poll_of (rk_fr k)) live) (start_supervisor t) = LoopDone False s1"
    "su_seen s1 = told live" "su_reported s1 = last_started (told live) None"
    using watch_heard [OF assms(1), of "start_supervisor t" live] assms(2)
    by (auto simp: start_supervisor_def heard_from_def)
  obtain s2 where s2: "drain (rk_loads k) False (map (\<lambda>ev. Data (send_event (rk_fr k) ev)) late) s1 = LoopDone False s2"
    "su_seen s2 = told live @ late" "su_reported s2 = last_started (told live @ late) None"
    using drain_sent [OF assms(1), of False late s1] s1 by (auto simp: last_started_def)
  have "last_started (told live @ late) None = Some i"
    using last_started_quiet [of "told live @ late" None, symmetric] assms(2,3) last_started_tasks [of i f g rs None]
    unfolding heard_from_def by simp
  with s1(1) s2 show ?thesis
    by (intro exI [of _ s2]) (simp add: run_isolated_experiment_def parent_view_def supervise_def)
qed

section \<open>What the process does\<close>

text \<open>Everything a measurement needs before its tasks run is at hand; \<open>rs\<close> are the rollouts that finish, in
  that order, and \<open>failing\<close> what the tasks after them do.\<close>

definition healthy_start :: "worker_world \<Rightarrow> string \<Rightarrow> run_config \<Rightarrow> string list \<Rightarrow> string option \<Rightarrow> bool" where
  "healthy_start ww path c task_ids i \<longleftrightarrow>
     ww_src_from_cwd ww \<and> ww_load_config ww path = Inr c \<and> config_ok c \<and> ww_cache_env ww \<and>
     ww_open_cache ww = Inr () \<and> task_ids \<noteq> [] \<and> distinct task_ids \<and>
     ww_update_ref ww (run_ref (chosen_id ww i)) (co_head (ww_checkout ww)) = Inr ()"

definition panel_config :: "string list \<Rightarrow> run_config \<Rightarrow> run_config" where
  "panel_config task_ids c = c\<lparr>rc_environment := (rc_environment c)\<lparr>ev_task_names := task_ids\<rparr>\<rparr>"

definition sampled_rollouts ::
    "worker_world \<Rightarrow> run_config \<Rightarrow> string list \<Rightarrow> rollout_result list \<Rightarrow> (rexc + rollout_result) list \<Rightarrow> bool" where
  "sampled_rollouts ww c task_ids rs failing \<longleftrightarrow>
     ww_load_tasks ww c = Inr () \<and> ww_finished ww c = map Inr rs @ failing \<and>
     distinct (map rr_task_id rs) \<and> (\<forall>r \<in> set rs. rollout_ok r) \<and> set (map rr_task_id rs) \<subseteq> set task_ids"

lemma worker_config_panel:
  assumes "healthy_start ww path c task_ids i"
  shows "worker_config (ww_load_config ww) (ww_cache_env ww) (ww_cache_disabled ww) (ww_open_cache ww) path task_ids =
    Inr (panel_config task_ids c)"
proof -
  have ok: "config_ok c" using assms by (simp add: healthy_start_def)
  obtain c' where c': "with_task_panel task_ids c = Inr c'"
    using with_task_panel_cases(1) [OF ok, of task_ids] assms by (auto simp: healthy_start_def)
  then have "c' = panel_config task_ids c"
    using with_task_panel_cases(2) [OF ok c'] by (simp add: panel_config_def)
  with c' assms show ?thesis
    by (simp add: worker_config_def healthy_start_def assert_cache_ready_def)
qed

lemma worker_starts:
  assumes "healthy_start ww path c task_ids i" and "loads_inverts k"
    and "ww_fingerprint ww (panel_config task_ids c) = Inr regime"
  shows "worker_main (rk_loads k) ww (worker_argv (rk_fr k) exe path exp_root fd task_ids i) st =
      sample_experiment ww (panel_config task_ids c) i st"
proof -
  have "ww_src_from_cwd ww" using assms(1) by (simp add: healthy_start_def)
  then show ?thesis
    by (simp add: worker_main_def panel_reaches_worker [OF assms(2)] worker_config_panel [OF assms(1)])
qed

lemma task_events_running:
  assumes "running xf res e" and "load_experiment st (xf_id xf) = Inr e"
    and "\<forall>r \<in> set rs. rollout_ok r \<and> rr_task_id r \<in> set (xf_tasks xf)"
  shows "\<exists>st'. \<forall>rest. task_events (xf_id xf) (map Inr rs @ rest) st =
    map (\<lambda>r. ObsTask (rr_task_id r) (mode_name (rr_failure_mode r))) rs @ task_events (xf_id xf) rest st'"
  using assms
proof (induction rs arbitrary: res e st)
  case (Cons r rs)
  from running_step [OF Cons.prems(1,2)] Cons.prems(3) obtain st1 where
    st1: "log_rollout st (xf_id xf) r = Inr st1" "load_experiment st1 (xf_id xf) = Inr (logged e r)"
      "running xf (res(rr_task_id r \<mapsto> r)) (logged e r)" by auto
  have "\<forall>r \<in> set rs. rollout_ok r \<and> rr_task_id r \<in> set (xf_tasks xf)" using Cons.prems(3) by simp
  from Cons.IH [OF st1(3,2) this] st1(1) show ?case by auto
qed auto

lemma sampled_events:
  assumes "distinct (xf_tasks xf)" and "\<forall>r \<in> set rs. rollout_ok r" and "set (map rr_task_id rs) \<subseteq> set (xf_tasks xf)"
    and "failing = [] \<or> failing = Inl x # rest"
  shows "task_events (xf_id xf) (map Inr rs @ failing) (save_experiment st (initial_experiment xf)) =
    map (\<lambda>r. ObsTask (rr_task_id r) (mode_name (rr_failure_mode r))) rs"
proof -
  have "\<forall>r \<in> set rs. rollout_ok r \<and> rr_task_id r \<in> set (xf_tasks xf)" using assms(2,3) by auto
  then obtain st' where "\<And>tl. task_events (xf_id xf) (map Inr rs @ tl) (save_experiment st (initial_experiment xf)) =
      map (\<lambda>r. ObsTask (rr_task_id r) (mode_name (rr_failure_mode r))) rs @ task_events (xf_id xf) tl st'"
    using task_events_running [OF running_start(2,1) [OF assms(1)], of rs st] by blast
  from this [of failing] show ?thesis using assms(4) by auto
qed

lemma worker_samples:
  assumes "healthy_start ww path c task_ids i" and "loads_inverts k"
    and "ww_fingerprint ww (panel_config task_ids c) = Inr regime"
    and "sampled_rollouts ww (panel_config task_ids c) task_ids rs failing"
    and "failing = [] \<or> failing = Inl x # rest"
    and xf: "xf = experiment_facts ww (panel_config task_ids c) (chosen_id ww i)
          (resolve_measurement_identity (ww_sha ww) (ww_fr ww) (ww_override ww) (panel_config task_ids c) regime)"
    and run: "run_experiment xf (Inr ()) (map Inr rs @ failing) (ww_finished_at ww) st = (r, st')"
    and xe: "xe = worker_main (rk_loads k) ww (worker_argv (rk_fr k) exe path exp_root fd task_ids i) st"
  shows "xe_result xe = r" and "xe_store xe = st'"
    and "xe_events xe = ObsStarted (chosen_id ww i) #
      map (\<lambda>r. ObsTask (rr_task_id r) (mode_name (rr_failure_mode r))) rs"
    and "map_of (co_refs (xe_checkout xe)) (run_ref (chosen_id ww i)) = Some (co_head (ww_checkout ww))"
proof -
  have tasks: "xf_tasks xf = task_ids" "xf_id xf = chosen_id ww i"
    by (simp_all add: xf experiment_facts_def panel_config_def)
  have ev: "task_events (xf_id xf) (map Inr rs @ failing) (save_experiment st (initial_experiment xf)) =
      map (\<lambda>r. ObsTask (rr_task_id r) (mode_name (rr_failure_mode r))) rs"
    using assms(1,4,5) by (intro sampled_events) (auto simp: healthy_start_def sampled_rollouts_def tasks)
  have co: "save_run_ref (ww_update_ref ww) (chosen_id ww i) (ww_checkout ww) = Inr ((ww_checkout ww)
      \<lparr>co_refs := AList.update (run_ref (chosen_id ww i)) (co_head (ww_checkout ww)) (co_refs (ww_checkout ww))\<rparr>)"
    using assms(1) by (simp add: save_run_ref_def healthy_start_def)
  have sampled: "ww_load_tasks ww (panel_config task_ids c) = Inr ()"
    "ww_finished ww (panel_config task_ids c) = map Inr rs @ failing"
    using assms(4) by (simp_all add: sampled_rollouts_def)
  have e: "xe = \<lparr>xe_result = r,
      xe_events = ObsStarted (chosen_id ww i) # map (\<lambda>r. ObsTask (rr_task_id r) (mode_name (rr_failure_mode r))) rs,
      xe_checkout = (ww_checkout ww)
        \<lparr>co_refs := AList.update (run_ref (chosen_id ww i)) (co_head (ww_checkout ww)) (co_refs (ww_checkout ww))\<rparr>,
      xe_store = st'\<rparr>"
    using run ev
    by (simp add: xe worker_starts [OF assms(1-3)] sample_experiment_def co assms(3) sampled tasks(2)
        xf [symmetric] Let_def)
  show "xe_result xe = r" "xe_store xe = st'"
    "xe_events xe = ObsStarted (chosen_id ww i) #
      map (\<lambda>r. ObsTask (rr_task_id r) (mode_name (rr_failure_mode r))) rs"
    "map_of (co_refs (xe_checkout xe)) (run_ref (chosen_id ww i)) = Some (co_head (ww_checkout ww))"
    by (simp_all add: e dict_simps)
qed

section \<open>From the panel to the parent\<close>

lemma parent_accepts:
  assumes "loads_inverts k" and "heard_from t live late xe"
    and "xe_events xe = ObsStarted i # map (\<lambda>r. ObsTask (f r) (g r)) rs"
    and "xe_result xe = Inr e" and "trusted_record (xe_store xe) task_ids i e'"
  shows "\<exists>s. run_isolated_experiment (rk_loads k) task_ids t (parent_view (rk_fr k) live late xe now) =
      (Inr e', xe_store xe, s) \<and> su_seen s = told live @ late"
proof -
  obtain s where s: "run_isolated_experiment (rk_loads k) task_ids t (parent_view (rk_fr k) live late xe now) =
      judge_worker task_ids (parent_view (rk_fr k) live late xe now) False s"
    "su_seen s = told live @ late" "su_reported s = Some i"
    using parent_hears [OF assms(1-3), of task_ids now] by blast
  have "judge_worker task_ids (parent_view (rk_fr k) live late xe now) False s = (Inr e', xe_store xe, s)"
    using assms(4,5) s(3) by (auto simp: judge_worker_def parent_view_def exit_status_def trusted_record_def)
  with s show ?thesis by auto
qed

lemma parent_rejects:
  assumes "loads_inverts k" and "heard_from t live late xe"
    and "xe_events xe = ObsStarted i # map (\<lambda>r. ObsTask (f r) (g r)) rs"
    and "xe_result xe = Inl x" and "load_experiment (xe_store xe) i = Inr e'" and "ex_crash_reason e' = Some why"
  shows "\<exists>m s. run_isolated_experiment (rk_loads k) task_ids t (parent_view (rk_fr k) live late xe now) =
      (Inl (MeasurementError m (Some e')), xe_store xe, s) \<and> su_seen s = told live @ late"
proof -
  obtain s where s: "run_isolated_experiment (rk_loads k) task_ids t (parent_view (rk_fr k) live late xe now) =
      judge_worker task_ids (parent_view (rk_fr k) live late xe now) False s"
    "su_seen s = told live @ late" "su_reported s = Some i"
    using parent_hears [OF assms(1-3), of task_ids now] by blast
  have "judge_worker task_ids (parent_view (rk_fr k) live late xe now) False s =
      (Inl (MeasurementError (failed_message False 1 (su_recent s)) (Some e')), xe_store xe, s)"
    using assms(4-6) s(3)
    by (simp add: judge_worker_def parent_view_def exit_status_def crash_out_def load_crashed_result_def mark_crashed_def)
  with s show ?thesis by auto
qed

text \<open>The run the worker stored, as the two ends of a panel leave it.\<close>

definition holds_rollouts :: "experiment_result \<Rightarrow> rollout_result list \<Rightarrow> bool" where
  "holds_rollouts e rs \<longleftrightarrow> (\<forall>r \<in> set rs. map_of (ex_tasks e) (rr_task_id r) = Some (Some (parsed_rollout r)))"

lemma finished_panel_accepted:
  assumes "loads_inverts k" and "healthy_start ww path c task_ids i"
    and "ww_fingerprint ww (panel_config task_ids c) = Inr regime"
    and "sampled_rollouts ww (panel_config task_ids c) task_ids rs []" and "set (map rr_task_id rs) = set task_ids"
    and xe: "xe = worker_main (rk_loads k) ww (worker_argv (rk_fr k) exe path exp_root fd task_ids i) st"
    and heard: "heard_from t live late xe"
  shows "\<exists>e s. xe_result xe = Inr e \<and>
    run_isolated_experiment (rk_loads k) task_ids t (parent_view (rk_fr k) live late xe now) =
      (Inr (as_parsed e), xe_store xe, s) \<and>
    su_seen s = told live @ late \<and> holds_rollouts e rs \<and> ex_git_commit_hash e = co_head (ww_checkout ww) \<and>
    ex_measurement_identity e =
      resolve_measurement_identity (ww_sha ww) (ww_fr ww) (ww_override ww) (panel_config task_ids c) regime"
proof -
  let ?id = "resolve_measurement_identity (ww_sha ww) (ww_fr ww) (ww_override ww) (panel_config task_ids c) regime"
  define xf where "xf = experiment_facts ww (panel_config task_ids c) (chosen_id ww i) ?id"
  have xf: "xf_tasks xf = task_ids" "xf_id xf = chosen_id ww i" "xf_commit xf = co_head (ww_checkout ww)"
    "xf_identity xf = ?id" by (simp_all add: xf_def experiment_facts_def panel_config_def)
  have sampled: "distinct (map rr_task_id rs)" "\<forall>r \<in> set rs. rollout_ok r" and distinct_ids: "distinct task_ids"
    using assms(2,4) by (simp_all add: sampled_rollouts_def healthy_start_def)
  obtain e st' where run: "run_experiment xf (Inr ()) (map Inr rs) (ww_finished_at ww) st = (Inr e, st')"
    and e: "ex_finished_at e = Some (ww_finished_at ww)" "ex_crash_reason e = None" "ex_git_commit_hash e = xf_commit xf"
      "ex_measurement_identity e = xf_identity xf" "fst ` set (ex_tasks e) = set (xf_tasks xf)"
      "\<forall>r \<in> set rs. map_of (ex_tasks e) (rr_task_id r) = Some (Some (parsed_rollout r))"
    and l: "load_experiment st' (xf_id xf) = Inr (as_parsed e)"
    using panel_completes [of xf rs "ww_finished_at ww" st] sampled distinct_ids assms(5) unfolding xf by blast
  have "run_experiment xf (Inr ()) (map Inr rs @ []) (ww_finished_at ww) st = (Inr e, st')" using run by simp
  note w = worker_samples [OF assms(2,1,3,4) disjI1 [OF refl] xf_def this xe]
  have "set (map fst (ex_tasks (as_parsed e))) = set task_ids" unfolding parsed_keys(1) using e(5) by (simp add: xf)
  then have "trusted_record (xe_store xe) task_ids (chosen_id ww i) (as_parsed e)"
    using l e(1,2) by (simp add: trusted_record_def w(2) xf(2) as_parsed_def)
  from parent_accepts [OF assms(1) heard w(3,1) this, of now] w(1) e show ?thesis
    by (auto simp: holds_rollouts_def xf)
qed

lemma failed_panel_rejected:
  assumes "loads_inverts k" and "healthy_start ww path c task_ids i"
    and "ww_fingerprint ww (panel_config task_ids c) = Inr regime"
    and "sampled_rollouts ww (panel_config task_ids c) task_ids rs (Inl x # rest)"
    and xe: "xe = worker_main (rk_loads k) ww (worker_argv (rk_fr k) exe path exp_root fd task_ids i) st"
    and heard: "heard_from t live late xe"
  shows "\<exists>m e s. run_isolated_experiment (rk_loads k) task_ids t (parent_view (rk_fr k) live late xe now) =
      (Inl (MeasurementError m (Some e)), xe_store xe, s) \<and> su_seen s = told live @ late \<and>
    ex_crash_reason e = Some (error_text (to_exc x)) \<and> holds_rollouts e rs"
proof -
  let ?id = "resolve_measurement_identity (ww_sha ww) (ww_fr ww) (ww_override ww) (panel_config task_ids c) regime"
  define xf where "xf = experiment_facts ww (panel_config task_ids c) (chosen_id ww i) ?id"
  have xf: "xf_tasks xf = task_ids" "xf_id xf = chosen_id ww i"
    by (simp_all add: xf_def experiment_facts_def panel_config_def)
  have sampled: "distinct (map rr_task_id rs)" "\<forall>r \<in> set rs. rollout_ok r" "set (map rr_task_id rs) \<subseteq> set task_ids"
    and distinct_ids: "distinct task_ids"
    using assms(2,4) by (simp_all add: sampled_rollouts_def healthy_start_def)
  obtain e st' where run: "run_experiment xf (Inr ()) (map Inr rs @ Inl x # rest) (ww_finished_at ww) st = (Inl x, st')"
    and e: "load_experiment st' (xf_id xf) = Inr e" "ex_crash_reason e = Some (error_text (to_exc x))"
      "\<forall>r \<in> set rs. map_of (ex_tasks e) (rr_task_id r) = Some (Some (parsed_rollout r))"
    using panel_crashes [of xf rs x rest "ww_finished_at ww" st] sampled distinct_ids unfolding xf by blast
  note w = worker_samples [OF assms(2,1,3,4) disjI2 [OF refl] xf_def run xe]
  from parent_rejects [OF assms(1) heard w(3,1) e(1) [folded w(2), unfolded xf(2)] e(2), of task_ids now] e(2,3)
  show ?thesis by (auto simp: holds_rollouts_def)
qed

end
