(* ===== verification/Startup.thy ===== *)
theory Startup
  imports Measurement Backend Logger Loss
begin

text \<open>
  What happens before anything is measured: the construction of a training session
  (\<open>Trainer.__init__\<close>, \<open>_tracked_repo_relative_path\<close> and \<open>_banner\<close> of \<open>src/trainer/trainer.py\<close>, \<open>RunConfig.load\<close> of
  \<open>src/config.py\<close>) and the probe of the model endpoint in the preflight of \<open>src/measurement.py\<close>.
\<close>

section \<open>The configuration of a session\<close>

text \<open>The repository: where it is, how a path given by the user resolves, what git says of paths in it.\<close>

record repo_view =
  rv_root :: path
  rv_resolve :: "string \<Rightarrow> path"
  rv_ls_files :: "string \<Rightarrow> exc + unit"
  rv_status :: "string list \<Rightarrow> string"

definition rel_str :: "path \<Rightarrow> string" where
  "rel_str p = (if p = [] then ''.'' else join_str ''/'' p)"

definition relative_to :: "path \<Rightarrow> path \<Rightarrow> exc + string" where
  "relative_to base p =
     (if prefix base p then Inr (rel_str (drop (length base) p))
      else Inl (ValueError (path_str p @ '' is not in the subpath of '' @ path_str base)))"

text \<open>\<open>rv_resolve\<close> expands the user, reads a relative path below the root and resolves links.\<close>

definition tracked_repo_relative_path :: "repo_view \<Rightarrow> string \<Rightarrow> exc + string" where
  "tracked_repo_relative_path rv p =
     bind_res (relative_to (rv_root rv) (rv_resolve rv p)) (\<lambda>r.
     bind_res (rv_ls_files rv r) (\<lambda>_. Inr r))"

text \<open>\<open>parse\<close> is the coercion of a payload into the models; the validators are \<open>mk_run_config\<close>.\<close>

definition validate_config :: "(payload \<Rightarrow> exc + run_config) \<Rightarrow> payload \<Rightarrow> exc + run_config" where
  "validate_config parse p = bind_res (parse p) mk_run_config"

definition load_run_config ::
    "'f config_files_scheme \<Rightarrow> (payload \<Rightarrow> exc + run_config) \<Rightarrow> path \<Rightarrow> exc + run_config" where
  "load_run_config fl parse p =
     bind_res (fst (load_config_payload fl p)) (\<lambda>v.
     bind_res (validate_config parse v) (\<lambda>c. Inr (c\<lparr>rc_config_path := Some (path_str p)\<rparr>)))"

definition dirty_files :: "string \<Rightarrow> string list" where
  "dirty_files porcelain = map (drop 3) (splitlines porcelain)"

definition clean_sources :: "string \<Rightarrow> exc + unit" where
  "clean_sources porcelain =
     guard_res (porcelain = []) (ValueError (''measurement config sources have uncommitted changes ('' @
       join_str '', '' (dirty_files porcelain) @ ''); commit them before training''))"

definition target_guards :: "string list \<Rightarrow> training_target \<Rightarrow> exc + unit" where
  "target_guards config_sources t =
     (let overlap = sorted_strs (set config_sources \<inter> set (patch_paths t))
      in if overlap \<noteq> []
         then Inl (ValueError (''training_target patch paths must not include the measurement config sources: '' @
                join_str '', '' overlap))
         else guard_res (tt_proposer_visible t \<noteq> [])
           (ValueError ''training_target.proposer_visible must not be empty: the proposer checkout would expose the whole repo, including the trainer gate''))"

definition session_config ::
    "repo_view \<Rightarrow> 'f config_files_scheme \<Rightarrow> (payload \<Rightarrow> exc + run_config) \<Rightarrow> (string \<Rightarrow> path) \<Rightarrow> string \<Rightarrow>
       exc + run_config \<times> string list" where
  "session_config rv fl parse below config_path =
     bind_res (tracked_repo_relative_path rv config_path) (\<lambda>rel.
     case load_config_payload fl (below rel) of
       (Inl e, _) \<Rightarrow> Inl e
     | (Inr v, paths) \<Rightarrow>
         bind_res (map_res (relative_to (rv_root rv)) paths) (\<lambda>sources.
         bind_res (clean_sources (rv_status rv sources)) (\<lambda>_.
         bind_res (validate_config parse v) (\<lambda>c.
         bind_res (target_guards sources (rc_training_target c)) (\<lambda>_.
           Inr (c\<lparr>rc_config_path := Some rel\<rparr>, sources))))))"

text \<open>\<open>_banner\<close>: the rows of the header.\<close>

definition banner_rows :: "run_config \<Rightarrow> string \<Rightarrow> secondary_metric list \<Rightarrow> (string \<times> string) list" where
  "banner_rows c baseline_commit ms =
     [(''policy'', surface (rc_training_target c) @ '' @ '' @ take 8 baseline_commit),
      (''llm'', lp_model_name (rc_llm_provider_config c) @ DOT @ lp_base_url (rc_llm_provider_config c)),
      (''env'', (case ev_kind (rc_environment c) of Swe \<Rightarrow> ''swe'' | TerminalBench \<Rightarrow> ''terminal_bench'') @ DOT @
         nat_str (length (ev_task_names (rc_environment c))) @ '' tasks'' @ DOT @
         ''concurrency '' @ int_str (rc_max_rollout_concurrency c)),
      (''criterion'', describe_criterion ms)]"

definition banner :: "rat \<Rightarrow> run_config \<Rightarrow> string \<Rightarrow> secondary_metric list \<Rightarrow> stdout_logger \<Rightarrow> stdout_logger" where
  "banner now c baseline_commit ms =
     run_started now (''train'' @ DOT @ (case rc_config_path c of None \<Rightarrow> ''None'' | Some p \<Rightarrow> p))
       (banner_rows c baseline_commit ms)"

text \<open>A session starts only on a valid configuration whose every source is committed and out of the reach
  of the candidates it will measure.\<close>

lemma validated_config:
  assumes "validate_config parse v = Inr c"
  shows "config_ok c"
proof -
  obtain c0 where "mk_run_config c0 = Inr c" using assms by (auto simp: validate_config_def res_simps)
  moreover from this have "c = c0" by (auto simp: mk_run_config_def res_simps)
  ultimately show ?thesis by (simp add: config_ok_def)
qed

lemma config_ok_path [simp]: "config_ok (c\<lparr>rc_config_path := p\<rparr>) \<longleftrightarrow> config_ok c"
  by (simp add: config_ok_iff run_fields_ok_def)

lemma target_guards_Inr:
  "target_guards sources t = Inr () \<longleftrightarrow> set sources \<inter> set (patch_paths t) = {} \<and> tt_proposer_visible t \<noteq> []"
  by (simp add: target_guards_def guard_res_def Let_def sorted_strs_def)

lemma session_config_Inr:
  assumes "session_config rv fl parse below config_path = Inr (c, sources)"
  shows "\<exists>rel v paths. tracked_repo_relative_path rv config_path = Inr rel \<and>
    load_config_payload fl (below rel) = (Inr v, paths) \<and> map_res (relative_to (rv_root rv)) paths = Inr sources \<and>
    rv_status rv sources = [] \<and> rc_config_path c = Some rel \<and> config_ok c \<and>
    target_guards sources (rc_training_target c) = Inr ()"
proof -
  obtain rel where rel: "tracked_repo_relative_path rv config_path = Inr rel"
    using assms by (cases "tracked_repo_relative_path rv config_path") (auto simp: session_config_def)
  obtain v paths where load: "load_config_payload fl (below rel) = (Inr v, paths)"
    using assms rel by (auto simp: session_config_def split: prod.splits sum.splits)
  have "clean_sources x = Inr u \<longleftrightarrow> x = []" for x u by (simp add: clean_sources_def guard_res_def)
  then obtain c0 where "map_res (relative_to (rv_root rv)) paths = Inr sources" "rv_status rv sources = []"
    "validate_config parse v = Inr c0" "target_guards sources (rc_training_target c0) = Inr ()"
    "c = c0\<lparr>rc_config_path := Some rel\<rparr>"
    using assms rel load by (auto simp: session_config_def res_simps)
  then show ?thesis using rel load validated_config by auto
qed

text \<open>
  C19. A session starts only on a sound configuration. If the trainer is constructed, its configuration
  is valid and named by a path git tracks; every file it was read from lies in the directory of the
  first one and inside the repository, none of them has uncommitted changes, none is a file a candidate
  may patch, and what the proposer sees is restricted.
\<close>

theorem session_starts_sound:
  assumes "session_config rv fl parse below config_path = Inr (c, sources)"
  shows "\<exists>rel ps. rc_config_path c = Some rel \<and> rv_ls_files rv rel = Inr () \<and>
    snd (load_config_payload fl (below rel)) = below rel # ps \<and>
    (\<forall>p \<in> set (below rel # ps). prefix (butlast (below rel)) p \<and> prefix (rv_root rv) p) \<and>
    map_res (relative_to (rv_root rv)) (below rel # ps) = Inr sources \<and>
    rv_status rv sources = [] \<and> set sources \<inter> set (patch_paths (rc_training_target c)) = {} \<and>
    tt_proposer_visible (rc_training_target c) \<noteq> [] \<and> config_ok c"
proof -
  obtain rel v paths where s: "tracked_repo_relative_path rv config_path = Inr rel"
    "load_config_payload fl (below rel) = (Inr v, paths)" "map_res (relative_to (rv_root rv)) paths = Inr sources"
    "rv_status rv sources = []" "rc_config_path c = Some rel" "config_ok c"
    "target_guards sources (rc_training_target c) = Inr ()"
    using session_config_Inr [OF assms] by blast
  obtain ps where ps: "paths = below rel # ps" "\<forall>p \<in> set ps. prefix (butlast (below rel)) p"
    using config_reads [OF s(2)] by (auto simp: reads_inside_def)
  have "rv_ls_files rv rel = Inr ()" using s(1) by (auto simp: tracked_repo_relative_path_def res_simps)
  moreover have "prefix (butlast (below rel)) p \<and> prefix (rv_root rv) p" if p: "p \<in> set paths" for p
  proof -
    obtain y where "relative_to (rv_root rv) p = Inr y" using map_res_Inr_all [OF s(3) p] by blast
    then have "prefix (rv_root rv) p" by (simp add: relative_to_def split: if_splits)
    then show ?thesis using p ps by (auto simp: prefixeq_butlast)
  qed
  ultimately show ?thesis using s ps(1) by (auto simp: target_guards_Inr)
qed

definition sample_repo :: repo_view where
  "sample_repo = \<lparr>rv_root = [], rv_resolve = (\<lambda>_. [''etc'', ''run.yaml'']), rv_ls_files = (\<lambda>_. Inr ()), rv_status = (\<lambda>_. [])\<rparr>"

definition sample_target :: training_target where
  "sample_target = \<lparr>tt_module = ''src.policy.core'', tt_extra_patch_paths = [], tt_proposer_visible = [''src'']\<rparr>"

definition sample_sources :: "unit config_files_scheme" where
  "sample_sources = \<lparr>
     cf_load = (\<lambda>p. if p = [''etc'', ''run.yaml'']
        then Inr (JObj [(''$extends'', JArr [JStr ''base.yaml'']), (''max_steps'', JInt 50)])
        else Inr (JObj [(''max_steps'', JInt 5)])),
     cf_is_absolute = (\<lambda>s. take 1 s = ''/''), cf_resolve = (\<lambda>d s. d @ [s])\<rparr>"

lemma sample_session_config:
  "session_config sample_repo sample_sources (\<lambda>_. Inr (sample_config\<lparr>rc_training_target := sample_target\<rparr>))
     (\<lambda>_. [''etc'', ''run.yaml'']) ''etc/run.yaml'' =
     Inr (sample_config\<lparr>rc_training_target := sample_target, rc_config_path := Some ''etc/run.yaml''\<rparr>,
       [''etc/run.yaml'', ''etc/base.yaml''])"
proof -
  let ?c = "sample_config\<lparr>rc_training_target := sample_target\<rparr>"
  have "config_ok ?c" using sample_config_ok by (simp add: config_ok_iff run_fields_ok_def sample_target_def)
  then have "mk_run_config ?c = Inr ?c" by (simp add: config_ok_def)
  moreover have "load_config_payload sample_sources [''etc'', ''run.yaml''] =
     (Inr [(''max_steps'', JInt 50)], [[''etc'', ''run.yaml''], [''etc'', ''base.yaml'']])"
    by (simp add: load_config_payload_def load_config_mapping_def sample_sources_def extends_of_def
        EXTENDS_KEY_def relative_config_path_def INCLUDE_KEY_def)
  moreover have "target_guards [''etc/run.yaml'', ''etc/base.yaml''] sample_target = Inr ()"
    by (simp add: target_guards_Inr sample_target_def patch_paths_def surface_def)
  ultimately show ?thesis
    by (simp add: session_config_def tracked_repo_relative_path_def relative_to_def rel_str_def sample_repo_def
        clean_sources_def guard_res_def validate_config_def sample_config_def)
qed

theorem session_starts_sound_witness:
  "rc_config_path (sample_config\<lparr>rc_training_target := sample_target, rc_config_path := Some ''etc/run.yaml''\<rparr>) = Some ''etc/run.yaml'' \<and>
   set [''etc/run.yaml'', ''etc/base.yaml''] \<inter> set (patch_paths sample_target) = {} \<and>
   config_ok (sample_config\<lparr>rc_training_target := sample_target, rc_config_path := Some ''etc/run.yaml''\<rparr>)"
  using session_starts_sound [OF sample_session_config] by auto

section \<open>The probe of the model endpoint\<close>

definition smoke_request :: completion_request where
  "smoke_request = \<lparr>rq_messages = [[(''role'', JStr ''user''),
       (''content'', JStr ''Call the submit tool now. Do not answer with text.'')]],
     rq_tools = [JObj [(''type'', JStr ''function''),
       (''function'', JObj [(''name'', JStr SUBMIT_ACTION_NAME),
          (''description'', JStr ''Submit the smoke-check response.''),
          (''parameters'', JObj [(''type'', JStr ''object''), (''properties'', JObj []),
             (''additionalProperties'', JBool False)])])]],
     rq_enable_thinking = None\<rparr>"

text \<open>\<open>timed_out\<close>: the 120 seconds of \<open>asyncio.timeout\<close> were up first. The backend is closed on every path.\<close>

definition smoke_complete ::
    "(string \<Rightarrow> hub_lookup) \<Rightarrow> 's endpoint \<Rightarrow> 'st accumulator \<Rightarrow> (string \<Rightarrow> string option) \<Rightarrow> bool \<Rightarrow> run_config \<Rightarrow>
       's client \<Rightarrow> (llm_exc + completion) \<times> 's client" where
  "smoke_complete hub ep acc getenv timed_out c s =
     (case mk_backend hub (rc_llm_provider_config c) of
        Inl e \<Rightarrow> (Inl (Foreign (OtherForeign e)), s)
      | Inr b \<Rightarrow>
          (case complete ep acc getenv b smoke_request s of
             (r, _, s') \<Rightarrow>
               (if timed_out then Inl (Foreign (OtherForeign (OtherError ''TimeoutError'' []))) else r, close_client s')))"

definition format_smoke_completion ::
    "(string option \<Rightarrow> string) \<Rightarrow> (tool_call list \<Rightarrow> string) \<Rightarrow> completion \<Rightarrow> string" where
  "format_smoke_completion show_str show_calls r =
     (let content = show_str (co_content r);
          clipped = (if 200 < length content then take 197 content @ ''...'' else content)
      in ''finish_reason='' @ show_str (co_finish_reason r) @ '', content='' @ clipped @
         '', tool_calls='' @ show_calls (co_tool_calls r))"

lemma smoke_leaves_nothing_open:
  assumes "smoke_complete hub ep acc getenv timed_out c s = (r, s')" and "\<not> cl_open s"
  shows "\<not> cl_open s'"
  using assms by (auto simp: smoke_complete_def close_client_def split: sum.splits prod.splits)

end
