(* ===== verification/ChainAudit.thy ===== *)
theory ChainAudit
  imports Replay Store
begin

text \<open>
  \<open>src/plugins/replay/audit.py\<close>: the certification of a baseline. Every recorded chain is executed
  again from a fresh environment and compared row by row; tasks that fork leave the panel, and
  certificates of an earlier run with the same identity and the same actions are inherited. A
  deadline that expires is the awaited environment call failing with the bare timeout. The tasks are
  checked in panel order: the concurrent checks share only the log and the fork artifacts.
\<close>

section \<open>The world of an audit\<close>

text \<open>The run store, the shared cache, the chain file of each task of the baseline, the fork artifacts
  written, and the log.\<close>

record audit_world =
  aw_store :: run_store
  aw_cache :: cache_world
  aw_chains :: "string \<Rightarrow> string option"
  aw_forks :: "(string, json) dict"
  aw_log :: "string list"

text \<open>The environments: their operations, and the state a task's fresh environment starts in.\<close>

record ('s, 'm) audit_env =
  ae_env :: "('s, 'm) replay_env_scheme"
  ae_fresh :: "string \<Rightarrow> 's"

definition audit_log :: "string \<Rightarrow> audit_world \<Rightarrow> audit_world" where
  "audit_log m w = w\<lparr>aw_log := aw_log w @ [m]\<rparr>"

section \<open>Recorded chains\<close>

definition row_action :: "json \<Rightarrow> exc + json" where
  "row_action row = bind_res (read_object row) (\<lambda>ms. row_item ms ''action'')"

definition audit_chain_digest :: "replay_kit \<Rightarrow> json list \<Rightarrow> exc + string" where
  "audit_chain_digest k rows =
     bind_res (map_res row_action rows) (\<lambda>as.
       Inr (rk_sha k (join_nl (map (dumps_compact (rk_fr k)) as))))"

definition row_timed_out :: "json \<Rightarrow> bool" where
  "row_timed_out row = (case row of JObj ms \<Rightarrow> map_of ms ''timed_out'' = Some (JBool True) | _ \<Rightarrow> False)"

text \<open>Rows (none without a file), digest, and whether a step timed out.\<close>

definition load_chain :: "replay_kit \<Rightarrow> string option \<Rightarrow> exc + (json list option \<times> string \<times> bool)" where
  "load_chain k file =
     bind_res
       (case file of
          None \<Rightarrow> Inr None
        | Some t \<Rightarrow>
            bind_res (map_res (\<lambda>l. case rk_loads k l of Inl m \<Rightarrow> Inl (OtherError ''JSONDecodeError'' m) | Inr v \<Rightarrow> Inr v)
                        (splitlines t)) (\<lambda>rows. Inr (Some rows))) (\<lambda>rows.
     bind_res (audit_chain_digest k (case rows of None \<Rightarrow> [] | Some rs \<Rightarrow> rs)) (\<lambda>d.
       Inr (rows, d, (case rows of None \<Rightarrow> False | Some rs \<Rightarrow> list_ex row_timed_out rs))))"

section \<open>Executing a chain again\<close>

definition read_action :: "json \<Rightarrow> exc + env_action" where
  "read_action v =
     bind_res (read_object v) (\<lambda>ms.
     bind_res (row_item ms ''kind'') (\<lambda>kind.
       if kind = JStr ''run''
       then bind_res (bind_res (row_item ms ''command'') read_text) (\<lambda>c.
            bind_res (bind_res (row_item ms ''cwd'') (read_opt read_text)) (\<lambda>d.
            bind_res (bind_res (row_item ms ''timeout_sec'') (read_opt read_num)) (\<lambda>t.
              Inr (RunAct \<lparr>ra_command = c, ra_cwd = d, ra_timeout_sec = t\<rparr>))))
       else Inr VerifyAct))"

definition audit_scrub :: "replay_kit \<Rightarrow> env_action \<Rightarrow> step_result \<Rightarrow> step_result" where
  "audit_scrub k a r =
     scrub_step_result (scrub_nondeterminism (rk_rules k)) r
       (case a of RunAct x \<Rightarrow> Some (ra_command x) | VerifyAct \<Rightarrow> None)"

text \<open>The mismatch of a live result with its row, if there is one. JSON values are compared up to the
  order of keys, as Python compares dicts.\<close>

definition row_mismatch :: "replay_kit \<Rightarrow> (string \<times> json) list \<Rightarrow> env_action \<Rightarrow> step_result \<Rightarrow> exc + json option" where
  "row_mismatch k ms a live =
     (case a of
        RunAct x \<Rightarrow>
          bind_res (row_item ms ''audit_hash'') (\<lambda>h.
            Inr (if JStr (rk_hash k x live) = h then None
                 else Some (JObj [(''recorded_audit_hash'', h), (''live'', step_result_json live)])))
      | VerifyAct \<Rightarrow>
          bind_res (row_item ms ''verdict'') (\<lambda>v.
            Inr (if canon (verdict_summary live) = canon v then None
                 else Some (JObj [(''recorded_audit_hash'', JNull), (''live'', step_result_json live),
                        (''verdict_mismatch'', JObj [(''recorded'', v), (''live'', verdict_summary live)])]))))"

definition compare_action ::
    "replay_kit \<Rightarrow> ('s, 'm) live_env_scheme \<Rightarrow> json \<Rightarrow> 's \<Rightarrow> (rexc + json option) \<times> 's" where
  "compare_action k env row s =
     (case bind_res (read_object row) (\<lambda>ms.
             bind_res (bind_res (row_item ms ''action'') read_action) (\<lambda>a. Inr (ms, a))) of
        Inl e \<Rightarrow> (Inl (PlainExc e), s)
      | Inr (ms, a) \<Rightarrow>
          (case execute_env_action (env_core env) a s of
             (Inl e, s') \<Rightarrow> (Inl e, s')
           | (Inr r, s') \<Rightarrow>
               ((case row_mismatch k ms a (audit_scrub k a r) of
                   Inl e \<Rightarrow> Inl (PlainExc e) | Inr m \<Rightarrow> Inr m), s')))"

text \<open>The first row that does not match, with its index from \<open>i\<close>.\<close>

fun compare_rows ::
    "replay_kit \<Rightarrow> ('s, 'm) live_env_scheme \<Rightarrow> nat \<Rightarrow> json list \<Rightarrow> 's \<Rightarrow> (rexc + (nat \<times> json \<times> json) option) \<times> 's" where
  "compare_rows k env i [] s = (Inr None, s)"
| "compare_rows k env i (row # rows) s =
     (case compare_action k env row s of
        (Inl e, s') \<Rightarrow> (Inl e, s')
      | (Inr (Some m), s') \<Rightarrow> (Inr (Some (i, row, m)), s')
      | (Inr None, s') \<Rightarrow> compare_rows k env (i + 1) rows s')"

definition closing :: "('s, 'm) live_env_scheme \<Rightarrow> (rexc + 'a) \<times> 's \<Rightarrow> rexc + 'a" where
  "closing env r = (case env_close env (snd r) of (Inl e, _) \<Rightarrow> Inl e | (Inr _, _) \<Rightarrow> fst r)"

definition fork_payload :: "string \<Rightarrow> string option \<Rightarrow> nat \<times> json \<times> json \<Rightarrow> json" where
  "fork_payload task_id ns m =
     (case m of (i, row, mismatch) \<Rightarrow>
        JObj ([(''task'', JStr task_id), (''replay_namespace'', opt_json JStr ns), (''action_index'', nat_json i),
               (''action'', case row_action row of Inl _ \<Rightarrow> JNull | Inr a \<Rightarrow> a)] @
              (case mismatch of JObj ms \<Rightarrow> ms | _ \<Rightarrow> [])))"

text \<open>\<open>_check_task\<close>: whether the chain forked.\<close>

definition check_task ::
    "replay_kit \<Rightarrow> ('s, 'm) audit_env \<Rightarrow> task_handle \<Rightarrow> json list \<Rightarrow> string option \<Rightarrow> audit_world \<Rightarrow>
       (rexc + bool) \<times> audit_world" where
  "check_task k ae h rows ns w =
     (let env = ae_env ae; t = th_task_id h
      in case apply_replay_scope k env (th_content_id h) (aw_cache w) (ae_fresh ae t) of
           (Inl e, c, s) \<Rightarrow> (closing env (Inl (PlainExc e), s), w\<lparr>aw_cache := c\<rparr>)
         | (Inr _, c, s) \<Rightarrow>
             (let w1 = w\<lparr>aw_cache := c\<rparr>
              in case env_reset env s of
                   (Inl e, s1) \<Rightarrow> (closing env (Inl e, s1), w1)
                 | (Inr _, s1) \<Rightarrow>
                     (case env_provision env s1 of
                        (Inl e, s2) \<Rightarrow> (closing env (Inl e, s2), w1)
                      | (Inr _, s2) \<Rightarrow>
                          (case compare_rows k env 1 rows s2 of
                             (Inl e, s3) \<Rightarrow> (closing env (Inl e, s3), w1)
                           | (Inr None, s3) \<Rightarrow> (closing env (Inr False, s3), w1)
                           | (Inr (Some m), s3) \<Rightarrow>
                               (closing env (Inr True, s3),
                                w1\<lparr>aw_forks := AList.update t (fork_payload t ns m) (aw_forks w1)\<rparr>)))))"

section \<open>Certifying the tasks\<close>

definition fork_hint :: "string \<Rightarrow> string \<Rightarrow> string" where
  "fork_hint t ns = ''fork hint: '' @ t @ '' - stale recording? bump: uv run python -m src.plugins.replay.bump_epoch '' @
     [CHR 0x27] @ ns @ [CHR 0x27]"

definition check_one ::
    "replay_kit \<Rightarrow> ('s, 'm) audit_env \<Rightarrow> task_handle \<Rightarrow> audit_world \<Rightarrow> (rexc + task_certification) \<times> audit_world" where
  "check_one k ae h w =
     (case load_chain k (aw_chains w (th_task_id h)) of
        Inl e \<Rightarrow> (Inl (PlainExc e), w)
      | Inr (rows, d, has_timeout) \<Rightarrow>
          (if rows = None \<or> has_timeout then (Inr \<lparr>tc_chain_digest = d, tc_verdict = NoChain\<rparr>, w)
           else
             (let ns = namespace_for (th_content_id h)
              in case check_task k ae h (the rows) ns w of
                   (Inl e, w1) \<Rightarrow> (Inl e, w1)
                 | (Inr forked, w1) \<Rightarrow>
                     (Inr \<lparr>tc_chain_digest = d, tc_verdict = (if forked then Forked else Deterministic)\<rparr>,
                      (if forked \<and> ns \<noteq> None then audit_log (fork_hint (th_task_id h) (the ns)) w1 else w1)))))"

fun check_all ::
    "replay_kit \<Rightarrow> ('s, 'm) audit_env \<Rightarrow> task_handle list \<Rightarrow> audit_world \<Rightarrow>
       (rexc + (string, task_certification) dict) \<times> audit_world" where
  "check_all k ae [] w = (Inr [], w)"
| "check_all k ae (h # hs) w =
     (case check_one k ae h w of
        (Inl e, w1) \<Rightarrow> (Inl e, w1)
      | (Inr c, w1) \<Rightarrow>
          (case check_all k ae hs w1 of
             (Inl e, w2) \<Rightarrow> (Inl e, w2)
           | (Inr cs, w2) \<Rightarrow> (Inr ((th_task_id h, c) # cs), w2)))"

text \<open>The tasks are loaded and all their handles resolved before the first check.\<close>

definition certify_tasks ::
    "replay_kit \<Rightarrow> ('s, 'm) audit_env \<Rightarrow> (string list \<Rightarrow> exc + task_set) \<Rightarrow> rat \<Rightarrow> string list \<Rightarrow> audit_world \<Rightarrow>
       (rexc + (string, task_certification) dict) \<times> audit_world" where
  "certify_tasks k ae load multiplier ids w =
     (case bind_res (load ids) (\<lambda>ts. map_res (\<lambda>t. task_handle_of ts t multiplier) ids) of
        Inl e \<Rightarrow> (Inl (PlainExc e), w)
      | Inr hs \<Rightarrow> check_all k ae hs w)"

section \<open>The panel of a baseline\<close>

text \<open>The certificates an earlier run passes on.\<close>

fun inherit_certificates ::
    "replay_kit \<Rightarrow> (string \<Rightarrow> string option) \<Rightarrow> (string, task_certification) dict \<Rightarrow> string list \<Rightarrow>
       exc + (string, task_certification) dict" where
  "inherit_certificates k files prior [] = Inr []"
| "inherit_certificates k files prior (t # ts) =
     (case map_of prior t of
        None \<Rightarrow> inherit_certificates k files prior ts
      | Some c \<Rightarrow>
          bind_res (load_chain k (files t)) (\<lambda>(_, d, has_timeout).
            if has_timeout \<or> d \<noteq> tc_chain_digest c then inherit_certificates k files prior ts
            else bind_res (inherit_certificates k files prior ts) (\<lambda>cs. Inr ((t, c) # cs))))"

definition inheritable ::
    "replay_kit \<Rightarrow> experiment_result \<Rightarrow> experiment_result option \<Rightarrow> (string, task_certification) dict" where
  "inheritable k baseline inherited =
     (case inherited of
        None \<Rightarrow> []
      | Some e \<Rightarrow>
          (case ex_determinism_certification e of
             None \<Rightarrow> []
           | Some cs \<Rightarrow>
               (if identity_digest (rk_sha k) (ex_measurement_identity e) =
                   identity_digest (rk_sha k) (ex_measurement_identity baseline)
                then cs else [])))"

definition certify_baseline ::
    "replay_kit \<Rightarrow> ('s, 'm) audit_env \<Rightarrow> (string list \<Rightarrow> exc + task_set) \<Rightarrow> rat \<Rightarrow> experiment_result \<Rightarrow>
       experiment_result option \<Rightarrow> audit_world \<Rightarrow>
       (rexc + (experiment_result \<times> string list)) \<times> audit_world" where
  "certify_baseline k ae load multiplier baseline inherited w =
     (case inherit_certificates k (aw_chains w) (inheritable k baseline inherited) (map fst (ex_tasks baseline)) of
        Inl e \<Rightarrow> (Inl (PlainExc e), w)
      | Inr kept \<Rightarrow>
          (let ids = filter (\<lambda>t. t \<notin> fst ` set kept) (map fst (ex_tasks baseline))
           in case (if ids = [] then (Inr [], w) else certify_tasks k ae load multiplier ids w) of
                (Inl e, w1) \<Rightarrow> (Inl e, w1)
              | (Inr cs, w1) \<Rightarrow>
                  (let b = baseline\<lparr>ex_determinism_certification := Some (AList.updates (map fst cs) (map snd cs) kept)\<rparr>
                   in (Inr (b, map fst kept), w1\<lparr>aw_store := save_experiment (aw_store w1) b\<rparr>))))"

definition excluded_tasks :: "experiment_result \<Rightarrow> (string \<times> cert_verdict) list" where
  "excluded_tasks b =
     (case ex_determinism_certification b of
        None \<Rightarrow> []
      | Some cs \<Rightarrow> map (\<lambda>(t, c). (t, tc_verdict c)) (filter (\<lambda>(_, c). tc_verdict c \<noteq> Deterministic) cs))"

definition verdict_name :: "cert_verdict \<Rightarrow> string" where
  "verdict_name v = (case v of Deterministic \<Rightarrow> ''deterministic'' | Forked \<Rightarrow> ''forked'' | NoChain \<Rightarrow> ''no_chain'')"

text \<open>What is logged: the summary, then one line per excluded task. \<open>artifact\<close> renders the path of a
  fork artifact.\<close>

definition exclusion_log ::
    "(string \<Rightarrow> string) \<Rightarrow> bool \<Rightarrow> experiment_result \<Rightarrow> string list \<Rightarrow> string list" where
  "exclusion_log artifact cached b kept =
     (let ex = excluded_tasks b; n = nat_str (length (ex_tasks b));
          summary = ''excluded '' @ nat_str (length ex) @ ''/'' @ n @ '' nondeterministic tasks''
      in (if cached then ''determinism: cached ('' @ ex_experiment_id b @ '', '' @ summary @ '')''
          else if kept \<noteq> [] then ''determinism: inherited '' @ nat_str (length kept) @ ''/'' @ n @
             '' task certificates ('' @ summary @ '')''
          else ''determinism: '' @ summary) #
         map (\<lambda>(t, v). ''excluded: '' @ t @ '' ('' @ verdict_name v @ '')'' @
            (if v = Forked \<and> t \<notin> set kept then '' '' @ artifact t else [])) ex)"

definition exclude_nondeterministic_tasks ::
    "replay_kit \<Rightarrow> ('s, 'm) audit_env \<Rightarrow> (string list \<Rightarrow> exc + task_set) \<Rightarrow> rat \<Rightarrow> (string \<Rightarrow> string) \<Rightarrow>
       experiment_result \<Rightarrow> experiment_result option \<Rightarrow> audit_world \<Rightarrow>
       (rexc + (experiment_result \<times> string list)) \<times> audit_world" where
  "exclude_nondeterministic_tasks k ae load multiplier artifact baseline inherited w =
     (let cached = (ex_determinism_certification baseline \<noteq> None)
      in case (if cached then (Inr (baseline, []), w)
               else certify_baseline k ae load multiplier baseline inherited w) of
           (Inl e, w1) \<Rightarrow> (Inl e, w1)
         | (Inr (b, kept), w1) \<Rightarrow>
             (let ids = filter (\<lambda>t. t \<notin> fst ` set (excluded_tasks b)) (map fst (ex_tasks b));
                  w2 = fold audit_log (exclusion_log artifact cached b kept) w1
              in if ids = [] then (Inl (PlainExc (RuntimeError ''determinism check excluded every task'')), w2)
                 else (Inr (b, ids), w2)))"

section \<open>The text of a chain is read back\<close>

lemma esc_char_printable: "c \<in> set (esc_char d) \<Longrightarrow> printable c"
proof -
  have "printable (hex_digit n)" if "n < 16" for n
  proof -
    have "hex_digit n \<in> set ''0123456789abcdef''" using that unfolding hex_digit_def by (intro nth_mem) simp
    then show ?thesis by (auto simp: printable_def)
  qed
  then have hex: "printable (hex_digit (of_char d div 16))" "printable (hex_digit (of_char d mod 16))"
    by (simp_all add: less_mult_imp_div_less)
  have lit: "\<forall>c \<in> set [bslash, quote, CHR ''n'', CHR ''r'', CHR ''t'', CHR ''f'', CHR ''b'', CHR ''u'', CHR ''0'']. printable c"
    by (simp add: printable_def)
  assume "c \<in> set (esc_char d)"
  then show "printable c"
    using hex lit unfolding esc_char_def by (auto split: if_splits)
qed

lemma quoted_printable: "c \<in> set (quoted s) \<Longrightarrow> printable c"
  by (auto simp: quoted_def dest: esc_char_printable) (simp add: printable_def)+

lemma num_char_printable: "num_char c \<Longrightarrow> printable c"
  by (auto simp: num_char_def printable_def)

lemma dumps_printable:
  assumes "float_repr_ok fr"
  shows "c \<in> set (dumps fr v) \<Longrightarrow> printable c"
proof (induction v)
  case (JInt i)
  then have "num_char c" using int_str_num [of i] by (simp add: list_all_iff)
  then show ?case by (rule num_char_printable)
next
  case (JFloat x)
  then have "num_char c" using assms by (simp add: float_repr_ok_def list_all_iff)
  then show ?case by (rule num_char_printable)
next
  case (JArr xs)
  have "c \<in> set (dumps_items fr ys) \<Longrightarrow> printable c" if "set ys \<subseteq> set xs" for ys
    using that
  proof (induction ys)
    case (Cons y ys)
    then show ?case using JArr.IH [of y] by (auto simp: dumps_items_Cons printable_def split: if_splits)
  qed simp
  with JArr.prems show ?case by (auto simp: printable_def)
next
  case (JObj ms)
  have "c \<in> set (dumps_members fr ns) \<Longrightarrow> printable c" if "set ns \<subseteq> set ms" for ns
    using that
  proof (induction ns)
    case (Cons n ns)
    then have "c \<in> set (dumps fr (snd n)) \<Longrightarrow> printable c" using JObj.IH [of n "snd n"] by (cases n) auto
    with Cons quoted_printable [of c "fst n"] show ?case by (auto simp: dumps_members_Cons printable_def split: if_splits)
  qed simp
  with JObj.prems show ?case by (auto simp: printable_def)
qed (auto simp: quoted_printable, auto simp: printable_def split: if_splits)

lemma printable_no_break: "printable c \<Longrightarrow> c \<notin> set line_breaks"
  by (auto simp: printable_def line_breaks_def)

lemma split_row:
  "(\<And>c. c \<in> set r \<Longrightarrow> c \<notin> set line_breaks) \<Longrightarrow>
     split_lines cur (r @ nl # rest) = (rev cur @ r) # split_lines [] rest"
proof (induction r arbitrary: cur)
  case Nil
  have "nl \<in> set line_breaks" "nl \<noteq> CHR 0x0D" by (simp_all add: nl_def line_breaks_def)
  then show ?case by (cases rest) simp_all
next
  case (Cons c r)
  then have c: "c \<notin> set line_breaks" by simp
  then have "c \<noteq> CHR 0x0D" by (auto simp: line_breaks_def)
  moreover obtain d ds where "r @ nl # rest = d # ds" by (cases r) auto
  ultimately have "split_lines cur (c # r @ nl # rest) = split_lines (c # cur) (r @ nl # rest)" using c by simp
  with Cons show ?case by simp
qed

lemma splitlines_rows:
  "(\<And>r c. r \<in> set rs \<Longrightarrow> c \<in> set r \<Longrightarrow> c \<notin> set line_breaks) \<Longrightarrow>
     splitlines (concat (map (\<lambda>r. r @ [nl]) rs)) = rs"
  unfolding splitlines_def
proof (induction rs)
  case (Cons r rs)
  have "split_lines [] (r @ nl # concat (map (\<lambda>r. r @ [nl]) rs)) = (rev [] @ r) # split_lines [] (concat (map (\<lambda>r. r @ [nl]) rs))"
    by (rule split_row) (use Cons.prems in auto)
  moreover have "split_lines [] (concat (map (\<lambda>r. r @ [nl]) rs)) = rs"
    by (rule Cons.IH) (use Cons.prems in auto)
  ultimately show ?case by simp
qed simp

lemma chain_lines:
  assumes "float_repr_ok fr"
  shows "splitlines (write_chain sha fr rules ss) = map (\<lambda>s. dumps_compact fr (chain_row sha fr rules s)) ss"
proof -
  have "write_chain sha fr rules ss = concat (map (\<lambda>r. r @ [nl]) (map (\<lambda>s. dumps_compact fr (chain_row sha fr rules s)) ss))"
    by (simp add: write_chain_def o_def)
  moreover have "c \<notin> set line_breaks"
    if "r \<in> set (map (\<lambda>s. dumps_compact fr (chain_row sha fr rules s)) ss)" "c \<in> set r" for r c
    using that dumps_printable [OF assms] printable_no_break by (auto simp: dumps_compact_def)
  ultimately show ?thesis using splitlines_rows by metis
qed

definition actions_digest :: "replay_kit \<Rightarrow> env_action list \<Rightarrow> string" where
  "actions_digest k as = rk_sha k (join_nl (map (canonical_action (rk_fr k)) as))"

abbreviation chain_text :: "replay_kit \<Rightarrow> chain_step list \<Rightarrow> string" where
  "chain_text k ss \<equiv> write_chain (rk_sha k) (rk_fr k) (rk_rules k) ss"

abbreviation row_json :: "replay_kit \<Rightarrow> chain_step \<Rightarrow> json" where
  "row_json k s \<equiv> canon (chain_row (rk_sha k) (rk_fr k) (rk_rules k) s)"

lemma row_members:
  obtains ms where "row_json k s = JObj ms" "map_of ms ''action'' = Some (canon (action_payload (cs_env_action s)))"
    "map_of ms ''timed_out'' = Some (JBool (cs_timed_out s))"
    "\<And>a. cs_env_action s = RunAct a \<Longrightarrow> map_of ms ''audit_hash'' = Some (JStr (rk_hash k a (cs_step_result s)))"
    "cs_env_action s = VerifyAct \<Longrightarrow> map_of ms ''verdict'' = Some (canon (verdict_summary (cs_step_result s)))"
proof (cases "cs_env_action s")
  case (RunAct a)
  show thesis
    by (rule that) (simp_all only: chain_row_def RunAct env_action.case canon.simps(2) [where ms = "_ # _"] sorted_member(1),
        simp_all add: rk_hash_def RunAct del: canon.simps(2))
next
  case VerifyAct
  show thesis
    by (rule that) (simp_all only: chain_row_def VerifyAct env_action.case canon.simps(2) [where ms = "_ # _"] sorted_member(1),
        simp_all add: VerifyAct del: canon.simps(2))
qed

lemma load_written:
  assumes "float_repr_ok (rk_fr k)" and "loads_inverts k"
  shows "load_chain k (Some (chain_text k ss)) =
    Inr (Some (map (row_json k) ss), actions_digest k (map cs_env_action ss), list_ex cs_timed_out ss)"
proof -
  have read: "rk_loads k (dumps_compact (rk_fr k) v) = Inr (canon v)" for v
    using assms(2) by (simp add: loads_inverts_def dumps_compact_def)
  have rows: "map_res (\<lambda>l. case rk_loads k l of Inl m \<Rightarrow> Inl (OtherError ''JSONDecodeError'' m) | Inr v \<Rightarrow> Inr v)
      (map (\<lambda>s. dumps_compact (rk_fr k) (chain_row (rk_sha k) (rk_fr k) (rk_rules k) s)) ss) = Inr (map (row_json k) ss)"
    by (induction ss) (simp_all add: read)
  have act: "row_action (row_json k s) = Inr (canon (action_payload (cs_env_action s)))" for s
    by (rule row_members [of k s]) (simp add: row_action_def row_item_def)
  have acts: "map_res row_action (map (row_json k) ss) = Inr (map (\<lambda>s. canon (action_payload (cs_env_action s))) ss)"
    by (induction ss) (simp_all add: act)
  have "row_timed_out (row_json k s) = cs_timed_out s" for s
    by (rule row_members [of k s]) (simp add: row_timed_out_def)
  then have out: "list_ex row_timed_out (map (row_json k) ss) = list_ex cs_timed_out ss"
    by (induction ss) simp_all
  have "map (dumps_compact (rk_fr k)) (map (\<lambda>s. canon (action_payload (cs_env_action s))) ss) =
      map (canonical_action (rk_fr k)) (map cs_env_action ss)"
    by (simp add: canonical_action_def dumps_compact_def canon_idem)
  then show ?thesis
    unfolding load_chain_def option.case chain_lines [OF assms(1)] rows
    by (simp only: bind_res.simps option.case audit_chain_digest_def acts actions_digest_def out)
qed

lemma read_action_payload: "read_action (canon (action_payload a)) = Inr a"
proof (cases a)
  case (RunAct x)
  have "read_opt read_num (canon (opt_json JFloat t)) = Inr t" for t by (cases t) (simp_all add: opt_json_def)
  then show ?thesis
    unfolding RunAct action_payload_def env_action.case canon.simps(2) read_action_def read_object.simps bind_res.simps
      row_item_def sorted_member(1)
    by (simp add: read_opt_canon)
next
  case VerifyAct
  then show ?thesis
    unfolding VerifyAct action_payload_def env_action.case canon.simps(2) read_action_def read_object.simps bind_res.simps
      row_item_def sorted_member(1) by simp
qed

section \<open>What a certificate says\<close>

definition reproduces :: "replay_kit \<Rightarrow> chain_step \<Rightarrow> step_result \<Rightarrow> bool" where
  "reproduces k c r \<longleftrightarrow>
     (case cs_env_action c of
        RunAct a \<Rightarrow> rk_hash k a (rk_scrub k a r) = rk_hash k a (cs_step_result c)
      | VerifyAct \<Rightarrow> canon (verdict_summary r) = canon (verdict_summary (cs_step_result c)))"

lemma row_mismatch_none:
  assumes "row_json k c = JObj ms"
  shows "\<exists>m. row_mismatch k ms (cs_env_action c) (audit_scrub k (cs_env_action c) r) = Inr m \<and>
    (m = None \<longleftrightarrow> reproduces k c r)"
proof (rule row_members [of k c])
  fix ns
  assume m: "row_json k c = JObj ns"
    "\<And>a. cs_env_action c = RunAct a \<Longrightarrow> map_of ns ''audit_hash'' = Some (JStr (rk_hash k a (cs_step_result c)))"
    "cs_env_action c = VerifyAct \<Longrightarrow> map_of ns ''verdict'' = Some (canon (verdict_summary (cs_step_result c)))"
  then have ns: "ns = ms" using assms by simp
  show ?thesis
  proof (cases "cs_env_action c")
    case (RunAct a)
    with m(2) ns show ?thesis
      by (auto simp: row_mismatch_def row_item_def reproduces_def audit_scrub_def rk_scrub_def)
  next
    case VerifyAct
    have "verdict_summary (audit_scrub k a r) = verdict_summary r" for a
      by (simp add: verdict_summary_def audit_scrub_def scrub_step_result_def)
    with VerifyAct m(3) ns show ?thesis
      by (simp add: row_mismatch_def row_item_def reproduces_def canon_idem)
  qed
qed

lemma compare_action_row:
  assumes "execute_env_action (env_core env) (cs_env_action c) s = (r, s')"
  shows "(\<exists>e. r = Inl e \<and> compare_action k env (row_json k c) s = (Inl e, s')) \<or>
    (\<exists>x m. r = Inr x \<and> compare_action k env (row_json k c) s = (Inr m, s') \<and> (m = None \<longleftrightarrow> reproduces k c x))"
proof -
  obtain ms where ms: "row_json k c = JObj ms" "map_of ms ''action'' = Some (canon (action_payload (cs_env_action c)))"
    by (rule row_members [of k c])
  show ?thesis
  proof (cases r)
    case (Inl e)
    with assms ms show ?thesis by (simp add: compare_action_def row_item_def read_action_payload)
  next
    case (Inr x)
    obtain m where "row_mismatch k ms (cs_env_action c) (audit_scrub k (cs_env_action c) x) = Inr m"
        "m = None \<longleftrightarrow> reproduces k c x" using row_mismatch_none [OF ms(1)] by blast
    with assms ms Inr show ?thesis by (simp add: compare_action_def row_item_def read_action_payload)
  qed
qed

lemma compare_action_reproduces:
  assumes "compare_action k env (row_json k c) s = (Inr None, s')"
  shows "\<exists>r. execute_env_action (env_core env) (cs_env_action c) s = (Inr r, s') \<and> reproduces k c r"
proof -
  obtain r s1 where r: "execute_env_action (env_core env) (cs_env_action c) s = (r, s1)" by fastforce
  from compare_action_row [OF r, of k] assms r show ?thesis by auto
qed

lemma compare_rows_reproduces:
  "compare_rows k env i (map (row_json k) ss) s = (Inr None, s') \<Longrightarrow>
     \<exists>ls. live_run env (map cs_env_action ss) s = (Inr ls, s') \<and> list_all2 (reproduces k) ss ls"
proof (induction ss arbitrary: i s)
  case (Cons c ss)
  obtain s1 where c: "compare_action k env (row_json k c) s = (Inr None, s1)"
      "compare_rows k env (i + 1) (map (row_json k) ss) s1 = (Inr None, s')"
    using Cons.prems by (auto split: prod.splits sum.splits option.splits)
  from compare_action_reproduces [OF c(1)] Cons.IH [OF c(2)] show ?case by (auto simp: live_run_def)
qed (simp add: live_run_def)

text \<open>Executing the chain again from a fresh environment, reset and provisioned, reproduces every
  recorded observation and verdict.\<close>

definition starts_fresh :: "('s, 'm) audit_env \<Rightarrow> string \<Rightarrow> 's \<Rightarrow> bool" where
  "starts_fresh ae t s \<longleftrightarrow> s = ae_fresh ae t \<or>
     (\<exists>pin token. env_pin_network_snapshot (ae_env ae) = Some pin \<and> s = pin token (ae_fresh ae t))"

definition reexecutes :: "replay_kit \<Rightarrow> ('s, 'm) audit_env \<Rightarrow> string \<Rightarrow> chain_step list \<Rightarrow> bool" where
  "reexecutes k ae t ss \<longleftrightarrow>
     (\<exists>s0 o1 s1 s2 ls s3. starts_fresh ae t s0 \<and> env_reset (ae_env ae) s0 = (Inr o1, s1) \<and>
        env_provision (ae_env ae) s1 = (Inr (), s2) \<and>
        live_run (ae_env ae) (map cs_env_action ss) s2 = (Inr ls, s3) \<and> list_all2 (reproduces k) ss ls)"

lemma scope_starts_fresh:
  "apply_replay_scope k (ae_env ae) cid c (ae_fresh ae t) = (r, c', s) \<Longrightarrow> starts_fresh ae t s"
  by (auto simp: apply_replay_scope_def starts_fresh_def split: prod.splits sum.splits option.splits)

lemma closing_Inr: "closing env r = Inr x \<Longrightarrow> fst r = Inr x"
  by (auto simp: closing_def split: prod.splits sum.splits)

lemma check_task_clean:
  assumes "check_task k ae h (map (row_json k) ss) ns w = (Inr False, w')"
  shows "reexecutes k ae (th_task_id h) ss"
proof -
  let ?env = "ae_env ae" and ?rows = "map (row_json k) ss"
  obtain r c s0 where sc: "apply_replay_scope k ?env (th_content_id h) (aw_cache w) (ae_fresh ae (th_task_id h)) = (r, c, s0)"
    by (rule prod_cases3)
  obtain rr s1 where rs: "env_reset ?env s0 = (rr, s1)" by fastforce
  obtain rp s2 where pv: "env_provision ?env s1 = (rp, s2)" by fastforce
  obtain rc s3 where cp: "compare_rows k ?env 1 ?rows s2 = (rc, s3)" by fastforce
  have "(\<exists>o1. rr = Inr o1) \<and> rp = Inr () \<and> rc = Inr None"
    using assms sc rs pv cp
    by (auto simp: check_task_def Let_def dest!: closing_Inr split: sum.splits option.splits)
  with scope_starts_fresh [OF sc] rs pv cp compare_rows_reproduces [of k ?env 1 ss s2 s3]
  show ?thesis unfolding reexecutes_def by blast
qed

lemma check_task_chains: "aw_chains (snd (check_task k ae h rows ns w)) = aw_chains w"
  by (simp add: check_task_def Let_def split: prod.splits sum.splits option.splits)

lemma check_one_chains: "aw_chains (snd (check_one k ae h w)) = aw_chains w"
proof -
  have "aw_chains w1 = aw_chains w" if "check_task k ae h rows ns w = (r, w1)" for rows ns r w1
    using check_task_chains [of k ae h rows ns w] that by simp
  then show ?thesis by (auto simp: check_one_def Let_def audit_log_def split: prod.splits sum.splits)
qed

lemma check_one_deterministic:
  assumes "check_one k ae h w = (Inr c, w')" and "tc_verdict c = Deterministic"
    and "aw_chains w (th_task_id h) = Some (chain_text k ss)" and "float_repr_ok (rk_fr k)" "loads_inverts k"
  shows "reexecutes k ae (th_task_id h) ss \<and> \<not> list_ex cs_timed_out ss"
proof -
  have out: "\<not> list_ex cs_timed_out ss"
    using assms(1,2) by (auto simp: check_one_def assms(3) load_written [OF assms(4,5)])
  obtain res w1 where ct: "check_task k ae h (map (row_json k) ss) (namespace_for (th_content_id h)) w = (res, w1)"
    by fastforce
  have "res = Inr False"
  proof (cases res)
    case (Inr b)
    with assms(1,2) out ct show ?thesis
      by (cases b) (auto simp: check_one_def assms(3) load_written [OF assms(4,5)] Let_def)
  qed (use assms(1) out ct in \<open>simp add: check_one_def assms(3) load_written [OF assms(4,5)] Let_def\<close>)
  with ct check_task_clean out show ?thesis by blast
qed

lemma check_all_each:
  "check_all k ae hs w = (Inr cs, w') \<Longrightarrow> map fst cs = map th_task_id hs \<and>
     (\<forall>(t, c) \<in> set cs. \<exists>h w1 w2. th_task_id h = t \<and> aw_chains w1 = aw_chains w \<and> check_one k ae h w1 = (Inr c, w2))"
proof (induction hs arbitrary: w cs)
  case (Cons h hs)
  obtain c w1 cs' where c: "check_one k ae h w = (Inr c, w1)" "check_all k ae hs w1 = (Inr cs', w')"
      "cs = (th_task_id h, c) # cs'"
    using Cons.prems by (auto split: prod.splits sum.splits)
  have "aw_chains w1 = aw_chains w" using check_one_chains [of k ae h w] c(1) by simp
  with Cons.IH [OF c(2)] c show ?case by fastforce
qed simp

lemma task_handle_id: "task_handle_of ts t m = Inr h \<Longrightarrow> th_task_id h = t"
  by (auto simp: task_handle_of_def res_simps split: option.splits task_timeout.splits if_splits)

lemma certify_tasks_each:
  assumes "certify_tasks k ae load m ids w = (Inr cs, w')"
  shows "map fst cs = ids \<and>
    (\<forall>(t, c) \<in> set cs. \<exists>h w1 w2. th_task_id h = t \<and> aw_chains w1 = aw_chains w \<and> check_one k ae h w1 = (Inr c, w2))"
proof -
  obtain ts hs where hs: "map_res (\<lambda>t. task_handle_of ts t m) ids = Inr hs" "check_all k ae hs w = (Inr cs, w')"
    using assms by (auto simp: certify_tasks_def res_simps split: sum.splits)
  have "map th_task_id hs = ids"
  proof (rule nth_equalityI)
    have len: "length hs = length ids" by (rule map_res_Inr_length [OF hs(1)])
    then show "length (map th_task_id hs) = length ids" by simp
    fix i assume "i < length (map th_task_id hs)"
    then have "i < length ids" "i < length hs" using len by simp_all
    then show "map th_task_id hs ! i = ids ! i" using task_handle_id [OF map_res_Inr_nth [OF hs(1)]] by simp
  qed
  with check_all_each [OF hs(2)] show ?thesis by simp
qed

lemma inherited_each:
  "inherit_certificates k files prior ts = Inr kept \<Longrightarrow> (t, c) \<in> set kept \<Longrightarrow>
     map_of prior t = Some c \<and> (\<exists>rows. load_chain k (files t) = Inr (rows, tc_chain_digest c, False))"
  by (induction ts arbitrary: kept) (auto simp: res_simps split: option.splits if_splits)

lemma updates_entries:
  "set (AList.updates ks vs al) \<subseteq> set (zip ks vs) \<union> set al"
  "length ks = length vs \<Longrightarrow> fst ` set (AList.updates ks vs al) = set ks \<union> fst ` set al"
proof -
  have upd: "set (AList.update k v al) \<subseteq> insert (k, v) (set al)" for k v and al :: "('a \<times> 'b) list"
    by (induction al) auto
  show "set (AList.updates ks vs al) \<subseteq> set (zip ks vs) \<union> set al"
    using upd by (induction ks arbitrary: vs al; case_tac vs) (simp, simp, simp, fastforce)
  show "length ks = length vs \<Longrightarrow> fst ` set (AList.updates ks vs al) = set ks \<union> fst ` set al"
    by (induction ks arbitrary: vs al; case_tac vs) (auto simp: dom_update)
qed

lemma certify_baseline_each:
  assumes "certify_baseline k ae load m baseline inherited w = (Inr (b, kept), w')"
    and "t \<in> fst ` set (ex_tasks baseline)"
  shows "ex_tasks b = ex_tasks baseline \<and> (\<exists>cs c. ex_determinism_certification b = Some cs \<and> (t, c) \<in> set cs \<and>
    ((\<exists>h w1 w2. th_task_id h = t \<and> aw_chains w1 = aw_chains w \<and> check_one k ae h w1 = (Inr c, w2)) \<or>
     (map_of (inheritable k baseline inherited) t = Some c \<and>
      (\<exists>rows. load_chain k (aw_chains w t) = Inr (rows, tc_chain_digest c, False)))))"
proof -
  let ?tasks = "map fst (ex_tasks baseline)"
  obtain kc where kc: "inherit_certificates k (aw_chains w) (inheritable k baseline inherited) ?tasks = Inr kc"
    using assms(1) by (auto simp: certify_baseline_def split: sum.splits)
  let ?ids = "filter (\<lambda>t. t \<notin> fst ` set kc) ?tasks"
  obtain cs w1 where cs: "(if ?ids = [] then (Inr [], w) else certify_tasks k ae load m ?ids w) = (Inr cs, w1)"
      and b: "b = baseline\<lparr>ex_determinism_certification := Some (AList.updates (map fst cs) (map snd cs) kc)\<rparr>"
    using assms(1) kc by (auto simp: certify_baseline_def Let_def split: prod.splits sum.splits)
  have each: "map fst cs = ?ids \<and>
      (\<forall>(t, c) \<in> set cs. \<exists>h w1 w2. th_task_id h = t \<and> aw_chains w1 = aw_chains w \<and> check_one k ae h w1 = (Inr c, w2))"
    using cs certify_tasks_each [of k ae load m ?ids w cs w1] by (cases "?ids = []") auto
  let ?all = "AList.updates (map fst cs) (map snd cs) kc"
  have "fst ` set ?all = set (map fst cs) \<union> fst ` set kc" by (rule updates_entries(2)) simp
  then have "t \<in> fst ` set ?all" using each assms(2) by auto
  then obtain c where c: "(t, c) \<in> set ?all" by auto
  have "set ?all \<subseteq> set cs \<union> set kc"
    using updates_entries(1) [of "map fst cs" "map snd cs" kc] by (simp add: zip_map_fst_snd)
  then have "(t, c) \<in> set cs \<or> (t, c) \<in> set kc" using c by blast
  then show ?thesis using c b each inherited_each [OF kc] by fastforce
qed

text \<open>
  C32. A task stays on the panel only if its recorded chain reproduces. When the audit returns a panel
  it is not empty and made of the baseline's tasks, and each task on it whose chain was recorded has
  no timed-out step and either was executed again from a fresh environment with the same observation
  digest for every run and the same verdict, or had a deterministic certificate from a run of the
  same identity over the same actions.
\<close>

theorem audited_panel_reproduces:
  assumes "exclude_nondeterministic_tasks k ae load m artifact baseline inherited w = (Inr (b, ids), w')"
    and "ex_determinism_certification baseline = None"
    and "t \<in> set ids" and "aw_chains w t = Some (chain_text k ss)"
    and "float_repr_ok (rk_fr k)" and "loads_inverts k"
  shows "t \<in> fst ` set (ex_tasks baseline) \<and> \<not> list_ex cs_timed_out ss \<and>
    (reexecutes k ae t ss \<or>
     (\<exists>c. map_of (inheritable k baseline inherited) t = Some c \<and> tc_verdict c = Deterministic \<and>
          tc_chain_digest c = actions_digest k (map cs_env_action ss)))"
proof -
  obtain kept w1 where run: "certify_baseline k ae load m baseline inherited w = (Inr (b, kept), w1)"
      and ids: "ids = filter (\<lambda>t. t \<notin> fst ` set (excluded_tasks b)) (map fst (ex_tasks b))"
    using assms(1,2) by (auto simp: exclude_nondeterministic_tasks_def Let_def split: prod.splits sum.splits if_splits)
  have "ex_tasks b = ex_tasks baseline"
    using run by (auto simp: certify_baseline_def Let_def split: prod.splits sum.splits)
  with ids assms(3) have t: "t \<in> fst ` set (ex_tasks baseline)" "t \<notin> fst ` set (excluded_tasks b)" by auto
  from certify_baseline_each [OF run t(1)] obtain cs c where c:
    "ex_determinism_certification b = Some cs" "(t, c) \<in> set cs"
    "(\<exists>h w1 w2. th_task_id h = t \<and> aw_chains w1 = aw_chains w \<and> check_one k ae h w1 = (Inr c, w2)) \<or>
     (map_of (inheritable k baseline inherited) t = Some c \<and>
      (\<exists>rows. load_chain k (aw_chains w t) = Inr (rows, tc_chain_digest c, False)))" by blast
  have det: "tc_verdict c = Deterministic"
    using t(2) c(1,2) unfolding excluded_tasks_def by (force simp: image_iff)
  show ?thesis
    using c(3)
  proof
    assume "\<exists>h w1 w2. th_task_id h = t \<and> aw_chains w1 = aw_chains w \<and> check_one k ae h w1 = (Inr c, w2)"
    then show ?thesis using check_one_deterministic [OF _ det _ assms(5,6)] assms(4) t(1) by metis
  next
    assume "map_of (inheritable k baseline inherited) t = Some c \<and>
      (\<exists>rows. load_chain k (aw_chains w t) = Inr (rows, tc_chain_digest c, False))"
    then show ?thesis using load_written [OF assms(5,6), of ss] assms(4) t(1) det by auto
  qed
qed

text \<open>A baseline of two tasks: one chain reproduces, the other was recorded in another world and forks.\<close>

definition counting_audit :: "(nat, unit) audit_env" where
  "counting_audit = \<lparr>ae_env = counting_env, ae_fresh = (\<lambda>t. if t = ''fork'' then 1 else 0)\<rparr>"

definition counted_chain :: "chain_step list" where
  "counted_chain = [\<lparr>cs_env_action = RunAct (run_of ''make''), cs_step_result = counted 0, cs_timed_out = False\<rparr>]"

definition counting_tasks :: "string list \<Rightarrow> exc + task_set" where
  "counting_tasks ids = Inr \<lparr>ts_kind = ''swe'', ts_tasks = map (\<lambda>t. (t,
     \<lparr>td_instruction = [], td_agent_timeout = NoTimeout, td_replay_id = None\<rparr>)) ids\<rparr>"

definition audited_world :: audit_world where
  "audited_world = \<lparr>aw_store = empty_store, aw_cache = recorded_world,
     aw_chains = (\<lambda>_. Some (chain_text sample_replay_kit counted_chain)), aw_forks = [], aw_log = []\<rparr>"

theorem audited_panel_reproduces_witness:
  "\<exists>b w'. exclude_nondeterministic_tasks sample_replay_kit counting_audit counting_tasks 1 (\<lambda>_. []) (sample_run ''r'' ''c'' [(''ok'', Solved), (''fork'', Solved)])
      None audited_world = (Inr (b, [''ok'']), w') \<and>
    reexecutes sample_replay_kit counting_audit ''ok'' counted_chain"
proof -
  let ?k = sample_replay_kit and ?step = "hd counted_chain"
  have fr: "float_repr_ok (rk_fr ?k)" by (simp add: sample_replay_kit_def sample_repr_ok)
  have rep: "reproduces ?k ?step (counted n) \<longleftrightarrow> counted n = counted 0" if "n < 2" for n
  proof -
    have sha: "inj (rk_sha ?k)"
      using quoted_inj [where r = "[]" and r' = "[]"] by (auto simp: sample_replay_kit_def inj_def)
    have "rk_hash ?k (run_of ''make'') (counted n) = rk_hash ?k (run_of ''make'') (counted 0) \<longleftrightarrow>
        same_observation plain_rules (Some ''make'') (counted n) (Some ''make'') (counted 0)"
      unfolding rk_hash_def
      using scrubbed_hash_iff [OF fr, of UNIV "rk_sha ?k" plain_rules] injD [OF sha]
      by (simp add: sample_replay_kit_def run_of_def)
    moreover have "audit_lines plain_rules (Some ''make'') ''0'' = [''0'']" "audit_lines plain_rules (Some ''make'') ''1'' = [''1'']"
      by (simp_all add: audit_lines_def scrub_nondeterminism_def plain_rules_def
          canonicalize_structural_headers_def canonical_header_def header_match_def header_char_def
          is_alpha_def rstrip_ws_def whitespace_def line_breaks_def nl_def enumerate_eq_zip Let_def)
    moreover have "nat_str 0 = ''0''" "nat_str 1 = ''1''" by (simp_all add: nat_str_def nat_digits.simps digit_char_def)
    ultimately show ?thesis
      using that by (cases n) (auto simp: reproduces_def counted_chain_def rk_hash_scrub [OF sample_kit_ok(2)]
          same_observation_def same_output_def counted_def plain_step_def empty_output_def)
  qed
  have cmp: "\<exists>m. compare_action ?k counting_env (row_json ?k ?step) n = (Inr m, n + 1) \<and> (m = None \<longleftrightarrow> reproduces ?k ?step (counted n))" for n
    using compare_action_row [of counting_env ?step n "Inr (counted n)" "n + 1" ?k] counting_run
    by (simp add: counted_chain_def)
  let ?d = "actions_digest ?k (map cs_env_action counted_chain)"
  have load: "load_chain ?k (Some (chain_text ?k counted_chain)) = Inr (Some [row_json ?k ?step], ?d, False)"
    using load_written [OF fr sample_kit_ok(1), of counted_chain] by (simp add: counted_chain_def)
  have one: "\<exists>w'. check_one ?k counting_audit h w =
      (Inr \<lparr>tc_chain_digest = ?d, tc_verdict = (if th_task_id h = ''fork'' then Forked else Deterministic)\<rparr>, w') \<and>
      aw_chains w' = aw_chains w"
    if h: "th_content_id h = None" and w: "aw_chains w = aw_chains audited_world" for h w
  proof -
    let ?n = "ae_fresh counting_audit (th_task_id h)"
    obtain m where m: "compare_action ?k counting_env (row_json ?k ?step) ?n = (Inr m, ?n + 1)"
        "m = None \<longleftrightarrow> reproduces ?k ?step (counted ?n)" using cmp by blast
    have "counted (1 :: nat) \<noteq> counted 0"
      by (simp add: counted_def plain_step_def empty_output_def nat_str_def nat_digits.simps digit_char_def)
    then have "m = None \<longleftrightarrow> th_task_id h \<noteq> ''fork''"
      using m(2) rep [of 0] rep [of 1] by (simp add: counting_audit_def)
    moreover have "env_reset counting_env s = (Inr empty_output, s)" "env_provision counting_env s = (Inr (), s)"
      "env_close counting_env s = (Inr (), s)" for s by (simp_all add: counting_env_def)
    moreover have "ae_env counting_audit = counting_env" by (simp add: counting_audit_def)
    ultimately show ?thesis
      using h w m(1) load
      by (cases m) (simp_all add: check_one_def audited_world_def check_task_def Let_def apply_replay_scope_def
          resolve_scope_def namespace_for_def closing_def)
  qed
  let ?base = "sample_run ''r'' ''c'' [(''ok'', Solved), (''fork'', Solved)]"
  have tasks: "map fst (ex_tasks ?base) = [''ok'', ''fork'']" "ex_determinism_certification ?base = None"
    by (simp_all add: sample_run_def)
  obtain ts where ts: "counting_tasks [''ok'', ''fork''] = Inr ts"
      "map_of (ts_tasks ts) ''ok'' = Some \<lparr>td_instruction = [], td_agent_timeout = NoTimeout, td_replay_id = None\<rparr>"
      "map_of (ts_tasks ts) ''fork'' = Some \<lparr>td_instruction = [], td_agent_timeout = NoTimeout, td_replay_id = None\<rparr>"
    by (simp add: counting_tasks_def)
  define hd1 where "hd1 t = \<lparr>th_task_id = t, th_content_id = None, th_agent_timeout_sec = DEFAULT_AGENT_TIMEOUT_SEC\<rparr>" for t
  have handles: "task_handle_of ts ''ok'' 1 = Inr (hd1 ''ok'')" "task_handle_of ts ''fork'' 1 = Inr (hd1 ''fork'')"
    using ts(2,3) by (simp_all add: task_handle_of_def content_id_def hd1_def)
  have ids: "th_content_id (hd1 t) = None" "th_task_id (hd1 t) = t" for t by (simp_all add: hd1_def)
  obtain w1 where w1: "check_one ?k counting_audit (hd1 ''ok'') audited_world = (Inr \<lparr>tc_chain_digest = ?d, tc_verdict = Deterministic\<rparr>, w1)"
      "aw_chains w1 = aw_chains audited_world" using one [OF ids(1) refl, of "''ok''"] by (auto simp: ids)
  obtain w2 where w2: "check_one ?k counting_audit (hd1 ''fork'') w1 = (Inr \<lparr>tc_chain_digest = ?d, tc_verdict = Forked\<rparr>, w2)"
    using one [OF ids(1) w1(2), of "''fork''"] by (auto simp: ids)
  have "certify_tasks ?k counting_audit counting_tasks 1 [''ok'', ''fork''] audited_world =
      (Inr [(''ok'', \<lparr>tc_chain_digest = ?d, tc_verdict = Deterministic\<rparr>), (''fork'', \<lparr>tc_chain_digest = ?d, tc_verdict = Forked\<rparr>)], w2)"
    using ts(1) handles w1(1) w2 by (simp add: certify_tasks_def ids)
  moreover have "inherit_certificates ?k (aw_chains audited_world) [] us = Inr []" for us by (induction us) simp_all
  moreover have "excluded_tasks (e\<lparr>ex_determinism_certification := Some
      [(''ok'', \<lparr>tc_chain_digest = ?d, tc_verdict = Deterministic\<rparr>), (''fork'', \<lparr>tc_chain_digest = ?d, tc_verdict = Forked\<rparr>)]\<rparr>) =
      [(''fork'', Forked)]" for e by (simp add: excluded_tasks_def)
  ultimately obtain b w' where run: "exclude_nondeterministic_tasks ?k counting_audit counting_tasks 1 (\<lambda>_. []) ?base None audited_world =
      (Inr (b, [''ok'']), w')"
    by (simp add: exclude_nondeterministic_tasks_def certify_baseline_def inheritable_def tasks Let_def)
  have "aw_chains audited_world ''ok'' = Some (chain_text ?k counted_chain)" by (simp add: audited_world_def)
  from audited_panel_reproduces [OF run tasks(2) _ this fr sample_kit_ok(1)] run show ?thesis
    by (auto simp: inheritable_def)
qed

end
