(* ===== verification/Bytes.thy ===== *)
theory Bytes
  imports Certify
begin

text \<open>
  Bytes to text: the UTF-8 codec of Python, strict and with \<open>errors="replace"\<close>, and the bounded
  decoding of \<open>src/env/docker_shell.py\<close>. Text is carried as its UTF-8 bytes, so the strict codec is a
  test and the replacing one a repair. Every maximal prefix of a sequence that cannot be completed
  becomes one replacement character, as CPython does it.
\<close>

section \<open>UTF-8\<close>

definition seq_len :: "nat \<Rightarrow> nat" where
  "seq_len b =
     (if b < 128 then 1 else if 194 \<le> b \<and> b < 224 then 2 else if 224 \<le> b \<and> b < 240 then 3
      else if 240 \<le> b \<and> b < 245 then 4 else 0)"

definition second_ok :: "nat \<Rightarrow> nat \<Rightarrow> bool" where
  "second_ok b c \<longleftrightarrow>
     (if b = 224 then 160 else if b = 240 then 144 else 128) \<le> c \<and>
     c < (if b = 237 then 160 else if b = 244 then 144 else 192)"

definition continuation :: "char \<Rightarrow> bool" where
  "continuation c \<longleftrightarrow> 128 \<le> (of_char c :: nat) \<and> (of_char c :: nat) < 192"

text \<open>How many bytes the sequence at the head of the text gets.\<close>

fun matched :: "string \<Rightarrow> nat" where
  "matched [] = 0"
| "matched [b] = 1"
| "matched (b # c # cs) =
     (if 2 \<le> seq_len (of_char b) \<and> second_ok (of_char b) (of_char c)
      then 2 + length (takeWhile continuation (take (seq_len (of_char b) - 2) cs)) else 1)"

lemma matched_pos: "0 < matched (b # bs)"
  by (cases bs) auto

lemma matched_le: "matched bs \<le> length bs"
proof (cases bs rule: matched.cases)
  case (3 b c cs)
  have "length (takeWhile continuation (take n cs)) \<le> length cs" for n
    by (rule le_trans [OF length_takeWhile_le]) simp
  with 3 show ?thesis by simp
qed auto

definition complete_head :: "string \<Rightarrow> bool" where
  "complete_head bs \<longleftrightarrow> bs \<noteq> [] \<and> matched bs = seq_len (of_char (hd bs))"

function utf8_valid :: "string \<Rightarrow> bool" where
  "utf8_valid [] = True"
| "utf8_valid (b # bs) = (complete_head (b # bs) \<and> utf8_valid (drop (matched (b # bs)) (b # bs)))"
  by pat_completeness auto
termination by (relation "measure length") (use matched_pos in auto)

definition replacement :: string where
  "replacement = [CHR 0xEF, CHR 0xBF, CHR 0xBD]"

function utf8_replace :: "string \<Rightarrow> string" where
  "utf8_replace [] = []"
| "utf8_replace (b # bs) =
     (if complete_head (b # bs) then take (matched (b # bs)) (b # bs) else replacement) @
     utf8_replace (drop (matched (b # bs)) (b # bs))"
  by pat_completeness auto
termination by (relation "measure length") (use matched_pos in auto)

declare utf8_valid.simps(2) [simp del] utf8_replace.simps(2) [simp del]

lemma utf8_replace_id: "utf8_valid bs \<Longrightarrow> utf8_replace bs = bs"
  by (induction bs rule: utf8_valid.induct) (auto simp: utf8_valid.simps(2) utf8_replace.simps(2))

lemma set_utf8_replace: "set (utf8_replace bs) \<subseteq> set bs \<union> set replacement"
proof (induction bs rule: utf8_replace.induct)
  case (2 b bs)
  let ?k = "matched (b # bs)"
  have "set (take ?k (b # bs)) \<subseteq> set (b # bs)" "set (drop ?k (b # bs)) \<subseteq> set (b # bs)"
    by (rule set_take_subset, rule set_drop_subset)
  with 2 show ?case unfolding utf8_replace.simps(2) by (cases "complete_head (b # bs)") auto
qed simp

lemma length_utf8_replace: "length (utf8_replace bs) \<le> 3 * length bs"
proof (induction bs rule: utf8_replace.induct)
  case (2 b bs)
  let ?k = "matched (b # bs)"
  have "0 < ?k" "?k \<le> length (b # bs)" by (rule matched_pos, rule matched_le)
  with 2 show ?case unfolding utf8_replace.simps(2) by (auto simp: replacement_def)
qed simp

text \<open>The head is decoded by its own bytes: a complete head stays complete in front of any text.\<close>

lemma takeWhile_take_append:
  assumes "length (takeWhile P (take n cs)) = n"
  shows "n \<le> length cs \<and> takeWhile P (take n (take n cs @ ys)) = take n cs"
proof -
  have n: "n \<le> length (take n cs)" using assms length_takeWhile_le [of P "take n cs"] by simp
  then have "takeWhile P (take n cs) = take n cs"
    using assms by (metis length_take min.absorb2 min.cobounded2 take_all_iff takeWhile_eq_take)
  with n show ?thesis by simp
qed

lemma complete_head_append:
  assumes "complete_head bs"
  shows "complete_head (take (matched bs) bs @ ys) \<and> matched (take (matched bs) bs @ ys) = matched bs"
proof (cases bs rule: matched.cases)
  case (2 b)
  with assms have "seq_len (of_char b) = 1" by (simp add: complete_head_def)
  with 2 show ?thesis by (cases ys) (auto simp: complete_head_def)
next
  case (3 b c cs)
  show ?thesis
  proof (cases "2 \<le> seq_len (of_char b) \<and> second_ok (of_char b) (of_char c)")
    case True
    let ?n = "seq_len (of_char b) - 2"
    have len: "length (takeWhile continuation (take ?n cs)) = ?n"
      using assms 3 True by (simp add: complete_head_def)
    note fit = takeWhile_take_append [OF len, of ys]
    have "take (matched bs) bs = b # c # take ?n cs" using 3 True len by simp
    moreover have "Suc (Suc ?n) = seq_len (of_char b)" using True by linarith
    ultimately show ?thesis using 3 True len fit by (simp add: complete_head_def min_absorb2)
  next
    case False
    with assms 3 have "seq_len (of_char b) = 1" "matched bs = 1" by (auto simp: complete_head_def)
    with 3 show ?thesis by (cases ys) (auto simp: complete_head_def)
  qed
qed (use assms in \<open>simp add: complete_head_def\<close>)

lemma utf8_valid_append:
  assumes "complete_head bs" and "utf8_valid ys"
  shows "utf8_valid (take (matched bs) bs @ ys)"
proof -
  let ?h = "take (matched bs) bs"
  have bs: "bs \<noteq> []" using assms(1) by (simp add: complete_head_def)
  then have "0 < matched bs" by (cases bs) (auto simp: matched_pos)
  with bs obtain b hs where h: "?h = b # hs" by (cases bs; cases "matched bs") auto
  have len: "length ?h = matched bs" using matched_le [of bs] by simp
  have "drop (length ?h) (?h @ ys) = ys" by simp
  then have "drop (matched bs) (?h @ ys) = ys" by (simp only: len)
  with complete_head_append [OF assms(1), of ys] assms(2) show ?thesis
    unfolding h by (simp add: utf8_valid.simps(2))
qed

lemma complete_replacement: "complete_head replacement" "matched replacement = 3"
  by (simp_all add: complete_head_def replacement_def seq_len_def second_ok_def continuation_def)

lemma utf8_replace_valid: "utf8_valid (utf8_replace bs)"
proof (induction bs rule: utf8_replace.induct)
  case (2 b bs)
  show ?case
  proof (cases "complete_head (b # bs)")
    case True
    with 2 show ?thesis unfolding utf8_replace.simps(2) by (simp add: utf8_valid_append)
  next
    case False
    have "take 3 replacement = replacement" by (simp add: replacement_def)
    with 2 False utf8_valid_append [OF complete_replacement(1)] show ?thesis
      unfolding utf8_replace.simps(2) by (simp add: complete_replacement(2))
  qed
qed simp

section \<open>What a command's output becomes\<close>

definition MAX_CAPTURED_STREAM_BYTES :: nat where
  "MAX_CAPTURED_STREAM_BYTES = 256 * 1024"

definition BINARY_STDOUT_PLACEHOLDER :: string where
  "BINARY_STDOUT_PLACEHOLDER = ''<BINARY_STDOUT>''"

definition stream_bytes :: "string option \<Rightarrow> string" where
  "stream_bytes data = (case data of None \<Rightarrow> [] | Some raw \<Rightarrow> raw)"

definition truncation_note :: "nat \<Rightarrow> string" where
  "truncation_note n = nl # ''...[env output truncated: '' @ nat_str n @ '' bytes total]''"

definition bounded_decode :: "string option \<Rightarrow> string" where
  "bounded_decode data =
     (let raw = stream_bytes data
      in utf8_replace (take MAX_CAPTURED_STREAM_BYTES raw) @
         (if MAX_CAPTURED_STREAM_BYTES < length raw then truncation_note (length raw) else []))"

definition decode_stdout :: "string option \<Rightarrow> string" where
  "decode_stdout data =
     (let raw = stream_bytes data
      in if CHR 0x00 \<in> set raw then BINARY_STDOUT_PLACEHOLDER
         else if \<not> utf8_valid raw then BINARY_STDOUT_PLACEHOLDER
         else bounded_decode (Some raw))"

text \<open>Text that fits is passed through unchanged; otherwise the size is bounded whatever the command wrote.\<close>

lemma decode_stdout_text:
  assumes "utf8_valid raw" and "CHR 0x00 \<notin> set raw" and "length raw \<le> MAX_CAPTURED_STREAM_BYTES"
  shows "decode_stdout (Some raw) = raw"
  using assms by (simp add: decode_stdout_def bounded_decode_def stream_bytes_def Let_def utf8_replace_id)

lemma length_bounded_decode:
  "length (bounded_decode data) \<le>
     3 * MAX_CAPTURED_STREAM_BYTES + length (truncation_note (length (stream_bytes data)))"
proof -
  have "length (utf8_replace (take n bs)) \<le> 3 * n" for n and bs :: string
    by (rule le_trans [OF length_utf8_replace]) simp
  then show ?thesis by (simp add: bounded_decode_def Let_def add_mono trans_le_add1)
qed

lemma nat_str_digit_chars: "set (nat_str n) \<subseteq> set ''0123456789''"
  using nat_digits_less digit_char_digit by (fastforce simp: nat_str_def)

lemma decode_stdout_no_nul: "CHR 0x00 \<notin> set (decode_stdout data)"
proof -
  have rep: "CHR 0x00 \<notin> set replacement" by (simp add: replacement_def)
  have "CHR 0x00 \<notin> set ''0123456789''" by simp
  with nat_str_digit_chars have "CHR 0x00 \<notin> set (nat_str n)" for n by blast
  then have tail: "CHR 0x00 \<notin> set (truncation_note n)" for n
    by (simp add: truncation_note_def nl_def)
  have "CHR 0x00 \<notin> set (utf8_replace (take n raw))" if "CHR 0x00 \<notin> set raw" for n raw
    using that rep set_utf8_replace [of "take n raw"] set_take_subset [of n raw] by blast
  with tail have "CHR 0x00 \<notin> set (bounded_decode (Some raw))" if "CHR 0x00 \<notin> set raw" for raw
    using that by (simp add: bounded_decode_def stream_bytes_def Let_def)
  then show ?thesis by (simp add: decode_stdout_def BINARY_STDOUT_PLACEHOLDER_def Let_def)
qed

end
