(* ===== verification/Docker.thy ===== *)
theory Docker
  imports Bytes Recording
begin

text \<open>
  \<open>src/env/docker_shell.py\<close>: the container session of the task environments. The docker daemon is a
  parameter with a state of its own: every call of its API that the session makes is an operation
  that may raise. An awaited call whose deadline expires raises \<open>BareTimeout\<close>; a container and a
  network object are known by their names, which docker keeps unique.
\<close>

section \<open>Source pins (\<open>src/determinism.py\<close>)\<close>

definition CONTAINER_HOSTNAME :: string where
  "CONTAINER_HOSTNAME = ''sandbox''"

definition FIXED_EPOCH :: string where
  "FIXED_EPOCH = ''@0''"

definition SOLVE_EXEC_ENV :: "(string, string) dict" where
  "SOLVE_EXEC_ENV =
     [(''PYTHONHASHSEED'', ''0''), (''PERL_HASH_SEED'', ''0''), (''PERL_PERTURB_KEYS'', ''0''),
      (''GIT_AUTHOR_DATE'', FIXED_EPOCH @ '' +0000''), (''GIT_COMMITTER_DATE'', FIXED_EPOCH @ '' +0000''),
      (''SOURCE_DATE_EPOCH'', ''0''), (''TZ'', ''UTC''), (''PYTHONDONTWRITEBYTECODE'', ''1'')]"

definition MTIME_RESET_COMMAND :: string where
  "MTIME_RESET_COMMAND = ''touch -c -d '' @ FIXED_EPOCH @ '' / /tmp /root /run''"

definition backslash :: string where "backslash = [CHR 0x5C]"
definition dquote :: string where "dquote = [CHR 0x22]"
definition squote :: string where "squote = [CHR 0x27]"

definition GIT_HOOKS_INIT_COMMAND :: string where
  "GIT_HOOKS_INIT_COMMAND = join_nl
     [''if command -v git >/dev/null 2>&1; then'',
      ''  home_dir=${HOME:-/tmp}'',
      ''  template_dir='' @ dquote @ ''$home_dir/.cache/framework-git-template'' @ dquote,
      ''  hooks_dir='' @ dquote @ ''$template_dir/hooks'' @ dquote,
      ''  mkdir -p '' @ dquote @ ''$hooks_dir'' @ dquote,
      ''  cat > '' @ dquote @ ''$hooks_dir/post-checkout'' @ dquote @ '' <<'' @ squote @ ''EOF'' @ squote,
      ''#!/usr/bin/env sh'',
      ''worktree=$(git rev-parse --show-toplevel 2>/dev/null) || exit 0'',
      ''find '' @ dquote @ ''$worktree'' @ dquote @ '' -exec touch -h -t 198001010000.00 {} + 2>/dev/null || '' @ backslash,
      ''  find '' @ dquote @ ''$worktree'' @ dquote @ '' -exec touch -t 198001010000.00 {} + 2>/dev/null || true'',
      ''EOF'',
      ''  cp '' @ dquote @ ''$hooks_dir/post-checkout'' @ dquote @ '' '' @ dquote @ ''$hooks_dir/post-merge'' @ dquote,
      ''  chmod +x '' @ dquote @ ''$hooks_dir/post-checkout'' @ dquote @ '' '' @ dquote @ ''$hooks_dir/post-merge'' @ dquote,
      ''  HOME='' @ dquote @ ''$home_dir'' @ dquote @ '' git config --global init.templateDir '' @ dquote @ ''$template_dir'' @ dquote,
      ''fi'']"

definition GDB_INIT_COMMAND :: string where
  "GDB_INIT_COMMAND = ''printf '' @ squote @ ''%s'' @ backslash @ ''n'' @ squote @ '' '' @ squote @
     ''set print inferior-events off'' @ squote @ '' >> /root/.gdbinit''"

section \<open>The daemon and the session\<close>

record container_config =
  rc_image :: string
  rc_argv :: "string list"
  rc_name :: string
  rc_platform :: string
  rc_hostname :: string
  rc_labels :: "(string, string) dict"
  rc_volumes :: "(string, string \<times> string) dict"
  rc_nano_cpus :: "nat option"
  rc_mem_limit :: "nat option"
  rc_network :: "(string \<times> string) option"

record exec_spec =
  ex_argv :: "string list"
  ex_workdir :: string
  ex_environment :: "(string, string) dict"
  ex_deadline :: "rat option"

record exec_reply =
  er_exit_code :: "int option"
  er_stdout :: "string option"
  er_stderr :: "string option"

record 'd daemon =
  dd_run :: "container_config \<Rightarrow> 'd \<Rightarrow> (rexc + unit) \<times> 'd"
  dd_pull :: "string \<Rightarrow> 'd \<Rightarrow> (rexc + unit) \<times> 'd"
  dd_get :: "string \<Rightarrow> 'd \<Rightarrow> (rexc + unit) \<times> 'd"
  dd_exec :: "string \<Rightarrow> exec_spec \<Rightarrow> 'd \<Rightarrow> (rexc + exec_reply) \<times> 'd"
  dd_remove :: "string \<Rightarrow> 'd \<Rightarrow> (rexc + unit) \<times> 'd"
  dd_net_create :: "string \<Rightarrow> string \<Rightarrow> (string, string) dict \<Rightarrow> 'd \<Rightarrow> (rexc + unit) \<times> 'd"
  dd_net_remove :: "string \<Rightarrow> 'd \<Rightarrow> (rexc + unit) \<times> 'd"

text \<open>The exception classes of the docker package that are told apart.\<close>

fun docker_error :: "rexc \<Rightarrow> bool" where
  "docker_error (PlainExc (OtherError n _)) \<longleftrightarrow>
     n \<in> {''DockerException'', ''APIError'', ''NotFound'', ''ImageNotFound''}"
| "docker_error _ \<longleftrightarrow> False"

fun docker_not_found :: "rexc \<Rightarrow> bool" where
  "docker_not_found (PlainExc (OtherError n _)) \<longleftrightarrow> n \<in> {''NotFound'', ''ImageNotFound''}"
| "docker_not_found _ \<longleftrightarrow> False"

fun image_not_found :: "rexc \<Rightarrow> bool" where
  "image_not_found (PlainExc (OtherError n _)) \<longleftrightarrow> n = ''ImageNotFound''"
| "image_not_found _ \<longleftrightarrow> False"

record managed_network =
  mn_subnet :: string
  mn_ipv4_address :: string

record shell_session =
  ds_name :: string
  ds_owner_pid :: nat
  ds_image :: string
  ds_network :: "managed_network option"
  ds_network_obj :: "string option"
  ds_run_environment :: "(string, string) dict"
  ds_binds :: "(string, string) dict"
  ds_cpu_limit :: "nat option"
  ds_memory_limit_mb :: "nat option"
  ds_setup_timeout :: rat
  ds_setup_command :: "string option"
  ds_warned :: "string list"
  ds_warnings :: "string list"
  ds_started :: bool

text \<open>\<open>{**a, **b}\<close>.\<close>

definition merged :: "('k, 'v) dict \<Rightarrow> ('k, 'v) dict \<Rightarrow> ('k, 'v) dict" where
  "merged a b = fold (\<lambda>(k, v). AList.update k v) b a"

text \<open>\<open>DockerShellSession.__init__\<close>; \<open>token\<close> is the random part of the name.\<close>

definition new_session ::
    "nat \<Rightarrow> string \<Rightarrow> string \<Rightarrow> managed_network option \<Rightarrow> (string, string) dict \<Rightarrow> (string, string) dict \<Rightarrow> string \<Rightarrow>
       nat option \<Rightarrow> nat option \<Rightarrow> rat \<Rightarrow> string option \<Rightarrow> shell_session" where
  "new_session pid token img network extra_env binds name_prefix cpus memory setup_timeout setup_command =
     \<lparr>ds_name = name_prefix @ ''_'' @ token, ds_owner_pid = pid, ds_image = img, ds_network = network,
      ds_network_obj = None, ds_run_environment = merged SOLVE_EXEC_ENV extra_env, ds_binds = binds,
      ds_cpu_limit = cpus, ds_memory_limit_mb = memory, ds_setup_timeout = setup_timeout,
      ds_setup_command = setup_command, ds_warned = [], ds_warnings = [], ds_started = False\<rparr>"

definition set_setup_command :: "string option \<Rightarrow> shell_session \<Rightarrow> rexc + shell_session" where
  "set_setup_command cmd s =
     (if ds_started s \<and> cmd \<noteq> ds_setup_command s
      then Inl (PlainExc (RuntimeError ''cannot change Docker setup command after start''))
      else Inr (s\<lparr>ds_setup_command := cmd\<rparr>))"

section \<open>Creating the container\<close>

definition SESSION_OWNER_PID_LABEL :: string where
  "SESSION_OWNER_PID_LABEL = ''harness_experiment.owner_pid''"

definition owner_labels :: "shell_session \<Rightarrow> (string, string) dict" where
  "owner_labels s = [(SESSION_OWNER_PID_LABEL, nat_str (ds_owner_pid s))]"

definition create_managed_network ::
    "'d daemon \<Rightarrow> string \<Rightarrow> managed_network \<Rightarrow> shell_session \<times> 'd \<Rightarrow> (rexc + unit) \<times> shell_session \<times> 'd" where
  "create_managed_network dd name net sd =
     (case sd of (s, d) \<Rightarrow>
        (if ds_network_obj s \<noteq> None then (Inr (), s, d)
         else case dd_net_create dd name (mn_subnet net) (owner_labels s) d of
                (Inl e, d') \<Rightarrow> (Inl e, s, d')
              | (Inr _, d') \<Rightarrow> (Inr (), s\<lparr>ds_network_obj := Some name\<rparr>, d')))"

definition network_name :: "shell_session \<Rightarrow> string" where
  "network_name s = ds_name s @ ''_net''"

definition run_kwargs :: "shell_session \<Rightarrow> container_config" where
  "run_kwargs s =
     \<lparr>rc_image = ds_image s, rc_argv = [''sleep'', ''infinity''], rc_name = ds_name s,
      rc_platform = ''linux/amd64'', rc_hostname = CONTAINER_HOSTNAME, rc_labels = owner_labels s,
      rc_volumes = map (\<lambda>(host, container). (host, (container, ''ro''))) (ds_binds s),
      rc_nano_cpus = map_option (\<lambda>n. n * 1000000000) (ds_cpu_limit s),
      rc_mem_limit = map_option (\<lambda>n. n * 1024 * 1024) (ds_memory_limit_mb s),
      rc_network = map_option (\<lambda>net. (network_name s, mn_ipv4_address net)) (ds_network s)\<rparr>"

definition run_or_pull :: "'d daemon \<Rightarrow> shell_session \<times> 'd \<Rightarrow> (rexc + unit) \<times> shell_session \<times> 'd" where
  "run_or_pull dd sd =
     (case sd of (s, d) \<Rightarrow>
        (case dd_run dd (run_kwargs s) d of
           (Inr _, d1) \<Rightarrow> (Inr (), s, d1)
         | (Inl e, d1) \<Rightarrow>
             (if \<not> image_not_found e then (Inl e, s, d1)
              else case dd_pull dd (ds_image s) d1 of
                     (Inl e', d2) \<Rightarrow> (Inl e', s, d2)
                   | (Inr _, d2) \<Rightarrow> (case dd_run dd (run_kwargs s) d2 of (r, d3) \<Rightarrow> (r, s, d3)))))"

definition prepare_network :: "'d daemon \<Rightarrow> shell_session \<times> 'd \<Rightarrow> (rexc + unit) \<times> shell_session \<times> 'd" where
  "prepare_network dd sd =
     (case ds_network (fst sd) of
        None \<Rightarrow> (Inr (), sd)
      | Some net \<Rightarrow> create_managed_network dd (network_name (fst sd)) net sd)"

definition run_container_sync :: "'d daemon \<Rightarrow> shell_session \<times> 'd \<Rightarrow> (rexc + unit) \<times> shell_session \<times> 'd" where
  "run_container_sync dd sd =
     (case prepare_network dd sd of
        (Inl e, sd') \<Rightarrow> (Inl e, sd')
      | (Inr _, sd') \<Rightarrow> run_or_pull dd sd')"

text \<open>\<open>AsyncRetrying\<close> around it: \<open>left\<close> further attempts, for docker's own errors only.\<close>

definition DOCKER_INFRA_RETRY_BUDGET :: nat where
  "DOCKER_INFRA_RETRY_BUDGET = 5"

fun run_attempts :: "'d daemon \<Rightarrow> nat \<Rightarrow> shell_session \<times> 'd \<Rightarrow> (rexc + unit) \<times> shell_session \<times> 'd" where
  "run_attempts dd 0 sd = run_container_sync dd sd"
| "run_attempts dd (Suc left) sd =
     (case run_container_sync dd sd of
        (Inr u, sd') \<Rightarrow> (Inr u, sd')
      | (Inl e, sd') \<Rightarrow> (if docker_error e then run_attempts dd left sd' else (Inl e, sd')))"

section \<open>Commands in the container\<close>

definition exec_control_command :: "'d daemon \<Rightarrow> string \<Rightarrow> string \<Rightarrow> rat \<Rightarrow> 'd \<Rightarrow> (rexc + exec_reply) \<times> 'd" where
  "exec_control_command dd container command timeout d =
     dd_exec dd container
       \<lparr>ex_argv = [''bash'', ''-lc'', command], ex_workdir = ''/'', ex_environment = SOLVE_EXEC_ENV,
        ex_deadline = Some timeout\<rparr> d"

text \<open>A pin that fails is warned about once per command; its detail is not kept.\<close>

definition exec_best_effort :: "'d daemon \<Rightarrow> string \<Rightarrow> shell_session \<times> 'd \<Rightarrow> shell_session \<times> 'd" where
  "exec_best_effort dd command sd =
     (case sd of (s, d) \<Rightarrow>
        (case exec_control_command dd (ds_name s) command 30 d of (r, d') \<Rightarrow>
           (if (\<exists>reply. r = Inr reply \<and> er_exit_code reply = Some 0) \<or> command \<in> set (ds_warned s) then (s, d')
            else (s\<lparr>ds_warned := command # ds_warned s, ds_warnings := ds_warnings s @ [take 80 command]\<rparr>, d'))))"

definition exec_required :: "'d daemon \<Rightarrow> string \<Rightarrow> shell_session \<times> 'd \<Rightarrow> (rexc + unit) \<times> 'd" where
  "exec_required dd command sd =
     (case sd of (s, d) \<Rightarrow>
        (case exec_control_command dd (ds_name s) command (ds_setup_timeout s) d of
           (Inl e, d') \<Rightarrow> (Inl e, d')
         | (Inr reply, d') \<Rightarrow>
             (if er_exit_code reply = Some 0 then (Inr (), d')
              else (Inl (UnscorableInfraError
                (''required setup command failed with exit code '' @
                 (case er_exit_code reply of None \<Rightarrow> ''None'' | Some c \<Rightarrow> int_str c) @ '': '' @
                 join_nl (filter (\<lambda>part. part \<noteq> [])
                   [strip_ws (bounded_decode (er_stderr reply)), strip_ws (bounded_decode (er_stdout reply))]))), d'))))"

definition remove_managed_network :: "'d daemon \<Rightarrow> shell_session \<times> 'd \<Rightarrow> (rexc + unit) \<times> shell_session \<times> 'd" where
  "remove_managed_network dd sd =
     (case sd of (s, d) \<Rightarrow>
        (case ds_network_obj s of
           None \<Rightarrow> (Inr (), s, d)
         | Some name \<Rightarrow>
             (case dd_net_remove dd name d of (r, d') \<Rightarrow>
                ((case r of Inr u \<Rightarrow> Inr () | Inl e \<Rightarrow> if docker_error e then Inr () else Inl e),
                 s\<lparr>ds_network_obj := None\<rparr>, d'))))"

section \<open>Start and close\<close>

text \<open>An exception of the clean-up replaces the one that caused it.\<close>

definition cleaned :: "rexc \<Rightarrow> rexc + unit \<Rightarrow> rexc + unit" where
  "cleaned e r = (case r of Inl e' \<Rightarrow> Inl e' | Inr _ \<Rightarrow> Inl e)"

definition start_pins :: "'d daemon \<Rightarrow> shell_session \<times> 'd \<Rightarrow> shell_session \<times> 'd" where
  "start_pins dd sd =
     exec_best_effort dd MTIME_RESET_COMMAND
       (exec_best_effort dd GDB_INIT_COMMAND (exec_best_effort dd GIT_HOOKS_INIT_COMMAND sd))"

definition run_setup :: "'d daemon \<Rightarrow> shell_session \<times> 'd \<Rightarrow> (rexc + unit) \<times> shell_session \<times> 'd" where
  "run_setup dd sd =
     (case ds_setup_command (fst sd) of
        None \<Rightarrow> (Inr (), sd)
      | Some command \<Rightarrow>
          (case exec_required dd command sd of
             (Inr _, d) \<Rightarrow> (Inr (), fst sd, d)
           | (Inl e, d) \<Rightarrow>
               (case dd_remove dd (ds_name (fst sd)) d of (_, d') \<Rightarrow>
                  (case remove_managed_network dd (fst sd, d') of
                     (Inl e', sd') \<Rightarrow> (Inl e', sd')
                   | (Inr _, s, d'') \<Rightarrow> (Inl e, s\<lparr>ds_started := False\<rparr>, d'')))))"

definition start :: "'d daemon \<Rightarrow> shell_session \<times> 'd \<Rightarrow> (rexc + unit) \<times> shell_session \<times> 'd" where
  "start dd sd =
     (if ds_started (fst sd) then (Inr (), sd)
      else case run_attempts dd DOCKER_INFRA_RETRY_BUDGET sd of
             (Inl e, sd') \<Rightarrow> (case remove_managed_network dd sd' of (r, sd'') \<Rightarrow> (cleaned e r, sd''))
           | (Inr _, s, d) \<Rightarrow>
               (case run_setup dd (s\<lparr>ds_started := True\<rparr>, d) of
                  (Inl e, sd') \<Rightarrow> (Inl e, sd')
                | (Inr _, sd') \<Rightarrow> (Inr (), start_pins dd sd')))"

definition close_container :: "'d daemon \<Rightarrow> shell_session \<times> 'd \<Rightarrow> (rexc + unit) \<times> shell_session \<times> 'd" where
  "close_container dd sd =
     (case sd of (s, d) \<Rightarrow>
        (if \<not> ds_started s then (Inr (), s, d)
         else case (case dd_get dd (ds_name s) d of
                      (Inl e, d') \<Rightarrow> (Inl e, d')
                    | (Inr _, d') \<Rightarrow> dd_remove dd (ds_name s) d') of
                (Inr _, d') \<Rightarrow> (Inr (), s\<lparr>ds_started := False\<rparr>, d')
              | (Inl e, d') \<Rightarrow>
                  (if docker_not_found e then (Inr (), s\<lparr>ds_started := False\<rparr>, d') else (Inl e, s, d'))))"

definition close :: "'d daemon \<Rightarrow> shell_session \<times> 'd \<Rightarrow> (rexc + unit) \<times> shell_session \<times> 'd" where
  "close dd sd =
     (case close_container dd sd of (r, sd') \<Rightarrow>
        (case remove_managed_network dd sd' of
           (Inl e, sd'') \<Rightarrow> (Inl e, sd'')
         | (Inr _, sd'') \<Rightarrow> (r, sd'')))"

section \<open>Running a command\<close>

record exec_result =
  xr_exit_code :: "int option"
  xr_stdout :: string
  xr_stderr :: string

definition COMMAND_TIMEOUT_KILL_GRACE_SEC :: nat where
  "COMMAND_TIMEOUT_KILL_GRACE_SEC = 10"

definition COMMAND_TIMEOUT_BACKSTOP_SEC :: nat where
  "COMMAND_TIMEOUT_BACKSTOP_SEC = 60"

definition COMMAND_ARGV_STAGING_BYTE_THRESHOLD :: nat where
  "COMMAND_ARGV_STAGING_BYTE_THRESHOLD = 4096"

definition STAGED_COMMAND_ENV :: string where
  "STAGED_COMMAND_ENV = ''FRAMEWORK_EXEC_COMMAND''"

definition STAGED_COMMAND_WRAPPER :: string where
  "STAGED_COMMAND_WRAPPER = ''exec env -u '' @ STAGED_COMMAND_ENV @ '' bash -lc '' @ dquote @ ''$'' @ STAGED_COMMAND_ENV @ dquote"

definition staged :: "string \<Rightarrow> bool" where
  "staged command \<longleftrightarrow> nl \<in> set command \<or> COMMAND_ARGV_STAGING_BYTE_THRESHOLD < length command"

text \<open>\<open>int(x)\<close> truncates towards zero.\<close>

definition int_trunc :: "rat \<Rightarrow> int" where
  "int_trunc x = (if 0 \<le> x then \<lfloor>x\<rfloor> else \<lceil>x\<rceil>)"

definition command_spec :: "shell_session \<Rightarrow> string \<Rightarrow> string \<Rightarrow> rat option \<Rightarrow> exec_spec" where
  "command_spec s command cwd timeout =
     (let env = (if staged command then AList.update STAGED_COMMAND_ENV command (ds_run_environment s)
                 else ds_run_environment s);
          shell = (if staged command then STAGED_COMMAND_WRAPPER else command)
      in case timeout of
           None \<Rightarrow> \<lparr>ex_argv = [''bash'', ''-lc'', shell], ex_workdir = cwd, ex_environment = env, ex_deadline = None\<rparr>
         | Some t \<Rightarrow>
             \<lparr>ex_argv = [''timeout'', ''-k'', nat_str COMMAND_TIMEOUT_KILL_GRACE_SEC, int_str (int_trunc t),
                         ''bash'', ''-lc'', shell],
              ex_workdir = cwd, ex_environment = env,
              ex_deadline = Some (of_int (int_trunc t + int COMMAND_TIMEOUT_KILL_GRACE_SEC + int COMMAND_TIMEOUT_BACKSTOP_SEC))\<rparr>)"

definition decoded :: "bool \<Rightarrow> exec_reply \<Rightarrow> exec_result" where
  "decoded lossless reply =
     (if lossless
      then \<lparr>xr_exit_code = er_exit_code reply, xr_stdout = utf8_replace (stream_bytes (er_stdout reply)),
            xr_stderr = utf8_replace (stream_bytes (er_stderr reply))\<rparr>
      else \<lparr>xr_exit_code = er_exit_code reply, xr_stdout = decode_stdout (er_stdout reply),
            xr_stderr = bounded_decode (er_stderr reply)\<rparr>)"

definition session_run ::
    "'d daemon \<Rightarrow> string \<Rightarrow> string \<Rightarrow> rat option \<Rightarrow> bool \<Rightarrow> shell_session \<times> 'd \<Rightarrow> (rexc + exec_result) \<times> shell_session \<times> 'd" where
  "session_run dd command cwd timeout lossless sd =
     (case dd_get dd (ds_name (fst sd)) (snd sd) of
        (Inl e, d) \<Rightarrow> (Inl e, fst sd, d)
      | (Inr _, d) \<Rightarrow>
          (case exec_best_effort dd MTIME_RESET_COMMAND (fst sd, d) of (s, d1) \<Rightarrow>
             (case dd_exec dd (ds_name s) (command_spec s command cwd timeout) d1 of
                (Inr reply, d2) \<Rightarrow> (Inr (decoded lossless reply), s, d2)
              | (Inl e, d2) \<Rightarrow>
                  (if e \<noteq> BareTimeout then (Inl e, s, d2)
                   else case dd_remove dd (ds_name s) d2 of
                          (Inl e', d3) \<Rightarrow> (Inl e', s, d3)
                        | (Inr _, d3) \<Rightarrow> (Inl BareTimeout, s\<lparr>ds_started := False\<rparr>, d3)))))"

definition timeout_note :: "string \<Rightarrow> string" where
  "timeout_note shown =
     ''[command timed out after '' @ shown @ ''s and was terminated; the output above is partial -- narrow the command or pass a larger timeout_sec]''"

text \<open>\<open>show_sec\<close> prints a budget.\<close>

definition docker_run_step ::
    "'d daemon \<Rightarrow> (rat \<Rightarrow> string) \<Rightarrow> string \<Rightarrow> run_action \<Rightarrow> shell_session \<times> 'd \<Rightarrow> (rexc + raw_output) \<times> shell_session \<times> 'd" where
  "docker_run_step dd show_sec default_cwd a sd =
     (case session_run dd (ra_command a)
             (case ra_cwd a of None \<Rightarrow> default_cwd | Some cwd \<Rightarrow> if cwd = [] then default_cwd else cwd)
             (ra_timeout_sec a) False sd of
        (Inl e, sd') \<Rightarrow> (Inl e, sd')
      | (Inr x, sd') \<Rightarrow>
          (let stderr = (case ra_timeout_sec a of
                 None \<Rightarrow> xr_stderr x
               | Some t \<Rightarrow>
                   (if xr_exit_code x \<noteq> Some COMMAND_TIMEOUT_EXIT_CODE then xr_stderr x
                    else if xr_stderr x = [] then timeout_note (show_sec t)
                    else xr_stderr x @ nl # timeout_note (show_sec t)))
           in (Inr (empty_output\<lparr>ro_exit_code := xr_exit_code x, ro_stdout := xr_stdout x, ro_stderr := stderr\<rparr>), sd')))"

text \<open>\<open>shlex.quote\<close> and \<open>read_file\<close>.\<close>

definition shell_safe :: "char \<Rightarrow> bool" where
  "shell_safe c \<longleftrightarrow>
     c \<in> set ''abcdefghijklmnopqrstuvwxyzABCDEFGHIJKLMNOPQRSTUVWXYZ0123456789_@%+=:,./-''"

definition shlex_quote :: "string \<Rightarrow> string" where
  "shlex_quote t =
     (if t = [] then squote @ squote
      else if list_all shell_safe t then t
      else squote @ concat (map (\<lambda>c. if [c] = squote then squote @ dquote @ squote @ dquote @ squote else [c]) t) @ squote)"

lemma scan_escaped:
  "shlex_scan (Quoted (CHR 0x27)) tok q
     (concat (map (\<lambda>c. if [c] = squote then squote @ dquote @ squote @ dquote @ squote else [c]) t) @ squote @ r) =
   shlex_scan Word (rev t @ tok) True r"
  by (induction t arbitrary: tok q) (auto simp: squote_def dquote_def lex_space_def lex_quotes_def lex_punct_def)

lemma unsafe_chars: "list_all (\<lambda>c. \<not> shell_safe c) (CHR ''#'' # CHR 0x5C # lex_space @ lex_punct @ lex_quotes)"
  by (simp add: shell_safe_def lex_space_def lex_quotes_def lex_punct_def)

lemma shell_safe_plain: "list_all shell_safe t \<Longrightarrow> list_all plain_char t"
  using unsafe_chars unfolding list_all_iff plain_char_def by auto

text \<open>A quoted path is one word of the command line again, whatever it holds.\<close>

lemma quoted_is_one_word: "shlex_tokens (shlex_quote t) = Some [t]"
proof -
  have start: "shlex_tokens (squote @ u) = shlex_scan (Quoted (CHR 0x27)) [] False u" for u
    by (simp add: shlex_tokens_def squote_def start_token_def lex_space_def lex_quotes_def lex_punct_def)
  show ?thesis
  proof (cases "t \<noteq> [] \<and> list_all shell_safe t")
    case True
    with scan_start [OF shell_safe_plain, of t "[]"] show ?thesis
      by (simp add: shlex_quote_def shlex_tokens_def emit_token_def)
  next
    case False
    have "shlex_scan (Quoted (CHR 0x27)) [] False squote = Some [[]]"
      by (simp add: squote_def emit_token_def)
    with False start scan_escaped [of "[]" False t "[]"] show ?thesis
      by (auto simp: shlex_quote_def emit_token_def)
  qed
qed

definition read_file :: "'d daemon \<Rightarrow> string \<Rightarrow> shell_session \<times> 'd \<Rightarrow> (rexc + string option) \<times> shell_session \<times> 'd" where
  "read_file dd path sd =
     (case session_run dd (''cat '' @ shlex_quote path) ''/'' (Some 30) False sd of
        (Inl e, sd') \<Rightarrow> (Inl e, sd')
      | (Inr x, sd') \<Rightarrow> (Inr (if xr_exit_code x \<noteq> Some 0 then None else Some (xr_stdout x)), sd'))"

section \<open>The environment of a docker task\<close>

text \<open>\<open>DockerTaskEnv\<close>: every action provisions first.\<close>

definition docker_execute ::
    "'d daemon \<Rightarrow> (rat \<Rightarrow> string) \<Rightarrow> string \<Rightarrow> shell_session \<times> 'd \<Rightarrow> run_action \<Rightarrow> (rexc + raw_output) \<times> shell_session \<times> 'd" where
  "docker_execute dd show_sec workdir sd a =
     (case start dd sd of
        (Inl e, sd') \<Rightarrow> (Inl e, sd')
      | (Inr _, sd') \<Rightarrow> docker_run_step dd show_sec workdir a sd')"

section \<open>Uploads\<close>

text \<open>A directory as the files and directories under it, by their components relative to it.\<close>

record tar_info =
  ti_kind :: string
  ti_mode :: nat
  ti_uid :: nat
  ti_gid :: nat
  ti_uname :: string
  ti_gname :: string
  ti_mtime :: nat

definition normalize_tarinfo :: "tar_info \<Rightarrow> tar_info" where
  "normalize_tarinfo info = info\<lparr>ti_uid := 0, ti_gid := 0, ti_uname := [], ti_gname := [], ti_mtime := 0\<rparr>"

type_synonym source_tree = "(string list, tar_info \<times> string) dict"

definition tar_directory_contents :: "source_tree \<Rightarrow> (string \<times> tar_info \<times> string) list" where
  "tar_directory_contents tree =
     map (\<lambda>(parts, info, content). (join_str ''/'' parts, normalize_tarinfo info, content)) (sort_key fst tree)"

record 'd full_daemon = "'d daemon" +
  dd_put_archive :: "string \<Rightarrow> string \<Rightarrow> (string \<times> tar_info \<times> string) list \<Rightarrow> 'd \<Rightarrow> (rexc + unit) \<times> 'd"
  dd_connect :: "'d \<Rightarrow> (rexc + unit) \<times> 'd"
  dd_list :: "string \<times> string \<Rightarrow> 'd \<Rightarrow> (rexc + string list) \<times> 'd"
  dd_net_list :: "string \<times> string \<Rightarrow> 'd \<Rightarrow> (rexc + string list) \<times> 'd"

definition upload_dir ::
    "'d full_daemon \<Rightarrow> source_tree \<Rightarrow> string \<Rightarrow> shell_session \<times> 'd \<Rightarrow> (rexc + unit) \<times> shell_session \<times> 'd" where
  "upload_dir fd tree target sd =
     (case sd of (s, d) \<Rightarrow>
        (case dd_get fd (ds_name s) d of
           (Inl e, d') \<Rightarrow> (Inl e, s, d')
         | (Inr _, d') \<Rightarrow>
             (case dd_put_archive fd (ds_name s) target (tar_directory_contents tree) d' of (r, d'') \<Rightarrow> (r, s, d''))))"

text \<open>What is uploaded depends on names, kinds, modes and contents only, not on who checked the tree
  out, when, or in which order the directory lists them.\<close>

definition same_sources :: "source_tree \<Rightarrow> source_tree \<Rightarrow> bool" where
  "same_sources t u \<longleftrightarrow>
     map (\<lambda>(p, i, c). (p, ti_kind i, ti_mode i, c)) (sort_key fst t) =
     map (\<lambda>(p, i, c). (p, ti_kind i, ti_mode i, c)) (sort_key fst u)"

lemma upload_reproducible:
  assumes "same_sources t u"
  shows "tar_directory_contents t = tar_directory_contents u"
proof -
  have "(case x of (p, i, c) \<Rightarrow> (p, normalize_tarinfo i, c)) =
      (case (case x of (p, i, c) \<Rightarrow> (p, ti_kind i, ti_mode i, c)) of (p, k, m, c) \<Rightarrow>
        (p, \<lparr>ti_kind = k, ti_mode = m, ti_uid = 0, ti_gid = 0, ti_uname = [], ti_gname = [], ti_mtime = 0\<rparr>, c))"
    for x :: "string list \<times> tar_info \<times> string"
    by (cases x) (simp add: normalize_tarinfo_def)
  then have eq: "tar_directory_contents v =
      map (\<lambda>(p, k, m, c). (join_str ''/'' p, \<lparr>ti_kind = k, ti_mode = m, ti_uid = 0, ti_gid = 0, ti_uname = [],
        ti_gname = [], ti_mtime = 0\<rparr>, c)) (map (\<lambda>(p, i, c). (p, ti_kind i, ti_mode i, c)) (sort_key fst v))" for v
    by (auto simp: tar_directory_contents_def normalize_tarinfo_def)
  show ?thesis by (simp only: eq assms [unfolded same_sources_def])
qed

section \<open>The exit sweep\<close>

text \<open>\<open>sweep_owner_resources\<close>: removal errors of docker are skipped one by one; the result is the number
  of containers removed. \<open>shared\<close>: this process has a client.\<close>

fun sweep_containers :: "'d full_daemon \<Rightarrow> string list \<Rightarrow> nat \<Rightarrow> 'd \<Rightarrow> (rexc + nat) \<times> 'd" where
  "sweep_containers fd [] removed d = (Inr removed, d)"
| "sweep_containers fd (c # cs) removed d =
     (case dd_remove fd c d of
        (Inr _, d') \<Rightarrow> sweep_containers fd cs (Suc removed) d'
      | (Inl e, d') \<Rightarrow> (if docker_error e then sweep_containers fd cs removed d' else (Inl e, d')))"

fun sweep_networks :: "'d full_daemon \<Rightarrow> string list \<Rightarrow> 'd \<Rightarrow> (rexc + unit) \<times> 'd" where
  "sweep_networks fd [] d = (Inr (), d)"
| "sweep_networks fd (n # ns) d =
     (case dd_net_remove fd n d of
        (Inr _, d') \<Rightarrow> sweep_networks fd ns d'
      | (Inl e, d') \<Rightarrow> (if docker_error e then sweep_networks fd ns d' else (Inl e, d')))"

definition sweep_owned :: "'d full_daemon \<Rightarrow> nat \<Rightarrow> 'd \<Rightarrow> (rexc + nat) \<times> 'd" where
  "sweep_owned fd owner_pid d =
     (let label = (SESSION_OWNER_PID_LABEL, nat_str owner_pid)
      in case dd_list fd label d of
           (Inl e, d1) \<Rightarrow> ((if docker_error e then Inr 0 else Inl e), d1)
         | (Inr cs, d1) \<Rightarrow>
             (case sweep_containers fd cs 0 d1 of
                (Inl e, d2) \<Rightarrow> (Inl e, d2)
              | (Inr removed, d2) \<Rightarrow>
                  (case dd_net_list fd label d2 of
                     (Inl e, d3) \<Rightarrow> ((if docker_error e then Inr removed else Inl e), d3)
                   | (Inr ns, d3) \<Rightarrow>
                       (case sweep_networks fd ns d3 of
                          (Inl e, d4) \<Rightarrow> (Inl e, d4)
                        | (Inr _, d4) \<Rightarrow> (Inr removed, d4)))))"

definition sweep_owner_resources :: "'d full_daemon \<Rightarrow> bool \<Rightarrow> nat \<Rightarrow> nat \<Rightarrow> 'd \<Rightarrow> (rexc + nat) \<times> 'd" where
  "sweep_owner_resources fd shared own_pid owner_pid d =
     (if shared then sweep_owned fd owner_pid d
      else if owner_pid = own_pid then (Inr 0, d)
      else case dd_connect fd d of
             (Inl e, d') \<Rightarrow> ((if docker_error e then Inr 0 else Inl e), d')
           | (Inr _, d') \<Rightarrow> sweep_owned fd owner_pid d')"

text \<open>Where only docker's own errors occur the sweep never raises, tries every listed container, and
  reports those it removed.\<close>

lemma sweep_containers_total:
  assumes "\<And>c d e d'. dd_remove fd c d = (Inl e, d') \<Longrightarrow> docker_error e"
  shows "\<exists>k d'. sweep_containers fd cs n d = (Inr k, d') \<and> n \<le> k \<and> k \<le> n + length cs"
proof (induction cs arbitrary: n d)
  case (Cons c cs)
  obtain r d1 where rm: "dd_remove fd c d = (r, d1)" by (rule prod.exhaust)
  show ?case
  proof (cases r)
    case (Inl e)
    with rm assms Cons.IH [of n d1] show ?thesis by fastforce
  next
    case (Inr u)
    with rm Cons.IH [of "Suc n" d1] show ?thesis by fastforce
  qed
qed simp

end
