(* ===== verification/Grading.thy ===== *)
theory Grading
  imports Replay Metrics
begin

text \<open>
  The graders: \<open>src/env/swebench_verify.py\<close> (the official SWE-bench evaluation, its result, its cached
  form), \<open>src/plugins/replay/verify_cache.py\<close> (the memoized grader) and the verification of
  \<open>src/env/swe.py\<close> and \<open>src/env/terminal_bench.py\<close>. The evaluation itself is a parameter that leaves
  files behind; \<open>AttributeError\<close>s of a malformed report are \<open>OtherError\<close>s.
\<close>

section \<open>The SWE-bench grade\<close>

record swe_result =
  sv_completed :: bool
  sv_stdout :: string
  sv_passed :: "bool option"
  sv_report :: "(string \<times> json) list option"
  sv_error :: "string option"
  sv_f2p_passed :: "nat option"
  sv_p2p_failed :: "nat option"

definition swe_reward :: "swe_result \<Rightarrow> rat" where
  "swe_reward r = (if sv_completed r \<and> sv_passed r = Some True then 1 else 0)"

definition corrupt :: "string \<Rightarrow> rexc + 'a" where
  "corrupt m = Inl (FrameworkEnvError m)"

text \<open>\<open>value.get(key, default)\<close> and \<open>len(value)\<close> on parsed JSON.\<close>

fun json_get :: "json \<Rightarrow> string \<Rightarrow> json \<Rightarrow> exc + json" where
  "json_get (JObj ms) k d = Inr (member_or ms k d)"
| "json_get _ k d = Inl (OtherError ''AttributeError'' k)"

fun json_len :: "json \<Rightarrow> exc + nat" where
  "json_len (JArr xs) = Inr (length xs)"
| "json_len (JObj ms) = Inr (length ms)"
| "json_len (JStr t) = Inr (length t)"
| "json_len _ = Inl (TypeError ''object has no len()'')"

definition status_count :: "json \<Rightarrow> string \<Rightarrow> string \<Rightarrow> exc + nat" where
  "status_count status suite outcome =
     bind_res (json_get status suite (JObj [])) (\<lambda>s.
     bind_res (json_get s outcome (JArr [])) json_len)"

definition from_report :: "(string \<times> json) list \<Rightarrow> string \<Rightarrow> string \<Rightarrow> rexc + swe_result" where
  "from_report report stdout instance_id =
     (case map_of report instance_id of
        Some (JObj ms) \<Rightarrow>
          (case map_of ms ''resolved'' of
             Some (JBool resolved) \<Rightarrow>
               (case bind_res (status_count (member_or ms ''tests_status'' (JObj [])) ''FAIL_TO_PASS'' ''success'') (\<lambda>f.
                     bind_res (status_count (member_or ms ''tests_status'' (JObj [])) ''PASS_TO_PASS'' ''failure'') (\<lambda>p.
                       Inr (f, p))) of
                  Inl e \<Rightarrow> Inl (PlainExc e)
                | Inr (f, p) \<Rightarrow>
                    Inr \<lparr>sv_completed = True, sv_stdout = stdout, sv_passed = Some resolved, sv_report = Some report,
                         sv_error = None, sv_f2p_passed = Some f, sv_p2p_failed = Some p\<rparr>)
           | _ \<Rightarrow> corrupt (''official SWE-bench resolved field is not boolean for '' @ instance_id))
      | _ \<Rightarrow> corrupt (''official SWE-bench resolved field missing for '' @ instance_id))"

section \<open>Running the official evaluation\<close>

text \<open>The artifact directory: the files directly under the root, and those of the instance directory
  the evaluation writes; none where the directory does not exist.\<close>

record swe_artifacts =
  sa_root :: "(string, string) dict option"
  sa_instance :: "(string, string) dict option"

definition no_artifacts :: swe_artifacts where
  "no_artifacts = \<lparr>sa_root = None, sa_instance = None\<rparr>"

text \<open>\<open>official\<close> evaluates a patch for an instance over the artifact directory and any state \<open>'d\<close> of
  the container daemon.\<close>

type_synonym 'd official = "string \<Rightarrow> string \<Rightarrow> swe_artifacts \<times> 'd \<Rightarrow> (rexc + json) \<times> swe_artifacts \<times> 'd"

definition run_official_eval ::
    "'d official \<Rightarrow> string \<Rightarrow> string \<Rightarrow> swe_artifacts \<times> 'd \<Rightarrow> (rexc + (json \<times> bool)) \<times> swe_artifacts \<times> 'd" where
  "run_official_eval official instance_id patch ad =
     (case official instance_id patch (no_artifacts, snd ad) of
        (Inl e, ad') \<Rightarrow> (Inl e, ad')
      | (Inr v, ad') \<Rightarrow>
          ((case v of
              JObj ms \<Rightarrow>
                (case map_of ms ''completed'' of
                   Some (JBool b) \<Rightarrow> Inr (v, b)
                 | _ \<Rightarrow> corrupt (''official SWE-bench completed flag missing for '' @ instance_id))
            | _ \<Rightarrow> corrupt (''official SWE-bench result is not a mapping for '' @ instance_id)), ad'))"

definition move_instance :: "swe_artifacts \<Rightarrow> swe_artifacts" where
  "move_instance a =
     (case sa_instance a of
        None \<Rightarrow> a
      | Some new \<Rightarrow>
          \<lparr>sa_root = Some (AList.updates (map fst new) (map snd new) (case sa_root a of None \<Rightarrow> [] | Some fs \<Rightarrow> fs)),
           sa_instance = None\<rparr>)"

definition artifact :: "string \<Rightarrow> swe_artifacts \<Rightarrow> string option" where
  "artifact name a = (case sa_root a of None \<Rightarrow> None | Some fs \<Rightarrow> map_of fs name)"

text \<open>What is read of a complete run once its files are in place; \<open>loads\<close> is \<open>json.loads\<close>.\<close>

definition read_grade :: "(string \<Rightarrow> string + json) \<Rightarrow> string \<Rightarrow> swe_artifacts \<Rightarrow> rexc + swe_result" where
  "read_grade loads instance_id a =
     (case artifact ''report.json'' a of
        None \<Rightarrow> corrupt (''official SWE-bench report missing for '' @ instance_id)
      | Some report \<Rightarrow>
          (case artifact ''test_output.txt'' a of
             None \<Rightarrow> corrupt (''official SWE-bench test output missing for '' @ instance_id)
           | Some out \<Rightarrow>
               (case loads report of
                  Inl m \<Rightarrow> Inl (PlainExc (OtherError ''JSONDecodeError'' m))
                | Inr (JObj ms) \<Rightarrow> from_report ms out instance_id
                | Inr _ \<Rightarrow> Inl (PlainExc (OtherError ''AttributeError'' ''get'')))))"

definition incomplete_grade :: "string \<Rightarrow> string \<Rightarrow> swe_result" where
  "incomplete_grade instance_id rendered =
     \<lparr>sv_completed = False, sv_stdout = [], sv_passed = None, sv_report = None,
      sv_error = Some (''official SWE-bench evaluation did not complete for '' @ instance_id @ '': '' @ rendered),
      sv_f2p_passed = None, sv_p2p_failed = None\<rparr>"

text \<open>\<open>render\<close> prints the official result in the error text.\<close>

definition swe_grade ::
    "(string \<Rightarrow> string + json) \<Rightarrow> (json \<Rightarrow> string) \<Rightarrow> 'd official \<Rightarrow> string \<Rightarrow> string \<Rightarrow> swe_artifacts \<times> 'd \<Rightarrow>
       (rexc + swe_result) \<times> swe_artifacts \<times> 'd" where
  "swe_grade loads render official instance_id patch ad =
     (case run_official_eval official instance_id patch ad of
        (Inl e, ad') \<Rightarrow> (Inl e, ad')
      | (Inr (v, completed), a, d) \<Rightarrow>
          (if completed \<and> sa_instance a = None
           then (corrupt (''official SWE-bench artifact dir missing for '' @ instance_id), a, d)
           else
             (let a' = move_instance a
              in ((if completed then read_grade loads instance_id a'
                   else Inr (incomplete_grade instance_id (render v))), a', d))))"

section \<open>The cached grade\<close>

definition VERIFY_CACHE_SCHEMA :: string where
  "VERIFY_CACHE_SCHEMA = ''swe-verify-v2''"

definition verify_cache_key :: "(string \<Rightarrow> string) \<Rightarrow> string \<Rightarrow> string \<Rightarrow> string \<Rightarrow> string" where
  "verify_cache_key sha version instance_id diff =
     ''v:'' @ sha (VERIFY_CACHE_SCHEMA @ CHR 0x00 # version @ CHR 0x00 # instance_id @ CHR 0x00 # diff)"

definition verify_payload :: "(rat \<Rightarrow> string) \<Rightarrow> swe_result \<Rightarrow> string" where
  "verify_payload fr r =
     dumps fr (JObj [(''completed'', JBool True), (''stdout'', JStr (sv_stdout r)),
                     (''report'', opt_json JObj (sv_report r))])"

text \<open>The grade of a payload. Key, type and value errors, a corrupt report and malformed text make it
  unusable (none); an \<open>AttributeError\<close> of the report is not among them and escapes.\<close>

definition restore_grade :: "(string \<Rightarrow> string + json) \<Rightarrow> string \<Rightarrow> string \<Rightarrow> exc + swe_result option" where
  "restore_grade loads instance_id raw =
     (case loads raw of
        Inr (JObj ms) \<Rightarrow>
          (case (map_of ms ''completed'', map_of ms ''stdout'', map_of ms ''report'') of
             (Some (JBool True), Some (JStr out), Some (JObj report)) \<Rightarrow>
               (case from_report report out instance_id of
                  Inr r \<Rightarrow> Inr (Some r)
                | Inl (PlainExc (OtherError n m)) \<Rightarrow> Inl (OtherError n m)
                | Inl _ \<Rightarrow> Inr None)
           | _ \<Rightarrow> Inr None)
      | _ \<Rightarrow> Inr None)"

definition restored_artifacts :: "(json \<Rightarrow> string) \<Rightarrow> string \<Rightarrow> swe_result \<Rightarrow> swe_artifacts" where
  "restored_artifacts pretty diff r =
     \<lparr>sa_root = Some [(''patch.diff'', diff), (''test_output.txt'', sv_stdout r),
        (''report.json'', pretty (opt_json JObj (sv_report r)))], sa_instance = None\<rparr>"

definition restore_cached ::
    "(string \<Rightarrow> string + json) \<Rightarrow> (json \<Rightarrow> string) \<Rightarrow> string \<Rightarrow> string \<Rightarrow> string \<Rightarrow> swe_artifacts \<Rightarrow>
       (exc + swe_result option) \<times> swe_artifacts" where
  "restore_cached loads pretty instance_id diff raw a =
     (case restore_grade loads instance_id raw of
        Inr (Some r) \<Rightarrow> (Inr (Some r), restored_artifacts pretty diff r)
      | x \<Rightarrow> (x, a))"

text \<open>\<open>cache_wrapper\<close>: the memoized grader. Only completed grades are stored.\<close>

type_synonym 'd grader = "string \<Rightarrow> string \<Rightarrow> swe_artifacts \<times> 'd \<Rightarrow> (rexc + swe_result) \<times> swe_artifacts \<times> 'd"

definition cache_wrapper ::
    "(string \<Rightarrow> string) \<Rightarrow> (rat \<Rightarrow> string) \<Rightarrow> (string \<Rightarrow> string + json) \<Rightarrow> (json \<Rightarrow> string) \<Rightarrow> string \<Rightarrow> 'd grader \<Rightarrow>
       string \<Rightarrow> string \<Rightarrow> cache_world \<times> swe_artifacts \<times> 'd \<Rightarrow>
       (rexc + swe_result) \<times> cache_world \<times> swe_artifacts \<times> 'd" where
  "cache_wrapper sha fr loads pretty version grader instance_id patch w =
     (case w of (c, a, d) \<Rightarrow>
        (let key = verify_cache_key sha version instance_id patch
         in case cache_get key c of (hit, c1) \<Rightarrow>
              (case (case hit of None \<Rightarrow> (Inr None, a) | Some raw \<Rightarrow> restore_cached loads pretty instance_id patch raw a) of
                 (Inl e, a1) \<Rightarrow> (Inl (PlainExc e), c1, a1, d)
               | (Inr (Some r), a1) \<Rightarrow> (Inr r, c1, a1, d)
               | (Inr None, a1) \<Rightarrow>
                   (case grader instance_id patch (a1, d) of
                      (Inl e, ad) \<Rightarrow> (Inl e, c1, ad)
                    | (Inr r, ad) \<Rightarrow>
                        (Inr r, (if sv_completed r then cache_put key (verify_payload fr r) c1 else c1), ad)))))"

section \<open>The verification step of a SWE-bench task\<close>


definition swe_metrics :: "swe_result \<Rightarrow> metrics" where
  "swe_metrics r =
     (case sv_f2p_passed r of None \<Rightarrow> [] | Some n \<Rightarrow> [(F2P_PASSED_KEY, of_nat n)]) @
     (case sv_p2p_failed r of None \<Rightarrow> [] | Some n \<Rightarrow> [(P2P_FAILED_KEY, of_nat n)])"

definition swe_outcome :: "string \<Rightarrow> string \<Rightarrow> swe_result \<Rightarrow> rexc + verify_outcome" where
  "swe_outcome instance_id patch r =
     (case mk_verdict (sv_completed r) (sv_passed r) (sv_error r) of
        Inl e \<Rightarrow> Inl (PlainExc e)
      | Inr v \<Rightarrow>
          Inr \<lparr>vo_verdict = v, vo_output = empty_output\<lparr>ro_stdout := sv_stdout r\<rparr>, vo_reward = swe_reward r,
               vo_info = [(''model_patch'', JStr patch), (''instance_id'', JStr instance_id)],
               vo_metrics = swe_metrics r\<rparr>)"

text \<open>What the session does in a verification: provision, run the patch command, close. The exit code
  and output of the patch command are what is graded; a failing command grades the empty patch.\<close>

record 'w patch_session =
  ps_provision :: "'w \<Rightarrow> (rexc + unit) \<times> 'w"
  ps_capture :: "'w \<Rightarrow> (rexc + (int option \<times> string)) \<times> 'w"
  ps_close :: "'w \<Rightarrow> (rexc + unit) \<times> 'w"

definition swe_verify ::
    "'w patch_session \<Rightarrow> (string \<Rightarrow> string \<Rightarrow> 'w \<Rightarrow> (rexc + swe_result) \<times> 'w) \<Rightarrow> string \<Rightarrow> 'w \<Rightarrow>
       (rexc + verify_outcome) \<times> 'w" where
  "swe_verify ps grader instance_id w =
     (case ps_provision ps w of
        (Inl e, w1) \<Rightarrow> (Inl e, w1)
      | (Inr _, w1) \<Rightarrow>
          (case ps_capture ps w1 of
             (Inl e, w2) \<Rightarrow> (Inl e, w2)
           | (Inr (code, out), w2) \<Rightarrow>
               (let patch = (if code \<noteq> Some 0 then [] else out)
                in case ps_close ps w2 of
                     (Inl e, w3) \<Rightarrow> (Inl e, w3)
                   | (Inr _, w3) \<Rightarrow>
                       (case grader instance_id patch w3 of
                          (Inl e, w4) \<Rightarrow> (Inl e, w4)
                        | (Inr r, w4) \<Rightarrow> (swe_outcome instance_id patch r, w4)))))"

section \<open>Facts\<close>

lemma from_report_result:
  assumes "from_report report out i = Inr r"
  shows "sv_report r = Some report \<and> sv_stdout r = out \<and> sv_completed r \<and> sv_passed r \<noteq> None \<and> sv_error r = None"
  using assms by (auto simp: from_report_def corrupt_def split: option.splits json.splits sum.splits)

text \<open>A grade of an instance: complete and read off its report, or incomplete with an error.\<close>

definition grade_of :: "string \<Rightarrow> swe_result \<Rightarrow> bool" where
  "grade_of i r \<longleftrightarrow>
     (if sv_completed r then (\<exists>report. sv_report r = Some report \<and> from_report report (sv_stdout r) i = Inr r)
      else sv_passed r = None \<and> sv_error r \<noteq> None)"

lemma grade_verdict: "grade_of i r \<Longrightarrow> \<exists>v. mk_verdict (sv_completed r) (sv_passed r) (sv_error r) = Inr v"
  by (auto simp: grade_of_def mk_verdict_def dest: from_report_result split: if_splits)

lemma swe_grade_grades:
  assumes "swe_grade loads render official i patch ad = (Inr r, ad')"
  shows "grade_of i r"
proof -
  obtain v completed a d where "run_official_eval official i patch ad = (Inr (v, completed), a, d)"
      and r: "(if completed then read_grade loads i (move_instance a) else Inr (incomplete_grade i (render v))) = Inr r"
    using assms by (auto simp: swe_grade_def corrupt_def Let_def split: prod.splits sum.splits if_splits)
  show ?thesis
  proof (cases completed)
    case True
    with r obtain ms out where "from_report ms out i = Inr r"
      by (auto simp: read_grade_def corrupt_def split: option.splits sum.splits json.splits)
    then show ?thesis using from_report_result by (fastforce simp: grade_of_def)
  next
    case False
    with r show ?thesis by (auto simp: grade_of_def incomplete_grade_def)
  qed
qed

text \<open>So the constructor of the verdict never raises on a grade, and a passing verdict, the reward and
  the official resolution are one thing.\<close>

lemma swe_outcome_total:
  assumes "grade_of i r"
  shows "\<exists>out. swe_outcome i patch r = Inr out \<and> vo_reward out \<in> {0, 1} \<and>
    (vo_reward out = 1 \<longleftrightarrow> vv_passed (vo_verdict out) = Some True) \<and>
    vv_completed (vo_verdict out) = sv_completed r"
proof -
  obtain v where v: "mk_verdict (sv_completed r) (sv_passed r) (sv_error r) = Inr v"
    using grade_verdict [OF assms] by blast
  then have "vv_completed v = sv_completed r" "vv_passed v = sv_passed r"
    by (auto simp: mk_verdict_def split: if_splits)
  moreover have "sv_passed r = Some True \<Longrightarrow> sv_completed r"
    using v by (auto simp: mk_verdict_def split: if_splits)
  ultimately show ?thesis using v by (auto simp: swe_outcome_def swe_reward_def)
qed

lemma restore_payload:
  assumes "loads_inverts k" and "grade_of i r" and "sv_completed r"
  shows "restore_grade (rk_loads k) i (verify_payload (rk_fr k) r) = Inr (Some r)"
proof -
  obtain report where r: "sv_report r = Some report" "from_report report (sv_stdout r) i = Inr r"
    using assms(2,3) by (auto simp: grade_of_def)
  have "rk_loads k (verify_payload (rk_fr k) r) =
      Inr (JObj [(''completed'', JBool True), (''stdout'', JStr (sv_stdout r)), (''report'', opt_json JObj (sv_report r))])"
    using assms(1) unfolding loads_inverts_def verify_payload_def by blast
  with r show ?thesis by (simp add: restore_grade_def opt_json_def)
qed

text \<open>The rows of a sound store for the gradings \<open>A\<close>: the completed grade itself.\<close>

definition grade_rows ::
    "replay_kit \<Rightarrow> string \<Rightarrow> (string \<Rightarrow> string \<Rightarrow> swe_result) \<Rightarrow> (string \<times> string) set \<Rightarrow> string \<Rightarrow> string \<Rightarrow> bool" where
  "grade_rows k version truth A key v \<longleftrightarrow>
     (\<forall>(i, patch) \<in> A. key = verify_cache_key (rk_sha k) version i patch \<longrightarrow>
        grade_of i (truth i patch) \<and> sv_completed (truth i patch) \<and> v = verify_payload (rk_fr k) (truth i patch))"

lemma cache_wrapper_valid:
  assumes run: "cache_wrapper (rk_sha k) (rk_fr k) (rk_loads k) pretty version grader i patch (c, a, d) = (res, c', a', d')"
    and valid: "world_valid (grade_rows k version truth A) c" and A: "(i, patch) \<in> A"
    and key: "inj_on (\<lambda>(i, patch). verify_cache_key (rk_sha k) version i patch) A"
    and kit: "loads_inverts k"
    and grader: "\<And>ad r ad'. grader i patch ad = (Inr r, ad') \<Longrightarrow> grade_of i r \<and> (sv_completed r \<longrightarrow> r = truth i patch)"
  shows "world_valid (grade_rows k version truth A) c' \<and>
    (res = Inr (truth i patch) \<and> sv_completed (truth i patch) \<and> a' = restored_artifacts pretty patch (truth i patch) \<and> d' = d \<or>
     grader i patch (a, d) = (res, a', d'))"
proof -
  let ?key = "verify_cache_key (rk_sha k) version i patch" and ?ok = "grade_rows k version truth A"
  obtain hit c1 where g: "cache_get ?key c = (hit, c1)" by fastforce
  have v1: "world_valid ?ok c1" by (rule kv.valid_get [OF valid g])
  show ?thesis
  proof (cases hit)
    case (Some raw)
    then have "?ok ?key raw" using kv.get_valid [OF valid] g by blast
    then have raw: "grade_of i (truth i patch)" "sv_completed (truth i patch)" "raw = verify_payload (rk_fr k) (truth i patch)"
      using A by (auto simp: grade_rows_def)
    have "restore_cached (rk_loads k) pretty i patch raw a =
        (Inr (Some (truth i patch)), restored_artifacts pretty patch (truth i patch))"
      using restore_payload [OF kit raw(1,2)] by (simp add: restore_cached_def raw(3))
    with run g Some v1 raw(2) show ?thesis by (auto simp: cache_wrapper_def Let_def)
  next
    case None
    obtain gr ad where gr: "grader i patch (a, d) = (gr, ad)" by (rule prod.exhaust)
    show ?thesis
    proof (cases gr)
      case (Inl e)
      with run g None gr v1 show ?thesis by (auto simp: cache_wrapper_def Let_def)
    next
      case (Inr r)
      have ok: "?ok ?key (verify_payload (rk_fr k) r)" if "sv_completed r"
        using grader [OF gr [unfolded Inr]] that A key by (auto simp: grade_rows_def inj_on_def)
      have "res = Inr r" "(a', d') = ad" "c' = (if sv_completed r then cache_put ?key (verify_payload (rk_fr k) r) c1 else c1)"
        using run g None gr Inr by (auto simp: cache_wrapper_def Let_def)
      with gr Inr v1 ok show ?thesis by (auto intro: kv.valid_put)
    qed
  qed
qed

text \<open>
  C33. The verify cache is transparent: over a store whose rows are completed grades, whatever accesses
  fail and whatever other processes insert, a cached grading gives the grader's own completed grade
  with its artifacts on disk, or is exactly a run of the grader; it stores nothing but completed
  grades. That a stored grade is read back exactly is part of the claim.
\<close>

theorem verify_cache_transparent:
  assumes "cache_wrapper (rk_sha k) (rk_fr k) (rk_loads k) pretty version grader i patch (c, a, d) = (res, c', a', d')"
    and "world_valid (grade_rows k version truth A) c" and "(i, patch) \<in> A"
    and "inj_on (\<lambda>(i, patch). verify_cache_key (rk_sha k) version i patch) A"
    and "loads_inverts k"
    and "\<And>ad r ad'. grader i patch ad = (Inr r, ad') \<Longrightarrow> grade_of i r \<and> (sv_completed r \<longrightarrow> r = truth i patch)"
  shows "world_valid (grade_rows k version truth A) c' \<and>
    (res = Inr (truth i patch) \<and> sv_completed (truth i patch) \<and> a' = restored_artifacts pretty patch (truth i patch) \<and> d' = d \<or>
     grader i patch (a, d) = (res, a', d'))"
  using assms by (rule cache_wrapper_valid)

text \<open>A graded patch, first by the official evaluation and then from the store.\<close>

definition sample_report :: "(string \<times> json) list" where
  "sample_report = [(''i'', JObj [(''resolved'', JBool True), (''tests_status'',
     JObj [(''FAIL_TO_PASS'', JObj [(''success'', JArr [JStr ''t''])])])])]"

definition sample_official :: "nat official" where
  "sample_official i patch ad = (Inr (JObj [(''completed'', JBool True)]),
     \<lparr>sa_root = None, sa_instance = Some [(''report.json'', dumps sample_repr (JObj sample_report)), (''test_output.txt'', ''ok'')]\<rparr>,
     snd ad + 1)"

definition sample_swe_grade :: swe_result where
  "sample_swe_grade = \<lparr>sv_completed = True, sv_stdout = ''ok'', sv_passed = Some True, sv_report = Some sample_report,
     sv_error = None, sv_f2p_passed = Some 1, sv_p2p_failed = Some 0\<rparr>"

abbreviation sample_grader :: "nat grader" where
  "sample_grader \<equiv> swe_grade (rk_loads sample_replay_kit) (\<lambda>_. []) sample_official"

abbreviation sample_cached :: "cache_world \<times> swe_artifacts \<times> nat \<Rightarrow> (rexc + swe_result) \<times> cache_world \<times> swe_artifacts \<times> nat" where
  "sample_cached \<equiv> cache_wrapper (rk_sha sample_replay_kit) (rk_fr sample_replay_kit) (rk_loads sample_replay_kit)
     (dumps sample_repr) ''4'' sample_grader ''i'' ''diff''"

lemma sample_loads: "rk_loads sample_replay_kit (dumps sample_repr v) = Inr v"
  by (simp add: sample_replay_kit_def read_json_dumps [OF sample_float_ok])

lemma sample_grading: "\<exists>a'. sample_grader ''i'' patch (a, n) = (Inr sample_swe_grade, a', n + 1)"
proof -
  have "rk_loads sample_replay_kit (dumps sample_repr (JObj sample_report)) = Inr (JObj sample_report)"
    by (rule sample_loads)
  moreover have "from_report sample_report ''ok'' ''i'' = Inr sample_swe_grade"
    by (simp add: from_report_def sample_report_def status_count_def member_or_def sample_swe_grade_def)
  ultimately show ?thesis
    by (simp add: swe_grade_def run_official_eval_def sample_official_def Let_def move_instance_def read_grade_def artifact_def)
qed

theorem verify_cache_transparent_witness:
  "\<exists>c1 a1 c2 a2. sample_cached (\<lparr>cw_disabled = False, cw_rows = [], cw_counters = [], cw_script = []\<rparr>, no_artifacts, 0) =
      (Inr sample_swe_grade, c1, a1, 1) \<and> length (cw_rows c1) = 1 \<and>
    sample_cached (c1, no_artifacts, 1) = (Inr sample_swe_grade, c2, a2, 1) \<and>
    a2 = restored_artifacts (dumps sample_repr) ''diff'' sample_swe_grade \<and>
    world_valid (grade_rows sample_replay_kit ''4'' (\<lambda>_ _. sample_swe_grade) {(''i'', ''diff'')}) c2"
proof -
  let ?c0 = "\<lparr>cw_disabled = False, cw_rows = [], cw_counters = [], cw_script = []\<rparr>"
  let ?rows = "grade_rows sample_replay_kit ''4'' (\<lambda>_ _. sample_swe_grade) {(''i'', ''diff'')}"
  have grader: "grade_of ''i'' r \<and> (sv_completed r \<longrightarrow> r = sample_swe_grade)"
    if "sample_grader ''i'' ''diff'' ad = (Inr r, ad')" for ad r ad'
    using that sample_grading [of "''diff''" "fst ad" "snd ad"] swe_grade_grades [OF that] by auto
  note tr = verify_cache_transparent [where k = sample_replay_kit and truth = "\<lambda>_ _. sample_swe_grade"
      and A = "{(''i'', ''diff'')}", OF _ _ _ _ sample_kit_ok(1) grader]
  obtain a1 where "sample_grader ''i'' ''diff'' (no_artifacts, 0) = (Inr sample_swe_grade, a1, 1)"
    using sample_grading [of "''diff''" no_artifacts 0] by auto
  moreover have done1: "sv_completed sample_swe_grade" by (simp add: sample_swe_grade_def)
  ultimately obtain c1 where c1: "sample_cached (?c0, no_artifacts, 0) = (Inr sample_swe_grade, c1, a1, 1)"
      "length (cw_rows c1) = 1" "cw_script c1 = []" "\<not> cw_disabled c1"
      "cw_rows c1 = [(verify_cache_key (rk_sha sample_replay_kit) ''4'' ''i'' ''diff'', verify_payload (rk_fr sample_replay_kit) sample_swe_grade)]"
    by (simp add: cache_wrapper_def Let_def cache_get_def sqlite_get_def cache_put_def sqlite_put_def
        next_access_def insert_or_ignore_def)
  have valid: "world_valid ?rows c1"
    using tr [OF c1(1)] by (simp add: world_valid_def)
  obtain r2 c2 a2 n2 where r2: "sample_cached (c1, no_artifacts, 1) = (r2, c2, a2, n2)" by (metis prod_cases4)
  have "restore_grade (rk_loads sample_replay_kit) ''i'' (verify_payload (rk_fr sample_replay_kit) sample_swe_grade) =
      Inr (Some sample_swe_grade)"
    by (rule restore_payload [OF sample_kit_ok(1) _ done1]) (use grader [of "(no_artifacts, 0)"] sample_grading [of "''diff''" no_artifacts 0] in auto)
  then have "r2 = Inr sample_swe_grade \<and> a2 = restored_artifacts (dumps sample_repr) ''diff'' sample_swe_grade \<and> n2 = 1"
    using r2 c1(3-5) by (simp add: cache_wrapper_def Let_def cache_get_def sqlite_get_def next_access_def restore_cached_def)
  moreover have "world_valid ?rows c2" using tr [OF r2 valid] by simp
  ultimately show ?thesis using c1(1,2) r2 by blast
qed

end
