(* ===== verification/TerminalBench.thy ===== *)
theory TerminalBench
  imports Docker Grading
begin

text \<open>
  \<open>src/env/terminal_bench.py\<close>, \<open>src/env/swe.py\<close> over a container session, and the container side of
  \<open>src/env/netcache/__init__.py\<close>: which commands an environment runs in its container, how a reward is
  read, what is written beside a trace, and which network a task gets. Files of the host (the dataset,
  the proxy set-up script) are parameters.
\<close>

section \<open>The network cache of a container (\<open>netcache\<close>)\<close>

definition NETWORK_CACHE_SCOPE_ENV :: string where
  "NETWORK_CACHE_SCOPE_ENV = ''FRAMEWORK_NETWORK_CACHE_SCOPE''"

record network_cache =
  nc_enabled :: bool
  nc_scope_token :: "string option"

definition pin :: "string \<Rightarrow> network_cache \<Rightarrow> bool \<times> network_cache" where
  "pin token nc = (if \<not> nc_enabled nc then (False, nc) else (True, nc\<lparr>nc_scope_token := Some token\<rparr>))"

definition setup_command :: "string \<Rightarrow> network_cache \<Rightarrow> string \<Rightarrow> string" where
  "setup_command script nc base_command =
     base_command @ nl #
     (if \<not> nc_enabled nc then []
      else ''export FRAMEWORK_REQUIRE_CACHES='' @ (if nc_scope_token nc \<noteq> None then ''1'' else ''0'') @ nl #
           (case nc_scope_token nc of
              None \<Rightarrow> []
            | Some token \<Rightarrow> ''export '' @ NETWORK_CACHE_SCOPE_ENV @ ''='' @ token @ [nl])) @
     script"

text \<open>\<open>_ensure_host_caches_started\<close>: \<open>compose\<close> is the run of docker compose, with its exit code and output.\<close>

definition compose_up_host_caches :: "(int \<times> string \<times> string) \<Rightarrow> exc + unit" where
  "compose_up_host_caches compose =
     (case compose of (code, out, err) \<Rightarrow>
        guard_res (code = 0) (RuntimeError (''Terminal-Bench host cache startup failed: '' @
          (if strip_ws err \<noteq> [] then strip_ws err else strip_ws out))))"

definition ensure_host_caches :: "(int \<times> string \<times> string) \<Rightarrow> network_cache \<Rightarrow> bool \<Rightarrow> (exc + unit) \<times> bool" where
  "ensure_host_caches compose nc started =
     (if \<not> nc_enabled nc \<or> started then (Inr (), started)
      else case compose_up_host_caches compose of
             Inl e \<Rightarrow> (Inl e, started)
           | Inr _ \<Rightarrow> (Inr (), True))"

section \<open>Paths and commands\<close>

definition TASK_WORKDIR :: string where "TASK_WORKDIR = ''/app''"
definition WORKDIR_SETUP_COMMAND :: string where "WORKDIR_SETUP_COMMAND = ''mkdir -p '' @ TASK_WORKDIR"
definition TESTS_DIR :: string where "TESTS_DIR = ''/tests''"
definition VERIFIER_DIR :: string where "VERIFIER_DIR = ''/logs/verifier''"
definition AGENT_LOG_DIR :: string where "AGENT_LOG_DIR = ''/logs/agent''"
definition ARTIFACTS_DIR :: string where "ARTIFACTS_DIR = ''/logs/artifacts''"
definition TEST_STDOUT_PATH :: string where "TEST_STDOUT_PATH = VERIFIER_DIR @ ''/test-stdout.txt''"
definition REWARD_TEXT_PATH :: string where "REWARD_TEXT_PATH = VERIFIER_DIR @ ''/reward.txt''"

definition VERIFIER_COMMAND :: string where
  "VERIFIER_COMMAND =
     ''rm -f '' @ REWARD_TEXT_PATH @ '' '' @ TEST_STDOUT_PATH @ '' && '' @
     ''chmod +x '' @ TESTS_DIR @ ''/test.sh && '' @
     TESTS_DIR @ ''/test.sh > '' @ TEST_STDOUT_PATH @ '' 2>&1''"

definition INSTALL_COMMAND :: string where
  "INSTALL_COMMAND = ''mkdir -p '' @ TESTS_DIR @ '' '' @ VERIFIER_DIR @ '' '' @ AGENT_LOG_DIR @ '' '' @ ARTIFACTS_DIR"

section \<open>The environment\<close>

record tb_env =
  tb_task_name :: string
  tb_tests :: source_tree
  tb_verify_timeout_sec :: rat
  tb_script :: string
  tb_netcache :: network_cache

text \<open>The state of a live environment: the session with its daemon, whether the host caches run, and the
  files of the verifier directory beside the trace (none before the directory exists).\<close>

type_synonym 'd tb_world = "(shell_session \<times> 'd) \<times> bool \<times> (string, string) dict option"

definition tb_provision ::
    "'d full_daemon \<Rightarrow> (int \<times> string \<times> string) \<Rightarrow> tb_env \<Rightarrow> 'd tb_world \<Rightarrow> (rexc + unit) \<times> 'd tb_world" where
  "tb_provision fd compose env w =
     (case w of (sd, started, files) \<Rightarrow>
        (case ensure_host_caches compose (tb_netcache env) started of
           (Inl e, started') \<Rightarrow> (Inl (PlainExc e), sd, started', files)
         | (Inr _, started') \<Rightarrow>
             (case start (daemon.truncate fd) sd of (r, sd') \<Rightarrow> (r, sd', started', files))))"

definition pin_network_snapshot :: "string \<Rightarrow> tb_env \<times> shell_session \<Rightarrow> rexc + (tb_env \<times> shell_session)" where
  "pin_network_snapshot token es =
     (case es of (env, s) \<Rightarrow>
        (case pin token (tb_netcache env) of
           (False, nc) \<Rightarrow> Inr (env, s)
         | (True, nc) \<Rightarrow>
             (case set_setup_command (Some (setup_command (tb_script env) nc WORKDIR_SETUP_COMMAND)) s of
                Inl e \<Rightarrow> Inl e
              | Inr s' \<Rightarrow> Inr (env\<lparr>tb_netcache := nc\<rparr>, s'))))"

definition install_tests :: "'d full_daemon \<Rightarrow> tb_env \<Rightarrow> shell_session \<times> 'd \<Rightarrow> (rexc + unit) \<times> shell_session \<times> 'd" where
  "install_tests fd env sd =
     (case session_run (daemon.truncate fd) INSTALL_COMMAND ''/'' (Some 30) False sd of
        (Inl e, sd') \<Rightarrow> (Inl e, sd')
      | (Inr _, sd') \<Rightarrow> upload_dir fd (tb_tests env) TESTS_DIR sd')"

text \<open>\<open>_read_reward\<close>: an empty file is read once more.\<close>

definition parse_reward :: "string \<Rightarrow> rexc + (rat \<times> string)" where
  "parse_reward stdout =
     (if strip_ws stdout = ''0'' then Inr (0, stdout)
      else if strip_ws stdout = ''1'' then Inr (1, stdout)
      else Inl (PlainExc (ValueError (''reward.txt must contain exactly '' @ squote @ ''0'' @ squote @ '' or '' @ squote @ ''1'' @ squote))))"

fun read_reward :: "'d daemon \<Rightarrow> nat \<Rightarrow> shell_session \<times> 'd \<Rightarrow> (rexc + (rat \<times> string)) \<times> shell_session \<times> 'd" where
  "read_reward dd 0 sd = (Inl (PlainExc (RuntimeError ''verifier reward output was not readable'')), sd)"
| "read_reward dd (Suc left) sd =
     (case read_file dd REWARD_TEXT_PATH sd of
        (Inl e, sd') \<Rightarrow> (Inl e, sd')
      | (Inr None, sd') \<Rightarrow> (Inl (PlainExc (RuntimeError (''verifier did not write '' @ REWARD_TEXT_PATH))), sd')
      | (Inr (Some stdout), sd') \<Rightarrow>
          (if stdout \<noteq> [] then (parse_reward stdout, sd') else read_reward dd left sd'))"

text \<open>\<open>except (RuntimeError, ValueError)\<close>, with the classes derived from them, and \<open>str(exc)\<close>.\<close>

fun runtime_or_value :: "rexc \<Rightarrow> string option" where
  "runtime_or_value (PlainExc (RuntimeError m)) = Some m"
| "runtime_or_value (PlainExc (ValueError m)) = Some m"
| "runtime_or_value (FrameworkEnvError m) = Some m"
| "runtime_or_value (UnscorableInfraError m) = Some m"
| "runtime_or_value (ExecutionDriftError _ m) = Some m"
| "runtime_or_value (NoValidActionError m) = Some m"
| "runtime_or_value (RepeatedLengthCutoffError m) = Some m"
| "runtime_or_value _ = None"

section \<open>Artifacts\<close>

text \<open>\<open>pretty\<close> is \<open>json.dumps(..., sort_keys=True, indent=2)\<close>.\<close>

definition verifier_result :: "(string, json) dict \<Rightarrow> verify_verdict \<Rightarrow> (string, json) dict" where
  "verifier_result info v =
     (let a = AList.update ''completed'' (JBool (vv_completed v)) info
      in if vv_completed v then AList.update ''passed'' (opt_json JBool (vv_passed v)) a
         else AList.update ''error'' (opt_json JStr (vv_error v)) a)"

definition write_verifier_artifacts ::
    "((string, json) dict \<Rightarrow> string) \<Rightarrow> string \<Rightarrow> (string, json) dict \<Rightarrow> verify_verdict \<Rightarrow> string option \<Rightarrow>
       (string, string) dict option \<Rightarrow> (string, string) dict option" where
  "write_verifier_artifacts pretty test_stdout info v reward_text files =
     (let a = AList.update ''result.json'' (pretty (verifier_result info v))
                (AList.update ''test-stdout.txt'' test_stdout (case files of None \<Rightarrow> [] | Some d \<Rightarrow> d))
      in Some (case reward_text of None \<Rightarrow> a | Some t \<Rightarrow> AList.update ''reward.txt'' t a))"

text \<open>\<open>write_verify_artifacts\<close>: the same from a replayed verdict; a step without a verdict raises
  \<open>AttributeError\<close>.\<close>

definition write_verify_artifacts ::
    "((string, json) dict \<Rightarrow> string) \<Rightarrow> step_result \<Rightarrow> (string, string) dict option \<Rightarrow>
       (exc + unit) \<times> (string, string) dict option" where
  "write_verify_artifacts pretty r files =
     (case sp_verdict r of
        None \<Rightarrow> (Inl (OtherError ''AttributeError'' ''completed''), files)
      | Some v \<Rightarrow>
          (Inr (), write_verifier_artifacts pretty (ro_stdout (sp_raw r)) (sp_info r) v
             (if vv_completed v then Some (int_str (int_trunc (sp_reward r)) @ [nl]) else None) files))"

section \<open>Verification\<close>

definition tb_info :: "tb_env \<Rightarrow> exec_result \<Rightarrow> (string, json) dict" where
  "tb_info env x =
     [(''task_name'', JStr (tb_task_name env)), (''verifier_exit_code'', opt_json JInt (xr_exit_code x))]"

definition tb_grade :: "rexc + (rat \<times> string) \<Rightarrow> rexc + (verify_verdict \<times> rat \<times> string option)" where
  "tb_grade r =
     (case r of
        Inl e \<Rightarrow>
          (case runtime_or_value e of
             None \<Rightarrow> Inl e
           | Some m \<Rightarrow> Inr (\<lparr>vv_completed = False, vv_passed = None, vv_error = Some m\<rparr>, 0, None))
      | Inr (reward, reward_text) \<Rightarrow>
          Inr (\<lparr>vv_completed = True, vv_passed = Some (1 \<le> reward), vv_error = None\<rparr>, reward, Some reward_text))"

definition tb_verify ::
    "'d full_daemon \<Rightarrow> (int \<times> string \<times> string) \<Rightarrow> ((string, json) dict \<Rightarrow> string) \<Rightarrow> tb_env \<Rightarrow> 'd tb_world \<Rightarrow>
       (rexc + verify_outcome) \<times> 'd tb_world" where
  "tb_verify fd compose pretty env w =
     (case tb_provision fd compose env w of
        (Inl e, w1) \<Rightarrow> (Inl e, w1)
      | (Inr _, sd1, started, files) \<Rightarrow>
          (case install_tests fd env sd1 of
             (Inl e, sd2) \<Rightarrow> (Inl e, sd2, started, files)
           | (Inr _, sd2) \<Rightarrow>
               (case session_run (daemon.truncate fd) VERIFIER_COMMAND TASK_WORKDIR (Some (tb_verify_timeout_sec env)) False sd2 of
                  (Inl e, sd3) \<Rightarrow> (Inl e, sd3, started, files)
                | (Inr x, sd3) \<Rightarrow>
                    (case read_file (daemon.truncate fd) TEST_STDOUT_PATH sd3 of
                       (Inl e, sd4) \<Rightarrow> (Inl e, sd4, started, files)
                     | (Inr out, sd4) \<Rightarrow>
                         (case read_reward (daemon.truncate fd) 2 sd4 of (r, sd5) \<Rightarrow>
                            (let test_stdout = (case out of None \<Rightarrow> [] | Some t \<Rightarrow> t)
                             in case tb_grade r of
                                  Inl e \<Rightarrow> (Inl e, sd5, started, files)
                                | Inr (v, reward, reward_text) \<Rightarrow>
                                    (Inr \<lparr>vo_verdict = v,
                                          vo_output = empty_output\<lparr>ro_exit_code := xr_exit_code x, ro_stdout := test_stdout,
                                                                    ro_stderr := xr_stderr x\<rparr>,
                                          vo_reward = reward, vo_info = tb_info env x, vo_metrics = []\<rparr>,
                                     sd5, started,
                                     write_verifier_artifacts pretty test_stdout (tb_info env x) v reward_text files)))))))"

section \<open>Tasks\<close>

definition managed_network_for_index :: "nat \<Rightarrow> managed_network" where
  "managed_network_for_index i =
     (let prefix24 = ''10.'' @ nat_str (240 + i div 256) @ ''.'' @ nat_str (i mod 256)
      in \<lparr>mn_subnet = prefix24 @ ''.0/24'', mn_ipv4_address = prefix24 @ ''.2''\<rparr>)"

text \<open>\<open>names\<close>: the directories of the dataset that hold a \<open>task.toml\<close>. Sorting the paths sorts the names.\<close>

definition load_task_index :: "string set \<Rightarrow> exc + (string, managed_network) dict" where
  "load_task_index names =
     (if names = {} then Inl (FileNotFoundError ''no Terminal-Bench task.toml files found'')
      else Inr (map (\<lambda>(i, n). (n, managed_network_for_index i)) (enumerate 0 (sorted_strs names))))"

text \<open>\<open>load_tasks\<close>: every identifier is looked up before the first task is loaded.\<close>

definition load_tasks ::
    "(string \<Rightarrow> managed_network \<Rightarrow> exc + 't) \<Rightarrow> string set \<Rightarrow> string list \<Rightarrow> exc + (string, 't) dict" where
  "load_tasks load_task names task_ids =
     bind_res (load_task_index names) (\<lambda>index.
       (let missing = filter (\<lambda>t. map_of index t = None) task_ids
        in if missing \<noteq> []
           then Inl (KeyError (''unknown Terminal-Bench task names: '' @ list_repr missing @ ''; available examples: '' @
                  list_repr (take 10 (sorted_strs (set (map fst index))))))
           else bind_res (map_res (\<lambda>t. bind_res (load_task t (the (map_of index t))) (\<lambda>task. Inr (t, task))) task_ids)
                  (\<lambda>ts. Inr (fold (\<lambda>(t, task). AList.update t task) ts []))))"

section \<open>Fingerprints of the environments\<close>

text \<open>Every pin of a container is in the fingerprint of its environment; \<open>sha\<close> is SHA-256 in hex.\<close>

definition PINS_FINGERPRINT :: "(string \<Rightarrow> string) \<Rightarrow> (rat \<Rightarrow> string) \<Rightarrow> string" where
  "PINS_FINGERPRINT sha fr =
     take 12 (sha (dumps_compact fr (JObj
       [(''container_hostname'', JStr CONTAINER_HOSTNAME),
        (''solve_exec_env'', JObj (map (\<lambda>(k, v). (k, JStr v)) SOLVE_EXEC_ENV)),
        (''mtime_reset_command'', JStr MTIME_RESET_COMMAND),
        (''git_hooks_init_command'', JStr GIT_HOOKS_INIT_COMMAND),
        (''gdb_init_command'', JStr GDB_INIT_COMMAND)])))"

definition TERMINAL_BENCH_REPO_REF :: string where
  "TERMINAL_BENCH_REPO_REF = ''2fd12b88aafdd04a52c298e3940bcb189f9766d6''"

definition FAKERANDOM_TASK_NAMES :: "string list" where
  "FAKERANDOM_TASK_NAMES = [''distribution-search'']"

definition FAKERANDOM_LIB_SHA256 :: string where
  "FAKERANDOM_LIB_SHA256 = ''c68193ec89877804e36f9f9c09279936ba94f869b0dea86684080ca0b72daf9f''"

definition FAKERANDOM_LIB_CONTAINER_PATH :: string where
  "FAKERANDOM_LIB_CONTAINER_PATH = ''/opt/framework/libfaketimeMT.so.1''"

definition FAKERANDOM_RUN_ENV :: "(string, string) dict" where
  "FAKERANDOM_RUN_ENV =
     [(''LD_PRELOAD'', FAKERANDOM_LIB_CONTAINER_PATH), (''FAKERANDOM_SEED'', ''0x12345678DEADBEEF'')]"

definition LIVE_ONLY_TASK_NAMES :: "string list" where
  "LIVE_ONLY_TASK_NAMES = [''portfolio-optimization'']"

definition RESOURCE_ENFORCEMENT_VERSION :: int where
  "RESOURCE_ENFORCEMENT_VERSION = 1"

definition tb_env_fingerprint :: "(string \<Rightarrow> string) \<Rightarrow> (rat \<Rightarrow> string) \<Rightarrow> string \<Rightarrow> string" where
  "tb_env_fingerprint sha fr script =
     (let payload = dumps_compact fr (JObj
        [(''source_pins'', JStr (PINS_FINGERPRINT sha fr)),
         (''terminal_bench_fakerandom_run_env'', JObj (map (\<lambda>(k, v). (k, JStr v)) FAKERANDOM_RUN_ENV)),
         (''terminal_bench_fakerandom_lib_sha256'', JStr FAKERANDOM_LIB_SHA256),
         (''terminal_bench_fakerandom_task_names'', JArr (map JStr FAKERANDOM_TASK_NAMES)),
         (''terminal_bench_live_only_task_names'', JArr (map JStr LIVE_ONLY_TASK_NAMES)),
         (''terminal_bench_resource_enforcement_version'', JInt RESOURCE_ENFORCEMENT_VERSION),
         (''terminal_bench_workdir_setup_command'', JStr WORKDIR_SETUP_COMMAND)])
      in TERMINAL_BENCH_REPO_REF @ '':'' @
         take 12 (sha (VERIFIER_COMMAND @ CHR 0x00 # script @ CHR 0x00 # payload)))"

definition MODEL_PATCH_COMMAND :: string where
  "MODEL_PATCH_COMMAND =
     ''set -e; git add -N .; binary_paths=(); '' @
     ''while IFS=$'' @ squote @ backslash @ ''t'' @ squote @ '' read -r -d '' @ squote @ squote @ '' added deleted path; do '' @
     ''old_path=; '' @
     ''if [[ -z $path ]]; then '' @
     ''IFS= read -r -d '' @ squote @ squote @ '' old_path; IFS= read -r -d '' @ squote @ squote @ '' path; '' @
     ''fi; '' @
     ''if [[ $added == - && $deleted == - ]]; then '' @
     ''[[ -z $old_path ]] || binary_paths+=('' @ dquote @ '':(top,exclude,literal)$old_path'' @ dquote @ ''); '' @
     ''binary_paths+=('' @ dquote @ '':(top,exclude,literal)$path'' @ dquote @ ''); '' @
     ''fi; '' @
     ''done < <(git -c core.fileMode=false diff --numstat -z HEAD --); '' @
     ''git -c core.fileMode=false diff HEAD -- . '' @ dquote @ ''${binary_paths[@]}'' @ dquote"

definition SWE_ENV_FINGERPRINT :: "(string \<Rightarrow> string) \<Rightarrow> (rat \<Rightarrow> string) \<Rightarrow> string" where
  "SWE_ENV_FINGERPRINT sha fr = take 12 (sha (PINS_FINGERPRINT sha fr @ CHR 0x00 # MODEL_PATCH_COMMAND))"

section \<open>Terminal-Bench tasks as sessions\<close>

text \<open>\<open>_load_task\<close> and \<open>_build_solve_env\<close>: the parts of a task that decide its container. \<open>lib\<close> is the checked
  library on the host.\<close>

record tb_task =
  tk_dir_name :: string
  tk_docker_image :: string
  tk_build_timeout_sec :: rat
  tk_cpus :: nat
  tk_memory_mb :: nat
  tk_network :: managed_network

definition tb_replay_id :: "(string \<Rightarrow> string) \<Rightarrow> (rat \<Rightarrow> string) \<Rightarrow> string \<Rightarrow> tb_task \<Rightarrow> string option" where
  "tb_replay_id sha fr script t =
     (if tk_dir_name t \<in> set LIVE_ONLY_TASK_NAMES then None else Some (tb_env_fingerprint sha fr script))"

definition build_solve_env :: "nat \<Rightarrow> string \<Rightarrow> string \<Rightarrow> string \<Rightarrow> network_cache \<Rightarrow> tb_task \<Rightarrow> shell_session" where
  "build_solve_env pid token lib script nc t =
     (let pin_urandom = (tk_dir_name t \<in> set FAKERANDOM_TASK_NAMES)
      in new_session pid token (tk_docker_image t) (Some (tk_network t))
           (if pin_urandom then FAKERANDOM_RUN_ENV else [])
           (if pin_urandom then [(lib, FAKERANDOM_LIB_CONTAINER_PATH)] else [])
           ''terminal_bench_env'' (Some (tk_cpus t)) (Some (tk_memory_mb t)) (tk_build_timeout_sec t)
           (Some (setup_command script nc WORKDIR_SETUP_COMMAND)))"

section \<open>SWE-bench over a session\<close>

definition swe_patch_session :: "'d daemon \<Rightarrow> (shell_session \<times> 'd) patch_session" where
  "swe_patch_session dd =
     \<lparr>ps_provision = start dd,
      ps_capture = (\<lambda>sd. (case session_run dd MODEL_PATCH_COMMAND ''/testbed'' (Some 120) True sd of
          (Inl e, sd') \<Rightarrow> (Inl e, sd')
        | (Inr x, sd') \<Rightarrow> (Inr (xr_exit_code x, xr_stdout x), sd'))),
      ps_close = close dd\<rparr>"

section \<open>Facts\<close>

text \<open>Every task of the dataset has a network of its own, a valid one while there are at most 4096 tasks.\<close>

lemma split_unique: "c \<notin> set xs \<Longrightarrow> c \<notin> set ys \<Longrightarrow> xs @ c # u = ys @ c # v \<longleftrightarrow> xs = ys \<and> u = v"
proof (induction xs arbitrary: ys)
  case Nil
  then show ?case by (cases ys) auto
next
  case (Cons x xs)
  then show ?case by (cases ys) auto
qed

lemma no_dot: "CHR ''.'' \<notin> set (nat_str n)"
proof -
  have "CHR ''.'' \<notin> set ''0123456789''" by simp
  with nat_str_digit_chars [of n] show ?thesis by blast
qed

lemma networks_apart:
  assumes "managed_network_for_index i = managed_network_for_index j"
  shows "i = j"
proof -
  have "nat_str (240 + i div 256) @ CHR ''.'' # nat_str (i mod 256) @ CHR ''.'' # ''2'' =
      nat_str (240 + j div 256) @ CHR ''.'' # nat_str (j mod 256) @ CHR ''.'' # ''2''"
    using arg_cong [OF assms, of mn_ipv4_address] by (simp add: managed_network_for_index_def Let_def)
  then have "nat_str (240 + i div 256) = nat_str (240 + j div 256)" "nat_str (i mod 256) = nat_str (j mod 256)"
    by (simp_all add: split_unique [OF no_dot no_dot])
  then have "i div 256 = j div 256" "i mod 256 = j mod 256" by (auto dest: nat_str_inj)
  then show ?thesis by (metis div_mult_mod_eq)
qed

lemma network_octets: "i < 4096 \<Longrightarrow> 240 + i div 256 < 256 \<and> i mod 256 < (256::nat)"
  by auto

lemma task_networks_distinct:
  assumes "load_task_index names = Inr index" and "finite names"
  shows "set (map fst index) = names \<and> distinct (map fst index) \<and> distinct (map snd index)"
proof -
  have ix: "index = map (\<lambda>(i, n). (n, managed_network_for_index i)) (enumerate 0 (sorted_strs names))"
    using assms(1) by (auto simp: load_task_index_def split: if_splits)
  have "map fst index = sorted_strs names"
    by (simp add: ix comp_def case_prod_unfold)
  moreover have "map snd index = map managed_network_for_index [0..<length (sorted_strs names)]"
  proof -
    have "map snd index = map managed_network_for_index (map fst (enumerate 0 (sorted_strs names)))"
      unfolding ix map_map by (rule map_cong) auto
    then show ?thesis by simp
  qed
  moreover have "inj managed_network_for_index" using networks_apart by (rule injI)
  ultimately show ?thesis using assms(2)
    by (simp add: distinct_map sorted_strs_def inj_on_def networks_apart)
qed

text \<open>A graded verification: a well-formed verdict, whose pass is the reward.\<close>

lemma parse_reward_cases:
  "parse_reward t = Inr (q, u) \<Longrightarrow> u = t \<and> (q = 0 \<and> strip_ws t = ''0'' \<or> q = 1 \<and> strip_ws t = ''1'')"
  by (auto simp: parse_reward_def split: if_splits)

lemma read_reward_cases:
  "read_reward dd n sd = (Inr (q, t), sd') \<Longrightarrow> q = 0 \<and> strip_ws t = ''0'' \<or> q = 1 \<and> strip_ws t = ''1''"
proof (induction dd n sd rule: read_reward.induct)
  case (2 dd left sd)
  then show ?case
    by (auto split: prod.splits sum.splits option.splits if_splits dest: parse_reward_cases)
qed simp

lemma tb_grade_cases:
  assumes "read_reward dd n sd = (r, sd')" and "tb_grade r = Inr (v, q, t)"
  shows "verdict_ok v \<and>
    (if vv_completed v then t \<noteq> None \<and> strip_ws (the t) = int_str (int_trunc q) \<and> q \<in> {0, 1} \<and> vv_passed v = Some (q = 1)
     else t = None \<and> q = 0)"
proof (cases r)
  case (Inl e)
  with assms(2) show ?thesis by (auto simp: tb_grade_def verdict_ok_def mk_verdict_def split: option.splits)
next
  case (Inr p)
  obtain q' t' where p: "p = (q', t')" by (rule prod.exhaust)
  with assms Inr read_reward_cases [of dd n sd q' t' sd'] show ?thesis
    by (auto simp: tb_grade_def verdict_ok_def mk_verdict_def int_trunc_def int_str_def nat_str_def digit_char_def
        nat_digits.simps [of 0] nat_digits.simps [of "Suc 0"])
qed

text \<open>What is written beside the trace does not depend on where the verdict came from.\<close>

lemma artifacts_rewritten:
  assumes "vv_completed v \<longrightarrow> q \<in> {0, 1} \<and> t \<noteq> None \<and> strip_ws (the t) = int_str (int_trunc q)" and "\<not> vv_completed v \<longrightarrow> t = None"
    and "sp_verdict r = Some v" "ro_stdout (sp_raw r) = out" "sp_info r = info" "sp_reward r = q"
  shows "\<exists>d d'. write_verifier_artifacts pretty out info v t files = Some d \<and>
      write_verify_artifacts pretty r files = (Inr (), Some d') \<and>
      (\<forall>name. name \<noteq> ''reward.txt'' \<longrightarrow> map_of d' name = map_of d name) \<and>
      map_option strip_ws (map_of d' ''reward.txt'') = map_option strip_ws (map_of d ''reward.txt'')"
proof -
  have strip: "strip_ws (int_str (int_trunc q) @ [nl]) = int_str (int_trunc q)" if "q \<in> {0, 1}"
    using that by (auto simp: int_trunc_def int_str_def nat_str_def digit_char_def nat_digits.simps [of 0]
        nat_digits.simps [of "Suc 0"] strip_ws_def whitespace_def line_breaks_def nl_def)
  show ?thesis
    using assms strip
    by (cases t) (auto simp: write_verifier_artifacts_def write_verify_artifacts_def Let_def dict_simps)
qed

lemma artifacts_replayed:
  assumes "tb_verify fd compose pretty env (sd, started, files) = (Inr out, sd', started', files')"
  shows "verdict_ok (vo_verdict out) \<and>
    (vv_completed (vo_verdict out) \<longrightarrow> vo_reward out \<in> {0, 1} \<and> vv_passed (vo_verdict out) = Some (vo_reward out = 1)) \<and>
    (\<exists>d d'. files' = Some d \<and> write_verify_artifacts pretty (verify_step out) files = (Inr (), Some d') \<and>
      (\<forall>name. name \<noteq> ''reward.txt'' \<longrightarrow> map_of d' name = map_of d name) \<and>
      map_option strip_ws (map_of d' ''reward.txt'') = map_option strip_ws (map_of d ''reward.txt''))"
proof -
  obtain sd5 r v q t x test_stdout where
      g: "read_reward (daemon.truncate fd) 2 sd5 = (r, sd')" "tb_grade r = Inr (v, q, t)"
    and files': "files' = write_verifier_artifacts pretty test_stdout (tb_info env x) v t files"
    and out: "out = \<lparr>vo_verdict = v, vo_output = empty_output\<lparr>ro_exit_code := xr_exit_code x, ro_stdout := test_stdout,
        ro_stderr := xr_stderr x\<rparr>, vo_reward = q, vo_info = tb_info env x, vo_metrics = []\<rparr>"
    using assms by (auto simp: tb_verify_def tb_provision_def Let_def split: prod.splits sum.splits)
  note grade = tb_grade_cases [OF g]
  have "\<exists>d d'. write_verifier_artifacts pretty test_stdout (tb_info env x) v t files = Some d \<and>
      write_verify_artifacts pretty (verify_step out) files = (Inr (), Some d') \<and>
      (\<forall>name. name \<noteq> ''reward.txt'' \<longrightarrow> map_of d' name = map_of d name) \<and>
      map_option strip_ws (map_of d' ''reward.txt'') = map_option strip_ws (map_of d ''reward.txt'')"
    by (rule artifacts_rewritten [where q = q]) (use grade in \<open>auto simp: out verify_step_def split: if_splits\<close>)
  with grade files' out show ?thesis by (auto split: if_splits)
qed

end
