(* ===== verification/Evaluate.thy ===== *)
theory Evaluate
  imports Measurement
begin

text \<open>
  \<open>scripts/evaluate.py\<close>: the evaluation command. One evaluation is an isolated measurement whose record
  is finalized as an evaluation; several overlap: the next run starts, from a callback of the current
  one, when fewer of its tasks are left than it may run at once.
\<close>

section \<open>One evaluation\<close>

definition eval_relations :: run_relations where
  "eval_relations = \<lparr>rel_kind = KindEval, rel_parent_commit_hash = None, rel_baseline_experiment_id = None,
     rel_decision = None\<rparr>"

text \<open>\<open>_evaluate\<close> after the measurement: the records it leaves. A failure to record replaces the outcome.\<close>

definition evaluate_recorded ::
    "(string \<Rightarrow> string) \<Rightarrow> (measurement_exc + experiment_result) \<times> run_store \<Rightarrow>
       (measurement_exc + experiment_result) \<times> run_store" where
  "evaluate_recorded sha m =
     (case m of
        (Inr result, st) \<Rightarrow>
          (case record_finalized_run sha st result eval_relations of
             Inl e \<Rightarrow> (Inl (SupervisionError e), st)
           | Inr (st', r) \<Rightarrow> (Inr r, st'))
      | (Inl (MeasurementError msg (Some result)), st) \<Rightarrow>
          (case record_finalized_run sha st result eval_relations of
             Inl e \<Rightarrow> (Inl (SupervisionError e), st)
           | Inr (st', _) \<Rightarrow> (Inl (MeasurementError msg (Some result)), st'))
      | (Inl e, st) \<Rightarrow> (Inl e, st))"

section \<open>The command line\<close>

text \<open>\<open>parse_int\<close> is \<open>int\<close> on text, none for a \<open>ValueError\<close>.\<close>

definition bad_iterations :: "exc + 'a" where
  "bad_iterations = Inl (ValueError ''--n must be a positive integer'')"

definition parse_iterations :: "(string \<Rightarrow> int option) \<Rightarrow> string list \<Rightarrow> exc + (int option \<times> string list)" where
  "parse_iterations parse_int argv =
     (case filter (\<lambda>i. argv ! i = ''--n'') [0..<length argv] of
        [] \<Rightarrow> Inr (None, argv)
      | [p] \<Rightarrow>
          (if p + 1 = length argv then bad_iterations
           else case parse_int (argv ! (p + 1)) of
                  None \<Rightarrow> bad_iterations
                | Some n \<Rightarrow>
                    (if n < 1 then bad_iterations else Inr (Some n, take p argv @ drop (p + 2) argv)))
      | _ \<Rightarrow> bad_iterations)"

text \<open>Reserving a name: the loop ends after at most one turn for each name taken.\<close>

definition numbered :: "string \<Rightarrow> nat \<Rightarrow> string" where
  "numbered base k = base @ ''-'' @ nat_str k"

fun reserve_from :: "nat \<Rightarrow> (string \<Rightarrow> bool) \<Rightarrow> string \<Rightarrow> string \<Rightarrow> nat \<Rightarrow> string option" where
  "reserve_from 0 taken base name k = (if taken name then None else Some name)"
| "reserve_from (Suc fuel) taken base name k =
     (if taken name then reserve_from fuel taken base (numbered base k) (Suc k) else Some name)"

definition reserve_name :: "string list \<Rightarrow> string list \<Rightarrow> string \<Rightarrow> string option" where
  "reserve_name issued dirs base =
     reserve_from (length issued + length dirs + 1) (\<lambda>n. n \<in> set issued \<or> n \<in> set dirs) base base 2"

text \<open>The runs of \<open>--n\<close>: every configuration once in each iteration; \<open>stamp\<close> prints the time a run is named at.\<close>

fun name_runs ::
    "string list \<Rightarrow> string list \<Rightarrow> (nat \<Rightarrow> string) \<Rightarrow> (nat \<times> 'c) list \<Rightarrow> nat \<Rightarrow> ('c \<times> string option) list" where
  "name_runs issued dirs stamp [] k = []"
| "name_runs issued dirs stamp ((iteration, c) # rs) k =
     (let name = reserve_name issued dirs (''exp-'' @ stamp k @ ''__iteration-'' @ nat_str iteration)
      in (c, name) # name_runs (case name of None \<Rightarrow> issued | Some n \<Rightarrow> n # issued) dirs stamp rs (Suc k))"

definition schedule ::
    "string list \<Rightarrow> (nat \<Rightarrow> string) \<Rightarrow> int option \<Rightarrow> 'c list \<Rightarrow> ('c \<times> string option) list" where
  "schedule dirs stamp iterations configs =
     (case iterations of
        None \<Rightarrow> map (\<lambda>c. (c, None)) configs
      | Some n \<Rightarrow> name_runs [] dirs stamp (concat (map (\<lambda>i. map (\<lambda>c. (i, c)) configs) [1..<Suc (nat n)])) 0)"

section \<open>Overlapping runs\<close>

text \<open>What an evaluation does, given its panel in the order it is to be run: the callbacks it makes, and
  how it ends.\<close>

datatype eval_event = RunStarted | TaskFinished string

datatype eval_end =
    EvalDone experiment_result
  | EvalFailed "experiment_result option"
  | EvalRaised exc

record scheduled_run =
  sr_panel :: "string list"
  sr_concurrency :: nat
  sr_behaviour :: "string list \<Rightarrow> eval_event list \<times> eval_end"

text \<open>\<open>active\<close> is a list of mutable sets: a run is known by its number, its unfinished tasks are at that
  number of \<open>ov_unfinished\<close>.\<close>

record overlap =
  ov_pending :: "scheduled_run list"
  ov_unfinished :: "string set list"
  ov_active :: "nat list"
  ov_results :: "experiment_result list"
  ov_failed :: bool

text \<open>\<open>list.remove\<close> compares by value: the first set that is equal goes.\<close>

fun remove_equal :: "string set list \<Rightarrow> string set \<Rightarrow> nat list \<Rightarrow> nat list option" where
  "remove_equal h v [] = None"
| "remove_equal h v (i # is) = (if h ! i = v then Some is else map_option ((#) i) (remove_equal h v is))"

definition active_conflicts :: "overlap \<Rightarrow> string set" where
  "active_conflicts ov = (\<Union>i \<in> set (ov_active ov). ov_unfinished ov ! i)"

definition run_order :: "overlap \<Rightarrow> string list \<Rightarrow> string list" where
  "run_order ov panel =
     filter (\<lambda>t. t \<notin> active_conflicts ov) panel @ filter (\<lambda>t. t \<in> active_conflicts ov) panel"

text \<open>The callbacks; \<open>next\<close> is \<open>run_next\<close>, the flag is \<open>next_started\<close>.\<close>

definition maybe_start_next ::
    "(overlap \<Rightarrow> (exc + unit) \<times> overlap) \<Rightarrow> nat \<Rightarrow> nat \<Rightarrow> bool \<Rightarrow> overlap \<Rightarrow> (exc + bool) \<times> overlap" where
  "maybe_start_next nxt concurrency me started ov =
     (if \<not> started \<and> card (ov_unfinished ov ! me) < concurrency
      then (case nxt ov of (Inl e, ov') \<Rightarrow> (Inl e, ov') | (Inr _, ov') \<Rightarrow> (Inr True, ov'))
      else (Inr started, ov))"

fun play_events ::
    "(overlap \<Rightarrow> (exc + unit) \<times> overlap) \<Rightarrow> nat \<Rightarrow> nat \<Rightarrow> eval_event list \<Rightarrow> bool \<Rightarrow> overlap \<Rightarrow> (exc + bool) \<times> overlap" where
  "play_events nxt concurrency me [] started ov = (Inr started, ov)"
| "play_events nxt concurrency me (ev # evs) started ov =
     (case (case ev of
              RunStarted \<Rightarrow> maybe_start_next nxt concurrency me started ov
            | TaskFinished t \<Rightarrow>
                (if t \<notin> ov_unfinished ov ! me then (Inl (KeyError t), ov)
                 else maybe_start_next nxt concurrency me started
                   (ov\<lparr>ov_unfinished := (ov_unfinished ov)[me := ov_unfinished ov ! me - {t}]\<rparr>))) of
        (Inl e, ov') \<Rightarrow> (Inl e, ov')
      | (Inr started', ov') \<Rightarrow> play_events nxt concurrency me evs started' ov')"

definition leave_active :: "nat \<Rightarrow> overlap \<Rightarrow> (exc + unit) \<times> overlap" where
  "leave_active me ov =
     (case remove_equal (ov_unfinished ov) (ov_unfinished ov ! me) (ov_active ov) of
        None \<Rightarrow> (Inl (ValueError ''list.remove(x): x not in list''), ov)
      | Some is \<Rightarrow> (Inr (), ov\<lparr>ov_active := is\<rparr>))"

text \<open>What the \<open>try\<close> makes of the end of an evaluation: its own exception, if any, and the state.\<close>

definition settle_end :: "(exc + bool) \<Rightarrow> eval_end \<Rightarrow> overlap \<Rightarrow> exc option \<times> overlap" where
  "settle_end played fin ov =
     (case played of
        Inl e \<Rightarrow> (Some e, ov)
      | Inr _ \<Rightarrow>
          (case fin of
             EvalDone r \<Rightarrow> (None, ov\<lparr>ov_results := ov_results ov @ [r]\<rparr>)
           | EvalFailed r \<Rightarrow> (None, ov\<lparr>ov_failed := True,
                ov_results := ov_results ov @ (case r of None \<Rightarrow> [] | Some x \<Rightarrow> [x])\<rparr>)
           | EvalRaised e \<Rightarrow> (Some e, ov)))"

primrec run_next :: "nat \<Rightarrow> overlap \<Rightarrow> (exc + unit) \<times> overlap" where
  "run_next 0 ov = (Inr (), ov)"
| "run_next (Suc n) ov =
     (case ov_pending ov of
        [] \<Rightarrow> (Inr (), ov)
      | r # rs \<Rightarrow>
          (let me = length (ov_unfinished ov);
               (evs, fin) = sr_behaviour r (run_order ov (sr_panel r));
               ov1 = ov\<lparr>ov_pending := rs, ov_unfinished := ov_unfinished ov @ [set (sr_panel r)],
                        ov_active := ov_active ov @ [me]\<rparr>;
               (played, ov2) = play_events (run_next n) (sr_concurrency r) me evs False ov1;
               (raised, ov3) = settle_end played fin ov2
           in case leave_active me ov3 of
                (Inl e, ov4) \<Rightarrow> (Inl e, ov4)
              | (Inr _, ov4) \<Rightarrow>
                  (case raised of
                     Some e \<Rightarrow> (Inl e, ov4)
                   | None \<Rightarrow> (case played of Inr True \<Rightarrow> (Inr (), ov4) | _ \<Rightarrow> run_next n ov4))))"

definition run_overlapping :: "scheduled_run list \<Rightarrow> exc + (bool \<times> experiment_result list)" where
  "run_overlapping runs =
     (case run_next (length runs) \<lparr>ov_pending = runs, ov_unfinished = [], ov_active = [], ov_results = [], ov_failed = False\<rparr> of
        (Inl e, _) \<Rightarrow> Inl e
      | (Inr _, ov) \<Rightarrow> Inr (ov_failed ov, ov_results ov))"

section \<open>Facts\<close>

text \<open>A reserved name is taken neither by an earlier run nor by a directory.\<close>

lemma numbered_inj: "numbered base k = numbered base l \<Longrightarrow> k = l"
  by (auto simp: numbered_def dest: nat_str_inj)

lemma numbered_base: "numbered base k \<noteq> base"
  by (simp add: numbered_def)

lemma reserve_from_free: "reserve_from fuel taken base name k = Some n \<Longrightarrow> \<not> taken n"
  by (induction fuel arbitrary: name k) (auto split: if_splits)

lemma reserve_from_none:
  "reserve_from fuel taken base name k = None \<Longrightarrow> taken name \<and> (\<forall>i < fuel. taken (numbered base (k + i)))"
proof (induction fuel arbitrary: name k)
  case (Suc fuel)
  then have "taken name" "reserve_from fuel taken base (numbered base k) (Suc k) = None" by (auto split: if_splits)
  moreover from Suc.IH [OF this(2)] have "taken (numbered base (k + i))" if "i < Suc fuel" for i
    using that by (cases i) auto
  ultimately show ?case by blast
qed (simp split: if_splits)

lemma reserve_name_total: "\<exists>n. reserve_name issued dirs base = Some n \<and> n \<notin> set issued \<and> n \<notin> set dirs"
proof -
  let ?taken = "\<lambda>n. n \<in> set issued \<or> n \<in> set dirs"
  let ?fuel = "length issued + length dirs + 1"
  have "reserve_from ?fuel ?taken base base 2 \<noteq> None"
  proof
    assume "reserve_from ?fuel ?taken base base 2 = None"
    then have "(\<lambda>i. numbered base (2 + i)) ` {..<?fuel} \<subseteq> set issued \<union> set dirs"
      using reserve_from_none by blast
    moreover have "inj_on (\<lambda>i. numbered base (2 + i)) {..<?fuel}"
      by (intro inj_onI) (auto dest: numbered_inj)
    ultimately have "?fuel \<le> card (set issued \<union> set dirs)"
      by (metis card_image card_lessThan card_mono finite_UnI finite_set)
    also have "\<dots> \<le> length issued + length dirs"
      by (rule le_trans [OF card_Un_le]) (simp add: add_mono card_length)
    finally show False by simp
  qed
  then show ?thesis using reserve_from_free unfolding reserve_name_def by blast
qed

text \<open>A run takes its own tasks first where another run still has them unfinished.\<close>

lemma run_order_set [simp]: "set (run_order ov panel) = set panel"
  by (auto simp: run_order_def)

lemma run_order_distinct: "distinct panel \<Longrightarrow> distinct (run_order ov panel)"
  by (auto simp: run_order_def)

section \<open>Every run is run\<close>

text \<open>A run that completes: it reports every task of its panel exactly once, in whatever order it is given
  them, and has a result.\<close>

fun finished_tasks :: "eval_event list \<Rightarrow> string list" where
  "finished_tasks [] = []"
| "finished_tasks (RunStarted # evs) = finished_tasks evs"
| "finished_tasks (TaskFinished t # evs) = t # finished_tasks evs"

definition completes :: "scheduled_run \<Rightarrow> experiment_result \<Rightarrow> bool" where
  "completes r x \<longleftrightarrow> distinct (sr_panel r) \<and>
     (\<forall>order. distinct order \<longrightarrow> set order = set (sr_panel r) \<longrightarrow>
        snd (sr_behaviour r order) = EvalDone x \<and> distinct (finished_tasks (fst (sr_behaviour r order))) \<and>
        set (finished_tasks (fst (sr_behaviour r order))) = set (sr_panel r))"

text \<open>What a callback may change for the runs that were active before: nothing of their sets, and of the list
  only which of several equal, empty sets stand in it.\<close>

definition contents :: "overlap \<Rightarrow> string set multiset" where
  "contents ov = mset (map ((!) (ov_unfinished ov)) (ov_active ov))"

definition busy :: "overlap \<Rightarrow> nat set" where
  "busy ov = {i \<in> set (ov_active ov). ov_unfinished ov ! i \<noteq> {}}"

definition overlap_ok :: "overlap \<Rightarrow> bool" where
  "overlap_ok ov \<longleftrightarrow> distinct (ov_active ov) \<and> (\<forall>i \<in> set (ov_active ov). i < length (ov_unfinished ov))"

definition undisturbed :: "overlap \<Rightarrow> overlap \<Rightarrow> bool" where
  "undisturbed ov ov' \<longleftrightarrow>
     length (ov_unfinished ov) \<le> length (ov_unfinished ov') \<and>
     (\<forall>i < length (ov_unfinished ov). ov_unfinished ov' ! i = ov_unfinished ov ! i) \<and>
     contents ov' = contents ov \<and> busy ov' = busy ov \<and> ov_failed ov' = ov_failed ov \<and> overlap_ok ov'"

definition runs_all :: "(overlap \<Rightarrow> (exc + unit) \<times> overlap) \<Rightarrow> nat \<Rightarrow> bool" where
  "runs_all nxt n \<longleftrightarrow>
     (\<forall>ov xs. overlap_ok ov \<longrightarrow> length (ov_pending ov) \<le> n \<longrightarrow> list_all2 completes (ov_pending ov) xs \<longrightarrow>
        (\<exists>ov'. nxt ov = (Inr (), ov') \<and> undisturbed ov ov' \<and> ov_pending ov' = [] \<and>
           mset (ov_results ov') = mset (ov_results ov) + mset xs))"

lemma remove_equal_some:
  "v \<in> (!) h ` set is \<Longrightarrow> distinct is \<Longrightarrow>
     \<exists>is' j. remove_equal h v is = Some is' \<and> j \<in> set is \<and> h ! j = v \<and> set is' = set is - {j} \<and> distinct is' \<and>
       mset (map ((!) h) is) = add_mset v (mset (map ((!) h) is'))"
proof (induction "is")
  case (Cons i js)
  show ?case
  proof (cases "h ! i = v")
    case True
    with Cons.prems show ?thesis by (intro exI [of _ js] exI [of _ i]) auto
  next
    case False
    with Cons obtain is' j where "remove_equal h v js = Some is'" "j \<in> set js" "h ! j = v" "set is' = set js - {j}"
        "distinct is'" "mset (map ((!) h) js) = add_mset v (mset (map ((!) h) is'))" by auto
    with False Cons.prems show ?thesis by (intro exI [of _ "i # is'"] exI [of _ j]) auto
  qed
qed simp

text \<open>The frame of a run: the base state it was entered in, its own number.\<close>

definition framed :: "overlap \<Rightarrow> nat \<Rightarrow> overlap \<Rightarrow> bool" where
  "framed base me ov \<longleftrightarrow>
     me = length (ov_unfinished base) \<and> me < length (ov_unfinished ov) \<and>
     (\<forall>i < me. ov_unfinished ov ! i = ov_unfinished base ! i) \<and>
     contents ov = add_mset (ov_unfinished ov ! me) (contents base) \<and>
     busy ov = busy base \<union> (if ov_unfinished ov ! me = {} then {} else {me}) \<and>
     ov_failed ov = ov_failed base \<and> overlap_ok ov"

lemma framed_undisturbed:
  assumes "framed base me ov" and "undisturbed ov ov'"
  shows "framed base me ov' \<and> ov_unfinished ov' ! me = ov_unfinished ov ! me"
  using assms unfolding framed_def undisturbed_def by auto

lemma framed_finish:
  assumes "framed base me ov" and "t \<in> ov_unfinished ov ! me" and "\<forall>i \<in> set (ov_active base). i < length (ov_unfinished base)"
  shows "framed base me (ov\<lparr>ov_unfinished := (ov_unfinished ov)[me := ov_unfinished ov ! me - {t}]\<rparr>)"
proof -
  let ?h = "ov_unfinished ov" and ?h' = "(ov_unfinished ov)[me := ov_unfinished ov ! me - {t}]"
  have "ov_unfinished ov ! me \<noteq> {}" using assms(2) by blast
  then have "me \<in> busy ov" using assms(1) by (simp add: framed_def)
  then have me: "me \<in> set (ov_active ov)" "distinct (ov_active ov)" "me < length ?h"
    using assms(1) by (simp_all add: framed_def busy_def overlap_ok_def)
  have split: "mset (map f (ov_active ov)) = add_mset (f me) (mset (map f (remove1 me (ov_active ov))))" for f :: "nat \<Rightarrow> string set"
  proof -
    have "mset (ov_active ov) = add_mset me (mset (remove1 me (ov_active ov)))" using me(1) by simp
    then have "image_mset f (mset (ov_active ov)) = image_mset f (add_mset me (mset (remove1 me (ov_active ov))))"
      by (rule arg_cong)
    then show ?thesis by simp
  qed
  have "map ((!) ?h') (remove1 me (ov_active ov)) = map ((!) ?h) (remove1 me (ov_active ov))"
    using me(2) by (intro map_cong) auto
  moreover have "mset (map ((!) ?h) (remove1 me (ov_active ov))) = contents base"
    using assms(1) split [of "(!) ?h"] by (simp add: framed_def contents_def)
  ultimately have "mset (map ((!) ?h') (remove1 me (ov_active ov))) = contents base" by (simp only:)
  then have c: "mset (map ((!) ?h') (ov_active ov)) = add_mset (?h' ! me) (contents base)"
    using split [of "(!) ?h'"] by (simp only:)
  have notbase: "me \<notin> busy base" using assms(1,3) by (auto simp: framed_def busy_def)
  have "{i \<in> set (ov_active ov). ?h' ! i \<noteq> {}} = (busy ov - {me}) \<union> (if ?h' ! me = {} then {} else {me})"
    using me by (auto simp: busy_def nth_list_update)
  also have "busy ov - {me} = busy base" using assms(1) notbase by (auto simp: framed_def)
  finally have b: "{i \<in> set (ov_active ov). ?h' ! i \<noteq> {}} = busy base \<union> (if ?h' ! me = {} then {} else {me})" .
  show ?thesis using assms(1) c b unfolding framed_def contents_def busy_def overlap_ok_def by auto
qed

text \<open>The callbacks of a completing run: what has been launched so far, by \<open>next_started\<close>.\<close>

definition launched :: "scheduled_run list \<Rightarrow> experiment_result list \<Rightarrow> experiment_result multiset \<Rightarrow> bool \<Rightarrow> overlap \<Rightarrow> bool" where
  "launched rs xs res0 started ov \<longleftrightarrow>
     (if started then ov_pending ov = [] \<and> mset (ov_results ov) = res0 + mset xs
      else ov_pending ov = rs \<and> mset (ov_results ov) = res0)"

lemma maybe_start_launches:
  assumes "runs_all nxt n" and "list_all2 completes rs xs" and "length rs \<le> n"
    and "framed base me ov" and "launched rs xs res0 started ov"
  shows "\<exists>started' ov'. maybe_start_next nxt c me started ov = (Inr started', ov') \<and> framed base me ov' \<and>
    launched rs xs res0 started' ov' \<and> ov_unfinished ov' ! me = ov_unfinished ov ! me"
proof (cases "\<not> started \<and> card (ov_unfinished ov ! me) < c")
  case True
  then have p: "ov_pending ov = rs" "mset (ov_results ov) = res0" using assms(5) by (simp_all add: launched_def)
  have "overlap_ok ov" using assms(4) by (simp add: framed_def)
  then obtain ov' where ov': "nxt ov = (Inr (), ov')" "undisturbed ov ov'" "ov_pending ov' = []"
      "mset (ov_results ov') = mset (ov_results ov) + mset xs"
    using assms(1-3) p unfolding runs_all_def by blast
  with True p framed_undisturbed [OF assms(4) ov'(2)] show ?thesis
    by (intro exI [of _ True] exI [of _ ov']) (simp add: maybe_start_next_def launched_def)
next
  case False
  then have "maybe_start_next nxt c me started ov = (Inr started, ov)" by (auto simp: maybe_start_next_def)
  with assms(4,5) show ?thesis by blast
qed

lemma play_completes:
  assumes "runs_all nxt n" and "list_all2 completes rs xs" and "length rs \<le> n"
    and base: "\<forall>i \<in> set (ov_active base). i < length (ov_unfinished base)"
  shows "framed base me ov \<Longrightarrow> launched rs xs res0 started ov \<Longrightarrow>
    distinct (finished_tasks evs) \<Longrightarrow> set (finished_tasks evs) = ov_unfinished ov ! me \<Longrightarrow>
    \<exists>started' ov'. play_events nxt c me evs started ov = (Inr started', ov') \<and> framed base me ov' \<and>
      launched rs xs res0 started' ov' \<and> ov_unfinished ov' ! me = {}"
proof (induction evs arbitrary: started ov)
  case (Cons ev evs)
  show ?case
  proof (cases ev)
    case RunStarted
    from maybe_start_launches [OF assms(1-3) Cons.prems(1,2), of c] obtain st1 ov1 where
        m: "maybe_start_next nxt c me started ov = (Inr st1, ov1)" "framed base me ov1" "launched rs xs res0 st1 ov1"
        "ov_unfinished ov1 ! me = ov_unfinished ov ! me" by blast
    from Cons.IH [OF m(2,3)] Cons.prems(3,4) m(1,4) RunStarted show ?thesis by simp
  next
    case (TaskFinished t)
    then have t: "t \<in> ov_unfinished ov ! me" "t \<notin> set (finished_tasks evs)" "distinct (finished_tasks evs)"
        "set (finished_tasks evs) = ov_unfinished ov ! me - {t}"
      using Cons.prems(3,4) by auto
    let ?ov = "ov\<lparr>ov_unfinished := (ov_unfinished ov)[me := ov_unfinished ov ! me - {t}]\<rparr>"
    have f: "framed base me ?ov" by (rule framed_finish [OF Cons.prems(1) t(1) base])
    have l: "launched rs xs res0 started ?ov" using Cons.prems(2) by (simp add: launched_def)
    have me: "ov_unfinished ?ov ! me = ov_unfinished ov ! me - {t}"
      using Cons.prems(1) by (simp add: framed_def)
    from maybe_start_launches [OF assms(1-3) f l, of c] obtain st1 ov1 where
        m: "maybe_start_next nxt c me started ?ov = (Inr st1, ov1)" "framed base me ov1" "launched rs xs res0 st1 ov1"
        "ov_unfinished ov1 ! me = ov_unfinished ?ov ! me" by blast
    have "set (finished_tasks evs) = ov_unfinished ov1 ! me" using m(4) me t(4) by simp
    from Cons.IH [OF m(2,3) t(3) this] m(1) t(1) TaskFinished show ?thesis by simp
  qed
qed simp

lemma run_enters:
  assumes "overlap_ok ov"
  shows "framed ov (length (ov_unfinished ov))
    (ov\<lparr>ov_pending := rs, ov_unfinished := ov_unfinished ov @ [s], ov_active := ov_active ov @ [length (ov_unfinished ov)]\<rparr>)"
proof -
  have "image_mset ((!) (ov_unfinished ov @ [s])) (mset (ov_active ov)) = image_mset ((!) (ov_unfinished ov)) (mset (ov_active ov))"
    using assms by (intro image_mset_cong) (auto simp: overlap_ok_def nth_append)
  moreover have "{i \<in> set (ov_active ov). (ov_unfinished ov @ [s]) ! i \<noteq> {}} = busy ov"
    using assms by (auto simp: overlap_ok_def nth_append busy_def)
  ultimately show ?thesis
    using assms by (auto simp: framed_def contents_def busy_def overlap_ok_def nth_append)
qed

lemma run_leaves:
  assumes "framed base me ov" and "ov_unfinished ov ! me = {}" and "overlap_ok base"
  shows "\<exists>ov'. leave_active me ov = (Inr (), ov') \<and> undisturbed base ov' \<and> ov_pending ov' = ov_pending ov \<and>
    ov_results ov' = ov_results ov"
proof -
  let ?h = "ov_unfinished ov"
  have "{} \<in># contents ov" using assms(1,2) by (simp add: framed_def)
  then have mem: "{} \<in> (!) ?h ` set (ov_active ov)" by (auto simp: contents_def)
  have "distinct (ov_active ov)" using assms(1) by (simp add: framed_def overlap_ok_def)
  from remove_equal_some [OF mem this] obtain is' j where r: "remove_equal ?h {} (ov_active ov) = Some is'"
      "j \<in> set (ov_active ov)" "?h ! j = {}" "set is' = set (ov_active ov) - {j}" "distinct is'"
      "mset (map ((!) ?h) (ov_active ov)) = add_mset {} (mset (map ((!) ?h) is'))" by blast
  let ?ov = "ov\<lparr>ov_active := is'\<rparr>"
  have "contents ?ov = contents base" using r(6) assms(1,2) by (simp add: contents_def framed_def)
  moreover have "busy ?ov = busy ov" using r(3,4) by (auto simp: busy_def)
  then have "busy ?ov = busy base" using assms(1,2) by (simp add: framed_def)
  moreover have "overlap_ok ?ov" using r(4,5) assms(1) by (auto simp: overlap_ok_def framed_def)
  ultimately have "undisturbed base ?ov" using assms(1) by (auto simp: undisturbed_def framed_def)
  then show ?thesis using r(1) assms(2) by (simp add: leave_active_def)
qed

lemma undisturbed_trans: "undisturbed a b \<Longrightarrow> undisturbed b c \<Longrightarrow> undisturbed a c"
  by (auto simp: undisturbed_def)

lemma undisturbed_results: "undisturbed a b \<Longrightarrow> undisturbed a (b\<lparr>ov_results := r\<rparr>)"
  by (simp add: undisturbed_def contents_def busy_def overlap_ok_def)

lemma framed_results: "framed base me ov \<Longrightarrow> framed base me (ov\<lparr>ov_results := r\<rparr>)"
  by (simp add: framed_def contents_def busy_def overlap_ok_def)

lemma run_next_runs_all: "runs_all (run_next n) n"
proof (induction n)
  case 0
  show ?case by (auto simp: runs_all_def undisturbed_def)
next
  case (Suc n)
  show ?case unfolding runs_all_def
  proof (intro allI impI)
    fix ov xs
    assume ok: "overlap_ok ov" and len: "length (ov_pending ov) \<le> Suc n" and all: "list_all2 completes (ov_pending ov) xs"
    show "\<exists>ov'. run_next (Suc n) ov = (Inr (), ov') \<and> undisturbed ov ov' \<and> ov_pending ov' = [] \<and>
        mset (ov_results ov') = mset (ov_results ov) + mset xs"
    proof (cases "ov_pending ov")
      case Nil
      with all ok show ?thesis by (auto simp: undisturbed_def)
    next
      case (Cons r rs)
      with all obtain x ys where xs: "xs = x # ys" "completes r x" "list_all2 completes rs ys"
        by (auto simp: list_all2_Cons1)
      have rs: "length rs \<le> n" using len Cons by simp
      let ?me = "length (ov_unfinished ov)"
      let ?ov1 = "ov\<lparr>ov_pending := rs, ov_unfinished := ov_unfinished ov @ [set (sr_panel r)], ov_active := ov_active ov @ [?me]\<rparr>"
      obtain evs fin where b: "sr_behaviour r (run_order ov (sr_panel r)) = (evs, fin)" by (rule prod.exhaust)
      have "distinct (run_order ov (sr_panel r))" using xs(2) run_order_distinct by (simp add: completes_def)
      then have ended: "fin = EvalDone x" "distinct (finished_tasks evs)" "set (finished_tasks evs) = set (sr_panel r)"
        using xs(2) b unfolding completes_def by (metis run_order_set fst_conv snd_conv)+
      have base: "\<forall>i \<in> set (ov_active ov). i < length (ov_unfinished ov)" using ok by (simp add: overlap_ok_def)
      have l0: "launched rs ys (mset (ov_results ov)) False ?ov1" by (simp add: launched_def)
      have "set (finished_tasks evs) = ov_unfinished ?ov1 ! ?me" using ended(3) by simp
      from play_completes [OF Suc.IH xs(3) rs base run_enters [OF ok] l0 ended(2) this, of "sr_concurrency r"]
      obtain started ov2 where pl: "play_events (run_next n) (sr_concurrency r) ?me evs False ?ov1 = (Inr started, ov2)"
          "framed ov ?me ov2" "launched rs ys (mset (ov_results ov)) started ov2" "ov_unfinished ov2 ! ?me = {}"
        by blast
      let ?ov3 = "ov2\<lparr>ov_results := ov_results ov2 @ [x]\<rparr>"
      obtain ov4 where lv: "leave_active ?me ?ov3 = (Inr (), ov4)" "undisturbed ov ov4" "ov_pending ov4 = ov_pending ov2"
          "ov_results ov4 = ov_results ov2 @ [x]"
        using run_leaves [OF framed_results [OF pl(2)] _ ok, of "ov_results ov2 @ [x]"] pl(4) by auto
      have step: "run_next (Suc n) ov = (if started then (Inr (), ov4) else run_next n ov4)"
        using Cons b pl(1) ended(1) lv(1) by (simp add: settle_end_def Let_def)
      show ?thesis
      proof (cases started)
        case True
        with step lv pl(3) xs(1) show ?thesis by (simp add: launched_def)
      next
        case False
        then have p4: "ov_pending ov4 = rs" "mset (ov_results ov4) = add_mset x (mset (ov_results ov))"
          using pl(3) lv(3,4) by (simp_all add: launched_def)
        have "overlap_ok ov4" using lv(2) by (simp add: undisturbed_def)
        then obtain ov5 where "run_next n ov4 = (Inr (), ov5)" "undisturbed ov4 ov5" "ov_pending ov5 = []"
            "mset (ov_results ov5) = mset (ov_results ov4) + mset ys"
          using Suc.IH p4(1) rs xs(3) unfolding runs_all_def by blast
        with step False p4(2) xs(1) undisturbed_trans [OF lv(2)] show ?thesis by auto
      qed
    qed
  qed
qed

lemma overlapping_completes:
  assumes "list_all2 completes runs xs"
  shows "\<exists>ys. run_overlapping runs = Inr (False, ys) \<and> mset ys = mset xs"
proof -
  let ?ov = "\<lparr>ov_pending = runs, ov_unfinished = [], ov_active = [], ov_results = [], ov_failed = False\<rparr>"
  have "overlap_ok ?ov" by (simp add: overlap_ok_def)
  then obtain ov' where "run_next (length runs) ?ov = (Inr (), ov')" "undisturbed ?ov ov'" "mset (ov_results ov') = mset xs"
    using run_next_runs_all [of "length runs"] assms unfolding runs_all_def
    by (metis (no_types, lifting) add_0 mset.simps(1) order_refl overlap.select_convs(1) overlap.select_convs(4))
  then show ?thesis by (auto simp: run_overlapping_def undisturbed_def)
qed

text \<open>
  C38. Overlapping runs are all run. When every run reports each task of its panel once, in whatever order
  it is given them, and has a result, then all of them are launched, however their callbacks nest, no
  bookkeeping fails, and exactly their results are collected.
\<close>

theorem overlapping_runs_collected:
  assumes "list_all2 completes runs xs"
  shows "\<exists>ys. run_overlapping runs = Inr (False, ys) \<and> mset ys = mset xs"
  using assms by (rule overlapping_completes)

definition smooth_run :: "string list \<Rightarrow> nat \<Rightarrow> experiment_result \<Rightarrow> scheduled_run" where
  "smooth_run panel concurrency x =
     \<lparr>sr_panel = panel, sr_concurrency = concurrency,
      sr_behaviour = (\<lambda>order. (RunStarted # map TaskFinished order, EvalDone x))\<rparr>"

lemma finished_map [simp]: "finished_tasks (map TaskFinished ts) = ts"
  by (induction ts) simp_all

lemma smooth_completes: "distinct panel \<Longrightarrow> completes (smooth_run panel c x) x"
  by (simp add: completes_def smooth_run_def)

theorem overlapping_runs_collected_witness:
  "\<exists>ys. run_overlapping [smooth_run [''a'', ''b''] 2 (sample_run ''r'' ''c'' []), smooth_run [''b''] 1 (sample_run ''s'' ''c'' [])] =
      Inr (False, ys) \<and> mset ys = {#sample_run ''r'' ''c'' [], sample_run ''s'' ''c'' []#}"
  using overlapping_runs_collected [of "[smooth_run [''a'', ''b''] 2 (sample_run ''r'' ''c'' []), smooth_run [''b''] 1 (sample_run ''s'' ''c'' [])]"
      "[sample_run ''r'' ''c'' [], sample_run ''s'' ''c'' []]"] smooth_completes by simp

text \<open>
  Which run is removed from the list of active ones is decided by value, and that loses a run: when a
  run fails while it has the same tasks left as the run it was started from, the other one's set is
  taken out of the list; at its own, successful end that run finds no set equal to its own, and the
  \<open>ValueError\<close> ends the whole evaluation with its result lost.
\<close>

theorem equal_remainders_lose_run:
  "run_overlapping
     [smooth_run [''a'', ''b''] 2 x,
      \<lparr>sr_panel = [''a'', ''b''], sr_concurrency = 2,
       sr_behaviour = (\<lambda>order. ([RunStarted, TaskFinished ''a''], EvalFailed None))\<rparr>] =
   Inl (ValueError ''list.remove(x): x not in list'')"
proof -
  let ?failing = "\<lparr>sr_panel = [''a'', ''b''], sr_concurrency = 2,
       sr_behaviour = (\<lambda>order :: string list. ([RunStarted, TaskFinished ''a''], EvalFailed None))\<rparr>"
  have order0: "run_order \<lparr>ov_pending = ps, ov_unfinished = [], ov_active = [], ov_results = [], ov_failed = False\<rparr> [''a'', ''b''] = [''a'', ''b'']" for ps
    by (simp add: run_order_def active_conflicts_def)
  have inner: "run_next 1 \<lparr>ov_pending = [?failing], ov_unfinished = [{''b''}], ov_active = [0], ov_results = [], ov_failed = False\<rparr> =
      (Inr (), \<lparr>ov_pending = [], ov_unfinished = [{''b''}, {''b''}], ov_active = [1], ov_results = [], ov_failed = True\<rparr>)"
    by (simp add: maybe_start_next_def settle_end_def leave_active_def Let_def)
  show ?thesis
    using inner by (simp add: run_overlapping_def order0 smooth_run_def maybe_start_next_def settle_end_def leave_active_def Let_def eval_nat_numeral)
qed

end
