(* ===== verification/AgentTurn.thy ===== *)
theory AgentTurn
  imports Replay Store Trainer
begin

text \<open>
  \<open>src/llm/agent_backend.py\<close> and \<open>src/trainer/estimator.py\<close>: one turn of a coding agent as a process whose
  event stream is read line by line, for either command line tool; and the two tasks the trainer
  gives such an agent, proposing a candidate and rewriting the learning memo. The agent is a
  parameter: the lines it prints, its exit, and what it does to the worktree.
\<close>

section \<open>Events\<close>

record cli_event =
  ae_category :: "string option"
  ae_thread_id :: "string option"
  ae_failed :: bool
  ae_failure_message :: "string option"

definition plain_event :: cli_event where
  "plain_event = \<lparr>ae_category = None, ae_thread_id = None, ae_failed = False, ae_failure_message = None\<rparr>"

type_synonym members = "(string \<times> json) list"

fun as_str :: "json option \<Rightarrow> string option" where
  "as_str (Some (JStr t)) = Some t"
| "as_str _ = None"

definition parse_json_line :: "(string \<Rightarrow> string + json) \<Rightarrow> string \<Rightarrow> members option" where
  "parse_json_line loads raw_line =
     (if strip_ws raw_line = [] then None
      else case loads (strip_ws raw_line) of
             Inr (JObj ms) \<Rightarrow> Some ms
           | _ \<Rightarrow> None)"

definition error_message :: "members \<Rightarrow> string option" where
  "error_message payload =
     (case map_of payload ''error'' of
        Some (JObj err) \<Rightarrow>
          (case as_str (map_of err ''message'') of Some m \<Rightarrow> Some m | None \<Rightarrow> as_str (map_of payload ''message''))
      | _ \<Rightarrow> as_str (map_of payload ''message''))"

definition codex_event :: "members \<Rightarrow> cli_event" where
  "codex_event payload =
     (let event_type = map_of payload ''type''
      in if event_type = Some (JStr ''thread.started'')
         then plain_event\<lparr>ae_thread_id := as_str (map_of payload ''thread_id'')\<rparr>
         else if event_type = Some (JStr ''turn.completed'') then plain_event
         else if event_type = Some (JStr ''turn.failed'')
         then plain_event\<lparr>ae_failed := True, ae_failure_message := error_message payload\<rparr>
         else case map_of payload ''item'' of
                Some (JObj item) \<Rightarrow>
                  (let kind = map_of item ''type''
                   in if kind = Some (JStr ''command_execution'') \<and> event_type = Some (JStr ''item.started'')
                      then plain_event\<lparr>ae_category := Some ''cmd''\<rparr>
                      else if kind = Some (JStr ''file_change'') \<and> event_type = Some (JStr ''item.completed'')
                      then plain_event\<lparr>ae_category := Some ''edit''\<rparr>
                      else if kind = Some (JStr ''agent_message'') \<and> event_type = Some (JStr ''item.completed'')
                      then plain_event\<lparr>ae_category := Some ''msg''\<rparr>
                      else plain_event)
              | _ \<Rightarrow> plain_event)"

definition tool_category :: "string \<Rightarrow> string" where
  "tool_category name =
     (if name = ''Bash'' then ''cmd''
      else if name = ''Edit'' \<or> name = ''Write'' \<or> name = ''NotebookEdit'' then ''edit''
      else if name = ''Read'' then ''read'' else ''tool'')"

text \<open>The category of the first block that has one.\<close>

fun block_category :: "json list \<Rightarrow> string option" where
  "block_category [] = None"
| "block_category (JObj b # bs) =
     (if map_of b ''type'' = Some (JStr ''text'')
      then (case as_str (map_of b ''text'') of
              Some t \<Rightarrow> if strip_ws t \<noteq> [] then Some ''msg'' else block_category bs
            | None \<Rightarrow> block_category bs)
      else if map_of b ''type'' = Some (JStr ''tool_use'')
      then Some (tool_category (case as_str (map_of b ''name'') of Some n \<Rightarrow> n | None \<Rightarrow> []))
      else block_category bs)"
| "block_category (_ # bs) = block_category bs"

text \<open>\<open>bool\<close> of a JSON value.\<close>

fun json_truth :: "json option \<Rightarrow> bool" where
  "json_truth None = False"
| "json_truth (Some v) =
     (case v of JNull \<Rightarrow> False | JBool b \<Rightarrow> b | JInt i \<Rightarrow> i \<noteq> 0 | JFloat q \<Rightarrow> q \<noteq> 0 | JStr t \<Rightarrow> t \<noteq> []
      | JArr xs \<Rightarrow> xs \<noteq> [] | JObj ms \<Rightarrow> ms \<noteq> [])"

definition claude_event :: "members \<Rightarrow> cli_event" where
  "claude_event payload =
     (let kind = map_of payload ''type''; subtype = map_of payload ''subtype'';
          session_id = as_str (map_of payload ''session_id'')
      in if kind = Some (JStr ''system'') \<and> subtype = Some (JStr ''init'')
         then plain_event\<lparr>ae_thread_id := session_id\<rparr>
         else if kind = Some (JStr ''assistant'')
         then (case map_of payload ''message'' of
                 Some (JObj m) \<Rightarrow>
                   (case map_of m ''content'' of
                      Some (JArr blocks) \<Rightarrow> plain_event\<lparr>ae_category := block_category blocks\<rparr>
                    | _ \<Rightarrow> plain_event)
               | _ \<Rightarrow> plain_event)
         else if kind = Some (JStr ''result'')
         then (if subtype = Some (JStr ''success'') then plain_event\<lparr>ae_thread_id := session_id\<rparr>
               else \<lparr>ae_category = None, ae_thread_id = session_id,
                     ae_failed = (subtype = Some (JStr ''error'') \<or> json_truth (map_of payload ''is_error'')),
                     ae_failure_message = error_message payload\<rparr>)
         else plain_event)"

section \<open>Progress\<close>

text \<open>The separator is U+00B7.\<close>

definition dot :: string where
  "dot = '' '' @ [CHR 0xB7] @ '' ''"

definition two_digits :: "nat \<Rightarrow> string" where
  "two_digits n = (if n < 10 then ''0'' @ nat_str n else nat_str n)"

definition format_elapsed :: "rat \<Rightarrow> string" where
  "format_elapsed seconds =
     (let tot = nat \<lfloor>seconds\<rfloor>
      in if 3600 \<le> tot then nat_str (tot div 3600) @ ''h'' @ two_digits (tot mod 3600 div 60) @ ''m''
         else if 60 \<le> tot then nat_str (tot div 60) @ ''m'' @ two_digits (tot mod 60) @ ''s''
         else nat_str tot @ ''s'')"

definition METER_NAMES :: "string list" where
  "METER_NAMES = [''read'', ''cmd'', ''edit'', ''tool'', ''msg'']"

text \<open>\<open>counts\<close>: the categories seen, with repetition.\<close>

definition meter_suffix :: "string list \<Rightarrow> rat \<Rightarrow> string" where
  "meter_suffix counts elapsed =
     (let counters = join_str dot (map (\<lambda>n. n @ '' '' @ nat_str (count_list counts n))
            (filter (\<lambda>n. count_list counts n \<noteq> 0) METER_NAMES))
      in if counters \<noteq> [] then format_elapsed elapsed @ dot @ ''agent: '' @ counters else format_elapsed elapsed)"

section \<open>One turn\<close>

definition METER_EVERY_EVENTS :: nat where
  "METER_EVERY_EVENTS = 20"

record turn_state =
  tn_thread :: "string option"
  tn_error :: "cli_event option"
  tn_events :: nat
  tn_counts :: "string list"
  tn_emitted :: "string list"

definition handle_event :: "cli_event \<Rightarrow> rat \<Rightarrow> turn_state \<Rightarrow> turn_state" where
  "handle_event ev elapsed s =
     (let s1 = s\<lparr>tn_events := Suc (tn_events s),
                 tn_counts := tn_counts s @ (case ae_category ev of None \<Rightarrow> [] | Some c \<Rightarrow> [c]),
                 tn_error := (if ae_failed ev then Some ev else tn_error s),
                 tn_thread := (case ae_thread_id ev of None \<Rightarrow> tn_thread s | Some t \<Rightarrow> Some t)\<rparr>
      in if tn_events s1 mod METER_EVERY_EVENTS = 0
         then s1\<lparr>tn_emitted := tn_emitted s1 @ [''running'' @ dot @ meter_suffix (tn_counts s1) elapsed]\<rparr> else s1)"

fun read_stream ::
    "(string \<Rightarrow> string + json) \<Rightarrow> (members \<Rightarrow> cli_event) \<Rightarrow> (string \<times> rat) list \<Rightarrow> turn_state \<Rightarrow> turn_state" where
  "read_stream loads parse [] s = s"
| "read_stream loads parse ((raw_line, elapsed) # ls) s =
     (case parse_json_line loads raw_line of
        None \<Rightarrow>
          read_stream loads parse ls
            (if rstrip_nl raw_line = [] then s else s\<lparr>tn_emitted := tn_emitted s @ [rstrip_nl raw_line]\<rparr>)
      | Some payload \<Rightarrow> read_stream loads parse ls (handle_event (parse payload) elapsed s))"

text \<open>\<open>" ".join(message.split())\<close>.\<close>

fun split_ws :: "string \<Rightarrow> string \<Rightarrow> string list" where
  "split_ws word [] = (if word = [] then [] else [rev word])"
| "split_ws word (c # cs) =
     (if c \<in> set whitespace then (if word = [] then split_ws [] cs else rev word # split_ws [] cs)
      else split_ws (c # word) cs)"

definition failure_detail :: "cli_event option \<Rightarrow> string \<Rightarrow> string" where
  "failure_detail result_error stderr_text =
     (let parts =
        (case result_error of
           None \<Rightarrow> []
         | Some ev \<Rightarrow>
             (case ae_failure_message ev of
                Some m \<Rightarrow> if strip_ws m \<noteq> [] then [''result event error: '' @ join_str '' '' (split_ws [] m)]
                          else [''result event error'']
              | None \<Rightarrow> [''result event error''])) @
        (if strip_ws stderr_text \<noteq> [] then [''stderr:'' @ nl # take_last 1000 stderr_text] else [])
      in if parts = [] then ''no diagnostic output'' else join_str '' | '' parts)"

record cli_turn_result =
  tr_thread_id :: string
  tr_progress_summary :: string

text \<open>A run of the agent's process: the lines with the time each is read at, whether the timer killed it,
  its exit code, what it wrote to stderr, and when it ended.\<close>

record agent_process =
  ap_lines :: "(string \<times> rat) list"
  ap_timed_out :: bool
  ap_returncode :: int
  ap_stderr :: string
  ap_elapsed :: rat

definition run_agent_subprocess ::
    "(string \<Rightarrow> string + json) \<Rightarrow> string \<Rightarrow> (members \<Rightarrow> cli_event) \<Rightarrow> string \<Rightarrow> string option \<Rightarrow> rat \<Rightarrow> agent_process \<Rightarrow>
       (exc + cli_turn_result) \<times> string list" where
  "run_agent_subprocess loads backend_name parse missing_id_label thread_id turn_timeout_sec ap =
     (let s = read_stream loads parse (ap_lines ap)
            \<lparr>tn_thread = thread_id, tn_error = None, tn_events = 0, tn_counts = [], tn_emitted = []\<rparr>
      in ((if ap_timed_out ap
           then Inl (RuntimeError (''agent turn timed out after '' @ fmt0 turn_timeout_sec @ ''s''))
           else if ap_returncode ap \<noteq> 0 \<or> tn_error s \<noteq> None
           then Inl (RuntimeError (backend_name @ '' turn failed (rc='' @ int_str (ap_returncode ap) @ ''): '' @
                  failure_detail (tn_error s) (ap_stderr ap)))
           else case tn_thread s of
                  None \<Rightarrow> Inl (RuntimeError (backend_name @ '' turn did not report a '' @ missing_id_label @ '':'' @ nl #
                    take_last 1000 (ap_stderr ap)))
                | Some t \<Rightarrow> Inr \<lparr>tr_thread_id = t, tr_progress_summary = meter_suffix (tn_counts s) (ap_elapsed ap)\<rparr>),
          tn_emitted s))"

section \<open>The two command lines\<close>

definition opt_args :: "string \<Rightarrow> string option \<Rightarrow> string list" where
  "opt_args flag v = (case v of None \<Rightarrow> [] | Some x \<Rightarrow> [flag, x])"

definition codex_command ::
    "string option \<Rightarrow> string option \<Rightarrow> string \<Rightarrow> string option \<Rightarrow> string \<Rightarrow> string list" where
  "codex_command effort model repo_root thread_id prompt =
     [''codex'', ''exec''] @
     (case effort of None \<Rightarrow> [] | Some e \<Rightarrow> [''-c'', ''model_reasoning_effort='' @ [CHR 0x22] @ e @ [CHR 0x22]]) @
     [''-c'', ''project_doc_max_bytes=0''] @ opt_args ''-m'' model @
     [''--json'', ''-s'', ''workspace-write'', ''-C'', repo_root, ''--skip-git-repo-check''] @
     opt_args ''resume'' thread_id @ [prompt]"

definition claude_command :: "string option \<Rightarrow> string option \<Rightarrow> string option \<Rightarrow> string \<Rightarrow> string list" where
  "claude_command effort model thread_id prompt =
     [''claude'', ''-p'', ''--output-format'', ''stream-json'', ''--verbose'', ''--permission-mode'', ''bypassPermissions''] @
     opt_args ''--model'' model @ opt_args ''--resume'' thread_id @
     [''--effort'', (case effort of None \<Rightarrow> ''xhigh'' | Some e \<Rightarrow> if e = [] then ''xhigh'' else e), prompt]"

text \<open>Session files by their path; \<open>_copy_rollouts\<close> copies those whose name matches, over what is there.\<close>

type_synonym rollouts = "(string list, string) dict"

definition copy_rollouts :: "(string \<Rightarrow> bool) \<Rightarrow> rollouts \<Rightarrow> rollouts \<Rightarrow> rollouts" where
  "copy_rollouts matches source target =
     fold (\<lambda>(p, content). AList.update p content) (filter (\<lambda>(p, _). p \<noteq> [] \<and> matches (last p)) source) target"

definition jsonl_of :: "string option \<Rightarrow> string \<Rightarrow> bool" where
  "jsonl_of thread_id name \<longleftrightarrow>
     Sublist.suffix ''.jsonl'' name \<and>
     (case thread_id of None \<Rightarrow> True
      | Some t \<Rightarrow> list_ex (prefix t) (suffixes (take (length name - length ''.jsonl'') name)))"

text \<open>A codex turn: its home starts with the rollouts of the thread, and what it has at the end goes to the
  trace directory whatever the outcome.\<close>

definition codex_turn ::
    "(rollouts \<Rightarrow> (exc + cli_turn_result) \<times> rollouts) \<Rightarrow> string option \<Rightarrow> rollouts \<Rightarrow> (exc + cli_turn_result) \<times> rollouts" where
  "codex_turn turn thread_id traces =
     (let home = (case thread_id of None \<Rightarrow> [] | Some t \<Rightarrow> copy_rollouts (jsonl_of (Some t)) traces [])
      in case turn home of (r, sessions) \<Rightarrow> (r, copy_rollouts (jsonl_of None) sessions traces))"

text \<open>A backend's settings, and its \<open>run_turn\<close>. \<open>spawn\<close> is the process: its command line, the sessions in its home
  and, when it has ended, what it printed and the sessions it left.\<close>

record agent_settings =
  ag_turn_timeout_sec :: rat
  ag_model :: "string option"
  ag_effort :: "string option"

type_synonym agent_spawn = "string list \<Rightarrow> rollouts \<Rightarrow> agent_process \<times> rollouts"

definition codex_run_turn ::
    "(string \<Rightarrow> string + json) \<Rightarrow> agent_spawn \<Rightarrow> agent_settings \<Rightarrow> string \<Rightarrow> string option \<Rightarrow> string \<Rightarrow> rollouts \<Rightarrow>
       (exc + cli_turn_result) \<times> rollouts" where
  "codex_run_turn loads spawn ag repo_root thread_id prompt traces =
     codex_turn (\<lambda>home. case spawn (codex_command (ag_effort ag) (ag_model ag) repo_root thread_id prompt) home of
         (ap, sessions) \<Rightarrow>
           (fst (run_agent_subprocess loads ''codex'' codex_event ''thread id'' thread_id (ag_turn_timeout_sec ag) ap), sessions))
       thread_id traces"

definition claude_run_turn ::
    "(string \<Rightarrow> string + json) \<Rightarrow> (string list \<Rightarrow> agent_process) \<Rightarrow> agent_settings \<Rightarrow> string option \<Rightarrow> string \<Rightarrow>
       exc + cli_turn_result" where
  "claude_run_turn loads spawn ag thread_id prompt =
     fst (run_agent_subprocess loads ''claude'' claude_event ''session id'' thread_id (ag_turn_timeout_sec ag)
       (spawn (claude_command (ag_effort ag) (ag_model ag) thread_id prompt)))"

text \<open>\<open>_assert_ready\<close>: one bounded turn of a backend like this one, in a scratch directory.\<close>

definition READY_TIMEOUT_SEC :: rat where "READY_TIMEOUT_SEC = 120"
definition READY_PROMPT :: string where "READY_PROMPT = ''Reply with OK. Do not use tools.''"

definition ready_settings :: "agent_settings \<Rightarrow> agent_settings" where
  "ready_settings ag = ag\<lparr>ag_turn_timeout_sec := READY_TIMEOUT_SEC, ag_effort := Some ''low''\<rparr>"

definition codex_ready ::
    "(string \<Rightarrow> string + json) \<Rightarrow> agent_spawn \<Rightarrow> agent_settings \<Rightarrow> string \<Rightarrow> exc + unit" where
  "codex_ready loads spawn ag scratch =
     map_sum id (\<lambda>_. ()) (fst (codex_run_turn loads spawn (ready_settings ag) scratch None READY_PROMPT []))"

definition claude_ready ::
    "(string \<Rightarrow> string + json) \<Rightarrow> (string list \<Rightarrow> agent_process) \<Rightarrow> agent_settings \<Rightarrow> exc + unit" where
  "claude_ready loads spawn ag = map_sum id (\<lambda>_. ()) (claude_run_turn loads spawn (ready_settings ag) None READY_PROMPT)"

section \<open>The estimator\<close>

definition LEARNING_MEMO_MAX_LINES :: nat where
  "LEARNING_MEMO_MAX_LINES = 150"

definition MAX_DIAGNOSIS_ATTEMPTS :: nat where
  "MAX_DIAGNOSIS_ATTEMPTS = 2"

text \<open>A worktree as its files, by their paths in it. \<open>sx_experiment\<close> and \<open>sx_index\<close> are the texts of the
  store's files; an index without rows has no file.\<close>

type_synonym worktree = "(string, string) dict"

record store_text =
  sx_experiment :: "experiment_result \<Rightarrow> string"
  sx_index :: "run_index_row list \<Rightarrow> string"

definition learning_path :: string where "learning_path = ''experiments/learning.md''"
definition runs_index_path :: string where "runs_index_path = ''experiments/runs.jsonl''"
definition experiment_path :: "string \<Rightarrow> string" where
  "experiment_path i = ''experiments/'' @ i @ ''/experiment.json''"
definition draft_path :: string where "draft_path = ''experiments/learning.draft.md''"

definition stage_file :: "string \<Rightarrow> string option \<Rightarrow> worktree \<Rightarrow> worktree" where
  "stage_file path content w = (case content of None \<Rightarrow> w | Some c \<Rightarrow> AList.update path c w)"

definition stage_reads :: "store_text \<Rightarrow> run_store \<Rightarrow> string option \<Rightarrow> worktree \<Rightarrow> worktree" where
  "stage_reads sx st experiment_id w =
     (let w1 = stage_file learning_path (st_learning st) w;
          w2 = stage_file runs_index_path (if st_index st = [] then None else Some (sx_index sx (st_index st))) w1
      in case experiment_id of
           None \<Rightarrow> w2
         | Some i \<Rightarrow> stage_file (experiment_path i) (map_option (sx_experiment sx) (map_of (st_experiments st) i)) w2)"

text \<open>\<open>turn\<close> is the backend's \<open>run_turn\<close>: prompt, thread to resume, worktree.\<close>

type_synonym agent_backend = "string \<Rightarrow> string option \<Rightarrow> worktree \<Rightarrow> (exc + cli_turn_result) \<times> worktree"

definition init_estimator :: "(exc + unit) \<Rightarrow> exc + unit" where
  "init_estimator ready =
     (case ready of
        Inl (RuntimeError m) \<Rightarrow> Inl (OtherError ''PreflightError'' (''estimator agent backend is not ready: '' @ m))
      | Inl (FileNotFoundError m) \<Rightarrow> Inl (OtherError ''PreflightError'' (''estimator agent backend is not ready: '' @ m))
      | r \<Rightarrow> r)"

definition squoted :: "string \<Rightarrow> string" where
  "squoted t = CHR 0x27 # t @ [CHR 0x27]"

text \<open>The dash of the prompts, in UTF-8.\<close>

definition em_dash :: string where
  "em_dash = [CHR 0xE2, CHR 0x80, CHR 0x94]"

definition in_root :: "string \<Rightarrow> string \<Rightarrow> string" where
  "in_root repo_root path = repo_root @ ''/'' @ path"

definition propose_prompt :: "string \<Rightarrow> training_target \<Rightarrow> string" where
  "propose_prompt repo_root target = join_nl
     [''Autonomous candidate proposal phase.'',
      ''Read program.md; you are the proposer '' @ em_dash @ '' your role is its '' @ squoted ''Propose'' @ '' and '' @
        squoted ''Patch'' @ '' steps in the '' @ squoted ''One cycle'' @
        '' section (diagnose the prior run, then put one bounded candidate patch in the working tree).'',
      ''Editable files (machine-enforced): '' @ join_str '', '' (patch_paths target) @ ''. The candidate MUST change '' @
        surface target @ ''.'',
      ''Read these authoritative files now:'',
      ''- '' @ in_root repo_root ''program.md'',
      ''- '' @ in_root repo_root learning_path,
      ''- '' @ in_root repo_root runs_index_path,
      [],
      ''Before stopping, run the test command program.md'' @ [CHR 0x27] @ ''s '' @ squoted ''Patch'' @
        '' step names and keep it green.'',
      ''Stop once the candidate patch is present in the working tree and that test passes.'']"

definition diagnose_prompt :: "string \<Rightarrow> training_target \<Rightarrow> string \<Rightarrow> string option \<Rightarrow> string" where
  "diagnose_prompt repo_root target experiment_id feedback_note = join_nl
     ([''Autonomous post-run diagnosis phase.'',
       ''Read program.md; you are the diagnoser '' @ em_dash @ '' your role is its '' @ squoted ''Diagnose'' @
         '' step in the '' @ squoted ''One cycle'' @
         '' section (rewrite the learning memo from the concluded run, per the method and sections described there).'',
       ''The editable policy surface under training is '' @ surface target @ ''.'',
       ''Read these authoritative files now:'',
       ''- '' @ in_root repo_root ''program.md'',
       ''- '' @ in_root repo_root (experiment_path experiment_id),
       ''- '' @ in_root repo_root runs_index_path,
       ''- '' @ in_root repo_root learning_path,
       [],
       ''Write the full rewritten learning memo to: '' @ in_root repo_root draft_path,
       ''Keep it non-empty and at most '' @ nat_str LEARNING_MEMO_MAX_LINES @ '' lines.''] @
      (case feedback_note of None \<Rightarrow> []
       | Some fb \<Rightarrow> [[], ''Supervisor feedback from the previous diagnosis turn:'', fb]))"

text \<open>Besides the outcome: the estimator's own progress lines, by stage.\<close>

definition propose_turn ::
    "agent_backend \<Rightarrow> store_text \<Rightarrow> string \<Rightarrow> training_target \<Rightarrow> run_store \<Rightarrow> worktree \<Rightarrow>
       (exc + unit) \<times> (string \<times> string) list \<times> worktree" where
  "propose_turn turn sx repo_root target st w =
     (case turn (propose_prompt repo_root target) None (stage_reads sx st None w) of
        (Inl e, w') \<Rightarrow> (Inl e, [], w')
      | (Inr t, w') \<Rightarrow> (Inr (), [(''propose'', ''done'' @ dot @ tr_progress_summary t)], w'))"

definition diagnosis_rejection :: "string \<Rightarrow> string option \<Rightarrow> string option" where
  "diagnosis_rejection path draft =
     (case draft of
        None \<Rightarrow> Some (''write the full rewritten learning memo to '' @ path)
      | Some memo \<Rightarrow>
          (if strip_ws memo = [] then Some ''learning draft is empty''
           else if LEARNING_MEMO_MAX_LINES < length (splitlines memo)
           then Some (''learning draft is '' @ nat_str (length (splitlines memo)) @ '' lines, over the '' @
                  nat_str LEARNING_MEMO_MAX_LINES @ ''-line limit'')
           else None))"

fun diagnosis_attempts ::
    "agent_backend \<Rightarrow> string \<Rightarrow> training_target \<Rightarrow> string \<Rightarrow> nat \<Rightarrow> string option \<Rightarrow> string option \<Rightarrow>
       run_store \<times> worktree \<Rightarrow> (exc + string) \<times> run_store \<times> worktree" where
  "diagnosis_attempts turn repo_root target i 0 thread_id feedback_note sw =
     (Inl (RuntimeError (''diagnosis memo rejected after '' @ nat_str MAX_DIAGNOSIS_ATTEMPTS @ '' attempts: '' @
        (case feedback_note of None \<Rightarrow> ''None'' | Some fb \<Rightarrow> fb))), sw)"
| "diagnosis_attempts turn repo_root target i (Suc left) thread_id feedback_note (st, w) =
     (case turn (diagnose_prompt repo_root target i feedback_note) thread_id w of
        (Inl e, w') \<Rightarrow> (Inl e, st, w')
      | (Inr t, w') \<Rightarrow>
          (case diagnosis_rejection (in_root repo_root draft_path) (map_of w' draft_path) of
             Some fb \<Rightarrow> diagnosis_attempts turn repo_root target i left (Some (tr_thread_id t)) (Some fb) (st, w')
           | None \<Rightarrow> (Inr (tr_progress_summary t), publish_learning st (the (map_of w' draft_path)), w')))"

definition diagnose_turn ::
    "agent_backend \<Rightarrow> store_text \<Rightarrow> string \<Rightarrow> training_target \<Rightarrow> experiment_result \<Rightarrow> run_store \<times> worktree \<Rightarrow>
       (exc + unit) \<times> (string \<times> string) list \<times> run_store \<times> worktree" where
  "diagnose_turn turn sx repo_root target result sw =
     (case sw of (st, w) \<Rightarrow>
        (case diagnosis_attempts turn repo_root target (ex_experiment_id result) MAX_DIAGNOSIS_ATTEMPTS None None
                (st, stage_reads sx st (Some (ex_experiment_id result)) w) of
           (Inl e, sw') \<Rightarrow> (Inl e, [], sw')
         | (Inr summary, sw') \<Rightarrow> (Inr (), [(''diagnose'', ''done'' @ dot @ summary)], sw')))"

section \<open>Facts\<close>

text \<open>A turn succeeds only for a process that was not killed, exited cleanly and reported no failure; its
  thread is the last one reported, or the one that was resumed.\<close>

definition events_of :: "(string \<Rightarrow> string + json) \<Rightarrow> (members \<Rightarrow> cli_event) \<Rightarrow> (string \<times> rat) list \<Rightarrow> cli_event list" where
  "events_of loads parse ls = map parse (List.map_filter (\<lambda>l. parse_json_line loads (fst l)) ls)"

definition last_thread :: "cli_event list \<Rightarrow> string option \<Rightarrow> string option" where
  "last_thread evs t = fold (\<lambda>ev t. case ae_thread_id ev of None \<Rightarrow> t | Some u \<Rightarrow> Some u) evs t"

lemma handle_event_state:
  "tn_thread (handle_event ev e s) = last_thread [ev] (tn_thread s)"
  "tn_error (handle_event ev e s) = (if ae_failed ev then Some ev else tn_error s)"
  by (auto simp: handle_event_def last_thread_def Let_def)

lemma read_stream_thread:
  "tn_thread (read_stream loads parse ls s) = last_thread (events_of loads parse ls) (tn_thread s)"
  by (induction loads parse ls s rule: read_stream.induct)
    (auto simp: events_of_def last_thread_def map_filter_simps handle_event_state split: option.splits)

lemma read_stream_error:
  "tn_error (read_stream loads parse ls s) = None \<longleftrightarrow>
     tn_error s = None \<and> (\<forall>ev \<in> set (events_of loads parse ls). \<not> ae_failed ev)"
  by (induction loads parse ls s rule: read_stream.induct)
    (auto simp: events_of_def map_filter_simps handle_event_state split: option.splits)

lemma turn_succeeds:
  "(\<exists>summary. fst (run_agent_subprocess loads name parse label thread_id limit ap) =
      Inr \<lparr>tr_thread_id = t, tr_progress_summary = summary\<rparr>) \<longleftrightarrow>
   \<not> ap_timed_out ap \<and> ap_returncode ap = 0 \<and> (\<forall>ev \<in> set (events_of loads parse (ap_lines ap)). \<not> ae_failed ev) \<and>
   last_thread (events_of loads parse (ap_lines ap)) thread_id = Some t"
proof -
  let ?s = "read_stream loads parse (ap_lines ap)
      \<lparr>tn_thread = thread_id, tn_error = None, tn_events = 0, tn_counts = [], tn_emitted = []\<rparr>"
  have "tn_thread ?s = last_thread (events_of loads parse (ap_lines ap)) thread_id"
      "tn_error ?s = None \<longleftrightarrow> (\<forall>ev \<in> set (events_of loads parse (ap_lines ap)). \<not> ae_failed ev)"
    by (simp_all add: read_stream_thread read_stream_error)
  then show ?thesis
    by (simp add: run_agent_subprocess_def Let_def split: option.splits)
qed

text \<open>A backend counts as ready exactly if its probe ended in time, exited with 0, failed nowhere and named a
  session of its own; anything else stops the estimator before it is built.\<close>

definition clean_turn :: "(string \<Rightarrow> string + json) \<Rightarrow> (members \<Rightarrow> cli_event) \<Rightarrow> agent_process \<Rightarrow> bool" where
  "clean_turn loads parse ap \<longleftrightarrow> \<not> ap_timed_out ap \<and> ap_returncode ap = 0 \<and>
     (\<forall>ev \<in> set (events_of loads parse (ap_lines ap)). \<not> ae_failed ev) \<and>
     last_thread (events_of loads parse (ap_lines ap)) None \<noteq> None"

lemma turn_clean:
  "(\<exists>r. fst (run_agent_subprocess loads name parse label None limit ap) = Inr r) \<longleftrightarrow> clean_turn loads parse ap"
proof -
  have "(\<exists>r. fst (run_agent_subprocess loads name parse label None limit ap) = Inr r) \<longleftrightarrow>
    (\<exists>t summary. fst (run_agent_subprocess loads name parse label None limit ap) =
       Inr \<lparr>tr_thread_id = t, tr_progress_summary = summary\<rparr>)"
    by (metis cli_turn_result.cases)
  then show ?thesis unfolding turn_succeeds clean_turn_def by blast
qed

lemma agents_ready:
  "codex_ready loads spawn ag scratch = Inr () \<longleftrightarrow>
     clean_turn loads codex_event (fst (spawn (codex_command (Some ''low'') (ag_model ag) scratch None READY_PROMPT) []))"
  "claude_ready loads launch ag = Inr () \<longleftrightarrow>
     clean_turn loads claude_event (launch (claude_command (Some ''low'') (ag_model ag) None READY_PROMPT))"
proof -
  have settled: "map_sum id (\<lambda>_. ()) (r :: exc + cli_turn_result) = Inr () \<longleftrightarrow> (\<exists>x. r = Inr x)" for r
    by (cases r) auto
  show "codex_ready loads spawn ag scratch = Inr () \<longleftrightarrow>
     clean_turn loads codex_event (fst (spawn (codex_command (Some ''low'') (ag_model ag) scratch None READY_PROMPT) []))"
    by (simp add: codex_ready_def codex_run_turn_def codex_turn_def ready_settings_def settled turn_clean split: prod.splits)
  show "claude_ready loads launch ag = Inr () \<longleftrightarrow>
     clean_turn loads claude_event (launch (claude_command (Some ''low'') (ag_model ag) None READY_PROMPT))"
    by (simp add: claude_ready_def claude_run_turn_def ready_settings_def settled turn_clean)
qed

text \<open>Nothing a codex turn writes is lost, and a resumed thread finds what the trace directory holds of it.\<close>

lemma copy_rollouts_lookup:
  assumes "distinct (map fst source)"
  shows "map_of (copy_rollouts matches source target) p =
    (case map_of source p of Some c \<Rightarrow> if p \<noteq> [] \<and> matches (last p) then Some c else map_of target p | None \<Rightarrow> map_of target p)"
  using assms
proof (induction source arbitrary: target)
  case Nil
  show ?case by (simp add: copy_rollouts_def)
next
  case (Cons e source)
  obtain q c where e: "e = (q, c)" by (rule prod.exhaust)
  let ?t = "if q \<noteq> [] \<and> matches (last q) then AList.update q c target else target"
  have "copy_rollouts matches (e # source) target = copy_rollouts matches source ?t"
    by (simp add: copy_rollouts_def e)
  moreover have "q = p \<Longrightarrow> map_of source p = None"
    using Cons.prems by (auto simp: e map_of_eq_None_iff image_iff)
  ultimately show ?case using Cons by (auto simp: e dict_simps split: option.splits)
qed

lemma codex_rollouts_survive:
  assumes "codex_turn turn thread_id traces = (r, traces')"
    and "turn (case thread_id of None \<Rightarrow> [] | Some t \<Rightarrow> copy_rollouts (jsonl_of (Some t)) traces []) = (r', sessions)"
    and "distinct (map fst sessions)"
  shows "r = r' \<and> (\<forall>p c. map_of sessions p = Some c \<longrightarrow> p \<noteq> [] \<longrightarrow> Sublist.suffix ''.jsonl'' (last p) \<longrightarrow> map_of traces' p = Some c) \<and>
    (\<forall>p. map_of sessions p = None \<longrightarrow> map_of traces' p = map_of traces p)"
  using assms(1,2) copy_rollouts_lookup [OF assms(3), of "jsonl_of None" traces]
  by (simp add: codex_turn_def Let_def jsonl_of_def)

text \<open>The memo on record after a diagnosis is a draft the rule accepts; a diagnosis that raises publishes
  nothing.\<close>

definition memo_accepted :: "string \<Rightarrow> bool" where
  "memo_accepted memo \<longleftrightarrow> strip_ws memo \<noteq> [] \<and> length (splitlines memo) \<le> LEARNING_MEMO_MAX_LINES"

lemma rejection_None: "diagnosis_rejection path draft = None \<longleftrightarrow> (\<exists>memo. draft = Some memo \<and> memo_accepted memo)"
  by (auto simp: diagnosis_rejection_def memo_accepted_def split: option.splits)

definition published :: "run_store \<Rightarrow> run_store \<Rightarrow> worktree \<Rightarrow> bool" where
  "published st st' w \<longleftrightarrow> (\<exists>memo. map_of w draft_path = Some memo \<and> memo_accepted memo \<and> st' = publish_learning st memo)"

lemma attempts_publish:
  "diagnosis_attempts turn root_dir target i n thread_id fb (st, w) = (r, st', w') \<Longrightarrow>
     (if isl r then st' = st else published st st' w')"
proof (induction n arbitrary: thread_id fb st w)
  case 0
  then show ?case by auto
next
  case (Suc n)
  obtain r1 w1 where t: "turn (diagnose_prompt root_dir target i fb) thread_id w = (r1, w1)" by (rule prod.exhaust)
  show ?case
  proof (cases r1)
    case (Inl e)
    with Suc.prems t show ?thesis by auto
  next
    case (Inr u)
    show ?thesis
    proof (cases "diagnosis_rejection (in_root root_dir draft_path) (map_of w1 draft_path)")
      case None
      with Suc.prems t Inr show ?thesis by (auto simp: rejection_None published_def)
    next
      case (Some why)
      with Suc.prems t Inr have "diagnosis_attempts turn root_dir target i n (Some (tr_thread_id u)) (Some why) (st, w1) = (r, st', w')"
        by simp
      then show ?thesis by (rule Suc.IH)
    qed
  qed
qed

lemma diagnosis_publishes:
  assumes "diagnose_turn turn sx root_dir target result (st, w) = (r, lines, st', w')"
  shows "if isl r then st' = st else published st st' w'"
proof -
  let ?w = "stage_reads sx st (Some (ex_experiment_id result)) w"
  obtain q st1 w1 where a: "diagnosis_attempts turn root_dir target (ex_experiment_id result) MAX_DIAGNOSIS_ATTEMPTS None None (st, ?w) =
      (q, st1, w1)" by (rule prod_cases3)
  with assms attempts_publish [OF a] show ?thesis by (auto simp: diagnose_turn_def split: sum.splits)
qed

end
