(* ===== verification/Concurrency.thy ===== *)
theory Concurrency
  imports Prelude
begin

text \<open>
  \<open>src/concurrency.py\<close>: the limiter that admits task rollouts by CPU load, as a step relation. The tasks
  are the coroutines that enter it; a step is what one of them does between two suspensions. Time
  passes and the load is read between steps; a task may be cancelled wherever it is suspended.
\<close>

section \<open>The state\<close>

definition CPU_TARGET_PERCENT :: rat where "CPU_TARGET_PERCENT = 85"
definition ADMISSION_INTERVAL_SEC :: rat where "ADMISSION_INTERVAL_SEC = 5"

text \<open>Where a task is: outside, waiting for a slot, holding one and waiting for the admission lock, reading
  the load under the lock, sleeping until a time under the lock, or running.\<close>

datatype phase =
    Outside
  | AwaitingSlot
  | AwaitingLock
  | Sampling
  | Sleeping rat
  | Admitted

record limiter =
  lm_slots :: nat
  lm_lock :: "nat option"
  lm_active :: nat
  lm_last_admission :: rat
  lm_now :: rat
  lm_phases :: "phase list"

definition new_limiter :: "nat \<Rightarrow> nat \<Rightarrow> rat \<Rightarrow> limiter" where
  "new_limiter limit tasks now =
     \<lparr>lm_slots = limit, lm_lock = None, lm_active = 0, lm_last_admission = 0, lm_now = now,
      lm_phases = replicate tasks Outside\<rparr>"

definition set_phase :: "nat \<Rightarrow> phase \<Rightarrow> limiter \<Rightarrow> limiter" where
  "set_phase t p s = s\<lparr>lm_phases := (lm_phases s)[t := p]\<rparr>"

definition in_phase :: "limiter \<Rightarrow> nat \<Rightarrow> phase \<Rightarrow> bool" where
  "in_phase s t p \<longleftrightarrow> t < length (lm_phases s) \<and> lm_phases s ! t = p"

section \<open>The steps\<close>

text \<open>The end of \<open>__aenter__\<close>: counted, stamped, the lock released.\<close>

definition admitted :: "nat \<Rightarrow> limiter \<Rightarrow> limiter" where
  "admitted t s =
     (set_phase t Admitted s)\<lparr>lm_active := lm_active s + 1, lm_last_admission := lm_now s, lm_lock := None\<rparr>"

text \<open>Leaving the gate: the load is not asked for when nothing runs; then the stagger.\<close>

definition gate_open :: "limiter \<Rightarrow> rat \<Rightarrow> bool" where
  "gate_open s cpu \<longleftrightarrow> lm_active s = 0 \<or> cpu < CPU_TARGET_PERCENT"

definition pass_gate :: "nat \<Rightarrow> limiter \<Rightarrow> limiter" where
  "pass_gate t s =
     (let delay = lm_last_admission s + ADMISSION_INTERVAL_SEC - lm_now s
      in if 0 < delay then set_phase t (Sleeping (lm_now s + delay)) s else admitted t s)"

text \<open>\<open>__aexit__\<close>, and the release on an exception inside \<open>__aenter__\<close>.\<close>

definition leave :: "nat \<Rightarrow> limiter \<Rightarrow> limiter" where
  "leave t s = (set_phase t Outside s)\<lparr>lm_active := lm_active s - 1, lm_slots := lm_slots s + 1\<rparr>"

definition abandon :: "nat \<Rightarrow> limiter \<Rightarrow> limiter" where
  "abandon t s =
     (set_phase t Outside s)\<lparr>lm_slots := lm_slots s + 1,
        lm_lock := (if lm_lock s = Some t then None else lm_lock s)\<rparr>"

inductive limiter_step :: "limiter \<Rightarrow> limiter \<Rightarrow> bool" where
  Enter: "in_phase s t Outside \<Longrightarrow> limiter_step s (set_phase t AwaitingSlot s)"
| TakeSlot: "in_phase s t AwaitingSlot \<Longrightarrow> 0 < lm_slots s \<Longrightarrow>
    limiter_step s ((set_phase t AwaitingLock s)\<lparr>lm_slots := lm_slots s - 1\<rparr>)"
| TakeLock: "in_phase s t AwaitingLock \<Longrightarrow> lm_lock s = None \<Longrightarrow>
    limiter_step s ((set_phase t Sampling s)\<lparr>lm_lock := Some t\<rparr>)"
| Gate: "in_phase s t Sampling \<Longrightarrow> gate_open s cpu \<Longrightarrow> limiter_step s (pass_gate t s)"
| Busy: "in_phase s t Sampling \<Longrightarrow> \<not> gate_open s cpu \<Longrightarrow> limiter_step s s"
| Wake: "in_phase s t (Sleeping u) \<Longrightarrow> u \<le> lm_now s \<Longrightarrow> limiter_step s (admitted t s)"
| Exit: "in_phase s t Admitted \<Longrightarrow> limiter_step s (leave t s)"
| CancelEarly: "in_phase s t AwaitingSlot \<Longrightarrow> limiter_step s (set_phase t Outside s)"
| CancelLate: "in_phase s t p \<Longrightarrow> p = AwaitingLock \<or> p = Sampling \<or> (\<exists>u. p = Sleeping u) \<Longrightarrow> limiter_step s (abandon t s)"
| Tick: "lm_now s \<le> now \<Longrightarrow> limiter_step s (s\<lparr>lm_now := now\<rparr>)"

inductive_cases limiter_stepE: "limiter_step s s'"

section \<open>The lock of a task\<close>

text \<open>The file of a key: every character outside the safe set becomes an underscore.\<close>

definition lock_char :: "char \<Rightarrow> bool" where
  "lock_char c \<longleftrightarrow> c \<in> set ''ABCDEFGHIJKLMNOPQRSTUVWXYZabcdefghijklmnopqrstuvwxyz0123456789._-''"

definition task_lock_file :: "string \<Rightarrow> string" where
  "task_lock_file key = map (\<lambda>c. if lock_char c then c else CHR ''_'') key @ ''.lock''"

text \<open>Two locks exclude each other wherever their keys agree, and the file never leaves its directory.\<close>

lemma task_lock_file_safe: "CHR ''/'' \<notin> set (task_lock_file key)"
proof -
  have "\<not> lock_char (CHR ''/'')" by (simp add: lock_char_def)
  then show ?thesis by (auto simp: task_lock_file_def)
qed

lemma task_lock_file_exact:
  "list_all lock_char a \<Longrightarrow> list_all lock_char b \<Longrightarrow> task_lock_file a = task_lock_file b \<longleftrightarrow> a = b"
proof -
  have "map (\<lambda>c. if lock_char c then c else CHR ''_'') a = a" if "list_all lock_char a" for a
    using that by (induction a) auto
  then show "list_all lock_char a \<Longrightarrow> list_all lock_char b \<Longrightarrow> task_lock_file a = task_lock_file b \<longleftrightarrow> a = b"
    by (simp add: task_lock_file_def)
qed

section \<open>The invariant\<close>

fun holds_slot :: "phase \<Rightarrow> bool" where
  "holds_slot Outside = False"
| "holds_slot AwaitingSlot = False"
| "holds_slot _ = True"

fun holds_lock :: "phase \<Rightarrow> bool" where
  "holds_lock Sampling = True"
| "holds_lock (Sleeping _) = True"
| "holds_lock _ = False"

definition tally :: "(phase \<Rightarrow> bool) \<Rightarrow> limiter \<Rightarrow> nat" where
  "tally P s = length (filter P (lm_phases s))"

definition limiter_inv :: "nat \<Rightarrow> limiter \<Rightarrow> bool" where
  "limiter_inv limit s \<longleftrightarrow>
     lm_slots s + tally holds_slot s = limit \<and>
     lm_active s = tally (\<lambda>p. p = Admitted) s \<and>
     (\<forall>t < length (lm_phases s). holds_lock (lm_phases s ! t) \<longleftrightarrow> lm_lock s = Some t) \<and>
     (\<forall>t. lm_lock s = Some t \<longrightarrow> t < length (lm_phases s)) \<and>
     (\<forall>t u. in_phase s t (Sleeping u) \<longrightarrow> lm_last_admission s + ADMISSION_INTERVAL_SEC \<le> u)"

lemma filter_update:
  "t < length xs \<Longrightarrow>
     length (filter P (xs[t := v])) + (if P (xs ! t) then 1 else 0) = length (filter P xs) + (if P v then 1 else 0)"
proof (induction xs arbitrary: t)
  case (Cons x xs)
  then show ?case by (cases t) auto
qed simp

lemma tally_set_phase:
  "in_phase s t p \<Longrightarrow> tally P (set_phase t q s) + (if P p then 1 else 0) = tally P s + (if P q then 1 else 0)"
  using filter_update [of t "lm_phases s" P q] by (auto simp: tally_def set_phase_def in_phase_def)

lemma inv_new: "limiter_inv limit (new_limiter limit n now)"
  by (auto simp: limiter_inv_def new_limiter_def tally_def in_phase_def)

text \<open>Moving one task: what has to be checked.\<close>

lemma inv_move:
  assumes "limiter_inv limit s" and "in_phase s t p" and "lm_phases s' = (lm_phases s)[t := q]"
    and "lm_slots s' + (if holds_slot q then 1 else 0) = lm_slots s + (if holds_slot p then 1 else 0)"
    and "lm_active s' + (if p = Admitted then 1 else 0) = lm_active s + (if q = Admitted then 1 else 0)"
    and "lm_lock s' = (if holds_lock q then Some t else if holds_lock p then None else lm_lock s)"
    and "holds_lock q \<longrightarrow> lm_lock s = None \<or> lm_lock s = Some t"
    and "lm_last_admission s' = lm_last_admission s \<or> holds_lock p"
    and "\<forall>u. q = Sleeping u \<longrightarrow> lm_last_admission s' + ADMISSION_INTERVAL_SEC \<le> u"
  shows "limiter_inv limit s'"
proof -
  have t: "t < length (lm_phases s)" "lm_phases s ! t = p" using assms(2) by (simp_all add: in_phase_def)
  have c: "tally P s' + (if P p then 1 else 0) = tally P s + (if P q then 1 else 0)" for P
    using tally_set_phase [OF assms(2), of P q] assms(3) by (simp add: tally_def set_phase_def)
  note inv = assms(1) [unfolded limiter_inv_def]
  have "lm_slots s' + tally holds_slot s' = limit"
    using inv assms(4) c [of holds_slot] by (auto split: if_splits)
  moreover have "lm_active s' = tally (\<lambda>p. p = Admitted) s'"
    using inv assms(5) c [of "\<lambda>p. p = Admitted"] by (auto split: if_splits)
  moreover have owner: "holds_lock (lm_phases s ! i) \<longleftrightarrow> lm_lock s = Some i" if "i < length (lm_phases s)" for i
    using inv that by blast
  have "holds_lock (lm_phases s' ! i) \<longleftrightarrow> lm_lock s' = Some i" if "i < length (lm_phases s')" for i
    using that owner [of i] owner [of t] t assms(3,6,7) by (auto simp: nth_list_update split: if_splits)
  moreover have "i < length (lm_phases s')" if "lm_lock s' = Some i" for i
    using that inv assms(3,6) t(1) by (auto split: if_splits)
  moreover have "lm_last_admission s' + ADMISSION_INTERVAL_SEC \<le> u" if "in_phase s' i (Sleeping u)" for i u
  proof (cases "i = t")
    case True
    with that t assms(3,9) show ?thesis by (auto simp: in_phase_def)
  next
    case False
    then have i: "in_phase s i (Sleeping u)" using that assms(3) by (auto simp: in_phase_def)
    then have "lm_lock s = Some i" using owner [of i] by (auto simp: in_phase_def)
    then have "\<not> holds_lock p" using owner [of t] t False by auto
    with i inv assms(8) show ?thesis by auto
  qed
  ultimately show ?thesis unfolding limiter_inv_def by blast
qed

lemma inv_step:
  assumes "limiter_step s s'" and "limiter_inv limit s"
  shows "limiter_inv limit s'"
  using assms(1)
proof cases
  case (Enter t)
  show ?thesis
    by (rule inv_move [OF assms(2) Enter(2), where q = AwaitingSlot]) (auto simp: set_phase_def Enter(1))
next
  case (TakeSlot t)
  show ?thesis
    by (rule inv_move [OF assms(2) TakeSlot(2), where q = AwaitingLock]) (use TakeSlot(3) in \<open>auto simp: set_phase_def TakeSlot(1)\<close>)
next
  case (TakeLock t)
  show ?thesis
    by (rule inv_move [OF assms(2) TakeLock(2), where q = Sampling]) (auto simp: set_phase_def TakeLock(1,3))
next
  case (Gate t cpu)
  then have "lm_lock s = Some t" using assms(2) by (auto simp: limiter_inv_def in_phase_def)
  then show ?thesis
    by (intro inv_move [OF assms(2) Gate(2), where q = "if 0 < lm_last_admission s + ADMISSION_INTERVAL_SEC - lm_now s
          then Sleeping (lm_last_admission s + ADMISSION_INTERVAL_SEC) else Admitted"])
      (auto simp: pass_gate_def set_phase_def admitted_def Let_def Gate(1))
next
  case (Wake t u)
  show ?thesis
    by (rule inv_move [OF assms(2) Wake(2), where q = Admitted]) (auto simp: set_phase_def admitted_def Wake(1))
next
  case (Exit t)
  then have "filter (\<lambda>p. p = Admitted) (lm_phases s) \<noteq> []"
    by (auto simp: in_phase_def filter_empty_conv in_set_conv_nth)
  then have "0 < lm_active s" using assms(2) by (simp add: limiter_inv_def tally_def)
  then show ?thesis
    by (intro inv_move [OF assms(2) Exit(2), where q = Outside]) (auto simp: set_phase_def leave_def Exit(1))
next
  case (CancelEarly t)
  show ?thesis
    by (rule inv_move [OF assms(2) CancelEarly(2), where q = Outside]) (auto simp: set_phase_def CancelEarly(1))
next
  case (CancelLate t p)
  then have "holds_lock p \<longleftrightarrow> lm_lock s = Some t" using assms(2) by (auto simp: limiter_inv_def in_phase_def)
  with CancelLate(3) show ?thesis
    by (intro inv_move [OF assms(2) CancelLate(2), where q = Outside]) (auto simp: set_phase_def abandon_def CancelLate(1))
next
  case (Tick now)
  with assms(2) show ?thesis by (simp add: limiter_inv_def tally_def in_phase_def)
qed (use assms(2) in simp)

lemma inv_reachable:
  "limiter_step\<^sup>*\<^sup>* (new_limiter limit n now) s \<Longrightarrow> limiter_inv limit s"
  by (induction rule: rtranclp_induct) (auto intro: inv_new inv_step)

lemma tally_le: "(\<And>p. P p \<Longrightarrow> Q p) \<Longrightarrow> tally P s \<le> tally Q s"
proof -
  assume PQ: "\<And>p. P p \<Longrightarrow> Q p"
  have "length (filter P xs) \<le> length (filter Q xs)" for xs by (induction xs) (auto dest: PQ)
  then show ?thesis by (simp add: tally_def)
qed

text \<open>An admission: a step that makes a task run.\<close>

definition admission :: "nat \<Rightarrow> limiter \<Rightarrow> limiter \<Rightarrow> bool" where
  "admission t s s' \<longleftrightarrow> limiter_step s s' \<and> \<not> in_phase s t Admitted \<and> in_phase s' t Admitted"

lemma admission_spaced:
  assumes "limiter_inv limit s" and "admission t s s'"
  shows "lm_active s' = lm_active s + 1 \<and> lm_active s' \<le> limit \<and>
    lm_last_admission s + ADMISSION_INTERVAL_SEC \<le> lm_last_admission s' \<and> lm_last_admission s' = lm_now s \<and> lm_lock s = Some t"
proof -
  have step: "limiter_step s s'" and out: "\<not> in_phase s t Admitted" and ins: "in_phase s' t Admitted"
    using assms(2) by (simp_all add: admission_def)
  have inv': "limiter_inv limit s'" by (rule inv_step [OF step assms(1)])
  have "tally (\<lambda>p. p = Admitted) s' \<le> tally holds_slot s'" by (rule tally_le) auto
  then have "lm_active s' \<le> limit" using inv' by (simp add: limiter_inv_def)
  moreover have "lm_active s' = lm_active s + 1 \<and> lm_last_admission s' = lm_now s \<and>
      lm_last_admission s + ADMISSION_INTERVAL_SEC \<le> lm_now s \<and> lm_lock s = Some t"
    using step
  proof cases
    case (Gate i cpu)
    then have "i = t" using out ins by (auto simp: pass_gate_def set_phase_def admitted_def in_phase_def nth_list_update Let_def split: if_splits)
    moreover have "lm_lock s = Some i" using Gate assms(1) by (auto simp: limiter_inv_def in_phase_def)
    ultimately show ?thesis using Gate out ins
      by (auto simp: pass_gate_def set_phase_def admitted_def in_phase_def nth_list_update Let_def split: if_splits)
  next
    case (Wake i u)
    then have "i = t" using out ins by (auto simp: set_phase_def admitted_def in_phase_def nth_list_update split: if_splits)
    moreover have "lm_lock s = Some i" "lm_last_admission s + ADMISSION_INTERVAL_SEC \<le> u"
      using Wake assms(1) by (auto simp: limiter_inv_def in_phase_def)
    ultimately show ?thesis using Wake by (auto simp: set_phase_def admitted_def)
  qed (use out ins in \<open>auto simp: set_phase_def leave_def abandon_def in_phase_def nth_list_update split: if_splits\<close>)
  ultimately show ?thesis by simp
qed

text \<open>Nobody waits for nothing: where a task waits and none runs, another step leads towards its admission.\<close>

lemma limiter_progress:
  assumes "limiter_inv limit s" and "0 < limit" and "in_phase s t p" and "p \<noteq> Outside" and "p \<noteq> Admitted"
  shows "(\<exists>i. in_phase s i Admitted) \<or> (\<exists>i q. in_phase s i q \<and> (q = AwaitingSlot \<and> 0 < lm_slots s \<or> q = AwaitingLock \<and> lm_lock s = None \<or>
     q = Sampling \<and> gate_open s 100 \<or> (\<exists>u. q = Sleeping u)))"
proof -
  have running: "\<exists>i. in_phase s i Admitted" if "lm_active s \<noteq> 0"
  proof -
    have "filter (\<lambda>p. p = Admitted) (lm_phases s) \<noteq> []" using that assms(1) by (auto simp: limiter_inv_def tally_def)
    then show ?thesis by (auto simp: filter_empty_conv in_set_conv_nth in_phase_def)
  qed
  have owner: "holds_lock (lm_phases s ! i) \<longleftrightarrow> lm_lock s = Some i" if "i < length (lm_phases s)" for i
    using assms(1) that by (simp add: limiter_inv_def)
  have locked: ?thesis if "in_phase s i q" "holds_lock q" for i q
  proof (cases q)
    case Sampling
    with that running show ?thesis by (cases "lm_active s = 0") (auto simp: gate_open_def)
  qed (use that in auto)
  have slotted: ?thesis if "in_phase s i q" "holds_slot q" for i q
  proof (cases q)
    case AwaitingLock
    show ?thesis
    proof (cases "lm_lock s")
      case None
      with that AwaitingLock show ?thesis by blast
    next
      case (Some j)
      then have j: "j < length (lm_phases s)" using assms(1) by (simp add: limiter_inv_def)
      with Some owner have "holds_lock (lm_phases s ! j)" by blast
      with j show ?thesis using locked [of j "lm_phases s ! j"] by (simp add: in_phase_def)
    qed
  qed (use that locked in auto)
  show ?thesis
  proof (cases "p = AwaitingSlot \<and> lm_slots s = 0")
    case True
    then have "filter holds_slot (lm_phases s) \<noteq> []" using assms(1,2) by (auto simp: limiter_inv_def tally_def)
    then obtain i where "i < length (lm_phases s)" "holds_slot (lm_phases s ! i)"
      by (auto simp: filter_empty_conv in_set_conv_nth)
    then show ?thesis using slotted [of i "lm_phases s ! i"] by (simp add: in_phase_def)
  next
    case False
    with assms(3-5) slotted [of t p] show ?thesis by (cases p) auto
  qed
qed

lemma limiter_controlled:
  assumes "limiter_step\<^sup>*\<^sup>* (new_limiter limit n now) s" and "0 < limit"
  shows "lm_active s = tally (\<lambda>p. p = Admitted) s \<and> lm_active s \<le> limit \<and>
    (\<forall>t s'. admission t s s' \<longrightarrow> lm_active s' \<le> limit \<and> lm_lock s = Some t \<and>
       lm_last_admission s + ADMISSION_INTERVAL_SEC \<le> lm_last_admission s') \<and>
    (\<forall>t p. in_phase s t p \<longrightarrow> p \<noteq> Outside \<longrightarrow> p \<noteq> Admitted \<longrightarrow>
       (\<exists>i. in_phase s i Admitted) \<or>
       (\<exists>i q. in_phase s i q \<and> (q = AwaitingSlot \<and> 0 < lm_slots s \<or> q = AwaitingLock \<and> lm_lock s = None \<or>
          q = Sampling \<and> gate_open s 100 \<or> (\<exists>u. q = Sleeping u))))"
proof -
  note inv = inv_reachable [OF assms(1)]
  have "tally (\<lambda>p. p = Admitted) s \<le> tally holds_slot s" by (rule tally_le) auto
  then have "lm_active s = tally (\<lambda>p. p = Admitted) s \<and> lm_active s \<le> limit"
    using inv by (simp add: limiter_inv_def)
  with admission_spaced [OF inv] limiter_progress [OF inv assms(2)] show ?thesis by blast
qed

text \<open>
  C40. The limiter holds its ceiling and its pace. However the tasks enter, wait, leave and are cancelled, and
  whatever the load: the count of running tasks is exact and never above the ceiling, a task starts
  only under the admission lock and at least five seconds after the last start, and while one waits and
  none runs, some waiting task can go on, whatever the load.
\<close>

theorem limiter_admits_in_turn:
  assumes "limiter_step\<^sup>*\<^sup>* (new_limiter limit n now) s" and "0 < limit"
  shows "lm_active s = tally (\<lambda>p. p = Admitted) s \<and> lm_active s \<le> limit \<and>
    (\<forall>t s'. admission t s s' \<longrightarrow> lm_active s' \<le> limit \<and> lm_lock s = Some t \<and>
       lm_last_admission s + ADMISSION_INTERVAL_SEC \<le> lm_last_admission s') \<and>
    (\<forall>t p. in_phase s t p \<longrightarrow> p \<noteq> Outside \<longrightarrow> p \<noteq> Admitted \<longrightarrow>
       (\<exists>i. in_phase s i Admitted) \<or>
       (\<exists>i q. in_phase s i q \<and> (q = AwaitingSlot \<and> 0 < lm_slots s \<or> q = AwaitingLock \<and> lm_lock s = None \<or>
          q = Sampling \<and> gate_open s 100 \<or> (\<exists>u. q = Sleeping u))))"
  using assms by (rule limiter_controlled)

theorem limiter_admits_in_turn_witness:
  "\<exists>s s'. limiter_step\<^sup>*\<^sup>* (new_limiter 1 2 0) s \<and> in_phase s 1 AwaitingSlot \<and> admission 0 s s' \<and>
     lm_active s' = 1 \<and> lm_last_admission s' = 5"
proof -
  let ?s = "\<lambda>ps l k now. \<lparr>lm_slots = k, lm_lock = l, lm_active = 0, lm_last_admission = 0, lm_now = now, lm_phases = ps\<rparr>"
  have "limiter_step (new_limiter 1 2 0) (?s [AwaitingSlot, Outside] None 1 0)"
    using limiter_step.Enter [of "new_limiter 1 2 0" 0] by (simp add: new_limiter_def in_phase_def set_phase_def numeral_2_eq_2)
  moreover have "limiter_step (?s [AwaitingSlot, Outside] None 1 0) (?s [AwaitingSlot, AwaitingSlot] None 1 0)"
    using limiter_step.Enter [of "?s [AwaitingSlot, Outside] None 1 0" 1] by (simp add: in_phase_def set_phase_def)
  moreover have "limiter_step (?s [AwaitingSlot, AwaitingSlot] None 1 0) (?s [AwaitingLock, AwaitingSlot] None 0 0)"
    using limiter_step.TakeSlot [of "?s [AwaitingSlot, AwaitingSlot] None 1 0" 0] by (simp add: in_phase_def set_phase_def)
  moreover have "limiter_step (?s [AwaitingLock, AwaitingSlot] None 0 0) (?s [Sampling, AwaitingSlot] (Some 0) 0 0)"
    using limiter_step.TakeLock [of "?s [AwaitingLock, AwaitingSlot] None 0 0" 0] by (simp add: in_phase_def set_phase_def)
  moreover have "limiter_step (?s [Sampling, AwaitingSlot] (Some 0) 0 0) (?s [Sleeping 5, AwaitingSlot] (Some 0) 0 0)"
    using limiter_step.Gate [of "?s [Sampling, AwaitingSlot] (Some 0) 0 0" 0 0]
    by (simp add: in_phase_def set_phase_def gate_open_def pass_gate_def ADMISSION_INTERVAL_SEC_def)
  moreover have "limiter_step (?s [Sleeping 5, AwaitingSlot] (Some 0) 0 0) (?s [Sleeping 5, AwaitingSlot] (Some 0) 0 5)"
    using limiter_step.Tick [of "?s [Sleeping 5, AwaitingSlot] (Some 0) 0 0" 5] by simp
  ultimately have reach: "limiter_step\<^sup>*\<^sup>* (new_limiter 1 2 0) (?s [Sleeping 5, AwaitingSlot] (Some 0) 0 5)"
    by (meson converse_rtranclp_into_rtranclp rtranclp.rtrancl_refl)
  let ?s' = "admitted 0 (?s [Sleeping 5, AwaitingSlot] (Some 0) 0 5)"
  have adm: "admission 0 (?s [Sleeping 5, AwaitingSlot] (Some 0) 0 5) ?s'"
    using limiter_step.Wake [of "?s [Sleeping 5, AwaitingSlot] (Some 0) 0 5" 0 5]
    by (simp add: admission_def in_phase_def admitted_def set_phase_def)
  have "lm_active ?s' \<le> 1 \<and> 0 + ADMISSION_INTERVAL_SEC \<le> lm_last_admission ?s'"
    using limiter_admits_in_turn [OF reach] adm by fastforce
  then have "lm_active ?s' = 1 \<and> lm_last_admission ?s' = 5" by (simp add: admitted_def set_phase_def)
  with reach adm show ?thesis by (intro exI conjI) (auto simp: in_phase_def)
qed

end
