(* ===== verification/Regex.thy ===== *)
theory Regex
  imports Scrub
begin

text \<open>
  The part of Python's \<open>re\<close> that the scrubber of \<open>src/determinism.py\<close> uses: patterns as a datatype,
  the backtracking matcher as the list of its outcomes in the order it tries them, \<open>search\<close>,
  \<open>fullmatch\<close> and \<open>sub\<close>. A cursor is the text before it, reversed, and the text after it, so
  look-behinds and word edges are local. The matcher is proved equal to a relational semantics;
  what a pattern of the program matches is then argued on relations, and what the matcher does
  first on the uniqueness of the end. Characters are code points below 256, for which the classes
  below are those of Python.
\<close>

section \<open>Patterns\<close>

type_synonym cursor = "string \<times> string"
type_synonym groups = "(nat \<times> string) list"
type_synonym rx_state = "cursor \<times> groups"

datatype rx =
    Empty
  | Cls "char \<Rightarrow> bool"
  | Cat rx rx
  | Or rx rx
  | Rep nat "nat option" rx
  | Grp nat rx
  | Ahead rx
  | NotAhead rx
  | Behind "(char \<Rightarrow> bool) list"
  | NotBehind "(char \<Rightarrow> bool) list"
  | WordEdge
  | LineStart
  | LineEnd
  | TextStart

definition between :: "nat \<Rightarrow> nat \<Rightarrow> char \<Rightarrow> bool" where
  "between lo hi c \<longleftrightarrow> lo \<le> of_char c \<and> of_char c \<le> hi"

definition digit_class :: "char \<Rightarrow> bool" where
  "digit_class c \<longleftrightarrow> between 48 57 c"

definition space_class :: "char \<Rightarrow> bool" where
  "space_class c \<longleftrightarrow> c \<in> set whitespace"

definition lower_class :: "char \<Rightarrow> bool" where
  "lower_class c \<longleftrightarrow> between 97 122 c"

definition upper_class :: "char \<Rightarrow> bool" where
  "upper_class c \<longleftrightarrow> between 65 90 c"

text \<open>\<open>\w\<close>: letters, decimals, digits and numerics of Latin-1, and the underscore.\<close>

definition word_class :: "char \<Rightarrow> bool" where
  "word_class c \<longleftrightarrow> lower_class c \<or> upper_class c \<or> digit_class c \<or> c = CHR ''_'' \<or>
     of_char c \<in> {0xAA, 0xB2, 0xB3, 0xB5, 0xB9, 0xBA, 0xBC, 0xBD, 0xBE :: nat} \<or>
     between 0xC0 0xD6 c \<or> between 0xD8 0xF6 c \<or> between 0xF8 0xFF c"

definition hex_class :: "char \<Rightarrow> bool" where
  "hex_class c \<longleftrightarrow> digit_class c \<or> between 97 102 c \<or> between 65 70 c"

definition one_of :: "string \<Rightarrow> char \<Rightarrow> bool" where
  "one_of s c \<longleftrightarrow> c \<in> set s"

fun cats :: "rx list \<Rightarrow> rx" where
  "cats [] = Empty"
| "cats [r] = r"
| "cats (r # rs) = Cat r (cats rs)"

fun ors :: "rx list \<Rightarrow> rx" where
  "ors [] = Empty"
| "ors [r] = r"
| "ors (r # rs) = Or r (ors rs)"

definition lit :: "string \<Rightarrow> rx" where
  "lit s = cats (map (\<lambda>c. Cls (\<lambda>d. d = c)) s)"

text \<open>A literal under \<open>re.IGNORECASE\<close>.\<close>

definition lit_ci :: "string \<Rightarrow> rx" where
  "lit_ci s = cats (map (\<lambda>c. Cls (\<lambda>d. lower_char d = lower_char c)) s)"

definition star_of :: "rx \<Rightarrow> rx" where "star_of = Rep 0 None"
definition plus_of :: "rx \<Rightarrow> rx" where "plus_of = Rep 1 None"
definition opt_of :: "rx \<Rightarrow> rx" where "opt_of = Rep 0 (Some 1)"
definition times_of :: "nat \<Rightarrow> rx \<Rightarrow> rx" where "times_of n = Rep n (Some n)"
definition digits_of :: rx where "digits_of = plus_of (Cls digit_class)"
definition digits_up_to :: "nat \<Rightarrow> rx" where "digits_up_to n = Rep 1 (Some n) (Cls digit_class)"
definition spaces :: rx where "spaces = plus_of (Cls space_class)"
definition maybe_spaces :: rx where "maybe_spaces = star_of (Cls space_class)"
definition non_spaces :: rx where "non_spaces = plus_of (Cls (\<lambda>c. \<not> space_class c))"

section \<open>The matcher\<close>

definition shorter :: "cursor \<Rightarrow> cursor \<Rightarrow> bool" where
  "shorter c' c \<longleftrightarrow> length (snd c') < length (snd c)"

definition behind_ok :: "(char \<Rightarrow> bool) list \<Rightarrow> cursor \<Rightarrow> bool" where
  "behind_ok ps c \<longleftrightarrow> list_all2 (\<lambda>p d. p d) (rev ps) (take (length ps) (fst c))"

definition wordy :: "string \<Rightarrow> bool" where
  "wordy s \<longleftrightarrow> (case s of [] \<Rightarrow> False | c # _ \<Rightarrow> word_class c)"

definition word_edge :: "cursor \<Rightarrow> bool" where
  "word_edge c \<longleftrightarrow> wordy (fst c) \<noteq> wordy (snd c)"

definition at_nl :: "string \<Rightarrow> bool" where
  "at_nl s \<longleftrightarrow> (case s of [] \<Rightarrow> True | c # _ \<Rightarrow> c = nl)"

definition consumed :: "cursor \<Rightarrow> cursor \<Rightarrow> string" where
  "consumed c c' = take (length (snd c) - length (snd c')) (snd c)"

text \<open>
  Greedy repetition: another round first, the end after it. A round that consumes nothing is not
  repeated, so the length of the rest bounds the rounds.
\<close>

fun reps :: "(rx_state \<Rightarrow> rx_state list) \<Rightarrow> nat \<Rightarrow> nat \<Rightarrow> nat option \<Rightarrow> rx_state \<Rightarrow> rx_state list" where
  "reps f 0 lo hi s = (if lo = 0 then [s] else [])"
| "reps f (Suc k) lo hi s =
     (if hi = Some 0 then []
      else concat (map (\<lambda>s'. if shorter (fst s') (fst s) then reps f k (lo - 1) (map_option (\<lambda>h. h - 1) hi) s' else [])
        (f s))) @ (if lo = 0 then [s] else [])"

primrec outcomes :: "rx \<Rightarrow> rx_state \<Rightarrow> rx_state list" where
  "outcomes Empty s = [s]"
| "outcomes (Cls p) s =
     (case snd (fst s) of [] \<Rightarrow> [] | c # cs \<Rightarrow> if p c then [((c # fst (fst s), cs), snd s)] else [])"
| "outcomes (Cat r q) s = concat (map (outcomes q) (outcomes r s))"
| "outcomes (Or r q) s = outcomes r s @ outcomes q s"
| "outcomes (Rep lo hi r) s = reps (outcomes r) (length (snd (fst s))) lo hi s"
| "outcomes (Grp n r) s = map (\<lambda>s'. (fst s', (n, consumed (fst s) (fst s')) # snd s')) (outcomes r s)"
| "outcomes (Ahead r) s = (case outcomes r s of [] \<Rightarrow> [] | s' # _ \<Rightarrow> [(fst s, snd s')])"
| "outcomes (NotAhead r) s = (if outcomes r s = [] then [s] else [])"
| "outcomes (Behind ps) s = (if behind_ok ps (fst s) then [s] else [])"
| "outcomes (NotBehind ps) s = (if behind_ok ps (fst s) then [] else [s])"
| "outcomes WordEdge s = (if word_edge (fst s) then [s] else [])"
| "outcomes LineStart s = (if at_nl (fst (fst s)) then [s] else [])"
| "outcomes LineEnd s = (if at_nl (snd (fst s)) then [s] else [])"
| "outcomes TextStart s = (if fst (fst s) = [] then [s] else [])"

definition match_at :: "rx \<Rightarrow> cursor \<Rightarrow> rx_state option" where
  "match_at r c = (case outcomes r (c, []) of [] \<Rightarrow> None | s # _ \<Rightarrow> Some s)"

definition full_match :: "rx \<Rightarrow> string \<Rightarrow> bool" where
  "full_match r t \<longleftrightarrow> list_ex (\<lambda>s. snd (fst s) = []) (outcomes r (([], t), []))"

fun search_from :: "rx \<Rightarrow> string \<Rightarrow> string \<Rightarrow> bool" where
  "search_from r b [] \<longleftrightarrow> match_at r (b, []) \<noteq> None"
| "search_from r b (c # cs) \<longleftrightarrow> match_at r (b, c # cs) \<noteq> None \<or> search_from r (c # b) cs"

definition re_search :: "rx \<Rightarrow> string \<Rightarrow> bool" where
  "re_search r t = search_from r [] t"

text \<open>\<open>pattern.sub\<close>: leftmost matches, each after the end of the one before it.\<close>

function sub_from :: "rx \<Rightarrow> (string \<Rightarrow> groups \<Rightarrow> string) \<Rightarrow> string \<Rightarrow> string \<Rightarrow> string" where
  "sub_from r f b a =
     (case match_at r (b, a) of
        Some (c, g) \<Rightarrow>
          (if shorter c (b, a) then f (consumed (b, a) c) g @ sub_from r f (fst c) (snd c)
           else case a of [] \<Rightarrow> [] | x # xs \<Rightarrow> x # sub_from r f (x # b) xs)
      | None \<Rightarrow> (case a of [] \<Rightarrow> [] | x # xs \<Rightarrow> x # sub_from r f (x # b) xs))"
  by pat_completeness auto
termination by (relation "measure (\<lambda>(r, f, b, a). length a)") (auto simp: shorter_def)

declare sub_from.simps [simp del]

datatype piece = Lit string | Ref nat

fun expand :: "piece list \<Rightarrow> groups \<Rightarrow> string" where
  "expand [] g = []"
| "expand (Lit s # ps) g = s @ expand ps g"
| "expand (Ref n # ps) g = (case map_of g n of Some s \<Rightarrow> s | None \<Rightarrow> []) @ expand ps g"

type_synonym regex_sub = "rx \<times> piece list"

definition re_sub :: "regex_sub \<Rightarrow> string \<Rightarrow> string" where
  "re_sub rule t = sub_from (fst rule) (\<lambda>m g. expand (snd rule) g) [] t"

section \<open>The relational semantics\<close>

text \<open>What a pattern can span, without order and without groups.\<close>

primrec min_width :: "rx \<Rightarrow> nat" where
  "min_width Empty = 0"
| "min_width (Cls p) = 1"
| "min_width (Cat r q) = min_width r + min_width q"
| "min_width (Or r q) = min (min_width r) (min_width q)"
| "min_width (Rep lo hi r) = lo * min_width r"
| "min_width (Grp n r) = min_width r"
| "min_width (Ahead r) = 0"
| "min_width (NotAhead r) = 0"
| "min_width (Behind ps) = 0"
| "min_width (NotBehind ps) = 0"
| "min_width WordEdge = 0"
| "min_width LineStart = 0"
| "min_width LineEnd = 0"
| "min_width TextStart = 0"

text \<open>No repetition has a body that can be empty.\<close>

primrec reps_consume :: "rx \<Rightarrow> bool" where
  "reps_consume Empty = True"
| "reps_consume (Cls p) = True"
| "reps_consume (Cat r q) = (reps_consume r \<and> reps_consume q)"
| "reps_consume (Or r q) = (reps_consume r \<and> reps_consume q)"
| "reps_consume (Rep lo hi r) = (0 < min_width r \<and> reps_consume r)"
| "reps_consume (Grp n r) = reps_consume r"
| "reps_consume (Ahead r) = reps_consume r"
| "reps_consume (NotAhead r) = reps_consume r"
| "reps_consume (Behind ps) = True"
| "reps_consume (NotBehind ps) = True"
| "reps_consume WordEdge = True"
| "reps_consume LineStart = True"
| "reps_consume LineEnd = True"
| "reps_consume TextStart = True"

definition rounds_ok :: "nat \<Rightarrow> nat option \<Rightarrow> nat \<Rightarrow> bool" where
  "rounds_ok lo hi n \<longleftrightarrow> lo \<le> n \<and> (case hi of None \<Rightarrow> True | Some h \<Rightarrow> n \<le> h)"

primrec spans :: "rx \<Rightarrow> (cursor \<times> cursor) set" where
  "spans Empty = Id"
| "spans (Cls p) = {(c, c'). \<exists>x. p x \<and> snd c = x # snd c' \<and> fst c' = x # fst c}"
| "spans (Cat r q) = spans r O spans q"
| "spans (Or r q) = spans r \<union> spans q"
| "spans (Rep lo hi r) = {(c, c'). \<exists>n. rounds_ok lo hi n \<and> (c, c') \<in> spans r ^^ n}"
| "spans (Grp n r) = spans r"
| "spans (Ahead r) = {(c, c'). c' = c \<and> c \<in> Domain (spans r)}"
| "spans (NotAhead r) = {(c, c'). c' = c \<and> c \<notin> Domain (spans r)}"
| "spans (Behind ps) = {(c, c'). c' = c \<and> behind_ok ps c}"
| "spans (NotBehind ps) = {(c, c'). c' = c \<and> \<not> behind_ok ps c}"
| "spans WordEdge = {(c, c'). c' = c \<and> word_edge c}"
| "spans LineStart = {(c, c'). c' = c \<and> at_nl (fst c)}"
| "spans LineEnd = {(c, c'). c' = c \<and> at_nl (snd c)}"
| "spans TextStart = {(c, c'). c' = c \<and> fst c = []}"

definition crosses :: "cursor \<Rightarrow> string \<Rightarrow> cursor \<Rightarrow> bool" where
  "crosses c w c' \<longleftrightarrow> snd c = w @ snd c' \<and> fst c' = rev w @ fst c"

lemma crosses_refl [simp]: "crosses c w c \<longleftrightarrow> w = []"
  by (auto simp: crosses_def)

lemma crosses_trans: "crosses c v d \<Longrightarrow> crosses d w e \<Longrightarrow> crosses c (v @ w) e"
  by (simp add: crosses_def)

lemma crosses_compose: "(\<exists>d. crosses c v d \<and> crosses d w c') \<longleftrightarrow> crosses c (v @ w) c'"
proof
  assume "crosses c (v @ w) c'"
  then have "crosses c v (rev v @ fst c, w @ snd c')" "crosses (rev v @ fst c, w @ snd c') w c'"
    by (simp_all add: crosses_def)
  then show "\<exists>d. crosses c v d \<and> crosses d w c'" by blast
qed (blast intro: crosses_trans)

lemma consumed_crosses: "crosses c w c' \<Longrightarrow> consumed c c' = w"
  by (simp add: crosses_def consumed_def)

lemma relpow_width:
  assumes step: "\<And>c c'. (c, c') \<in> R \<Longrightarrow> \<exists>w. crosses c w c' \<and> m \<le> length w" and "(c, c') \<in> R ^^ n"
  shows "\<exists>w. crosses c w c' \<and> n * m \<le> length w"
  using assms(2)
proof (induction n arbitrary: c')
  case (Suc n)
  then obtain d where d0: "(c, d) \<in> R ^^ n" "(d, c') \<in> R" by auto
  obtain v where d: "crosses c v d" "n * m \<le> length v" using Suc.IH [OF d0(1)] by blast
  from step [OF d0(2)] obtain w where "crosses d w c'" "m \<le> length w" by blast
  with d crosses_trans show ?case by (intro exI [of _ "v @ w"]) auto
qed simp

lemma spans_crosses: "(c, c') \<in> spans r \<Longrightarrow> \<exists>w. crosses c w c' \<and> min_width r \<le> length w"
proof (induction r arbitrary: c c')
  case (Cls p)
  then obtain x where "snd c = x # snd c'" "fst c' = x # fst c" by auto
  then show ?case by (intro exI [of _ "[x]"]) (simp add: crosses_def)
next
  case (Cat r q)
  then obtain d v w where "crosses c v d" "min_width r \<le> length v" "crosses d w c'" "min_width q \<le> length w"
    by simp blast
  then show ?case by (intro exI [of _ "v @ w"]) (auto intro: crosses_trans)
next
  case (Or r q)
  then show ?case by (fastforce simp: min_le_iff_disj)
next
  case (Rep lo hi r)
  then obtain n where n: "lo \<le> n" "(c, c') \<in> spans r ^^ n" by (auto simp: rounds_ok_def)
  from relpow_width [where R = "spans r" and m = "min_width r", OF Rep.IH n(2)]
  obtain w where "crosses c w c'" "n * min_width r \<le> length w" by blast
  moreover have "lo * min_width r \<le> n * min_width r" using n(1) by simp
  ultimately show ?case unfolding min_width.simps by (meson le_trans)
qed auto

lemma spans_shorter: "(c, c') \<in> spans r \<Longrightarrow> 0 < min_width r \<Longrightarrow> shorter c' c"
  using spans_crosses by (fastforce simp: crosses_def shorter_def)

lemma rounds_round:
  "hi \<noteq> Some 0 \<Longrightarrow> rounds_ok (lo - 1) (map_option (\<lambda>h. h - 1) hi) n \<longleftrightarrow> rounds_ok lo hi (Suc n)"
  by (cases hi) (auto simp: rounds_ok_def)

lemma rounds_zero: "rounds_ok lo hi 0 \<longleftrightarrow> lo = 0"
  by (auto simp: rounds_ok_def split: option.splits)

lemma rounds_capped: "rounds_ok lo (Some 0) n \<longleftrightarrow> n = 0 \<and> lo = 0"
  by (auto simp: rounds_ok_def)

lemma relpow_within_Suc:
  "{c'. \<exists>n. rounds_ok lo hi n \<and> (c, c') \<in> R ^^ n} =
     (if hi = Some 0 then {} else {c'. \<exists>d n. (c, d) \<in> R \<and> rounds_ok (lo - 1) (map_option (\<lambda>h. h - 1) hi) n \<and> (d, c') \<in> R ^^ n})
     \<union> (if lo = 0 then {c} else {})" (is "?l = ?r")
proof (intro equalityI subsetI)
  fix c' assume "c' \<in> ?l"
  then obtain n where n: "rounds_ok lo hi n" "(c, c') \<in> R ^^ n" by blast
  show "c' \<in> ?r"
  proof (cases n)
    case 0
    with n show ?thesis by (auto simp: rounds_zero)
  next
    case (Suc m)
    with n obtain d where "(c, d) \<in> R" "(d, c') \<in> R ^^ m" by (metis relpow_Suc_D2)
    moreover have "hi \<noteq> Some 0" using n(1) Suc by (auto simp: rounds_capped)
    ultimately show ?thesis using n(1) Suc rounds_round by auto
  qed
next
  fix c' assume "c' \<in> ?r"
  then consider (stop) "lo = 0" "c' = c"
    | (more) d n where "hi \<noteq> Some 0" "(c, d) \<in> R" "rounds_ok (lo - 1) (map_option (\<lambda>h. h - 1) hi) n" "(d, c') \<in> R ^^ n"
    by (auto split: if_splits)
  then show "c' \<in> ?l"
  proof cases
    case stop
    then show ?thesis by (auto simp: rounds_zero intro!: exI [of _ 0])
  next
    case more
    then have "rounds_ok lo hi (Suc n)" "(c, c') \<in> R ^^ Suc n" using rounds_round relpow_Suc_I2 by metis+
    then show ?thesis by blast
  qed
qed

lemma reps_spans:
  assumes f: "\<And>c g. fst ` set (f (c, g)) = R `` {c}" and R: "\<And>c c'. (c, c') \<in> R \<Longrightarrow> shorter c' c"
    and "length (snd c) \<le> k"
  shows "fst ` set (reps f k lo hi (c, g)) = {c'. \<exists>n. rounds_ok lo hi n \<and> (c, c') \<in> R ^^ n}"
  using assms(3)
proof (induction k arbitrary: lo hi c g)
  case 0
  have stuck: "(c, d) \<notin> R" for d using 0 R [of c d] by (auto simp: shorter_def)
  have "rounds_ok lo hi n \<and> (c, c') \<in> R ^^ n \<longleftrightarrow> n = 0 \<and> lo = 0 \<and> c' = c" for n c'
  proof (cases n)
    case (Suc m)
    then have "(c, c') \<notin> R ^^ n" using stuck relpow_Suc_D2 by metis
    with Suc show ?thesis by blast
  next
    case 0
    then show ?thesis by (auto simp: rounds_zero)
  qed
  then have "{c'. \<exists>n. rounds_ok lo hi n \<and> (c, c') \<in> R ^^ n} = (if lo = 0 then {c} else {})" by simp
  then show ?case by simp
next
  case (Suc k)
  let ?hi = "map_option (\<lambda>h. h - 1) hi"
  have "fst ` (if shorter (fst s') c then set (reps f k (lo - 1) ?hi s') else {}) =
      {c'. \<exists>n. rounds_ok (lo - 1) ?hi n \<and> (fst s', c') \<in> R ^^ n}" if "s' \<in> set (f (c, g))" for s'
  proof -
    have "fst s' \<in> R `` {c}" using that f [of c g] by auto
    then have "shorter (fst s') c" using R by blast
    with Suc Suc.IH [of "fst s'" "lo - 1" ?hi "snd s'"] show ?thesis by (simp add: shorter_def)
  qed
  then have "fst ` (\<Union>s' \<in> set (f (c, g)). if shorter (fst s') c then set (reps f k (lo - 1) ?hi s') else {}) =
      (\<Union>s' \<in> set (f (c, g)). {c'. \<exists>n. rounds_ok (lo - 1) ?hi n \<and> (fst s', c') \<in> R ^^ n})"
    unfolding image_UN by simp
  also have "\<dots> = (\<Union>d \<in> fst ` set (f (c, g)). {c'. \<exists>n. rounds_ok (lo - 1) ?hi n \<and> (d, c') \<in> R ^^ n})" by simp
  also have "\<dots> = {c'. \<exists>d n. (c, d) \<in> R \<and> rounds_ok (lo - 1) ?hi n \<and> (d, c') \<in> R ^^ n}" unfolding f by blast
  finally have round: "fst ` set (concat (map (\<lambda>s'. if shorter (fst s') c then reps f k (lo - 1) ?hi s' else []) (f (c, g)))) =
      {c'. \<exists>d n. (c, d) \<in> R \<and> rounds_ok (lo - 1) ?hi n \<and> (d, c') \<in> R ^^ n}"
    by (simp only: set_concat set_map image_image if_distrib [of set] list.set(1) cong: if_cong)
  show ?case
    unfolding relpow_within_Suc [of lo hi c R] reps.simps fst_conv set_append image_Un
    using round by (cases "hi = Some 0"; cases "lo = 0") (simp_all only: simp_thms if_True if_False list.set image_empty image_insert fst_conv)
qed

theorem outcomes_spans: "reps_consume r \<Longrightarrow> fst ` set (outcomes r (c, g)) = spans r `` {c}"
proof (induction r arbitrary: c g)
  case (Cls p)
  show ?case by (cases c; cases "snd c") (auto simp: image_iff)
next
  case (Cat r q)
  have "fst ` set (outcomes (Cat r q) (c, g)) = (\<Union>s \<in> set (outcomes r (c, g)). fst ` set (outcomes q s))"
    by auto
  also have "\<dots> = (\<Union>s \<in> set (outcomes r (c, g)). spans q `` {fst s})"
    using Cat.IH(2) Cat.prems by (metis (no_types, lifting) prod.collapse reps_consume.simps(3))
  also have "\<dots> = spans q `` (fst ` set (outcomes r (c, g)))" by blast
  finally show ?case using Cat by (simp add: relcomp_Image)
next
  case (Or r q)
  then show ?case by (simp add: image_Un Un_Image)
next
  case (Rep lo hi r)
  then have "fst ` set (reps (outcomes r) (length (snd c)) lo hi (c, g)) =
      {c'. \<exists>n. rounds_ok lo hi n \<and> (c, c') \<in> spans r ^^ n}"
    by (intro reps_spans) (auto intro: spans_shorter)
  then show ?case by auto
next
  case (Grp n r)
  then show ?case by (simp add: image_image)
next
  case (Ahead r)
  have "outcomes r (c, g) = [] \<longleftrightarrow> spans r `` {c} = {}" using Ahead.IH [of c g] Ahead.prems by auto
  moreover have "spans (Ahead r) `` {c} = (if spans r `` {c} = {} then {} else {c})" by auto
  ultimately show ?case by (cases "outcomes r (c, g)") (simp_all del: spans.simps)
next
  case (NotAhead r)
  have "outcomes r (c, g) = [] \<longleftrightarrow> spans r `` {c} = {}" using NotAhead.IH [of c g] NotAhead.prems by auto
  moreover have "spans (NotAhead r) `` {c} = (if spans r `` {c} = {} then {c} else {})" by auto
  ultimately show ?case by (simp del: spans.simps)
qed auto

lemma match_at_span:
  assumes "reps_consume r"
  shows "match_at r c = Some s \<Longrightarrow> (c, fst s) \<in> spans r" "match_at r c = None \<longleftrightarrow> c \<notin> Domain (spans r)"
proof -
  note o = outcomes_spans [OF assms, of c "[]"]
  show "(c, fst s) \<in> spans r" if "match_at r c = Some s"
  proof -
    have "s \<in> set (outcomes r (c, []))" using that by (auto simp: match_at_def split: list.splits)
    with o show ?thesis by blast
  qed
  have "match_at r c = None \<longleftrightarrow> outcomes r (c, []) = []" by (auto simp: match_at_def split: list.splits)
  also have "\<dots> \<longleftrightarrow> spans r `` {c} = {}" using o by auto
  finally show "match_at r c = None \<longleftrightarrow> c \<notin> Domain (spans r)" by blast
qed

lemma match_at_unique:
  assumes "reps_consume r" and "(c, c') \<in> spans r" and "\<And>d. (c, d) \<in> spans r \<Longrightarrow> d = c'"
  shows "\<exists>g. match_at r c = Some (c', g)"
proof -
  have "match_at r c \<noteq> None" using match_at_span(2) [OF assms(1)] assms(2) by blast
  then obtain d g where d: "match_at r c = Some (d, g)" by auto
  moreover have "d = c'" using match_at_span(1) [OF assms(1) d] assms(3) by simp
  ultimately show ?thesis by blast
qed

lemma full_match_span:
  assumes "reps_consume r"
  shows "full_match r t \<longleftrightarrow> (\<exists>b. (([], t), (b, [])) \<in> spans r)"
proof -
  have "full_match r t \<longleftrightarrow> (\<exists>c \<in> fst ` set (outcomes r (([], t), [])). snd c = [])"
    by (simp add: full_match_def list_ex_iff)
  also have "\<dots> \<longleftrightarrow> (\<exists>b. (([], t), (b, [])) \<in> spans r)"
    unfolding outcomes_spans [OF assms] by force
  finally show ?thesis .
qed

section \<open>Substitution\<close>

lemma sub_from_miss:
  assumes "match_at r (b, x # xs) = None"
  shows "sub_from r f b (x # xs) = x # sub_from r f (x # b) xs"
  by (subst sub_from.simps) (simp add: assms)

lemma sub_from_end: "match_at r (b, []) = None \<Longrightarrow> sub_from r f b [] = []"
  by (subst sub_from.simps) simp

lemma sub_from_hit:
  assumes "match_at r (b, a) = Some (c, g)" and "crosses (b, a) w c" and "w \<noteq> []"
  shows "sub_from r f b a = f w g @ sub_from r f (fst c) (snd c)"
proof -
  have "shorter c (b, a)" using assms(2,3) by (simp add: crosses_def shorter_def)
  then show ?thesis by (subst sub_from.simps) (simp add: assms(1) consumed_crosses [OF assms(2)])
qed

text \<open>Where nothing matches the text is copied.\<close>

lemma sub_from_skip:
  assumes "\<And>u v. a = u @ v \<Longrightarrow> v \<noteq> [] \<Longrightarrow> match_at r (rev u @ b, v @ t) = None"
  shows "sub_from r f b (a @ t) = a @ sub_from r f (rev a @ b) t"
  using assms
proof (induction a arbitrary: b)
  case (Cons x xs)
  have "match_at r (b, x # xs @ t) = None" using Cons.prems [of "[]" "x # xs"] by simp
  moreover have "sub_from r f (x # b) (xs @ t) = xs @ sub_from r f (rev xs @ x # b) t"
  proof (rule Cons.IH)
    fix u v assume "xs = u @ v" "v \<noteq> []"
    with Cons.prems [of "x # u" v] show "match_at r (rev u @ x # b, v @ t) = None" by simp
  qed
  ultimately show ?case by (simp add: sub_from_miss)
qed simp

lemma re_sub_unmatched:
  assumes "\<And>u v. t = u @ v \<Longrightarrow> match_at (fst rule) (rev u, v) = None"
  shows "re_sub rule t = t"
proof -
  have "match_at (fst rule) (rev t, []) = None" using assms [of t "[]"] by simp
  with sub_from_skip [of t "fst rule" "[]" "[]"] assms show ?thesis
    by (simp add: re_sub_def sub_from_end)
qed

section \<open>What a pattern can consume\<close>

text \<open>
  A pattern is blocked on an alphabet when each of its ways needs a character outside of it; a text
  over that alphabet passes it unchanged.
\<close>

primrec blocked :: "rx \<Rightarrow> string \<Rightarrow> bool" where
  "blocked Empty S = False"
| "blocked (Cls p) S = list_all (\<lambda>c. \<not> p c) S"
| "blocked (Cat r q) S = (blocked r S \<or> blocked q S)"
| "blocked (Or r q) S = (blocked r S \<and> blocked q S)"
| "blocked (Rep lo hi r) S = (0 < lo \<and> blocked r S)"
| "blocked (Grp n r) S = blocked r S"
| "blocked (Ahead r) S = blocked r S"
| "blocked (NotAhead r) S = False"
| "blocked (Behind ps) S = False"
| "blocked (NotBehind ps) S = False"
| "blocked WordEdge S = False"
| "blocked LineStart S = False"
| "blocked LineEnd S = False"
| "blocked TextStart S = False"

lemma blocked_spans: "blocked r S \<Longrightarrow> set (snd c) \<subseteq> set S \<Longrightarrow> (c, c') \<notin> spans r"
proof (induction r arbitrary: c c')
  case (Cls p)
  then show ?case by (auto simp: list_all_iff)
next
  case (Cat r q)
  have "set (snd d) \<subseteq> set S" if "(c, d) \<in> spans r" for d
    using spans_crosses [OF that] Cat.prems(2) by (auto simp: crosses_def)
  with Cat show ?case by auto
next
  case (Rep lo hi r)
  have "(c, c') \<notin> spans r ^^ n" if "lo \<le> n" for n
  proof (cases n)
    case (Suc m)
    have "(c, d) \<notin> spans r" for d using Rep by auto
    then show ?thesis unfolding Suc using relpow_Suc_D2 by metis
  qed (use that Rep.prems in simp)
  then show ?case by (auto simp: rounds_ok_def)
qed auto

lemma re_sub_blocked:
  assumes "reps_consume (fst rule)" and "blocked (fst rule) S" and "set t \<subseteq> set S"
  shows "re_sub rule t = t"
proof (rule re_sub_unmatched)
  fix u v assume "t = u @ v"
  with assms(3) blocked_spans [OF assms(2), of "(rev u, v)"] show "match_at (fst rule) (rev u, v) = None"
    unfolding match_at_span(2) [OF assms(1)] by auto
qed

lemma full_match_blocked:
  "reps_consume r \<Longrightarrow> blocked r S \<Longrightarrow> set t \<subseteq> set S \<Longrightarrow> \<not> full_match r t"
  using blocked_spans [of r S "([], t)"] by (simp add: full_match_span)

lemma fold_re_sub_blocked:
  assumes "list_all (\<lambda>r. reps_consume (fst r) \<and> blocked (fst r) S) rules" and "set t \<subseteq> set S"
  shows "fold (\<lambda>f t. f t) (map re_sub rules) t = t"
  using assms by (induction rules) (auto simp: re_sub_blocked [where S = S])

lemma ex_Suc_list: "(\<exists>ws. length ws = Suc n \<and> P ws) \<longleftrightarrow> (\<exists>w ws. length ws = n \<and> P (w # ws))"
  unfolding length_Suc_conv by blast

lemma class_reps_span:
  "(c, c') \<in> spans (Cls p) ^^ n \<longleftrightarrow> (\<exists>w. length w = n \<and> list_all p w \<and> crosses c w c')"
proof (induction n arbitrary: c)
  case 0
  then show ?case by (auto simp: crosses_def prod_eq_iff)
next
  case (Suc n)
  have step: "(c, d) \<in> spans (Cls p) \<longleftrightarrow> (\<exists>x. p x \<and> crosses c [x] d)" for c d
    by (auto simp: crosses_def)
  have "(c, c') \<in> spans (Cls p) ^^ Suc n \<longleftrightarrow> (\<exists>d. (c, d) \<in> spans (Cls p) \<and> (d, c') \<in> spans (Cls p) ^^ n)"
    using relpow_Suc_D2 relpow_Suc_I2 by (metis (no_types, lifting))
  also have "\<dots> \<longleftrightarrow> (\<exists>x w. p x \<and> length w = n \<and> list_all p w \<and> (\<exists>d. crosses c [x] d \<and> crosses d w c'))"
    unfolding step Suc.IH by blast
  also have "\<dots> \<longleftrightarrow> (\<exists>w. length w = Suc n \<and> list_all p w \<and> crosses c w c')"
    unfolding crosses_compose ex_Suc_list by (simp, blast)
  finally show ?case .
qed

lemma plus_class_span:
  "(c, c') \<in> spans (plus_of (Cls p)) \<longleftrightarrow> (\<exists>w. w \<noteq> [] \<and> list_all p w \<and> crosses c w c')"
proof -
  have "(c, c') \<in> spans (plus_of (Cls p)) \<longleftrightarrow> (\<exists>n \<ge> 1. (c, c') \<in> spans (Cls p) ^^ n)"
    by (simp only: plus_of_def spans.simps mem_Collect_eq prod.case rounds_ok_def option.case simp_thms)
  also have "\<dots> \<longleftrightarrow> (\<exists>w. w \<noteq> [] \<and> list_all p w \<and> crosses c w c')"
    unfolding class_reps_span by (metis One_nat_def Suc_leI le_zero_eq length_greater_0_conv length_0_conv zero_neq_one)
  finally show ?thesis .
qed

text \<open>A repeated class is greedy.\<close>

lemma reps_class_hd:
  assumes f: "\<And>b x xs g. f ((b, x # xs), g) = (if p x then [((x # b, xs), g)] else [])" "\<And>b g. f ((b, []), g) = []"
    and "list_all p w" and "t = [] \<or> \<not> p (hd t)" and "length w \<le> k" and "lo \<le> length w"
  shows "\<exists>ss. reps f k lo None ((b, w @ t), g) = ((rev w @ b, t), g) # ss"
  using assms(3-)
proof (induction w arbitrary: b k lo)
  case Nil
  then have "f ((b, t), g) = []" using f by (cases t) auto
  with Nil show ?case by (cases k) simp_all
next
  case (Cons x w)
  then obtain j where k: "k = Suc j" by (cases k) auto
  have "\<exists>ss. reps f j (lo - 1) None ((x # b, w @ t), g) = ((rev w @ x # b, t), g) # ss"
    using Cons k by (intro Cons.IH) auto
  with Cons.prems(1) show ?case unfolding k by (auto simp: shorter_def f)
qed

lemma match_plus_class:
  assumes "list_all p w" and "w \<noteq> []" and "t = [] \<or> \<not> p (hd t)"
  shows "match_at (plus_of (Cls p)) (b, w @ t) = Some ((rev w @ b, t), [])"
proof -
  have "\<exists>ss. reps (outcomes (Cls p)) (length (w @ t)) 1 None ((b, w @ t), []) = ((rev w @ b, t), []) # ss"
    using assms by (intro reps_class_hd [where p = p]) (auto simp: Suc_le_eq)
  then show ?thesis unfolding match_at_def plus_of_def outcomes.simps(5) fst_conv snd_conv by auto
qed

lemma match_plus_class_miss:
  "t = [] \<or> \<not> p (hd t) \<Longrightarrow> match_at (plus_of (Cls p)) (b, t) = None"
  by (cases t) (auto simp: match_at_def plus_of_def)

end
