(* ===== verification/Residual.thy ===== *)
theory Residual
  imports Regex
begin

text \<open>
  The rule table of \<open>src/determinism.py\<close>: every residual substitution, the line-local rules, the
  dropped lines and the rule for bare process ids, in the order they are applied, on the regular
  expressions of \<open>Regex\<close>. \<open>residual_rules\<close> is the table the pipeline of \<open>Certify\<close> runs with.
  Shown: every repetition of the table consumes, so the matcher is the relational semantics on all
  of it; the process ids of a background command never reach the scrubbed text; a dropped line is
  never part of it; and the scrubber as a whole is not idempotent, which the replay cache relies
  on.
\<close>

section \<open>Addresses and identities\<close>

definition ADDRESS_IDENTITY_SUBS :: "regex_sub list" where
  "ADDRESS_IDENTITY_SUBS =
    [(cats [lit ''at 0x'', plus_of (Cls hex_class)], [Lit ''at <ADDR>'']),
     (cats [WordEdge, Grp 1 (cats [lit ''id'', plus_of (Cls (one_of '' =:''))]), Rep 12 None (Cls digit_class), WordEdge],
      [Ref 1, Lit ''<ADDR>'']),
     (cats [WordEdge, Rep 15 None (cats [times_of 2 (Cls hex_class), lit '':'']), times_of 2 (Cls hex_class), WordEdge],
      [Lit ''<FINGERPRINT>''])]"

section \<open>Torchelastic reports\<close>

definition TORCHELASTIC_REPORT_SUBS :: "regex_sub list" where
  "TORCHELASTIC_REPORT_SUBS =
    [(cats [LineStart, Grp 1 (cats [maybe_spaces, lit ''time'', spaces, lit '': '']),
        times_of 4 (Cls digit_class), lit ''-'', times_of 2 (Cls digit_class), lit ''-'', times_of 2 (Cls digit_class), lit ''_'',
        times_of 2 (Cls digit_class), lit '':'', times_of 2 (Cls digit_class), lit '':'', times_of 2 (Cls digit_class), WordEdge],
      [Ref 1, Lit ''<DATE>_<TIME>'']),
     (cats [LineStart, Grp 1 (cats [maybe_spaces, lit ''exitcode'', spaces, lit '': '', digits_of, lit '' (pid: '']),
        digits_of, Grp 2 (lit '')'')],
      [Ref 1, Lit ''<PID>'', Ref 2]),
     (cats [Grp 1 (cats [lit ''(exitcode: '', digits_of, lit '') local_rank: '', digits_of, lit '' (pid: '']),
        digits_of, Grp 2 (lit '') of binary:'')],
      [Ref 1, Lit ''<PID>'', Ref 2]),
     (cats [WordEdge, Grp 1 (lit ''Sending process ''), digits_of, Grp 2 (lit '' closing signal '')],
      [Ref 1, Lit ''<PID>'', Ref 2])]"

section \<open>Wall clock\<close>

definition timing_words :: rx where
  "timing_words = ors [lit_ci ''in'', lit_ci ''took'', lit_ci ''after'', lit_ci ''elapsed'']"

definition timing_units :: rx where
  "timing_units = ors [lit_ci ''ns'', lit_ci [CHR 0xB5, CHR ''s''], lit_ci ''us'', lit_ci ''ms'',
     cats [lit_ci ''second'', opt_of (lit_ci ''s'')], cats [lit_ci ''sec'', opt_of (lit_ci ''s'')], lit_ci ''s'',
     cats [lit_ci ''minute'', opt_of (lit_ci ''s'')], cats [lit_ci ''min'', opt_of (lit_ci ''s'')], lit_ci ''m'',
     cats [lit_ci ''hour'', opt_of (lit_ci ''s'')], cats [lit_ci ''hr'', opt_of (lit_ci ''s'')], lit_ci ''h'']"

definition clock_stamp :: rx where
  "clock_stamp = cats [digits_up_to 2, lit '':'', times_of 2 (Cls digit_class), lit '':'', times_of 2 (Cls digit_class)]"

definition WALL_CLOCK_SUBS :: "regex_sub list" where
  "WALL_CLOCK_SUBS =
    [(cats [WordEdge, Grp 1 timing_words, spaces,
        opt_of (cats [digits_of, maybe_spaces, lit_ci ''m'', maybe_spaces]),
        digits_of, opt_of (cats [lit ''.'', digits_of]), maybe_spaces, timing_units, WordEdge,
        opt_of (cats [maybe_spaces, lit ''('', clock_stamp, lit '')''])],
      [Ref 1, Lit '' <DUR>'']),
     (cats [WordEdge, Grp 1 (lit ''Building:''), lit '' '', digits_of, opt_of (cats [lit ''.'', digits_of]), lit ''s'', WordEdge],
      [Ref 1, Lit '' <DUR>'']),
     (cats [NotBehind [hex_class, hex_class, one_of '':''], WordEdge, clock_stamp, WordEdge,
        NotAhead (cats [lit '':'', times_of 2 (Cls hex_class)])],
      [Lit ''<TIME>'']),
     (cats [WordEdge, times_of 4 (Cls digit_class), lit ''-'', times_of 2 (Cls digit_class), lit ''-'', times_of 2 (Cls digit_class),
        Ahead (lit '' <TIME>'')],
      [Lit ''<DATE>''])]"

section \<open>Network\<close>

definition dotted_quad :: rx where
  "dotted_quad = cats [digits_up_to 3, times_of 3 (cats [lit ''.'', digits_up_to 3])]"

definition alnum_class :: "char \<Rightarrow> bool" where
  "alnum_class c \<longleftrightarrow> upper_class c \<or> lower_class c \<or> digit_class c"

definition NETWORK_DRIFT_SUBS :: "regex_sub list" where
  "NETWORK_DRIFT_SUBS =
    [(cats [lit '' (Request ID: '', Rep 1 (Some 200) (Cls (\<lambda>c. c \<noteq> CHR '')'')), lit '')''], []),
     (cats [WordEdge, Grp 1 (ors [lit ''connect to'', lit ''from'']), lit '' '', dotted_quad, lit '' port '', digits_up_to 5, WordEdge],
      [Ref 1, Lit '' <ENDPOINT>'']),
     (cats [lit ''[IP: '', dotted_quad, lit '' '', digits_up_to 5, lit '']''], [Lit ''[IP: <ENDPOINT>]'']),
     (cats [LineStart, Grp 1 (cats [lit ''Backend:'', maybe_spaces]), plus_of (Cls alnum_class), lit ''--F_'',
        plus_of (Cls (\<lambda>c. alnum_class c \<or> c = CHR ''-'')), lit ''_debian_backend_mirrors_debian_org'',
        Grp 2 (opt_of (lit [CHR 0x0D])), LineEnd],
      [Ref 1, Lit ''<DEBIAN_BACKEND>'', Ref 2]),
     (cats [lit ''('', Cls digit_class, star_of (Cls (\<lambda>c. digit_class c \<or> c = CHR ''.'')), opt_of (lit '' ''),
        opt_of (Cls (one_of ''kKMG'')), lit ''B/s)''],
      [Lit ''(<RATE>)''])]"

section \<open>File system metadata\<close>

definition month_names :: rx where
  "month_names = ors (map lit [''Jan'', ''Feb'', ''Mar'', ''Apr'', ''May'', ''Jun'', ''Jul'', ''Aug'', ''Sep'', ''Oct'', ''Nov'', ''Dec''])"

definition FILESYSTEM_METADATA_SUBS :: "regex_sub list" where
  "FILESYSTEM_METADATA_SUBS =
    [(cats [LineStart,
        Grp 1 (cats [Cls (one_of ''-dlbcps''), times_of 9 (Cls (one_of ''rwxstST-'')), opt_of (Cls (one_of ''.+@'')),
          spaces, digits_of, spaces, non_spaces, spaces, non_spaces, spaces, non_spaces, spaces]),
        month_names, spaces, digits_up_to 2, spaces,
        ors [cats [digits_up_to 2, lit '':'', times_of 2 (Cls digit_class)], times_of 4 (Cls digit_class)]],
      [Ref 1, Lit ''<MTIME>'']),
     (cats [LineStart, Grp 1 (cats [lit ''dr-xr-xr-x'', spaces]), digits_of,
        Grp 2 (cats [spaces, lit ''root'', spaces, lit ''root'', spaces, non_spaces, spaces, lit ''<MTIME>'', spaces, lit ''proc'']),
        LineEnd],
      [Ref 1, Lit ''<NLINK>'', Ref 2])]"

section \<open>Tool randomness\<close>

definition temp_class :: "char \<Rightarrow> bool" where
  "temp_class c \<longleftrightarrow> lower_class c \<or> digit_class c \<or> c = CHR ''_''"

definition behind_tmp :: rx where
  "behind_tmp = Behind (map (\<lambda>c d. d = c) ''/tmp/'')"

definition TOOL_RANDOMNESS_SUBS :: "regex_sub list" where
  "TOOL_RANDOMNESS_SUBS =
    [(cats [WordEdge, lit ''build-env-'', times_of 8 (Cls temp_class), WordEdge], [Lit ''build-env-<RAND>'']),
     (cats [behind_tmp, lit ''cc'', times_of 6 (Cls alnum_class), Ahead (cats [lit ''.'', Rep 1 (Some 4) (Cls lower_class), WordEdge])],
      [Lit ''cc<RAND>'']),
     (cats [behind_tmp, lit ''sphinx-err-'', times_of 8 (Cls temp_class), Ahead (cats [lit ''.log'', WordEdge])],
      [Lit ''sphinx-err-<RAND>'']),
     (ors [cats [ors [Behind [one_of ''/''], Behind [one_of ''.'']], lit ''tmp'', opt_of (lit ''-''), times_of 8 (Cls temp_class),
             Ahead (Cls (one_of ''/._-''))],
           cats [WordEdge, lit ''tmp'', opt_of (lit ''-''), times_of 8 (Cls temp_class), NotAhead (Cls temp_class)]],
      [Lit ''tmp<RAND>'']),
     (cats [WordEdge, lit ''pip-'',
        Grp 1 (ors [lit ''ephem-wheel-cache'', lit ''install'', lit ''req-build'', lit ''build-env'', lit ''unpack'', lit ''target'']),
        lit ''-'', times_of 8 (Cls temp_class), WordEdge],
      [Lit ''pip-'', Ref 1, Lit ''-<RAND>'']),
     (cats [WordEdge, lit ''size='', digits_of, lit '' sha256='',
        times_of 64 (Cls (\<lambda>c. digit_class c \<or> between 97 102 c)), WordEdge],
      [Lit ''size=<SIZE> sha256=<HASH>''])]"

section \<open>Process identities, presentation and seeds\<close>

definition PROCESS_IDENTITY_SUBS :: "regex_sub list" where
  "PROCESS_IDENTITY_SUBS =
    [(cats [lit ''=='', digits_of, lit ''==''], [Lit ''==<PID>=='']),
     (cats [Grp 1 (cats [lit ''00000000'', spaces, lit ''0'', spaces, lit ''0 '']), digits_of, lit '' '', Grp 2 digits_of, lit '' '',
        times_of 16 (Cls (\<lambda>c. digit_class c \<or> between 97 102 c)), WordEdge],
      [Ref 1, Lit ''<INODE> '', Ref 2, Lit '' <SK>'']),
     (cats [WordEdge, Grp 1 (lit ''PID: ''), digits_of, WordEdge], [Ref 1, Lit ''<PID>'']),
     (cats [WordEdge, Grp 1 (lit ''master pid: ''), digits_of], [Ref 1, Lit ''<PID>'']),
     (cats [WordEdge, lit ''pid='', digits_of], [Lit ''pid=<PID>'']),
     (cats [WordEdge, lit ''fd='', digits_of], [Lit ''fd=<FD>'']),
     (cats [Behind [space_class], digits_of, lit ''/'',
        Grp 1 (cats [Cls (\<lambda>c. upper_class c \<or> lower_class c), star_of (Cls (\<lambda>c. word_class c \<or> one_of ''.+-'' c))]),
        maybe_spaces, LineEnd],
      [Lit ''<PID>/'', Ref 1])]"

definition PRESENTATION_SUBS :: "regex_sub list" where
  "PRESENTATION_SUBS = [(Rep 8 None (lit ''=''), [Lit ''========''])]"

definition RUNNER_RANDOMNESS_SUBS :: "regex_sub list" where
  "RUNNER_RANDOMNESS_SUBS = [(cats [Grp 1 (cats [lit ''random seed:'', spaces]), digits_of], [Ref 1, Lit ''<SEED>''])]"

definition RESIDUAL_OBSERVATION_SUBS :: "regex_sub list" where
  "RESIDUAL_OBSERVATION_SUBS = ADDRESS_IDENTITY_SUBS @ TORCHELASTIC_REPORT_SUBS @ WALL_CLOCK_SUBS @ NETWORK_DRIFT_SUBS @
     FILESYSTEM_METADATA_SUBS @ TOOL_RANDOMNESS_SUBS @ PROCESS_IDENTITY_SUBS @ PRESENTATION_SUBS @ RUNNER_RANDOMNESS_SUBS"

section \<open>Lines\<close>

definition BASH_JOB_STATUS_LINE :: regex_sub where
  "BASH_JOB_STATUS_LINE =
    (cats [Grp 1 (cats [lit ''bash: line '', digits_of, lit '':'']), spaces, digits_of, spaces], [Ref 1, Lit '' <PID> ''])"

definition job_states :: rx where
  "job_states = ors [cats [lit ''Done'', opt_of (cats [lit ''('', digits_of, lit '')''])], cats [lit ''Exit '', digits_of],
     lit ''Killed'', lit ''Terminated'', lit ''Aborted'', lit ''Segmentation fault'', lit ''Broken pipe'', lit ''Bus error'',
     lit ''Hangup'', lit ''Interrupt'', lit ''Floating point exception'', lit ''Illegal instruction'', lit ''Stopped'', lit ''Running'']"

definition BASH_PIPELINE_JOB_STATUS_LINE :: regex_sub where
  "BASH_PIPELINE_JOB_STATUS_LINE =
    (cats [TextStart, Grp 1 spaces, digits_of, lit '' '', Grp 2 job_states, WordEdge], [Ref 1, Lit ''<PID> '', Ref 2])"

definition GLOG_PREFIX :: regex_sub where
  "GLOG_PREFIX =
    (cats [WordEdge, Cls (one_of ''IWEF''), times_of 4 (Cls digit_class), spaces, lit ''<TIME>.'', digits_of, spaces, digits_of,
       Grp 1 (cats [spaces, non_spaces, lit '':'', digits_of, lit '']''])],
     [Lit ''<LOG> <TIME>.<SUBSEC> <PID>'', Ref 1])"

definition TERMINATING_PROCESS :: regex_sub where
  "TERMINATING_PROCESS =
    (cats [WordEdge, Grp 1 (lit ''Terminating process''), lit '' '', digits_of, lit '' '', Ahead (cats [lit ''via signal'', WordEdge])],
     [Ref 1, Lit '' <PID> ''])"

definition DROPPED_LINE_PATTERNS :: "rx list" where
  "DROPPED_LINE_PATTERNS =
    [cats [maybe_spaces,
       ors [cats [lit ''Building '', ors [lit ''wheel'', lit ''editable''], lit '' for '', non_spaces],
            lit ''Installing build dependencies'', lit ''Getting requirements to build wheel'',
            cats [lit ''Preparing '', opt_of (lit ''editable ''), lit ''metadata'']],
       lit '' ('', ors [lit ''pyproject.toml'', lit ''setup.py''], lit ''): still running...'', maybe_spaces],
     cats [lit ''<LOG> <TIME>.<SUBSEC> <PID> torch/distributed/elastic/multiprocessing/api.py:'', digits_of,
       lit ''] Sending process <PID> closing signal '', plus_of (Cls word_class), maybe_spaces]]"

section \<open>Bare process ids\<close>

definition PID_PRODUCING_COMMAND :: rx where
  "PID_PRODUCING_COMMAND = ors [lit ''$!'', cats [WordEdge, lit ''pidof'', WordEdge]]"

definition BARE_PID_LINE :: rx where
  "BARE_PID_LINE = cats [LineStart, digits_of, star_of (cats [lit '' '', digits_of]), LineEnd]"

definition mask_pids :: "string \<Rightarrow> string" where
  "mask_pids m = re_sub (digits_of, [Lit ''<PID>'']) m"

definition scrub_bare_pids :: "string \<Rightarrow> string" where
  "scrub_bare_pids t = sub_from BARE_PID_LINE (\<lambda>m g. mask_pids m) [] t"

definition LINE_SUBS :: "regex_sub list" where
  "LINE_SUBS = [BASH_JOB_STATUS_LINE, BASH_PIPELINE_JOB_STATUS_LINE, GLOG_PREFIX, TERMINATING_PROCESS]"

definition residual_rules :: scrub_rules where
  "residual_rules =
    \<lparr>sc_pid_producing = re_search PID_PRODUCING_COMMAND, sc_bare_pids = scrub_bare_pids,
     sc_residual = map re_sub RESIDUAL_OBSERVATION_SUBS, sc_line = map re_sub LINE_SUBS,
     sc_dropped = map full_match DROPPED_LINE_PATTERNS\<rparr>"

section \<open>The table is well formed\<close>

lemmas residual_table = RESIDUAL_OBSERVATION_SUBS_def ADDRESS_IDENTITY_SUBS_def TORCHELASTIC_REPORT_SUBS_def
  WALL_CLOCK_SUBS_def NETWORK_DRIFT_SUBS_def FILESYSTEM_METADATA_SUBS_def TOOL_RANDOMNESS_SUBS_def
  PROCESS_IDENTITY_SUBS_def PRESENTATION_SUBS_def RUNNER_RANDOMNESS_SUBS_def

lemmas line_table = LINE_SUBS_def BASH_JOB_STATUS_LINE_def BASH_PIPELINE_JOB_STATUS_LINE_def GLOG_PREFIX_def
  TERMINATING_PROCESS_def job_states_def

lemmas rx_builders = digits_of_def digits_up_to_def spaces_def maybe_spaces_def non_spaces_def star_of_def plus_of_def
  opt_of_def times_of_def timing_words_def timing_units_def clock_stamp_def dotted_quad_def month_names_def behind_tmp_def

lemma reps_consume_seq [simp]:
  "reps_consume (cats rs) \<longleftrightarrow> list_all reps_consume rs" "reps_consume (ors rs) \<longleftrightarrow> list_all reps_consume rs"
  "min_width (cats rs) = sum_list (map min_width rs)"
  "rs \<noteq> [] \<Longrightarrow> 0 < min_width (ors rs) \<longleftrightarrow> list_all (\<lambda>r. 0 < min_width r) rs"
proof -
  show "reps_consume (cats rs) \<longleftrightarrow> list_all reps_consume rs" "min_width (cats rs) = sum_list (map min_width rs)"
    by (induction rs rule: cats.induct) simp_all
  show "reps_consume (ors rs) \<longleftrightarrow> list_all reps_consume rs"
    "rs \<noteq> [] \<Longrightarrow> 0 < min_width (ors rs) \<longleftrightarrow> list_all (\<lambda>r. 0 < min_width r) rs"
    by (induction rs rule: ors.induct) simp_all
qed

lemma lit_width [simp]:
  "reps_consume (lit s)" "reps_consume (lit_ci s)" "min_width (lit s) = length s" "min_width (lit_ci s) = length s"
  by (simp_all add: lit_def lit_ci_def list_all_iff sum_list_triv o_def)

lemma table_consumes:
  "list_all (\<lambda>r. reps_consume (fst r)) RESIDUAL_OBSERVATION_SUBS" "list_all (\<lambda>r. reps_consume (fst r)) LINE_SUBS"
  "list_all reps_consume DROPPED_LINE_PATTERNS" "reps_consume BARE_PID_LINE" "reps_consume PID_PRODUCING_COMMAND"
  by (simp_all add: residual_table line_table DROPPED_LINE_PATTERNS_def BARE_PID_LINE_def PID_PRODUCING_COMMAND_def rx_builders)

section \<open>Bare process ids are erased\<close>

definition pid_words :: "string list \<Rightarrow> bool" where
  "pid_words ws \<longleftrightarrow> ws \<noteq> [] \<and> list_all (\<lambda>w. w \<noteq> [] \<and> list_all digit_class w) ws"

definition line_of_words :: "string list \<Rightarrow> string" where
  "line_of_words ws = join_str '' '' ws"

lemma digits_span: "(c, c') \<in> spans digits_of \<longleftrightarrow> (\<exists>w. w \<noteq> [] \<and> list_all digit_class w \<and> crosses c w c')"
  unfolding digits_of_def by (rule plus_class_span)

lemma space_digits_span:
  "(c, c') \<in> spans (cats [lit '' '', digits_of]) \<longleftrightarrow>
     (\<exists>w. w \<noteq> [] \<and> list_all digit_class w \<and> crosses c (CHR '' '' # w) c')"
proof -
  have "(c, d) \<in> spans (lit '' '') \<longleftrightarrow> crosses c '' '' d" for d
    by (auto simp: lit_def crosses_def)
  then have "(c, c') \<in> spans (cats [lit '' '', digits_of]) \<longleftrightarrow>
      (\<exists>w. w \<noteq> [] \<and> list_all digit_class w \<and> (\<exists>d. crosses c '' '' d \<and> crosses d w c'))"
    by (simp only: cats.simps spans.simps relcomp_unfold digits_span mem_Collect_eq prod.case) blast
  then show ?thesis unfolding crosses_compose by simp
qed

lemma more_pids_span:
  "(c, c') \<in> spans (cats [lit '' '', digits_of]) ^^ n \<longleftrightarrow>
     (\<exists>ws. length ws = n \<and> list_all (\<lambda>w. w \<noteq> [] \<and> list_all digit_class w) ws \<and>
        crosses c (concat (map (\<lambda>w. CHR '' '' # w) ws)) c')"
proof (induction n arbitrary: c)
  case 0
  then show ?case by (auto simp: crosses_def prod_eq_iff)
next
  case (Suc n)
  have "(c, c') \<in> spans (cats [lit '' '', digits_of]) ^^ Suc n \<longleftrightarrow>
      (\<exists>d. (c, d) \<in> spans (cats [lit '' '', digits_of]) \<and> (d, c') \<in> spans (cats [lit '' '', digits_of]) ^^ n)"
    using relpow_Suc_D2 relpow_Suc_I2 by (metis (no_types, lifting))
  also have "\<dots> \<longleftrightarrow> (\<exists>w ws. w \<noteq> [] \<and> list_all digit_class w \<and> length ws = n \<and>
      list_all (\<lambda>w. w \<noteq> [] \<and> list_all digit_class w) ws \<and>
      (\<exists>d. crosses c (CHR '' '' # w) d \<and> crosses d (concat (map (\<lambda>w. CHR '' '' # w) ws)) c'))"
    unfolding space_digits_span Suc.IH by blast
  also have "\<dots> \<longleftrightarrow> (\<exists>ws. length ws = Suc n \<and> list_all (\<lambda>w. w \<noteq> [] \<and> list_all digit_class w) ws \<and>
      crosses c (concat (map (\<lambda>w. CHR '' '' # w) ws)) c')"
    unfolding crosses_compose ex_Suc_list by (simp, blast)
  finally show ?case .
qed

lemma line_of_words_Cons: "line_of_words (w # ws) = w @ concat (map (\<lambda>w. CHR '' '' # w) ws)"
  unfolding line_of_words_def by (induction ws arbitrary: w) simp_all

lemma bare_pid_span:
  "(c, c') \<in> spans BARE_PID_LINE \<longleftrightarrow>
     at_nl (fst c) \<and> at_nl (snd c') \<and> (\<exists>ws. pid_words ws \<and> crosses c (line_of_words ws) c')"
proof -
  have "(c, c') \<in> spans BARE_PID_LINE \<longleftrightarrow> at_nl (fst c) \<and> at_nl (snd c') \<and>
      (\<exists>d n. (c, d) \<in> spans digits_of \<and> (d, c') \<in> spans (cats [lit '' '', digits_of]) ^^ n)"
    unfolding BARE_PID_LINE_def star_of_def cats.simps(3) [of LineStart] cats.simps(3) [of digits_of]
      cats.simps(2) [of LineEnd] cats.simps(3) [of "Rep a b c" for a b c]
    by (auto simp: rounds_ok_def simp del: cats.simps)
  also have "\<dots> \<longleftrightarrow> at_nl (fst c) \<and> at_nl (snd c') \<and>
      (\<exists>w ws. pid_words (w # ws) \<and> (\<exists>d. crosses c w d \<and> crosses d (concat (map (\<lambda>w. CHR '' '' # w) ws)) c'))"
    unfolding digits_span more_pids_span pid_words_def by auto
  also have "\<dots> \<longleftrightarrow> at_nl (fst c) \<and> at_nl (snd c') \<and> (\<exists>ws. pid_words ws \<and> crosses c (line_of_words ws) c')"
    unfolding crosses_compose line_of_words_Cons [symmetric] by (metis pid_words_def neq_Nil_conv)
  finally show ?thesis .
qed

lemma digit_plain: "digit_class c \<Longrightarrow> c \<noteq> nl \<and> c \<noteq> CHR 0x0D \<and> c \<noteq> CHR '' '' \<and> c \<noteq> CHR '':''"
  by (auto simp: digit_class_def between_def nl_def)

lemma line_of_words_plain:
  assumes "pid_words ws"
  shows "line_of_words ws \<noteq> []" "nl \<notin> set (line_of_words ws)" "CHR 0x0D \<notin> set (line_of_words ws)"
proof -
  obtain w us where ws: "ws = w # us" using assms by (cases ws) (auto simp: pid_words_def)
  have "x \<noteq> nl \<and> x \<noteq> CHR 0x0D" if "x \<in> set (line_of_words ws)" for x
  proof -
    from that have "x = CHR '' '' \<or> (\<exists>v \<in> set ws. x \<in> set v)" by (auto simp: ws line_of_words_Cons split: if_splits)
    with assms digit_plain show ?thesis by (auto simp: pid_words_def list_all_iff nl_def)
  qed
  then show "nl \<notin> set (line_of_words ws)" "CHR 0x0D \<notin> set (line_of_words ws)" by blast+
  show "line_of_words ws \<noteq> []" using assms by (simp add: ws line_of_words_Cons pid_words_def)
qed

lemma line_head: "nl \<notin> set u \<Longrightarrow> at_nl v \<Longrightarrow> takeWhile (\<lambda>x. x \<noteq> nl) (u @ v) = u \<and> dropWhile (\<lambda>x. x \<noteq> nl) (u @ v) = v"
  by (induction u) (auto simp: at_nl_def split: list.splits)

lemma at_nl_drop: "at_nl (dropWhile (\<lambda>x. x \<noteq> nl) a)"
  by (induction a) (simp_all add: at_nl_def)

text \<open>The rule matches a whole line or nothing.\<close>

definition pid_line :: "string \<Rightarrow> bool" where
  "pid_line l \<longleftrightarrow> full_match BARE_PID_LINE l"

lemma bare_pid_span_line:
  "(c, c') \<in> spans BARE_PID_LINE \<longleftrightarrow>
     at_nl (fst c) \<and> (\<exists>ws. pid_words ws \<and> takeWhile (\<lambda>x. x \<noteq> nl) (snd c) = line_of_words ws) \<and>
     c' = (rev (takeWhile (\<lambda>x. x \<noteq> nl) (snd c)) @ fst c, dropWhile (\<lambda>x. x \<noteq> nl) (snd c))" (is "?l \<longleftrightarrow> ?r")
proof
  assume ?l
  then obtain ws where w: "at_nl (fst c)" "at_nl (snd c')" "pid_words ws" "crosses c (line_of_words ws) c'"
    by (auto simp: bare_pid_span)
  then have "snd c = line_of_words ws @ snd c'" "fst c' = rev (line_of_words ws) @ fst c" by (simp_all add: crosses_def)
  with w line_head [OF line_of_words_plain(2) [OF w(3)] w(2)] show ?r by (cases c') auto
next
  assume r: ?r
  then have "crosses c (takeWhile (\<lambda>x. x \<noteq> nl) (snd c)) c'" by (simp add: crosses_def)
  with r at_nl_drop [of "snd c"] show ?l unfolding bare_pid_span by auto
qed

lemma pid_line_iff:
  assumes "nl \<notin> set l"
  shows "pid_line l \<longleftrightarrow> (\<exists>ws. pid_words ws \<and> l = line_of_words ws)"
proof -
  have "takeWhile (\<lambda>x. x \<noteq> nl) l = l" "dropWhile (\<lambda>x. x \<noteq> nl) l = []"
    using line_head [OF assms, of "[]"] by (simp_all add: at_nl_def)
  then have "(([], l), (b, [])) \<in> spans BARE_PID_LINE \<longleftrightarrow> b = rev l \<and> (\<exists>ws. pid_words ws \<and> l = line_of_words ws)" for b
    by (simp only: bare_pid_span_line fst_conv snd_conv at_nl_def list.case append_Nil2 prod.inject simp_thms) blast
  then show ?thesis unfolding pid_line_def full_match_span [OF table_consumes(4)] by blast
qed

lemma bare_pid_match:
  assumes "nl \<notin> set l" and "at_nl t"
  shows "at_nl b \<Longrightarrow> pid_line l \<Longrightarrow> \<exists>g. match_at BARE_PID_LINE (b, l @ t) = Some ((rev l @ b, t), g)"
    "\<not> (at_nl b \<and> pid_line l) \<Longrightarrow> match_at BARE_PID_LINE (b, l @ t) = None"
proof -
  have span: "((b, l @ t), c') \<in> spans BARE_PID_LINE \<longleftrightarrow> at_nl b \<and> pid_line l \<and> c' = (rev l @ b, t)" for c'
    using line_head [OF assms] by (simp add: bare_pid_span_line pid_line_iff [OF assms(1)])
  show "\<exists>g. match_at BARE_PID_LINE (b, l @ t) = Some ((rev l @ b, t), g)" if "at_nl b" "pid_line l"
    using that by (intro match_at_unique table_consumes) (auto simp: span)
  show "match_at BARE_PID_LINE (b, l @ t) = None" if "\<not> (at_nl b \<and> pid_line l)"
    unfolding match_at_span(2) [OF table_consumes(4)] using that span by blast
qed

lemma pid_line_nonempty: "nl \<notin> set l \<Longrightarrow> pid_line l \<Longrightarrow> l \<noteq> []"
  using line_of_words_plain(1) by (auto simp: pid_line_iff)

lemma at_nl_behind: "nl \<notin> set u \<Longrightarrow> u \<noteq> [] \<Longrightarrow> \<not> at_nl (rev u @ b)"
  by (cases u rule: rev_cases) (auto simp: at_nl_def)

definition bare_line :: "string \<Rightarrow> string" where
  "bare_line l = (if pid_line l then mask_pids l else l)"

lemma sub_bare_line:
  assumes l: "nl \<notin> set l" and t: "at_nl t" and b: "at_nl b"
  shows "sub_from BARE_PID_LINE (\<lambda>m g. mask_pids m) b (l @ t) =
    bare_line l @ sub_from BARE_PID_LINE (\<lambda>m g. mask_pids m) (rev l @ b) t"
proof (cases "pid_line l")
  case True
  obtain g where g: "match_at BARE_PID_LINE (b, l @ t) = Some ((rev l @ b, t), g)"
    using bare_pid_match(1) [OF l t b True] by blast
  have "crosses (b, l @ t) l (rev l @ b, t)" by (simp add: crosses_def)
  from sub_from_hit [OF g this pid_line_nonempty [OF l True]] True show ?thesis by (simp add: bare_line_def)
next
  case False
  have "match_at BARE_PID_LINE (rev u @ b, v @ t) = None" if "l = u @ v" "v \<noteq> []" for u v
  proof (rule bare_pid_match(2) [OF _ t])
    show "nl \<notin> set v" using that l by simp
    show "\<not> (at_nl (rev u @ b) \<and> pid_line v)"
      using that l False at_nl_behind [of u b] by (cases "u = []") auto
  qed
  from sub_from_skip [OF this] False show ?thesis by (simp add: bare_line_def)
qed

lemma sub_bare_nl:
  assumes "nl \<notin> set l"
  shows "sub_from BARE_PID_LINE f (rev l @ b) (nl # t) = nl # sub_from BARE_PID_LINE f (nl # rev l @ b) t"
proof (rule sub_from_miss)
  have "\<not> pid_line []" using pid_line_nonempty [of "[]"] by auto
  then show "match_at BARE_PID_LINE (rev l @ b, nl # t) = None"
    using bare_pid_match(2) [of "[]" "nl # t" "rev l @ b"] by (simp add: at_nl_def)
qed

lemma sub_bare_end:
  assumes "nl \<notin> set l"
  shows "sub_from BARE_PID_LINE f (rev l @ b) [] = []"
proof (rule sub_from_end)
  have "\<not> pid_line []" using pid_line_nonempty [of "[]"] by auto
  then show "match_at BARE_PID_LINE (rev l @ b, []) = None"
    using bare_pid_match(2) [of "[]" "[]" "rev l @ b"] by (simp add: at_nl_def)
qed

text \<open>The substitution over a whole text is the substitution line by line.\<close>

lemma scrub_bare_lines:
  assumes "ls \<noteq> []" and "\<And>l. l \<in> set ls \<Longrightarrow> nl \<notin> set l"
  shows "scrub_bare_pids (join_nl ls) = join_nl (map bare_line ls)"
proof -
  have "at_nl b \<Longrightarrow> sub_from BARE_PID_LINE (\<lambda>m g. mask_pids m) b (join_nl ls) = join_nl (map bare_line ls)" for b
    using assms
  proof (induction ls arbitrary: b)
    case (Cons l ls)
    have l: "nl \<notin> set l" using Cons.prems by simp
    show ?case
    proof (cases "ls = []")
      case True
      with sub_bare_line [OF l _ Cons.prems(1), of "[]"] show ?thesis by (simp add: sub_bare_end [OF l] at_nl_def)
    next
      case False
      have "at_nl (nl # rev l @ b)" "at_nl (nl # join_nl ls)" by (simp_all add: at_nl_def)
      with False Cons sub_bare_line [OF l _ Cons.prems(1)] show ?thesis by (simp add: sub_bare_nl [OF l])
    qed
  qed simp
  then show ?thesis by (simp add: scrub_bare_pids_def at_nl_def)
qed

lemma mask_words:
  assumes "list_all (\<lambda>w. w \<noteq> [] \<and> list_all digit_class w) (w # ws)"
  shows "sub_from digits_of (\<lambda>m g. expand [Lit ''<PID>''] g) b (line_of_words (w # ws)) =
    line_of_words (map (\<lambda>_. ''<PID>'') (w # ws))"
  using assms
proof (induction ws arbitrary: w b)
  case Nil
  then have "match_at digits_of (b, w @ []) = Some ((rev w @ b, []), [])"
    unfolding digits_of_def by (intro match_plus_class) auto
  moreover have "match_at digits_of (rev w @ b, []) = None"
    unfolding digits_of_def by (intro match_plus_class_miss) simp
  ultimately show ?case
    using Nil by (simp add: line_of_words_def sub_from_hit [where w = w] crosses_def sub_from_end)
next
  case (Cons v ws)
  let ?t = "CHR '' '' # line_of_words (v # ws)"
  have split: "line_of_words (w # v # ws) = w @ ?t" by (simp add: line_of_words_def)
  have blank: "\<not> digit_class (CHR '' '')" using digit_plain by blast
  have "match_at digits_of (b, w @ ?t) = Some ((rev w @ b, ?t), [])"
    unfolding digits_of_def by (intro match_plus_class) (use Cons.prems blank in auto)
  moreover have "match_at digits_of (rev w @ b, ?t) = None"
    unfolding digits_of_def by (intro match_plus_class_miss) (simp add: blank)
  ultimately show ?case
    using Cons.prems Cons.IH [of v "CHR '' '' # rev w @ b"]
    unfolding split by (simp add: sub_from_hit [where w = w] crosses_def sub_from_miss) (simp add: line_of_words_def)
qed

lemma mask_line: "pid_words ws \<Longrightarrow> mask_pids (line_of_words ws) = line_of_words (map (\<lambda>_. ''<PID>'') ws)"
  using mask_words by (cases ws) (auto simp: mask_pids_def re_sub_def pid_words_def)

definition pid_twins :: "string \<Rightarrow> string \<Rightarrow> bool" where
  "pid_twins l l' \<longleftrightarrow> l = l' \<or> (\<exists>ws ws'. pid_words ws \<and> pid_words ws' \<and> length ws = length ws' \<and>
     l = line_of_words ws \<and> l' = line_of_words ws')"

lemma bare_line_twins: "pid_twins l l' \<Longrightarrow> nl \<notin> set l \<Longrightarrow> nl \<notin> set l' \<Longrightarrow> bare_line l = bare_line l'"
proof -
  assume l: "nl \<notin> set l" "nl \<notin> set l'" and "pid_twins l l'"
  then consider "l = l'" | ws ws' where "pid_words ws" "pid_words ws'" "length ws = length ws'"
      "l = line_of_words ws" "l' = line_of_words ws'"
    unfolding pid_twins_def by blast
  then show ?thesis
  proof cases
    case 2
    then have "pid_line l" "pid_line l'" using pid_line_iff l by blast+
    with 2 show ?thesis by (simp add: bare_line_def mask_line map_replicate_const)
  qed simp
qed

lemma scrub_pid_twins:
  assumes "re_search PID_PRODUCING_COMMAND c" and "list_all2 pid_twins ls ls'" and "ls \<noteq> []"
    and "\<And>l. l \<in> set (ls @ ls') \<Longrightarrow> nl \<notin> set l"
  shows "scrub_nondeterminism residual_rules (Some c) (join_nl ls) = scrub_nondeterminism residual_rules (Some c) (join_nl ls')"
proof -
  have "map bare_line ls = map bare_line ls'"
    using assms(2,4) by (induction rule: list_all2_induct) (simp_all add: bare_line_twins)
  moreover have "ls' \<noteq> []" using assms(2,3) by auto
  ultimately have "scrub_bare_pids (join_nl ls) = scrub_bare_pids (join_nl ls')"
    using assms(3,4) by (simp add: scrub_bare_lines)
  with assms(1) show ?thesis by (simp add: scrub_nondeterminism_def residual_rules_def)
qed

section \<open>Texts the table leaves alone\<close>

definition quiet_chars :: string where
  "quiet_chars = ''0123456789<PID>'' @ [CHR 0x0D, CHR 0x0A]"

lemma blocked_seq [simp]:
  "blocked (cats rs) S \<longleftrightarrow> list_ex (\<lambda>r. blocked r S) rs"
  "rs \<noteq> [] \<Longrightarrow> blocked (ors rs) S \<longleftrightarrow> list_all (\<lambda>r. blocked r S) rs"
proof -
  show "blocked (cats rs) S \<longleftrightarrow> list_ex (\<lambda>r. blocked r S) rs" by (induction rs rule: cats.induct) auto
  show "rs \<noteq> [] \<Longrightarrow> blocked (ors rs) S \<longleftrightarrow> list_all (\<lambda>r. blocked r S) rs" by (induction rs rule: ors.induct) auto
qed

lemma blocked_lit [simp]:
  "blocked (lit s) S \<longleftrightarrow> list_ex (\<lambda>c. c \<notin> set S) s"
  "blocked (lit_ci s) S \<longleftrightarrow> list_ex (\<lambda>c. list_all (\<lambda>d. lower_char d \<noteq> lower_char c) S) s"
  by (auto simp: lit_def lit_ci_def list_ex_iff list_all_iff)

lemma table_blocked:
  "list_all (\<lambda>r. blocked (fst r) quiet_chars) RESIDUAL_OBSERVATION_SUBS"
  "list_all (\<lambda>r. blocked (fst r) quiet_chars) LINE_SUBS"
  "list_all (\<lambda>r. blocked r quiet_chars) DROPPED_LINE_PATTERNS"
  by (simp_all add: residual_table line_table DROPPED_LINE_PATTERNS_def rx_builders quiet_chars_def
      lower_char_def between_def hex_class_def one_of_def digit_class_def char_of_eq_iff take_bit_eq_mod)

lemma list_all_both: "list_all P xs \<Longrightarrow> list_all Q xs \<Longrightarrow> list_all (\<lambda>x. P x \<and> Q x) xs"
  by (simp add: list_all_iff)

lemma quiet_subs:
  assumes "set t \<subseteq> set quiet_chars"
  shows "fold (\<lambda>f t. f t) (map re_sub RESIDUAL_OBSERVATION_SUBS) t = t" "fold (\<lambda>f t. f t) (map re_sub LINE_SUBS) t = t"
    "r \<in> set DROPPED_LINE_PATTERNS \<Longrightarrow> \<not> full_match r t"
proof -
  show "fold (\<lambda>f t. f t) (map re_sub RESIDUAL_OBSERVATION_SUBS) t = t" "fold (\<lambda>f t. f t) (map re_sub LINE_SUBS) t = t"
    using fold_re_sub_blocked [OF list_all_both [OF table_consumes(1) table_blocked(1)] assms]
      fold_re_sub_blocked [OF list_all_both [OF table_consumes(2) table_blocked(2)] assms] by blast+
  show "\<not> full_match r t" if "r \<in> set DROPPED_LINE_PATTERNS"
    using that table_consumes(3) table_blocked(3) assms full_match_blocked unfolding list_all_iff by blast
qed

lemma no_colon_no_header: "CHR '':'' \<notin> set l \<Longrightarrow> header_match l = None"
proof -
  assume l: "CHR '':'' \<notin> set l"
  let ?s = "rstrip_ws l"
  have sub: "set (dropWhile header_char ?s) \<subseteq> set l" using set_dropWhileD rstrip_ws_subset by fast
  have "hd (dropWhile header_char ?s) \<noteq> CHR '':''" if "dropWhile header_char ?s \<noteq> []"
    using hd_in_set [OF that] sub l by auto
  then show ?thesis by (auto simp: header_match_def Let_def)
qed

lemma structural_id:
  assumes "\<And>l. l \<in> set ls \<Longrightarrow> header_match l = None"
  shows "canonicalize_structural_headers ls = ls"
proof (rule nth_equalityI)
  show "canonicalize_structural_headers ls ! i = ls ! i" if "i < length (canonicalize_structural_headers ls)" for i
    using that assms structural_line(1) [of i ls] by simp
qed simp

lemma unify_subset: "set (unify_newlines s) \<subseteq> insert nl (set s)"
  by (induction s rule: unify_newlines.induct) auto

lemma quiet_text:
  assumes "set t \<subseteq> set quiet_chars"
  shows "scrub_nondeterminism residual_rules None t = unify_newlines t"
proof -
  let ?ls = "split_nl (unify_newlines t)"
  have q: "nl \<in> set quiet_chars" "CHR '':'' \<notin> set quiet_chars" by (simp_all add: quiet_chars_def nl_def)
  have sub: "set l \<subseteq> set quiet_chars" if "l \<in> set ?ls" for l
    using assms q(1) unify_subset [of t] set_split_nl [OF that] by blast
  then have "header_match l = None" if "l \<in> set ?ls" for l
    using that q(2) by (intro no_colon_no_header) blast
  then have h: "canonicalize_structural_headers ?ls = ?ls" by (rule structural_id)
  have m: "map (\<lambda>l. fold (\<lambda>f t. f t) (map re_sub LINE_SUBS) l) ?ls = ?ls"
    using quiet_subs(2) sub by (intro map_idI) blast
  have f: "filter (\<lambda>l. \<not> (\<exists>p \<in> set (map full_match DROPPED_LINE_PATTERNS). p l)) ?ls = ?ls"
    using quiet_subs(3) sub by (intro filter_True) auto
  show ?thesis
    by (simp only: scrub_nondeterminism_def residual_rules_def Let_def option.case scrub_rules.select_convs
        quiet_subs(1) [OF assms] h m f join_split_nl)
qed

lemma scrub_pid_command:
  "re_search PID_PRODUCING_COMMAND c \<Longrightarrow>
     scrub_nondeterminism residual_rules (Some c) t = scrub_nondeterminism residual_rules None (scrub_bare_pids t)"
  by (simp add: scrub_nondeterminism_def residual_rules_def)

lemma digits_quiet: "list_all digit_class p \<Longrightarrow> set p \<subseteq> set quiet_chars"
proof -
  have "d \<in> set quiet_chars" if "digit_class d" for d
  proof -
    have "(of_char d :: nat) \<in> set [48..<58]" using that unfolding digit_class_def between_def
      by (simp only: set_upt atLeastAtMost_iff atLeastLessThan_iff, intro conjI TrueI, linarith+)
    then have "d \<in> set (map char_of [48..<58 :: nat])" by (metis char_of_char image_eqI list.set_map)
    moreover have "map char_of [48..<58 :: nat] = ''0123456789''"
      by (simp add: upt_rec char_of_eq_iff take_bit_eq_mod)
    moreover have "set ''0123456789'' \<subseteq> set quiet_chars" by (simp add: quiet_chars_def)
    ultimately show ?thesis by (metis subsetD)
  qed
  then show "list_all digit_class p \<Longrightarrow> set p \<subseteq> set quiet_chars" by (auto simp: list_all_iff)
qed

lemma scrub_lone_pid:
  assumes c: "re_search PID_PRODUCING_COMMAND c" and p: "p \<noteq> []" "list_all digit_class p"
  shows "scrub_nondeterminism residual_rules (Some c) (p @ [CHR 0x0D, nl]) = p @ [nl]"
    "scrub_nondeterminism residual_rules (Some c) (p @ [nl]) = ''<PID>'' @ [nl]"
proof -
  have ws: "pid_words [p]" "line_of_words [p] = p" using p by (simp_all add: pid_words_def line_of_words_def)
  have plain: "nl \<notin> set p" "CHR 0x0D \<notin> set p" using line_of_words_plain [OF ws(1)] ws(2) by simp_all
  have "pid_line p" using pid_line_iff [OF plain(1)] ws by metis
  then have bare: "bare_line p = ''<PID>''" using mask_line [OF ws(1)] by (simp add: bare_line_def ws(2)) (simp add: line_of_words_def)
  have cr: "nl \<notin> set (p @ [CHR 0x0D])" using plain by (simp add: nl_def)
  have "\<not> pid_line (p @ [CHR 0x0D])"
  proof
    assume "pid_line (p @ [CHR 0x0D])"
    then obtain us where "pid_words us" "p @ [CHR 0x0D] = line_of_words us" using pid_line_iff [OF cr] by blast
    with line_of_words_plain(3) show False by (metis in_set_conv_decomp)
  qed
  moreover have "\<not> pid_line []" using pid_line_nonempty [of "[]"] by auto
  ultimately have still: "bare_line (p @ [CHR 0x0D]) = p @ [CHR 0x0D]" "bare_line [] = []" by (simp_all add: bare_line_def)
  have "scrub_bare_pids (join_nl [p @ [CHR 0x0D], []]) = join_nl [p @ [CHR 0x0D], []]"
    using cr by (subst scrub_bare_lines) (auto simp: still)
  moreover have "scrub_bare_pids (join_nl [p, []]) = join_nl [''<PID>'', []]"
    using plain(1) by (subst scrub_bare_lines) (auto simp: still bare)
  ultimately have masked: "scrub_bare_pids (p @ [CHR 0x0D, nl]) = p @ [CHR 0x0D, nl]" "scrub_bare_pids (p @ [nl]) = ''<PID>'' @ [nl]"
    by (simp_all add: join_nl_def)
  have quiet: "set (p @ [CHR 0x0D, nl]) \<subseteq> set quiet_chars" "set (''<PID>'' @ [nl]) \<subseteq> set quiet_chars"
    using digits_quiet [OF p(2)] by (simp_all add: quiet_chars_def nl_def)
  have "CHR 0x0D \<notin> set q \<Longrightarrow> unify_newlines (q @ [CHR 0x0D, nl]) = q @ [nl]" for q
    by (induction q rule: unify_newlines.induct) (auto simp: nl_def)
  from this [OF plain(2)] show "scrub_nondeterminism residual_rules (Some c) (p @ [CHR 0x0D, nl]) = p @ [nl]"
    by (simp only: scrub_pid_command [OF c] masked quiet_text [OF quiet(1)])
  have "unify_newlines (''<PID>'' @ [nl]) = ''<PID>'' @ [nl]" by (intro unify_plain) (simp add: nl_def)
  then show "scrub_nondeterminism residual_rules (Some c) (p @ [nl]) = ''<PID>'' @ [nl]"
    by (simp only: scrub_pid_command [OF c] masked quiet_text [OF quiet(2)])
qed

text \<open>
  C21. For every command that prints process ids, two outputs that agree line by line except for the
  ids on their lines of ids scrub to the same text: neither the agent nor a recorded chain can tell
  the runs apart, whatever ids the kernel assigned.
\<close>

theorem bare_pids_erased:
  assumes "re_search PID_PRODUCING_COMMAND c" and "list_all2 pid_twins ls ls'" and "ls \<noteq> []"
    and "\<And>l. l \<in> set (ls @ ls') \<Longrightarrow> nl \<notin> set l"
  shows "scrub_nondeterminism residual_rules (Some c) (join_nl ls) = scrub_nondeterminism residual_rules (Some c) (join_nl ls')"
  using assms by (rule scrub_pid_twins)

theorem bare_pids_erased_witness:
  "scrub_nondeterminism residual_rules (Some ''server & echo $!'') (join_nl [''up'', ''41 42'', []]) =
   scrub_nondeterminism residual_rules (Some ''server & echo $!'') (join_nl [''up'', ''7 12345'', []])"
proof (rule bare_pids_erased)
  show "re_search PID_PRODUCING_COMMAND ''server & echo $!''" by code_simp
  have "pid_words [''41'', ''42'']" "pid_words [''7'', ''12345'']"
    by (simp_all add: pid_words_def digit_class_def between_def)
  moreover have "''41 42'' = line_of_words [''41'', ''42'']" "''7 12345'' = line_of_words [''7'', ''12345'']"
    by (simp_all add: line_of_words_def)
  ultimately have "pid_twins ''41 42'' ''7 12345''"
    unfolding pid_twins_def by (intro disjI2 exI [of _ "[''41'', ''42'']"] exI [of _ "[''7'', ''12345'']"]) simp
  then show "list_all2 pid_twins [''up'', ''41 42'', []] [''up'', ''7 12345'', []]" by (simp add: pid_twins_def)
qed (auto simp: nl_def)

text \<open>
  The scrubber is not idempotent: a lone process id printed with a carriage return survives the
  first pass as the bare line it becomes, and is masked by the second. A recorded digest is taken of
  text scrubbed once, a replayed one of text scrubbed twice, so such an output drifts in every
  deterministic environment.
\<close>

lemma carriage_return_defeats_scrub:
  assumes "re_search PID_PRODUCING_COMMAND c" and "p \<noteq> []" and "list_all digit_class p"
  shows "scrub_nondeterminism residual_rules (Some c) (p @ [CHR 0x0D, nl]) = p @ [nl] \<and>
    scrub_nondeterminism residual_rules (Some c) (scrub_nondeterminism residual_rules (Some c) (p @ [CHR 0x0D, nl])) =
      ''<PID>'' @ [nl] \<and>
    \<not> scrub_idempotent residual_rules"
proof -
  note s = scrub_lone_pid [OF assms]
  have "CHR ''<'' \<notin> set p" using assms(3) by (auto simp: list_all_iff digit_class_def between_def)
  then have "p @ [nl] \<noteq> ''<PID>'' @ [nl]" by (cases p) auto
  with s have "\<not> scrub_idempotent residual_rules" unfolding scrub_idempotent_def by metis
  then show ?thesis by (simp only: s simp_thms)
qed

lemma carriage_return_defeats_scrub_witness:
  "scrub_nondeterminism residual_rules (Some ''pidof init'') (''1'' @ [CHR 0x0D, nl]) = ''1'' @ [nl] \<and>
   \<not> scrub_idempotent residual_rules"
proof -
  have "re_search PID_PRODUCING_COMMAND ''pidof init''" by code_simp
  moreover have "list_all digit_class ''1''" by (simp add: digit_class_def between_def)
  ultimately show ?thesis using carriage_return_defeats_scrub [of "''pidof init''" "''1''"] by blast
qed

end
