(* ===== verification/HttpsCache.thy ===== *)
theory HttpsCache
  imports JsonRead Bytes
begin

text \<open>
  \<open>src/env/netcache/mitm_https_cache.py\<close>: the proxy addon that freezes the network. A response is
  stored under a digest of scope, method and canonical URL; the first one written is served for
  ever after. The addon's hooks are modelled in the order the proxy drives them, one exchange at a
  time, with the cache directory and the scopes of the clients as state; an exception of a hook is logged
  by the proxy, which goes on with the exchange as the hook left it. The header container
  belongs to the proxy library: it is a record of operations, relied on by \<open>headers_behave\<close>. Headers and URLs come
  from bytes the library decodes as UTF-8, undecodable bytes as surrogates; a text here is those bytes.
\<close>

section \<open>URLs\<close>

text \<open>Python's \<open>urlsplit\<close> and \<open>urlunsplit\<close>; a bracketed host is accepted without reading the address.\<close>

record url_parts =
  up_scheme :: string
  up_netloc :: string
  up_path :: string
  up_query :: string

definition partition_at :: "char \<Rightarrow> string \<Rightarrow> string \<times> bool \<times> string" where
  "partition_at c s = (takeWhile (\<lambda>x. x \<noteq> c) s, c \<in> set s, tl (dropWhile (\<lambda>x. x \<noteq> c) s))"

definition scheme_char :: "char \<Rightarrow> bool" where
  "scheme_char c \<longleftrightarrow> is_alpha c \<or> c \<in> set ''0123456789+-.''"

definition scheme_of :: "string \<Rightarrow> string option" where
  "scheme_of url =
     (let (pre, found, post) = partition_at (CHR '':'') url
      in if found \<and> pre \<noteq> [] \<and> is_alpha (hd pre) \<and> list_all scheme_char pre then Some pre else None)"

definition urlsplit :: "string \<Rightarrow> exc + url_parts" where
  "urlsplit s =
     (let url = filter (\<lambda>c. c \<notin> {CHR 0x09, CHR 0x0A, CHR 0x0D}) (dropWhile (\<lambda>c. of_char c \<le> (0x20 :: nat)) s);
          url1 = (case scheme_of url of None \<Rightarrow> url | Some p \<Rightarrow> drop (Suc (length p)) url);
          auth = take 2 url1 = ''//'';
          netloc = (if auth then takeWhile (\<lambda>c. c \<notin> set ''/?#'') (drop 2 url1) else []);
          url2 = (if auth then dropWhile (\<lambda>c. c \<notin> set ''/?#'') (drop 2 url1) else url1);
          url3 = fst (partition_at (CHR ''#'') url2);
          (path, _, query) = partition_at (CHR ''?'') url3
      in if (CHR ''['' \<in> set netloc) \<noteq> (CHR '']'' \<in> set netloc) then Inl (ValueError ''Invalid IPv6 URL'')
         else Inr \<lparr>up_scheme = (case scheme_of url of None \<Rightarrow> [] | Some p \<Rightarrow> lower_str p), up_netloc = netloc,
           up_path = path, up_query = query\<rparr>)"

text \<open>\<open>parsed.hostname\<close>, in lower case.\<close>

definition hostname_of :: "url_parts \<Rightarrow> string" where
  "hostname_of p =
     (let info = rev (takeWhile (\<lambda>c. c \<noteq> CHR ''@'') (rev (up_netloc p)));
          (_, bracket, inside) = partition_at (CHR ''['') info
      in lower_str (if bracket then fst (partition_at (CHR '']'') inside) else fst (partition_at (CHR '':'') info)))"

definition uses_netloc :: "string list" where
  "uses_netloc = [[], ''ftp'', ''http'', ''gopher'', ''nntp'', ''telnet'', ''imap'', ''wais'', ''file'', ''mms'', ''https'',
     ''shttp'', ''snews'', ''prospero'', ''rtsp'', ''rtsps'', ''rtspu'', ''rsync'', ''svn'', ''svn+ssh'', ''sftp'', ''nfs'',
     ''git'', ''git+ssh'', ''ws'', ''wss'', ''itms-services'']"

definition urlunsplit :: "string \<Rightarrow> string \<Rightarrow> string \<Rightarrow> string \<Rightarrow> string" where
  "urlunsplit scheme netloc path query =
     (let url = (if netloc \<noteq> [] then ''//'' @ netloc @ (if path \<noteq> [] \<and> hd path \<noteq> CHR ''/'' then ''/'' else []) @ path
                 else if take 2 path = ''//'' then ''//'' @ path
                 else if scheme \<noteq> [] \<and> scheme \<in> set uses_netloc \<and> (path = [] \<or> hd path = CHR ''/'') then ''//'' @ path
                 else path)
      in (if scheme \<noteq> [] then scheme @ '':'' else []) @ url @ (if query \<noteq> [] then ''?'' @ query else []))"

definition canonical_url :: "bool \<Rightarrow> url_parts \<Rightarrow> string" where
  "canonical_url keep_query p =
     urlunsplit (lower_str (up_scheme p)) (lower_str (up_netloc p)) (up_path p) (if keep_query then up_query p else [])"

section \<open>What may be cached\<close>

type_synonym http_headers = "(string \<times> string) list"

definition GITHUB_RELEASE_HOSTS :: "string list" where
  "GITHUB_RELEASE_HOSTS = [''objects.githubusercontent.com'', ''github-releases.githubusercontent.com'',
     ''release-assets.githubusercontent.com'']"

definition HOP_BY_HOP_HEADERS :: "string list" where
  "HOP_BY_HOP_HEADERS = [''connection'', ''content-length'', ''keep-alive'', ''proxy-authenticate'', ''proxy-authorization'',
     ''te'', ''trailer'', ''transfer-encoding'', ''upgrade'']"

definition VOLATILE_RESPONSE_HEADERS :: "string list" where
  "VOLATILE_RESPONSE_HEADERS = [''age'', ''date'', ''via'', ''server-timing'', ''x-served-by'', ''x-cache'', ''x-cache-hits'',
     ''x-timer'', ''x-request-id'', ''x-amzn-trace-id'', ''x-amz-request-id'', ''x-amz-id-2'', ''x-amz-cf-id'', ''x-amz-cf-pop'',
     ''x-fastly-request-id'', ''cf-ray'', ''x-github-request-id'', ''x-ratelimit-remaining'', ''x-ratelimit-reset'',
     ''x-ratelimit-used'']"

definition has_header :: "http_headers \<Rightarrow> string \<Rightarrow> bool" where
  "has_header hs name \<longleftrightarrow> list_ex (\<lambda>(n, _). lower_str n = name) hs"

fun split_comma :: "string \<Rightarrow> string list" where
  "split_comma [] = [[]]"
| "split_comma (c # cs) =
     (if c = CHR '','' then [] # split_comma cs
      else case split_comma cs of l # ls \<Rightarrow> (c # l) # ls | [] \<Rightarrow> [[c]])"

definition has_uncacheable_vary :: "http_headers \<Rightarrow> bool" where
  "has_uncacheable_vary hs \<longleftrightarrow>
     list_ex (\<lambda>(n, v). lower_str n = ''vary'' \<and>
       list_ex (\<lambda>t. t \<noteq> [] \<and> t \<noteq> ''accept-encoding'') (map (\<lambda>t. lower_str (strip_ws t)) (split_comma v))) hs"

definition cacheable_headers :: "http_headers \<Rightarrow> http_headers" where
  "cacheable_headers hs = filter (\<lambda>(n, _). lower_str n \<notin> set (HOP_BY_HOP_HEADERS @ VOLATILE_RESPONSE_HEADERS)) hs"

definition upper_str :: "string \<Rightarrow> string" where
  "upper_str s = map (\<lambda>c. if 97 \<le> (of_char c :: nat) \<and> (of_char c :: nat) \<le> 122 then char_of (of_char c - 32 :: nat) else c) s"

text \<open>\<open>sha\<close> is the hexadecimal SHA-256 of a text or of a body.\<close>

definition cache_url ::
    "(string \<Rightarrow> string) \<Rightarrow> string \<Rightarrow> string \<Rightarrow> http_headers \<Rightarrow> string \<Rightarrow> http_headers \<Rightarrow> exc + string option" where
  "cache_url sha meth url req_hs req_body resp_hs =
     (if has_header req_hs ''range'' then Inr None
      else if has_uncacheable_vary resp_hs \<or> has_header resp_hs ''content-encoding'' then Inr None
      else bind_res (urlsplit url) (\<lambda>p.
        let m = upper_str meth; host = hostname_of p
        in if m = ''GET'' then
             Inr (Some (canonical_url (\<not> (host \<in> set GITHUB_RELEASE_HOSTS \<or>
               (host = ''github.com'' \<and> contains_str ''/releases/download/'' (up_path p)))) p))
           else if m = ''POST'' then Inr (Some (canonical_url True p @ ''#body-sha256='' @ sha req_body))
           else Inr None))"

definition key_text :: "string \<Rightarrow> string \<Rightarrow> string \<Rightarrow> string" where
  "key_text scope meth url = scope @ [CHR 0x00] @ upper_str meth @ '' '' @ url"

definition entry_path :: "(string \<Rightarrow> string) \<Rightarrow> string \<Rightarrow> string \<Rightarrow> string \<Rightarrow> string" where
  "entry_path sha scope meth url = (let d = sha (key_text scope meth url) in take 2 d @ ''/'' @ d)"

text \<open>A surrogate cannot be encoded, so the key of a URL with undecodable bytes cannot be digested.\<close>

definition unencodable :: exc where
  "unencodable = OtherError ''UnicodeEncodeError'' []"

definition cache_entry_dir :: "(string \<Rightarrow> string) \<Rightarrow> string \<Rightarrow> string \<Rightarrow> string \<Rightarrow> exc + string" where
  "cache_entry_dir sha scope meth url =
     (if utf8_valid (key_text scope meth url) then Inr (entry_path sha scope meth url) else Inl unencodable)"

section \<open>The directory of entries\<close>

record cached_response =
  cr_status :: int
  cr_headers :: http_headers
  cr_body :: string

record cache_entry =
  ce_meta :: "string option"
  ce_body :: "string option"

type_synonym cache_disk = "string \<Rightarrow> cache_entry option"

text \<open>\<open>json.dumps(..., sort_keys=True)\<close> of status and headers.\<close>

definition header_text :: "string \<times> string \<Rightarrow> string" where
  "header_text h = ''['' @ quoted (fst h) @ '', '' @ quoted (snd h) @ '']''"

definition meta_text :: "int \<Rightarrow> http_headers \<Rightarrow> string" where
  "meta_text status hs =
     ''{'' @ quoted ''headers'' @ '': ['' @ join_str '', '' (map header_text hs) @ ''], '' @
     quoted ''status_code'' @ '': '' @ int_str status @ ''}''"

definition meta_json :: "int \<Rightarrow> http_headers \<Rightarrow> json" where
  "meta_json status hs =
     JObj [(''headers'', JArr (map (\<lambda>(n, v). JArr [JStr n, JStr v]) hs)), (''status_code'', JInt status)]"

definition header_of_json :: "json \<Rightarrow> (string \<times> string) option" where
  "header_of_json v = (case v of JArr [JStr n, JStr w] \<Rightarrow> Some (n, w) | _ \<Rightarrow> None)"

text \<open>A document of another shape, which the cache never writes, counts as unreadable.\<close>

definition meta_of_json :: "json \<Rightarrow> (int \<times> http_headers) option" where
  "meta_of_json v =
     (case v of
        JObj ms \<Rightarrow>
          (case (map_of ms ''status_code'', map_of ms ''headers'') of
             (Some (JInt i), Some (JArr hs)) \<Rightarrow>
               (if list_all (\<lambda>h. header_of_json h \<noteq> None) hs then Some (i, map (\<lambda>h. the (header_of_json h)) hs) else None)
           | _ \<Rightarrow> None)
      | _ \<Rightarrow> None)"

definition load_cached_response ::
    "(string \<Rightarrow> string) \<Rightarrow> (string \<Rightarrow> string + json) \<Rightarrow> cache_disk \<Rightarrow> string \<Rightarrow> string \<Rightarrow> http_headers \<Rightarrow> string \<Rightarrow>
       string \<Rightarrow> exc + cached_response option" where
  "load_cached_response sha ld disk meth url req_hs req_body scope =
     bind_res (cache_url sha meth url req_hs req_body []) (\<lambda>u.
       case u of
         None \<Rightarrow> Inr None
       | Some cu \<Rightarrow>
           bind_res (cache_entry_dir sha scope meth cu) (\<lambda>p. case disk p of
              Some e \<Rightarrow>
                (case (ce_meta e, ce_body e) of
                   (Some m, Some b) \<Rightarrow>
                     (case ld m of
                        Inr v \<Rightarrow> Inr (map_option (\<lambda>(i, hs). \<lparr>cr_status = i, cr_headers = hs, cr_body = b\<rparr>) (meta_of_json v))
                      | Inl _ \<Rightarrow> Inr None)
                 | _ \<Rightarrow> Inr None)
            | None \<Rightarrow> Inr None))"

text \<open>
  The write: \<open>d0\<close> is the directory when existence is checked, \<open>d\<close> when the finished entry is renamed
  into place; a rename onto an entry that another process wrote in between fails and counts as not
  stored. The file system may fail on the parent directory or on the files; an error number of an
  occupied target is swallowed (\<open>WriteFails None\<close>), any other is raised.
\<close>

datatype store_fault = NoFault | MkdirFails exc | WriteFails "exc option"

definition write_entry :: "store_fault \<Rightarrow> cache_disk \<Rightarrow> cache_disk \<Rightarrow> string \<Rightarrow> cache_entry \<Rightarrow> (exc + bool) \<times> cache_disk" where
  "write_entry fault d0 d p e =
     (case fault of
        MkdirFails x \<Rightarrow> (Inl x, d)
      | WriteFails (Some x) \<Rightarrow> (if d0 p \<noteq> None then (Inr False, d) else (Inl x, d))
      | WriteFails None \<Rightarrow> (Inr False, d)
      | NoFault \<Rightarrow> (if d0 p \<noteq> None \<or> d p \<noteq> None then (Inr False, d) else (Inr True, d(p \<mapsto> e))))"

definition store_cacheable_response ::
    "(string \<Rightarrow> string) \<Rightarrow> store_fault \<Rightarrow> cache_disk \<Rightarrow> cache_disk \<Rightarrow> string \<Rightarrow> string \<Rightarrow> http_headers \<Rightarrow> string \<Rightarrow> string \<Rightarrow>
       int \<Rightarrow> http_headers \<Rightarrow> string \<Rightarrow> (exc + bool) \<times> cache_disk" where
  "store_cacheable_response sha fault d0 d meth url req_hs req_body scope status hs body =
     (if status \<noteq> 200 then (Inr False, d)
      else case cache_url sha meth url req_hs req_body hs of
        Inl e \<Rightarrow> (Inl e, d)
      | Inr None \<Rightarrow> (Inr False, d)
      | Inr (Some cu) \<Rightarrow>
          (case cache_entry_dir sha scope meth cu of
             Inl e \<Rightarrow> (Inl e, d)
           | Inr p \<Rightarrow> write_entry fault d0 d p
               \<lparr>ce_meta = Some (meta_text status (cacheable_headers hs)), ce_body = Some body\<rparr>))"

section \<open>The client's scope\<close>

definition base64_alphabet :: string where
  "base64_alphabet = ''ABCDEFGHIJKLMNOPQRSTUVWXYZabcdefghijklmnopqrstuvwxyz0123456789+/''"

fun index_of :: "char \<Rightarrow> string \<Rightarrow> nat option" where
  "index_of c [] = None"
| "index_of c (x # xs) = (if x = c then Some 0 else map_option Suc (index_of c xs))"

definition six :: "char \<Rightarrow> nat option" where
  "six c = index_of c base64_alphabet"

definition byte_of :: "nat \<Rightarrow> char" where
  "byte_of n = char_of (n mod 256)"

text \<open>\<open>b64decode(token, validate=True)\<close>: \<open>None\<close> is its \<open>ValueError\<close>.\<close>

fun b64decode :: "string \<Rightarrow> string option" where
  "b64decode [] = Some []"
| "b64decode (a # b # c # d # rest) =
     (case (six a, six b) of
        (Some i, Some j) \<Rightarrow>
          (if c = CHR ''='' \<and> d = CHR ''='' \<and> rest = [] then Some [byte_of (4 * i + j div 16)]
           else case six c of
             None \<Rightarrow> None
           | Some k \<Rightarrow>
               (if d = CHR ''='' \<and> rest = [] then Some [byte_of (4 * i + j div 16), byte_of (16 * (j mod 16) + k div 4)]
                else case (six d, b64decode rest) of
                  (Some l, Some bs) \<Rightarrow>
                    Some (byte_of (4 * i + j div 16) # byte_of (16 * (j mod 16) + k div 4) # byte_of (64 * (k mod 4) + l) # bs)
                | _ \<Rightarrow> None))
      | _ \<Rightarrow> None)"
| "b64decode _ = None"

definition PROXY_AUTH_USER :: string where "PROXY_AUTH_USER = ''framework''"

definition scope_from_proxy_authorization :: "string option \<Rightarrow> string option" where
  "scope_from_proxy_authorization v =
     (case v of
        None \<Rightarrow> None
      | Some s \<Rightarrow>
          (let (scheme, _, token) = partition_at (CHR '' '') s
           in if s = [] \<or> lower_str scheme \<noteq> ''basic'' \<or> token = [] then None
              else case b64decode token of
                None \<Rightarrow> None
              | Some decoded \<Rightarrow>
                  (if \<not> utf8_valid decoded then None
                   else let (user, found, scope) = partition_at (CHR '':'') decoded
                        in if user = PROXY_AUTH_USER \<and> found \<and> scope \<noteq> [] then Some scope else None)))"

section \<open>The addon\<close>

text \<open>What the proxy library's header container offers the addon.\<close>

record 'h header_kit =
  hk_items :: "'h \<Rightarrow> http_headers"
  hk_get :: "'h \<Rightarrow> string \<Rightarrow> string option"
  hk_pop :: "string \<Rightarrow> 'h \<Rightarrow> 'h"
  hk_put :: "string \<Rightarrow> string \<Rightarrow> 'h \<Rightarrow> 'h"
  hk_make :: "http_headers \<Rightarrow> string \<Rightarrow> 'h"

record 'h http_response =
  hr_status :: int
  hr_headers :: 'h
  hr_content :: "string option"
  hr_stream :: bool

record 'h flow =
  pf_client :: nat
  pf_method :: string
  pf_url :: string
  pf_headers :: 'h
  pf_content :: "string option"
  pf_proxyauth :: "(string \<times> string) option"
  pf_hit :: bool
  pf_scope :: "string option"
  pf_original :: "string option"
  pf_response :: "'h http_response option"

type_synonym client_scopes = "nat \<Rightarrow> string option"

definition content_of :: "string option \<Rightarrow> string" where
  "content_of c = (case c of None \<Rightarrow> [] | Some b \<Rightarrow> b)"

definition cache_identity_url :: "'h flow \<Rightarrow> string" where
  "cache_identity_url fl = (case pf_original fl of Some u \<Rightarrow> u | None \<Rightarrow> pf_url fl)"

definition DEBIAN_POOL :: string where "DEBIAN_POOL = ''/debian/pool/''"

definition pinned_upstream_url :: "string \<Rightarrow> string \<Rightarrow> exc + string option" where
  "pinned_upstream_url mirror_host url =
     bind_res (urlsplit url) (\<lambda>p.
       Inr (if hostname_of p = ''deb.debian.org'' \<and> take (length DEBIAN_POOL) (up_path p) = DEBIAN_POOL \<and>
               drop (length DEBIAN_POOL) (up_path p) \<noteq> [] \<and> nl \<notin> set (up_path p)
            then Some (urlunsplit ''http'' mirror_host (up_path p) (up_query p)) else None))"

definition force_identity_accept_encoding :: "'h header_kit \<Rightarrow> 'h \<Rightarrow> 'h" where
  "force_identity_accept_encoding K h = hk_put K ''Accept-Encoding'' ''identity'' (hk_pop K ''accept-encoding'' h)"

definition flow_scope :: "'h header_kit \<Rightarrow> client_scopes \<Rightarrow> 'h flow \<Rightarrow> string option" where
  "flow_scope K cs fl =
     (case pf_proxyauth fl of
        Some (user, scope) \<Rightarrow>
          (if user = PROXY_AUTH_USER \<and> scope \<noteq> [] then Some scope
           else case scope_from_proxy_authorization (hk_get K (pf_headers fl) ''Proxy-Authorization'') of
             Some s \<Rightarrow> Some s | None \<Rightarrow> cs (pf_client fl))
      | None \<Rightarrow>
          (case scope_from_proxy_authorization (hk_get K (pf_headers fl) ''Proxy-Authorization'') of
             Some s \<Rightarrow> Some s | None \<Rightarrow> cs (pf_client fl)))"

definition http_connect :: "'h header_kit \<Rightarrow> client_scopes \<Rightarrow> 'h flow \<Rightarrow> client_scopes \<times> 'h flow" where
  "http_connect K cs fl =
     (let s = scope_from_proxy_authorization (hk_get K (pf_headers fl) ''Proxy-Authorization'');
          fl' = fl\<lparr>pf_headers := hk_pop K ''Proxy-Authorization'' (pf_headers fl)\<rparr>
      in (case s of None \<Rightarrow> cs | Some x \<Rightarrow> cs(pf_client fl \<mapsto> x), fl'))"

text \<open>A hook: what it raises, if anything, and the flow it leaves.\<close>

definition pin_upstream :: "'h header_kit \<Rightarrow> string \<Rightarrow> 'h flow \<Rightarrow> (exc + unit) \<times> 'h flow" where
  "pin_upstream K mirror_host fl =
     (case pinned_upstream_url mirror_host (pf_url fl) of
        Inl e \<Rightarrow> (Inl e, fl)
      | Inr None \<Rightarrow> (Inr (), fl)
      | Inr (Some u) \<Rightarrow>
          (let fl' = fl\<lparr>pf_original := Some (pf_url fl), pf_url := u\<rparr>
           in case urlsplit u of
                Inl e \<Rightarrow> (Inl e, fl')
              | Inr p \<Rightarrow> (Inr (), fl'\<lparr>pf_headers := hk_put K ''host'' (up_netloc p) (pf_headers fl')\<rparr>)))"

text \<open>\<open>encode("latin-1")\<close> of a text given as its UTF-8 bytes: a character up to U+00FF becomes one byte; a
  wider one, or a surrogate that stands for an undecodable byte, is an error.\<close>

fun latin1_encode :: "string \<Rightarrow> string option" where
  "latin1_encode [] = Some []"
| "latin1_encode (c # cs) =
     (if (of_char c :: nat) < 0x80 then map_option ((#) c) (latin1_encode cs)
      else case cs of
        [] \<Rightarrow> None
      | b # bs \<Rightarrow>
          (if ((of_char c :: nat) = 0xC2 \<or> (of_char c :: nat) = 0xC3) \<and> 0x80 \<le> (of_char b :: nat) \<and> (of_char b :: nat) < 0xC0
           then map_option ((#) (char_of ((of_char c - 0xC0) * 0x40 + (of_char b - 0x80) :: nat))) (latin1_encode bs)
           else None))"

fun encode_headers :: "http_headers \<Rightarrow> http_headers option" where
  "encode_headers [] = Some []"
| "encode_headers ((n, v) # hs) =
     (case (latin1_encode n, latin1_encode v, encode_headers hs) of
        (Some a, Some b, Some bs) \<Rightarrow> Some ((a, b) # bs)
      | _ \<Rightarrow> None)"

definition request ::
    "'h header_kit \<Rightarrow> (string \<Rightarrow> string) \<Rightarrow> (string \<Rightarrow> string + json) \<Rightarrow> string \<Rightarrow> client_scopes \<Rightarrow> cache_disk \<Rightarrow> 'h flow \<Rightarrow>
       (exc + unit) \<times> 'h flow" where
  "request K sha ld mirror_host cs disk fl0 =
     (let fl = fl0\<lparr>pf_headers := hk_pop K ''Proxy-Authorization'' (pf_headers fl0)\<rparr>
      in case flow_scope K cs fl0 of
        None \<Rightarrow> (Inr (), fl)
      | Some scope \<Rightarrow>
          (let fl1 = fl\<lparr>pf_scope := Some scope, pf_headers := force_identity_accept_encoding K (pf_headers fl)\<rparr>
           in case load_cached_response sha ld disk (pf_method fl1) (pf_url fl1) (hk_items K (pf_headers fl1))
                (content_of (pf_content fl1)) scope of
                Inl e \<Rightarrow> (Inl e, fl1)
              | Inr (Some r) \<Rightarrow>
                  (case encode_headers (cr_headers r) of
                     None \<Rightarrow> (Inl unencodable, fl1)
                   | Some hs \<Rightarrow> (Inr (), fl1\<lparr>pf_response := Some \<lparr>hr_status = cr_status r, hr_headers = hk_make K hs (cr_body r),
                       hr_content = Some (cr_body r), hr_stream = False\<rparr>, pf_hit := True\<rparr>))
              | Inr None \<Rightarrow> pin_upstream K mirror_host fl1))"

definition strip_volatile :: "'h header_kit \<Rightarrow> 'h \<Rightarrow> 'h" where
  "strip_volatile K h = fold (hk_pop K) VOLATILE_RESPONSE_HEADERS h"

definition responseheaders :: "'h header_kit \<Rightarrow> (string \<Rightarrow> string) \<Rightarrow> 'h flow \<Rightarrow> (exc + unit) \<times> 'h flow" where
  "responseheaders K sha fl =
     (case pf_response fl of
        None \<Rightarrow> (Inr (), fl)
      | Some r \<Rightarrow>
          (if pf_scope fl = None then (Inr (), fl\<lparr>pf_response := Some (r\<lparr>hr_stream := True\<rparr>)\<rparr>)
           else let r1 = (if pf_hit fl then r else r\<lparr>hr_headers := strip_volatile K (hr_headers r)\<rparr>);
                    fl1 = fl\<lparr>pf_response := Some r1\<rparr>
                in case cache_url sha (pf_method fl) (cache_identity_url fl) (hk_items K (pf_headers fl))
                     (content_of (pf_content fl)) (hk_items K (hr_headers r1)) of
                     Inl e \<Rightarrow> (Inl e, fl1)
                   | Inr None \<Rightarrow> (Inr (), fl1\<lparr>pf_response := Some (r1\<lparr>hr_stream := True\<rparr>)\<rparr>)
                   | Inr (Some _) \<Rightarrow> (Inr (), fl1)))"

definition response_hook ::
    "'h header_kit \<Rightarrow> (string \<Rightarrow> string) \<Rightarrow> store_fault \<Rightarrow> cache_disk \<Rightarrow> cache_disk \<Rightarrow> 'h flow \<Rightarrow> (exc + bool) \<times> cache_disk" where
  "response_hook K sha fault d0 d fl =
     (case (pf_response fl, pf_scope fl) of
        (Some r, Some scope) \<Rightarrow>
          (if pf_hit fl then (Inr False, d)
           else store_cacheable_response sha fault d0 d (pf_method fl) (cache_identity_url fl) (hk_items K (pf_headers fl))
             (content_of (pf_content fl)) scope (hr_status r) (hk_items K (hr_headers r)) (content_of (hr_content r)))
      | _ \<Rightarrow> (Inr False, d))"

text \<open>
  One exchange as the proxy drives the hooks: without a response from \<open>request\<close> the upstream is
  asked, and a streamed body never reaches \<open>response\<close>. \<open>x_other\<close> is what other processes write
  between the existence check and the rename.
\<close>

record 'h exchange =
  x_flow :: "'h flow"
  x_upstream :: "'h flow \<Rightarrow> 'h http_response"
  x_fault :: store_fault
  x_other :: "cache_disk \<Rightarrow> cache_disk"

definition buffered :: "'h http_response \<Rightarrow> 'h http_response" where
  "buffered r = (if hr_stream r then r\<lparr>hr_content := None\<rparr> else r)"

definition upstream_answer :: "('h flow \<Rightarrow> 'h http_response) \<Rightarrow> 'h flow \<Rightarrow> 'h flow" where
  "upstream_answer up fl = (if pf_response fl = None then fl\<lparr>pf_response := Some ((up fl)\<lparr>hr_stream := False\<rparr>)\<rparr> else fl)"

fun failed :: "exc + 'a \<Rightarrow> exc list" where
  "failed (Inl e) = [e]"
| "failed (Inr _) = []"

text \<open>The flow as the client sees it, what the hooks raised, and the directory.\<close>

definition run_exchange ::
    "'h header_kit \<Rightarrow> (string \<Rightarrow> string) \<Rightarrow> (string \<Rightarrow> string + json) \<Rightarrow> string \<Rightarrow> client_scopes \<Rightarrow> cache_disk \<Rightarrow> 'h exchange \<Rightarrow>
       'h flow \<times> exc list \<times> cache_disk" where
  "run_exchange K sha ld mirror_host cs d x =
     (let (r1, fl1) = request K sha ld mirror_host cs d (x_flow x);
          (r2, fl2) = responseheaders K sha (upstream_answer (x_upstream x) fl1);
          (r3, d') = response_hook K sha (x_fault x) d (x_other x d) (fl2\<lparr>pf_response := map_option buffered (pf_response fl2)\<rparr>)
      in (fl2, failed r1 @ failed r2 @ failed r3, d'))"

fun run_exchanges ::
    "'h header_kit \<Rightarrow> (string \<Rightarrow> string) \<Rightarrow> (string \<Rightarrow> string + json) \<Rightarrow> string \<Rightarrow> cache_disk \<Rightarrow>
       (client_scopes \<times> 'h exchange) list \<Rightarrow> cache_disk" where
  "run_exchanges K sha ld mirror_host d [] = d"
| "run_exchanges K sha ld mirror_host d ((cs, x) # xs) =
     run_exchanges K sha ld mirror_host (snd (snd (run_exchange K sha ld mirror_host cs d x))) xs"

section \<open>Entries are read as they were written\<close>

definition meta_reads :: "(string \<Rightarrow> string + json) \<Rightarrow> bool" where
  "meta_reads ld \<longleftrightarrow> (\<forall>i hs. ld (meta_text i hs) = Inr (meta_json i hs))"

lemma meta_roundtrip: "meta_of_json (meta_json i hs) = Some (i, hs)"
proof -
  have "map (\<lambda>h. the (header_of_json h)) (map (\<lambda>(n, v). JArr [JStr n, JStr v]) hs) = hs"
    by (induction hs) (auto simp: header_of_json_def)
  moreover have "list_all (\<lambda>h. header_of_json h \<noteq> None) (map (\<lambda>(n, v). JArr [JStr n, JStr v]) hs)"
    by (auto simp: list_all_iff header_of_json_def)
  ultimately show ?thesis by (simp add: meta_of_json_def meta_json_def)
qed

text \<open>
  The directory as the cache leaves it: every entry is complete and of a status 200.
\<close>

definition disk_ok :: "cache_disk \<Rightarrow> bool" where
  "disk_ok d \<longleftrightarrow> (\<forall>p e. d p = Some e \<longrightarrow> (\<exists>hs b. e = \<lparr>ce_meta = Some (meta_text 200 hs), ce_body = Some b\<rparr>))"

lemma write_entry_cases:
  "snd (write_entry fault d0 d p e) = d \<or> (d p = None \<and> snd (write_entry fault d0 d p e) = d(p \<mapsto> e))"
  by (auto simp: write_entry_def split: store_fault.splits option.splits)

lemma store_keeps:
  "d \<subseteq>\<^sub>m snd (store_cacheable_response sha fault d0 d meth url rh rb scope status hs body)"
proof -
  have "d \<subseteq>\<^sub>m snd (write_entry fault d0 d p e)" for p e
    using write_entry_cases [of fault d0 d p e] by (auto simp: map_le_def)
  then show ?thesis by (auto simp: store_cacheable_response_def split: sum.splits option.splits)
qed

lemma store_ok:
  assumes "disk_ok d"
  shows "disk_ok (snd (store_cacheable_response sha fault d0 d meth url rh rb scope status hs body))"
proof -
  have "disk_ok (snd (write_entry fault d0 d p \<lparr>ce_meta = Some (meta_text 200 hs), ce_body = Some b\<rparr>))" for p hs b
    using write_entry_cases [of fault d0 d p "\<lparr>ce_meta = Some (meta_text 200 hs), ce_body = Some b\<rparr>"] assms
    by (auto simp: disk_ok_def split: if_splits) blast
  with assms show ?thesis by (auto simp: store_cacheable_response_def split: sum.splits option.splits)
qed

lemma response_hook_keeps: "d \<subseteq>\<^sub>m snd (response_hook K sha fault d0 d fl)"
  by (simp add: response_hook_def store_keeps split: option.splits)

lemma exchange_disk:
  "\<exists>fl. snd (snd (run_exchange K sha ld m cs d x)) = snd (response_hook K sha (x_fault x) d (x_other x d) fl)"
  by (auto simp: run_exchange_def Let_def case_prod_beta)

lemma exchange_keeps:
  assumes "\<And>d. d \<subseteq>\<^sub>m x_other x d"
  shows "d \<subseteq>\<^sub>m snd (snd (run_exchange K sha ld m cs d x))"
  using exchange_disk [of K sha ld m cs d x] map_le_trans [OF assms response_hook_keeps] by metis

lemma exchanges_keep:
  "(\<And>cs x d. (cs, x) \<in> set xs \<Longrightarrow> d \<subseteq>\<^sub>m x_other x d) \<Longrightarrow> d \<subseteq>\<^sub>m run_exchanges K sha ld m d xs"
proof (induction K sha ld m d xs rule: run_exchanges.induct)
  case (2 K sha ld m d cs x xs)
  have "d \<subseteq>\<^sub>m snd (snd (run_exchange K sha ld m cs d x))" using 2(2) by (intro exchange_keeps) auto
  moreover have "snd (snd (run_exchange K sha ld m cs d x)) \<subseteq>\<^sub>m run_exchanges K sha ld m d ((cs, x) # xs)"
    using 2 by (simp only: run_exchanges.simps) (meson list.set_intros(2))
  ultimately show ?case by (rule map_le_trans)
qed simp

section \<open>Which requests share an entry\<close>

lemma cache_url_no_response:
  "cache_url sha meth url rh rb hs = Inr (Some cu) \<Longrightarrow> cache_url sha meth url rh rb [] = Inr (Some cu)"
  by (auto simp: cache_url_def has_uncacheable_vary_def has_header_def split: if_splits)

lemma cache_url_response:
  "\<not> has_uncacheable_vary hs \<Longrightarrow> \<not> has_header hs ''content-encoding'' \<Longrightarrow>
     cache_url sha meth url rh rb hs = cache_url sha meth url rh rb []"
proof -
  have "\<not> has_uncacheable_vary []" "\<not> has_header [] n" for n by (simp_all add: has_uncacheable_vary_def has_header_def)
  then show "\<not> has_uncacheable_vary hs \<Longrightarrow> \<not> has_header hs ''content-encoding'' \<Longrightarrow> ?thesis" by (simp add: cache_url_def)
qed

lemma cache_url_range:
  "has_header rh ''range'' = has_header rh' ''range'' \<Longrightarrow> cache_url sha meth url rh rb hs = cache_url sha meth url rh' rb hs"
  by (simp add: cache_url_def)

lemma cache_url_upper: "upper_str meth = upper_str meth' \<Longrightarrow> cache_url sha meth url rh rb hs = cache_url sha meth' url rh rb hs"
  by (simp add: cache_url_def)

lemma cache_url_total:
  "cache_url sha meth url rh rb [] = Inr (Some cu) \<Longrightarrow> \<exists>u. cache_url sha meth url rh rb hs = Inr u"
  by (auto simp: cache_url_def has_uncacheable_vary_def has_header_def split: if_splits)

lemma upper_no_space: "CHR '' '' \<notin> set m \<Longrightarrow> CHR '' '' \<notin> set (upper_str m)"
proof -
  assume m: "CHR '' '' \<notin> set m"
  have "(char_of (of_char c - 32 :: nat) :: char) \<noteq> CHR '' ''" if "97 \<le> (of_char c :: nat)" "(of_char c :: nat) \<le> 122" for c :: char
  proof
    assume "(char_of (of_char c - 32 :: nat) :: char) = CHR '' ''"
    then have "(of_char (char_of (of_char c - 32 :: nat) :: char) :: nat) = 32" by simp
    with that show False by (simp only: of_char_of) simp
  qed
  with m show ?thesis unfolding upper_str_def set_map image_iff by metis
qed

text \<open>An entry is shared exactly by the requests of one scope, method and canonical URL.\<close>

lemma takeWhile_stop: "c \<notin> set a \<Longrightarrow> takeWhile (\<lambda>x. x \<noteq> c) (a @ c # b) = a"
  by (induction a) auto

lemma entry_dir_exact:
  assumes sha: "inj_on sha T" "key_text s m u \<in> T" "key_text s' m' u' \<in> T"
    and "length (sha (key_text s m u)) = length (sha (key_text s' m' u'))"
    and scopes: "CHR 0x00 \<notin> set s" "CHR 0x00 \<notin> set s'" and methods: "CHR '' '' \<notin> set m" "CHR '' '' \<notin> set m'"
  shows "entry_path sha s m u = entry_path sha s' m' u' \<longleftrightarrow> s = s' \<and> upper_str m = upper_str m' \<and> u = u'"
proof
  assume "entry_path sha s m u = entry_path sha s' m' u'"
  then have "take 2 (sha (key_text s m u)) @ ''/'' @ sha (key_text s m u) = take 2 (sha (key_text s' m' u')) @ ''/'' @ sha (key_text s' m' u')"
    by (simp add: entry_path_def Let_def)
  moreover have "length (take 2 (sha (key_text s m u))) = length (take 2 (sha (key_text s' m' u')))" using assms(4) by simp
  ultimately have "sha (key_text s m u) = sha (key_text s' m' u')" by simp
  with sha have k: "s @ CHR 0x00 # upper_str m @ CHR '' '' # u = s' @ CHR 0x00 # upper_str m' @ CHR '' '' # u'"
    using inj_onD by (fastforce simp: key_text_def)
  then have "s = s'" using takeWhile_stop scopes by metis
  moreover from this k have "upper_str m @ CHR '' '' # u = upper_str m' @ CHR '' '' # u'" by simp
  moreover from this have "upper_str m = upper_str m'" using takeWhile_stop methods upper_no_space by metis
  ultimately show "s = s' \<and> upper_str m = upper_str m' \<and> u = u'" by simp
qed (simp add: entry_path_def key_text_def)

section \<open>The hooks\<close>

text \<open>What is relied on of the container: what popping and setting a header leave of the others, that the items have
  distinct names, and that a response made from byte pairs has them, up to the length the library sets.\<close>

definition but_length :: "http_headers \<Rightarrow> http_headers" where
  "but_length = filter (\<lambda>(m, _). lower_str m \<noteq> ''content-length'')"

definition headers_behave :: "'h header_kit \<Rightarrow> bool" where
  "headers_behave K \<longleftrightarrow>
     (\<forall>n h. hk_items K (hk_pop K n h) = filter (\<lambda>(m, _). lower_str m \<noteq> lower_str n) (hk_items K h)) \<and>
     (\<forall>n v h. filter (\<lambda>(m, _). lower_str m \<noteq> lower_str n) (hk_items K (hk_put K n v h)) =
        filter (\<lambda>(m, _). lower_str m \<noteq> lower_str n) (hk_items K h)) \<and>
     (\<forall>h. distinct (map (\<lambda>(m, _). lower_str m) (hk_items K h))) \<and>
     (\<forall>hs b. distinct (map (\<lambda>(m, _). lower_str m) hs) \<longrightarrow> but_length (hk_items K (hk_make K hs b)) = but_length hs)"

lemma has_header_filter:
  "(\<And>m. lower_str m = n \<Longrightarrow> P m) \<Longrightarrow> has_header (filter (\<lambda>(m, _). P m) hs) n = has_header hs n"
  by (induction hs) (auto simp: has_header_def)

lemma put_range:
  assumes "headers_behave K" and "lower_str n \<noteq> ''range''"
  shows "has_header (hk_items K (hk_put K n v h)) ''range'' = has_header (hk_items K h) ''range''"
proof -
  let ?f = "filter (\<lambda>(m, _). lower_str m \<noteq> lower_str n)"
  have "has_header (?f hs) ''range'' = has_header hs ''range''" for hs
    using assms(2) has_header_filter [of "''range''" "\<lambda>m. lower_str m \<noteq> lower_str n" hs] by metis
  with assms(1) show ?thesis unfolding headers_behave_def by metis
qed

text \<open>The entry a request reads and, its response permitting, writes.\<close>

definition cached_headers :: "'h header_kit \<Rightarrow> 'h flow \<Rightarrow> http_headers" where
  "cached_headers K fl = hk_items K (force_identity_accept_encoding K (hk_pop K ''Proxy-Authorization'' (pf_headers fl)))"

definition request_entry :: "'h header_kit \<Rightarrow> (string \<Rightarrow> string) \<Rightarrow> client_scopes \<Rightarrow> 'h flow \<Rightarrow> string option" where
  "request_entry K sha cs fl =
     (case flow_scope K cs fl of
        None \<Rightarrow> None
      | Some s \<Rightarrow>
          (case cache_url sha (pf_method fl) (pf_url fl) (cached_headers K fl) (content_of (pf_content fl)) [] of
             Inr (Some cu) \<Rightarrow>
               (case cache_entry_dir sha s (pf_method fl) cu of Inl _ \<Rightarrow> None | Inr p \<Rightarrow> Some p)
           | _ \<Rightarrow> None))"

definition fresh :: "'h flow \<Rightarrow> bool" where
  "fresh fl \<longleftrightarrow> \<not> pf_hit fl \<and> pf_scope fl = None \<and> pf_original fl = None \<and> pf_response fl = None"

lemma request_entryE:
  assumes "request_entry K sha cs fl = Some p"
  obtains s cu where "flow_scope K cs fl = Some s"
    "cache_url sha (pf_method fl) (pf_url fl) (cached_headers K fl) (content_of (pf_content fl)) [] = Inr (Some cu)"
    "cache_entry_dir sha s (pf_method fl) cu = Inr p"
  using assms by (auto simp: request_entry_def split: option.splits sum.splits)

lemma load_entry:
  assumes "meta_reads ld" and "cache_url sha meth url rh rb [] = Inr (Some cu)" and "cache_entry_dir sha scope meth cu = Inr p"
    and "d p = Some \<lparr>ce_meta = Some (meta_text i hs), ce_body = Some b\<rparr>"
  shows "load_cached_response sha ld d meth url rh rb scope = Inr (Some \<lparr>cr_status = i, cr_headers = hs, cr_body = b\<rparr>)"
  using assms by (simp add: load_cached_response_def meta_reads_def meta_roundtrip)

text \<open>The flow \<open>request\<close> has prepared when it looks an entry up.\<close>

definition scoped_flow :: "'h header_kit \<Rightarrow> string \<Rightarrow> 'h flow \<Rightarrow> 'h flow" where
  "scoped_flow K s fl = fl\<lparr>pf_scope := Some s,
     pf_headers := force_identity_accept_encoding K (hk_pop K ''Proxy-Authorization'' (pf_headers fl))\<rparr>"

lemma request_found:
  assumes "meta_reads ld" and "request_entry K sha cs fl = Some p"
    and "d p = Some \<lparr>ce_meta = Some (meta_text i hs), ce_body = Some b\<rparr>"
  obtains s cu where "cache_url sha (pf_method fl) (pf_url fl) (cached_headers K fl) (content_of (pf_content fl)) [] = Inr (Some cu)"
    "request K sha ld m cs d fl = (case encode_headers hs of
       None \<Rightarrow> (Inl unencodable, scoped_flow K s fl)
     | Some bs \<Rightarrow> (Inr (), (scoped_flow K s fl)\<lparr>pf_response := Some \<lparr>hr_status = i, hr_headers = hk_make K bs b,
         hr_content = Some b, hr_stream = False\<rparr>, pf_hit := True\<rparr>))"
proof -
  obtain s cu where e: "flow_scope K cs fl = Some s"
    "cache_url sha (pf_method fl) (pf_url fl) (cached_headers K fl) (content_of (pf_content fl)) [] = Inr (Some cu)"
    "cache_entry_dir sha s (pf_method fl) cu = Inr p"
    using assms(2) by (rule request_entryE)
  show thesis
    by (rule that [of cu s, OF e(2)])
      (simp add: request_def Let_def e(1) scoped_flow_def load_entry [where d = d, OF assms(1) e(2,3) assms(3),
        unfolded cached_headers_def] split: option.split)
qed

lemma cached_headers_scoped: "hk_items K (pf_headers (scoped_flow K s fl)) = cached_headers K fl"
  by (simp add: scoped_flow_def cached_headers_def)

lemma hit_exchange:
  assumes "meta_reads ld" and "request_entry K sha cs (x_flow x) = Some p" and "fresh (x_flow x)"
    and "d p = Some \<lparr>ce_meta = Some (meta_text i hs), ce_body = Some b\<rparr>" and "encode_headers hs = Some bs"
  shows "\<exists>out r. run_exchange K sha ld m cs d x = (out, [], x_other x d) \<and> pf_hit out \<and> pf_response out = Some r \<and>
    hr_status r = i \<and> hr_content r = Some b \<and> hr_headers r = hk_make K bs b"
proof -
  obtain s cu where cu: "cache_url sha (pf_method (x_flow x)) (pf_url (x_flow x)) (cached_headers K (x_flow x))
      (content_of (pf_content (x_flow x))) [] = Inr (Some cu)"
    and found: "request K sha ld m cs d (x_flow x) = (case encode_headers hs of
       None \<Rightarrow> (Inl unencodable, scoped_flow K s (x_flow x))
     | Some bs \<Rightarrow> (Inr (), (scoped_flow K s (x_flow x))\<lparr>pf_response := Some \<lparr>hr_status = i, hr_headers = hk_make K bs b,
         hr_content = Some b, hr_stream = False\<rparr>, pf_hit := True\<rparr>))"
    by (rule request_found [where d = d and p = p and m = m, OF assms(1,2,4)])
  note rq = found [unfolded assms(5) option.case]
  obtain u where "cache_url sha (pf_method (x_flow x)) (pf_url (x_flow x)) (cached_headers K (x_flow x))
      (content_of (pf_content (x_flow x))) (hk_items K (hk_make K bs b)) = Inr u"
    using cache_url_total [OF cu] by blast
  with assms(3) show ?thesis
    by (cases u) (simp_all add: run_exchange_def rq upstream_answer_def responseheaders_def response_hook_def
        cache_identity_url_def Let_def scoped_flow_def cached_headers_def fresh_def)
qed

text \<open>A stored header that has no latin-1 form: the hook raises and the exchange goes to the upstream.\<close>

lemma unencodable_exchange:
  assumes "meta_reads ld" and "request_entry K sha cs (x_flow x) = Some p" and "fresh (x_flow x)"
    and "d p = Some \<lparr>ce_meta = Some (meta_text i hs), ce_body = Some b\<rparr>" and "encode_headers hs = None"
  shows "\<exists>out errs d2 fl r. run_exchange K sha ld m cs d x = (out, errs, d2) \<and> unencodable \<in> set errs \<and> \<not> pf_hit out \<and>
    pf_response out = Some r \<and> hr_status r = hr_status (x_upstream x fl) \<and> hr_content r = hr_content (x_upstream x fl)"
proof -
  obtain s where found: "request K sha ld m cs d (x_flow x) = (case encode_headers hs of
       None \<Rightarrow> (Inl unencodable, scoped_flow K s (x_flow x))
     | Some bs \<Rightarrow> (Inr (), (scoped_flow K s (x_flow x))\<lparr>pf_response := Some \<lparr>hr_status = i, hr_headers = hk_make K bs b,
         hr_content = Some b, hr_stream = False\<rparr>, pf_hit := True\<rparr>))"
    by (rule request_found [where d = d and p = p and m = m, OF assms(1,2,4)])
  note rq = found [unfolded assms(5) option.case]
  have "pf_response (scoped_flow K s (x_flow x)) = None" "\<not> pf_hit (scoped_flow K s (x_flow x))"
    using assms(3) by (simp_all add: scoped_flow_def fresh_def)
  then show ?thesis
    by (auto simp: run_exchange_def rq Let_def case_prod_beta upstream_answer_def responseheaders_def split: sum.split option.split)
qed

lemma pin_upstream_same:
  assumes "headers_behave K" and "pin_upstream K m fl = (Inr (), out)"
  shows "pf_method out = pf_method fl" "pf_content out = pf_content fl" "pf_scope out = pf_scope fl" "pf_hit out = pf_hit fl"
    "pf_response out = pf_response fl" "pf_original fl = None \<Longrightarrow> cache_identity_url out = pf_url fl"
    "has_header (hk_items K (pf_headers out)) ''range'' = has_header (hk_items K (pf_headers fl)) ''range''"
proof -
  have host: "lower_str ''host'' \<noteq> ''range''" by (simp add: lower_str_def lower_char_def)
  consider "out = fl" | u h where "out = fl\<lparr>pf_original := Some (pf_url fl), pf_url := u,
      pf_headers := hk_put K ''host'' h (pf_headers fl)\<rparr>"
    using assms(2) by (auto simp: pin_upstream_def Let_def split: option.splits sum.splits)
  then show "pf_method out = pf_method fl" "pf_content out = pf_content fl" "pf_scope out = pf_scope fl" "pf_hit out = pf_hit fl"
    "pf_response out = pf_response fl" "pf_original fl = None \<Longrightarrow> cache_identity_url out = pf_url fl"
    "has_header (hk_items K (pf_headers out)) ''range'' = has_header (hk_items K (pf_headers fl)) ''range''"
    by (cases; simp add: cache_identity_url_def put_range [OF assms(1) host])+
qed

text \<open>A request that misses goes upstream under the entry it would be stored in.\<close>

lemma request_miss:
  assumes K: "headers_behave K" and ok: "disk_ok d" and ld: "meta_reads ld" and entry: "request_entry K sha cs fl = Some p"
    and "fresh fl" and rq: "request K sha ld m cs d fl = (Inr (), out)" and "\<not> pf_hit out"
  shows "\<exists>s. pf_scope out = Some s \<and> pf_response out = None \<and> d p = None \<and> pf_method out = pf_method fl \<and>
    (\<forall>hs cu. cache_url sha (pf_method out) (cache_identity_url out) (hk_items K (pf_headers out)) (content_of (pf_content out)) hs =
       Inr (Some cu) \<longrightarrow> cache_entry_dir sha s (pf_method fl) cu = Inr p)"
proof -
  obtain s cu where s: "flow_scope K cs fl = Some s"
    and cu: "cache_url sha (pf_method fl) (pf_url fl) (cached_headers K fl) (content_of (pf_content fl)) [] = Inr (Some cu)"
    and p: "cache_entry_dir sha s (pf_method fl) cu = Inr p"
    using entry by (rule request_entryE)
  have none: "d p = None"
  proof (rule ccontr)
    assume "d p \<noteq> None"
    with ok obtain hs b where e: "d p = Some \<lparr>ce_meta = Some (meta_text 200 hs), ce_body = Some b\<rparr>"
      unfolding disk_ok_def by blast
    obtain s1 where "request K sha ld m cs d fl = (case encode_headers hs of
       None \<Rightarrow> (Inl unencodable, scoped_flow K s1 fl)
     | Some bs \<Rightarrow> (Inr (), (scoped_flow K s1 fl)\<lparr>pf_response := Some \<lparr>hr_status = 200, hr_headers = hk_make K bs b,
         hr_content = Some b, hr_stream = False\<rparr>, pf_hit := True\<rparr>))"
      by (rule request_found [where d = d and p = p and m = m, OF ld entry e])
    with rq assms(7) show False by (auto split: option.splits)
  qed
  have "load_cached_response sha ld d (pf_method fl) (pf_url fl) (cached_headers K fl) (content_of (pf_content fl)) s = Inr None"
    using cu none p by (simp add: load_cached_response_def)
  then have pin: "pin_upstream K m (scoped_flow K s fl) = (Inr (), out)"
    using rq s by (simp add: request_def Let_def cached_headers_def scoped_flow_def)
  note same = pin_upstream_same [OF K pin]
  have f: "pf_method (scoped_flow K s fl) = pf_method fl" "pf_content (scoped_flow K s fl) = pf_content fl"
    "pf_scope (scoped_flow K s fl) = Some s" "pf_response (scoped_flow K s fl) = pf_response fl"
    "pf_url (scoped_flow K s fl) = pf_url fl" "pf_original (scoped_flow K s fl) = pf_original fl"
    by (simp_all add: scoped_flow_def)
  have "cache_url sha (pf_method out) (cache_identity_url out) (hk_items K (pf_headers out)) (content_of (pf_content out)) hs =
      cache_url sha (pf_method fl) (pf_url fl) (cached_headers K fl) (content_of (pf_content fl)) hs" for hs
    using same f assms(5) cached_headers_scoped [of K s fl]
      cache_url_range [of "hk_items K (pf_headers out)" "cached_headers K fl"]
    by (simp add: fresh_def)
  then have "cache_entry_dir sha s (pf_method fl) cu' = Inr p" if "cache_url sha (pf_method out) (cache_identity_url out)
      (hk_items K (pf_headers out)) (content_of (pf_content out)) hs = Inr (Some cu')" for hs cu'
    using that cu p cache_url_no_response by fastforce
  moreover have "pf_scope out = Some s" "pf_response out = None" "pf_method out = pf_method fl"
    using same(1,3,5) f assms(5) by (simp_all add: fresh_def)
  ultimately show ?thesis using none by blast
qed

lemma identity_response: "cache_identity_url (fl\<lparr>pf_response := r\<rparr>) = cache_identity_url fl"
  by (simp add: cache_identity_url_def split: option.split)

lemma responseheaders_shape:
  assumes "responseheaders K sha fl = (res, out)"
  shows "pf_hit out = pf_hit fl" "pf_scope out = pf_scope fl" "pf_method out = pf_method fl" "pf_headers out = pf_headers fl"
    "pf_content out = pf_content fl" "cache_identity_url out = cache_identity_url fl"
proof -
  have "\<exists>r. out = fl\<lparr>pf_response := r\<rparr>"
  proof (cases "pf_response fl")
    case None
    with assms have "out = fl\<lparr>pf_response := pf_response fl\<rparr>" by (simp add: responseheaders_def)
    then show ?thesis ..
  next
    case (Some r)
    with assms show ?thesis
      by (cases "pf_scope fl = None") (force simp: responseheaders_def Let_def split: sum.splits option.splits)+
  qed
  then show "pf_hit out = pf_hit fl" "pf_scope out = pf_scope fl" "pf_method out = pf_method fl" "pf_headers out = pf_headers fl"
    "pf_content out = pf_content fl" "cache_identity_url out = cache_identity_url fl"
    by (auto simp: cache_identity_url_def split: option.split)
qed

text \<open>A body that was buffered belongs to a response that may be cached.\<close>

lemma responseheaders_buffers:
  assumes "responseheaders K sha fl = (Inr (), out)" and "pf_response out = Some r" and "\<not> hr_stream r" and "pf_scope fl = Some s"
    and "\<not> pf_hit fl"
  shows "\<exists>cu. cache_url sha (pf_method fl) (cache_identity_url fl) (hk_items K (pf_headers fl)) (content_of (pf_content fl))
    (hk_items K (hr_headers r)) = Inr (Some cu)"
proof (cases "pf_response fl")
  case None
  with assms(1,2) show ?thesis by (simp add: responseheaders_def)
next
  case (Some r0)
  with assms show ?thesis
    by (auto simp: responseheaders_def Let_def split: sum.splits option.splits)
qed

lemma failed_none: "failed r = [] \<Longrightarrow> \<exists>x. r = Inr x"
  by (cases r) simp_all

lemma stored_exchange:
  assumes K: "headers_behave K" and ok: "disk_ok d" and ld: "meta_reads ld"
    and entry: "request_entry K sha cs (x_flow x) = Some p" and fresh: "fresh (x_flow x)"
    and run: "run_exchange K sha ld m cs d x = (out, [], d')" and "\<not> pf_hit out"
    and alone: "x_fault x = NoFault" "x_other x d = d"
    and r: "pf_response out = Some r" "hr_status r = 200" "\<not> hr_stream r"
  shows "d' = d(p \<mapsto> \<lparr>ce_meta = Some (meta_text 200 (cacheable_headers (hk_items K (hr_headers r)))),
    ce_body = Some (content_of (hr_content r))\<rparr>)"
proof -
  obtain r1 mid where m1: "request K sha ld m cs d (x_flow x) = (r1, mid)" by fastforce
  define ans where "ans = upstream_answer (x_upstream x) mid"
  obtain r2 fl2 where m2: "responseheaders K sha ans = (r2, fl2)" by fastforce
  have parts: "fl2 = out" "failed r1 = []" "failed r2 = []"
    and hook: "d' = snd (response_hook K sha (x_fault x) d (x_other x d) (out\<lparr>pf_response := map_option buffered (pf_response out)\<rparr>))"
    using run m1 m2 by (auto simp: run_exchange_def Let_def ans_def case_prod_beta)
  have mid: "request K sha ld m cs d (x_flow x) = (Inr (), mid)" "responseheaders K sha ans = (Inr (), out)"
    using m1 m2 parts failed_none [of r1] failed_none [of r2] by auto
  have ans: "pf_hit ans = pf_hit mid" "pf_scope ans = pf_scope mid" "pf_method ans = pf_method mid" "pf_headers ans = pf_headers mid"
      "pf_content ans = pf_content mid" "cache_identity_url ans = cache_identity_url mid"
    by (simp_all add: ans_def upstream_answer_def cache_identity_url_def split: option.split)
  note keep = responseheaders_shape [OF mid(2)]
  have hit: "\<not> pf_hit mid" using keep ans assms(7) by simp
  from request_miss [where p = p and d = d, OF K ok ld entry fresh mid(1) hit]
  obtain s where s: "pf_scope mid = Some s" "d p = None" "pf_method mid = pf_method (x_flow x)"
    and url: "\<And>hs cu. cache_url sha (pf_method mid) (cache_identity_url mid) (hk_items K (pf_headers mid))
        (content_of (pf_content mid)) hs = Inr (Some cu) \<Longrightarrow> cache_entry_dir sha s (pf_method (x_flow x)) cu = Inr p"
    by blast
  obtain cu where cu: "cache_url sha (pf_method mid) (cache_identity_url mid) (hk_items K (pf_headers mid))
      (content_of (pf_content mid)) (hk_items K (hr_headers r)) = Inr (Some cu)"
    using responseheaders_buffers [OF mid(2) r(1,3)] s(1) hit by (auto simp: ans)
  have "buffered r = r" using r(3) by (simp add: buffered_def)
  then have "d' = snd (store_cacheable_response sha NoFault d d (pf_method mid) (cache_identity_url mid) (hk_items K (pf_headers mid))
      (content_of (pf_content mid)) s 200 (hk_items K (hr_headers r)) (content_of (hr_content r)))"
    using hook r alone keep ans s(1) hit by (simp add: response_hook_def identity_response)
  also have "\<dots> = d(p \<mapsto> \<lparr>ce_meta = Some (meta_text 200 (cacheable_headers (hk_items K (hr_headers r)))),
      ce_body = Some (content_of (hr_content r))\<rparr>)"
    using cu url [OF cu] s by (simp add: store_cacheable_response_def write_entry_def)
  finally show ?thesis .
qed

lemma cacheable_distinct:
  "distinct (map (\<lambda>(m, _). lower_str m) hs) \<Longrightarrow> distinct (map (\<lambda>(m, _). lower_str m) (cacheable_headers hs))"
  by (simp add: cacheable_headers_def distinct_map_filter)

lemma exchange_ok:
  assumes "disk_ok (x_other x d)"
  shows "disk_ok (snd (snd (run_exchange K sha ld m cs d x)))"
proof -
  have "disk_ok (snd (response_hook K sha (x_fault x) d (x_other x d) fl))" for fl
    using assms store_ok by (auto simp: response_hook_def split: option.splits)
  with exchange_disk [of K sha ld m cs d x] show ?thesis by metis
qed

text \<open>Text of ASCII characters only is its own encoding, also in the names and values of headers.\<close>

definition ascii_text :: "string \<Rightarrow> bool" where
  "ascii_text t \<longleftrightarrow> list_all (\<lambda>c. (of_char c :: nat) < 0x80) t"

definition ascii_headers :: "http_headers \<Rightarrow> bool" where
  "ascii_headers hs \<longleftrightarrow> list_all (\<lambda>(n, v). ascii_text n \<and> ascii_text v) hs"

lemma latin1_ascii: "ascii_text t \<Longrightarrow> latin1_encode t = Some t"
  by (induction t) (simp_all add: ascii_text_def)

lemma encode_ascii: "ascii_headers hs \<Longrightarrow> encode_headers hs = Some hs"
  by (induction hs rule: encode_headers.induct) (simp_all add: ascii_headers_def latin1_ascii)

text \<open>A streamed body is never what is stored.\<close>

lemma streamed_never_stored:
  assumes "responseheaders K sha fl = (res, out)" and "pf_response out = Some r" and "hr_stream r"
    and "pf_response fl = Some r0" and "\<not> hr_stream r0" and "hr_headers r' = hr_headers r"
  shows "snd (response_hook K sha fault d0 d (out\<lparr>pf_response := Some r'\<rparr>)) = d"
proof (cases "pf_scope fl = None \<or> pf_hit fl")
  case True
  then show ?thesis using responseheaders_shape [OF assms(1)] by (auto simp: response_hook_def split: option.splits)
next
  case False
  let ?u = "cache_url sha (pf_method fl) (cache_identity_url fl) (hk_items K (pf_headers fl)) (content_of (pf_content fl))
    (hk_items K (strip_volatile K (hr_headers r0)))"
  from assms(1-5) False have u: "?u = Inr None" "hr_headers r = strip_volatile K (hr_headers r0)"
    by (auto simp: responseheaders_def Let_def split: sum.splits option.splits)
  with assms(6) responseheaders_shape [OF assms(1)] show ?thesis
    by (auto simp: response_hook_def store_cacheable_response_def identity_response split: option.splits)
qed

section \<open>An instance of the library\<close>

fun squeeze :: "bool \<Rightarrow> string \<Rightarrow> string" where
  "squeeze q [] = []"
| "squeeze False (c # cs) = (if c = CHR '' '' then squeeze False cs else c # squeeze (c = quote) cs)"
| "squeeze True (c # cs) =
     (if c = bslash then (case cs of [] \<Rightarrow> [c] | d # ds \<Rightarrow> c # d # squeeze True ds) else c # squeeze (c \<noteq> quote) cs)"

definition read_spaced :: "string \<Rightarrow> string + json" where
  "read_spaced s = read_json sample_float (squeeze False s)"

lemma squeeze_esc: "squeeze True (esc_char c @ r) = esc_char c @ squeeze True r"
proof -
  have hex: "hex_digit n \<noteq> quote \<and> hex_digit n \<noteq> bslash" if "n < 16" for n
  proof -
    have "hex_digit n \<in> set ''0123456789abcdef''" unfolding hex_digit_def using that by (intro nth_mem) simp
    then show ?thesis by auto
  qed
  have "hex_digit (of_char c div 16) \<noteq> quote \<and> hex_digit (of_char c div 16) \<noteq> bslash"
    "hex_digit (of_char c mod 16) \<noteq> quote \<and> hex_digit (of_char c mod 16) \<noteq> bslash"
    by (rule hex, simp add: less_mult_imp_div_less)+
  then show ?thesis by (simp add: esc_char_def)
qed

lemma squeeze_quoted: "squeeze False (quoted t @ r) = quoted t @ squeeze False r"
proof -
  have "squeeze True (concat (map esc_char t) @ quote # r) = concat (map esc_char t) @ quote # squeeze False r"
    by (induction t) (simp_all add: squeeze_esc)
  then show ?thesis by (simp add: quoted_def)
qed

lemma squeeze_plain: "CHR '' '' \<notin> set s \<Longrightarrow> quote \<notin> set s \<Longrightarrow> squeeze False (s @ r) = s @ squeeze False r"
  by (induction s) auto

lemma squeeze_int: "squeeze False (int_str i @ r) = int_str i @ squeeze False r"
proof (rule squeeze_plain)
  have "CHR '' '' \<notin> set ''0123456789-''" "quote \<notin> set ''0123456789-''" by simp_all
  then show "CHR '' '' \<notin> set (int_str i)" "quote \<notin> set (int_str i)" using int_str_chars by blast+
qed

lemma squeeze_headers:
  "squeeze False (join_str '', '' (map header_text hs) @ r) =
     dumps_items fr (map (\<lambda>(n, v). JArr [JStr n, JStr v]) hs) @ squeeze False r"
proof (induction hs rule: induct_list012)
  case (2 h)
  then show ?case by (cases h) (simp add: header_text_def squeeze_quoted)
next
  case (3 h h' hs)
  then show ?case by (cases h) (simp add: header_text_def squeeze_quoted)
qed simp

lemma read_spaced_meta: "meta_reads read_spaced"
proof -
  have "squeeze False (meta_text i hs) = dumps sample_repr (meta_json i hs)" for i hs
    using squeeze_int [of i "''}''"] squeeze_headers [of hs _ sample_repr]
    by (simp add: meta_text_def meta_json_def squeeze_quoted)
  then show ?thesis by (simp add: meta_reads_def read_spaced_def read_json_dumps [OF sample_float_ok])
qed

fun first_of :: "http_headers \<Rightarrow> http_headers" where
  "first_of [] = []"
| "first_of ((n, v) # hs) = (n, v) # filter (\<lambda>(m, _). lower_str m \<noteq> lower_str n) (first_of hs)"

definition list_kit :: "http_headers header_kit" where
  "list_kit =
    \<lparr>hk_items = first_of, hk_get = (\<lambda>h n. map_option snd (find (\<lambda>(m, _). lower_str m = lower_str n) h)),
     hk_pop = (\<lambda>n. filter (\<lambda>(m, _). lower_str m \<noteq> lower_str n)),
     hk_put = (\<lambda>n v h. filter (\<lambda>(m, _). lower_str m \<noteq> lower_str n) h @ [(n, v)]),
     hk_make = (\<lambda>hs b. hs @ [(''content-length'', nat_str (length b))])\<rparr>"

lemma first_of_filter:
  "first_of (filter (\<lambda>(m, _). lower_str m \<noteq> k) hs) = filter (\<lambda>(m, _). lower_str m \<noteq> k) (first_of hs)"
  by (induction hs rule: first_of.induct) (auto simp: filter_filter conj_commute case_prod_unfold intro!: filter_cong)

lemma first_of_distinct: "distinct (map (\<lambda>(m, _). lower_str m) (first_of hs))"
  by (induction hs rule: first_of.induct) (auto simp: distinct_map_filter)

lemma first_of_id: "distinct (map (\<lambda>(m, _). lower_str m) hs) \<Longrightarrow> first_of hs = hs"
  by (induction hs rule: first_of.induct) (fastforce simp: image_iff intro!: filter_True)+

lemma list_kit_behaves: "headers_behave list_kit"
proof -
  have "filter (\<lambda>(m, _). lower_str m \<noteq> lower_str n) (first_of (filter (\<lambda>(m, _). lower_str m \<noteq> lower_str n) h @ [(n, v)])) =
      filter (\<lambda>(m, _). lower_str m \<noteq> lower_str n) (first_of h)" for n v and h :: http_headers
    by (simp only: first_of_filter [symmetric] filter_append filter_filter filter.simps prod.case simp_thms if_False append_Nil2)
  moreover have "lower_str ''content-length'' = ''content-length''" by (simp add: lower_str_def lower_char_def)
  then have "but_length (first_of (hs @ [(''content-length'', v)])) = but_length hs"
    if "distinct (map (\<lambda>(m, _). lower_str m) hs)" for hs v
    using first_of_filter [of "''content-length''" "hs @ [(''content-length'', v)]"] first_of_filter [of "''content-length''" hs]
      first_of_id [OF that]
    by (simp add: but_length_def)
  ultimately show ?thesis
    by (simp add: headers_behave_def list_kit_def first_of_filter first_of_distinct)
qed

definition sample_flow :: "nat \<Rightarrow> http_headers flow" where
  "sample_flow n =
    \<lparr>pf_client = n, pf_method = ''GET'', pf_url = ''http://h/x'', pf_headers = [(''Host'', ''h'')], pf_content = None,
     pf_proxyauth = Some (PROXY_AUTH_USER, ''t''), pf_hit = False, pf_scope = None, pf_original = None, pf_response = None\<rparr>"

definition sample_exchange :: "nat \<Rightarrow> string \<Rightarrow> http_headers exchange" where
  "sample_exchange n body =
    \<lparr>x_flow = sample_flow n,
     x_upstream = (\<lambda>_. \<lparr>hr_status = 200, hr_headers = [(''Date'', body), (''A'', body)], hr_content = Some body, hr_stream = False\<rparr>),
     x_fault = NoFault, x_other = id\<rparr>"

lemma sample_headers:
  "force_identity_accept_encoding list_kit (hk_pop list_kit ''Proxy-Authorization'' [(''Host'', ''h'')]) =
     [(''Host'', ''h''), (''Accept-Encoding'', ''identity'')]"
  "strip_volatile list_kit [(''Date'', b), (''A'', b)] = [(''A'', b)]"
  "hk_items list_kit [(''Host'', ''h''), (''Accept-Encoding'', ''identity'')] = [(''Host'', ''h''), (''Accept-Encoding'', ''identity'')]"
  "hk_items list_kit [(''A'', b)] = [(''A'', b)]"
  by (simp_all add: force_identity_accept_encoding_def list_kit_def strip_volatile_def VOLATILE_RESPONSE_HEADERS_def
      lower_str_def lower_char_def char_of_eq_iff take_bit_eq_mod)

lemma sample_url:
  "cache_url id ''GET'' ''http://h/x'' [(''Host'', ''h''), (''Accept-Encoding'', ''identity'')] [] [] = Inr (Some ''http://h/x'')"
  "pinned_upstream_url ''mirror'' ''http://h/x'' = Inr None"
  by code_simp+

lemma sample_url_response:
  "cache_url id ''GET'' ''http://h/x'' [(''Host'', ''h''), (''Accept-Encoding'', ''identity'')] [] [(''A'', b)] = Inr (Some ''http://h/x'')"
proof -
  have "\<not> has_uncacheable_vary [(''A'', b)]" "\<not> has_header [(''A'', b)] ''content-encoding''"
    by (simp_all add: has_uncacheable_vary_def has_header_def lower_str_def lower_char_def)
  with sample_url(1) cache_url_response show ?thesis by metis
qed

lemma sample_path: "cache_entry_dir id ''t'' ''GET'' ''http://h/x'' = Inr (entry_path id ''t'' ''GET'' ''http://h/x'')"
  by code_simp

lemma sample_entry:
  "request_entry list_kit id Map.empty (sample_flow n) = Some (entry_path id ''t'' ''GET'' ''http://h/x'')" "fresh (sample_flow n)"
  using sample_url(1)
  by (simp_all add: request_entry_def cached_headers_def sample_headers sample_flow_def flow_scope_def PROXY_AUTH_USER_def
      content_of_def fresh_def sample_path)

lemma sample_run:
  "\<exists>out d'. run_exchange list_kit id read_spaced ''mirror'' Map.empty Map.empty (sample_exchange n b) = (out, [], d') \<and>
    \<not> pf_hit out \<and> pf_response out = Some \<lparr>hr_status = 200, hr_headers = [(''A'', b)], hr_content = Some b, hr_stream = False\<rparr>"
proof -
  have "load_cached_response id read_spaced Map.empty ''GET'' ''http://h/x''
      [(''Host'', ''h''), (''Accept-Encoding'', ''identity'')] [] ''t'' = Inr None"
    by (simp add: load_cached_response_def sample_url sample_path)
  then show ?thesis
    by (simp add: run_exchange_def sample_exchange_def sample_flow_def request_def flow_scope_def PROXY_AUTH_USER_def Let_def
        sample_headers content_of_def pin_upstream_def sample_url upstream_answer_def responseheaders_def
        cache_identity_url_def sample_url_response response_hook_def buffered_def store_cacheable_response_def write_entry_def
        sample_path case_prod_beta)
qed

lemma entry_stays:
  assumes "headers_behave K" and "disk_ok d" and "meta_reads ld"
    and "request_entry K sha cs (x_flow x) = Some p" and "fresh (x_flow x)"
    and "run_exchange K sha ld m cs d x = (out, [], d')" and "\<not> pf_hit out"
    and "x_fault x = NoFault" and "x_other x d = d"
    and "pf_response out = Some r" and "hr_status r = 200" and "\<not> hr_stream r"
    and "\<And>cs x d. (cs, x) \<in> set xs \<Longrightarrow> d \<subseteq>\<^sub>m x_other x d"
  shows "run_exchanges K sha ld m d' xs p = Some \<lparr>ce_meta = Some (meta_text 200 (cacheable_headers (hk_items K (hr_headers r)))),
    ce_body = Some (content_of (hr_content r))\<rparr>"
proof -
  have "d' p = Some \<lparr>ce_meta = Some (meta_text 200 (cacheable_headers (hk_items K (hr_headers r)))),
      ce_body = Some (content_of (hr_content r))\<rparr>"
    using stored_exchange [where p = p and d = d, OF assms(1-12)] by simp
  moreover have "d' \<subseteq>\<^sub>m run_exchanges K sha ld m d' xs" using assms(13) by (rule exchanges_keep)
  ultimately show ?thesis unfolding map_le_def by (metis domI)
qed

lemma made_headers:
  assumes "headers_behave K" and "bs = cacheable_headers (hk_items K h)"
  shows "but_length (hk_items K (hk_make K bs b)) = cacheable_headers (hk_items K h)"
proof -
  have "distinct (map (\<lambda>(m, _). lower_str m) bs)"
    using assms cacheable_distinct unfolding headers_behave_def by blast
  then have "but_length (hk_items K (hk_make K bs b)) = but_length bs"
    using assms(1) unfolding headers_behave_def by blast
  moreover have "but_length bs = bs"
    unfolding assms(2) but_length_def cacheable_headers_def filter_filter
    by (rule filter_cong) (auto simp: HOP_BY_HOP_HEADERS_def)
  ultimately show ?thesis using assms(2) by simp
qed

text \<open>
  C39. The first response is frozen. Once an exchange has gone upstream alone, without a failing hook, and its
  response was a whole, cacheable 200, a later exchange that asks for the same entry, after any number of
  other exchanges and whatever the upstream would say by then, is answered without it, if the kept headers have
  a latin-1 form: status 200, the same body byte for byte, and the kept headers in that form. When
  they are ASCII these are the first response's own headers but for the hop-by-hop and volatile ones (the proxy
  sets the length). When a kept header has no latin-1 form (a character beyond U+00FF, or bytes that are not UTF-8),
  the freeze fails: the hook raises and the exchange gets what the upstream says.
\<close>

theorem first_response_frozen:
  assumes "headers_behave K" and "disk_ok d" and "meta_reads ld"
    and "request_entry K sha cs (x_flow x) = Some p" and "fresh (x_flow x)"
    and "run_exchange K sha ld m cs d x = (out, [], d')" and "\<not> pf_hit out"
    and "x_fault x = NoFault" and "x_other x d = d"
    and "pf_response out = Some r" and "hr_status r = 200" and "\<not> hr_stream r"
    and "\<And>cs x d. (cs, x) \<in> set xs \<Longrightarrow> d \<subseteq>\<^sub>m x_other x d"
    and "request_entry K sha cs' (x_flow x') = Some p" and "fresh (x_flow x')"
    and kept: "kept = cacheable_headers (hk_items K (hr_headers r))"
  shows "\<exists>out' errs d2 r'. run_exchange K sha ld m cs' (run_exchanges K sha ld m d' xs) x' = (out', errs, d2) \<and>
    pf_response out' = Some r' \<and>
    (case encode_headers kept of
       Some bs \<Rightarrow> pf_hit out' \<and> errs = [] \<and> d2 = x_other x' (run_exchanges K sha ld m d' xs) \<and> hr_status r' = 200 \<and>
         hr_content r' = Some (content_of (hr_content r)) \<and> hr_headers r' = hk_make K bs (content_of (hr_content r)) \<and>
         (ascii_headers kept \<longrightarrow> but_length (hk_items K (hr_headers r')) = kept)
     | None \<Rightarrow> \<not> pf_hit out' \<and> unencodable \<in> set errs \<and> \<not> ascii_headers kept \<and>
         (\<exists>fl. hr_status r' = hr_status (x_upstream x' fl) \<and> hr_content r' = hr_content (x_upstream x' fl)))"
proof -
  have e: "run_exchanges K sha ld m d' xs p = Some \<lparr>ce_meta = Some (meta_text 200 kept), ce_body = Some (content_of (hr_content r))\<rparr>"
    unfolding kept by (rule entry_stays [where d = d and p = p and xs = xs, OF assms(1-12)]) (rule assms(13))
  show ?thesis
  proof (cases "encode_headers kept")
    case (Some bs)
    have "ascii_headers kept \<longrightarrow> but_length (hk_items K (hk_make K bs b)) = kept" for b
      using Some encode_ascii made_headers [OF assms(1), of bs "hr_headers r" b] kept by auto
    moreover obtain out' r' where "run_exchange K sha ld m cs' (run_exchanges K sha ld m d' xs) x' =
        (out', [], x_other x' (run_exchanges K sha ld m d' xs))" "pf_hit out'" "pf_response out' = Some r'"
        "hr_status r' = 200" "hr_content r' = Some (content_of (hr_content r))"
        "hr_headers r' = hk_make K bs (content_of (hr_content r))"
      using hit_exchange [where p = p and m = m and d = "run_exchanges K sha ld m d' xs", OF assms(3,14,15) e Some] by blast
    ultimately show ?thesis using Some by (intro exI [of _ out'] exI [of _ "[]"] exI) auto
  next
    case None
    then have "\<not> ascii_headers kept" using encode_ascii by fastforce
    with unencodable_exchange [where p = p and m = m and d = "run_exchanges K sha ld m d' xs", OF assms(3,14,15) e None] None
    show ?thesis by (simp only: option.case) blast
  qed
qed

theorem first_response_frozen_witness:
  "\<exists>out d' out' r'. run_exchange list_kit id read_spaced ''mirror'' Map.empty Map.empty (sample_exchange 1 ''one'') = (out, [], d') \<and>
    run_exchange list_kit id read_spaced ''mirror'' Map.empty
      (run_exchanges list_kit id read_spaced ''mirror'' d' [(Map.empty, sample_exchange 2 ''two'')]) (sample_exchange 3 ''three'') =
      (out', [], run_exchanges list_kit id read_spaced ''mirror'' d' [(Map.empty, sample_exchange 2 ''two'')]) \<and>
    pf_hit out' \<and> pf_response out' = Some r' \<and> hr_status r' = 200 \<and> hr_content r' = Some ''one'' \<and>
    but_length (hk_items list_kit (hr_headers r')) = [(''A'', ''one'')]"
proof -
  obtain out d' where run: "run_exchange list_kit id read_spaced ''mirror'' Map.empty Map.empty (sample_exchange 1 ''one'') = (out, [], d')"
      "\<not> pf_hit out"
      "pf_response out = Some \<lparr>hr_status = 200, hr_headers = [(''A'', ''one'')], hr_content = Some ''one'', hr_stream = False\<rparr>"
    using sample_run by blast
  have x: "x_flow (sample_exchange n b) = sample_flow n" "x_fault (sample_exchange n b) = NoFault" "x_other (sample_exchange n b) = id" for n b
    by (simp_all add: sample_exchange_def)
  have kept: "[(''A'', ''one'')] = cacheable_headers (hk_items list_kit [(''A'', ''one'')])"
    by (simp add: sample_headers cacheable_headers_def HOP_BY_HOP_HEADERS_def VOLATILE_RESPONSE_HEADERS_def lower_str_def
        lower_char_def char_of_eq_iff take_bit_eq_mod)
  have ascii: "ascii_headers [(''A'', ''one'')]" by (simp add: ascii_headers_def ascii_text_def)
  let ?d = "run_exchanges list_kit id read_spaced ''mirror'' d' [(Map.empty, sample_exchange 2 ''two'')]"
  obtain out' errs d2 r' where r': "run_exchange list_kit id read_spaced ''mirror'' Map.empty ?d (sample_exchange 3 ''three'') = (out', errs, d2)"
      "pf_response out' = Some r'" "pf_hit out'" "errs = []" "d2 = ?d" "hr_status r' = 200" "hr_content r' = Some ''one''"
      "but_length (hk_items list_kit (hr_headers r')) = [(''A'', ''one'')]"
    using first_response_frozen [where d = Map.empty and xs = "[(Map.empty, sample_exchange 2 ''two'')]" and
        cs = Map.empty and cs' = Map.empty and x' = "sample_exchange 3 ''three''" and kept = "[(''A'', ''one'')]" and
        p = "entry_path id ''t'' ''GET'' ''http://h/x''", OF list_kit_behaves _ read_spaced_meta _ _ run(1,2) _ _ run(3)]
    by (auto simp: x sample_entry disk_ok_def kept [symmetric] ascii encode_ascii [OF ascii] content_of_def)
  show ?thesis
    by (intro exI conjI) (fact run(1), fact r'(1) [unfolded r'(4,5)], fact+)
qed

end
