(* ===== verification/UvMirror.thy ===== *)
theory UvMirror
  imports HttpsCache
begin

text \<open>
  \<open>src/env/netcache/uv_python_mirror.py\<close>: the read-through mirror of managed Python builds. The cached
  files are an association list from resolved paths below the cache root to contents; what the
  upstream answers and how the file system resolves a path are arbitrary.
\<close>

section \<open>Keys\<close>

definition slash :: char where "slash = CHR ''/''"

fun split_slash :: "string \<Rightarrow> string list" where
  "split_slash [] = [[]]"
| "split_slash (c # cs) =
     (if c = slash then [] # split_slash cs
      else case split_slash cs of l # ls \<Rightarrow> (c # l) # ls | [] \<Rightarrow> [[c]])"

definition mirror_cache_key :: "(string \<Rightarrow> string) \<Rightarrow> string \<Rightarrow> exc + string" where
  "mirror_cache_key repr_of request_path =
     bind_res (urlsplit request_path) (\<lambda>u.
       let parts = filter (\<lambda>p. p \<noteq> []) (split_slash (up_path u))
       in if parts = [] \<or> list_ex (\<lambda>p. p = ''.'' \<or> p = ''..'') parts
          then Inl (ValueError (''unsupported mirror path: '' @ repr_of request_path))
          else Inr (join_str [slash] parts))"

section \<open>One request\<close>

type_synonym mirror_files = "(string \<times> string) list"

datatype fetch_result =
    Fetched nat string string
  | HttpFailed nat string
  | UrlFailed string
  | FetchRaised exc

datatype mirror_reply =
    Reply nat string string
  | Dropped exc

record mirror_env =
  me_upstream :: string
  me_resolve :: "string \<Rightarrow> string option"
  me_fetch :: "string \<Rightarrow> fetch_result"
  me_repr :: "string \<Rightarrow> string"

definition under :: "string \<Rightarrow> string \<Rightarrow> bool" where
  "under d p \<longleftrightarrow> take (Suc (length d)) p = d @ [slash]"

definition is_dir :: "mirror_files \<Rightarrow> string \<Rightarrow> bool" where
  "is_dir fm p \<longleftrightarrow> list_ex (\<lambda>(f, _). under p f) fm"

definition parent_blocked :: "mirror_files \<Rightarrow> string \<Rightarrow> bool" where
  "parent_blocked fm p \<longleftrightarrow> list_ex (\<lambda>(f, _). under f p) fm"

definition text_reply :: "nat \<Rightarrow> string \<Rightarrow> mirror_reply" where
  "text_reply status body = Reply status ''text/plain'' body"

text \<open>\<open>str(HTTPError)\<close>.\<close>

definition http_error_text :: "nat \<Rightarrow> string \<Rightarrow> string" where
  "http_error_text code reason = ''HTTP Error '' @ nat_str code @ '': '' @ reason"

datatype fetch_outcome = Written mirror_files | NotFetched mirror_reply

text \<open>The temporary file is gone on every failure, so a failure leaves the files as they were.\<close>

definition fetch_to_cache :: "mirror_env \<Rightarrow> mirror_files \<Rightarrow> string \<Rightarrow> string \<Rightarrow> fetch_outcome" where
  "fetch_to_cache E fm upstream_url target =
     (if parent_blocked fm target then NotFetched (Dropped (OtherError ''FileExistsError'' target))
      else case me_fetch E upstream_url of
        Fetched status reason body \<Rightarrow>
          (if status \<noteq> 200 then NotFetched (text_reply status (http_error_text status reason))
           else Written ((target, body) # fm))
      | HttpFailed code reason \<Rightarrow> NotFetched (text_reply code (http_error_text code reason))
      | UrlFailed reason \<Rightarrow> NotFetched (text_reply 502 (''<urlopen error '' @ reason @ ''>''))
      | FetchRaised x \<Rightarrow>
          NotFetched (case x of ValueError msg \<Rightarrow> text_reply 400 msg | _ \<Rightarrow> Dropped x))"

definition send_file :: "mirror_files \<Rightarrow> string \<Rightarrow> mirror_reply" where
  "send_file fm target =
     (case map_of fm target of
        Some body \<Rightarrow> Reply 200 ''application/octet-stream'' body
      | None \<Rightarrow> Dropped (OtherError ''IsADirectoryError'' target))"

definition rstrip_slash :: "string \<Rightarrow> string" where
  "rstrip_slash s = rev (dropWhile (\<lambda>c. c = slash) (rev s))"

definition do_GET :: "mirror_env \<Rightarrow> mirror_files \<Rightarrow> string \<Rightarrow> mirror_reply \<times> mirror_files" where
  "do_GET E fm path =
     (case urlsplit path of
        Inl x \<Rightarrow> (Dropped x, fm)
      | Inr u \<Rightarrow>
          (if up_path u = ''/healthz'' then (text_reply 200 (''ok'' @ [nl]), fm)
           else case mirror_cache_key (me_repr E) path of
             Inl x \<Rightarrow> (text_reply 400 (exc_detail x), fm)
           | Inr key \<Rightarrow>
               (case me_resolve E key of
                  None \<Rightarrow> (text_reply 400 (key @ '' is not in the subpath''), fm)
                | Some target \<Rightarrow>
                    (if map_of fm target \<noteq> None \<or> is_dir fm target then (send_file fm target, fm)
                     else case fetch_to_cache E fm (rstrip_slash (me_upstream E) @ [slash] @ key) target of
                       Written fm' \<Rightarrow> (send_file fm' target, fm')
                     | NotFetched r \<Rightarrow> (r, fm)))))"

fun serve_all :: "mirror_env \<Rightarrow> mirror_files \<Rightarrow> string list \<Rightarrow> mirror_reply list \<times> mirror_files" where
  "serve_all E fm [] = ([], fm)"
| "serve_all E fm (p # ps) =
     (let (r, fm1) = do_GET E fm p; (rs, fm2) = serve_all E fm1 ps in (r # rs, fm2))"

section \<open>What the mirror keeps\<close>

lemma split_slash_parts: "p \<in> set (split_slash s) \<Longrightarrow> slash \<notin> set p"
proof (induction s arbitrary: p)
  case (Cons c cs)
  then show ?case by (cases "split_slash cs") (auto split: if_splits)
qed simp

lemma split_slash_append: "slash \<notin> set a \<Longrightarrow> split_slash (a @ slash # b) = a # split_slash b"
  by (induction a) auto

lemma split_slash_alone: "slash \<notin> set a \<Longrightarrow> split_slash a = [a]"
  by (induction a) auto

lemma split_join_slash:
  "ps \<noteq> [] \<Longrightarrow> (\<And>p. p \<in> set ps \<Longrightarrow> slash \<notin> set p) \<Longrightarrow> split_slash (join_str [slash] ps) = ps"
  by (induction "[slash]" ps rule: join_str.induct) (simp_all add: split_slash_append split_slash_alone)

text \<open>A key never climbs: its components are plain names.\<close>

lemma mirror_key_plain:
  assumes "mirror_cache_key rep path = Inr key"
  shows "list_all (\<lambda>p. p \<noteq> [] \<and> p \<noteq> ''.'' \<and> p \<noteq> ''..'') (split_slash key)"
proof -
  obtain u where u: "urlsplit path = Inr u" using assms by (auto simp: mirror_cache_key_def res_simps)
  obtain parts where p: "parts = filter (\<lambda>p. p \<noteq> []) (split_slash (up_path u))" "parts \<noteq> []"
      "\<not> list_ex (\<lambda>p. p = ''.'' \<or> p = ''..'') parts" "key = join_str [slash] parts"
    using assms by (simp add: mirror_cache_key_def u Let_def split: if_splits)
  have "split_slash key = parts"
    unfolding p(4) using p(1,2) split_slash_parts by (intro split_join_slash) auto
  then show ?thesis using p(1,3) by (auto simp: list_all_iff list_ex_iff)
qed

lemma get_keeps_files: "map_of fm \<subseteq>\<^sub>m map_of (snd (do_GET E fm path))"
proof -
  have "map_of fm \<subseteq>\<^sub>m map_of ((target, body) # fm)" if "map_of fm target = None" for target body
    using that by (auto simp: map_le_def domI)
  then show ?thesis
    by (auto simp: do_GET_def fetch_to_cache_def split: sum.splits option.splits fetch_outcome.splits fetch_result.splits if_splits)
qed

lemma serve_keeps_files: "map_of fm \<subseteq>\<^sub>m map_of (snd (serve_all E fm paths))"
proof (induction paths arbitrary: fm)
  case (Cons p ps)
  obtain r fm1 where g: "do_GET E fm p = (r, fm1)" by fastforce
  obtain rs fm2 where s: "serve_all E fm1 ps = (rs, fm2)" by fastforce
  have "map_of fm \<subseteq>\<^sub>m map_of fm1" using get_keeps_files [of fm E p] g by simp
  moreover have "map_of fm1 \<subseteq>\<^sub>m map_of fm2" using Cons.IH [of fm1] s by simp
  ultimately show ?case by (simp add: g s) (rule map_le_trans)
qed simp

text \<open>Only a complete answer of status 200 is kept; a reply of any other kind changes nothing.\<close>

lemma only_success_written:
  assumes "do_GET E fm path = (r, fm')" and "fm' \<noteq> fm"
  shows "\<exists>target body. fm' = (target, body) # fm \<and> map_of fm target = None \<and>
    (\<exists>url reason. Fetched 200 reason body = me_fetch E url) \<and> r = Reply 200 ''application/octet-stream'' body"
  using assms
  by (auto simp: do_GET_def fetch_to_cache_def send_file_def split: sum.splits option.splits fetch_outcome.splits fetch_result.splits if_splits) metis

text \<open>What was served once is served for ever after, whatever the upstream has become.\<close>

lemma mirror_frozen:
  assumes "do_GET E fm path = (Reply 200 ''application/octet-stream'' body, fm')" and "me_resolve E' = me_resolve E"
    and "me_repr E' = me_repr E"
  shows "fst (do_GET E' (snd (serve_all E'' fm' paths)) path) = Reply 200 ''application/octet-stream'' body"
proof -
  obtain u key target where u: "urlsplit path = Inr u" "up_path u \<noteq> ''/healthz''" "mirror_cache_key (me_repr E) path = Inr key"
      "me_resolve E key = Some target"
    and f: "map_of fm' target = Some body"
    using assms(1)
    by (auto simp: do_GET_def send_file_def text_reply_def fetch_to_cache_def
        split: sum.splits option.splits fetch_outcome.splits fetch_result.splits if_splits exc.splits)
  have "map_of (snd (serve_all E'' fm' paths)) target = Some body"
    using serve_keeps_files [of fm' E'' paths] f unfolding map_le_def by (metis domI)
  with u assms(2,3) show ?thesis by (simp add: do_GET_def send_file_def)
qed

end
