(* ===== verification/Instrumented.thy ===== *)
theory Instrumented
  imports Backend
begin

text \<open>
  \<open>src/rollout/telemetry.py\<close>, \<open>InstrumentedLlm\<close>: the boundary every completion of a rollout passes, with the
  trace file it is announced in. What the policy does between two completions is arbitrary: it may
  announce events of its own, and the loop concludes steps. The provider, the disk and the duration of
  a call are parameters; \<open>disk t\<close> says whether the append of the next row works.
\<close>

section \<open>The boundary\<close>

type_synonym 'w inner_llm = "completion_request \<Rightarrow> 'w \<Rightarrow> (llm_exc + completion) \<times> 'w"

text \<open>\<open>event\<close> updates the counters first and appends last: a failing append loses the row only.\<close>

definition appended :: "(telemetry \<Rightarrow> bool) \<Rightarrow> telemetry \<Rightarrow> telemetry \<Rightarrow> (exc + unit) \<times> telemetry" where
  "appended disk t t' =
     (if disk t then (Inr (), t')
      else (Inl (OtherError ''OSError'' ''the trace cannot be written''), t'\<lparr>tl_rows := tl_rows t\<rparr>))"

text \<open>\<open>raise FrameworkError from exc\<close> carries no message.\<close>

definition framework_error :: llm_exc where
  "framework_error = FrameworkFailed []"

definition instrumented_complete ::
    "(string \<Rightarrow> string) \<Rightarrow> (rat \<Rightarrow> string) \<Rightarrow> (string \<Rightarrow> string + json) \<Rightarrow> (telemetry \<Rightarrow> bool) \<Rightarrow>
       ('w \<Rightarrow> 'w \<Rightarrow> rat) \<Rightarrow> 'w inner_llm \<Rightarrow> completion_request \<Rightarrow> telemetry \<times> 'w \<Rightarrow>
       (llm_exc + completion) \<times> telemetry \<times> 'w" where
  "instrumented_complete sha fr loads disk elapsed inner rq tw =
     (case tw of (t, w) \<Rightarrow>
        (case inner rq w of
           (Inl (RejectedToolCall m), w') \<Rightarrow>
             (case appended disk t (on_completion_rejected m t) of
                (Inl _, t') \<Rightarrow> (Inl framework_error, t', w')
              | (Inr _, t') \<Rightarrow> (Inl (RejectedToolCall m), t', w'))
         | (Inl e, w') \<Rightarrow> (Inl e, t, w')
         | (Inr c, w') \<Rightarrow>
             (case on_completion_received sha fr loads (rq_messages rq) (rq_tools rq) c
                     (round4 (elapsed w w')) t of
                (Inl _, t') \<Rightarrow> (Inl framework_error, t', w')
              | (Inr _, t') \<Rightarrow>
                  (case appended disk t t' of
                     (Inl _, t'') \<Rightarrow> (Inl framework_error, t'', w')
                   | (Inr _, t'') \<Rightarrow> (Inr c, t'', w')))))"

section \<open>A rollout at the boundary\<close>

text \<open>What reaches the sink, in any order: completions the policy asks for, events it announces, and
  the steps the loop concludes. The log keeps each request with what came back for it.\<close>

datatype boundary_op =
    Ask completion_request
  | PolicyEvent string "(string \<times> json) list"
  | StepCompleted nat nat step_result bool
  | NoValidActionStep nat

type_synonym call_log = "(completion_request \<times> (llm_exc + completion)) list"

fun boundary_step ::
    "(string \<Rightarrow> string) \<Rightarrow> (rat \<Rightarrow> string) \<Rightarrow> (string \<Rightarrow> string + json) \<Rightarrow> (telemetry \<Rightarrow> bool) \<Rightarrow>
       ('w \<Rightarrow> 'w \<Rightarrow> rat) \<Rightarrow> 'w inner_llm \<Rightarrow> boundary_op \<Rightarrow> telemetry \<times> 'w \<Rightarrow> call_log \<times> telemetry \<times> 'w" where
  "boundary_step sha fr loads disk elapsed inner (Ask rq) tw =
     (case instrumented_complete sha fr loads disk elapsed inner rq tw of (r, tw') \<Rightarrow> ([(rq, r)], tw'))"
| "boundary_step sha fr loads disk elapsed inner (PolicyEvent name kvs) (t, w) =
     (case on_policy_event name kvs t of
        Inl _ \<Rightarrow> ([], t, w) | Inr t' \<Rightarrow> ([], snd (appended disk t t'), w))"
| "boundary_step sha fr loads disk elapsed inner (StepCompleted i j r terminal) (t, w) =
     ([], snd (appended disk t (on_step_completed i j r terminal t)), w)"
| "boundary_step sha fr loads disk elapsed inner (NoValidActionStep i) (t, w) =
     ([], snd (appended disk t (on_no_valid_action_step i t)), w)"

fun boundary_run ::
    "(string \<Rightarrow> string) \<Rightarrow> (rat \<Rightarrow> string) \<Rightarrow> (string \<Rightarrow> string + json) \<Rightarrow> (telemetry \<Rightarrow> bool) \<Rightarrow>
       ('w \<Rightarrow> 'w \<Rightarrow> rat) \<Rightarrow> 'w inner_llm \<Rightarrow> boundary_op list \<Rightarrow> telemetry \<times> 'w \<Rightarrow> call_log \<times> telemetry \<times> 'w" where
  "boundary_run sha fr loads disk elapsed inner [] tw = ([], tw)"
| "boundary_run sha fr loads disk elapsed inner (op' # ops) tw =
     (case boundary_step sha fr loads disk elapsed inner op' tw of
        (calls, tw') \<Rightarrow>
          (case boundary_run sha fr loads disk elapsed inner ops tw' of (rest, tw'') \<Rightarrow> (calls @ rest, tw'')))"

section \<open>Reading the trace\<close>

text \<open>A reader takes the rows named \<open>completion_received\<close>: the completion of each, and its blobs.\<close>

definition received_rows :: "(string \<times> (string \<times> json) list) list \<Rightarrow> (string \<times> json) list list" where
  "received_rows rows = map snd (filter (\<lambda>(name, _). name = ''completion_received'') rows)"

fun json_members :: "json option \<Rightarrow> (string \<times> json) list" where
  "json_members (Some (JObj ms)) = ms"
| "json_members _ = []"

fun json_objects :: "json option \<Rightarrow> (string \<times> json) list list" where
  "json_objects (Some (JArr vs)) = map (\<lambda>v. json_members (Some v)) vs"
| "json_objects _ = []"

definition row_blobs :: "(string \<times> json) list \<Rightarrow> (string \<times> json) list list" where
  "row_blobs kvs = json_objects (map_of kvs ''request_messages'') @ [json_members (map_of kvs ''request_tools'')]"

definition trace_blobs :: "telemetry \<Rightarrow> (string \<times> json) list list" where
  "trace_blobs t = concat (map row_blobs (received_rows (tl_rows t)))"

definition trace_completions :: "telemetry \<Rightarrow> json option list" where
  "trace_completions t = map (\<lambda>kvs. map_of kvs ''completion'') (received_rows (tl_rows t))"

fun delivered :: "call_log \<Rightarrow> (completion_request \<times> completion) list" where
  "delivered [] = []"
| "delivered ((rq, Inr c) # calls) = (rq, c) # delivered calls"
| "delivered ((rq, Inl e) # calls) = delivered calls"

definition sent_blobs :: "(completion_request \<times> completion) list \<Rightarrow> (string list \<times> (string \<times> json) list) list" where
  "sent_blobs calls = concat (map (\<lambda>(rq, _). request_blobs (rq_messages rq) (rq_tools rq)) calls)"

lemma delivered_append [simp]: "delivered (calls @ rest) = delivered calls @ delivered rest"
  by (induction calls rule: delivered.induct) auto

lemma received_rows_append [simp]: "received_rows (rs @ rs') = received_rows rs @ received_rows rs'"
  by (simp add: received_rows_def)

lemma received_rows_one [simp]:
  "received_rows [(name, kvs)] = (if name = ''completion_received'' then [kvs] else [])"
  by (simp add: received_rows_def)

lemma sent_blobs_append [simp]: "sent_blobs (cs @ cs') = sent_blobs cs @ sent_blobs cs'"
  by (simp add: sent_blobs_def)

section \<open>What one step leaves in the trace\<close>

lemma tel_event_rows [simp]: "tl_rows (tel_event name kvs t) = tl_rows t @ [(name, kvs)]"
  by (simp add: tel_event_def)

lemma conclude_rows [simp]: "tl_rows (conclude_decision v t) = tl_rows t"
  by (simp add: conclude_decision_def)

lemma policy_event_rows:
  "on_policy_event name kvs t = Inr t' \<Longrightarrow>
     tl_rows t' = tl_rows t @ [(name, kvs)] \<and> name \<in> set POLICY_EVENT_NAMES \<and>
     tl_seen_request_shas t' = tl_seen_request_shas t"
  by (auto simp: on_policy_event_def tel_event_def split: if_splits option.splits json.splits)

text \<open>Nothing but a delivered completion becomes a row of that name: the policy cannot announce one.\<close>

lemma policy_cannot_forge:
  "on_policy_event name kvs t = Inr t' \<Longrightarrow> received_rows (tl_rows t') = received_rows (tl_rows t)"
  by (auto dest!: policy_event_rows simp: POLICY_EVENT_NAMES_def)

lemma appended_rows: "tl_rows (snd (appended disk t t')) = (if disk t then tl_rows t' else tl_rows t)"
  by (simp add: appended_def)

lemma seen_simps [simp]:
  "tl_seen_request_shas (tel_event name kvs t) = tl_seen_request_shas t"
  "tl_seen_request_shas (conclude_decision v t) = tl_seen_request_shas t"
  "tl_seen_request_shas (snd (appended disk t t')) = tl_seen_request_shas t'"
  by (simp_all add: tel_event_def conclude_decision_def appended_def)

lemma on_completion_received_effect:
  assumes "on_completion_received sha fr loads messages tools c l t = (r, t')"
  shows "(\<exists>e. r = Inl e \<and> tl_rows t' = tl_rows t) \<or>
     (\<exists>ds seen kvs. r = Inr () \<and>
        dedup_blobs sha fr (request_blobs messages tools) (tl_seen_request_shas t) = (Inr ds, seen) \<and>
        tl_rows t' = tl_rows t @ [(''completion_received'', kvs)] \<and> tl_seen_request_shas t' = seen \<and>
        map_of kvs ''completion'' = Some (completion_with_parsed_calls loads c) \<and>
        map_of kvs ''request_messages'' = Some (JArr (map JObj (butlast ds))) \<and>
        map_of kvs ''request_tools'' = Some (JObj (last ds)))"
  using assms
  by (auto simp: on_completion_received_def slim_completion_event_def Let_def tel_event_def
      split: prod.splits sum.splits if_splits)

lemma dedup_length: "dedup_blobs sha fr bs seen = (Inr ds, seen') \<Longrightarrow> length ds = length bs"
  by (induction bs arbitrary: seen ds seen') (auto split: prod.splits sum.splits)

lemma row_blobs_recorded:
  assumes "dedup_blobs sha fr (request_blobs messages tools) seen = (Inr ds, seen')"
    and "map_of kvs ''request_messages'' = Some (JArr (map JObj (butlast ds)))"
    and "map_of kvs ''request_tools'' = Some (JObj (last ds))"
  shows "row_blobs kvs = ds"
proof -
  have "ds \<noteq> []" using dedup_length [OF assms(1)] by (auto simp: request_blobs_def)
  then show ?thesis using assms(2,3) by (simp add: row_blobs_def comp_def)
qed

definition framework_free :: "call_log \<Rightarrow> bool" where
  "framework_free calls \<longleftrightarrow> list_all (\<lambda>(_, r). r \<noteq> Inl framework_error) calls"

lemma trace_append:
  assumes "received_rows (tl_rows t') = received_rows (tl_rows t) @ rows"
  shows "trace_completions t' = trace_completions t @ map (\<lambda>kvs. map_of kvs ''completion'') rows"
    and "trace_blobs t' = trace_blobs t @ concat (map row_blobs rows)"
  using assms by (simp_all add: trace_completions_def trace_blobs_def)

text \<open>A completion is delivered exactly if its row is in the trace.\<close>

lemma instrumented_complete_effect:
  assumes "instrumented_complete sha fr loads disk elapsed inner rq (t, w) = (r, t', w')"
  shows "(\<exists>e. r = Inl e \<and> received_rows (tl_rows t') = received_rows (tl_rows t) \<and>
        (e = framework_error \<or> tl_seen_request_shas t' = tl_seen_request_shas t)) \<or>
     (\<exists>c kvs ds. r = Inr c \<and> received_rows (tl_rows t') = received_rows (tl_rows t) @ [kvs] \<and>
        map_of kvs ''completion'' = Some (completion_with_parsed_calls loads c) \<and> row_blobs kvs = ds \<and>
        dedup_blobs sha fr (request_blobs (rq_messages rq) (rq_tools rq)) (tl_seen_request_shas t) =
          (Inr ds, tl_seen_request_shas t'))"
proof (cases "inner rq w")
  case (Pair a w1)
  show ?thesis
  proof (cases a)
    case (Inl e)
    then show ?thesis
      using assms Pair
      by (cases e) (auto simp: instrumented_complete_def appended_def on_completion_rejected_def Let_def tel_event_def
          split: if_splits)
  next
    case (Inr c)
    obtain r1 t1 where rec: "on_completion_received sha fr loads (rq_messages rq) (rq_tools rq) c
        (round4 (elapsed w w1)) t = (r1, t1)" by fastforce
    consider (fails) e where "r1 = Inl e" "tl_rows t1 = tl_rows t"
      | (row) ds kvs where "r1 = Inr ()"
          "dedup_blobs sha fr (request_blobs (rq_messages rq) (rq_tools rq)) (tl_seen_request_shas t) =
             (Inr ds, tl_seen_request_shas t1)"
          "tl_rows t1 = tl_rows t @ [(''completion_received'', kvs)]"
          "map_of kvs ''completion'' = Some (completion_with_parsed_calls loads c)" "row_blobs kvs = ds"
      using on_completion_received_effect [OF rec] row_blobs_recorded by metis
    then show ?thesis
    proof cases
      case fails
      then show ?thesis using assms Pair Inr rec by (auto simp: instrumented_complete_def)
    next
      case row
      then show ?thesis
        using assms Pair Inr rec by (auto simp: instrumented_complete_def appended_def split: if_splits)
    qed
  qed
qed

lemma boundary_step_effect:
  assumes "boundary_step sha fr loads disk elapsed inner op' (t, w) = (calls, t', w')"
  shows "trace_completions t' =
       trace_completions t @ map (\<lambda>(_, c). Some (completion_with_parsed_calls loads c)) (delivered calls)" (is ?completions)
    and "framework_free calls \<Longrightarrow> \<exists>ds. dedup_blobs sha fr (sent_blobs (delivered calls)) (tl_seen_request_shas t) =
       (Inr ds, tl_seen_request_shas t') \<and> trace_blobs t' = trace_blobs t @ ds" (is "_ \<Longrightarrow> ?blobs")
proof -
  have quiet: "?completions \<and> (framework_free calls \<longrightarrow> ?blobs)"
    if "delivered calls = []" "received_rows (tl_rows t') = received_rows (tl_rows t)"
      "framework_free calls \<longrightarrow> tl_seen_request_shas t' = tl_seen_request_shas t"
    using that by (simp add: trace_completions_def trace_blobs_def sent_blobs_def)
  have "?completions \<and> (framework_free calls \<longrightarrow> ?blobs)"
  proof (cases op')
    case (Ask rq)
    then obtain r where ic: "instrumented_complete sha fr loads disk elapsed inner rq (t, w) = (r, t', w')"
        and calls: "calls = [(rq, r)]"
      using assms by (auto split: prod.splits)
    from instrumented_complete_effect [OF ic] show ?thesis
    proof (elim disjE exE conjE)
      fix e assume "r = Inl e" "received_rows (tl_rows t') = received_rows (tl_rows t)"
        "e = framework_error"
      then show ?thesis by (intro quiet) (simp_all add: calls framework_free_def)
    next
      fix e assume "r = Inl e" "received_rows (tl_rows t') = received_rows (tl_rows t)"
        "tl_seen_request_shas t' = tl_seen_request_shas t"
      then show ?thesis by (intro quiet) (simp_all add: calls)
    next
      fix c kvs ds
      assume "r = Inr c" and rows: "received_rows (tl_rows t') = received_rows (tl_rows t) @ [kvs]"
        and "map_of kvs ''completion'' = Some (completion_with_parsed_calls loads c)" "row_blobs kvs = ds"
        and "dedup_blobs sha fr (request_blobs (rq_messages rq) (rq_tools rq)) (tl_seen_request_shas t) =
          (Inr ds, tl_seen_request_shas t')"
      then show ?thesis using trace_append [OF rows] by (simp add: calls sent_blobs_def)
    qed
  next
    case (PolicyEvent name kvs)
    then show ?thesis
      using assms by (intro quiet)
        (auto simp: appended_rows policy_cannot_forge dest: policy_event_rows split: sum.splits)
  next
    case (StepCompleted i j r terminal)
    then show ?thesis
      using assms by (intro quiet) (auto simp: appended_rows on_step_completed_def)
  next
    case (NoValidActionStep i)
    then show ?thesis
      using assms by (intro quiet) (auto simp: appended_rows on_no_valid_action_step_def)
  qed
  then show ?completions and "framework_free calls \<Longrightarrow> ?blobs"
    by blast+
qed

section \<open>What a whole rollout leaves in the trace\<close>

lemma dedup_append:
  "dedup_blobs sha fr bs seen = (Inr ds, seen1) \<Longrightarrow> dedup_blobs sha fr bs' seen1 = (Inr ds', seen2) \<Longrightarrow>
     dedup_blobs sha fr (bs @ bs') seen = (Inr (ds @ ds'), seen2)"
proof (induction bs arbitrary: seen ds)
  case Nil
  then show ?case by simp
next
  case (Cons b bs)
  obtain ks blob where b: "b = (ks, blob)" by fastforce
  from Cons.prems(1) obtain d seen0 rest where "dedup_request_blob sha fr ks blob seen = (Inr d, seen0)"
      "dedup_blobs sha fr bs seen0 = (Inr rest, seen1)" "ds = d # rest"
    by (auto simp: b split: prod.splits sum.splits)
  then show ?case using Cons.IH Cons.prems(2) by (simp add: b)
qed

lemma framework_free_append [simp]: "framework_free (l @ l') \<longleftrightarrow> framework_free l \<and> framework_free l'"
  by (simp add: framework_free_def)

lemma boundary_run_completions:
  "boundary_run sha fr loads disk elapsed inner ops (t, w) = (calls, t', w') \<Longrightarrow>
     trace_completions t' =
       trace_completions t @ map (\<lambda>(_, c). Some (completion_with_parsed_calls loads c)) (delivered calls)"
proof (induction ops arbitrary: t w calls)
  case Nil
  then show ?case by simp
next
  case (Cons op' ops)
  from Cons.prems obtain l1 t1 w1 l2 where
      "boundary_step sha fr loads disk elapsed inner op' (t, w) = (l1, t1, w1)"
      "boundary_run sha fr loads disk elapsed inner ops (t1, w1) = (l2, t', w')" "calls = l1 @ l2"
    by (auto split: prod.splits)
  then show ?case using boundary_step_effect(1) Cons.IH by fastforce
qed

lemma boundary_run_blobs:
  "boundary_run sha fr loads disk elapsed inner ops (t, w) = (calls, t', w') \<Longrightarrow> framework_free calls \<Longrightarrow>
     \<exists>ds. dedup_blobs sha fr (sent_blobs (delivered calls)) (tl_seen_request_shas t) =
       (Inr ds, tl_seen_request_shas t') \<and> trace_blobs t' = trace_blobs t @ ds"
proof (induction ops arbitrary: t w calls)
  case Nil
  then show ?case by (simp add: sent_blobs_def)
next
  case (Cons op' ops)
  from Cons.prems(1) obtain l1 t1 w1 l2 where
      step: "boundary_step sha fr loads disk elapsed inner op' (t, w) = (l1, t1, w1)" and
      run: "boundary_run sha fr loads disk elapsed inner ops (t1, w1) = (l2, t', w')" and calls: "calls = l1 @ l2"
    by (auto split: prod.splits)
  obtain ds1 where "dedup_blobs sha fr (sent_blobs (delivered l1)) (tl_seen_request_shas t) =
        (Inr ds1, tl_seen_request_shas t1)" "trace_blobs t1 = trace_blobs t @ ds1"
    using boundary_step_effect(2) [OF step] Cons.prems(2) by (auto simp: calls)
  moreover obtain ds2 where "dedup_blobs sha fr (sent_blobs (delivered l2)) (tl_seen_request_shas t1) =
        (Inr ds2, tl_seen_request_shas t')" "trace_blobs t' = trace_blobs t1 @ ds2"
    using Cons.IH [OF run] Cons.prems(2) by (auto simp: calls)
  ultimately show ?case by (auto simp: calls intro: dedup_append)
qed

text \<open>
  C18. The trace of a rollout is the ground truth of what its model said and was asked. Over any
  interleaving of completions, policy events and concluded steps, and whatever the disk does: the
  completion rows are the completions delivered to the policy, in order, none missing and none added
  by the policy; and unless the boundary itself failed, the requests of these completions are read
  back from the deduplicated rows, every message list and tool list, up to the order of object
  members, provided that the first twelve digits of SHA-256 distinguish the texts of the blobs and no
  blob has a \<open>sha\<close> member of its own.
\<close>

theorem trace_is_ground_truth:
  assumes "boundary_run sha fr loads disk elapsed inner ops (fresh_telemetry, w) = (calls, t, w')"
    and "float_repr_ok fr"
    and "\<forall>(ks, b) \<in> set (sent_blobs (delivered calls)). ''sha'' \<notin> fst ` set b"
    and "\<forall>b \<in> snd ` set (sent_blobs (delivered calls)). \<forall>b' \<in> snd ` set (sent_blobs (delivered calls)).
           blob_sha sha fr b = blob_sha sha fr b' \<longrightarrow> dumps_compact fr (JObj b) = dumps_compact fr (JObj b')"
  shows "trace_completions t = map (\<lambda>(_, c). Some (completion_with_parsed_calls loads c)) (delivered calls) \<and>
    (framework_free calls \<longrightarrow>
       map (\<lambda>b. canon (JObj b)) (restore_blobs [] (trace_blobs t)) =
       map (\<lambda>(_, b). canon (JObj b)) (sent_blobs (delivered calls)))"
proof
  have fresh: "trace_completions fresh_telemetry = []" "trace_blobs fresh_telemetry = []"
      "tl_seen_request_shas fresh_telemetry = []"
    by (simp_all add: trace_completions_def trace_blobs_def received_rows_def fresh_telemetry_def)
  show "trace_completions t = map (\<lambda>(_, c). Some (completion_with_parsed_calls loads c)) (delivered calls)"
    using boundary_run_completions [OF assms(1)] fresh by simp
  show "framework_free calls \<longrightarrow> map (\<lambda>b. canon (JObj b)) (restore_blobs [] (trace_blobs t)) =
      map (\<lambda>(_, b). canon (JObj b)) (sent_blobs (delivered calls))"
  proof
    assume "framework_free calls"
    from boundary_run_blobs [OF assms(1) this] obtain seen where
      "dedup_blobs sha fr (sent_blobs (delivered calls)) [] = (Inr (trace_blobs t), seen)"
      unfolding fresh by auto
    then show "map (\<lambda>b. canon (JObj b)) (restore_blobs [] (trace_blobs t)) =
        map (\<lambda>(_, b). canon (JObj b)) (sent_blobs (delivered calls))"
      by (rule request_log_lossless [OF _ assms(2-4)])
  qed
qed

definition sample_ask :: completion_request where
  "sample_ask = \<lparr>rq_messages = [[(''role'', JStr ''user''), (''content'', JStr ''hi'')]], rq_tools = [],
     rq_enable_thinking = None\<rparr>"

definition sample_said :: completion where
  "sample_said = \<lparr>co_tool_calls = [], co_content = Some ''yes'', co_finish_reason = None,
     co_usage = \<lparr>us_prompt_tokens = None, us_completion_tokens = None, us_reasoning_tokens = None,
       us_cached_input_tokens = None\<rparr>,
     co_reasoning_content = None, co_response = [], co_served_from_cache = True\<rparr>"

text \<open>The policy asks twice, and in between tries to announce a completion of its own.\<close>

definition sample_traced :: "call_log \<times> telemetry \<times> unit" where
  "sample_traced = boundary_run id sample_repr (\<lambda>_. Inl []) (\<lambda>_. True) (\<lambda>_ _. 1) (\<lambda>_ w. (Inr sample_said, w))
     [Ask sample_ask, PolicyEvent ''completion_received'' [(''completion'', JNull)], Ask sample_ask]
     (fresh_telemetry, ())"

lemma sample_traced_calls: "fst sample_traced = [(sample_ask, Inr sample_said), (sample_ask, Inr sample_said)]"
  by code_simp

theorem trace_is_ground_truth_witness:
  "length (trace_completions (fst (snd sample_traced))) = 2 \<and>
   map (\<lambda>b. canon (JObj b)) (restore_blobs [] (trace_blobs (fst (snd sample_traced)))) =
     map (\<lambda>(_, b). canon (JObj b)) (sent_blobs [(sample_ask, sample_said), (sample_ask, sample_said)])"
proof -
  have run: "boundary_run id sample_repr (\<lambda>_. Inl []) (\<lambda>_. True) (\<lambda>_ _. 1) (\<lambda>_ w. (Inr sample_said, w))
     [Ask sample_ask, PolicyEvent ''completion_received'' [(''completion'', JNull)], Ask sample_ask]
     (fresh_telemetry, ()) = (fst sample_traced, fst (snd sample_traced), snd (snd sample_traced))"
    unfolding sample_traced_def by (simp only: prod.collapse)
  have blobs: "set (sent_blobs (delivered (fst sample_traced))) =
      {([''role''], [(''role'', JStr ''user''), (''content'', JStr ''hi'')]), ([], [(''tools'', JArr [])])}"
    by (auto simp: sample_traced_calls sent_blobs_def request_blobs_def sample_ask_def)
  have "blob_sha id sample_repr [(''role'', JStr ''user''), (''content'', JStr ''hi'')] \<noteq>
      blob_sha id sample_repr [(''tools'', JArr [])]"
    by code_simp
  then have "\<forall>(ks, b) \<in> set (sent_blobs (delivered (fst sample_traced))). ''sha'' \<notin> fst ` set b"
    and "\<forall>b \<in> snd ` set (sent_blobs (delivered (fst sample_traced))).
      \<forall>b' \<in> snd ` set (sent_blobs (delivered (fst sample_traced))).
        blob_sha id sample_repr b = blob_sha id sample_repr b' \<longrightarrow>
          dumps_compact sample_repr (JObj b) = dumps_compact sample_repr (JObj b')"
    by (auto simp: blobs)
  from trace_is_ground_truth [OF run sample_repr_ok this] show ?thesis
    by (simp add: sample_traced_calls framework_free_def)
qed

end
