(* ===== verification/SqlitePool.thy ===== *)
theory SqlitePool
  imports Replay
begin

text \<open>
  \<open>src/plugins/caching/store.py\<close>, \<open>_SqliteStore\<close> and the process-global store: the pool of worker
  connections below the facade that \<open>Cache\<close> models. The database is what is committed, with a count of
  its commits; a connection is in autocommit or in a transaction, and a transaction keeps the snapshot
  its first read took (SQLite in WAL mode, driven as Python's \<open>sqlite3\<close> does). Which worker serves a
  call, what other processes commit before it, and whether its statement raises, are arbitrary. A put
  holds the write lock from its insert to its commit, so one call is one step.
\<close>

section \<open>The database\<close>

record database =
  db_rows :: "(string, string) dict"
  db_counters :: "(string, nat) dict"
  db_version :: nat

definition empty_database :: database where
  "empty_database = \<lparr>db_rows = [], db_counters = [], db_version = 0\<rparr>"

text \<open>A commit that changes nothing leaves no new version.\<close>

definition committed :: "(string, string) dict \<Rightarrow> (string, nat) dict \<Rightarrow> database \<Rightarrow> database" where
  "committed rows counters db =
     (if rows = db_rows db \<and> counters = db_counters db then db
      else \<lparr>db_rows = rows, db_counters = counters, db_version = db_version db + 1\<rparr>)"

datatype outside = OtherInsert string string | OtherBump string

fun outside_commit :: "outside \<Rightarrow> database \<Rightarrow> database" where
  "outside_commit (OtherInsert k v) db = committed (insert_or_ignore k v (db_rows db)) (db_counters db) db"
| "outside_commit (OtherBump ns) db = committed (db_rows db) (snd (bump_epoch ns (db_counters db))) db"

section \<open>Connections\<close>

record connection =
  cn_in_transaction :: bool
  cn_snapshot :: "database option"

definition fresh_connection :: connection where
  "fresh_connection = \<lparr>cn_in_transaction = False, cn_snapshot = None\<rparr>"

text \<open>A read outside of a transaction sees what is committed; the first one inside of it takes the snapshot.\<close>

definition select_value ::
    "(database \<Rightarrow> 'a) \<Rightarrow> exc option \<Rightarrow> database \<Rightarrow> connection \<Rightarrow> (exc + 'a) \<times> database \<times> connection" where
  "select_value f fails db c =
     (case fails of
        Some e \<Rightarrow> (Inl e, db, c)
      | None \<Rightarrow>
          (case cn_snapshot c of
             Some d \<Rightarrow> (Inr (f d), db, c)
           | None \<Rightarrow> (Inr (f db), db, if cn_in_transaction c then c\<lparr>cn_snapshot := Some db\<rparr> else c)))"

text \<open>The insert opens a transaction; it needs the write lock, and a snapshot that is still current.
  Only the commit closes the transaction: there is no rollback.\<close>

definition stale :: "database \<Rightarrow> connection \<Rightarrow> bool" where
  "stale db c = (case cn_snapshot c of None \<Rightarrow> False | Some d \<Rightarrow> db_version d \<noteq> db_version db)"

definition insert_and_commit ::
    "string \<Rightarrow> string \<Rightarrow> exc option \<Rightarrow> database \<Rightarrow> connection \<Rightarrow> (exc + unit) \<times> database \<times> connection" where
  "insert_and_commit k v fails db c =
     (case fails of
        Some e \<Rightarrow> (Inl e, db, c\<lparr>cn_in_transaction := True\<rparr>)
      | None \<Rightarrow>
          (if stale db c then (Inl storage_failure, db, c\<lparr>cn_in_transaction := True\<rparr>)
           else (Inr (), committed (insert_or_ignore k v (db_rows db)) (db_counters db) db, fresh_connection)))"

section \<open>The pool\<close>

definition POOL_WORKERS :: nat where "POOL_WORKERS = 4"

text \<open>\<open>_local\<close> maps a worker to the position of its connection in \<open>_connections\<close>.\<close>

record sqlite_store =
  ss_local :: "(nat, nat) dict"
  ss_connections :: "connection list"
  ss_shutdown :: bool

definition new_store :: sqlite_store where
  "new_store = \<lparr>ss_local = [], ss_connections = [], ss_shutdown = False\<rparr>"

text \<open>\<open>__init__\<close>: a failure may come before or after the tables exist, and propagates.\<close>

definition open_store ::
    "(exc \<times> bool) option \<Rightarrow> database option \<Rightarrow> (exc + sqlite_store) \<times> database option" where
  "open_store fault file =
     (let tables = Some (case file of None \<Rightarrow> empty_database | Some db \<Rightarrow> db)
      in case fault of
           Some (e, after) \<Rightarrow> (Inl e, if after then tables else file)
         | None \<Rightarrow> (Inr new_store, tables))"

text \<open>\<open>store()\<close>: the singleton, the file, and how many exit hooks were registered.\<close>

definition global_store ::
    "(exc \<times> bool) option \<Rightarrow> sqlite_store option \<times> database option \<times> nat \<Rightarrow>
       (exc + sqlite_store) \<times> sqlite_store option \<times> database option \<times> nat" where
  "global_store fault g =
     (case g of
        (Some s, file, hooks) \<Rightarrow> (Inr s, g)
      | (None, file, hooks) \<Rightarrow>
          (case open_store fault file of
             (Inl e, file') \<Rightarrow> (Inl e, None, file', hooks)
           | (Inr s, file') \<Rightarrow> (Inr s, Some s, file', hooks + 1)))"

definition worker_conn :: "nat \<Rightarrow> exc option \<Rightarrow> sqlite_store \<Rightarrow> (exc + nat) \<times> sqlite_store" where
  "worker_conn w fails s =
     (case map_of (ss_local s) w of
        Some i \<Rightarrow> (Inr i, s)
      | None \<Rightarrow>
          (case fails of
             Some e \<Rightarrow> (Inl e, s)
           | None \<Rightarrow>
               (Inr (length (ss_connections s)),
                s\<lparr>ss_local := AList.update w (length (ss_connections s)) (ss_local s),
                  ss_connections := ss_connections s @ [fresh_connection]\<rparr>)))"

text \<open>One access: what the other processes commit before it, the worker that takes it, whether opening a
  connection or the statement raises.\<close>

record pool_access =
  pa_outside :: "outside list"
  pa_worker :: nat
  pa_open_fails :: "exc option"
  pa_fails :: "exc option"

definition quiet_access :: pool_access where
  "quiet_access = \<lparr>pa_outside = [], pa_worker = 0, pa_open_fails = None, pa_fails = None\<rparr>"

definition worker_of :: "pool_access \<Rightarrow> nat" where
  "worker_of a = pa_worker a mod POOL_WORKERS"

definition on_worker ::
    "pool_access \<Rightarrow> (exc option \<Rightarrow> database \<Rightarrow> connection \<Rightarrow> (exc + 'a) \<times> database \<times> connection) \<Rightarrow>
       sqlite_store \<times> database \<Rightarrow> (exc + 'a) \<times> sqlite_store \<times> database" where
  "on_worker a job sd =
     (case sd of (s, db0) \<Rightarrow>
        (let db = fold outside_commit (pa_outside a) db0
         in if ss_shutdown s
            then (Inl (RuntimeError ''cannot schedule new futures after shutdown''), s, db)
            else case worker_conn (worker_of a) (pa_open_fails a) s of
                   (Inl e, s1) \<Rightarrow> (Inl e, s1, db)
                 | (Inr i, s1) \<Rightarrow>
                     (case job (pa_fails a) db (ss_connections s1 ! i) of
                        (r, db', c) \<Rightarrow> (r, s1\<lparr>ss_connections := (ss_connections s1)[i := c]\<rparr>, db'))))"

definition store_get :: "string \<Rightarrow> pool_access \<Rightarrow> sqlite_store \<times> database \<Rightarrow> (exc + string option) \<times> sqlite_store \<times> database" where
  "store_get key a = on_worker a (select_value (\<lambda>db. map_of (db_rows db) key))"

definition store_put :: "string \<Rightarrow> string \<Rightarrow> pool_access \<Rightarrow> sqlite_store \<times> database \<Rightarrow> (exc + unit) \<times> sqlite_store \<times> database" where
  "store_put key v a = on_worker a (insert_and_commit key v)"

definition store_get_counter :: "string \<Rightarrow> pool_access \<Rightarrow> sqlite_store \<times> database \<Rightarrow> (exc + nat) \<times> sqlite_store \<times> database" where
  "store_get_counter key a =
     on_worker a (select_value (\<lambda>db. case map_of (db_counters db) key of None \<Rightarrow> 0 | Some n \<Rightarrow> n))"

text \<open>\<open>close\<close>, after every worker was joined.\<close>

definition close_store :: "sqlite_store \<Rightarrow> sqlite_store" where
  "close_store s = s\<lparr>ss_connections := [], ss_shutdown := True\<rparr>"

section \<open>The facade over the pool\<close>

record pooled =
  pl_disabled :: bool
  pl_store :: sqlite_store
  pl_db :: database
  pl_script :: "pool_access list"

definition next_pool_access :: "pooled \<Rightarrow> pool_access \<times> pooled" where
  "next_pool_access p =
     (case pl_script p of [] \<Rightarrow> (quiet_access, p) | a # as \<Rightarrow> (a, p\<lparr>pl_script := as\<rparr>))"

definition pooled_get :: "string \<Rightarrow> pooled \<Rightarrow> string option \<times> pooled" where
  "pooled_get key p =
     (if pl_disabled p then (None, p)
      else case next_pool_access p of (a, p1) \<Rightarrow>
        (case store_get key a (pl_store p1, pl_db p1) of
           (r, s, db) \<Rightarrow> (case r of Inl _ \<Rightarrow> None | Inr v \<Rightarrow> v, p1\<lparr>pl_store := s, pl_db := db\<rparr>)))"

definition pooled_put :: "string \<Rightarrow> string \<Rightarrow> pooled \<Rightarrow> pooled" where
  "pooled_put key v p =
     (if pl_disabled p then p
      else case next_pool_access p of (a, p1) \<Rightarrow>
        (case store_put key v a (pl_store p1, pl_db p1) of (r, s, db) \<Rightarrow> p1\<lparr>pl_store := s, pl_db := db\<rparr>))"

section \<open>What a pool keeps\<close>

definition db_extends :: "database \<Rightarrow> database \<Rightarrow> bool" where
  "db_extends db db' \<longleftrightarrow> db_version db \<le> db_version db' \<and> map_of (db_rows db) \<subseteq>\<^sub>m map_of (db_rows db')"

definition snapshot_ok :: "database \<Rightarrow> connection \<Rightarrow> bool" where
  "snapshot_ok db c \<longleftrightarrow>
     (case cn_snapshot c of None \<Rightarrow> True | Some d \<Rightarrow> cn_in_transaction c \<and> db_extends d db)"

text \<open>Every worker has a connection of its own, and no snapshot is ahead of the database.\<close>

definition pool_ok :: "sqlite_store \<Rightarrow> database \<Rightarrow> bool" where
  "pool_ok s db \<longleftrightarrow>
     (ss_shutdown s \<or>
        distinct (map fst (ss_local s)) \<and> fst ` set (ss_local s) \<subseteq> {..<POOL_WORKERS} \<and>
        map snd (ss_local s) = [0..<length (ss_connections s)]) \<and>
     (\<forall>c \<in> set (ss_connections s). snapshot_ok db c)"

lemma db_extends_refl [simp]: "db_extends db db"
  by (simp add: db_extends_def)

lemma db_extends_trans: "db_extends a b \<Longrightarrow> db_extends b c \<Longrightarrow> db_extends a c"
  by (auto simp: db_extends_def intro: map_le_trans)

lemma db_extends_committed: "map_of (db_rows db) \<subseteq>\<^sub>m map_of rows \<Longrightarrow> db_extends db (committed rows counters db)"
  by (simp add: db_extends_def committed_def)

lemma outside_extends: "db_extends db (fold outside_commit os db)"
proof (induction os arbitrary: db)
  case (Cons o' os)
  have "db_extends db (outside_commit o' db)"
    by (cases o') (auto intro!: db_extends_committed insert_or_ignore_rows(2))
  then show ?case using Cons.IH [of "outside_commit o' db"] db_extends_trans by simp
qed simp

lemma snapshot_ok_extends: "snapshot_ok db c \<Longrightarrow> db_extends db db' \<Longrightarrow> snapshot_ok db' c"
  by (auto simp: snapshot_ok_def intro: db_extends_trans split: option.splits)

lemma fresh_snapshot_ok [simp]: "snapshot_ok db fresh_connection"
  by (simp add: snapshot_ok_def fresh_connection_def)

lemma pool_ok_extends: "pool_ok s db \<Longrightarrow> db_extends db db' \<Longrightarrow> pool_ok s db'"
  by (auto simp: pool_ok_def intro: snapshot_ok_extends)

text \<open>What a statement does to its connection and the database.\<close>

definition statement_ok ::
    "(exc option \<Rightarrow> database \<Rightarrow> connection \<Rightarrow> (exc + 'a) \<times> database \<times> connection) \<Rightarrow> bool" where
  "statement_ok job \<longleftrightarrow>
     (\<forall>fails db c r db' c'. snapshot_ok db c \<longrightarrow> job fails db c = (r, db', c') \<longrightarrow>
        snapshot_ok db' c' \<and> db_extends db db')"

lemma select_ok: "statement_ok (select_value f)"
  by (auto simp: statement_ok_def select_value_def snapshot_ok_def split: option.splits if_splits)

lemma insert_ok: "statement_ok (insert_and_commit k v)"
  by (auto simp: statement_ok_def insert_and_commit_def stale_def
      intro!: db_extends_committed insert_or_ignore_rows(2) split: option.splits if_splits)
    (auto simp: snapshot_ok_def split: option.splits)

lemma worker_conn_ok:
  assumes "worker_conn w fails s = (r, s1)" and "pool_ok s db" and "w < POOL_WORKERS" and "\<not> ss_shutdown s"
  shows "pool_ok s1 db" and "ss_shutdown s1 = ss_shutdown s"
    and "r = Inr i \<Longrightarrow> i < length (ss_connections s1) \<and> map_of (ss_local s1) w = Some i"
proof -
  have *: "pool_ok s1 db \<and> ss_shutdown s1 = ss_shutdown s \<and>
      (\<forall>i. r = Inr i \<longrightarrow> i < length (ss_connections s1) \<and> map_of (ss_local s1) w = Some i)"
  proof (cases "map_of (ss_local s) w")
    case None
    then have "w \<notin> fst ` set (ss_local s)" by (simp add: map_of_eq_None_iff)
    then show ?thesis
      using assms None
      by (fastforce simp: worker_conn_def pool_ok_def update_fresh map_add_def split: option.splits)
  next
    case (Some i)
    then have "i \<in> set (map snd (ss_local s))" by (force dest: map_of_SomeD)
    then have "i < length (ss_connections s)" using assms(2,4) by (simp add: pool_ok_def del: set_map)
    then show ?thesis using assms Some by (auto simp: worker_conn_def)
  qed
  show "pool_ok s1 db" "ss_shutdown s1 = ss_shutdown s"
    "r = Inr i \<Longrightarrow> i < length (ss_connections s1) \<and> map_of (ss_local s1) w = Some i"
    using * by auto
qed

lemma worker_of_less [simp]: "worker_of a < POOL_WORKERS"
  by (simp add: worker_of_def POOL_WORKERS_def)

text \<open>An access leaves the pool as it was but for other processes, or it ran its statement on the
  connection of the worker that took it.\<close>

lemma on_worker_cases:
  assumes "on_worker a job (s, db0) = (r, s', db')" and "pool_ok s db0"
  shows "\<exists>db. db = fold outside_commit (pa_outside a) db0 \<and>
     ((\<exists>e. r = Inl e \<and> db' = db \<and> s' = s) \<or>
      (\<exists>s1 i c. \<not> ss_shutdown s \<and> worker_conn (worker_of a) (pa_open_fails a) s = (Inr i, s1) \<and>
         pool_ok s1 db \<and> i < length (ss_connections s1) \<and> map_of (ss_local s1) (worker_of a) = Some i \<and>
         job (pa_fails a) db (ss_connections s1 ! i) = (r, db', c) \<and>
         s' = s1\<lparr>ss_connections := (ss_connections s1)[i := c]\<rparr>))"
proof -
  define db where "db = fold outside_commit (pa_outside a) db0"
  have ok: "pool_ok s db" using assms(2) outside_extends pool_ok_extends db_def by blast
  show ?thesis
  proof (cases "ss_shutdown s")
    case True
    then show ?thesis using assms(1) by (auto simp: on_worker_def Let_def)
  next
    case False
    obtain q s1 where wc: "worker_conn (worker_of a) (pa_open_fails a) s = (q, s1)" by fastforce
    show ?thesis
    proof (cases q)
      case (Inl e)
      then have "s1 = s" using wc by (auto simp: worker_conn_def split: option.splits)
      then show ?thesis using assms(1) False wc Inl by (auto simp: on_worker_def Let_def)
    next
      case (Inr i)
      then show ?thesis
        using assms(1) False wc worker_conn_ok [OF wc ok worker_of_less False]
        by (auto simp: on_worker_def Let_def db_def split: prod.splits)
    qed
  qed
qed

lemma on_worker_keeps:
  assumes "on_worker a job (s, db0) = (r, s', db')" and "pool_ok s db0" and "statement_ok job"
  shows "pool_ok s' db'" and "db_extends db0 db'"
proof -
  obtain db where db: "db = fold outside_commit (pa_outside a) db0"
    and cs: "(\<exists>e. r = Inl e \<and> db' = db \<and> s' = s) \<or>
      (\<exists>s1 i c. pool_ok s1 db \<and> i < length (ss_connections s1) \<and>
         job (pa_fails a) db (ss_connections s1 ! i) = (r, db', c) \<and>
         s' = s1\<lparr>ss_connections := (ss_connections s1)[i := c]\<rparr>)"
    using on_worker_cases [OF assms(1,2)] by blast
  have ext: "db_extends db0 db" by (simp add: db outside_extends)
  have "pool_ok s' db' \<and> db_extends db0 db'"
    using cs
  proof (elim disjE exE conjE)
    fix e assume "db' = db" "s' = s"
    then show ?thesis using ext assms(2) pool_ok_extends by blast
  next
    fix s1 i c
    assume ok: "pool_ok s1 db" and i: "i < length (ss_connections s1)"
      and job: "job (pa_fails a) db (ss_connections s1 ! i) = (r, db', c)"
      and s': "s' = s1\<lparr>ss_connections := (ss_connections s1)[i := c]\<rparr>"
    from ok i have "snapshot_ok db (ss_connections s1 ! i)" by (simp add: pool_ok_def)
    with job assms(3) have c: "snapshot_ok db' c" and e: "db_extends db db'"
      unfolding statement_ok_def by blast+
    have "pool_ok s1 db'" using ok e by (rule pool_ok_extends)
    then have "pool_ok s' db'"
      using c by (auto simp: pool_ok_def s' dest!: set_update_subset_insert [THEN subsetD])
    then show ?thesis using ext e db_extends_trans by blast
  qed
  then show "pool_ok s' db'" and "db_extends db0 db'" by auto
qed

text \<open>At most one connection for each worker, so at most four of them; none after the close.\<close>

lemma pool_bounded:
  assumes "pool_ok s db" "\<not> ss_shutdown s"
  shows "length (ss_connections s) \<le> POOL_WORKERS"
proof -
  have "map snd (ss_local s) = [0..<length (ss_connections s)]" using assms by (simp add: pool_ok_def)
  then have "length (ss_connections s) = length (ss_local s)" by (metis length_map length_upt minus_nat.diff_0)
  also have "\<dots> = card (fst ` set (ss_local s))"
    using assms distinct_card [of "map fst (ss_local s)"] by (simp add: pool_ok_def)
  also have "\<dots> \<le> card {..<POOL_WORKERS}" using assms by (intro card_mono) (auto simp: pool_ok_def)
  finally show ?thesis by simp
qed

lemma connections_unshared:
  assumes "pool_ok s db" "\<not> ss_shutdown s" "map_of (ss_local s) w = Some i" "map_of (ss_local s) w' = Some i"
  shows "w = w'"
proof -
  have d: "distinct (map snd (ss_local s))" using assms(1,2) by (simp add: pool_ok_def)
  have "(w, i) \<in> set (ss_local s)" "(w', i) \<in> set (ss_local s)" using assms(3,4) by (auto dest: map_of_SomeD)
  then show ?thesis using d by (force simp: distinct_map inj_on_def)
qed

lemma opened_ok: "open_store fault file = (Inr s, file') \<Longrightarrow> \<exists>db. file' = Some db \<and> pool_ok s db"
  by (auto simp: open_store_def Let_def new_store_def pool_ok_def split: option.splits prod.splits)

lemma closed_ok: "pool_ok (close_store s) db \<and> ss_connections (close_store s) = []"
  by (simp add: close_store_def pool_ok_def)

text \<open>Once the store is there it is the store of the process, and its exit hook is registered once.\<close>

lemma global_store_once:
  "global_store fault g = (Inr s, g') \<Longrightarrow> global_store fault' g' = (Inr s, g')"
  by (auto simp: global_store_def split: prod.splits option.splits sum.splits)

section \<open>The pool as the store that the caches rely on\<close>

fun inserted_by :: "outside list \<Rightarrow> (string \<times> string) list" where
  "inserted_by [] = []"
| "inserted_by (OtherInsert k v # os) = (k, v) # inserted_by os"
| "inserted_by (OtherBump ns # os) = inserted_by os"

lemma outside_rows: "db_rows (fold outside_commit os db) = interfere (inserted_by os) (db_rows db)"
  by (induction os arbitrary: db rule: inserted_by.induct) (auto simp: committed_def interfere_def)

definition pooled_rows :: "pooled \<Rightarrow> string \<Rightarrow> string option" where
  "pooled_rows p k = map_of (db_rows (pl_db p)) k"

definition pooled_valid :: "(string \<Rightarrow> string \<Rightarrow> bool) \<Rightarrow> pooled \<Rightarrow> bool" where
  "pooled_valid ok p \<longleftrightarrow> pool_ok (pl_store p) (pl_db p) \<and> (\<forall>(k, v) \<in> set (db_rows (pl_db p)). ok k v) \<and>
     (\<forall>a \<in> set (pl_script p). \<forall>(k, v) \<in> set (inserted_by (pa_outside a)). ok k v)"

lemma next_pool_access_valid:
  assumes "next_pool_access p = (a, p1)" and "pooled_valid ok p"
  shows "pl_store p1 = pl_store p" "pl_db p1 = pl_db p" "pl_disabled p1 = pl_disabled p" "pooled_valid ok p1"
    "\<forall>(k, v) \<in> set (inserted_by (pa_outside a)). ok k v"
  using assms by (auto simp: next_pool_access_def pooled_valid_def quiet_access_def split: list.splits)

text \<open>What a read and a write do to the committed rows.\<close>

lemma store_get_rows:
  assumes "store_get k a (s, db0) = (r, s', db')" and "pool_ok s db0"
  shows "db_rows db' = interfere (inserted_by (pa_outside a)) (db_rows db0)"
    and "r = Inr (Some v) \<Longrightarrow> map_of (db_rows db') k = Some v"
proof -
  obtain db where db: "db = fold outside_commit (pa_outside a) db0"
    and cs: "(\<exists>e. r = Inl e \<and> db' = db \<and> s' = s) \<or>
      (\<exists>s1 i c. pool_ok s1 db \<and> i < length (ss_connections s1) \<and>
         select_value (\<lambda>db. map_of (db_rows db) k) (pa_fails a) db (ss_connections s1 ! i) = (r, db', c))"
    using on_worker_cases [OF assms(1) [unfolded store_get_def] assms(2)] by blast
  have "db' = db" using cs by (auto simp: select_value_def split: option.splits)
  then show "db_rows db' = interfere (inserted_by (pa_outside a)) (db_rows db0)" by (simp add: db outside_rows)
  assume r: "r = Inr (Some v)"
  with cs obtain s1 i c where "pool_ok s1 db" "i < length (ss_connections s1)"
    and sel: "select_value (\<lambda>db. map_of (db_rows db) k) (pa_fails a) db (ss_connections s1 ! i) = (r, db', c)"
    by auto
  then have "snapshot_ok db (ss_connections s1 ! i)" by (simp add: pool_ok_def)
  with sel r show "map_of (db_rows db') k = Some v"
    by (auto simp: select_value_def snapshot_ok_def db_extends_def map_le_def dom_def split: option.splits)
qed

lemma store_put_rows:
  assumes "store_put k v a (s, db0) = (r, s', db')" and "pool_ok s db0"
  shows "db_rows db' = (case r of
      Inl _ \<Rightarrow> interfere (inserted_by (pa_outside a)) (db_rows db0)
    | Inr _ \<Rightarrow> insert_or_ignore k v (interfere (inserted_by (pa_outside a)) (db_rows db0)))"
proof -
  define db where "db = fold outside_commit (pa_outside a) db0"
  from on_worker_cases [OF assms(1) [unfolded store_put_def] assms(2)]
  consider (raised) e where "r = Inl e" "db' = db"
    | (ran) c c' where "insert_and_commit k v (pa_fails a) db c = (r, db', c')"
    unfolding db_def by (elim exE conjE disjE) simp_all
  then show ?thesis
    by cases (auto simp: insert_and_commit_def committed_def db_def outside_rows split: option.splits if_splits)
qed

lemma pooled_get_effect:
  assumes "pooled_get k p = (r, p')" and "pooled_valid ok p"
  shows "r = Some v \<Longrightarrow> pooled_rows p' k = Some v" "pooled_rows p \<subseteq>\<^sub>m pooled_rows p'" "pooled_valid ok p'"
proof -
  obtain a p1 where a: "next_pool_access p = (a, p1)" by fastforce
  obtain q s db where g: "store_get k a (pl_store p, pl_db p) = (q, s, db)" using prod_cases3 by blast
  note p1 = next_pool_access_valid [OF a assms(2)]
  have ok: "pool_ok (pl_store p) (pl_db p)" using assms(2) by (simp add: pooled_valid_def)
  note rows = store_get_rows [OF g ok]
  note keeps = on_worker_keeps [OF g [unfolded store_get_def] ok select_ok]
  have p': "pl_disabled p \<and> p' = p \<and> r = None \<or> \<not> pl_disabled p \<and> p' = p1\<lparr>pl_store := s, pl_db := db\<rparr> \<and>
      r = (case q of Inl _ \<Rightarrow> None | Inr v \<Rightarrow> v)"
    using assms(1) by (cases "pl_disabled p") (simp_all add: pooled_get_def a g p1(1,2))
  show "r = Some v \<Longrightarrow> pooled_rows p' k = Some v"
    using p' rows(2) by (auto simp: pooled_rows_def split: sum.splits)
  show "pooled_rows p \<subseteq>\<^sub>m pooled_rows p'"
    using p' keeps(2) by (auto simp: pooled_rows_def [abs_def] db_extends_def)
  show "pooled_valid ok p'"
    using p' keeps(1) p1(4,5) rows(1) interfere_rows(1) [of "inserted_by (pa_outside a)" "db_rows (pl_db p)"] assms(2)
    by (fastforce simp: pooled_valid_def p1(2))
qed

lemma pooled_put_effect:
  assumes "pooled_valid ok p"
  shows "pooled_rows p \<subseteq>\<^sub>m pooled_rows (pooled_put k v p)" "ok k v \<Longrightarrow> pooled_valid ok (pooled_put k v p)"
proof -
  obtain a p1 where a: "next_pool_access p = (a, p1)" by fastforce
  obtain q s db where g: "store_put k v a (pl_store p, pl_db p) = (q, s, db)" using prod_cases3 by blast
  note p1 = next_pool_access_valid [OF a assms]
  have ok: "pool_ok (pl_store p) (pl_db p)" using assms by (simp add: pooled_valid_def)
  note rows = store_put_rows [OF g ok]
  note keeps = on_worker_keeps [OF g [unfolded store_put_def] ok insert_ok]
  have p': "pooled_put k v p = (if pl_disabled p then p else p1\<lparr>pl_store := s, pl_db := db\<rparr>)"
    by (simp add: pooled_put_def a g p1(1,2))
  show "pooled_rows p \<subseteq>\<^sub>m pooled_rows (pooled_put k v p)"
    using keeps(2) by (auto simp: p' pooled_rows_def [abs_def] db_extends_def)
  assume "ok k v"
  moreover have "set (db_rows db) \<subseteq> insert (k, v) (set (inserted_by (pa_outside a)) \<union> set (db_rows (pl_db p)))"
    using rows interfere_rows(1) [of "inserted_by (pa_outside a)" "db_rows (pl_db p)"]
      insert_or_ignore_rows(1) [of k v "interfere (inserted_by (pa_outside a)) (db_rows (pl_db p))"]
    by (auto split: sum.splits)
  ultimately show "pooled_valid ok (pooled_put k v p)"
    using keeps(1) p1(4,5) assms by (fastforce simp: p' pooled_valid_def p1(2))
qed

interpretation pooled: row_store pooled_get pooled_put pooled_rows pooled_valid
proof unfold_locales
  show "pooled_valid ok s \<Longrightarrow> pooled_rows s k = Some v \<Longrightarrow> ok k v" for ok s k v
    by (auto simp: pooled_valid_def pooled_rows_def dest: map_of_SomeD)
qed (auto intro: pooled_get_effect pooled_put_effect)

section \<open>The pool refines the store of the caches\<close>

datatype client_call = GetRow string | PutRow string string

fun client_calls ::
    "(string \<Rightarrow> 's \<Rightarrow> string option \<times> 's) \<Rightarrow> (string \<Rightarrow> string \<Rightarrow> 's \<Rightarrow> 's) \<Rightarrow> client_call list \<Rightarrow> 's \<Rightarrow>
       string option list \<times> 's" where
  "client_calls get put [] s = ([], s)"
| "client_calls get put (GetRow k # cs) s =
     (case get k s of (r, s1) \<Rightarrow> (case client_calls get put cs s1 of (rs, s2) \<Rightarrow> (r # rs, s2)))"
| "client_calls get put (PutRow k v # cs) s = client_calls get put cs (put k v s)"

definition abstracted :: "pooled \<Rightarrow> access list \<Rightarrow> cache_world" where
  "abstracted p script = \<lparr>cw_disabled = pl_disabled p, cw_rows = db_rows (pl_db p), cw_counters = [],
     cw_script = script\<rparr>"

lemma pooled_get_simulated:
  assumes "pooled_get k p = (r, p')" and "pooled_valid ok p"
  shows "\<exists>as. \<forall>script. cache_get k (abstracted p (as @ script)) = (r, abstracted p' script)"
proof (cases "pl_disabled p")
  case True
  then show ?thesis
    using assms(1) by (intro exI [of _ "[]"]) (simp add: pooled_get_def cache_get_def abstracted_def)
next
  case False
  obtain a p1 where a: "next_pool_access p = (a, p1)" by fastforce
  obtain q s db where g: "store_get k a (pl_store p, pl_db p) = (q, s, db)" using prod_cases3 by blast
  note p1 = next_pool_access_valid [OF a assms(2)]
  have "pool_ok (pl_store p) (pl_db p)" using assms(2) by (simp add: pooled_valid_def)
  note rows = store_get_rows [OF g this]
  have p': "p' = p1\<lparr>pl_store := s, pl_db := db\<rparr>" and r: "r = (case q of Inl _ \<Rightarrow> None | Inr v \<Rightarrow> v)"
    using assms(1) False by (simp_all add: pooled_get_def a g p1(1,2))
  let ?access = "\<lparr>ax_inserted = inserted_by (pa_outside a), ax_fails = (r = None)\<rparr>"
  have "r = None \<or> r = map_of (db_rows db) k" using rows(2) r by (cases q; cases r) auto
  then have "cache_get k (abstracted p ([?access] @ script)) = (r, abstracted p' script)" for script
    using False rows(1) p1(3)
    by (auto simp: cache_get_def sqlite_get_def next_access_def abstracted_def p')
  then show ?thesis by blast
qed

lemma pooled_put_simulated:
  assumes "pooled_valid ok p"
  shows "\<exists>as. \<forall>script. cache_put k v (abstracted p (as @ script)) = abstracted (pooled_put k v p) script"
proof (cases "pl_disabled p")
  case True
  then show ?thesis
    by (intro exI [of _ "[]"]) (simp add: pooled_put_def cache_put_def abstracted_def)
next
  case False
  obtain a p1 where a: "next_pool_access p = (a, p1)" by fastforce
  obtain q s db where g: "store_put k v a (pl_store p, pl_db p) = (q, s, db)" using prod_cases3 by blast
  note p1 = next_pool_access_valid [OF a assms]
  have "pool_ok (pl_store p) (pl_db p)" using assms by (simp add: pooled_valid_def)
  note rows = store_put_rows [OF g this]
  have p': "pooled_put k v p = p1\<lparr>pl_store := s, pl_db := db\<rparr>"
    using False by (simp add: pooled_put_def a g p1(1,2))
  let ?access = "\<lparr>ax_inserted = inserted_by (pa_outside a), ax_fails = isl q\<rparr>"
  have "cache_put k v (abstracted p ([?access] @ script)) = abstracted (pooled_put k v p) script" for script
    using False rows p1(3)
    by (cases q) (auto simp: cache_put_def sqlite_put_def next_access_def abstracted_def p')
  then show ?thesis by blast
qed

lemma calls_simulated:
  "client_calls pooled_get pooled_put cs p = (rs, p') \<Longrightarrow> pooled_valid (\<lambda>_ _. True) p \<Longrightarrow>
     \<exists>as. \<forall>script. client_calls cache_get cache_put cs (abstracted p (as @ script)) = (rs, abstracted p' script)"
proof (induction cs arbitrary: p rs)
  case Nil
  then show ?case by (intro exI [of _ "[]"]) simp
next
  case (Cons c cs)
  show ?case
  proof (cases c)
    case (GetRow k)
    then obtain r p1 rs1 where g: "pooled_get k p = (r, p1)" and rest: "client_calls pooled_get pooled_put cs p1 = (rs1, p')"
      and rs: "rs = r # rs1"
      using Cons.prems(1) by (auto split: prod.splits)
    obtain as1 where as1: "\<And>script. cache_get k (abstracted p (as1 @ script)) = (r, abstracted p1 script)"
      using pooled_get_simulated [OF g Cons.prems(2)] by blast
    obtain as2 where "\<And>script. client_calls cache_get cache_put cs (abstracted p1 (as2 @ script)) =
        (rs1, abstracted p' script)"
      using Cons.IH [OF rest pooled_get_effect(3) [OF g Cons.prems(2)]] by blast
    then show ?thesis by (intro exI [of _ "as1 @ as2"]) (simp add: GetRow as1 rs)
  next
    case (PutRow k v)
    obtain as1 where as1: "\<And>script. cache_put k v (abstracted p (as1 @ script)) = abstracted (pooled_put k v p) script"
      using pooled_put_simulated [OF Cons.prems(2)] by blast
    have "client_calls pooled_get pooled_put cs (pooled_put k v p) = (rs, p')" using Cons.prems(1) PutRow by simp
    then obtain as2 where "\<And>script. client_calls cache_get cache_put cs (abstracted (pooled_put k v p) (as2 @ script)) =
        (rs, abstracted p' script)"
      using Cons.IH pooled_put_effect(2) [OF Cons.prems(2)] by blast
    then show ?thesis by (intro exI [of _ "as1 @ as2"]) (simp add: PutRow as1)
  qed
qed

text \<open>
  C27. The pool of connections refines the store the caches are verified against. Whatever workers
  serve the calls, whatever other processes commit, and whatever statements raise (connections stuck in
  a transaction with an old snapshot included): a client sees the answers of the abstract fail-open
  store under some script of insertions and failures, and the committed rows are that store's rows.
\<close>

theorem pool_refines_store:
  assumes "pooled_valid (\<lambda>_ _. True) p"
    and "client_calls pooled_get pooled_put cs p = (rs, p')"
  shows "\<exists>script. client_calls cache_get cache_put cs (abstracted p script) = (rs, abstracted p' [])"
  using calls_simulated [OF assms(2,1)] by (metis append_Nil2)

definition sample_pool :: pooled where
  "sample_pool = \<lparr>pl_disabled = False, pl_store = new_store, pl_db = empty_database,
     pl_script = [quiet_access\<lparr>pa_fails := Some storage_failure\<rparr>, quiet_access,
       quiet_access\<lparr>pa_outside := [OtherInsert ''k'' ''theirs'']\<rparr>, quiet_access\<lparr>pa_worker := 1\<rparr>]\<rparr>"

theorem pool_refines_store_witness:
  "\<exists>script. fst (client_calls cache_get cache_put
      [PutRow ''k'' ''mine'', GetRow ''k'', GetRow ''k'', GetRow ''k''] (abstracted sample_pool script)) =
      [None, None, Some ''theirs'']"
proof -
  let ?cs = "[PutRow ''k'' ''mine'', GetRow ''k'', GetRow ''k'', GetRow ''k'']"
  have ans: "fst (client_calls pooled_get pooled_put ?cs sample_pool) = [None, None, Some ''theirs'']"
    by code_simp
  have "pooled_valid (\<lambda>_ _. True) sample_pool"
    by (simp add: pooled_valid_def sample_pool_def new_store_def pool_ok_def empty_database_def)
  from pool_refines_store [OF this prod.collapse [symmetric], of ?cs] ans show ?thesis
    by (metis fst_conv)
qed

section \<open>A busy write wedges its worker\<close>

datatype store_call = CallGet string | CallPut string string | CallCounter string
datatype store_reply = Row "string option" | Stored | Count nat

fun store_step ::
    "store_call \<times> pool_access \<Rightarrow> sqlite_store \<times> database \<Rightarrow> (exc + store_reply) \<times> sqlite_store \<times> database" where
  "store_step (CallGet k, a) sd = (case store_get k a sd of (r, sd') \<Rightarrow> (map_sum id Row r, sd'))"
| "store_step (CallPut k v, a) sd = (case store_put k v a sd of (r, sd') \<Rightarrow> (map_sum id (\<lambda>_. Stored) r, sd'))"
| "store_step (CallCounter k, a) sd = (case store_get_counter k a sd of (r, sd') \<Rightarrow> (map_sum id Count r, sd'))"

fun store_run ::
    "(store_call \<times> pool_access) list \<Rightarrow> sqlite_store \<times> database \<Rightarrow>
       (exc + store_reply) list \<times> sqlite_store \<times> database" where
  "store_run [] sd = ([], sd)"
| "store_run (c # cs) sd =
     (case store_step c sd of (r, sd1) \<Rightarrow> (case store_run cs sd1 of (rs, sd2) \<Rightarrow> (r # rs, sd2)))"

text \<open>What a worker answers whose connection is stuck on the snapshot \<open>d\<close>.\<close>

fun stale_reply :: "database \<Rightarrow> store_call \<Rightarrow> exc + store_reply \<Rightarrow> bool" where
  "stale_reply d (CallPut k v) r = isl r"
| "stale_reply d (CallGet k) r = (isl r \<or> r = Inr (Row (map_of (db_rows d) k)))"
| "stale_reply d (CallCounter k) r =
     (isl r \<or> r = Inr (Count (case map_of (db_counters d) k of None \<Rightarrow> 0 | Some n \<Rightarrow> n)))"

definition held :: "nat \<Rightarrow> database \<Rightarrow> sqlite_store \<Rightarrow> bool" where
  "held w d s \<longleftrightarrow> \<not> ss_shutdown s \<and> (\<exists>i. map_of (ss_local s) w = Some i \<and> i < length (ss_connections s) \<and>
     cn_in_transaction (ss_connections s ! i) \<and> cn_snapshot (ss_connections s ! i) = Some d)"

definition stuck ::
    "(exc option \<Rightarrow> database \<Rightarrow> connection \<Rightarrow> (exc + 'a) \<times> database \<times> connection) \<Rightarrow> database \<Rightarrow>
       (exc + 'a \<Rightarrow> bool) \<Rightarrow> bool" where
  "stuck job d R \<longleftrightarrow> (\<forall>fails db c r db' c'. cn_snapshot c = Some d \<longrightarrow> cn_in_transaction c \<longrightarrow>
     db_version d \<noteq> db_version db \<longrightarrow> job fails db c = (r, db', c') \<longrightarrow>
     cn_snapshot c' = Some d \<and> cn_in_transaction c' \<and> (isl r \<or> R r))"

lemma select_stuck: "stuck (select_value f) d (\<lambda>r. r = Inr (f d))"
  by (auto simp: stuck_def select_value_def split: option.splits)

lemma insert_stuck: "stuck (insert_and_commit k v) d (\<lambda>_. False)"
  by (auto simp: stuck_def insert_and_commit_def stale_def split: option.splits)

lemma held_step:
  assumes "on_worker a job (s, db0) = (r, s', db')" and "pool_ok s db0" and "held w d s" and "stuck job d R"
    and "db_version d \<noteq> db_version (fold outside_commit (pa_outside a) db0)"
  shows "held w d s'" and "worker_of a = w \<Longrightarrow> isl r \<or> R r"
proof -
  define db where "db = fold outside_commit (pa_outside a) db0"
  obtain i where i: "map_of (ss_local s) w = Some i" "i < length (ss_connections s)"
      "cn_in_transaction (ss_connections s ! i)" "cn_snapshot (ss_connections s ! i) = Some d"
    and up: "\<not> ss_shutdown s"
    using assms(3) by (auto simp: held_def)
  from on_worker_cases [OF assms(1,2)]
  consider (raised) e where "r = Inl e" "s' = s"
    | (ran) s1 j c where "worker_conn (worker_of a) (pa_open_fails a) s = (Inr j, s1)" "pool_ok s1 db"
        "j < length (ss_connections s1)" "map_of (ss_local s1) (worker_of a) = Some j"
        "job (pa_fails a) db (ss_connections s1 ! j) = (r, db', c)"
        "s' = s1\<lparr>ss_connections := (ss_connections s1)[j := c]\<rparr>"
    unfolding db_def by (elim exE conjE disjE) simp_all
  then have "held w d s' \<and> (worker_of a = w \<longrightarrow> isl r \<or> R r)"
  proof cases
    case raised
    then show ?thesis using assms(3) by simp
  next
    case ran
    have s1: "map_of (ss_local s1) w = Some i" "i < length (ss_connections s1)"
        "ss_connections s1 ! i = ss_connections s ! i" "\<not> ss_shutdown s1"
      using ran(1) i up
      by (auto simp: worker_conn_def nth_append dict_simps split: option.splits)
    show ?thesis
    proof (cases "worker_of a = w")
      case True
      then have "j = i" using ran(4) s1(1) by simp
      moreover have "cn_snapshot c = Some d \<and> cn_in_transaction c \<and> (isl r \<or> R r)"
        using assms(4,5) ran(5) i s1(3) \<open>j = i\<close> unfolding stuck_def db_def [symmetric] by metis
      ultimately show ?thesis using s1 by (auto simp: held_def ran(6))
    next
      case False
      then have "j \<noteq> i" using connections_unshared [OF ran(2) s1(4) ran(4)] s1(1) by blast
      then show ?thesis using s1 i False by (auto simp: held_def ran(6))
    qed
  qed
  then show "held w d s'" and "worker_of a = w \<Longrightarrow> isl r \<or> R r" by auto
qed

lemma on_worker_outside:
  "on_worker (a\<lparr>pa_outside := []\<rparr>) job (s, fold outside_commit (pa_outside a) db) = on_worker a job (s, db)"
proof -
  have same: "pa_fails (a\<lparr>pa_outside := []\<rparr>) = pa_fails a" "pa_open_fails (a\<lparr>pa_outside := []\<rparr>) = pa_open_fails a"
    "worker_of (a\<lparr>pa_outside := []\<rparr>) = worker_of a" "pa_outside (a\<lparr>pa_outside := []\<rparr>) = []"
    by (simp_all add: worker_of_def)
  show ?thesis unfolding on_worker_def same Let_def fold_simps by simp
qed

lemma store_step_held:
  assumes "store_step (c, a) (s, db) = (r, s', db')" and "pool_ok s db" and "held w d s"
    and "db_version d < db_version (fold outside_commit (pa_outside a) db)"
  shows "held w d s' \<and> (worker_of a = w \<longrightarrow> stale_reply d c r) \<and> pool_ok s' db' \<and> db_version d < db_version db'"
proof -
  define db1 where "db1 = fold outside_commit (pa_outside a) db"
  have ne: "db_version d \<noteq> db_version db1" using assms(4) by (simp add: db1_def)
  have later: "db_version db1 \<le> db_version db''"
    if "on_worker a job (s, db) = (q, s'', db'')" "statement_ok job" for job q s'' db''
  proof -
    have "on_worker (a\<lparr>pa_outside := []\<rparr>) job (s, db1) = (q, s'', db'')"
      using that(1) by (simp add: on_worker_outside db1_def)
    moreover have "pool_ok s db1" using assms(2) outside_extends pool_ok_extends db1_def by blast
    ultimately have "db_extends db1 db''" using that(2) by (rule on_worker_keeps(2))
    then show ?thesis by (simp add: db_extends_def)
  qed
  note step = held_step [OF _ assms(2,3) _ ne [unfolded db1_def]]
  show ?thesis
  proof (cases c)
    case (CallGet k)
    then obtain q where q: "on_worker a (select_value (\<lambda>db. map_of (db_rows db) k)) (s, db) = (q, s', db')"
      and r: "r = map_sum id Row q"
      using assms(1) by (auto simp: store_get_def split: prod.splits)
    show ?thesis
      using step [OF q select_stuck] on_worker_keeps [OF q assms(2) select_ok] later [OF q select_ok] assms(4)
      by (cases q) (auto simp: CallGet r db1_def)
  next
    case (CallPut k v)
    then obtain q where q: "on_worker a (insert_and_commit k v) (s, db) = (q, s', db')"
      and r: "r = map_sum id (\<lambda>_. Stored) q"
      using assms(1) by (auto simp: store_put_def split: prod.splits)
    show ?thesis
      using step [OF q insert_stuck] on_worker_keeps [OF q assms(2) insert_ok] later [OF q insert_ok] assms(4)
      by (cases q) (auto simp: CallPut r db1_def)
  next
    case (CallCounter k)
    then obtain q where q: "on_worker a (select_value (\<lambda>db. case map_of (db_counters db) k of None \<Rightarrow> 0 | Some n \<Rightarrow> n))
        (s, db) = (q, s', db')" and r: "r = map_sum id Count q"
      using assms(1) by (auto simp: store_get_counter_def split: prod.splits)
    show ?thesis
      using step [OF q select_stuck] on_worker_keeps [OF q assms(2) select_ok] later [OF q select_ok] assms(4)
      by (cases q) (auto simp: CallCounter r db1_def)
  qed
qed

lemma store_run_held:
  "store_run cs (s, db) = (rs, s', db') \<Longrightarrow> pool_ok s db \<Longrightarrow> held w d s \<Longrightarrow> db_version d < db_version db \<Longrightarrow>
     list_all2 (\<lambda>(c, a) r. worker_of a = w \<longrightarrow> stale_reply d c r) cs rs"
proof (induction cs arbitrary: s db rs)
  case Nil
  then show ?case by simp
next
  case (Cons ca cs)
  obtain c a where ca: "ca = (c, a)" by fastforce
  obtain r s1 db1 rs1 where step: "store_step (c, a) (s, db) = (r, s1, db1)"
    and run: "store_run cs (s1, db1) = (rs1, s', db')" and rs: "rs = r # rs1"
    using Cons.prems(1) ca by (auto split: prod.splits)
  have "db_version db \<le> db_version (fold outside_commit (pa_outside a) db)"
    using outside_extends by (simp add: db_extends_def)
  then have *: "held w d s1 \<and> (worker_of a = w \<longrightarrow> stale_reply d c r) \<and> pool_ok s1 db1 \<and> db_version d < db_version db1"
    using Cons.prems by (intro store_step_held [OF step]) auto
  then show ?case using Cons.IH [OF run] by (simp add: ca rs)
qed

lemma busy_put_opens_transaction:
  assumes "pool_ok s db" and "\<not> ss_shutdown s"
    and "\<forall>i. map_of (ss_local s) (worker_of a) = Some i \<longrightarrow> cn_snapshot (ss_connections s ! i) = None"
    and "pa_open_fails a = None" and "pa_fails a \<noteq> None" and "store_put k v a (s, db) = (r, s', db')"
  shows "\<not> ss_shutdown s' \<and> (\<exists>i. map_of (ss_local s') (worker_of a) = Some i \<and> i < length (ss_connections s') \<and>
     cn_in_transaction (ss_connections s' ! i) \<and> cn_snapshot (ss_connections s' ! i) = None)"
proof -
  obtain i sa where wc: "worker_conn (worker_of a) None s = (Inr i, sa)"
    by (cases "map_of (ss_local s) (worker_of a)") (auto simp: worker_conn_def)
  note sa = worker_conn_ok [OF wc assms(1) worker_of_less assms(2)]
  have "cn_snapshot (ss_connections sa ! i) = None"
    using wc assms(3) by (auto simp: worker_conn_def fresh_connection_def split: option.splits)
  moreover obtain e where "pa_fails a = Some e" using assms(5) by blast
  then have "s' = sa\<lparr>ss_connections := (ss_connections sa)[i := (ss_connections sa ! i)\<lparr>cn_in_transaction := True\<rparr>]\<rparr>"
    using assms(2,4,6) wc by (auto simp: store_put_def on_worker_def insert_and_commit_def Let_def)
  ultimately show ?thesis using sa assms(2) by auto
qed

lemma read_takes_snapshot:
  assumes "\<not> ss_shutdown s" and "map_of (ss_local s) (worker_of a) = Some i" and "i < length (ss_connections s)"
    and "cn_in_transaction (ss_connections s ! i)" and "cn_snapshot (ss_connections s ! i) = None"
    and "store_get k a (s, db) = (Inr x, s', db')"
  shows "held (worker_of a) db' s'"
  using assms
  by (auto simp: store_get_def on_worker_def worker_conn_def select_value_def Let_def held_def split: option.splits)

text \<open>
  C28. One write that gives up on the lock wedges its worker. If the insert of a put raises (the lock was
  not free within the busy timeout), the worker's connection stays in the transaction its insert opened;
  its next read takes a snapshot. As soon as any other process has committed something, every later put
  on this worker fails, and every later read, epoch counters included, answers from that snapshot, for
  as long as the process runs, whatever the other workers and processes do.
\<close>

theorem busy_put_wedges:
  assumes "pool_ok s db" and "\<not> ss_shutdown s"
    and "\<forall>i. map_of (ss_local s) (worker_of a0) = Some i \<longrightarrow> cn_snapshot (ss_connections s ! i) = None"
    and "pa_open_fails a0 = None" and "pa_fails a0 \<noteq> None"
    and "store_put k v a0 (s, db) = (r0, s1, db1)"
    and "worker_of a1 = worker_of a0" and "store_get k' a1 (s1, db1) = (Inr x, s2, db2)"
    and "db_version (fold outside_commit (pa_outside a2) db2) \<noteq> db_version db2"
    and "store_run ((c2, a2) # cs) (s2, db2) = (rs, s', db')"
  shows "list_all2 (\<lambda>(c, a) r. worker_of a = worker_of a0 \<longrightarrow> stale_reply db2 c r) ((c2, a2) # cs) rs"
proof -
  have ok1: "pool_ok s1 db1"
    using on_worker_keeps(1) [OF assms(6) [unfolded store_put_def] assms(1) insert_ok] .
  have ok2: "pool_ok s2 db2"
    using on_worker_keeps(1) [OF assms(8) [unfolded store_get_def] ok1 select_ok] .
  obtain i where "\<not> ss_shutdown s1" "map_of (ss_local s1) (worker_of a1) = Some i" "i < length (ss_connections s1)"
      "cn_in_transaction (ss_connections s1 ! i)" "cn_snapshot (ss_connections s1 ! i) = None"
    using busy_put_opens_transaction [OF assms(1-6)] assms(7) by auto
  then have held: "held (worker_of a0) db2 s2" using read_takes_snapshot [OF _ _ _ _ _ assms(8)] assms(7) by simp
  have later: "db_version db2 < db_version (fold outside_commit (pa_outside a2) db2)"
    using outside_extends assms(9) by (simp add: db_extends_def le_neq_implies_less)
  obtain r s3 db3 rs1 where step: "store_step (c2, a2) (s2, db2) = (r, s3, db3)"
    and run: "store_run cs (s3, db3) = (rs1, s', db')" and rs: "rs = r # rs1"
    using assms(10) by (auto split: prod.splits)
  note * = store_step_held [OF step ok2 held later]
  then show ?thesis using store_run_held [OF run] by (simp add: rs)
qed

text \<open>An operator bumps an epoch; the wedged worker goes on reading the old one.\<close>

definition busy_access :: pool_access where
  "busy_access = quiet_access\<lparr>pa_fails := Some storage_failure\<rparr>"

definition bumped_access :: pool_access where
  "bumped_access = quiet_access\<lparr>pa_outside := [OtherBump ''swe'']\<rparr>"

definition wedge_run :: "(exc + store_reply) list \<times> sqlite_store \<times> database" where
  "wedge_run =
     (let sd1 = snd (store_put ''k'' ''v'' busy_access (new_store, empty_database));
          sd2 = snd (store_get ''k'' quiet_access sd1)
      in store_run [(CallCounter (epoch_counter_key ''swe''), bumped_access)] sd2)"

theorem busy_put_wedges_witness:
  "fst wedge_run = [Inr (Count 0)] \<and>
   map_of (db_counters (snd (snd wedge_run))) (epoch_counter_key ''swe'') = Some 1"
proof -
  define p1 where "p1 = store_put ''k'' ''v'' busy_access (new_store, empty_database)"
  define p2 where "p2 = store_get ''k'' quiet_access (snd p1)"
  have val: "fst wedge_run = [Inr (Count 0)]" "fst p2 = Inr None"
    "map_of (db_counters (snd (snd wedge_run))) (epoch_counter_key ''swe'') = Some 1"
    "db_version (fold outside_commit (pa_outside bumped_access) (snd (snd p2))) \<noteq> db_version (snd (snd p2))"
    unfolding p1_def p2_def by code_simp+
  have "list_all2 (\<lambda>(c, a) r. worker_of a = worker_of busy_access \<longrightarrow> stale_reply (snd (snd p2)) c r)
      [(CallCounter (epoch_counter_key ''swe''), bumped_access)] (fst wedge_run)"
  proof (rule busy_put_wedges)
    show "pool_ok new_store empty_database" by (simp add: pool_ok_def new_store_def)
    show "store_put ''k'' ''v'' busy_access (new_store, empty_database) = (fst p1, fst (snd p1), snd (snd p1))"
      by (simp add: p1_def)
    show "store_get ''k'' quiet_access (fst (snd p1), snd (snd p1)) = (Inr None, fst (snd p2), snd (snd p2))"
      using val(2) by (metis p2_def prod.collapse)
    show "store_run [(CallCounter (epoch_counter_key ''swe''), bumped_access)] (fst (snd p2), snd (snd p2)) =
        (fst wedge_run, fst (snd wedge_run), snd (snd wedge_run))"
      by (simp only: wedge_run_def p1_def p2_def Let_def prod.collapse)
  qed (use val(4) in \<open>simp_all add: new_store_def busy_access_def quiet_access_def worker_of_def\<close>)
  then show ?thesis using val by simp
qed

end
