(* ===== verification/Dataset.thy ===== *)
theory Dataset
  imports TerminalBench Effects
begin

text \<open>
  Where tasks come from: the dataset checkout and the task files of \<open>src/env/terminal_bench.py\<close>, the pinned
  library it fetches out of a Debian package, the dataset rows of \<open>src/env/swe.py\<close>, and the benchmark registry
  with the common task lifecycle of \<open>src/env/base.py\<close>. Git, the lock file and the host file system answer as
  the oracle of \<open>Effects\<close>; the download, the tar reader and the TOML reader are parameters.
\<close>

section \<open>A member of an ar archive\<close>

text \<open>\<open>bytes[i:j]\<close>, with positions from the end when negative.\<close>

definition slice_pos :: "'a list \<Rightarrow> int \<Rightarrow> nat" where
  "slice_pos xs i = nat (min (int (length xs)) (if i < 0 then max 0 (i + int (length xs)) else i))"

definition py_slice :: "'a list \<Rightarrow> int \<Rightarrow> int \<Rightarrow> 'a list" where
  "py_slice xs i j = take (slice_pos xs j - slice_pos xs i) (drop (slice_pos xs i) xs)"

text \<open>\<open>int(bytes)\<close>: ASCII space around, a sign, digits with single underscores between them.\<close>

definition ascii_space :: string where
  "ascii_space = [CHR 0x09, CHR 0x0A, CHR 0x0B, CHR 0x0C, CHR 0x0D, CHR 0x20]"

definition strip_ascii :: "string \<Rightarrow> string" where
  "strip_ascii s = rev (dropWhile (\<lambda>c. c \<in> set ascii_space) (rev (dropWhile (\<lambda>c. c \<in> set ascii_space) s)))"

definition digit_value :: "char \<Rightarrow> nat option" where
  "digit_value c = (if 48 \<le> (of_char c :: nat) \<and> (of_char c :: nat) \<le> 57 then Some (of_char c - 48) else None)"

fun decimal_value :: "bool \<Rightarrow> nat \<Rightarrow> string \<Rightarrow> nat option" where
  "decimal_value after_digit n [] = (if after_digit then Some n else None)"
| "decimal_value after_digit n (c # cs) =
     (case digit_value c of
        Some d \<Rightarrow> decimal_value True (10 * n + d) cs
      | None \<Rightarrow> if c = CHR ''_'' \<and> after_digit then decimal_value False n cs else None)"

definition int_of_bytes :: "string \<Rightarrow> int option" where
  "int_of_bytes s =
     (case strip_ascii s of
        [] \<Rightarrow> None
      | c # cs \<Rightarrow>
          (if c = CHR ''-'' then map_option (\<lambda>n. - int n) (decimal_value False 0 cs)
           else if c = CHR ''+'' then map_option int (decimal_value False 0 cs)
           else map_option int (decimal_value False 0 (c # cs))))"

definition FAKERANDOM_DEB_URL :: string where
  "FAKERANDOM_DEB_URL = ''https://snapshot.debian.org/file/781fba01c508a6a61e6f22a44ef43a9bd4f3d419''"

definition FAKERANDOM_DEB_SHA256 :: string where
  "FAKERANDOM_DEB_SHA256 = ''b09481e7690680966005330c3f907bba4b5eefc35e1faaea4783cc55655d1150''"

definition FAKERANDOM_DEB_MEMBER :: string where
  "FAKERANDOM_DEB_MEMBER = ''./usr/lib/x86_64-linux-gnu/faketime/libfaketimeMT.so.1''"

text \<open>The name and the size of a header; the name is text in UTF-8.\<close>

definition ar_header :: "string \<Rightarrow> exc + (string \<times> int)" where
  "ar_header header =
     (if \<not> utf8_valid (take 16 header) then Inl (ValueError ''invalid utf-8'')
      else case int_of_bytes (take 10 (drop 48 header)) of
             None \<Rightarrow> Inl (ValueError ''invalid literal for int() with base 10'')
           | Some sz \<Rightarrow> Inr (strip_ws (take 16 header), sz))"

text \<open>The loop need not end (a size of \<open>-60\<close> leads back to its own header): none is not returning.\<close>

partial_function (option) ar_scan :: "string \<Rightarrow> string \<Rightarrow> int \<Rightarrow> (exc + string) option" where
  "ar_scan archive member_name offset =
     (if offset < int (length archive)
      then case ar_header (py_slice archive offset (offset + 60)) of
             Inl e \<Rightarrow> Some (Inl e)
           | Inr (name, sz) \<Rightarrow>
               (if name = member_name then Some (Inr (py_slice archive (offset + 60) (offset + 60 + sz)))
                else ar_scan archive member_name (offset + 60 + sz + sz mod 2))
      else Some (Inl (RuntimeError (member_name @ '' not found in '' @ FAKERANDOM_DEB_URL))))"

definition AR_MAGIC :: string where
  "AR_MAGIC = ''!<arch>'' @ [nl]"

definition ar_member :: "string \<Rightarrow> string \<Rightarrow> (exc + string) option" where
  "ar_member archive member_name =
     (if take 8 archive \<noteq> AR_MAGIC then Some (Inl (RuntimeError (''not an ar archive: '' @ FAKERANDOM_DEB_URL)))
      else ar_scan archive member_name 8)"

section \<open>The pinned library\<close>

text \<open>\<open>fetch\<close> is the download, \<open>extract\<close> reads a member of a compressed tar (none for a member that is not a
  file), \<open>file\<close> what is on the host. The result is none if the archive is never read to its end.\<close>

definition fetched_lib ::
    "(string \<Rightarrow> string) \<Rightarrow> exc + string \<Rightarrow> (string \<Rightarrow> string \<Rightarrow> exc + string option) \<Rightarrow> (exc + string) option" where
  "fetched_lib sha fetch extract =
     (case fetch of
        Inl e \<Rightarrow> Some (Inl e)
      | Inr deb \<Rightarrow>
          (if sha deb \<noteq> FAKERANDOM_DEB_SHA256
           then Some (Inl (RuntimeError (FAKERANDOM_DEB_URL @ '' sha256 '' @ sha deb @ '' != '' @ FAKERANDOM_DEB_SHA256)))
           else case ar_member deb ''data.tar.xz'' of
                  None \<Rightarrow> None
                | Some (Inl e) \<Rightarrow> Some (Inl e)
                | Some (Inr data) \<Rightarrow>
                    Some (bind_res (extract data FAKERANDOM_DEB_MEMBER) (\<lambda>extracted.
                      (case extracted of
                         None \<Rightarrow> Inl (RuntimeError (FAKERANDOM_DEB_MEMBER @ '' not found in '' @ FAKERANDOM_DEB_URL))
                       | Some lib \<Rightarrow> Inr lib)))))"

definition checked_lib :: "(string \<Rightarrow> string) \<Rightarrow> string \<Rightarrow> string \<Rightarrow> exc + string" where
  "checked_lib sha path lib =
     (if sha lib \<noteq> FAKERANDOM_LIB_SHA256
      then Inl (RuntimeError (path @ '' sha256 '' @ sha lib @ '' != '' @ FAKERANDOM_LIB_SHA256 @
             ''; delete it to refetch''))
      else Inr path)"

definition fakerandom_lib_path ::
    "(string \<Rightarrow> string) \<Rightarrow> exc + string \<Rightarrow> (string \<Rightarrow> string \<Rightarrow> exc + string option) \<Rightarrow> string \<Rightarrow> string option \<Rightarrow>
       ((exc + string) \<times> string option) option" where
  "fakerandom_lib_path sha fetch extract path file =
     (case file of
        Some lib \<Rightarrow> Some (checked_lib sha path lib, file)
      | None \<Rightarrow>
          (case fetched_lib sha fetch extract of
             None \<Rightarrow> None
           | Some (Inl e) \<Rightarrow> Some (Inl e, None)
           | Some (Inr lib) \<Rightarrow> Some (checked_lib sha path lib, Some lib)))"

section \<open>The dataset checkout\<close>

definition TERMINAL_BENCH_REPO_URL :: string where
  "TERMINAL_BENCH_REPO_URL = ''https://github.com/harbor-framework/terminal-bench-2.git''"

text \<open>\<open>except (GitCommandError, InvalidGitRepositoryError)\<close>; only the first has a \<open>stderr\<close>, which is its detail
  here, and \<open>shown\<close> is \<open>str\<close> of an exception.\<close>

definition git_sync_failure :: "(exc \<Rightarrow> string) \<Rightarrow> exc \<Rightarrow> exc" where
  "git_sync_failure shown e =
     (if exc_name e \<notin> {''GitCommandError'', ''InvalidGitRepositoryError''} then e
      else let detail = (if exc_name e = ''GitCommandError'' then strip_ws (exc_detail e) else [])
           in RuntimeError (''Terminal-Bench git sync failed: '' @ (if detail \<noteq> [] then detail else shown e)))"

definition fetch_pinned :: "'o tools_scheme \<Rightarrow> string \<Rightarrow> ('x world_scheme, exc, unit) act" where
  "fetch_pinned orc target =
     seq (fs orc ''exists'' [target]) (\<lambda>present.
     also_then (if present then git orc target [''open'']
                else git orc target [''clone'', TERMINAL_BENCH_REPO_URL, target, ''--depth=1''])
    (also_then (git orc target [''fetch'', ''origin'', TERMINAL_BENCH_REPO_REF, ''--depth=1''])
    (also_then (git orc target [''checkout'', ''--detach'', ''FETCH_HEAD'']) (ret ()))))"

definition sync_git_dataset ::
    "'o tools_scheme \<Rightarrow> (exc \<Rightarrow> string) \<Rightarrow> string \<Rightarrow> ('x world_scheme, exc, string) act" where
  "sync_git_dataset orc shown target =
     seq (fs orc ''exists'' [target]) (\<lambda>present.
     seq (if present then fs orc ''exists'' [target @ ''/.git''] else ret True) (\<lambda>is_repo.
       if \<not> is_repo
       then raise (OtherError ''FileExistsError'' (''Terminal-Bench cache dir is not a git repo: '' @ target))
       else also_then (fs orc ''mkdir'' [target @ ''/..''])
           (also_then (fs orc ''open_lock'' [target @ ''.lock''])
             (finally_do
               (also_then (fs orc ''flock'' [target @ ''.lock''])
                 (also_then (lift_err (git_sync_failure shown) (fetch_pinned orc target)) (ret target)))
               (fs orc ''close_lock'' [target @ ''.lock''])))))"

section \<open>A task of the dataset\<close>

text \<open>Subscripting and conversions of a parsed TOML value; \<open>str_of\<close> is \<open>str\<close> of a value that is not text,
  \<open>parse_float\<close> is \<open>float\<close> of text.\<close>

fun subscript :: "json \<Rightarrow> string \<Rightarrow> exc + json" where
  "subscript (JObj ms) k = (case map_of ms k of None \<Rightarrow> Inl (KeyError k) | Some v \<Rightarrow> Inr v)"
| "subscript _ k = Inl (TypeError k)"

fun falsy :: "json \<Rightarrow> bool" where
  "falsy JNull = True"
| "falsy (JBool b) = (\<not> b)"
| "falsy (JInt i) = (i = 0)"
| "falsy (JFloat x) = (x = 0)"
| "falsy (JStr s) = (s = [])"
| "falsy (JArr vs) = (vs = [])"
| "falsy (JObj ms) = (ms = [])"

fun str_value :: "(json \<Rightarrow> string) \<Rightarrow> json \<Rightarrow> string" where
  "str_value str_of (JStr s) = s"
| "str_value str_of v = str_of v"

fun float_value :: "(string \<Rightarrow> rat option) \<Rightarrow> json \<Rightarrow> exc + rat" where
  "float_value parse_float (JBool b) = Inr (if b then 1 else 0)"
| "float_value parse_float (JInt i) = Inr (of_int i)"
| "float_value parse_float (JFloat x) = Inr x"
| "float_value parse_float (JStr s) =
     (case parse_float s of None \<Rightarrow> Inl (ValueError (''could not convert string to float: '' @ s)) | Some x \<Rightarrow> Inr x)"
| "float_value parse_float _ = Inl (TypeError ''float'')"

record loaded_task =
  lt_task_name :: string
  lt_instruction :: string
  lt_task_dir :: string
  lt_docker_image :: string
  lt_agent_timeout_sec :: rat
  lt_build_timeout_sec :: rat
  lt_verify_timeout_sec :: rat
  lt_cpus :: json
  lt_memory_mb :: json
  lt_replay_id :: "string option"
  lt_network :: managed_network

definition dataset_name :: "(json \<Rightarrow> string) \<Rightarrow> json \<Rightarrow> string \<Rightarrow> exc + string" where
  "dataset_name str_of task_meta dir_name =
     (case task_meta of
        JObj ms \<Rightarrow>
          (let v = (case map_of ms ''name'' of None \<Rightarrow> JNull | Some v \<Rightarrow> v)
           in Inr (if falsy v then ''terminal-bench/'' @ dir_name else str_value str_of v))
      | _ \<Rightarrow> Inl (OtherError ''AttributeError'' ''get''))"

text \<open>\<open>_load_task\<close>: \<open>toml\<close> and \<open>instruction\<close> are the reads of the two files, \<open>fingerprint\<close> is \<open>_env_fingerprint()\<close>.\<close>

definition load_task ::
    "(json \<Rightarrow> string) \<Rightarrow> (string \<Rightarrow> rat option) \<Rightarrow> exc + json \<Rightarrow> exc + string \<Rightarrow> string \<Rightarrow> string \<Rightarrow> string \<Rightarrow>
       managed_network \<Rightarrow> exc + loaded_task" where
  "load_task str_of parse_float toml instruction fingerprint task_dir dir_name network =
     bind_res toml (\<lambda>config.
     bind_res (subscript config ''task'') (\<lambda>task_meta.
     bind_res (subscript config ''environment'') (\<lambda>env_config.
     bind_res (subscript config ''agent'') (\<lambda>agent_config.
     bind_res (subscript config ''verifier'') (\<lambda>verifier_config.
     bind_res (dataset_name str_of task_meta dir_name) (\<lambda>task_name.
     bind_res instruction (\<lambda>text'.
     bind_res (subscript env_config ''docker_image'') (\<lambda>docker_image.
     bind_res (bind_res (subscript agent_config ''timeout_sec'') (float_value parse_float)) (\<lambda>agent_timeout.
     bind_res (bind_res (subscript env_config ''build_timeout_sec'') (float_value parse_float)) (\<lambda>build_timeout.
     bind_res (bind_res (subscript verifier_config ''timeout_sec'') (float_value parse_float)) (\<lambda>verify_timeout.
     bind_res (subscript env_config ''cpus'') (\<lambda>cpus.
     bind_res (subscript env_config ''memory_mb'') (\<lambda>memory_mb.
       Inr \<lparr>lt_task_name = task_name, lt_instruction = text', lt_task_dir = task_dir,
            lt_docker_image = str_value str_of docker_image, lt_agent_timeout_sec = agent_timeout,
            lt_build_timeout_sec = build_timeout, lt_verify_timeout_sec = verify_timeout,
            lt_cpus = cpus, lt_memory_mb = memory_mb,
            lt_replay_id = (if dir_name \<in> set LIVE_ONLY_TASK_NAMES then None else Some fingerprint),
            lt_network = network\<rparr>)))))))))))))"

section \<open>SWE-bench rows, the registry, the lifecycle\<close>

text \<open>\<open>load_tasks\<close> of \<open>swe.py\<close>: a later row of an instance replaces an earlier one; \<open>spec_of\<close> is
  \<open>make_test_spec\<close>.\<close>

record dataset_row =
  dr_instance_id :: string
  dr_problem_statement :: string

record 'spec swe_task =
  st_instruction :: string
  st_spec :: 'spec
  st_replay_id :: string

definition rows_by_id :: "dataset_row list \<Rightarrow> (string, dataset_row) dict" where
  "rows_by_id rows = fold (\<lambda>row. AList.update (dr_instance_id row) row) rows []"

definition swe_load_tasks ::
    "(dataset_row \<Rightarrow> 'spec) \<Rightarrow> string \<Rightarrow> dataset_row list \<Rightarrow> string list \<Rightarrow> exc + (string, 'spec swe_task) dict" where
  "swe_load_tasks spec_of fingerprint rows task_ids =
     (let index = rows_by_id rows;
          missing = filter (\<lambda>t. map_of index t = None) task_ids
      in if missing \<noteq> []
         then Inl (KeyError (''unknown SWE-bench-Verified instance ids: '' @ list_repr missing))
         else Inr (fold (\<lambda>t. AList.update t (let row = the (map_of index t)
                in \<lparr>st_instruction = dr_problem_statement row, st_spec = spec_of row, st_replay_id = fingerprint\<rparr>))
                task_ids []))"

record 'l benchmark_bundle =
  bm_load_tasks :: 'l
  bm_secondary_metrics :: "secondary_metric list"

definition benchmark :: "'l \<Rightarrow> 'l \<Rightarrow> string \<Rightarrow> exc + 'l benchmark_bundle" where
  "benchmark swe_loader terminal_bench_loader kind =
     (if kind = ''swe''
      then Inr \<lparr>bm_load_tasks = swe_loader, bm_secondary_metrics = SWE_SECONDARY_METRICS\<rparr>
      else if kind = ''terminal_bench''
      then Inr \<lparr>bm_load_tasks = terminal_bench_loader, bm_secondary_metrics = GENERIC_SECONDARY_METRICS\<rparr>
      else Inl (KeyError kind))"

text \<open>\<open>DockerTaskEnv\<close>: the instruction names the working directory; the session does the rest.\<close>

definition task_reset :: "string \<Rightarrow> string \<Rightarrow> raw_output" where
  "task_reset instruction workdir =
     empty_output\<lparr>ro_instruction := instruction, ro_working_dir := Some workdir\<rparr>"

definition task_provision :: "'d daemon \<Rightarrow> shell_session \<times> 'd \<Rightarrow> (rexc + unit) \<times> shell_session \<times> 'd" where
  "task_provision dd = start dd"

definition task_close :: "'d daemon \<Rightarrow> shell_session \<times> 'd \<Rightarrow> (rexc + unit) \<times> shell_session \<times> 'd" where
  "task_close dd = close dd"

section \<open>The archive reader inverts the archive writer\<close>

text \<open>The common ar format: a header of sixty bytes, the data, a byte of padding after odd data.\<close>

definition padded :: "nat \<Rightarrow> string \<Rightarrow> string" where
  "padded n s = s @ replicate (n - length s) CHR '' ''"

definition ar_entry :: "string \<times> string \<Rightarrow> string" where
  "ar_entry = (\<lambda>(name, data). padded 16 name @ padded 32 ''0'' @ padded 10 (nat_str (length data)) @ [CHR 0x60, nl] @
     data @ (if odd (length data) then [nl] else []))"

definition ar_archive :: "(string \<times> string) list \<Rightarrow> string" where
  "ar_archive members = AR_MAGIC @ concat (map ar_entry members)"

definition plain_name :: "string \<Rightarrow> bool" where
  "plain_name s \<longleftrightarrow> length s \<le> 16 \<and> (\<forall>c \<in> set s. 32 < (of_char c :: nat) \<and> (of_char c :: nat) < 127)"

lemma slice_nat: "py_slice xs (int i) (int j) = take (j - i) (drop i xs)"
proof (cases "i \<le> length xs")
  case True
  then have "slice_pos xs (int i) = i" "slice_pos xs (int j) = min (length xs) j"
    by (auto simp: slice_pos_def min_def)
  then show ?thesis using True by (simp add: py_slice_def min_def)
next
  case False
  then have "slice_pos xs (int i) = length xs" by (auto simp: slice_pos_def min_def)
  then show ?thesis using False by (simp add: py_slice_def)
qed

lemma utf8_ascii: "\<forall>c \<in> set s. (of_char c :: nat) < 128 \<Longrightarrow> utf8_valid s"
proof (induction s)
  case (Cons c s)
  then have "matched (c # s) = 1" "seq_len (of_char c) = 1" by (cases s; simp add: seq_len_def)+
  then show ?case using Cons by (simp add: utf8_valid.simps(2) complete_head_def)
qed simp

lemma dropWhile_none: "\<forall>x \<in> set xs. \<not> P x \<Longrightarrow> dropWhile P xs = xs"
  by (cases xs) auto

lemma strip_spaces:
  assumes "\<forall>c \<in> set s. c \<notin> W" and "b \<in> W"
  shows "rev (dropWhile (\<lambda>c. c \<in> W) (rev (dropWhile (\<lambda>c. c \<in> W) (s @ replicate k b)))) = s"
proof (cases s)
  case Nil
  have "dropWhile (\<lambda>c. c \<in> W) (replicate k b) = []" using assms(2) by (simp add: dropWhile_eq_Nil_conv)
  then show ?thesis using Nil by simp
next
  case (Cons c cs)
  then have "dropWhile (\<lambda>c. c \<in> W) (s @ replicate k b) = s @ replicate k b" using assms(1) by simp
  moreover have "dropWhile (\<lambda>c. c \<in> W) (rev s) = rev s" using assms(1) by (intro dropWhile_none) simp
  moreover have "dropWhile (\<lambda>c. c \<in> W) (replicate k b @ rev s) = dropWhile (\<lambda>c. c \<in> W) (rev s)"
    using assms(2) by (intro dropWhile_append2) auto
  ultimately show ?thesis by simp
qed

lemma strip_padded: "plain_name s \<Longrightarrow> strip_ws (padded 16 s) = s"
  unfolding strip_ws_def padded_def
  by (rule strip_spaces) (auto simp: plain_name_def whitespace_def line_breaks_def)

lemma utf8_padded: "plain_name s \<Longrightarrow> utf8_valid (padded 16 s)"
  by (rule utf8_ascii) (auto simp: plain_name_def padded_def)

lemma decimal_value_append:
  "set s \<subseteq> set ''0123456789'' \<Longrightarrow> (s = [] \<Longrightarrow> b) \<Longrightarrow>
     decimal_value b n s = Some (foldl (\<lambda>a d. 10 * a + d) n (map (\<lambda>c. of_char c - 48) s))"
proof (induction s arbitrary: b n)
  case (Cons c s)
  have "digit_value c = Some (of_char c - 48)" using Cons.prems(1) by (auto simp: digit_value_def)
  then show ?case using Cons by simp
qed simp

lemma of_digit_char: "d < 10 \<Longrightarrow> of_char (digit_char d) - 48 = d"
  using less_Suc_eq [of d] by (auto simp: digit_char_def numeral_eq_Suc less_Suc_eq)

lemma decimal_value_nat_str: "decimal_value False 0 (nat_str n) = Some n"
proof -
  have ne: "nat_digits n \<noteq> []" by (subst nat_digits.simps) simp
  have "map (\<lambda>c. of_char c - 48) (nat_str n) = nat_digits n"
    using nat_digits_less [of _ n] of_digit_char by (auto simp: nat_str_def intro: map_idI)
  then show ?thesis
    using decimal_value_append [OF nat_str_digit_chars, of n False 0] nat_digits_value [of n] ne
    by (simp add: nat_str_def)
qed

lemma int_of_padded: "int_of_bytes (padded 10 (nat_str n)) = Some (int n)"
proof -
  have d: "set (nat_str n) \<subseteq> set ''0123456789''" by (rule nat_str_digit_chars)
  have "strip_ascii (padded 10 (nat_str n)) = nat_str n"
    unfolding strip_ascii_def padded_def
    by (rule strip_spaces) (use d in \<open>auto simp: ascii_space_def\<close>)
  moreover obtain c cs where c: "nat_str n = c # cs"
    using decimal_value_nat_str [of n] by (cases "nat_str n") auto
  moreover have "c \<noteq> CHR ''-''" "c \<noteq> CHR ''+''" using d by (auto simp: c)
  ultimately show ?thesis using decimal_value_nat_str [of n] by (simp add: int_of_bytes_def)
qed

definition stored_member :: "string \<times> string \<Rightarrow> bool" where
  "stored_member = (\<lambda>(name, data). plain_name name \<and> length (nat_str (length data)) \<le> 10)"

lemma entry_header:
  assumes "stored_member (name, data)"
  shows "ar_header (take 60 (ar_entry (name, data) @ rest)) = Inr (name, int (length data))"
    and "take (length data) (drop 60 (ar_entry (name, data) @ rest)) = data"
    and "length (ar_entry (name, data)) = 60 + length data + length data mod 2"
proof -
  have n: "length (padded 16 name) = 16" and s: "length (padded 10 (nat_str (length data))) = 10"
    and m: "length (padded 32 ''0'') = 32" and ok: "plain_name name"
    using assms by (simp_all add: stored_member_def plain_name_def padded_def)
  show "ar_header (take 60 (ar_entry (name, data) @ rest)) = Inr (name, int (length data))"
    using n s m ok
    by (simp add: ar_header_def ar_entry_def utf8_padded strip_padded int_of_padded min_def)
  show "take (length data) (drop 60 (ar_entry (name, data) @ rest)) = data"
    using n s m by (simp add: ar_entry_def)
  show "length (ar_entry (name, data)) = 60 + length data + length data mod 2"
    using n s m by (simp add: ar_entry_def) presburger
qed

lemma ar_scan_step:
  assumes "offset < int (length archive)" and "ar_header (py_slice archive offset (offset + 60)) = Inr (name, sz)"
  shows "ar_scan archive key offset =
    (if name = key then Some (Inr (py_slice archive (offset + 60) (offset + 60 + sz)))
     else ar_scan archive key (offset + 60 + sz + sz mod 2))"
  using assms by (subst ar_scan.simps) simp

lemma ar_scan_members:
  assumes "\<forall>m \<in> set members. stored_member m"
  shows "ar_scan (before @ concat (map ar_entry members)) key (int (length before)) =
     Some (case map_of members key of
       Some data \<Rightarrow> Inr data
     | None \<Rightarrow> Inl (RuntimeError (key @ '' not found in '' @ FAKERANDOM_DEB_URL)))"
  using assms
proof (induction members arbitrary: before)
  case Nil
  then show ?case by (simp add: ar_scan.simps)
next
  case (Cons m members)
  obtain name data where m: "m = (name, data)" by fastforce
  let ?rest = "concat (map ar_entry members)"
  let ?all = "before @ ar_entry m @ ?rest"
  have ok: "stored_member (name, data)" using Cons.prems m by simp
  note e = entry_header(1,2) [OF ok, of ?rest] entry_header(3) [OF ok]
  have h: "py_slice ?all (int (length before)) (int (length before) + 60) = take 60 (ar_entry m @ ?rest)"
    using slice_nat [of ?all "length before" "length before + 60"] by simp
  have d: "py_slice ?all (int (length before) + 60) (int (length before) + 60 + int (length data)) = data"
    using slice_nat [of ?all "length before + 60" "length before + 60 + length data"] e(2) by (simp add: m add.assoc)
  have less: "int (length before) < int (length ?all)" using e(3) by (simp add: m)
  have next': "int (length before) + 60 + int (length data) + int (length data) mod 2 =
      int (length (before @ ar_entry m))"
    using e(3) by (simp add: m zmod_int)
  have hd: "ar_header (py_slice ?all (int (length before)) (int (length before) + 60)) = Inr (name, int (length data))"
    using h e(1) by (simp only: m)
  have step: "ar_scan ?all key (int (length before)) =
      (if name = key then Some (Inr data) else ar_scan ?all key (int (length (before @ ar_entry m))))"
    unfolding ar_scan_step [OF less hd, of key] d next' by (rule refl)
  have "ar_scan ((before @ ar_entry m) @ ?rest) key (int (length (before @ ar_entry m))) =
       Some (case map_of members key of Some data \<Rightarrow> Inr data
         | None \<Rightarrow> Inl (RuntimeError (key @ '' not found in '' @ FAKERANDOM_DEB_URL)))"
    by (rule Cons.IH) (use Cons.prems in simp)
  then show ?case using step by (simp add: m)
qed

text \<open>Reading a written archive returns, and returns the first member of that name.\<close>

lemma ar_roundtrip:
  assumes "\<forall>m \<in> set members. stored_member m"
  shows "ar_member (ar_archive members) key =
     Some (case map_of members key of
       Some data \<Rightarrow> Inr data
     | None \<Rightarrow> Inl (RuntimeError (key @ '' not found in '' @ FAKERANDOM_DEB_URL)))"
  using ar_scan_members [OF assms, of AR_MAGIC key]
  by (simp add: ar_member_def ar_archive_def AR_MAGIC_def del: append_Cons)

text \<open>
  C37. The archive reader ends and recovers what was written. On every archive in the common ar format,
  of any members, odd lengths included, the scan returns, with the data of the first member of the
  name asked for, or with the error that names the missing member.
\<close>

theorem ar_members_recovered:
  assumes "\<forall>m \<in> set members. stored_member m"
  shows "ar_member (ar_archive members) key =
     Some (case map_of members key of
       Some data \<Rightarrow> Inr data
     | None \<Rightarrow> Inl (RuntimeError (key @ '' not found in '' @ FAKERANDOM_DEB_URL)))"
  using assms by (rule ar_roundtrip)

theorem ar_members_recovered_witness:
  "ar_member (ar_archive [(''debian-binary'', ''2.0''), (''data.tar.xz'', ''tar'')]) ''data.tar.xz'' = Some (Inr ''tar'')"
proof -
  have "\<forall>m \<in> set [(''debian-binary'', ''2.0''), (''data.tar.xz'', ''tar'')]. stored_member m"
    by (simp add: stored_member_def plain_name_def nat_str_def nat_digits.simps)
  from ar_members_recovered [OF this, of "''data.tar.xz''"] show ?thesis by simp
qed

section \<open>What is used is what was pinned\<close>

text \<open>The library that is mounted has the pinned digest; a download that has not the pinned digest is never
  written to the host.\<close>

lemma lib_pinned:
  assumes "fakerandom_lib_path sha fetch extract path file = Some (Inr p, file')"
  shows "p = path \<and> (\<exists>lib. file' = Some lib \<and> sha lib = FAKERANDOM_LIB_SHA256)"
  using assms
  by (auto simp: fakerandom_lib_path_def checked_lib_def split: option.splits sum.splits if_splits)

lemma bad_download_dropped:
  "sha deb \<noteq> FAKERANDOM_DEB_SHA256 \<Longrightarrow>
     \<exists>e. fakerandom_lib_path sha (Inr deb) extract path None = Some (Inl e, None)"
  by (simp add: fakerandom_lib_path_def fetched_lib_def)

text \<open>With the pinned package, a well-formed archive, the library is found and checked: the call returns.\<close>

lemma pinned_package_served:
  assumes "\<forall>m \<in> set members. stored_member m" and "map_of members ''data.tar.xz'' = Some data"
    and "sha (ar_archive members) = FAKERANDOM_DEB_SHA256" and "extract data FAKERANDOM_DEB_MEMBER = Inr (Some lib)"
  shows "fakerandom_lib_path sha (Inr (ar_archive members)) extract path None =
    Some (checked_lib sha path lib, Some lib)"
  using assms(2-4) ar_roundtrip [OF assms(1), of "''data.tar.xz''"]
  by (simp add: fakerandom_lib_path_def fetched_lib_def)

text \<open>A checkout that returns ends detached at the pinned commit, before the lock is given up.\<close>

lemma fetch_pinned_trace:
  assumes "fetch_pinned orc target w = (Inr u, w')"
  shows "\<exists>cs. wd_trace w' = wd_trace w @ cs @
     [Git target [''fetch'', ''origin'', TERMINAL_BENCH_REPO_REF, ''--depth=1''],
      Git target [''checkout'', ''--detach'', ''FETCH_HEAD'']]"
  using assms
  by (auto simp: fetch_pinned_def act_inv git_def fs_def ret_def note_call_def split: if_splits)

lemma dataset_pinned:
  assumes "sync_git_dataset orc shown target w = (Inr p, w')"
  shows "p = target \<and> (\<exists>cs. wd_trace w' = wd_trace w @ cs @
     [Git target [''fetch'', ''origin'', TERMINAL_BENCH_REPO_REF, ''--depth=1''],
      Git target [''checkout'', ''--detach'', ''FETCH_HEAD''],
      Fs ''close_lock'' [target @ ''.lock'']])"
  using assms
  by (auto simp: sync_git_dataset_def act_inv fs_def ret_def note_call_def dest!: fetch_pinned_trace split: if_splits)

text \<open>Once the lock file is open it is closed last, whatever happens.\<close>

lemma dataset_lock_released:
  assumes "sync_git_dataset orc shown target w = (r, w')"
    and "Fs ''open_lock'' [target @ ''.lock''] \<notin> set (wd_trace w)"
    and "\<forall>tr. isl (or_fs orc tr ''open_lock'' [target @ ''.lock'']) = False"
  shows "Fs ''open_lock'' [target @ ''.lock''] \<in> set (wd_trace w') \<longrightarrow>
     last (wd_trace w') = Fs ''close_lock'' [target @ ''.lock'']"
  using assms
  by (auto simp: sync_git_dataset_def act_simps fs_def note_call_def isl_def split: prod.splits sum.splits if_splits)

section \<open>Task sets\<close>

lemma rows_by_id_lookup:
  "map_of (rows_by_id rows) t = map_of (rev (map (\<lambda>row. (dr_instance_id row, row)) rows)) t"
proof (induction rows rule: rev_induct)
  case (snoc row rows)
  then show ?case by (simp add: rows_by_id_def dict_simps)
qed (simp add: rows_by_id_def)

lemma fold_update_lookup:
  "map_of (fold (\<lambda>t. AList.update t (f t)) ts d) k = (if k \<in> set ts then Some (f k) else map_of d k)"
  by (induction ts arbitrary: d) (auto simp: dict_simps)

lemma swe_tasks_exact:
  assumes "swe_load_tasks spec_of fingerprint rows task_ids = Inr tasks"
  shows "\<forall>t. map_of tasks t = (if t \<in> set task_ids then
     map_option (\<lambda>row. \<lparr>st_instruction = dr_problem_statement row, st_spec = spec_of row, st_replay_id = fingerprint\<rparr>)
       (map_of (rows_by_id rows) t) else None)"
  using assms
  by (auto simp: swe_load_tasks_def Let_def fold_update_lookup filter_empty_conv split: if_splits)

lemma swe_tasks_missing:
  "(\<exists>e. swe_load_tasks spec_of fingerprint rows task_ids = Inl e) \<longleftrightarrow>
     \<not> set task_ids \<subseteq> dr_instance_id ` set rows"
proof -
  have "map_of (rows_by_id rows) t = None \<longleftrightarrow> t \<notin> dr_instance_id ` set rows" for t
    by (auto simp: rows_by_id_lookup map_of_eq_None_iff image_image)
  then show ?thesis by (auto simp: swe_load_tasks_def Let_def filter_empty_conv)
qed

end
