(* ===== verification/Shell.thy ===== *)
theory Shell
  imports Docker Effects
begin

text \<open>
  The container session of \<open>src/env/docker_shell.py\<close> under cancellation. \<open>Docker\<close> models its operations
  as they run when every await completes; here each await is one, as in the code: the call runs in a thread of
  its own, the awaiting task may be cancelled or, under \<open>wait_for\<close>, timed out at any moment, and the
  thread it leaves behind goes on, between and during the operations that follow. A script decides what
  happens while an operation awaits; without a script the operations are those of \<open>Docker\<close>.
\<close>

section \<open>Threads\<close>

text \<open>What a thread has left to do. The first five are \<open>_run_container_sync\<close>, at each of its calls and
  where it assigns the network object.\<close>

datatype job =
    MakeNet
  | AssignNet
  | FirstRun
  | PullImage
  | SecondRun
  | GetContainer
  | ExecJob exec_spec
  | RemoveContainer
  | RemoveNet string

fun creates :: "job \<Rightarrow> bool" where
  "creates MakeNet = True"
| "creates AssignNet = True"
| "creates FirstRun = True"
| "creates PullImage = True"
| "creates SecondRun = True"
| "creates _ = False"

type_synonym thread_result = "rexc + exec_reply option"

definition no_reply :: "rexc + unit \<Rightarrow> thread_result" where
  "no_reply r = map_sum id (\<lambda>_. None) r"

text \<open>One call of the daemon, or the assignment: the job left, or the result.\<close>

fun job_step :: "'d daemon \<Rightarrow> job \<Rightarrow> shell_session \<times> 'd \<Rightarrow> (job + thread_result) \<times> shell_session \<times> 'd" where
  "job_step dd MakeNet (s, d) =
     (case ds_network s of
        None \<Rightarrow> (Inl FirstRun, s, d)
      | Some net \<Rightarrow>
          (if ds_network_obj s \<noteq> None then (Inl FirstRun, s, d)
           else case dd_net_create dd (network_name s) (mn_subnet net) (owner_labels s) d of
                  (Inl e, d') \<Rightarrow> (Inr (Inl e), s, d')
                | (Inr _, d') \<Rightarrow> (Inl AssignNet, s, d')))"
| "job_step dd AssignNet (s, d) = (Inl FirstRun, s\<lparr>ds_network_obj := Some (network_name s)\<rparr>, d)"
| "job_step dd FirstRun (s, d) =
     (case dd_run dd (run_kwargs s) d of
        (Inr _, d') \<Rightarrow> (Inr (Inr None), s, d')
      | (Inl e, d') \<Rightarrow> ((if image_not_found e then Inl PullImage else Inr (Inl e)), s, d'))"
| "job_step dd PullImage (s, d) =
     (case dd_pull dd (ds_image s) d of
        (Inl e, d') \<Rightarrow> (Inr (Inl e), s, d')
      | (Inr _, d') \<Rightarrow> (Inl SecondRun, s, d'))"
| "job_step dd SecondRun (s, d) = (case dd_run dd (run_kwargs s) d of (r, d') \<Rightarrow> (Inr (no_reply r), s, d'))"
| "job_step dd GetContainer (s, d) = (case dd_get dd (ds_name s) d of (r, d') \<Rightarrow> (Inr (no_reply r), s, d'))"
| "job_step dd (ExecJob x) (s, d) = (case dd_exec dd (ds_name s) x d of (r, d') \<Rightarrow> (Inr (map_sum id Some r), s, d'))"
| "job_step dd RemoveContainer (s, d) = (case dd_remove dd (ds_name s) d of (r, d') \<Rightarrow> (Inr (no_reply r), s, d'))"
| "job_step dd (RemoveNet n) (s, d) = (case dd_net_remove dd n d of (r, d') \<Rightarrow> (Inr (no_reply r), s, d'))"

fun job_rank :: "job \<Rightarrow> nat" where
  "job_rank MakeNet = 4"
| "job_rank AssignNet = 3"
| "job_rank FirstRun = 2"
| "job_rank PullImage = 1"
| "job_rank _ = 0"

lemma job_step_rank: "job_step dd j sd = (Inl j', sd') \<Longrightarrow> job_rank j' < job_rank j \<and> creates j \<and> creates j'"
  by (cases sd; cases j) (auto split: option.splits if_splits prod.splits sum.splits)

function run_job :: "'d daemon \<Rightarrow> job \<Rightarrow> shell_session \<times> 'd \<Rightarrow> thread_result \<times> shell_session \<times> 'd" where
  "run_job dd j sd =
     (case job_step dd j sd of
        (Inl j', sd') \<Rightarrow> run_job dd j' sd'
      | (Inr r, sd') \<Rightarrow> (r, sd'))"
  by pat_completeness auto
termination
  by (relation "measure (\<lambda>(dd, j, sd). job_rank j)") (auto dest: job_step_rank [OF sym])

declare run_job.simps [simp del]

text \<open>A thread that is left alone is \<open>_run_container_sync\<close>.\<close>

lemma run_job_creates: "run_job dd MakeNet (s, d) = (case run_container_sync dd (s, d) of (r, sd') \<Rightarrow> (no_reply r, sd'))"
  by (simp add: run_job.simps [of dd] run_container_sync_def prepare_network_def create_managed_network_def run_or_pull_def
      no_reply_def split: option.split prod.split sum.split)

section \<open>Awaiting a thread\<close>

text \<open>A \<open>CancelledError\<close> is no \<open>Exception\<close>.\<close>

datatype stop = Raised rexc | Cancelled

text \<open>What happens next: the thread left behind at a position makes a step, the awaited thread makes a step, the
  deadline of the await expires (nothing happens where it has none), the task is cancelled.\<close>

datatype event = Background nat | Advance | TimeOut | Cancel

text \<open>The world of a session: its object, the daemon, the threads left behind, whether an awaited \<open>docker run\<close>
  was left behind or its success never reached the task, and what happens next.\<close>

record 'd shell_world =
  sw_session :: shell_session
  sw_daemon :: 'd
  sw_threads :: "job list"
  sw_lost :: bool
  sw_script :: "event list"

type_synonym ('d, 'a) shell_act = "('d shell_world, stop, 'a) act"

definition background_step :: "'d daemon \<Rightarrow> nat \<Rightarrow> 'd shell_world \<Rightarrow> 'd shell_world" where
  "background_step dd n w =
     (if length (sw_threads w) \<le> n then w
      else case job_step dd (sw_threads w ! n) (sw_session w, sw_daemon w) of
             (Inl j, s, d) \<Rightarrow> w\<lparr>sw_session := s, sw_daemon := d, sw_threads := (sw_threads w)[n := j]\<rparr>
           | (Inr _, s, d) \<Rightarrow> w\<lparr>sw_session := s, sw_daemon := d,
               sw_threads := take n (sw_threads w) @ drop (Suc n) (sw_threads w)\<rparr>)"

fun interrupt :: "bool \<Rightarrow> event \<Rightarrow> stop option" where
  "interrupt timed Cancel = Some Cancelled"
| "interrupt timed TimeOut = (if timed then Some (Raised BareTimeout) else None)"
| "interrupt timed _ = None"

definition interrupted :: "bool \<Rightarrow> event list \<Rightarrow> (stop \<times> event list) option" where
  "interrupted timed es = (case es of [] \<Rightarrow> None | e # es' \<Rightarrow> map_option (\<lambda>x. (x, es')) (interrupt timed e))"

text \<open>The end of an await: a result that is there may still lose to an interruption of the task.\<close>

definition deliver :: "bool \<Rightarrow> job \<Rightarrow> thread_result \<Rightarrow> event list \<Rightarrow> 'd shell_world \<Rightarrow> (stop + exec_reply option) \<times> 'd shell_world" where
  "deliver timed j r es w =
     (case interrupted timed es of
        None \<Rightarrow> (map_sum Raised id r, w\<lparr>sw_script := es\<rparr>)
      | Some (x, es') \<Rightarrow> (Inl x, w\<lparr>sw_lost := sw_lost w \<or> creates j \<and> \<not> isl r, sw_script := es'\<rparr>))"

fun await_thread :: "'d daemon \<Rightarrow> bool \<Rightarrow> event list \<Rightarrow> job \<Rightarrow> ('d, exec_reply option) shell_act" where
  "await_thread dd timed [] j w =
     (case run_job dd j (sw_session w, sw_daemon w) of
        (r, s, d) \<Rightarrow> deliver timed j r [] (w\<lparr>sw_session := s, sw_daemon := d\<rparr>))"
| "await_thread dd timed (e # es) j w =
     (case e of
        Background n \<Rightarrow> await_thread dd timed es j (background_step dd n w)
      | Advance \<Rightarrow>
          (case job_step dd j (sw_session w, sw_daemon w) of
             (Inl j', s, d) \<Rightarrow> await_thread dd timed es j' (w\<lparr>sw_session := s, sw_daemon := d\<rparr>)
           | (Inr r, s, d) \<Rightarrow> deliver timed j r es (w\<lparr>sw_session := s, sw_daemon := d\<rparr>))
      | _ \<Rightarrow>
          (case interrupt timed e of
             None \<Rightarrow> await_thread dd timed es j w
           | Some x \<Rightarrow> (Inl x, w\<lparr>sw_threads := sw_threads w @ [j], sw_lost := sw_lost w \<or> creates j, sw_script := es\<rparr>)))"

definition await :: "'d daemon \<Rightarrow> bool \<Rightarrow> job \<Rightarrow> ('d, exec_reply option) shell_act" where
  "await dd timed j w = await_thread dd timed (sw_script w) j w"

text \<open>The pause between two attempts.\<close>

fun pause_events :: "'d daemon \<Rightarrow> event list \<Rightarrow> ('d, unit) shell_act" where
  "pause_events dd [] w = (Inr (), w\<lparr>sw_script := []\<rparr>)"
| "pause_events dd (e # es) w =
     (case e of
        Background n \<Rightarrow> pause_events dd es (background_step dd n w)
      | Advance \<Rightarrow> (Inr (), w\<lparr>sw_script := es\<rparr>)
      | TimeOut \<Rightarrow> pause_events dd es w
      | Cancel \<Rightarrow> (Inl Cancelled, w\<lparr>sw_script := es\<rparr>))"

definition pause :: "'d daemon \<Rightarrow> ('d, unit) shell_act" where
  "pause dd w = pause_events dd (sw_script w) w"

section \<open>The operations\<close>

definition set_session :: "(shell_session \<Rightarrow> shell_session) \<Rightarrow> ('d, unit) shell_act" where
  "set_session f w = (Inr (), w\<lparr>sw_session := f (sw_session w)\<rparr>)"

text \<open>\<open>except Exception as e\<close>.\<close>

definition except_exception :: "('d, 'a) shell_act \<Rightarrow> (rexc \<Rightarrow> ('d, 'a) shell_act) \<Rightarrow> ('d, 'a) shell_act" where
  "except_exception m h = catch m (\<lambda>x. case x of Raised e \<Rightarrow> h e | Cancelled \<Rightarrow> raise Cancelled)"

definition awaited_remove_network :: "'d daemon \<Rightarrow> ('d, unit) shell_act" where
  "awaited_remove_network dd w =
     (case ds_network_obj (sw_session w) of
        None \<Rightarrow> ret () w
      | Some n \<Rightarrow>
          also_then (set_session (\<lambda>s. s\<lparr>ds_network_obj := None\<rparr>))
            (except_exception (also_then (await dd True (RemoveNet n)) (ret ()))
              (\<lambda>e. if docker_error e then ret () else raise (Raised e))) w)"

fun awaited_attempts :: "'d daemon \<Rightarrow> nat \<Rightarrow> ('d, unit) shell_act" where
  "awaited_attempts dd 0 = also_then (await dd True MakeNet) (ret ())"
| "awaited_attempts dd (Suc left) =
     except_exception (also_then (await dd True MakeNet) (ret ()))
       (\<lambda>e. if docker_error e then also_then (pause dd) (awaited_attempts dd left) else raise (Raised e))"

definition control_job :: "string \<Rightarrow> rat \<Rightarrow> job" where
  "control_job command timeout =
     ExecJob \<lparr>ex_argv = [''bash'', ''-lc'', command], ex_workdir = ''/'', ex_environment = SOLVE_EXEC_ENV, ex_deadline = Some timeout\<rparr>"

definition warn_once :: "string \<Rightarrow> shell_session \<Rightarrow> shell_session" where
  "warn_once command s =
     (if command \<in> set (ds_warned s) then s
      else s\<lparr>ds_warned := command # ds_warned s, ds_warnings := ds_warnings s @ [take 80 command]\<rparr>)"

definition clean_exit :: "exec_reply option \<Rightarrow> bool" where
  "clean_exit r \<longleftrightarrow> (case r of Some reply \<Rightarrow> er_exit_code reply = Some 0 | None \<Rightarrow> False)"

definition awaited_best_effort :: "'d daemon \<Rightarrow> string \<Rightarrow> ('d, unit) shell_act" where
  "awaited_best_effort dd command =
     except_exception
       (seq (await dd True (control_job command 30)) (\<lambda>r. if clean_exit r then ret () else set_session (warn_once command)))
       (\<lambda>_. set_session (warn_once command))"

definition setup_failure :: "exec_reply \<Rightarrow> rexc" where
  "setup_failure reply = UnscorableInfraError
     (''required setup command failed with exit code '' @
      (case er_exit_code reply of None \<Rightarrow> ''None'' | Some c \<Rightarrow> int_str c) @ '': '' @
      join_nl (filter (\<lambda>part. part \<noteq> [])
        [strip_ws (bounded_decode (er_stderr reply)), strip_ws (bounded_decode (er_stdout reply))]))"

definition awaited_required :: "'d daemon \<Rightarrow> string \<Rightarrow> ('d, unit) shell_act" where
  "awaited_required dd command w =
     seq (await dd True (control_job command (ds_setup_timeout (sw_session w))))
       (\<lambda>r. case r of
          Some reply \<Rightarrow> (if er_exit_code reply = Some 0 then ret () else raise (Raised (setup_failure reply)))
        | None \<Rightarrow> ret ()) w"

definition awaited_setup :: "'d daemon \<Rightarrow> ('d, unit) shell_act" where
  "awaited_setup dd w =
     (case ds_setup_command (sw_session w) of
        None \<Rightarrow> ret ()
      | Some command \<Rightarrow>
          except_exception (awaited_required dd command) (\<lambda>e.
            also_then (except_exception (also_then (await dd True RemoveContainer) (ret ())) (\<lambda>_. ret ()))
           (also_then (awaited_remove_network dd)
           (also_then (set_session (\<lambda>s. s\<lparr>ds_started := False\<rparr>)) (raise (Raised e)))))) w"

definition awaited_pins :: "'d daemon \<Rightarrow> ('d, unit) shell_act" where
  "awaited_pins dd =
     also_then (awaited_best_effort dd GIT_HOOKS_INIT_COMMAND)
    (also_then (awaited_best_effort dd GDB_INIT_COMMAND) (awaited_best_effort dd MTIME_RESET_COMMAND))"

definition awaited_start :: "'d daemon \<Rightarrow> ('d, unit) shell_act" where
  "awaited_start dd w =
     (if ds_started (sw_session w) then ret ()
      else also_then (except_exception (awaited_attempts dd DOCKER_INFRA_RETRY_BUDGET)
                (\<lambda>e. also_then (awaited_remove_network dd) (raise (Raised e))))
          (also_then (set_session (\<lambda>s. s\<lparr>ds_started := True\<rparr>))
          (also_then (awaited_setup dd) (awaited_pins dd)))) w"

definition awaited_close_container :: "'d daemon \<Rightarrow> ('d, unit) shell_act" where
  "awaited_close_container dd w =
     (if \<not> ds_started (sw_session w) then ret ()
      else also_then
        (except_exception
          (also_then (await dd False GetContainer) (also_then (await dd True RemoveContainer) (ret ())))
          (\<lambda>e. if docker_not_found e then ret () else raise (Raised e)))
        (set_session (\<lambda>s. s\<lparr>ds_started := False\<rparr>))) w"

definition awaited_close :: "'d daemon \<Rightarrow> ('d, unit) shell_act" where
  "awaited_close dd = finally_do (awaited_close_container dd) (awaited_remove_network dd)"

text \<open>The reply of a command, and the clean-up when it does not end.\<close>

definition awaited_run ::
    "'d daemon \<Rightarrow> string \<Rightarrow> string \<Rightarrow> rat option \<Rightarrow> bool \<Rightarrow> ('d, exec_result) shell_act" where
  "awaited_run dd command cwd timeout lossless =
     also_then (await dd False GetContainer)
    (also_then (awaited_best_effort dd MTIME_RESET_COMMAND)
    (\<lambda>w. except_exception
        (seq (await dd (timeout \<noteq> None) (ExecJob (command_spec (sw_session w) command cwd timeout)))
          (\<lambda>r. ret (decoded lossless (case r of Some reply \<Rightarrow> reply | None \<Rightarrow> \<lparr>er_exit_code = None, er_stdout = None, er_stderr = None\<rparr>))))
        (\<lambda>e. if e \<noteq> BareTimeout then raise (Raised e)
             else also_then (await dd False RemoveContainer)
                 (also_then (set_session (\<lambda>s. s\<lparr>ds_started := False\<rparr>)) (raise (Raised BareTimeout)))) w))"

section \<open>Without interruptions\<close>

definition left_alone ::
    "('d, 'a) shell_act \<Rightarrow> (shell_session \<times> 'd \<Rightarrow> (rexc + 'a) \<times> shell_session \<times> 'd) \<Rightarrow> bool" where
  "left_alone m f \<longleftrightarrow> (\<forall>w. sw_script w = [] \<longrightarrow>
     m w = (case f (sw_session w, sw_daemon w) of (r, s, d) \<Rightarrow> (map_sum Raised id r, w\<lparr>sw_session := s, sw_daemon := d\<rparr>)))"

lemma left_aloneI:
  "(\<And>w. sw_script w = [] \<Longrightarrow>
     m w = (case f (sw_session w, sw_daemon w) of (r, s, d) \<Rightarrow> (map_sum Raised id r, w\<lparr>sw_session := s, sw_daemon := d\<rparr>))) \<Longrightarrow>
   left_alone m f"
  by (simp add: left_alone_def)

lemma left_aloneD:
  "left_alone m f \<Longrightarrow> sw_script w = [] \<Longrightarrow> f (sw_session w, sw_daemon w) = (r, s, d) \<Longrightarrow>
     m w = (map_sum Raised id r, w\<lparr>sw_session := s, sw_daemon := d\<rparr>)"
  by (simp add: left_alone_def)

lemma await_alone: "left_alone (await dd timed j) (run_job dd j)"
  by (rule left_aloneI) (simp add: await_def deliver_def interrupted_def split: prod.split)

lemma left_alone_also_then:
  assumes "left_alone m f" and "left_alone n g"
  shows "left_alone (also_then m n) (\<lambda>sd. case f sd of (Inl e, sd') \<Rightarrow> (Inl e, sd') | (Inr _, sd') \<Rightarrow> g sd')"
proof (rule left_aloneI)
  fix w :: "'a shell_world" assume w: "sw_script w = []"
  obtain r s d where f: "f (sw_session w, sw_daemon w) = (r, s, d)" by (rule prod_cases3)
  obtain r' s' d' where g: "g (s, d) = (r', s', d')" by (rule prod_cases3)
  have "n (w\<lparr>sw_session := s, sw_daemon := d\<rparr>) = (map_sum Raised id r', w\<lparr>sw_session := s', sw_daemon := d'\<rparr>)"
    using left_aloneD [OF assms(2), of "w\<lparr>sw_session := s, sw_daemon := d\<rparr>" r' s' d'] w g by simp
  with left_aloneD [OF assms(1) w f] f g show "also_then m n w = (case (case f (sw_session w, sw_daemon w) of
      (Inl e, sd') \<Rightarrow> (Inl e, sd') | (Inr _, sd') \<Rightarrow> g sd') of
        (r, s, d) \<Rightarrow> (map_sum Raised id r, w\<lparr>sw_session := s, sw_daemon := d\<rparr>))"
    by (cases r) (simp_all add: also_then_def seq_def)
qed

lemma left_alone_except:
  assumes "left_alone m f" and "\<And>e. left_alone (h e) (k e)"
  shows "left_alone (except_exception m h) (\<lambda>sd. case f sd of (Inl e, sd') \<Rightarrow> k e sd' | (Inr x, sd') \<Rightarrow> (Inr x, sd'))"
proof (rule left_aloneI)
  fix w :: "'a shell_world" assume w: "sw_script w = []"
  obtain r s d where f: "f (sw_session w, sw_daemon w) = (r, s, d)" by (rule prod_cases3)
  show "except_exception m h w = (case (case f (sw_session w, sw_daemon w) of
      (Inl e, sd') \<Rightarrow> k e sd' | (Inr x, sd') \<Rightarrow> (Inr x, sd')) of
        (r, s, d) \<Rightarrow> (map_sum Raised id r, w\<lparr>sw_session := s, sw_daemon := d\<rparr>))"
  proof (cases r)
    case (Inl e)
    obtain r' s' d' where g: "k e (s, d) = (r', s', d')" by (rule prod_cases3)
    have "h e (w\<lparr>sw_session := s, sw_daemon := d\<rparr>) = (map_sum Raised id r', w\<lparr>sw_session := s', sw_daemon := d'\<rparr>)"
      using left_aloneD [OF assms(2), of "w\<lparr>sw_session := s, sw_daemon := d\<rparr>" e r' s' d'] w g by simp
    with left_aloneD [OF assms(1) w f] f g Inl show ?thesis by (simp add: except_exception_def catch_def)
  next
    case (Inr x)
    with left_aloneD [OF assms(1) w f] f show ?thesis by (simp add: except_exception_def catch_def)
  qed
qed

lemma left_alone_plain:
  "left_alone (ret x) (\<lambda>sd. (Inr x, sd))" "left_alone (raise (Raised e)) (\<lambda>sd. (Inl e, sd))"
  "left_alone (set_session f) (\<lambda>(s, d). (Inr (), f s, d))"
  by (simp_all add: left_alone_def ret_def raise_def set_session_def)

lemma left_alone_cong: "left_alone m f \<Longrightarrow> f = g \<Longrightarrow> left_alone m g"
  by simp

lemma left_alone_if: "left_alone m f \<Longrightarrow> left_alone n g \<Longrightarrow> left_alone (if b then m else n) (if b then f else g)"
  by simp

lemmas left_alone_intros = left_alone_also_then left_alone_except left_alone_plain await_alone left_alone_if

lemma left_alone_by_state:
  assumes "\<And>s. left_alone (m s) (f s)"
  shows "left_alone (\<lambda>w. m (sw_session w) w) (\<lambda>sd. f (fst sd) sd)"
  using assms by (simp add: left_alone_def)

lemma call_alone:
  "run_job dd (RemoveNet n) (s, d) = (case dd_net_remove dd n d of (r, d') \<Rightarrow> (no_reply r, s, d'))"
  "run_job dd RemoveContainer (s, d) = (case dd_remove dd (ds_name s) d of (r, d') \<Rightarrow> (no_reply r, s, d'))"
  "run_job dd GetContainer (s, d) = (case dd_get dd (ds_name s) d of (r, d') \<Rightarrow> (no_reply r, s, d'))"
  "run_job dd (ExecJob x) (s, d) = (case dd_exec dd (ds_name s) x d of (r, d') \<Rightarrow> (map_sum id Some r, s, d'))"
  by (simp_all add: run_job.simps [of dd] split: prod.split)

text \<open>Each operation, when nothing interrupts it and no thread is left from before, is the one of \<open>Docker\<close>.\<close>

lemma remove_network_alone: "left_alone (awaited_remove_network dd) (remove_managed_network dd)"
proof (rule left_aloneI)
  fix w :: "'a shell_world" assume w: "sw_script w = []"
  show "awaited_remove_network dd w = (case remove_managed_network dd (sw_session w, sw_daemon w) of
      (r, s, d) \<Rightarrow> (map_sum Raised id r, w\<lparr>sw_session := s, sw_daemon := d\<rparr>))"
  proof (cases "ds_network_obj (sw_session w)")
    case None
    then show ?thesis by (simp add: awaited_remove_network_def remove_managed_network_def ret_def)
  next
    case (Some n)
    have "left_alone (except_exception (also_then (await dd True (RemoveNet n)) (ret ()))
        (\<lambda>e. if docker_error e then ret () else raise (Raised e)))
      (\<lambda>sd. case (case run_job dd (RemoveNet n) sd of (Inl e, sd') \<Rightarrow> (Inl e, sd') | (Inr _, sd') \<Rightarrow> (Inr (), sd')) of
        (Inl e, sd') \<Rightarrow> (if docker_error e then (\<lambda>sd. (Inr (), sd)) else (\<lambda>sd. (Inl e, sd))) sd'
      | (Inr x, sd') \<Rightarrow> (Inr x, sd'))"
      by (intro left_alone_intros)
    from left_aloneD [OF this, of "w\<lparr>sw_session := (sw_session w)\<lparr>ds_network_obj := None\<rparr>\<rparr>"] w Some show ?thesis
      by (simp add: awaited_remove_network_def remove_managed_network_def also_then_def seq_def set_session_def call_alone
          no_reply_def split: prod.split sum.split)
  qed
qed

lemma attempt_alone:
  "left_alone (also_then (await dd True MakeNet) (ret ())) (run_container_sync dd)"
proof -
  have "(case run_job dd MakeNet sd of (Inl e, sd') \<Rightarrow> (Inl e, sd') | (Inr _, sd') \<Rightarrow> (Inr (), sd')) = run_container_sync dd sd" for sd
  proof -
    obtain r sd' where "run_container_sync dd sd = (r, sd')" by (rule prod.exhaust)
    then show ?thesis using run_job_creates [of dd "fst sd" "snd sd"] by (cases r) (simp_all add: no_reply_def)
  qed
  then show ?thesis
    using left_alone_also_then [OF await_alone left_alone_plain(1), of dd True MakeNet "()"] by (simp add: left_alone_def)
qed

lemma pause_alone: "left_alone (pause dd) (\<lambda>sd. (Inr (), sd))"
  by (rule left_aloneI) (simp add: pause_def)

lemma attempts_alone: "left_alone (awaited_attempts dd n) (run_attempts dd n)"
proof (induction n)
  case 0
  then show ?case using attempt_alone [of dd] by (simp add: left_alone_def)
next
  case (Suc n)
  have "left_alone (awaited_attempts dd (Suc n)) (\<lambda>sd. case run_container_sync dd sd of
      (Inl e, sd') \<Rightarrow> (if docker_error e
         then (\<lambda>sd. case (\<lambda>sd. (Inr (), sd)) sd of (Inl e, sd') \<Rightarrow> (Inl e, sd') | (Inr _, sd') \<Rightarrow> run_attempts dd n sd')
         else (\<lambda>sd. (Inl e, sd))) sd'
    | (Inr x, sd') \<Rightarrow> (Inr x, sd'))"
    unfolding awaited_attempts.simps
    by (intro left_alone_except attempt_alone left_alone_if left_alone_also_then pause_alone Suc.IH left_alone_plain)
  then show ?case by (rule left_alone_cong) (auto simp: fun_eq_iff split: prod.split sum.split)
qed

lemma control_alone:
  "left_alone (await dd True (control_job command timeout))
     (\<lambda>(s, d). case exec_control_command dd (ds_name s) command timeout d of (r, d') \<Rightarrow> (map_sum id Some r, s, d'))"
  using await_alone [of dd True "control_job command timeout"]
  by (simp add: left_alone_def control_job_def call_alone exec_control_command_def split: prod.split)

lemma best_effort_alone: "left_alone (awaited_best_effort dd command) (\<lambda>sd. (Inr (), exec_best_effort dd command sd))"
proof (rule left_aloneI)
  fix w :: "'a shell_world" assume w: "sw_script w = []"
  obtain r d' where x: "exec_control_command dd (ds_name (sw_session w)) command 30 (sw_daemon w) = (r, d')" by (rule prod.exhaust)
  have "await dd True (control_job command 30) w =
      (map_sum Raised Some r, w\<lparr>sw_session := sw_session w, sw_daemon := d'\<rparr>)"
    using left_aloneD [OF control_alone w] x by (simp add: sum.map_comp comp_def)
  then show "awaited_best_effort dd command w = (case (Inr (), exec_best_effort dd command (sw_session w, sw_daemon w)) of
      (r, s, d) \<Rightarrow> (map_sum Raised id r, w\<lparr>sw_session := s, sw_daemon := d\<rparr>))"
    using x by (cases r) (auto simp: awaited_best_effort_def except_exception_def catch_def seq_def clean_exit_def ret_def
        set_session_def warn_once_def exec_best_effort_def)
qed

lemma required_alone: "left_alone (awaited_required dd command) (\<lambda>sd. case exec_required dd command sd of (r, d) \<Rightarrow> (r, fst sd, d))"
proof (rule left_aloneI)
  fix w :: "'a shell_world" assume w: "sw_script w = []"
  obtain r d' where x: "exec_control_command dd (ds_name (sw_session w)) command (ds_setup_timeout (sw_session w)) (sw_daemon w) = (r, d')"
    by (rule prod.exhaust)
  have "await dd True (control_job command (ds_setup_timeout (sw_session w))) w =
      (map_sum Raised Some r, w\<lparr>sw_session := sw_session w, sw_daemon := d'\<rparr>)"
    using left_aloneD [OF control_alone w] x by (simp add: sum.map_comp comp_def)
  then show "awaited_required dd command w = (case (case exec_required dd command (sw_session w, sw_daemon w) of
      (r, d) \<Rightarrow> (r, fst (sw_session w, sw_daemon w), d)) of
      (r, s, d) \<Rightarrow> (map_sum Raised id r, w\<lparr>sw_session := s, sw_daemon := d\<rparr>))"
    using x by (cases r) (auto simp: awaited_required_def seq_def ret_def raise_def setup_failure_def exec_required_def)
qed

lemma setup_alone: "left_alone (awaited_setup dd) (run_setup dd)"
proof -
  let ?rm = "also_then (await dd True RemoveContainer) (ret ())"
  have some: "left_alone (except_exception (awaited_required dd command) (\<lambda>e.
            also_then (except_exception ?rm (\<lambda>_. ret ()))
           (also_then (awaited_remove_network dd)
           (also_then (set_session (\<lambda>s. s\<lparr>ds_started := False\<rparr>)) (raise (Raised e))))))
      (\<lambda>sd. case exec_required dd command sd of
           (Inr _, d) \<Rightarrow> (Inr (), fst sd, d)
         | (Inl e, d) \<Rightarrow>
             (case dd_remove dd (ds_name (fst sd)) d of (_, d') \<Rightarrow>
                (case remove_managed_network dd (fst sd, d') of
                   (Inl e', sd') \<Rightarrow> (Inl e', sd')
                 | (Inr _, s, d'') \<Rightarrow> (Inl e, s\<lparr>ds_started := False\<rparr>, d''))))" for command
  proof (rule left_alone_cong, (rule left_alone_intros required_alone remove_network_alone)+)
  qed (auto simp: fun_eq_iff call_alone no_reply_def split: prod.split sum.split)
  have "left_alone (\<lambda>w. (case ds_setup_command (sw_session w) of
        None \<Rightarrow> ret ()
      | Some command \<Rightarrow>
          except_exception (awaited_required dd command) (\<lambda>e.
            also_then (except_exception ?rm (\<lambda>_. ret ()))
           (also_then (awaited_remove_network dd)
           (also_then (set_session (\<lambda>s. s\<lparr>ds_started := False\<rparr>)) (raise (Raised e)))))) w)
      (\<lambda>sd. run_setup dd sd)"
    unfolding left_alone_def
  proof (intro allI impI)
    fix w :: "'a shell_world" assume w: "sw_script w = []"
    show "(case ds_setup_command (sw_session w) of
        None \<Rightarrow> ret ()
      | Some command \<Rightarrow>
          except_exception (awaited_required dd command) (\<lambda>e.
            also_then (except_exception ?rm (\<lambda>_. ret ()))
           (also_then (awaited_remove_network dd)
           (also_then (set_session (\<lambda>s. s\<lparr>ds_started := False\<rparr>)) (raise (Raised e)))))) w =
      (case run_setup dd (sw_session w, sw_daemon w) of (r, s, d) \<Rightarrow> (map_sum Raised id r, w\<lparr>sw_session := s, sw_daemon := d\<rparr>))"
      using some w
      by (cases "ds_setup_command (sw_session w)") (simp_all add: ret_def run_setup_def left_alone_def)
  qed
  then show ?thesis by (simp add: left_alone_def awaited_setup_def)
qed

lemma start_alone: "left_alone (awaited_start dd) (start dd)"
proof (rule left_aloneI)
  fix w :: "'a shell_world" assume w: "sw_script w = []"
  have "left_alone (also_then (except_exception (awaited_attempts dd DOCKER_INFRA_RETRY_BUDGET)
                (\<lambda>e. also_then (awaited_remove_network dd) (raise (Raised e))))
          (also_then (set_session (\<lambda>s. s\<lparr>ds_started := True\<rparr>))
          (also_then (awaited_setup dd) (awaited_pins dd))))
      (\<lambda>sd. case run_attempts dd DOCKER_INFRA_RETRY_BUDGET sd of
             (Inl e, sd') \<Rightarrow> (case remove_managed_network dd sd' of (r, sd'') \<Rightarrow> (cleaned e r, sd''))
           | (Inr _, s, d) \<Rightarrow>
               (case run_setup dd (s\<lparr>ds_started := True\<rparr>, d) of
                  (Inl e, sd') \<Rightarrow> (Inl e, sd')
                | (Inr _, sd') \<Rightarrow> (Inr (), start_pins dd sd')))"
    unfolding awaited_pins_def
  proof (rule left_alone_cong, (rule left_alone_intros attempts_alone setup_alone best_effort_alone remove_network_alone)+)
  qed (auto simp: fun_eq_iff start_pins_def cleaned_def split: prod.split sum.split)
  with w show "awaited_start dd w = (case start dd (sw_session w, sw_daemon w) of
      (r, s, d) \<Rightarrow> (map_sum Raised id r, w\<lparr>sw_session := s, sw_daemon := d\<rparr>))"
    by (cases "ds_started (sw_session w)") (auto simp: awaited_start_def left_alone_def ret_def start_def)
qed

lemma left_alone_finally:
  assumes "left_alone m f" and "left_alone n g"
  shows "left_alone (finally_do m n) (\<lambda>sd. case f sd of (r, sd') \<Rightarrow>
     (case g sd' of (Inl e, sd'') \<Rightarrow> (Inl e, sd'') | (Inr _, sd'') \<Rightarrow> (r, sd'')))"
proof (rule left_aloneI)
  fix w :: "'a shell_world" assume w: "sw_script w = []"
  obtain r s d where f: "f (sw_session w, sw_daemon w) = (r, s, d)" by (rule prod_cases3)
  obtain r' s' d' where g: "g (s, d) = (r', s', d')" by (rule prod_cases3)
  have "n (w\<lparr>sw_session := s, sw_daemon := d\<rparr>) = (map_sum Raised id r', w\<lparr>sw_session := s', sw_daemon := d'\<rparr>)"
    using left_aloneD [OF assms(2), of "w\<lparr>sw_session := s, sw_daemon := d\<rparr>" r' s' d'] w g by simp
  with left_aloneD [OF assms(1) w f] f g show "finally_do m n w = (case (case f (sw_session w, sw_daemon w) of (r, sd') \<Rightarrow>
     (case g sd' of (Inl e, sd'') \<Rightarrow> (Inl e, sd'') | (Inr _, sd'') \<Rightarrow> (r, sd''))) of
        (r, s, d) \<Rightarrow> (map_sum Raised id r, w\<lparr>sw_session := s, sw_daemon := d\<rparr>))"
    by (cases r') (simp_all add: finally_do_def)
qed

lemma close_alone: "left_alone (awaited_close dd) (close dd)"
proof -
  have "left_alone (awaited_close_container dd) (close_container dd)"
  proof (rule left_aloneI)
    fix w :: "'a shell_world" assume w: "sw_script w = []"
    have "left_alone (also_then
        (except_exception
          (also_then (await dd False GetContainer) (also_then (await dd True RemoveContainer) (ret ())))
          (\<lambda>e. if docker_not_found e then ret () else raise (Raised e)))
        (set_session (\<lambda>s. s\<lparr>ds_started := False\<rparr>)))
      (\<lambda>(s, d). case (case dd_get dd (ds_name s) d of
                      (Inl e, d') \<Rightarrow> (Inl e, d')
                    | (Inr _, d') \<Rightarrow> dd_remove dd (ds_name s) d') of
                (Inr _, d') \<Rightarrow> (Inr (), s\<lparr>ds_started := False\<rparr>, d')
              | (Inl e, d') \<Rightarrow>
                  (if docker_not_found e then (Inr (), s\<lparr>ds_started := False\<rparr>, d') else (Inl e, s, d')))"
    proof (rule left_alone_cong, (rule left_alone_intros)+)
    qed (auto simp: fun_eq_iff call_alone no_reply_def split: prod.split sum.split)
    with w show "awaited_close_container dd w = (case close_container dd (sw_session w, sw_daemon w) of
      (r, s, d) \<Rightarrow> (map_sum Raised id r, w\<lparr>sw_session := s, sw_daemon := d\<rparr>))"
      by (cases "ds_started (sw_session w)") (auto simp: awaited_close_container_def left_alone_def ret_def close_container_def)
  qed
  from left_alone_finally [OF this remove_network_alone] show ?thesis
    unfolding awaited_close_def by (rule left_alone_cong) (auto simp: fun_eq_iff close_def split: prod.split sum.split)
qed

lemma run_alone: "left_alone (awaited_run dd command cwd timeout lossless) (session_run dd command cwd timeout lossless)"
proof -
  let ?tail = "\<lambda>w. except_exception
        (seq (await dd (timeout \<noteq> None) (ExecJob (command_spec (sw_session w) command cwd timeout)))
          (\<lambda>r. ret (decoded lossless (case r of Some reply \<Rightarrow> reply | None \<Rightarrow> \<lparr>er_exit_code = None, er_stdout = None, er_stderr = None\<rparr>))))
        (\<lambda>e. if e \<noteq> BareTimeout then raise (Raised e)
             else also_then (await dd False RemoveContainer)
                 (also_then (set_session (\<lambda>s. s\<lparr>ds_started := False\<rparr>)) (raise (Raised BareTimeout)))) w"
  have "left_alone ?tail (\<lambda>(s, d1).
             (case dd_exec dd (ds_name s) (command_spec s command cwd timeout) d1 of
                (Inr reply, d2) \<Rightarrow> (Inr (decoded lossless reply), s, d2)
              | (Inl e, d2) \<Rightarrow>
                  (if e \<noteq> BareTimeout then (Inl e, s, d2)
                   else case dd_remove dd (ds_name s) d2 of
                          (Inl e', d3) \<Rightarrow> (Inl e', s, d3)
                        | (Inr _, d3) \<Rightarrow> (Inl BareTimeout, s\<lparr>ds_started := False\<rparr>, d3))))"
    by (rule left_aloneI)
      (auto simp: except_exception_def catch_def seq_def also_then_def ret_def raise_def set_session_def
        left_aloneD [OF await_alone] await_def deliver_def interrupted_def call_alone no_reply_def split: prod.split sum.split)
  then have "left_alone (awaited_run dd command cwd timeout lossless) (\<lambda>sd.
      case run_job dd GetContainer sd of (Inl e, sd') \<Rightarrow> (Inl e, sd') | (Inr _, sd') \<Rightarrow>
        (case (\<lambda>sd. (Inr (), exec_best_effort dd MTIME_RESET_COMMAND sd)) sd' of (Inl e, sd') \<Rightarrow> (Inl e, sd') | (Inr (_::unit), sd') \<Rightarrow>
          (\<lambda>(s, d1).
             (case dd_exec dd (ds_name s) (command_spec s command cwd timeout) d1 of
                (Inr reply, d2) \<Rightarrow> (Inr (decoded lossless reply), s, d2)
              | (Inl e, d2) \<Rightarrow>
                  (if e \<noteq> BareTimeout then (Inl e, s, d2)
                   else case dd_remove dd (ds_name s) d2 of
                          (Inl e', d3) \<Rightarrow> (Inl e', s, d3)
                        | (Inr _, d3) \<Rightarrow> (Inl BareTimeout, s\<lparr>ds_started := False\<rparr>, d3)))) sd'))"
    unfolding awaited_run_def by (intro left_alone_also_then await_alone best_effort_alone)
  then show ?thesis
    by (rule left_alone_cong) (auto simp: fun_eq_iff session_run_def call_alone no_reply_def split: prod.split sum.split)
qed

section \<open>What the daemon keeps\<close>

text \<open>
  What docker documents, over the containers and networks that exist, each with its labels: a successful
  call does what it says and a failing one changes neither set, unless the daemon is stranded, that is
  has refused a removal or a listing or left something behind when it failed.
\<close>

type_synonym 'd inventory = "'d \<Rightarrow> (string \<times> (string, string) dict) set"

definition listed :: "string \<Rightarrow> (string \<times> (string, string) dict) set \<Rightarrow> bool" where
  "listed n X \<longleftrightarrow> (\<exists>ls. (n, ls) \<in> X)"

definition gentle :: "'d inventory \<Rightarrow> 'd inventory \<Rightarrow> ('d \<Rightarrow> bool) \<Rightarrow> 'd \<Rightarrow> 'd \<Rightarrow> bool" where
  "gentle live nets stranded d d' \<longleftrightarrow>
     live d' \<subseteq> live d \<and> nets d' \<subseteq> nets d \<and> (stranded d \<longrightarrow> stranded d')"

definition daemon_keeps :: "'d daemon \<Rightarrow> 'd inventory \<Rightarrow> 'd inventory \<Rightarrow> ('d \<Rightarrow> bool) \<Rightarrow> bool" where
  "daemon_keeps dd live nets stranded \<longleftrightarrow>
     (\<forall>cfg d r d'. dd_run dd cfg d = (r, d') \<longrightarrow> (stranded d \<longrightarrow> stranded d') \<and> nets d' \<subseteq> nets d \<and>
        live d' \<subseteq> insert (rc_name cfg, rc_labels cfg) (live d) \<and> (isl r \<longrightarrow> live d' \<subseteq> live d \<or> stranded d')) \<and>
     (\<forall>img d r d'. dd_pull dd img d = (r, d') \<longrightarrow> gentle live nets stranded d d') \<and>
     (\<forall>c d r d'. dd_get dd c d = (r, d') \<longrightarrow> gentle live nets stranded d d' \<and>
        (\<forall>e. r = Inl e \<longrightarrow> docker_not_found e \<longrightarrow> \<not> listed c (live d'))) \<and>
     (\<forall>c x d r d'. dd_exec dd c x d = (r, d') \<longrightarrow> gentle live nets stranded d d') \<and>
     (\<forall>c d r d'. dd_remove dd c d = (r, d') \<longrightarrow> gentle live nets stranded d d' \<and>
        (\<not> listed c (live d') \<or> isl r \<and> stranded d')) \<and>
     (\<forall>n sub l d r d'. dd_net_create dd n sub l d = (r, d') \<longrightarrow> (stranded d \<longrightarrow> stranded d') \<and> live d' \<subseteq> live d \<and>
        nets d' \<subseteq> insert (n, l) (nets d) \<and> (isl r \<longrightarrow> nets d' \<subseteq> nets d \<or> stranded d')) \<and>
     (\<forall>n d r d'. dd_net_remove dd n d = (r, d') \<longrightarrow> gentle live nets stranded d d' \<and>
        (\<not> listed n (nets d') \<or> isl r \<and> stranded d'))"

definition listing_keeps :: "'d full_daemon \<Rightarrow> 'd inventory \<Rightarrow> 'd inventory \<Rightarrow> ('d \<Rightarrow> bool) \<Rightarrow> bool" where
  "listing_keeps fd live nets stranded \<longleftrightarrow>
     (\<forall>d r d'. dd_connect fd d = (r, d') \<longrightarrow> gentle live nets stranded d d' \<and> (isl r \<longrightarrow> stranded d')) \<and>
     (\<forall>l d r d'. dd_list fd l d = (r, d') \<longrightarrow> gentle live nets stranded d d' \<and>
        (case r of Inl _ \<Rightarrow> stranded d' | Inr cs \<Rightarrow> \<forall>(c, ls) \<in> live d'. l \<in> set ls \<longrightarrow> c \<in> set cs)) \<and>
     (\<forall>l d r d'. dd_net_list fd l d = (r, d') \<longrightarrow> gentle live nets stranded d d' \<and>
        (case r of Inl _ \<Rightarrow> stranded d' | Inr ns \<Rightarrow> \<forall>(n, ls) \<in> nets d'. l \<in> set ls \<longrightarrow> n \<in> set ns))"

lemma gentle_refl: "gentle live nets stranded d d"
  by (simp add: gentle_def)

lemma gentle_trans: "gentle live nets stranded d d' \<Longrightarrow> gentle live nets stranded d' d'' \<Longrightarrow> gentle live nets stranded d d''"
  by (auto simp: gentle_def)

lemma listed_mono: "listed n X \<Longrightarrow> X \<subseteq> Y \<Longrightarrow> listed n Y"
  by (auto simp: listed_def)

lemma listed_insert: "listed n (insert (m, ls) X) \<longleftrightarrow> n = m \<or> listed n X"
  by (auto simp: listed_def)

lemmas run_law = daemon_keeps_def [THEN iffD1, THEN conjunct1, rule_format]
lemmas pull_law = daemon_keeps_def [THEN iffD1, THEN conjunct2, THEN conjunct1, rule_format]
lemmas get_law = daemon_keeps_def [THEN iffD1, THEN conjunct2, THEN conjunct2, THEN conjunct1, rule_format]
lemmas exec_law = daemon_keeps_def [THEN iffD1, THEN conjunct2, THEN conjunct2, THEN conjunct2, THEN conjunct1, rule_format]
lemmas remove_law = daemon_keeps_def [THEN iffD1, THEN conjunct2, THEN conjunct2, THEN conjunct2, THEN conjunct2, THEN conjunct1, rule_format]
lemmas net_create_law = daemon_keeps_def [THEN iffD1, THEN conjunct2, THEN conjunct2, THEN conjunct2, THEN conjunct2, THEN conjunct2, THEN conjunct1, rule_format]
lemmas net_remove_law = daemon_keeps_def [THEN iffD1, THEN conjunct2, THEN conjunct2, THEN conjunct2, THEN conjunct2, THEN conjunct2, THEN conjunct2, rule_format]
lemmas connect_law = listing_keeps_def [THEN iffD1, THEN conjunct1, rule_format]
lemmas list_law = listing_keeps_def [THEN iffD1, THEN conjunct2, THEN conjunct1, rule_format]
lemmas net_list_law = listing_keeps_def [THEN iffD1, THEN conjunct2, THEN conjunct2, rule_format]

section \<open>The account a session keeps\<close>

text \<open>Where the network of the session is: the session does not know of one, the task holds it and the session
  does not, the session may know of it.\<close>

datatype holding = Dropped | InHand | Recorded

fun net_held :: "holding \<Rightarrow> string \<Rightarrow> string option \<Rightarrow> job list \<Rightarrow> bool \<Rightarrow> bool" where
  "net_held Dropped n obj js exists \<longleftrightarrow> obj = None \<and> (exists \<longrightarrow> RemoveNet n \<in> set js)"
| "net_held InHand n obj js exists \<longleftrightarrow> obj = None"
| "net_held Recorded n obj js exists \<longleftrightarrow> obj \<in> {None, Some n} \<and> (exists \<longrightarrow> obj \<noteq> None \<or> RemoveNet n \<in> set js)"

definition bad :: "('d \<Rightarrow> bool) \<Rightarrow> 'd shell_world \<Rightarrow> bool" where
  "bad stranded w \<longleftrightarrow> sw_lost w \<or> stranded (sw_daemon w)"

text \<open>\<open>held\<close>: a container may exist. Otherwise one that exists is being removed.\<close>

definition tidy :: "'d inventory \<Rightarrow> 'd inventory \<Rightarrow> ('d \<Rightarrow> bool) \<Rightarrow> bool \<Rightarrow> bool \<Rightarrow> holding \<Rightarrow> 'd shell_world \<Rightarrow> bool" where
  "tidy live nets stranded held started h w \<longleftrightarrow>
     bad stranded w \<or>
     ds_started (sw_session w) = started \<and>
     (listed (ds_name (sw_session w)) (live (sw_daemon w)) \<longrightarrow> held \<or> RemoveContainer \<in> set (sw_threads w)) \<and>
     net_held h (network_name (sw_session w)) (ds_network_obj (sw_session w)) (sw_threads w)
       (listed (network_name (sw_session w)) (nets (sw_daemon w))) \<and>
     (\<forall>j \<in> set (sw_threads w). \<not> creates j)"

lemma tidy_weaken:
  "tidy live nets stranded held st h w \<Longrightarrow> (held \<longrightarrow> held') \<Longrightarrow> h' = h \<or> h = Dropped \<and> h' = Recorded \<Longrightarrow>
     tidy live nets stranded held' st h' w"
  by (auto simp: tidy_def)

lemma no_reply_Inl: "no_reply r = Inl e \<longleftrightarrow> r = Inl e" "isl (no_reply r) \<longleftrightarrow> isl r"
  by (cases r; simp add: no_reply_def)+

text \<open>One step of a thread that creates nothing.\<close>

lemma quiet_job:
  assumes keeps: "daemon_keeps dd live nets stranded" and "\<not> creates j" and "job_step dd j (s, d) = (x, s', d')"
  shows "s' = s \<and> gentle live nets stranded d d' \<and> (\<exists>r. x = Inr r \<and>
    (j = RemoveContainer \<longrightarrow> \<not> listed (ds_name s) (live d') \<or> stranded d') \<and>
    (\<forall>n. j = RemoveNet n \<longrightarrow> \<not> listed n (nets d') \<or> stranded d') \<and>
    (\<forall>e. j = GetContainer \<longrightarrow> r = Inl e \<longrightarrow> docker_not_found e \<longrightarrow> \<not> listed (ds_name s) (live d')))"
proof (cases j)
  case GetContainer
  with assms(3) get_law [OF keeps] show ?thesis by (auto simp: no_reply_Inl split: prod.splits)
next
  case (ExecJob x)
  with assms(3) exec_law [OF keeps] show ?thesis by (auto split: prod.splits)
next
  case RemoveContainer
  with assms(3) remove_law [OF keeps] show ?thesis by (auto split: prod.splits)
next
  case (RemoveNet n)
  with assms(3) net_remove_law [OF keeps] show ?thesis by (auto split: prod.splits)
qed (use assms in simp_all)

text \<open>Any step of a thread.\<close>

lemma job_frame:
  assumes keeps: "daemon_keeps dd live nets stranded" and step: "job_step dd j (s, d) = (x, s', d')"
  shows "(s' = s \<or> j = AssignNet \<and> s' = s\<lparr>ds_network_obj := Some (network_name s)\<rparr>) \<and> (stranded d \<longrightarrow> stranded d') \<and>
    live d' \<subseteq> insert (ds_name s, owner_labels s) (live d) \<and> nets d' \<subseteq> insert (network_name s, owner_labels s) (nets d)"
proof (cases "creates j")
  case False
  with quiet_job [OF keeps _ step] show ?thesis unfolding gentle_def by blast
next
  case True
  have "rc_name (run_kwargs s) = ds_name s" "rc_labels (run_kwargs s) = owner_labels s" by (simp_all add: run_kwargs_def)
  note made = run_law [OF keeps, where cfg = "run_kwargs s", unfolded this]
  show ?thesis
  proof (cases j)
    case MakeNet
    with step net_create_law [OF keeps] show ?thesis
      by (fastforce split: option.splits if_splits prod.splits sum.splits)
  next
    case FirstRun
    with step made show ?thesis by (fastforce split: prod.splits sum.splits)
  next
    case PullImage
    with step pull_law [OF keeps] show ?thesis by (fastforce simp: gentle_def split: prod.splits sum.splits)
  next
    case SecondRun
    with step made show ?thesis by (fastforce split: prod.splits)
  qed (use True step in auto)
qed

section \<open>Reasoning about an await\<close>

text \<open>An invariant of an await, for whatever happens meanwhile.\<close>

lemma run_job_rule:
  assumes go: "\<And>j w j' s d. I j w \<Longrightarrow> job_step dd j (sw_session w, sw_daemon w) = (Inl j', s, d) \<Longrightarrow>
      I j' (w\<lparr>sw_session := s, sw_daemon := d\<rparr>)"
    and fin: "\<And>j w r s d es. I j w \<Longrightarrow> job_step dd j (sw_session w, sw_daemon w) = (Inr r, s, d) \<Longrightarrow>
      Q (map_sum Raised id r) (w\<lparr>sw_session := s, sw_daemon := d, sw_script := es\<rparr>)"
  shows "I j w \<Longrightarrow> run_job dd j (sw_session w, sw_daemon w) = (r, s, d) \<Longrightarrow>
    Q (map_sum Raised id r) (w\<lparr>sw_session := s, sw_daemon := d, sw_script := es\<rparr>)"
proof (induction "job_rank j" arbitrary: j w rule: less_induct)
  case less
  obtain x s1 d1 where step: "job_step dd j (sw_session w, sw_daemon w) = (x, s1, d1)" by (rule prod_cases3)
  show ?case
  proof (cases x)
    case (Inl j')
    from less.prems(2) step Inl have "run_job dd j' (s1, d1) = (r, s, d)" by (simp add: run_job.simps [of dd j])
    with less.hyps [of j' "w\<lparr>sw_session := s1, sw_daemon := d1\<rparr>"] go [OF less.prems(1)] step Inl
      job_step_rank [of dd j "(sw_session w, sw_daemon w)" j' "(s1, d1)"]
    show ?thesis by simp
  next
    case (Inr r')
    with less.prems step fin [OF less.prems(1), of r' s1 d1 es] show ?thesis by (simp add: run_job.simps [of dd j])
  qed
qed

definition interruption :: "stop \<Rightarrow> bool" where
  "interruption x \<longleftrightarrow> x = Cancelled \<or> x = Raised BareTimeout"

lemma interrupt_kind: "interrupt timed e = Some x \<Longrightarrow> interruption x"
  by (cases e) (auto simp: interruption_def split: if_splits)

lemma await_rule:
  assumes bg: "\<And>j w n. I j w \<Longrightarrow> I j (background_step dd n w)"
    and go: "\<And>j w j' s d. I j w \<Longrightarrow> job_step dd j (sw_session w, sw_daemon w) = (Inl j', s, d) \<Longrightarrow>
      I j' (w\<lparr>sw_session := s, sw_daemon := d\<rparr>)"
    and fin: "\<And>j w r s d es. I j w \<Longrightarrow> job_step dd j (sw_session w, sw_daemon w) = (Inr r, s, d) \<Longrightarrow>
      Q (map_sum Raised id r) (w\<lparr>sw_session := s, sw_daemon := d, sw_script := es\<rparr>)"
    and late: "\<And>j w r s d es x. I j w \<Longrightarrow> job_step dd j (sw_session w, sw_daemon w) = (Inr r, s, d) \<Longrightarrow> interruption x \<Longrightarrow>
      Q (Inl x) (w\<lparr>sw_session := s, sw_daemon := d, sw_lost := sw_lost w \<or> creates j \<and> \<not> isl r, sw_script := es\<rparr>)"
    and leave: "\<And>j w es x. I j w \<Longrightarrow> interruption x \<Longrightarrow>
      Q (Inl x) (w\<lparr>sw_threads := sw_threads w @ [j], sw_lost := sw_lost w \<or> creates j, sw_script := es\<rparr>)"
    and start: "I j w" and run: "await dd timed j w = (r, w')"
  shows "Q r w'"
proof -
  have "I j w \<Longrightarrow> await_thread dd timed es j w = (r, w') \<Longrightarrow> Q r w'" for es
  proof (induction es arbitrary: j w)
    case Nil
    obtain r1 s d where job: "run_job dd j (sw_session w, sw_daemon w) = (r1, s, d)" by (rule prod_cases3)
    have "Q (map_sum Raised id r1) (w\<lparr>sw_session := s, sw_daemon := d, sw_script := []\<rparr>)"
      by (rule run_job_rule [where dd = dd and I = I, OF _ _ Nil.prems(1) job]) (fact go fin)+
    with Nil.prems(2) job show ?case by (auto simp: deliver_def interrupted_def)
  next
    case (Cons e es)
    obtain x s d where step: "job_step dd j (sw_session w, sw_daemon w) = (x, s, d)" by (rule prod_cases3)
    have advance: "Q r w'" if "e = Advance"
    proof (cases x)
      case (Inl j')
      with Cons.IH [OF go [OF Cons.prems(1)]] step Cons.prems(2) that show ?thesis by simp
    next
      case (Inr r1)
      note step = step [unfolded Inr]
      show ?thesis
      proof (cases "interrupted timed es")
        case None
        with fin [OF Cons.prems(1) step, of es] step Cons.prems(2) that show ?thesis by (auto simp: deliver_def)
      next
        case (Some p)
        then obtain x' es' where p: "interrupted timed es = Some (x', es')" "interruption x'"
          by (auto simp: interrupted_def dest: interrupt_kind split: list.splits)
        with late [OF Cons.prems(1) step p(2), of es'] step Cons.prems(2) that show ?thesis by (auto simp: deliver_def)
      qed
    qed
    show ?case
    proof (cases e)
      case (Background n)
      with Cons.IH [OF bg [OF Cons.prems(1)]] Cons.prems(2) show ?thesis by simp
    next
      case TimeOut
      with Cons.IH [OF Cons.prems(1)] Cons.prems(2) leave [OF Cons.prems(1)] show ?thesis
        by (auto simp: interruption_def split: if_splits)
    next
      case Cancel
      with Cons.prems(2) leave [OF Cons.prems(1)] show ?thesis by (auto simp: interruption_def)
    qed (use advance in simp)
  qed
  with start run show ?thesis by (simp add: await_def)
qed

lemma pause_rule:
  assumes bg: "\<And>w n. I w \<Longrightarrow> I (background_step dd n w)" and script: "\<And>w es. I w \<Longrightarrow> I (w\<lparr>sw_script := es\<rparr>)"
    and start: "I w" and run: "pause dd w = (r, w')"
  shows "I w' \<and> r \<in> {Inr (), Inl Cancelled}"
proof -
  have "I w \<Longrightarrow> pause_events dd es w = (r, w') \<Longrightarrow> I w' \<and> r \<in> {Inr (), Inl Cancelled}" for es
  proof (induction es arbitrary: w)
    case (Cons e es)
    show ?case
    proof (cases e)
      case (Background n)
      with Cons.IH [OF bg [OF Cons.prems(1)], of n] Cons.prems(2) show ?thesis by simp
    qed (use Cons script in auto)
  qed (use script in auto)
  with start run show ?thesis by (simp add: pause_def)
qed

section \<open>What an operation leaves\<close>

text \<open>From \<open>P\<close>, an operation that returns leaves \<open>Q\<close> and one that raises leaves \<open>E\<close>.\<close>

definition yields :: "('w \<Rightarrow> bool) \<Rightarrow> ('w, stop, 'a) act \<Rightarrow> ('w \<Rightarrow> bool) \<Rightarrow> (stop \<Rightarrow> 'w \<Rightarrow> bool) \<Rightarrow> bool" where
  "yields P m Q E \<longleftrightarrow> (\<forall>w. P w \<longrightarrow> (case m w of (Inr _, w') \<Rightarrow> Q w' | (Inl x, w') \<Rightarrow> E x w'))"

lemma yieldsI:
  "(\<And>w r w'. P w \<Longrightarrow> m w = (r, w') \<Longrightarrow> (case r of Inr _ \<Rightarrow> Q w' | Inl x \<Rightarrow> E x w')) \<Longrightarrow> yields P m Q E"
  unfolding yields_def by (auto split: prod.split)

lemma yieldsD: "yields P m Q E \<Longrightarrow> P w \<Longrightarrow> m w = (r, w') \<Longrightarrow> (case r of Inr _ \<Rightarrow> Q w' | Inl x \<Rightarrow> E x w')"
  unfolding yields_def by (metis (mono_tags, lifting) case_prod_conv)

lemma yields_ret: "(\<And>w. P w \<Longrightarrow> Q w) \<Longrightarrow> yields P (ret x) Q E"
  by (simp add: yields_def ret_def)

lemma yields_raise: "(\<And>w. P w \<Longrightarrow> E x w) \<Longrightarrow> yields P (raise x) Q E"
  by (simp add: yields_def raise_def)

lemma yields_set: "(\<And>w. P w \<Longrightarrow> Q (w\<lparr>sw_session := f (sw_session w)\<rparr>)) \<Longrightarrow> yields P (set_session f) Q E"
  by (simp add: yields_def set_session_def)

lemma yields_seq: "yields P m R E \<Longrightarrow> (\<And>x. yields R (f x) Q E) \<Longrightarrow> yields P (seq m f) Q E"
  unfolding yields_def seq_def by (fastforce split: prod.splits sum.splits)

lemma yields_also: "yields P m R E \<Longrightarrow> yields R n Q E \<Longrightarrow> yields P (also_then m n) Q E"
  by (simp add: also_then_def yields_seq)

lemma yields_except:
  "yields P m Q (\<lambda>x. case x of Raised e \<Rightarrow> H e | Cancelled \<Rightarrow> E Cancelled) \<Longrightarrow> (\<And>e. yields (H e) (h e) Q E) \<Longrightarrow>
     yields P (except_exception m h) Q E"
  unfolding yields_def except_exception_def catch_def raise_def by (fastforce split: prod.splits sum.splits stop.splits)

lemma yields_finally:
  assumes "yields P m Q' E'" and "yields Q' n Q E" and "\<And>x. yields (E' x) n (E x) E"
  shows "yields P (finally_do m n) Q E"
proof (rule yieldsI)
  fix w r w' assume w: "P w" and run: "finally_do m n w = (r, w')"
  obtain r1 w1 where m: "m w = (r1, w1)" by (rule prod.exhaust)
  obtain r2 w2 where n: "n w1 = (r2, w2)" by (rule prod.exhaust)
  from yieldsD [OF assms(1) w m] have "case r2 of Inl y \<Rightarrow> E y w2 | Inr _ \<Rightarrow> (case r1 of Inr _ \<Rightarrow> Q w2 | Inl x \<Rightarrow> E x w2)"
    using yieldsD [OF assms(2) _ n] yieldsD [OF assms(3) _ n] by (cases r1; cases r2) auto
  with run m n show "case r of Inr _ \<Rightarrow> Q w' | Inl x \<Rightarrow> E x w'" by (auto simp: finally_do_def split: sum.splits)
qed

lemma yields_weaken:
  "yields P m Q E \<Longrightarrow> (\<And>w. P' w \<Longrightarrow> P w) \<Longrightarrow> (\<And>w. Q w \<Longrightarrow> Q' w) \<Longrightarrow> (\<And>x w. E x w \<Longrightarrow> E' x w) \<Longrightarrow> yields P' m Q' E'"
  unfolding yields_def by (fastforce split: prod.splits sum.splits)

lemma yields_by_state: "(\<And>v. yields P (m v) Q E) \<Longrightarrow> yields P (\<lambda>w. m (g w) w) Q E"
  by (simp add: yields_def)

lemma yields_ex: "(\<And>a. yields (P a) m Q E) \<Longrightarrow> yields (\<lambda>w. \<exists>a. P a w) m Q E"
  by (rule yieldsI, elim exE, rule yieldsD)

section \<open>Every await keeps the account\<close>

lemma network_name_updates [simp]:
  "network_name (s\<lparr>ds_network_obj := x\<rparr>) = network_name s" "network_name (s\<lparr>ds_started := b\<rparr>) = network_name s"
  "owner_labels (s\<lparr>ds_network_obj := x\<rparr>) = owner_labels s" "owner_labels (s\<lparr>ds_started := b\<rparr>) = owner_labels s"
  by (simp_all add: network_name_def owner_labels_def)

lemma net_held_mono:
  "net_held h n obj js b \<Longrightarrow> (b' \<Longrightarrow> b) \<Longrightarrow> (RemoveNet n \<in> set js \<Longrightarrow> RemoveNet n \<in> set js' \<or> \<not> b') \<Longrightarrow> net_held h n obj js' b'"
  by (cases h) auto

lemma removed_thread: "n < length js \<Longrightarrow> set js = insert (js ! n) (set (take n js @ drop (Suc n) js))"
  by (subst id_take_nth_drop [of n js]) auto

lemma background_tidy:
  assumes keeps: "daemon_keeps dd live nets stranded" and tidy: "tidy live nets stranded held st h w"
  shows "tidy live nets stranded held st h (background_step dd n w)"
proof (cases "n < length (sw_threads w)")
  case False
  with tidy show ?thesis by (simp add: background_step_def)
next
  case True
  define j where "j = sw_threads w ! n"
  obtain x s d where step: "job_step dd j (sw_session w, sw_daemon w) = (x, s, d)" by (rule prod_cases3)
  note step' = step [unfolded j_def]
  show ?thesis
  proof (cases "bad stranded w")
    case bad: True
    have "bad stranded (background_step dd n w)"
      using bad job_frame [OF keeps step] True step'
      by (cases x) (auto simp: background_step_def bad_def)
    then show ?thesis by (simp add: tidy_def)
  next
    case False
    let ?js = "take n (sw_threads w) @ drop (Suc n) (sw_threads w)"
    have js: "set (sw_threads w) = insert j (set ?js)" unfolding j_def by (rule removed_thread [OF True])
    with tidy False have "\<not> creates j" by (auto simp: tidy_def)
    note quiet = quiet_job [OF keeps this step]
    then obtain r where r: "x = Inr r" "s = sw_session w" by blast
    have b: "background_step dd n w = w\<lparr>sw_session := s, sw_daemon := d, sw_threads := ?js\<rparr>"
      using step' r True by (simp add: background_step_def)
    show ?thesis
    proof (cases "stranded d")
      case True
      then show ?thesis by (simp add: b tidy_def bad_def)
    next
      case ns: False
      have sub: "live d \<subseteq> live (sw_daemon w)" "nets d \<subseteq> nets (sw_daemon w)" using quiet by (simp_all add: gentle_def)
      have t: "ds_started s = st" "listed (ds_name s) (live (sw_daemon w)) \<Longrightarrow> held \<or> RemoveContainer \<in> set (sw_threads w)"
          "net_held h (network_name s) (ds_network_obj s) (sw_threads w) (listed (network_name s) (nets (sw_daemon w)))"
          "\<forall>j \<in> set (sw_threads w). \<not> creates j"
        using tidy False r(2) by (auto simp: tidy_def)
      have "listed (ds_name s) (live d) \<Longrightarrow> held \<or> RemoveContainer \<in> set ?js"
        using t(2) listed_mono [OF _ sub(1)] js quiet ns r(2) by auto
      moreover have "net_held h (network_name s) (ds_network_obj s) ?js (listed (network_name s) (nets d))"
      proof (rule net_held_mono [OF t(3)])
        show "listed (network_name s) (nets (sw_daemon w))" if "listed (network_name s) (nets d)"
          using listed_mono [OF that sub(2)] .
        show "RemoveNet (network_name s) \<in> set ?js \<or> \<not> listed (network_name s) (nets d)"
          if "RemoveNet (network_name s) \<in> set (sw_threads w)"
          using that js quiet ns by auto
      qed
      moreover have "\<forall>j \<in> set ?js. \<not> creates j" using t(4) js by blast
      ultimately show ?thesis using t(1) by (simp add: b tidy_def del: set_append)
    qed
  qed
qed

text \<open>A thread that creates nothing ends, or is left behind.\<close>

definition ends_container :: "job \<Rightarrow> thread_result \<Rightarrow> bool" where
  "ends_container j r \<longleftrightarrow> j = RemoveContainer \<or> j = GetContainer \<and> (\<exists>e. r = Inl e \<and> docker_not_found e)"

definition ends_net :: "job \<Rightarrow> shell_session \<Rightarrow> holding \<Rightarrow> holding" where
  "ends_net j s h = (if j = RemoveNet (network_name s) \<and> h = InHand then Dropped else h)"

lemma quiet_tidy:
  assumes keeps: "daemon_keeps dd live nets stranded" and tidy: "tidy live nets stranded held st h w" and quiet: "\<not> creates j"
    and step: "job_step dd j (sw_session w, sw_daemon w) = (Inr r, s, d)"
  shows "tidy live nets stranded (held \<and> \<not> ends_container j r) st (ends_net j (sw_session w) h)
    (w\<lparr>sw_session := s, sw_daemon := d, sw_lost := sw_lost w, sw_script := es\<rparr>)"
proof (cases "bad stranded w \<or> stranded d")
  case True
  with job_frame [OF keeps step] show ?thesis by (auto simp: tidy_def bad_def)
next
  case False
  note q = quiet_job [OF keeps quiet step]
  then have sub: "live d \<subseteq> live (sw_daemon w)" "nets d \<subseteq> nets (sw_daemon w)" by (simp_all add: gentle_def)
  have t: "ds_started s = st" "listed (ds_name s) (live (sw_daemon w)) \<Longrightarrow> held \<or> RemoveContainer \<in> set (sw_threads w)"
      "net_held h (network_name s) (ds_network_obj s) (sw_threads w) (listed (network_name s) (nets (sw_daemon w)))"
      "\<forall>j \<in> set (sw_threads w). \<not> creates j"
    using tidy False q by (auto simp: tidy_def)
  have "listed (ds_name s) (live d) \<Longrightarrow> held \<and> \<not> ends_container j r \<or> RemoveContainer \<in> set (sw_threads w)"
    using t(2) listed_mono [OF _ sub(1)] q False by (auto simp: ends_container_def)
  moreover have "net_held (ends_net j s h) (network_name s) (ds_network_obj s) (sw_threads w) (listed (network_name s) (nets d))"
  proof (cases "j = RemoveNet (network_name s) \<and> h = InHand")
    case True
    with t(3) q False show ?thesis by (auto simp: ends_net_def)
  next
    case False
    with net_held_mono [OF t(3)] listed_mono [OF _ sub(2)] show ?thesis by (auto simp: ends_net_def)
  qed
  ultimately show ?thesis using t(1,4) q by (simp add: tidy_def)
qed

lemma left_tidy:
  assumes tidy: "tidy live nets stranded held st h w" and quiet: "\<not> creates j"
  shows "tidy live nets stranded (held \<and> j \<noteq> RemoveContainer) st (ends_net j (sw_session w) h)
    (w\<lparr>sw_threads := sw_threads w @ [j], sw_lost := sw_lost w, sw_script := es\<rparr>)"
proof (cases "bad stranded w")
  case True
  then show ?thesis by (auto simp: tidy_def bad_def)
next
  case False
  let ?s = "sw_session w"
  have t: "ds_started ?s = st" "listed (ds_name ?s) (live (sw_daemon w)) \<Longrightarrow> held \<or> RemoveContainer \<in> set (sw_threads w)"
      "net_held h (network_name ?s) (ds_network_obj ?s) (sw_threads w) (listed (network_name ?s) (nets (sw_daemon w)))"
      "\<forall>j \<in> set (sw_threads w). \<not> creates j"
    using tidy False by (auto simp: tidy_def)
  have "net_held (ends_net j ?s h) (network_name ?s) (ds_network_obj ?s) (sw_threads w @ [j]) (listed (network_name ?s) (nets (sw_daemon w)))"
  proof (cases "j = RemoveNet (network_name ?s) \<and> h = InHand")
    case True
    with t(3) show ?thesis by (auto simp: ends_net_def)
  next
    case False
    with net_held_mono [OF t(3)] show ?thesis by (auto simp: ends_net_def)
  qed
  with t(1,2,4) quiet show ?thesis by (auto simp: tidy_def)
qed

text \<open>The thread that makes the container: one call further, or done.\<close>

definition making :: "job \<Rightarrow> holding" where
  "making j = (if j = AssignNet then InHand else Recorded)"

lemma making_step:
  assumes keeps: "daemon_keeps dd live nets stranded" and tidy: "tidy live nets stranded False False (making j) w"
    and makes: "creates j" and step: "job_step dd j (sw_session w, sw_daemon w) = (x, s, d)"
  shows "case x of Inl j' \<Rightarrow> tidy live nets stranded False False (making j') (w\<lparr>sw_session := s, sw_daemon := d\<rparr>)
    | Inr r \<Rightarrow> tidy live nets stranded (\<not> isl r) False Recorded (w\<lparr>sw_session := s, sw_daemon := d, sw_script := es\<rparr>)"
proof (cases "bad stranded w \<or> stranded d")
  case True
  with job_frame [OF keeps step] show ?thesis by (auto simp: tidy_def bad_def split: sum.split)
next
  case False
  let ?s = "sw_session w" and ?d = "sw_daemon w"
  have t: "\<not> ds_started ?s" "listed (ds_name ?s) (live ?d) \<Longrightarrow> RemoveContainer \<in> set (sw_threads w)"
      "net_held (making j) (network_name ?s) (ds_network_obj ?s) (sw_threads w) (listed (network_name ?s) (nets ?d))"
      "\<forall>j \<in> set (sw_threads w). \<not> creates j"
    using tidy False by (auto simp: tidy_def)
  have kw: "rc_name (run_kwargs ?s) = ds_name ?s" by (simp add: run_kwargs_def)
  have run: "nets d1 \<subseteq> nets ?d \<and> (isl r1 \<longrightarrow> live d1 \<subseteq> live ?d \<or> stranded d1)"
    if "dd_run dd (run_kwargs ?s) ?d = (r1, d1)" for r1 d1
    using run_law [OF keeps that] by blast
  have tidy_now: "tidy live nets stranded a False Recorded (w\<lparr>sw_session := ?s, sw_daemon := d', sw_script := es'\<rparr>)"
    if "making j = Recorded" "nets d' \<subseteq> nets ?d" "a \<or> live d' \<subseteq> live ?d" for a d' es'
    using t that net_held_mono [OF t(3), of "listed (network_name ?s) (nets d')" "sw_threads w"]
      listed_mono [of _ "nets d'" "nets ?d"] listed_mono [of _ "live d'" "live ?d"]
    by (auto simp: tidy_def)
  have script: "w\<lparr>sw_session := a, sw_daemon := b\<rparr> = w\<lparr>sw_session := a, sw_daemon := b, sw_script := sw_script w\<rparr>" for a b
    by simp
  show ?thesis
  proof (cases j)
    case MakeNet
    note m = tidy_now [of ?d False "sw_script w"] tidy_now [of _ False es] MakeNet
    show ?thesis
    proof (cases "ds_network ?s = None \<or> ds_network_obj ?s \<noteq> None")
      case True
      with step MakeNet have "x = Inl FirstRun" "s = ?s" "d = ?d" by (auto split: option.splits)
      with tidy MakeNet show ?thesis by (simp add: making_def)
    next
      case new: False
      then obtain net where net: "ds_network ?s = Some net" by auto
      obtain r1 d1 where c: "dd_net_create dd (network_name ?s) (mn_subnet net) (owner_labels ?s) ?d = (r1, d1)" by (rule prod.exhaust)
      have eq: "s = ?s" "d = d1" "x = (case r1 of Inl e \<Rightarrow> Inr (Inl e) | Inr _ \<Rightarrow> Inl AssignNet)"
        using step MakeNet new net c by (auto split: sum.splits)
      have live: "live d1 \<subseteq> live ?d" "isl r1 \<Longrightarrow> nets d1 \<subseteq> nets ?d"
        using net_create_law [OF keeps c] False eq by auto
      show ?thesis
      proof (cases r1)
        case (Inl e)
        with eq live tidy_now [of d False es] MakeNet show ?thesis by (simp add: making_def)
      next
        case (Inr u)
        with eq live(1) t new listed_mono [of _ "live d1" "live ?d"] show ?thesis by (auto simp: tidy_def making_def)
      qed
    qed
  next
    case AssignNet
    with step t show ?thesis by (auto simp: tidy_def making_def)
  next
    case FirstRun
    obtain r1 d1 where r: "dd_run dd (run_kwargs ?s) ?d = (r1, d1)" by (rule prod.exhaust)
    with step FirstRun have eq: "s = ?s" "d = d1"
        "x = (case r1 of Inr _ \<Rightarrow> Inr (Inr None) | Inl e \<Rightarrow> if image_not_found e then Inl PullImage else Inr (Inl e))"
      by (auto split: sum.splits)
    show ?thesis
    proof (cases r1)
      case (Inl e)
      then have "nets d \<subseteq> nets ?d" "live d \<subseteq> live ?d" using run [OF r] False eq by auto
      with eq Inl tidy_now [of d False "sw_script w"] tidy_now [of d False es] FirstRun show ?thesis by (simp add: making_def)
    next
      case (Inr u)
      with eq run [OF r] tidy_now [of d True es] FirstRun show ?thesis by (simp add: making_def)
    qed
  next
    case PullImage
    obtain r1 d1 where r: "dd_pull dd (ds_image ?s) ?d = (r1, d1)" by (rule prod.exhaust)
    with step PullImage have eq: "s = ?s" "d = d1" "x = (case r1 of Inl e \<Rightarrow> Inr (Inl e) | Inr _ \<Rightarrow> Inl SecondRun)"
      by (auto split: sum.splits)
    with pull_law [OF keeps r] tidy_now [of d False "sw_script w"] tidy_now [of d False es] PullImage show ?thesis
      by (auto simp: making_def gentle_def split: sum.split)
  next
    case SecondRun
    obtain r1 d1 where r: "dd_run dd (run_kwargs ?s) ?d = (r1, d1)" by (rule prod.exhaust)
    with step SecondRun have eq: "s = ?s" "d = d1" "x = Inr (no_reply r1)" by auto
    with run [OF r] tidy_now [of d "\<not> isl r1" es] SecondRun False show ?thesis by (auto simp: making_def no_reply_Inl)
  qed (use makes in simp_all)
qed

section \<open>Every operation keeps the account\<close>

lemma await_makes:
  assumes keeps: "daemon_keeps dd live nets stranded"
  shows "yields (tidy live nets stranded False False Recorded) (await dd timed MakeNet)
    (tidy live nets stranded True False Recorded) (\<lambda>_. tidy live nets stranded False False Recorded)"
proof (rule yieldsI)
  fix w r w' assume w: "tidy live nets stranded False False Recorded w" and run: "await dd timed MakeNet w = (r, w')"
  have "tidy live nets stranded (\<not> isl r) False Recorded w'"
  proof (rule await_rule [where I = "\<lambda>j w. creates j \<and> tidy live nets stranded False False (making j) w"
        and Q = "\<lambda>r. tidy live nets stranded (\<not> isl r) False Recorded", OF _ _ _ _ _ _ run], goal_cases)
    case 1
    then show ?case by (simp add: background_tidy [OF keeps])
  next
    case (2 j w j' s d)
    with making_step [OF keeps _ _ 2(2)] job_step_rank [OF 2(2)] show ?case by auto
  next
    case (3 j w r s d es)
    with making_step [OF keeps _ _ 3(2), of es] show ?case by (cases r) simp_all
  next
    case (4 j w r s d es x)
    show ?case
    proof (cases r)
      case (Inl e)
      with 4 making_step [OF keeps _ _ 4(2), of es] show ?thesis by simp
    next
      case (Inr y)
      with 4 show ?thesis by (simp add: tidy_def bad_def)
    qed
  next
    case (5 j w es x)
    then show ?case by (simp add: tidy_def bad_def)
  qed (use w in \<open>simp add: making_def\<close>)
  then show "case r of Inr _ \<Rightarrow> tidy live nets stranded True False Recorded w' | Inl _ \<Rightarrow> tidy live nets stranded False False Recorded w'"
    by (cases r) simp_all
qed

text \<open>What never changes and what only grows; everything under the session's names carries its owner's label.\<close>

definition labelled :: "'d inventory \<Rightarrow> 'd inventory \<Rightarrow> 'd shell_world \<Rightarrow> bool" where
  "labelled live nets w \<longleftrightarrow>
     (\<forall>ls. (ds_name (sw_session w), ls) \<in> live (sw_daemon w) \<longrightarrow> set (owner_labels (sw_session w)) \<subseteq> set ls) \<and>
     (\<forall>ls. (network_name (sw_session w), ls) \<in> nets (sw_daemon w) \<longrightarrow> set (owner_labels (sw_session w)) \<subseteq> set ls)"

definition carries :: "'d inventory \<Rightarrow> 'd inventory \<Rightarrow> ('d \<Rightarrow> bool) \<Rightarrow> 'd shell_world \<Rightarrow> 'd shell_world \<Rightarrow> bool" where
  "carries live nets stranded w w' \<longleftrightarrow>
     ds_name (sw_session w') = ds_name (sw_session w) \<and> ds_owner_pid (sw_session w') = ds_owner_pid (sw_session w) \<and>
     (sw_lost w \<longrightarrow> sw_lost w') \<and> (stranded (sw_daemon w) \<longrightarrow> stranded (sw_daemon w')) \<and>
     (labelled live nets w \<longrightarrow> labelled live nets w')"

interpretation carried: act_frame "carries live nets stranded"
  by unfold_locales (auto simp: carries_def)

lemma carries_bad: "carries live nets stranded w w' \<Longrightarrow> bad stranded w \<Longrightarrow> bad stranded w'"
  by (auto simp: carries_def bad_def)

lemma carries_network: "carries live nets stranded w w' \<Longrightarrow> network_name (sw_session w') = network_name (sw_session w)"
  by (simp add: carries_def network_name_def)

lemma job_carries:
  assumes keeps: "daemon_keeps dd live nets stranded" and step: "job_step dd j (sw_session w, sw_daemon w) = (x, s, d)"
  shows "carries live nets stranded w (w\<lparr>sw_session := s, sw_daemon := d, sw_lost := sw_lost w \<or> l, sw_script := es, sw_threads := js\<rparr>)"
proof -
  note f = job_frame [OF keeps step]
  then have "ds_name s = ds_name (sw_session w)" "ds_owner_pid s = ds_owner_pid (sw_session w)" by auto
  moreover have "labelled live nets w \<Longrightarrow> labelled live nets (w\<lparr>sw_session := s, sw_daemon := d\<rparr>)"
    using f calculation unfolding labelled_def network_name_def owner_labels_def by fastforce
  ultimately show ?thesis using f by (simp add: carries_def labelled_def)
qed

lemma background_carries:
  assumes "daemon_keeps dd live nets stranded"
  shows "carries live nets stranded w (background_step dd n w)"
proof -
  obtain x s d where step: "job_step dd (sw_threads w ! n) (sw_session w, sw_daemon w) = (x, s, d)" by (rule prod_cases3)
  have "carries live nets stranded w (w\<lparr>sw_session := s, sw_daemon := d, sw_threads := js\<rparr>)" for js
    using job_carries [OF assms step, where l = False and es = "sw_script w" and js = js] by simp
  with step show ?thesis by (cases x) (simp_all add: background_step_def carried.frame_refl)
qed

lemma carries_updates:
  "carries live nets stranded w (w\<lparr>sw_threads := js, sw_lost := sw_lost w \<or> l, sw_script := es\<rparr>)"
  by (simp add: carries_def labelled_def)

lemma await_carries:
  assumes keeps: "daemon_keeps dd live nets stranded"
  shows "steps (carries live nets stranded) (await dd timed j)"
proof (rule stepsI)
  fix w r w' assume run: "await dd timed j w = (r, w')"
  show "carries live nets stranded w w'"
  proof (rule await_rule [where I = "\<lambda>_. carries live nets stranded w" and Q = "\<lambda>_. carries live nets stranded w",
        OF _ _ _ _ _ _ run], goal_cases)
    case (1 j w1 n)
    then show ?case by (rule carried.frame_trans) (rule background_carries [OF keeps])
  next
    case (2 j w1 j' s d)
    from carried.frame_trans [OF 2(1) job_carries [OF keeps 2(2), where l = False and es = "sw_script w1" and js = "sw_threads w1"]] show ?case by simp
  next
    case (3 j w1 r s d es)
    from carried.frame_trans [OF 3(1) job_carries [OF keeps 3(2), where l = False and es = es and js = "sw_threads w1"]] show ?case by simp
  next
    case (4 j w1 r s d es x)
    from carried.frame_trans [OF 4(1) job_carries [OF keeps 4(2), where l = "creates j \<and> \<not> isl r" and es = es and js = "sw_threads w1"]] show ?case by simp
  next
    case (5 j w1 es x)
    from carried.frame_trans [OF 5(1) carries_updates] show ?case .
  qed (rule carried.frame_refl)
qed

lemma await_ends:
  assumes keeps: "daemon_keeps dd live nets stranded" and quiet: "\<not> creates j"
    and w: "tidy live nets stranded held st h w" and net: "\<And>n. j = RemoveNet n \<Longrightarrow> bad stranded w \<or> n = network_name (sw_session w)"
    and run: "await dd timed j w = (r, w')"
  shows "tidy live nets stranded
     (held \<and> j \<noteq> RemoveContainer \<and> \<not> (j = GetContainer \<and> (\<exists>e. r = Inl (Raised e) \<and> docker_not_found e))) st
     (case j of RemoveNet _ \<Rightarrow> if h = InHand then Dropped else h | _ \<Rightarrow> h) w'"
proof (rule await_rule [where I = "\<lambda>k w. k = j \<and> tidy live nets stranded held st h w \<and>
        (\<forall>n. j = RemoveNet n \<longrightarrow> bad stranded w \<or> n = network_name (sw_session w))"
      and Q = "\<lambda>r. tidy live nets stranded
     (held \<and> j \<noteq> RemoveContainer \<and> \<not> (j = GetContainer \<and> (\<exists>e. r = Inl (Raised e) \<and> docker_not_found e))) st
     (case j of RemoveNet _ \<Rightarrow> if h = InHand then Dropped else h | _ \<Rightarrow> h)", OF _ _ _ _ _ _ run], goal_cases)
  case (1 k w n)
  with background_carries [OF keeps, of w n] show ?case
    by (auto simp: background_tidy [OF keeps] carries_network dest: carries_bad)
next
  case (2 k w j' s d)
  with job_step_rank [OF 2(2)] quiet show ?case by simp
next
  case (3 k w r s d es)
  then have k: "k = j" and ns: "\<And>n. j = RemoveNet n \<Longrightarrow> bad stranded w \<or> n = network_name (sw_session w)" by auto
  note q = quiet_tidy [OF keeps _ quiet 3(2) [unfolded k], of held st h es]
  show ?case
  proof (cases "bad stranded w")
    case True
    with carries_bad [OF job_carries [OF keeps 3(2), where l = False and es = es and js = "sw_threads w"]] show ?thesis by (simp add: tidy_def)
  next
    case False
    with ns have h: "(case j of RemoveNet _ \<Rightarrow> if h = InHand then Dropped else h | _ \<Rightarrow> h) = ends_net j (sw_session w) h"
      by (cases j) (auto simp: ends_net_def)
    have "held \<and> \<not> ends_container j r \<longrightarrow> held \<and> j \<noteq> RemoveContainer \<and>
        \<not> (j = GetContainer \<and> (\<exists>e. map_sum Raised id r = Inl (Raised e) \<and> docker_not_found e))"
      by (cases r) (auto simp: ends_container_def)
    from tidy_weaken [OF q this] 3 k show ?thesis unfolding h by simp
  qed
next
  case (4 k w r s d es x)
  then have k: "k = j" and ns: "\<And>n. j = RemoveNet n \<Longrightarrow> bad stranded w \<or> n = network_name (sw_session w)" by auto
  show ?case
  proof (cases "bad stranded w")
    case True
    with carries_bad [OF job_carries [OF keeps 4(2), where l = "creates k \<and> \<not> isl r" and es = es and js = "sw_threads w"]] show ?thesis by (simp add: tidy_def)
  next
    case False
    with ns have h: "(case j of RemoveNet _ \<Rightarrow> if h = InHand then Dropped else h | _ \<Rightarrow> h) = ends_net j (sw_session w) h"
      by (cases j) (auto simp: ends_net_def)
    have "held \<and> \<not> ends_container j r \<longrightarrow> held \<and> j \<noteq> RemoveContainer \<and>
        \<not> (j = GetContainer \<and> (\<exists>e. (Inl x :: stop + exec_reply option) = Inl (Raised e) \<and> docker_not_found e))"
      using 4(3) by (auto simp: ends_container_def interruption_def)
    from tidy_weaken [OF quiet_tidy [OF keeps _ quiet 4(2) [unfolded k], of held st h es] this] 4 k quiet
    show ?thesis unfolding h by simp
  qed
next
  case (5 k w es x)
  then have k: "k = j" and ns: "\<And>n. j = RemoveNet n \<Longrightarrow> bad stranded w \<or> n = network_name (sw_session w)" by auto
  show ?case
  proof (cases "bad stranded w")
    case True
    then show ?thesis by (auto simp: tidy_def bad_def)
  next
    case False
    with ns have h: "(case j of RemoveNet _ \<Rightarrow> if h = InHand then Dropped else h | _ \<Rightarrow> h) = ends_net j (sw_session w) h"
      by (cases j) (auto simp: ends_net_def)
    have "held \<and> j \<noteq> RemoveContainer \<longrightarrow> held \<and> j \<noteq> RemoveContainer \<and>
        \<not> (j = GetContainer \<and> (\<exists>e. (Inl x :: stop + exec_reply option) = Inl (Raised e) \<and> docker_not_found e))"
      using 5(2) by (auto simp: interruption_def)
    from tidy_weaken [OF left_tidy [OF _ quiet, of live nets stranded held st h w es] this] 5 k quiet
    show ?thesis unfolding h by simp
  qed
qed (use w net in simp)

lemma await_quiet:
  assumes "daemon_keeps dd live nets stranded" and "\<not> creates j" and "\<And>n. j \<noteq> RemoveNet n"
  shows "yields (tidy live nets stranded held st h) (await dd timed j)
    (tidy live nets stranded held st h) (\<lambda>_. tidy live nets stranded held st h)"
proof (rule yieldsI)
  fix w r w' assume "tidy live nets stranded held st h w" "await dd timed j w = (r, w')"
  from await_ends [OF assms(1,2) this(1) _ this(2)] assms(3) have "tidy live nets stranded held st h w'"
    by (cases j) (auto elim: tidy_weaken)
  then show "case r of Inr _ \<Rightarrow> tidy live nets stranded held st h w' | Inl _ \<Rightarrow> tidy live nets stranded held st h w'"
    by (simp split: sum.split)
qed

lemma await_removes:
  assumes "daemon_keeps dd live nets stranded"
  shows "yields (tidy live nets stranded held st h) (await dd timed RemoveContainer)
    (tidy live nets stranded False st h) (\<lambda>_. tidy live nets stranded False st h)"
proof (rule yieldsI)
  fix w r w' assume "tidy live nets stranded held st h w" "await dd timed RemoveContainer w = (r, w')"
  from await_ends [OF assms _ this(1) _ this(2)] show "case r of Inr _ \<Rightarrow> tidy live nets stranded False st h w'
      | Inl _ \<Rightarrow> tidy live nets stranded False st h w'"
    by (simp split: sum.split)
qed

lemma await_gets:
  assumes "daemon_keeps dd live nets stranded"
  shows "yields (tidy live nets stranded held st h) (await dd timed GetContainer) (tidy live nets stranded held st h)
    (\<lambda>x. tidy live nets stranded (held \<and> \<not> (\<exists>e. x = Raised e \<and> docker_not_found e)) st h)"
proof (rule yieldsI)
  fix w r w' assume "tidy live nets stranded held st h w" "await dd timed GetContainer w = (r, w')"
  from await_ends [OF assms _ this(1) _ this(2)] show "case r of Inr _ \<Rightarrow> tidy live nets stranded held st h w'
      | Inl x \<Rightarrow> tidy live nets stranded (held \<and> \<not> (\<exists>e. x = Raised e \<and> docker_not_found e)) st h w'"
    by (cases r) simp_all
qed

lemma network_removal:
  assumes keeps: "daemon_keeps dd live nets stranded"
  shows "yields (tidy live nets stranded held st Recorded) (awaited_remove_network dd)
    (tidy live nets stranded held st Dropped) (\<lambda>_. tidy live nets stranded held st Dropped)"
proof (rule yieldsI)
  let ?T = "tidy live nets stranded held st"
  fix w r w' assume w: "?T Recorded w" and run: "awaited_remove_network dd w = (r, w')"
  show "case r of Inr _ \<Rightarrow> ?T Dropped w' | Inl _ \<Rightarrow> ?T Dropped w'"
  proof (cases "ds_network_obj (sw_session w)")
    case None
    with w have "?T Dropped w" by (auto simp: tidy_def)
    with run None show ?thesis by (auto simp: awaited_remove_network_def ret_def)
  next
    case (Some n)
    let ?w = "w\<lparr>sw_session := sw_session w\<lparr>ds_network_obj := None\<rparr>\<rparr>"
    let ?P = "\<lambda>w. ?T InHand w \<and> (bad stranded w \<or> n = network_name (sw_session w))"
    have P: "?P ?w" using w Some by (auto simp: tidy_def bad_def)
    have "yields ?P (await dd True (RemoveNet n)) (?T Dropped) (\<lambda>_. ?T Dropped)"
    proof (rule yieldsI)
      fix w r w' assume "?P w" "await dd True (RemoveNet n) w = (r, w')"
      with await_ends [OF keeps, of "RemoveNet n" held st InHand w True r w']
      show "case r of Inr _ \<Rightarrow> ?T Dropped w' | Inl _ \<Rightarrow> ?T Dropped w'" by (simp split: sum.split)
    qed
    then have "yields ?P (except_exception (also_then (await dd True (RemoveNet n)) (ret ()))
        (\<lambda>e. if docker_error e then ret () else raise (Raised e))) (?T Dropped) (\<lambda>_. ?T Dropped)"
      by (intro yields_except [where H = "\<lambda>_. ?T Dropped"] yields_also [where R = "?T Dropped"])
        (auto intro: yields_ret yields_raise elim: yields_weaken split: stop.split)
    from yieldsD [OF this P] run Some show ?thesis
      by (simp add: awaited_remove_network_def also_then_def seq_def set_session_def)
  qed
qed

lemma attempts_made:
  assumes keeps: "daemon_keeps dd live nets stranded"
  shows "yields (tidy live nets stranded False False Recorded) (awaited_attempts dd n)
    (tidy live nets stranded True False Recorded) (\<lambda>_. tidy live nets stranded False False Recorded)"
proof (induction n)
  case 0
  show ?case by (simp, rule yields_also [OF await_makes [OF keeps] yields_ret])
next
  case (Suc n)
  let ?F = "tidy live nets stranded False False Recorded" and ?T = "tidy live nets stranded True False Recorded"
  have "yields ?F (also_then (await dd True MakeNet) (ret ())) ?T (\<lambda>x. case x of Raised e \<Rightarrow> ?F | Cancelled \<Rightarrow> ?F)"
    by (rule yields_weaken [OF yields_also [OF await_makes [OF keeps] yields_ret [of ?T ?T]]]) (auto split: stop.split)
  moreover have "yields ?F (pause dd) ?F (\<lambda>_. ?F)"
  proof (rule yieldsI)
    fix w r w' assume "?F w" "pause dd w = (r, w')"
    from pause_rule [OF background_tidy [OF keeps] _ this] show "case r of Inr _ \<Rightarrow> ?F w' | Inl _ \<Rightarrow> ?F w'"
      by (auto simp: tidy_def bad_def)
  qed
  then have "yields ?F (if docker_error e then also_then (pause dd) (awaited_attempts dd n) else raise (Raised e)) ?T (\<lambda>_. ?F)" for e
    using yields_also [OF _ Suc.IH] by (auto intro: yields_raise)
  ultimately show ?case unfolding awaited_attempts.simps by (rule yields_except)
qed

lemma tidy_session:
  "tidy live nets stranded held st h w \<Longrightarrow> ds_name (f (sw_session w)) = ds_name (sw_session w) \<Longrightarrow>
     ds_started (f (sw_session w)) = ds_started (sw_session w) \<Longrightarrow> ds_network_obj (f (sw_session w)) = ds_network_obj (sw_session w) \<Longrightarrow>
     tidy live nets stranded held st h (w\<lparr>sw_session := f (sw_session w)\<rparr>)"
  by (auto simp: tidy_def bad_def network_name_def)

lemma tidy_started:
  "tidy live nets stranded held st h w \<Longrightarrow>
     tidy live nets stranded held st' h (w\<lparr>sw_session := sw_session w\<lparr>ds_started := st'\<rparr>\<rparr>)"
  by (auto simp: tidy_def bad_def)

lemma best_effort_tidy:
  assumes keeps: "daemon_keeps dd live nets stranded"
  shows "yields (tidy live nets stranded held st h) (awaited_best_effort dd command)
    (tidy live nets stranded held st h) (\<lambda>_. tidy live nets stranded held st h)"
proof -
  let ?T = "tidy live nets stranded held st h"
  have warn: "yields ?T (set_session (warn_once command)) ?T E" for E
    by (rule yields_set, rule tidy_session) (auto simp: warn_once_def)
  have "yields ?T (await dd True (control_job command 30)) ?T (\<lambda>x. case x of Raised e \<Rightarrow> ?T | Cancelled \<Rightarrow> ?T)"
    by (rule yields_weaken [OF await_quiet [OF keeps]]) (auto simp: control_job_def split: stop.split)
  then show ?thesis unfolding awaited_best_effort_def
    by (intro yields_except [where H = "\<lambda>_. ?T"] yields_seq [where R = ?T]) (auto intro: warn yields_ret)
qed

lemma setup_tidy:
  assumes keeps: "daemon_keeps dd live nets stranded"
  shows "yields (tidy live nets stranded True True Recorded) (awaited_setup dd)
    (tidy live nets stranded True True Recorded) (\<lambda>_ w. \<exists>st. tidy live nets stranded st st Recorded w)"
proof (rule yieldsI)
  let ?T = "\<lambda>held st. tidy live nets stranded held st Recorded" and ?E = "\<lambda>w. \<exists>st. tidy live nets stranded st st Recorded w"
  fix w r w' assume w: "?T True True w" and run: "awaited_setup dd w = (r, w')"
  show "case r of Inr _ \<Rightarrow> ?T True True w' | Inl _ \<Rightarrow> ?E w'"
  proof (cases "ds_setup_command (sw_session w)")
    case None
    with w run show ?thesis by (auto simp: awaited_setup_def ret_def)
  next
    case (Some command)
    have req: "yields (?T True True) (awaited_required dd command) (?T True True) (\<lambda>x. case x of Raised e \<Rightarrow> ?T True True | Cancelled \<Rightarrow> ?E)"
    proof (rule yieldsI)
      fix w r w' assume w: "?T True True w" and run: "awaited_required dd command w = (r, w')"
      have "yields (?T True True) (seq (await dd True (control_job command (ds_setup_timeout (sw_session w))))
          (\<lambda>r. case r of
             Some reply \<Rightarrow> (if er_exit_code reply = Some 0 then ret () else raise (Raised (setup_failure reply)))
           | None \<Rightarrow> ret ())) (?T True True) (\<lambda>_. ?T True True)"
        by (rule yields_seq [OF await_quiet [OF keeps]])
          (auto simp: control_job_def intro: yields_ret yields_raise split: option.split)
      from yieldsD [OF this w] run show "case r of Inr _ \<Rightarrow> ?T True True w' | Inl x \<Rightarrow> (case x of Raised e \<Rightarrow> ?T True True | Cancelled \<Rightarrow> ?E) w'"
        by (auto simp: awaited_required_def split: sum.splits stop.splits)
    qed
    have force: "yields (?T True True) (except_exception (also_then (await dd True RemoveContainer) (ret ())) (\<lambda>_. ret ())) (?T False True) (\<lambda>_. ?E)"
    proof (rule yields_except [where H = "\<lambda>_. ?T False True"])
      show "yields (?T True True) (also_then (await dd True RemoveContainer) (ret ())) (?T False True)
          (\<lambda>x. case x of Raised e \<Rightarrow> ?T False True | Cancelled \<Rightarrow> ?E)"
        by (rule yields_weaken [OF yields_also [OF await_removes [OF keeps] yields_ret [of "?T False True" "?T False True"]]])
          (auto split: stop.split intro: exI [of _ True] tidy_weaken)
    qed (rule yields_ret)
    have net: "yields (?T False True) (awaited_remove_network dd) (?T False True) (\<lambda>_. ?E)"
      by (rule yields_weaken [OF network_removal [OF keeps]]) (auto intro: exI [of _ True] tidy_weaken)
    have "yields (?T True True) (except_exception (awaited_required dd command) (\<lambda>e.
            also_then (except_exception (also_then (await dd True RemoveContainer) (ret ())) (\<lambda>_. ret ()))
           (also_then (awaited_remove_network dd)
           (also_then (set_session (\<lambda>s. s\<lparr>ds_started := False\<rparr>)) (raise (Raised e)))))) (?T True True) (\<lambda>_. ?E)"
    proof (rule yields_except [OF req])
      fix e
      show "yields (?T True True) (also_then (except_exception (also_then (await dd True RemoveContainer) (ret ())) (\<lambda>_. ret ()))
           (also_then (awaited_remove_network dd)
           (also_then (set_session (\<lambda>s. s\<lparr>ds_started := False\<rparr>)) (raise (Raised e))))) (?T True True) (\<lambda>_. ?E)"
      proof (rule yields_also [OF force], rule yields_also [OF net], rule yields_also [where R = "?T False False"])
        show "yields (?T False True) (set_session (\<lambda>s. s\<lparr>ds_started := False\<rparr>)) (?T False False) (\<lambda>_. ?E)"
          by (rule yields_set) (rule tidy_started)
      qed (auto intro!: yields_raise exI [of _ False])
    qed
    from yieldsD [OF this w] run Some show ?thesis by (simp add: awaited_setup_def)
  qed
qed

lemma start_tidy:
  assumes keeps: "daemon_keeps dd live nets stranded"
  shows "yields (\<lambda>w. \<exists>st. tidy live nets stranded st st Recorded w) (awaited_start dd)
    (\<lambda>w. \<exists>st. tidy live nets stranded st st Recorded w) (\<lambda>_ w. \<exists>st. tidy live nets stranded st st Recorded w)"
proof (rule yieldsI)
  let ?T = "\<lambda>held st. tidy live nets stranded held st Recorded" and ?E = "\<lambda>w. \<exists>st. tidy live nets stranded st st Recorded w"
  fix w r w' assume w: "?E w" and run: "awaited_start dd w = (r, w')"
  show "case r of Inr _ \<Rightarrow> ?E w' | Inl _ \<Rightarrow> ?E w'"
  proof (cases "ds_started (sw_session w)")
    case True
    with w run show ?thesis by (auto simp: awaited_start_def ret_def)
  next
    case False
    with w have new: "?T False False w" by (auto simp: tidy_def)
    have cleanup: "yields (?T False False) (also_then (awaited_remove_network dd) (raise (Raised e))) (?T True False) (\<lambda>_. ?E)" for e
      by (rule yields_also [where R = "?T False False"])
        (auto intro!: yields_raise yields_weaken [OF network_removal [OF keeps]] exI [of _ False] intro: tidy_weaken)
    have "yields (?T False False) (awaited_attempts dd DOCKER_INFRA_RETRY_BUDGET) (?T True False)
        (\<lambda>x. case x of Raised e \<Rightarrow> ?T False False | Cancelled \<Rightarrow> ?E)"
      by (rule yields_weaken [OF attempts_made [OF keeps]]) (auto split: stop.split intro!: exI [of _ False])
    note made = yields_except [OF this cleanup]
    have set: "yields (?T True False) (set_session (\<lambda>s. s\<lparr>ds_started := True\<rparr>)) (?T True True) (\<lambda>_. ?E)"
      by (rule yields_set) (rule tidy_started)
    have pin: "yields (?T True True) (awaited_best_effort dd command) (?T True True) (\<lambda>_. ?E)" for command
      by (rule yields_weaken [OF best_effort_tidy [OF keeps]]) (auto intro: exI [of _ True])
    have "yields (?T False False) (also_then (except_exception (awaited_attempts dd DOCKER_INFRA_RETRY_BUDGET)
                (\<lambda>e. also_then (awaited_remove_network dd) (raise (Raised e))))
          (also_then (set_session (\<lambda>s. s\<lparr>ds_started := True\<rparr>))
          (also_then (awaited_setup dd) (awaited_pins dd)))) (?T True True) (\<lambda>_. ?E)"
      unfolding awaited_pins_def
      by (rule yields_also [OF made yields_also [OF set yields_also [OF setup_tidy [OF keeps] yields_also [OF pin yields_also [OF pin pin]]]]])
    from yieldsD [OF this new] run False show ?thesis by (auto simp: awaited_start_def split: sum.splits)
  qed
qed

lemma close_container_tidy:
  assumes keeps: "daemon_keeps dd live nets stranded"
  shows "yields (\<lambda>w. \<exists>st. tidy live nets stranded st st Recorded w) (awaited_close_container dd)
    (tidy live nets stranded False False Recorded) (\<lambda>_ w. \<exists>st. tidy live nets stranded st st Recorded w)"
proof (rule yieldsI)
  let ?T = "\<lambda>held st. tidy live nets stranded held st Recorded" and ?E = "\<lambda>w. \<exists>st. tidy live nets stranded st st Recorded w"
  fix w r w' assume w: "?E w" and run: "awaited_close_container dd w = (r, w')"
  show "case r of Inr _ \<Rightarrow> ?T False False w' | Inl _ \<Rightarrow> ?E w'"
  proof (cases "ds_started (sw_session w)")
    case False
    with w run have "?T False False w" "w' = w" "r = Inr ()" by (auto simp: tidy_def awaited_close_container_def ret_def)
    then show ?thesis by simp
  next
    case True
    with w have started: "?T True True w" by (auto simp: tidy_def)
    let ?H = "\<lambda>e w. ?T True True w \<and> (docker_not_found e \<longrightarrow> ?T False True w)"
    have weak: "?T held True w \<Longrightarrow> ?T True True w" for held w by (rule tidy_weaken) auto
    have get: "yields (?T True True) (await dd False GetContainer) (?T True True)
        (\<lambda>x. case x of Raised e \<Rightarrow> ?H e | Cancelled \<Rightarrow> ?E)"
      by (rule yields_weaken [OF await_gets [OF keeps]]) (auto split: stop.split intro: weak exI [of _ True])
    have remove: "yields (?T True True) (also_then (await dd True RemoveContainer) (ret ())) (?T False True)
        (\<lambda>x. case x of Raised e \<Rightarrow> ?H e | Cancelled \<Rightarrow> ?E)"
      by (rule yields_weaken [OF yields_also [OF await_removes [OF keeps] yields_ret [of "?T False True" "?T False True"]]])
        (auto split: stop.split intro: weak exI [of _ True])
    have "yields (?H e) (if docker_not_found e then ret () else raise (Raised e)) (?T False True) (\<lambda>_. ?E)" for e
      by (auto intro!: yields_ret yields_raise intro: exI [of _ True])
    note suppressed = yields_except [OF yields_also [OF get remove] this]
    have "yields (?T False True) (set_session (\<lambda>s. s\<lparr>ds_started := False\<rparr>)) (?T False False) (\<lambda>_. ?E)"
      by (rule yields_set) (rule tidy_started)
    from yieldsD [OF yields_also [OF suppressed this] started] run True show ?thesis
      by (auto simp: awaited_close_container_def split: sum.splits)
  qed
qed

lemma close_tidy:
  assumes keeps: "daemon_keeps dd live nets stranded"
  shows "yields (\<lambda>w. \<exists>st. tidy live nets stranded st st Recorded w) (awaited_close dd)
    (tidy live nets stranded False False Dropped) (\<lambda>_ w. \<exists>st. tidy live nets stranded st st Dropped w)"
  unfolding awaited_close_def
proof (rule yields_finally [OF close_container_tidy [OF keeps]])
  show "yields (tidy live nets stranded False False Recorded) (awaited_remove_network dd)
      (tidy live nets stranded False False Dropped) (\<lambda>_ w. \<exists>st. tidy live nets stranded st st Dropped w)"
    by (rule yields_weaken [OF network_removal [OF keeps]]) auto
  have "yields (tidy live nets stranded st st Recorded) (awaited_remove_network dd)
      (\<lambda>w. \<exists>st. tidy live nets stranded st st Dropped w) (\<lambda>_ w. \<exists>st. tidy live nets stranded st st Dropped w)" for st
    by (rule yields_weaken [OF network_removal [OF keeps]]) auto
  then show "yields (\<lambda>w. \<exists>st. tidy live nets stranded st st Recorded w) (awaited_remove_network dd)
      (\<lambda>w. \<exists>st. tidy live nets stranded st st Dropped w) (\<lambda>_ w. \<exists>st. tidy live nets stranded st st Dropped w)"
    by (rule yields_ex)
qed

lemma run_tidy:
  assumes keeps: "daemon_keeps dd live nets stranded"
  shows "yields (tidy live nets stranded st st Recorded) (awaited_run dd command cwd timeout lossless)
    (tidy live nets stranded st st Recorded) (\<lambda>_ w. \<exists>st. tidy live nets stranded st st Recorded w)"
proof -
  let ?T = "\<lambda>held st. tidy live nets stranded held st Recorded" and ?E = "\<lambda>w. \<exists>st. tidy live nets stranded st st Recorded w"
  have get: "yields (?T st st) (await dd False GetContainer) (?T st st) (\<lambda>_. ?E)"
    by (rule yields_weaken [OF await_quiet [OF keeps]]) auto
  have pin: "yields (?T st st) (awaited_best_effort dd MTIME_RESET_COMMAND) (?T st st) (\<lambda>_. ?E)"
    by (rule yields_weaken [OF best_effort_tidy [OF keeps]]) auto
  have exec: "yields (?T st st) (seq (await dd timed (ExecJob x)) (\<lambda>r. ret (f r))) (?T st st)
      (\<lambda>x. case x of Raised e \<Rightarrow> ?T st st | Cancelled \<Rightarrow> ?E)" for timed x and f :: "exec_reply option \<Rightarrow> exec_result"
    by (rule yields_weaken [OF yields_seq [OF await_quiet [OF keeps] yields_ret [of "?T st st" "?T st st"]]]) (auto split: stop.split)
  have remove: "yields (?T st st) (await dd False RemoveContainer) (?T False st) (\<lambda>_. ?E)"
  proof (rule yields_weaken [OF await_removes [OF keeps]])
    show "?T False st w \<Longrightarrow> ?E w" for w by (rule exI [of _ st], rule tidy_weaken) auto
  qed auto
  have "yields (?T False st) (set_session (\<lambda>s. s\<lparr>ds_started := False\<rparr>)) (?T False False) (\<lambda>_. ?E)"
    by (rule yields_set) (rule tidy_started)
  note cleared = yields_also [OF remove yields_also [OF this yields_raise [of "?T False False"]]]
  have timeout: "yields (?T st st) (if e \<noteq> BareTimeout then raise (Raised e)
             else also_then (await dd False RemoveContainer)
                 (also_then (set_session (\<lambda>s. s\<lparr>ds_started := False\<rparr>)) (raise (Raised BareTimeout)))) (?T st st) (\<lambda>_. ?E)" for e
    using cleared by (auto intro!: yields_raise)
  have "yields (?T st st) (\<lambda>w. except_exception
        (seq (await dd (timeout \<noteq> None) (ExecJob (command_spec (sw_session w) command cwd timeout)))
          (\<lambda>r. ret (decoded lossless (case r of Some reply \<Rightarrow> reply | None \<Rightarrow> \<lparr>er_exit_code = None, er_stdout = None, er_stderr = None\<rparr>))))
        (\<lambda>e. if e \<noteq> BareTimeout then raise (Raised e)
             else also_then (await dd False RemoveContainer)
                 (also_then (set_session (\<lambda>s. s\<lparr>ds_started := False\<rparr>)) (raise (Raised BareTimeout)))) w) (?T st st) (\<lambda>_. ?E)"
    by (rule yields_by_state [where g = sw_session], rule yields_except [OF exec timeout])
  then show ?thesis unfolding awaited_run_def by (rule yields_also [OF get yields_also [OF pin]])
qed

section \<open>A client and the world\<close>

text \<open>What a client may do, each call with an arbitrary script of what happens while it awaits; between the calls
  the threads left behind go on.\<close>

inductive client_step :: "'d daemon \<Rightarrow> 'd shell_world \<Rightarrow> 'd shell_world \<Rightarrow> bool" for dd where
  Start: "awaited_start dd (w\<lparr>sw_script := es\<rparr>) = (r, w') \<Longrightarrow> client_step dd w w'"
| Run: "awaited_run dd command cwd timeout lossless (w\<lparr>sw_script := es\<rparr>) = (r, w') \<Longrightarrow> client_step dd w w'"
| Close: "awaited_close dd (w\<lparr>sw_script := es\<rparr>) = (r, w') \<Longrightarrow> client_step dd w w'"
| Setup: "set_setup_command cmd (sw_session w) = Inr s \<Longrightarrow> client_step dd w (w\<lparr>sw_session := s\<rparr>)"
| Thread: "client_step dd w (background_step dd n w)"

lemma tidy_script [simp]: "tidy live nets stranded held st h (w\<lparr>sw_script := es\<rparr>) = tidy live nets stranded held st h w"
  by (simp add: tidy_def bad_def)

lemma carries_script: "carries live nets stranded (w\<lparr>sw_script := es\<rparr>) w' \<longleftrightarrow> carries live nets stranded w w'"
  by (simp add: carries_def labelled_def)

lemma carries_session:
  "ds_name s = ds_name (sw_session w) \<Longrightarrow> ds_owner_pid s = ds_owner_pid (sw_session w) \<Longrightarrow>
     carries live nets stranded w (w\<lparr>sw_session := s\<rparr>)"
  by (simp add: carries_def labelled_def network_name_def owner_labels_def)

lemma set_session_carries:
  "(\<And>s. ds_name (f s) = ds_name s \<and> ds_owner_pid (f s) = ds_owner_pid s) \<Longrightarrow> steps (carries live nets stranded) (set_session f)"
  by (simp add: steps_def set_session_def carries_session)

lemma except_carries:
  "steps (carries live nets stranded) m \<Longrightarrow> (\<And>e. steps (carries live nets stranded) (h e)) \<Longrightarrow>
     steps (carries live nets stranded) (except_exception m h)"
  unfolding except_exception_def by (rule carried.frame_catch) (auto split: stop.split intro: carried.frame_ret)

lemma by_state_carries:
  "(\<And>v. steps (carries live nets stranded) (m v)) \<Longrightarrow> steps (carries live nets stranded) (\<lambda>w. m (g w) w)"
  by (simp add: steps_def)

lemma pause_carries:
  assumes "daemon_keeps dd live nets stranded"
  shows "steps (carries live nets stranded) (pause dd)"
proof (rule stepsI)
  fix w r w' assume run: "pause dd w = (r, w')"
  have "carries live nets stranded w w1 \<Longrightarrow> carries live nets stranded w (background_step dd n w1)" for w1 n
    by (erule carried.frame_trans) (rule background_carries [OF assms])
  from pause_rule [where I = "carries live nets stranded w", OF this _ carried.frame_refl run]
  show "carries live nets stranded w w'" by (auto simp: carries_def labelled_def)
qed

lemmas carries_intros = carried.frame_ret carried.frame_seq carried.frame_also_then carried.frame_finally except_carries set_session_carries
  await_carries pause_carries

lemma remove_network_cases: "awaited_remove_network dd = (\<lambda>w. (case ds_network_obj (sw_session w) of
        None \<Rightarrow> ret ()
      | Some n \<Rightarrow>
          also_then (set_session (\<lambda>s. s\<lparr>ds_network_obj := None\<rparr>))
            (except_exception (also_then (await dd True (RemoveNet n)) (ret ()))
              (\<lambda>e. if docker_error e then ret () else raise (Raised e)))) w)"
  by (auto simp: fun_eq_iff awaited_remove_network_def split: option.split)

lemma remove_network_carries:
  assumes "daemon_keeps dd live nets stranded"
  shows "steps (carries live nets stranded) (awaited_remove_network dd)"
  unfolding remove_network_cases by (rule by_state_carries [where g = "\<lambda>w. w"]) (auto intro!: carries_intros assms split: option.split)

lemma best_effort_carries:
  "daemon_keeps dd live nets stranded \<Longrightarrow> steps (carries live nets stranded) (awaited_best_effort dd command)"
  unfolding awaited_best_effort_def by (auto intro!: carries_intros simp: warn_once_def)

lemma attempts_carries:
  assumes "daemon_keeps dd live nets stranded"
  shows "steps (carries live nets stranded) (awaited_attempts dd n)"
  by (induction n) (auto intro!: carries_intros assms)

lemma required_carries:
  assumes "daemon_keeps dd live nets stranded"
  shows "steps (carries live nets stranded) (awaited_required dd command)"
  unfolding awaited_required_def [abs_def]
  by (rule by_state_carries [where g = "\<lambda>w. w"]) (auto intro!: carries_intros assms split: option.split)

lemma setup_carries:
  assumes "daemon_keeps dd live nets stranded"
  shows "steps (carries live nets stranded) (awaited_setup dd)"
  unfolding awaited_setup_def [abs_def]
  by (rule by_state_carries [where g = "\<lambda>w. w"])
    (auto intro!: carries_intros required_carries remove_network_carries assms split: option.split)

lemma operations_carry:
  assumes keeps: "daemon_keeps dd live nets stranded"
  shows "steps (carries live nets stranded) (awaited_start dd)"
    and "steps (carries live nets stranded) (awaited_run dd command cwd timeout lossless)"
    and "steps (carries live nets stranded) (awaited_close dd)"
proof -
  show "steps (carries live nets stranded) (awaited_start dd)"
    unfolding awaited_start_def [abs_def] awaited_pins_def
    by (rule by_state_carries [where g = "\<lambda>w. w"])
      (auto intro!: carries_intros setup_carries remove_network_carries attempts_carries best_effort_carries keeps)
  show "steps (carries live nets stranded) (awaited_run dd command cwd timeout lossless)"
    unfolding awaited_run_def
    by (intro carries_intros best_effort_carries keeps, rule by_state_carries [where g = "\<lambda>w. w"])
      (auto intro!: carries_intros keeps)
  have "steps (carries live nets stranded) (awaited_close_container dd)"
    unfolding awaited_close_container_def [abs_def]
    by (rule by_state_carries [where g = "\<lambda>w. w"]) (auto intro!: carries_intros keeps)
  then show "steps (carries live nets stranded) (awaited_close dd)"
    unfolding awaited_close_def by (intro carries_intros remove_network_carries keeps)
qed

text \<open>Only \<open>start\<close> awaits a thread that creates something.\<close>

interpretation lossless: act_frame "\<lambda>w w'. sw_lost w' = sw_lost w"
  by unfold_locales auto

lemma background_lost [simp]: "sw_lost (background_step dd n w) = sw_lost w"
  by (simp add: background_step_def split: prod.split sum.split)

lemma await_lossless:
  assumes "\<not> creates j"
  shows "steps (\<lambda>w w'. sw_lost w' = sw_lost w) (await dd timed j)"
proof (rule stepsI)
  fix w r w' assume run: "await dd timed j w = (r, w')"
  show "sw_lost w' = sw_lost w"
    by (rule await_rule [where I = "\<lambda>k v. k = j \<and> sw_lost v = sw_lost w" and Q = "\<lambda>_ v. sw_lost v = sw_lost w", OF _ _ _ _ _ _ run])
      (use assms in \<open>auto dest: job_step_rank\<close>)
qed

lemma except_lossless:
  "steps (\<lambda>w w'. sw_lost w' = sw_lost w) m \<Longrightarrow> (\<And>e. steps (\<lambda>w w'. sw_lost w' = sw_lost w) (h e)) \<Longrightarrow>
     steps (\<lambda>w w'. sw_lost w' = sw_lost w) (except_exception m h)"
  unfolding except_exception_def by (rule lossless.frame_catch) (auto split: stop.split intro: lossless.frame_ret)

lemma set_session_lossless: "steps (\<lambda>w w'. sw_lost w' = sw_lost w) (set_session f)"
  by (simp add: steps_def set_session_def)

lemmas lossless_intros = lossless.frame_ret lossless.frame_seq lossless.frame_also_then lossless.frame_finally except_lossless
  set_session_lossless await_lossless

lemma steps_by_state: "(\<And>v. steps R (m v)) \<Longrightarrow> steps R (\<lambda>w. m (g w) w)"
  by (simp add: steps_def)

lemma close_lossless: "awaited_close dd w = (r, w') \<Longrightarrow> sw_lost w' = sw_lost w"
proof -
  have "steps (\<lambda>w w'. sw_lost w' = sw_lost w) (awaited_close_container dd)"
    unfolding awaited_close_container_def [abs_def]
    by (rule steps_by_state [where g = "\<lambda>w. w"]) (auto intro!: lossless_intros)
  moreover have "steps (\<lambda>w w'. sw_lost w' = sw_lost w) (awaited_remove_network dd)"
    unfolding remove_network_cases
    by (rule steps_by_state [where g = "\<lambda>w. w"]) (auto intro!: lossless_intros split: option.split)
  ultimately have "steps (\<lambda>w w'. sw_lost w' = sw_lost w) (awaited_close dd)"
    unfolding awaited_close_def by (rule lossless.frame_finally)
  then show "awaited_close dd w = (r, w') \<Longrightarrow> sw_lost w' = sw_lost w" by (rule steps_run)
qed

section \<open>Nothing is lost track of\<close>

definition fresh_world :: "'d inventory \<Rightarrow> 'd inventory \<Rightarrow> 'd shell_world \<Rightarrow> bool" where
  "fresh_world live nets w \<longleftrightarrow>
     sw_threads w = [] \<and> \<not> sw_lost w \<and> \<not> ds_started (sw_session w) \<and> ds_network_obj (sw_session w) = None \<and>
     \<not> listed (ds_name (sw_session w)) (live (sw_daemon w)) \<and> \<not> listed (network_name (sw_session w)) (nets (sw_daemon w))"

lemma client_step_keeps:
  assumes keeps: "daemon_keeps dd live nets stranded" and step: "client_step dd w w'"
  shows "carries live nets stranded w w' \<and>
    ((\<exists>st. tidy live nets stranded st st Recorded w) \<longrightarrow> (\<exists>st. tidy live nets stranded st st Recorded w'))"
  using step
proof cases
  case (Start es r)
  from steps_run [OF operations_carry(1) [OF keeps] Start] yieldsD [OF start_tidy [OF keeps] _ Start] show ?thesis
    by (auto simp: carries_script split: sum.splits)
next
  case (Run command cwd timeout lossless es r)
  have "yields (\<lambda>w. \<exists>st. tidy live nets stranded st st Recorded w) (awaited_run dd command cwd timeout lossless)
      (\<lambda>w. \<exists>st. tidy live nets stranded st st Recorded w) (\<lambda>_ w. \<exists>st. tidy live nets stranded st st Recorded w)"
    by (rule yields_ex, rule yields_weaken [OF run_tidy [OF keeps]]) auto
  from steps_run [OF operations_carry(2) [OF keeps] Run] yieldsD [OF this _ Run] show ?thesis
    by (auto simp: carries_script split: sum.splits)
next
  case (Close es r)
  have weak: "tidy live nets stranded st st Dropped w' \<Longrightarrow> tidy live nets stranded st st Recorded w'" for st
    by (rule tidy_weaken) auto
  have "\<exists>st. tidy live nets stranded st st Recorded w'" if "\<exists>st. tidy live nets stranded st st Recorded w"
    using yieldsD [OF close_tidy [OF keeps] _ Close] that weak by (cases r) auto
  with steps_run [OF operations_carry(3) [OF keeps] Close] show ?thesis by (simp add: carries_script)
next
  case (Setup cmd s)
  then have s: "s = (sw_session w)\<lparr>ds_setup_command := cmd\<rparr>" by (auto simp: set_setup_command_def split: if_splits)
  then show ?thesis using Setup carries_session [of s w live nets stranded]
    by (auto simp: tidy_def bad_def network_name_def)
next
  case (Thread n)
  with background_carries [OF keeps] background_tidy [OF keeps] show ?thesis by blast
qed

lemma client_keeps:
  assumes keeps: "daemon_keeps dd live nets stranded"
  shows "(client_step dd)\<^sup>*\<^sup>* w w' \<Longrightarrow> carries live nets stranded w w' \<and>
    ((\<exists>st. tidy live nets stranded st st Recorded w) \<longrightarrow> (\<exists>st. tidy live nets stranded st st Recorded w'))"
proof (induction rule: rtranclp_induct)
  case base
  show ?case by (simp add: carried.frame_refl)
next
  case (step w1 w2)
  with client_step_keeps [OF keeps step(2)] carried.frame_trans show ?case by blast
qed

lemma fresh_tidy: "fresh_world live nets w \<Longrightarrow> tidy live nets stranded False False Recorded w \<and> labelled live nets w"
  by (auto simp: fresh_world_def tidy_def labelled_def listed_def)

text \<open>The sweep of an owner.\<close>

lemma truncate_calls [simp]:
  "dd_remove (daemon.truncate fd) = dd_remove fd" "dd_net_remove (daemon.truncate fd) = dd_net_remove fd"
  by (simp_all add: daemon.defs)

lemma containers_swept:
  assumes "daemon_keeps (daemon.truncate fd) live nets stranded"
  shows "sweep_containers fd cs n d = (Inr k, d') \<Longrightarrow>
    gentle live nets stranded d d' \<and> (stranded d' \<or> (\<forall>c \<in> set cs. \<not> listed c (live d')))"
proof (induction cs arbitrary: n d)
  case (Cons c cs)
  obtain r d1 where rm: "dd_remove fd c d = (r, d1)" by (rule prod.exhaust)
  then have gone: "gentle live nets stranded d d1" "\<not> listed c (live d1) \<or> stranded d1"
    using remove_law [OF assms, of c d r d1] by auto
  obtain m where more: "sweep_containers fd cs m d1 = (Inr k, d')"
    using Cons.prems rm by (auto split: sum.splits if_splits)
  note rest = Cons.IH [OF more]
  with gone have "gentle live nets stranded d d'" by (auto simp: gentle_def)
  moreover have "stranded d' \<or> \<not> listed c (live d')"
    using gone(2) rest listed_mono [of c "live d'" "live d1"] by (auto simp: gentle_def)
  ultimately show ?case using rest by auto
qed (simp add: gentle_refl)

lemma networks_swept:
  assumes "daemon_keeps (daemon.truncate fd) live nets stranded"
  shows "sweep_networks fd ns d = (Inr k, d') \<Longrightarrow>
    gentle live nets stranded d d' \<and> (stranded d' \<or> (\<forall>n \<in> set ns. \<not> listed n (nets d')))"
proof (induction ns arbitrary: d)
  case (Cons c cs)
  obtain r d1 where rm: "dd_net_remove fd c d = (r, d1)" by (rule prod.exhaust)
  then have gone: "gentle live nets stranded d d1" "\<not> listed c (nets d1) \<or> stranded d1"
    using net_remove_law [OF assms, of c d r d1] by auto
  have more: "sweep_networks fd cs d1 = (Inr k, d')"
    using Cons.prems rm by (auto split: sum.splits if_splits)
  note rest = Cons.IH [OF more]
  with gone have "gentle live nets stranded d d'" by (auto simp: gentle_def)
  moreover have "stranded d' \<or> \<not> listed c (nets d')"
    using gone(2) rest listed_mono [of c "nets d'" "nets d1"] by (auto simp: gentle_def)
  ultimately show ?case using rest by auto
qed (simp add: gentle_refl)

lemma owned_swept:
  assumes keeps: "daemon_keeps (daemon.truncate fd) live nets stranded" and lists: "listing_keeps fd live nets stranded"
    and run: "sweep_owned fd pid d = (Inr k, d')"
  shows "gentle live nets stranded d d' \<and> (stranded d' \<or>
    (\<forall>(c, ls) \<in> live d' \<union> nets d'. (SESSION_OWNER_PID_LABEL, nat_str pid) \<notin> set ls))"
proof -
  let ?l = "(SESSION_OWNER_PID_LABEL, nat_str pid)"
  obtain r1 d1 where l1: "dd_list fd ?l d = (r1, d1)" by (rule prod.exhaust)
  note law1 = list_law [OF lists l1]
  show ?thesis
  proof (cases r1)
    case (Inl e)
    with run l1 law1 show ?thesis by (auto simp: sweep_owned_def)
  next
    case (Inr cs)
    then obtain removed d2 where s2: "sweep_containers fd cs 0 d1 = (Inr removed, d2)"
      using run l1 by (auto simp: sweep_owned_def split: prod.splits sum.splits)
    note law2 = containers_swept [OF keeps s2]
    obtain r3 d3 where l3: "dd_net_list fd ?l d2 = (r3, d3)" by (rule prod.exhaust)
    note law3 = net_list_law [OF lists l3]
    have g3: "gentle live nets stranded d d3" using law1 law2 law3 by (auto simp: gentle_def)
    show ?thesis
    proof (cases r3)
      case (Inl e)
      with run l1 Inr s2 l3 law3 g3 show ?thesis by (auto simp: sweep_owned_def)
    next
      case net: (Inr ns)
      then have s4: "sweep_networks fd ns d3 = (Inr (), d')"
        using run l1 Inr s2 l3 by (auto simp: sweep_owned_def split: prod.splits sum.splits)
      note law4 = networks_swept [OF keeps s4]
      have g: "gentle live nets stranded d d'" using g3 law4 by (auto simp: gentle_def)
      have "?l \<notin> set ls" if "\<not> stranded d'" "(c, ls) \<in> live d'" for c ls
      proof
        assume l: "?l \<in> set ls"
        have sub: "live d' \<subseteq> live d2" "live d2 \<subseteq> live d1" "\<not> stranded d2"
          using law2 law3 law4 that(1) by (auto simp: gentle_def)
        with that(2) l law1 Inr have "c \<in> set cs" by auto
        with law2 sub that(2) show False by (auto simp: listed_def)
      qed
      moreover have "?l \<notin> set ls" if "\<not> stranded d'" "(c, ls) \<in> nets d'" for c ls
      proof
        assume l: "?l \<in> set ls"
        with that(2) law3 law4 net have "c \<in> set ns" by (auto simp: gentle_def)
        with law4 that show False by (auto simp: listed_def)
      qed
      ultimately show ?thesis using g by auto
    qed
  qed
qed

lemma owner_swept:
  assumes keeps: "daemon_keeps (daemon.truncate fd) live nets stranded" and lists: "listing_keeps fd live nets stranded"
    and labelled: "labelled live nets w" and "shared \<or> own_pid \<noteq> ds_owner_pid (sw_session w)"
    and run: "sweep_owner_resources fd shared own_pid (ds_owner_pid (sw_session w)) (sw_daemon w) = (Inr k, d')"
  shows "stranded d' \<or> \<not> listed (ds_name (sw_session w)) (live d') \<and> \<not> listed (network_name (sw_session w)) (nets d')"
proof -
  let ?pid = "ds_owner_pid (sw_session w)" and ?d = "sw_daemon w"
  have swept: "gentle live nets stranded ?d d' \<and> (stranded d' \<or>
      (\<forall>(c, ls) \<in> live d' \<union> nets d'. (SESSION_OWNER_PID_LABEL, nat_str ?pid) \<notin> set ls))"
  proof (cases shared)
    case True
    with run owned_swept [OF keeps lists] show ?thesis by (simp add: sweep_owner_resources_def)
  next
    case False
    obtain r1 d1 where c: "dd_connect fd ?d = (r1, d1)" by (rule prod.exhaust)
    note law = connect_law [OF lists c]
    show ?thesis
    proof (cases r1)
      case (Inl e)
      with run False assms(4) c law show ?thesis by (auto simp: sweep_owner_resources_def)
    next
      case (Inr u)
      then have "sweep_owned fd ?pid d1 = (Inr k, d')" using run False assms(4) c by (simp add: sweep_owner_resources_def)
      from owned_swept [OF keeps lists this] law show ?thesis by (auto simp: gentle_def)
    qed
  qed
  then have sub: "live d' \<subseteq> live ?d" "nets d' \<subseteq> nets ?d" by (simp_all add: gentle_def)
  have "(SESSION_OWNER_PID_LABEL, nat_str ?pid) \<in> set ls"
    if "(ds_name (sw_session w), ls) \<in> live d' \<or> (network_name (sw_session w), ls) \<in> nets d'" for ls
    using labelled that sub unfolding labelled_def owner_labels_def by auto
  with swept show ?thesis by (auto simp: listed_def)
qed

lemma session_accounted:
  assumes keeps: "daemon_keeps (daemon.truncate fd) live nets stranded" and lists: "listing_keeps fd live nets stranded"
    and fresh: "fresh_world live nets w0" and reach: "(client_step (daemon.truncate fd))\<^sup>*\<^sup>* w0 w"
  shows "(listed (ds_name (sw_session w0)) (live (sw_daemon w)) \<longrightarrow>
       ds_started (sw_session w) \<or> RemoveContainer \<in> set (sw_threads w) \<or> sw_lost w \<or> stranded (sw_daemon w)) \<and>
     (\<forall>es r w'. awaited_close (daemon.truncate fd) (w\<lparr>sw_script := es\<rparr>) = (r, w') \<longrightarrow>
       sw_lost w \<or> stranded (sw_daemon w') \<or>
       (listed (network_name (sw_session w0)) (nets (sw_daemon w')) \<longrightarrow> RemoveNet (network_name (sw_session w0)) \<in> set (sw_threads w')) \<and>
       (r = Inr () \<and> listed (ds_name (sw_session w0)) (live (sw_daemon w')) \<longrightarrow> RemoveContainer \<in> set (sw_threads w'))) \<and>
     (\<forall>shared own_pid k d'. (shared \<or> own_pid \<noteq> ds_owner_pid (sw_session w0)) \<and>
         sweep_owner_resources fd shared own_pid (ds_owner_pid (sw_session w0)) (sw_daemon w) = (Inr k, d') \<longrightarrow>
       stranded d' \<or> \<not> listed (ds_name (sw_session w0)) (live d') \<and> \<not> listed (network_name (sw_session w0)) (nets d'))"
    (is "?known \<and> ?closed \<and> ?swept")
proof (intro conjI)
  note kept = client_keeps [OF keeps reach]
  have carried: "carries live nets stranded w0 w" and labelled: "labelled live nets w"
    using kept fresh_tidy [OF fresh] by (auto simp: carries_def)
  have acc: "\<exists>st. tidy live nets stranded st st Recorded w" using kept fresh_tidy [OF fresh] by blast
  have names: "ds_name (sw_session w) = ds_name (sw_session w0)" "ds_owner_pid (sw_session w) = ds_owner_pid (sw_session w0)"
      "network_name (sw_session w) = network_name (sw_session w0)"
    using carried by (simp_all add: carries_def network_name_def)
  show ?known using acc names by (auto simp: tidy_def bad_def)
  show ?swept using owner_swept [OF keeps lists labelled] names by metis
  show ?closed
  proof (intro allI impI)
    fix es r w'
    assume run: "awaited_close (daemon.truncate fd) (w\<lparr>sw_script := es\<rparr>) = (r, w')"
    have post: "\<exists>st. (r = Inr () \<longrightarrow> \<not> st) \<and> tidy live nets stranded st st Dropped w'"
      using yieldsD [OF close_tidy [OF keeps] _ run] acc by (cases r) auto
    have "carries live nets stranded w w'"
      using steps_run [OF operations_carry(3) [OF keeps] run] by (simp add: carries_script)
    then have n': "ds_name (sw_session w') = ds_name (sw_session w0)" "network_name (sw_session w') = network_name (sw_session w0)"
      using names by (simp_all add: carries_def network_name_def)
    have "sw_lost w' = sw_lost w" using close_lossless [OF run] by simp
    with post n' show "sw_lost w \<or> stranded (sw_daemon w') \<or>
       (listed (network_name (sw_session w0)) (nets (sw_daemon w')) \<longrightarrow> RemoveNet (network_name (sw_session w0)) \<in> set (sw_threads w')) \<and>
       (r = Inr () \<and> listed (ds_name (sw_session w0)) (live (sw_daemon w')) \<longrightarrow> RemoveContainer \<in> set (sw_threads w'))"
      by (auto simp: tidy_def bad_def)
  qed
qed


text \<open>A daemon that keeps what it is asked to keep.\<close>

record sample_docker =
  sd_containers :: "(string \<times> (string, string) dict) list"
  sd_networks :: "(string \<times> (string, string) dict) list"

definition sample_daemon :: "sample_docker full_daemon" where
  "sample_daemon =
     \<lparr>dd_run = (\<lambda>cfg d. (Inr (), d\<lparr>sd_containers := (rc_name cfg, rc_labels cfg) # sd_containers d\<rparr>)),
      dd_pull = (\<lambda>_ d. (Inr (), d)),
      dd_get = (\<lambda>c d. (if c \<in> set (map fst (sd_containers d)) then Inr () else Inl (PlainExc (OtherError ''NotFound'' c)), d)),
      dd_exec = (\<lambda>_ _ d. (Inr \<lparr>er_exit_code = Some 0, er_stdout = Some ''hi'', er_stderr = None\<rparr>, d)),
      dd_remove = (\<lambda>c d. (Inr (), d\<lparr>sd_containers := filter (\<lambda>x. fst x \<noteq> c) (sd_containers d)\<rparr>)),
      dd_net_create = (\<lambda>n _ l d. (Inr (), d\<lparr>sd_networks := (n, l) # sd_networks d\<rparr>)),
      dd_net_remove = (\<lambda>n d. (Inr (), d\<lparr>sd_networks := filter (\<lambda>x. fst x \<noteq> n) (sd_networks d)\<rparr>)),
      dd_put_archive = (\<lambda>_ _ _ d. (Inr (), d)),
      dd_connect = (\<lambda>d. (Inr (), d)),
      dd_list = (\<lambda>l d. (Inr (map fst (filter (\<lambda>x. l \<in> set (snd x)) (sd_containers d))), d)),
      dd_net_list = (\<lambda>l d. (Inr (map fst (filter (\<lambda>x. l \<in> set (snd x)) (sd_networks d))), d))\<rparr>"

definition sample_shell :: shell_session where
  "sample_shell = new_session 7 ''a'' ''img'' (Some \<lparr>mn_subnet = ''10.0.0.0/24'', mn_ipv4_address = ''10.0.0.2''\<rparr>)
     [] [] ''swe_env'' (Some 2) None 600 None"

text \<open>Its start times out, then the thread left behind makes the network and the container.\<close>

definition sample_world :: "sample_docker shell_world" where
  "sample_world = \<lparr>sw_session = sample_shell, sw_daemon = \<lparr>sd_containers = [], sd_networks = []\<rparr>, sw_threads = [],
     sw_lost = False, sw_script = []\<rparr>"

definition timed_out_world :: "sample_docker shell_world" where
  "timed_out_world = snd (awaited_start (daemon.truncate sample_daemon) (sample_world\<lparr>sw_script := [TimeOut]\<rparr>))"

definition leaked_world :: "sample_docker shell_world" where
  "leaked_world = (background_step (daemon.truncate sample_daemon) 0 ^^ 3) timed_out_world"

lemma sample_daemon_keeps:
  "daemon_keeps (daemon.truncate sample_daemon) (\<lambda>d. set (sd_containers d)) (\<lambda>d. set (sd_networks d)) (\<lambda>_. False)"
  "listing_keeps sample_daemon (\<lambda>d. set (sd_containers d)) (\<lambda>d. set (sd_networks d)) (\<lambda>_. False)"
  by (force simp: daemon_keeps_def listing_keeps_def gentle_def listed_def sample_daemon_def daemon.defs split: if_splits)+

lemma leaked_reached: "(client_step (daemon.truncate sample_daemon))\<^sup>*\<^sup>* sample_world leaked_world"
proof -
  have "client_step (daemon.truncate sample_daemon) sample_world timed_out_world"
    unfolding timed_out_world_def by (rule client_step.Start [where es = "[TimeOut]"], rule prod.collapse [symmetric])
  then have "(client_step (daemon.truncate sample_daemon))\<^sup>*\<^sup>* sample_world timed_out_world" by (rule r_into_rtranclp)
  from rtranclp.rtrancl_into_rtrancl [OF rtranclp.rtrancl_into_rtrancl [OF rtranclp.rtrancl_into_rtrancl [OF this
      client_step.Thread [of _ _ 0]] client_step.Thread [of _ _ 0]] client_step.Thread [of _ _ 0]]
  show ?thesis by (simp add: leaked_world_def eval_nat_numeral)
qed

lemma timed_out_shape: "timed_out_world = sample_world\<lparr>sw_threads := [MakeNet], sw_lost := True\<rparr>"
  by (simp add: timed_out_world_def awaited_start_def sample_world_def sample_shell_def new_session_def DOCKER_INFRA_RETRY_BUDGET_def
      eval_nat_numeral except_exception_def catch_def also_then_def seq_def await_def raise_def awaited_remove_network_def ret_def)

lemma leaked_shape:
  "sw_session leaked_world = sample_shell\<lparr>ds_network_obj := Some ''swe_env_a_net''\<rparr>"
  "sw_daemon leaked_world = \<lparr>sd_containers = [(''swe_env_a'', owner_labels sample_shell)],
     sd_networks = [(''swe_env_a_net'', owner_labels sample_shell)]\<rparr>"
proof -
  let ?b = "background_step (daemon.truncate sample_daemon) 0" and ?l = "owner_labels sample_shell"
  have names: "ds_name sample_shell = ''swe_env_a''" "network_name sample_shell = ''swe_env_a_net''"
      "ds_network_obj sample_shell = None" "ds_network sample_shell = Some \<lparr>mn_subnet = ''10.0.0.0/24'', mn_ipv4_address = ''10.0.0.2''\<rparr>"
    by (simp_all add: sample_shell_def new_session_def network_name_def)
  have 1: "?b timed_out_world = timed_out_world\<lparr>sw_daemon := \<lparr>sd_containers = [], sd_networks = [(''swe_env_a_net'', ?l)]\<rparr>,
      sw_threads := [AssignNet]\<rparr>"
    by (simp add: timed_out_shape background_step_def sample_world_def names sample_daemon_def daemon.defs)
  have 2: "?b (?b timed_out_world) = timed_out_world\<lparr>sw_session := sample_shell\<lparr>ds_network_obj := Some ''swe_env_a_net''\<rparr>,
      sw_daemon := \<lparr>sd_containers = [], sd_networks = [(''swe_env_a_net'', ?l)]\<rparr>, sw_threads := [FirstRun]\<rparr>"
    unfolding 1 by (simp add: timed_out_shape background_step_def sample_world_def names)
  have 3: "?b (?b (?b timed_out_world)) = timed_out_world\<lparr>sw_session := sample_shell\<lparr>ds_network_obj := Some ''swe_env_a_net''\<rparr>,
      sw_daemon := \<lparr>sd_containers = [(''swe_env_a'', ?l)], sd_networks = [(''swe_env_a_net'', ?l)]\<rparr>, sw_threads := []\<rparr>"
    unfolding 2 by (simp add: timed_out_shape background_step_def sample_world_def names sample_daemon_def daemon.defs run_kwargs_def)
  show "sw_session leaked_world = sample_shell\<lparr>ds_network_obj := Some ''swe_env_a_net''\<rparr>"
    and "sw_daemon leaked_world = \<lparr>sd_containers = [(''swe_env_a'', ?l)], sd_networks = [(''swe_env_a_net'', ?l)]\<rparr>"
    using 3 by (simp_all add: leaked_world_def eval_nat_numeral)
qed


end
