(* ===== verification/Spec2Isabelle.thy ===== *)
theory Spec2Isabelle
  imports Trainer Launch Startup ChainAudit TerminalBench Evaluate AgentTurn Concurrency Residual UvMirror Instrumented
    SqlitePool Dataset Shell
begin

text \<open>
  A model of the harness-training program: an outer loop that improves the editable agent harness
  (\<open>src/policy/core.py\<close>) of a coding agent by proposing commits, measuring them on a panel of tasks and
  promoting those a solved-set criterion selects. All paths are below \<open>src/\<close> of the repository.

  \<^bold>\<open>The program and its parts.\<close> A training session (\<open>trainer/trainer.py\<close>) keeps a baseline run in the run
  store (\<open>rollout/store.py\<close>) and repeats epochs: an agent proposes a commit in a scratch worktree
  (\<open>trainer/parameter.py\<close>, \<open>trainer/estimator.py\<close>, \<open>llm/agent_backend.py\<close>), the commit is validated and
  measured in a process of its own (\<open>measurement.py\<close>, \<open>worker.py\<close>), the criterion (\<open>trainer/loss.py\<close>)
  compares it with the baseline, and the optimizer fast-forwards (\<open>trainer/optim.py\<close>). A measurement fans
  out one rollout per task (\<open>rollout/sampler.py\<close>, \<open>concurrency.py\<close>); a rollout is the episode loop
  (\<open>rollout/episode.py\<close>) between the editable policy, its model (\<open>llm/\<close>, cached by \<open>plugins/caching/\<close>) and a
  task environment in a container (\<open>env/\<close>), whose steps may be replayed from earlier runs
  (\<open>plugins/replay/\<close>). Everything rests on observations being a function of the actions, up to what
  \<open>determinism.py\<close> masks.

  \<^bold>\<open>Theories, in the order they build on each other.\<close>

  \<^item> \<open>Prelude\<close>: exceptions as values, the result type \<open>exc + 'a\<close> and its sequencing, dictionaries in
    insertion order, decimal printing, strings; the collections \<open>res_simps\<close> and \<open>dict_simps\<close>.
  \<^item> \<open>Effects\<close>: actions (a result and the state they leave, on error paths too), \<open>finally\<close>, \<open>catch\<close>; the
    traced world with git, files and processes answered by an oracle; the locales \<open>act_frame\<close> and
    \<open>call_frame\<close> for what every action of a kind keeps; \<open>act_simps\<close>, \<open>act_inv\<close>, \<open>raises_intros\<close>,
    \<open>emits_intros\<close>.
  \<^item> \<open>Json\<close>, \<open>JsonRead\<close>: JSON values, the text \<open>json.dumps\<close> writes with sorted keys, that it determines the
    value, and a reader that inverts it (the concrete instance of \<open>json.loads\<close> in witnesses).
  \<^item> \<open>Records\<close> (\<open>rollout/records.py\<close>), \<open>Metrics\<close> (\<open>rollout/metrics.py\<close> and the metric of \<open>env/swe.py\<close>; the locale
    \<open>symmetric_metric\<close> with an interpretation for each metric), \<open>Loss\<close> (\<open>trainer/loss.py\<close>; the locale
    \<open>criterion_contract\<close>, interpreted by \<open>strict_pareto\<close>), \<open>Store\<close> (\<open>rollout/store.py\<close>; the locale
    \<open>run_ledger\<close>, interpreted by the store's own operations).
  \<^item> \<open>Parameter\<close> (\<open>trainer/parameter.py\<close>, \<open>trainer/optim.py\<close>), \<open>Trainer\<close> (\<open>trainer/trainer.py\<close>): the session
    is the traced world with the store, the mutable fields of the harness and the epoch log.
  \<^item> \<open>EnvBase\<close> (\<open>env/base.py\<close>), \<open>Telemetry\<close> and \<open>Instrumented\<close> (\<open>rollout/telemetry.py\<close>), \<open>Config\<close> (\<open>config.py\<close>),
    \<open>Certify\<close> (\<open>rollout/certification.py\<close> and the pipeline of \<open>determinism.py\<close>), \<open>Scrub\<close>, \<open>Regex\<close>,
    \<open>Residual\<close> (the scrubber: its structural part, the regular expressions, the whole rule table).
  \<^item> \<open>Episode\<close>, \<open>Runner\<close> (\<open>rollout/episode.py\<close>), \<open>Execution\<close> (\<open>rollout/execution.py\<close>), \<open>Sampler\<close>
    (\<open>rollout/sampler.py\<close>), \<open>Concurrency\<close> (\<open>concurrency.py\<close>, an inductive step relation).
  \<^item> \<open>Backend\<close> (\<open>llm/backend.py\<close>, \<open>transport.py\<close>, \<open>token_counter.py\<close>, \<open>openai_completion_backend.py\<close>),
    \<open>Policy\<close> and \<open>Agent\<close> (\<open>policy/core.py\<close>: actions, parser, rendering, window; the agent itself).
  \<^item> \<open>Cache\<close> (\<open>plugins/caching/\<close>; the locale \<open>row_store\<close>: what a client of the fail-open store relies on) and
    \<open>SqlitePool\<close> (the pool of connections below it, a second interpretation of the locale, and its
    refinement to the store of \<open>Cache\<close>).
  \<^item> \<open>Recording\<close>, \<open>Replay\<close> (\<open>plugins/replay/\<close>: which steps may be recorded, keys and epochs, the step cache;
    the locale \<open>step_executor\<close>, interpreted by the live executor and by the replay cache),
    \<open>ChainAudit\<close> (\<open>audit.py\<close>, the certification of a baseline).
  \<^item> \<open>Bytes\<close>, \<open>Docker\<close> (\<open>env/docker_shell.py\<close> over a daemon with a state of its own, as it runs when every await
    completes), \<open>Shell\<close> (the session again with each await interruptible and the threads that outlive it, and that
    without interruptions its operations are those of \<open>Docker\<close>), \<open>Grading\<close>
    (\<open>env/swebench_verify.py\<close>, \<open>verify_cache.py\<close>, the verification of \<open>env/swe.py\<close>), \<open>TerminalBench\<close>
    (\<open>env/terminal_bench.py\<close>, \<open>env/netcache/__init__.py\<close>), \<open>Dataset\<close> (where tasks come from),
    \<open>HttpsCache\<close> and \<open>UvMirror\<close> (the two proxies of \<open>env/netcache/\<close>).
  \<^item> \<open>Measurement\<close> (\<open>measurement.py\<close>, \<open>worker.py\<close>), \<open>Launch\<close> (the measurement process from its command line to
    its exit, as its parent sees it), \<open>Startup\<close> (the construction of a session, the probe of the model
    endpoint), \<open>AgentTurn\<close> (\<open>llm/agent_backend.py\<close>, \<open>trainer/estimator.py\<close>), \<open>Logger\<close> (\<open>trainer/logger.py\<close>),
    \<open>Evaluate\<close> (\<open>scripts/evaluate.py\<close>).
  \<^item> This theory puts the parts together: a session whose measurements run in processes of their own
    (\<open>Trainer\<close> over \<open>Measurement\<close>), and the verdict of the parent on an honest worker (\<open>Measurement\<close> over
    \<open>Launch\<close>, \<open>Sampler\<close>, \<open>Store\<close> and \<open>Config\<close>).

  A definition has the name of the function it translates; where two modules use one name, or HOL has
  it, a prefix of the component is added. A record has the fields of its class behind a two-letter
  prefix. Guards, early returns and the order of effects are those of the code.

  \<^bold>\<open>Conventions.\<close> A raised exception is \<open>Inl\<close> of its value; classes that handlers tell apart are
  constructors (\<open>exc\<close>, \<open>rexc\<close>, \<open>llm_exc\<close>, \<open>candidate_error\<close> and so on). Python integers are \<open>int\<close> or \<open>nat\<close>,
  floats are exact rationals (a constructor of its own where the code uses infinity), a datetime is a
  number of microseconds. Text is a list of characters, code points below 256; larger characters appear
  as their UTF-8 bytes where the code only moves them. A dict is an association list in insertion
  order, a set whose order the code does not use a set. \<open>sha\<close> is SHA-256 in hexadecimal, \<open>fr\<close> is \<open>repr\<close> of a
  float, \<open>loads\<close> and \<open>dumps\<close> are \<open>json\<close>'s; all are parameters, and what is relied on is a named hypothesis
  (\<open>float_repr_ok\<close>, \<open>loads_inverts\<close>, injectivity of \<open>sha\<close> on the texts at hand) with an instance in the witness.
  Clocks, processes, the docker daemon, the OpenAI client, pydantic, the tokenizer, git, the network and
  the file system are parameters that answer arbitrarily; the Python standard library, SQLite's
  transactions and the regular expression engine are modelled as far as the code uses them.

  \<^bold>\<open>What is shown.\<close>

  \<^item> Training (C1--C12): a selected candidate improves on the baseline and regresses nothing it should
    not; a promotion rests on the trusted parent's evidence, whatever the candidate's process does, as long
    as the repository's HEAD moves by the commands given in it only; the verdict does not depend on how infrastructure failures are counted, and is refused exactly when it
    would; the skip streak, the funnel, the conclusion and the decision the store records; the store serves
    the latest baseline when runs are recorded once and afterwards only saved again, as a certification does; the harness is left alone by every other epoch; worktrees are always removed; what
    makes a candidate valid.
  \<^item> One rollout (C13--C18, C21): the loop ends, within its step budget; only a drift escapes the
    classifier; the result reports the episode; digests identify transitions and measurements; the trace
    is what the model was asked and said, whatever the policy announces; process ids do not reach the
    scrubbed text.
  \<^item> Configuration and sampling (C19, C20, C22): a session starts only on a sound configuration out of the
    candidates' reach, panels keep a configuration valid, a rollout is attempted at most three times.
  \<^item> Model and agent (C23--C26): every completion failure is typed, the reasoning budget is enforced, the
    decision of the agent is an action or one of two failures, replayed calls parse back.
  \<^item> Caches and replay (C27--C33): the pool refines the store, the completion cache is transparent whatever
    text its rows hold, and so is the verify cache, what a replay grades was observed, a replay refines the live execution, an audited
    panel reproduces. C28 shows a flaw: a put that gives up on the lock wedges its worker's connection.
  \<^item> Infrastructure (C34--C40): a container session never loses track of what it created unless its start is
    interrupted, and the owner's sweep finds the rest; a measurement is accepted on evidence only, whatever
    record, error or interruption ends it, the parent's verdict follows an honest worker, the archive of the pinned library is read
    back, overlapping evaluations are collected, the first response of the network freeze stays and what keeps
    it from being served is told, tasks are admitted in turn.

  The component theories hold further lemmas, among them the round trips of JSON and of the recorded
  step, the equivalence of the regular expression matcher with a relational semantics, that printed
  history stays, that the pinned library and the pinned dataset are what is used, that identifiers of
  experiments are fresh, which probes make an agent count as ready, and that the scrubber is not
  idempotent: a bare process id before a carriage return is masked by the second pass only
  (\<open>carriage_return_defeats_scrub\<close>). The replay refinement (C31) therefore asks of the results a rollout
  observes, not of every text, that a second scrub changes nothing; its instance below runs with the
  scrubber's own table.

  \<^bold>\<open>Fuel and bounds.\<close> The episode loop takes fuel, running out is an error of its own, and \<open>episode_ends\<close> shows
  that the step budget is enough. The sampler's retry loop needs at most three attempts, the
  transport five retries, both shown. \<open>run_next\<close> of the evaluation takes the number of runs, each turn
  starts one. \<open>reserve_name\<close> takes one turn more than there are taken names. Repetition in the matcher is
  bounded by the remaining text, which is enough since every repetition of the table consumes, shown in
  \<open>Residual\<close>. \<open>read_json\<close> takes the length of the text. The scan of an ar archive may not return: it is a
  partial function, and returns on every well-formed archive (\<open>ar_roundtrip\<close>).

  \<^bold>\<open>Not modelled, and why.\<close> Pydantic's coercion of field types and its error texts, YAML, TOML, tar and URL
  downloads (libraries, parameters where their result matters). Console and log set-up, the exit hooks'
  registration, the HTTP server loop of the mirror and the thread pools (they only schedule what is
  modelled; a component whose threads share state is modelled at its atomic steps). Writes to the store
  are whole values: the write-then-rename of a file is one step. The protocol classes of
  \<open>policy/base.py\<close> have no behaviour and are modelled by their users. \<open>scripts/train.py\<close> and
  \<open>examples/quickstart.py\<close> wire components together. A commit that fails after its insert succeeded, a
  terminal line that wraps, and text above U+00FF in the scrubber's character classes are outside the
  model. So are, in the parts modelled: the thirty seconds the parent gives a worker to exit after its last
  event (its exit code is seen), a recursion error of \<open>json.loads\<close> on deeply nested tool arguments, a failing
  archive of the trace between two attempts of a rollout, the difference of integer and float in JSON numbers,
  and a policy event whose error is no string. One task at a time uses a container session.
\<close>

section \<open>A session over isolated measurements\<close>

text \<open>\<open>_epoch\<close> and \<open>_measure\<close> call \<open>run_isolated_experiment\<close>: \<open>spawn\<close> is the worker process that call starts, in
  the state of that moment. A panel mismatch is a plain \<open>RuntimeError\<close>, so it is not retried.\<close>

fun measurement_failure :: "measurement_exc \<Rightarrow> train_error" where
  "measurement_failure (Measurement.MeasurementError m r) = Trainer.MeasurementError m r"
| "measurement_failure (PanelMismatch m) = TrainExc (RuntimeError m)"
| "measurement_failure (SupervisionError e) = TrainExc e"
| "measurement_failure SupervisionInterrupted = TrainExc (OtherError ''KeyboardInterrupt'' [])"

type_synonym spawned = "call list \<Rightarrow> run_store \<Rightarrow> string \<Rightarrow> string list \<Rightarrow> worker_run"

definition isolated_measure ::
    "(string \<Rightarrow> string + json) \<Rightarrow> (call list \<Rightarrow> rat) \<Rightarrow> spawned \<Rightarrow> call list \<Rightarrow> run_store \<Rightarrow> string \<Rightarrow>
       string list \<Rightarrow> (train_error + experiment_result) \<times> run_store" where
  "isolated_measure loads clock spawn tr st path task_ids =
     (case run_isolated_experiment loads task_ids (clock tr) (spawn tr st path task_ids) of
        (r, st', _) \<Rightarrow> (map_sum measurement_failure id r, st'))"

lemma isolated_result:
  assumes "run_isolated_experiment loads task_ids now wk = (Inr e, st, s)"
  shows "wk_exitcode wk = 0 \<and> (\<exists>i. trusted_record (wk_store wk) task_ids i e)"
proof -
  obtain killed s0 where "judge_worker task_ids wk killed s0 = (Inr e, st, s)"
    using assms by (auto simp: run_isolated_experiment_def split: option.splits loop_end.splits)
  then show ?thesis using judge_worker_result [of task_ids wk killed s0 e] by blast
qed

lemma isolated_measure_result:
  assumes "te_measure env = isolated_measure loads clock spawn" and "measured_result env task_ids e"
  shows "\<exists>tr st path i. wk_exitcode (spawn tr st path task_ids) = 0 \<and>
    trusted_record (wk_store (spawn tr st path task_ids)) task_ids i e"
proof -
  obtain tr st path st' where "isolated_measure loads clock spawn tr st path task_ids = (Inr e, st')"
    using assms by (auto simp: measured_result_def)
  then obtain s where
    "run_isolated_experiment loads task_ids (clock tr) (spawn tr st path task_ids) = (Inr e, st', s)"
    by (auto simp: isolated_measure_def map_sum_def split: prod.splits sum.splits)
  then show ?thesis using isolated_result by blast
qed

text \<open>
  C2. A promotion rests on the trusted parent's evidence, whatever code the candidate's worker runs. In
  a session that measures in isolation and judges with the solved-set criterion, a run an epoch records
  is the stored record of a worker that was spawned for this panel and exited cleanly; the record is
  finished, not crashed and covers exactly the requested tasks, and its commit is the candidate's. It
  becomes the new baseline exactly if its loss selects it, and then every requested task the old
  baseline solved it solves too.

  The epoch starts with the repository's HEAD at its base commit, where the session reads it, and its candidate is
  another commit, a child of it by the validation. Of git it is assumed that HEAD does not move by anything but the
  commands given in the repository itself, of those neither by reading it nor by managing worktrees, which
  live in directories of their own; so the program's own merge may move it, and no other process does.
\<close>

theorem promotion_rests_on_evidence:
  assumes "te_judge env = strict_pareto ms True"
    and "te_measure env = isolated_measure loads clock spawn"
    and "judge_epoch env (train_body env) base_commit baseline task_ids path cand s = (Inr (None, Some e), s')"
    and "head_follows_merges (te_tools env) (te_repo env)"
    and "or_git (te_tools env) (wd_trace s) (te_repo env) [''rev-parse'', ''HEAD''] = Inr base_commit"
    and "ca_commit cand \<noteq> base_commit"
    and "\<And>nm c. worktree_path (te_worktrees_root env) nm c \<noteq> te_repo env"
  shows "\<exists>wk i measured l. (\<exists>tr st p. wk = spawn tr st p task_ids) \<and> wk_exitcode wk = 0 \<and>
    trusted_record (wk_store wk) task_ids i measured \<and> strict_pareto ms True measured baseline = Inr l \<and>
    ex_tasks e = ex_tasks measured \<and> panel_of e = set task_ids \<and> ex_git_commit_hash e = ca_commit cand \<and>
    (ex_kind e = Some KindBaseline \<longleftrightarrow> selects (ls_value l)) \<and>
    (ex_kind e = Some KindBaseline \<longrightarrow> solved_task_ids baseline \<inter> set task_ids \<subseteq> solved_task_ids e)"
proof -
  obtain measured l where j: "strict_pareto ms True measured baseline = Inr l"
    and m: "measured_result env task_ids measured"
    and e: "ex_tasks e = ex_tasks measured" "ex_git_commit_hash e = ca_commit cand"
      "ex_kind e = Some KindBaseline \<longleftrightarrow> selects (ls_value l)"
      "ex_kind e = Some KindBaseline \<longrightarrow> solved_task_ids baseline \<inter> panel_of e \<subseteq> solved_task_ids e"
    using promotion_earned [OF assms(1,3-7)] by blast
  obtain tr st p i where wk: "wk_exitcode (spawn tr st p task_ids) = 0"
      "trusted_record (wk_store (spawn tr st p task_ids)) task_ids i measured"
    using isolated_measure_result [OF assms(2) m] by blast
  have "panel_of e = set task_ids"
    using wk(2) e(1) by (simp add: trusted_record_def panel_of_def)
  then show ?thesis using j e wk by (intro exI conjI) auto
qed

text \<open>A worker that reports its run and leaves its finished record.\<close>

definition sample_measured :: experiment_result where
  "sample_measured = sample_run ''r2'' ''c1'' [(''t'', Solved)]"

definition clean_worker :: spawned where
  "clean_worker _ st _ _ = \<lparr>wk_spawn = None, wk_rounds = polls sample_repr [(ObsStarted ''r2'', 3)],
     wk_rest = [], wk_exitcode = 0, wk_store = save_experiment st sample_measured, wk_now = 5\<rparr>"

lemma clean_worker_measures:
  "isolated_measure (rk_loads sample_replay_kit) (\<lambda>_. 0) clean_worker tr st path [''t''] =
     (Inr sample_measured, save_experiment st sample_measured)"
proof -
  obtain s0 where s0: "supervise (rk_loads sample_replay_kit) (polls sample_repr [(ObsStarted ''r2'', 3)]) []
      (start_supervisor 0) = LoopDone False s0" "su_reported s0 = Some ''r2''"
    using events_observed [OF sample_kit_ok(1), of "[(ObsStarted ''r2'', 3)]" "[]" 0]
    by (auto simp: sample_replay_kit_def last_started_def)
  have "experiment_ok sample_measured"
    by (simp add: sample_measured_def experiment_ok_iff sample_run_def rollout_ok_def sample_rollout_def)
  moreover have "as_parsed sample_measured = sample_measured" "ex_experiment_id sample_measured = ''r2''"
    by (simp_all add: sample_measured_def as_parsed_def sample_run_def parsed_rollout_def sample_rollout_def)
  ultimately have "load_experiment (save_experiment st sample_measured) ''r2'' = Inr sample_measured"
    using load_saved [of st sample_measured] validate_experiment_Inr by simp
  then show ?thesis
    using s0
    by (simp add: isolated_measure_def clean_worker_def run_isolated_experiment_def judge_worker_def)
      (simp add: sample_measured_def sample_run_def)
qed

text \<open>A git whose HEAD starts at \<open>b0\<close> and follows the merges made in the repository \<open>r\<close>.\<close>

fun merged_head :: "string \<Rightarrow> call list \<Rightarrow> string" where
  "merged_head h [] = h"
| "merged_head h (Git dir args # t) =
     merged_head (if dir = ''r'' \<and> take 2 args = [''merge'', ''--ff-only''] then last args else h) t"
| "merged_head h (_ # t) = merged_head h t"

definition merging_git :: "call list \<Rightarrow> string \<Rightarrow> string list \<Rightarrow> exc + string" where
  "merging_git t dir args = (if dir = ''r'' \<and> args = [''rev-parse'', ''HEAD''] then Inr (merged_head ''b0'' t) else Inr [])"

definition isolated_env :: trainer_env where
  "isolated_env = sample_env\<lparr>te_tools := (sample_tools (\<lambda>_. []))\<lparr>or_git := merging_git\<rparr>,
     te_measure := isolated_measure (rk_loads sample_replay_kit) (\<lambda>_. 0) clean_worker\<rparr>"

lemma merged_head_quiet: "quiet_call ''r'' c \<Longrightarrow> merged_head h (t @ [c]) = merged_head h t"
proof (induction t arbitrary: h)
  case Nil
  then show ?case by (cases c) (auto simp: numeral_2_eq_2)
next
  case (Cons b t)
  then show ?case by (cases b) simp_all
qed

lemma merging_git_follows: "head_follows_merges (te_tools isolated_env) (te_repo isolated_env)"
  by (simp add: head_follows_merges_def isolated_env_def sample_env_def merging_git_def merged_head_quiet)

lemma isolated_epoch_runs:
  "\<exists>e s'. judge_epoch isolated_env (train_body isolated_env) ''b0'' sample_old [''t''] ''p''
     sample_candidate sample_session = (Inr (None, Some e), s') \<and> ex_kind e = Some KindBaseline"
proof -
  obtain l where l: "strict_pareto [] True sample_measured sample_old = Inr l"
     "selects (ls_value l)" "ls_bound l" "ls_candidate l = sample_measured"
    using sample_judged unfolding sample_measured_def by blast
  show ?thesis
    unfolding judge_epoch_def measure_candidate_def attempt_judged_def judge_attempt_def
    using l [unfolded sample_measured_def] clean_worker_measures [unfolded sample_measured_def]
    by (simp add: isolated_env_def sample_run_def sample_env_def sample_candidate_def sample_session_def scratch_worktree_def Let_def
      act_simps git_def fs_def proc_def sample_tools_def merging_git_def worktree_setup_def worktree_teardown_def
      worktree_remove_def worktree_prune_def run_measurement_def note_call_def clear_harness_def
      train_body_def loss_backward_def optimizer_step_def should_promote_def conclude_def no_harness_def
      conclude_guards_def criterion_decision_def loss_promoted_def Trainer.record_run_def
      record_finalized_run_def index_row_def finalize_def diagnose_def decision_from_report_def)
qed

theorem promotion_rests_on_evidence_witness:
  "\<exists>e s' (wk :: worker_run). judge_epoch isolated_env (train_body isolated_env) ''b0'' sample_old [''t''] ''p''
     sample_candidate sample_session = (Inr (None, Some e), s') \<and> ex_kind e = Some KindBaseline \<and>
     wk_exitcode wk = 0 \<and> panel_of e = {''t''} \<and> ex_git_commit_hash e = ''c1''"
proof -
  obtain e s' where run: "judge_epoch isolated_env (train_body isolated_env) ''b0'' sample_old [''t''] ''p''
     sample_candidate sample_session = (Inr (None, Some e), s')" "ex_kind e = Some KindBaseline"
    using isolated_epoch_runs by blast
  have j: "te_judge isolated_env = strict_pareto [] True"
    and m: "te_measure isolated_env = isolated_measure (rk_loads sample_replay_kit) (\<lambda>_. 0) clean_worker"
    by (simp_all add: isolated_env_def sample_env_def)
  have h: "or_git (te_tools isolated_env) (wd_trace sample_session) (te_repo isolated_env) [''rev-parse'', ''HEAD''] = Inr ''b0''"
    and c: "ca_commit sample_candidate \<noteq> ''b0''"
    by (simp_all add: isolated_env_def sample_env_def merging_git_def sample_candidate_def sample_session_def)
  have w: "worktree_path (te_worktrees_root isolated_env) nm c \<noteq> te_repo isolated_env" for nm c
    by (simp add: isolated_env_def sample_env_def worktree_path_def)
  from promotion_rests_on_evidence [OF j m run(1) merging_git_follows h c w] obtain wk :: worker_run where
    "wk_exitcode wk = 0" "panel_of e = set [''t'']" "ex_git_commit_hash e = ca_commit sample_candidate"
    by (elim exE conjE) (rule that, assumption+)
  then have wk: "wk_exitcode wk = 0" "panel_of e = {''t''}" "ex_git_commit_hash e = ''c1''"
    by (simp_all add: sample_candidate_def)
  show ?thesis by (rule exI [of _ e], rule exI [of _ s'], rule exI [of _ wk], intro conjI) (fact run wk)+
qed

section \<open>The parent's verdict follows an honest worker\<close>

text \<open>
  C36. The parent's verdict follows the worker. A worker that runs the code of \<open>src/worker.py\<close> from the
  command line the parent wrote, whose events reach the parent in order, between heartbeats and log
  lines and never silent beyond the watchdog, is judged by what happened: if every task of the panel
  finishes, in any order, the parent returns exactly the run the worker stored, with each rollout, the
  commit of the checkout and the identity of the panel; if a task raises, the parent reports a failed
  measurement with the run the worker marked as crashed by that error. Nothing else reaches the observer.
\<close>

theorem honest_measurement_accepted:
  assumes "loads_inverts k" and "healthy_start ww path c task_ids i"
    and "ww_fingerprint ww (panel_config task_ids c) = Inr regime"
    and "sampled_rollouts ww (panel_config task_ids c) task_ids rs failing"
    and xe: "xe = worker_main (rk_loads k) ww (worker_argv (rk_fr k) exe path exp_root fd task_ids i) st"
    and heard: "heard_from t live late xe"
  shows "(failing = [] \<and> set (map rr_task_id rs) = set task_ids \<longrightarrow>
      (\<exists>e s. xe_result xe = Inr e \<and>
        run_isolated_experiment (rk_loads k) task_ids t (parent_view (rk_fr k) live late xe now) =
          (Inr (as_parsed e), xe_store xe, s) \<and>
        su_seen s = told live @ late \<and> holds_rollouts e rs \<and> ex_git_commit_hash e = co_head (ww_checkout ww) \<and>
        ex_measurement_identity e =
          resolve_measurement_identity (ww_sha ww) (ww_fr ww) (ww_override ww) (panel_config task_ids c) regime)) \<and>
    (\<forall>x rest. failing = Inl x # rest \<longrightarrow>
      (\<exists>m e s. run_isolated_experiment (rk_loads k) task_ids t (parent_view (rk_fr k) live late xe now) =
          (Inl (Measurement.MeasurementError m (Some e)), xe_store xe, s) \<and>
        su_seen s = told live @ late \<and> ex_crash_reason e = Some (error_text (to_exc x)) \<and> holds_rollouts e rs))"
proof (intro conjI allI impI)
  assume "failing = [] \<and> set (map rr_task_id rs) = set task_ids"
  then have "failing = []" "set (map rr_task_id rs) = set task_ids" by simp_all
  then show "\<exists>e s. xe_result xe = Inr e \<and>
        run_isolated_experiment (rk_loads k) task_ids t (parent_view (rk_fr k) live late xe now) =
          (Inr (as_parsed e), xe_store xe, s) \<and>
        su_seen s = told live @ late \<and> holds_rollouts e rs \<and> ex_git_commit_hash e = co_head (ww_checkout ww) \<and>
        ex_measurement_identity e =
          resolve_measurement_identity (ww_sha ww) (ww_fr ww) (ww_override ww) (panel_config task_ids c) regime"
    using finished_panel_accepted [OF assms(1-3) _ _ xe heard] assms(4) by simp
next
  fix x rest
  assume "failing = Inl x # rest"
  then show "\<exists>m e s. run_isolated_experiment (rk_loads k) task_ids t (parent_view (rk_fr k) live late xe now) =
          (Inl (Measurement.MeasurementError m (Some e)), xe_store xe, s) \<and>
        su_seen s = told live @ late \<and> ex_crash_reason e = Some (error_text (to_exc x)) \<and> holds_rollouts e rs"
    using failed_panel_rejected [OF assms(1-3) _ xe heard] assms(4) by simp
qed

definition sample_rollouts :: "rollout_result list" where
  "sample_rollouts = [sample_rollout ''b'' Solved, sample_rollout ''a'' HitTimeout]"

definition sample_worker :: worker_world where
  "sample_worker = \<lparr>ww_src_from_cwd = True, ww_load_config = (\<lambda>_. Inr sample_config), ww_cache_env = True,
     ww_cache_disabled = False, ww_open_cache = Inr (),
     ww_checkout = \<lparr>co_head = ''c1'', co_dirty = False, co_refs = []\<rparr>, ww_update_ref = (\<lambda>_ _. Inr ()),
     ww_utc = \<lparr>ut_year = 2025, ut_month = 1, ut_day = 2, ut_hour = 3, ut_minute = 4, ut_second = 5, ut_microsecond = 6\<rparr>,
     ww_started_at = 0, ww_finished_at = 7, ww_sha = id, ww_fr = rk_fr sample_replay_kit, ww_override = None,
     ww_fingerprint = (\<lambda>_. Inr []), ww_dump = (\<lambda>_. JNull), ww_load_tasks = (\<lambda>_. Inr ()),
     ww_finished = (\<lambda>_. map Inr sample_rollouts)\<rparr>"

definition sample_live :: heard where
  "sample_live = [(Some (ObsStarted ''r1''), 1), (None, 3), (Some ObsHeartbeat, 60), (Some (ObsTask ''b'' ''solved''), 61)]"

lemma sample_start: "healthy_start sample_worker ''c.yaml'' sample_config [''a'', ''b''] (Some ''r1'')"
  using sample_config_ok by (simp add: healthy_start_def sample_worker_def chosen_id_def)

lemma sample_finishes:
  "sampled_rollouts sample_worker (panel_config [''a'', ''b''] sample_config) [''a'', ''b''] sample_rollouts []"
  by (simp add: sampled_rollouts_def sample_worker_def sample_rollouts_def sample_rollout_def rollout_ok_def)

lemma sample_heard:
  assumes "xe = worker_main (rk_loads sample_replay_kit) sample_worker
    (worker_argv (rk_fr sample_replay_kit) ''py'' ''c.yaml'' ''exp'' 3 [''a'', ''b''] (Some ''r1'')) empty_store"
  shows "heard_from 0 sample_live [ObsTask ''a'' ''hit_timeout''] xe"
proof -
  let ?c = "panel_config [''a'', ''b''] sample_config"
  obtain r st' where run: "run_experiment (experiment_facts sample_worker ?c (chosen_id sample_worker (Some ''r1''))
      (resolve_measurement_identity (ww_sha sample_worker) (ww_fr sample_worker) (ww_override sample_worker) ?c []))
      (Inr ()) (map Inr sample_rollouts @ []) (ww_finished_at sample_worker) empty_store = (r, st')"
    by (rule prod.exhaust)
  have "ww_fingerprint sample_worker ?c = Inr []" by (simp add: sample_worker_def)
  note ev = worker_samples(3) [OF sample_start sample_kit_ok(1) this sample_finishes disjI1 [OF refl] refl run assms]
  have "chosen_id sample_worker (Some ''r1'') = ''r1''" by (simp add: chosen_id_def)
  then show ?thesis
    unfolding heard_from_def ev by (simp add: sample_live_def sample_rollouts_def sample_rollout_def WATCHDOG_INACTIVITY_SEC_def)
qed

theorem honest_measurement_accepted_witness:
  "\<exists>xe e s. run_isolated_experiment (rk_loads sample_replay_kit) [''a'', ''b''] 0
      (parent_view (rk_fr sample_replay_kit) sample_live [ObsTask ''a'' ''hit_timeout''] xe 9) = (Inr (as_parsed e), xe_store xe, s) \<and>
    su_seen s = told sample_live @ [ObsTask ''a'' ''hit_timeout''] \<and> ex_git_commit_hash e = ''c1'' \<and>
    holds_rollouts e sample_rollouts"
proof -
  let ?xe = "worker_main (rk_loads sample_replay_kit) sample_worker
    (worker_argv (rk_fr sample_replay_kit) ''py'' ''c.yaml'' ''exp'' 3 [''a'', ''b''] (Some ''r1'')) empty_store"
  have fp: "ww_fingerprint sample_worker (panel_config [''a'', ''b''] sample_config) = Inr []"
    and head: "co_head (ww_checkout sample_worker) = ''c1''"
    by (simp_all add: sample_worker_def)
  have panel: "[] = [] \<and> set (map rr_task_id sample_rollouts) = set [''a'', ''b'']"
    by (auto simp: sample_rollouts_def sample_rollout_def)
  note h = honest_measurement_accepted [OF sample_kit_ok(1) sample_start fp sample_finishes refl sample_heard [OF refl],
    of 9, THEN conjunct1, rule_format, OF panel]
  show ?thesis
    using h unfolding head by (elim exE conjE) (intro exI conjI, assumption+)
qed

section \<open>Replay with the scrubber's own table\<close>

text \<open>The rule table is not idempotent on every text; on what a rollout observes it can well be, which is what the
  replay refinement asks for.\<close>

definition residual_kit :: replay_kit where
  "residual_kit = sample_replay_kit\<lparr>rk_rules := residual_rules\<rparr>"

lemma residual_kit_same:
  "chain_digest residual_kit = chain_digest sample_replay_kit" "rk_sha residual_kit = rk_sha sample_replay_kit"
  "rk_fr residual_kit = rk_fr sample_replay_kit" "loads_inverts residual_kit"
  "step_rows residual_kit = step_rows sample_replay_kit"
proof -
  show same: "chain_digest residual_kit = chain_digest sample_replay_kit"
  proof -
    have "next_digest residual_kit = next_digest sample_replay_kit"
      by (intro ext) (simp add: next_digest_def residual_kit_def)
    then show ?thesis by (intro ext) (simp add: chain_digest_def)
  qed
  show "loads_inverts residual_kit" using sample_kit_ok(1) by (simp add: loads_inverts_def residual_kit_def)
  show "step_rows residual_kit = step_rows sample_replay_kit"
    by (intro ext) (simp add: step_rows_def same, simp add: residual_kit_def)
qed (simp_all add: residual_kit_def)

lemma residual_settles: "scrub_settles residual_kit counting_env 0 [run_of ''make'']"
proof -
  have "scrub_nondeterminism residual_rules (Some ''make'') ''0'' = ''0''"
    and "scrub_nondeterminism residual_rules (Some ''make'') [] = []" by code_simp+
  then have "rk_scrub residual_kit (run_of ''make'') (counted 0) = counted 0"
    by (simp add: rk_scrub_def residual_kit_def scrub_step_result_def scrub_raw_env_output_def counted_def
        plain_step_def empty_output_def run_of_def nat_str_def nat_digits.simps digit_char_def)
  then show ?thesis
    by (auto simp: scrub_settles_def settled_def live_run_def counting_run take_Cons' split: if_splits)
qed

theorem replay_refines_live_witness:
  "\<exists>v rs st. executor_rollout (live_step_executor counting_env) [run_of ''make''] 0 = (Inr [counted 0, v], 1) \<and>
    executor_rollout (replay_executor residual_kit counting_env) [run_of ''make'']
      (replay_start residual_kit ''ns'' 0 recorded_world 0) = (Inr rs, st) \<and>
    list_all2 same_json rs [counted 0, v]"
proof -
  obtain res st where run: "executor_rollout (replay_executor residual_kit counting_env) [run_of ''make'']
      (replay_start residual_kit ''ns'' 0 recorded_world 0) = (res, st)" by fastforce
  obtain v where live: "executor_rollout (live_step_executor counting_env) [run_of ''make''] 0 = (Inr [counted 0, v], 1)"
    by (simp add: executor_rollout_def executor_submit_def live_step_executor_def counting_run)
      (simp add: execute_env_action_def env_core_def counting_env_def)
  note [simp] = residual_kit_same(1-3,5)
  have "world_valid (step_rows residual_kit counting_env
      (rk_sha residual_kit (canonical_scope (rk_fr residual_kit) ''ns'' 0)) 0 (rollout_chains [run_of ''make''])) recorded_world"
    using recorded_valid by simp
  moreover have "inj_on (chain_digest residual_kit (rk_sha residual_kit (canonical_scope (rk_fr residual_kit) ''ns'' 0)))
      (rollout_chains [run_of ''make''])"
    using sample_chains_distinct by simp
  ultimately show ?thesis
    using replay_refines_live [OF run live refl _ subset_refl _ residual_kit_same(4) residual_settles sample_env_ok] run live
    by auto
qed

end
